(* ===== verification/Prelude.thy ===== *)
theory Prelude
  imports Main "HOL-Library.Word"
begin

text \<open>
  Shared vocabulary of the development.

  The Go integers keep their width: \<open>uint8\<close> is \<open>byte\<close>, \<open>uint32\<close> is \<open>u32\<close>, \<open>uint64\<close> is
  \<open>u64\<close>; \<open>math/big\<close> values are \<open>int\<close>. The fixed arrays \<open>[32]byte\<close> (hashes, task ids) and
  \<open>[20]byte\<close> (addresses) are byte lists whose length is a hypothesis where a fact needs it.
  A Go function that returns \<open>(value, error)\<close> returns an \<open>outcome\<close>: \<open>Ok\<close> the value, \<open>Err\<close> the
  error, \<open>Panic\<close> a run-time panic.

  The theory also holds the big-endian codecs that the encoders of the program share: the
  fixed-width codec (\<open>be_bytes\<close>, \<open>be_nat\<close>), the minimal codec of \<open>big.Int.Bytes\<close> and
  \<open>big.Int.SetBytes\<close> (\<open>big_bytes\<close>), and the hand-written shifts of \<open>encodeUint64\<close>.
\<close>

unbundle bit_operations_syntax

type_synonym byte = "8 word"
type_synonym u16 = "16 word"
type_synonym u32 = "32 word"
type_synonym u64 = "64 word"
type_synonym hash = "byte list"
type_synonym address = "byte list"

named_theorems be_simps \<open>simplification rules of the big-endian codecs\<close>

section \<open>Outcomes of Go functions\<close>

datatype ('e, 'a) outcome = Ok 'a | Err 'e | Panic

fun obind :: "('e, 'a) outcome \<Rightarrow> ('a \<Rightarrow> ('e, 'b) outcome) \<Rightarrow> ('e, 'b) outcome" where
  "obind (Ok a) f = f a"
| "obind (Err e) f = Err e"
| "obind Panic f = Panic"

lemma obind_Ok_iff:
  "obind r f = Ok b \<longleftrightarrow> (\<exists>a. r = Ok a \<and> f a = Ok b)"
  by (cases r) auto

lemma obind_Ok_right [simp]: "obind r Ok = r"
  by (cases r) auto

lemma obind_assoc: "obind (obind r f) g = obind r (\<lambda>a. obind (f a) g)"
  by (cases r) auto

lemma obind_cong: "r = r' \<Longrightarrow> (\<And>a. r' = Ok a \<Longrightarrow> f a = g a) \<Longrightarrow> obind r f = obind r' g"
  by (cases r') auto

section \<open>Big-endian codecs\<close>

fun be_bytes :: "nat \<Rightarrow> nat \<Rightarrow> byte list" where
  "be_bytes 0 v = []"
| "be_bytes (Suc n) v = be_bytes n (v div 256) @ [word_of_nat v]"

definition be_nat :: "byte list \<Rightarrow> nat" where
  "be_nat bs = foldl (\<lambda>a b. a * 256 + unat b) 0 bs"

lemma be_nat_Nil [simp]: "be_nat [] = 0"
  by (simp add: be_nat_def)

lemma be_nat_snoc [simp]: "be_nat (bs @ [b]) = be_nat bs * 256 + unat b"
  by (simp add: be_nat_def)

lemma length_be_bytes [simp, be_simps]: "length (be_bytes n v) = n"
  by (induction n arbitrary: v) auto

lemma unat_byte_of_nat [be_simps]: "unat (word_of_nat v :: byte) = v mod 256"
  by (simp add: unat_of_nat)

lemma unat_byte_less [simp]: "unat (b :: byte) < 256"
  using unsigned_less [of b] by simp

lemma be_nat_be_bytes_mod: "be_nat (be_bytes n v) = v mod 256 ^ n"
proof (induction n arbitrary: v)
  case 0
  then show ?case by simp
next
  case (Suc n)
  have "v mod 256 ^ Suc n = (v div 256) mod 256 ^ n * 256 + v mod 256"
    using mod_mult2_eq [of v 256 "256 ^ n"] by (simp add: mult.commute)
  then show ?case
    using Suc.IH [of "v div 256"] by (simp add: unat_byte_of_nat)
qed

lemma be_nat_be_bytes [be_simps]: "v < 256 ^ n \<Longrightarrow> be_nat (be_bytes n v) = v"
  by (simp add: be_nat_be_bytes_mod)

lemma digit_less: "(y :: nat) < x \<Longrightarrow> d < 256 \<Longrightarrow> y * 256 + d < 256 * x"
  by arith

lemma be_nat_less: "be_nat bs < 256 ^ length bs"
  by (induction bs rule: rev_induct) (simp_all add: digit_less)

lemma be_bytes_be_nat [be_simps]: "be_bytes (length bs) (be_nat bs) = bs"
proof (induction bs rule: rev_induct)
  case Nil
  then show ?case by simp
next
  case (snoc b bs)
  have "(be_nat bs * 256 + unat b) div 256 = be_nat bs"
    using unat_byte_less [of b] by simp
  moreover have "(word_of_nat (be_nat bs * 256 + unat b) :: byte) = b"
  proof -
    have "unat (word_of_nat (be_nat bs * 256 + unat b) :: byte) = unat b"
      unfolding unat_byte_of_nat using unat_byte_less [of b] by (simp del: unat_byte_less)
    then show ?thesis by (rule word_unat_eq_iff [THEN iffD2])
  qed
  ultimately show ?case
    using snoc by simp
qed

lemma be_bytes_inj: "be_bytes n v = be_bytes n w \<Longrightarrow> v < 256 ^ n \<Longrightarrow> w < 256 ^ n \<Longrightarrow> v = w"
  by (metis be_nat_be_bytes)

subsection \<open>Minimal encodings: \<open>big.Int.Bytes\<close> and \<open>big.Int.SetBytes\<close>\<close>

fun big_bytes_nat :: "nat \<Rightarrow> byte list" where
  "big_bytes_nat n = (if n = 0 then [] else big_bytes_nat (n div 256) @ [word_of_nat n])"

declare big_bytes_nat.simps [simp del]

lemma big_bytes_nat_0 [simp]: "big_bytes_nat 0 = []"
  by (simp add: big_bytes_nat.simps)

lemma be_nat_big_bytes_nat [be_simps]: "be_nat (big_bytes_nat n) = n"
proof (induction n rule: big_bytes_nat.induct)
  case (1 n)
  then show ?case
    by (cases "n = 0") (simp_all add: big_bytes_nat.simps [of n] unat_byte_of_nat)
qed

lemma big_bytes_nat_eq_Nil [simp]: "big_bytes_nat n = [] \<longleftrightarrow> n = 0"
  by (simp add: big_bytes_nat.simps [of n])

lemma unat_eq_iff [simp]: "unat a = unat b \<longleftrightarrow> a = b"
  by (rule word_unat_eq_iff [symmetric])

text \<open>\<open>Bytes\<close> drops the sign of a \<open>big.Int\<close>; \<open>SetBytes\<close> yields a non-negative one.\<close>

definition big_bytes :: "int \<Rightarrow> byte list" where
  "big_bytes v = big_bytes_nat (nat \<bar>v\<bar>)"

definition big_set_bytes :: "byte list \<Rightarrow> int" where
  "big_set_bytes bs = int (be_nat bs)"

lemma big_set_bytes_big_bytes [be_simps]: "big_set_bytes (big_bytes v) = \<bar>v\<bar>"
  by (simp add: big_set_bytes_def big_bytes_def be_nat_big_bytes_nat)

lemma big_set_bytes_nonneg [simp]: "0 \<le> big_set_bytes bs"
  by (simp add: big_set_bytes_def)

lemma big_bytes_eq_Nil [simp]: "big_bytes v = [] \<longleftrightarrow> v = 0"
  by (simp add: big_bytes_def)

lemma big_bytes_0 [simp]: "big_bytes 0 = []"
  by simp

lemma length_big_bytes_nat_le: "n < 256 ^ k \<Longrightarrow> length (big_bytes_nat n) \<le> k"
proof (induction n arbitrary: k rule: big_bytes_nat.induct)
  case (1 n)
  show ?case
  proof (cases "n = 0")
    case False
    with "1.prems" obtain j where k: "k = Suc j" by (cases k) auto
    with "1.prems" have "n div 256 < 256 ^ j"
      by (simp add: div_less_iff_less_mult mult.commute)
    with "1.IH" [OF False] k False show ?thesis
      by (simp add: big_bytes_nat.simps [of n])
  qed simp
qed

subsection \<open>The shifts written out in the code\<close>

text \<open>\<open>b[0] = byte(v >> 56)\<close> and so on: the eight bytes of a \<open>uint64\<close>, high byte first.\<close>

definition u64_bytes :: "u64 \<Rightarrow> byte list" where
  "u64_bytes v = [ucast (drop_bit 56 v), ucast (drop_bit 48 v), ucast (drop_bit 40 v),
     ucast (drop_bit 32 v), ucast (drop_bit 24 v), ucast (drop_bit 16 v),
     ucast (drop_bit 8 v), ucast v]"

text \<open>\<open>uint64(data[0])<<56 | uint64(data[1])<<48 | ...\<close>\<close>

definition u64_of_bytes :: "byte list \<Rightarrow> u64" where
  "u64_of_bytes d = push_bit 56 (ucast (d ! 0)) OR push_bit 48 (ucast (d ! 1))
     OR push_bit 40 (ucast (d ! 2)) OR push_bit 32 (ucast (d ! 3))
     OR push_bit 24 (ucast (d ! 4)) OR push_bit 16 (ucast (d ! 5))
     OR push_bit 8 (ucast (d ! 6)) OR ucast (d ! 7)"

lemma length_u64_bytes [simp]: "length (u64_bytes v) = 8"
  by (simp add: u64_bytes_def)

lemma word_of_nat_drop_bit:
  "(word_of_nat (unat (v :: u64) div 2 ^ k) :: byte) = ucast (drop_bit k v)"
  by (rule bit_word_eqI) (simp add: bit_simps drop_bit_eq_div [symmetric])

lemma be_bytes_1: "be_bytes 1 v = [word_of_nat v]"
  by (simp flip: One_nat_def add: be_bytes.simps(2) [of 0, folded One_nat_def])

lemma u64_bytes_be: "u64_bytes v = be_bytes 8 (unat v)"
proof -
  have "be_bytes 8 (unat v) = map (\<lambda>k. word_of_nat (unat v div 2 ^ k)) [56, 48, 40, 32, 24, 16, 8, 0]"
    by (simp add: be_bytes.simps(2) [where n = "pred_numeral k" for k, folded numeral_eq_Suc] be_bytes_1 div_mult2_eq [symmetric])
  then show ?thesis
    by (simp add: u64_bytes_def word_of_nat_drop_bit)
qed

lemma bit_push_byte:
  assumes "n < 64"
  shows "bit (push_bit k (ucast (ucast (drop_bit k v) :: byte)) :: u64) n \<longleftrightarrow> k \<le> n \<and> n < k + 8 \<and> bit (v :: u64) n"
  using assms by (auto simp: bit_simps)

lemma bit_low_byte:
  assumes "n < 64"
  shows "bit (ucast (ucast v :: byte) :: u64) n \<longleftrightarrow> n < 8 \<and> bit (v :: u64) n"
  using assms by (auto simp: bit_simps)

lemma u64_of_bytes_list:
  "u64_of_bytes [a, b, c, d, e, f, g, h] = push_bit 56 (ucast a) OR push_bit 48 (ucast b)
     OR push_bit 40 (ucast c) OR push_bit 32 (ucast d) OR push_bit 24 (ucast e)
     OR push_bit 16 (ucast f) OR push_bit 8 (ucast g) OR ucast h"
  by (simp add: u64_of_bytes_def)

lemma u64_of_bytes_u64_bytes [be_simps]: "u64_of_bytes (u64_bytes v) = v"
proof (rule bit_word_eqI)
  fix n assume "n < LENGTH(64)"
  then have n: "n < 64" by simp
  have "bit (u64_of_bytes (u64_bytes v)) n \<longleftrightarrow>
     56 \<le> n \<and> n < 56 + 8 \<and> bit v n \<or> 48 \<le> n \<and> n < 48 + 8 \<and> bit v n \<or> 40 \<le> n \<and> n < 40 + 8 \<and> bit v n
      \<or> 32 \<le> n \<and> n < 32 + 8 \<and> bit v n \<or> 24 \<le> n \<and> n < 24 + 8 \<and> bit v n \<or> 16 \<le> n \<and> n < 16 + 8 \<and> bit v n
      \<or> 8 \<le> n \<and> n < 8 + 8 \<and> bit v n \<or> n < 8 \<and> bit v n"
    unfolding u64_bytes_def u64_of_bytes_list bit_or_iff bit_push_byte [OF n] bit_low_byte [OF n]
    by (rule refl)
  also have "\<dots> \<longleftrightarrow> bit v n"
    using n by (cases "bit v n") (simp_all, arith)
  finally show "bit (u64_of_bytes (u64_bytes v)) n \<longleftrightarrow> bit v n" .
qed

lemma map_le_Some: "f \<subseteq>\<^sub>m g \<Longrightarrow> f x = Some y \<Longrightarrow> g x = Some y"
  by (force simp: map_le_def)

lemma map_le_None: "f \<subseteq>\<^sub>m g \<Longrightarrow> g x = None \<Longrightarrow> f x = None"
  by (rule ccontr) (auto dest: map_le_Some)

text \<open>An iteration order of a Go map: it enumerates the keys, each once.\<close>

definition go_order :: "('a set \<Rightarrow> 'a list) \<Rightarrow> bool" where
  "go_order ord \<longleftrightarrow> (\<forall>A. finite A \<longrightarrow> set (ord A) = A \<and> distinct (ord A))"

lemma go_order_sorted: "go_order (sorted_list_of_set :: ('a :: linorder) set \<Rightarrow> 'a list)"
  by (simp add: go_order_def)

end
