(* ===== verification/NibbleCodec.thy ===== *)
theory NibbleCodec
  imports Prelude
begin

text \<open>
  The nibble paths of the Merkle-Patricia trie, \<^verbatim>\<open>src/internal/state/mpt/encoding.go\<close>:
  \<open>KeyToNibbles\<close>, \<open>NibblesToKey\<close>, the hex-prefix encoding \<open>CompactEncode\<close> and
  \<open>CompactDecode\<close>, and \<open>CommonPrefix\<close>. A Go \<open>nil\<close> slice and an empty slice are both the
  empty list here: no caller of these functions tells them apart.
\<close>

section \<open>Definitions\<close>

fun key_to_nibbles :: "byte list \<Rightarrow> byte list" where
  "key_to_nibbles [] = []"
| "key_to_nibbles (b # key) = drop_bit 4 b # (b AND 0x0f) # key_to_nibbles key"

text \<open>The loop \<open>nibbles[2*i] << 4 | nibbles[2*i+1]\<close> that packs pairs of nibbles.\<close>

fun pack_nibbles :: "byte list \<Rightarrow> byte list" where
  "pack_nibbles (h # l # ns) = (push_bit 4 h OR l) # pack_nibbles ns"
| "pack_nibbles _ = []"

definition nibbles_to_key :: "byte list \<Rightarrow> (unit, byte list) outcome" where
  "nibbles_to_key ns =
     (if length ns = 0 then Ok []
      else if length ns mod 2 \<noteq> 0 then Panic
      else Ok (pack_nibbles ns))"

definition compact_flag :: "byte list \<Rightarrow> bool \<Rightarrow> byte" where
  "compact_flag ns isLeaf =
     (if isLeaf then 0x20 else 0) OR (if length ns mod 2 = 0 then 0 else 0x10)"

definition compact_encode :: "byte list \<Rightarrow> bool \<Rightarrow> byte list" where
  "compact_encode ns isLeaf =
     (if length ns = 0 then [0x00]
      else if length ns mod 2 = 0 then compact_flag ns isLeaf # pack_nibbles ns
      else (compact_flag ns isLeaf OR hd ns) # pack_nibbles (tl ns))"

definition compact_decode :: "byte list \<Rightarrow> byte list \<times> bool" where
  "compact_decode enc = (case enc of
     [] \<Rightarrow> ([], False)
   | flag # rest \<Rightarrow>
       (let isLeaf = (flag AND 0x20 \<noteq> 0); isOdd = (flag AND 0x10 \<noteq> 0)
        in (if isOdd then (flag AND 0x0f) # key_to_nibbles rest else key_to_nibbles rest, isLeaf)))"

fun common_prefix :: "byte list \<Rightarrow> byte list \<Rightarrow> nat" where
  "common_prefix (a # as) (b # bs) = (if a \<noteq> b then 0 else Suc (common_prefix as bs))"
| "common_prefix _ _ = 0"

section \<open>Nibbles\<close>

definition nibble :: "byte \<Rightarrow> bool" where
  "nibble b \<longleftrightarrow> drop_bit 4 b = 0"

lemma nibble_iff: "nibble b \<longleftrightarrow> unat b < 16"
proof -
  have "nibble b \<longleftrightarrow> unat (drop_bit 4 b) = 0"
    unfolding nibble_def by (rule unat_eq_0 [symmetric])
  then show ?thesis
    by (simp add: drop_bit_eq_div unat_div_distrib div_eq_0_iff)
qed

lemma nibble_bit: "nibble b \<Longrightarrow> bit b n \<Longrightarrow> n < 4"
proof (rule ccontr)
  assume "nibble b" "bit b n" "\<not> n < 4"
  then have "bit (drop_bit 4 b) (n - 4)" by (simp add: bit_simps)
  with \<open>nibble b\<close> show False by (simp add: nibble_def)
qed

lemma nibble_high [simp]: "nibble (drop_bit 4 b)"
  by (simp add: nibble_iff drop_bit_eq_div unat_div_distrib div_less_iff_less_mult)

lemma low_mask: "(b AND 0x0f :: byte) = take_bit 4 b"
proof -
  have "(0x0f :: byte) = mask 4" by (simp add: mask_eq_exp_minus_1)
  then show ?thesis by (simp add: take_bit_eq_mask)
qed

lemma nibble_low [simp]: "nibble (b AND 0x0f)"
  unfolding low_mask by (simp add: nibble_def drop_bit_take_bit)

lemma pack_unpack: "push_bit 4 (drop_bit 4 b) OR (b AND 0x0f) = b" for b :: byte
  unfolding low_mask by (rule bit_word_eqI) (auto simp: bit_simps)

lemma unpack_high: "nibble h \<Longrightarrow> nibble l \<Longrightarrow> drop_bit 4 (push_bit 4 h OR l) = h"
  by (rule bit_word_eqI) (auto simp: bit_simps dest: nibble_bit)

lemma unpack_low: "nibble l \<Longrightarrow> (push_bit 4 h OR l) AND 0x0f = l"
  unfolding low_mask by (rule bit_word_eqI) (auto simp: bit_simps dest: nibble_bit)

section \<open>Keys and paths\<close>

lemma length_key_to_nibbles [simp]: "length (key_to_nibbles k) = 2 * length k"
  by (induction k) auto

lemma key_to_nibbles_nibble: "n \<in> set (key_to_nibbles k) \<Longrightarrow> nibble n"
  by (induction k) auto

lemma pack_key_to_nibbles [simp]: "pack_nibbles (key_to_nibbles k) = k"
  by (induction k) (simp_all add: pack_unpack)

lemma key_to_nibbles_pack:
  "even (length ns) \<Longrightarrow> \<forall>n \<in> set ns. nibble n \<Longrightarrow> key_to_nibbles (pack_nibbles ns) = ns"
  by (induction ns rule: pack_nibbles.induct) (auto simp: unpack_high unpack_low simp del: drop_bit_or)

lemma key_to_nibbles_inject [simp]: "key_to_nibbles a = key_to_nibbles b \<longleftrightarrow> a = b"
  by (metis pack_key_to_nibbles)

section \<open>Common prefixes\<close>

lemma common_prefix_le: "common_prefix a b \<le> length a" "common_prefix a b \<le> length b"
  by (induction a b rule: common_prefix.induct) auto

lemma take_common_prefix: "take (common_prefix a b) a = take (common_prefix a b) b"
  by (induction a b rule: common_prefix.induct) auto

lemma common_prefix_full: "common_prefix a b = length a \<longleftrightarrow> (\<exists>c. b = a @ c)"
  by (induction a b rule: common_prefix.induct) auto

lemma common_prefix_split:
  obtains p a' b' where "a = p @ a'" "b = p @ b'" "common_prefix a b = length p"
    "a' = [] \<or> b' = [] \<or> hd a' \<noteq> hd b'"
proof -
  have "\<exists>p a' b'. a = p @ a' \<and> b = p @ b' \<and> common_prefix a b = length p \<and>
      (a' = [] \<or> b' = [] \<or> hd a' \<noteq> hd b')"
  proof (induction a b rule: common_prefix.induct)
    case (1 a as b bs)
    show ?case
    proof (cases "a = b")
      case True
      with 1 obtain p a' b' where "as = p @ a'" "bs = p @ b'" "common_prefix as bs = length p"
        "a' = [] \<or> b' = [] \<or> hd a' \<noteq> hd b'" by auto
      with True show ?thesis 
        by (intro exI [of _ "a # p"] exI [of _ a'] exI [of _ b']) simp
    next
      case False
      then show ?thesis
        by (intro exI [of _ "[]"] exI [of _ "a # as"] exI [of _ "b # bs"]) simp
    qed
  qed auto
  with that show ?thesis by blast
qed

text \<open>The common-prefix length is the largest one: the paths differ right after it.\<close>

lemma common_prefix_maximal:
  assumes "common_prefix a b < n"
  shows "n > length a \<or> n > length b \<or> take n a \<noteq> take n b"
proof (rule ccontr)
  assume neg: "\<not> ?thesis"
  obtain p a' b' where s: "a = p @ a'" "b = p @ b'" "common_prefix a b = length p"
    "a' = [] \<or> b' = [] \<or> hd a' \<noteq> hd b'" by (rule common_prefix_split)
  from assms s obtain m where m: "n = length p + Suc m"
    by (metis add_Suc_right less_iff_Suc_add)
  from neg s m have "take (Suc m) a' = take (Suc m) b'" "a' \<noteq> []" "b' \<noteq> []" by auto
  then have "hd a' = hd b'" by (cases a'; cases b') auto
  with s \<open>a' \<noteq> []\<close> \<open>b' \<noteq> []\<close> show False by simp
qed

section \<open>Hex-prefix flags\<close>

lemma flag_bits:
  assumes "nibble n"
  shows "((0x10 OR n) AND 0x20 :: byte) = 0" "((0x30 OR n) AND 0x20 :: byte) \<noteq> 0"
    "((0x10 OR n) AND 0x10 :: byte) \<noteq> 0" "((0x30 OR n) AND 0x10 :: byte) \<noteq> 0"
    "((0x10 OR n) AND 0x0f :: byte) = n" "((0x30 OR n) AND 0x0f :: byte) = n"
proof -
  have all: "list_all (\<lambda>m :: byte. (0x10 OR m) AND 0x20 = 0 \<and> (0x30 OR m) AND 0x20 \<noteq> 0 \<and>
      (0x10 OR m) AND 0x10 \<noteq> 0 \<and> (0x30 OR m) AND 0x10 \<noteq> 0 \<and>
      (0x10 OR m) AND 0x0f = m \<and> (0x30 OR m) AND 0x0f = m) (map word_of_nat [0..<16])"
    by (simp add: upt_rec)
  have "n \<in> set (map word_of_nat [0..<16])"
    using assms by (auto simp: nibble_iff image_iff intro: bexI [of _ "unat n"])
  with all show "((0x10 OR n) AND 0x20 :: byte) = 0" "((0x30 OR n) AND 0x20 :: byte) \<noteq> 0"
    "((0x10 OR n) AND 0x10 :: byte) \<noteq> 0" "((0x30 OR n) AND 0x10 :: byte) \<noteq> 0"
    "((0x10 OR n) AND 0x0f :: byte) = n" "((0x30 OR n) AND 0x0f :: byte) = n"
    unfolding list_all_iff by blast+
qed

lemma compact_decode_odd:
  assumes "nibble n" and "even (length ns)"
  shows "compact_decode ((compact_flag (n # ns) isLeaf OR n) # rest) = (n # key_to_nibbles rest, isLeaf)"
  using flag_bits [OF assms(1)] assms(2)
  by (cases isLeaf) (simp_all add: compact_decode_def compact_flag_def flip: even_iff_mod_2_eq_zero)

lemma compact_decode_even:
  assumes "even (length ns)"
  shows "compact_decode (compact_flag ns isLeaf # rest) = (key_to_nibbles rest, isLeaf)"
  using assms by (cases isLeaf) (simp_all add: compact_decode_def compact_flag_def)

section \<open>Properties\<close>

text \<open>
  A key expanded by \<open>KeyToNibbles\<close> is packed back by \<open>NibblesToKey\<close> without loss, for
  every key, and every element of the expansion is a nibble (\<open>< 16\<close>), which is what indexes
  the sixteen children of a branch node.
\<close>

theorem nibbles_roundtrip:
  "nibbles_to_key (key_to_nibbles key) = Ok key \<and> list_all nibble (key_to_nibbles key)"
  by (auto simp: nibbles_to_key_def list_all_iff key_to_nibbles_nibble)

text \<open>
  \<open>CompactDecode\<close> inverts \<open>CompactEncode\<close> on every path of nibbles, of either parity, and
  returns the leaf flag it was given, except on the empty path: there the flag is dropped, so
  a leaf with an empty path decodes as an extension.
\<close>

theorem compact_roundtrip:
  assumes "list_all nibble ns"
  shows "compact_decode (compact_encode ns isLeaf) = (ns, isLeaf \<and> ns \<noteq> [])"
proof (cases ns)
  case Nil
  then show ?thesis by (simp add: compact_encode_def compact_decode_def)
next
  case (Cons n ms)
  with assms have n: "nibble n" and ms: "\<forall>m \<in> set ms. nibble m"
    by (simp_all add: list_all_iff)
  show ?thesis
  proof (cases "even (length ms)")
    case True
    with Cons show ?thesis
      using compact_decode_odd [OF n, of ms isLeaf]
      by (simp add: compact_encode_def key_to_nibbles_pack ms flip: even_iff_mod_2_eq_zero)
  next
    case False
    with Cons assms show ?thesis
      using compact_decode_even [of ns isLeaf "pack_nibbles ns"]
      by (simp add: compact_encode_def key_to_nibbles_pack list_all_iff flip: even_iff_mod_2_eq_zero)
  qed
qed

theorem compact_roundtrip_witness:
  "compact_decode (compact_encode [1, 2, 3] True) = ([1, 2, 3], True)"
  using compact_roundtrip [of "[1, 2, 3]" True] by (simp add: nibble_def)

end
