(* ===== verification/TrieNode.thy ===== *)
theory TrieNode
  imports NibbleCodec
begin

text \<open>
  The nodes of the Merkle-Patricia trie, \<^verbatim>\<open>src/internal/state/mpt/node.go\<close>, and the map that a
  node stands for.

  A \<open>[]byte\<close> value is a \<open>gobytes\<close>: \<open>None\<close> is a \<open>nil\<close> slice, which the trie reads as "no value".
  A child slot of a branch is \<open>None\<close> for a \<open>nil\<close> interface. The database is a function \<open>db\<close>
  from a hash to the node \<open>GetNode\<close> returns for it, \<open>None\<close> where \<open>GetNode\<close> returns an error.

  \<open>lookup db n\<close> is the abstraction: the map from nibble paths to values that the subtree at
  \<open>n\<close> holds when hash nodes are read through \<open>db\<close>. It is computed by \<open>look\<close>, which carries
  fuel because a database may hold cyclic nodes; \<open>look_enough\<close> shows that twice the path
  length and two is enough for well-formed nodes.
\<close>

section \<open>Nodes\<close>

type_synonym gobytes = "byte list option"

record node_meta =
  hashCache :: hash
  dirtyFlag :: bool
  hashValid :: bool

datatype node =
    NilNode
  | HashNode hash
  | Leaf "byte list" gobytes node_meta
  | Ext "byte list" node node_meta
  | Branch "node option list" gobytes node_meta

type_synonym nodedb = "hash \<Rightarrow> node option"

datatype node_kind = KindNil | KindLeaf | KindExtension | KindBranch | KindHash

fun kind :: "node \<Rightarrow> node_kind" where
  "kind NilNode = KindNil"
| "kind (HashNode _) = KindHash"
| "kind (Leaf _ _ _) = KindLeaf"
| "kind (Ext _ _ _) = KindExtension"
| "kind (Branch _ _ _) = KindBranch"

definition empty_node_hash :: hash where
  "empty_node_hash = replicate 32 0"

text \<open>The cached fields of a node built by \<open>&leafNode{..., dirtyFlag: true}\<close>.\<close>

definition fresh_meta :: node_meta where
  "fresh_meta = \<lparr>hashCache = empty_node_hash, dirtyFlag = True, hashValid = False\<rparr>"

definition clean_meta :: node_meta where
  "clean_meta = \<lparr>hashCache = empty_node_hash, dirtyFlag = False, hashValid = False\<rparr>"

fun node_hash :: "node \<Rightarrow> hash" where
  "node_hash NilNode = empty_node_hash"
| "node_hash (HashNode h) = h"
| "node_hash (Leaf _ _ m) = hashCache m"
| "node_hash (Ext _ _ m) = hashCache m"
| "node_hash (Branch _ _ m) = hashCache m"

fun cached_hash :: "node \<Rightarrow> hash \<times> bool" where
  "cached_hash NilNode = (empty_node_hash, True)"
| "cached_hash (HashNode h) = (h, True)"
| "cached_hash (Leaf _ _ m) = (hashCache m, hashValid m)"
| "cached_hash (Ext _ _ m) = (hashCache m, hashValid m)"
| "cached_hash (Branch _ _ m) = (hashCache m, hashValid m)"

text \<open>A child slot counts as a child when it is not \<open>nil\<close> and not a nil node.\<close>

fun live_child :: "node option \<Rightarrow> bool" where
  "live_child None = False"
| "live_child (Some c) = (kind c \<noteq> KindNil)"

definition has_children :: "node option list \<Rightarrow> nat" where
  "has_children ch = length (filter live_child ch)"

section \<open>Well-formed nodes\<close>

fun wf_node :: "node \<Rightarrow> bool" where
  "wf_node NilNode = True"
| "wf_node (HashNode _) = True"
| "wf_node (Leaf s _ _) = list_all nibble s"
| "wf_node (Ext p n _) = (p \<noteq> [] \<and> list_all nibble p \<and> wf_node n)"
| "wf_node (Branch ch _ _) = (length ch = 16 \<and> (\<forall>c \<in> set ch. \<forall>n \<in> set_option c. wf_node n))"

definition db_ok :: "nodedb \<Rightarrow> bool" where
  "db_ok db \<longleftrightarrow> (\<forall>h r. db h = Some r \<longrightarrow> wf_node r \<and> kind r \<noteq> KindHash)"

lemma db_okD: "db_ok db \<Longrightarrow> db h = Some r \<Longrightarrow> wf_node r \<and> kind r \<noteq> KindHash"
  by (simp add: db_ok_def)

lemma wf_child: "wf_node (Branch ch v m) \<Longrightarrow> i < 16 \<Longrightarrow> ch ! i = Some c \<Longrightarrow> wf_node c"
  by (metis nth_mem option.set_intros wf_node.simps(5))

lemma wf_set_child:
  "length ch = 16 \<Longrightarrow> \<forall>c \<in> set ch. \<forall>n \<in> set_option c. wf_node n \<Longrightarrow> wf_node n' \<Longrightarrow>
    \<forall>c \<in> set (ch[i := Some n']). \<forall>n \<in> set_option c. wf_node n"
  by (auto dest!: set_update_subset_insert [THEN subsetD])

lemma nibble_index: "nibble b \<Longrightarrow> unat b < 16"
  by (simp add: nibble_iff)

section \<open>The map a node stands for\<close>

fun look :: "nat \<Rightarrow> nodedb \<Rightarrow> node \<Rightarrow> byte list \<Rightarrow> gobytes option" where
  "look 0 db n key = None"
| "look (Suc f) db NilNode key = Some None"
| "look (Suc f) db (HashNode h) key =
     (case db h of None \<Rightarrow> Some None | Some r \<Rightarrow> look f db r key)"
| "look (Suc f) db (Leaf s v m) key = Some (if s = key then v else None)"
| "look (Suc f) db (Ext p n m) key =
     (if common_prefix p key = length p then look f db n (drop (length p) key) else Some None)"
| "look (Suc f) db (Branch ch v m) key =
     (case key of [] \<Rightarrow> Some v
      | b # key' \<Rightarrow> (case ch ! unat b of None \<Rightarrow> Some None | Some c \<Rightarrow> look f db c key'))"

definition fuel_for :: "byte list \<Rightarrow> nat" where
  "fuel_for key = 2 * length key + 2"

definition lookup :: "nodedb \<Rightarrow> node \<Rightarrow> byte list \<Rightarrow> gobytes" where
  "lookup db n key = the (look (fuel_for key) db n key)"

lemma look_Suc: "look f db n key = Some v \<Longrightarrow> look (Suc f) db n key = Some v"
  by (induction f db n key rule: look.induct)
     (auto split: option.splits list.splits if_splits)

lemma look_mono: "look f db n key = Some v \<Longrightarrow> f \<le> g \<Longrightarrow> look g db n key = Some v"
proof (induction g)
  case (Suc g)
  then show ?case by (cases "f = Suc g") (auto intro: look_Suc simp: le_Suc_eq)
qed simp

definition hash_step :: "node \<Rightarrow> nat" where
  "hash_step n = (if kind n = KindHash then 1 else 0)"

lemma look_enough_aux:
  "db_ok db \<Longrightarrow> wf_node n \<Longrightarrow> list_all nibble key \<Longrightarrow> 2 * length key + hash_step n < f \<Longrightarrow>
    \<exists>v. look f db n key = Some v"
proof (induction f db n key rule: look.induct)
  case (3 f db h key)
  show ?case
  proof (cases "db h")
    case (Some r)
    with 3 show ?thesis by (auto dest: db_okD simp: hash_step_def)
  qed simp
next
  case (5 f db p n m key)
  show ?case
  proof (cases "common_prefix p key = length p")
    case True
    then obtain c where c: "key = p @ c" by (auto simp: common_prefix_full)
    from 5 obtain b p' where "p = b # p'" by (cases p) auto
    with c 5 True show ?thesis by (auto simp: hash_step_def)
  qed simp
next
  case (6 f db ch v m key)
  show ?case
  proof (cases key)
    case (Cons b key')
    show ?thesis
    proof (cases "ch ! unat b")
      case (Some c)
      with 6 Cons have "wf_node c" by (auto intro: wf_child dest: nibble_index)
      with 6 Cons Some show ?thesis by (auto simp: hash_step_def)
    qed (simp add: Cons)
  qed simp
qed auto

lemma look_enough:
  assumes "db_ok db" "wf_node n" "list_all nibble key" "2 * length key + hash_step n < f"
  shows "look f db n key = Some (lookup db n key)"
proof -
  have *: "2 * length key + hash_step n < fuel_for key"
    by (simp add: fuel_for_def hash_step_def)
  let ?g = "2 * length key + hash_step n + 1"
  obtain v where v: "look ?g db n key = Some v"
    using look_enough_aux [OF assms(1-3), of ?g] by auto
  with * assms(4) have "look f db n key = Some v" "look (fuel_for key) db n key = Some v"
    by (auto intro: look_mono)
  then show ?thesis by (simp add: lookup_def)
qed

lemma lookup_Nil [simp]: "lookup db NilNode key = None"
  by (simp add: lookup_def fuel_for_def)

lemma lookup_Leaf [simp]: "lookup db (Leaf s v m) key = (if s = key then v else None)"
  by (simp add: lookup_def fuel_for_def)

lemma lookup_HashNode:
  assumes "db_ok db" "list_all nibble key"
  shows "lookup db (HashNode h) key = (case db h of None \<Rightarrow> None | Some r \<Rightarrow> lookup db r key)"
proof (cases "db h")
  case (Some r)
  with assms have "look (2 * length key + 1) db r key = Some (lookup db r key)"
    by (intro look_enough) (auto dest: db_okD simp: hash_step_def)
  with Some show ?thesis by (simp add: lookup_def fuel_for_def)
qed (simp add: lookup_def fuel_for_def)

lemma lookup_Ext:
  assumes "db_ok db" "wf_node (Ext p n m)" "list_all nibble key"
  shows "lookup db (Ext p n m) key = (if \<exists>c. key = p @ c then lookup db n (drop (length p) key) else None)"
proof (cases "common_prefix p key = length p")
  case True
  then obtain c where c: "key = p @ c" by (auto simp: common_prefix_full)
  from assms obtain b p' where "p = b # p'" by (cases p) auto
  with c assms have "look (2 * length key + 1) db n (drop (length p) key) = Some (lookup db n (drop (length p) key))"
    by (intro look_enough) (auto simp: hash_step_def)
  with True c show ?thesis by (simp add: lookup_def fuel_for_def)
qed (use common_prefix_full [of p key] in \<open>simp add: lookup_def fuel_for_def\<close>)

lemma lookup_Branch_Nil [simp]: "lookup db (Branch ch v m) [] = v"
  by (simp add: lookup_def fuel_for_def)

lemma lookup_Branch_Cons:
  assumes "db_ok db" "wf_node (Branch ch v m)" "list_all nibble (b # key)"
  shows "lookup db (Branch ch v m) (b # key) =
    (case ch ! unat b of None \<Rightarrow> None | Some c \<Rightarrow> lookup db c key)"
proof (cases "ch ! unat b")
  case (Some c)
  from assms have "wf_node c"
    using wf_child [OF assms(2) _ Some] nibble_index by simp
  with assms have "look (2 * length key + 2 + 1) db c key = Some (lookup db c key)"
    by (intro look_enough) (auto simp: hash_step_def)
  with Some show ?thesis by (simp add: lookup_def fuel_for_def)
qed (simp add: lookup_def fuel_for_def)

lemmas lookup_simps = lookup_HashNode lookup_Ext lookup_Branch_Cons

end
