(* ===== verification/TrieOps.thy ===== *)
theory TrieOps
  imports TrieNode
begin

text \<open>
  Insertion, retrieval and deletion of the Merkle-Patricia trie,
  \<^verbatim>\<open>src/internal/state/mpt/trie.go\<close>: the recursive \<open>insert\<close>, \<open>get\<close> and \<open>delete\<close> and the \<open>Put\<close>,
  \<open>Get\<close> and \<open>Delete\<close> that call them on the root.

  Every recursive function carries fuel; its result is \<open>None\<close> when the Go code would not
  return: the fuel (the call stack) is used up, or an array is indexed out of range. The
  theorems show that neither happens on well-formed nodes with the fuel the top-level
  operations pass. A Go node that is updated in place is the updated value in the result;
  the nodes of a trie are never shared, so this loses nothing for a trie that was not loaded
  from the node cache of the database.
\<close>

section \<open>Definitions\<close>

text \<open>Putting what remains of a path into a new branch: the branch value or a fresh leaf.\<close>

definition branch_put ::
  "byte list \<Rightarrow> gobytes \<Rightarrow> node option list \<times> gobytes \<Rightarrow> (node option list \<times> gobytes) option" where
  "branch_put rem v b = (case rem of
     [] \<Rightarrow> Some (fst b, v)
   | x # rest \<Rightarrow>
       (if nibble x then Some ((fst b)[unat x := Some (Leaf rest v fresh_meta)], snd b) else None))"

definition empty_branch :: "node option list \<times> gobytes" where
  "empty_branch = (replicate 16 None, None)"

text \<open>\<open>insert\<close>, case \<open>*leafNode\<close>, once the keys are known to differ.\<close>

definition split_leaf :: "byte list \<Rightarrow> gobytes \<Rightarrow> byte list \<Rightarrow> gobytes \<Rightarrow> node option" where
  "split_leaf s v key value =
     (let prefixLen = common_prefix s key in
      case branch_put (drop prefixLen s) v empty_branch of
        None \<Rightarrow> None
      | Some b \<Rightarrow>
         (case branch_put (drop prefixLen key) value b of
            None \<Rightarrow> None
          | Some (ch, bv) \<Rightarrow>
              (let branch = Branch ch bv fresh_meta
               in Some (if prefixLen = 0 then branch else Ext (take prefixLen key) branch fresh_meta))))"

text \<open>\<open>insert\<close>, case \<open>*extensionNode\<close>, when the key leaves the prefix.\<close>

definition split_ext :: "byte list \<Rightarrow> node \<Rightarrow> byte list \<Rightarrow> gobytes \<Rightarrow> node option" where
  "split_ext p nxt key value =
     (let prefixLen = common_prefix p key;
          extRemaining = drop prefixLen p;
          child = (if length extRemaining = 1 then nxt else Ext (tl extRemaining) nxt fresh_meta)
      in if \<not> nibble (hd extRemaining) then None
         else case branch_put (drop prefixLen key) value
                ((fst empty_branch)[unat (hd extRemaining) := Some child], snd empty_branch) of
            None \<Rightarrow> None
          | Some (ch, bv) \<Rightarrow>
              (let branch = Branch ch bv fresh_meta
               in Some (if prefixLen = 0 then branch else Ext (take prefixLen p) branch fresh_meta)))"

fun trie_insert :: "nat \<Rightarrow> nodedb \<Rightarrow> node \<Rightarrow> byte list \<Rightarrow> gobytes \<Rightarrow> node option" where
  "trie_insert 0 db n key value = None"
| "trie_insert (Suc f) db NilNode key value = Some (Leaf key value fresh_meta)"
| "trie_insert (Suc f) db (HashNode h) key value =
     (case db h of
        None \<Rightarrow> trie_insert f db NilNode key value
      | Some resolved \<Rightarrow> trie_insert f db resolved key value)"
| "trie_insert (Suc f) db (Leaf s v m) key value =
     (if common_prefix s key = length s \<and> common_prefix s key = length key
      then Some (Leaf s value fresh_meta)
      else split_leaf s v key value)"
| "trie_insert (Suc f) db (Ext p nxt m) key value =
     (if common_prefix p key = length p
      then map_option (\<lambda>n'. Ext p n' (m\<lparr>dirtyFlag := True\<rparr>))
             (trie_insert f db nxt (drop (length p) key) value)
      else split_ext p nxt key value)"
| "trie_insert (Suc f) db (Branch ch v m) key value =
     (case key of
        [] \<Rightarrow> Some (Branch ch value (m\<lparr>dirtyFlag := True\<rparr>))
      | x # rest \<Rightarrow>
          (if \<not> nibble x then None
           else map_option (\<lambda>n'. Branch (ch[unat x := Some n']) v (m\<lparr>dirtyFlag := True\<rparr>))
                  (trie_insert f db (case ch ! unat x of None \<Rightarrow> NilNode | Some c \<Rightarrow> c) rest value)))"

text \<open>
  \<open>get\<close> returns a node and a value. The caller stores the returned node in its child slot, so
  the model returns three things: the node the code returns, the node \<open>n\<close> itself after
  the updates in place below it, and the value. In the extension case the code returns what
  the recursive call returned, which is a node below the extension.
\<close>

fun trie_get :: "nat \<Rightarrow> nodedb \<Rightarrow> node \<Rightarrow> byte list \<Rightarrow> nat \<Rightarrow> (node \<times> node \<times> gobytes) option" where
  "trie_get 0 db n key pos = None"
| "trie_get (Suc f) db NilNode key pos = Some (NilNode, NilNode, None)"
| "trie_get (Suc f) db (HashNode h) key pos =
     (case db h of
        None \<Rightarrow> Some (HashNode h, HashNode h, None)
      | Some resolved \<Rightarrow>
          map_option (\<lambda>(ret, _, val). (ret, HashNode h, val)) (trie_get f db resolved key pos))"
| "trie_get (Suc f) db (Leaf s v m) key pos =
     (let n = Leaf s v m in Some (n, n, if s = drop pos key then v else None))"
| "trie_get (Suc f) db (Ext p nxt m) key pos =
     (let n = Ext p nxt m; prefixLen = common_prefix p (drop pos key) in
      if prefixLen \<noteq> length p then Some (n, n, None)
      else map_option (\<lambda>(ret, nxt', val). (ret, Ext p nxt' m, val))
             (trie_get f db nxt key (pos + prefixLen)))"
| "trie_get (Suc f) db (Branch ch v m) key pos =
     (let n = Branch ch v m in
      if pos = length key then Some (n, n, v)
      else if \<not> nibble (key ! pos) then None
      else case ch ! unat (key ! pos) of
             None \<Rightarrow> Some (n, n, None)
           | Some child \<Rightarrow>
               map_option (\<lambda>(ret, _, val).
                   (let n' = Branch (ch[unat (key ! pos) := Some ret]) v m in (n', n', val)))
                 (trie_get f db child key (pos + 1)))"

text \<open>\<open>delete\<close>, case \<open>*extensionNode\<close>: merge the prefix with the child that is left.\<close>

definition merge_ext :: "byte list \<Rightarrow> node \<Rightarrow> node_meta \<Rightarrow> node" where
  "merge_ext p child m = (case child of
     Ext cp cn _ \<Rightarrow> Ext (p @ cp) cn (m\<lparr>dirtyFlag := True\<rparr>)
   | Leaf cs cv _ \<Rightarrow> Leaf (p @ cs) cv fresh_meta
   | NilNode \<Rightarrow> NilNode
   | _ \<Rightarrow> Ext p child (m\<lparr>dirtyFlag := True\<rparr>))"

text \<open>
  \<open>delete\<close>, case \<open>*branchNode\<close>: "compact branch if only one child remains". \<open>find_child\<close> is the
  loop over the children; a hash node is counted but matches none of the loop's cases.
\<close>

fun collapse_child :: "nat \<Rightarrow> node \<Rightarrow> node option" where
  "collapse_child i (Leaf s v m) = Some (Leaf (word_of_nat i # s) v fresh_meta)"
| "collapse_child i (Ext p n m) = Some (Ext (word_of_nat i # p) n fresh_meta)"
| "collapse_child i (Branch ch v m) = Some (Ext [word_of_nat i] (Branch ch v m) fresh_meta)"
| "collapse_child i _ = None"

fun find_child :: "nat \<Rightarrow> node option list \<Rightarrow> node option" where
  "find_child i [] = None"
| "find_child i (None # ch) = find_child (Suc i) ch"
| "find_child i (Some c # ch) =
     (case collapse_child i c of Some n \<Rightarrow> Some n | None \<Rightarrow> find_child (Suc i) ch)"

definition compact_branch :: "node option list \<Rightarrow> gobytes \<Rightarrow> node_meta \<Rightarrow> node" where
  "compact_branch ch v m =
     (let n = Branch ch v (m\<lparr>dirtyFlag := True\<rparr>) in
      if has_children ch = 0 \<and> v = None then NilNode
      else if has_children ch = 1 \<and> v = None
      then (case find_child 0 ch of Some n' \<Rightarrow> n' | None \<Rightarrow> n)
      else n)"

fun trie_delete :: "nat \<Rightarrow> nodedb \<Rightarrow> node \<Rightarrow> byte list \<Rightarrow> node option" where
  "trie_delete 0 db n key = None"
| "trie_delete (Suc f) db NilNode key = Some NilNode"
| "trie_delete (Suc f) db (HashNode h) key =
     (case db h of None \<Rightarrow> Some (HashNode h) | Some resolved \<Rightarrow> trie_delete f db resolved key)"
| "trie_delete (Suc f) db (Leaf s v m) key = Some (if s = key then NilNode else Leaf s v m)"
| "trie_delete (Suc f) db (Ext p nxt m) key =
     (if common_prefix p key = length p
      then map_option (\<lambda>n'. merge_ext p n' m) (trie_delete f db nxt (drop (length p) key))
      else Some (Ext p nxt m))"
| "trie_delete (Suc f) db (Branch ch v m) key =
     (case key of
        [] \<Rightarrow> Some (compact_branch ch None m)
      | x # rest \<Rightarrow>
          (if \<not> nibble x then None
           else case ch ! unat x of
               None \<Rightarrow> Some (compact_branch ch v m)
             | Some child \<Rightarrow>
                 map_option (\<lambda>n'. compact_branch (ch[unat x := Some n']) v m)
                   (trie_delete f db child rest)))"

section \<open>The trie\<close>

record trie =
  root :: node
  trie_dirty :: bool

definition new_trie :: "hash \<Rightarrow> trie" where
  "new_trie rootHash =
     \<lparr>root = (if rootHash = empty_node_hash then NilNode else HashNode rootHash), trie_dirty = False\<rparr>"

definition new_empty_trie :: trie where
  "new_empty_trie = new_trie empty_node_hash"

definition root_hash :: "trie \<Rightarrow> hash" where
  "root_hash t = (if snd (cached_hash (root t)) then fst (cached_hash (root t)) else node_hash (root t))"

definition trie_put :: "nodedb \<Rightarrow> trie \<Rightarrow> byte list \<Rightarrow> gobytes \<Rightarrow> trie option" where
  "trie_put db t key value =
     (let nibbles = key_to_nibbles key in
      map_option (\<lambda>r. t\<lparr>root := r, trie_dirty := True\<rparr>)
        (trie_insert (fuel_for nibbles) db (root t) nibbles value))"

definition trie_read :: "nodedb \<Rightarrow> trie \<Rightarrow> byte list \<Rightarrow> (trie \<times> gobytes) option" where
  "trie_read db t key =
     (let nibbles = key_to_nibbles key in
      map_option (\<lambda>(_, r, val). (t\<lparr>root := r\<rparr>, val))
        (trie_get (fuel_for nibbles) db (root t) nibbles 0))"

definition trie_remove :: "nodedb \<Rightarrow> trie \<Rightarrow> byte list \<Rightarrow> trie option" where
  "trie_remove db t key =
     (let nibbles = key_to_nibbles key in
      map_option (\<lambda>r. t\<lparr>root := r, trie_dirty := True\<rparr>)
        (trie_delete (fuel_for nibbles) db (root t) nibbles))"

end
