(* ===== verification/TrieCorrect.thy ===== *)
theory TrieCorrect
  imports TrieOps
begin

text \<open>
  Functional correctness of the trie operations against \<open>lookup\<close>: \<open>insert\<close> updates the map at
  one path, \<open>delete\<close> removes one path, \<open>get\<close> returns the value of a path, and none of them
  crashes on well-formed nodes with the fuel the top-level operations pass.
\<close>

section \<open>Branches\<close>

lemma wf_BranchI:
  "length ch = 16 \<Longrightarrow> \<forall>c \<in> set ch. \<forall>n \<in> set_option c. wf_node n \<Longrightarrow> wf_node (Branch ch v m)"
  by simp

lemma lookup_Branch:
  assumes "db_ok db" "wf_node (Branch ch v m)" "list_all nibble k"
  shows "lookup db (Branch ch v m) k = (case k of [] \<Rightarrow> v
    | b # k' \<Rightarrow> (case ch ! unat b of None \<Rightarrow> None | Some c \<Rightarrow> lookup db c k'))"
  using assms lookup_Branch_Cons [OF assms(1,2)] by (cases k) auto

lemma lookup_Branch_upd:
  assumes "db_ok db" "wf_node (Branch ch v m)" "wf_node n'" "nibble x" "list_all nibble k"
  shows "lookup db (Branch (ch[unat x := Some n']) v m') k =
    (if k \<noteq> [] \<and> hd k = x then lookup db n' (tl k) else lookup db (Branch ch v m) k)"
proof -
  have wf: "wf_node (Branch (ch[unat x := Some n']) v m')"
    using assms wf_set_child [of ch n' "unat x"] by simp
  show ?thesis
    using assms nibble_index [of x]
    by (auto simp: lookup_Branch [OF assms(1) wf] lookup_Branch nth_list_update split: list.splits)
qed

lemma lookup_Branch_meta:
  assumes "db_ok db" "wf_node (Branch ch v m)" "list_all nibble k"
  shows "lookup db (Branch ch v' m') k = (if k = [] then v' else lookup db (Branch ch v m) k)"
  using assms lookup_Branch [of db ch v' m' k] by (auto simp: lookup_Branch split: list.splits)

lemma branch_put_correct:
  assumes "db_ok db" "wf_node (Branch ch bv m)" "list_all nibble rem"
    and "rem \<noteq> [] \<Longrightarrow> ch ! unat (hd rem) = None"
  shows "\<exists>ch' bv'. branch_put rem v (ch, bv) = Some (ch', bv') \<and> wf_node (Branch ch' bv' m) \<and>
    (\<forall>k. list_all nibble k \<longrightarrow>
       lookup db (Branch ch' bv' m) k = (if k = rem then v else lookup db (Branch ch bv m) k)) \<and>
    (\<forall>i. rem = [] \<or> i \<noteq> unat (hd rem) \<longrightarrow> ch' ! i = ch ! i)"
proof (cases rem)
  case Nil
  then show ?thesis
    using assms lookup_Branch_meta [OF assms(1,2)] by (simp add: branch_put_def)
next
  case (Cons x rest)
  let ?n = "Leaf rest v fresh_meta"
  from Cons assms have x: "nibble x" "list_all nibble rest" by auto
  then have wf: "wf_node (Branch (ch[unat x := Some ?n]) bv m)"
    using assms(2) wf_set_child [of ch ?n "unat x"] by simp
  have lk: "lookup db (Branch (ch[unat x := Some ?n]) bv m) k =
      (if k = rem then v else lookup db (Branch ch bv m) k)" if k: "list_all nibble k" for k
    using Cons x assms k lookup_Branch_upd [OF assms(1,2) _ x(1) k, of ?n m]
    by (cases k) (auto simp: lookup_Branch)
  show ?thesis
    using Cons x wf lk by (auto simp: branch_put_def)
qed

lemma empty_branch_eq: "empty_branch = (replicate 16 None, None)"
  by (simp add: empty_branch_def)

lemma wf_empty_branch: "wf_node (Branch (replicate 16 None) None m)"
  by simp

lemma lookup_empty_branch:
  "db_ok db \<Longrightarrow> list_all nibble k \<Longrightarrow> lookup db (Branch (replicate 16 None) None m) k = None"
  by (auto simp: lookup_Branch nibble_index split: list.splits)

lemma empty_slot: "list_all nibble a \<Longrightarrow> a \<noteq> [] \<Longrightarrow> (replicate 16 None :: node option list) ! unat (hd a) = None"
  by (cases a) (auto dest: nibble_index)

section \<open>Prefixes\<close>

lemma lookup_wrap_Ext:
  assumes "db_ok db" "wf_node n" "list_all nibble k" "list_all nibble p"
  shows "lookup db (if length p = 0 then n else Ext p n m) k =
    (if \<exists>c. k = p @ c then lookup db n (drop (length p) k) else None)"
  using assms by (auto simp: lookup_Ext)

lemma prefix_same: "(\<exists>c. k = p @ c) \<Longrightarrow> drop (length p) k = r \<longleftrightarrow> k = p @ r"
  by auto

section \<open>Insertion\<close>

lemma split_leaf_correct:
  assumes "db_ok db" "list_all nibble s" "list_all nibble key" "s \<noteq> key"
  shows "\<exists>n'. split_leaf s v key nv = Some n' \<and> wf_node n' \<and>
    (\<forall>k. list_all nibble k \<longrightarrow> lookup db n' k = (if k = key then nv else if k = s then v else None))"
proof -
  obtain p a b where s: "s = p @ a" "key = p @ b" "common_prefix s key = length p"
    "a = [] \<or> b = [] \<or> hd a \<noteq> hd b" by (rule common_prefix_split)
  from s assms have nib: "list_all nibble p" "list_all nibble a" "list_all nibble b" by auto
  obtain ch1 v1 where 1: "branch_put a v (replicate 16 None, None) = Some (ch1, v1)"
    "wf_node (Branch ch1 v1 fresh_meta)"
    "\<forall>k. list_all nibble k \<longrightarrow> lookup db (Branch ch1 v1 fresh_meta) k =
      (if k = a then v else lookup db (Branch (replicate 16 None) None fresh_meta) k)"
    "\<forall>i. a = [] \<or> i \<noteq> unat (hd a) \<longrightarrow> ch1 ! i = replicate 16 None ! i"
    using branch_put_correct [where v = v and m = fresh_meta,
        OF assms(1) wf_empty_branch nib(2) empty_slot [OF nib(2)]] by blast
  have slot: "ch1 ! unat (hd b) = None" if "b \<noteq> []"
    using spec [OF 1(4), of "unat (hd b)"] empty_slot [OF nib(3) that] s(4) that by (cases a) auto
  obtain ch2 v2 where 2: "branch_put b nv (ch1, v1) = Some (ch2, v2)"
    "wf_node (Branch ch2 v2 fresh_meta)"
    "\<And>k. list_all nibble k \<Longrightarrow> lookup db (Branch ch2 v2 fresh_meta) k =
       (if k = b then nv else if k = a then v else None)"
    using branch_put_correct [where v = nv, OF assms(1) 1(2) nib(3) slot] 1(3)
      lookup_empty_branch [OF assms(1)] by auto
  let ?n = "if length p = 0 then Branch ch2 v2 fresh_meta else Ext p (Branch ch2 v2 fresh_meta) fresh_meta"
  have "split_leaf s v key nv = Some ?n"
    using s 1(1) 2(1) by (simp add: split_leaf_def empty_branch_eq Let_def)
  moreover have "wf_node ?n" using 2(2) nib by auto
  moreover have "lookup db ?n k = (if k = key then nv else if k = s then v else None)"
    if k: "list_all nibble k" for k
    unfolding lookup_wrap_Ext [OF assms(1) 2(2) k nib(1)]
    using 2(3) k s(1,2) by (cases "\<exists>c. k = p @ c") (auto split: if_splits)
  ultimately show ?thesis by blast
qed

lemma split_ext_correct:
  assumes "db_ok db" "wf_node (Ext p nxt m)" "list_all nibble key" "common_prefix p key \<noteq> length p"
  shows "\<exists>n'. split_ext p nxt key nv = Some n' \<and> wf_node n' \<and>
    (\<forall>k. list_all nibble k \<longrightarrow> lookup db n' k = (if k = key then nv else lookup db (Ext p nxt m) k))"
proof -
  obtain q a b where s: "p = q @ a" "key = q @ b" "common_prefix p key = length q"
    "a = [] \<or> b = [] \<or> hd a \<noteq> hd b" by (rule common_prefix_split)
  with assms(4) obtain x a' where a: "a = x # a'" by (cases a) auto
  from s a assms have nib: "list_all nibble q" "nibble x" "list_all nibble a'" "list_all nibble b"
    and wfn: "wf_node nxt" by auto
  let ?child = "if length a = 1 then nxt else Ext a' nxt fresh_meta"
  let ?ch = "(replicate 16 None)[unat x := Some ?child]"
  have wfc: "wf_node ?child" using a nib wfn by (cases a') auto
  have wf1: "wf_node (Branch ?ch None fresh_meta)"
    using wf_set_child [OF _ _ wfc, of "replicate 16 None" "unat x"] by simp
  have lkc: "lookup db ?child k = (if \<exists>c. k = a' @ c then lookup db nxt (drop (length a') k) else None)"
    if "list_all nibble k" for k
    using lookup_wrap_Ext [OF assms(1) wfn that nib(3), of fresh_meta] a by simp
  have lk1: "lookup db (Branch ?ch None fresh_meta) k =
      (if \<exists>c. k = a @ c then lookup db nxt (drop (length a) k) else None)"
    if k: "list_all nibble k" for k
    unfolding lookup_Branch_upd [where m = fresh_meta, OF assms(1) wf_empty_branch wfc nib(2) k]
      lookup_empty_branch [OF assms(1) k]
    using lkc [of "tl k"] a k by (cases k) auto
  have slot: "?ch ! unat (hd b) = None" if "b \<noteq> []"
    using s(4) a that empty_slot [OF nib(4) that] by (simp add: nth_list_update)
  obtain ch2 v2 where 2: "branch_put b nv (?ch, None) = Some (ch2, v2)"
    "wf_node (Branch ch2 v2 fresh_meta)"
    "\<And>k. list_all nibble k \<Longrightarrow> lookup db (Branch ch2 v2 fresh_meta) k =
       (if k = b then nv else if \<exists>c. k = a @ c then lookup db nxt (drop (length a) k) else None)"
    using branch_put_correct [where v = nv, OF assms(1) wf1 nib(4) slot] lk1 by auto
  let ?n = "if length q = 0 then Branch ch2 v2 fresh_meta else Ext q (Branch ch2 v2 fresh_meta) fresh_meta"
  have drops: "drop (length q) p = a" "drop (length q) key = b" "take (length q) p = q"
    using s(1,2) by simp_all
  have "split_ext p nxt key nv = Some ?n"
    using drops nib(2) 2(1) a
    by (simp add: split_ext_def empty_branch_eq Let_def s(3) split del: if_split cong: if_cong del: length_drop)
  moreover have "wf_node ?n" using 2(2) nib by auto
  moreover have "lookup db ?n k = (if k = key then nv else lookup db (Ext p nxt m) k)"
    if k: "list_all nibble k" for k
    unfolding lookup_wrap_Ext [OF assms(1) 2(2) k nib(1)] lookup_Ext [OF assms(1,2) k]
    using 2(3) k s(1,2) by (cases "\<exists>c. k = q @ c") (auto split: if_splits)
  ultimately show ?thesis by blast
qed

theorem trie_insert_correct:
  "db_ok db \<Longrightarrow> wf_node n \<Longrightarrow> list_all nibble key \<Longrightarrow> 2 * length key + hash_step n < f \<Longrightarrow>
    \<exists>n'. trie_insert f db n key nv = Some n' \<and> wf_node n' \<and>
      (\<forall>k. list_all nibble k \<longrightarrow> lookup db n' k = (if k = key then nv else lookup db n k))"
proof (induction f db n key nv rule: trie_insert.induct)
  case (2 f db key nv)
  then show ?case by auto
next
  case (3 f db h key nv)
  show ?case
  proof (cases "db h")
    case None
    with 3 show ?thesis by (auto simp: hash_step_def lookup_HashNode)
  next
    case (Some r)
    with 3 have "\<exists>n'. trie_insert f db r key nv = Some n' \<and> wf_node n' \<and>
      (\<forall>k. list_all nibble k \<longrightarrow> lookup db n' k = (if k = key then nv else lookup db r k))"
      using db_okD [of db h r] by (simp add: hash_step_def)
    with Some 3 show ?thesis by (auto simp: lookup_HashNode)
  qed
next
  case (4 f db s v m key nv)
  show ?case
  proof (cases "s = key")
    case True
    then have "common_prefix s key = length s" using common_prefix_full [of s key] by auto
    with True 4 show ?thesis by auto
  next
    case False
    then have "\<not> (common_prefix s key = length s \<and> common_prefix s key = length key)"
      using common_prefix_full [of s key] by auto
    with False 4 split_leaf_correct [of db s key v nv] show ?thesis by auto
  qed
next
  case (5 f db p nxt m key nv)
  show ?case
  proof (cases "common_prefix p key = length p")
    case True
    then obtain c where c: "key = p @ c" by (auto simp: common_prefix_full)
    from 5 obtain x p' where p: "p = x # p'" by (cases p) auto
    from 5(5) c p have "2 * length c + hash_step nxt < f" by (auto simp: hash_step_def)
    with 5(1-4) True c obtain n' where n': "trie_insert f db nxt c nv = Some n'" "wf_node n'"
      "\<forall>k. list_all nibble k \<longrightarrow> lookup db n' k = (if k = c then nv else lookup db nxt k)"
      by auto
    with 5 True c show ?thesis
      by (auto simp: lookup_Ext list_all_iff dest: in_set_dropD)
  next
    case False
    with 5 split_ext_correct [of db p nxt m key nv] show ?thesis by simp
  qed
next
  case (6 f db ch v m key nv)
  show ?case
  proof (cases key)
    case Nil
    with 6 show ?thesis by (auto simp: lookup_Branch split: list.splits)
  next
    case (Cons x rest)
    let ?c = "case ch ! unat x of None \<Rightarrow> NilNode | Some c \<Rightarrow> c"
    from Cons 6 have x: "nibble x" "list_all nibble rest" by auto
    have wfc: "wf_node ?c"
      using wf_child [OF 6(3) nibble_index [OF x(1)]] by (auto split: option.splits)
    have "2 * length rest + hash_step ?c < f"
      using 6(5) Cons by (simp add: hash_step_def)
    with 6(1) [OF Cons] 6(2) x wfc obtain n' where n': "trie_insert f db ?c rest nv = Some n'" "wf_node n'"
      "\<And>k. list_all nibble k \<Longrightarrow> lookup db n' k = (if k = rest then nv else lookup db ?c k)"
      by auto
    have wf: "wf_node (Branch (ch[unat x := Some n']) v m')" for m'
      using 6(3) n'(2) wf_set_child [of ch n' "unat x"] by simp
    have "lookup db (Branch (ch[unat x := Some n']) v m') k =
        (if k = key then nv else lookup db (Branch ch v m) k)" if k: "list_all nibble k" for k m'
      unfolding lookup_Branch_upd [OF 6(2,3) n'(2) x(1) k]
      using n'(3) [of "tl k"] k Cons 6(2,3)
      by (cases k) (auto simp: lookup_Branch split: option.splits)
    with Cons x n' wf show ?thesis by auto
  qed
qed simp

section \<open>Retrieval\<close>

lemma drop_nth_Cons: "pos < length key \<Longrightarrow> drop pos key = key ! pos # drop (Suc pos) key"
  by (rule Cons_nth_drop_Suc [symmetric])

lemma hash_step_le: "hash_step n \<le> 1"
  by (simp add: hash_step_def)

lemma nibble_nth: "list_all nibble key \<Longrightarrow> pos < length key \<Longrightarrow> nibble (key ! pos)"
  by (simp add: list_all_length)

lemma nibble_drop [simp]: "list_all nibble key \<Longrightarrow> list_all nibble (drop n key)"
  by (auto simp: list_all_iff dest: in_set_dropD)

theorem trie_get_correct:
  "db_ok db \<Longrightarrow> wf_node n \<Longrightarrow> list_all nibble key \<Longrightarrow> pos \<le> length key \<Longrightarrow>
    2 * (length key - pos) + hash_step n < f \<Longrightarrow>
    \<exists>ret n'. trie_get f db n key pos = Some (ret, n', lookup db n (drop pos key)) \<and>
      wf_node ret \<and> wf_node n'"
proof (induction f db n key pos rule: trie_get.induct)
  case (3 f db h key pos)
  show ?case
  proof (cases "db h")
    case (Some r)
    with 3 db_okD [of db h r]
    obtain ret n' where "trie_get f db r key pos = Some (ret, n', lookup db r (drop pos key))"
      "wf_node ret" by (auto simp: hash_step_def)
    with Some 3 show ?thesis by (auto simp: lookup_HashNode)
  qed (use 3 in \<open>simp add: lookup_HashNode\<close>)
next
  case (5 f db p nxt m key pos)
  let ?k = "drop pos key"
  show ?case
  proof (cases "common_prefix p ?k = length p")
    case True
    then obtain c where c: "?k = p @ c" by (auto simp: common_prefix_full)
    then have len: "length key - pos = length p + length c"
      by (metis length_append length_drop)
    have le: "pos + length p \<le> length key" using len 5(5) by linarith
    have dr: "drop (pos + length p) key = c"
      using c by (metis add.commute append_eq_conv_conj drop_drop)
    from 5 obtain x p' where p: "p = x # p'" by (cases p) auto
    have "2 * (length key - (pos + length p)) + hash_step nxt < f"
      using 5(6) p len by (auto simp: hash_step_def)
    then obtain ret n' where "trie_get f db nxt key (pos + length p) = Some (ret, n', lookup db nxt c)"
      "wf_node ret" "wf_node n'"
      using 5(1) [OF refl refl] 5(2-5) True le dr by auto
    moreover have "lookup db (Ext p nxt m) ?k = lookup db nxt c"
      unfolding lookup_Ext [OF 5(2,3) nibble_drop [OF 5(4)]] by (simp add: c)
    ultimately show ?thesis using True 5(3) by (auto simp: Let_def)
  next
    case False
    with 5 common_prefix_full [of p ?k] show ?thesis by (auto simp: Let_def lookup_Ext)
  qed
next
  case (6 f db ch v m key pos)
  show ?case
  proof (cases "pos = length key")
    case False
    with 6 have pos: "pos < length key" by simp
    with 6 have nib: "nibble (key ! pos)" by (simp add: nibble_nth)
    note dr = drop_nth_Cons [OF pos]
    show ?thesis
    proof (cases "ch ! unat (key ! pos)")
      case None
      with False nib 6 show ?thesis
        using lookup_Branch [of db ch v m "drop pos key"] by (simp add: Let_def dr)
    next
      case (Some c)
      have wfc: "wf_node c" by (rule wf_child [OF 6(3) nibble_index [OF nib] Some])
      have "2 * (length key - (pos + 1)) + hash_step c < f"
        using 6(6) pos hash_step_le [of c] by (simp; linarith)
      then obtain ret n' where "trie_get f db c key (pos + 1) = Some (ret, n', lookup db c (drop (pos + 1) key))"
        "wf_node ret" using 6(1) [OF refl False _ Some] 6(2-5) pos nib wfc by auto
      with False nib Some 6 wf_set_child [of ch ret "unat (key ! pos)"] show ?thesis
        using lookup_Branch [of db ch v m "drop pos key"] by (simp add: Let_def dr)
    qed
  qed (use 6 in \<open>simp add: Let_def\<close>)
qed (auto simp: Let_def)

section \<open>Deletion\<close>

lemma merge_ext_correct:
  assumes "db_ok db" "wf_node (Ext p nxt m)" "wf_node child"
  shows "wf_node (merge_ext p child m)"
    and "list_all nibble k \<Longrightarrow> lookup db (merge_ext p child m) k =
      (if \<exists>c. k = p @ c then lookup db child (drop (length p) k) else None)"
proof -
  show wf: "wf_node (merge_ext p child m)"
    using assms by (auto simp: merge_ext_def split: node.splits)
  assume k: "list_all nibble k"
  show "lookup db (merge_ext p child m) k =
      (if \<exists>c. k = p @ c then lookup db child (drop (length p) k) else None)"
    using assms k by (cases child; cases "\<exists>c. k = p @ c") (auto simp: merge_ext_def lookup_Ext)
qed

lemma wf_collapse_child:
  "collapse_child i c = Some n' \<Longrightarrow> wf_node c \<Longrightarrow> i < 16 \<Longrightarrow> wf_node n'"
  by (cases c) (auto simp: nibble_iff unat_byte_of_nat)

lemma lookup_collapse_child:
  assumes "collapse_child i c = Some n'" "db_ok db" "wf_node c" "i < 16" "list_all nibble k"
  shows "lookup db n' k =
    (case k of [] \<Rightarrow> None | b # k' \<Rightarrow> if unat b = i then lookup db c k' else None)"
proof -
  have i: "unat (word_of_nat i :: byte) = i" using assms(4) by (simp add: unat_byte_of_nat)
  have b: "word_of_nat i = b \<longleftrightarrow> unat b = i" for b :: byte
    using i by (metis unat_eq_iff)
  have nib: "nibble (word_of_nat i)" using assms(4) by (simp add: nibble_iff i)
  show ?thesis
    using assms nib by (cases c; cases k) (auto simp: b i lookup_Ext)
qed

lemma kind_Nil [simp]: "kind c = KindNil \<longleftrightarrow> c = NilNode"
  by (cases c) auto

lemma no_live_find_child:
  "filter live_child ch = [] \<Longrightarrow> find_child i ch = None"
  by (induction i ch rule: find_child.induct)
     (auto split: if_splits option.splits)

lemma find_child_single:
  "length (filter live_child ch) = 1 \<Longrightarrow> find_child j ch = Some n' \<Longrightarrow>
    \<exists>i c. i < length ch \<and> ch ! i = Some c \<and> collapse_child (j + i) c = Some n' \<and>
      (\<forall>i' < length ch. i' \<noteq> i \<longrightarrow> \<not> live_child (ch ! i'))"
proof (induction j ch rule: find_child.induct)
  case (2 i ch)
  then obtain i0 c where "i0 < length ch" "ch ! i0 = Some c" "collapse_child (Suc i + i0) c = Some n'"
    "\<forall>i' < length ch. i' \<noteq> i0 \<longrightarrow> \<not> live_child (ch ! i')" by auto
  then show ?case by (intro exI [of _ "Suc i0"] exI [of _ c]) (auto simp: nth_Cons split: nat.splits)
next
  case (3 i c ch)
  show ?case
  proof (cases "collapse_child i c")
    case (Some m)
    then have "live_child (Some c)" by (cases c) auto
    with 3(2) have "filter live_child ch = []" by simp
    then have "\<forall>i' < length ch. \<not> live_child (ch ! i')" by (auto simp: filter_empty_conv)
    with Some 3 show ?thesis
      by (intro exI [of _ 0] exI [of _ c]) (auto simp: nth_Cons split: nat.splits)
  next
    case None
    show ?thesis
    proof (cases "live_child (Some c)")
      case True
      with 3(2) have "filter live_child ch = []" by simp
      with None 3 no_live_find_child [of ch "Suc i"] show ?thesis by simp
    next
      case False
      with None 3 obtain i0 c' where "i0 < length ch" "ch ! i0 = Some c'"
        "collapse_child (Suc i + i0) c' = Some n'"
        "\<forall>i' < length ch. i' \<noteq> i0 \<longrightarrow> \<not> live_child (ch ! i')" by auto
      with False show ?thesis
        by (intro exI [of _ "Suc i0"] exI [of _ c']) (auto simp: nth_Cons split: nat.splits)
    qed
  qed
qed simp

lemma dead_child: "\<not> live_child x \<Longrightarrow> (case x of None \<Rightarrow> None | Some c \<Rightarrow> lookup db c k) = None"
  by (cases x) auto

lemma compact_branch_correct:
  assumes "db_ok db" "wf_node (Branch ch v m)"
  shows "wf_node (compact_branch ch v m)"
    and "list_all nibble k \<Longrightarrow> lookup db (compact_branch ch v m) k = lookup db (Branch ch v m) k"
proof -
  let ?n = "compact_branch ch v m"
  have len: "length ch = 16" using assms(2) by simp
  have "wf_node ?n \<and> (list_all nibble k \<longrightarrow> lookup db ?n k = lookup db (Branch ch v m) k)"
  proof (cases "has_children ch = 0 \<and> v = None")
    case True
    then have "\<forall>c \<in> set ch. \<not> live_child c"
      by (auto simp: has_children_def filter_empty_conv)
    then have "\<not> live_child (ch ! unat b)" if "nibble b" for b
      using that len by (auto dest: nibble_index)
    with True assms show ?thesis
      by (auto simp: compact_branch_def lookup_Branch dead_child split: list.splits)
  next
    case more: False
    show ?thesis
    proof (cases "has_children ch = 1 \<and> v = None \<and> find_child 0 ch \<noteq> None")
      case True
      then obtain n' where n': "find_child 0 ch = Some n'" by auto
      with True obtain i c where i: "i < 16" "ch ! i = Some c" "collapse_child i c = Some n'"
        and dead: "\<forall>i' < 16. i' \<noteq> i \<longrightarrow> \<not> live_child (ch ! i')"
        using find_child_single [of ch 0 n'] len by (auto simp: has_children_def)
      have wfc: "wf_node c" by (rule wf_child [OF assms(2) i(1,2)])
      have eq: "?n = n'" using True n' by (simp add: compact_branch_def)
      have "lookup db n' k = lookup db (Branch ch v m) k" if k: "list_all nibble k"
      proof (cases k)
        case (Cons b k')
        with k have b: "unat b < 16" by (simp add: nibble_index)
        show ?thesis
          unfolding lookup_collapse_child [OF i(3) assms(1) wfc i(1) k] lookup_Branch [OF assms k]
          using Cons b dead i(2) dead_child by auto
      qed (use lookup_collapse_child [OF i(3) assms(1) wfc i(1) k] True in simp)
      with eq i wfc show ?thesis by (auto intro: wf_collapse_child)
    next
      case False
      then have "?n = Branch ch v (m\<lparr>dirtyFlag := True\<rparr>)"
        using more by (auto simp: compact_branch_def Let_def)
      with assms show ?thesis using lookup_Branch_meta [OF assms] by auto
    qed
  qed
  then show "wf_node ?n" and "list_all nibble k \<Longrightarrow> lookup db ?n k = lookup db (Branch ch v m) k"
    by auto
qed

theorem trie_delete_correct:
  "db_ok db \<Longrightarrow> wf_node n \<Longrightarrow> list_all nibble key \<Longrightarrow> 2 * length key + hash_step n < f \<Longrightarrow>
    \<exists>n'. trie_delete f db n key = Some n' \<and> wf_node n' \<and>
      (\<forall>k. list_all nibble k \<longrightarrow> lookup db n' k = (if k = key then None else lookup db n k))"
proof (induction f db n key rule: trie_delete.induct)
  case (3 f db h key)
  show ?case
  proof (cases "db h")
    case (Some r)
    with 3 have "\<exists>n'. trie_delete f db r key = Some n' \<and> wf_node n' \<and>
      (\<forall>k. list_all nibble k \<longrightarrow> lookup db n' k = (if k = key then None else lookup db r k))"
      using db_okD [of db h r] by (simp add: hash_step_def)
    with Some 3 show ?thesis by (auto simp: lookup_HashNode)
  qed (use 3 in \<open>simp add: lookup_HashNode\<close>)
next
  case (5 f db p nxt m key)
  show ?case
  proof (cases "common_prefix p key = length p")
    case True
    then obtain c where c: "key = p @ c" by (auto simp: common_prefix_full)
    from 5 obtain x p' where p: "p = x # p'" by (cases p) auto
    from 5(5) c p hash_step_le [of nxt] have "2 * length c + hash_step nxt < f" by (simp; linarith)
    with 5(1-4) True c obtain n' where n': "trie_delete f db nxt c = Some n'" "wf_node n'"
      "\<forall>k. list_all nibble k \<longrightarrow> lookup db n' k = (if k = c then None else lookup db nxt k)"
      by auto
    have "lookup db (merge_ext p n' m) k = (if k = key then None else lookup db (Ext p nxt m) k)"
      if k: "list_all nibble k" for k
      unfolding merge_ext_correct(2) [OF 5(2,3) n'(2) k] lookup_Ext [OF 5(2,3) k]
      using n'(3) k c by (cases "\<exists>c. k = p @ c") auto
    with True c n' merge_ext_correct(1) [OF 5(2,3) n'(2)] show ?thesis by auto
  next
    case False
    with 5 common_prefix_full [of p key] show ?thesis by (auto simp: lookup_Ext)
  qed
next
  case (6 f db ch v m key)
  show ?case
  proof (cases key)
    case Nil
    have wf: "wf_node (Branch ch None m)" using 6(3) by simp
    show ?thesis
      using Nil compact_branch_correct [OF 6(2) wf] lookup_Branch_meta [OF 6(2,3), of _ None m]
      by auto
  next
    case (Cons x rest)
    from Cons 6 have x: "nibble x" "list_all nibble rest" by auto
    show ?thesis
    proof (cases "ch ! unat x")
      case None
      have "lookup db (Branch ch v m) key = None"
        using None lookup_Branch [OF 6(2,3,4)] Cons by simp
      with Cons x None compact_branch_correct [OF 6(2,3)] show ?thesis by auto
    next
      case (Some c)
      have wfc: "wf_node c" by (rule wf_child [OF 6(3) nibble_index [OF x(1)] Some])
      have "2 * length rest + hash_step c < f"
        using 6(5) Cons hash_step_le [of c] by (simp; linarith)
      with 6(1) [OF Cons _ Some] 6(2) x wfc obtain n' where n': "trie_delete f db c rest = Some n'"
        "wf_node n'"
        "\<And>k. list_all nibble k \<Longrightarrow> lookup db n' k = (if k = rest then None else lookup db c k)"
        by auto
      have wf: "wf_node (Branch (ch[unat x := Some n']) v m)"
        using 6(3) n'(2) wf_set_child [of ch n' "unat x"] by simp
      have "lookup db (compact_branch (ch[unat x := Some n']) v m) k =
          (if k = key then None else lookup db (Branch ch v m) k)" if k: "list_all nibble k" for k
        unfolding compact_branch_correct(2) [OF 6(2) wf k]
          lookup_Branch_upd [where m = m, OF 6(2,3) n'(2) x(1) k]
        using n'(3) [of "tl k"] k Cons Some lookup_Branch [OF 6(2,3) k] by (cases k) auto
      with Cons x Some n' compact_branch_correct(1) [OF 6(2) wf] show ?thesis by auto
    qed
  qed
qed auto

end
