(* ===== verification/Trie.thy ===== *)
theory Trie
  imports TrieCorrect
begin

text \<open>
  The trie as the rest of the program uses it: \<open>Put\<close>, \<open>Get\<close>, \<open>Delete\<close> and \<open>RootHash\<close> of
  \<^verbatim>\<open>src/internal/state/mpt/trie.go\<close>, and the contract of a key-value store that they meet.

  \<open>kv_store\<close> is the interface the state database relies on: an update that changes one key,
  a removal, and a reading function. What a list of updates does is proved once in the locale.
  The interpretation on \<open>trie_put\<close> and \<open>trie_remove\<close> discharges its laws.
\<close>

section \<open>The contract of a key-value store\<close>

locale kv_store =
  fixes inv :: "'s \<Rightarrow> bool"
    and value_of :: "'s \<Rightarrow> 'k \<Rightarrow> 'v option"
    and put :: "'k \<Rightarrow> 'v option \<Rightarrow> 's \<Rightarrow> 's option"
    and remove :: "'k \<Rightarrow> 's \<Rightarrow> 's option"
  assumes put_law: "inv s \<Longrightarrow>
      \<exists>s'. put k v s = Some s' \<and> inv s' \<and> value_of s' = (value_of s)(k := v)"
    and remove_law: "inv s \<Longrightarrow>
      \<exists>s'. remove k s = Some s' \<and> inv s' \<and> value_of s' = (value_of s)(k := None)"
begin

fun puts :: "('k \<times> 'v option) list \<Rightarrow> 's \<Rightarrow> 's option" where
  "puts [] s = Some s"
| "puts ((k, v) # kvs) s = Option.bind (put k v s) (puts kvs)"

lemma puts_law:
  "inv s \<Longrightarrow> \<exists>s'. puts kvs s = Some s' \<and> inv s' \<and>
     value_of s' = fold (\<lambda>(k, v) m. m(k := v)) kvs (value_of s)"
proof (induction kvs arbitrary: s)
  case (Cons kv kvs)
  obtain k v where kv: "kv = (k, v)" by force
  from put_law [OF Cons.prems, of k v] obtain s1 where
    "put k v s = Some s1" "inv s1" "value_of s1 = (value_of s)(k := v)" by blast
  with Cons.IH [of s1] kv show ?case by auto
qed simp

lemma fold_upd_distinct:
  "distinct (map fst kvs) \<Longrightarrow>
    fold (\<lambda>(k, v) m. m(k := v)) kvs m x = (case map_of kvs x of None \<Rightarrow> m x | Some v \<Rightarrow> v)"
proof (induction kvs arbitrary: m)
  case (Cons kv kvs)
  then show ?case by (cases kv) (force simp: map_of_eq_None_iff split: option.splits)
qed simp

lemma puts_perm:
  assumes "inv s" "distinct (map fst kvs)" "set kvs = set kvs'" "distinct (map fst kvs')"
  shows "\<exists>s1 s2. puts kvs s = Some s1 \<and> puts kvs' s = Some s2 \<and> value_of s1 = value_of s2"
proof -
  from assms have "map_of kvs = map_of kvs'" by (metis map_of_inject_set)
  with assms puts_law [of s kvs] puts_law [of s kvs'] show ?thesis
    by (auto simp: fun_eq_iff fold_upd_distinct)
qed

end

section \<open>The trie meets it\<close>

definition trie_ok :: "nodedb \<times> trie \<Rightarrow> bool" where
  "trie_ok s = (db_ok (fst s) \<and> wf_node (root (snd s)))"

definition trie_value :: "nodedb \<times> trie \<Rightarrow> byte list \<Rightarrow> gobytes" where
  "trie_value s key = lookup (fst s) (root (snd s)) (key_to_nibbles key)"

definition store_put :: "byte list \<Rightarrow> gobytes \<Rightarrow> nodedb \<times> trie \<Rightarrow> (nodedb \<times> trie) option" where
  "store_put key v s = map_option (Pair (fst s)) (trie_put (fst s) (snd s) key v)"

definition store_remove :: "byte list \<Rightarrow> nodedb \<times> trie \<Rightarrow> (nodedb \<times> trie) option" where
  "store_remove key s = map_option (Pair (fst s)) (trie_remove (fst s) (snd s) key)"

lemma key_nibbles [simp]: "list_all nibble (key_to_nibbles k)"
  by (auto simp: list_all_iff key_to_nibbles_nibble)

lemma fuel_ok: "2 * length key + hash_step n < fuel_for key"
  by (simp add: fuel_for_def hash_step_def)

lemma trie_put_ok:
  assumes "db_ok db" "wf_node (root t)"
  shows "\<exists>t'. trie_put db t key v = Some t' \<and> wf_node (root t') \<and> trie_dirty t' \<and>
    (\<forall>k. trie_value (db, t') k = (if k = key then v else trie_value (db, t) k))"
  using trie_insert_correct [OF assms key_nibbles fuel_ok, of key v]
  by (auto simp: trie_put_def trie_value_def Let_def)

lemma trie_remove_ok:
  assumes "db_ok db" "wf_node (root t)"
  shows "\<exists>t'. trie_remove db t key = Some t' \<and> wf_node (root t') \<and> trie_dirty t' \<and>
    (\<forall>k. trie_value (db, t') k = (if k = key then None else trie_value (db, t) k))"
  using trie_delete_correct [OF assms key_nibbles fuel_ok, of key]
  by (auto simp: trie_remove_def trie_value_def Let_def)

lemma trie_read_ok:
  assumes "db_ok db" "wf_node (root t)"
  shows "\<exists>t'. trie_read db t key = Some (t', trie_value (db, t) key) \<and> wf_node (root t')"
  using trie_get_correct [OF assms key_nibbles, of 0 key "fuel_for (key_to_nibbles key)"]
    fuel_ok [of "key_to_nibbles key"]
  by (auto simp: trie_read_def trie_value_def Let_def)

interpretation mpt: kv_store trie_ok trie_value store_put store_remove
proof unfold_locales
  fix s :: "nodedb \<times> trie" and k and v :: gobytes
  obtain db t where s: "s = (db, t)" by force
  assume "trie_ok s"
  with s show "\<exists>s'. store_put k v s = Some s' \<and> trie_ok s' \<and> trie_value s' = (trie_value s)(k := v)"
    using trie_put_ok [of db t k v] by (fastforce simp: trie_ok_def store_put_def)
next
  fix s :: "nodedb \<times> trie" and k
  obtain db t where s: "s = (db, t)" by force
  assume "trie_ok s"
  with s show "\<exists>s'. store_remove k s = Some s' \<and> trie_ok s' \<and> trie_value s' = (trie_value s)(k := None)"
    using trie_remove_ok [of db t k] by (fastforce simp: trie_ok_def store_remove_def)
qed

text \<open>A loop of \<open>Put\<close> calls, as in \<open>StateDB.Commit\<close>.\<close>

fun trie_put_all :: "nodedb \<Rightarrow> trie \<Rightarrow> (byte list \<times> gobytes) list \<Rightarrow> trie option" where
  "trie_put_all db t [] = Some t"
| "trie_put_all db t ((k, v) # kvs) = Option.bind (trie_put db t k v) (\<lambda>t'. trie_put_all db t' kvs)"

lemma trie_put_all_puts: "mpt.puts kvs (db, t) = map_option (Pair db) (trie_put_all db t kvs)"
  by (induction kvs arbitrary: t) (auto simp: store_put_def split: bind_splits option.splits)

lemma trie_put_all_ok:
  assumes "db_ok db" "wf_node (root t)"
  shows "\<exists>t'. trie_put_all db t kvs = Some t' \<and> wf_node (root t') \<and>
    trie_value (db, t') = fold (\<lambda>(k, v) m. m(k := v)) kvs (trie_value (db, t))"
  using mpt.puts_law [of "(db, t)" kvs] assms
  by (auto simp: trie_ok_def trie_put_all_puts)

lemma new_empty_trie_ok: "db_ok db \<Longrightarrow> trie_ok (db, new_empty_trie)"
  by (simp add: trie_ok_def new_empty_trie_def new_trie_def)

lemma new_empty_trie_value [simp]: "trie_value (db, new_empty_trie) k = None"
  by (simp add: trie_value_def new_empty_trie_def new_trie_def)

section \<open>When \<open>Get\<close> keeps the trie\<close>

fun get_safe :: "node \<Rightarrow> bool" where
  "get_safe NilNode = True"
| "get_safe (HashNode _) = False"
| "get_safe (Leaf _ _ _) = True"
| "get_safe (Ext _ n _) = get_safe n"
| "get_safe (Branch ch _ _) =
     (\<forall>c \<in> set ch. \<forall>n \<in> set_option c. get_safe n \<and> kind n \<noteq> KindExtension)"

lemma trie_get_safe:
  "get_safe n \<Longrightarrow> wf_node n \<Longrightarrow> list_all nibble key \<Longrightarrow> pos \<le> length key \<Longrightarrow>
    trie_get f db n key pos = Some (ret, n', val) \<Longrightarrow>
    n' = n \<and> (kind n \<noteq> KindExtension \<longrightarrow> ret = n)"
proof (induction f db n key pos arbitrary: ret n' val rule: trie_get.induct)
  case (5 f db p nxt m key pos)
  show ?case
  proof (cases "common_prefix p (drop pos key) = length p")
    case True
    then have "length p \<le> length key - pos"
      using common_prefix_le(2) [of p "drop pos key"] by simp
    with True 5 show ?thesis by (auto simp: Let_def)
  next
    case False
    with 5 show ?thesis by (auto simp: Let_def)
  qed
next
  case (6 f db ch v m key pos)
  show ?case
  proof (cases "pos = length key")
    case False
    with 6 have pos: "pos < length key" and nib: "nibble (key ! pos)" by (auto simp: nibble_nth)
    show ?thesis
    proof (cases "ch ! unat (key ! pos)")
      case (Some c)
      have mem: "Some c \<in> set ch"
        using nibble_index [OF nib] 6(3) Some by (metis nth_mem wf_node.simps(5))
      with 6(2,3) have c: "get_safe c" "wf_node c" "kind c \<noteq> KindExtension" by auto
      from 6(6) False nib Some obtain r c' where r: "trie_get f db c key (pos + 1) = Some (r, c', val)"
        and n': "ret = n'" "n' = Branch (ch[unat (key ! pos) := Some r]) v m"
        by (auto simp: Let_def)
      from 6(1) [OF refl False _ Some c(1,2) 6(4) _ r] nib pos c(3) have "r = c" by auto
      with n' Some show ?thesis by (metis list_update_id)
    qed (use 6 False nib in \<open>auto simp: Let_def\<close>)
  qed (use 6 in \<open>auto simp: Let_def\<close>)
qed (auto simp: Let_def split: option.splits)

lemma trie_read_safe:
  assumes "db_ok db" "wf_node (root t)" "get_safe (root t)"
  shows "trie_read db t key = Some (t, trie_value (db, t) key)"
proof -
  obtain t' where t': "trie_read db t key = Some (t', trie_value (db, t) key)"
    using trie_read_ok [OF assms(1,2)] by blast
  then obtain ret n' where "trie_get (fuel_for (key_to_nibbles key)) db (root t) (key_to_nibbles key) 0
      = Some (ret, n', trie_value (db, t) key)" "t' = t\<lparr>root := n'\<rparr>"
    by (auto simp: trie_read_def Let_def)
  with trie_get_safe [OF assms(3,2) key_nibbles] have "t' = t" by fastforce
  with t' show ?thesis by simp
qed

section \<open>Evaluation\<close>

lemmas trie_eval =
  trie_insert.simps(2-6) [where f = "pred_numeral k" for k, folded numeral_eq_Suc]
  trie_get.simps(2-6) [where f = "pred_numeral k" for k, folded numeral_eq_Suc]
  trie_delete.simps(2-6) [where f = "pred_numeral k" for k, folded numeral_eq_Suc]

section \<open>Properties\<close>





text \<open>
\<open>Get\<close> is not a pure read. In a trie holding 1111, 1112 and 2000 (hex) it answers the right
  value for 1111 once; storing the node the recursive call returned then drops the extension
  below the root branch, and the next \<open>Get\<close> of the same key answers \<open>nil\<close>.
\<close>

theorem trie_get_loses_key:
  "Option.bind (trie_put_all (\<lambda>_. None) new_empty_trie
       [([0x11, 0x11], Some [1]), ([0x11, 0x12], Some [2]), ([0x20, 0x00], Some [3])])
     (\<lambda>t. Option.bind (trie_read (\<lambda>_. None) t [0x11, 0x11])
       (\<lambda>(t1, v1). map_option (\<lambda>(t2, v2). (v1, v2)) (trie_read (\<lambda>_. None) t1 [0x11, 0x11])))
   = Some (Some [1], None)"
  by (simp add: trie_put_def trie_read_def new_empty_trie_def new_trie_def fuel_for_def Let_def
      split_leaf_def split_ext_def branch_put_def empty_branch_def nibble_def trie_eval)

end
