(* ===== verification/NodeStore.thy ===== *)
theory NodeStore
  imports Trie
begin

text \<open>
  Trie nodes in the database: the byte encodings of \<^verbatim>\<open>src/internal/state/mpt/trie.go\<close>
  (\<open>encodeLeaf\<close>, \<open>encodeExtension\<close>, \<open>encodeBranch\<close>), the decoders and \<open>GetNode\<close> of
  \<^verbatim>\<open>src/internal/state/mpt/database.go\<close>, and \<open>commitNode\<close> and \<open>Commit\<close>, which write every dirty
  node under the hash of its encoding.

  The store is the map the \<open>storage.Database\<close> holds; its \<open>Put\<close> does not fail here. The hash
  function (SHA-256 in the code) is an argument. \<open>GetNode\<close> reads through the store; its
  cache of decoded nodes, which returns the same values as long as no cached node is updated
  in place, is not modelled.
\<close>

section \<open>Encodings\<close>

definition value_bytes :: "gobytes \<Rightarrow> byte list" where
  "value_bytes v = (case v of None \<Rightarrow> [] | Some b \<Rightarrow> b)"

definition encode_leaf :: "byte list \<Rightarrow> gobytes \<Rightarrow> byte list" where
  "encode_leaf s v = [0x01] @ be_bytes 2 (length s) @ s
     @ be_bytes 4 (length (value_bytes v)) @ value_bytes v"

definition encode_ext :: "byte list \<Rightarrow> node \<Rightarrow> byte list" where
  "encode_ext p nxt = [0x02] @ be_bytes 2 (length p) @ p @ fst (cached_hash nxt)"

definition child_hash :: "node option \<Rightarrow> hash" where
  "child_hash c = (case c of None \<Rightarrow> empty_node_hash
     | Some n \<Rightarrow> if snd (cached_hash n) then fst (cached_hash n) else empty_node_hash)"

definition encode_branch :: "node option list \<Rightarrow> gobytes \<Rightarrow> byte list" where
  "encode_branch ch v = [0x03]
     @ (case v of None \<Rightarrow> [0x00] | Some b \<Rightarrow> [0x01] @ be_bytes 4 (length b) @ b)
     @ concat (map child_hash ch)"

definition encode_nil :: "byte list" where
  "encode_nil = [0x00]"

fun encode_node :: "node \<Rightarrow> byte list" where
  "encode_node NilNode = [0x00]"
| "encode_node (Leaf s v m) = encode_leaf s v"
| "encode_node (Ext p n m) = encode_ext p n"
| "encode_node (Branch ch v m) = encode_branch ch v"
| "encode_node (HashNode h) = [0x00]"

section \<open>Decoders\<close>

definition decode_leaf :: "byte list \<Rightarrow> node option" where
  "decode_leaf data =
     (if length data < 6 then None
      else let keyLen = be_nat (take 2 data); d1 = drop 2 data in
        if length d1 < keyLen + 4 then None
        else let key = take keyLen d1; d2 = drop keyLen d1;
                 valLen = be_nat (take 4 d2); d3 = drop 4 d2 in
          if length d3 < valLen then None
          else Some (Leaf key (Some (take valLen d3)) clean_meta))"

definition decode_extension :: "byte list \<Rightarrow> node option" where
  "decode_extension data =
     (if length data < 6 then None
      else let pfxLen = be_nat (take 2 data); d1 = drop 2 data in
        if length d1 < pfxLen + 32 then None
        else Some (Ext (take pfxLen d1) (HashNode (take 32 (drop pfxLen d1))) clean_meta))"

fun chunks32 :: "nat \<Rightarrow> byte list \<Rightarrow> hash list" where
  "chunks32 0 data = []"
| "chunks32 (Suc n) data = take 32 data # chunks32 n (drop 32 data)"

definition decode_children :: "byte list \<Rightarrow> node option list" where
  "decode_children data =
     map (\<lambda>h. if h \<noteq> empty_node_hash then Some (HashNode h) else None) (chunks32 16 data)"

definition decode_branch :: "byte list \<Rightarrow> node option" where
  "decode_branch data =
     (if length data < 2 then None
      else let hasVal = hd data; d1 = tl data in
        if hasVal = 0x01
        then (if length d1 < 4 then None
              else let valLen = be_nat (take 4 d1); d2 = drop 4 d1 in
                if length d2 < valLen then None
                else let d3 = drop valLen d2 in
                  if length d3 < 16 * 32 then None
                  else Some (Branch (decode_children d3) (Some (take valLen d2)) clean_meta))
        else if length d1 < 16 * 32 then None
        else Some (Branch (decode_children d1) None clean_meta))"

definition decode_node :: "byte list \<Rightarrow> node option" where
  "decode_node blob = (case blob of
     [] \<Rightarrow> Some NilNode
   | k # data \<Rightarrow>
       (if k = 0x00 then Some NilNode
        else if k = 0x01 then decode_leaf data
        else if k = 0x02 then decode_extension data
        else if k = 0x03 then decode_branch data
        else None))"

type_synonym store = "hash \<rightharpoonup> byte list"

definition get_node :: "store \<Rightarrow> nodedb" where
  "get_node st h =
     (if h = empty_node_hash then Some NilNode
      else case st h of None \<Rightarrow> None | Some blob \<Rightarrow> decode_node blob)"

section \<open>Commit\<close>

text \<open>
  \<open>commitNode\<close> returns the hash of the subtree. The model also returns the node as updated in
  place and the calls of \<open>PutNode\<close> in order.
\<close>

type_synonym writes = "(hash \<times> byte list) list"

definition committed_meta :: "hash \<Rightarrow> node_meta" where
  "committed_meta h = \<lparr>hashCache = h, dirtyFlag = False, hashValid = True\<rparr>"

fun commit_node :: "(byte list \<Rightarrow> hash) \<Rightarrow> node \<Rightarrow> hash \<times> node \<times> writes"
  and commit_children :: "(byte list \<Rightarrow> hash) \<Rightarrow> node option list \<Rightarrow> node option list \<times> writes"
  where
  "commit_node sha NilNode = (empty_node_hash, NilNode, [])"
| "commit_node sha (HashNode h) = (h, HashNode h, [])"
| "commit_node sha (Leaf s v m) =
     (if \<not> dirtyFlag m \<and> hashValid m then (hashCache m, Leaf s v m, [])
      else let encoded = encode_leaf s v; h = sha encoded
           in (h, Leaf s v (committed_meta h), [(h, encoded)]))"
| "commit_node sha (Ext p n m) =
     (let (_, n', w) = commit_node sha n in
      if \<not> dirtyFlag m \<and> hashValid m then (hashCache m, Ext p n' m, w)
      else let encoded = encode_ext p n'; h = sha encoded
           in (h, Ext p n' (committed_meta h), w @ [(h, encoded)]))"
| "commit_node sha (Branch ch v m) =
     (let (ch', w) = commit_children sha ch in
      if \<not> dirtyFlag m \<and> hashValid m then (hashCache m, Branch ch' v m, w)
      else let encoded = encode_branch ch' v; h = sha encoded
           in (h, Branch ch' v (committed_meta h), w @ [(h, encoded)]))"
| "commit_children sha [] = ([], [])"
| "commit_children sha (None # cs) =
     (let (cs', w) = commit_children sha cs in (None # cs', w))"
| "commit_children sha (Some c # cs) =
     (if kind c = KindNil
      then (let (cs', w) = commit_children sha cs in (Some c # cs', w))
      else (let (_, c', w) = commit_node sha c;
                (ch, ok) = cached_hash c';
                (cs', w') = commit_children sha cs
            in (Some (if ok then HashNode ch else c') # cs', w @ w')))"

definition store_writes :: "writes \<Rightarrow> store \<Rightarrow> store" where
  "store_writes w st = fold (\<lambda>(h, blob) s. s(h \<mapsto> blob)) w st"

definition trie_commit :: "(byte list \<Rightarrow> hash) \<Rightarrow> store \<Rightarrow> trie \<Rightarrow> hash \<times> trie \<times> store" where
  "trie_commit sha st t =
     (if \<not> trie_dirty t \<and> snd (cached_hash (root t)) then (fst (cached_hash (root t)), t, st)
      else let (h, r, w) = commit_node sha (root t)
           in (h, t\<lparr>root := r, trie_dirty := False\<rparr>, store_writes w st))"

end
