(* ===== verification/ChainTypes.thy ===== *)
theory ChainTypes
  imports Prelude
begin

text \<open>
  The data types of the chain, \<^verbatim>\<open>src/internal/types\<close>: token amounts (token.go), hashes and
  addresses with their hexadecimal forms (hash.go, address.go), transactions (transaction.go,
  signature.go) and block headers with the Merkle root of their transactions (block.go).

  A \<open>TokenAmount\<close> wraps a \<open>*big.Int\<close>: \<open>None\<close> is the nil pointer, on which most operations
  panic. Amounts are values here; the state database, where their pointers are shared, has an
  explicit store. SHA-256 is the argument \<open>sha\<close>. A Go string is a list of characters.
\<close>

section \<open>Token amounts\<close>

type_synonym token_kind = byte

definition token_apt :: token_kind where "token_apt = 0"
definition token_npt :: token_kind where "token_npt = 1"

definition token_kind_string :: "token_kind \<Rightarrow> string" where
  "token_kind_string tk = (if tk = token_apt then ''APT'' else if tk = token_npt then ''NPT'' else ''UNKNOWN'')"

type_synonym token_amount = "int option"

definition apt_precision :: int where "apt_precision = 10 ^ 18"

definition new_token_amount :: "int option \<Rightarrow> token_amount" where
  "new_token_amount v = (case v of None \<Rightarrow> Some 0 | Some x \<Rightarrow> Some x)"

definition new_token_amount_uint64 :: "u64 \<Rightarrow> token_amount" where
  "new_token_amount_uint64 v = Some (uint v)"

definition new_token_amount_from_tokens :: "64 word \<Rightarrow> token_amount" where
  "new_token_amount_from_tokens tokens = Some (sint tokens * apt_precision)"

text \<open>An operation of \<open>big.Int\<close> that reads two operands panics on a nil pointer.\<close>

fun amount_op :: "(int \<Rightarrow> int \<Rightarrow> 'a) \<Rightarrow> token_amount \<Rightarrow> token_amount \<Rightarrow> (string, 'a) outcome" where
  "amount_op f (Some a) (Some b) = Ok (f a b)"
| "amount_op f _ _ = Panic"

definition amount_add :: "token_amount \<Rightarrow> token_amount \<Rightarrow> (string, token_amount) outcome" where
  "amount_add t u = amount_op (\<lambda>a b. Some (a + b)) t u"

text \<open>\<open>big.Int.Cmp\<close> compares the pointers first, so two nil pointers are equal.\<close>

definition amount_cmp :: "token_amount \<Rightarrow> token_amount \<Rightarrow> (string, int) outcome" where
  "amount_cmp t u = (if t = None \<and> u = None then Ok 0 else amount_op (\<lambda>a b. sgn (a - b)) t u)"

definition amount_sub :: "token_amount \<Rightarrow> token_amount \<Rightarrow> (string, token_amount) outcome" where
  "amount_sub t u = obind (amount_cmp t u) (\<lambda>c.
     if c < 0 then Panic else amount_op (\<lambda>a b. Some (a - b)) t u)"

definition amount_mul :: "token_amount \<Rightarrow> int \<Rightarrow> (string, token_amount) outcome" where
  "amount_mul t scalar = amount_op (\<lambda>a b. Some (a * b)) t (Some scalar)"

text \<open>\<open>big.Int.Div\<close> is Euclidean: the remainder is never negative. It panics on zero.\<close>

definition euclid_div :: "int \<Rightarrow> int \<Rightarrow> int" where
  "euclid_div a b = (if 0 < b then a div b else - (a div (- b)))"

definition amount_div :: "token_amount \<Rightarrow> int \<Rightarrow> (string, token_amount) outcome" where
  "amount_div t scalar = (if scalar = 0 then Panic
     else amount_op (\<lambda>a b. Some (euclid_div a b)) t (Some scalar))"

definition amount_is_zero :: "token_amount \<Rightarrow> bool" where
  "amount_is_zero t = (case t of None \<Rightarrow> True | Some a \<Rightarrow> a = 0)"

definition amount_is_nil :: "token_amount \<Rightarrow> bool" where
  "amount_is_nil t = (t = None)"

definition amount_is_negative :: "token_amount \<Rightarrow> (string, bool) outcome" where
  "amount_is_negative t = (case t of None \<Rightarrow> Panic | Some a \<Rightarrow> Ok (a < 0))"

definition to_big_int :: "token_amount \<Rightarrow> (string, int) outcome" where
  "to_big_int t = (case t of None \<Rightarrow> Panic | Some a \<Rightarrow> Ok a)"

definition amount_uint64 :: "token_amount \<Rightarrow> (string, u64) outcome" where
  "amount_uint64 t = (case t of None \<Rightarrow> Panic
     | Some a \<Rightarrow> if 0 \<le> a \<and> a < 2 ^ 64 then Ok (word_of_int a) else Panic)"

definition amount_clone :: "token_amount \<Rightarrow> (string, token_amount) outcome" where
  "amount_clone t = (case t of None \<Rightarrow> Panic | Some a \<Rightarrow> Ok (Some a))"

text \<open>\<open>Set\<close> (the value of \<open>t\<close> afterwards), \<open>AddTo\<close> and \<open>SubTo\<close>.\<close>

definition amount_set :: "token_amount \<Rightarrow> token_amount \<Rightarrow> (string, token_amount) outcome" where
  "amount_set t other = amount_clone other"

definition amount_add_to :: "token_amount \<Rightarrow> token_amount \<Rightarrow> (string, token_amount) outcome" where
  "amount_add_to t other = amount_op (\<lambda>a b. Some (a + b)) t other"

definition amount_sub_to :: "token_amount \<Rightarrow> token_amount \<Rightarrow> (string, token_amount) outcome" where
  "amount_sub_to t other = obind (amount_cmp t other) (\<lambda>c.
     if c < 0 then Panic else amount_op (\<lambda>a b. Some (a - b)) t other)"

lemma amount_sub_Some [simp]:
  "amount_sub (Some a) (Some b) = (if a < b then Panic else Ok (Some (a - b)))"
  by (simp add: amount_sub_def amount_cmp_def)

lemma amount_add_Some [simp]: "amount_add (Some a) (Some b) = Ok (Some (a + b))"
  by (simp add: amount_add_def)

lemma amount_nil [simp]:
  "amount_add None u = Panic" "amount_add t None = Panic"
  "amount_sub None u = Panic" "amount_sub t None = Panic"
  by (cases t; cases u; simp add: amount_add_def amount_sub_def amount_cmp_def)+

lemma euclid_div_mod:
  assumes "b \<noteq> 0"
  shows "0 \<le> a - euclid_div a b * b \<and> a - euclid_div a b * b < \<bar>b\<bar>"
proof (cases "0 < b")
  case True
  then show ?thesis by (simp add: euclid_div_def minus_div_mult_eq_mod)
next
  case False
  with assms have "0 < - b" by simp
  then have "0 \<le> a mod (- b)" "a mod (- b) < - b" by (rule pos_mod_sign, rule pos_mod_bound)
  moreover have "a - euclid_div a b * b = a mod (- b)"
    using False minus_div_mult_eq_mod [of a "- b"] by (simp add: euclid_div_def)
  ultimately show ?thesis using False by simp
qed

section \<open>Hashes and addresses\<close>

definition empty_hash :: hash where "empty_hash = replicate 32 0"

definition zero_address :: address where "zero_address = replicate 20 0"

definition amm_pool_address :: address where "amm_pool_address = replicate 19 0 @ [1]"

definition hash_is_zero :: "hash \<Rightarrow> bool" where "hash_is_zero h = (h = empty_hash)"

definition address_is_zero :: "address \<Rightarrow> bool" where "address_is_zero a = (a = zero_address)"

text \<open>\<open>copy(h[:], b)\<close> into a zero array of \<open>n\<close> bytes: a longer slice is cut off.\<close>

definition copy_left :: "nat \<Rightarrow> byte list \<Rightarrow> byte list" where
  "copy_left n b = take n b @ replicate (n - length b) 0"

definition bytes_to_hash :: "byte list \<Rightarrow> hash" where
  "bytes_to_hash b = copy_left 32 b"

definition bytes_to_address :: "byte list \<Rightarrow> (string, address) outcome" where
  "bytes_to_address b = (if length b > 20 then Err ''byte slice too long for address''
     else Ok (replicate (20 - length b) 0 @ b))"

text \<open>\<open>hex.EncodeToString\<close> and \<open>hex.DecodeString\<close> of the standard library.\<close>

definition hex_char :: "byte \<Rightarrow> char" where
  "hex_char n = ''0123456789abcdef'' ! unat n"

fun hex_encode :: "byte list \<Rightarrow> string" where
  "hex_encode [] = []"
| "hex_encode (b # bs) = hex_char (drop_bit 4 b) # hex_char (b AND 0x0f) # hex_encode bs"

definition hex_value :: "char \<Rightarrow> byte option" where
  "hex_value c = map_of (zip ''0123456789abcdefABCDEF''
     [0, 1, 2, 3, 4, 5, 6, 7, 8, 9, 10, 11, 12, 13, 14, 15, 10, 11, 12, 13, 14, 15]) c"

fun hex_decode :: "string \<Rightarrow> byte list option" where
  "hex_decode [] = Some []"
| "hex_decode [c] = None"
| "hex_decode (c # d # s) = (case (hex_value c, hex_value d) of
     (Some h, Some l) \<Rightarrow> map_option ((#) (push_bit 4 h OR l)) (hex_decode s)
   | _ \<Rightarrow> None)"

definition strip_0x :: "string \<Rightarrow> string" where
  "strip_0x s = (if length s \<ge> 2 \<and> take 2 s = ''0x'' then drop 2 s else s)"

definition hex_to_hash :: "string \<Rightarrow> (string, hash) outcome" where
  "hex_to_hash s = (case hex_decode (strip_0x s) of
     None \<Rightarrow> Err ''hex'' | Some b \<Rightarrow> Ok (copy_left 32 b))"

definition hex_to_address :: "string \<Rightarrow> (string, address) outcome" where
  "hex_to_address s =
     (let s1 = strip_0x s; s2 = (if length s1 mod 2 = 1 then CHR ''0'' # s1 else s1)
      in case hex_decode s2 of
           None \<Rightarrow> Err ''hex''
         | Some b \<Rightarrow> if length b > 20 then Err ''hex string too long for address''
                     else Ok (replicate (20 - length b) 0 @ b))"

section \<open>Transactions\<close>

definition tx_transfer_apt :: byte where "tx_transfer_apt = 0x01"
definition tx_transfer_npt :: byte where "tx_transfer_npt = 0x02"
definition tx_swap :: byte where "tx_swap = 0x03"
definition tx_burn :: byte where "tx_burn = 0x04"
definition tx_stake :: byte where "tx_stake = 0x05"
definition tx_create_task :: byte where "tx_create_task = 0x10"
definition tx_submit_result :: byte where "tx_submit_result = 0x11"
definition tx_challenge_task :: byte where "tx_challenge_task = 0x12"
definition tx_resolve_task :: byte where "tx_resolve_task = 0x13"
definition tx_register_miner :: byte where "tx_register_miner = 0x20"
definition tx_update_capability :: byte where "tx_update_capability = 0x21"
definition tx_unregister_miner :: byte where "tx_unregister_miner = 0x22"

lemmas tx_codes = tx_transfer_apt_def tx_transfer_npt_def tx_swap_def tx_burn_def tx_stake_def
  tx_create_task_def tx_submit_result_def tx_challenge_task_def tx_resolve_task_def
  tx_register_miner_def tx_update_capability_def tx_unregister_miner_def

definition tx_type_string :: "byte \<Rightarrow> string" where
  "tx_type_string tt =
     (if tt = tx_transfer_apt then ''TransferAPT''
      else if tt = tx_transfer_npt then ''TransferNPT''
      else if tt = tx_swap then ''Swap''
      else if tt = tx_burn then ''Burn''
      else if tt = tx_stake then ''Stake''
      else if tt = tx_create_task then ''CreateTask''
      else if tt = tx_submit_result then ''SubmitResult''
      else if tt = tx_challenge_task then ''ChallengeTask''
      else if tt = tx_resolve_task then ''ResolveTask''
      else if tt = tx_register_miner then ''RegisterMiner''
      else if tt = tx_update_capability then ''UpdateCapability''
      else if tt = tx_unregister_miner then ''UnregisterMiner''
      else ''Unknown'')"

record transaction =
  tx_type :: byte
  tx_chain_id :: u64
  tx_nonce :: u64
  tx_from :: address
  tx_to :: address
  tx_amount :: token_amount
  tx_token_kind :: token_kind
  tx_gas_limit :: u64
  tx_gas_price :: token_amount
  tx_data :: "byte list"
  tx_signature :: "byte list option"
  tx_hash_cache :: hash
  tx_hash_once :: bool

definition tx_copy :: "transaction \<Rightarrow> (string, transaction) outcome" where
  "tx_copy tx = obind (amount_clone (tx_amount tx)) (\<lambda>amt.
     obind (amount_clone (tx_gas_price tx)) (\<lambda>gp.
       Ok (tx\<lparr>tx_amount := amt, tx_gas_price := gp\<rparr>)))"

text \<open>The bytes \<open>ComputeTransactionHash\<close> writes to the hash, in order.\<close>

definition tx_head :: "transaction \<Rightarrow> u64 \<Rightarrow> byte list" where
  "tx_head tx chainID = [tx_type tx] @ be_bytes 8 (unat chainID) @ be_bytes 8 (unat (tx_nonce tx))
     @ tx_from tx @ tx_to tx"

definition tx_preimage :: "transaction \<Rightarrow> u64 \<Rightarrow> (string, byte list) outcome" where
  "tx_preimage tx chainID = obind (to_big_int (tx_amount tx)) (\<lambda>amt.
     obind (to_big_int (tx_gas_price tx)) (\<lambda>gp.
       Ok (tx_head tx chainID @ big_bytes amt @ [tx_token_kind tx]
            @ be_bytes 8 (unat (tx_gas_limit tx)) @ big_bytes gp @ tx_data tx)))"

definition compute_transaction_hash ::
  "(byte list \<Rightarrow> hash) \<Rightarrow> transaction \<Rightarrow> u64 \<Rightarrow> (string, hash) outcome" where
  "compute_transaction_hash sha tx chainID = obind (tx_preimage tx chainID) (\<lambda>p. Ok (copy_left 32 (sha p)))"

definition tx_hash :: "(byte list \<Rightarrow> hash) \<Rightarrow> transaction \<Rightarrow> (string, hash \<times> transaction) outcome" where
  "tx_hash sha tx =
     (if tx_hash_once tx then Ok (tx_hash_cache tx, tx)
      else obind (compute_transaction_hash sha tx (tx_chain_id tx))
             (\<lambda>h. Ok (h, tx\<lparr>tx_hash_cache := h, tx_hash_once := True\<rparr>)))"

definition tx_cost :: "transaction \<Rightarrow> (string, token_amount) outcome" where
  "tx_cost tx = obind (to_big_int (tx_gas_price tx)) (\<lambda>gp. Ok (Some (uint (tx_gas_limit tx) * gp)))"

definition tx_effective_cost :: "transaction \<Rightarrow> token_amount \<Rightarrow> (string, token_amount) outcome" where
  "tx_effective_cost tx price = obind (to_big_int price) (\<lambda>gp. Ok (Some (uint (tx_gas_limit tx) * gp)))"

definition is_token_transfer :: "transaction \<Rightarrow> bool" where
  "is_token_transfer tx = (tx_type tx = tx_transfer_apt \<or> tx_type tx = tx_transfer_npt)"

definition is_task_related :: "transaction \<Rightarrow> bool" where
  "is_task_related tx = (tx_create_task \<le> tx_type tx \<and> tx_type tx \<le> tx_resolve_task)"

definition is_miner_related :: "transaction \<Rightarrow> bool" where
  "is_miner_related tx = (tx_register_miner \<le> tx_type tx \<and> tx_type tx \<le> tx_unregister_miner)"

definition signer_sender :: "transaction \<Rightarrow> (string, address) outcome" where
  "signer_sender tx = (if tx_signature tx = None then Err ''transaction missing signature'' else Ok (tx_from tx))"

definition signature_from_bytes :: "byte list \<Rightarrow> (string, byte list) outcome" where
  "signature_from_bytes b = (if length b \<noteq> 64 then Err ''invalid signature length'' else Ok b)"

definition public_key_from_bytes :: "byte list \<Rightarrow> (string, byte list) outcome" where
  "public_key_from_bytes b = (if length b \<noteq> 32 then Err ''invalid public key length'' else Ok b)"

section \<open>Blocks\<close>

record block_header =
  bh_parent_hash :: hash
  bh_height :: u64
  bh_timestamp :: u64
  bh_state_root :: hash
  bh_tx_root :: hash
  bh_receipt_root :: hash
  bh_proposer :: address
  bh_gas_limit :: u64
  bh_gas_used :: u64
  bh_extra :: "byte list"
  bh_round :: u64
  bh_prevote_hash :: hash
  bh_precommit_hash :: hash

record block =
  blk_header :: block_header
  blk_txs :: "transaction list"

definition header_preimage :: "block_header \<Rightarrow> byte list" where
  "header_preimage h = bh_parent_hash h @ u64_bytes (bh_height h) @ u64_bytes (bh_timestamp h)
     @ bh_state_root h @ bh_tx_root h @ bh_receipt_root h @ bh_proposer h
     @ u64_bytes (bh_gas_limit h) @ u64_bytes (bh_gas_used h) @ bh_extra h
     @ u64_bytes (bh_round h) @ bh_prevote_hash h @ bh_precommit_hash h"

definition compute_block_hash :: "(byte list \<Rightarrow> hash) \<Rightarrow> block_header \<Rightarrow> hash" where
  "compute_block_hash sha h = copy_left 32 (sha (header_preimage h))"

definition block_hash :: "(byte list \<Rightarrow> hash) \<Rightarrow> block \<Rightarrow> hash" where
  "block_hash sha b = compute_block_hash sha (blk_header b)"

fun merkle_pairs :: "(byte list \<Rightarrow> hash) \<Rightarrow> hash list \<Rightarrow> hash list" where
  "merkle_pairs sha (a # b # hs) = sha (a @ b) # merkle_pairs sha hs"
| "merkle_pairs sha _ = []"

definition merkle_level :: "(byte list \<Rightarrow> hash) \<Rightarrow> hash list \<Rightarrow> hash list" where
  "merkle_level sha hs = merkle_pairs sha (if length hs mod 2 \<noteq> 0 then hs @ [last hs] else hs)"

lemma length_merkle_pairs: "length (merkle_pairs sha hs) = length hs div 2"
  by (induction sha hs rule: merkle_pairs.induct) auto

lemma length_merkle_level: "length (merkle_level sha hs) = (length hs + 1) div 2"
  by (auto simp: merkle_level_def length_merkle_pairs)

function merkle_loop :: "(byte list \<Rightarrow> hash) \<Rightarrow> hash list \<Rightarrow> hash list" where
  "merkle_loop sha hs = (if length hs > 1 then merkle_loop sha (merkle_level sha hs) else hs)"
  by pat_completeness auto
termination
  by (relation "measure (\<lambda>(sha, hs). length hs)") (auto simp: length_merkle_level)

declare merkle_loop.simps [simp del]

definition compute_simple_merkle_root :: "(byte list \<Rightarrow> hash) \<Rightarrow> hash list \<Rightarrow> hash" where
  "compute_simple_merkle_root sha hs = (if hs = [] then replicate 32 0 else hd (merkle_loop sha hs))"

fun tx_hashes :: "(byte list \<Rightarrow> hash) \<Rightarrow> transaction list \<Rightarrow> (string, hash list) outcome" where
  "tx_hashes sha [] = Ok []"
| "tx_hashes sha (tx # txs) = obind (tx_hash sha tx) (\<lambda>(h, _).
     obind (tx_hashes sha txs) (\<lambda>hs. Ok (h # hs)))"

definition derive_tx_root :: "(byte list \<Rightarrow> hash) \<Rightarrow> transaction list \<Rightarrow> (string, hash) outcome" where
  "derive_tx_root sha txs =
     (if txs = [] then Ok empty_hash
      else obind (tx_hashes sha txs) (\<lambda>hs. Ok (copy_left 32 (compute_simple_merkle_root sha hs))))"

definition block_tx_hash :: "(byte list \<Rightarrow> hash) \<Rightarrow> block \<Rightarrow> int \<Rightarrow> (string, hash) outcome" where
  "block_tx_hash sha b idx =
     (if idx < 0 \<or> int (length (blk_txs b)) \<le> idx then Ok empty_hash
      else obind (tx_hash sha (blk_txs b ! nat idx)) (\<lambda>(h, _). Ok h))"

section \<open>Lemmas\<close>

lemma hex_chars:
  assumes "nibble16 < 16"
  shows "hex_value (''0123456789abcdef'' ! nibble16) = Some (word_of_nat nibble16)"
    and "''0123456789abcdef'' ! nibble16 \<noteq> CHR ''x''"
proof -
  have "list_all (\<lambda>n. hex_value (''0123456789abcdef'' ! n) = Some (word_of_nat n) \<and>
      ''0123456789abcdef'' ! n \<noteq> CHR ''x'') [0..<16]"
    by (simp add: upt_rec hex_value_def)
  with assms show "hex_value (''0123456789abcdef'' ! nibble16) = Some (word_of_nat nibble16)"
    and "''0123456789abcdef'' ! nibble16 \<noteq> CHR ''x''"
    by (simp_all add: list_all_iff)
qed

lemma hex_value_hex_char: "unat n < 16 \<Longrightarrow> hex_value (hex_char n) = Some n"
  using hex_chars(1) [of "unat n"] by (simp add: hex_char_def)

lemma byte_high_low: "push_bit 4 (drop_bit 4 b) OR (b AND 0x0f) = b" for b :: byte
proof -
  have "(0x0f :: byte) = mask 4" by (simp add: mask_eq_exp_minus_1)
  then show ?thesis by (auto simp: bit_eq_iff bit_simps)
qed

lemma byte_parts_small: "unat (drop_bit 4 b) < 16" "unat (b AND 0x0f) < 16" for b :: byte
proof -
  show "unat (drop_bit 4 b) < 16"
    using unat_byte_less [of b] by (simp add: drop_bit_eq_div unat_div_distrib div_less_iff_less_mult)
  have "b AND 0x0f \<le> 0x0f" by (rule word_and_le1)
  then show "unat (b AND 0x0f) < 16" by (simp add: word_le_nat_alt)
qed

lemma hex_decode_encode [simp]: "hex_decode (hex_encode bs) = Some bs"
  by (induction bs) (simp_all add: hex_value_hex_char byte_parts_small byte_high_low)

lemma length_hex_encode [simp]: "length (hex_encode bs) = 2 * length bs"
  by (induction bs) auto

lemma strip_hex_encode [simp]: "strip_0x (hex_encode bs) = hex_encode bs"
  using hex_chars(2) byte_parts_small(2)
  by (cases bs) (simp_all add: strip_0x_def hex_char_def)

lemma strip_0x_prefix [simp]: "strip_0x (''0x'' @ s) = s"
  by (simp add: strip_0x_def)

lemma merkle_level_duplicate:
  "odd (length hs) \<Longrightarrow> hs \<noteq> [] \<Longrightarrow> merkle_level sha (hs @ [last hs]) = merkle_level sha hs"
  by (simp add: merkle_level_def flip: even_iff_mod_2_eq_zero)

lemma merkle_loop_step: "1 < length hs \<Longrightarrow> merkle_loop sha hs = merkle_loop sha (merkle_level sha hs)"
  by (simp add: merkle_loop.simps [of sha hs])

lemma merkle_root_duplicate:
  assumes "odd (length hs)" "1 < length hs"
  shows "compute_simple_merkle_root sha (hs @ [last hs]) = compute_simple_merkle_root sha hs"
proof -
  from assms have "hs \<noteq> []" by auto
  moreover from assms have "merkle_loop sha (hs @ [last hs]) = merkle_loop sha hs"
    using merkle_loop_step [of "hs @ [last hs]" sha] merkle_loop_step [of hs sha]
      merkle_level_duplicate [of hs sha] \<open>hs \<noteq> []\<close> by simp
  ultimately show ?thesis by (simp add: compute_simple_merkle_root_def)
qed

lemma tx_hashes_snoc:
  "tx_hashes sha txs = Ok hs \<Longrightarrow> txs \<noteq> [] \<Longrightarrow>
    tx_hashes sha (txs @ [last txs]) = Ok (hs @ [last hs]) \<and> length hs = length txs"
proof (induction txs arbitrary: hs)
  case (Cons tx txs)
  from Cons.prems obtain h t hs' where h: "tx_hash sha tx = Ok (h, t)" "tx_hashes sha txs = Ok hs'" "hs = h # hs'"
    by (auto simp: obind_Ok_iff)
  show ?case
  proof (cases "txs = []")
    case False
    with Cons.IH [OF h(2)] h show ?thesis by (cases "hs' = []") auto
  qed (use h in auto)
qed simp

lemma tx_head_inject:
  assumes "length (tx_from tx) = 20" "length (tx_from tx') = 20" "length (tx_to tx) = length (tx_to tx')"
    and "tx_head tx c @ xs = tx_head tx' c' @ ys"
  shows "tx_type tx = tx_type tx' \<and> c = c' \<and> tx_nonce tx = tx_nonce tx' \<and>
    tx_from tx = tx_from tx' \<and> tx_to tx = tx_to tx' \<and> xs = ys"
proof -
  have u: "unat (w :: u64) < 256 ^ 8" for w
    using unsigned_less [of w] by simp
  from assms have *: "be_bytes 8 (unat c) = be_bytes 8 (unat c')"
    "be_bytes 8 (unat (tx_nonce tx)) = be_bytes 8 (unat (tx_nonce tx'))"
    by (auto simp: tx_head_def)
  then have "c = c'" "tx_nonce tx = tx_nonce tx'"
    using be_bytes_inj [OF _ u u] by (metis unat_eq_iff)+
  with assms show ?thesis by (auto simp: tx_head_def)
qed

lemma u64_bytes_inject [simp]: "u64_bytes a = u64_bytes b \<longleftrightarrow> a = b"
  by (metis u64_of_bytes_u64_bytes)

definition wf_header :: "block_header \<Rightarrow> bool" where
  "wf_header h \<longleftrightarrow> length (bh_parent_hash h) = 32 \<and> length (bh_state_root h) = 32 \<and>
     length (bh_tx_root h) = 32 \<and> length (bh_receipt_root h) = 32 \<and> length (bh_proposer h) = 20 \<and>
     length (bh_prevote_hash h) = 32 \<and> length (bh_precommit_hash h) = 32"

lemma byte_mult_256 [simp]: "x * 256 = (0 :: byte)" "256 * x = (0 :: byte)"
proof -
  have "(256 :: byte) = 0" by simp
  then show "x * 256 = (0 :: byte)" "256 * x = (0 :: byte)" by (simp_all only: mult_zero_left mult_zero_right)
qed

lemma be_nat_shift: "be_bytes (Suc n) (v * 256 + d) = be_bytes n v @ [word_of_nat d]" if "d < 256"
proof -
  have "(v * 256 + d) div 256 = v" using that by simp
  moreover have "(word_of_nat (v * 256 + d) :: byte) = word_of_nat d"
    by simp
  ultimately show ?thesis by simp
qed

lemma be_bytes_high_zero: "v < 256 ^ n \<Longrightarrow> be_bytes (Suc n) v = 0 # be_bytes n v"
proof (induction n arbitrary: v)
  case (Suc n)
  then have "v div 256 < 256 ^ n" by (simp add: div_less_iff_less_mult mult.commute)
  from Suc.IH [OF this] show ?case by (simp only: be_bytes.simps append_Cons)
qed simp

lemma big_bytes_shift: "0 < a \<Longrightarrow> big_bytes (256 * a) = big_bytes a @ [0]"
proof -
  assume a: "0 < a"
  have "nat (256 * a) = 256 * nat a" using a by (simp add: nat_mult_distrib)
  with a show ?thesis by (simp add: big_bytes_def big_bytes_nat.simps [of "256 * nat a"])
qed

lemma big_bytes_small: "0 < p \<Longrightarrow> p < 256 \<Longrightarrow> big_bytes p = [word_of_int p]"
  by (simp add: big_bytes_def big_bytes_nat.simps [of "nat p"])

section \<open>Properties\<close>

text \<open>
  An address printed by \<open>Hex\<close> is parsed back by \<open>HexToAddress\<close>, with or without the 0x
  prefix.
\<close>

theorem hex_address_roundtrip:
  assumes "length a = 20"
  shows "hex_to_address (hex_encode a) = Ok a \<and> hex_to_address (''0x'' @ hex_encode a) = Ok a"
  using assms by (simp only: hex_to_address_def strip_0x_prefix strip_hex_encode) (simp add: Let_def)

theorem hex_address_roundtrip_witness:
  "hex_to_address (''0x'' @ hex_encode amm_pool_address) = Ok amm_pool_address"
  using hex_address_roundtrip [of amm_pool_address] by (simp add: amm_pool_address_def)

text \<open>
  The signed hash of a transaction commits to its type, chain, nonce, sender and recipient:
  two transactions with 20-byte addresses and the same hash input agree on all five.
\<close>

theorem tx_preimage_binds:
  assumes "length (tx_from tx) = 20" "length (tx_to tx) = 20"
    and "length (tx_from tx') = 20" "length (tx_to tx') = 20"
    and "tx_preimage tx c = Ok p" "tx_preimage tx' c' = Ok p"
  shows "tx_type tx = tx_type tx' \<and> c = c' \<and> tx_nonce tx = tx_nonce tx' \<and>
    tx_from tx = tx_from tx' \<and> tx_to tx = tx_to tx'"
proof -
  from assms(5,6) obtain xs ys where "p = tx_head tx c @ xs" "p = tx_head tx' c' @ ys"
    by (auto simp: tx_preimage_def obind_Ok_iff)
  with tx_head_inject [of tx tx' c xs c' ys] assms(1-4) show ?thesis by simp
qed

definition sample_tx :: transaction where
  "sample_tx = \<lparr>tx_type = tx_transfer_apt, tx_chain_id = 31337, tx_nonce = 1,
     tx_from = replicate 20 1, tx_to = replicate 20 2, tx_amount = Some 5, tx_token_kind = token_apt,
     tx_gas_limit = 21000, tx_gas_price = Some 2, tx_data = [], tx_signature = Some (replicate 64 0),
     tx_hash_cache = empty_hash, tx_hash_once = False\<rparr>"

theorem tx_preimage_binds_witness:
  "\<exists>p. tx_preimage sample_tx 31337 = Ok p \<and> tx_from sample_tx = replicate 20 1"
proof -
  obtain p where p: "tx_preimage sample_tx 31337 = Ok p"
    by (simp add: tx_preimage_def sample_tx_def to_big_int_def)
  with tx_preimage_binds [OF _ _ _ _ p p] show ?thesis by (simp add: sample_tx_def)
qed

text \<open>
  The signed hash does not commit to the amount. Amount and gas price are written without a
  length, so a transfer of \<open>a\<close> APT with gas limit \<open>g\<close> below 2 to the 56 and a gas price \<open>p\<close> of one
  byte hashes like a transfer of \<open>256 a\<close> with gas limit \<open>256 g + p\<close> and gas price 0: the same
  signature is valid for both.
\<close>

theorem tx_hash_collision:
  assumes "tx_amount tx = Some a" "0 < a" "tx_token_kind tx = token_apt"
    and "unat (tx_gas_limit tx) < 2 ^ 56" "tx_gas_price tx = Some p" "0 < p" "p < 256"
  shows "compute_transaction_hash sha
      (tx\<lparr>tx_amount := Some (256 * a), tx_gas_limit := tx_gas_limit tx * 256 + word_of_int p,
          tx_gas_price := Some 0\<rparr>) c = compute_transaction_hash sha tx c"
proof -
  let ?g = "unat (tx_gas_limit tx)"
  have p: "word_of_int p = (word_of_nat (nat p) :: u64)" "word_of_int p = (word_of_nat (nat p) :: byte)"
    using assms(6) by simp_all
  have "?g * 256 + nat p < 2 ^ 64" using assms(4,7) by simp
  then have u: "unat (word_of_nat (?g * 256 + nat p) :: u64) = ?g * 256 + nat p"
    unfolding unat_of_nat by (intro mod_less) simp
  have e: "tx_gas_limit tx * 256 + word_of_int p = (word_of_nat (?g * 256 + nat p) :: u64)"
    by (simp add: p(1))
  have "unat (tx_gas_limit tx * 256 + word_of_int p) = ?g * 256 + nat p"
    unfolding e by (rule u)
  moreover have "be_bytes 8 (?g * 256 + nat p) = be_bytes 7 ?g @ [word_of_int p]"
    using be_nat_shift [of "nat p" 7 ?g] assms(6,7) by simp
  moreover have "be_bytes 8 ?g = 0 # be_bytes 7 ?g"
    using be_bytes_high_zero [of ?g 7] assms(4) by simp
  ultimately show ?thesis
    using assms by (simp add: compute_transaction_hash_def tx_preimage_def tx_head_def to_big_int_def
        big_bytes_shift big_bytes_small token_apt_def)
qed

theorem tx_hash_collision_witness:
  "compute_transaction_hash (\<lambda>b. b)
     (sample_tx\<lparr>tx_amount := Some 1280, tx_gas_limit := 5376002, tx_gas_price := Some 0\<rparr>) 31337 =
   compute_transaction_hash (\<lambda>b. b) sample_tx 31337"
  using tx_hash_collision [of sample_tx 5 2 "\<lambda>b. b" 31337] by (simp add: sample_tx_def)

text \<open>
  The block hash commits to every field of the header: the hash input determines the header,
  the variable-length extra data included, when the array fields have their fixed sizes.
\<close>

theorem header_preimage_binds:
  assumes "wf_header h" "wf_header h'" "header_preimage h = header_preimage h'"
  shows "h = h'"
proof -
  from assms(3) have "length (header_preimage h) = length (header_preimage h')" by simp
  with assms(1,2) have "length (bh_extra h) = length (bh_extra h')"
    by (simp add: header_preimage_def wf_header_def)
  with assms show ?thesis
    by (intro block_header.equality) (simp_all add: header_preimage_def wf_header_def)
qed

definition sample_header :: block_header where
  "sample_header = \<lparr>bh_parent_hash = empty_hash, bh_height = 1, bh_timestamp = 1719000000,
     bh_state_root = empty_hash, bh_tx_root = empty_hash, bh_receipt_root = empty_hash,
     bh_proposer = zero_address, bh_gas_limit = 30000000, bh_gas_used = 21000, bh_extra = [1, 2],
     bh_round = 0, bh_prevote_hash = empty_hash, bh_precommit_hash = empty_hash\<rparr>"

theorem header_preimage_binds_witness:
  "wf_header sample_header \<and> sample_header\<lparr>bh_round := 0, bh_height := 1\<rparr> = sample_header"
proof -
  have wf: "wf_header sample_header" "wf_header (sample_header\<lparr>bh_round := 0, bh_height := 1\<rparr>)"
    by (simp_all add: wf_header_def sample_header_def empty_hash_def zero_address_def)
  have "header_preimage (sample_header\<lparr>bh_round := 0, bh_height := 1\<rparr>) = header_preimage sample_header"
    by (simp add: header_preimage_def sample_header_def)
  with header_preimage_binds [OF wf(2,1)] wf(1) show ?thesis by simp
qed

text \<open>
  The transaction root does not determine the transactions. A block with an odd number (at
  least three) of transactions has the same \<open>DeriveTxRoot\<close> as the block that repeats its last
  transaction once more.
\<close>

theorem tx_root_duplicate:
  assumes "tx_hashes sha txs = Ok hs" "odd (length txs)" "1 < length txs"
  shows "derive_tx_root sha (txs @ [last txs]) = derive_tx_root sha txs"
proof -
  from assms(3) have ne: "txs \<noteq> []" by auto
  from tx_hashes_snoc [OF assms(1) this] have
    t: "tx_hashes sha (txs @ [last txs]) = Ok (hs @ [last hs])" "length hs = length txs" by simp_all
  with merkle_root_duplicate [of hs sha] assms(2,3) ne assms(1) show ?thesis
    by (simp add: derive_tx_root_def)
qed

theorem tx_root_duplicate_witness:
  "derive_tx_root (\<lambda>b. b) [sample_tx, sample_tx\<lparr>tx_nonce := 2\<rparr>, sample_tx\<lparr>tx_nonce := 3\<rparr>, sample_tx\<lparr>tx_nonce := 3\<rparr>] =
   derive_tx_root (\<lambda>b. b) [sample_tx, sample_tx\<lparr>tx_nonce := 2\<rparr>, sample_tx\<lparr>tx_nonce := 3\<rparr>]"
proof -
  have "\<exists>hs. tx_hashes (\<lambda>b. b) [sample_tx, sample_tx\<lparr>tx_nonce := 2\<rparr>, sample_tx\<lparr>tx_nonce := 3\<rparr>] = Ok hs"
    by (simp add: tx_hash_def compute_transaction_hash_def tx_preimage_def sample_tx_def to_big_int_def)
  then show ?thesis
    using tx_root_duplicate [of "\<lambda>b. b" "[sample_tx, sample_tx\<lparr>tx_nonce := 2\<rparr>, sample_tx\<lparr>tx_nonce := 3\<rparr>]"]
    by auto
qed

end
