(* ===== verification/AccountCodec.thy ===== *)
theory AccountCodec
  imports ChainTypes
begin

text \<open>
  Accounts and their bytes in the state trie: \<open>Account\<close> of \<^verbatim>\<open>src/internal/types/account.go\<close> and
  \<open>encodeAccount\<close>, \<open>decodeAccount\<close> of \<^verbatim>\<open>src/internal/state/account/statedb.go\<close>.

  The record is polymorphic in its balances: token amounts here, pointers to integers in the
  theory of the state database.
\<close>

record 'a account =
  acc_nonce :: u64
  acc_apt :: 'a
  acc_npt :: 'a
  acc_code :: hash
  acc_storage :: hash

definition account_is_empty :: "token_amount account \<Rightarrow> bool" where
  "account_is_empty a = (acc_nonce a = 0 \<and> amount_is_zero (acc_apt a) \<and> amount_is_zero (acc_npt a)
     \<and> hash_is_zero (acc_code a) \<and> hash_is_zero (acc_storage a))"

definition encode_account :: "token_amount account \<Rightarrow> (string, byte list) outcome" where
  "encode_account acct = (case (acc_apt acct, acc_npt acct) of
     (Some apt, Some npt) \<Rightarrow>
       (let aptBytes = big_bytes apt; nptBytes = big_bytes npt
        in Ok (u64_bytes (acc_nonce acct) @ be_bytes 4 (length aptBytes) @ aptBytes
             @ be_bytes 4 (length nptBytes) @ nptBytes @ acc_code acct @ acc_storage acct))
   | _ \<Rightarrow> Panic)"

definition new_big_int_from_bytes :: "byte list \<Rightarrow> int" where
  "new_big_int_from_bytes b = (if length b = 0 then 0 else big_set_bytes b)"

text \<open>The amount of a length prefix: a length of zero leaves the zero value, a nil amount.\<close>

definition decode_amount :: "byte list \<Rightarrow> token_amount" where
  "decode_amount b = (if length b > 0 then new_token_amount (Some (new_big_int_from_bytes b)) else None)"

definition decode_account :: "byte list \<Rightarrow> (string, token_amount account) outcome" where
  "decode_account data =
     (if length data < 16 then Err ''account data too short''
      else let nonce = u64_of_bytes (take 8 data); d1 = drop 8 data in
        if length d1 < 4 then Err ''account data truncated at APT len''
        else let aptLen = be_nat (take 4 d1); d2 = drop 4 d1 in
          if length d2 < aptLen then Err ''account data truncated at APT value''
          else let apt = decode_amount (take aptLen d2); d3 = drop aptLen d2 in
            if length d3 < 4 then Err ''account data truncated at NPT len''
            else let nptLen = be_nat (take 4 d3); d4 = drop 4 d3 in
              if length d4 < nptLen then Err ''account data truncated at NPT value''
              else let npt = decode_amount (take nptLen d4); d5 = drop nptLen d4 in
                if length d5 < 32 then Err ''account data truncated at code hash''
                else let d6 = drop 32 d5 in
                  if length d6 < 32 then Err ''account data truncated at storage root''
                  else Ok \<lparr>acc_nonce = nonce, acc_apt = apt, acc_npt = npt,
                         acc_code = take 32 d5, acc_storage = take 32 d6\<rparr>)"

section \<open>Lemmas\<close>

lemma take_be_append [simp]: "take n (be_bytes n v @ xs) = be_bytes n v" "drop n (be_bytes n v @ xs) = xs"
  by simp_all

lemma take_u64 [simp]: "take 8 (u64_bytes v @ xs) = u64_bytes v" "drop 8 (u64_bytes v @ xs) = xs"
  by simp_all

definition stored_amount :: "int \<Rightarrow> token_amount" where
  "stored_amount v = (if v = 0 then None else Some \<bar>v\<bar>)"

lemma decode_amount_big_bytes [simp]: "decode_amount (big_bytes v) = stored_amount v"
  by (simp add: decode_amount_def stored_amount_def new_token_amount_def new_big_int_from_bytes_def
      big_set_bytes_big_bytes)

definition account_fits :: "token_amount account \<Rightarrow> bool" where
  "account_fits a \<longleftrightarrow> length (acc_code a) = 32 \<and> length (acc_storage a) = 32 \<and>
     (\<forall>v \<in> set_option (acc_apt a). length (big_bytes v) < 2 ^ 32) \<and>
     (\<forall>v \<in> set_option (acc_npt a). length (big_bytes v) < 2 ^ 32)"

lemma decode_encode_account:
  assumes "account_fits a" "acc_apt a = Some apt" "acc_npt a = Some npt"
  shows "obind (encode_account a) decode_account =
    Ok (a\<lparr>acc_apt := stored_amount apt, acc_npt := stored_amount npt\<rparr>)"
proof -
  have len: "be_nat (be_bytes 4 (length (big_bytes apt))) = length (big_bytes apt)"
    "be_nat (be_bytes 4 (length (big_bytes npt))) = length (big_bytes npt)"
    using assms by (auto simp: account_fits_def be_nat_be_bytes)
  show ?thesis
    using assms len by (cases a) (simp add: encode_account_def decode_account_def account_fits_def
        Let_def u64_of_bytes_u64_bytes)
qed

lemma encode_account_total:
  "acc_apt a \<noteq> None \<Longrightarrow> acc_npt a \<noteq> None \<Longrightarrow> \<exists>b. encode_account a = Ok b"
  by (auto simp: encode_account_def Let_def)

lemma length_big_bytes_small: "\<bar>v\<bar> < 256 ^ k \<Longrightarrow> length (big_bytes v) \<le> k"
  unfolding big_bytes_def by (rule length_big_bytes_nat_le) (simp add: nat_less_iff)

section \<open>Property\<close>

text \<open>
  Decoding an encoded account gives back its nonce, code hash, storage root and the absolute
  values of its balances; a zero balance comes back as the nil amount.
\<close>

theorem account_roundtrip:
  assumes "account_fits a" "acc_apt a = Some apt" "acc_npt a = Some npt"
  shows "obind (encode_account a) decode_account =
    Ok (a\<lparr>acc_apt := (if apt = 0 then None else Some \<bar>apt\<bar>),
          acc_npt := (if npt = 0 then None else Some \<bar>npt\<bar>)\<rparr>)"
  using decode_encode_account [OF assms] by (simp add: stored_amount_def)

theorem account_roundtrip_witness:
  "obind (encode_account \<lparr>acc_nonce = 7, acc_apt = Some 300, acc_npt = Some 0,
       acc_code = empty_hash, acc_storage = empty_hash\<rparr>) decode_account =
   Ok \<lparr>acc_nonce = 7, acc_apt = Some 300, acc_npt = None, acc_code = empty_hash, acc_storage = empty_hash\<rparr>"
proof -
  let ?a = "\<lparr>acc_nonce = 7, acc_apt = Some 300, acc_npt = Some 0,
     acc_code = empty_hash, acc_storage = empty_hash\<rparr>"
  have "account_fits ?a"
    using length_big_bytes_small [of 300 2] by (simp add: account_fits_def empty_hash_def)
  from account_roundtrip [OF this, of 300 0] show ?thesis by simp
qed

end
