(* ===== verification/StateDB.thy ===== *)
theory StateDB
  imports NodeStore AccountCodec "HOL-Library.AList"
begin

text \<open>
  The state database, \<^verbatim>\<open>src/internal/state/account\<close>: state objects (state_object.go), the journal
  (journal.go) and \<open>StateDB\<close> (statedb.go).

  A balance is a pointer to a \<open>big.Int\<close>, and the journal keeps the pointer the account held, so
  the integers live in an explicit store: \<open>sd_ints\<close> is the list of all of them, a pointer is an
  index into it, a clone appends. Amounts passed by callers are values, as each is read once at
  the start of the operation. The object map and the storage of a \<open>StateObject\<close> are a map and
  an association list; where Go iterates over a map the order is an argument. \<open>sd_code_hash\<close> is
  the global \<open>EmptyCodeHash\<close> and \<open>sd_store\<close> the database behind the tries. A function returns its
  value with the new state, or \<open>Panic\<close>.
\<close>

section \<open>Integers behind pointers\<close>

type_synonym ptr = "nat option"

definition deref :: "int list \<Rightarrow> ptr \<Rightarrow> (string, int) outcome" where
  "deref h p = (case p of None \<Rightarrow> Panic | Some i \<Rightarrow> if i < length h then Ok (h ! i) else Panic)"

definition alloc :: "int list \<Rightarrow> int \<Rightarrow> ptr \<times> int list" where
  "alloc h v = (Some (length h), h @ [v])"

definition clone_ptr :: "int list \<Rightarrow> ptr \<Rightarrow> (string, ptr \<times> int list) outcome" where
  "clone_ptr h p = obind (deref h p) (\<lambda>v. Ok (alloc h v))"

definition account_copy :: "int list \<Rightarrow> ptr account \<Rightarrow> (string, ptr account \<times> int list) outcome" where
  "account_copy h a = obind (clone_ptr h (acc_apt a)) (\<lambda>(p, h1).
     obind (clone_ptr h1 (acc_npt a)) (\<lambda>(q, h2). Ok (a\<lparr>acc_apt := p, acc_npt := q\<rparr>, h2)))"

definition alloc_amount :: "int list \<Rightarrow> token_amount \<Rightarrow> ptr \<times> int list" where
  "alloc_amount h v = (case v of None \<Rightarrow> (None, h) | Some x \<Rightarrow> alloc h x)"

definition alloc_account :: "int list \<Rightarrow> token_amount account \<Rightarrow> ptr account \<times> int list" where
  "alloc_account h a = (let (p, h1) = alloc_amount h (acc_apt a); (q, h2) = alloc_amount h1 (acc_npt a)
     in (\<lparr>acc_nonce = acc_nonce a, acc_apt = p, acc_npt = q, acc_code = acc_code a, acc_storage = acc_storage a\<rparr>, h2))"

definition ptr_value :: "int list \<Rightarrow> ptr \<Rightarrow> token_amount" where
  "ptr_value h p = map_option ((!) h) p"

definition account_values :: "int list \<Rightarrow> ptr account \<Rightarrow> token_amount account" where
  "account_values h a = \<lparr>acc_nonce = acc_nonce a, acc_apt = ptr_value h (acc_apt a),
     acc_npt = ptr_value h (acc_npt a), acc_code = acc_code a, acc_storage = acc_storage a\<rparr>"

section \<open>State objects\<close>

record state_object =
  so_address :: address
  so_account :: "ptr account"
  so_storage :: "trie option"
  so_dirty :: bool
  so_dirty_storage :: "(hash \<times> gobytes) list"
  so_origin :: "ptr account"

definition new_state_object ::
  "int list \<Rightarrow> address \<Rightarrow> ptr account \<Rightarrow> (string, state_object \<times> int list) outcome" where
  "new_state_object h addr acct = obind (account_copy h acct) (\<lambda>(orig, h').
     Ok (\<lparr>so_address = addr, so_account = acct, so_storage = None, so_dirty = False,
          so_dirty_storage = [], so_origin = orig\<rparr>, h'))"

definition so_set_nonce :: "u64 \<Rightarrow> state_object \<Rightarrow> state_object" where
  "so_set_nonce n obj = obj\<lparr>so_account := (so_account obj)\<lparr>acc_nonce := n\<rparr>, so_dirty := True\<rparr>"

text \<open>\<open>AddTo\<close> and \<open>SubTo\<close> update the integer behind the pointer.\<close>

definition add_to :: "int list \<Rightarrow> ptr \<Rightarrow> token_amount \<Rightarrow> (string, int list) outcome" where
  "add_to h p amt = (case (p, amt) of
     (Some i, Some a) \<Rightarrow> obind (deref h p) (\<lambda>v. Ok (h[i := v + a])) | _ \<Rightarrow> Panic)"

definition sub_to :: "int list \<Rightarrow> ptr \<Rightarrow> token_amount \<Rightarrow> (string, int list) outcome" where
  "sub_to h p amt = (case (p, amt) of
     (Some i, Some a) \<Rightarrow> obind (deref h p) (\<lambda>v. if v < a then Panic else Ok (h[i := v - a]))
   | _ \<Rightarrow> Panic)"

type_synonym so_op = "int list \<Rightarrow> state_object \<Rightarrow> (string, state_object \<times> int list) outcome"

definition so_add_balance_apt :: "token_amount \<Rightarrow> so_op" where
  "so_add_balance_apt amt h obj = obind (add_to h (acc_apt (so_account obj)) amt) (\<lambda>h'. Ok (obj\<lparr>so_dirty := True\<rparr>, h'))"

definition so_sub_balance_apt :: "token_amount \<Rightarrow> so_op" where
  "so_sub_balance_apt amt h obj = obind (sub_to h (acc_apt (so_account obj)) amt) (\<lambda>h'. Ok (obj\<lparr>so_dirty := True\<rparr>, h'))"

definition so_add_balance_npt :: "token_amount \<Rightarrow> so_op" where
  "so_add_balance_npt amt h obj = obind (add_to h (acc_npt (so_account obj)) amt) (\<lambda>h'. Ok (obj\<lparr>so_dirty := True\<rparr>, h'))"

definition so_sub_balance_npt :: "token_amount \<Rightarrow> so_op" where
  "so_sub_balance_npt amt h obj = obind (sub_to h (acc_npt (so_account obj)) amt) (\<lambda>h'. Ok (obj\<lparr>so_dirty := True\<rparr>, h'))"

definition so_is_dirty :: "state_object \<Rightarrow> bool" where
  "so_is_dirty obj = (so_dirty obj \<or> length (so_dirty_storage obj) > 0)"

definition so_is_empty :: "int list \<Rightarrow> state_object \<Rightarrow> bool" where
  "so_is_empty h obj = account_is_empty (account_values h (so_account obj))"

definition so_get_storage :: "nodedb \<Rightarrow> hash \<Rightarrow> state_object \<Rightarrow> (string, gobytes \<times> state_object) outcome" where
  "so_get_storage db key obj = (case so_storage obj of
     None \<Rightarrow> Ok (None, obj)
   | Some t \<Rightarrow> (case trie_read db t key of
        None \<Rightarrow> Panic | Some (t', val) \<Rightarrow> Ok (val, obj\<lparr>so_storage := Some t'\<rparr>)))"

definition so_set_storage :: "nodedb \<Rightarrow> hash \<Rightarrow> gobytes \<Rightarrow> state_object \<Rightarrow> (string, state_object) outcome" where
  "so_set_storage db key val obj =
     (let t = (case so_storage obj of None \<Rightarrow> new_empty_trie | Some t \<Rightarrow> t)
      in case trie_put db t key val of
           None \<Rightarrow> Panic
         | Some t' \<Rightarrow> Ok (obj\<lparr>so_storage := Some t', so_dirty_storage := AList.update key val (so_dirty_storage obj)\<rparr>))"

section \<open>The database\<close>

datatype journal_entry =
    JournalCreateAccount address
  | JournalBalanceChange address ptr ptr
  | JournalNonceChange address u64
  | JournalStorageChange address hash gobytes
  | JournalCodeChange address hash

record statedb =
  sd_ints :: "int list"
  sd_store :: store
  sd_code_hash :: hash
  sd_trie :: trie
  sd_objects :: "address \<Rightarrow> state_object option"
  sd_dirty :: "address set"
  sd_journal :: "journal_entry list"
  sd_valid_revisions :: "nat list"
  sd_next_revision :: nat
  sd_last_error :: "string option"

type_synonym 'a sd_result = "(string, 'a \<times> statedb) outcome"

text \<open>The integer at index 0 is \<open>ZeroAmount\<close>.\<close>

definition zero_ptr :: ptr where "zero_ptr = Some 0"

definition new_statedb :: "hash \<Rightarrow> store \<Rightarrow> statedb" where
  "new_statedb codeHash st = \<lparr>sd_ints = [0], sd_store = st, sd_code_hash = codeHash,
     sd_trie = new_empty_trie, sd_objects = (\<lambda>_. None), sd_dirty = {}, sd_journal = [],
     sd_valid_revisions = [], sd_next_revision = 0, sd_last_error = None\<rparr>"

definition new_statedb_with_root :: "hash \<Rightarrow> store \<Rightarrow> hash \<Rightarrow> statedb" where
  "new_statedb_with_root codeHash st rootHash = (new_statedb codeHash st)\<lparr>sd_trie := new_trie rootHash\<rparr>"

definition put_object :: "address \<Rightarrow> state_object \<Rightarrow> statedb \<Rightarrow> statedb" where
  "put_object addr obj s = s\<lparr>sd_objects := (sd_objects s)(addr := Some obj)\<rparr>"

definition journal_append :: "journal_entry \<Rightarrow> statedb \<Rightarrow> statedb" where
  "journal_append e s = s\<lparr>sd_journal := sd_journal s @ [e]\<rparr>"

definition get_state_object :: "address \<Rightarrow> statedb \<Rightarrow> state_object option sd_result" where
  "get_state_object addr s = (case sd_objects s addr of
     Some obj \<Rightarrow> Ok (Some obj, s)
   | None \<Rightarrow>
       (case trie_read (get_node (sd_store s)) (sd_trie s) addr of
          None \<Rightarrow> Panic
        | Some (t, None) \<Rightarrow> Ok (None, s\<lparr>sd_trie := t\<rparr>)
        | Some (t, Some data) \<Rightarrow>
            (case decode_account data of
               Ok acct \<Rightarrow>
                 (let (pa, h) = alloc_account (sd_ints s) acct
                  in obind (new_state_object h addr pa) (\<lambda>(obj, h').
                       Ok (Some obj, put_object addr obj (s\<lparr>sd_trie := t, sd_ints := h'\<rparr>))))
             | Err e \<Rightarrow> Ok (None, s\<lparr>sd_trie := t, sd_last_error := Some e\<rparr>)
             | Panic \<Rightarrow> Panic)))"

definition create_object :: "address \<Rightarrow> statedb \<Rightarrow> state_object sd_result" where
  "create_object addr s =
     obind (clone_ptr (sd_ints s) zero_ptr) (\<lambda>(p, h1).
     obind (clone_ptr h1 zero_ptr) (\<lambda>(q, h2).
     obind (new_state_object h2 addr \<lparr>acc_nonce = 0, acc_apt = p, acc_npt = q,
              acc_code = sd_code_hash s, acc_storage = empty_hash\<rparr>) (\<lambda>(obj, h3).
       Ok (obj, (put_object addr obj (journal_append (JournalCreateAccount addr) (s\<lparr>sd_ints := h3\<rparr>)))
                  \<lparr>sd_dirty := insert addr (sd_dirty s)\<rparr>))))"

definition get_or_new_state_object :: "address \<Rightarrow> statedb \<Rightarrow> state_object sd_result" where
  "get_or_new_state_object addr s = obind (get_state_object addr s) (\<lambda>(r, s1).
     case r of Some obj \<Rightarrow> Ok (obj, s1) | None \<Rightarrow> create_object addr s1)"

definition create_account :: "address \<Rightarrow> statedb \<Rightarrow> state_object sd_result" where
  "create_account addr s = obind (get_state_object addr s) (\<lambda>(r, s1).
     case r of Some existing \<Rightarrow> Ok (existing, s1) | None \<Rightarrow> create_object addr s1)"

definition exist :: "address \<Rightarrow> statedb \<Rightarrow> bool sd_result" where
  "exist addr s = obind (get_state_object addr s) (\<lambda>(r, s1). Ok (r \<noteq> None, s1))"

definition empty_account :: "address \<Rightarrow> statedb \<Rightarrow> bool sd_result" where
  "empty_account addr s = obind (get_state_object addr s) (\<lambda>(r, s1).
     case r of None \<Rightarrow> Ok (True, s1) | Some obj \<Rightarrow> Ok (so_is_empty (sd_ints s1) obj, s1))"

definition delete_account :: "address \<Rightarrow> statedb \<Rightarrow> statedb" where
  "delete_account addr s = s\<lparr>sd_objects := (sd_objects s)(addr := None), sd_dirty := sd_dirty s - {addr}\<rparr>"

section \<open>Balances and nonces\<close>

definition get_balance_apt :: "address \<Rightarrow> statedb \<Rightarrow> ptr sd_result" where
  "get_balance_apt addr s = obind (get_state_object addr s) (\<lambda>(r, s1).
     case r of None \<Rightarrow> Ok (zero_ptr, s1) | Some obj \<Rightarrow> Ok (acc_apt (so_account obj), s1))"

definition get_balance_npt :: "address \<Rightarrow> statedb \<Rightarrow> ptr sd_result" where
  "get_balance_npt addr s = obind (get_state_object addr s) (\<lambda>(r, s1).
     case r of None \<Rightarrow> Ok (zero_ptr, s1) | Some obj \<Rightarrow> Ok (acc_npt (so_account obj), s1))"

text \<open>
  The common body of \<open>AddBalanceAPT\<close>, \<open>SubBalanceAPT\<close>, \<open>AddBalanceNPT\<close> and \<open>SubBalanceNPT\<close>: the
  journal entry holds the pointers read before the update in place.
\<close>

definition change_balance :: "so_op \<Rightarrow> address \<Rightarrow> statedb \<Rightarrow> unit sd_result" where
  "change_balance f addr s = obind (get_or_new_state_object addr s) (\<lambda>(obj, s1).
     let prevAPT = acc_apt (so_account obj); prevNPT = acc_npt (so_account obj)
     in obind (f (sd_ints s1) obj) (\<lambda>(obj', h).
          Ok ((), journal_append (JournalBalanceChange addr prevAPT prevNPT)
                    ((put_object addr obj' (s1\<lparr>sd_ints := h\<rparr>))\<lparr>sd_dirty := insert addr (sd_dirty s1)\<rparr>))))"

definition add_balance_apt :: "address \<Rightarrow> token_amount \<Rightarrow> statedb \<Rightarrow> unit sd_result" where
  "add_balance_apt addr amt = change_balance (so_add_balance_apt amt) addr"

definition sub_balance_apt :: "address \<Rightarrow> token_amount \<Rightarrow> statedb \<Rightarrow> unit sd_result" where
  "sub_balance_apt addr amt = change_balance (so_sub_balance_apt amt) addr"

definition add_balance_npt :: "address \<Rightarrow> token_amount \<Rightarrow> statedb \<Rightarrow> unit sd_result" where
  "add_balance_npt addr amt = change_balance (so_add_balance_npt amt) addr"

definition sub_balance_npt :: "address \<Rightarrow> token_amount \<Rightarrow> statedb \<Rightarrow> unit sd_result" where
  "sub_balance_npt addr amt = change_balance (so_sub_balance_npt amt) addr"

definition get_nonce :: "address \<Rightarrow> statedb \<Rightarrow> u64 sd_result" where
  "get_nonce addr s = obind (get_state_object addr s) (\<lambda>(r, s1).
     case r of None \<Rightarrow> Ok (0, s1) | Some obj \<Rightarrow> Ok (acc_nonce (so_account obj), s1))"

definition set_nonce :: "address \<Rightarrow> u64 \<Rightarrow> statedb \<Rightarrow> unit sd_result" where
  "set_nonce addr nonce s = obind (get_or_new_state_object addr s) (\<lambda>(obj, s1).
     let prevNonce = acc_nonce (so_account obj)
     in Ok ((), journal_append (JournalNonceChange addr prevNonce)
                  ((put_object addr (so_set_nonce nonce obj) s1)\<lparr>sd_dirty := insert addr (sd_dirty s1)\<rparr>)))"

section \<open>Snapshots\<close>

definition snapshot :: "statedb \<Rightarrow> nat \<times> statedb" where
  "snapshot s = (sd_next_revision s,
     s\<lparr>sd_next_revision := Suc (sd_next_revision s),
       sd_valid_revisions := sd_valid_revisions s @ [length (sd_journal s)]\<rparr>)"

fun revert_entry :: "journal_entry \<Rightarrow> statedb \<Rightarrow> (string, statedb) outcome" where
  "revert_entry (JournalCreateAccount addr) s = Ok (s\<lparr>sd_objects := (sd_objects s)(addr := None)\<rparr>)"
| "revert_entry (JournalBalanceChange addr prevAPT prevNPT) s = (case sd_objects s addr of
     None \<Rightarrow> Ok s
   | Some obj \<Rightarrow>
       obind (clone_ptr (sd_ints s) prevAPT) (\<lambda>(p, h1).
       obind (clone_ptr h1 prevNPT) (\<lambda>(q, h2).
         Ok (put_object addr (obj\<lparr>so_account := (so_account obj)\<lparr>acc_apt := p, acc_npt := q\<rparr>, so_dirty := True\<rparr>)
               (s\<lparr>sd_ints := h2\<rparr>)))))"
| "revert_entry (JournalNonceChange addr prevNonce) s = (case sd_objects s addr of
     None \<Rightarrow> Ok s | Some obj \<Rightarrow> Ok (put_object addr (so_set_nonce prevNonce obj) s))"
| "revert_entry (JournalStorageChange addr key prevValue) s = (case sd_objects s addr of
     None \<Rightarrow> Ok s
   | Some obj \<Rightarrow> Ok (put_object addr (obj\<lparr>so_dirty_storage :=
       (if prevValue = None then AList.delete key (so_dirty_storage obj)
        else AList.update key prevValue (so_dirty_storage obj))\<rparr>) s))"
| "revert_entry (JournalCodeChange addr prevCode) s = (case sd_objects s addr of
     None \<Rightarrow> Ok s
   | Some obj \<Rightarrow> Ok (put_object addr (obj\<lparr>so_account := (so_account obj)\<lparr>acc_code := prevCode\<rparr>, so_dirty := True\<rparr>) s))"

fun revert_entries :: "journal_entry list \<Rightarrow> statedb \<Rightarrow> (string, statedb) outcome" where
  "revert_entries [] s = Ok s"
| "revert_entries (e # es) s = obind (revert_entry e s) (revert_entries es)"

definition revert_to_snapshot :: "int \<Rightarrow> statedb \<Rightarrow> (string, statedb) outcome" where
  "revert_to_snapshot revID s =
     (if revID < 0 \<or> revID \<ge> int (length (sd_valid_revisions s)) then Panic
      else let idx = sd_valid_revisions s ! nat revID in
        obind (revert_entries (rev (drop idx (sd_journal s))) s) (\<lambda>s1.
          Ok (s1\<lparr>sd_journal := take idx (sd_journal s1),
                 sd_valid_revisions := take (nat revID) (sd_valid_revisions s1),
                 sd_next_revision := nat revID\<rparr>)))"

section \<open>Finalisation and commit\<close>

definition commit_account :: "address \<Rightarrow> statedb \<Rightarrow> (string, statedb) outcome" where
  "commit_account addr s = (case sd_objects s addr of
     None \<Rightarrow> Ok s
   | Some obj \<Rightarrow>
       obind (encode_account (account_values (sd_ints s) (so_account obj))) (\<lambda>data.
         case trie_put (get_node (sd_store s)) (sd_trie s) addr (Some data) of
           None \<Rightarrow> Panic | Some t \<Rightarrow> Ok (s\<lparr>sd_trie := t\<rparr>)))"

fun commit_accounts :: "address list \<Rightarrow> statedb \<Rightarrow> (string, statedb) outcome" where
  "commit_accounts [] s = Ok s"
| "commit_accounts (a # order) s = obind (commit_account a s) (commit_accounts order)"

definition drop_empty_objects :: "bool \<Rightarrow> statedb \<Rightarrow> statedb" where
  "drop_empty_objects deleteEmptyObjects s = s\<lparr>sd_objects := (\<lambda>addr. case sd_objects s addr of
     None \<Rightarrow> None
   | Some obj \<Rightarrow> if addr \<in> sd_dirty s \<and> deleteEmptyObjects \<and> so_is_empty (sd_ints s) obj then None else Some obj)\<rparr>"

definition finalise :: "bool \<Rightarrow> address list \<Rightarrow> statedb \<Rightarrow> (string, statedb) outcome" where
  "finalise deleteEmptyObjects order s =
     (let s1 = (drop_empty_objects deleteEmptyObjects s)\<lparr>sd_dirty := {}\<rparr> in commit_accounts order s1)"

text \<open>The loop of \<open>Commit\<close>: the storage trie first, then the account.\<close>

definition commit_storage :: "(byte list \<Rightarrow> hash) \<Rightarrow> address \<Rightarrow> state_object \<Rightarrow> statedb \<Rightarrow> statedb" where
  "commit_storage sha addr obj s = (case so_storage obj of
     Some st \<Rightarrow> (if trie_dirty st
       then (let (h, st', store') = trie_commit sha (sd_store s) st
             in put_object addr (obj\<lparr>so_storage := Some st', so_account := (so_account obj)\<lparr>acc_storage := h\<rparr>\<rparr>)
                  (s\<lparr>sd_store := store'\<rparr>))
       else s)
   | None \<Rightarrow> s)"

definition commit_dirty :: "(byte list \<Rightarrow> hash) \<Rightarrow> address \<Rightarrow> statedb \<Rightarrow> (string, statedb) outcome" where
  "commit_dirty sha addr s = (case sd_objects s addr of
     None \<Rightarrow> Ok s
   | Some obj \<Rightarrow> if so_is_dirty obj then commit_account addr (commit_storage sha addr obj s) else Ok s)"

fun commit_loop :: "(byte list \<Rightarrow> hash) \<Rightarrow> address list \<Rightarrow> statedb \<Rightarrow> (string, statedb) outcome" where
  "commit_loop sha [] s = Ok s"
| "commit_loop sha (a # order) s = obind (commit_dirty sha a s) (commit_loop sha order)"

definition commit :: "(byte list \<Rightarrow> hash) \<Rightarrow> address list \<Rightarrow> statedb \<Rightarrow> hash sd_result" where
  "commit sha order s = obind (commit_loop sha order s) (\<lambda>s1.
     let (h, t, store') = trie_commit sha (sd_store s1) (sd_trie s1)
     in Ok (h, s1\<lparr>sd_trie := t, sd_store := store'\<rparr>))"

fun intermediate_loop :: "address list \<Rightarrow> statedb \<Rightarrow> (string, statedb) outcome" where
  "intermediate_loop [] s = Ok s"
| "intermediate_loop (a # order) s =
     obind (case sd_objects s a of None \<Rightarrow> Ok s
            | Some obj \<Rightarrow> if so_is_dirty obj then commit_account a s else Ok s) (intermediate_loop order)"

definition intermediate_root :: "address list \<Rightarrow> statedb \<Rightarrow> hash sd_result" where
  "intermediate_root order s = obind (intermediate_loop order s) (\<lambda>s1. Ok (root_hash (sd_trie s1), s1))"

end
