(* ===== verification/Float64.thy ===== *)
theory Float64
  imports Prelude
begin

text \<open>
  The part of Go's \<open>float64\<close> the program uses: multiplication, addition, subtraction and division
  rounded to nearest, ties to even, with 53 significant bits, and the conversions from and to
  \<open>uint64\<close>. \<open>F64 m k\<close> is the number \<open>m / 2 ^ k\<close>. The exponent is not bounded: infinities, NaN and
  subnormal numbers do not occur in the program's ranges and are not modelled. Constants are
  given by the fraction of the nearest \<open>float64\<close>.
\<close>

datatype f64 = F64 int nat

fun bit_len :: "nat \<Rightarrow> nat" where
  "bit_len n = (if n = 0 then 0 else Suc (bit_len (n div 2)))"

declare bit_len.simps [simp del]

text \<open>\<open>n\<close> rounded to a multiple of \<open>2 ^ s\<close>, ties to the even multiple; \<open>sticky\<close> says that the
  number is a little above \<open>n\<close>.\<close>

definition round_at :: "nat \<Rightarrow> bool \<Rightarrow> nat \<Rightarrow> nat" where
  "round_at s sticky n =
     (let q = n div 2 ^ s; r = n mod 2 ^ s; half = 2 ^ (s - 1)
      in (if s = 0 then n
          else if half < r \<or> r = half \<and> (sticky \<or> odd q) then (q + 1) * 2 ^ s else q * 2 ^ s))"

definition round53 :: "bool \<Rightarrow> nat \<Rightarrow> nat" where
  "round53 sticky n = round_at (bit_len n - 53) sticky n"

definition f64_round :: "bool \<Rightarrow> int \<Rightarrow> nat \<Rightarrow> f64" where
  "f64_round sticky m k = F64 (sgn m * int (round53 sticky (nat \<bar>m\<bar>))) k"

fun f64_mul :: "f64 \<Rightarrow> f64 \<Rightarrow> f64" where
  "f64_mul (F64 m k) (F64 n l) = f64_round False (m * n) (k + l)"

fun f64_add :: "f64 \<Rightarrow> f64 \<Rightarrow> f64" where
  "f64_add (F64 m k) (F64 n l) = f64_round False (m * 2 ^ l + n * 2 ^ k) (k + l)"

fun f64_neg :: "f64 \<Rightarrow> f64" where
  "f64_neg (F64 m k) = F64 (- m) k"

definition f64_sub :: "f64 \<Rightarrow> f64 \<Rightarrow> f64" where
  "f64_sub a b = f64_add a (f64_neg b)"

text \<open>A quotient with 64 more bits than the divisor, and the sticky bit of the remainder.\<close>

fun f64_div :: "f64 \<Rightarrow> f64 \<Rightarrow> f64" where
  "f64_div (F64 m k) (F64 n l) =
     (let a = nat \<bar>m\<bar> * 2 ^ l * 2 ^ (64 + bit_len (nat \<bar>n\<bar>)); b = nat \<bar>n\<bar>
      in f64_round (a mod b \<noteq> 0) (sgn m * sgn n * int (a div b)) (k + 64 + bit_len (nat \<bar>n\<bar>)))"

definition f64_of_u64 :: "u64 \<Rightarrow> f64" where
  "f64_of_u64 v = f64_round False (uint v) 0"

definition f64_of_int :: "int \<Rightarrow> f64" where
  "f64_of_int v = f64_round False v 0"

text \<open>Conversion to \<open>uint64\<close> truncates. Outside the range of \<open>uint64\<close> Go leaves the result to the
  implementation; the program stays inside.\<close>

fun f64_to_u64 :: "f64 \<Rightarrow> u64" where
  "f64_to_u64 (F64 m k) = word_of_int (sgn m * (\<bar>m\<bar> div 2 ^ k))"

fun f64_less :: "f64 \<Rightarrow> f64 \<Rightarrow> bool" where
  "f64_less (F64 m k) (F64 n l) = (m * 2 ^ l < n * 2 ^ k)"

section \<open>Evaluation and bounds\<close>

lemma bit_len_eval:
  "bit_len 0 = 0" "bit_len (Suc 0) = 1" "bit_len (numeral k) = Suc (bit_len (numeral k div 2))"
  by (simp_all add: bit_len.simps)

lemmas f64_eval = f64_round_def round53_def round_at_def f64_sub_def Let_def bit_len_eval

lemma bit_len_less: "n < 2 ^ bit_len n"
proof (induction n rule: bit_len.induct)
  case (1 n)
  show ?case
  proof (cases "n = 0")
    case False
    with 1 have "n div 2 < 2 ^ bit_len (n div 2)" by simp
    then have "n < 2 * 2 ^ bit_len (n div 2)" by simp
    with False show ?thesis by (simp add: bit_len.simps [of n])
  qed (simp add: bit_len.simps)
qed

lemma round_at_exact: "2 ^ s dvd n \<Longrightarrow> round_at s False n = n"
  by (auto simp: round_at_def Let_def)

lemma f64_fee_example:
  "f64_to_u64 (f64_mul (f64_sub (F64 1 0) (F64 3458764513820541 60)) (F64 1000000 0)) = 997000"
  by (simp add: f64_eval)

end
