(* ===== verification/Token.thy ===== *)
theory Token
  imports StateDB Float64
begin

text \<open>
  The token operations, \<^verbatim>\<open>src/pkg/token\<close>: mint, burn and transfer of APT (apt.go) and NPT (npt.go),
  gas and base fee (gas.go), burn shares (burn.go), block rewards (economics.go) and the
  constant-product pool (amm.go).

  An operation that returns an error keeps the state it has reached, so its result is
  \<open>Inl\<close> the error or \<open>Inr\<close> the value, with the state; \<open>Panic\<close> is a run-time panic. The reserves of
  a loaded pool are pointers, as in the code: both start as the pointer of \<open>ZeroAmount\<close>.
\<close>

type_synonym 'a call = "(string + 'a) sd_result"

definition call_bind :: "'a call \<Rightarrow> ('a \<Rightarrow> statedb \<Rightarrow> 'b call) \<Rightarrow> 'b call" where
  "call_bind r f = obind r (\<lambda>(x, s). case x of Inl e \<Rightarrow> Ok (Inl e, s) | Inr a \<Rightarrow> f a s)"

definition ok_call :: "unit sd_result \<Rightarrow> unit call" where
  "ok_call r = obind r (\<lambda>(_, s). Ok (Inr (), s))"

definition err_zero_amount :: string where "err_zero_amount = ''zero amount''"
definition err_insufficient_apt :: string where "err_insufficient_apt = ''insufficient APT balance''"
definition err_insufficient_npt :: string where "err_insufficient_npt = ''insufficient NPT balance''"

section \<open>APT\<close>

definition mint_apt :: "address \<Rightarrow> token_amount \<Rightarrow> statedb \<Rightarrow> unit call" where
  "mint_apt to amount s =
     (if amount_is_zero amount then Ok (Inl err_zero_amount, s) else ok_call (add_balance_apt to amount s))"

definition burn_apt :: "address \<Rightarrow> token_amount \<Rightarrow> statedb \<Rightarrow> unit call" where
  "burn_apt from amount s =
     (if amount_is_zero amount then Ok (Inl err_zero_amount, s)
      else obind (get_balance_apt from s) (\<lambda>(current, s1).
           obind (amount_cmp (ptr_value (sd_ints s1) current) amount) (\<lambda>c.
             if c < 0 then Ok (Inl err_insufficient_apt, s1)
             else ok_call (sub_balance_apt from amount s1))))"

definition transfer_apt :: "address \<Rightarrow> address \<Rightarrow> token_amount \<Rightarrow> statedb \<Rightarrow> unit call" where
  "transfer_apt from to amount s =
     (if amount_is_zero amount then Ok (Inl err_zero_amount, s)
      else if from = to then Ok (Inr (), s)
      else obind (get_balance_apt from s) (\<lambda>(current, s1).
           obind (amount_cmp (ptr_value (sd_ints s1) current) amount) (\<lambda>c.
             if c < 0 then Ok (Inl err_insufficient_apt, s1)
             else obind (sub_balance_apt from amount s1) (\<lambda>(_, s2).
                  ok_call (add_balance_apt to amount s2)))))"

section \<open>NPT\<close>

definition mint_npt :: "address \<Rightarrow> token_amount \<Rightarrow> statedb \<Rightarrow> unit call" where
  "mint_npt to amount s =
     (if amount_is_zero amount then Ok (Inl err_zero_amount, s) else ok_call (add_balance_npt to amount s))"

definition burn_npt :: "address \<Rightarrow> token_amount \<Rightarrow> statedb \<Rightarrow> unit call" where
  "burn_npt from amount s =
     (if amount_is_zero amount then Ok (Inl err_zero_amount, s)
      else obind (get_balance_npt from s) (\<lambda>(current, s1).
           obind (amount_cmp (ptr_value (sd_ints s1) current) amount) (\<lambda>c.
             if c < 0 then Ok (Inl err_insufficient_npt, s1)
             else ok_call (sub_balance_npt from amount s1))))"

definition transfer_npt :: "address \<Rightarrow> address \<Rightarrow> token_amount \<Rightarrow> statedb \<Rightarrow> unit call" where
  "transfer_npt from to amount s =
     (if amount_is_zero amount then Ok (Inl err_zero_amount, s)
      else if from = to then Ok (Inr (), s)
      else obind (get_balance_npt from s) (\<lambda>(current, s1).
           obind (amount_cmp (ptr_value (sd_ints s1) current) amount) (\<lambda>c.
             if c < 0 then Ok (Inl err_insufficient_npt, s1)
             else obind (sub_balance_npt from amount s1) (\<lambda>(_, s2).
                  ok_call (add_balance_npt to amount s2)))))"

section \<open>Gas\<close>

record gas_config =
  max_change_rate :: u64
  target_gas :: u64
  gas_limit :: u64
  base_fee_initial :: u64

definition default_gas_config :: gas_config where
  "default_gas_config = \<lparr>max_change_rate = 125, target_gas = 15000000, gas_limit = 30000000,
     base_fee_initial = 1000000000\<rparr>"

fun data_gas :: "byte list \<Rightarrow> u64 \<Rightarrow> u64" where
  "data_gas [] gas = gas"
| "data_gas (b # bs) gas = data_gas bs (if b = 0 then gas + 4 else gas + 16)"

definition intrinsic_gas :: "transaction \<Rightarrow> u64" where
  "intrinsic_gas tx =
     (let gas = data_gas (tx_data tx) 21000
      in if tx_type tx = tx_swap then gas + 5000
         else if tx_type tx = tx_create_task then gas + 50000
         else if tx_type tx = tx_submit_result then gas + 20000
         else if tx_type tx = tx_stake then gas + 10000
         else gas)"

definition calc_base_fee :: "token_amount \<Rightarrow> u64 \<Rightarrow> u64 \<Rightarrow> u64 \<Rightarrow> (string, token_amount) outcome" where
  "calc_base_fee parentBaseFee gasUsed targetGas maxChangeRate =
     (if gasUsed = targetGas then amount_clone parentBaseFee
      else let delta = (if gasUsed > targetGas then gasUsed - targetGas else targetGas)
       in obind (to_big_int parentBaseFee) (\<lambda>parentFee.
         if targetGas = 0 then Panic
         else let change = euclid_div (euclid_div (uint delta * uint maxChangeRate * parentFee) (uint targetGas)) 1000
           in if gasUsed > targetGas then Ok (Some (parentFee + change))
              else if parentFee \<le> change then Ok (Some 1) else Ok (Some (parentFee - change))))"

definition effective_gas_tip :: "token_amount \<Rightarrow> token_amount \<Rightarrow> (string, token_amount) outcome" where
  "effective_gas_tip gasPrice baseFee = obind (amount_cmp gasPrice baseFee) (\<lambda>c.
     if c \<le> 0 then Ok (Some 0) else amount_sub gasPrice baseFee)"

section \<open>Burn shares\<close>

record burn_config =
  base_burn_rate :: f64
  task_burn_rate :: f64
  time_decay_rate :: f64
  time_decay_interval :: u64

definition default_burn_config :: burn_config where
  "default_burn_config = \<lparr>base_burn_rate = F64 5404319552844595 54, task_burn_rate = F64 3602879701896397 54,
     time_decay_rate = F64 7378697629483821 66, time_decay_interval = 100\<rparr>"

definition burn_share :: "int \<Rightarrow> f64 \<Rightarrow> int" where
  "burn_share fee rate = fee * uint (f64_to_u64 (f64_mul rate (F64 1000000000 0))) div 1000000000"

definition execute_base_burn :: "u64 \<Rightarrow> token_amount \<Rightarrow> burn_config \<Rightarrow> (string, token_amount) outcome" where
  "execute_base_burn gasUsed baseFee config = obind (to_big_int baseFee) (\<lambda>bf.
     Ok (Some (burn_share (uint gasUsed * bf) (base_burn_rate config))))"

definition execute_task_burn :: "address \<Rightarrow> token_amount \<Rightarrow> burn_config \<Rightarrow> statedb \<Rightarrow> unit call" where
  "execute_task_burn payer fee config s =
     (case fee of None \<Rightarrow> Ok (Inr (), s)
      | Some f \<Rightarrow> if f = 0 then Ok (Inr (), s)
          else let burn = burn_share f (task_burn_rate config)
            in if burn = 0 then Ok (Inr (), s) else burn_apt payer (Some burn) s)"

section \<open>Economic parameters\<close>

record economic_params =
  apt_initial_supply :: token_amount
  apt_max_supply :: token_amount
  npt_initial_supply :: token_amount
  npt_max_supply :: token_amount
  block_reward_apt :: token_amount
  block_reward_npt :: token_amount
  burn_params :: burn_config
  gas_params :: gas_config
  amm_fee_rate :: f64

definition default_amm_fee_rate :: f64 where
  "default_amm_fee_rate = F64 3458764513820541 60"

definition default_mainnet_params :: economic_params where
  "default_mainnet_params = \<lparr>
     apt_initial_supply = Some (100000000 * apt_precision), apt_max_supply = Some (1000000000 * apt_precision),
     npt_initial_supply = Some (100000000 * apt_precision), npt_max_supply = Some (1000000000 * apt_precision),
     block_reward_apt = Some (1 * apt_precision), block_reward_npt = Some (1 * apt_precision),
     burn_params = default_burn_config, gas_params = default_gas_config, amm_fee_rate = default_amm_fee_rate\<rparr>"

definition default_testnet_params :: economic_params where
  "default_testnet_params = \<lparr>
     apt_initial_supply = Some (1000000 * apt_precision), apt_max_supply = Some (100000000 * apt_precision),
     npt_initial_supply = Some (1000000 * apt_precision), npt_max_supply = Some (100000000 * apt_precision),
     block_reward_apt = Some (10 * apt_precision), block_reward_npt = Some (10 * apt_precision),
     burn_params = default_burn_config, gas_params = default_gas_config, amm_fee_rate = default_amm_fee_rate\<rparr>"

fun halve_rewards :: "nat \<Rightarrow> token_amount \<times> token_amount \<Rightarrow> (string, token_amount \<times> token_amount) outcome" where
  "halve_rewards 0 r = Ok r"
| "halve_rewards (Suc n) (a, b) = obind (amount_div a 2) (\<lambda>a'. obind (amount_div b 2) (\<lambda>b'.
     halve_rewards n (a', b')))"

definition calculate_block_reward :: "economic_params \<Rightarrow> u64 \<Rightarrow> (string, token_amount \<times> token_amount) outcome" where
  "calculate_block_reward params height =
     (let halvings = height div 8400000
      in obind (amount_clone (block_reward_apt params)) (\<lambda>a.
         obind (amount_clone (block_reward_npt params)) (\<lambda>b.
           halve_rewards (min (unat halvings) 10) (a, b))))"

section \<open>The pool\<close>

record amm_pool =
  reserve_apt :: ptr
  reserve_npt :: ptr

definition ascii :: "string \<Rightarrow> byte list" where
  "ascii str = map (\<lambda>c. word_of_nat (of_char c)) str"

definition amm_pool_key :: "(byte list \<Rightarrow> hash) \<Rightarrow> string \<Rightarrow> hash" where
  "amm_pool_key sha key = copy_left 32 (sha (ascii ''amm_pool_'' @ ascii key))"

definition load_reserve :: "gobytes \<Rightarrow> int list \<Rightarrow> ptr \<times> int list" where
  "load_reserve b h = (case b of None \<Rightarrow> (zero_ptr, h) | Some bs \<Rightarrow> alloc h (big_set_bytes bs))"

definition load_pool :: "(byte list \<Rightarrow> hash) \<Rightarrow> statedb \<Rightarrow> amm_pool sd_result" where
  "load_pool sha s = obind (get_or_new_state_object amm_pool_address s) (\<lambda>(obj, s1).
     obind (so_get_storage (get_node (sd_store s1)) (amm_pool_key sha ''apt'') obj) (\<lambda>(aptBytes, obj1).
     obind (so_get_storage (get_node (sd_store s1)) (amm_pool_key sha ''npt'') obj1) (\<lambda>(nptBytes, obj2).
       let (p, h1) = load_reserve aptBytes (sd_ints s1); (q, h2) = load_reserve nptBytes h1
       in Ok (\<lparr>reserve_apt = p, reserve_npt = q\<rparr>, (put_object amm_pool_address obj2 s1)\<lparr>sd_ints := h2\<rparr>))))"

definition save_pool :: "(byte list \<Rightarrow> hash) \<Rightarrow> amm_pool \<Rightarrow> statedb \<Rightarrow> unit sd_result" where
  "save_pool sha pool s = obind (get_or_new_state_object amm_pool_address s) (\<lambda>(obj, s1).
     obind (deref (sd_ints s1) (reserve_apt pool)) (\<lambda>x.
     obind (so_set_storage (get_node (sd_store s1)) (amm_pool_key sha ''apt'') (Some (big_bytes x)) obj) (\<lambda>obj1.
     obind (deref (sd_ints s1) (reserve_npt pool)) (\<lambda>y.
     obind (so_set_storage (get_node (sd_store s1)) (amm_pool_key sha ''npt'') (Some (big_bytes y)) obj1) (\<lambda>obj2.
       Ok ((), put_object amm_pool_address obj2 s1))))))"

definition amm_fee_mult :: "f64 \<Rightarrow> int" where
  "amm_fee_mult feeRate = uint (f64_to_u64 (f64_mul (f64_sub (F64 1 0) feeRate) (F64 1000000 0)))"

text \<open>The output of a swap; \<open>None\<close> when the denominator is zero.\<close>

definition swap_quote :: "int \<Rightarrow> int \<Rightarrow> int \<Rightarrow> f64 \<Rightarrow> int option" where
  "swap_quote reserveIn reserveOut input feeRate =
     (let inputAfterFee = euclid_div (input * amm_fee_mult feeRate) 1000000;
          numerator = reserveOut * inputAfterFee; denominator = reserveIn + inputAfterFee
      in if denominator = 0 then None else Some (euclid_div numerator denominator))"

definition swap_apt_for_npt ::
  "(byte list \<Rightarrow> hash) \<Rightarrow> address \<Rightarrow> token_amount \<Rightarrow> f64 \<Rightarrow> statedb \<Rightarrow> token_amount call" where
  "swap_apt_for_npt sha from inputAPT feeRate s = obind (load_pool sha s) (\<lambda>(pool, s1).
     case inputAPT of None \<Rightarrow> Ok (Inl err_zero_amount, s1)
     | Some v \<Rightarrow> if v = 0 then Ok (Inl err_zero_amount, s1)
       else obind (deref (sd_ints s1) (reserve_npt pool)) (\<lambda>rn.
            obind (deref (sd_ints s1) (reserve_apt pool)) (\<lambda>ra.
            case swap_quote ra rn v feeRate of
              None \<Rightarrow> Ok (Inl err_zero_amount, s1)
            | Some out \<Rightarrow> if out \<le> 0 then Ok (Inl err_zero_amount, s1)
              else call_bind (burn_apt from (Some v) s1) (\<lambda>_ s2.
                   obind (add_balance_npt from (Some out) s2) (\<lambda>(_, s3).
                   obind (add_to (sd_ints s3) (reserve_apt pool) (Some v)) (\<lambda>h1.
                   obind (sub_to h1 (reserve_npt pool) (Some out)) (\<lambda>h2.
                   obind (save_pool sha pool (s3\<lparr>sd_ints := h2\<rparr>)) (\<lambda>(_, s4).
                     Ok (Inr (Some out), s4)))))))))"

definition swap_npt_for_apt ::
  "(byte list \<Rightarrow> hash) \<Rightarrow> address \<Rightarrow> token_amount \<Rightarrow> f64 \<Rightarrow> statedb \<Rightarrow> token_amount call" where
  "swap_npt_for_apt sha from inputNPT feeRate s = obind (load_pool sha s) (\<lambda>(pool, s1).
     case inputNPT of None \<Rightarrow> Ok (Inl err_zero_amount, s1)
     | Some v \<Rightarrow> if v = 0 then Ok (Inl err_zero_amount, s1)
       else obind (deref (sd_ints s1) (reserve_apt pool)) (\<lambda>ra.
            obind (deref (sd_ints s1) (reserve_npt pool)) (\<lambda>rn.
            case swap_quote rn ra v feeRate of
              None \<Rightarrow> Ok (Inl err_zero_amount, s1)
            | Some out \<Rightarrow> if out \<le> 0 then Ok (Inl err_zero_amount, s1)
              else call_bind (burn_npt from (Some v) s1) (\<lambda>_ s2.
                   obind (add_balance_apt from (Some out) s2) (\<lambda>(_, s3).
                   obind (add_to (sd_ints s3) (reserve_npt pool) (Some v)) (\<lambda>h1.
                   obind (sub_to h1 (reserve_apt pool) (Some out)) (\<lambda>h2.
                   obind (save_pool sha pool (s3\<lparr>sd_ints := h2\<rparr>)) (\<lambda>(_, s4).
                     Ok (Inr (Some out), s4)))))))))"

definition add_liquidity ::
  "(byte list \<Rightarrow> hash) \<Rightarrow> address \<Rightarrow> token_amount \<Rightarrow> token_amount \<Rightarrow> statedb \<Rightarrow> unit call" where
  "add_liquidity sha provider aptAmount nptAmount s = obind (load_pool sha s) (\<lambda>(pool, s1).
     call_bind (burn_apt provider aptAmount s1) (\<lambda>_ s2.
     call_bind (burn_npt provider nptAmount s2) (\<lambda>_ s3.
       obind (add_to (sd_ints s3) (reserve_apt pool) aptAmount) (\<lambda>h1.
       obind (add_to h1 (reserve_npt pool) nptAmount) (\<lambda>h2.
         ok_call (save_pool sha pool (s3\<lparr>sd_ints := h2\<rparr>)))))))"

definition get_swap_output ::
  "(byte list \<Rightarrow> hash) \<Rightarrow> token_amount \<Rightarrow> bool \<Rightarrow> f64 \<Rightarrow> statedb \<Rightarrow> token_amount call" where
  "get_swap_output sha input inputIsAPT feeRate s = obind (load_pool sha s) (\<lambda>(pool, s1).
     case input of None \<Rightarrow> Ok (Inl err_zero_amount, s1)
     | Some v \<Rightarrow> if v = 0 then Ok (Inl err_zero_amount, s1)
       else obind (deref (sd_ints s1) (if inputIsAPT then reserve_apt pool else reserve_npt pool)) (\<lambda>rin.
            obind (deref (sd_ints s1) (if inputIsAPT then reserve_npt pool else reserve_apt pool)) (\<lambda>rout.
            case swap_quote rin rout v feeRate of
              None \<Rightarrow> Ok (Inl err_zero_amount, s1)
            | Some out \<Rightarrow> Ok (Inr (Some out), s1))))"

end
