(* ===== verification/Executor.thy ===== *)
theory Executor
  imports Token
begin

text \<open>
  Transaction execution, \<^verbatim>\<open>src/internal/state/executor\<close>: the gas pool (gas.go) and the state
  processor (state_processor.go) with its validation, the handlers per transaction type,
  \<open>ApplyTransaction\<close> and \<open>Process\<close>.

  \<open>ord\<close> is the order in which \<open>IntermediateRoot\<close> meets the accounts in a given state. The cached
  hash a transaction keeps is not carried from call to call.
\<close>

section \<open>The gas pool\<close>

definition err_block_gas_limit :: string where "err_block_gas_limit = ''block gas limit exceeded''"

type_synonym gas_pool = u64

definition new_gas_pool :: "u64 \<Rightarrow> gas_pool" where
  "new_gas_pool limit = limit"

definition sub_gas :: "u64 \<Rightarrow> gas_pool \<Rightarrow> (string, gas_pool) outcome" where
  "sub_gas amount gp = (if gp < amount then Err err_block_gas_limit else Ok (gp - amount))"

definition add_gas :: "u64 \<Rightarrow> gas_pool \<Rightarrow> gas_pool" where
  "add_gas amount gp = gp + amount"

definition used_gas :: "u64 \<Rightarrow> gas_pool \<Rightarrow> u64" where
  "used_gas limit gp = limit - gp"

section \<open>Receipts\<close>

record receipt =
  rc_post_state :: hash
  rc_status :: u64
  rc_cumulative_gas :: u64
  rc_tx_hash :: hash
  rc_gas_used :: u64

definition receipt_failed :: u64 where "receipt_failed = 0"
definition receipt_success :: u64 where "receipt_success = 1"

definition new_receipt :: "u64 \<Rightarrow> u64 \<Rightarrow> u64 \<Rightarrow> hash \<Rightarrow> hash \<Rightarrow> receipt" where
  "new_receipt status cumGas gasUsed txHash postState = \<lparr>rc_post_state = postState, rc_status = status,
     rc_cumulative_gas = cumGas, rc_tx_hash = txHash, rc_gas_used = gasUsed\<rparr>"

section \<open>Validation\<close>

definition err_invalid_chain :: string where "err_invalid_chain = ''invalid chain ID''"
definition err_nonce_low :: string where "err_nonce_low = ''nonce too low''"
definition err_nonce_high :: string where "err_nonce_high = ''nonce too high''"
definition err_balance :: string where "err_balance = ''insufficient balance for gas * price + value''"
definition err_intrinsic_gas :: string where "err_intrinsic_gas = ''intrinsic gas too low''"
definition err_recipient :: string where "err_recipient = ''invalid transaction recipient''"
definition err_tx_type :: string where "err_tx_type = ''invalid transaction type''"

record state_processor =
  sp_params :: economic_params
  sp_chain_id :: u64

definition balance_below :: "ptr sd_result \<Rightarrow> token_amount \<Rightarrow> bool sd_result" where
  "balance_below r needed = obind r (\<lambda>(p, s). obind (amount_cmp (ptr_value (sd_ints s) p) needed) (\<lambda>c. Ok (c < 0, s)))"

definition check_transfer_balance :: "transaction \<Rightarrow> address \<Rightarrow> statedb \<Rightarrow> unit call" where
  "check_transfer_balance tx sender s =
     (if \<not> is_token_transfer tx then Ok (Inr (), s)
      else obind (amount_clone (tx_amount tx)) (\<lambda>amt. obind (tx_cost tx) (\<lambda>cost.
           obind (amount_add_to amt cost) (\<lambda>totalNeeded.
           obind (if tx_token_kind tx = token_apt then balance_below (get_balance_apt sender s) totalNeeded
                  else if tx_token_kind tx = token_npt then balance_below (get_balance_npt sender s) totalNeeded
                  else Ok (False, s)) (\<lambda>(below, s1).
             if below then Ok (Inl err_balance, s1) else Ok (Inr (), s1))))))"

definition validate_tx :: "state_processor \<Rightarrow> transaction \<Rightarrow> address \<Rightarrow> statedb \<Rightarrow> unit call" where
  "validate_tx sp tx sender s =
     (if tx_chain_id tx \<noteq> sp_chain_id sp then Ok (Inl err_invalid_chain, s)
      else obind (get_nonce sender s) (\<lambda>(currentNonce, s1).
        if tx_nonce tx < currentNonce then Ok (Inl err_nonce_low, s1)
        else if tx_nonce tx > currentNonce + 16 then Ok (Inl err_nonce_high, s1)
        else call_bind (check_transfer_balance tx sender s1) (\<lambda>_ s2.
             obind (tx_cost tx) (\<lambda>cost.
             obind (balance_below (get_balance_apt sender s2) cost) (\<lambda>(below, s3).
               if below then Ok (Inl err_balance, s3) else Ok (Inr (), s3))))))"

section \<open>Handlers\<close>

definition with_intrinsic :: "transaction \<Rightarrow> 'a call \<Rightarrow> u64 call" where
  "with_intrinsic tx r = call_bind r (\<lambda>_ s. Ok (Inr (intrinsic_gas tx), s))"

definition execute_transfer_apt :: "address \<Rightarrow> transaction \<Rightarrow> statedb \<Rightarrow> u64 call" where
  "execute_transfer_apt sender tx s =
     (if address_is_zero (tx_to tx) then Ok (Inl err_recipient, s)
      else with_intrinsic tx (transfer_apt sender (tx_to tx) (tx_amount tx) s))"

definition execute_transfer_npt :: "address \<Rightarrow> transaction \<Rightarrow> statedb \<Rightarrow> u64 call" where
  "execute_transfer_npt sender tx s =
     (if address_is_zero (tx_to tx) then Ok (Inl err_recipient, s)
      else with_intrinsic tx (transfer_npt sender (tx_to tx) (tx_amount tx) s))"

definition execute_swap ::
  "(byte list \<Rightarrow> hash) \<Rightarrow> state_processor \<Rightarrow> address \<Rightarrow> transaction \<Rightarrow> statedb \<Rightarrow> u64 call" where
  "execute_swap sha sp sender tx s =
     (let rate = amm_fee_rate (sp_params sp) in
      case tx_data tx of
        [] \<Rightarrow> Ok (Inl ''swap requires direction (0x01 or 0x02) in data'', s)
      | d # _ \<Rightarrow>
          if d = 0x01 then with_intrinsic tx (swap_apt_for_npt sha sender (tx_amount tx) rate s)
          else if d = 0x02 then with_intrinsic tx (swap_npt_for_apt sha sender (tx_amount tx) rate s)
          else Ok (Inl ''invalid swap direction'', s))"

definition execute_burn :: "address \<Rightarrow> transaction \<Rightarrow> statedb \<Rightarrow> u64 call" where
  "execute_burn sender tx s =
     (if tx_token_kind tx = token_apt then with_intrinsic tx (burn_apt sender (tx_amount tx) s)
      else with_intrinsic tx (burn_npt sender (tx_amount tx) s))"

definition execute_stake :: "address \<Rightarrow> transaction \<Rightarrow> statedb \<Rightarrow> u64 call" where
  "execute_stake sender tx s = with_intrinsic tx (burn_npt sender (tx_amount tx) s)"

definition execute_tx ::
  "(byte list \<Rightarrow> hash) \<Rightarrow> state_processor \<Rightarrow> address \<Rightarrow> transaction \<Rightarrow> statedb \<Rightarrow> u64 call" where
  "execute_tx sha sp sender tx s =
     (if tx_type tx = tx_transfer_apt then execute_transfer_apt sender tx s
      else if tx_type tx = tx_transfer_npt then execute_transfer_npt sender tx s
      else if tx_type tx = tx_swap then execute_swap sha sp sender tx s
      else if tx_type tx = tx_burn then execute_burn sender tx s
      else if tx_type tx = tx_stake then execute_stake sender tx s
      else Ok (Inl err_tx_type, s))"

section \<open>Applying a transaction\<close>

definition refund_gas :: "address \<Rightarrow> int \<Rightarrow> u64 \<Rightarrow> int \<Rightarrow> statedb \<Rightarrow> unit sd_result" where
  "refund_gas sender maxCost gasUsed price s =
     (let refund = maxCost - uint gasUsed * price
      in if refund > 0 then add_balance_apt sender (Some refund) s else Ok ((), s))"

definition apply_transaction ::
  "(byte list \<Rightarrow> hash) \<Rightarrow> (statedb \<Rightarrow> address list) \<Rightarrow> state_processor \<Rightarrow> transaction \<Rightarrow> block_header \<Rightarrow>
    gas_pool \<Rightarrow> statedb \<Rightarrow> (string, (string + receipt) \<times> gas_pool \<times> statedb) outcome" where
  "apply_transaction sha ord sp tx header gp s =
     (let sender = tx_from tx in
      obind (validate_tx sp tx sender s) (\<lambda>(v, s1). case v of
        Inl e \<Rightarrow> Ok (Inl e, gp, s1)
      | Inr _ \<Rightarrow>
         (if tx_gas_limit tx < intrinsic_gas tx then Ok (Inl err_intrinsic_gas, gp, s1)
          else case sub_gas (tx_gas_limit tx) gp of
            Panic \<Rightarrow> Panic
          | Err e \<Rightarrow> Ok (Inl e, gp, s1)
          | Ok gp1 \<Rightarrow>
              obind (tx_cost tx) (\<lambda>maxCost.
              obind (sub_balance_apt sender maxCost s1) (\<lambda>(_, s2).
              obind (set_nonce sender (tx_nonce tx + 1) s2) (\<lambda>(_, s3).
              obind (execute_tx sha sp sender tx s3) (\<lambda>(r, s4).
                let gasUsed = (case r of Inl _ \<Rightarrow> tx_gas_limit tx | Inr g \<Rightarrow> g);
                    status = (case r of Inl _ \<Rightarrow> receipt_failed | Inr _ \<Rightarrow> receipt_success)
                in obind (to_big_int (tx_gas_price tx)) (\<lambda>price.
                   obind (to_big_int maxCost) (\<lambda>mc.
                   obind (refund_gas sender mc gasUsed price s4) (\<lambda>(_, s5).
                   obind (execute_base_burn gasUsed (Some 1) (burn_params (sp_params sp))) (\<lambda>_.
                     let gp2 = add_gas (tx_gas_limit tx - gasUsed) gp1
                     in obind (intermediate_root (ord s5) s5) (\<lambda>(postState, s6).
                        obind (tx_hash sha tx) (\<lambda>(h, _).
                          Ok (Inr (new_receipt status (used_gas (bh_gas_limit header) gp2) gasUsed h postState), gp2, s6))))))))))))))"

section \<open>Processing a block\<close>

fun process_txs ::
  "(byte list \<Rightarrow> hash) \<Rightarrow> (statedb \<Rightarrow> address list) \<Rightarrow> state_processor \<Rightarrow> block_header \<Rightarrow> transaction list \<Rightarrow>
    gas_pool \<Rightarrow> u64 \<Rightarrow> receipt list \<Rightarrow> statedb \<Rightarrow> (string, (string + u64 \<times> receipt list) \<times> statedb) outcome" where
  "process_txs sha ord sp header [] gp totalGas receipts s = Ok (Inr (totalGas, receipts), s)"
| "process_txs sha ord sp header (tx # txs) gp totalGas receipts s =
     (let (snap, s0) = snapshot s in
      obind (apply_transaction sha ord sp tx header gp s0) (\<lambda>(r, gp1, s1). case r of
        Inl e \<Rightarrow> obind (revert_to_snapshot (int snap) s1) (\<lambda>s2.
                 obind (tx_hash sha tx) (\<lambda>_. Ok (Inl e, s2)))
      | Inr receipt \<Rightarrow> process_txs sha ord sp header txs gp1 (totalGas + rc_gas_used receipt) (receipts @ [receipt]) s1))"

definition process ::
  "(byte list \<Rightarrow> hash) \<Rightarrow> (statedb \<Rightarrow> address list) \<Rightarrow> state_processor \<Rightarrow> block \<Rightarrow> statedb \<Rightarrow>
    (string, (string + u64 \<times> receipt list) \<times> statedb) outcome" where
  "process sha ord sp b s =
     (let header = blk_header b in
      call_bind (process_txs sha ord sp header (blk_txs b) (new_gas_pool (bh_gas_limit header)) 0 [] s) (\<lambda>res s1.
        obind (calculate_block_reward (sp_params sp) (bh_height header)) (\<lambda>(aptReward, nptReward).
          call_bind (mint_apt (bh_proposer header) aptReward s1) (\<lambda>_ s2.
          call_bind (mint_npt (bh_proposer header) nptReward s2) (\<lambda>_ s3. Ok (Inr res, s3))))))"

end
