(* ===== verification/StateDBCorrect.thy ===== *)
theory StateDBCorrect
  imports StateDB
begin

text \<open>
  What the state database does to balances and nonces. \<open>view_bal\<close> and \<open>view_nonce\<close> are the values
  a client sees: those of the loaded object, or else those the account trie holds. \<open>sdb_ok\<close> is the
  invariant of the operations: no two balances share an integer and none is the shared zero;
  reading the trie changes nothing; and no stored account lost a balance to the encoding of zero.
\<close>

section \<open>Views and the invariant\<close>

definition bal_ptr :: "bool \<Rightarrow> state_object \<Rightarrow> ptr" where
  "bal_ptr apt obj = (if apt then acc_apt (so_account obj) else acc_npt (so_account obj))"

definition stored_account :: "statedb \<Rightarrow> address \<Rightarrow> token_amount account option" where
  "stored_account s a = (case trie_value (get_node (sd_store s), sd_trie s) a of
     None \<Rightarrow> None | Some d \<Rightarrow> (case decode_account d of Ok acct \<Rightarrow> Some acct | _ \<Rightarrow> None))"

definition known :: "statedb \<Rightarrow> address \<Rightarrow> bool" where
  "known s a = (sd_objects s a \<noteq> None \<or> stored_account s a \<noteq> None)"

definition view_bal :: "statedb \<Rightarrow> bool \<Rightarrow> address \<Rightarrow> int" where
  "view_bal s k a = (case sd_objects s a of
     Some obj \<Rightarrow> sd_ints s ! the (bal_ptr k obj)
   | None \<Rightarrow> (case stored_account s a of None \<Rightarrow> 0
       | Some acct \<Rightarrow> the (if k then acc_apt acct else acc_npt acct)))"

definition view_nonce :: "statedb \<Rightarrow> address \<Rightarrow> u64" where
  "view_nonce s a = (case sd_objects s a of
     Some obj \<Rightarrow> acc_nonce (so_account obj)
   | None \<Rightarrow> (case stored_account s a of None \<Rightarrow> 0 | Some acct \<Rightarrow> acc_nonce acct))"

definition settled :: "statedb \<Rightarrow> bool" where
  "settled s \<longleftrightarrow>
     (\<forall>k. trie_read (get_node (sd_store s)) (sd_trie s) k =
        Some (sd_trie s, trie_value (get_node (sd_store s), sd_trie s) k)) \<and>
     (\<forall>a acct. stored_account s a = Some acct \<longrightarrow> acc_apt acct \<noteq> None \<and> acc_npt acct \<noteq> None)"

definition objects_ok :: "statedb \<Rightarrow> bool" where
  "objects_ok s \<longleftrightarrow>
     (\<forall>a obj k. sd_objects s a = Some obj \<longrightarrow> (\<exists>i. bal_ptr k obj = Some i \<and> 0 < i \<and> i < length (sd_ints s))) \<and>
     (\<forall>a b obj obj' k k'. sd_objects s a = Some obj \<longrightarrow> sd_objects s b = Some obj' \<longrightarrow>
        bal_ptr k obj = bal_ptr k' obj' \<longrightarrow> a = b \<and> k = k')"

definition sdb_ok :: "statedb \<Rightarrow> bool" where
  "sdb_ok s \<longleftrightarrow> settled s \<and> objects_ok s \<and> sd_ints s \<noteq> [] \<and> sd_ints s ! 0 = 0"

lemma bal_ptr_valid:
  assumes "sdb_ok s" "sd_objects s a = Some obj"
  obtains i where "bal_ptr k obj = Some i" "0 < i" "i < length (sd_ints s)"
  using assms unfolding sdb_ok_def objects_ok_def by blast

lemma bal_ptr_inj:
  "sdb_ok s \<Longrightarrow> sd_objects s a = Some obj \<Longrightarrow> sd_objects s b = Some obj' \<Longrightarrow>
    bal_ptr k obj = bal_ptr k' obj' \<Longrightarrow> a = b \<and> k = k'"
  unfolding sdb_ok_def objects_ok_def by blast

lemma decode_account_no_panic: "decode_account d \<noteq> Panic"
  by (simp add: decode_account_def Let_def)

text \<open>Two states with the same tries see the same stored accounts.\<close>

definition same_trie :: "statedb \<Rightarrow> statedb \<Rightarrow> bool" where
  "same_trie s s1 \<longleftrightarrow> sd_trie s1 = sd_trie s \<and> sd_store s1 = sd_store s"

lemma same_trieD:
  assumes "same_trie s s1"
  shows "stored_account s1 = stored_account s" and "settled s1 = settled s"
proof -
  show "stored_account s1 = stored_account s"
    using assms by (intro ext) (simp add: same_trie_def stored_account_def)
  then show "settled s1 = settled s"
    using assms by (simp add: same_trie_def settled_def)
qed

section \<open>Reaching an object\<close>

lemma install_ok:
  assumes ok: "sdb_ok s" and a: "sd_objects s a = None"
    and o1: "sd_objects s1 = (sd_objects s)(a := Some obj)" and same: "same_trie s s1"
    and i1: "sd_ints s1 = sd_ints s @ x # y # zs"
    and p: "bal_ptr True obj = Some (length (sd_ints s))" "bal_ptr False obj = Some (Suc (length (sd_ints s)))"
  shows "sdb_ok s1 \<and> view_bal s1 True a = x \<and> view_bal s1 False a = y \<and>
    (\<forall>k b. b \<noteq> a \<longrightarrow> view_bal s1 k b = view_bal s k b) \<and> (\<forall>b. b \<noteq> a \<longrightarrow> view_nonce s1 b = view_nonce s b)"
proof -
  have new: "bal_ptr k obj = Some (length (sd_ints s) + (if k then 0 else 1))" for k
    using p by (cases k) simp_all
  have old: "\<exists>i. bal_ptr k o' = Some i \<and> 0 < i \<and> i < length (sd_ints s)" if "sd_objects s b = Some o'" for b k o'
    using bal_ptr_valid [OF ok that] by metis
  have "objects_ok s1"
    unfolding objects_ok_def
  proof (intro conjI allI impI)
    fix b o' k
    assume "sd_objects s1 b = Some o'"
    with old [of b o' k] new [of k] ok show "\<exists>i. bal_ptr k o' = Some i \<and> 0 < i \<and> i < length (sd_ints s1)"
      by (force simp: o1 i1 sdb_ok_def split: if_splits)
  next
    fix b c o1' o2' k k'
    assume *: "sd_objects s1 b = Some o1'" "sd_objects s1 c = Some o2'" "bal_ptr k o1' = bal_ptr k' o2'"
    then show "b = c" and "k = k'"
      using new [of k] new [of k'] old [of b o1' k] old [of c o2' k'] bal_ptr_inj [OF ok, of b o1' c o2' k k']
      by (auto simp: o1 split: if_splits)
  qed
  moreover have "settled s1" using ok same_trieD(2) [OF same] by (simp add: sdb_ok_def)
  moreover have "view_bal s1 k b = view_bal s k b" if "b \<noteq> a" for k b
    using that old [of b _ k] by (force simp: view_bal_def o1 i1 nth_append same_trieD [OF same] split: option.splits)
  ultimately show ?thesis
    using ok p by (auto simp: sdb_ok_def i1 view_bal_def o1 nth_append view_nonce_def same_trieD [OF same] split: option.splits)
qed

definition opened :: "address \<Rightarrow> statedb \<Rightarrow> state_object \<Rightarrow> statedb \<Rightarrow> bool" where
  "opened a s obj s1 \<longleftrightarrow> sdb_ok s1 \<and> same_trie s s1 \<and>
     sd_objects s1 = (sd_objects s)(a := Some obj) \<and> (\<exists>zs. sd_ints s1 = sd_ints s @ zs) \<and>
     sd_code_hash s1 = sd_code_hash s \<and> view_bal s1 = view_bal s \<and> view_nonce s1 = view_nonce s \<and>
     sd_valid_revisions s1 = sd_valid_revisions s \<and> sd_next_revision s1 = sd_next_revision s"

lemma get_state_object_ok:
  assumes ok: "sdb_ok s"
  shows "if known s a
    then \<exists>obj s1. get_state_object a s = Ok (Some obj, s1) \<and> opened a s obj s1 \<and> sd_journal s1 = sd_journal s
    else \<exists>e. get_state_object a s = Ok (None, s\<lparr>sd_last_error := e\<rparr>)"
proof (cases "sd_objects s a")
  case (Some obj)
  moreover from Some have "(sd_objects s)(a := Some obj) = sd_objects s" by auto
  ultimately show ?thesis using ok by (auto simp: known_def get_state_object_def opened_def same_trie_def)
next
  case None
  have rd: "trie_read (get_node (sd_store s)) (sd_trie s) a =
      Some (sd_trie s, trie_value (get_node (sd_store s), sd_trie s) a)"
    using ok by (simp add: sdb_ok_def settled_def)
  show ?thesis
  proof (cases "stored_account s a")
    case None': None
    with None have "\<not> known s a" by (simp add: known_def)
    moreover have "get_state_object a s = Ok (None, s\<lparr>sd_last_error := sd_last_error s\<rparr>) \<or>
        (\<exists>e. get_state_object a s = Ok (None, s\<lparr>sd_last_error := Some e\<rparr>))"
    proof (cases "trie_value (get_node (sd_store s), sd_trie s) a")
      case None
      with \<open>sd_objects s a = None\<close> rd show ?thesis by (simp add: get_state_object_def)
    next
      case (Some d)
      with None' decode_account_no_panic [of d] obtain e where e: "decode_account d = Err e"
        by (cases "decode_account d") (simp_all add: stored_account_def)
      with \<open>sd_objects s a = None\<close> rd Some have "get_state_object a s = Ok (None, s\<lparr>sd_last_error := Some e\<rparr>)"
        by (simp add: get_state_object_def)
      then show ?thesis by blast
    qed
    ultimately have "\<not> known s a" "\<exists>e. get_state_object a s = Ok (None, s\<lparr>sd_last_error := e\<rparr>)"
      by blast+
    then show ?thesis by (simp only: if_False)
  next
    case (Some acct)
    then obtain d where d: "trie_value (get_node (sd_store s), sd_trie s) a = Some d" "decode_account d = Ok acct"
      by (auto simp: stored_account_def split: option.splits outcome.splits)
    from Some ok obtain x y where xy: "acc_apt acct = Some x" "acc_npt acct = Some y"
      unfolding sdb_ok_def settled_def by blast
    let ?n = "length (sd_ints s)"
    let ?pa = "\<lparr>acc_nonce = acc_nonce acct, acc_apt = Some ?n, acc_npt = Some (Suc ?n),
        acc_code = acc_code acct, acc_storage = acc_storage acct\<rparr>"
    let ?obj = "\<lparr>so_address = a, so_account = ?pa, so_storage = None, so_dirty = False,
        so_dirty_storage = [], so_origin = ?pa\<lparr>acc_apt := Some (Suc (Suc ?n)), acc_npt := Some (Suc (Suc (Suc ?n)))\<rparr>\<rparr>"
    let ?s1 = "put_object a ?obj (s\<lparr>sd_trie := sd_trie s, sd_ints := sd_ints s @ x # y # [x, y]\<rparr>)"
    have g: "get_state_object a s = Ok (Some ?obj, ?s1)"
      using None rd d xy by (simp add: get_state_object_def alloc_account_def alloc_amount_def alloc_def
          new_state_object_def account_copy_def clone_ptr_def deref_def nth_append)
    have same: "same_trie s ?s1" by (simp add: same_trie_def put_object_def)
    have views: "sdb_ok ?s1 \<and> view_bal ?s1 True a = x \<and> view_bal ?s1 False a = y \<and>
      (\<forall>k b. b \<noteq> a \<longrightarrow> view_bal ?s1 k b = view_bal s k b) \<and> (\<forall>b. b \<noteq> a \<longrightarrow> view_nonce ?s1 b = view_nonce s b)"
      by (rule install_ok [OF ok None _ same, where obj = ?obj]) (simp_all add: put_object_def bal_ptr_def)
    moreover have "view_bal s k a = (if k then x else y)" for k
      using None Some xy by (simp add: view_bal_def)
    ultimately have "view_bal ?s1 k b = view_bal s k b" for k b by (cases "b = a"; cases k) auto
    moreover have "view_nonce ?s1 b = view_nonce s b" for b
      using views None Some by (cases "b = a") (simp_all add: view_nonce_def put_object_def)
    ultimately have "opened a s ?obj ?s1"
      using views same unfolding opened_def by (auto simp: fun_eq_iff put_object_def)
    with g Some show ?thesis by (auto simp: known_def put_object_def)
  qed
qed

lemma create_object_ok:
  assumes ok: "sdb_ok s" and new: "\<not> known s a"
  shows "\<exists>obj s1. create_object a s = Ok (obj, s1) \<and> opened a s obj s1 \<and>
    sd_journal s1 = sd_journal s @ [JournalCreateAccount a]"
proof -
  let ?n = "length (sd_ints s)"
  let ?pa = "\<lparr>acc_nonce = 0, acc_apt = Some ?n, acc_npt = Some (Suc ?n),
      acc_code = sd_code_hash s, acc_storage = empty_hash\<rparr>"
  let ?obj = "\<lparr>so_address = a, so_account = ?pa, so_storage = None, so_dirty = False,
      so_dirty_storage = [], so_origin = ?pa\<lparr>acc_apt := Some (Suc (Suc ?n)), acc_npt := Some (Suc (Suc (Suc ?n)))\<rparr>\<rparr>"
  let ?s1 = "(put_object a ?obj (journal_append (JournalCreateAccount a) (s\<lparr>sd_ints := sd_ints s @ 0 # 0 # [0, 0]\<rparr>)))
      \<lparr>sd_dirty := insert a (sd_dirty s)\<rparr>"
  have zero: "0 < length (sd_ints s)" "sd_ints s ! 0 = 0" using ok by (auto simp: sdb_ok_def)
  have g: "create_object a s = Ok (?obj, ?s1)"
    using zero by (simp add: create_object_def clone_ptr_def deref_def alloc_def zero_ptr_def
        new_state_object_def account_copy_def nth_append)
  have none: "sd_objects s a = None" "stored_account s a = None" using new by (auto simp: known_def)
  have same: "same_trie s ?s1" by (simp add: same_trie_def put_object_def journal_append_def)
  have views: "sdb_ok ?s1 \<and> view_bal ?s1 True a = 0 \<and> view_bal ?s1 False a = 0 \<and>
      (\<forall>k b. b \<noteq> a \<longrightarrow> view_bal ?s1 k b = view_bal s k b) \<and> (\<forall>b. b \<noteq> a \<longrightarrow> view_nonce ?s1 b = view_nonce s b)"
    by (rule install_ok [OF ok none(1) _ same, where obj = ?obj]) (simp_all add: put_object_def journal_append_def bal_ptr_def)
  moreover have "view_bal s k a = 0" for k using none by (simp add: view_bal_def)
  ultimately have "view_bal ?s1 k b = view_bal s k b" for k b by (cases "b = a"; cases k) auto
  moreover have "view_nonce ?s1 b = view_nonce s b" for b
    using views none by (cases "b = a") (simp_all add: view_nonce_def put_object_def journal_append_def)
  ultimately have "opened a s ?obj ?s1"
    using views same unfolding opened_def by (auto simp: fun_eq_iff put_object_def journal_append_def)
  with g show ?thesis by (auto simp: put_object_def journal_append_def)
qed

lemma views_error [simp]:
  "stored_account (s\<lparr>sd_last_error := e\<rparr>) = stored_account s"
  "view_bal (s\<lparr>sd_last_error := e\<rparr>) = view_bal s"
  "view_nonce (s\<lparr>sd_last_error := e\<rparr>) = view_nonce s"
proof -
  show st: "stored_account (s\<lparr>sd_last_error := e\<rparr>) = stored_account s"
    by (rule ext) (simp add: stored_account_def)
  show "view_bal (s\<lparr>sd_last_error := e\<rparr>) = view_bal s"
    "view_nonce (s\<lparr>sd_last_error := e\<rparr>) = view_nonce s"
    by (intro ext; simp add: view_bal_def view_nonce_def st split: option.split)+
qed

lemma opened_error: "opened a (s\<lparr>sd_last_error := e\<rparr>) obj s1 \<longleftrightarrow> opened a s obj s1"
  by (simp add: opened_def same_trie_def)

lemma get_or_new_ok:
  assumes ok: "sdb_ok s"
  obtains obj s1 where "get_or_new_state_object a s = Ok (obj, s1)" "opened a s obj s1"
    "sd_journal s1 = sd_journal s @ (if known s a then [] else [JournalCreateAccount a])"
proof (cases "known s a")
  case True
  with get_state_object_ok [OF ok, of a] that show thesis
    by (auto simp: get_or_new_state_object_def)
next
  case False
  with get_state_object_ok [OF ok, of a] obtain e where e: "get_state_object a s = Ok (None, s\<lparr>sd_last_error := e\<rparr>)"
    by auto
  have "sdb_ok (s\<lparr>sd_last_error := e\<rparr>)" "\<not> known (s\<lparr>sd_last_error := e\<rparr>) a"
    using ok False by (simp_all add: sdb_ok_def settled_def objects_ok_def known_def stored_account_def)
  from create_object_ok [OF this] e False that show thesis
    by (auto simp: get_or_new_state_object_def opened_error)
qed

end
