(* ===== verification/StateDBProps.thy ===== *)
theory StateDBProps
  imports StateDBCorrect
begin

text \<open>
  The properties of the state database: what each balance and nonce operation changes, what a
  snapshot and a revert restore, and what a reload of stored accounts does.
\<close>

section \<open>One operation\<close>

lemma openedD:
  assumes "opened a s obj s1"
  shows "sdb_ok s1" "same_trie s s1" "sd_objects s1 = (sd_objects s)(a := Some obj)"
    "view_bal s1 = view_bal s" "view_nonce s1 = view_nonce s" "sd_objects s1 a = Some obj"
  using assms by (auto simp: opened_def)

definition set_dirty :: "state_object \<Rightarrow> state_object" where
  "set_dirty obj = obj\<lparr>so_dirty := True\<rparr>"

lemma bal_ptr_dirty [simp]: "bal_ptr k (set_dirty obj) = bal_ptr k obj"
  "so_account (set_dirty obj) = so_account obj"
  by (simp_all add: bal_ptr_def set_dirty_def)

lemma set_nonce_nonce [simp]: "acc_nonce (so_account (so_set_nonce n obj)) = n"
  by (simp add: so_set_nonce_def)

lemma put_object_objects: "sd_objects (put_object a obj s) = (sd_objects s)(a := Some obj)"
  by (simp add: put_object_def)

lemma objects_ok_keep:
  assumes ok: "objects_ok s"
    and keep: "\<forall>b o2. sd_objects s2 b = Some o2 \<longrightarrow> (\<exists>o1. sd_objects s b = Some o1 \<and> (\<forall>k. bal_ptr k o2 = bal_ptr k o1))"
    and len: "length (sd_ints s2) = length (sd_ints s)"
  shows "objects_ok s2"
  unfolding objects_ok_def
proof (rule conjI; intro allI impI)
  fix a obj k
  assume "sd_objects s2 a = Some obj"
  with keep obtain o1 where "sd_objects s a = Some o1" "bal_ptr k obj = bal_ptr k o1" by blast
  with ok len show "\<exists>i. bal_ptr k obj = Some i \<and> 0 < i \<and> i < length (sd_ints s2)"
    unfolding objects_ok_def by simp
next
  fix a b obj obj' k k'
  assume *: "sd_objects s2 a = Some obj" "sd_objects s2 b = Some obj'" "bal_ptr k obj = bal_ptr k' obj'"
  with keep obtain o1 o1' where "sd_objects s a = Some o1" "bal_ptr k obj = bal_ptr k o1"
    "sd_objects s b = Some o1'" "bal_ptr k' obj' = bal_ptr k' o1'" by blast
  with ok *(3) show "a = b \<and> k = k'" unfolding objects_ok_def by metis
qed

lemma write_ok:
  assumes ok: "sdb_ok s" and a: "sd_objects s a = Some obj" and same: "same_trie s s1"
    and i1: "sd_ints s1 = (sd_ints s)[the (bal_ptr k obj) := v]"
    and o1: "sd_objects s1 = (sd_objects s)(a := Some (set_dirty obj))"
  shows "sdb_ok s1 \<and> view_nonce s1 = view_nonce s \<and>
    (\<forall>k' b. view_bal s1 k' b = (if b = a \<and> k' = k then v else view_bal s k' b))"
proof -
  obtain i where i: "bal_ptr k obj = Some i" "0 < i" "i < length (sd_ints s)"
    by (rule bal_ptr_valid [OF ok a])
  have o: "\<forall>b o'. sd_objects s1 b = Some o' \<longrightarrow> (\<exists>o''. sd_objects s b = Some o'' \<and> (\<forall>k. bal_ptr k o' = bal_ptr k o''))"
    using a by (auto simp: o1 split: if_splits)
  have "objects_ok s1"
    using ok by (intro objects_ok_keep [OF _ o]) (simp_all add: sdb_ok_def i1)
  moreover have "view_bal s1 k' b = (if b = a \<and> k' = k then v else view_bal s k' b)" for k' b
  proof (cases "sd_objects s b")
    case None
    with a show ?thesis by (auto simp: view_bal_def o1 same_trieD [OF same])
  next
    case (Some o')
    obtain j where j: "bal_ptr k' o' = Some j" "j < length (sd_ints s)"
      by (rule bal_ptr_valid [OF ok Some])
    have "b = a \<and> k' = k \<longleftrightarrow> j = i"
      using bal_ptr_inj [OF ok Some a, of k' k] i j a Some by auto
    with Some i j a show ?thesis
      by (auto simp: view_bal_def o1 i1 nth_list_update)
  qed
  moreover have "view_nonce s1 b = view_nonce s b" for b
    using a by (simp add: view_nonce_def o1 same_trieD [OF same] split: option.split)
  ultimately show ?thesis
    using ok i same_trieD(2) [OF same] by (auto simp: sdb_ok_def i1 fun_eq_iff)
qed

text \<open>The four balance operations, as an update of one view.\<close>

datatype sd_op =
    AddAPT address token_amount | SubAPT address token_amount
  | AddNPT address token_amount | SubNPT address token_amount | SetNonce address u64

fun run_op :: "sd_op \<Rightarrow> statedb \<Rightarrow> unit sd_result" where
  "run_op (AddAPT a v) = add_balance_apt a v"
| "run_op (SubAPT a v) = sub_balance_apt a v"
| "run_op (AddNPT a v) = add_balance_npt a v"
| "run_op (SubNPT a v) = sub_balance_npt a v"
| "run_op (SetNonce a n) = set_nonce a n"

fun run_ops :: "sd_op list \<Rightarrow> statedb \<Rightarrow> unit sd_result" where
  "run_ops [] s = Ok ((), s)"
| "run_ops (x # xs) s = obind (run_op x s) (\<lambda>(_, s1). run_ops xs s1)"

fun op_addr :: "sd_op \<Rightarrow> address" where
  "op_addr (AddAPT a _) = a" | "op_addr (SubAPT a _) = a" | "op_addr (AddNPT a _) = a"
| "op_addr (SubNPT a _) = a" | "op_addr (SetNonce a _) = a"

fun op_entry :: "sd_op \<Rightarrow> state_object \<Rightarrow> journal_entry" where
  "op_entry (SetNonce a _) obj = JournalNonceChange a (acc_nonce (so_account obj))"
| "op_entry x obj = JournalBalanceChange (op_addr x) (bal_ptr True obj) (bal_ptr False obj)"

text \<open>The view of one balance before, and after if the operation succeeds.\<close>

fun op_bal :: "sd_op \<Rightarrow> bool \<Rightarrow> int \<Rightarrow> int option" where
  "op_bal (AddAPT a v) k b = (if k then map_option ((+) b) v else Some b)"
| "op_bal (SubAPT a v) k b = (if k then (case v of None \<Rightarrow> None | Some x \<Rightarrow> if b < x then None else Some (b - x)) else Some b)"
| "op_bal (AddNPT a v) k b = (if k then Some b else map_option ((+) b) v)"
| "op_bal (SubNPT a v) k b = (if k then Some b else (case v of None \<Rightarrow> None | Some x \<Rightarrow> if b < x then None else Some (b - x)))"
| "op_bal (SetNonce a n) k b = Some b"

fun op_nonce :: "sd_op \<Rightarrow> u64 \<Rightarrow> u64" where
  "op_nonce (SetNonce a n) m = n" | "op_nonce _ m = m"

definition op_ok :: "sd_op \<Rightarrow> statedb \<Rightarrow> bool" where
  "op_ok x s \<longleftrightarrow> (\<forall>k. op_bal x k (view_bal s k (op_addr x)) \<noteq> None)"

text \<open>After the object is at hand: the operation on it.\<close>

definition op_done :: "sd_op \<Rightarrow> statedb \<Rightarrow> state_object \<Rightarrow> statedb \<Rightarrow> bool" where
  "op_done x s1 obj s2 \<longleftrightarrow> sdb_ok s2 \<and> same_trie s1 s2 \<and> dom (sd_objects s2) = dom (sd_objects s1) \<and>
     (\<forall>b o2. sd_objects s2 b = Some o2 \<longrightarrow> (\<exists>o1. sd_objects s1 b = Some o1 \<and> (\<forall>k. bal_ptr k o2 = bal_ptr k o1))) \<and>
     length (sd_ints s2) = length (sd_ints s1) \<and>
     sd_journal s2 = sd_journal s1 @ [op_entry x obj] \<and>
     sd_valid_revisions s2 = sd_valid_revisions s1 \<and> sd_next_revision s2 = sd_next_revision s1 \<and>
     (\<forall>k b. view_bal s2 k b = (if b = op_addr x then the (op_bal x k (view_bal s1 k b)) else view_bal s1 k b)) \<and>
     (\<forall>b. view_nonce s2 b = (if b = op_addr x then op_nonce x (view_nonce s1 b) else view_nonce s1 b))"

lemma view_bal_object: "sd_objects s a = Some obj \<Longrightarrow> view_bal s k a = sd_ints s ! the (bal_ptr k obj)"
  by (simp add: view_bal_def)

definition finish_balance :: "address \<Rightarrow> state_object \<Rightarrow> int list \<Rightarrow> statedb \<Rightarrow> statedb" where
  "finish_balance a obj h s1 = journal_append (JournalBalanceChange a (bal_ptr True obj) (bal_ptr False obj))
     ((put_object a (set_dirty obj) (s1\<lparr>sd_ints := h\<rparr>))\<lparr>sd_dirty := insert a (sd_dirty s1)\<rparr>)"

lemma finish_balance_ok:
  assumes "sdb_ok s1" "sd_objects s1 a = Some obj"
  shows "let s2 = finish_balance a obj ((sd_ints s1)[the (bal_ptr k obj) := v]) s1 in
     sdb_ok s2 \<and> same_trie s1 s2 \<and> dom (sd_objects s2) = dom (sd_objects s1) \<and>
     (\<forall>b o2. sd_objects s2 b = Some o2 \<longrightarrow> (\<exists>o1. sd_objects s1 b = Some o1 \<and> (\<forall>k. bal_ptr k o2 = bal_ptr k o1))) \<and>
     length (sd_ints s2) = length (sd_ints s1) \<and>
     sd_journal s2 = sd_journal s1 @ [JournalBalanceChange a (bal_ptr True obj) (bal_ptr False obj)] \<and>
     sd_valid_revisions s2 = sd_valid_revisions s1 \<and> sd_next_revision s2 = sd_next_revision s1 \<and>
     view_nonce s2 = view_nonce s1 \<and>
     (\<forall>k' b. view_bal s2 k' b = (if b = a \<and> k' = k then v else view_bal s1 k' b))"
proof -
  let ?s2 = "finish_balance a obj ((sd_ints s1)[the (bal_ptr k obj) := v]) s1"
  have same: "same_trie s1 ?s2"
    and i: "sd_ints ?s2 = (sd_ints s1)[the (bal_ptr k obj) := v]"
    and o: "sd_objects ?s2 = (sd_objects s1)(a := Some (set_dirty obj))"
    by (simp_all add: finish_balance_def same_trie_def put_object_def journal_append_def)
  have "sd_valid_revisions ?s2 = sd_valid_revisions s1" "sd_next_revision ?s2 = sd_next_revision s1"
    "sd_journal ?s2 = sd_journal s1 @ [JournalBalanceChange a (bal_ptr True obj) (bal_ptr False obj)]"
    by (simp_all add: finish_balance_def put_object_def journal_append_def)
  with write_ok [OF assms same i o] same assms(2) show ?thesis
    by (auto simp: Let_def o i)
qed

lemma change_balance_finish:
  assumes "get_or_new_state_object a s = Ok (obj, s1)"
    and "f (sd_ints s1) obj = obind (g (sd_ints s1)) (\<lambda>h. Ok (set_dirty obj, h))"
  shows "change_balance f a s = obind (g (sd_ints s1)) (\<lambda>h. Ok ((), finish_balance a obj h s1))"
  using assms by (cases "g (sd_ints s1)") (simp_all add: change_balance_def finish_balance_def bal_ptr_def)

lemma op_done_balance:
  assumes "sdb_ok s1" "sd_objects s1 (op_addr x) = Some obj"
    and "op_entry x obj = JournalBalanceChange (op_addr x) (bal_ptr True obj) (bal_ptr False obj)"
    and "\<And>m. op_nonce x m = m"
    and "op_bal x k (view_bal s1 k (op_addr x)) = Some v" "\<And>k' w. k' \<noteq> k \<Longrightarrow> op_bal x k' w = Some w"
  shows "op_done x s1 obj (finish_balance (op_addr x) obj ((sd_ints s1)[the (bal_ptr k obj) := v]) s1)"
proof -
  note fin = finish_balance_ok [OF assms(1,2), of k v, unfolded Let_def]
  have "(if b = op_addr x \<and> k' = k then v else view_bal s1 k' b) =
      (if b = op_addr x then the (op_bal x k' (view_bal s1 k' b)) else view_bal s1 k' b)" for b k'
    using assms(5,6) by (cases "k' = k") auto
  then show ?thesis
    unfolding op_done_def assms(3) assms(4) using fin by simp
qed

lemma add_sub_at:
  assumes "p = Some i" "i < length h"
  shows "add_to h p w = (case w of None \<Rightarrow> Panic | Some x \<Rightarrow> Ok (h[the p := h ! the p + x]))"
    and "sub_to h p w = (case w of None \<Rightarrow> Panic
      | Some x \<Rightarrow> if h ! the p < x then Panic else Ok (h[the p := h ! the p - x]))"
  using assms by (cases w; simp add: add_to_def sub_to_def deref_def)+

lemma run_op_opened:
  assumes g: "get_or_new_state_object (op_addr x) s = Ok (obj, s1)" and op: "opened (op_addr x) s obj s1"
  shows "if op_ok x s then \<exists>s2. run_op x s = Ok ((), s2) \<and> op_done x s1 obj s2 else run_op x s = Panic"
proof -
  note ok = openedD(1) [OF op] and o = openedD(6) [OF op]
  obtain i j where i: "bal_ptr True obj = Some i" "i < length (sd_ints s1)"
    and j: "bal_ptr False obj = Some j" "j < length (sd_ints s1)"
    using bal_ptr_valid [OF ok o] by metis
  have v: "view_bal s k (op_addr x) = sd_ints s1 ! the (bal_ptr k obj)" for k
    using view_bal_object [OF o, of k] openedD(4) [OF op] by simp
  have v1: "view_bal s1 k (op_addr x) = sd_ints s1 ! the (bal_ptr k obj)" for k
    using v openedD(4) [OF op] by simp
  note ch = change_balance_finish [OF g]
  note fin = op_done_balance [OF ok o]
  show ?thesis
  proof (cases x)
    case (AddAPT a w)
    have "run_op x s = (case w of None \<Rightarrow> Panic
        | Some y \<Rightarrow> Ok ((), finish_balance a obj ((sd_ints s1)[the (bal_ptr True obj) := sd_ints s1 ! the (bal_ptr True obj) + y]) s1))"
      using ch [of "so_add_balance_apt w" "\<lambda>h. add_to h (bal_ptr True obj) w"] AddAPT
        add_sub_at(1) [OF i, of w]
      by (simp add: so_add_balance_apt_def add_balance_apt_def set_dirty_def bal_ptr_def split: option.split)
    with fin [of True] AddAPT v v1 show ?thesis
      by (cases w) (simp_all add: op_ok_def all_bool_eq ex_bool_eq add.commute)
  next
    case (SubAPT a w)
    have "run_op x s = (case w of None \<Rightarrow> Panic
        | Some y \<Rightarrow> if sd_ints s1 ! the (bal_ptr True obj) < y then Panic
            else Ok ((), finish_balance a obj ((sd_ints s1)[the (bal_ptr True obj) := sd_ints s1 ! the (bal_ptr True obj) - y]) s1))"
      using ch [of "so_sub_balance_apt w" "\<lambda>h. sub_to h (bal_ptr True obj) w"] SubAPT
        add_sub_at(2) [OF i, of w]
      by (simp add: so_sub_balance_apt_def sub_balance_apt_def set_dirty_def bal_ptr_def split: option.split)
    with fin [of True] SubAPT v v1 show ?thesis
      by (cases w) (simp_all add: op_ok_def all_bool_eq ex_bool_eq)
  next
    case (AddNPT a w)
    have "run_op x s = (case w of None \<Rightarrow> Panic
        | Some y \<Rightarrow> Ok ((), finish_balance a obj ((sd_ints s1)[the (bal_ptr False obj) := sd_ints s1 ! the (bal_ptr False obj) + y]) s1))"
      using ch [of "so_add_balance_npt w" "\<lambda>h. add_to h (bal_ptr False obj) w"] AddNPT
        add_sub_at(1) [OF j, of w]
      by (simp add: so_add_balance_npt_def add_balance_npt_def set_dirty_def bal_ptr_def split: option.split)
    with fin [of False] AddNPT v v1 show ?thesis
      by (cases w) (simp_all add: op_ok_def all_bool_eq ex_bool_eq add.commute)
  next
    case (SubNPT a w)
    have "run_op x s = (case w of None \<Rightarrow> Panic
        | Some y \<Rightarrow> if sd_ints s1 ! the (bal_ptr False obj) < y then Panic
            else Ok ((), finish_balance a obj ((sd_ints s1)[the (bal_ptr False obj) := sd_ints s1 ! the (bal_ptr False obj) - y]) s1))"
      using ch [of "so_sub_balance_npt w" "\<lambda>h. sub_to h (bal_ptr False obj) w"] SubNPT
        add_sub_at(2) [OF j, of w]
      by (simp add: so_sub_balance_npt_def sub_balance_npt_def set_dirty_def bal_ptr_def split: option.split)
    with fin [of False] SubNPT v v1 show ?thesis
      by (cases w) (simp_all add: op_ok_def all_bool_eq ex_bool_eq)
  next
    case (SetNonce a n)
    let ?s2 = "journal_append (JournalNonceChange a (acc_nonce (so_account obj)))
        ((put_object a (so_set_nonce n obj) s1)\<lparr>sd_dirty := insert a (sd_dirty s1)\<rparr>)"
    have r: "run_op x s = Ok ((), ?s2)" using g SetNonce by (simp add: set_nonce_def Let_def)
    have same: "same_trie s1 ?s2" by (simp add: same_trie_def put_object_def journal_append_def)
    have ptr: "bal_ptr k (so_set_nonce n obj) = bal_ptr k obj" for k by (simp add: bal_ptr_def so_set_nonce_def)
    have o2: "sd_objects ?s2 = (sd_objects s1)(a := Some (so_set_nonce n obj))" "sd_ints ?s2 = sd_ints s1"
      by (simp_all add: put_object_def journal_append_def)
    have keep: "\<forall>b o2. sd_objects ?s2 b = Some o2 \<longrightarrow> (\<exists>o1. sd_objects s1 b = Some o1 \<and> (\<forall>k. bal_ptr k o2 = bal_ptr k o1))"
      using o SetNonce by (auto simp: o2 ptr)
    have "objects_ok ?s2"
      using ok by (intro objects_ok_keep [OF _ keep]) (simp_all add: sdb_ok_def o2(2))
    then have "sdb_ok ?s2" using ok same_trieD(2) [OF same] by (simp add: sdb_ok_def o2(2))
    moreover have "view_bal ?s2 k b = view_bal s1 k b" for k b
      using o SetNonce by (auto simp: view_bal_def o2 ptr same_trieD [OF same] split: option.split)
    moreover have "view_nonce ?s2 b = (if b = a then n else view_nonce s1 b)" for b
      by (simp add: view_nonce_def o2 same_trieD [OF same] split: option.split)
    ultimately have "op_done x s1 obj ?s2"
      using same keep o SetNonce unfolding op_done_def
      by (intro conjI) (simp_all add: o2 insert_absorb domI put_object_def journal_append_def)
    moreover have "op_ok x s" using SetNonce by (simp add: op_ok_def)
    ultimately show ?thesis using r by auto
  qed
qed

lemma run_op_total:
  assumes "sdb_ok s"
  obtains obj s1 where "get_or_new_state_object (op_addr x) s = Ok (obj, s1)" "opened (op_addr x) s obj s1"
    "sd_journal s1 = sd_journal s @ (if known s (op_addr x) then [] else [JournalCreateAccount (op_addr x)])"
    "if op_ok x s then \<exists>s2. run_op x s = Ok ((), s2) \<and> op_done x s1 obj s2 else run_op x s = Panic"
  using get_or_new_ok [OF assms, of "op_addr x"] run_op_opened by metis

lemma run_op_views:
  assumes "sdb_ok s" "op_ok x s"
  shows "\<exists>s2. run_op x s = Ok ((), s2) \<and> sdb_ok s2 \<and> known s2 (op_addr x) \<and>
     sd_valid_revisions s2 = sd_valid_revisions s \<and> sd_next_revision s2 = sd_next_revision s \<and>
     (\<forall>k b. view_bal s2 k b = (if b = op_addr x then the (op_bal x k (view_bal s k b)) else view_bal s k b)) \<and>
     (\<forall>b. view_nonce s2 b = (if b = op_addr x then op_nonce x (view_nonce s b) else view_nonce s b))"
proof -
  obtain obj s1 where op: "opened (op_addr x) s obj s1"
    and r: "if op_ok x s then \<exists>s2. run_op x s = Ok ((), s2) \<and> op_done x s1 obj s2 else run_op x s = Panic"
    using run_op_total [OF assms(1), of x] by metis
  from r assms(2) obtain s2 where "run_op x s = Ok ((), s2)" "op_done x s1 obj s2" by auto
  moreover from this(2) openedD(6) [OF op] have "known s2 (op_addr x)"
    unfolding op_done_def known_def by (metis domIff option.distinct(1))
  moreover have "sd_valid_revisions s1 = sd_valid_revisions s" "sd_next_revision s1 = sd_next_revision s"
    using op by (simp_all add: opened_def)
  ultimately show ?thesis
    unfolding op_done_def openedD(4) [OF op] openedD(5) [OF op] by auto
qed

section \<open>Undoing\<close>

definition grown :: "statedb \<Rightarrow> statedb \<Rightarrow> bool" where
  "grown s u \<longleftrightarrow> same_trie s u \<and> length (sd_ints s) \<le> length (sd_ints u) \<and>
     (\<forall>a obj. sd_objects s a = Some obj \<longrightarrow>
        (\<exists>obj'. sd_objects u a = Some obj' \<and> (\<forall>k. bal_ptr k obj' = bal_ptr k obj)))"

lemma grown_refl [simp]: "grown s s"
  by (simp add: grown_def same_trie_def)

lemma grown_trans: "grown s t \<Longrightarrow> grown t u \<Longrightarrow> grown s u"
  unfolding grown_def same_trie_def by (metis order_trans)

lemma grown_opened:
  assumes "opened a s obj s1" "sd_objects s a = None \<or> sd_objects s a = Some obj"
  shows "grown s s1"
  using assms unfolding grown_def opened_def by auto

lemma grown_op_done:
  assumes "op_done x s1 obj s2"
  shows "grown s1 s2"
  unfolding grown_def
proof (intro conjI allI impI)
  fix a o1 assume "sd_objects s1 a = Some o1"
  with assms obtain o2 where "sd_objects s2 a = Some o2" unfolding op_done_def by blast
  moreover with assms \<open>sd_objects s1 a = Some o1\<close> have "\<forall>k. bal_ptr k o2 = bal_ptr k o1"
    unfolding op_done_def by fastforce
  ultimately show "\<exists>obj'. sd_objects s2 a = Some obj' \<and> (\<forall>k. bal_ptr k obj' = bal_ptr k o1)" by blast
qed (use assms in \<open>auto simp: op_done_def\<close>)

text \<open>
  \<open>undone s u t\<close>: \<open>t\<close> is the state after the part of the journal since \<open>s\<close> was undone from \<open>u\<close>. Its
  nonces and accounts are those of \<open>s\<close>, its balances are still those of \<open>u\<close>.
\<close>

definition undone :: "statedb \<Rightarrow> statedb \<Rightarrow> statedb \<Rightarrow> bool" where
  "undone s u t \<longleftrightarrow> same_trie s t \<and> known t = known s \<and> view_nonce t = view_nonce s \<and>
     dom (sd_objects t) \<subseteq> dom (sd_objects u) \<and> dom (sd_objects s) \<subseteq> dom (sd_objects t) \<and>
     (\<forall>a. sd_objects u a \<noteq> None \<longrightarrow> stored_account u a \<noteq> None \<longrightarrow> sd_objects t a \<noteq> None) \<and>
     (\<forall>a obj k. sd_objects t a = Some obj \<longrightarrow> (\<exists>i. bal_ptr k obj = Some i \<and> i < length (sd_ints t) \<and>
        sd_ints t ! i = view_bal u k a)) \<and>
     (\<exists>zs. sd_ints t = sd_ints u @ zs) \<and>
     sd_journal t = sd_journal u \<and> sd_valid_revisions t = sd_valid_revisions u"

lemma undone_start:
  assumes "sdb_ok u"
  shows "undone u u u"
proof -
  have "\<exists>i. bal_ptr k obj = Some i \<and> i < length (sd_ints u) \<and> sd_ints u ! i = view_bal u k a"
    if o: "sd_objects u a = Some obj" for a obj k
    using bal_ptr_valid [OF assms o, of k] view_bal_object [OF o, of k] by (metis option.sel)
  then show ?thesis unfolding undone_def same_trie_def by auto
qed

lemma undone_open:
  assumes u: "undone s1 u t" and op: "opened a s obj s1" and ok: "sdb_ok s" and su: "same_trie s u"
    and j: "es = (if known s a then [] else [JournalCreateAccount a])"
  shows "\<exists>t'. revert_entries es t = Ok t' \<and> undone s u t'"
proof -
  note same = openedD(2) [OF op] and ob = openedD(3) [OF op] and non = openedD(5) [OF op]
  have st: "stored_account s1 = stored_account s" "stored_account u = stored_account s"
    using same_trieD(1) same su by auto
  have dom: "dom (sd_objects s1) = insert a (dom (sd_objects s))" by (simp add: ob)
  have trie: "same_trie s t" using u same unfolding undone_def same_trie_def by simp
  have stt: "stored_account t = stored_account s" using same_trieD(1) [OF trie] .
  show ?thesis
  proof (cases "known s a")
    case True
    have "known s1 = known s"
      using True by (auto simp: known_def ob st fun_eq_iff)
    with u trie non dom have "undone s u t" unfolding undone_def by auto
    with j True show ?thesis by simp
  next
    case False
    let ?t = "t\<lparr>sd_objects := (sd_objects t)(a := None)\<rparr>"
    have sa: "sd_objects s a = None" "stored_account s a = None" using False by (auto simp: known_def)
    have stt': "stored_account ?t = stored_account s"
      using trie by (intro same_trieD(1)) (simp add: same_trie_def)
    have "known ?t b = known s b" for b
    proof (cases "b = a")
      case False
      from u have "known t b = known s1 b" unfolding undone_def by simp
      with False show ?thesis by (simp add: known_def ob st stt stt')
    qed (use sa in \<open>simp add: known_def stt'\<close>)
    moreover have "view_nonce ?t b = view_nonce s b" for b
    proof (cases "b = a")
      case False
      from u non have "view_nonce t b = view_nonce s b" unfolding undone_def by simp
      with False show ?thesis by (simp add: view_nonce_def stt stt' cong: option.case_cong)
    qed (use sa in \<open>simp add: view_nonce_def stt'\<close>)
    moreover have "dom (sd_objects s) \<subseteq> dom (sd_objects ?t)"
      using u dom sa unfolding undone_def by auto
    moreover have "\<forall>b. sd_objects u b \<noteq> None \<longrightarrow> stored_account u b \<noteq> None \<longrightarrow> sd_objects ?t b \<noteq> None"
      using u sa st unfolding undone_def by auto
    ultimately have "undone s u ?t"
      using u trie unfolding undone_def by (auto simp: fun_eq_iff same_trie_def)
    with j False show ?thesis by simp
  qed
qed

lemma undone_op:
  assumes u: "undone s2 u t" and op: "op_done x s1 obj s2" and ok: "sdb_ok s1" and o: "sd_objects s1 (op_addr x) = Some obj"
    and g: "grown s2 u"
  shows "\<exists>t'. revert_entry (op_entry x obj) t = Ok t' \<and> undone s1 u t'"
proof -
  let ?a = "op_addr x"
  have same: "same_trie s1 s2" and dom: "dom (sd_objects s2) = dom (sd_objects s1)"
    and non: "\<And>b. view_nonce s2 b = (if b = ?a then op_nonce x (view_nonce s1 b) else view_nonce s1 b)"
    using op unfolding op_done_def by auto
  have trie: "same_trie s1 t" using u same unfolding undone_def same_trie_def by simp
  have st: "stored_account s2 = stored_account s1" "stored_account t = stored_account s1"
    using same_trieD(1) same trie by auto
  have dom': "sd_objects s2 b = None \<longleftrightarrow> sd_objects s1 b = None" for b
    using dom by (metis domIff)
  have known: "known s2 = known s1" by (simp add: known_def st dom' fun_eq_iff)
  obtain ot where ot: "sd_objects t ?a = Some ot"
    using u o dom unfolding undone_def by (metis domD domI subsetD)
  show ?thesis
  proof (cases "\<exists>n. x = SetNonce ?a n")
    case True
    let ?t = "put_object ?a (so_set_nonce (acc_nonce (so_account obj)) ot) t"
    have e: "revert_entry (op_entry x obj) t = Ok ?t"
      using True ot by (cases x) auto
    have stt: "stored_account ?t = stored_account s1"
      using trie by (intro same_trieD(1)) (simp add: same_trie_def put_object_def)
    have "view_nonce ?t b = view_nonce s1 b" for b
    proof (cases "b = ?a")
      case False
      from u non [of b] False have "view_nonce t b = view_nonce s1 b" unfolding undone_def by simp
      with False show ?thesis by (simp add: view_nonce_def stt st put_object_objects cong: option.case_cong)
    qed (use o in \<open>simp add: view_nonce_def put_object_def\<close>)
    moreover have "known ?t = known s1"
      using u known o ot by (auto simp: undone_def known_def stt st put_object_objects fun_eq_iff)
    moreover have "bal_ptr k (so_set_nonce n ot) = bal_ptr k ot" for k n by (simp add: bal_ptr_def so_set_nonce_def)
    ultimately have "undone s1 u ?t"
      using u trie ot dom unfolding undone_def
      by (auto simp: same_trie_def put_object_def fun_eq_iff)
    with e show ?thesis by blast
  next
    case False
    then have e: "op_entry x obj = JournalBalanceChange ?a (bal_ptr True obj) (bal_ptr False obj)"
      and nid: "op_nonce x m = m" for m
      by (cases x; simp)+
    obtain o2 where o2: "sd_objects s2 ?a = Some o2" "\<forall>k. bal_ptr k o2 = bal_ptr k obj"
      using op o dom' [of ?a] unfolding op_done_def by (metis option.exhaust option.sel)
    with g obtain ou where ou: "sd_objects u ?a = Some ou" "\<forall>k. bal_ptr k ou = bal_ptr k obj"
      unfolding grown_def by metis
    have len: "length (sd_ints s1) \<le> length (sd_ints u)"
      using op g unfolding op_done_def grown_def by simp
    obtain i j where i: "bal_ptr True obj = Some i" "i < length (sd_ints s1)"
      and j: "bal_ptr False obj = Some j" "j < length (sd_ints s1)"
      using bal_ptr_valid [OF ok o] by metis
    obtain zs where zs: "sd_ints t = sd_ints u @ zs" using u unfolding undone_def by blast
    have vi: "i < length (sd_ints t)" "sd_ints t ! i = view_bal u True ?a"
      and vj: "j < length (sd_ints t)" "sd_ints t ! j = view_bal u False ?a"
      using i j len zs ou view_bal_object [OF ou(1)] by (simp_all add: nth_append)
    let ?n = "length (sd_ints t)"
    let ?o = "ot\<lparr>so_account := (so_account ot)\<lparr>acc_apt := Some ?n, acc_npt := Some (Suc ?n)\<rparr>, so_dirty := True\<rparr>"
    let ?t = "put_object ?a ?o (t\<lparr>sd_ints := sd_ints t @ [sd_ints t ! i, sd_ints t ! j]\<rparr>)"
    have r: "revert_entry (op_entry x obj) t = Ok ?t"
      using e ot i j vi vj by (simp add: clone_ptr_def deref_def alloc_def nth_append)
    have stt: "stored_account ?t = stored_account s1"
      using trie by (intro same_trieD(1)) (simp add: same_trie_def put_object_def)
    have "view_nonce ?t b = view_nonce s1 b" for b
    proof -
      from u non [of b] nid have "view_nonce t b = view_nonce s1 b" unfolding undone_def by simp
      moreover have "view_nonce ?t b = view_nonce t b"
        using ot by (cases "b = ?a") (simp_all add: view_nonce_def stt st put_object_objects cong: option.case_cong)
      ultimately show ?thesis by simp
    qed
    moreover have "known ?t = known s1"
      using u known o ot by (auto simp: undone_def known_def stt st put_object_objects fun_eq_iff)
    moreover have "\<exists>m. bal_ptr k ob = Some m \<and> m < length (sd_ints ?t) \<and> sd_ints ?t ! m = view_bal u k b"
      if ob: "sd_objects ?t b = Some ob" for b ob k
    proof (cases "b = ?a")
      case True
      with ob have "ob = ?o" by (simp add: put_object_def)
      with True vi vj show ?thesis by (cases k) (simp_all add: bal_ptr_def put_object_def nth_append)
    next
      case False
      with ob have "sd_objects t b = Some ob" by (simp add: put_object_def)
      with u obtain m where "bal_ptr k ob = Some m" "m < length (sd_ints t)" "sd_ints t ! m = view_bal u k b"
        unfolding undone_def by blast
      then show ?thesis by (simp add: put_object_def nth_append)
    qed
    moreover have "dom (sd_objects ?t) = dom (sd_objects t)" using ot by (auto simp: put_object_def)
    ultimately have "undone s1 u ?t"
      using u trie dom zs unfolding undone_def
      by (simp add: same_trie_def put_object_def fun_eq_iff)
    with r show ?thesis by blast
  qed
qed

lemma revert_entries_append:
  "revert_entries (xs @ ys) s = obind (revert_entries xs s) (revert_entries ys)"
proof (induction xs arbitrary: s)
  case (Cons x xs)
  then show ?case by (cases "revert_entry x s") simp_all
qed simp

lemma run_ops_undone:
  "sdb_ok s \<Longrightarrow> run_ops xs s = Ok ((), u) \<Longrightarrow>
    sdb_ok u \<and> grown s u \<and> sd_valid_revisions u = sd_valid_revisions s \<and>
    (\<exists>es t. sd_journal u = sd_journal s @ es \<and> revert_entries (rev es) u = Ok t \<and> undone s u t)"
proof (induction xs arbitrary: s)
  case Nil
  then show ?case using undone_start by auto
next
  case (Cons x xs)
  obtain obj s1 where op: "opened (op_addr x) s obj s1"
    and g: "get_or_new_state_object (op_addr x) s = Ok (obj, s1)"
    and j1: "sd_journal s1 = sd_journal s @ (if known s (op_addr x) then [] else [JournalCreateAccount (op_addr x)])"
    and r: "if op_ok x s then \<exists>s2. run_op x s = Ok ((), s2) \<and> op_done x s1 obj s2 else run_op x s = Panic"
    using run_op_total [OF Cons.prems(1), of x] by metis
  let ?e0 = "if known s (op_addr x) then [] else [JournalCreateAccount (op_addr x)]"
  from Cons.prems(2) r obtain s2 where s2: "run_op x s = Ok ((), s2)" "op_done x s1 obj s2" "run_ops xs s2 = Ok ((), u)"
    by (cases "op_ok x s") auto
  have ok2: "sdb_ok s2" using s2(2) by (simp add: op_done_def)
  from Cons.IH [OF ok2 s2(3)] obtain es t where IH: "sdb_ok u" "grown s2 u" "sd_valid_revisions u = sd_valid_revisions s2"
    "sd_journal u = sd_journal s2 @ es" "revert_entries (rev es) u = Ok t" "undone s2 u t" by blast
  have keep: "sd_objects s (op_addr x) = None \<or> sd_objects s (op_addr x) = Some obj"
    using g by (auto simp: get_or_new_state_object_def get_state_object_def split: option.splits)
  have gr: "grown s u"
    using grown_trans [OF grown_opened [OF op keep] grown_trans [OF grown_op_done [OF s2(2)] IH(2)]] .
  obtain t1 where t1: "revert_entry (op_entry x obj) t = Ok t1" "undone s1 u t1"
    using undone_op [OF IH(6) s2(2) openedD(1,6) [OF op] IH(2)] by blast
  have "same_trie s u" using gr by (simp add: grown_def)
  from undone_open [OF t1(2) op Cons.prems(1) this refl] obtain t2 where
    t2: "revert_entries ?e0 t1 = Ok t2" "undone s u t2" by blast
  have "rev ?e0 = ?e0" by simp
  with IH t1 t2 have "revert_entries (rev (?e0 @ [op_entry x obj] @ es)) u = Ok t2"
    by (simp only: rev_append revert_entries_append) simp
  moreover have "sd_journal u = sd_journal s @ (?e0 @ [op_entry x obj] @ es)"
    using IH(4) j1 s2(2) by (simp add: op_done_def)
  moreover have "sd_valid_revisions u = sd_valid_revisions s"
    using IH(3) s2(2) op by (simp add: op_done_def opened_def)
  ultimately show ?case using IH(1) gr t2(2) by blast
qed

lemma revert_to_ok:
  assumes ok: "sdb_ok s" and len: "length (sd_valid_revisions s) = sd_next_revision s"
    and snap: "snapshot s = (revID, s0)" and ops: "run_ops xs s0 = Ok ((), u)"
  shows "\<exists>t. revert_to_snapshot (int revID) u = Ok t \<and> sd_journal t = sd_journal s \<and>
    sd_valid_revisions t = sd_valid_revisions s \<and> sd_next_revision t = sd_next_revision s \<and>
    known t = known s \<and> view_nonce t = view_nonce s \<and>
    (\<forall>a k. known s a \<longrightarrow> view_bal t k a = view_bal u k a)"
proof -
  let ?rs = "sd_valid_revisions s @ [length (sd_journal s)]"
  have s0: "s0 = s\<lparr>sd_next_revision := Suc (sd_next_revision s), sd_valid_revisions := ?rs\<rparr>"
    and id: "revID = length (sd_valid_revisions s)"
    using snap len by (auto simp: snapshot_def)
  have st: "stored_account s0 = stored_account s" by (rule ext) (simp add: s0 stored_account_def)
  have views: "known s0 = known s" "view_nonce s0 = view_nonce s"
    unfolding known_def view_nonce_def st by (simp_all add: s0)
  have ok0: "sdb_ok s0"
    using ok unfolding sdb_ok_def settled_def objects_ok_def st by (simp add: s0)
  obtain es t where u: "sdb_ok u" "grown s0 u" "sd_valid_revisions u = ?rs"
    "sd_journal u = sd_journal s @ es" "revert_entries (rev es) u = Ok t" "undone s0 u t"
    using run_ops_undone [OF ok0 ops] by (auto simp: s0)
  let ?t = "t\<lparr>sd_journal := sd_journal s, sd_valid_revisions := sd_valid_revisions s,
      sd_next_revision := revID\<rparr>"
  have rv: "sd_valid_revisions t = ?rs" "sd_journal t = sd_journal s @ es"
    using u unfolding undone_def by simp_all
  have r: "revert_to_snapshot (int revID) u = Ok ?t"
    using u(3,4,5) rv by (simp add: revert_to_snapshot_def id nth_append Let_def)
  have "stored_account ?t = stored_account t" by (rule ext) (simp add: stored_account_def)
  then have t: "known ?t = known t" "view_nonce ?t = view_nonce t" "view_bal ?t = view_bal t"
    by (intro ext; simp add: known_def view_nonce_def view_bal_def cong: option.case_cong)+
  have "view_bal t k a = view_bal u k a" if k: "known s a" for k a
  proof (cases "sd_objects t a")
    case (Some obj)
    with u(6) show ?thesis unfolding undone_def using view_bal_object [OF Some, of k] by (metis option.sel)
  next
    case None
    with u(6) have "sd_objects s0 a = None" unfolding undone_def by (metis domIff subsetD)
    with k have "stored_account s a \<noteq> None" by (simp add: known_def s0)
    moreover have "stored_account u = stored_account s" "stored_account t = stored_account s"
      using same_trieD(1) [of s0 u] same_trieD(1) [of s0 t] u(2,6) st unfolding grown_def undone_def by simp_all
    moreover have "sd_objects u a = None"
      using None u(6) calculation unfolding undone_def by metis
    ultimately show ?thesis using None by (simp add: view_bal_def)
  qed
  with r t views u(6) id len show ?thesis
    unfolding undone_def by auto
qed

section \<open>Properties\<close>

text \<open>
  Adding to a balance. In every state that meets the invariant, \<open>AddBalanceAPT\<close> of a non-nil
  amount succeeds, adds exactly the amount to the APT balance of the address (loading or creating
  the account when needed), and leaves every other balance and all nonces as they were.
\<close>

theorem add_balance_apt_correct:
  assumes "sdb_ok s"
  shows "\<exists>s'. add_balance_apt a (Some v) s = Ok ((), s') \<and> sdb_ok s' \<and> view_nonce s' = view_nonce s \<and>
    (\<forall>k b. view_bal s' k b = view_bal s k b + (if k \<and> b = a then v else 0))"
proof -
  have "op_ok (AddAPT a (Some v)) s" by (simp add: op_ok_def)
  from run_op_views [OF assms this] show ?thesis by (auto simp: fun_eq_iff)
qed

text \<open>
  Subtracting from a balance. \<open>SubBalanceNPT\<close> panics exactly when the NPT balance is below the
  amount; otherwise it takes exactly the amount from it and changes no other balance and no nonce.
\<close>

theorem sub_balance_npt_correct:
  assumes "sdb_ok s"
  shows "if view_bal s False a < v then sub_balance_npt a (Some v) s = Panic
    else \<exists>s'. sub_balance_npt a (Some v) s = Ok ((), s') \<and> sdb_ok s' \<and> view_nonce s' = view_nonce s \<and>
      (\<forall>k b. view_bal s' k b = view_bal s k b - (if \<not> k \<and> b = a then v else 0))"
proof (cases "view_bal s False a < v")
  case True
  then have "\<not> op_ok (SubNPT a (Some v)) s" by (auto simp: op_ok_def)
  with run_op_total [OF assms, of "SubNPT a (Some v)"] True show ?thesis by (metis run_op.simps(4))
next
  case False
  then have "op_ok (SubNPT a (Some v)) s" by (auto simp: op_ok_def)
  from run_op_views [OF assms this] False show ?thesis by (auto simp: fun_eq_iff)
qed

lemma new_statedb_ok: "sdb_ok (new_statedb c Map.empty)"
proof -
  have "db_ok (get_node Map.empty)" by (auto simp: db_ok_def get_node_def)
  then have "trie_read (get_node Map.empty) new_empty_trie k = Some (new_empty_trie, None)" for k
    using trie_read_safe [of "get_node Map.empty" new_empty_trie k]
    by (simp add: new_empty_trie_def new_trie_def trie_value_def)
  then show ?thesis
    by (simp add: sdb_ok_def settled_def objects_ok_def new_statedb_def stored_account_def)
qed

theorem add_balance_apt_correct_witness:
  "\<exists>s'. add_balance_apt [7] (Some 5) (new_statedb empty_hash Map.empty) = Ok ((), s') \<and> view_bal s' True [7] = 5"
proof -
  have "view_bal (new_statedb empty_hash Map.empty) k b = 0" for k b
    by (simp add: view_bal_def new_statedb_def stored_account_def)
  with add_balance_apt_correct [OF new_statedb_ok, of "[7]" 5 empty_hash] show ?thesis by auto
qed

theorem sub_balance_npt_correct_witness:
  "sub_balance_npt [7] (Some 5) (new_statedb empty_hash Map.empty) = Panic"
proof -
  have "view_bal (new_statedb empty_hash Map.empty) False [7] = 0"
    by (simp add: view_bal_def new_statedb_def stored_account_def)
  with sub_balance_npt_correct [OF new_statedb_ok, of empty_hash "[7]" 5] show ?thesis by simp
qed

text \<open>
  C19: what \<open>RevertToSnapshot\<close> restores. After any sequence of balance and nonce operations since a
  snapshot, reverting to it succeeds and restores every nonce, removes the accounts created since,
  and puts the journal and the revision list back.
\<close>

theorem revert_restores_nonces:
  assumes "sdb_ok s" "length (sd_valid_revisions s) = sd_next_revision s"
    and "snapshot s = (revID, s0)" "run_ops xs s0 = Ok ((), u)"
  shows "\<exists>t. revert_to_snapshot (int revID) u = Ok t \<and> view_nonce t = view_nonce s \<and> known t = known s \<and>
    sd_journal t = sd_journal s \<and> sd_valid_revisions t = sd_valid_revisions s \<and>
    sd_next_revision t = sd_next_revision s"
  using revert_to_ok [OF assms] by blast

text \<open>
  C2: what \<open>RevertToSnapshot\<close> does not restore. The journal keeps the pointer to the live balance,
  which the update in place overwrites, so after the revert every account that existed at the
  snapshot still has the balances the operations left it with.
\<close>

theorem revert_keeps_balances:
  assumes "sdb_ok s" "length (sd_valid_revisions s) = sd_next_revision s"
    and "snapshot s = (revID, s0)" "run_ops xs s0 = Ok ((), u)" "known s a"
  shows "\<exists>t. revert_to_snapshot (int revID) u = Ok t \<and> view_bal t k a = view_bal u k a"
  using revert_to_ok [OF assms(1-4)] assms(5) by blast

lemma new_statedb_views [simp]:
  "view_bal (new_statedb c Map.empty) k b = 0" "view_nonce (new_statedb c Map.empty) b = 0"
  "sd_valid_revisions (new_statedb c st) = []" "sd_next_revision (new_statedb c st) = 0"
  by (simp_all add: view_bal_def view_nonce_def new_statedb_def stored_account_def)

lemma snapshot_ok:
  assumes "sdb_ok s"
  shows "sdb_ok (snd (snapshot s))" "view_bal (snd (snapshot s)) = view_bal s"
proof -
  let ?s = "snd (snapshot s)"
  have s: "sd_objects ?s = sd_objects s" "sd_ints ?s = sd_ints s" "same_trie s ?s"
    by (simp_all add: snapshot_def same_trie_def)
  show "sdb_ok ?s"
    using assms unfolding sdb_ok_def objects_ok_def by (simp add: s same_trieD [OF s(3)])
  show "view_bal ?s = view_bal s"
    by (intro ext) (simp add: view_bal_def s same_trieD [OF s(3)] cong: option.case_cong)
qed

theorem revert_restores_nonces_witness:
  "\<exists>u t. run_ops [SetNonce [7] 3] (snd (snapshot (new_statedb empty_hash Map.empty))) = Ok ((), u) \<and>
     revert_to_snapshot 0 u = Ok t \<and> view_nonce t [7] = 0"
proof -
  let ?s = "new_statedb empty_hash Map.empty" and ?x = "SetNonce [7] 3"
  have "op_ok ?x (snd (snapshot ?s))" by (simp add: op_ok_def)
  with run_op_views [OF snapshot_ok(1) [OF new_statedb_ok], of ?x empty_hash] obtain u where
    u: "run_ops [?x] (snd (snapshot ?s)) = Ok ((), u)" by auto
  have "snapshot ?s = (0, snd (snapshot ?s))" by (simp add: snapshot_def)
  from revert_restores_nonces [OF new_statedb_ok _ this u] u show ?thesis by auto
qed

theorem revert_keeps_balances_witness:
  "\<exists>s u t. run_op (AddAPT [7] (Some 5)) (new_statedb empty_hash Map.empty) = Ok ((), s) \<and>
     run_ops [AddAPT [7] (Some 10)] (snd (snapshot s)) = Ok ((), u) \<and>
     revert_to_snapshot (int (fst (snapshot s))) u = Ok t \<and> view_bal s True [7] = 5 \<and> view_bal t True [7] = 15"
proof -
  let ?x = "AddAPT [7] (Some 5)" and ?y = "AddAPT [7] (Some 10)"
  have "op_ok ?x (new_statedb empty_hash Map.empty)" by (simp add: op_ok_def)
  from run_op_views [OF new_statedb_ok this] obtain s where
    s: "run_op ?x (new_statedb empty_hash Map.empty) = Ok ((), s)" "sdb_ok s" "known s [7]"
    "length (sd_valid_revisions s) = sd_next_revision s" "view_bal s True [7] = 5" by auto
  have "op_ok ?y (snd (snapshot s))" by (simp add: op_ok_def)
  from run_op_views [OF snapshot_ok(1) [OF s(2)] this] s(5) obtain u where
    u: "run_ops [?y] (snd (snapshot s)) = Ok ((), u)" "view_bal u True [7] = 15"
    by (auto simp: snapshot_ok(2) [OF s(2)])
  have "snapshot s = (fst (snapshot s), snd (snapshot s))" by simp
  from revert_keeps_balances [OF s(2,4) this u(1) s(3), of True] s u show ?thesis by auto
qed

end
