(* ===== verification/NodeStoreCorrect.thy ===== *)
theory NodeStoreCorrect
  imports NodeStore
begin

text \<open>
  What a commit writes can be read back. The decoders invert the encoders on nodes whose paths
  and values fit the length fields; from that, opening a new trie on the committed root hash
  shows the map the trie held in memory.
\<close>

section \<open>Decoding inverts encoding\<close>

lemma take_be [simp]: "take n (be_bytes n v @ xs) = be_bytes n v" "drop n (be_bytes n v @ xs) = xs"
  by simp_all

lemma be2: "v < 65536 \<Longrightarrow> be_nat (be_bytes 2 v) = v"
  by (rule be_nat_be_bytes) simp

lemma be4: "v < 2 ^ 32 \<Longrightarrow> be_nat (be_bytes 4 v) = v"
  by (rule be_nat_be_bytes) simp

lemma decode_encode_leaf:
  assumes "length s < 65536" "length b < 2 ^ 32"
  shows "decode_node (encode_leaf s (Some b)) = Some (Leaf s (Some b) clean_meta)"
  using assms
  by (simp add: decode_node_def encode_leaf_def decode_leaf_def value_bytes_def Let_def be2 be4)

lemma decode_encode_ext:
  assumes "length p < 65536" "length (fst (cached_hash n)) = 32"
  shows "decode_node (encode_ext p n) = Some (Ext p (HashNode (fst (cached_hash n))) clean_meta)"
  using assms
  by (simp add: decode_node_def encode_ext_def decode_extension_def Let_def be2)

lemma chunks32_concat:
  "\<forall>h \<in> set hs. length h = 32 \<Longrightarrow> chunks32 (length hs) (concat hs) = hs"
  by (induction hs) auto

lemma length_concat32: "\<forall>h \<in> set hs. length h = 32 \<Longrightarrow> length (concat hs) = length hs * 32"
  by (induction hs) auto

definition slot_of :: "node option \<Rightarrow> node option" where
  "slot_of c = (if child_hash c \<noteq> empty_node_hash then Some (HashNode (child_hash c)) else None)"

lemma decode_encode_branch:
  assumes "length ch = 16" "\<forall>c \<in> set ch. length (child_hash c) = 32"
    and "\<forall>b. v = Some b \<longrightarrow> length b < 2 ^ 32"
  shows "decode_node (encode_branch ch v) = Some (Branch (map slot_of ch) v clean_meta)"
proof -
  let ?d = "concat (map child_hash ch)"
  have c: "chunks32 16 ?d = map child_hash ch"
    using chunks32_concat [of "map child_hash ch"] assms(1,2) by simp
  have l: "length ?d = 512"
    using length_concat32 [of "map child_hash ch"] assms(1,2) by simp
  have d: "decode_children ?d = map slot_of ch"
    by (simp add: decode_children_def c slot_of_def)
  show ?thesis
  proof (cases v)
    case None
    with l d show ?thesis by (simp add: decode_node_def encode_branch_def decode_branch_def)
  next
    case (Some b)
    with assms(3) l d show ?thesis
      by (simp add: decode_node_def encode_branch_def decode_branch_def Let_def be4)
  qed
qed

section \<open>Nodes that can be stored\<close>

text \<open>
  In memory, not yet committed, with path and value lengths that fit the two- and four-byte
  length fields, and no leaf that stores \<open>nil\<close>.
\<close>

definition to_commit :: "node_meta \<Rightarrow> bool" where
  "to_commit m \<longleftrightarrow> dirtyFlag m \<or> \<not> hashValid m"

definition value_fits :: "gobytes \<Rightarrow> bool" where
  "value_fits v = (case v of None \<Rightarrow> True | Some b \<Rightarrow> length b < 2 ^ 32)"

fun storable :: "node \<Rightarrow> bool" where
  "storable NilNode = True"
| "storable (HashNode _) = False"
| "storable (Leaf s v m) = (to_commit m \<and> length s < 65536 \<and> v \<noteq> None \<and> value_fits v)"
| "storable (Ext p n m) = (to_commit m \<and> length p < 65536 \<and> storable n)"
| "storable (Branch ch v m) =
     (to_commit m \<and> value_fits v \<and> (\<forall>c \<in> set ch. \<forall>n \<in> set_option c. storable n))"

lemma storable_look: "storable n \<Longrightarrow> wf_node n \<Longrightarrow> list_all nibble k \<Longrightarrow> look f db n k = look f db' n k"
proof (induction f db n k rule: look.induct)
  case (5 f db p n m key)
  then show ?case by simp
next
  case (6 f db ch v m key)
  show ?case
  proof (cases key)
    case (Cons b key')
    show ?thesis
    proof (cases "ch ! unat b")
      case (Some c)
      with Cons 6 have "Some c \<in> set ch" by (metis list.pred_inject(2) nibble_index nth_mem wf_node.simps(5))
      with Some Cons 6 show ?thesis by auto
    qed (simp add: Cons)
  qed simp
qed auto

lemma storable_lookup:
  "storable n \<Longrightarrow> wf_node n \<Longrightarrow> list_all nibble k \<Longrightarrow> lookup db n k = lookup db' n k"
  using storable_look [of n k _ db db'] by (simp add: lookup_def)

section \<open>Commit\<close>

definition written :: "writes \<Rightarrow> store \<Rightarrow> bool" where
  "written w st \<longleftrightarrow> (\<forall>(h, b) \<in> set w. st h = Some b \<and> h \<noteq> empty_node_hash)"

lemma written_append [simp]: "written (v @ w) st \<longleftrightarrow> written v st \<and> written w st"
  by (auto simp: written_def)

lemma written_Cons [simp]:
  "written ((h, b) # w) st \<longleftrightarrow> st h = Some b \<and> h \<noteq> empty_node_hash \<and> written w st"
  by (auto simp: written_def)

lemma written_Nil [simp]: "written [] st"
  by (simp add: written_def)

lemma get_written: "st h = Some b \<Longrightarrow> h \<noteq> empty_node_hash \<Longrightarrow> get_node st h = decode_node b"
  by (simp add: get_node_def)

lemma length_empty_node_hash [simp]: "length empty_node_hash = 32"
  by (simp add: empty_node_hash_def)

lemma lookup_empty_hash: "db_ok (get_node st) \<Longrightarrow> list_all nibble k \<Longrightarrow>
    lookup (get_node st) (HashNode empty_node_hash) k = None"
  by (simp add: lookup_HashNode get_node_def)

definition slot_lookup :: "nodedb \<Rightarrow> node option \<Rightarrow> byte list \<Rightarrow> gobytes" where
  "slot_lookup db c k = (case c of None \<Rightarrow> None | Some n \<Rightarrow> lookup db n k)"

lemma slot_of_lookup:
  assumes "db_ok (get_node st)" "list_all nibble k"
  shows "slot_lookup (get_node st) (slot_of c) k = lookup (get_node st) (HashNode (child_hash c)) k"
  using lookup_empty_hash [OF assms] by (simp add: slot_lookup_def slot_of_def)

definition hash32 :: "(byte list \<Rightarrow> hash) \<Rightarrow> bool" where
  "hash32 sha \<longleftrightarrow> (\<forall>x. length (sha x) = 32)"

lemma commit_node_lookup:
  assumes ok: "db_ok (get_node st)"
  shows "hash32 sha \<Longrightarrow> storable n \<Longrightarrow> wf_node n \<Longrightarrow> commit_node sha n = (h, n', w) \<Longrightarrow> written w st \<Longrightarrow>
      length h = 32 \<and> cached_hash n' = (h, True) \<and>
      (\<forall>k. list_all nibble k \<longrightarrow> lookup (get_node st) (HashNode h) k = lookup (get_node st) n k)"
    and "hash32 sha \<Longrightarrow> \<forall>c \<in> set ch. \<forall>n \<in> set_option c. storable n \<and> wf_node n \<Longrightarrow>
      commit_children sha ch = (ch', w) \<Longrightarrow> written w st \<Longrightarrow>
      length ch' = length ch \<and> (\<forall>c \<in> set ch'. length (child_hash c) = 32) \<and>
      (\<forall>i < length ch. \<forall>k. list_all nibble k \<longrightarrow>
         lookup (get_node st) (HashNode (child_hash (ch' ! i))) k = slot_lookup (get_node st) (ch ! i) k)"
proof (induction sha n and sha ch arbitrary: h n' w and ch' w rule: commit_node_commit_children.induct)
  case (1 sha)
  then show ?case using ok by (auto simp: lookup_empty_hash)
next
  case (3 sha s v m)
  then obtain b where v: "v = Some b" "length b < 2 ^ 32" by (auto simp: value_fits_def)
  with 3 have "h = sha (encode_leaf s v)" "n' = Leaf s v (committed_meta h)" "w = [(h, encode_leaf s v)]"
    by (auto simp: to_commit_def Let_def)
  with 3 v show ?case
    using decode_encode_leaf [of s b] ok
    by (auto simp: lookup_HashNode get_written committed_meta_def hash32_def)
next
  case (4 sha p n m)
  obtain h1 n1 w1 where c: "commit_node sha n = (h1, n1, w1)" by (metis prod_cases3)
  let ?e = "encode_ext p n1"
  from 4 c have w: "h = sha ?e" "n' = Ext p n1 (committed_meta h)" "w = w1 @ [(h, ?e)]"
    by (auto simp: to_commit_def Let_def)
  with 4 c have IH: "length h1 = 32" "cached_hash n1 = (h1, True)"
    "\<And>k. list_all nibble k \<Longrightarrow> lookup (get_node st) (HashNode h1) k = lookup (get_node st) n k"
    by auto
  have g: "get_node st h = Some (Ext p (HashNode h1) clean_meta)"
    using 4 w IH decode_encode_ext [of p n1] by (simp add: get_written)
  have "lookup (get_node st) (HashNode h) k = lookup (get_node st) (Ext p n m) k"
    if k: "list_all nibble k" for k
    using 4(4) k IH(3) ok by (auto simp: lookup_HashNode [OF ok k] g lookup_Ext [OF ok _ k])
  with w 4(2) show ?case by (simp add: committed_meta_def hash32_def)
next
  case (5 sha ch v m)
  obtain ch1 w1 where c: "commit_children sha ch = (ch1, w1)" by force
  let ?e = "encode_branch ch1 v"
  from 5 c have w: "h = sha ?e" "n' = Branch ch1 v (committed_meta h)" "w = w1 @ [(h, ?e)]"
    by (auto simp: to_commit_def Let_def)
  from 5 have "\<forall>c \<in> set ch. \<forall>n \<in> set_option c. storable n \<and> wf_node n" by auto
  with 5 c w have IH: "length ch1 = 16" "\<forall>c \<in> set ch1. length (child_hash c) = 32"
    "\<And>i k. i < 16 \<Longrightarrow> list_all nibble k \<Longrightarrow>
       lookup (get_node st) (HashNode (child_hash (ch1 ! i))) k = slot_lookup (get_node st) (ch ! i) k"
    by auto
  have g: "get_node st h = Some (Branch (map slot_of ch1) v clean_meta)"
    using 5 w IH decode_encode_branch [of ch1 v] by (auto simp: get_written value_fits_def split: option.splits)
  have wf: "wf_node (Branch (map slot_of ch1) v clean_meta)"
    using ok g by (auto dest: db_okD)
  have "lookup (get_node st) (HashNode h) k = lookup (get_node st) (Branch ch v m) k"
    if k: "list_all nibble k" for k
  proof (cases k)
    case Nil
    then show ?thesis by (simp add: lookup_HashNode [OF ok, of "[]"] g)
  next
    case (Cons b k')
    with k have b: "unat b < 16" "list_all nibble k'" by (auto dest: nibble_index)
    show ?thesis
      using IH(1) IH(3) [OF b] slot_of_lookup [OF ok b(2)] b lookup_Branch [OF ok wf k]
      unfolding lookup_HashNode [OF ok k] g lookup_Branch [OF ok 5(4) k]
      by (simp add: Cons slot_lookup_def)
  qed
  with w 5(2) show ?case by (simp add: committed_meta_def hash32_def)
next
  case (7 sha cs)
  then show ?case using ok
    by (fastforce simp: child_hash_def lookup_empty_hash slot_lookup_def less_Suc_eq_0_disj
        split: prod.splits)
next
  case (8 sha c cs)
  obtain cs' w' where cs: "commit_children sha cs = (cs', w')" by force
  show ?case
  proof (cases "kind c = KindNil")
    case True
    with 8 cs have "ch' = Some c # cs'" "w = w'" by auto
    with 8 cs True show ?thesis using ok
      by (fastforce simp: child_hash_def lookup_empty_hash slot_lookup_def less_Suc_eq_0_disj)
  next
    case False
    obtain h1 c1 w1 where c: "commit_node sha c = (h1, c1, w1)" by (metis prod_cases3)
    from 8 False c cs have IH1: "written w1 st \<Longrightarrow> length h1 = 32" "written w1 st \<Longrightarrow> cached_hash c1 = (h1, True)"
      "\<And>k. written w1 st \<Longrightarrow> list_all nibble k \<Longrightarrow> lookup (get_node st) (HashNode h1) k = lookup (get_node st) c k"
      by auto
    have "w = w1 @ w'" using 8(6) False c cs by (auto split: prod.splits)
    with 8(7) have wr: "written w1 st" "written w' st" by auto
    with 8(6) False c cs IH1 wr have "ch' = Some (HashNode h1) # cs'" by auto
    with 8 False c cs IH1 wr show ?thesis
      by (fastforce simp: child_hash_def slot_lookup_def less_Suc_eq_0_disj)
  qed
qed auto

definition good_blob :: "(byte list \<Rightarrow> hash) \<Rightarrow> hash \<times> byte list \<Rightarrow> bool" where
  "good_blob sha w \<longleftrightarrow> fst w = sha (snd w) \<and>
     (\<exists>r. decode_node (snd w) = Some r \<and> wf_node r \<and> kind r \<noteq> KindHash)"

lemma wf_slot_of: "\<forall>c \<in> set (map slot_of ch). \<forall>n \<in> set_option c. wf_node n"
  by (auto simp: slot_of_def)

lemma commit_node_blobs:
  shows "hash32 sha \<Longrightarrow> storable n \<Longrightarrow> wf_node n \<Longrightarrow> commit_node sha n = (h, n', w) \<Longrightarrow>
      length h = 32 \<and> cached_hash n' = (h, True) \<and> (\<forall>x \<in> set w. good_blob sha x)"
    and "hash32 sha \<Longrightarrow> \<forall>c \<in> set ch. \<forall>n \<in> set_option c. storable n \<and> wf_node n \<Longrightarrow>
      commit_children sha ch = (ch', w) \<Longrightarrow>
      length ch' = length ch \<and> (\<forall>c \<in> set ch'. length (child_hash c) = 32) \<and>
      (\<forall>x \<in> set w. good_blob sha x)"
proof (induction sha n and sha ch arbitrary: h n' w and ch' w rule: commit_node_commit_children.induct)
  case (3 sha s v m)
  then obtain b where v: "v = Some b" "length b < 2 ^ 32" by (auto simp: value_fits_def)
  with 3 have "h = sha (encode_leaf s v)" "n' = Leaf s v (committed_meta h)" "w = [(h, encode_leaf s v)]"
    by (auto simp: to_commit_def Let_def)
  with 3 v show ?case
    using decode_encode_leaf [of s b]
    by (auto simp: committed_meta_def hash32_def good_blob_def)
next
  case (4 sha p n m)
  obtain h1 n1 w1 where c: "commit_node sha n = (h1, n1, w1)" by (metis prod_cases3)
  from 4 c have w: "h = sha (encode_ext p n1)" "n' = Ext p n1 (committed_meta h)"
    "w = w1 @ [(h, encode_ext p n1)]" by (auto simp: to_commit_def Let_def)
  with 4 c have "length h1 = 32" "cached_hash n1 = (h1, True)" "\<forall>x \<in> set w1. good_blob sha x" by auto
  with 4 w decode_encode_ext [of p n1] show ?case
    by (auto simp: committed_meta_def hash32_def good_blob_def)
next
  case (5 sha ch v m)
  obtain ch1 w1 where c: "commit_children sha ch = (ch1, w1)" by force
  from 5 c have w: "h = sha (encode_branch ch1 v)" "n' = Branch ch1 v (committed_meta h)"
    "w = w1 @ [(h, encode_branch ch1 v)]" by (auto simp: to_commit_def Let_def)
  from 5 have "\<forall>c \<in> set ch. \<forall>n \<in> set_option c. storable n \<and> wf_node n" by auto
  with 5 c w have IH: "length ch1 = 16" "\<forall>c \<in> set ch1. length (child_hash c) = 32"
    "\<forall>x \<in> set w1. good_blob sha x" by auto
  have "decode_node (encode_branch ch1 v) = Some (Branch (map slot_of ch1) v clean_meta)"
    using 5 IH by (intro decode_encode_branch) (auto simp: value_fits_def)
  with 5(2) w IH show ?case
    using wf_slot_of [of ch1] by (auto simp: committed_meta_def hash32_def good_blob_def)
next
  case (7 sha cs)
  then show ?case by (auto simp: child_hash_def split: prod.splits)
next
  case (8 sha c cs)
  obtain cs' w' where cs: "commit_children sha cs = (cs', w')" by force
  show ?case
  proof (cases "kind c = KindNil")
    case True
    with 8 cs show ?thesis by (auto simp: child_hash_def)
  next
    case False
    obtain h1 c1 w1 where c: "commit_node sha c = (h1, c1, w1)" by (metis prod_cases3)
    from 8 False c cs have IH1: "length h1 = 32" "cached_hash c1 = (h1, True)"
      "\<forall>x \<in> set w1. good_blob sha x" by auto
    with 8(6) False c cs have "w = w1 @ w'" "ch' = Some (HashNode h1) # cs'" by auto
    with 8 False c cs IH1 show ?thesis by (auto simp: child_hash_def)
  qed
qed auto

lemma store_writes_snoc: "store_writes (w @ [(h, b)]) st = (store_writes w st)(h \<mapsto> b)"
  by (simp add: store_writes_def)

lemma store_writes_Nil [simp]: "store_writes [] st = st"
  by (simp add: store_writes_def)

lemma store_writes_old: "h \<notin> fst ` set w \<Longrightarrow> store_writes w st h = st h"
  by (induction w rule: rev_induct) (auto simp: store_writes_snoc)

lemma store_writes_new:
  "\<forall>x \<in> set w. fst x = sha (snd x) \<Longrightarrow> inj_on sha (snd ` set w) \<Longrightarrow> (h, b) \<in> set w \<Longrightarrow>
    store_writes w st h = Some b"
proof (induction w rule: rev_induct)
  case (snoc x w)
  obtain h0 b0 where x: "x = (h0, b0)" by force
  show ?case
  proof (cases "h = h0")
    case True
    with snoc.prems x have "sha b = sha b0" "b \<in> snd ` set (w @ [x])" "b0 \<in> snd ` set (w @ [x])"
      by force+
    with snoc.prems(2) have "b = b0" by (blast dest: inj_onD)
    with True x show ?thesis by (simp add: store_writes_snoc)
  next
    case False
    with snoc x have "store_writes w st h = Some b" by (auto intro: inj_on_subset)
    with False x show ?thesis by (simp add: store_writes_snoc)
  qed
qed simp

lemma get_node_new: "get_node (store_writes w st) h = Some r \<Longrightarrow>
    \<forall>x \<in> set w. good_blob sha x \<Longrightarrow> inj_on sha (snd ` set w) \<Longrightarrow> db_ok (get_node st) \<Longrightarrow>
    wf_node r \<and> kind r \<noteq> KindHash"
proof (cases "h \<in> fst ` set w \<and> h \<noteq> empty_node_hash")
  case True
  assume a: "get_node (store_writes w st) h = Some r" "\<forall>x \<in> set w. good_blob sha x" "inj_on sha (snd ` set w)"
  from True obtain b where b: "(h, b) \<in> set w" by force
  with a store_writes_new [of w sha h b st] have "store_writes w st h = Some b"
    by (auto simp: good_blob_def)
  with a True have "decode_node b = Some r" by (simp add: get_node_def)
  with a b show ?thesis by (force simp: good_blob_def)
next
  case False
  assume "get_node (store_writes w st) h = Some r" "db_ok (get_node st)"
  moreover from False have "get_node (store_writes w st) h = get_node st h"
    by (auto simp: get_node_def store_writes_old)
  ultimately show ?thesis by (auto dest: db_okD)
qed

lemma commit_readable:
  assumes "wf_node (root t)" "storable (root t)" "trie_dirty t"
    and "hash32 sha" "db_ok (get_node st)"
    and "inj_on sha (snd ` set (snd (snd (commit_node sha (root t)))))"
    and "\<forall>b \<in> snd ` set (snd (snd (commit_node sha (root t)))). sha b \<noteq> empty_node_hash"
    and "trie_commit sha st t = (h, t', st')"
  shows "trie_value (get_node st', new_trie h) key = trie_value (get_node st, t) key"
proof -
  obtain n' w where c: "commit_node sha (root t) = (h, n', w)" and st': "st' = store_writes w st"
    using assms(3,8) by (auto simp: trie_commit_def split: prod.splits)
  have good: "\<forall>x \<in> set w. good_blob sha x"
    using commit_node_blobs(1) [OF assms(4,2,1) c] by blast
  have inj: "inj_on sha (snd ` set w)" and nz: "\<forall>b \<in> snd ` set w. sha b \<noteq> empty_node_hash"
    using assms(6,7) c by simp_all
  have ok: "db_ok (get_node st')"
    unfolding db_ok_def st' using get_node_new [OF _ good inj assms(5)] by blast
  have "written w st'"
    unfolding written_def st' using store_writes_new [of w sha] good inj nz
    by (force simp: good_blob_def)
  from commit_node_lookup(1) [OF ok assms(4,2,1) c this]
  have "lookup (get_node st') (HashNode h) (key_to_nibbles key) = lookup (get_node st') (root t) (key_to_nibbles key)"
    by simp
  moreover have "lookup (get_node st') (root (new_trie h)) k = lookup (get_node st') (HashNode h) k"
    if "list_all nibble k" for k
    using lookup_empty_hash [OF ok that] by (simp add: new_trie_def)
  ultimately show ?thesis
    using storable_lookup [OF assms(2,1), of "key_to_nibbles key" "get_node st'" "get_node st"]
    by (simp add: trie_value_def)
qed

section \<open>Property\<close>

text \<open>
  What \<open>Commit\<close> writes can be read back. A trie built in memory whose paths and values fit
  the length fields is committed into any store of decodable nodes; if the hash function does
  not collide on the encodings written (nor hit the all-zero hash), then a new trie opened on
  the returned root hash shows, for every key, the value the committed trie had.
\<close>

theorem commit_persists:
  assumes "wf_node (root t)" "storable (root t)" "trie_dirty t"
    and "hash32 sha" "db_ok (get_node st)"
    and "inj_on sha (snd ` set (snd (snd (commit_node sha (root t)))))"
    and "\<forall>b \<in> snd ` set (snd (snd (commit_node sha (root t)))). sha b \<noteq> empty_node_hash"
    and "trie_commit sha st t = (h, t', st')"
  shows "trie_value (get_node st', new_trie h) key = trie_value (get_node st, t) key"
  using assms by (rule commit_readable)

theorem commit_persists_witness:
  "\<exists>h t' st'. trie_commit (\<lambda>_. replicate 32 1) Map.empty
       \<lparr>root = Leaf [1, 2] (Some [7]) fresh_meta, trie_dirty = True\<rparr> = (h, t', st') \<and>
     trie_value (get_node st', new_trie h) [0x12] = Some [7]"
proof -
  let ?t = "\<lparr>root = Leaf [1, 2] (Some [7]) fresh_meta, trie_dirty = True\<rparr>"
  let ?sha = "\<lambda>_::byte list. replicate 32 (1::byte)"
  obtain h t' st' where c: "trie_commit ?sha Map.empty ?t = (h, t', st')" by (metis prod_cases3)
  have w: "snd (snd (commit_node ?sha (root ?t))) = [(replicate 32 1, encode_leaf [1, 2] (Some [7]))]"
    by (simp add: fresh_meta_def Let_def)
  have db: "db_ok (get_node Map.empty)"
    by (auto simp: db_ok_def get_node_def)
  have wf: "wf_node (root ?t)" by (simp add: nibble_def)
  have st: "storable (root ?t)" by (simp add: value_fits_def fresh_meta_def to_commit_def)
  have "trie_value (get_node st', new_trie h) [0x12] = trie_value (get_node Map.empty, ?t) [0x12]"
    using w by (intro commit_persists [OF wf st _ _ db _ _ c])
      (auto simp: hash32_def empty_node_hash_def)
  with c show ?thesis by (auto simp: trie_value_def)
qed

end
