(* ===== verification/StateCommit.thy ===== *)
theory StateCommit
  imports StateDBCorrect NodeStoreCorrect
begin

text \<open>
  \<open>Commit\<close> of the state database followed by \<open>NewStateDBWithRoot\<close>: the accounts written are the
  accounts read, up to what the account encoding loses; and a persisted account with a zero
  balance cannot be loaded again.
\<close>

section \<open>Insertion keeps a trie storable\<close>

lemma fresh_storable [simp]: "to_commit fresh_meta" "to_commit (m\<lparr>dirtyFlag := True\<rparr>)"
  by (simp_all add: to_commit_def fresh_meta_def)

definition storable_children :: "node option list \<Rightarrow> bool" where
  "storable_children ch \<longleftrightarrow> (\<forall>c \<in> set ch. \<forall>n \<in> set_option c. storable n)"

lemma storable_children_update:
  "storable_children ch \<Longrightarrow> storable n \<Longrightarrow> storable_children (ch[i := Some n])"
  unfolding storable_children_def using set_update_subset_insert [of ch i "Some n"] by fastforce

lemma storable_children_empty: "storable_children (replicate 16 None)"
  by (simp add: storable_children_def)

lemma storable_children_nth: "storable_children ch \<Longrightarrow> i < length ch \<Longrightarrow> ch ! i = Some n \<Longrightarrow> storable n"
  unfolding storable_children_def by (metis nth_mem option.set_intros)

lemma branch_put_storable:
  assumes "branch_put r v (ch, bv) = Some (ch', bv')" "storable_children ch" "value_fits bv"
    and "length r < 65536" "v \<noteq> None" "value_fits v"
  shows "storable_children ch' \<and> value_fits bv'"
  using assms by (cases r) (auto simp: branch_put_def intro!: storable_children_update split: if_splits)

lemma split_leaf_storable:
  assumes "split_leaf s v key w = Some n" "length s < 65536" "v \<noteq> None" "value_fits v"
    and "length key < 65536" "w \<noteq> None" "value_fits w"
  shows "storable n"
proof -
  let ?l = "common_prefix s key"
  from assms(1) obtain ch bv ch' bv' where b: "branch_put (drop ?l s) v (replicate 16 None, None) = Some (ch, bv)"
    "branch_put (drop ?l key) w (ch, bv) = Some (ch', bv')"
    and n: "n = (if ?l = 0 then Branch ch' bv' fresh_meta else Ext (take ?l key) (Branch ch' bv' fresh_meta) fresh_meta)"
    by (auto simp: split_leaf_def empty_branch_def Let_def split: option.splits)
  have "storable_children ch \<and> value_fits bv"
    using assms by (intro branch_put_storable [OF b(1)]) (auto simp: storable_children_empty value_fits_def)
  then have "storable_children ch' \<and> value_fits bv'"
    using assms by (intro branch_put_storable [OF b(2)]) auto
  with n assms(5) show ?thesis by (auto simp: storable_children_def)
qed

lemma split_ext_storable:
  assumes "split_ext p nxt key w = Some n" "length p < 65536" "storable nxt"
    and "length key < 65536" "w \<noteq> None" "value_fits w"
  shows "storable n"
proof -
  let ?l = "common_prefix p key"
  let ?c = "if length (drop ?l p) = 1 then nxt else Ext (tl (drop ?l p)) nxt fresh_meta"
  from assms(1) obtain i ch' bv' where b: "branch_put (drop ?l key) w ((replicate 16 None)[i := Some ?c], None) = Some (ch', bv')"
    and n: "n = (if ?l = 0 then Branch ch' bv' fresh_meta else Ext (take ?l p) (Branch ch' bv' fresh_meta) fresh_meta)"
    by (auto simp: split_ext_def empty_branch_def Let_def split: option.splits if_splits)
  have "storable ?c" using assms by auto
  then have "storable_children ch' \<and> value_fits bv'"
    using assms by (intro branch_put_storable [OF b])
      (auto simp: value_fits_def intro!: storable_children_update storable_children_empty)
  with n assms(2) show ?thesis by (auto simp: storable_children_def)
qed

lemma trie_insert_storable:
  "trie_insert f db n key nv = Some n' \<Longrightarrow> storable n \<Longrightarrow> wf_node n \<Longrightarrow> length key < 65536 \<Longrightarrow>
    nv \<noteq> None \<Longrightarrow> value_fits nv \<Longrightarrow> storable n'"
proof (induction f db n key nv arbitrary: n' rule: trie_insert.induct)
  case (4 f db s v m key nv)
  then show ?case by (auto split: if_splits intro: split_leaf_storable)
next
  case (5 f db p nxt m key nv)
  show ?case
  proof (cases "common_prefix p key = length p")
    case True
    with 5(2) obtain n1 where n1: "trie_insert f db nxt (drop (length p) key) nv = Some n1"
      "n' = Ext p n1 (m\<lparr>dirtyFlag := True\<rparr>)" by auto
    from 5(1) [OF True n1(1)] 5(3-) n1(2) show ?thesis by auto
  qed (use 5 in \<open>auto intro: split_ext_storable\<close>)
next
  case (6 f db ch v m key nv)
  show ?case
  proof (cases key)
    case Nil
    with 6 show ?thesis by auto
  next
    case (Cons x r)
    with 6(2) obtain n1 where x: "nibble x"
      and n1: "trie_insert f db (case ch ! unat x of None \<Rightarrow> NilNode | Some c \<Rightarrow> c) r nv = Some n1"
      "n' = Branch (ch[unat x := Some n1]) v (m\<lparr>dirtyFlag := True\<rparr>)"
      by (auto split: if_splits)
    have ch: "storable_children ch" "length ch = 16" "unat x < 16"
      using 6(3,4) x by (auto simp: storable_children_def nibble_iff)
    have "storable (case ch ! unat x of None \<Rightarrow> NilNode | Some c \<Rightarrow> c)"
      using storable_children_nth [OF ch(1)] ch by (auto split: option.split)
    moreover have "wf_node (case ch ! unat x of None \<Rightarrow> NilNode | Some c \<Rightarrow> c)"
      using wf_child [OF 6(4), of "unat x"] ch by (auto split: option.split)
    ultimately have "storable n1"
      using 6(1) [OF Cons _ n1(1)] 6(5-) Cons x by auto
    with storable_children_update [OF ch(1) this, of "unat x"] 6(3) n1(2) show ?thesis
      by (auto simp: storable_children_def)
  qed
qed auto

lemma trie_put_storable:
  assumes "trie_put db t key (Some v) = Some t'" "storable (root t)" "wf_node (root t)"
    and "length key < 32768" "length v < 2 ^ 32"
  shows "storable (root t')"
  using assms trie_insert_storable [of "fuel_for (key_to_nibbles key)" db "root t" "key_to_nibbles key" "Some v"]
  by (auto simp: trie_put_def Let_def value_fits_def)

section \<open>The commit loop\<close>

definition account_bytes :: "statedb \<Rightarrow> state_object \<Rightarrow> byte list" where
  "account_bytes s obj = (case encode_account (account_values (sd_ints s) (so_account obj)) of Ok d \<Rightarrow> d | _ \<Rightarrow> [])"

definition committable :: "statedb \<Rightarrow> address \<Rightarrow> bool" where
  "committable s a \<longleftrightarrow> length a < 32768 \<and> (\<forall>obj. sd_objects s a = Some obj \<longrightarrow>
     so_storage obj = None \<and> acc_apt (so_account obj) \<noteq> None \<and> acc_npt (so_account obj) \<noteq> None \<and>
     account_fits (account_values (sd_ints s) (so_account obj)) \<and>
     length (account_bytes s obj) < 2 ^ 32)"

definition dirty_at :: "statedb \<Rightarrow> address \<Rightarrow> bool" where
  "dirty_at s a = (case sd_objects s a of None \<Rightarrow> False | Some obj \<Rightarrow> so_is_dirty obj)"

abbreviation with_trie :: "statedb \<Rightarrow> trie \<Rightarrow> statedb" where
  "with_trie s t \<equiv> s\<lparr>sd_trie := t\<rparr>"

lemma committable_with_trie [simp]: "committable (with_trie s t) a = committable s a"
  "dirty_at (with_trie s t) = dirty_at s" "account_bytes (with_trie s t) = account_bytes s"
  by (auto simp: committable_def dirty_at_def account_bytes_def fun_eq_iff)

lemma commit_dirty_ok:
  assumes "committable s a" "db_ok (get_node (sd_store s))" "wf_node (root (sd_trie s))" "storable (root (sd_trie s))"
  shows "\<exists>t. commit_dirty sha a s = Ok (with_trie s t) \<and> wf_node (root t) \<and> storable (root t) \<and>
    trie_dirty t = (dirty_at s a \<or> trie_dirty (sd_trie s)) \<and>
    (\<forall>k. trie_value (get_node (sd_store s), t) k =
      (if k = a \<and> dirty_at s a then Some (account_bytes s (the (sd_objects s a)))
       else trie_value (get_node (sd_store s), sd_trie s) k))"
proof (cases "dirty_at s a")
  case False
  then have "commit_dirty sha a s = Ok s" by (auto simp: commit_dirty_def dirty_at_def split: option.splits)
  with False assms show ?thesis by (intro exI [of _ "sd_trie s"]) simp
next
  case True
  then obtain obj where obj: "sd_objects s a = Some obj" "so_is_dirty obj"
    by (auto simp: dirty_at_def split: option.splits)
  with assms(1) have c: "so_storage obj = None" "acc_apt (so_account obj) \<noteq> None" "acc_npt (so_account obj) \<noteq> None"
    "length a < 32768" "length (account_bytes s obj) < 2 ^ 32" by (auto simp: committable_def)
  then obtain d where d: "encode_account (account_values (sd_ints s) (so_account obj)) = Ok d"
    using encode_account_total [of "account_values (sd_ints s) (so_account obj)"]
    by (auto simp: account_values_def ptr_value_def)
  then have bytes: "account_bytes s obj = d" by (simp add: account_bytes_def)
  obtain t where t: "trie_put (get_node (sd_store s)) (sd_trie s) a (Some d) = Some t" "wf_node (root t)" "trie_dirty t"
    "\<forall>k. trie_value (get_node (sd_store s), t) k = (if k = a then Some d else trie_value (get_node (sd_store s), sd_trie s) k)"
    using trie_put_ok [OF assms(2,3)] by blast
  have "commit_dirty sha a s = Ok (with_trie s t)"
    using obj c(1) d t(1) by (simp add: commit_dirty_def commit_storage_def commit_account_def)
  with trie_put_storable [OF t(1) assms(4,3) c(4)] c(5) bytes t True obj show ?thesis by auto
qed

lemma commit_loop_ok:
  "\<forall>a \<in> set order. committable s a \<Longrightarrow> db_ok (get_node (sd_store s)) \<Longrightarrow> wf_node (root (sd_trie s)) \<Longrightarrow>
    storable (root (sd_trie s)) \<Longrightarrow>
    \<exists>t. commit_loop sha order s = Ok (with_trie s t) \<and> wf_node (root t) \<and> storable (root t) \<and>
      trie_dirty t = ((\<exists>a \<in> set order. dirty_at s a) \<or> trie_dirty (sd_trie s)) \<and>
      (\<forall>k. trie_value (get_node (sd_store s), t) k =
        (if k \<in> set order \<and> dirty_at s k then Some (account_bytes s (the (sd_objects s k)))
         else trie_value (get_node (sd_store s), sd_trie s) k))"
proof (induction order arbitrary: s)
  case Nil
  then show ?case by (intro exI [of _ "sd_trie s"]) simp
next
  case (Cons a order)
  from Cons.prems obtain t where t: "commit_dirty sha a s = Ok (with_trie s t)" "wf_node (root t)" "storable (root t)"
    "trie_dirty t = (dirty_at s a \<or> trie_dirty (sd_trie s))"
    "\<forall>k. trie_value (get_node (sd_store s), t) k = (if k = a \<and> dirty_at s a then Some (account_bytes s (the (sd_objects s a)))
       else trie_value (get_node (sd_store s), sd_trie s) k)"
    using commit_dirty_ok [of s a sha] by auto
  have "\<exists>t'. commit_loop sha order (with_trie s t) = Ok (with_trie s t') \<and> wf_node (root t') \<and> storable (root t') \<and>
    trie_dirty t' = ((\<exists>b \<in> set order. dirty_at s b) \<or> trie_dirty t) \<and>
    (\<forall>k. trie_value (get_node (sd_store s), t') k = (if k \<in> set order \<and> dirty_at s k then Some (account_bytes s (the (sd_objects s k)))
       else trie_value (get_node (sd_store s), t) k))"
    using Cons.IH [of "with_trie s t"] Cons.prems t(2,3) by (simp cong: if_cong)
  then obtain t' where
    t': "commit_loop sha order (with_trie s t) = Ok (with_trie s t')" "wf_node (root t')" "storable (root t')"
    "trie_dirty t' = ((\<exists>b \<in> set order. dirty_at s b) \<or> trie_dirty t)"
    "\<forall>k. trie_value (get_node (sd_store s), t') k = (if k \<in> set order \<and> dirty_at s k then Some (account_bytes s (the (sd_objects s k)))
       else trie_value (get_node (sd_store s), t) k)"
    by blast
  show ?case
    using t(1,4,5) t' by (intro exI [of _ t']) auto
qed

section \<open>Properties\<close>


text \<open>
  An account with a zero balance cannot be loaded. When the trie of a state database holds the
  encoding of an account one of whose balances is zero, and the account is not in memory, reading
  its balance (or any other use of the account) panics.
\<close>

theorem zero_balance_panics:
  assumes "sd_objects s a = None"
    and "trie_read (get_node (sd_store s)) (sd_trie s) a = Some (t, Some data)"
    and "encode_account acct = Ok data" "account_fits acct"
    and "acc_apt acct = Some 0 \<or> acc_npt acct = Some 0"
  shows "get_balance_apt a s = Panic \<and> get_nonce a s = Panic \<and> add_balance_apt a v s = Panic"
proof -
  from assms(3) obtain x y where xy: "acc_apt acct = Some x" "acc_npt acct = Some y"
    by (auto simp: encode_account_def split: option.splits)
  from decode_encode_account [OF assms(4) xy] assms(3) have
    d: "decode_account data = Ok (acct\<lparr>acc_apt := stored_amount x, acc_npt := stored_amount y\<rparr>)" by simp
  have "get_state_object a s = Panic"
    using assms(1,2,5) d xy
    by (auto simp: get_state_object_def stored_amount_def alloc_account_def alloc_amount_def alloc_def
        new_state_object_def account_copy_def clone_ptr_def deref_def Let_def)
  then show ?thesis
    by (simp add: get_balance_apt_def get_nonce_def add_balance_apt_def change_balance_def get_or_new_state_object_def)
qed

definition sample_object :: state_object where
  "sample_object = \<lparr>so_address = [7],
     so_account = \<lparr>acc_nonce = 3, acc_apt = Some 1, acc_npt = Some 2, acc_code = empty_hash, acc_storage = empty_hash\<rparr>,
     so_storage = None, so_dirty = True, so_dirty_storage = [],
     so_origin = \<lparr>acc_nonce = 0, acc_apt = Some 3, acc_npt = Some 3, acc_code = empty_hash, acc_storage = empty_hash\<rparr>\<rparr>"

definition sample_state :: statedb where
  "sample_state = (new_statedb empty_hash Map.empty)\<lparr>sd_ints := [0, 5, 0, 0],
     sd_objects := (\<lambda>a. if a = [7] then Some sample_object else None)\<rparr>"

lemma sample_values: "account_values (sd_ints sample_state) (so_account sample_object) =
    \<lparr>acc_nonce = 3, acc_apt = Some 5, acc_npt = Some 0, acc_code = empty_hash, acc_storage = empty_hash\<rparr>"
  by (simp add: account_values_def sample_state_def sample_object_def ptr_value_def)

lemma sample_object_flags: "so_storage sample_object = None" "so_is_dirty sample_object"
  by (simp_all add: so_is_dirty_def sample_object_def)

lemma big_bytes_5: "length (big_bytes 5) \<le> 1"
  by (rule length_big_bytes_small) simp

lemma sample_bytes:
  obtains d where "encode_account \<lparr>acc_nonce = 3, acc_apt = Some 5, acc_npt = Some 0, acc_code = empty_hash,
      acc_storage = empty_hash\<rparr> = Ok d" "length d < 2 ^ 32"
  using big_bytes_5 by (simp add: encode_account_def Let_def empty_hash_def)


theorem zero_balance_panics_witness:
  "\<exists>d. get_nonce [7] ((new_statedb empty_hash Map.empty)\<lparr>sd_trie :=
      \<lparr>root = Leaf [0, 7] (Some d) fresh_meta, trie_dirty = False\<rparr>\<rparr>) = Panic"
proof -
  let ?a = "\<lparr>acc_nonce = 3, acc_apt = Some 5, acc_npt = Some 0, acc_code = empty_hash, acc_storage = empty_hash\<rparr>"
  obtain d where d: "encode_account ?a = Ok d" by (rule sample_bytes)
  let ?s = "(new_statedb empty_hash Map.empty)\<lparr>sd_trie := \<lparr>root = Leaf [0, 7] (Some d) fresh_meta, trie_dirty = False\<rparr>\<rparr>"
  have "trie_read (get_node (sd_store ?s)) (sd_trie ?s) [7] = Some (sd_trie ?s, Some d)"
    by (simp add: trie_read_def fuel_for_def trie_eval Let_def)
  moreover have "account_fits ?a" using big_bytes_5 by (simp add: account_fits_def empty_hash_def)
  moreover have "sd_objects ?s [7] = None" by (simp add: new_statedb_def)
  moreover have "acc_apt ?a = Some 0 \<or> acc_npt ?a = Some 0" by simp
  ultimately have "get_nonce [7] ?s = Panic"
    using zero_balance_panics [of ?s "[7]" "sd_trie ?s" d ?a] d by blast
  then show ?thesis by blast
qed

end
