(* ===== verification/TokenProps.thy ===== *)
theory TokenProps
  imports Token StateDBProps StateCommit
begin

text \<open>
  The properties of the token operations: transfers move exactly their amount, the base fee stays
  within its rate, rewards halve, the product of the pool reserves never falls, and what
  \<open>AddLiquidity\<close> on an empty pool does to the shared zero amount.
\<close>

section \<open>Reading balances\<close>

text \<open>Two states a client cannot tell apart, the second one meeting the invariant.\<close>

definition quiet :: "statedb \<Rightarrow> statedb \<Rightarrow> bool" where
  "quiet s s' \<longleftrightarrow> sdb_ok s' \<and> same_trie s s' \<and> view_bal s' = view_bal s \<and> view_nonce s' = view_nonce s"

lemma quiet_refl: "sdb_ok s \<Longrightarrow> quiet s s"
  by (simp add: quiet_def same_trie_def)

lemma quiet_opened: "opened a s obj s1 \<Longrightarrow> quiet s s1"
  by (simp add: quiet_def opened_def)

lemma quiet_error: "sdb_ok s \<Longrightarrow> quiet s (s\<lparr>sd_last_error := e\<rparr>)"
  by (simp add: quiet_def sdb_ok_def settled_def objects_ok_def same_trie_def)

lemma get_balance_ok:
  assumes ok: "sdb_ok s"
  shows "\<exists>p s1. get_balance_apt a s = Ok (p, s1) \<and> quiet s s1 \<and> ptr_value (sd_ints s1) p = Some (view_bal s True a)"
    and "\<exists>p s1. get_balance_npt a s = Ok (p, s1) \<and> quiet s s1 \<and> ptr_value (sd_ints s1) p = Some (view_bal s False a)"
proof -
  have "\<exists>r s1. get_state_object a s = Ok (r, s1) \<and> quiet s s1 \<and>
      (\<forall>k. ptr_value (sd_ints s1) (case r of None \<Rightarrow> zero_ptr | Some obj \<Rightarrow> bal_ptr k obj) = Some (view_bal s k a))"
  proof (cases "known s a")
    case True
    with get_state_object_ok [OF ok, of a] obtain obj s1 where g: "get_state_object a s = Ok (Some obj, s1)"
      and op: "opened a s obj s1" by auto
    have "ptr_value (sd_ints s1) (bal_ptr k obj) = Some (view_bal s k a)" for k
      using bal_ptr_valid [OF openedD(1,6) [OF op], of k] view_bal_object [OF openedD(6) [OF op], of k] openedD(4) [OF op]
      by (metis ptr_value_def option.simps(9) option.sel)
    with g quiet_opened [OF op] show ?thesis by auto
  next
    case False
    with get_state_object_ok [OF ok, of a] obtain e where g: "get_state_object a s = Ok (None, s\<lparr>sd_last_error := e\<rparr>)"
      by auto
    have "view_bal s k a = 0" for k using False by (simp add: known_def view_bal_def)
    with g quiet_error [OF ok] ok show ?thesis
      by (auto simp: ptr_value_def zero_ptr_def sdb_ok_def)
  qed
  then obtain r s1 where r: "get_state_object a s = Ok (r, s1)" "quiet s s1"
    "\<And>k. ptr_value (sd_ints s1) (case r of None \<Rightarrow> zero_ptr | Some obj \<Rightarrow> bal_ptr k obj) = Some (view_bal s k a)"
    by blast
  show "\<exists>p s1. get_balance_apt a s = Ok (p, s1) \<and> quiet s s1 \<and> ptr_value (sd_ints s1) p = Some (view_bal s True a)"
    using r(1,2) r(3) [of True] by (cases r) (auto simp: get_balance_apt_def bal_ptr_def)
  show "\<exists>p s1. get_balance_npt a s = Ok (p, s1) \<and> quiet s s1 \<and> ptr_value (sd_ints s1) p = Some (view_bal s False a)"
    using r(1,2) r(3) [of False] by (cases r) (auto simp: get_balance_npt_def bal_ptr_def)
qed

lemma get_nonce_ok:
  assumes ok: "sdb_ok s"
  shows "\<exists>s1. get_nonce a s = Ok (view_nonce s a, s1) \<and> quiet s s1"
proof (cases "known s a")
  case True
  with get_state_object_ok [OF ok, of a] obtain obj s1 where g: "get_state_object a s = Ok (Some obj, s1)"
    and op: "opened a s obj s1" by auto
  have "view_nonce s1 a = acc_nonce (so_account obj)" using openedD(6) [OF op] by (simp add: view_nonce_def)
  with g quiet_opened [OF op] openedD(5) [OF op] show ?thesis by (simp add: get_nonce_def)
next
  case False
  with get_state_object_ok [OF ok, of a] obtain e where g: "get_state_object a s = Ok (None, s\<lparr>sd_last_error := e\<rparr>)"
    by auto
  with False quiet_error [OF ok] show ?thesis by (simp add: get_nonce_def known_def view_nonce_def)
qed

lemma run_op_moves:
  assumes "sdb_ok s"
  shows "if op_ok x s then \<exists>s2. run_op x s = Ok ((), s2) \<and> sdb_ok s2 \<and> same_trie s s2 \<and>
       sd_objects s2 (op_addr x) \<noteq> None \<and> dom (sd_objects s) \<subseteq> dom (sd_objects s2) \<and>
       (\<forall>k b. view_bal s2 k b = (if b = op_addr x then the (op_bal x k (view_bal s k b)) else view_bal s k b)) \<and>
       (\<forall>b. view_nonce s2 b = (if b = op_addr x then op_nonce x (view_nonce s b) else view_nonce s b))
     else run_op x s = Panic"
proof -
  obtain obj s1 where op: "opened (op_addr x) s obj s1"
    and r: "if op_ok x s then \<exists>s2. run_op x s = Ok ((), s2) \<and> op_done x s1 obj s2 else run_op x s = Panic"
    using run_op_total [OF assms(1), of x] by metis
  show ?thesis
  proof (cases "op_ok x s")
    case True
    with r obtain s2 where s2: "run_op x s = Ok ((), s2)" "op_done x s1 obj s2" by auto
    have "same_trie s s2" using op s2(2) unfolding opened_def op_done_def same_trie_def by simp
    moreover have "dom (sd_objects s2) = insert (op_addr x) (dom (sd_objects s))"
      using s2(2) openedD(3) [OF op] unfolding op_done_def by simp
    ultimately show ?thesis
      using True s2 unfolding op_done_def openedD(4) [OF op] openedD(5) [OF op] by auto
  qed (use r in simp)
qed

section \<open>Burn and transfer\<close>

lemma amount_cmp_Some [simp]: "amount_cmp (Some a) (Some b) = Ok (sgn (a - b))"
  by (simp add: amount_cmp_def)

lemma burn_ok:
  assumes "sdb_ok s" "v \<noteq> 0"
  shows "if view_bal s True from < v then \<exists>s'. burn_apt from (Some v) s = Ok (Inl err_insufficient_apt, s') \<and> quiet s s'
     else \<exists>s'. burn_apt from (Some v) s = Ok (Inr (), s') \<and> sdb_ok s' \<and> same_trie s s' \<and> view_nonce s' = view_nonce s \<and>
       (\<forall>k b. view_bal s' k b = view_bal s k b - (if k \<and> b = from then v else 0))"
    and "if view_bal s False from < v then \<exists>s'. burn_npt from (Some v) s = Ok (Inl err_insufficient_npt, s') \<and> quiet s s'
     else \<exists>s'. burn_npt from (Some v) s = Ok (Inr (), s') \<and> sdb_ok s' \<and> same_trie s s' \<and> view_nonce s' = view_nonce s \<and>
       (\<forall>k b. view_bal s' k b = view_bal s k b - (if \<not> k \<and> b = from then v else 0))"
proof -
  obtain p s1 where g: "get_balance_apt from s = Ok (p, s1)" "quiet s s1" "ptr_value (sd_ints s1) p = Some (view_bal s True from)"
    using get_balance_ok(1) [OF assms(1)] by blast
  have q: "sdb_ok s1" "same_trie s s1" "view_bal s1 = view_bal s" "view_nonce s1 = view_nonce s"
    using g(2) by (simp_all add: quiet_def)
  show "if view_bal s True from < v then \<exists>s'. burn_apt from (Some v) s = Ok (Inl err_insufficient_apt, s') \<and> quiet s s'
     else \<exists>s'. burn_apt from (Some v) s = Ok (Inr (), s') \<and> sdb_ok s' \<and> same_trie s s' \<and> view_nonce s' = view_nonce s \<and>
       (\<forall>k b. view_bal s' k b = view_bal s k b - (if k \<and> b = from then v else 0))"
  proof (cases "view_bal s True from < v")
    case True
    with g assms(2) show ?thesis by (simp add: burn_apt_def amount_is_zero_def sgn_if)
  next
    case False
    then have "op_ok (SubAPT from (Some v)) s1" by (simp add: op_ok_def q)
    with run_op_moves [OF q(1), of "SubAPT from (Some v)"] obtain s2 where s2:
      "sub_balance_apt from (Some v) s1 = Ok ((), s2)" "sdb_ok s2" "same_trie s1 s2"
      "\<forall>k b. view_bal s2 k b = (if b = from then the (op_bal (SubAPT from (Some v)) k (view_bal s1 k b)) else view_bal s1 k b)"
      "\<forall>b. view_nonce s2 b = view_nonce s1 b" by auto
    have "burn_apt from (Some v) s = Ok (Inr (), s2)"
      using g s2(1) False assms(2) by (simp add: burn_apt_def amount_is_zero_def sgn_if ok_call_def)
    with s2 q False show ?thesis by (auto simp: fun_eq_iff same_trie_def)
  qed
  obtain p s1 where g: "get_balance_npt from s = Ok (p, s1)" "quiet s s1" "ptr_value (sd_ints s1) p = Some (view_bal s False from)"
    using get_balance_ok(2) [OF assms(1)] by blast
  have q: "sdb_ok s1" "same_trie s s1" "view_bal s1 = view_bal s" "view_nonce s1 = view_nonce s"
    using g(2) by (simp_all add: quiet_def)
  show "if view_bal s False from < v then \<exists>s'. burn_npt from (Some v) s = Ok (Inl err_insufficient_npt, s') \<and> quiet s s'
     else \<exists>s'. burn_npt from (Some v) s = Ok (Inr (), s') \<and> sdb_ok s' \<and> same_trie s s' \<and> view_nonce s' = view_nonce s \<and>
       (\<forall>k b. view_bal s' k b = view_bal s k b - (if \<not> k \<and> b = from then v else 0))"
  proof (cases "view_bal s False from < v")
    case True
    with g assms(2) show ?thesis by (simp add: burn_npt_def amount_is_zero_def sgn_if)
  next
    case False
    then have "op_ok (SubNPT from (Some v)) s1" by (simp add: op_ok_def q)
    with run_op_moves [OF q(1), of "SubNPT from (Some v)"] obtain s2 where s2:
      "sub_balance_npt from (Some v) s1 = Ok ((), s2)" "sdb_ok s2" "same_trie s1 s2"
      "\<forall>k b. view_bal s2 k b = (if b = from then the (op_bal (SubNPT from (Some v)) k (view_bal s1 k b)) else view_bal s1 k b)"
      "\<forall>b. view_nonce s2 b = view_nonce s1 b" by auto
    have "burn_npt from (Some v) s = Ok (Inr (), s2)"
      using g s2(1) False assms(2) by (simp add: burn_npt_def amount_is_zero_def sgn_if ok_call_def)
    with s2 q False show ?thesis by (auto simp: fun_eq_iff same_trie_def)
  qed
qed

lemma call_bind_simps [simp]:
  "call_bind (Ok (Inl e, s)) f = Ok (Inl e, s)" "call_bind (Ok (Inr a, s)) f = f a s" "call_bind Panic f = Panic"
  by (simp_all add: call_bind_def)

lemma check_then:
  "call_bind (obind g (\<lambda>(p, s1). obind (h p s1) (\<lambda>c. if c < 0 then Ok (Inl e, s1) else ok_call (k s1)))) f =
   obind g (\<lambda>(p, s1). obind (h p s1) (\<lambda>c. if c < (0 :: int) then Ok (Inl e, s1)
     else obind (k s1) (\<lambda>(u, s2). f () s2)))"
  unfolding call_bind_def obind_assoc
  by (intro obind_cong refl) (auto simp: obind_assoc ok_call_def intro!: obind_cong split: prod.splits)

lemma transfer_burn:
  "from \<noteq> to \<Longrightarrow> transfer_apt from to amount s =
     call_bind (burn_apt from amount s) (\<lambda>_ s2. ok_call (add_balance_apt to amount s2))"
  "from \<noteq> to \<Longrightarrow> transfer_npt from to amount s =
     call_bind (burn_npt from amount s) (\<lambda>_ s2. ok_call (add_balance_npt to amount s2))"
  by (simp add: transfer_apt_def transfer_npt_def burn_apt_def burn_npt_def check_then)+

lemma transfer_ok:
  assumes "sdb_ok s" "v \<noteq> 0" "from \<noteq> to"
  shows "if view_bal s True from < v then \<exists>s'. transfer_apt from to (Some v) s = Ok (Inl err_insufficient_apt, s') \<and> quiet s s'
     else \<exists>s'. transfer_apt from to (Some v) s = Ok (Inr (), s') \<and> sdb_ok s' \<and> same_trie s s' \<and> view_nonce s' = view_nonce s \<and>
       (\<forall>k b. view_bal s' k b = view_bal s k b + (if \<not> k then 0 else if b = to then v else if b = from then - v else 0))"
    and "if view_bal s False from < v then \<exists>s'. transfer_npt from to (Some v) s = Ok (Inl err_insufficient_npt, s') \<and> quiet s s'
     else \<exists>s'. transfer_npt from to (Some v) s = Ok (Inr (), s') \<and> sdb_ok s' \<and> same_trie s s' \<and> view_nonce s' = view_nonce s \<and>
       (\<forall>k b. view_bal s' k b = view_bal s k b + (if k then 0 else if b = to then v else if b = from then - v else 0))"
proof -
  show "if view_bal s True from < v then \<exists>s'. transfer_apt from to (Some v) s = Ok (Inl err_insufficient_apt, s') \<and> quiet s s'
     else \<exists>s'. transfer_apt from to (Some v) s = Ok (Inr (), s') \<and> sdb_ok s' \<and> same_trie s s' \<and> view_nonce s' = view_nonce s \<and>
       (\<forall>k b. view_bal s' k b = view_bal s k b + (if \<not> k then 0 else if b = to then v else if b = from then - v else 0))"
  proof (cases "view_bal s True from < v")
    case True
    with burn_ok(1) [OF assms(1,2), of "from"] assms(3) show ?thesis by (auto simp: transfer_burn call_bind_def)
  next
    case False
    with burn_ok(1) [OF assms(1,2), of "from"] obtain s1 where s1: "burn_apt from (Some v) s = Ok (Inr (), s1)"
      "sdb_ok s1" "same_trie s s1" "view_nonce s1 = view_nonce s"
      "\<forall>k b. view_bal s1 k b = view_bal s k b - (if k \<and> b = from then v else 0)" by auto
    have "op_ok (AddAPT to (Some v)) s1" by (simp add: op_ok_def)
    with run_op_moves [OF s1(2), of "AddAPT to (Some v)"] obtain s2 where s2:
      "add_balance_apt to (Some v) s1 = Ok ((), s2)" "sdb_ok s2" "same_trie s1 s2"
      "\<forall>k b. view_bal s2 k b = (if b = to then the (op_bal (AddAPT to (Some v)) k (view_bal s1 k b)) else view_bal s1 k b)"
      "\<forall>b. view_nonce s2 b = view_nonce s1 b" by auto
    have "transfer_apt from to (Some v) s = Ok (Inr (), s2)"
      using s1(1) s2(1) assms(3) by (simp add: transfer_burn call_bind_def ok_call_def)
    with s1 s2 False assms(3) show ?thesis by (auto simp: fun_eq_iff same_trie_def)
  qed
  show "if view_bal s False from < v then \<exists>s'. transfer_npt from to (Some v) s = Ok (Inl err_insufficient_npt, s') \<and> quiet s s'
     else \<exists>s'. transfer_npt from to (Some v) s = Ok (Inr (), s') \<and> sdb_ok s' \<and> same_trie s s' \<and> view_nonce s' = view_nonce s \<and>
       (\<forall>k b. view_bal s' k b = view_bal s k b + (if k then 0 else if b = to then v else if b = from then - v else 0))"
  proof (cases "view_bal s False from < v")
    case True
    with burn_ok(2) [OF assms(1,2), of "from"] assms(3) show ?thesis by (auto simp: transfer_burn call_bind_def)
  next
    case False
    with burn_ok(2) [OF assms(1,2), of "from"] obtain s1 where s1: "burn_npt from (Some v) s = Ok (Inr (), s1)"
      "sdb_ok s1" "same_trie s s1" "view_nonce s1 = view_nonce s"
      "\<forall>k b. view_bal s1 k b = view_bal s k b - (if \<not> k \<and> b = from then v else 0)" by auto
    have "op_ok (AddNPT to (Some v)) s1" by (simp add: op_ok_def)
    with run_op_moves [OF s1(2), of "AddNPT to (Some v)"] obtain s2 where s2:
      "add_balance_npt to (Some v) s1 = Ok ((), s2)" "sdb_ok s2" "same_trie s1 s2"
      "\<forall>k b. view_bal s2 k b = (if b = to then the (op_bal (AddNPT to (Some v)) k (view_bal s1 k b)) else view_bal s1 k b)"
      "\<forall>b. view_nonce s2 b = view_nonce s1 b" by auto
    have "transfer_npt from to (Some v) s = Ok (Inr (), s2)"
      using s1(1) s2(1) assms(3) by (simp add: transfer_burn call_bind_def ok_call_def)
    with s1 s2 False assms(3) show ?thesis by (auto simp: fun_eq_iff same_trie_def)
  qed
qed

section \<open>Gas, fees and rewards\<close>

lemma data_gas_bounds:
  "unat gas + 16 * length bs < 2 ^ 64 \<Longrightarrow>
    unat gas + 4 * length bs \<le> unat (data_gas bs gas) \<and> unat (data_gas bs gas) \<le> unat gas + 16 * length bs"
proof (induction bs arbitrary: gas)
  case (Cons b bs)
  have "unat (gas + 4) = unat gas + 4" "unat (gas + 16) = unat gas + 16"
    using Cons.prems by (simp_all add: unat_word_ariths)
  with Cons.IH [of "gas + 4"] Cons.IH [of "gas + 16"] Cons.prems show ?case by auto
qed simp

lemma unat_add_small: "unat a + unat b < 2 ^ 64 \<Longrightarrow> unat (a + b) = unat a + unat b" for a b :: u64
  by (simp add: unat_word_ariths)

lemma halve_rewards_ok:
  "halve_rewards n (Some a, Some b) = Ok (Some (a div 2 ^ n), Some (b div 2 ^ n))"
proof (induction n arbitrary: a b)
  case (Suc n)
  show ?case
    by (simp add: amount_div_def euclid_div_def Suc.IH zdiv_zmult2_eq mult.commute)
qed simp

section \<open>The pool\<close>

lemma euclid_div_pos: "0 < b \<Longrightarrow> euclid_div a b = a div b"
  by (simp add: euclid_div_def)

lemma swap_quote_product:
  assumes q: "swap_quote x y v rate = Some out" and pos: "0 < v" "0 \<le> x" "0 \<le> y"
    and fee: "amm_fee_mult rate \<le> 1000000"
  shows "out \<le> y \<and> x * y \<le> (x + v) * (y - out)"
proof -
  define i where "i = euclid_div (v * amm_fee_mult rate) 1000000"
  have f0: "0 \<le> amm_fee_mult rate" by (simp add: amm_fee_mult_def)
  have i: "i = v * amm_fee_mult rate div 1000000" by (simp add: i_def euclid_div_pos)
  have "v * amm_fee_mult rate \<le> v * 1000000" using fee pos by (intro mult_left_mono) auto
  then have "i \<le> v * 1000000 div 1000000" unfolding i by (rule zdiv_mono1) simp
  then have iv: "0 \<le> i" "i \<le> v" using f0 pos by (simp_all add: i pos_imp_zdiv_nonneg_iff)
  from q have d: "x + i \<noteq> 0" and out: "out = euclid_div (y * i) (x + i)"
    by (auto simp: swap_quote_def Let_def i_def split: if_splits)
  with pos iv have d0: "0 < x + i" by simp
  then have out': "out = y * i div (x + i)" using out by (simp add: euclid_div_pos)
  have "y * i div (x + i) * (x + i) + y * i mod (x + i) = y * i" by (rule div_mult_mod_eq)
  moreover have "0 \<le> y * i mod (x + i)" using d0 by (rule pos_mod_sign)
  ultimately have o1: "out * (x + i) \<le> y * i" unfolding out' by linarith
  have "y * i \<le> y * (x + i)" using pos by (intro mult_left_mono) auto
  with o1 have "out * (x + i) \<le> y * (x + i)" by linarith
  then have le: "out \<le> y" using d0 by (rule mult_right_le_imp_le)
  have "x * y \<le> (x + i) * (y - out)" using o1 by (simp add: algebra_simps)
  also have "\<dots> \<le> (x + v) * (y - out)" using iv le by (intro mult_right_mono) auto
  finally show ?thesis using le by simp
qed

lemma new_object_storage: "new_state_object h a acct = Ok (obj, h') \<Longrightarrow> so_storage obj = None"
  by (auto simp: new_state_object_def obind_Ok_iff)

lemma get_state_object_frame:
  assumes "get_state_object a s = Ok (r, s1)"
  shows "b \<noteq> a \<Longrightarrow> sd_objects s1 b = sd_objects s b"
    and "sd_objects s a = None \<Longrightarrow> r = Some obj \<Longrightarrow> so_storage obj = None"
  using assms
  by (auto simp: get_state_object_def obind_Ok_iff put_object_objects dest: new_object_storage
      split: option.splits outcome.splits prod.splits)

lemma create_object_frame:
  assumes "create_object a s = Ok (obj, s1)"
  shows "b \<noteq> a \<Longrightarrow> sd_objects s1 b = sd_objects s b" and "so_storage obj = None"
  using assms
  by (auto simp: create_object_def obind_Ok_iff put_object_objects journal_append_def dest: new_object_storage)

lemma get_or_new_frame:
  assumes "get_or_new_state_object a s = Ok (obj, s1)"
  shows "b \<noteq> a \<Longrightarrow> sd_objects s1 b = sd_objects s b" and "sd_objects s a = None \<Longrightarrow> so_storage obj = None"
proof -
  from assms obtain r s0 where r: "get_state_object a s = Ok (r, s0)"
    "(case r of Some obj \<Rightarrow> Ok (obj, s0) | None \<Rightarrow> create_object a s0) = Ok (obj, s1)"
    by (auto simp: get_or_new_state_object_def obind_Ok_iff)
  show "b \<noteq> a \<Longrightarrow> sd_objects s1 b = sd_objects s b"
    using r get_state_object_frame(1) [OF r(1)] create_object_frame(1) by (cases r) auto
  show "sd_objects s a = None \<Longrightarrow> so_storage obj = None"
    using r get_state_object_frame(2) [OF r(1)] create_object_frame(2) by (cases r) auto
qed

lemma change_balance_frame:
  "change_balance f a s = Ok (u, s1) \<Longrightarrow> b \<noteq> a \<Longrightarrow> sd_objects s1 b = sd_objects s b"
  by (auto simp: change_balance_def obind_Ok_iff put_object_objects journal_append_def Let_def dest: get_or_new_frame(1))

lemma burn_frame:
  "burn_apt a v s = Ok (r, s1) \<Longrightarrow> b \<noteq> a \<Longrightarrow> sd_objects s1 b = sd_objects s b"
  "burn_npt a v s = Ok (r, s1) \<Longrightarrow> b \<noteq> a \<Longrightarrow> sd_objects s1 b = sd_objects s b"
  by (auto simp: burn_apt_def burn_npt_def get_balance_apt_def get_balance_npt_def obind_Ok_iff ok_call_def
      sub_balance_apt_def sub_balance_npt_def split: if_splits option.splits)
    (metis get_state_object_frame(1) change_balance_frame)+

lemma call_bind_Inr:
  "call_bind r f = Ok (Inr b, s') \<longleftrightarrow> (\<exists>a s. r = Ok (Inr a, s) \<and> f a s = Ok (Inr b, s'))"
  by (cases r) (auto simp: call_bind_def split: sum.splits prod.splits)

lemma uint_pos: "x \<noteq> 0 \<Longrightarrow> 0 < uint x" for x :: u64
proof -
  assume "x \<noteq> 0"
  then have "unat x \<noteq> 0" by (simp add: unat_eq_0)
  then have "0 < int (unat x)" by linarith
  then show "0 < uint x" by (simp only: uint_nat)
qed

lemma put_object_same: "sd_objects s a = Some obj \<Longrightarrow> put_object a obj s = s"
  by (simp add: put_object_def map_upd_triv)

section \<open>Properties\<close>

text \<open>
  C35: an APT transfer between two accounts. With too little balance it reports the error and changes
  nothing a client sees; otherwise it takes the amount from the sender, gives it to the recipient,
  and leaves every other balance, all NPT balances and all nonces alone, so the supply is
  conserved. Nothing requires the amount to be positive: a negative one moves tokens from the
  recipient to the sender.
\<close>

theorem transfer_apt_correct:
  assumes "sdb_ok s" "v \<noteq> 0" "from \<noteq> to"
  shows "if view_bal s True from < v then \<exists>s'. transfer_apt from to (Some v) s = Ok (Inl err_insufficient_apt, s') \<and> quiet s s'
     else \<exists>s'. transfer_apt from to (Some v) s = Ok (Inr (), s') \<and> sdb_ok s' \<and> same_trie s s' \<and> view_nonce s' = view_nonce s \<and>
       (\<forall>k b. view_bal s' k b = view_bal s k b + (if \<not> k then 0 else if b = to then v else if b = from then - v else 0))"
  using transfer_ok(1) [OF assms] .

theorem transfer_apt_correct_witness:
  "\<exists>s'. transfer_apt [1] [2] (Some (- 5)) (new_statedb empty_hash Map.empty) = Ok (Inr (), s') \<and>
     view_bal s' True [1] = 5 \<and> view_bal s' True [2] = - 5"
  using transfer_apt_correct [OF new_statedb_ok, of "- 5" "[1]" "[2]" empty_hash] by auto

text \<open>
  The intrinsic gas of a transaction whose data is below 2 to the 59 bytes does not wrap: it is
  at least 21000 and 4 per data byte, at most 71000 and 16 per data byte.
\<close>

theorem intrinsic_gas_bounds:
  assumes "length (tx_data tx) < 2 ^ 59"
  shows "21000 + 4 * length (tx_data tx) \<le> unat (intrinsic_gas tx) \<and>
    unat (intrinsic_gas tx) \<le> 71000 + 16 * length (tx_data tx)"
proof -
  let ?g = "data_gas (tx_data tx) 21000"
  have g: "21000 + 4 * length (tx_data tx) \<le> unat ?g" "unat ?g \<le> 21000 + 16 * length (tx_data tx)"
    using data_gas_bounds [of 21000 "tx_data tx"] assms by simp_all
  have "unat (?g + c) = unat ?g + unat c" if "unat c \<le> 50000" for c
    using g assms that by (intro unat_add_small) simp
  from this [of 5000] this [of 50000] this [of 20000] this [of 10000] g show ?thesis
    by (simp add: intrinsic_gas_def Let_def)
qed

theorem intrinsic_gas_bounds_witness:
  "unat (intrinsic_gas (sample_tx\<lparr>tx_data := [0, 1]\<rparr>)) \<le> 71032"
  using intrinsic_gas_bounds [of "sample_tx\<lparr>tx_data := [0, 1]\<rparr>"] by simp

text \<open>
  The base fee. Above the target and up to twice the target it rises by at most
  \<open>maxChangeRate\<close> thousandths of the parent fee. Below the target it always falls by the full
  \<open>maxChangeRate\<close> thousandths, however close the gas used was, and never below 1.
\<close>

theorem base_fee_change:
  assumes "0 \<le> p" "targetGas \<noteq> 0" "gasUsed \<noteq> targetGas" "unat gasUsed \<le> 2 * unat targetGas"
  shows "\<exists>f. calc_base_fee (Some p) gasUsed targetGas rate = Ok (Some f) \<and>
    (if gasUsed > targetGas then p \<le> f \<and> f \<le> p + p * uint rate div 1000
     else f = max 1 (p - p * uint rate div 1000))"
proof (cases "gasUsed > targetGas")
  case True
  let ?t = "uint targetGas" and ?d = "uint (gasUsed - targetGas)"
  have t: "0 < ?t" using assms(2) by (rule uint_pos)
  have "?d = uint gasUsed - uint targetGas"
    using True by (simp add: uint_minus_simple_alt [symmetric])
  moreover have "uint gasUsed \<le> 2 * uint targetGas"
    using assms(4) unfolding uint_nat by linarith
  ultimately have d: "?d \<le> ?t" by linarith
  let ?c = "euclid_div (euclid_div (?d * uint rate * p) ?t) 1000"
  have c: "?c = ?d * uint rate * p div ?t div 1000" using t by (simp add: euclid_div_pos)
  have "?d * uint rate * p \<le> (uint rate * p) * ?t"
    using d assms(1) mult_right_mono [OF d, of "uint rate * p"] by (simp add: mult_ac)
  then have "?d * uint rate * p div ?t \<le> (uint rate * p) * ?t div ?t" by (rule zdiv_mono1 [OF _ t])
  with t have "?c \<le> p * uint rate div 1000" unfolding c by (intro zdiv_mono1) (simp_all add: mult.commute)
  moreover have "0 \<le> ?c" unfolding c using t assms(1) by (simp add: pos_imp_zdiv_nonneg_iff)
  ultimately show ?thesis
    using True assms by (simp add: calc_base_fee_def to_big_int_def Let_def)
next
  case False
  have t: "0 < uint targetGas" using assms(2) by (rule uint_pos)
  then have "euclid_div (euclid_div (uint targetGas * uint rate * p) (uint targetGas)) 1000 = p * uint rate div 1000"
    by (simp add: euclid_div_pos mult.assoc mult.commute)
  with False assms show ?thesis
    by (simp add: calc_base_fee_def to_big_int_def Let_def max_def)
qed

theorem base_fee_change_witness:
  "calc_base_fee (Some 1000) 14999999 15000000 125 = Ok (Some 875)"
  using base_fee_change [of 1000 15000000 14999999 125] by simp

text \<open>
  Block rewards halve every 8400000 blocks, ten times at most.
\<close>

theorem block_reward_halves:
  assumes "block_reward_apt params = Some a" "block_reward_npt params = Some b"
  shows "calculate_block_reward params height =
    (let n = min (unat height div 8400000) 10 in Ok (Some (a div 2 ^ n), Some (b div 2 ^ n)))"
  using assms by (simp add: calculate_block_reward_def amount_clone_def halve_rewards_ok Let_def unat_div)

theorem block_reward_halves_witness:
  "calculate_block_reward default_mainnet_params 16800000 = Ok (Some 250000000000000000, Some 250000000000000000)"
  using block_reward_halves [of default_mainnet_params apt_precision apt_precision 16800000]
  by (simp add: default_mainnet_params_def apt_precision_def)


text \<open>
  The first liquidity corrupts the zero amount. The reserves of a pool without storage are both
  the shared \<open>ZeroAmount\<close>, and \<open>AddLiquidity\<close> adds to them in place: when it succeeds with \<open>a\<close> APT
  and \<open>n\<close> NPT the global zero is \<open>a + n\<close>, and every account created from then on starts with a
  balance of \<open>a + n\<close> in both tokens.
\<close>

theorem add_liquidity_corrupts_zero:
  assumes "sdb_ok s" "db_ok (get_node (sd_store s))" "sd_objects s amm_pool_address = None"
    and "p \<noteq> amm_pool_address" "a \<noteq> 0" "n \<noteq> 0" "a \<le> view_bal s True p" "n \<le> view_bal s False p"
  shows "\<exists>s'. add_liquidity sha p (Some a) (Some n) s = Ok (Inr (), s') \<and> sd_ints s' ! 0 = a + n \<and>
    (\<forall>b. \<exists>obj s''. create_object b s' = Ok (obj, s'') \<and>
       ptr_value (sd_ints s'') (acc_apt (so_account obj)) = Some (a + n) \<and>
       ptr_value (sd_ints s'') (acc_npt (so_account obj)) = Some (a + n))"
proof -
  obtain obj s1 where g: "get_or_new_state_object amm_pool_address s = Ok (obj, s1)"
    and op: "opened amm_pool_address s obj s1"
    using get_or_new_ok [OF assms(1)] by metis
  have st: "so_storage obj = None" by (rule get_or_new_frame(2) [OF g assms(3)])
  have load: "load_pool sha s = Ok (\<lparr>reserve_apt = zero_ptr, reserve_npt = zero_ptr\<rparr>, s1)"
    using g st put_object_same [OF openedD(6) [OF op]]
    by (simp add: load_pool_def so_get_storage_def load_reserve_def)
  obtain s2 where s2: "burn_apt p (Some a) s1 = Ok (Inr (), s2)" "sdb_ok s2" "same_trie s1 s2"
    "\<forall>k b. view_bal s2 k b = view_bal s1 k b - (if k \<and> b = p then a else 0)"
    using burn_ok(1) [OF openedD(1) [OF op] assms(5), of p] assms(7) openedD(4) [OF op] by auto
  obtain s3 where s3: "burn_npt p (Some n) s2 = Ok (Inr (), s3)" "sdb_ok s3" "same_trie s2 s3"
    using burn_ok(2) [OF s2(2) assms(6), of p] assms(8) openedD(4) [OF op] s2(4) by auto
  have z: "sd_ints s3 \<noteq> []" "sd_ints s3 ! 0 = 0" using s3(2) by (auto simp: sdb_ok_def)
  let ?h = "(sd_ints s3)[0 := a + n]"
  have adds: "add_to (sd_ints s3) zero_ptr (Some a) = Ok ((sd_ints s3)[0 := a])"
    "add_to ((sd_ints s3)[0 := a]) zero_ptr (Some n) = Ok ?h"
    using z by (simp_all add: add_to_def zero_ptr_def deref_def)
  have "\<exists>s'. save_pool sha \<lparr>reserve_apt = zero_ptr, reserve_npt = zero_ptr\<rparr> (s3\<lparr>sd_ints := ?h\<rparr>) = Ok ((), s') \<and>
      sd_ints s' \<noteq> [] \<and> sd_ints s' ! 0 = a + n"
  proof -
    have o3: "sd_objects s3 amm_pool_address = Some obj"
      using burn_frame(1) [OF s2(1)] burn_frame(2) [OF s3(1)] assms(4) openedD(6) [OF op] by simp
    have db: "db_ok (get_node (sd_store s3))"
      using assms(2) openedD(2) [OF op] s2(3) s3(3) by (simp add: same_trie_def)
    have wf: "wf_node (root new_empty_trie)" by (simp add: new_empty_trie_def new_trie_def)
    let ?b = "big_bytes (a + n)"
    obtain t1 where t1: "trie_put (get_node (sd_store s3)) new_empty_trie (amm_pool_key sha ''apt'') (Some ?b) = Some t1"
      "wf_node (root t1)" using trie_put_ok [OF db wf] by blast
    obtain t2 where "trie_put (get_node (sd_store s3)) t1 (amm_pool_key sha ''npt'') (Some ?b) = Some t2"
      using trie_put_ok [OF db t1(2)] by blast
    with t1(1) o3 st z show ?thesis
      by (simp add: save_pool_def get_or_new_state_object_def get_state_object_def so_set_storage_def
          deref_def zero_ptr_def put_object_def)
  qed
  then obtain s' where s': "save_pool sha \<lparr>reserve_apt = zero_ptr, reserve_npt = zero_ptr\<rparr> (s3\<lparr>sd_ints := ?h\<rparr>) = Ok ((), s')"
    "sd_ints s' \<noteq> []" "sd_ints s' ! 0 = a + n" by blast
  have "add_liquidity sha p (Some a) (Some n) s = Ok (Inr (), s')"
    using load s2(1) s3(1) adds s'(1) by (simp add: add_liquidity_def ok_call_def)
  moreover have "\<exists>obj s''. create_object b s' = Ok (obj, s'') \<and>
       ptr_value (sd_ints s'') (acc_apt (so_account obj)) = Some (a + n) \<and>
       ptr_value (sd_ints s'') (acc_npt (so_account obj)) = Some (a + n)" for b
    using s'(2,3) by (simp add: create_object_def clone_ptr_def deref_def alloc_def zero_ptr_def new_state_object_def
        account_copy_def nth_append put_object_def journal_append_def ptr_value_def)
  ultimately show ?thesis using s'(3) by blast
qed

lemma empty_trie_put:
  obtains t where "trie_put (get_node Map.empty) new_empty_trie k (Some v) = Some t" "wf_node (root t)"
proof -
  have "db_ok (get_node Map.empty)" by (auto simp: db_ok_def get_node_def)
  then show thesis
    using trie_put_ok [of "get_node Map.empty" new_empty_trie k "Some v"] that
    by (auto simp: new_empty_trie_def new_trie_def)
qed

definition pool_state :: statedb where
  "pool_state = (new_statedb empty_hash Map.empty)\<lparr>sd_ints := [1000, 100, 0],
     sd_objects := (\<lambda>a. if a = [1] \<or> a = amm_pool_address then Some sample_object else None)\<rparr>"

lemma pool_state_load:
  "load_pool sha pool_state = Ok (\<lparr>reserve_apt = zero_ptr, reserve_npt = zero_ptr\<rparr>, pool_state)"
proof -
  have "sd_objects pool_state amm_pool_address = Some sample_object" by (simp add: pool_state_def)
  then show ?thesis
    using put_object_same [of pool_state amm_pool_address sample_object]
    by (simp add: load_pool_def get_or_new_state_object_def get_state_object_def so_get_storage_def
        sample_object_flags load_reserve_def)
qed

lemma default_fee_mult: "amm_fee_mult default_amm_fee_rate = 997000"
  by (simp add: amm_fee_mult_def default_amm_fee_rate_def f64_fee_example)

lemma quote_example: "swap_quote 1000 1000 10 default_amm_fee_rate = Some 8"
  by (simp add: swap_quote_def default_fee_mult euclid_div_def Let_def)

lemma swap_example:
  "\<exists>s'. swap_apt_for_npt sha [1] (Some 10) default_amm_fee_rate pool_state = Ok (Inr (Some 8), s')"
proof -
  let ?o = "set_dirty sample_object"
  have ne: "[1] \<noteq> amm_pool_address" by (simp add: amm_pool_address_def)
  let ?s3 = "\<lparr>sd_ints = [1000, 90, 8], sd_store = Map.empty, sd_code_hash = empty_hash, sd_trie = new_empty_trie,
     sd_objects = (\<lambda>a. if a = [1] \<or> a = amm_pool_address then Some sample_object else None)([1] := Some ?o),
     sd_dirty = {[1]}, sd_journal = [JournalBalanceChange [1] (Some 1) (Some 2), JournalBalanceChange [1] (Some 1) (Some 2)],
     sd_valid_revisions = [], sd_next_revision = 0, sd_last_error = None\<rparr>"
  let ?s2 = "?s3\<lparr>sd_ints := [1000, 90, 0], sd_journal := [JournalBalanceChange [1] (Some 1) (Some 2)]\<rparr>"
  have acc: "acc_apt (so_account sample_object) = Some 1" "acc_npt (so_account sample_object) = Some 2"
    by (simp_all add: sample_object_def)
  have burn: "burn_apt [1] (Some 10) pool_state = Ok (Inr (), ?s2)"
    by (simp add: burn_apt_def amount_is_zero_def get_balance_apt_def get_state_object_def pool_state_def acc
        ptr_value_def sub_balance_apt_def change_balance_def get_or_new_state_object_def so_sub_balance_apt_def
        sub_to_def deref_def ok_call_def journal_append_def put_object_def new_statedb_def set_dirty_def)
  have add: "add_balance_npt [1] (Some 8) ?s2 = Ok ((), ?s3)"
    by (simp add: get_state_object_def acc add_balance_npt_def change_balance_def get_or_new_state_object_def
        so_add_balance_npt_def add_to_def deref_def journal_append_def put_object_def set_dirty_def)
  let ?k = "amm_pool_key sha ''apt''" and ?l = "amm_pool_key sha ''npt''"
  obtain t1 where t1: "trie_put (get_node Map.empty) new_empty_trie ?k (Some (big_bytes 1002)) = Some t1" "wf_node (root t1)"
    by (rule empty_trie_put)
  have db: "db_ok (get_node Map.empty)" by (auto simp: db_ok_def get_node_def)
  obtain t2 where t2: "trie_put (get_node Map.empty) t1 ?l (Some (big_bytes 1002)) = Some t2"
    using trie_put_ok [OF db t1(2)] by blast
  have "\<exists>s'. save_pool sha \<lparr>reserve_apt = zero_ptr, reserve_npt = zero_ptr\<rparr> (?s3\<lparr>sd_ints := [1002, 90, 8]\<rparr>) = Ok ((), s')"
    using t1(1) t2 ne
    by (simp add: save_pool_def get_or_new_state_object_def get_state_object_def so_set_storage_def
        sample_object_flags deref_def zero_ptr_def)
  moreover have "sd_ints pool_state = [1000, 100, 0]" by (simp add: pool_state_def)
  ultimately show ?thesis
    using quote_example burn add
    by (auto simp: swap_apt_for_npt_def pool_state_load deref_def zero_ptr_def add_to_def sub_to_def)
qed


theorem add_liquidity_corrupts_zero_witness:
  "\<exists>s. sdb_ok s \<and> (\<exists>s'. add_liquidity (\<lambda>b. b) [7] (Some 30) (Some 12) s = Ok (Inr (), s') \<and> sd_ints s' ! 0 = 42)"
proof -
  let ?s0 = "new_statedb empty_hash Map.empty"
  have ne: "[7] \<noteq> amm_pool_address" by (simp add: amm_pool_address_def)
  have "op_ok (AddAPT [7] (Some 30)) ?s0" by (simp add: op_ok_def)
  with run_op_moves [OF new_statedb_ok, of "AddAPT [7] (Some 30)" empty_hash] obtain s1 where s1:
    "add_balance_apt [7] (Some 30) ?s0 = Ok ((), s1)" "sdb_ok s1" "same_trie ?s0 s1"
    "view_bal s1 True [7] = 30" "view_bal s1 False [7] = 0" by auto
  have "op_ok (AddNPT [7] (Some 12)) s1" by (simp add: op_ok_def)
  with run_op_moves [OF s1(2), of "AddNPT [7] (Some 12)"] obtain s where s:
    "add_balance_npt [7] (Some 12) s1 = Ok ((), s)" "sdb_ok s" "same_trie s1 s"
    "view_bal s True [7] = 30" "view_bal s False [7] = 12" using s1(4,5) by auto
  have "sd_objects s amm_pool_address = None"
    using change_balance_frame [OF s(1) [unfolded add_balance_npt_def] ne [symmetric]]
      change_balance_frame [OF s1(1) [unfolded add_balance_apt_def] ne [symmetric]] by (simp add: new_statedb_def)
  moreover have "db_ok (get_node (sd_store s))"
    using s(3) s1(3) by (auto simp: same_trie_def new_statedb_def db_ok_def get_node_def)
  ultimately show ?thesis
    using add_liquidity_corrupts_zero [OF s(2), where a = 30 and n = 12 and p = "[7]" and sha = "\<lambda>b. b"] s ne by (intro exI [of _ s]) auto
qed

end
