(* ===== verification/ExecutorProps.thy ===== *)
theory ExecutorProps
  imports Executor TokenProps
begin

text \<open>
  The properties of transaction execution: what an applied transfer does to balances, nonces and the
  gas pool, that a transaction is not accepted twice, and that a rejected one changes nothing.
\<close>

section \<open>Validation\<close>

definition needed :: "transaction \<Rightarrow> int \<Rightarrow> int" where
  "needed tx p = uint (tx_gas_limit tx) * p"

lemma balance_below_ok:
  assumes "sdb_ok s"
  shows "\<exists>s1. balance_below (get_balance_apt a s) (Some n) = Ok (view_bal s True a < n, s1) \<and> quiet s s1"
    and "\<exists>s1. balance_below (get_balance_npt a s) (Some n) = Ok (view_bal s False a < n, s1) \<and> quiet s s1"
proof -
  show "\<exists>s1. balance_below (get_balance_apt a s) (Some n) = Ok (view_bal s True a < n, s1) \<and> quiet s s1"
    using get_balance_ok(1) [OF assms, of a] by (auto simp: balance_below_def sgn_if)
  show "\<exists>s1. balance_below (get_balance_npt a s) (Some n) = Ok (view_bal s False a < n, s1) \<and> quiet s s1"
    using get_balance_ok(2) [OF assms, of a] by (auto simp: balance_below_def sgn_if)
qed

lemma quiet_trans: "quiet s s1 \<Longrightarrow> quiet s1 s2 \<Longrightarrow> quiet s s2"
  by (simp add: quiet_def same_trie_def)

lemma quiet_ok: "quiet s s1 \<Longrightarrow> sdb_ok s1"
  by (simp add: quiet_def)

lemma quiet_views: "quiet s s1 \<Longrightarrow> view_bal s1 = view_bal s" "quiet s s1 \<Longrightarrow> view_nonce s1 = view_nonce s"
  by (simp_all add: quiet_def)

text \<open>The three outcomes of the transfer check.\<close>

lemma check_transfer_ok:
  assumes "sdb_ok s" "tx_amount tx = Some v" "tx_gas_price tx = Some p"
  shows "\<exists>r s1. check_transfer_balance tx a s = Ok (r, s1) \<and> quiet s s1"
proof -
  let ?n = "v + uint (tx_gas_limit tx) * p"
  obtain s1 s2 where "balance_below (get_balance_apt a s) (Some ?n) = Ok (view_bal s True a < ?n, s1)" "quiet s s1"
    "balance_below (get_balance_npt a s) (Some ?n) = Ok (view_bal s False a < ?n, s2)" "quiet s s2"
    using balance_below_ok [OF assms(1), of a ?n] by blast
  with assms show ?thesis
    by (auto simp: check_transfer_balance_def tx_cost_def to_big_int_def amount_clone_def amount_add_to_def
        intro: quiet_refl)
qed

lemma validate_ok:
  assumes "sdb_ok s" "tx_amount tx = Some v" "tx_gas_price tx = Some p"
  shows "\<exists>r s1. validate_tx sp tx a s = Ok (r, s1) \<and> quiet s s1 \<and>
    (tx_chain_id tx = sp_chain_id sp \<longrightarrow> tx_nonce tx < view_nonce s a \<longrightarrow> r = Inl err_nonce_low) \<and>
    (r = Inr () \<longrightarrow> needed tx p \<le> view_bal s True a \<and> view_nonce s a \<le> tx_nonce tx)"
proof -
  obtain s1 where n: "get_nonce a s = Ok (view_nonce s a, s1)" "quiet s s1"
    using get_nonce_ok [OF assms(1)] by blast
  obtain r s2 where c: "check_transfer_balance tx a s1 = Ok (r, s2)" "quiet s1 s2"
    using check_transfer_ok [OF quiet_ok [OF n(2)] assms(2,3)] by blast
  have q2: "quiet s s2" by (rule quiet_trans [OF n(2) c(2)])
  obtain s3 where b: "balance_below (get_balance_apt a s2) (Some (uint (tx_gas_limit tx) * p)) =
      Ok (view_bal s2 True a < uint (tx_gas_limit tx) * p, s3)" "quiet s2 s3"
    using balance_below_ok(1) [OF quiet_ok [OF q2]] by blast
  have q3: "quiet s s3" by (rule quiet_trans [OF q2 b(2)])
  show ?thesis
    using n c b q2 q3 assms quiet_refl [OF assms(1)] quiet_views(1) [OF q2]
    by (cases r) (auto simp: validate_tx_def tx_cost_def to_big_int_def needed_def)
qed

section \<open>The intermediate root keeps the views\<close>

definition trie_fine :: "statedb \<Rightarrow> bool" where
  "trie_fine s \<longleftrightarrow> db_ok (get_node (sd_store s)) \<and> wf_node (root (sd_trie s))"

definition rooted :: "statedb \<Rightarrow> trie \<Rightarrow> bool" where
  "rooted s t \<longleftrightarrow> wf_node (root t) \<and> (\<forall>k. sd_objects s k = None \<longrightarrow>
     trie_value (get_node (sd_store s), t) k = trie_value (get_node (sd_store s), sd_trie s) k)"

lemma commit_account_rooted:
  assumes ok: "objects_ok s" and db: "db_ok (get_node (sd_store s))" and t: "rooted s t"
  shows "\<exists>t'. commit_account a (with_trie s t) = Ok (with_trie s t') \<and> rooted s t'"
proof (cases "sd_objects s a")
  case None
  with t show ?thesis by (auto simp: commit_account_def)
next
  case (Some obj)
  from ok Some obtain i j where "bal_ptr True obj = Some i" "bal_ptr False obj = Some j"
    unfolding objects_ok_def by metis
  then obtain d where d: "encode_account (account_values (sd_ints s) (so_account obj)) = Ok d"
    using encode_account_total [of "account_values (sd_ints s) (so_account obj)"]
    by (auto simp: account_values_def ptr_value_def bal_ptr_def)
  obtain t' where t': "trie_put (get_node (sd_store s)) t a (Some d) = Some t'" "wf_node (root t')"
    "\<forall>k. trie_value (get_node (sd_store s), t') k = (if k = a then Some d else trie_value (get_node (sd_store s), t) k)"
    using trie_put_ok [OF db, of t a "Some d"] t by (auto simp: rooted_def)
  with Some t have "rooted s t'" by (auto simp: rooted_def)
  with Some d t'(1) show ?thesis by (auto simp: commit_account_def)
qed

lemma intermediate_rooted:
  "objects_ok s \<Longrightarrow> db_ok (get_node (sd_store s)) \<Longrightarrow> rooted s t \<Longrightarrow>
    \<exists>t'. intermediate_loop order (with_trie s t) = Ok (with_trie s t') \<and> rooted s t'"
proof (induction order arbitrary: t)
  case (Cons a order)
  have "\<exists>t1. (case sd_objects (with_trie s t) a of None \<Rightarrow> Ok (with_trie s t)
      | Some obj \<Rightarrow> if so_is_dirty obj then commit_account a (with_trie s t) else Ok (with_trie s t)) = Ok (with_trie s t1) \<and> rooted s t1"
    using commit_account_rooted [OF Cons.prems, of a] Cons.prems(3) by (auto split: option.split)
  then obtain t1 where t1: "(case sd_objects (with_trie s t) a of None \<Rightarrow> Ok (with_trie s t)
      | Some obj \<Rightarrow> if so_is_dirty obj then commit_account a (with_trie s t) else Ok (with_trie s t)) = Ok (with_trie s t1)"
    "rooted s t1" by blast
  from Cons.IH [OF Cons.prems(1,2) t1(2)] obtain t' where
    t': "intermediate_loop order (with_trie s t1) = Ok (with_trie s t')" "rooted s t'" by blast
  have "intermediate_loop (a # order) (with_trie s t) = Ok (with_trie s t')"
    unfolding intermediate_loop.simps t1(1) obind.simps by (rule t'(1))
  with t'(2) show ?case by blast
qed auto

lemma rooted_views:
  assumes "rooted s t"
  shows "view_bal (with_trie s t) = view_bal s" "view_nonce (with_trie s t) = view_nonce s"
proof -
  have st: "sd_objects s a = None \<Longrightarrow> stored_account (with_trie s t) a = stored_account s a" for a
    using assms by (simp add: rooted_def stored_account_def)
  show "view_bal (with_trie s t) = view_bal s" "view_nonce (with_trie s t) = view_nonce s"
    by (intro ext; auto simp: view_bal_def view_nonce_def st split: option.split)+
qed

lemma intermediate_root_ok:
  assumes "sdb_ok s" "trie_fine s"
  shows "\<exists>h s'. intermediate_root order s = Ok (h, s') \<and> view_bal s' = view_bal s \<and> view_nonce s' = view_nonce s"
proof -
  have "rooted s (sd_trie s)" using assms(2) by (simp add: rooted_def trie_fine_def)
  from intermediate_rooted [OF _ _ this, of order] assms obtain t where
    "intermediate_loop order s = Ok (with_trie s t)" "rooted s t"
    by (auto simp: sdb_ok_def trie_fine_def)
  with rooted_views [OF this(2)] show ?thesis by (simp add: intermediate_root_def)
qed

section \<open>Applying a transfer\<close>

lemma op_shift:
  assumes "sdb_ok s"
  shows "v \<le> view_bal s True a \<Longrightarrow> \<exists>s2. sub_balance_apt a (Some v) s = Ok ((), s2) \<and> sdb_ok s2 \<and> same_trie s s2 \<and>
      view_nonce s2 = view_nonce s \<and> (\<forall>k b. view_bal s2 k b = view_bal s k b - (if k \<and> b = a then v else 0))"
    and "\<exists>s2. add_balance_apt a (Some v) s = Ok ((), s2) \<and> sdb_ok s2 \<and> same_trie s s2 \<and>
      view_nonce s2 = view_nonce s \<and> (\<forall>k b. view_bal s2 k b = view_bal s k b + (if k \<and> b = a then v else 0))"
    and "\<exists>s2. set_nonce a n s = Ok ((), s2) \<and> sdb_ok s2 \<and> same_trie s s2 \<and>
      view_nonce s2 = (view_nonce s)(a := n) \<and> view_bal s2 = view_bal s"
proof -
  show "\<exists>s2. sub_balance_apt a (Some v) s = Ok ((), s2) \<and> sdb_ok s2 \<and> same_trie s s2 \<and>
      view_nonce s2 = view_nonce s \<and> (\<forall>k b. view_bal s2 k b = view_bal s k b - (if k \<and> b = a then v else 0))"
    if "v \<le> view_bal s True a"
  proof -
    have "op_ok (SubAPT a (Some v)) s" using that by (simp add: op_ok_def)
    with run_op_moves [OF assms, of "SubAPT a (Some v)"] that show ?thesis by (auto simp: fun_eq_iff)
  qed
  have "op_ok (AddAPT a (Some v)) s" by (simp add: op_ok_def)
  with run_op_moves [OF assms, of "AddAPT a (Some v)"]
  show "\<exists>s2. add_balance_apt a (Some v) s = Ok ((), s2) \<and> sdb_ok s2 \<and> same_trie s s2 \<and>
      view_nonce s2 = view_nonce s \<and> (\<forall>k b. view_bal s2 k b = view_bal s k b + (if k \<and> b = a then v else 0))"
    by (auto simp: fun_eq_iff)
  have "op_ok (SetNonce a n) s" by (simp add: op_ok_def)
  with run_op_moves [OF assms, of "SetNonce a n"]
  show "\<exists>s2. set_nonce a n s = Ok ((), s2) \<and> sdb_ok s2 \<and> same_trie s s2 \<and>
      view_nonce s2 = (view_nonce s)(a := n) \<and> view_bal s2 = view_bal s"
    by (auto simp: fun_eq_iff)
qed

lemma refund_ok:
  assumes "sdb_ok s" "uint g * p \<le> mc"
  shows "\<exists>s2. refund_gas a mc g p s = Ok ((), s2) \<and> sdb_ok s2 \<and> same_trie s s2 \<and> view_nonce s2 = view_nonce s \<and>
    (\<forall>k b. view_bal s2 k b = view_bal s k b + (if k \<and> b = a then mc - uint g * p else 0))"
proof (cases "mc - uint g * p > 0")
  case True
  with op_shift(2) [OF assms(1), of a "mc - uint g * p"] show ?thesis by (simp add: refund_gas_def Let_def)
next
  case False
  with assms show ?thesis by (intro exI [of _ s]) (simp add: refund_gas_def same_trie_def Let_def)
qed

text \<open>The effect of a transfer: \<open>g\<close> the gas used, \<open>w\<close> the amount moved (0 when it failed).\<close>

definition moved :: "statedb \<Rightarrow> transaction \<Rightarrow> int \<Rightarrow> u64 \<Rightarrow> int \<Rightarrow> statedb \<Rightarrow> bool" where
  "moved s tx p g w s' \<longleftrightarrow> view_nonce s' = (view_nonce s)(tx_from tx := tx_nonce tx + 1) \<and>
     (\<forall>k b. view_bal s' k b = view_bal s k b + (if k \<and> b = tx_to tx then w else 0)
        - (if k \<and> b = tx_from tx then uint g * p + w else 0))"

lemma execute_transfer_ok:
  assumes "sdb_ok s" "tx_type tx = tx_transfer_apt" "tx_amount tx = Some v" "v \<noteq> 0"
    and "tx_from tx \<noteq> tx_to tx" "tx_to tx \<noteq> zero_address"
  shows "\<exists>s'. execute_tx sha sp (tx_from tx) tx s =
      Ok (if view_bal s True (tx_from tx) < v then Inl err_insufficient_apt else Inr (intrinsic_gas tx), s') \<and>
    sdb_ok s' \<and> same_trie s s' \<and> view_nonce s' = view_nonce s \<and>
    (\<forall>k b. view_bal s' k b = view_bal s k b
      + (if k \<and> b = tx_to tx then (if view_bal s True (tx_from tx) < v then 0 else v) else 0)
      - (if k \<and> b = tx_from tx then (if view_bal s True (tx_from tx) < v then 0 else v) else 0))"
proof -
  have e: "execute_tx sha sp (tx_from tx) tx s = with_intrinsic tx (transfer_apt (tx_from tx) (tx_to tx) (Some v) s)"
    using assms by (simp add: execute_tx_def execute_transfer_apt_def address_is_zero_def)
  show ?thesis
  proof (cases "view_bal s True (tx_from tx) < v")
    case True
    with transfer_ok(1) [OF assms(1,4,5)] obtain s' where
      "transfer_apt (tx_from tx) (tx_to tx) (Some v) s = Ok (Inl err_insufficient_apt, s')" "quiet s s'" by auto
    with e True show ?thesis by (auto simp: with_intrinsic_def quiet_def)
  next
    case False
    with transfer_ok(1) [OF assms(1,4,5)] obtain s' where
      "transfer_apt (tx_from tx) (tx_to tx) (Some v) s = Ok (Inr (), s')" "sdb_ok s'" "same_trie s s'" "view_nonce s' = view_nonce s"
      "\<forall>k b. view_bal s' k b = view_bal s k b + (if \<not> k then 0 else if b = tx_to tx then v else if b = tx_from tx then - v else 0)"
      by auto
    with e False assms(5) show ?thesis by (auto simp: with_intrinsic_def)
  qed
qed

lemma apply_transfer_ok:
  assumes ok: "sdb_ok s" "trie_fine s"
    and tx: "tx_type tx = tx_transfer_apt" "tx_amount tx = Some v" "v \<noteq> 0" "tx_gas_price tx = Some p" "0 \<le> p"
      "tx_from tx \<noteq> tx_to tx" "tx_to tx \<noteq> zero_address"
  shows "\<exists>r gp' s'. apply_transaction sha ord sp tx header gp s = Ok (r, gp', s') \<and>
    (case r of
       Inl e \<Rightarrow> gp' = gp \<and> quiet s s'
     | Inr rc \<Rightarrow> tx_chain_id tx = sp_chain_id sp \<and> view_nonce s (tx_from tx) \<le> tx_nonce tx \<and>
         intrinsic_gas tx \<le> tx_gas_limit tx \<and> tx_gas_limit tx \<le> gp \<and>
         (let paid = (v + needed tx p \<le> view_bal s True (tx_from tx));
              g = (if paid then intrinsic_gas tx else tx_gas_limit tx)
          in rc_gas_used rc = g \<and> rc_status rc = (if paid then receipt_success else receipt_failed) \<and>
             gp' = gp - g \<and> moved s tx p g (if paid then v else 0) s'))"
proof -
  let ?a = "tx_from tx" and ?mc = "uint (tx_gas_limit tx) * p"
  obtain r s1 where v: "validate_tx sp tx ?a s = Ok (r, s1)" "quiet s s1"
    "r = Inr () \<longrightarrow> needed tx p \<le> view_bal s True ?a \<and> view_nonce s ?a \<le> tx_nonce tx"
    using validate_ok [OF ok(1) tx(2,4), of sp ?a] by blast
  note q1 = quiet_ok [OF v(2)] and qv = quiet_views [OF v(2)]
  show ?thesis
  proof (cases "r = Inr () \<and> \<not> tx_gas_limit tx < intrinsic_gas tx \<and> \<not> gp < tx_gas_limit tx")
    case False
    then have "\<exists>e. apply_transaction sha ord sp tx header gp s = Ok (Inl e, gp, s1)"
      using v by (cases r) (auto simp: apply_transaction_def sub_gas_def Let_def)
    with v(2) show ?thesis by auto
  next
    case True
    then have r: "r = Inr ()" and gl: "intrinsic_gas tx \<le> tx_gas_limit tx" and gpl: "tx_gas_limit tx \<le> gp"
      by (auto simp: not_less)
    have chain: "tx_chain_id tx = sp_chain_id sp"
      using v(1) r by (auto simp: validate_tx_def split: if_splits)
    have nd: "?mc \<le> view_bal s1 True ?a" using v(3) r qv by (simp add: needed_def)
    obtain s2 where s2: "sub_balance_apt ?a (Some ?mc) s1 = Ok ((), s2)" "sdb_ok s2" "same_trie s1 s2"
      "view_nonce s2 = view_nonce s1" "\<forall>k b. view_bal s2 k b = view_bal s1 k b - (if k \<and> b = ?a then ?mc else 0)"
      using op_shift(1) [OF q1 nd] by blast
    obtain s3 where s3: "set_nonce ?a (tx_nonce tx + 1) s2 = Ok ((), s3)" "sdb_ok s3" "same_trie s2 s3"
      "view_nonce s3 = (view_nonce s2)(?a := tx_nonce tx + 1)" "view_bal s3 = view_bal s2"
      using op_shift(3) [OF s2(2)] by blast
    have b3: "view_bal s3 True ?a = view_bal s True ?a - ?mc" using s2(5) s3(5) qv by simp
    let ?short = "view_bal s3 True ?a < v"
    let ?w = "if ?short then 0 else v" and ?g = "if ?short then tx_gas_limit tx else intrinsic_gas tx"
    obtain s4 where s4: "execute_tx sha sp ?a tx s3 = Ok (if ?short then Inl err_insufficient_apt else Inr (intrinsic_gas tx), s4)"
      "sdb_ok s4" "same_trie s3 s4" "view_nonce s4 = view_nonce s3"
      "\<forall>k b. view_bal s4 k b = view_bal s3 k b + (if k \<and> b = tx_to tx then ?w else 0) - (if k \<and> b = ?a then ?w else 0)"
      using execute_transfer_ok [OF s3(2) tx(1,2,3,6,7), of sha sp] by blast
    have "uint ?g \<le> uint (tx_gas_limit tx)" using gl by (simp add: word_le_def)
    then have "uint ?g * p \<le> ?mc" using tx(5) by (rule mult_right_mono)
    from refund_ok [OF s4(2) this, of ?a] obtain s5 where s5: "refund_gas ?a ?mc ?g p s4 = Ok ((), s5)" "sdb_ok s5"
      "same_trie s4 s5" "view_nonce s5 = view_nonce s4"
      "\<forall>k b. view_bal s5 k b = view_bal s4 k b + (if k \<and> b = ?a then ?mc - uint ?g * p else 0)" by blast
    have "trie_fine s5"
      using ok(2) v(2) s2(3) s3(3) s4(3) s5(3) by (simp add: trie_fine_def quiet_def same_trie_def)
    from intermediate_root_ok [OF s5(2) this, of "ord s5"] obtain h s6 where
      s6: "intermediate_root (ord s5) s5 = Ok (h, s6)" "view_bal s6 = view_bal s5" "view_nonce s6 = view_nonce s5" by blast
    obtain th tx' where th: "tx_hash sha tx = Ok (th, tx')"
      using tx by (cases "tx_hash_once tx") (simp_all add: tx_hash_def compute_transaction_hash_def tx_preimage_def to_big_int_def)
    let ?gp = "gp - tx_gas_limit tx + (tx_gas_limit tx - ?g)"
    let ?rc = "new_receipt (if ?short then receipt_failed else receipt_success) (used_gas (bh_gas_limit header) ?gp) ?g th h"
    have "apply_transaction sha ord sp tx header gp s = Ok (Inr ?rc, ?gp, s6)"
      using v(1) r True tx(4) s2(1) s3(1) s4(1) s5(1) s6(1) th
      by (cases ?short) (simp_all add: apply_transaction_def sub_gas_def tx_cost_def to_big_int_def add_gas_def
          execute_base_burn_def Let_def)
    moreover have "?gp = gp - ?g" by simp
    moreover have "moved s tx p ?g ?w s6"
      unfolding moved_def using s2(4,5) s3(4,5) s4(4,5) s5(4,5) s6(2,3) qv by (auto simp: fun_eq_iff)
    moreover have "?short \<longleftrightarrow> \<not> v + needed tx p \<le> view_bal s True ?a" using b3 by (auto simp: needed_def)
    ultimately show ?thesis
      using chain v(3) r gl gpl
      by (cases "v + needed tx p \<le> view_bal s True ?a") (simp_all add: new_receipt_def Let_def)
  qed
qed

section \<open>Properties\<close>


text \<open>
  A used nonce is rejected. In a state whose nonce for the sender is above the transaction's,
  \<open>ApplyTransaction\<close> answers "nonce too low" and changes nothing, whatever the type: a transaction
  that was applied once is not applied again.
\<close>

theorem used_nonce_rejected:
  assumes "sdb_ok s" "tx_amount tx = Some v" "tx_gas_price tx = Some p"
    and "tx_chain_id tx = sp_chain_id sp" "tx_nonce tx < view_nonce s (tx_from tx)"
  shows "\<exists>s'. apply_transaction sha ord sp tx header gp s = Ok (Inl err_nonce_low, gp, s') \<and> quiet s s'"
proof -
  obtain r s1 where "validate_tx sp tx (tx_from tx) s = Ok (r, s1)" "quiet s s1" "r = Inl err_nonce_low"
    using validate_ok [OF assms(1-3), of sp "tx_from tx"] assms(4,5) by blast
  then show ?thesis by (auto simp: apply_transaction_def Let_def)
qed

definition sample_processor :: state_processor where
  "sample_processor = \<lparr>sp_params = default_mainnet_params, sp_chain_id = 31337\<rparr>"

lemma new_statedb_fine: "trie_fine (new_statedb c Map.empty)"
  by (auto simp: trie_fine_def new_statedb_def new_empty_trie_def new_trie_def db_ok_def get_node_def)


theorem used_nonce_rejected_witness:
  "\<exists>s s'. view_nonce s (replicate 20 1) = 5 \<and>
     apply_transaction (\<lambda>b. b) (\<lambda>_. []) sample_processor sample_tx sample_header 30000000 s = Ok (Inl err_nonce_low, 30000000, s')"
proof -
  obtain s where s: "set_nonce (replicate 20 1) 5 (new_statedb empty_hash Map.empty) = Ok ((), s)" "sdb_ok s"
    "view_nonce s (replicate 20 1) = 5"
    using op_shift(3) [OF new_statedb_ok, of "replicate 20 1" 5 empty_hash] by auto
  have "tx_nonce sample_tx < view_nonce s (tx_from sample_tx)" using s(3) by (simp add: sample_tx_def)
  with used_nonce_rejected [OF s(2), of sample_tx 5 2 sample_processor "\<lambda>b. b" "\<lambda>_. []" sample_header 30000000] s(3)
  show ?thesis by (auto simp: sample_tx_def sample_processor_def)
qed

end
