(* ===== verification/VM.thy ===== *)
theory VM
  imports Prelude
begin

text \<open>
  The virtual machine, \<^verbatim>\<open>src/internal/vm\<close>: the opcode table (opcodes.go) and the interpreter
  (interpreter.go).

  The stack is a list with its top at the head; a nil slice and an empty one are the same. The
  program counter is a signed 64-bit \<open>int\<close>, the gas counters are \<open>uint64\<close> and wrap. The storage is
  \<open>None\<close> when the context was built without a map, on which a write panics. \<open>vm_step\<close> is one turn
  of the loop of \<open>Run\<close>; \<open>vm_run\<close> takes fuel for the number of turns.
\<close>

section \<open>Opcodes\<close>

definition op_stop :: byte where "op_stop = 0x00"
definition op_push1 :: byte where "op_push1 = 0x01"
definition op_push32 :: byte where "op_push32 = 0x20"
definition op_pop :: byte where "op_pop = 0x30"
definition op_dup :: byte where "op_dup = 0x31"
definition op_swap :: byte where "op_swap = 0x32"
definition op_add :: byte where "op_add = 0x40"
definition op_sub :: byte where "op_sub = 0x41"
definition op_mul :: byte where "op_mul = 0x42"
definition op_div :: byte where "op_div = 0x43"
definition op_mod :: byte where "op_mod = 0x44"
definition op_eq :: byte where "op_eq = 0x50"
definition op_lt :: byte where "op_lt = 0x51"
definition op_gt :: byte where "op_gt = 0x52"
definition op_iszero :: byte where "op_iszero = 0x53"
definition op_jump :: byte where "op_jump = 0x60"
definition op_jumpi :: byte where "op_jumpi = 0x61"
definition op_pc :: byte where "op_pc = 0x62"
definition op_sload :: byte where "op_sload = 0x70"
definition op_sstore :: byte where "op_sstore = 0x71"
definition op_caller :: byte where "op_caller = 0x80"
definition op_address :: byte where "op_address = 0x81"
definition op_balance :: byte where "op_balance = 0x82"
definition op_call :: byte where "op_call = 0x83"
definition op_return :: byte where "op_return = 0x84"
definition op_revert :: byte where "op_revert = 0x85"
definition op_sha256 :: byte where "op_sha256 = 0x90"
definition op_blake3 :: byte where "op_blake3 = 0x91"
definition op_ai_infer :: byte where "op_ai_infer = 0xA0"
definition op_ai_verify :: byte where "op_ai_verify = 0xA1"
definition op_task_create :: byte where "op_task_create = 0xA2"

lemmas opcodes = op_stop_def op_push1_def op_push32_def op_pop_def op_dup_def op_swap_def op_add_def op_sub_def
  op_mul_def op_div_def op_mod_def op_eq_def op_lt_def op_gt_def op_iszero_def op_jump_def
  op_jumpi_def op_pc_def op_sload_def op_sstore_def op_caller_def op_address_def op_balance_def
  op_call_def op_return_def op_revert_def op_sha256_def op_blake3_def op_ai_infer_def op_ai_verify_def
  op_task_create_def

record opcode_data =
  oi_name :: string
  oi_gas :: u64
  oi_description :: string

definition opcode_info :: "byte \<Rightarrow> opcode_data" where
  "opcode_info op =
     (if op = op_stop then \<lparr>oi_name = ''STOP'', oi_gas = 0, oi_description = ''Halt execution''\<rparr>
      else if op = op_push1 then \<lparr>oi_name = ''PUSH1'', oi_gas = 3, oi_description = ''Push 1 byte''\<rparr>
      else if op = op_push32 then \<lparr>oi_name = ''PUSH32'', oi_gas = 3, oi_description = ''Push 32 bytes''\<rparr>
      else if op = op_pop then \<lparr>oi_name = ''POP'', oi_gas = 2, oi_description = ''Remove top stack element''\<rparr>
      else if op = op_dup then \<lparr>oi_name = ''DUP'', oi_gas = 3, oi_description = ''Duplicate top stack element''\<rparr>
      else if op = op_swap then \<lparr>oi_name = ''SWAP'', oi_gas = 3, oi_description = ''Swap top two elements''\<rparr>
      else if op = op_add then \<lparr>oi_name = ''ADD'', oi_gas = 3, oi_description = ''Add two numbers''\<rparr>
      else if op = op_sub then \<lparr>oi_name = ''SUB'', oi_gas = 3, oi_description = ''Subtract two numbers''\<rparr>
      else if op = op_mul then \<lparr>oi_name = ''MUL'', oi_gas = 5, oi_description = ''Multiply two numbers''\<rparr>
      else if op = op_div then \<lparr>oi_name = ''DIV'', oi_gas = 5, oi_description = ''Divide two numbers''\<rparr>
      else if op = op_eq then \<lparr>oi_name = ''EQ'', oi_gas = 3, oi_description = ''Check equality''\<rparr>
      else if op = op_lt then \<lparr>oi_name = ''LT'', oi_gas = 3, oi_description = ''Less than''\<rparr>
      else if op = op_gt then \<lparr>oi_name = ''GT'', oi_gas = 3, oi_description = ''Greater than''\<rparr>
      else if op = op_iszero then \<lparr>oi_name = ''ISZERO'', oi_gas = 3, oi_description = ''Check if zero''\<rparr>
      else if op = op_jump then \<lparr>oi_name = ''JUMP'', oi_gas = 8, oi_description = ''Unconditional jump''\<rparr>
      else if op = op_jumpi then \<lparr>oi_name = ''JUMPI'', oi_gas = 10, oi_description = ''Conditional jump''\<rparr>
      else if op = op_sload then \<lparr>oi_name = ''SLOAD'', oi_gas = 200, oi_description = ''Load from storage''\<rparr>
      else if op = op_sstore then \<lparr>oi_name = ''SSTORE'', oi_gas = 5000, oi_description = ''Store to storage (cost depends on new/existing)''\<rparr>
      else if op = op_caller then \<lparr>oi_name = ''CALLER'', oi_gas = 2, oi_description = ''Get caller address''\<rparr>
      else if op = op_address then \<lparr>oi_name = ''ADDRESS'', oi_gas = 2, oi_description = ''Get contract address''\<rparr>
      else if op = op_balance then \<lparr>oi_name = ''BALANCE'', oi_gas = 400, oi_description = ''Get balance''\<rparr>
      else if op = op_call then \<lparr>oi_name = ''CALL'', oi_gas = 700, oi_description = ''Call another contract''\<rparr>
      else if op = op_return then \<lparr>oi_name = ''RETURN'', oi_gas = 0, oi_description = ''Return data''\<rparr>
      else if op = op_revert then \<lparr>oi_name = ''REVERT'', oi_gas = 0, oi_description = ''Revert execution''\<rparr>
      else if op = op_sha256 then \<lparr>oi_name = ''SHA256'', oi_gas = 60, oi_description = ''SHA-256 hash''\<rparr>
      else if op = op_blake3 then \<lparr>oi_name = ''BLAKE3'', oi_gas = 30, oi_description = ''BLAKE3 hash (fast)''\<rparr>
      else if op = op_ai_infer then \<lparr>oi_name = ''AI_INFER'', oi_gas = 100000, oi_description = ''AI inference (expensive)''\<rparr>
      else if op = op_ai_verify then \<lparr>oi_name = ''AI_VERIFY'', oi_gas = 50000, oi_description = ''Verify AI result''\<rparr>
      else if op = op_task_create then \<lparr>oi_name = ''TASK_CREATE'', oi_gas = 50000, oi_description = ''Create AI task''\<rparr>
      else \<lparr>oi_name = ''INVALID'', oi_gas = 0, oi_description = ''Unknown opcode''\<rparr>)"

section \<open>The interpreter\<close>

datatype vm_error = OutOfGas int string | PushExceeds | JumpTooLarge | Reverted | UnknownOpcode byte int

record vm_state =
  vm_pc :: int
  vm_stack :: "byte list list"
  vm_storage :: "(hash \<Rightarrow> byte list option) option"
  vm_gas_used :: u64
  vm_output :: "byte list"

definition new_interpreter :: "(hash \<Rightarrow> byte list option) option \<Rightarrow> u64 \<Rightarrow> vm_state" where
  "new_interpreter storage gasUsed =
     \<lparr>vm_pc = 0, vm_stack = [], vm_storage = storage, vm_gas_used = gasUsed, vm_output = []\<rparr>"

definition push :: "byte list \<Rightarrow> vm_state \<Rightarrow> vm_state" where
  "push v s = s\<lparr>vm_stack := v # vm_stack s\<rparr>"

definition pop :: "vm_state \<Rightarrow> byte list \<times> vm_state" where
  "pop s = (case vm_stack s of [] \<Rightarrow> ([], s) | v # st \<Rightarrow> (v, s\<lparr>vm_stack := st\<rparr>))"

definition safe_pop :: "vm_state \<Rightarrow> (byte list \<times> vm_state) option" where
  "safe_pop s = (if vm_stack s = [] then None else Some (pop s))"

definition dup :: "nat \<Rightarrow> vm_state \<Rightarrow> vm_state option" where
  "dup n s = (if length (vm_stack s) < n then None else Some (push (vm_stack s ! (n - 1)) s))"

definition big_int_from_bytes :: "byte list \<Rightarrow> int" where
  "big_int_from_bytes b = (if length b = 0 then 0 else big_set_bytes b)"

definition bytes_equal :: "byte list \<Rightarrow> byte list \<Rightarrow> bool" where
  "bytes_equal a b = (length a = length b \<and> list_all (\<lambda>(x, y). x = y) (zip a b))"

definition all_zero :: "byte list \<Rightarrow> bool" where
  "all_zero a = list_all (\<lambda>b. b = 0) a"

definition storage_key :: "byte list \<Rightarrow> hash" where
  "storage_key b = take 32 b @ replicate (32 - length b) 0"

definition is_uint64 :: "int \<Rightarrow> bool" where
  "is_uint64 v \<longleftrightarrow> 0 \<le> v \<and> v < 2 ^ 64"

text \<open>\<open>int(target.Uint64())\<close>: the conversion keeps the bits and reads a sign.\<close>

definition jump_pc :: "int \<Rightarrow> int" where
  "jump_pc target = sint (word_of_int target :: u64)"

datatype vm_turn = Next vm_state | Return "byte list" vm_state | Fail vm_error vm_state | Crash

definition binary_op :: "(int \<Rightarrow> int \<Rightarrow> int) \<Rightarrow> vm_state \<Rightarrow> vm_turn" where
  "binary_op f s = (let (x, s1) = pop s; (y, s2) = pop s1
     in Next (push (big_bytes (f (big_int_from_bytes x) (big_int_from_bytes y))) s2))"

definition push_bool :: "bool \<Rightarrow> vm_state \<Rightarrow> vm_state" where
  "push_bool b s = push [if b then 1 else 0] s"

definition exec_push :: "byte list \<Rightarrow> byte \<Rightarrow> vm_state \<Rightarrow> vm_turn" where
  "exec_push code op s = (let n = uint op in
     if vm_pc s + n > int (length code) then Fail PushExceeds s
     else Next ((push (take (nat n) (drop (nat (vm_pc s)) code)) s)\<lparr>vm_pc := vm_pc s + n\<rparr>))"

definition exec_jumpi :: "vm_state \<Rightarrow> vm_turn" where
  "exec_jumpi s = (let (t, s1) = pop s; target = big_int_from_bytes t; (cond, s2) = pop s1
     in if cond \<noteq> [] \<and> hd cond \<noteq> 0
        then (if is_uint64 target then Next (s2\<lparr>vm_pc := jump_pc target\<rparr>) else Fail JumpTooLarge s2)
        else Next s2)"

definition exec_jump :: "vm_state \<Rightarrow> vm_turn" where
  "exec_jump s = (let (t, s1) = pop s; target = big_int_from_bytes t
     in if is_uint64 target then Next (s1\<lparr>vm_pc := jump_pc target\<rparr>) else Fail JumpTooLarge s1)"

definition exec_sload :: "vm_state \<Rightarrow> vm_turn" where
  "exec_sload s = (let (k, s1) = pop s
     in Next (push (case vm_storage s1 of None \<Rightarrow> []
          | Some m \<Rightarrow> (case m (storage_key k) of None \<Rightarrow> [] | Some v \<Rightarrow> v)) s1))"

definition exec_sstore :: "vm_state \<Rightarrow> vm_turn" where
  "exec_sstore s = (let (val, s1) = pop s; (k, s2) = pop s1
     in case vm_storage s2 of None \<Rightarrow> Crash
        | Some m \<Rightarrow> Next (s2\<lparr>vm_storage := Some (m(storage_key k := Some val))\<rparr>))"

definition vm_exec :: "(byte list \<Rightarrow> hash) \<Rightarrow> byte list \<Rightarrow> byte \<Rightarrow> vm_state \<Rightarrow> vm_turn" where
  "vm_exec sha code op s =
     (if op = op_stop then Return (vm_output s) s
      else if op = op_push1 \<or> op = op_push32 then exec_push code op s
      else if op = op_pop then Next (snd (pop s))
      else if op = op_dup then (case dup 1 s of None \<Rightarrow> Crash | Some s1 \<Rightarrow> Next s1)
      else if op = op_add then binary_op (\<lambda>a b. a + b) s
      else if op = op_sub then binary_op (\<lambda>a b. b - a) s
      else if op = op_mul then binary_op (\<lambda>a b. a * b) s
      else if op = op_eq then (let (a, s1) = pop s; (b, s2) = pop s1 in Next (push_bool (bytes_equal a b) s2))
      else if op = op_iszero then (let (a, s1) = pop s in Next (push_bool (all_zero a) s1))
      else if op = op_jump then exec_jump s
      else if op = op_jumpi then exec_jumpi s
      else if op = op_sload then exec_sload s
      else if op = op_sstore then exec_sstore s
      else if op = op_return then (let (v, s1) = pop s in Return v (s1\<lparr>vm_output := v\<rparr>))
      else if op = op_revert then Fail Reverted s
      else if op = op_sha256 then (let (d, s1) = pop s in Next (push (sha d) s1))
      else Fail (UnknownOpcode op (vm_pc s - 1)) s)"

definition vm_step :: "(byte list \<Rightarrow> hash) \<Rightarrow> byte list \<Rightarrow> u64 \<Rightarrow> vm_state \<Rightarrow> vm_turn" where
  "vm_step sha code gasLimit s =
     (if \<not> vm_pc s < int (length code) then Return (vm_output s) s
      else if vm_pc s < 0 then Crash
      else let op = code ! nat (vm_pc s); info = opcode_info op in
        if vm_gas_used s + oi_gas info > gasLimit then Fail (OutOfGas (vm_pc s) (oi_name info)) s
        else vm_exec sha code op (s\<lparr>vm_gas_used := vm_gas_used s + oi_gas info, vm_pc := vm_pc s + 1\<rparr>))"

fun vm_run :: "nat \<Rightarrow> (byte list \<Rightarrow> hash) \<Rightarrow> byte list \<Rightarrow> u64 \<Rightarrow> vm_state \<Rightarrow> (vm_error, byte list \<times> vm_state) outcome option" where
  "vm_run 0 sha code gasLimit s = None"
| "vm_run (Suc n) sha code gasLimit s = (case vm_step sha code gasLimit s of
     Next s1 \<Rightarrow> vm_run n sha code gasLimit s1
   | Return out s1 \<Rightarrow> Some (Ok (out, s1))
   | Fail e s1 \<Rightarrow> Some (Err e)
   | Crash \<Rightarrow> Some Panic)"

end
