(* ===== verification/VMProps.thy ===== *)
theory VMProps
  imports VM
begin

text \<open>
  Gas bounds the run of the virtual machine as long as the limit stays away from the top of
  \<open>uint64\<close>; at the top the check wraps and a loop never ends. And the only ways the interpreter
  can panic.
\<close>

section \<open>The opcode table\<close>

lemma opcode_gas_bound: "unat (oi_gas (opcode_info op)) \<le> 100000"
  by (simp add: opcode_info_def)

lemma opcode_gas_pos:
  assumes "oi_gas (opcode_info op) = 0"
  shows "vm_exec sha code op s \<noteq> Next s1"
proof -
  have "op \<noteq> op_push1" "op \<noteq> op_push32" "op \<noteq> op_pop" "op \<noteq> op_dup" "op \<noteq> op_add" "op \<noteq> op_sub"
    "op \<noteq> op_mul" "op \<noteq> op_eq" "op \<noteq> op_iszero" "op \<noteq> op_jump" "op \<noteq> op_jumpi" "op \<noteq> op_sload"
    "op \<noteq> op_sstore" "op \<noteq> op_sha256"
    using assms by (auto simp: opcode_info_def opcodes)
  then show ?thesis
    by (simp add: vm_exec_def Let_def split: prod.splits)
qed

section \<open>Operations keep the gas counter\<close>

lemma gas_push [simp]: "vm_gas_used (push v s) = vm_gas_used s"
  by (simp add: push_def)

lemma gas_pop: "pop s = (v, s1) \<Longrightarrow> vm_gas_used s1 = vm_gas_used s"
  by (auto simp: pop_def split: list.splits)

lemma gas_pop' [simp]: "vm_gas_used (snd (pop s)) = vm_gas_used s"
  by (simp add: pop_def split: list.splits)

lemma gas_exec:
  assumes "vm_exec sha code op s = Next s1"
  shows "vm_gas_used s1 = vm_gas_used s"
  using assms
  by (auto simp: vm_exec_def exec_push_def dup_def binary_op_def push_bool_def exec_jump_def exec_jumpi_def
      exec_sload_def exec_sstore_def Let_def dest!: gas_pop split: if_splits option.splits prod.splits)

lemma vm_step_gas:
  assumes "vm_step sha code gasLimit s = Next s1" "unat gasLimit + 100000 < 2 ^ 64" "vm_gas_used s \<le> gasLimit"
  shows "unat (vm_gas_used s) < unat (vm_gas_used s1) \<and> vm_gas_used s1 \<le> gasLimit"
proof -
  let ?op = "code ! nat (vm_pc s)"
  let ?g = "oi_gas (opcode_info ?op)"
  let ?s = "s\<lparr>vm_gas_used := vm_gas_used s + ?g, vm_pc := vm_pc s + 1\<rparr>"
  from assms(1) have ex: "vm_exec sha code ?op ?s = Next s1" and lim: "vm_gas_used s + ?g \<le> gasLimit"
    by (auto simp: vm_step_def Let_def not_less split: if_splits)
  have g1: "vm_gas_used s1 = vm_gas_used s + ?g" using gas_exec [OF ex] by simp
  have "?g \<noteq> 0" using opcode_gas_pos [of ?op sha code ?s s1] ex by blast
  then have "unat ?g \<noteq> 0" by (simp add: unat_eq_0)
  moreover have "unat (vm_gas_used s + ?g) = unat (vm_gas_used s) + unat ?g"
  proof -
    have "unat (vm_gas_used s) \<le> unat gasLimit" using assms(3) by (simp add: word_le_nat_alt)
    with assms(2) opcode_gas_bound [of ?op] have "unat (vm_gas_used s) + unat ?g < 2 ^ 64" by linarith
    then show ?thesis by (simp add: unat_word_ariths)
  qed
  ultimately show ?thesis using g1 lim by simp
qed

lemma vm_run_enough:
  "unat gasLimit + 100000 < 2 ^ 64 \<Longrightarrow> vm_gas_used s \<le> gasLimit \<Longrightarrow>
    unat gasLimit - unat (vm_gas_used s) < n \<Longrightarrow> vm_run n sha code gasLimit s \<noteq> None"
proof (induction n arbitrary: s)
  case (Suc n)
  show ?case
  proof (cases "vm_step sha code gasLimit s")
    case (Next s1)
    from vm_step_gas [OF Next Suc.prems(1,2)] have s1: "unat (vm_gas_used s) < unat (vm_gas_used s1)" "vm_gas_used s1 \<le> gasLimit"
      by simp_all
    moreover from s1(2) have "unat (vm_gas_used s1) \<le> unat gasLimit" by (simp add: word_le_nat_alt)
    ultimately have "vm_run n sha code gasLimit s1 \<noteq> None"
      using Suc.prems(3) by (intro Suc.IH [OF Suc.prems(1)]) linarith+
    with Next show ?thesis by simp
  qed simp_all
qed simp

section \<open>The endless loop\<close>

lemma loop_two_steps:
  fixes st g
  defines "s \<equiv> new_interpreter st g"
  shows "vm_step sha [0x01, 0x00, 0x60] (- 1) s =
      Next (s\<lparr>vm_gas_used := g + 3, vm_pc := 2, vm_stack := [[0]]\<rparr>)"
    and "vm_step sha [0x01, 0x00, 0x60] (- 1) (s\<lparr>vm_gas_used := g + 3, vm_pc := 2, vm_stack := [[0]]\<rparr>) =
      Next (new_interpreter st (g + 3 + 8))"
proof -
  have max: "\<not> x > (- 1 :: u64)" for x by (simp add: not_less)
  show "vm_step sha [0x01, 0x00, 0x60] (- 1) s = Next (s\<lparr>vm_gas_used := g + 3, vm_pc := 2, vm_stack := [[0]]\<rparr>)"
    unfolding s_def by (simp add: vm_step_def max opcode_info_def opcodes vm_exec_def exec_push_def push_def
        new_interpreter_def Let_def del: word_order.extremum_strict)
  show "vm_step sha [0x01, 0x00, 0x60] (- 1) (s\<lparr>vm_gas_used := g + 3, vm_pc := 2, vm_stack := [[0]]\<rparr>) =
      Next (new_interpreter st (g + 3 + 8))"
    unfolding s_def by (simp add: vm_step_def max opcode_info_def opcodes vm_exec_def exec_jump_def pop_def
        new_interpreter_def Let_def big_int_from_bytes_def big_set_bytes_def be_nat_def is_uint64_def jump_pc_def)
qed

lemma loop_forever: "vm_run n sha [0x01, 0x00, 0x60] (- 1) (new_interpreter st g) = None"
proof (induction n arbitrary: g rule: less_induct)
  case (less n)
  show ?case
  proof (cases n)
    case (Suc m)
    show ?thesis
    proof (cases m)
      case (Suc k)
      have "vm_run k sha [0x01, 0x00, 0x60] (- 1) (new_interpreter st (g + 3 + 8)) = None"
        using \<open>n = Suc m\<close> Suc by (intro less) simp
      with Suc \<open>n = Suc m\<close> loop_two_steps [where sha = sha and st = st and g = g] show ?thesis by simp
    qed (use Suc loop_two_steps [where sha = sha and st = st and g = g] in simp)
  qed simp
qed

section \<open>Numbers on the stack\<close>

lemma big_int_from_bytes_set: "big_int_from_bytes b = big_set_bytes b"
  by (simp add: big_int_from_bytes_def big_set_bytes_def)

section \<open>Properties\<close>

text \<open>
  C40: gas bounds every run. With a gas limit more than 100000 below 2 to the 64 and a counter within
  the limit, \<open>Run\<close> ends on any code and state after at most as many turns as gas is left, plus one.
\<close>

theorem vm_run_terminates:
  assumes "unat gasLimit + 100000 < 2 ^ 64" "vm_gas_used s \<le> gasLimit"
  shows "vm_run (Suc (unat gasLimit - unat (vm_gas_used s))) sha code gasLimit s \<noteq> None"
  by (rule vm_run_enough [OF assms]) simp

theorem vm_run_terminates_witness:
  "vm_run 31 (\<lambda>b. b) [0x01, 0x00, 0x60] 30 (new_interpreter None 0) \<noteq> None"
  using vm_run_terminates [of 30 "new_interpreter None 0" "\<lambda>b. b" "[0x01, 0x00, 0x60]"]
  by (simp add: new_interpreter_def)

text \<open>
  Gas does not bound a run with the largest limit. With the limit 2 to the 64 minus 1 no sum of
  \<open>uint64\<close> gas exceeds it: the program PUSH1 0, JUMP never ends, whatever the number of turns.
\<close>

theorem vm_gas_wraps:
  "vm_run n sha [0x01, 0x00, 0x60] (- 1) (new_interpreter storage used) = None"
  by (rule loop_forever)

text \<open>
  When the interpreter panics. A turn of the loop panics only if the program counter is
  negative (a jump target of 2 to the 63 or more), if DUP meets an empty stack, or if SSTORE writes
  to a context without a storage map; every other fault is an error value.
\<close>

theorem vm_panic_causes:
  assumes "vm_step sha code gasLimit s = Crash"
  shows "vm_pc s < 0 \<or> (code ! nat (vm_pc s) = op_dup \<and> vm_stack s = []) \<or>
    (code ! nat (vm_pc s) = op_sstore \<and> vm_storage s = None)"
proof (cases "vm_pc s < 0")
  case False
  let ?op = "code ! nat (vm_pc s)"
  let ?s = "s\<lparr>vm_gas_used := vm_gas_used s + oi_gas (opcode_info ?op), vm_pc := vm_pc s + 1\<rparr>"
  from assms False have "vm_exec sha code ?op ?s = Crash"
    by (auto simp: vm_step_def Let_def split: if_splits)
  then show ?thesis
    by (auto simp: vm_exec_def exec_push_def binary_op_def exec_jump_def exec_jumpi_def exec_sload_def
        exec_sstore_def dup_def pop_def Let_def split: if_splits option.splits prod.splits list.splits)
qed simp

theorem vm_panic_causes_witness:
  "vm_step (\<lambda>b. b) [0x31] 100 (new_interpreter None 0) = Crash \<and> vm_stack (new_interpreter None 0) = []"
proof -
  have c: "vm_step (\<lambda>b. b) [0x31] 100 (new_interpreter None 0) = Crash"
    by (simp add: vm_step_def new_interpreter_def opcode_info_def opcodes vm_exec_def dup_def Let_def)
  with vm_panic_causes [OF c] show ?thesis by (simp add: new_interpreter_def opcodes)
qed

text \<open>
  Arithmetic of the machine. On two stack words a (on top) and b, ADD, MUL and SUB replace them
  by one word; it reads back as the sum, as the product and, for SUB, as the absolute value of
  b - a: the sign of a difference is lost. The storage, the output and the counters do not change.
\<close>

theorem vm_arith:
  assumes "vm_stack s = a # b # st"
  shows "vm_exec sha code op_add s = Next (s\<lparr>vm_stack := big_bytes (big_set_bytes a + big_set_bytes b) # st\<rparr>) \<and>
    vm_exec sha code op_mul s = Next (s\<lparr>vm_stack := big_bytes (big_set_bytes a * big_set_bytes b) # st\<rparr>) \<and>
    vm_exec sha code op_sub s = Next (s\<lparr>vm_stack := big_bytes (big_set_bytes b - big_set_bytes a) # st\<rparr>) \<and>
    big_set_bytes (big_bytes (big_set_bytes a + big_set_bytes b)) = big_set_bytes a + big_set_bytes b \<and>
    big_set_bytes (big_bytes (big_set_bytes a * big_set_bytes b)) = big_set_bytes a * big_set_bytes b \<and>
    big_set_bytes (big_bytes (big_set_bytes b - big_set_bytes a)) = \<bar>big_set_bytes b - big_set_bytes a\<bar>"
  using assms
  by (simp add: vm_exec_def opcodes binary_op_def pop_def push_def big_int_from_bytes_set Let_def
      be_simps big_set_bytes_nonneg)

theorem vm_arith_witness:
  "vm_exec (\<lambda>b. b) [] op_sub ((new_interpreter None 0)\<lparr>vm_stack := [[5], [3]]\<rparr>) =
     Next ((new_interpreter None 0)\<lparr>vm_stack := [[2]]\<rparr>)"
proof -
  let ?s = "(new_interpreter None 0)\<lparr>vm_stack := [[5], [3]]\<rparr>"
  have st: "vm_stack ?s = [5] # [3] # []" by simp
  have "big_bytes (big_set_bytes [3] - big_set_bytes [5]) = [2]"
    by (simp add: big_set_bytes_def be_nat_def big_bytes_def big_bytes_nat.simps)
  with vm_arith [OF st, where sha = "\<lambda>b. b" and code = "[]"] show ?thesis by simp
qed

text \<open>
  Contract storage. SSTORE of a value under a 32-byte key, followed by SLOAD of that key, leaves
  the value on the stack and consumes the two operands; every other storage slot keeps its content.
\<close>

theorem vm_storage_roundtrip:
  assumes "vm_stack s = v # k # st" "vm_storage s = Some m" "length k = 32"
  shows "\<exists>s1 s2. vm_exec sha code op_sstore s = Next s1 \<and> vm_stack s1 = st \<and>
    vm_storage s1 = Some (m(k \<mapsto> v)) \<and>
    vm_exec sha code op_sload (push k s1) = Next s2 \<and> vm_stack s2 = v # st \<and> vm_storage s2 = vm_storage s1"
  using assms
  by (simp add: vm_exec_def opcodes exec_sstore_def exec_sload_def pop_def push_def storage_key_def Let_def)

theorem vm_storage_roundtrip_witness:
  "\<exists>s1 s2. vm_exec (\<lambda>b. b) [] op_sstore
      ((new_interpreter (Some Map.empty) 0)\<lparr>vm_stack := [[7], replicate 32 0]\<rparr>) = Next s1 \<and> vm_stack s1 = [] \<and>
    vm_storage s1 = Some (Map.empty(replicate 32 0 \<mapsto> [7])) \<and>
    vm_exec (\<lambda>b. b) [] op_sload (push (replicate 32 0) s1) = Next s2 \<and> vm_stack s2 = [[7]] \<and>
    vm_storage s2 = vm_storage s1"
  by (rule vm_storage_roundtrip) (simp_all add: new_interpreter_def)

end
