(* ===== verification/TxPool.thy ===== *)
theory TxPool
  imports ChainTypes "HOL-Library.List_Lexorder"
begin

text \<open>
  The transaction pool, \<^verbatim>\<open>src/internal/txpool/txpool.go\<close>.

  A \<open>txSortedMap\<close> is its \<open>items\<close> map and its \<open>nonces\<close> slice; \<open>Flatten\<close> may meet a nonce without
  an item, a nil pointer, so its elements are options. The mutex of the pool is the flag
  \<open>pl_locked\<close>: a method that asks for it while it is held never returns, which is the value
  \<open>None\<close> of a \<open>run\<close>. \<open>locked\<close> is \<open>Lock\<close> with the deferred \<open>Unlock\<close> around a method body.

  The iteration order of a Go map is the argument \<open>ord\<close>, which enumerates the set of its keys;
  every fact holds for each such order (\<open>go_order\<close>). Transactions in the pool are never changed,
  so they are values; the pool's \<open>signer\<close> is never read and is left out.
\<close>

section \<open>Nonce-ordered maps\<close>

record tx_sorted_map =
  tsm_items :: "u64 \<Rightarrow> transaction option"
  tsm_nonces :: "u64 list"

definition new_tx_sorted_map :: tx_sorted_map where
  "new_tx_sorted_map = \<lparr>tsm_items = Map.empty, tsm_nonces = []\<rparr>"

definition tsm_put :: "transaction \<Rightarrow> tx_sorted_map \<Rightarrow> tx_sorted_map" where
  "tsm_put tx m =
     (let m1 = (if tsm_items m (tx_nonce tx) = None
                then m\<lparr>tsm_nonces := sort (tsm_nonces m @ [tx_nonce tx])\<rparr> else m)
      in m1\<lparr>tsm_items := (tsm_items m1)(tx_nonce tx \<mapsto> tx)\<rparr>)"

definition tsm_get :: "u64 \<Rightarrow> tx_sorted_map \<Rightarrow> transaction option" where
  "tsm_get nonce m = tsm_items m nonce"

definition tsm_remove :: "u64 \<Rightarrow> tx_sorted_map \<Rightarrow> tx_sorted_map" where
  "tsm_remove nonce m = m\<lparr>tsm_items := (tsm_items m)(nonce := None),
     tsm_nonces := remove1 nonce (tsm_nonces m)\<rparr>"

definition tsm_len :: "tx_sorted_map \<Rightarrow> int" where
  "tsm_len m = int (card (dom (tsm_items m)))"

definition tsm_flatten :: "tx_sorted_map \<Rightarrow> transaction option list" where
  "tsm_flatten m = map (tsm_items m) (tsm_nonces m)"

section \<open>The pool\<close>

definition err_tx_pool_full :: string where "err_tx_pool_full = ''transaction pool is full''"
definition err_pool_nonce_low :: string where "err_pool_nonce_low = ''nonce too low''"
definition err_pool_nonce_high :: string where "err_pool_nonce_high = ''nonce too high''"
definition err_already_known :: string where "err_already_known = ''transaction already known''"
definition err_invalid_signature :: string where "err_invalid_signature = ''invalid transaction signature''"

record tx_pool_config =
  pc_max_txs :: int
  pc_max_account_txs :: int
  pc_max_queued_nonce :: u64

definition default_tx_pool_config :: tx_pool_config where
  "default_tx_pool_config = \<lparr>pc_max_txs = 4096, pc_max_account_txs = 64, pc_max_queued_nonce = 16\<rparr>"

record pool =
  pl_config :: tx_pool_config
  pl_chain_id :: u64
  pl_locked :: bool
  pl_pending :: "address \<Rightarrow> tx_sorted_map option"
  pl_queued :: "address \<Rightarrow> tx_sorted_map option"
  pl_all :: "hash \<Rightarrow> transaction option"
  pl_nonces :: "address \<Rightarrow> u64 option"
  pl_gas_price :: token_amount

definition new_pool :: "tx_pool_config \<Rightarrow> u64 \<Rightarrow> pool" where
  "new_pool config chainID = \<lparr>pl_config = config, pl_chain_id = chainID, pl_locked = False,
     pl_pending = Map.empty, pl_queued = Map.empty, pl_all = Map.empty, pl_nonces = Map.empty,
     pl_gas_price = Some 0\<rparr>"

text \<open>A run that blocks forever is \<open>None\<close>.\<close>

type_synonym 'a run = "(string, 'a) outcome option"

fun rbind :: "'a run \<Rightarrow> ('a \<Rightarrow> 'b run) \<Rightarrow> 'b run" where
  "rbind (Some (Ok a)) f = f a"
| "rbind (Some (Err e)) f = Some (Err e)"
| "rbind (Some Panic) f = Some Panic"
| "rbind None f = None"

definition locked :: "(pool \<Rightarrow> pool run) \<Rightarrow> pool \<Rightarrow> pool run" where
  "locked body p = (if pl_locked p then None
     else rbind (body (p\<lparr>pl_locked := True\<rparr>)) (\<lambda>p1. Some (Ok (p1\<lparr>pl_locked := False\<rparr>))))"

definition read_locked :: "(pool \<Rightarrow> 'a) \<Rightarrow> pool \<Rightarrow> 'a run" where
  "read_locked body p = (if pl_locked p then None else Some (Ok (body p)))"

definition nonce_at :: "(address \<Rightarrow> u64 option) \<Rightarrow> address \<Rightarrow> u64" where
  "nonce_at m a = (case m a of None \<Rightarrow> 0 | Some n \<Rightarrow> n)"

definition set_gas_price :: "token_amount \<Rightarrow> pool \<Rightarrow> pool run" where
  "set_gas_price gp = locked (\<lambda>p. Some (Ok (p\<lparr>pl_gas_price := gp\<rparr>)))"

definition pool_validate_tx :: "transaction \<Rightarrow> pool \<Rightarrow> (string, unit) outcome" where
  "pool_validate_tx tx p =
     (if tx_chain_id tx \<noteq> pl_chain_id p then Err ''invalid chain ID''
      else obind (amount_cmp (tx_gas_price tx) (pl_gas_price p)) (\<lambda>c.
        if c < 0 then Err ''gas price too low''
        else if tx_gas_limit tx = 0 then Err ''gas limit is zero''
        else Ok ()))"

definition drop_oldest :: "(byte list \<Rightarrow> hash) \<Rightarrow> address \<Rightarrow> tx_sorted_map \<Rightarrow> pool \<Rightarrow> (string, pool) outcome" where
  "drop_oldest sha addr m p = (case tsm_flatten m of
       [] \<Rightarrow> Ok p
     | None # _ \<Rightarrow> Panic
     | Some oldest # _ \<Rightarrow> obind (tx_hash sha oldest) (\<lambda>(h, _).
         Ok (p\<lparr>pl_pending := (pl_pending p)(addr \<mapsto> tsm_remove (tx_nonce oldest) m),
               pl_all := (pl_all p)(h := None)\<rparr>)))"

definition map_at :: "(address \<Rightarrow> tx_sorted_map option) \<Rightarrow> address \<Rightarrow> tx_sorted_map" where
  "map_at ms a = (case ms a of None \<Rightarrow> new_tx_sorted_map | Some m \<Rightarrow> m)"

definition enqueue_pending :: "(byte list \<Rightarrow> hash) \<Rightarrow> address \<Rightarrow> transaction \<Rightarrow> pool \<Rightarrow> (string, pool) outcome" where
  "enqueue_pending sha addr tx p =
     (let m = map_at (pl_pending p) addr; p1 = p\<lparr>pl_pending := (pl_pending p)(addr \<mapsto> m)\<rparr>
      in obind (if tsm_len m \<ge> pc_max_account_txs (pl_config p) then drop_oldest sha addr m p1 else Ok p1) (\<lambda>p2.
           Ok (p2\<lparr>pl_pending := (pl_pending p2)(addr \<mapsto> tsm_put tx (map_at (pl_pending p2) addr))\<rparr>)))"

definition enqueue_tx :: "address \<Rightarrow> transaction \<Rightarrow> pool \<Rightarrow> pool" where
  "enqueue_tx addr tx p =
     p\<lparr>pl_queued := (pl_queued p)(addr \<mapsto> tsm_put tx (map_at (pl_queued p) addr))\<rparr>"

definition remove_nonce :: "address \<Rightarrow> u64 \<Rightarrow> (address \<Rightarrow> tx_sorted_map option) \<Rightarrow> (address \<Rightarrow> tx_sorted_map option)" where
  "remove_nonce a n ms = (case ms a of None \<Rightarrow> ms | Some m \<Rightarrow> ms(a \<mapsto> tsm_remove n m))"

definition remove_tx :: "(byte list \<Rightarrow> hash) \<Rightarrow> transaction \<Rightarrow> pool \<Rightarrow> pool run" where
  "remove_tx sha tx = locked (\<lambda>p. rbind (Some (tx_hash sha tx)) (\<lambda>(h, _). Some (Ok
     (if pl_all p h = None then p
      else p\<lparr>pl_pending := remove_nonce (tx_from tx) (tx_nonce tx) (pl_pending p),
             pl_queued := remove_nonce (tx_from tx) (tx_nonce tx) (pl_queued p),
             pl_all := (pl_all p)(h := None)\<rparr>))))"

fun lowest_price :: "transaction option \<Rightarrow> transaction option list \<Rightarrow> (string, transaction option) outcome" where
  "lowest_price low [] = Ok low"
| "lowest_price low (None # txs) = Panic"
| "lowest_price None (Some tx # txs) = lowest_price (Some tx) txs"
| "lowest_price (Some low) (Some tx # txs) = obind (amount_cmp (tx_gas_price tx) (tx_gas_price low))
     (\<lambda>c. lowest_price (if c < 0 then Some tx else Some low) txs)"

definition evict_lowest :: "(byte list \<Rightarrow> hash) \<Rightarrow> (hash set \<Rightarrow> hash list) \<Rightarrow> pool \<Rightarrow> pool run" where
  "evict_lowest sha ord p = rbind (Some (lowest_price None (map (pl_all p) (ord (dom (pl_all p)))))) (\<lambda>low.
     case low of None \<Rightarrow> Some (Ok p) | Some tx \<Rightarrow> remove_tx sha tx p)"

definition pool_full :: "pool \<Rightarrow> bool" where
  "pool_full p \<longleftrightarrow> int (card (dom (pl_all p))) \<ge> pc_max_txs (pl_config p)"

definition make_room :: "(byte list \<Rightarrow> hash) \<Rightarrow> (hash set \<Rightarrow> hash list) \<Rightarrow> pool \<Rightarrow> pool run" where
  "make_room sha ord p = (if pool_full p
     then rbind (evict_lowest sha ord p) (\<lambda>p1. if pool_full p1 then Some (Err err_tx_pool_full) else Some (Ok p1))
     else Some (Ok p))"

definition place_tx :: "(byte list \<Rightarrow> hash) \<Rightarrow> transaction \<Rightarrow> pool \<Rightarrow> (string, pool) outcome" where
  "place_tx sha tx p =
     (let sender = tx_from tx; currentNonce = nonce_at (pl_nonces p) sender
      in if tx_nonce tx < currentNonce then Err err_pool_nonce_low
         else if tx_nonce tx > currentNonce then
           (if tx_nonce tx > currentNonce + pc_max_queued_nonce (pl_config p) then Err err_pool_nonce_high
            else Ok (enqueue_tx sender tx p))
         else enqueue_pending sha sender tx p)"

definition add_body :: "(byte list \<Rightarrow> hash) \<Rightarrow> (hash set \<Rightarrow> hash list) \<Rightarrow> transaction \<Rightarrow> pool \<Rightarrow> pool run" where
  "add_body sha ord tx0 p = rbind (Some (tx_hash sha tx0)) (\<lambda>(h, tx).
     if pl_all p h \<noteq> None then Some (Err err_already_known)
     else if tx_signature tx = None then Some (Err err_invalid_signature)
     else rbind (Some (pool_validate_tx tx p)) (\<lambda>_.
       rbind (make_room sha ord p) (\<lambda>p1.
       rbind (Some (place_tx sha tx p1)) (\<lambda>p2.
         Some (Ok (p2\<lparr>pl_all := (pl_all p2)(h \<mapsto> tx)\<rparr>))))))"

definition add_tx :: "(byte list \<Rightarrow> hash) \<Rightarrow> (hash set \<Rightarrow> hash list) \<Rightarrow> transaction \<Rightarrow> pool \<Rightarrow> pool run" where
  "add_tx sha ord tx = locked (add_body sha ord tx)"

definition get_tx :: "hash \<Rightarrow> pool \<Rightarrow> transaction option run" where
  "get_tx h = read_locked (\<lambda>p. pl_all p h)"

definition pending_txs :: "pool \<Rightarrow> (address \<Rightarrow> transaction option list option) run" where
  "pending_txs = read_locked (\<lambda>p a. case pl_pending p a of None \<Rightarrow> None
     | Some m \<Rightarrow> if length (tsm_flatten m) > 0 then Some (tsm_flatten m) else None)"

definition pool_nonce :: "address \<Rightarrow> pool \<Rightarrow> u64 run" where
  "pool_nonce addr = read_locked (\<lambda>p. nonce_at (pl_nonces p) addr)"

text \<open>The two loops of \<open>Reset\<close>.\<close>

definition promote_one :: "(byte list \<Rightarrow> hash) \<Rightarrow> (address \<Rightarrow> u64 option) \<Rightarrow> address \<Rightarrow> pool \<Rightarrow> (string, pool) outcome" where
  "promote_one sha newNonces addr p =
     (let nonce = nonce_at newNonces addr in
      case pl_queued p addr of
        None \<Rightarrow> Ok p
      | Some queued \<Rightarrow> (case tsm_get nonce queued of
            None \<Rightarrow> Ok p
          | Some tx \<Rightarrow> enqueue_pending sha addr tx
              (p\<lparr>pl_queued := (pl_queued p)(addr \<mapsto> tsm_remove nonce queued)\<rparr>)))"

fun promote :: "(byte list \<Rightarrow> hash) \<Rightarrow> (address \<Rightarrow> u64 option) \<Rightarrow> address list \<Rightarrow> pool \<Rightarrow> (string, pool) outcome" where
  "promote sha newNonces [] p = Ok p"
| "promote sha newNonces (addr # addrs) p =
     obind (promote_one sha newNonces addr p) (promote sha newNonces addrs)"

fun drop_below :: "(byte list \<Rightarrow> hash) \<Rightarrow> u64 \<Rightarrow> address \<Rightarrow> transaction option list \<Rightarrow> pool \<Rightarrow> (string, pool) outcome" where
  "drop_below sha current addr [] p = Ok p"
| "drop_below sha current addr (None # txs) p = Panic"
| "drop_below sha current addr (Some tx # txs) p =
     (if tx_nonce tx < current
      then obind (tx_hash sha tx) (\<lambda>(h, _). drop_below sha current addr txs
             (p\<lparr>pl_pending := remove_nonce addr (tx_nonce tx) (pl_pending p), pl_all := (pl_all p)(h := None)\<rparr>))
      else drop_below sha current addr txs p)"

fun drop_stale :: "(byte list \<Rightarrow> hash) \<Rightarrow> (address \<Rightarrow> u64 option) \<Rightarrow> address list \<Rightarrow> pool \<Rightarrow> (string, pool) outcome" where
  "drop_stale sha newNonces [] p = Ok p"
| "drop_stale sha newNonces (addr # addrs) p =
     obind (drop_below sha (nonce_at newNonces addr) addr (tsm_flatten (map_at (pl_pending p) addr)) p)
       (drop_stale sha newNonces addrs)"

definition reset_pool :: "(byte list \<Rightarrow> hash) \<Rightarrow> (address set \<Rightarrow> address list) \<Rightarrow> (address \<Rightarrow> u64 option) \<Rightarrow> pool \<Rightarrow> pool run" where
  "reset_pool sha ord newNonces = locked (\<lambda>p. Some
     (obind (promote sha newNonces (ord (dom newNonces)) (p\<lparr>pl_nonces := newNonces\<rparr>)) (\<lambda>p1.
        drop_stale sha newNonces (ord (dom (pl_pending p1))) p1)))"

definition pool_stats :: "(address set \<Rightarrow> address list) \<Rightarrow> pool \<Rightarrow> (int \<times> int) run" where
  "pool_stats ord = read_locked (\<lambda>p.
     (sum_list (map (\<lambda>a. tsm_len (map_at (pl_pending p) a)) (ord (dom (pl_pending p)))),
      sum_list (map (\<lambda>a. tsm_len (map_at (pl_queued p) a)) (ord (dom (pl_queued p))))))"

end
