(* ===== verification/TxPoolProps.thy ===== *)
theory TxPoolProps
  imports TxPool
begin

text \<open>
  What the transaction pool promises. The contract of its nonce-ordered maps is the locale
  \<open>nonce_map\<close>, interpreted on \<open>tx_sorted_map\<close>. The abstraction of the pool is three maps: the
  pending and the queued slots (account and nonce) and the known transactions (hash); \<open>tracked\<close>
  is the invariant on them. \<open>pool_step\<close> is one method call from outside.
\<close>

section \<open>The contract of a nonce-ordered map\<close>

locale nonce_map =
  fixes ok :: "'m \<Rightarrow> bool"
    and look :: "'m \<Rightarrow> u64 \<Rightarrow> transaction option"
    and put :: "transaction \<Rightarrow> 'm \<Rightarrow> 'm"
    and remove :: "u64 \<Rightarrow> 'm \<Rightarrow> 'm"
    and flat :: "'m \<Rightarrow> transaction option list"
  assumes put_ok: "ok m \<Longrightarrow> ok (put tx m)"
    and look_put: "look (put tx m) = (look m)(tx_nonce tx \<mapsto> tx)"
    and remove_ok: "ok m \<Longrightarrow> ok (remove n m)"
    and look_remove: "look (remove n m) = (look m)(n := None)"
    and look_nonce: "ok m \<Longrightarrow> look m n = Some tx \<Longrightarrow> tx_nonce tx = n"
    and flat_set: "ok m \<Longrightarrow> set (flat m) = Some ` ran (look m)"
    and flat_sorted: "ok m \<Longrightarrow> sorted (map (tx_nonce \<circ> the) (flat m))"
    and flat_distinct: "ok m \<Longrightarrow> distinct (flat m)"
begin

lemma flat_no_nil: "ok m \<Longrightarrow> None \<notin> set (flat m)"
  by (simp add: flat_set)

lemma flat_look: "ok m \<Longrightarrow> Some tx \<in> set (flat m) \<longleftrightarrow> look m (tx_nonce tx) = Some tx"
  using look_nonce by (auto simp: flat_set ran_def)

lemma flat_head_lowest:
  assumes "ok m" "flat m = Some tx # txs" "look m n = Some tx1"
  shows "tx_nonce tx \<le> n"
proof -
  have "tx_nonce tx1 = n" by (rule look_nonce [OF assms(1,3)])
  with assms(3) have "Some tx1 \<in> set (Some tx # txs)"
    unfolding assms(2) [symmetric] flat_look [OF assms(1)] by simp
  with flat_sorted [OF assms(1)] \<open>tx_nonce tx1 = n\<close> show ?thesis unfolding assms(2) by auto
qed

lemma put_put: "tx_nonce tx = tx_nonce tx1 \<Longrightarrow> look (put tx (put tx1 m)) = look (put tx m)"
  by (simp add: look_put)

lemma strictly_ascending:
  assumes "ok m"
  shows "sorted_wrt (<) (map (tx_nonce \<circ> the) (flat m))"
proof -
  have "inj_on (tx_nonce \<circ> the) (set (flat m))"
  proof (rule inj_onI)
    fix x y
    assume x: "x \<in> set (flat m)" and y: "y \<in> set (flat m)" and e: "(tx_nonce \<circ> the) x = (tx_nonce \<circ> the) y"
    from x y assms obtain t u where tu: "x = Some t" "y = Some u" by (auto simp: flat_set)
    have "look m (tx_nonce t) = Some t" "look m (tx_nonce u) = Some u"
      using x y unfolding tu flat_look [OF assms] by blast+
    moreover from e tu have "tx_nonce t = tx_nonce u" by simp
    ultimately have "Some t = Some u" by argo
    then show "x = y" unfolding tu .
  qed
  then have "distinct (map (tx_nonce \<circ> the) (flat m))"
    using flat_distinct [OF assms] by (simp add: distinct_map)
  with flat_sorted [OF assms] show ?thesis by (simp add: strict_sorted_iff)
qed

end

definition tsm_ok :: "tx_sorted_map \<Rightarrow> bool" where
  "tsm_ok m \<longleftrightarrow> sorted (tsm_nonces m) \<and> distinct (tsm_nonces m) \<and> set (tsm_nonces m) = dom (tsm_items m) \<and>
     (\<forall>n tx. tsm_items m n = Some tx \<longrightarrow> tx_nonce tx = n)"

lemma tsm_flatten_nonces:
  assumes "tsm_ok m"
  shows "map (tx_nonce \<circ> the) (tsm_flatten m) = tsm_nonces m"
proof -
  have "(tx_nonce \<circ> the) (tsm_items m n) = n" if "n \<in> set (tsm_nonces m)" for n
    using that assms by (auto simp: tsm_ok_def)
  then show ?thesis by (simp add: tsm_flatten_def map_idI)
qed

interpretation tsm: nonce_map tsm_ok tsm_items tsm_put tsm_remove tsm_flatten
proof unfold_locales
  fix m :: tx_sorted_map and tx n
  show "tsm_items (tsm_put tx m) = (tsm_items m)(tx_nonce tx \<mapsto> tx)"
    by (simp add: tsm_put_def Let_def)
  show "tsm_items (tsm_remove n m) = (tsm_items m)(n := None)"
    by (simp add: tsm_remove_def)
  assume ok: "tsm_ok m"
  show "tsm_ok (tsm_put tx m)"
    using ok by (auto simp: tsm_ok_def tsm_put_def Let_def)
  show "tsm_ok (tsm_remove n m)"
    using ok by (auto simp: tsm_ok_def tsm_remove_def sorted_remove1)
  show "tsm_items m n = Some tx \<Longrightarrow> tx_nonce tx = n"
    using ok by (simp add: tsm_ok_def)
  show "set (tsm_flatten m) = Some ` ran (tsm_items m)"
    using ok by (force simp: tsm_ok_def tsm_flatten_def ran_def)
  show "sorted (map (tx_nonce \<circ> the) (tsm_flatten m))"
    using ok by (simp add: tsm_flatten_nonces) (simp add: tsm_ok_def)
  have "distinct (map (tx_nonce \<circ> the) (tsm_flatten m))"
    using ok by (simp add: tsm_flatten_nonces) (simp add: tsm_ok_def)
  then show "distinct (tsm_flatten m)" by (simp add: distinct_map)
qed

lemma tsm_ok_new [simp]: "tsm_ok new_tx_sorted_map"
  by (simp add: tsm_ok_def new_tx_sorted_map_def)

lemma tsm_items_new [simp]: "tsm_items new_tx_sorted_map = Map.empty"
  by (simp add: new_tx_sorted_map_def)

section \<open>The slots of an account map\<close>

definition slot :: "(address \<Rightarrow> tx_sorted_map option) \<Rightarrow> address \<times> u64 \<Rightarrow> transaction option" where
  "slot ms an = tsm_items (map_at ms (fst an)) (snd an)"

definition maps_ok :: "(address \<Rightarrow> tx_sorted_map option) \<Rightarrow> bool" where
  "maps_ok ms \<longleftrightarrow> finite (dom ms) \<and> (\<forall>a. tsm_ok (map_at ms a))"

lemma map_at_upd [simp]: "map_at (ms(a \<mapsto> m)) b = (if b = a then m else map_at ms b)"
  by (simp add: map_at_def)

lemma slot_put [simp]: "slot (ms(a \<mapsto> tsm_put tx (map_at ms a))) = (slot ms)((a, tx_nonce tx) \<mapsto> tx)"
  by (auto simp: slot_def tsm.look_put)

lemma slot_same [simp]: "slot (ms(a \<mapsto> map_at ms a)) = slot ms"
  by (auto simp: slot_def)

lemma slot_tsm_remove [simp]: "slot (ms(a \<mapsto> tsm_remove n (map_at ms a))) = (slot ms)((a, n) := None)"
  by (auto simp: slot_def tsm.look_remove)

lemma remove_nonce_cases:
  "remove_nonce a n ms = ms \<and> ms a = None \<or> remove_nonce a n ms = ms(a \<mapsto> tsm_remove n (map_at ms a)) \<and> ms a \<noteq> None"
  by (simp add: remove_nonce_def map_at_def split: option.splits)

lemma slot_remove_nonce [simp]: "slot (remove_nonce a n ms) = (slot ms)((a, n) := None)"
proof (cases "ms a")
  case None
  then have "remove_nonce a n ms = ms" "slot ms (a, n) = None"
    by (simp_all add: remove_nonce_def slot_def map_at_def)
  then show ?thesis by (simp add: fun_upd_idem)
next
  case (Some m)
  then have "remove_nonce a n ms = ms(a \<mapsto> tsm_remove n (map_at ms a))"
    by (simp add: remove_nonce_def map_at_def)
  then show ?thesis by simp
qed

lemma maps_ok_upd: "maps_ok ms \<Longrightarrow> tsm_ok m \<Longrightarrow> maps_ok (ms(a \<mapsto> m))"
  by (simp add: maps_ok_def)

lemma maps_ok_at: "maps_ok ms \<Longrightarrow> tsm_ok (map_at ms a)"
  by (simp add: maps_ok_def)

lemma maps_ok_remove_nonce: "maps_ok ms \<Longrightarrow> maps_ok (remove_nonce a n ms)"
  using remove_nonce_cases [of a n ms] by (auto intro!: maps_ok_upd tsm.remove_ok maps_ok_at)

lemma maps_ok_empty [simp]: "maps_ok Map.empty"
  by (simp add: maps_ok_def map_at_def)

lemma slot_empty [simp]: "slot Map.empty = Map.empty"
  by (simp add: slot_def map_at_def fun_eq_iff)

lemma dom_remove_nonce [simp]: "dom (remove_nonce a n ms) = dom ms"
  by (auto simp: remove_nonce_def split: option.splits)

section \<open>The abstraction of the pool and its invariant\<close>

type_synonym slots = "address \<times> u64 \<Rightarrow> transaction option"

definition tracked :: "slots \<Rightarrow> slots \<Rightarrow> (hash \<Rightarrow> transaction option) \<Rightarrow> bool" where
  "tracked S T A \<longleftrightarrow>
     (\<forall>h t. A h = Some t \<longrightarrow> tx_hash_once t \<and> tx_hash_cache t = h) \<and>
     (\<forall>a n t. S (a, n) = Some t \<or> T (a, n) = Some t \<longrightarrow>
        A (tx_hash_cache t) = Some t \<and> tx_from t = a \<and> tx_nonce t = n) \<and>
     (\<forall>a n t. S (a, n) = Some t \<longrightarrow> T (a, n) \<noteq> Some t)"

lemma trackedI:
  assumes "\<And>h t. A h = Some t \<Longrightarrow> tx_hash_once t \<and> tx_hash_cache t = h"
    and "\<And>a n t. S (a, n) = Some t \<Longrightarrow> A (tx_hash_cache t) = Some t \<and> tx_from t = a \<and> tx_nonce t = n"
    and "\<And>a n t. T (a, n) = Some t \<Longrightarrow> A (tx_hash_cache t) = Some t \<and> tx_from t = a \<and> tx_nonce t = n"
    and "\<And>a n t. S (a, n) = Some t \<Longrightarrow> T (a, n) = Some t \<Longrightarrow> False"
  shows "tracked S T A"
  unfolding tracked_def using assms by blast

lemma tracked_all: "tracked S T A \<Longrightarrow> A h = Some t \<Longrightarrow> tx_hash_once t \<and> tx_hash_cache t = h"
  by (simp add: tracked_def)

lemma tracked_S: "tracked S T A \<Longrightarrow> S (a, n) = Some t \<Longrightarrow> A (tx_hash_cache t) = Some t \<and> tx_from t = a \<and> tx_nonce t = n"
  by (simp add: tracked_def)

lemma tracked_T: "tracked S T A \<Longrightarrow> T (a, n) = Some t \<Longrightarrow> A (tx_hash_cache t) = Some t \<and> tx_from t = a \<and> tx_nonce t = n"
  by (simp add: tracked_def)

lemma tracked_disjoint: "tracked S T A \<Longrightarrow> S (a, n) = Some t \<Longrightarrow> T (a, n) = Some t \<Longrightarrow> False"
  unfolding tracked_def by blast

text \<open>A pending transaction leaves the pool: its slot and its hash go.\<close>

lemma tracked_drop:
  assumes tr: "tracked S T A" and v: "S (a, n) = Some v"
  shows "tracked (S((a, n) := None)) T (A(tx_hash_cache v := None))"
proof -
  have other: "tx_hash_cache t \<noteq> tx_hash_cache v" if "A (tx_hash_cache t) = Some t" "t \<noteq> v" for t
    using that tracked_S [OF tr v] by auto
  have S_other: "t \<noteq> v" if "S (b, k) = Some t" "(b, k) \<noteq> (a, n)" for b k t
    using that tracked_S [OF tr that(1)] tracked_S [OF tr v] by auto
  have T_other: "t \<noteq> v" if "T (b, k) = Some t" for b k t
    using tracked_T [OF tr that] tracked_S [OF tr v] tracked_disjoint [OF tr v] that by auto
  show ?thesis
  proof (rule trackedI)
    fix b k t
    assume "(S((a, n) := None)) (b, k) = Some t"
    then have bk: "S (b, k) = Some t" "(b, k) \<noteq> (a, n)" by (auto split: if_splits)
    with other [of t] S_other [OF bk] tracked_S [OF tr bk(1)]
    show "(A(tx_hash_cache v := None)) (tx_hash_cache t) = Some t \<and> tx_from t = b \<and> tx_nonce t = k" by simp
  next
    fix b k t
    assume bk: "T (b, k) = Some t"
    with other [of t] T_other [OF bk] tracked_T [OF tr bk]
    show "(A(tx_hash_cache v := None)) (tx_hash_cache t) = Some t \<and> tx_from t = b \<and> tx_nonce t = k" by simp
  next
    fix h t
    assume "(A(tx_hash_cache v := None)) h = Some t"
    then show "tx_hash_once t \<and> tx_hash_cache t = h"
      using tracked_all [OF tr] by (auto split: if_splits)
  next
    fix b k t
    assume "(S((a, n) := None)) (b, k) = Some t" "T (b, k) = Some t"
    then show False using tracked_disjoint [OF tr] by (auto split: if_splits)
  qed
qed

lemma tracked_unqueue: "tracked S T A \<Longrightarrow> tracked S (T((a, n) := None)) A"
  by (rule trackedI) (auto dest: tracked_all tracked_S tracked_T tracked_disjoint split: if_splits)

lemma tracked_unslot: "tracked S T A \<Longrightarrow> tracked (S((a, n) := None)) T A"
  by (rule trackedI) (auto dest: tracked_all tracked_S tracked_T tracked_disjoint split: if_splits)

text \<open>Remove of a known transaction: its slot in both maps and its hash go.\<close>

lemma tracked_forget:
  assumes tr: "tracked S T A" and h: "A h = Some t"
  shows "tracked (S((tx_from t, tx_nonce t) := None)) (T((tx_from t, tx_nonce t) := None)) (A(h := None))"
proof (rule trackedI)
  fix b k u
  assume "(S((tx_from t, tx_nonce t) := None)) (b, k) = Some u"
  then have u: "S (b, k) = Some u" "(b, k) \<noteq> (tx_from t, tx_nonce t)" by (auto split: if_splits)
  with h tracked_S [OF tr u(1)] show "(A(h := None)) (tx_hash_cache u) = Some u \<and> tx_from u = b \<and> tx_nonce u = k" by auto
next
  fix b k u
  assume "(T((tx_from t, tx_nonce t) := None)) (b, k) = Some u"
  then have u: "T (b, k) = Some u" "(b, k) \<noteq> (tx_from t, tx_nonce t)" by (auto split: if_splits)
  with h tracked_T [OF tr u(1)] show "(A(h := None)) (tx_hash_cache u) = Some u \<and> tx_from u = b \<and> tx_nonce u = k" by auto
qed (use tr in \<open>auto dest: tracked_all tracked_disjoint split: if_splits\<close>)

text \<open>A known transaction takes its pending slot; a new one takes a pending or a queued slot.\<close>

lemma tracked_readd:
  assumes tr: "tracked S T A" and t: "A (tx_hash_cache t) = Some t" and T: "T (tx_from t, tx_nonce t) \<noteq> Some t"
  shows "tracked (S((tx_from t, tx_nonce t) \<mapsto> t)) T A"
  using assms by (intro trackedI) (auto dest: tracked_all tracked_S tracked_T tracked_disjoint split: if_splits)

lemma tracked_known:
  assumes tr: "tracked S T A" and new: "A (tx_hash_cache t) = None" and once: "tx_hash_once t"
  shows "tracked S T (A(tx_hash_cache t \<mapsto> t))" and "S (a, n) \<noteq> Some t" and "T (a, n) \<noteq> Some t"
proof -
  show "S (a, n) \<noteq> Some t" "T (a, n) \<noteq> Some t"
    using tracked_S [OF tr, of a n t] tracked_T [OF tr, of a n t] new by auto
  show "tracked S T (A(tx_hash_cache t \<mapsto> t))"
  proof (rule trackedI)
    fix h u
    assume "(A(tx_hash_cache t \<mapsto> t)) h = Some u"
    then show "tx_hash_once u \<and> tx_hash_cache u = h" using tracked_all [OF tr] once by (auto split: if_splits)
  next
    fix b k u
    assume "S (b, k) = Some u"
    with tracked_S [OF tr this] new
    show "(A(tx_hash_cache t \<mapsto> t)) (tx_hash_cache u) = Some u \<and> tx_from u = b \<and> tx_nonce u = k" by auto
  next
    fix b k u
    assume "T (b, k) = Some u"
    with tracked_T [OF tr this] new
    show "(A(tx_hash_cache t \<mapsto> t)) (tx_hash_cache u) = Some u \<and> tx_from u = b \<and> tx_nonce u = k" by auto
  qed (use tr in \<open>auto dest: tracked_disjoint\<close>)
qed

lemma tracked_new_pending:
  assumes "tracked S T A" "A (tx_hash_cache t) = None" "tx_hash_once t"
  shows "tracked (S((tx_from t, tx_nonce t) \<mapsto> t)) T (A(tx_hash_cache t \<mapsto> t))"
  using tracked_known(3) [OF assms] by (intro tracked_readd tracked_known(1) [OF assms]) simp_all

lemma tracked_new_queued:
  assumes "tracked S T A" "A (tx_hash_cache t) = None" "tx_hash_once t"
  shows "tracked S (T((tx_from t, tx_nonce t) \<mapsto> t)) (A(tx_hash_cache t \<mapsto> t))"
  using tracked_known(1) [OF assms] tracked_known(2) [OF assms]
  by (intro trackedI) (auto dest: tracked_all tracked_S tracked_T tracked_disjoint split: if_splits)

definition pool_core :: "pool \<Rightarrow> bool" where
  "pool_core p \<longleftrightarrow> maps_ok (pl_pending p) \<and> maps_ok (pl_queued p) \<and> finite (dom (pl_all p)) \<and>
     tracked (slot (pl_pending p)) (slot (pl_queued p)) (pl_all p)"

lemma pool_core_tracked: "pool_core p \<Longrightarrow> tracked (slot (pl_pending p)) (slot (pl_queued p)) (pl_all p)"
  by (simp add: pool_core_def)

lemma pool_core_hash:
  "pool_core p \<Longrightarrow> slot (pl_pending p) (a, n) = Some t \<Longrightarrow> tx_hash sha t = Ok (tx_hash_cache t, t)"
  using tracked_S [OF pool_core_tracked, of p a n t] tracked_all [OF pool_core_tracked, of p "tx_hash_cache t" t]
  by (simp add: tx_hash_def)

lemma pool_core_flatten:
  assumes "pool_core p"
  shows "None \<notin> set (tsm_flatten (map_at (pl_pending p) a))"
    and "Some t \<in> set (tsm_flatten (map_at (pl_pending p) a)) \<longleftrightarrow> slot (pl_pending p) (a, tx_nonce t) = Some t"
proof -
  have "tsm_ok (map_at (pl_pending p) a)" using assms by (simp add: pool_core_def maps_ok_at)
  then show "None \<notin> set (tsm_flatten (map_at (pl_pending p) a))"
    "Some t \<in> set (tsm_flatten (map_at (pl_pending p) a)) \<longleftrightarrow> slot (pl_pending p) (a, tx_nonce t) = Some t"
    using tsm.flat_no_nil tsm.flat_look by (auto simp: slot_def)
qed

text \<open>What making room for an account does: nothing, or its lowest pending transaction leaves.\<close>

definition shrinks :: "address \<Rightarrow> pool \<Rightarrow> (address \<Rightarrow> tx_sorted_map option) \<Rightarrow> (hash \<Rightarrow> transaction option) \<Rightarrow> bool" where
  "shrinks a p P A \<longleftrightarrow> maps_ok P \<and> dom P \<subseteq> insert a (dom (pl_pending p)) \<and> tracked (slot P) (slot (pl_queued p)) A \<and>
     slot P \<subseteq>\<^sub>m slot (pl_pending p) \<and> A \<subseteq>\<^sub>m pl_all p \<and>
     (\<forall>b n. b \<noteq> a \<longrightarrow> slot P (b, n) = slot (pl_pending p) (b, n)) \<and>
     (\<forall>h t. pl_all p h = Some t \<longrightarrow> (\<forall>n. slot (pl_pending p) (a, n) \<noteq> Some t) \<longrightarrow> A h = Some t)"

lemma drop_oldest_shrinks:
  assumes core: "pool_core p"
  shows "\<exists>P A. drop_oldest sha a (map_at (pl_pending p) a) (p\<lparr>pl_pending := (pl_pending p)(a \<mapsto> map_at (pl_pending p) a)\<rparr>) =
      Ok (p\<lparr>pl_pending := P, pl_all := A\<rparr>) \<and> shrinks a p P A"
proof -
  let ?m = "map_at (pl_pending p) a"
  have ok: "maps_ok (pl_pending p)" "tsm_ok ?m" and tr: "tracked (slot (pl_pending p)) (slot (pl_queued p)) (pl_all p)"
    using core by (simp_all add: pool_core_def maps_ok_at)
  show ?thesis
  proof (cases "tsm_flatten ?m")
    case Nil
    moreover have "shrinks a p ((pl_pending p)(a \<mapsto> ?m)) (pl_all p)"
      using ok tr by (auto simp: shrinks_def maps_ok_upd)
    ultimately show ?thesis
      by (intro exI [of _ "(pl_pending p)(a \<mapsto> ?m)"] exI [of _ "pl_all p"]) (simp add: drop_oldest_def)
  next
    case (Cons x xs)
    with pool_core_flatten(1) [OF core, of a] obtain v where x: "x = Some v" by (cases x) auto
    with Cons have v: "slot (pl_pending p) (a, tx_nonce v) = Some v"
      using pool_core_flatten(2) [OF core, of v a] by simp
    let ?P = "(pl_pending p)(a \<mapsto> tsm_remove (tx_nonce v) ?m)" and ?A = "(pl_all p)(tx_hash_cache v := None)"
    have "shrinks a p ?P ?A"
      unfolding shrinks_def
    proof (intro conjI allI impI)
      show "maps_ok ?P" using ok by (intro maps_ok_upd tsm.remove_ok)
      show "tracked (slot ?P) (slot (pl_queued p)) ?A" using tracked_drop [OF tr v] by simp
      show "slot ?P \<subseteq>\<^sub>m slot (pl_pending p)" "?A \<subseteq>\<^sub>m pl_all p" by (auto simp: map_le_def)
      show "dom ?P \<subseteq> insert a (dom (pl_pending p))" by auto
      show "b \<noteq> a \<Longrightarrow> slot ?P (b, n) = slot (pl_pending p) (b, n)" for b n by simp
      show "pl_all p h = Some t \<Longrightarrow> \<forall>n. slot (pl_pending p) (a, n) \<noteq> Some t \<Longrightarrow> ?A h = Some t" for h t
        using v tracked_S [OF tr v] by auto
    qed
    moreover have "drop_oldest sha a ?m (p\<lparr>pl_pending := (pl_pending p)(a \<mapsto> ?m)\<rparr>) = Ok (p\<lparr>pl_pending := ?P, pl_all := ?A\<rparr>)"
      by (simp add: drop_oldest_def Cons x pool_core_hash [OF core v])
    ultimately show ?thesis by blast
  qed
qed

lemma enqueue_pending_shrinks:
  assumes core: "pool_core p"
  shows "\<exists>P A. enqueue_pending sha a tx p = Ok (p\<lparr>pl_pending := P(a \<mapsto> tsm_put tx (map_at P a)), pl_all := A\<rparr>) \<and>
    shrinks a p P A"
proof (cases "tsm_len (map_at (pl_pending p) a) \<ge> pc_max_account_txs (pl_config p)")
  case True
  from drop_oldest_shrinks [OF core, of sha a] obtain P A where
    d: "drop_oldest sha a (map_at (pl_pending p) a) (p\<lparr>pl_pending := (pl_pending p)(a \<mapsto> map_at (pl_pending p) a)\<rparr>) =
      Ok (p\<lparr>pl_pending := P, pl_all := A\<rparr>)" and sh: "shrinks a p P A" by blast
  from True d have "enqueue_pending sha a tx p = Ok (p\<lparr>pl_pending := P(a \<mapsto> tsm_put tx (map_at P a)), pl_all := A\<rparr>)"
    by (simp add: enqueue_pending_def Let_def)
  with sh show ?thesis by blast
next
  case False
  let ?P = "(pl_pending p)(a \<mapsto> map_at (pl_pending p) a)"
  have "shrinks a p ?P (pl_all p)"
    using core by (auto simp: shrinks_def pool_core_def maps_ok_upd maps_ok_at)
  moreover have "enqueue_pending sha a tx p = Ok (p\<lparr>pl_pending := ?P(a \<mapsto> tsm_put tx (map_at ?P a)), pl_all := pl_all p\<rparr>)"
    using False by (simp add: enqueue_pending_def Let_def)
  ultimately show ?thesis by blast
qed

lemma pool_core_put:
  assumes "pool_core p" "shrinks a p P A" "tx_from tx = a" "A (tx_hash_cache tx) = Some tx"
    "slot (pl_queued p) (a, tx_nonce tx) \<noteq> Some tx"
  shows "pool_core (p\<lparr>pl_pending := P(a \<mapsto> tsm_put tx (map_at P a)), pl_all := A\<rparr>)"
proof -
  from assms(2) have P: "maps_ok P" "tracked (slot P) (slot (pl_queued p)) A" "A \<subseteq>\<^sub>m pl_all p"
    by (simp_all add: shrinks_def)
  have "tracked ((slot P)((a, tx_nonce tx) \<mapsto> tx)) (slot (pl_queued p)) A"
    using tracked_readd [OF P(2), of tx] assms(3-5) by simp
  moreover have "finite (dom A)"
    using map_le_implies_dom_le [OF P(3)] assms(1) by (auto simp: pool_core_def intro: finite_subset)
  ultimately show ?thesis
    using P assms(1) by (simp add: pool_core_def maps_ok_upd tsm.put_ok maps_ok_at)
qed

section \<open>Promotion and clean-up\<close>

definition same_env :: "pool \<Rightarrow> pool \<Rightarrow> bool" where
  "same_env p q \<longleftrightarrow> pl_config q = pl_config p \<and> pl_chain_id q = pl_chain_id p \<and> pl_locked q = pl_locked p \<and>
     pl_nonces q = pl_nonces p \<and> pl_gas_price q = pl_gas_price p"

lemma same_env_refl [simp]: "same_env p p"
  by (simp add: same_env_def)

lemma same_env_trans: "same_env p q \<Longrightarrow> same_env q r \<Longrightarrow> same_env p r"
  by (simp add: same_env_def)

definition promoted :: "u64 \<Rightarrow> address \<Rightarrow> pool \<Rightarrow> pool \<Rightarrow> bool" where
  "promoted k a p q \<longleftrightarrow> pool_core q \<and> same_env p q \<and> pl_all q \<subseteq>\<^sub>m pl_all p \<and>
     slot (pl_queued q) = (slot (pl_queued p))((a, k) := None) \<and>
     (\<forall>b n. b \<noteq> a \<longrightarrow> slot (pl_pending q) (b, n) = slot (pl_pending p) (b, n)) \<and>
     (\<forall>n t. slot (pl_pending q) (a, n) = Some t \<longrightarrow>
        slot (pl_pending p) (a, n) = Some t \<or> n = k \<and> slot (pl_queued p) (a, n) = Some t) \<and>
     (\<forall>t. slot (pl_queued p) (a, k) = Some t \<longrightarrow> slot (pl_pending q) (a, k) = Some t)"

lemma promote_one_promoted:
  assumes core: "pool_core p"
  shows "\<exists>q. promote_one sha N a p = Ok q \<and> promoted (nonce_at N a) a p q"
proof (cases "slot (pl_queued p) (a, nonce_at N a)")
  case None
  then have "promote_one sha N a p = Ok p"
    by (auto simp: promote_one_def slot_def map_at_def tsm_get_def split: option.splits)
  moreover have "promoted (nonce_at N a) a p p"
    using core None by (simp add: promoted_def fun_upd_idem)
  ultimately show ?thesis by blast
next
  case (Some t)
  let ?k = "nonce_at N a"
  have tr: "tracked (slot (pl_pending p)) (slot (pl_queued p)) (pl_all p)" by (rule pool_core_tracked [OF core])
  have t: "pl_all p (tx_hash_cache t) = Some t" "tx_from t = a" "tx_nonce t = ?k"
    using tracked_T [OF tr Some] by simp_all
  from Some obtain m where m: "pl_queued p a = Some m" "tsm_items m ?k = Some t"
    by (auto simp: slot_def map_at_def split: option.splits)
  let ?Q = "(pl_queued p)(a \<mapsto> tsm_remove ?k m)"
  let ?p = "p\<lparr>pl_queued := ?Q\<rparr>"
  from m have mat: "map_at (pl_queued p) a = m" by (simp add: map_at_def)
  have sQ: "slot ?Q = (slot (pl_queued p))((a, ?k) := None)" using slot_tsm_remove [of "pl_queued p" a ?k] by (simp only: mat)
  have Qok: "maps_ok ?Q" using core maps_ok_at [of "pl_queued p" a] mat
    by (auto simp: pool_core_def intro!: maps_ok_upd tsm.remove_ok)
  have core1: "pool_core ?p"
    using core tracked_unqueue [OF tr, of a ?k] Qok by (simp add: pool_core_def sQ)
  from enqueue_pending_shrinks [OF core1, of sha a t] obtain P A where
    e: "enqueue_pending sha a t ?p = Ok (?p\<lparr>pl_pending := P(a \<mapsto> tsm_put t (map_at P a)), pl_all := A\<rparr>)"
    and sh: "shrinks a ?p P A" by blast
  let ?q = "?p\<lparr>pl_pending := P(a \<mapsto> tsm_put t (map_at P a)), pl_all := A\<rparr>"
  have notin: "slot (pl_pending p) (a, n) \<noteq> Some t" for n
    using tracked_S [OF tr, of a n t] tracked_disjoint [OF tr, of a ?k t] Some t(3) by auto
  have keep: "\<And>h u. pl_all p h = Some u \<Longrightarrow> \<forall>n. slot (pl_pending p) (a, n) \<noteq> Some u \<Longrightarrow> A h = Some u"
    using sh by (simp add: shrinks_def)
  have At: "A (tx_hash_cache t) = Some t" using keep [OF t(1)] notin by blast
  have coreq: "pool_core ?q"
    by (rule pool_core_put [OF core1 sh t(2) At]) (simp add: sQ t)
  have sub: "slot P \<subseteq>\<^sub>m slot (pl_pending p)" "A \<subseteq>\<^sub>m pl_all p"
    and oth: "\<And>b n. b \<noteq> a \<Longrightarrow> slot P (b, n) = slot (pl_pending p) (b, n)"
    using sh by (simp_all add: shrinks_def)
  have "promoted ?k a p ?q"
    unfolding promoted_def
  proof (intro conjI allI impI)
    show "pool_core ?q" by (rule coreq)
    show "same_env p ?q" by (simp add: same_env_def)
    show "pl_all ?q \<subseteq>\<^sub>m pl_all p" using sub by simp
    show "slot (pl_queued ?q) = (slot (pl_queued p))((a, ?k) := None)" using sQ by simp
    show "b \<noteq> a \<Longrightarrow> slot (pl_pending ?q) (b, n) = slot (pl_pending p) (b, n)" for b n using oth by simp
    show "slot (pl_pending ?q) (a, n) = Some u \<Longrightarrow>
        slot (pl_pending p) (a, n) = Some u \<or> n = ?k \<and> slot (pl_queued p) (a, n) = Some u" for n u
      using sub(1) Some t(3) by (auto simp: map_le_def dom_def split: if_splits)
    show "slot (pl_queued p) (a, ?k) = Some u \<Longrightarrow> slot (pl_pending ?q) (a, ?k) = Some u" for u
      using Some t(3) by simp
  qed
  moreover have "promote_one sha N a p = Ok ?q"
    using e m by (simp add: promote_one_def tsm_get_def)
  ultimately show ?thesis by blast
qed

lemma promote_all_promoted:
  "pool_core p \<Longrightarrow> distinct addrs \<Longrightarrow>
    \<exists>q. promote sha N addrs p = Ok q \<and> pool_core q \<and> same_env p q \<and> pl_all q \<subseteq>\<^sub>m pl_all p \<and>
      (\<forall>a n. a \<notin> set addrs \<longrightarrow> slot (pl_pending q) (a, n) = slot (pl_pending p) (a, n) \<and>
         slot (pl_queued q) (a, n) = slot (pl_queued p) (a, n)) \<and>
      (\<forall>a n. a \<in> set addrs \<longrightarrow> slot (pl_queued q) (a, n) = (if n = nonce_at N a then None else slot (pl_queued p) (a, n))) \<and>
      (\<forall>a n t. slot (pl_pending q) (a, n) = Some t \<longrightarrow>
         slot (pl_pending p) (a, n) = Some t \<or> n = nonce_at N a \<and> slot (pl_queued p) (a, n) = Some t) \<and>
      (\<forall>a t. a \<in> set addrs \<longrightarrow> slot (pl_queued p) (a, nonce_at N a) = Some t \<longrightarrow>
         slot (pl_pending q) (a, nonce_at N a) = Some t)"
proof (induction addrs arbitrary: p)
  case (Cons a addrs)
  from promote_one_promoted [OF Cons.prems(1), of sha N a] obtain r where
    r: "promote_one sha N a p = Ok r" "promoted (nonce_at N a) a p r" by blast
  then have core: "pool_core r" by (simp add: promoted_def)
  from Cons.prems(2) have d: "distinct addrs" "a \<notin> set addrs" by simp_all
  from Cons.IH [OF core d(1)] obtain q where q: "promote sha N addrs r = Ok q" "pool_core q" "same_env r q"
      "pl_all q \<subseteq>\<^sub>m pl_all r"
    "\<And>b n. b \<notin> set addrs \<Longrightarrow> slot (pl_pending q) (b, n) = slot (pl_pending r) (b, n) \<and>
         slot (pl_queued q) (b, n) = slot (pl_queued r) (b, n)"
    "\<And>b n. b \<in> set addrs \<Longrightarrow> slot (pl_queued q) (b, n) = (if n = nonce_at N b then None else slot (pl_queued r) (b, n))"
    "\<And>b n t. slot (pl_pending q) (b, n) = Some t \<Longrightarrow>
         slot (pl_pending r) (b, n) = Some t \<or> n = nonce_at N b \<and> slot (pl_queued r) (b, n) = Some t"
    "\<And>b t. b \<in> set addrs \<Longrightarrow> slot (pl_queued r) (b, nonce_at N b) = Some t \<Longrightarrow>
         slot (pl_pending q) (b, nonce_at N b) = Some t"
    by blast
  from r(2) have p: "same_env p r" "pl_all r \<subseteq>\<^sub>m pl_all p"
    "slot (pl_queued r) = (slot (pl_queued p))((a, nonce_at N a) := None)"
    "\<And>b n. b \<noteq> a \<Longrightarrow> slot (pl_pending r) (b, n) = slot (pl_pending p) (b, n)"
    "\<And>n t. slot (pl_pending r) (a, n) = Some t \<Longrightarrow>
        slot (pl_pending p) (a, n) = Some t \<or> n = nonce_at N a \<and> slot (pl_queued p) (a, n) = Some t"
    "\<And>t. slot (pl_queued p) (a, nonce_at N a) = Some t \<Longrightarrow> slot (pl_pending r) (a, nonce_at N a) = Some t"
    unfolding promoted_def by blast+
  show ?case
  proof (intro exI [of _ q] conjI allI impI)
    show "promote sha N (a # addrs) p = Ok q" using r q by simp
    show "pool_core q" by (rule q)
    show "same_env p q" by (rule same_env_trans [OF p(1) q(3)])
    show "pl_all q \<subseteq>\<^sub>m pl_all p" by (rule map_le_trans [OF q(4) p(2)])
  next
    fix b n
    assume "b \<notin> set (a # addrs)"
    then show "slot (pl_pending q) (b, n) = slot (pl_pending p) (b, n)"
      "slot (pl_queued q) (b, n) = slot (pl_queued p) (b, n)"
      using q(5) [of b n] p(3,4) by auto
  next
    fix b n
    assume "b \<in> set (a # addrs)"
    then show "slot (pl_queued q) (b, n) = (if n = nonce_at N b then None else slot (pl_queued p) (b, n))"
      using q(5) [of b n] q(6) [of b n] p(3) d(2) by (cases "b = a") auto
  next
    fix b n t
    assume "slot (pl_pending q) (b, n) = Some t"
    with q(7) [of b n t] p(3,4,5) show "slot (pl_pending p) (b, n) = Some t \<or>
        n = nonce_at N b \<and> slot (pl_queued p) (b, n) = Some t"
      by (cases "b = a") (auto split: if_splits)
  next
    fix b t
    assume "b \<in> set (a # addrs)" "slot (pl_queued p) (b, nonce_at N b) = Some t"
    then show "slot (pl_pending q) (b, nonce_at N b) = Some t"
      using q(5) [of b "nonce_at N b"] q(8) [of b t] p(3,6) d(2) by (cases "b = a") auto
  qed
qed simp

definition cleaned :: "u64 \<Rightarrow> address \<Rightarrow> pool \<Rightarrow> pool \<Rightarrow> bool" where
  "cleaned c a p q \<longleftrightarrow> pool_core q \<and> same_env p q \<and> pl_all q \<subseteq>\<^sub>m pl_all p \<and> pl_queued q = pl_queued p \<and>
     slot (pl_pending q) \<subseteq>\<^sub>m slot (pl_pending p) \<and>
     (\<forall>b n. b \<noteq> a \<longrightarrow> slot (pl_pending q) (b, n) = slot (pl_pending p) (b, n)) \<and>
     (\<forall>n. \<not> n < c \<longrightarrow> slot (pl_pending q) (a, n) = slot (pl_pending p) (a, n))"

lemma cleaned_refl: "pool_core p \<Longrightarrow> cleaned c a p p"
  by (simp add: cleaned_def)

lemma cleaned_trans: "cleaned c a p q \<Longrightarrow> cleaned c a q r \<Longrightarrow> cleaned c a p r"
  unfolding cleaned_def by (auto intro: map_le_trans same_env_trans)

lemma cleaned_one:
  assumes core: "pool_core p" and v: "slot (pl_pending p) (a, tx_nonce v) = Some v" and low: "tx_nonce v < c"
  shows "cleaned c a p (p\<lparr>pl_pending := remove_nonce a (tx_nonce v) (pl_pending p), pl_all := (pl_all p)(tx_hash_cache v := None)\<rparr>)"
  using core tracked_drop [OF pool_core_tracked [OF core] v] low
  by (auto simp: cleaned_def pool_core_def same_env_def map_le_def maps_ok_remove_nonce)

lemma drop_below_cleaned:
  "pool_core p \<Longrightarrow> None \<notin> set txs \<Longrightarrow> distinct (map (tx_nonce \<circ> the) txs) \<Longrightarrow>
    (\<And>t. Some t \<in> set txs \<Longrightarrow> slot (pl_pending p) (a, tx_nonce t) = Some t) \<Longrightarrow>
    \<exists>q. drop_below sha c a txs p = Ok q \<and> cleaned c a p q \<and>
      (\<forall>t. Some t \<in> set txs \<longrightarrow> tx_nonce t < c \<longrightarrow> slot (pl_pending q) (a, tx_nonce t) = None)"
proof (induction txs arbitrary: p)
  case Nil
  then show ?case by (auto intro: cleaned_refl)
next
  case (Cons x txs)
  from Cons.prems(2) obtain v where x: "x = Some v" by (cases x) auto
  have v: "slot (pl_pending p) (a, tx_nonce v) = Some v" using Cons.prems(4) x by simp
  show ?case
  proof (cases "tx_nonce v < c")
    case True
    let ?p = "p\<lparr>pl_pending := remove_nonce a (tx_nonce v) (pl_pending p), pl_all := (pl_all p)(tx_hash_cache v := None)\<rparr>"
    have one: "cleaned c a p ?p" by (rule cleaned_one [OF Cons.prems(1) v True])
    have "slot (pl_pending ?p) (a, tx_nonce t) = Some t" if "Some t \<in> set txs" for t
    proof -
      have "tx_nonce t \<noteq> tx_nonce v" using Cons.prems(3) that x by force
      with Cons.prems(4) [of t] that show ?thesis by simp
    qed
    moreover have "pool_core ?p" using one by (simp add: cleaned_def)
    ultimately obtain q where q: "drop_below sha c a txs ?p = Ok q" "cleaned c a ?p q"
      "\<And>t. Some t \<in> set txs \<Longrightarrow> tx_nonce t < c \<Longrightarrow> slot (pl_pending q) (a, tx_nonce t) = None"
      using Cons.IH [of ?p] Cons.prems(2,3) by auto
    have "slot (pl_pending q) \<subseteq>\<^sub>m slot (pl_pending ?p)" using q(2) by (simp add: cleaned_def)
    then have "slot (pl_pending q) (a, tx_nonce v) = None"
      by (rule map_le_None) simp
    moreover have "drop_below sha c a (x # txs) p = Ok q"
      using q(1) True x pool_core_hash [OF Cons.prems(1) v, of sha] by simp
    ultimately show ?thesis using cleaned_trans [OF one q(2)] q(3) x by auto
  next
    case False
    from Cons.IH [OF Cons.prems(1)] Cons.prems(2-4) obtain q where
      q: "drop_below sha c a txs p = Ok q" "cleaned c a p q"
        "\<And>t. Some t \<in> set txs \<Longrightarrow> tx_nonce t < c \<Longrightarrow> slot (pl_pending q) (a, tx_nonce t) = None" by auto
    from q(1) False x have "drop_below sha c a (x # txs) p = Ok q" by simp
    with q(2,3) False x show ?thesis by auto
  qed
qed

lemma drop_account:
  assumes core: "pool_core p"
  shows "\<exists>q. drop_below sha c a (tsm_flatten (map_at (pl_pending p) a)) p = Ok q \<and> cleaned c a p q \<and>
    (\<forall>n t. slot (pl_pending q) (a, n) = Some t \<longrightarrow> \<not> n < c)"
proof -
  let ?l = "tsm_flatten (map_at (pl_pending p) a)"
  have "tsm_ok (map_at (pl_pending p) a)" using core by (simp add: pool_core_def maps_ok_at)
  then have "distinct (map (tx_nonce \<circ> the) ?l)" by (simp add: tsm_flatten_nonces) (simp add: tsm_ok_def)
  with drop_below_cleaned [OF core pool_core_flatten(1) [OF core, of a], of a sha c] pool_core_flatten(2) [OF core]
  obtain q where q: "drop_below sha c a ?l p = Ok q" "cleaned c a p q"
    "\<And>t. Some t \<in> set ?l \<Longrightarrow> tx_nonce t < c \<Longrightarrow> slot (pl_pending q) (a, tx_nonce t) = None" by blast
  have "\<not> n < c" if t: "slot (pl_pending q) (a, n) = Some t" for n t
  proof
    assume "n < c"
    have "slot (pl_pending p) (a, n) = Some t"
      using q(2) t unfolding cleaned_def by (blast intro: map_le_Some)
    moreover from this have "tx_nonce t = n" using tracked_S [OF pool_core_tracked [OF core]] by blast
    ultimately show False using q(3) [of t] pool_core_flatten(2) [OF core, of t a] \<open>n < c\<close> t by simp
  qed
  with q show ?thesis by blast
qed

lemma drop_stale_ok:
  "pool_core p \<Longrightarrow> \<exists>q. drop_stale sha N addrs p = Ok q \<and> pool_core q \<and> same_env p q \<and> pl_all q \<subseteq>\<^sub>m pl_all p \<and>
      pl_queued q = pl_queued p \<and> slot (pl_pending q) \<subseteq>\<^sub>m slot (pl_pending p) \<and>
      (\<forall>a n. \<not> n < nonce_at N a \<longrightarrow> slot (pl_pending q) (a, n) = slot (pl_pending p) (a, n)) \<and>
      (\<forall>a n t. a \<in> set addrs \<longrightarrow> slot (pl_pending q) (a, n) = Some t \<longrightarrow> \<not> n < nonce_at N a)"
proof (induction addrs arbitrary: p)
  case (Cons a addrs)
  from drop_account [OF Cons.prems, of sha "nonce_at N a" a] obtain r where
    r: "drop_below sha (nonce_at N a) a (tsm_flatten (map_at (pl_pending p) a)) p = Ok r" "cleaned (nonce_at N a) a p r"
    "\<And>n t. slot (pl_pending r) (a, n) = Some t \<Longrightarrow> \<not> n < nonce_at N a" by blast
  then have core: "pool_core r" by (simp add: cleaned_def)
  from Cons.IH [OF core] obtain q where
    q: "drop_stale sha N addrs r = Ok q" "pool_core q" "same_env r q" "pl_all q \<subseteq>\<^sub>m pl_all r" "pl_queued q = pl_queued r"
      "slot (pl_pending q) \<subseteq>\<^sub>m slot (pl_pending r)"
      "\<And>a n. \<not> n < nonce_at N a \<Longrightarrow> slot (pl_pending q) (a, n) = slot (pl_pending r) (a, n)"
      "\<And>a n t. a \<in> set addrs \<Longrightarrow> slot (pl_pending q) (a, n) = Some t \<Longrightarrow> \<not> n < nonce_at N a"
    by blast
  from r(2) have p: "same_env p r" "pl_all r \<subseteq>\<^sub>m pl_all p" "pl_queued r = pl_queued p"
      "slot (pl_pending r) \<subseteq>\<^sub>m slot (pl_pending p)"
      "\<And>b n. b \<noteq> a \<Longrightarrow> slot (pl_pending r) (b, n) = slot (pl_pending p) (b, n)"
      "\<And>n. \<not> n < nonce_at N a \<Longrightarrow> slot (pl_pending r) (a, n) = slot (pl_pending p) (a, n)"
    unfolding cleaned_def by blast+
  show ?case
  proof (intro exI [of _ q] conjI allI impI)
    show "drop_stale sha N (a # addrs) p = Ok q" using r q by simp
    show "pool_core q" by (rule q)
    show "same_env p q" by (rule same_env_trans [OF p(1) q(3)])
    show "pl_all q \<subseteq>\<^sub>m pl_all p" by (rule map_le_trans [OF q(4) p(2)])
    show "pl_queued q = pl_queued p" using p(3) q(5) by simp
    show "slot (pl_pending q) \<subseteq>\<^sub>m slot (pl_pending p)" by (rule map_le_trans [OF q(6) p(4)])
  next
    fix b n
    assume "\<not> n < nonce_at N b"
    then show "slot (pl_pending q) (b, n) = slot (pl_pending p) (b, n)"
      using q(7) [of n b] p(5) [of b n] p(6) [of n] by (cases "b = a") auto
  next
    fix b n t
    assume b: "b \<in> set (a # addrs)" and t: "slot (pl_pending q) (b, n) = Some t"
    from q(6) t have "slot (pl_pending r) (b, n) = Some t" by (rule map_le_Some)
    then show "\<not> n < nonce_at N b"
      using b t q(8) [of b n t] r(3) [of n t] by (cases "b = a") simp_all
  qed
qed simp

section \<open>The methods of the pool\<close>

lemma rbind_Ok_iff: "rbind r f = Some (Ok b) \<longleftrightarrow> (\<exists>a. r = Some (Ok a) \<and> f a = Some (Ok b))"
  by (cases "(r, f)" rule: rbind.cases) auto

definition pool_inv :: "pool \<Rightarrow> bool" where
  "pool_inv p \<longleftrightarrow> \<not> pl_locked p \<and> pool_core p \<and>
     (\<forall>a n t. slot (pl_pending p) (a, n) = Some t \<longrightarrow> \<not> n < nonce_at (pl_nonces p) a) \<and>
     int (card (dom (pl_all p))) \<le> max 0 (pc_max_txs (pl_config p))"

lemma pool_core_locked [simp]: "pool_core (p\<lparr>pl_locked := b\<rparr>) = pool_core p"
  by (simp add: pool_core_def)

lemma locked_free: "\<not> pl_locked p \<Longrightarrow>
    locked body p = rbind (body (p\<lparr>pl_locked := True\<rparr>)) (\<lambda>q. Some (Ok (q\<lparr>pl_locked := False\<rparr>)))"
  by (simp add: locked_def)

lemma pool_core_card:
  assumes "A \<subseteq>\<^sub>m pl_all p" "pool_core p"
  shows "card (dom A) \<le> card (dom (pl_all p))"
  using map_le_implies_dom_le [OF assms(1)] assms(2) by (auto simp: pool_core_def intro: card_mono)

lemma place_pending:
  assumes core: "pool_core p" and new: "pl_all p (tx_hash_cache tx) = None" and once: "tx_hash_once tx"
  shows "\<exists>P A. enqueue_pending sha (tx_from tx) tx p = Ok (p\<lparr>pl_pending := P, pl_all := A\<rparr>) \<and>
    pool_core (p\<lparr>pl_pending := P, pl_all := A(tx_hash_cache tx \<mapsto> tx)\<rparr>) \<and> A \<subseteq>\<^sub>m pl_all p \<and>
    slot P \<subseteq>\<^sub>m (slot (pl_pending p))((tx_from tx, tx_nonce tx) \<mapsto> tx) \<and>
    slot P (tx_from tx, tx_nonce tx) = Some tx"
proof -
  let ?a = "tx_from tx" and ?h = "tx_hash_cache tx"
  from enqueue_pending_shrinks [OF core, of sha ?a tx] obtain P A where
    e: "enqueue_pending sha ?a tx p = Ok (p\<lparr>pl_pending := P(?a \<mapsto> tsm_put tx (map_at P ?a)), pl_all := A\<rparr>)"
    and sh: "shrinks ?a p P A" by blast
  from sh have P: "maps_ok P" "tracked (slot P) (slot (pl_queued p)) A" "A \<subseteq>\<^sub>m pl_all p" "slot P \<subseteq>\<^sub>m slot (pl_pending p)"
    by (simp_all add: shrinks_def)
  have "A ?h = None" by (rule map_le_None [OF P(3) new])
  from tracked_new_pending [OF P(2) this once]
  have "tracked (slot (P(?a \<mapsto> tsm_put tx (map_at P ?a)))) (slot (pl_queued p)) (A(?h \<mapsto> tx))" by simp
  moreover have "finite (dom A)"
    using map_le_implies_dom_le [OF P(3)] core by (auto simp: pool_core_def intro: finite_subset)
  ultimately have "pool_core (p\<lparr>pl_pending := P(?a \<mapsto> tsm_put tx (map_at P ?a)), pl_all := A(?h \<mapsto> tx)\<rparr>)"
    using P(1) core by (simp add: pool_core_def maps_ok_upd tsm.put_ok maps_ok_at)
  moreover have "slot (P(?a \<mapsto> tsm_put tx (map_at P ?a))) \<subseteq>\<^sub>m (slot (pl_pending p))((?a, tx_nonce tx) \<mapsto> tx)"
    using P(4) by simp
  ultimately show ?thesis using e P(3)
    by (intro exI [of _ "P(?a \<mapsto> tsm_put tx (map_at P ?a))"] exI [of _ A]) simp
qed

lemma place_queued:
  assumes core: "pool_core p" and new: "pl_all p (tx_hash_cache tx) = None" and once: "tx_hash_once tx"
  shows "pool_core ((enqueue_tx (tx_from tx) tx p)\<lparr>pl_all := (pl_all p)(tx_hash_cache tx \<mapsto> tx)\<rparr>)"
  using core tracked_new_queued [OF pool_core_tracked [OF core] new once]
  by (simp add: enqueue_tx_def pool_core_def maps_ok_upd tsm.put_ok maps_ok_at)

text \<open>What a call of \<open>Add\<close> does that gets past the checks.\<close>

definition admissible :: "(byte list \<Rightarrow> hash) \<Rightarrow> transaction \<Rightarrow> transaction \<Rightarrow> pool \<Rightarrow> bool" where
  "admissible sha tx0 tx p \<longleftrightarrow> tx_hash sha tx0 = Ok (tx_hash_cache tx, tx) \<and> pl_all p (tx_hash_cache tx) = None \<and>
     tx_signature tx \<noteq> None \<and> pool_validate_tx tx p = Ok ()"

lemma tx_hash_facts:
  assumes "tx_hash sha tx0 = Ok (h, tx)"
  shows "h = tx_hash_cache tx" "tx_hash_once tx" "tx_signature tx = tx_signature tx0"
  using assms by (auto simp: tx_hash_def obind_Ok_iff split: if_splits)

lemma add_body_admissible:
  "admissible sha tx0 tx p \<Longrightarrow> add_body sha ord tx0 p = rbind (make_room sha ord p) (\<lambda>p1.
     rbind (Some (place_tx sha tx p1)) (\<lambda>p2. Some (Ok (p2\<lparr>pl_all := (pl_all p2)(tx_hash_cache tx \<mapsto> tx)\<rparr>))))"
  using tx_hash_facts [of sha tx0] by (auto simp: add_body_def admissible_def)

lemma add_body_Ok:
  assumes "add_body sha ord tx0 p = Some (Ok q)"
  shows "\<exists>tx. admissible sha tx0 tx p"
proof -
  from assms obtain h tx where t: "tx_hash sha tx0 = Ok (h, tx)"
    by (cases "tx_hash sha tx0") (auto simp: add_body_def)
  have "pool_validate_tx tx p = Ok ()"
    using assms t by (cases "pool_validate_tx tx p") (auto simp: add_body_def split: if_splits)
  with assms t tx_hash_facts [OF t] show ?thesis
    by (auto simp: add_body_def admissible_def split: if_splits)
qed

lemma lowest_price_some:
  "\<forall>x \<in> set txs. \<exists>t. x = Some t \<and> tx_gas_price t \<noteq> None \<Longrightarrow> tx_gas_price l \<noteq> None \<Longrightarrow>
    \<exists>t. lowest_price (Some l) txs = Ok (Some t)"
proof (induction txs arbitrary: l)
  case (Cons x txs)
  from Cons.prems obtain t p where x: "x = Some t" "tx_gas_price t = Some p" by auto
  from Cons.prems obtain k where l: "tx_gas_price l = Some k" by auto
  show ?case using Cons.IH [of t] Cons.IH [of l] Cons.prems x l by (simp add: amount_cmp_def)
qed simp

lemma locked_full_blocks:
  assumes "pl_locked p" "go_order ord" "pool_core p" "dom (pl_all p) \<noteq> {}" "pool_full p"
    and price: "\<And>h t. pl_all p h = Some t \<Longrightarrow> tx_gas_price t \<noteq> None"
  shows "make_room sha ord p = None"
proof -
  have fin: "finite (dom (pl_all p))" using assms(3) by (simp add: pool_core_def)
  then have set: "set (ord (dom (pl_all p))) = dom (pl_all p)" using assms(2) by (simp add: go_order_def)
  then obtain h hs where hs: "ord (dom (pl_all p)) = h # hs"
    using assms(4) by (metis list.exhaust set_empty)
  have "\<exists>t. pl_all p k = Some t \<and> tx_gas_price t \<noteq> None" if "k \<in> set (h # hs)" for k
    using that price set unfolding hs by blast
  then have all: "\<forall>x \<in> set (map (pl_all p) (h # hs)). \<exists>t. x = Some t \<and> tx_gas_price t \<noteq> None" by auto
  then obtain t where t: "pl_all p h = Some t" "tx_gas_price t \<noteq> None" by auto
  from all have "\<forall>x \<in> set (map (pl_all p) hs). \<exists>t. x = Some t \<and> tx_gas_price t \<noteq> None" by simp
  from lowest_price_some [OF this t(2)] obtain u where "lowest_price (Some t) (map (pl_all p) hs) = Ok (Some u)" by blast
  then have "lowest_price None (map (pl_all p) (ord (dom (pl_all p)))) = Ok (Some u)"
    unfolding hs by (simp add: t(1))
  with assms(1,5) show ?thesis
    by (simp add: make_room_def evict_lowest_def remove_tx_def locked_def)
qed

lemma make_room_Ok:
  assumes "pl_locked p" "make_room sha ord p = Some (Ok q)"
  shows "q = p" "\<not> pool_full p"
proof -
  have "q = p \<and> \<not> pool_full p"
    using assms
    by (cases "lowest_price None (map (pl_all p) (ord (dom (pl_all p))))")
      (auto simp: make_room_def evict_lowest_def remove_tx_def locked_def split: if_splits option.splits)
  then show "q = p" "\<not> pool_full p" by simp_all
qed

lemma admissible_locked [simp]: "admissible sha tx0 tx (p\<lparr>pl_locked := b\<rparr>) = admissible sha tx0 tx p"
  by (simp add: admissible_def pool_validate_tx_def)

lemma pool_full_locked [simp]: "pool_full (p\<lparr>pl_locked := b\<rparr>) = pool_full p"
  by (simp add: pool_full_def)

lemma add_tx_admissible:
  assumes "\<not> pl_locked p" "admissible sha tx0 tx p" "\<not> pool_full p"
  shows "add_tx sha ord tx0 p = rbind (Some (place_tx sha tx (p\<lparr>pl_locked := True\<rparr>)))
    (\<lambda>q. Some (Ok (q\<lparr>pl_all := (pl_all q)(tx_hash_cache tx \<mapsto> tx), pl_locked := False\<rparr>)))"
proof -
  have "make_room sha ord (p\<lparr>pl_locked := True\<rparr>) = Some (Ok (p\<lparr>pl_locked := True\<rparr>))"
    using assms(3) by (simp add: make_room_def)
  then show ?thesis
    using add_body_admissible [of sha tx0 tx "p\<lparr>pl_locked := True\<rparr>" ord] assms
    by (cases "place_tx sha tx (p\<lparr>pl_locked := True\<rparr>)") (simp_all add: add_tx_def locked_free)
qed

text \<open>The pool after an accepted transaction, and the four outcomes of its nonce.\<close>

definition accepted :: "bool \<Rightarrow> transaction \<Rightarrow> pool \<Rightarrow> pool \<Rightarrow> bool" where
  "accepted ahead tx p q \<longleftrightarrow> pool_core q \<and> same_env p q \<and> pl_all q (tx_hash_cache tx) = Some tx \<and>
     pl_all q \<subseteq>\<^sub>m (pl_all p)(tx_hash_cache tx \<mapsto> tx) \<and>
     slot (if ahead then pl_queued q else pl_pending q) (tx_from tx, tx_nonce tx) = Some tx \<and>
     slot (pl_pending q) \<subseteq>\<^sub>m (if ahead then slot (pl_pending p) else (slot (pl_pending p))((tx_from tx, tx_nonce tx) \<mapsto> tx)) \<and>
     (if ahead then slot (pl_queued q) = (slot (pl_queued p))((tx_from tx, tx_nonce tx) \<mapsto> tx) \<and> pl_pending q = pl_pending p
      else pl_queued q = pl_queued p)"

lemma add_tx_cases:
  fixes sha ord tx0 p
  assumes un: "\<not> pl_locked p" and core: "pool_core p" and adm: "admissible sha tx0 tx p" and room: "\<not> pool_full p"
  defines "n \<equiv> tx_nonce tx" and "c \<equiv> nonce_at (pl_nonces p) (tx_from tx)" and "r \<equiv> add_tx sha ord tx0 p"
  shows "n < c \<Longrightarrow> r = Some (Err err_pool_nonce_low)"
    and "n = c \<Longrightarrow> \<exists>q. r = Some (Ok q) \<and> accepted False tx p q"
    and "n > c \<Longrightarrow> n \<le> c + pc_max_queued_nonce (pl_config p) \<Longrightarrow> \<exists>q. r = Some (Ok q) \<and> accepted True tx p q"
    and "n > c \<Longrightarrow> n > c + pc_max_queued_nonce (pl_config p) \<Longrightarrow> r = Some (Err err_pool_nonce_high)"
proof -
  let ?p = "p\<lparr>pl_locked := True\<rparr>" and ?h = "tx_hash_cache tx"
  have r: "r = rbind (Some (place_tx sha tx ?p)) (\<lambda>q. Some (Ok (q\<lparr>pl_all := (pl_all q)(?h \<mapsto> tx), pl_locked := False\<rparr>)))"
    unfolding r_def by (rule add_tx_admissible [OF un adm room])
  have new: "pl_all p ?h = None" and once: "tx_hash_once tx"
    using adm tx_hash_facts(2) by (auto simp: admissible_def)
  show "n < c \<Longrightarrow> r = Some (Err err_pool_nonce_low)"
    and "n > c \<Longrightarrow> n > c + pc_max_queued_nonce (pl_config p) \<Longrightarrow> r = Some (Err err_pool_nonce_high)"
    using r by (auto simp: place_tx_def n_def c_def Let_def dest: less_asym)
  show "\<exists>q. r = Some (Ok q) \<and> accepted False tx p q" if "n = c"
  proof -
    have core1: "pool_core ?p" using core by simp
    from place_pending [OF core1 _ once, of sha] new obtain P A where
      e: "enqueue_pending sha (tx_from tx) tx ?p = Ok (?p\<lparr>pl_pending := P, pl_all := A\<rparr>)"
      and k: "pool_core (?p\<lparr>pl_pending := P, pl_all := A(?h \<mapsto> tx)\<rparr>)" and A: "A \<subseteq>\<^sub>m pl_all p"
      and P: "slot P \<subseteq>\<^sub>m (slot (pl_pending p))((tx_from tx, tx_nonce tx) \<mapsto> tx)" "slot P (tx_from tx, tx_nonce tx) = Some tx"
      by auto
    let ?q = "p\<lparr>pl_pending := P, pl_all := A(?h \<mapsto> tx)\<rparr>"
    from e that have "r = Some (Ok (?p\<lparr>pl_pending := P, pl_all := A(?h \<mapsto> tx), pl_locked := False\<rparr>))"
      unfolding r by (simp add: place_tx_def n_def c_def Let_def)
    also have "?p\<lparr>pl_pending := P, pl_all := A(?h \<mapsto> tx), pl_locked := False\<rparr> = ?q"
      using un by (cases p) simp
    finally have "r = Some (Ok ?q)" .
    moreover have "accepted False tx p ?q"
      using k A P by (simp add: accepted_def same_env_def pool_core_def)
    ultimately show ?thesis by blast
  qed
  show "\<exists>q. r = Some (Ok q) \<and> accepted True tx p q" if "n > c" "n \<le> c + pc_max_queued_nonce (pl_config p)"
  proof -
    let ?q = "(enqueue_tx (tx_from tx) tx p)\<lparr>pl_all := (pl_all p)(?h \<mapsto> tx)\<rparr>"
    have "r = Some (Ok ((enqueue_tx (tx_from tx) tx ?p)\<lparr>pl_all := (pl_all p)(?h \<mapsto> tx), pl_locked := False\<rparr>))"
      unfolding r using leD [OF that(2)] less_not_sym [OF that(1)] that(1)
      by (simp add: place_tx_def n_def c_def Let_def enqueue_tx_def)
    also have "(enqueue_tx (tx_from tx) tx ?p)\<lparr>pl_all := (pl_all p)(?h \<mapsto> tx), pl_locked := False\<rparr> = ?q"
      using un by (cases p) (simp add: enqueue_tx_def)
    finally have "r = Some (Ok ?q)" .
    moreover have "accepted True tx p ?q"
      using place_queued [OF core new once] by (simp add: accepted_def same_env_def enqueue_tx_def)
    ultimately show ?thesis by blast
  qed
qed

end
