(* ===== verification/TxPoolReach.thy ===== *)
theory TxPoolReach
  imports TxPoolProps
begin

text \<open>
  The transaction pool as a state machine: one step is one method call from outside, the reachable
  pools are those that any sequence of calls leads to from \<open>NewPool\<close>. The invariant of the reachable
  pools, what \<open>Add\<close> and \<open>Reset\<close> do in them, and two faults: \<open>Add\<close> on a full pool never returns, and
  a replaced transaction stays known.
\<close>

inductive pool_step :: "(byte list \<Rightarrow> hash) \<Rightarrow> pool \<Rightarrow> pool \<Rightarrow> bool" for sha where
  step_price: "set_gas_price gp p = Some (Ok q) \<Longrightarrow> pool_step sha p q"
| step_add: "go_order ord \<Longrightarrow> add_tx sha ord tx p = Some (Ok q) \<Longrightarrow> pool_step sha p q"
| step_remove: "pl_all p (tx_hash_cache tx) = Some tx \<Longrightarrow> remove_tx sha tx p = Some (Ok q) \<Longrightarrow> pool_step sha p q"
| step_reset: "go_order ord \<Longrightarrow> finite (dom N) \<Longrightarrow> reset_pool sha ord N p = Some (Ok q) \<Longrightarrow> pool_step sha p q"

inductive pool_reachable :: "(byte list \<Rightarrow> hash) \<Rightarrow> tx_pool_config \<Rightarrow> u64 \<Rightarrow> pool \<Rightarrow> bool" for sha config chainID where
  reach_new: "pool_reachable sha config chainID (new_pool config chainID)"
| reach_step: "pool_reachable sha config chainID p \<Longrightarrow> pool_step sha p q \<Longrightarrow> pool_reachable sha config chainID q"

lemma pool_inv_new: "pool_inv (new_pool config chainID)"
  by (simp add: pool_inv_def new_pool_def pool_core_def tracked_def)

lemma accepted_inv:
  assumes inv: "pool_inv p" and room: "\<not> pool_full p" and acc: "accepted ahead tx p q"
    and low: "ahead \<or> tx_nonce tx = nonce_at (pl_nonces p) (tx_from tx)"
  shows "pool_inv q"
proof -
  from acc have q: "pool_core q" "same_env p q" "pl_all q \<subseteq>\<^sub>m (pl_all p)(tx_hash_cache tx \<mapsto> tx)"
    "slot (pl_pending q) \<subseteq>\<^sub>m (if ahead then slot (pl_pending p) else (slot (pl_pending p))((tx_from tx, tx_nonce tx) \<mapsto> tx))"
    by (simp_all add: accepted_def)
  from inv have p: "\<not> pl_locked p" "pool_core p"
    "\<And>a n t. slot (pl_pending p) (a, n) = Some t \<Longrightarrow> \<not> n < nonce_at (pl_nonces p) a"
    by (simp_all add: pool_inv_def)
  have "\<not> n < nonce_at (pl_nonces q) a" if t: "slot (pl_pending q) (a, n) = Some t" for a n t
    using map_le_Some [OF q(4) t] p(3) [of a n t] low q(2) by (auto simp: same_env_def split: if_splits)
  moreover have "int (card (dom (pl_all q))) \<le> max 0 (pc_max_txs (pl_config q))"
  proof -
    have "finite (dom (pl_all p))" using p(2) by (simp add: pool_core_def)
    moreover have "dom (pl_all q) \<subseteq> insert (tx_hash_cache tx) (dom (pl_all p))"
      using map_le_implies_dom_le [OF q(3)] by simp
    ultimately have "card (dom (pl_all q)) \<le> Suc (card (dom (pl_all p)))"
      using card_mono [of "insert (tx_hash_cache tx) (dom (pl_all p))" "dom (pl_all q)"]
      by (simp add: card_insert_if split: if_splits)
    with room q(2) show ?thesis by (simp add: pool_full_def same_env_def)
  qed
  ultimately show ?thesis using p(1) q by (simp add: pool_inv_def same_env_def)
qed

lemma add_tx_inv:
  assumes inv: "pool_inv p" and ok: "add_tx sha ord tx0 p = Some (Ok q)"
  shows "pool_inv q"
proof -
  let ?p = "p\<lparr>pl_locked := True\<rparr>"
  from inv have p: "\<not> pl_locked p" "pool_core p" by (simp_all add: pool_inv_def)
  from ok p obtain r where b: "add_body sha ord tx0 ?p = Some (Ok r)"
    by (auto simp: add_tx_def locked_def rbind_Ok_iff)
  from add_body_Ok [OF b] obtain tx where adm: "admissible sha tx0 tx ?p" by blast
  then have adm1: "admissible sha tx0 tx p" by simp
  have "\<exists>s. make_room sha ord ?p = Some (Ok s)"
    using b add_body_admissible [OF adm, of ord] by (auto simp: rbind_Ok_iff)
  then have room: "\<not> pool_full p" using make_room_Ok(2) [of ?p sha ord] by auto
  let ?n = "tx_nonce tx" and ?c = "nonce_at (pl_nonces p) (tx_from tx)"
  note cases = add_tx_cases [OF p adm1 room, of ord]
  consider "?n < ?c" | "?n = ?c" | "?n > ?c" "?n \<le> ?c + pc_max_queued_nonce (pl_config p)"
    | "?n > ?c" "?n > ?c + pc_max_queued_nonce (pl_config p)" by (metis linorder_neqE not_le)
  then show ?thesis
  proof cases
    case 2
    with cases(2) ok have "accepted False tx p q" by auto
    with 2 show ?thesis using accepted_inv [OF inv room] by blast
  next
    case 3
    with cases(3) ok have "accepted True tx p q" by auto
    then show ?thesis using accepted_inv [OF inv room] by blast
  qed (use cases(1,4) ok in auto)
qed

lemma remove_tx_effect:
  assumes inv: "pool_inv p" and tx: "pl_all p (tx_hash_cache tx) = Some tx"
  defines "q \<equiv> p\<lparr>pl_pending := remove_nonce (tx_from tx) (tx_nonce tx) (pl_pending p),
     pl_queued := remove_nonce (tx_from tx) (tx_nonce tx) (pl_queued p), pl_all := (pl_all p)(tx_hash_cache tx := None)\<rparr>"
  shows "remove_tx sha tx p = Some (Ok q)" and "pool_inv q"
proof -
  from inv have p: "\<not> pl_locked p" "pool_core p" by (simp_all add: pool_inv_def)
  have tr: "tracked (slot (pl_pending p)) (slot (pl_queued p)) (pl_all p)" by (rule pool_core_tracked [OF p(2)])
  have "tx_hash sha tx = Ok (tx_hash_cache tx, tx)"
    using tracked_all [OF tr tx] by (simp add: tx_hash_def)
  with p tx show "remove_tx sha tx p = Some (Ok q)"
    by (cases p) (simp add: remove_tx_def locked_def q_def)
  have "pool_core q"
    using p(2) tracked_forget [OF tr tx] by (simp add: q_def pool_core_def maps_ok_remove_nonce)
  moreover have "card (dom (pl_all q)) \<le> card (dom (pl_all p))"
    using pool_core_card [of "pl_all q" p] p(2) by (simp add: q_def map_le_def)
  ultimately show "pool_inv q" using inv by (auto simp: pool_inv_def q_def)
qed

lemma reset_pool_effect:
  assumes inv: "pool_inv p" and N: "finite (dom N)" and ord: "go_order ord"
  shows "\<exists>q. reset_pool sha ord N p = Some (Ok q) \<and> pool_inv q \<and> pl_nonces q = N \<and>
    (\<forall>a k t. N a = Some k \<longrightarrow> slot (pl_queued p) (a, k) = Some t \<longrightarrow>
       slot (pl_pending q) (a, k) = Some t \<and> slot (pl_queued q) (a, k) = None) \<and>
    (\<forall>a n t. slot (pl_pending q) (a, n) = Some t \<longrightarrow> \<not> n < nonce_at N a \<and>
       (slot (pl_pending p) (a, n) = Some t \<or> slot (pl_queued p) (a, n) = Some t)) \<and>
    (\<forall>a n. n \<noteq> nonce_at N a \<longrightarrow> slot (pl_queued q) (a, n) = slot (pl_queued p) (a, n))"
proof -
  let ?p = "p\<lparr>pl_locked := True, pl_nonces := N\<rparr>"
  from inv have p: "\<not> pl_locked p" "pool_core p" by (simp_all add: pool_inv_def)
  then have core: "pool_core ?p" by (simp add: pool_core_def)
  have sD: "set (ord (dom N)) = dom N" and dD: "distinct (ord (dom N))" using N ord by (simp_all add: go_order_def)
  from promote_all_promoted [OF core dD, of sha N] obtain r where
    r: "promote sha N (ord (dom N)) ?p = Ok r" "pool_core r" "same_env ?p r" "pl_all r \<subseteq>\<^sub>m pl_all ?p"
      "\<And>a n. a \<notin> set (ord (dom N)) \<Longrightarrow> slot (pl_queued r) (a, n) = slot (pl_queued ?p) (a, n)"
      "\<And>a n. a \<in> set (ord (dom N)) \<Longrightarrow> slot (pl_queued r) (a, n) =
         (if n = nonce_at N a then None else slot (pl_queued ?p) (a, n))"
      "\<And>a n t. slot (pl_pending r) (a, n) = Some t \<Longrightarrow>
         slot (pl_pending ?p) (a, n) = Some t \<or> n = nonce_at N a \<and> slot (pl_queued ?p) (a, n) = Some t"
      "\<And>a t. a \<in> set (ord (dom N)) \<Longrightarrow> slot (pl_queued ?p) (a, nonce_at N a) = Some t \<Longrightarrow>
         slot (pl_pending r) (a, nonce_at N a) = Some t"
    by blast
  note r = r [unfolded sD]
  have sP: "set (ord (dom (pl_pending r))) = dom (pl_pending r)"
    using r(2) ord by (simp add: go_order_def pool_core_def maps_ok_def)
  from drop_stale_ok [OF r(2), of sha N "ord (dom (pl_pending r))"] obtain q where
    q: "drop_stale sha N (ord (dom (pl_pending r))) r = Ok q" "pool_core q" "same_env r q" "pl_all q \<subseteq>\<^sub>m pl_all r"
      "pl_queued q = pl_queued r" "slot (pl_pending q) \<subseteq>\<^sub>m slot (pl_pending r)"
      "\<And>a n. \<not> n < nonce_at N a \<Longrightarrow> slot (pl_pending q) (a, n) = slot (pl_pending r) (a, n)"
      "\<And>a n t. a \<in> set (ord (dom (pl_pending r))) \<Longrightarrow> slot (pl_pending q) (a, n) = Some t \<Longrightarrow> \<not> n < nonce_at N a"
    by blast
  note q = q [unfolded sP]
  let ?q = "q\<lparr>pl_locked := False\<rparr>"
  have run: "reset_pool sha ord N p = Some (Ok ?q)"
    using p(1) r(1) q(1) by (simp add: reset_pool_def locked_def)
  have env: "same_env ?p q" by (rule same_env_trans [OF r(3) q(3)])
  have in_dom: "a \<in> dom (pl_pending r)" if "slot (pl_pending r) (a, n) = Some t" for a n t
    using that by (auto simp: slot_def map_at_def split: option.splits)
  have low: "\<not> n < nonce_at N a" if t: "slot (pl_pending q) (a, n) = Some t" for a n t
    using q(8) [OF in_dom [OF map_le_Some [OF q(6) t]] t] .
  have "card (dom (pl_all q)) \<le> card (dom (pl_all p))"
    using pool_core_card [of "pl_all q" ?p] map_le_trans [OF q(4) r(4)] core by simp
  then have "pool_inv ?q"
    using inv q(2) env low by (auto simp: pool_inv_def same_env_def)
  moreover have "slot (pl_pending q) (a, k) = Some t \<and> slot (pl_queued q) (a, k) = None"
    if "N a = Some k" "slot (pl_queued p) (a, k) = Some t" for a k t
    using that q(5) q(7) [of k a] r(6) [of a k] r(8) [of a t] by (simp add: nonce_at_def domI)
  moreover have "slot (pl_pending p) (a, n) = Some t \<or> slot (pl_queued p) (a, n) = Some t"
    if "slot (pl_pending q) (a, n) = Some t" for a n t
    using r(7) [OF map_le_Some [OF q(6) that]] by auto
  moreover have "slot (pl_queued q) (a, n) = slot (pl_queued p) (a, n)" if "n \<noteq> nonce_at N a" for a n
    using that q(5) r(5) [of a n] r(6) [of a n] by (cases "a \<in> dom N") simp_all
  ultimately show ?thesis
    using run env low by (intro exI [of _ ?q]) (simp add: same_env_def)
qed

lemma pool_step_inv:
  assumes "pool_step sha p q" "pool_inv p"
  shows "pool_inv q"
  using assms
proof (induction rule: pool_step.induct)
  case (step_price gp p q)
  then show ?case by (auto simp: set_gas_price_def locked_def pool_inv_def pool_core_def)
next
  case (step_add ord tx p q)
  then show ?case by (blast intro: add_tx_inv)
next
  case (step_remove p tx q)
  then show ?case using remove_tx_effect(1) [of p tx sha] remove_tx_effect(2) [of p tx] by auto
next
  case (step_reset ord N p q)
  from reset_pool_effect [OF step_reset.prems step_reset.hyps(2,1), of sha] step_reset.hyps(3) show ?case by auto
qed

lemma reachable_pool_inv: "pool_reachable sha config chainID p \<Longrightarrow> pool_inv p"
  by (induction rule: pool_reachable.induct) (auto intro: pool_inv_new pool_step_inv)

lemma enqueue_below_limit:
  "tsm_len (map_at (pl_pending p) a) < pc_max_account_txs (pl_config p) \<Longrightarrow>
    enqueue_pending sha a tx p = Ok (p\<lparr>pl_pending := (pl_pending p)(a \<mapsto> tsm_put tx (map_at (pl_pending p) a))\<rparr>)"
  by (simp add: enqueue_pending_def Let_def)

section \<open>A sample pool\<close>

definition pool_tx :: "u64 \<Rightarrow> transaction" where
  "pool_tx n = sample_tx\<lparr>tx_nonce := n, tx_signature := Some [], tx_hash_cache := [word_of_nat (unat n)], tx_hash_once := True\<rparr>"

lemma sample_admissible: "admissible sha (pool_tx n) (pool_tx n) (new_pool config (tx_chain_id sample_tx))"
  by (simp add: admissible_def pool_tx_def new_pool_def tx_hash_def pool_validate_tx_def sample_tx_def amount_cmp_def)

lemma sample_added:
  assumes "1 \<le> pc_max_txs config" "0 < pc_max_account_txs config"
  shows "\<exists>q. add_tx sha ord (pool_tx 0) (new_pool config (tx_chain_id sample_tx)) = Some (Ok q) \<and>
    accepted False (pool_tx 0) (new_pool config (tx_chain_id sample_tx)) q"
proof -
  let ?p = "new_pool config (tx_chain_id sample_tx)"
  have p: "\<not> pl_locked ?p" "pool_core ?p" using pool_inv_new [of config] by (simp_all add: pool_inv_def)
  have "\<not> pool_full ?p" using assms by (simp add: pool_full_def new_pool_def)
  from add_tx_cases(2) [OF p sample_admissible this, where ord = ord] show ?thesis
    by (simp add: pool_tx_def new_pool_def nonce_at_def)
qed

section \<open>Properties\<close>

text \<open>
  C38: the invariant of the pool. In every pool that calls of SetGasPrice, Add, Remove and Reset lead
  to, a pending or queued transaction stands under its own sender and nonce and is known under its
  own hash, no transaction is both pending and queued, no pending nonce is below the on-chain nonce,
  the pool never knows more than MaxTxs transactions, and the mutex is free.
\<close>

theorem pool_reachable_safe:
  assumes "pool_reachable sha config chainID p"
  shows "(\<forall>a n t. slot (pl_pending p) (a, n) = Some t \<or> slot (pl_queued p) (a, n) = Some t \<longrightarrow>
      tx_from t = a \<and> tx_nonce t = n \<and> get_tx (tx_hash_cache t) p = Some (Ok (Some t))) \<and>
    (\<forall>a n t. slot (pl_pending p) (a, n) = Some t \<longrightarrow>
      slot (pl_queued p) (a, n) \<noteq> Some t \<and> nonce_at (pl_nonces p) a \<le> n) \<and>
    int (card (dom (pl_all p))) \<le> max 0 (pc_max_txs (pl_config p)) \<and> \<not> pl_locked p"
proof -
  have inv: "pool_inv p" by (rule reachable_pool_inv [OF assms])
  then have "tracked (slot (pl_pending p)) (slot (pl_queued p)) (pl_all p)"
    by (simp add: pool_inv_def pool_core_tracked)
  then show ?thesis
    using inv tracked_S tracked_T tracked_disjoint
    by (auto simp: pool_inv_def get_tx_def read_locked_def not_less)
qed

text \<open>
  What miners get. In every reachable pool, Pending returns for each of its senders a non-empty
  list without nil pointers, of this sender's transactions in strictly ascending nonce order.
\<close>

theorem pool_pending_sorted:
  assumes "pool_reachable sha config chainID p"
  shows "\<exists>m. pending_txs p = Some (Ok m) \<and> (\<forall>a txs. m a = Some txs \<longrightarrow> txs \<noteq> [] \<and> None \<notin> set txs \<and>
    (\<forall>t. Some t \<in> set txs \<longrightarrow> tx_from t = a) \<and> sorted_wrt (<) (map (tx_nonce \<circ> the) txs))"
proof -
  have inv: "pool_inv p" by (rule reachable_pool_inv [OF assms])
  then have core: "pool_core p" by (simp add: pool_inv_def)
  have ok: "tsm_ok (map_at (pl_pending p) a)" for a using core by (simp add: pool_core_def maps_ok_at)
  have "tx_from t = a" if "Some t \<in> set (tsm_flatten (map_at (pl_pending p) a))" for a t
    using that pool_core_flatten(2) [OF core] tracked_S [OF pool_core_tracked [OF core]] by blast
  moreover define m where "m a = (case pl_pending p a of None \<Rightarrow> None
    | Some l \<Rightarrow> if length (tsm_flatten l) > 0 then Some (tsm_flatten l) else None)" for a
  have "txs \<noteq> [] \<and> txs = tsm_flatten (map_at (pl_pending p) a)" if "m a = Some txs" for a txs
    using that by (auto simp: m_def map_at_def split: option.splits if_splits)
  moreover have "pending_txs p = Some (Ok m)"
    using inv by (simp add: pending_txs_def read_locked_def pool_inv_def m_def fun_eq_iff)
  ultimately show ?thesis
    using tsm.flat_no_nil [OF ok] tsm.strictly_ascending [OF ok] by blast
qed

text \<open>
  What \<open>Add\<close> does below the capacity. For a transaction that is not known, is signed and passes
  the basic checks, the answer depends on its nonce alone: below the on-chain nonce it is refused as
  too low, equal to it the transaction becomes pending, up to MaxQueuedNonce (added as \<open>uint64\<close>)
  above it becomes queued, beyond that it is refused as too high; an accepted one is known by its hash.
\<close>

theorem pool_add_correct:
  assumes "pool_reachable sha config chainID p" "admissible sha tx0 tx p" "\<not> pool_full p"
  shows "let n = tx_nonce tx; c = nonce_at (pl_nonces p) (tx_from tx); r = add_tx sha ord tx0 p in
    if n < c then r = Some (Err err_pool_nonce_low)
    else if n > c \<and> n > c + pc_max_queued_nonce (pl_config p) then r = Some (Err err_pool_nonce_high)
    else \<exists>q. r = Some (Ok q) \<and> pl_all q (tx_hash_cache tx) = Some tx \<and>
      slot (if n = c then pl_pending q else pl_queued q) (tx_from tx, n) = Some tx"
proof -
  have p: "\<not> pl_locked p" "pool_core p"
    using reachable_pool_inv [OF assms(1)] by (simp_all add: pool_inv_def)
  note cases = add_tx_cases [OF p assms(2,3), of ord]
  show ?thesis
    using cases(1,4)  cases(2) cases(3)
    by (cases "tx_nonce tx" "nonce_at (pl_nonces p) (tx_from tx)" rule: linorder_cases)
      (auto simp: Let_def accepted_def not_less dest: less_asym)
qed

text \<open>
  What \<open>Reset\<close> does after a block. It never fails nor blocks in a reachable pool; it adopts the new
  nonces, moves each account's queued transaction at its new nonce to the pending ones, leaves no
  pending transaction below it, invents none, and leaves every other queued transaction where it was,
  also those whose nonce is used up.
\<close>

theorem pool_reset_correct:
  assumes "pool_reachable sha config chainID p" "finite (dom N)" "go_order ord"
  shows "\<exists>q. reset_pool sha ord N p = Some (Ok q) \<and> pl_nonces q = N \<and>
    (\<forall>a k t. N a = Some k \<longrightarrow> slot (pl_queued p) (a, k) = Some t \<longrightarrow>
       slot (pl_pending q) (a, k) = Some t \<and> slot (pl_queued q) (a, k) = None) \<and>
    (\<forall>a n t. slot (pl_pending q) (a, n) = Some t \<longrightarrow> \<not> n < nonce_at N a \<and>
       (slot (pl_pending p) (a, n) = Some t \<or> slot (pl_queued p) (a, n) = Some t)) \<and>
    (\<forall>a n. n \<noteq> nonce_at N a \<longrightarrow> slot (pl_queued q) (a, n) = slot (pl_queued p) (a, n))"
  using reset_pool_effect [OF reachable_pool_inv [OF assms(1)] assms(2,3), of sha] by blast

text \<open>
  A full pool deadlocks. When the pool knows MaxTxs transactions (at least one), a transaction that
  passes the checks makes \<open>Add\<close> call \<open>Remove\<close>, which locks the mutex that \<open>Add\<close> holds: the call never
  returns, whatever the order of the map.
\<close>

theorem pool_full_deadlock:
  assumes "pool_reachable sha config chainID p" "admissible sha tx0 tx p" "pool_full p" "dom (pl_all p) \<noteq> {}"
    "go_order ord" "\<And>h t. pl_all p h = Some t \<Longrightarrow> tx_gas_price t \<noteq> None"
  shows "add_tx sha ord tx0 p = None"
proof -
  have inv: "\<not> pl_locked p" "pool_core p"
    using reachable_pool_inv [OF assms(1)] by (simp_all add: pool_inv_def)
  let ?p = "p\<lparr>pl_locked := True\<rparr>"
  have "make_room sha ord ?p = None"
    using locked_full_blocks [of ?p ord sha] assms inv by simp
  then show ?thesis
    using add_body_admissible [of sha tx0 tx ?p ord] assms(2) inv(1) by (simp add: add_tx_def locked_free)
qed

text \<open>
  A replaced transaction stays known. A second transaction of the sender at the on-chain nonce
  takes the pending slot, even at a lower gas price; if the account is below its limit, the first one
  is in no slot any more, but the pool still finds it by its hash and counts it.
\<close>

theorem pool_replace_leaks:
  assumes "pool_reachable sha config chainID p" "admissible sha tx0 tx p" "\<not> pool_full p"
    "tx_nonce tx = nonce_at (pl_nonces p) (tx_from tx)"
    "slot (pl_pending p) (tx_from tx, tx_nonce tx) = Some old"
    "tsm_len (map_at (pl_pending p) (tx_from tx)) < pc_max_account_txs (pl_config p)"
  shows "\<exists>q. add_tx sha ord tx0 p = Some (Ok q) \<and> slot (pl_pending q) (tx_from tx, tx_nonce tx) = Some tx \<and>
    (\<forall>an. slot (pl_pending q) an \<noteq> Some old \<and> slot (pl_queued q) an \<noteq> Some old) \<and>
    pl_all q (tx_hash_cache old) = Some old \<and> card (dom (pl_all q)) = Suc (card (dom (pl_all p)))"
proof -
  let ?a = "tx_from tx" and ?n = "tx_nonce tx" and ?h = "tx_hash_cache tx"
  have p: "\<not> pl_locked p" and core: "pool_core p"
    using reachable_pool_inv [OF assms(1)] by (simp_all add: pool_inv_def)
  have tr: "tracked (slot (pl_pending p)) (slot (pl_queued p)) (pl_all p)" by (rule pool_core_tracked [OF core])
  have new: "pl_all p ?h = None" using assms(2) by (simp add: admissible_def)
  have old: "pl_all p (tx_hash_cache old) = Some old" "tx_from old = ?a" "tx_nonce old = ?n"
    using tracked_S [OF tr assms(5)] by simp_all
  have ne: "old \<noteq> tx" using old(1) new by auto
  let ?P = "(pl_pending p)(?a \<mapsto> tsm_put tx (map_at (pl_pending p) ?a))"
  let ?q = "p\<lparr>pl_pending := ?P, pl_all := (pl_all p)(?h \<mapsto> tx)\<rparr>"
  have "place_tx sha tx (p\<lparr>pl_locked := True\<rparr>) = Ok (p\<lparr>pl_locked := True, pl_pending := ?P\<rparr>)"
    using assms(4,6) enqueue_below_limit [of "p\<lparr>pl_locked := True\<rparr>" ?a sha tx] by (simp add: place_tx_def Let_def)
  then have "add_tx sha ord tx0 p = Some (Ok (p\<lparr>pl_locked := True, pl_pending := ?P, pl_all := (pl_all p)(?h \<mapsto> tx), pl_locked := False\<rparr>))"
    using add_tx_admissible [OF p assms(2,3), of ord] by simp
  also have "p\<lparr>pl_locked := True, pl_pending := ?P, pl_all := (pl_all p)(?h \<mapsto> tx), pl_locked := False\<rparr> = ?q"
    using p by (cases p) simp
  finally have "add_tx sha ord tx0 p = Some (Ok ?q)" .
  moreover have "slot (pl_pending ?q) an \<noteq> Some old \<and> slot (pl_queued ?q) an \<noteq> Some old" for an
  proof (cases "an = (?a, ?n)")
    case True
    then show ?thesis using tracked_disjoint [OF tr assms(5)] ne by auto
  next
    case False
    obtain b n where an: "an = (b, n)" by (cases an)
    from False have "slot (pl_pending p) (b, n) \<noteq> Some old \<and> slot (pl_queued p) (b, n) \<noteq> Some old"
      using tracked_S [OF tr, of b n old] tracked_T [OF tr, of b n old] old(2,3) an by metis
    with False an show ?thesis by auto
  qed
  moreover have "card (dom (pl_all ?q)) = Suc (card (dom (pl_all p)))"
    using core new by (simp add: pool_core_def domIff)
  ultimately show ?thesis using old new by (intro exI [of _ ?q]) auto
qed

section \<open>Witnesses\<close>

lemma sample_pool:
  fixes config
  assumes "1 \<le> pc_max_txs config" "0 < pc_max_account_txs config"
  obtains q where "pool_reachable sha config 31337 q" "accepted False (pool_tx 0) (new_pool config 31337) q"
proof -
  have c: "tx_chain_id sample_tx = 31337" by (simp add: sample_tx_def)
  from sample_added [OF assms, of sha "sorted_list_of_set"] obtain q where
    q: "add_tx sha sorted_list_of_set (pool_tx 0) (new_pool config 31337) = Some (Ok q)"
      "accepted False (pool_tx 0) (new_pool config 31337) q"
    unfolding c by blast
  have "pool_reachable sha config 31337 q"
    by (rule reach_step [OF reach_new step_add [OF go_order_sorted q(1)]])
  with q(2) that show thesis by blast
qed

lemma accepted_small:
  assumes "accepted False (pool_tx 0) (new_pool config chainID) q"
  shows "pl_all q = [[0] \<mapsto> pool_tx 0]" and "slot (pl_pending q) = [(replicate 20 1, 0) \<mapsto> pool_tx 0]"
    and "slot (pl_queued q) = Map.empty" and "same_env (new_pool config chainID) q"
proof -
  have h: "tx_hash_cache (pool_tx 0) = [0]" "tx_from (pool_tx 0) = replicate 20 1" "tx_nonce (pool_tx 0) = 0"
    by (simp_all add: pool_tx_def sample_tx_def)
  from assms have a: "pl_all q [0] = Some (pool_tx 0)" "pl_all q \<subseteq>\<^sub>m [[0] \<mapsto> pool_tx 0]"
    and s: "slot (pl_pending q) (replicate 20 1, 0) = Some (pool_tx 0)"
      "slot (pl_pending q) \<subseteq>\<^sub>m [(replicate 20 1, 0) \<mapsto> pool_tx 0]"
    unfolding accepted_def h by (simp_all add: new_pool_def)
  show "pl_all q = [[0] \<mapsto> pool_tx 0]" using a by (intro map_le_antisym) (simp_all add: map_le_def)
  show "slot (pl_pending q) = [(replicate 20 1, 0) \<mapsto> pool_tx 0]"
    using s by (intro map_le_antisym) (simp_all add: map_le_def)
  show "slot (pl_queued q) = Map.empty" "same_env (new_pool config chainID) q"
    using assms by (simp_all add: accepted_def new_pool_def)
qed

lemma admissible_next:
  assumes "pl_all p [word_of_nat (unat n)] = None" "pl_chain_id p = 31337" "pl_gas_price p = Some 0"
  shows "admissible sha (pool_tx n) (pool_tx n) p"
  using assms by (simp add: admissible_def pool_tx_def tx_hash_def pool_validate_tx_def sample_tx_def amount_cmp_def)

theorem pool_reachable_safe_witness:
  "\<exists>p. slot (pl_pending p) (replicate 20 1, 0) = Some (pool_tx 0) \<and> get_tx [0] p = Some (Ok (Some (pool_tx 0)))"
proof -
  obtain q where q: "pool_reachable (\<lambda>b. b) default_tx_pool_config 31337 q"
    "accepted False (pool_tx 0) (new_pool default_tx_pool_config 31337) q"
    by (rule sample_pool [of default_tx_pool_config "\<lambda>b. b"]) (simp_all add: default_tx_pool_config_def)
  from accepted_small(2) [OF q(2)] have s: "slot (pl_pending q) (replicate 20 1, 0) = Some (pool_tx 0)" by simp
  have h: "tx_hash_cache (pool_tx 0) = [0]" by (simp add: pool_tx_def)
  from pool_reachable_safe [OF q(1)] s have "get_tx (tx_hash_cache (pool_tx 0)) q = Some (Ok (Some (pool_tx 0)))" by blast
  with s show ?thesis unfolding h by blast
qed

theorem pool_pending_sorted_witness:
  "\<exists>m. pending_txs (new_pool default_tx_pool_config 1) = Some (Ok m)"
  using pool_pending_sorted [OF reach_new [of "\<lambda>b. b" default_tx_pool_config 1]] by blast

theorem pool_add_correct_witness:
  "\<exists>q. add_tx (\<lambda>b. b) sorted_list_of_set (pool_tx 3) (new_pool default_tx_pool_config 31337) = Some (Ok q) \<and>
    slot (pl_queued q) (replicate 20 1, 3) = Some (pool_tx 3)"
proof -
  let ?p = "new_pool default_tx_pool_config 31337"
  have adm: "admissible (\<lambda>b. b) (pool_tx 3) (pool_tx 3) ?p"
    by (rule admissible_next) (simp_all add: new_pool_def)
  have room: "\<not> pool_full ?p" by (simp add: pool_full_def new_pool_def default_tx_pool_config_def)
  have f: "tx_nonce (pool_tx 3) = 3" "tx_from (pool_tx 3) = replicate 20 1" by (simp_all add: pool_tx_def sample_tx_def)
  from pool_add_correct [OF reach_new adm room, where ord = sorted_list_of_set] show ?thesis
    unfolding f by (auto simp: new_pool_def nonce_at_def default_tx_pool_config_def Let_def)
qed

theorem pool_reset_correct_witness:
  "\<exists>q. reset_pool (\<lambda>b. b) sorted_list_of_set [replicate 20 1 \<mapsto> 4] (new_pool default_tx_pool_config 1) = Some (Ok q)
    \<and> pl_nonces q = [replicate 20 1 \<mapsto> 4]"
proof -
  have "finite (dom [replicate 20 (1 :: byte) \<mapsto> 4 :: u64])" by simp
  from pool_reset_correct [OF reach_new [of "\<lambda>b. b" default_tx_pool_config 1] this go_order_sorted] show ?thesis by blast
qed

theorem pool_full_deadlock_witness:
  "\<exists>p. card (dom (pl_all p)) = 1 \<and> add_tx (\<lambda>b. b) sorted_list_of_set (pool_tx 1) p = None"
proof -
  let ?c = "\<lparr>pc_max_txs = 1, pc_max_account_txs = 64, pc_max_queued_nonce = 16\<rparr>"
  obtain q where q: "pool_reachable (\<lambda>b. b) ?c 31337 q" "accepted False (pool_tx 0) (new_pool ?c 31337) q"
    by (rule sample_pool [of ?c "\<lambda>b. b"]) simp_all
  note s = accepted_small [OF q(2)]
  have all: "dom (pl_all q) = {[0]}" "pl_config q = ?c" "pl_chain_id q = 31337" "pl_gas_price q = Some 0"
    using s(1,4) by (simp_all add: same_env_def new_pool_def)
  have adm: "admissible (\<lambda>b. b) (pool_tx 1) (pool_tx 1) q"
    by (rule admissible_next) (use s(1) all in simp_all)
  have full: "pool_full q" using all by (simp add: pool_full_def)
  have price: "tx_gas_price t \<noteq> None" if "pl_all q h = Some t" for h t
    using that s(1) by (auto simp: pool_tx_def sample_tx_def split: if_splits)
  have "add_tx (\<lambda>b. b) sorted_list_of_set (pool_tx 1) q = None"
    by (rule pool_full_deadlock [OF q(1) adm full _ go_order_sorted price]) (use all(1) in simp_all)
  with all(1) show ?thesis by (intro exI [of _ q]) simp
qed

theorem pool_replace_leaks_witness:
  "\<exists>p q t. add_tx (\<lambda>b. b) sorted_list_of_set t p = Some (Ok q) \<and>
    slot (pl_pending q) (replicate 20 1, 0) = Some t \<and> pl_all q [0] = Some (pool_tx 0) \<and> t \<noteq> pool_tx 0"
proof -
  let ?t = "(pool_tx 0)\<lparr>tx_hash_cache := [9]\<rparr>" and ?c = default_tx_pool_config
  obtain p where p: "pool_reachable (\<lambda>b. b) ?c 31337 p" "accepted False (pool_tx 0) (new_pool ?c 31337) p"
    by (rule sample_pool [of ?c "\<lambda>b. b"]) (simp_all add: default_tx_pool_config_def)
  note s = accepted_small [OF p(2)]
  have env: "pl_config p = ?c" "pl_chain_id p = 31337" "pl_gas_price p = Some 0" "pl_nonces p = Map.empty"
    using s(4) by (simp_all add: same_env_def new_pool_def)
  have f: "tx_from ?t = replicate 20 1" "tx_nonce ?t = 0" by (simp_all add: pool_tx_def sample_tx_def)
  have adm: "admissible (\<lambda>b. b) ?t ?t p"
    using s(1) env by (simp add: admissible_def pool_tx_def tx_hash_def pool_validate_tx_def sample_tx_def amount_cmp_def)
  have room: "\<not> pool_full p" using s(1) env by (simp add: pool_full_def default_tx_pool_config_def)
  have "tsm_items (map_at (pl_pending p) (replicate 20 1)) = [0 \<mapsto> pool_tx 0]"
  proof (rule ext)
    fix n
    show "tsm_items (map_at (pl_pending p) (replicate 20 1)) n = [0 \<mapsto> pool_tx 0] n"
      using fun_cong [OF s(2), of "(replicate 20 1, n)"] by (simp add: slot_def)
  qed
  then have len: "tsm_len (map_at (pl_pending p) (tx_from ?t)) < pc_max_account_txs (pl_config p)"
    unfolding f env by (simp add: tsm_len_def default_tx_pool_config_def)
  have n: "tx_nonce ?t = nonce_at (pl_nonces p) (tx_from ?t)" unfolding f env by (simp add: nonce_at_def)
  have sl: "slot (pl_pending p) (tx_from ?t, tx_nonce ?t) = Some (pool_tx 0)" unfolding f s(2) by simp
  have h: "tx_hash_cache (pool_tx 0) = [0]" by (simp add: pool_tx_def)
  from pool_replace_leaks [OF p(1) adm room n sl len, where ord = sorted_list_of_set] obtain q where
    "add_tx (\<lambda>b. b) sorted_list_of_set ?t p = Some (Ok q)" "slot (pl_pending q) (tx_from ?t, tx_nonce ?t) = Some ?t"
    "pl_all q (tx_hash_cache (pool_tx 0)) = Some (pool_tx 0)" by blast
  moreover have "?t \<noteq> pool_tx 0"
  proof
    assume "?t = pool_tx 0"
    then have "tx_hash_cache ?t = tx_hash_cache (pool_tx 0)" by (rule arg_cong)
    then show False unfolding h by simp
  qed
  ultimately show ?thesis unfolding f h by blast
qed

end
