(* ===== verification/Consensus.thy ===== *)
theory Consensus
  imports ChainTypes Float64
begin

text \<open>
  The consensus engine: the validator set and the votes (\<^verbatim>\<open>src/internal/consensus/types\<close>) and the
  Tendermint engine (\<^verbatim>\<open>src/internal/consensus/engine/tendermint.go\<close>).

  Voting power is computed in \<open>float64\<close> and summed in \<open>uint64\<close>. \<open>sort.Slice\<close> is the parameter \<open>srt\<close>,
  the iteration order of a map the parameter \<open>ord\<close>, the clock the parameter \<open>now\<close>. The engine is a
  record with its channels as bounded lists (a send with \<open>default\<close> on a full channel drops the value),
  the timer as the duration it is armed with, and the number of started goroutines that call
  \<open>advanceToStep(StepCommit, nil)\<close>. \<open>engine_turn\<close> is one event: a call from outside, one round of
  \<open>loop\<close>, or one of those goroutines. The mutex guards single fields only and cannot block. The fields
  \<open>lockedBlock\<close> and \<open>lockedRound\<close>, which no code uses, are left out.
\<close>

section \<open>Validators\<close>

record validator =
  va_address :: address
  va_pub_key :: "byte list"
  va_compute_power :: u64
  va_np_stake :: token_amount
  va_is_active :: bool

definition f64_0_4 :: f64 where "f64_0_4 = F64 7205759403792794 54"
definition f64_0_6 :: f64 where "f64_0_6 = F64 5404319552844595 53"

definition voting_power :: "validator \<Rightarrow> (string, u64) outcome" where
  "voting_power v =
     (let cpWeight = f64_to_u64 (f64_mul (f64_of_u64 (va_compute_power v)) f64_0_4)
      in obind (amount_uint64 (va_np_stake v)) (\<lambda>stake.
           Ok (cpWeight + f64_to_u64 (f64_mul (f64_of_u64 stake) f64_0_6))))"

record validator_set =
  vs_validators :: "validator list"
  vs_total_power :: u64
  vs_by_address :: "address \<Rightarrow> validator option"

fun vs_load :: "validator list \<Rightarrow> (address \<Rightarrow> validator option) \<Rightarrow> u64 \<Rightarrow>
    (string, (address \<Rightarrow> validator option) \<times> u64) outcome" where
  "vs_load [] m t = Ok (m, t)"
| "vs_load (v # vs) m t = obind (voting_power v) (\<lambda>p. vs_load vs (m(va_address v \<mapsto> v)) (t + p))"

definition power_of :: "validator \<Rightarrow> u64" where
  "power_of v = (case voting_power v of Ok p \<Rightarrow> p | _ \<Rightarrow> 0)"

definition new_validator_set ::
  "((validator \<Rightarrow> validator \<Rightarrow> bool) \<Rightarrow> validator list \<Rightarrow> validator list) \<Rightarrow> validator list \<Rightarrow> (string, validator_set) outcome" where
  "new_validator_set srt validators = obind (vs_load validators Map.empty 0) (\<lambda>(m, t).
     Ok \<lparr>vs_validators = srt (\<lambda>a b. power_of a > power_of b) validators, vs_total_power = t, vs_by_address = m\<rparr>)"

definition vs_get :: "validator_set \<Rightarrow> address \<Rightarrow> validator option" where
  "vs_get vs a = vs_by_address vs a"

definition has_quorum :: "validator_set \<Rightarrow> u64 \<Rightarrow> bool" where
  "has_quorum vs votedPower \<longleftrightarrow> votedPower > vs_total_power vs * 2 div 3"

definition round_proposer :: "validator_set \<Rightarrow> u64 \<Rightarrow> u64 \<Rightarrow> validator option" where
  "round_proposer vs height round =
     (if vs_validators vs = [] then None
      else Some (vs_validators vs ! unat ((height + round) mod word_of_nat (length (vs_validators vs)))))"

definition vs_size :: "validator_set \<Rightarrow> int" where
  "vs_size vs = int (length (vs_validators vs))"

fun sum_power_from :: "validator_set \<Rightarrow> address list \<Rightarrow> u64 \<Rightarrow> (string, u64) outcome" where
  "sum_power_from vs [] t = Ok t"
| "sum_power_from vs (a # as) t = (case vs_get vs a of
     None \<Rightarrow> sum_power_from vs as t
   | Some v \<Rightarrow> obind (voting_power v) (\<lambda>p. sum_power_from vs as (t + p)))"

definition sum_power :: "validator_set \<Rightarrow> address list \<Rightarrow> (string, u64) outcome" where
  "sum_power vs addrs = sum_power_from vs addrs 0"

section \<open>Votes and proposals\<close>

definition vote_prevote :: byte where "vote_prevote = 0x01"
definition vote_precommit :: byte where "vote_precommit = 0x02"
definition vote_commit :: byte where "vote_commit = 0x03"

definition vote_type_string :: "byte \<Rightarrow> string" where
  "vote_type_string v = (if v = vote_prevote then ''Prevote'' else if v = vote_precommit then ''Precommit''
     else if v = vote_commit then ''Commit'' else ''Unknown'')"

record vote =
  vt_type :: byte
  vt_height :: u64
  vt_round :: u64
  vt_block_hash :: hash
  vt_validator :: address
  vt_signature :: "byte list"

record proposal =
  pr_height :: u64
  pr_round :: u64
  pr_block_hash :: hash
  pr_proposer :: address
  pr_timestamp :: int
  pr_signature :: "byte list"

definition proposal_valid :: "proposal \<Rightarrow> bool" where
  "proposal_valid p \<longleftrightarrow> \<not> hash_is_zero (pr_block_hash p) \<and> \<not> address_is_zero (pr_proposer p)"

section \<open>The engine\<close>

datatype step = StepPropose | StepPrevote | StepPrecommit | StepCommit | StepNewHeight

fun step_string :: "step \<Rightarrow> string" where
  "step_string StepPropose = ''Propose''"
| "step_string StepPrevote = ''Prevote''"
| "step_string StepPrecommit = ''Precommit''"
| "step_string StepCommit = ''Commit''"
| "step_string StepNewHeight = ''NewHeight''"

record gossip_out =
  go_type :: string
  go_height :: u64
  go_round :: u64
  go_hash :: hash
  go_validator :: address

record engine_config =
  ec_my_address :: address
  ec_validator_set :: validator_set
  ec_timeout_propose :: int
  ec_timeout_prevote :: int
  ec_timeout_precommit :: int
  ec_timeout_commit :: int
  ec_initial_height :: u64

record engine =
  en_validators :: validator_set
  en_my_addr :: address
  en_height :: u64
  en_round :: u64
  en_step :: step
  en_prevotes :: "address \<Rightarrow> vote option"
  en_precommits :: "address \<Rightarrow> vote option"
  en_valid_block :: "hash option"
  en_valid_round :: u64
  en_proposal :: "proposal option"
  en_proposal_block :: "block option"
  en_timeout_propose :: int
  en_timeout_prevote :: int
  en_timeout_precommit :: int
  en_timeout_commit :: int
  en_commit_ch :: "block list"
  en_new_step_ch :: "step list"
  en_proposal_ch :: "proposal list"
  en_vote_ch :: "vote list"
  en_gossiper :: bool
  en_sent :: "gossip_out list"
  en_block_builder :: "(u64 \<Rightarrow> u64 \<Rightarrow> address \<Rightarrow> block option) option"
  en_timer :: "int option"
  en_goroutines :: nat
  en_cancelled :: bool
  en_looping :: bool

text \<open>\<open>DefaultConfig\<close> sets the timeouts; the address, the validators and the height are the caller's.\<close>

definition second :: int where "second = 1000000000"

definition default_engine_config :: "address \<Rightarrow> validator_set \<Rightarrow> u64 \<Rightarrow> engine_config" where
  "default_engine_config addr vs height = \<lparr>ec_my_address = addr, ec_validator_set = vs,
     ec_timeout_propose = 3 * second, ec_timeout_prevote = 1 * second, ec_timeout_precommit = 1 * second,
     ec_timeout_commit = 1 * second, ec_initial_height = height\<rparr>"

definition new_engine :: "engine_config \<Rightarrow> engine" where
  "new_engine cfg = \<lparr>en_validators = ec_validator_set cfg, en_my_addr = ec_my_address cfg,
     en_height = ec_initial_height cfg, en_round = 0, en_step = StepNewHeight, en_prevotes = Map.empty,
     en_precommits = Map.empty, en_valid_block = None, en_valid_round = 0, en_proposal = None,
     en_proposal_block = None, en_timeout_propose = ec_timeout_propose cfg,
     en_timeout_prevote = ec_timeout_prevote cfg, en_timeout_precommit = ec_timeout_precommit cfg,
     en_timeout_commit = ec_timeout_commit cfg, en_commit_ch = [], en_new_step_ch = [], en_proposal_ch = [],
     en_vote_ch = [], en_gossiper = False, en_sent = [], en_block_builder = None, en_timer = None,
     en_goroutines = 0, en_cancelled = False, en_looping = False\<rparr>"

definition set_block_builder :: "(u64 \<Rightarrow> u64 \<Rightarrow> address \<Rightarrow> block option) \<Rightarrow> engine \<Rightarrow> engine" where
  "set_block_builder fn e = e\<lparr>en_block_builder := Some fn\<rparr>"

definition set_gossiper :: "engine \<Rightarrow> engine" where
  "set_gossiper e = e\<lparr>en_gossiper := True\<rparr>"

definition start_engine :: "engine \<Rightarrow> engine" where
  "start_engine e = e\<lparr>en_looping := True\<rparr>"

definition stop_engine :: "engine \<Rightarrow> engine" where
  "stop_engine e = e\<lparr>en_cancelled := True\<rparr>"

text \<open>A send with \<open>default\<close> on a channel of capacity \<open>n\<close>.\<close>

definition try_send :: "nat \<Rightarrow> 'a \<Rightarrow> 'a list \<Rightarrow> 'a list" where
  "try_send n x ch = (if length ch < n then ch @ [x] else ch)"

definition receive_proposal :: "proposal \<Rightarrow> engine \<Rightarrow> engine" where
  "receive_proposal p e = e\<lparr>en_proposal_ch := try_send 8 p (en_proposal_ch e)\<rparr>"

definition receive_vote :: "vote \<Rightarrow> engine \<Rightarrow> engine" where
  "receive_vote v e = e\<lparr>en_vote_ch := try_send 256 v (en_vote_ch e)\<rparr>"

definition set_timer :: "int \<Rightarrow> engine \<Rightarrow> engine" where
  "set_timer d e = e\<lparr>en_timer := Some d\<rparr>"

text \<open>\<open>advanceToStep\<close> with the timer of the loop, and with the nil timer of the goroutine.\<close>

definition advance_to_step :: "bool \<Rightarrow> step \<Rightarrow> engine \<Rightarrow> (string, engine) outcome" where
  "advance_to_step timer step e = (if \<not> timer then Panic
     else Ok (e\<lparr>en_timer := None, en_new_step_ch := try_send 8 step (en_new_step_ch e)\<rparr>))"

definition broadcast_vote :: "string \<Rightarrow> hash \<Rightarrow> engine \<Rightarrow> engine" where
  "broadcast_vote t h e = (if en_gossiper e
     then e\<lparr>en_sent := en_sent e @ [\<lparr>go_type = t, go_height = en_height e, go_round = en_round e,
            go_hash = h, go_validator = en_my_addr e\<rparr>]\<rparr> else e)"

definition prevote_addrs :: "(address set \<Rightarrow> address list) \<Rightarrow> engine \<Rightarrow> address list" where
  "prevote_addrs ord e = ord (dom (en_prevotes e))"

definition precommit_addrs :: "(address set \<Rightarrow> address list) \<Rightarrow> engine \<Rightarrow> address list" where
  "precommit_addrs ord e = ord (dom (en_precommits e))"

definition record_prevote :: "(address set \<Rightarrow> address list) \<Rightarrow> vote \<Rightarrow> engine \<Rightarrow> (string, engine) outcome" where
  "record_prevote ord v e =
     (let e1 = e\<lparr>en_prevotes := (en_prevotes e)(vt_validator v \<mapsto> v)\<rparr>
      in obind (sum_power (en_validators e1) (prevote_addrs ord e1)) (\<lambda>power.
           Ok (if has_quorum (en_validators e1) power
               then e1\<lparr>en_valid_block := Some (vt_block_hash v), en_valid_round := en_round e1\<rparr> else e1)))"

definition record_precommit :: "(address set \<Rightarrow> address list) \<Rightarrow> vote \<Rightarrow> engine \<Rightarrow> (string, engine) outcome" where
  "record_precommit ord v e =
     (let e1 = e\<lparr>en_precommits := (en_precommits e)(vt_validator v \<mapsto> v)\<rparr>
      in obind (sum_power (en_validators e1) (precommit_addrs ord e1)) (\<lambda>power.
           Ok (if has_quorum (en_validators e1) power
               then e1\<lparr>en_goroutines := en_goroutines e1 + 1\<rparr> else e1)))"

definition handle_vote :: "(address set \<Rightarrow> address list) \<Rightarrow> vote \<Rightarrow> engine \<Rightarrow> (string, engine) outcome" where
  "handle_vote ord v e = (case vs_get (en_validators e) (vt_validator v) of
     None \<Rightarrow> Panic
   | Some va \<Rightarrow>
       if \<not> va_is_active va then Ok e
       else if vt_type v = vote_prevote then record_prevote ord v e
       else if vt_type v = vote_precommit then record_precommit ord v e
       else Ok e)"

definition cast_vote :: "(address set \<Rightarrow> address list) \<Rightarrow> byte \<Rightarrow> engine \<Rightarrow> (string, engine) outcome" where
  "cast_vote ord voteType e =
     (let blockHash = (case en_proposal e of None \<Rightarrow> empty_hash | Some p \<Rightarrow> pr_block_hash p);
          v = \<lparr>vt_type = voteType, vt_height = en_height e, vt_round = en_round e, vt_block_hash = blockHash,
               vt_validator = en_my_addr e, vt_signature = replicate 64 0\<rparr>
      in obind (handle_vote ord v e) (\<lambda>e1.
         let e2 = broadcast_vote (vote_type_string voteType) blockHash e1
         in if voteType = vote_prevote then advance_to_step True StepPrecommit e2 else Ok e2))"

definition handle_propose_step :: "(byte list \<Rightarrow> hash) \<Rightarrow> int \<Rightarrow> engine \<Rightarrow> (string, engine) outcome" where
  "handle_propose_step sha now e0 =
     (let e = set_timer (en_timeout_propose e0) e0 in
      case round_proposer (en_validators e) (en_height e) (en_round e) of
        None \<Rightarrow> Ok e
      | Some proposer \<Rightarrow> (case en_block_builder e of
          None \<Rightarrow> Ok e
        | Some builder \<Rightarrow>
            if va_address proposer \<noteq> en_my_addr e then Ok e
            else (case builder (en_height e) (en_round e) (en_my_addr e) of
                None \<Rightarrow> Ok e
              | Some b \<Rightarrow>
                  let e1 = e\<lparr>en_proposal_block := Some b,
                             en_proposal := Some \<lparr>pr_height = en_height e, pr_round = en_round e,
                               pr_block_hash = block_hash sha b, pr_proposer = en_my_addr e,
                               pr_timestamp = now, pr_signature = replicate 64 0\<rparr>\<rparr>;
                      e2 = broadcast_vote ''proposal'' (block_hash sha b) e1
                  in advance_to_step True StepPrevote e2)))"

definition handle_prevote_step :: "(address set \<Rightarrow> address list) \<Rightarrow> engine \<Rightarrow> (string, engine) outcome" where
  "handle_prevote_step ord e0 =
     (let e = set_timer (en_timeout_prevote e0) e0
      in if en_proposal e \<noteq> None then cast_vote ord vote_prevote e else Ok e)"

definition handle_precommit_step :: "(address set \<Rightarrow> address list) \<Rightarrow> engine \<Rightarrow> (string, engine) outcome" where
  "handle_precommit_step ord e0 =
     (let e = set_timer (en_timeout_precommit e0) e0
      in obind (sum_power (en_validators e) (prevote_addrs ord e)) (\<lambda>prevotePower.
           if has_quorum (en_validators e) prevotePower \<and> en_valid_block e \<noteq> None
           then cast_vote ord vote_precommit e else Ok e))"

definition handle_commit_step :: "(address set \<Rightarrow> address list) \<Rightarrow> engine \<Rightarrow> (string, engine) outcome" where
  "handle_commit_step ord e0 =
     (let e = set_timer (en_timeout_commit e0) e0
      in obind (sum_power (en_validators e) (precommit_addrs ord e)) (\<lambda>precommitPower.
           case en_proposal_block e of
             None \<Rightarrow> Ok e
           | Some b \<Rightarrow>
               if has_quorum (en_validators e) precommitPower
               then advance_to_step True StepNewHeight
                 (e\<lparr>en_commit_ch := try_send 32 b (en_commit_ch e), en_height := en_height e + 1, en_round := 0,
                    en_prevotes := Map.empty, en_precommits := Map.empty, en_proposal := None,
                    en_proposal_block := None, en_valid_block := None\<rparr>)
               else Ok e))"

definition enter_step ::
  "(byte list \<Rightarrow> hash) \<Rightarrow> (address set \<Rightarrow> address list) \<Rightarrow> int \<Rightarrow> step \<Rightarrow> engine \<Rightarrow> (string, engine) outcome" where
  "enter_step sha ord now st e0 =
     (let e = e0\<lparr>en_step := st\<rparr> in
      case st of
        StepNewHeight \<Rightarrow> advance_to_step True StepPropose (e\<lparr>en_round := 0\<rparr>)
      | StepPropose \<Rightarrow> handle_propose_step sha now e
      | StepPrevote \<Rightarrow> handle_prevote_step ord e
      | StepPrecommit \<Rightarrow> handle_precommit_step ord e
      | StepCommit \<Rightarrow> handle_commit_step ord e)"

definition handle_timeout :: "engine \<Rightarrow> (string, engine) outcome" where
  "handle_timeout e = (case en_step e of
     StepPropose \<Rightarrow> advance_to_step True StepPropose (e\<lparr>en_round := en_round e + 1\<rparr>)
   | StepPrevote \<Rightarrow> advance_to_step True StepPrecommit e
   | StepPrecommit \<Rightarrow> advance_to_step True StepPropose (e\<lparr>en_round := en_round e + 1\<rparr>)
   | _ \<Rightarrow> Ok e)"

definition handle_proposal :: "proposal \<Rightarrow> engine \<Rightarrow> engine" where
  "handle_proposal p e = (if proposal_valid p then e\<lparr>en_proposal := Some p\<rparr> else e)"

section \<open>Events\<close>

datatype engine_event =
    ReceiveProposal proposal | ReceiveVote vote | ReadCommit | Stop
  | LoopDone | LoopStep | LoopTimeout | LoopProposal | LoopVote
  | Goroutine

text \<open>\<open>None\<close> is an event that cannot happen in the state.\<close>

fun engine_turn ::
  "(byte list \<Rightarrow> hash) \<Rightarrow> (address set \<Rightarrow> address list) \<Rightarrow> int \<Rightarrow> engine_event \<Rightarrow> engine \<Rightarrow> (string, engine) outcome option" where
  "engine_turn sha ord now (ReceiveProposal p) e = Some (Ok (receive_proposal p e))"
| "engine_turn sha ord now (ReceiveVote v) e = Some (Ok (receive_vote v e))"
| "engine_turn sha ord now ReadCommit e = (case en_commit_ch e of [] \<Rightarrow> None
     | b # bs \<Rightarrow> Some (Ok (e\<lparr>en_commit_ch := bs\<rparr>)))"
| "engine_turn sha ord now Stop e = Some (Ok (stop_engine e))"
| "engine_turn sha ord now LoopDone e = (if en_looping e \<and> en_cancelled e
     then Some (Ok (e\<lparr>en_looping := False\<rparr>)) else None)"
| "engine_turn sha ord now LoopStep e = (if \<not> en_looping e then None else case en_new_step_ch e of [] \<Rightarrow> None
     | st # sts \<Rightarrow> Some (enter_step sha ord now st (e\<lparr>en_new_step_ch := sts\<rparr>)))"
| "engine_turn sha ord now LoopTimeout e = (if \<not> en_looping e then None else case en_timer e of None \<Rightarrow> None
     | Some d \<Rightarrow> Some (handle_timeout (e\<lparr>en_timer := None\<rparr>)))"
| "engine_turn sha ord now LoopProposal e = (if \<not> en_looping e then None else case en_proposal_ch e of [] \<Rightarrow> None
     | p # ps \<Rightarrow> Some (Ok (handle_proposal p (e\<lparr>en_proposal_ch := ps\<rparr>))))"
| "engine_turn sha ord now LoopVote e = (if \<not> en_looping e then None else case en_vote_ch e of [] \<Rightarrow> None
     | v # vs \<Rightarrow> Some (handle_vote ord v (e\<lparr>en_vote_ch := vs\<rparr>)))"
| "engine_turn sha ord now Goroutine e = (if en_goroutines e = 0 then None
     else Some (advance_to_step False StepCommit (e\<lparr>en_goroutines := en_goroutines e - 1\<rparr>)))"

inductive engine_reaches :: "(byte list \<Rightarrow> hash) \<Rightarrow> engine \<Rightarrow> engine \<Rightarrow> bool" for sha e0 where
  reaches_start: "engine_reaches sha e0 e0"
| reaches_turn: "engine_reaches sha e0 e \<Longrightarrow> engine_turn sha ord now ev e = Some (Ok e') \<Longrightarrow> engine_reaches sha e0 e'"

end
