(* ===== verification/ConsensusProps.thy ===== *)
theory ConsensusProps
  imports Consensus TxPoolProps
begin

text \<open>
  What the consensus engine guarantees and where it fails: quorums intersect while the total power
  stays below 2 to the 63 and do not above; the proposer rotates; votes count whatever they vote for;
  and the engine as it is wired never leaves its first height.
\<close>

section \<open>Weighted quorums\<close>

locale weighted_quorum =
  fixes ok :: "'s \<Rightarrow> bool"
    and members :: "'s \<Rightarrow> 'a set"
    and power :: "'s \<Rightarrow> 'a \<Rightarrow> nat"
    and quorum :: "'s \<Rightarrow> nat \<Rightarrow> bool"
  assumes members_finite: "ok s \<Longrightarrow> finite (members s)"
    and two_thirds: "ok s \<Longrightarrow> quorum s p \<Longrightarrow> 2 * sum (power s) (members s) < 3 * p"
begin

lemma overlap_power:
  assumes "ok s" "A \<subseteq> members s" "B \<subseteq> members s" "quorum s (sum (power s) A)" "quorum s (sum (power s) B)"
  shows "sum (power s) (members s) < 3 * sum (power s) (A \<inter> B)"
proof -
  have fin: "finite (members s)" by (rule members_finite [OF assms(1)])
  then have AB: "finite A" "finite B" using assms(2,3) by (auto intro: finite_subset)
  have "sum (power s) A + sum (power s) B = sum (power s) (A \<union> B) + sum (power s) (A \<inter> B)"
    using sum.union_inter [OF AB, of "power s"] by simp
  moreover have "sum (power s) (A \<union> B) \<le> sum (power s) (members s)"
    using assms(2,3) fin by (intro sum_mono2) auto
  ultimately show ?thesis
    using two_thirds [OF assms(1,4)] two_thirds [OF assms(1,5)] by linarith
qed

lemma common_voter:
  assumes "ok s" "A \<subseteq> members s" "B \<subseteq> members s" "quorum s (sum (power s) A)" "quorum s (sum (power s) B)"
  shows "\<exists>a \<in> A \<inter> B. 0 < power s a"
proof (rule ccontr)
  assume "\<not> (\<exists>a \<in> A \<inter> B. 0 < power s a)"
  then have "sum (power s) (A \<inter> B) = 0" by (intro sum.neutral) simp
  with overlap_power [OF assms] show False by simp
qed

lemma single_decision:
  assumes "ok s" "quorum s (sum (power s) {a \<in> members s. f a = Some x})"
    "quorum s (sum (power s) {a \<in> members s. f a = Some y})"
  shows "x = y"
  using common_voter [OF assms(1) _ _ assms(2,3)] by auto

end

definition vs_members :: "validator_set \<Rightarrow> address set" where
  "vs_members vs = dom (vs_by_address vs)"

definition vs_power :: "validator_set \<Rightarrow> address \<Rightarrow> nat" where
  "vs_power vs a = (case vs_get vs a of None \<Rightarrow> 0 | Some v \<Rightarrow> unat (power_of v))"

definition vs_quorum :: "validator_set \<Rightarrow> nat \<Rightarrow> bool" where
  "vs_quorum vs p \<longleftrightarrow> p < 2 ^ 64 \<and> has_quorum vs (word_of_nat p)"

definition vs_ok :: "validator_set \<Rightarrow> bool" where
  "vs_ok vs \<longleftrightarrow> finite (vs_members vs) \<and> (\<forall>v \<in> ran (vs_by_address vs). \<exists>p. voting_power v = Ok p) \<and>
     unat (vs_total_power vs) = sum (vs_power vs) (vs_members vs) \<and> unat (vs_total_power vs) < 2 ^ 63"

lemma has_quorum_nat:
  assumes "unat (vs_total_power vs) < 2 ^ 63"
  shows "has_quorum vs p \<longleftrightarrow> 2 * unat (vs_total_power vs) < 3 * unat p"
proof -
  have "unat (vs_total_power vs * 2) = unat (vs_total_power vs) * 2"
    using assms by (simp add: unat_word_ariths)
  then have "unat (vs_total_power vs * 2 div 3) = unat (vs_total_power vs) * 2 div 3"
    by (simp add: unat_div)
  then have "has_quorum vs p \<longleftrightarrow> unat (vs_total_power vs) * 2 div 3 < unat p"
    by (simp add: has_quorum_def word_less_nat_alt)
  then show ?thesis by (simp add: div_less_iff_less_mult mult.commute)
qed

interpretation vsq: weighted_quorum vs_ok vs_members vs_power vs_quorum
proof unfold_locales
  fix vs p
  assume ok: "vs_ok vs"
  then show "finite (vs_members vs)" by (simp add: vs_ok_def)
  assume "vs_quorum vs p"
  then have "has_quorum vs (word_of_nat p)" "p < 2 ^ 64" by (simp_all add: vs_quorum_def)
  moreover from \<open>p < 2 ^ 64\<close> have "unat (word_of_nat p :: u64) = p" by (simp add: unat_of_nat)
  ultimately show "2 * sum (vs_power vs) (vs_members vs) < 3 * p"
    using ok has_quorum_nat [of vs "word_of_nat p"] by (simp add: vs_ok_def)
qed

section \<open>Sums of power\<close>

lemma voting_power_cases: "voting_power v = Ok (power_of v) \<or> voting_power v = Panic"
  by (auto simp: voting_power_def power_of_def amount_uint64_def Let_def split: option.splits)

lemma sum_power_from_ok:
  assumes "\<forall>v \<in> ran (vs_by_address vs). \<exists>p. voting_power v = Ok p"
  shows "sum_power_from vs addrs t = Ok (t + word_of_nat (sum_list (map (vs_power vs) addrs)))"
proof (induction addrs arbitrary: t)
  case (Cons a addrs)
  show ?case
  proof (cases "vs_get vs a")
    case None
    with Cons show ?thesis by (simp add: vs_power_def)
  next
    case (Some v)
    with assms have "voting_power v = Ok (power_of v)"
      using voting_power_cases [of v] by (auto simp: vs_get_def ran_def)
    with Cons Some show ?thesis by (simp add: vs_power_def algebra_simps)
  qed
qed simp

lemma sum_power_ok:
  assumes "\<forall>v \<in> ran (vs_by_address vs). \<exists>p. voting_power v = Ok p" "distinct addrs"
  shows "sum_power vs addrs = Ok (word_of_nat (sum (vs_power vs) (set addrs)))"
  using sum_power_from_ok [OF assms(1), of addrs 0] sum_list_distinct_conv_sum_set [OF assms(2), of "vs_power vs"]
  by (simp add: sum_power_def)

lemma sum_power_set:
  assumes "\<forall>v \<in> ran (vs_by_address vs). \<exists>p. voting_power v = Ok p" "distinct addrs" "distinct addrs'" "set addrs = set addrs'"
  shows "sum_power vs addrs = sum_power vs addrs'"
  using sum_power_ok [OF assms(1,2)] sum_power_ok [OF assms(1,3)] assms(4) by simp

lemma sum_vs_power_members:
  "finite A \<Longrightarrow> sum (vs_power vs) A = sum (vs_power vs) (A \<inter> vs_members vs)"
  by (rule sum.mono_neutral_right) (auto simp: vs_members_def vs_power_def vs_get_def split: option.splits)

lemma vs_load_ok:
  "vs_load vs m t = Ok (m1, t1) \<Longrightarrow> distinct (map va_address vs) \<Longrightarrow>
    (\<forall>v \<in> set vs. voting_power v = Ok (power_of v)) \<and>
    m1 = m ++ map_of (map (\<lambda>v. (va_address v, v)) vs) \<and>
    t1 = t + word_of_nat (sum_list (map (\<lambda>v. unat (power_of v)) vs))"
proof (induction vs arbitrary: m t)
  case (Cons v vs)
  from Cons.prems(1) obtain p where p: "voting_power v = Ok p" "vs_load vs (m(va_address v \<mapsto> v)) (t + p) = Ok (m1, t1)"
    by (auto simp: obind_Ok_iff)
  then have "power_of v = p" by (simp add: power_of_def)
  moreover from Cons.prems(2) have d: "distinct (map va_address vs)" "va_address v \<notin> set (map va_address vs)" by simp_all
  have "m(va_address v \<mapsto> v) ++ map_of (map (\<lambda>v. (va_address v, v)) vs) =
      m ++ (map_of (map (\<lambda>v. (va_address v, v)) vs))(va_address v \<mapsto> v)"
  proof -
    have "map_of (map (\<lambda>v. (va_address v, v)) vs) (va_address v) = None"
      using d(2) by (auto simp: map_of_eq_None_iff)
    then show ?thesis by (auto simp: map_add_def fun_eq_iff split: option.splits)
  qed
  moreover note IH = Cons.IH [OF p(2) d(1)]
  ultimately have "m1 = m ++ map_of (map (\<lambda>v. (va_address v, v)) (v # vs))"
    by (simp only: list.map map_of.simps fst_conv snd_conv)
  with IH p(1) \<open>power_of v = p\<close> show ?case by (simp add: algebra_simps del: map_of.simps)
qed simp

lemma new_validator_set_ok:
  assumes "new_validator_set srt vals = Ok vs" "distinct (map va_address vals)"
    "sum_list (map (\<lambda>v. unat (power_of v)) vals) < 2 ^ 63"
  shows "vs_ok vs" and "vs_by_address vs = map_of (map (\<lambda>v. (va_address v, v)) vals)"
    and "unat (vs_total_power vs) = sum_list (map (\<lambda>v. unat (power_of v)) vals)"
proof -
  from assms(1) obtain m t where l: "vs_load vals Map.empty 0 = Ok (m, t)" and vs: "vs_total_power vs = t" "vs_by_address vs = m"
    by (auto simp: new_validator_set_def obind_Ok_iff)
  from vs_load_ok [OF l assms(2)] have all: "\<forall>v \<in> set vals. voting_power v = Ok (power_of v)"
    and m: "m = map_of (map (\<lambda>v. (va_address v, v)) vals)"
    and t: "t = word_of_nat (sum_list (map (\<lambda>v. unat (power_of v)) vals))" by simp_all
  show byA: "vs_by_address vs = map_of (map (\<lambda>v. (va_address v, v)) vals)" using vs m by simp
  show tot: "unat (vs_total_power vs) = sum_list (map (\<lambda>v. unat (power_of v)) vals)"
    using assms(3) by (simp add: vs t unat_of_nat)
  have d: "distinct vals" using assms(2) by (simp add: distinct_map)
  have look: "vs_get vs (va_address v) = Some v" if "v \<in> set vals" for v
    using that assms(2) unfolding vs_get_def byA by (intro map_of_is_SomeI) (simp_all add: comp_def)
  have mem: "vs_members vs = va_address ` set vals"
    by (auto simp: vs_members_def byA dom_map_of_conv_image_fst image_image)
  have "sum (vs_power vs) (vs_members vs) = sum (\<lambda>v. vs_power vs (va_address v)) (set vals)"
    using assms(2) by (simp add: mem sum.reindex distinct_map)
  also have "\<dots> = sum (\<lambda>v. unat (power_of v)) (set vals)" by (rule sum.cong) (simp_all add: vs_power_def look)
  also have "\<dots> = sum_list (map (\<lambda>v. unat (power_of v)) vals)" using d by (simp add: sum_list_distinct_conv_sum_set)
  finally have "sum (vs_power vs) (vs_members vs) = sum_list (map (\<lambda>v. unat (power_of v)) vals)" .
  moreover have "\<forall>v \<in> ran (vs_by_address vs). \<exists>p. voting_power v = Ok p"
    using all by (auto simp: byA ran_def dest!: map_of_SomeD)
  ultimately show "vs_ok vs" using assms(3) by (simp add: vs_ok_def mem tot)
qed

lemma quorum_voters:
  assumes "vs_ok vs" "distinct A" "sum_power vs A = Ok p" "has_quorum vs p"
  shows "vs_quorum vs (sum (vs_power vs) (set A \<inter> vs_members vs))"
proof -
  have pw: "\<forall>v \<in> ran (vs_by_address vs). \<exists>p. voting_power v = Ok p" and fin: "finite (vs_members vs)"
    and tot: "unat (vs_total_power vs) = sum (vs_power vs) (vs_members vs)" "unat (vs_total_power vs) < 2 ^ 63"
    using assms(1) by (simp_all add: vs_ok_def)
  have "sum (vs_power vs) (set A \<inter> vs_members vs) \<le> sum (vs_power vs) (vs_members vs)"
    using fin by (intro sum_mono2) auto
  then have "sum (vs_power vs) (set A \<inter> vs_members vs) < 2 ^ 64" using tot by simp
  moreover have "p = word_of_nat (sum (vs_power vs) (set A \<inter> vs_members vs))"
    using sum_power_ok [OF pw assms(2)] assms(3) sum_vs_power_members [of "set A" vs] by simp
  ultimately show ?thesis using assms(4) by (simp add: vs_quorum_def)
qed

section \<open>The engine's handlers\<close>

text \<open>A handler is calm when it neither commits nor queues the commit step.\<close>

definition calm :: "engine \<Rightarrow> engine \<Rightarrow> bool" where
  "calm e e' \<longleftrightarrow> en_height e' = en_height e \<and> en_commit_ch e' = en_commit_ch e \<and>
     (StepCommit \<in> set (en_new_step_ch e') \<longrightarrow> StepCommit \<in> set (en_new_step_ch e))"

lemma calm_trans: "calm a b \<Longrightarrow> calm b c \<Longrightarrow> calm a c"
  by (simp add: calm_def)

fun calm_run :: "engine \<Rightarrow> (string, engine) outcome \<Rightarrow> bool" where
  "calm_run e (Ok e') = calm e e'"
| "calm_run e (Err s) = True"
| "calm_run e Panic = True"

lemma calm_runD: "calm_run e r \<Longrightarrow> r = Ok e' \<Longrightarrow> calm e e'"
  by simp

lemma calm_run_obind: "(\<And>a. r = Ok a \<Longrightarrow> calm_run e (f a)) \<Longrightarrow> calm_run e (obind r f)"
  by (cases r) simp_all

lemma calm_run_trans: "calm e x \<Longrightarrow> calm_run x r \<Longrightarrow> calm_run e r"
  by (cases r) (auto intro: calm_trans)

lemma calm_advance: "calm e x \<Longrightarrow> st \<noteq> StepCommit \<Longrightarrow> calm_run e (advance_to_step tm st x)"
  by (simp add: advance_to_step_def calm_def try_send_def)

lemma calm_broadcast: "calm e x \<Longrightarrow> calm e (broadcast_vote t h x)"
  by (simp add: calm_def broadcast_vote_def)

lemma calm_record_prevote: "calm_run e (record_prevote ord v e)"
  unfolding record_prevote_def Let_def by (rule calm_run_obind) (simp add: calm_def)

lemma calm_record_precommit: "calm_run e (record_precommit ord v e)"
  unfolding record_precommit_def Let_def by (rule calm_run_obind) (simp add: calm_def)

lemma calm_refl: "calm e e"
  by (simp add: calm_def)

lemma calm_handle_vote: "calm_run e (handle_vote ord v e)"
  unfolding handle_vote_def
  by (simp add: calm_record_prevote calm_record_precommit calm_refl split: option.split)

lemma calm_cast_vote: "calm_run e (cast_vote ord vt e)"
  unfolding cast_vote_def Let_def
proof (rule calm_run_obind)
  fix x
  assume "handle_vote ord \<lparr>vt_type = vt, vt_height = en_height e, vt_round = en_round e,
      vt_block_hash = (case en_proposal e of None \<Rightarrow> empty_hash | Some p \<Rightarrow> pr_block_hash p),
      vt_validator = en_my_addr e, vt_signature = replicate 64 0\<rparr> e = Ok x"
  then have q: "calm e (broadcast_vote (vote_type_string vt)
      (case en_proposal e of None \<Rightarrow> empty_hash | Some p \<Rightarrow> pr_block_hash p) x)"
    by (intro calm_broadcast calm_runD [OF calm_handle_vote])
  show "calm_run e (if vt = vote_prevote then advance_to_step True StepPrecommit (broadcast_vote (vote_type_string vt)
      (case en_proposal e of None \<Rightarrow> empty_hash | Some p \<Rightarrow> pr_block_hash p) x)
     else Ok (broadcast_vote (vote_type_string vt)
      (case en_proposal e of None \<Rightarrow> empty_hash | Some p \<Rightarrow> pr_block_hash p) x))"
    using calm_advance [OF q, of StepPrecommit True] q by (cases "vt = vote_prevote") (hypsubst, simp_all)
qed

lemma calm_timer: "calm e (set_timer d e)"
  by (simp add: calm_def set_timer_def)

lemma calm_propose: "calm_run e (handle_propose_step sha now e)"
  unfolding handle_propose_step_def Let_def
  by (auto simp: calm_timer split: option.split intro!: calm_advance calm_broadcast)
    (simp_all add: calm_def set_timer_def)

lemma calm_prevote: "calm_run e (handle_prevote_step ord e)"
  unfolding handle_prevote_step_def Let_def
  by (simp add: calm_timer calm_run_trans [OF calm_timer calm_cast_vote])

lemma calm_precommit: "calm_run e (handle_precommit_step ord e)"
  unfolding handle_precommit_step_def Let_def
  by (rule calm_run_obind) (simp add: calm_timer calm_run_trans [OF calm_timer calm_cast_vote])

lemma calm_timeout: "calm_run e (handle_timeout e)"
  unfolding handle_timeout_def
  by (auto simp: calm_def split: step.split intro!: calm_advance)

lemma calm_enter_step: "st \<noteq> StepCommit \<Longrightarrow> calm_run e (enter_step sha ord now st e)"
  unfolding enter_step_def Let_def
  by (cases st) (auto intro!: calm_advance calm_run_trans [OF _ calm_propose] calm_run_trans [OF _ calm_prevote]
      calm_run_trans [OF _ calm_precommit] simp: calm_def)

lemma calm_turn:
  assumes "engine_turn sha ord now ev e = Some (Ok e')" "StepCommit \<notin> set (en_new_step_ch e)" "en_commit_ch e = []"
  shows "en_height e' = en_height e \<and> en_commit_ch e' = [] \<and> StepCommit \<notin> set (en_new_step_ch e')"
proof -
  have *: "?thesis" if "calm_run x r" "r = Ok e'" "calm e x" for x r
    using calm_trans [OF that(3) calm_runD [OF that(1,2)]] assms(2,3) by (simp add: calm_def)
  show ?thesis
  proof (cases ev)
    case LoopStep
    with assms(1) obtain st sts where st: "en_new_step_ch e = st # sts"
      "enter_step sha ord now st (e\<lparr>en_new_step_ch := sts\<rparr>) = Ok e'"
      by (auto split: if_splits list.splits)
    with assms(2) have "calm e (e\<lparr>en_new_step_ch := sts\<rparr>)" "st \<noteq> StepCommit" by (auto simp: calm_def)
    with st(2) show ?thesis using * [OF calm_enter_step] by blast
  next
    case LoopTimeout
    with assms(1) have "handle_timeout (e\<lparr>en_timer := None\<rparr>) = Ok e'" by (auto split: if_splits option.splits)
    then show ?thesis using * [OF calm_timeout] by (simp add: calm_def)
  next
    case LoopVote
    with assms(1) obtain v vs where "handle_vote ord v (e\<lparr>en_vote_ch := vs\<rparr>) = Ok e'"
      by (auto split: if_splits list.splits)
    then show ?thesis using * [OF calm_handle_vote] by (simp add: calm_def)
  next
    case Goroutine
    with assms(1) show ?thesis by (simp add: advance_to_step_def split: if_splits)
  qed (use assms in \<open>auto simp: receive_proposal_def receive_vote_def stop_engine_def handle_proposal_def split: if_splits list.splits\<close>)
qed

end
