(* ===== verification/ConsensusSafety.thy ===== *)
theory ConsensusSafety
  imports ConsensusProps
begin

text \<open>
  The properties of the consensus engine: what every reachable state of the engine satisfies, when
  a vote brings it down, and what quorums and the proposer rotation are worth.
\<close>

section \<open>The engine at rest\<close>

definition at_rest :: "u64 \<Rightarrow> engine \<Rightarrow> bool" where
  "at_rest h e \<longleftrightarrow> en_height e = h \<and> en_round e = 0 \<and> en_step e = StepNewHeight \<and> en_new_step_ch e = [] \<and>
     en_timer e = None \<and> en_proposal_block e = None \<and> en_commit_ch e = [] \<and> en_sent e = []"

lemma rest_prevote:
  assumes "record_prevote ord v e = Ok e'"
  shows "at_rest h e' = at_rest h e"
proof -
  let ?e = "e\<lparr>en_prevotes := (en_prevotes e)(vt_validator v \<mapsto> v)\<rparr>"
  from assms obtain q where "(if has_quorum (en_validators ?e) q
      then ?e\<lparr>en_valid_block := Some (vt_block_hash v), en_valid_round := en_round ?e\<rparr> else ?e) = e'"
    unfolding record_prevote_def Let_def obind_Ok_iff by blast
  then show ?thesis by (cases "has_quorum (en_validators ?e) q") (auto simp: at_rest_def)
qed

lemma rest_precommit:
  assumes "record_precommit ord v e = Ok e'"
  shows "at_rest h e' = at_rest h e"
proof -
  let ?e = "e\<lparr>en_precommits := (en_precommits e)(vt_validator v \<mapsto> v)\<rparr>"
  from assms obtain q where "(if has_quorum (en_validators ?e) q then ?e\<lparr>en_goroutines := en_goroutines ?e + 1\<rparr> else ?e) = e'"
    unfolding record_precommit_def Let_def obind_Ok_iff by blast
  then show ?thesis by (cases "has_quorum (en_validators ?e) q") (auto simp: at_rest_def)
qed

lemma rest_handle_vote: "handle_vote ord v e = Ok e' \<Longrightarrow> at_rest h e \<Longrightarrow> at_rest h e'"
  unfolding handle_vote_def
  using rest_prevote [of ord v e e' h] rest_precommit [of ord v e e' h] by (simp split: option.splits if_splits)

lemma rest_turn:
  assumes "engine_turn sha ord now ev e = Some (Ok e')" "at_rest h e"
  shows "at_rest h e'"
proof (cases ev)
  case LoopStep
  with assms show ?thesis by (auto simp: at_rest_def split: if_splits list.splits)
next
  case LoopTimeout
  with assms show ?thesis by (auto simp: at_rest_def split: if_splits option.splits)
next
  case LoopVote
  with assms(1) obtain v vs where "handle_vote ord v (e\<lparr>en_vote_ch := vs\<rparr>) = Ok e'"
    by (auto split: if_splits list.splits)
  from rest_handle_vote [OF this, of h] assms(2) show ?thesis by (simp add: at_rest_def)
next
  case Goroutine
  with assms show ?thesis by (simp add: advance_to_step_def split: if_splits)
qed (use assms in \<open>auto simp: at_rest_def receive_proposal_def receive_vote_def stop_engine_def handle_proposal_def
    split: if_splits list.splits\<close>)

lemma rest_reaches: "engine_reaches sha e0 e \<Longrightarrow> at_rest h e0 \<Longrightarrow> at_rest h e"
  by (induction rule: engine_reaches.induct) (auto intro: rest_turn)

definition sample_validator :: validator where
  "sample_validator = \<lparr>va_address = replicate 20 1, va_pub_key = replicate 32 0, va_compute_power = 100,
     va_np_stake = Some 1000, va_is_active = True\<rparr>"

lemma sample_floats:
  "f64_of_u64 100 = F64 100 0" "f64_of_u64 1000 = F64 1000 0"
  "f64_to_u64 (f64_mul (F64 100 0) f64_0_4) = 40" "f64_to_u64 (f64_mul (F64 1000 0) f64_0_6) = 600"
  by (simp_all add: f64_of_u64_def f64_0_4_def f64_0_6_def f64_eval)

lemma sample_power: "voting_power sample_validator = Ok 640"
  by (simp add: voting_power_def sample_validator_def amount_uint64_def sample_floats del: f64_mul.simps f64_to_u64.simps)

definition sample_set :: validator_set where
  "sample_set = \<lparr>vs_validators = [sample_validator], vs_total_power = 640,
     vs_by_address = [replicate 20 1 \<mapsto> sample_validator]\<rparr>"

lemma sample_set_new: "new_validator_set (\<lambda>_ vs. vs) [sample_validator] = Ok sample_set"
  by (simp add: new_validator_set_def sample_set_def sample_power) (simp add: sample_validator_def)

definition sample_engine :: engine where
  "sample_engine = new_engine (default_engine_config (replicate 20 1) sample_set 5)"

section \<open>Properties\<close>

text \<open>
  The engine never starts. Nothing ever sends the first step to the loop: after NewEngine,
  any of SetBlockBuilder and SetGossiper, and Start, whatever proposals, votes, reads and stops
  follow, the engine stays at its initial height, round 0, step NewHeight, with no timer armed, and
  proposes, sends and commits nothing.
\<close>

theorem engine_idle:
  assumes "e0 \<in> {new_engine cfg, set_gossiper (new_engine cfg), set_block_builder fn (new_engine cfg),
      set_gossiper (set_block_builder fn (new_engine cfg))}"
    and "engine_reaches sha (start_engine e0) e"
  shows "en_height e = ec_initial_height cfg \<and> en_round e = 0 \<and> en_step e = StepNewHeight \<and>
    en_new_step_ch e = [] \<and> en_timer e = None \<and> en_proposal_block e = None \<and> en_commit_ch e = [] \<and> en_sent e = []"
proof -
  have "at_rest (ec_initial_height cfg) (start_engine e0)"
    using assms(1) by (auto simp: at_rest_def start_engine_def new_engine_def set_gossiper_def set_block_builder_def)
  from rest_reaches [OF assms(2) this] show ?thesis by (simp add: at_rest_def)
qed

theorem engine_idle_witness:
  "\<exists>e. engine_reaches (\<lambda>b. b) (start_engine sample_engine) e \<and> en_vote_ch e \<noteq> [] \<and> en_height e = 5 \<and> en_timer e = None"
proof -
  let ?v = "\<lparr>vt_type = vote_prevote, vt_height = 5, vt_round = 0, vt_block_hash = empty_hash,
    vt_validator = replicate 20 1, vt_signature = []\<rparr>"
  let ?e = "receive_vote ?v (start_engine sample_engine)"
  have r: "engine_reaches (\<lambda>b. b) (start_engine sample_engine) ?e"
    by (rule reaches_turn [OF reaches_start, where ev = "ReceiveVote ?v"]) simp
  have in0: "sample_engine \<in> {new_engine (default_engine_config (replicate 20 1) sample_set 5),
      set_gossiper (new_engine (default_engine_config (replicate 20 1) sample_set 5)),
      set_block_builder (\<lambda>_ _ _. None) (new_engine (default_engine_config (replicate 20 1) sample_set 5)),
      set_gossiper (set_block_builder (\<lambda>_ _ _. None) (new_engine (default_engine_config (replicate 20 1) sample_set 5)))}"
    by (simp add: sample_engine_def)
  from engine_idle [OF in0 r] have "en_height ?e = 5 \<and> en_timer ?e = None" by (simp add: default_engine_config_def)
  moreover have "en_vote_ch ?e \<noteq> []"
    by (simp add: receive_vote_def try_send_def start_engine_def sample_engine_def new_engine_def)
  ultimately show ?thesis using r by blast
qed

text \<open>
  C4: the engine never commits. Even from a state in which its loop runs and any steps but Commit
  wait in the step channel, with any votes, proposal, timer and round, no sequence of events commits a
  block or changes the height: only the goroutine of a precommit quorum could send Commit.
\<close>

theorem engine_never_commits:
  assumes "engine_reaches sha e0 e" "StepCommit \<notin> set (en_new_step_ch e0)" "en_commit_ch e0 = []"
  shows "en_height e = en_height e0 \<and> en_commit_ch e = [] \<and> StepCommit \<notin> set (en_new_step_ch e)"
  using assms
proof (induction rule: engine_reaches.induct)
  case (reaches_turn e ord now ev e')
  then show ?case using calm_turn [OF reaches_turn.hyps(2)] by simp
qed simp

theorem engine_never_commits_witness:
  "\<exists>e. engine_reaches (\<lambda>b. b) ((start_engine sample_engine)\<lparr>en_new_step_ch := [StepNewHeight]\<rparr>) e \<and>
    en_new_step_ch e = [StepPropose] \<and> en_height e = 5"
proof -
  let ?e0 = "(start_engine sample_engine)\<lparr>en_new_step_ch := [StepNewHeight]\<rparr>"
  have d: "en_looping ?e0" "en_new_step_ch ?e0 = [StepNewHeight]" "en_commit_ch ?e0 = []" "en_height ?e0 = 5"
    by (simp_all add: start_engine_def sample_engine_def new_engine_def default_engine_config_def)
  obtain e where e: "engine_turn (\<lambda>b. b) sorted_list_of_set 0 LoopStep ?e0 = Some (Ok e)" "en_new_step_ch e = [StepPropose]"
    using d by (simp add: enter_step_def advance_to_step_def try_send_def)
  have r: "engine_reaches (\<lambda>b. b) ?e0 e" by (rule reaches_turn [OF reaches_start e(1)])
  with engine_never_commits [OF r] d e(2) show ?thesis by auto
qed

text \<open>
  A precommit quorum crashes the node. When an active validator's precommit completes a quorum,
  the vote starts a goroutine that calls advanceToStep with a nil timer; its next turn panics, and a
  panic in a goroutine ends the process. A vote of an unknown validator panics at once.
\<close>

theorem precommit_quorum_crashes:
  assumes "vs_get (en_validators e) (vt_validator v) = Some va" "va_is_active va" "vt_type v = vote_precommit"
    "sum_power (en_validators e) (ord (insert (vt_validator v) (dom (en_precommits e)))) = Ok p"
    "has_quorum (en_validators e) p"
  shows "\<exists>e'. handle_vote ord v e = Ok e' \<and> engine_turn sha ord now Goroutine e' = Some Panic \<and>
    (\<forall>w. vs_get (en_validators e') (vt_validator w) = None \<longrightarrow> handle_vote ord w e' = Panic)"
proof -
  have "dom ((en_precommits e)(vt_validator v \<mapsto> v)) = insert (vt_validator v) (dom (en_precommits e))" by simp
  with assms have "handle_vote ord v e = Ok (e\<lparr>en_precommits := (en_precommits e)(vt_validator v \<mapsto> v),
      en_goroutines := en_goroutines e + 1\<rparr>)"
    by (simp add: handle_vote_def record_precommit_def precommit_addrs_def vote_precommit_def vote_prevote_def Let_def
        del: dom_fun_upd)
  then show ?thesis by (simp add: advance_to_step_def handle_vote_def)
qed

theorem precommit_quorum_crashes_witness:
  "\<exists>e v e'. handle_vote sorted_list_of_set v e = Ok e' \<and> engine_turn (\<lambda>b. b) sorted_list_of_set 0 Goroutine e' = Some Panic"
proof -
  let ?v = "\<lparr>vt_type = vote_precommit, vt_height = 5, vt_round = 0, vt_block_hash = empty_hash,
    vt_validator = replicate 20 1, vt_signature = []\<rparr>"
  have vs: "en_validators sample_engine = sample_set" "en_precommits sample_engine = Map.empty"
    by (simp_all add: sample_engine_def new_engine_def default_engine_config_def)
  have g: "vs_get (en_validators sample_engine) (vt_validator ?v) = Some sample_validator"
    unfolding vs by (simp add: vs_get_def sample_set_def)
  have "sum_power (en_validators sample_engine) (sorted_list_of_set (insert (vt_validator ?v) (dom (en_precommits sample_engine)))) = Ok 640"
    unfolding vs by (simp add: sum_power_def vs_get_def sample_set_def sample_power)
  moreover have "has_quorum (en_validators sample_engine) 640" unfolding vs by (simp add: has_quorum_def sample_set_def)
  moreover have "va_is_active sample_validator" "vt_type ?v = vote_precommit" by (simp_all add: sample_validator_def)
  ultimately show ?thesis
    using precommit_quorum_crashes [OF g, of sorted_list_of_set 640 "\<lambda>b. b" 0] by blast
qed

text \<open>
  Votes count whatever they vote for. Replace every recorded vote by any other vote of the same
  validator (another block, height or round), and give the new vote any height and round: the engine
  counts the same quorum, marks the same block valid and starts the same commit.
\<close>

theorem vote_content_ignored:
  assumes "dom P = dom (en_prevotes e)" "dom Q = dom (en_precommits e)"
  shows "(\<exists>a b. handle_vote ord v e = Ok a \<and>
      handle_vote ord (v\<lparr>vt_height := h, vt_round := r\<rparr>) (e\<lparr>en_prevotes := P, en_precommits := Q\<rparr>) = Ok b \<and>
      en_valid_block b = en_valid_block a \<and> en_goroutines b = en_goroutines a) \<or>
    (handle_vote ord v e = Panic \<and>
      handle_vote ord (v\<lparr>vt_height := h, vt_round := r\<rparr>) (e\<lparr>en_prevotes := P, en_precommits := Q\<rparr>) = Panic)"
proof -
  have p: "(\<exists>q. sum_power vs as = Ok q) \<or> sum_power vs as = Panic" for vs as
  proof -
    have "(\<exists>p. sum_power_from vs as t = Ok p) \<or> sum_power_from vs as t = Panic" for t
    proof (induction as arbitrary: t)
      case (Cons a as)
      then show ?case
      proof (cases "vs_get vs a")
        case (Some va)
        then show ?thesis using Cons [of "t + power_of va"] voting_power_cases [of va] by auto
      qed simp
    qed simp
    then show ?thesis by (auto simp: sum_power_def)
  qed
  show ?thesis
  proof (cases "vs_get (en_validators e) (vt_validator v)")
    case (Some va)
    then show ?thesis
      using p [of "en_validators e" "ord (insert (vt_validator v) (dom (en_prevotes e)))"]
        p [of "en_validators e" "ord (insert (vt_validator v) (dom (en_precommits e)))"] assms
      by (auto simp: handle_vote_def record_prevote_def record_precommit_def prevote_addrs_def precommit_addrs_def Let_def)
  qed (simp add: handle_vote_def)
qed

theorem vote_content_ignored_witness:
  "\<exists>a. handle_vote (\<lambda>_. []) \<lparr>vt_type = vote_prevote, vt_height = 5, vt_round = 0, vt_block_hash = empty_hash,
      vt_validator = replicate 20 1, vt_signature = []\<rparr> sample_engine = a"
  using vote_content_ignored [of Map.empty sample_engine Map.empty "\<lambda>_. []"
      "\<lparr>vt_type = vote_prevote, vt_height = 5, vt_round = 0, vt_block_hash = empty_hash,
         vt_validator = replicate 20 1, vt_signature = []\<rparr>" 9 9]
  by (simp add: sample_engine_def new_engine_def)

text \<open>
  C11: quorums intersect. In a validator set built from distinct addresses whose powers sum to less than
  2 to the 63, two groups of voters that both reach the quorum share a validator with positive power,
  and the shared validators hold more than a third of the total.
\<close>

theorem quorums_intersect:
  assumes "new_validator_set srt vals = Ok vs" "distinct (map va_address vals)"
    "sum_list (map (\<lambda>v. unat (power_of v)) vals) < 2 ^ 63"
    "distinct A" "sum_power vs A = Ok p" "has_quorum vs p"
    "distinct B" "sum_power vs B = Ok q" "has_quorum vs q"
  shows "(\<exists>a \<in> set A \<inter> set B. \<exists>v. vs_get vs a = Some v \<and> power_of v \<noteq> 0) \<and>
    sum_list (map (\<lambda>v. unat (power_of v)) vals) < 3 * sum (vs_power vs) (set A \<inter> set B)"
proof -
  note ok = new_validator_set_ok [OF assms(1-3)]
  let ?A = "set A \<inter> vs_members vs" and ?B = "set B \<inter> vs_members vs"
  note qa = quorum_voters [OF ok(1) assms(4-6)] and qb = quorum_voters [OF ok(1) assms(7-9)]
  from vsq.common_voter [OF ok(1) _ _ qa qb] obtain a where "a \<in> set A \<inter> set B" "0 < vs_power vs a" by auto
  then have "\<exists>a \<in> set A \<inter> set B. \<exists>v. vs_get vs a = Some v \<and> power_of v \<noteq> 0"
    by (auto simp: vs_power_def unat_eq_0 split: option.splits intro!: bexI [of _ a])
  moreover have "sum (vs_power vs) (vs_members vs) < 3 * sum (vs_power vs) (?A \<inter> ?B)"
    using vsq.overlap_power [OF ok(1) _ _ qa qb] by simp
  moreover have "sum (vs_power vs) (?A \<inter> ?B) = sum (vs_power vs) (set A \<inter> set B)"
    using sum_vs_power_members [of "set A \<inter> set B" vs] by (simp add: Int_ac)
  ultimately show ?thesis using ok(1,3) by (simp add: vs_ok_def)
qed

theorem quorums_intersect_witness:
  "\<exists>a v. a = replicate 20 1 \<and> vs_get sample_set a = Some v \<and> power_of v \<noteq> 0"
proof -
  have p: "sum_power sample_set [replicate 20 1] = Ok 640"
    by (simp add: sum_power_def vs_get_def sample_set_def sample_power)
  have q: "has_quorum sample_set 640" by (simp add: has_quorum_def sample_set_def)
  have s: "sum_list (map (\<lambda>v. unat (power_of v)) [sample_validator]) < 2 ^ 63" by (simp add: power_of_def sample_power)
  from quorums_intersect [OF sample_set_new _ s _ p q _ p q] show ?thesis by auto
qed

text \<open>
  The quorum test wraps around. From a total power of 2 to the 63 on, \<open>TotalPower*2\<close> loses its top
  bit and the threshold drops to a third of what exceeds it: with a total of exactly 2 to the 63 every
  voter with any power is a quorum.
\<close>

theorem quorum_wraps:
  assumes "2 ^ 63 \<le> unat (vs_total_power vs)"
  shows "has_quorum vs p \<longleftrightarrow> 2 * unat (vs_total_power vs) - 2 ^ 64 < 3 * unat p"
    (is "_ \<longleftrightarrow> ?t < _")
proof -
  have lt: "unat (vs_total_power vs) < 2 ^ 64" using unsigned_less [of "vs_total_power vs"] by simp
  have "unat (vs_total_power vs * 2) = unat (vs_total_power vs) * 2 mod 2 ^ 64"
    by (simp add: unat_word_ariths)
  also have "\<dots> = ?t" using assms lt by (simp add: mod_if mult.commute)
  finally have "unat (vs_total_power vs * 2 div 3) = ?t div 3" by (simp add: unat_div)
  then have "has_quorum vs p \<longleftrightarrow> ?t div 3 < unat p" by (simp add: has_quorum_def word_less_nat_alt)
  then show ?thesis by (simp add: div_less_iff_less_mult mult.commute)
qed

theorem quorum_wraps_witness:
  "has_quorum \<lparr>vs_validators = [], vs_total_power = 2 ^ 63, vs_by_address = Map.empty\<rparr> 1"
  using quorum_wraps [of "\<lparr>vs_validators = [], vs_total_power = 2 ^ 63, vs_by_address = Map.empty\<rparr>" 1] by simp

text \<open>
  The proposer rotates. Over as many consecutive rounds as there are validators (without passing 2
  to the 64), the proposers are the validators in their order, starting at height plus round modulo
  their number: each proposes exactly once.
\<close>

theorem proposer_rotates:
  assumes "vs_validators vs \<noteq> []" "unat h + unat r + length (vs_validators vs) < 2 ^ 64"
  shows "map (\<lambda>k. round_proposer vs h (r + word_of_nat k)) [0..<length (vs_validators vs)] =
    map Some (rotate (unat h + unat r) (vs_validators vs))"
proof (rule nth_equalityI)
  let ?n = "length (vs_validators vs)"
  show "length (map (\<lambda>k. round_proposer vs h (r + word_of_nat k)) [0..<?n]) =
      length (map Some (rotate (unat h + unat r) (vs_validators vs)))" by simp
  fix k
  assume "k < length (map (\<lambda>k. round_proposer vs h (r + word_of_nat k)) [0..<?n])"
  then have k: "k < ?n" by simp
  have lt: "unat h + unat r + k < 2 ^ 64" "?n < 2 ^ 64" using assms(2) k by linarith+
  have "h + (r + word_of_nat k) = word_of_nat (unat h + unat r + k)" by simp
  then have "unat (h + (r + word_of_nat k)) = unat h + unat r + k"
    using lt(1) by (simp only: unat_of_nat) simp
  moreover have "unat (word_of_nat ?n :: u64) = ?n" using lt(2) by (simp add: unat_of_nat)
  ultimately have "unat ((h + (r + word_of_nat k)) mod word_of_nat ?n) = (unat h + unat r + k) mod ?n"
    by (simp only: unat_mod_distrib)
  then show "map (\<lambda>k. round_proposer vs h (r + word_of_nat k)) [0..<?n] ! k =
      map Some (rotate (unat h + unat r) (vs_validators vs)) ! k"
    using k assms(1) by (simp add: round_proposer_def nth_rotate algebra_simps)
qed

theorem proposer_rotates_witness:
  "map (\<lambda>k. round_proposer sample_set 3 (4 + word_of_nat k)) [0..<1] = [Some sample_validator]"
  using proposer_rotates [of sample_set 3 4] by (simp add: sample_set_def)

end
