(* ===== verification/Blockchain.thy ===== *)
theory Blockchain
  imports Executor
begin

text \<open>
  The chain, \<^verbatim>\<open>src/internal/blockchain\<close>: genesis, insertion and preparation of blocks
  (blockchain.go, validator.go, and the genesis data of \<^verbatim>\<open>src/internal/types/genesis.go\<close>) and the
  fork tracker (fork_choice.go).

  Blocks are shared by pointer and InsertBlock writes to the header of the inserted block, so a block is
  a reference into \<open>bc_heap\<close>. An operation that returns an error keeps the state it has reached:
  its result is \<open>Inl\<close> the error or \<open>Inr\<close> the value, with the chain. SHA-256 is \<open>sha\<close>; \<open>ord\<close> gives the
  iteration order of the maps of the state database, \<open>ordh\<close> that of the map of forks. The mutexes of the
  chain and of the tracker are distinct and no method takes its own twice. A walk along parent hashes
  that never ends is \<open>None\<close>.
\<close>

section \<open>Genesis data\<close>

record genesis_account =
  ga_address :: address
  ga_apt :: token_amount
  ga_npt :: token_amount
  ga_staked :: token_amount

record genesis_validator =
  gv_address :: address
  gv_pub_key :: "byte list"
  gv_compute_power :: u64
  gv_np_stake :: token_amount

record consensus_params =
  cp_block_max_bytes :: "64 word"
  cp_block_max_gas :: "64 word"
  cp_validators :: "genesis_validator list"

record genesis =
  gen_chain_id :: u64
  gen_initial_height :: u64
  gen_timestamp :: u64
  gen_alloc :: "genesis_account list"
  gen_pool_apt :: token_amount
  gen_pool_npt :: token_amount
  gen_consensus :: consensus_params

definition default_genesis :: genesis where
  "default_genesis = \<lparr>gen_chain_id = 31337, gen_initial_height = 0, gen_timestamp = 1719000000, gen_alloc = [],
     gen_pool_apt = Some 100000000, gen_pool_npt = Some 100000000,
     gen_consensus = \<lparr>cp_block_max_bytes = 1048576, cp_block_max_gas = 30000000, cp_validators = []\<rparr>\<rparr>"

section \<open>Validation\<close>

definition err_invalid_height :: string where "err_invalid_height = ''invalid block height''"
definition err_invalid_parent :: string where "err_invalid_parent = ''invalid parent hash''"
definition err_invalid_timestamp :: string where "err_invalid_timestamp = ''invalid timestamp''"
definition err_gas_limit_change :: string where "err_gas_limit_change = ''gas limit change too large''"

definition abs_diff :: "u64 \<Rightarrow> u64 \<Rightarrow> u64" where
  "abs_diff a b = (if a > b then a - b else b - a)"

definition max_gas_change :: "u64 \<Rightarrow> u64" where
  "max_gas_change limit = (let maxChange = limit div 1024 in if maxChange < 1 then 1 else maxChange)"

definition validate_block :: "(byte list \<Rightarrow> hash) \<Rightarrow> block \<Rightarrow> block \<Rightarrow> (string, unit) outcome" where
  "validate_block sha b parent =
     (let h = blk_header b; p = blk_header parent in
      if bh_height h \<noteq> bh_height p + 1 then Err err_invalid_height
      else if bh_parent_hash h \<noteq> block_hash sha parent then Err err_invalid_parent
      else if bh_timestamp h \<le> bh_timestamp p then Err err_invalid_timestamp
      else if abs_diff (bh_gas_limit h) (bh_gas_limit p) > max_gas_change (bh_gas_limit p) then Err err_gas_limit_change
      else if bh_gas_used h > bh_gas_limit h then Err ''gas used exceeds gas limit''
      else Ok ())"

definition validate_tx_fields :: "transaction \<Rightarrow> u64 \<Rightarrow> (string, unit) outcome" where
  "validate_tx_fields tx chainID =
     (if tx_chain_id tx \<noteq> chainID then Err ''invalid chain ID''
      else if tx_gas_limit tx = 0 then Err ''gas limit is zero''
      else if tx_signature tx = None then Err ''transaction is not signed''
      else Ok ())"

section \<open>The chain\<close>

type_synonym ref = nat

record blockchain =
  bc_params :: economic_params
  bc_statedb :: statedb
  bc_processor :: state_processor
  bc_chain_id :: u64
  bc_heap :: "ref \<Rightarrow> block"
  bc_current :: "ref option"
  bc_blocks :: "hash \<Rightarrow> ref option"
  bc_heights :: "u64 \<Rightarrow> ref option"

type_synonym 'a bc_result = "(string, (string + 'a) \<times> blockchain) outcome"

definition new_blockchain ::
  "hash \<Rightarrow> store \<Rightarrow> economic_params \<Rightarrow> u64 \<Rightarrow> (ref \<Rightarrow> block) \<Rightarrow> blockchain" where
  "new_blockchain codeHash st params chainID heap = \<lparr>bc_params = params, bc_statedb = new_statedb codeHash st,
     bc_processor = \<lparr>sp_params = params, sp_chain_id = chainID\<rparr>, bc_chain_id = chainID, bc_heap = heap,
     bc_current = None, bc_blocks = Map.empty, bc_heights = Map.empty\<rparr>"

fun genesis_allocs :: "genesis_account list \<Rightarrow> statedb \<Rightarrow> unit call" where
  "genesis_allocs [] s = Ok (Inr (), s)"
| "genesis_allocs (a # as) s =
     call_bind (mint_apt (ga_address a) (ga_apt a) s) (\<lambda>_ s1.
     call_bind (mint_npt (ga_address a) (ga_npt a) s1) (\<lambda>_ s2. genesis_allocs as s2))"

definition genesis_pool :: "(byte list \<Rightarrow> hash) \<Rightarrow> genesis \<Rightarrow> statedb \<Rightarrow> (string, statedb) outcome" where
  "genesis_pool sha g s =
     (if amount_is_zero (gen_pool_apt g) \<and> amount_is_zero (gen_pool_npt g) then Ok s
      else obind (get_or_new_state_object amm_pool_address s) (\<lambda>(obj, s1).
        obind (to_big_int (gen_pool_apt g)) (\<lambda>x.
        obind (so_set_storage (get_node (sd_store s1)) (amm_pool_key sha ''apt'') (Some (big_bytes x)) obj) (\<lambda>obj1.
        obind (to_big_int (gen_pool_npt g)) (\<lambda>y.
        obind (so_set_storage (get_node (sd_store s1)) (amm_pool_key sha ''npt'') (Some (big_bytes y)) obj1) (\<lambda>obj2.
          Ok (put_object amm_pool_address obj2 s1)))))))"

definition genesis_block :: "genesis \<Rightarrow> hash \<Rightarrow> block" where
  "genesis_block g stateRoot = \<lparr>blk_header = \<lparr>bh_parent_hash = empty_hash, bh_height = gen_initial_height g,
     bh_timestamp = gen_timestamp g, bh_state_root = stateRoot, bh_tx_root = empty_hash,
     bh_receipt_root = empty_hash, bh_proposer = zero_address, bh_gas_limit = cp_block_max_gas (gen_consensus g),
     bh_gas_used = 0, bh_extra = [], bh_round = 0, bh_prevote_hash = empty_hash, bh_precommit_hash = empty_hash\<rparr>,
     blk_txs = []\<rparr>"

text \<open>The new block is at the reference \<open>r\<close>, which the caller picks fresh.\<close>

definition init_genesis ::
  "(byte list \<Rightarrow> hash) \<Rightarrow> (statedb \<Rightarrow> address list) \<Rightarrow> ref \<Rightarrow> genesis \<Rightarrow> blockchain \<Rightarrow> unit bc_result" where
  "init_genesis sha ord r g bc =
     obind (genesis_allocs (gen_alloc g) (bc_statedb bc)) (\<lambda>(res, s1). case res of
       Inl e \<Rightarrow> Ok (Inl e, bc\<lparr>bc_statedb := s1\<rparr>)
     | Inr _ \<Rightarrow>
         obind (genesis_pool sha g s1) (\<lambda>s2.
         obind (commit sha (ord s2) s2) (\<lambda>(stateRoot, s3).
           let b = genesis_block g stateRoot
           in Ok (Inr (), bc\<lparr>bc_statedb := s3, bc_heap := (bc_heap bc)(r := b), bc_current := Some r,
                 bc_blocks := (bc_blocks bc)(block_hash sha b \<mapsto> r),
                 bc_heights := (bc_heights bc)(gen_initial_height g \<mapsto> r)\<rparr>))))"

definition seal_header :: "hash \<Rightarrow> u64 \<Rightarrow> block \<Rightarrow> block" where
  "seal_header stateRoot gasUsed b = b\<lparr>blk_header := (blk_header b)\<lparr>bh_state_root := stateRoot, bh_gas_used := gasUsed\<rparr>\<rparr>"

definition insert_block ::
  "(byte list \<Rightarrow> hash) \<Rightarrow> (statedb \<Rightarrow> address list) \<Rightarrow> ref \<Rightarrow> blockchain \<Rightarrow> unit bc_result" where
  "insert_block sha ord r bc = (case bc_current bc of
     None \<Rightarrow> Ok (Inl ''no parent block'', bc)
   | Some parent \<Rightarrow>
       (case validate_block sha (bc_heap bc r) (bc_heap bc parent) of
          Panic \<Rightarrow> Panic
        | Err e \<Rightarrow> Ok (Inl e, bc)
        | Ok _ \<Rightarrow>
            obind (process sha ord (bc_processor bc) (bc_heap bc r) (bc_statedb bc)) (\<lambda>(res, s1). case res of
              Inl e \<Rightarrow> Ok (Inl e, bc\<lparr>bc_statedb := s1\<rparr>)
            | Inr (gasUsed, receipts) \<Rightarrow>
                obind (commit sha (ord s1) s1) (\<lambda>(stateRoot, s2).
                  let b = seal_header stateRoot gasUsed (bc_heap bc r)
                  in Ok (Inr (), bc\<lparr>bc_statedb := s2, bc_heap := (bc_heap bc)(r := b),
                       bc_current := Some r, bc_blocks := (bc_blocks bc)(block_hash sha b \<mapsto> r),
                       bc_heights := (bc_heights bc)(bh_height (blk_header b) \<mapsto> r)\<rparr>)))))"

definition current_block :: "blockchain \<Rightarrow> ref option" where
  "current_block bc = bc_current bc"

definition get_block :: "hash \<Rightarrow> blockchain \<Rightarrow> ref option" where
  "get_block h bc = bc_blocks bc h"

definition get_block_by_height :: "u64 \<Rightarrow> blockchain \<Rightarrow> ref option" where
  "get_block_by_height h bc = bc_heights bc h"

definition compute_tx_root :: "(byte list \<Rightarrow> hash) \<Rightarrow> transaction list \<Rightarrow> (string, hash) outcome" where
  "compute_tx_root sha txs = (if txs = [] then Ok empty_hash else derive_tx_root sha txs)"

definition prepare_block ::
  "(byte list \<Rightarrow> hash) \<Rightarrow> (statedb \<Rightarrow> address list) \<Rightarrow> address \<Rightarrow> transaction list \<Rightarrow> u64 \<Rightarrow> u64 \<Rightarrow> blockchain \<Rightarrow>
    (string, block \<times> blockchain) outcome" where
  "prepare_block sha ord proposer txs timestamp round bc = (case bc_current bc of
     None \<Rightarrow> Panic
   | Some pr \<Rightarrow>
       let parent = bc_heap bc pr; height = bh_height (blk_header parent) + 1 in
       obind (compute_tx_root sha txs) (\<lambda>txRoot.
       obind (intermediate_root (ord (bc_statedb bc)) (bc_statedb bc)) (\<lambda>(stateRoot, s1).
         Ok (\<lparr>blk_header = \<lparr>bh_parent_hash = block_hash sha parent, bh_height = height, bh_timestamp = timestamp,
               bh_state_root = stateRoot, bh_tx_root = txRoot, bh_receipt_root = empty_hash,
               bh_proposer = proposer, bh_gas_limit = gas_limit (gas_params (bc_params bc)), bh_gas_used = 0,
               bh_extra = [], bh_round = round, bh_prevote_hash = empty_hash, bh_precommit_hash = empty_hash\<rparr>,
             blk_txs = txs\<rparr>, bc\<lparr>bc_statedb := s1\<rparr>))))"

section \<open>Forks\<close>

record fork_branch =
  fb_tip_hash :: hash
  fb_tip_height :: u64
  fb_weight :: u64
  fb_blocks :: "ref list"

record fork_tracker =
  ft_canonical :: blockchain
  ft_alternatives :: "hash \<Rightarrow> fork_branch option"
  ft_all :: "hash \<Rightarrow> ref option"

definition new_fork_tracker :: "blockchain \<Rightarrow> fork_tracker" where
  "new_fork_tracker bc = \<lparr>ft_canonical = bc, ft_alternatives = Map.empty, ft_all = Map.empty\<rparr>"

definition ft_block :: "fork_tracker \<Rightarrow> ref \<Rightarrow> block" where
  "ft_block ft r = bc_heap (ft_canonical ft) r"

definition ft_parent :: "fork_tracker \<Rightarrow> ref \<Rightarrow> ref option" where
  "ft_parent ft r = ft_all ft (bh_parent_hash (blk_header (ft_block ft r)))"

definition block_weight :: "block \<Rightarrow> u64" where
  "block_weight b = 1"

text \<open>The loop over all heights up to the current one; at the largest height it never ends.\<close>

definition chain_weight :: "blockchain \<Rightarrow> ref \<Rightarrow> u64 option" where
  "chain_weight bc cur =
     (let top = bh_height (blk_header (bc_heap bc cur)) in
      if top = - 1 then None
      else Some (sum_list (map (\<lambda>h. case get_block_by_height (word_of_nat h) bc of
             None \<Rightarrow> 0 | Some r \<Rightarrow> block_weight (bc_heap bc r)) [0..<Suc (unat top)])))"

definition find_fork_branch ::
  "(byte list \<Rightarrow> hash) \<Rightarrow> (hash set \<Rightarrow> hash list) \<Rightarrow> hash \<Rightarrow> fork_tracker \<Rightarrow> (hash \<times> fork_branch) option" where
  "find_fork_branch sha ordh h ft = map_option (\<lambda>k. (k, the (ft_alternatives ft k)))
     (find (\<lambda>k. case ft_alternatives ft k of None \<Rightarrow> False
        | Some br \<Rightarrow> list_ex (\<lambda>r. block_hash sha (ft_block ft r) = h) (fb_blocks br)) (ordh (dom (ft_alternatives ft))))"

partial_function (option) in_ancestry :: "(byte list \<Rightarrow> hash) \<Rightarrow> fork_tracker \<Rightarrow> hash \<Rightarrow> ref option \<Rightarrow> bool option" where
  "in_ancestry sha ft target p =
     (if p = None then Some False
      else if block_hash sha (ft_block ft (the p)) = target then Some True
      else in_ancestry sha ft target (ft_parent ft (the p)))"

definition ft_height :: "fork_tracker \<Rightarrow> ref \<Rightarrow> u64" where
  "ft_height ft r = bh_height (blk_header (ft_block ft r))"

text \<open>The walk from the canonical tip: the heights must fall, so it ends. \<open>Some None\<close> is the fallback.\<close>

function ancestor_from :: "(byte list \<Rightarrow> hash) \<Rightarrow> fork_tracker \<Rightarrow> ref \<Rightarrow> ref \<Rightarrow> ref option option" where
  "ancestor_from sha ft b cur =
     (let next = (case ft_parent ft cur of None \<Rightarrow> Some None
        | Some p \<Rightarrow> if ft_height ft p \<ge> ft_height ft cur then Some None else ancestor_from sha ft b p)
      in if block_hash sha (ft_block ft cur) = bh_parent_hash (blk_header (ft_block ft b)) \<or> ft_height ft cur \<le> ft_height ft b
         then (case in_ancestry sha ft (block_hash sha (ft_block ft cur)) (ft_parent ft b) of
             None \<Rightarrow> None | Some True \<Rightarrow> Some (Some cur) | Some False \<Rightarrow> next)
         else next)"
  by pat_completeness auto
termination
  by (relation "measure (\<lambda>(sha, ft, b, cur). unat (ft_height ft cur))") (auto simp: word_less_nat_alt word_le_nat_alt)

declare ancestor_from.simps [simp del]

definition find_common_ancestor :: "(byte list \<Rightarrow> hash) \<Rightarrow> fork_tracker \<Rightarrow> ref \<Rightarrow> ref option option" where
  "find_common_ancestor sha ft b = (case current_block (ft_canonical ft) of
     None \<Rightarrow> Some (get_block_by_height 0 (ft_canonical ft))
   | Some cur \<Rightarrow> (case ancestor_from sha ft b cur of
        None \<Rightarrow> None
      | Some None \<Rightarrow> Some (get_block_by_height 0 (ft_canonical ft))
      | Some (Some a) \<Rightarrow> Some (Some a)))"

text \<open>A walk that meets a nil ancestor panics: \<open>Some None\<close>.\<close>

partial_function (option) blocks_above ::
  "(byte list \<Rightarrow> hash) \<Rightarrow> fork_tracker \<Rightarrow> ref option \<Rightarrow> ref option \<Rightarrow> ref list \<Rightarrow> ref list option option" where
  "blocks_above sha ft cur ancestor acc =
     (if cur = None then Some (Some acc)
      else if ancestor = None then Some None
      else if block_hash sha (ft_block ft (the cur)) = block_hash sha (ft_block ft (the ancestor)) then Some (Some acc)
      else blocks_above sha ft (ft_parent ft (the cur)) ancestor (acc @ [the cur]))"

fun apply_branch ::
  "(byte list \<Rightarrow> hash) \<Rightarrow> (statedb \<Rightarrow> address list) \<Rightarrow> ref \<Rightarrow> ref list \<Rightarrow> blockchain \<Rightarrow> unit bc_result" where
  "apply_branch sha ord a [] bc = Ok (Inr (), bc)"
| "apply_branch sha ord a (r # rs) bc =
     (if bh_height (blk_header (bc_heap bc r)) > bh_height (blk_header (bc_heap bc a))
      then obind (insert_block sha ord r bc) (\<lambda>(res, bc1). case res of
             Inl e \<Rightarrow> Ok (Inl e, bc1) | Inr _ \<Rightarrow> apply_branch sha ord a rs bc1)
      else apply_branch sha ord a rs bc)"

type_synonym ft_result = "(string, (string + bool) \<times> fork_tracker) outcome option"

definition reorganize ::
  "(byte list \<Rightarrow> hash) \<Rightarrow> (statedb \<Rightarrow> address list) \<Rightarrow> fork_branch \<Rightarrow> fork_tracker \<Rightarrow> ft_result" where
  "reorganize sha ord br ft = (case current_block (ft_canonical ft) of
     None \<Rightarrow> Some Panic
   | Some tip \<Rightarrow> (case fb_blocks br of
        [] \<Rightarrow> Some Panic
      | b0 # _ \<Rightarrow> (case find_common_ancestor sha ft b0 of
          None \<Rightarrow> None
        | Some ancestor \<Rightarrow> (case blocks_above sha ft (Some tip) ancestor [] of
            None \<Rightarrow> None
          | Some None \<Rightarrow> Some Panic
          | Some (Some rollback) \<Rightarrow> (case ancestor of
              None \<Rightarrow> Some Panic
            | Some a \<Rightarrow> Some (obind (apply_branch sha ord a (fb_blocks br) (ft_canonical ft)) (\<lambda>(res, bc1). case res of
                Inl e \<Rightarrow> Ok (Inl e, ft\<lparr>ft_canonical := bc1\<rparr>)
              | Inr _ \<Rightarrow> Ok (Inr True, ft\<lparr>ft_canonical := bc1, ft_alternatives := Map.empty\<rparr>))))))))"

text \<open>The weight of the ancestors of a new fork block.\<close>

partial_function (option) fork_weight ::
  "(byte list \<Rightarrow> hash) \<Rightarrow> fork_tracker \<Rightarrow> ref option \<Rightarrow> ref option \<Rightarrow> u64 \<Rightarrow> u64 option option" where
  "fork_weight sha ft parent ancestor w =
     (if parent = None then Some (Some w)
      else if ancestor = None then Some None
      else if block_hash sha (ft_block ft (the parent)) = block_hash sha (ft_block ft (the ancestor)) then Some (Some w)
      else fork_weight sha ft (ft_parent ft (the parent)) ancestor (w + block_weight (ft_block ft (the parent))))"

definition extend_branch ::
  "(byte list \<Rightarrow> hash) \<Rightarrow> (statedb \<Rightarrow> address list) \<Rightarrow> hash \<Rightarrow> fork_branch \<Rightarrow> hash \<Rightarrow> ref \<Rightarrow> fork_tracker \<Rightarrow> ft_result" where
  "extend_branch sha ord k br h r ft =
     (let br1 = br\<lparr>fb_blocks := fb_blocks br @ [r], fb_tip_hash := h, fb_tip_height := ft_height ft r,
                   fb_weight := fb_weight br + block_weight (ft_block ft r)\<rparr>;
          ft1 = ft\<lparr>ft_alternatives := (ft_alternatives ft)(k \<mapsto> br1)\<rparr>
      in case current_block (ft_canonical ft1) of
           None \<Rightarrow> Some Panic
         | Some cur \<Rightarrow> (case chain_weight (ft_canonical ft1) cur of
             None \<Rightarrow> None
           | Some canonicalWeight \<Rightarrow>
               if fb_weight br1 > canonicalWeight then reorganize sha ord br1 ft1 else Some (Ok (Inr False, ft1))))"

definition new_fork :: "(byte list \<Rightarrow> hash) \<Rightarrow> hash \<Rightarrow> ref \<Rightarrow> fork_tracker \<Rightarrow> ft_result" where
  "new_fork sha h r ft = (case find_common_ancestor sha ft r of
     None \<Rightarrow> None
   | Some ancestor \<Rightarrow> (case fork_weight sha ft (ft_parent ft r) ancestor (block_weight (ft_block ft r)) of
       None \<Rightarrow> None
     | Some None \<Rightarrow> Some Panic
     | Some (Some w) \<Rightarrow> Some (Ok (Inr False, ft\<lparr>ft_alternatives := (ft_alternatives ft)(h \<mapsto>
         \<lparr>fb_tip_hash = h, fb_tip_height = ft_height ft r, fb_weight = w, fb_blocks = [r]\<rparr>)\<rparr>))))"

definition process_block ::
  "(byte list \<Rightarrow> hash) \<Rightarrow> (statedb \<Rightarrow> address list) \<Rightarrow> (hash set \<Rightarrow> hash list) \<Rightarrow> ref \<Rightarrow> fork_tracker \<Rightarrow> ft_result" where
  "process_block sha ord ordh r ft0 =
     (let h = block_hash sha (ft_block ft0 r); ft = ft0\<lparr>ft_all := (ft_all ft0)(h \<mapsto> r)\<rparr>;
          parentHash = bh_parent_hash (blk_header (ft_block ft r))
      in case current_block (ft_canonical ft) of
           None \<Rightarrow> Some Panic
         | Some tip \<Rightarrow>
             if parentHash = block_hash sha (ft_block ft tip)
             then Some (obind (insert_block sha ord r (ft_canonical ft)) (\<lambda>(res, bc1). case res of
                 Inl e \<Rightarrow> Ok (Inl e, ft\<lparr>ft_canonical := bc1\<rparr>)
               | Inr _ \<Rightarrow> Ok (Inr False, ft\<lparr>ft_canonical := bc1\<rparr>)))
             else (case find_fork_branch sha ordh parentHash ft of
                 Some (k, br) \<Rightarrow> extend_branch sha ord k br h r ft
               | None \<Rightarrow> new_fork sha h r ft))"

definition active_forks :: "fork_tracker \<Rightarrow> int" where
  "active_forks ft = int (card (dom (ft_alternatives ft)))"

end
