(* ===== verification/BlockchainProps.thy ===== *)
theory BlockchainProps
  imports Blockchain ExecutorProps
begin

text \<open>
  What the chain guarantees: the blocks it holds are linked by parent hashes, an inserted block extends
  the head by the stated rules and by those alone (its declared roots are never compared), prepared
  blocks validate, and the fork tracker never replaces a canonical block.
\<close>

section \<open>Insertion\<close>

lemma obind_sum_Ok:
  "obind r (\<lambda>(x, s). case x of Inl e \<Rightarrow> f e s | Inr u \<Rightarrow> g u s) = Ok z \<longleftrightarrow>
    (\<exists>e s. r = Ok (Inl e, s) \<and> f e s = Ok z) \<or> (\<exists>u s. r = Ok (Inr u, s) \<and> g u s = Ok z)"
proof (cases r)
  case (Ok p)
  obtain x s where "p = (x, s)" by (cases p)
  with Ok show ?thesis by (cases x) auto
qed simp_all

lemma validate_block_Ok:
  "validate_block sha b parent = Ok u \<longleftrightarrow>
     bh_height (blk_header b) = bh_height (blk_header parent) + 1 \<and>
     bh_parent_hash (blk_header b) = block_hash sha parent \<and>
     bh_timestamp (blk_header parent) < bh_timestamp (blk_header b) \<and>
     abs_diff (bh_gas_limit (blk_header b)) (bh_gas_limit (blk_header parent)) \<le> max_gas_change (bh_gas_limit (blk_header parent)) \<and>
     bh_gas_used (blk_header b) \<le> bh_gas_limit (blk_header b)"
  by (auto simp: validate_block_def Let_def not_less not_le)

lemma validate_block_no_panic: "validate_block sha b parent \<noteq> Panic"
  by (simp add: validate_block_def Let_def)

lemma insert_block_cases:
  assumes "insert_block sha ord r bc = Ok (res, bc')"
  obtains (no_head) "bc_current bc = None" "res = Inl ''no parent block''" "bc' = bc"
  | (invalid) p e where "bc_current bc = Some p" "validate_block sha (bc_heap bc r) (bc_heap bc p) = Err e" "res = Inl e" "bc' = bc"
  | (failed) p e s1 where "bc_current bc = Some p" "validate_block sha (bc_heap bc r) (bc_heap bc p) = Ok ()"
      "process sha ord (bc_processor bc) (bc_heap bc r) (bc_statedb bc) = Ok (Inl e, s1)"
      "res = Inl e" "bc' = bc\<lparr>bc_statedb := s1\<rparr>"
  | (inserted) p gas rcs s1 rt s2 where "bc_current bc = Some p"
      "validate_block sha (bc_heap bc r) (bc_heap bc p) = Ok ()"
      "process sha ord (bc_processor bc) (bc_heap bc r) (bc_statedb bc) = Ok (Inr (gas, rcs), s1)"
      "commit sha (ord s1) s1 = Ok (rt, s2)" "res = Inr ()"
      "bc' = bc\<lparr>bc_statedb := s2, bc_heap := (bc_heap bc)(r := seal_header rt gas (bc_heap bc r)), bc_current := Some r,
         bc_blocks := (bc_blocks bc)(block_hash sha (seal_header rt gas (bc_heap bc r)) \<mapsto> r),
         bc_heights := (bc_heights bc)(bh_height (blk_header (seal_header rt gas (bc_heap bc r))) \<mapsto> r)\<rparr>"
proof (cases "bc_current bc")
  case None
  with assms have "res = Inl ''no parent block''" "bc' = bc" by (simp_all add: insert_block_def)
  from no_head [OF None this] show thesis .
next
  case (Some p)
  show thesis
  proof (cases "validate_block sha (bc_heap bc r) (bc_heap bc p)")
    case (Ok u)
    then have ok: "validate_block sha (bc_heap bc r) (bc_heap bc p) = Ok ()" by simp
    from assms Some ok obtain x s1 where pr: "process sha ord (bc_processor bc) (bc_heap bc r) (bc_statedb bc) = Ok (x, s1)"
      by (auto simp: insert_block_def obind_Ok_iff)
    show thesis
    proof (cases x)
      case (Inl e)
      with assms Some ok pr have "res = Inl e" "bc' = bc\<lparr>bc_statedb := s1\<rparr>" by (simp_all add: insert_block_def)
      from failed [OF Some ok pr [unfolded Inl] this] show thesis .
    next
      case (Inr gr)
      obtain gas rcs where "gr = (gas, rcs)" by (cases gr)
      with assms Some ok pr Inr have "obind (commit sha (ord s1) s1) (\<lambda>(stateRoot, s2).
          let b = seal_header stateRoot gas (bc_heap bc r)
          in Ok (Inr (), bc\<lparr>bc_statedb := s2, bc_heap := (bc_heap bc)(r := b), bc_current := Some r,
               bc_blocks := (bc_blocks bc)(block_hash sha b \<mapsto> r),
               bc_heights := (bc_heights bc)(bh_height (blk_header b) \<mapsto> r)\<rparr>)) = Ok (res, bc')"
        by (simp add: insert_block_def)
      then obtain rt s2 where cm: "commit sha (ord s1) s1 = Ok (rt, s2)"
        and eq: "res = Inr ()" "bc' = bc\<lparr>bc_statedb := s2, bc_heap := (bc_heap bc)(r := seal_header rt gas (bc_heap bc r)),
          bc_current := Some r, bc_blocks := (bc_blocks bc)(block_hash sha (seal_header rt gas (bc_heap bc r)) \<mapsto> r),
          bc_heights := (bc_heights bc)(bh_height (blk_header (seal_header rt gas (bc_heap bc r))) \<mapsto> r)\<rparr>"
        unfolding obind_Ok_iff Let_def by (auto simp only: split_paired_Ex prod.case outcome.inject prod.inject)
      have "process sha ord (bc_processor bc) (bc_heap bc r) (bc_statedb bc) = Ok (Inr (gas, rcs), s1)"
        using pr Inr \<open>gr = (gas, rcs)\<close> by simp
      from inserted [OF Some ok this cm eq] show thesis .
    qed
  next
    case (Err e)
    with assms Some have "res = Inl e" "bc' = bc" by (simp_all add: insert_block_def)
    from invalid [OF Some Err this] show thesis .
  qed (simp add: validate_block_no_panic)
qed

lemma seal_header_simps [simp]:
  "blk_header (seal_header rt gas b) = (blk_header b)\<lparr>bh_state_root := rt, bh_gas_used := gas\<rparr>"
  "blk_txs (seal_header rt gas b) = blk_txs b"
  by (simp_all add: seal_header_def)

section \<open>The linked chain\<close>

definition bc_height :: "blockchain \<Rightarrow> ref \<Rightarrow> u64" where
  "bc_height bc r = bh_height (blk_header (bc_heap bc r))"

text \<open>Every block but the first one links to the block one height below; nothing lies above the head.\<close>

definition linked :: "(byte list \<Rightarrow> hash) \<Rightarrow> u64 \<Rightarrow> blockchain \<Rightarrow> bool" where
  "linked sha h0 bc \<longleftrightarrow> (\<exists>c. bc_current bc = Some c \<and> bc_heights bc (bc_height bc c) = Some c \<and>
     (\<forall>h r. bc_heights bc h = Some r \<longrightarrow> bc_height bc r = h \<and> h0 \<le> h \<and> h \<le> bc_height bc c) \<and>
     (\<forall>h r. bc_heights bc h = Some r \<longrightarrow> h \<noteq> h0 \<longrightarrow> (\<exists>p. bc_heights bc (h - 1) = Some p \<and>
        bh_parent_hash (blk_header (bc_heap bc r)) = block_hash sha (bc_heap bc p) \<and>
        bh_timestamp (blk_header (bc_heap bc p)) < bh_timestamp (blk_header (bc_heap bc r)))))"

lemma linked_statedb: "linked sha h0 (bc\<lparr>bc_statedb := s\<rparr>) = linked sha h0 bc"
  by (simp add: linked_def bc_height_def)

lemma word_plus_one:
  assumes "(c :: u64) + 1 \<noteq> 0" "h \<le> c"
  shows "h < c + 1"
proof -
  have "unat (1 + c) = Suc (unat c)" using assms(1) by (intro unatSuc) (simp add: add.commute)
  with assms(2) show ?thesis by (simp add: word_le_nat_alt word_less_nat_alt add.commute)
qed

lemma insert_fresh:
  assumes "linked sha h0 bc" "bc_current bc = Some p" "validate_block sha (bc_heap bc r) (bc_heap bc p) = Ok u" "bc_height bc r \<noteq> 0"
  shows "bc_heights bc (bc_height bc r) = None" and "bc_heights bc h = Some x \<Longrightarrow> x \<noteq> r"
    and "h \<le> bc_height bc p \<Longrightarrow> h < bc_height bc r"
proof -
  from assms(1,2) have range: "\<And>h x. bc_heights bc h = Some x \<Longrightarrow> bc_height bc x = h \<and> h \<le> bc_height bc p"
    unfolding linked_def by auto
  have "bc_height bc r = bc_height bc p + 1" using assms(3) by (simp add: validate_block_Ok bc_height_def)
  then have above: "h < bc_height bc r" if "h \<le> bc_height bc p" for h
    using word_plus_one [of "bc_height bc p" h] assms(4) that by simp
  then show "h \<le> bc_height bc p \<Longrightarrow> h < bc_height bc r" .
  show "bc_heights bc h = Some x \<Longrightarrow> x \<noteq> r" using range [of h x] above [of h] by auto
  show "bc_heights bc (bc_height bc r) = None"
    using range [of "bc_height bc r"] above [of "bc_height bc r"] by (cases "bc_heights bc (bc_height bc r)") auto
qed

lemma linked_insert:
  assumes lk: "linked sha h0 bc" and ins: "insert_block sha ord r bc = Ok (res, bc')" and nz: "bc_height bc r \<noteq> 0"
  shows "linked sha h0 bc'"
  using ins
proof (cases rule: insert_block_cases)
  case (failed p e s1)
  from lk show ?thesis unfolding failed(5) linked_statedb .
next
  case (inserted p gas rcs s1 rt s2)
  from lk obtain c where c: "bc_current bc = Some c" "bc_heights bc (bc_height bc c) = Some c"
    and range: "\<And>h r. bc_heights bc h = Some r \<Longrightarrow> bc_height bc r = h \<and> h0 \<le> h \<and> h \<le> bc_height bc c"
    and link: "\<And>h r. bc_heights bc h = Some r \<Longrightarrow> h \<noteq> h0 \<Longrightarrow> \<exists>p. bc_heights bc (h - 1) = Some p \<and>
        bh_parent_hash (blk_header (bc_heap bc r)) = block_hash sha (bc_heap bc p) \<and>
        bh_timestamp (blk_header (bc_heap bc p)) < bh_timestamp (blk_header (bc_heap bc r))"
    unfolding linked_def by blast
  have pc: "p = c" using inserted(1) c(1) by simp
  let ?b = "seal_header rt gas (bc_heap bc r)"
  from inserted(2) have v: "bc_height bc r = bc_height bc c + 1" "bh_parent_hash (blk_header (bc_heap bc r)) = block_hash sha (bc_heap bc c)"
    "bh_timestamp (blk_header (bc_heap bc c)) < bh_timestamp (blk_header (bc_heap bc r))"
    unfolding validate_block_Ok by (simp_all add: pc bc_height_def)
  note fresh = insert_fresh [OF lk inserted(1,2) nz]
  have above: "h < bc_height bc r" if "h \<le> bc_height bc c" for h using fresh(3) that pc by simp
  have new: "x \<noteq> r" if "bc_heights bc h = Some x" for h x using fresh(2) that .
  have hr: "bc_height bc' r = bc_height bc r" and cur: "bc_current bc' = Some r"
    and hts: "bc_heights bc' = (bc_heights bc)(bc_height bc r \<mapsto> r)"
    and heap: "bc_heap bc' = (bc_heap bc)(r := ?b)"
    unfolding inserted(6) by (simp_all add: bc_height_def)
  have old: "bc_height bc' x = bc_height bc x \<and> bc_heap bc' x = bc_heap bc x" if "x \<noteq> r" for x
    using that by (simp add: heap bc_height_def)
  have h0: "h0 \<le> bc_height bc r" using range [OF c(2)] above [of "bc_height bc c"] by auto
  have pred: "bc_height bc r - 1 = bc_height bc c" using v(1) by simp
  show ?thesis
    unfolding linked_def
  proof (rule exI [of _ r], intro conjI allI impI)
    show "bc_current bc' = Some r" by (rule cur)
    show "bc_heights bc' (bc_height bc' r) = Some r" by (simp add: hts hr)
  next
    fix h x
    assume hx: "bc_heights bc' h = Some x"
    show "bc_height bc' x = h" "h0 \<le> h" "h \<le> bc_height bc' r"
      using hx range [of h x] new [of h x] above [of h] old [of x] h0 hr by (auto simp: hts split: if_splits)
  next
    fix h x
    assume hx: "bc_heights bc' h = Some x" and ne: "h \<noteq> h0"
    show "\<exists>p. bc_heights bc' (h - 1) = Some p \<and>
        bh_parent_hash (blk_header (bc_heap bc' x)) = block_hash sha (bc_heap bc' p) \<and>
        bh_timestamp (blk_header (bc_heap bc' p)) < bh_timestamp (blk_header (bc_heap bc' x))"
    proof (cases "h = bc_height bc r")
      case True
      have "c \<noteq> r" using new [OF c(2)] .
      with True hx v c(2) old [of c] pred show ?thesis
        by (intro exI [of _ c]) (auto simp: hts heap)
    next
      case False
      with hx have "bc_heights bc h = Some x" by (simp add: hts)
      from link [OF this ne] new [OF this] obtain q where q: "bc_heights bc (h - 1) = Some q"
        "bh_parent_hash (blk_header (bc_heap bc x)) = block_hash sha (bc_heap bc q)"
        "bh_timestamp (blk_header (bc_heap bc q)) < bh_timestamp (blk_header (bc_heap bc x))" and "x \<noteq> r" by blast
      have "h - 1 \<noteq> bc_height bc r" using range [OF q(1)] above [of "h - 1"] by auto
      with q new [OF q(1)] \<open>x \<noteq> r\<close> old show ?thesis by (intro exI [of _ q]) (simp add: hts)
    qed
  qed
qed (use lk in simp_all)

section \<open>Reachable chains\<close>

inductive chain_reachable :: "(byte list \<Rightarrow> hash) \<Rightarrow> genesis \<Rightarrow> blockchain \<Rightarrow> bool" for sha g where
  chain_genesis: "init_genesis sha ord r g (new_blockchain codeHash st params chainID heap) = Ok (Inr (), bc) \<Longrightarrow>
    chain_reachable sha g bc"
| chain_new_block: "chain_reachable sha g bc \<Longrightarrow> r \<notin> ran (bc_heights bc) \<Longrightarrow>
    chain_reachable sha g (bc\<lparr>bc_heap := (bc_heap bc)(r := b)\<rparr>)"
| chain_insert: "chain_reachable sha g bc \<Longrightarrow> bc_height bc r \<noteq> 0 \<Longrightarrow> insert_block sha ord r bc = Ok (res, bc') \<Longrightarrow>
    chain_reachable sha g bc'"
| chain_prepare: "chain_reachable sha g bc \<Longrightarrow> prepare_block sha ord proposer txs timestamp rd bc = Ok (b, bc') \<Longrightarrow>
    chain_reachable sha g bc'"

lemma linked_genesis:
  assumes "init_genesis sha ord r g (new_blockchain codeHash st params chainID heap) = Ok (Inr (), bc)"
  shows "linked sha (gen_initial_height g) bc"
proof -
  from assms obtain x s1 where a: "genesis_allocs (gen_alloc g) (new_statedb codeHash st) = Ok (x, s1)"
    by (auto simp: init_genesis_def obind_Ok_iff new_blockchain_def)
  show ?thesis
  proof (cases x)
    case (Inl e)
    with assms a show ?thesis by (simp add: init_genesis_def new_blockchain_def)
  next
    case (Inr u)
    with assms a obtain rt where "bc_current bc = Some r" "bc_heights bc = [gen_initial_height g \<mapsto> r]"
      "bc_heap bc r = genesis_block g rt"
      by (auto simp: init_genesis_def obind_Ok_iff new_blockchain_def Let_def)
    then show ?thesis by (simp add: linked_def bc_height_def genesis_block_def)
  qed
qed

lemma linked_heap:
  assumes "linked sha h0 bc" "r \<notin> ran (bc_heights bc)"
  shows "linked sha h0 (bc\<lparr>bc_heap := (bc_heap bc)(r := b)\<rparr>)"
proof -
  let ?bc = "bc\<lparr>bc_heap := (bc_heap bc)(r := b)\<rparr>"
  have same: "bc_heap ?bc x = bc_heap bc x" if "bc_heights bc h = Some x" for h x
    using that assms(2) by (auto simp: ran_def)
  then have height: "bc_height ?bc x = bc_height bc x" if "bc_heights bc h = Some x" for h x
    using that by (simp add: bc_height_def)
  from assms(1) obtain c where c: "bc_current bc = Some c" "bc_heights bc (bc_height bc c) = Some c"
    and range: "\<And>h r. bc_heights bc h = Some r \<Longrightarrow> bc_height bc r = h \<and> h0 \<le> h \<and> h \<le> bc_height bc c"
    and link: "\<And>h r. bc_heights bc h = Some r \<Longrightarrow> h \<noteq> h0 \<Longrightarrow> \<exists>p. bc_heights bc (h - 1) = Some p \<and>
        bh_parent_hash (blk_header (bc_heap bc r)) = block_hash sha (bc_heap bc p) \<and>
        bh_timestamp (blk_header (bc_heap bc p)) < bh_timestamp (blk_header (bc_heap bc r))"
    unfolding linked_def by blast
  show ?thesis
    unfolding linked_def
  proof (rule exI [of _ c], intro conjI allI impI)
    show "bc_current ?bc = Some c" "bc_heights ?bc (bc_height ?bc c) = Some c"
      using c height [OF c(2)] by simp_all
  next
    fix h x
    assume "bc_heights ?bc h = Some x"
    then have hx: "bc_heights bc h = Some x" by simp
    show "bc_height ?bc x = h" "h0 \<le> h" "h \<le> bc_height ?bc c"
      using range [OF hx] height [OF hx] height [OF c(2)] by simp_all
    assume "h \<noteq> h0"
    from link [OF hx this] obtain p where p: "bc_heights bc (h - 1) = Some p"
      "bh_parent_hash (blk_header (bc_heap bc x)) = block_hash sha (bc_heap bc p)"
      "bh_timestamp (blk_header (bc_heap bc p)) < bh_timestamp (blk_header (bc_heap bc x))" by blast
    show "\<exists>p. bc_heights ?bc (h - 1) = Some p \<and>
        bh_parent_hash (blk_header (bc_heap ?bc x)) = block_hash sha (bc_heap ?bc p) \<and>
        bh_timestamp (blk_header (bc_heap ?bc p)) < bh_timestamp (blk_header (bc_heap ?bc x))"
      unfolding same [OF hx] using p same [OF p(1)] by (intro exI [of _ p]) simp
  qed
qed

lemma prepare_block_state:
  "prepare_block sha ord proposer txs timestamp rd bc = Ok (b, bc') \<Longrightarrow> \<exists>s. bc' = bc\<lparr>bc_statedb := s\<rparr>"
  by (auto simp: prepare_block_def obind_Ok_iff Let_def split: option.splits)

lemma reachable_linked: "chain_reachable sha g bc \<Longrightarrow> linked sha (gen_initial_height g) bc"
proof (induction rule: chain_reachable.induct)
  case (chain_prepare bc ord proposer txs timestamp rd b bc')
  then show ?case using prepare_block_state linked_statedb by metis
qed (auto intro: linked_genesis linked_heap linked_insert)

section \<open>Forks\<close>

definition keeps :: "blockchain \<Rightarrow> blockchain \<Rightarrow> bool" where
  "keeps bc bc' \<longleftrightarrow> bc_heights bc \<subseteq>\<^sub>m bc_heights bc' \<and>
     (\<forall>h x. bc_heights bc h = Some x \<longrightarrow> bc_heap bc' x = bc_heap bc x)"

lemma ft_block_all [simp]: "ft_block (ft\<lparr>ft_all := x\<rparr>) = ft_block ft"
  by (simp add: ft_block_def fun_eq_iff)

lemma keeps_refl: "keeps bc bc"
  by (simp add: keeps_def)

lemma keeps_trans: "keeps a b \<Longrightarrow> keeps b c \<Longrightarrow> keeps a c"
  unfolding keeps_def by (auto intro: map_le_trans simp: map_le_def dom_def)

lemma keeps_statedb: "keeps bc (bc\<lparr>bc_statedb := s\<rparr>)"
  by (simp add: keeps_def)

lemma keeps_insert:
  assumes "linked sha h0 bc" "insert_block sha ord r bc = Ok (res, bc')" "bc_height bc r \<noteq> 0"
  shows "keeps bc bc' \<and> bc_height bc' x = bc_height bc x"
  using assms(2)
proof (cases rule: insert_block_cases)
  case (failed p e s1)
  then show ?thesis using keeps_statedb by (simp add: bc_height_def)
next
  case (inserted p gas rcs s1 rt s2)
  note fresh = insert_fresh [OF assms(1) inserted(1,2) assms(3)]
  have "bc_heights bc \<subseteq>\<^sub>m (bc_heights bc)(bc_height bc r \<mapsto> r)"
    using fresh(1) by (auto simp: map_le_def)
  moreover have "((bc_heap bc)(r := seal_header rt gas (bc_heap bc r))) y = bc_heap bc y" if "bc_heights bc h = Some y" for h y
    using fresh(2) [OF that] by simp
  ultimately show ?thesis unfolding inserted(6) keeps_def by (simp add: bc_height_def)
qed (auto intro: keeps_refl)

lemma keeps_apply_branch:
  "linked sha h0 bc \<Longrightarrow> apply_branch sha ord a rs bc = Ok (res, bc') \<Longrightarrow> keeps bc bc' \<and> linked sha h0 bc'"
proof (induction rs arbitrary: bc)
  case (Cons r rs)
  show ?case
  proof (cases "bc_height bc r > bc_height bc a")
    case True
    then have nz: "bc_height bc r \<noteq> 0" by auto
    from Cons.prems(2) True obtain res1 bc1 where i: "insert_block sha ord r bc = Ok (res1, bc1)"
      "(case res1 of Inl e \<Rightarrow> Ok (Inl e, bc1) | Inr _ \<Rightarrow> apply_branch sha ord a rs bc1) = Ok (res, bc')"
      by (auto simp: bc_height_def obind_Ok_iff)
    have one: "keeps bc bc1" "linked sha h0 bc1"
      using keeps_insert [OF Cons.prems(1) i(1) nz] linked_insert [OF Cons.prems(1) i(1) nz] by simp_all
    show ?thesis
    proof (cases res1)
      case (Inl e)
      with i(2) one show ?thesis by simp
    next
      case (Inr u)
      with i(2) have "apply_branch sha ord a rs bc1 = Ok (res, bc')" by simp
      with Cons.IH [OF one(2)] one(1) show ?thesis by (blast intro: keeps_trans)
    qed
  next
    case False
    with Cons show ?thesis by (simp add: bc_height_def)
  qed
qed (auto intro: keeps_refl)

lemma keeps_reorganize:
  assumes "linked sha h0 (ft_canonical ft)" "reorganize sha ord br ft = Some (Ok (res, ft'))"
  shows "keeps (ft_canonical ft) (ft_canonical ft') \<and> linked sha h0 (ft_canonical ft')"
proof -
  from assms(2) obtain a where "obind (apply_branch sha ord a (fb_blocks br) (ft_canonical ft)) (\<lambda>(res, bc1). case res of
                Inl e \<Rightarrow> Ok (Inl e, ft\<lparr>ft_canonical := bc1\<rparr>)
              | Inr _ \<Rightarrow> Ok (Inr True, ft\<lparr>ft_canonical := bc1, ft_alternatives := Map.empty\<rparr>)) = Ok (res, ft')"
    unfolding reorganize_def by (auto simp del: apply_branch.simps split: option.splits list.splits)
  then obtain x where ab: "apply_branch sha ord a (fb_blocks br) (ft_canonical ft) = Ok (x, ft_canonical ft')"
    unfolding obind_sum_Ok by auto
  with keeps_apply_branch [OF assms(1) ab] show ?thesis by simp
qed

section \<open>Validation does not look at the roots\<close>

lemma apply_transaction_header:
  assumes "bh_gas_limit h = bh_gas_limit h'"
  shows "apply_transaction sha ord sp tx h gp s = apply_transaction sha ord sp tx h' gp s"
  unfolding apply_transaction_def assms by (rule refl)

lemma process_txs_header:
  assumes "bh_gas_limit h = bh_gas_limit h'"
  shows "process_txs sha ord sp h txs gp t rcs s = process_txs sha ord sp h' txs gp t rcs s"
proof (induction txs arbitrary: gp t rcs s)
  case (Cons tx txs)
  show ?case unfolding process_txs.simps apply_transaction_header [OF assms] Cons.IH by (rule refl)
qed simp

lemma process_header:
  assumes "bh_gas_limit (blk_header b) = bh_gas_limit (blk_header b')" "bh_height (blk_header b) = bh_height (blk_header b')"
    "bh_proposer (blk_header b) = bh_proposer (blk_header b')" "blk_txs b = blk_txs b'"
  shows "process sha ord sp b s = process sha ord sp b' s"
  unfolding process_def Let_def assms process_txs_header [OF assms(1)] by (rule refl)

definition forge :: "hash \<Rightarrow> hash \<Rightarrow> hash \<Rightarrow> u64 \<Rightarrow> block \<Rightarrow> block" where
  "forge st tr rr gas b = b\<lparr>blk_header := (blk_header b)\<lparr>bh_state_root := st, bh_tx_root := tr,
     bh_receipt_root := rr, bh_gas_used := gas\<rparr>\<rparr>"

lemma insert_block_Inr:
  assumes "bc_current bc = Some p" "validate_block sha (bc_heap bc r) (bc_heap bc p) = Ok ()"
    "process sha ord (bc_processor bc) (bc_heap bc r) (bc_statedb bc) = Ok (Inr (gas, rcs), s1)"
    "commit sha (ord s1) s1 = Ok (rt, s2)"
  shows "insert_block sha ord r bc = Ok (Inr (), bc\<lparr>bc_statedb := s2,
     bc_heap := (bc_heap bc)(r := seal_header rt gas (bc_heap bc r)), bc_current := Some r,
     bc_blocks := (bc_blocks bc)(block_hash sha (seal_header rt gas (bc_heap bc r)) \<mapsto> r),
     bc_heights := (bc_heights bc)(bh_height (blk_header (bc_heap bc r)) \<mapsto> r)\<rparr>)"
  using assms by (simp add: insert_block_def Let_def)

section \<open>Properties\<close>

text \<open>
  C3: the chain is linked. In every chain that leads from InitGenesis through insertions (also failed
  ones), preparations and blocks created elsewhere, without a block of height 0 on top (the wrap of
  \<open>uint64\<close>): the head stands under its height and nothing above it, every height holds a block of that
  height, and each block but genesis names the hash of the block one height below and a later time.
\<close>

theorem chain_linked:
  assumes "chain_reachable sha g bc"
  shows "\<exists>c. bc_current bc = Some c \<and> get_block_by_height (bc_height bc c) bc = Some c \<and>
    (\<forall>h r. get_block_by_height h bc = Some r \<longrightarrow> bc_height bc r = h \<and> gen_initial_height g \<le> h \<and> h \<le> bc_height bc c) \<and>
    (\<forall>h r. get_block_by_height h bc = Some r \<longrightarrow> h \<noteq> gen_initial_height g \<longrightarrow>
       (\<exists>p. get_block_by_height (h - 1) bc = Some p \<and>
         bh_parent_hash (blk_header (bc_heap bc r)) = block_hash sha (bc_heap bc p) \<and>
         bh_timestamp (blk_header (bc_heap bc p)) < bh_timestamp (blk_header (bc_heap bc r))))"
  using reachable_linked [OF assms] unfolding linked_def get_block_by_height_def .

text \<open>
  The roots a block declares are not verified. If a block is inserted, the same block with any
  other state root, transaction root, receipt root and any gas used within its limit is inserted as
  well and leads to the same state; its header then carries the computed state root and gas, but keeps
  the forged transaction and receipt roots.
\<close>

theorem declared_roots_ignored:
  assumes "insert_block sha ord r bc = Ok (Inr (), bc1)" "gas \<le> bh_gas_limit (blk_header (bc_heap bc r))"
    "bc_height bc r \<noteq> 0"
  shows "\<exists>bc2. insert_block sha ord r (bc\<lparr>bc_heap := (bc_heap bc)(r := forge st tr rr gas (bc_heap bc r))\<rparr>) = Ok (Inr (), bc2) \<and>
    bc_statedb bc2 = bc_statedb bc1 \<and> bc_current bc2 = Some r \<and>
    bh_state_root (blk_header (bc_heap bc2 r)) = bh_state_root (blk_header (bc_heap bc1 r)) \<and>
    bh_tx_root (blk_header (bc_heap bc2 r)) = tr \<and> bh_receipt_root (blk_header (bc_heap bc2 r)) = rr"
  using assms(1)
proof (cases rule: insert_block_cases)
  case (inserted p g rcs s1 rt s2)
  let ?b = "forge st tr rr gas (bc_heap bc r)"
  let ?bc = "bc\<lparr>bc_heap := (bc_heap bc)(r := ?b)\<rparr>"
  have "p \<noteq> r"
  proof
    assume "p = r"
    with inserted(2) have "bc_height bc r = bc_height bc r + 1" by (simp add: validate_block_Ok bc_height_def)
    then show False by simp
  qed
  moreover from inserted(2) assms(2) have "validate_block sha ?b (bc_heap bc p) = Ok ()"
    by (simp add: validate_block_Ok forge_def)
  moreover have "process sha ord (bc_processor bc) ?b (bc_statedb bc) = process sha ord (bc_processor bc) (bc_heap bc r) (bc_statedb bc)"
    by (rule process_header) (simp_all add: forge_def)
  moreover have "bc_heap ?bc r = ?b" "bc_heap ?bc p = bc_heap bc p" using \<open>p \<noteq> r\<close> by simp_all
  ultimately have v: "validate_block sha (bc_heap ?bc r) (bc_heap ?bc p) = Ok ()"
    and pr: "process sha ord (bc_processor ?bc) (bc_heap ?bc r) (bc_statedb ?bc) = Ok (Inr (g, rcs), s1)"
    using inserted(3) by simp_all
  have "bc_current ?bc = Some p" using inserted(1) by simp
  note insert_block_Inr [OF this v pr inserted(4)]
  then show ?thesis unfolding inserted(6) by (simp add: forge_def)
qed simp_all

text \<open>
  C8: the fork tracker never replaces a canonical block. Whatever ProcessBlock answers for a block of
  nonzero height, an insertion, a new fork, an error or a reorganization, every height of the
  canonical chain keeps its block, unchanged, and the chain stays linked.
\<close>

theorem fork_never_replaces:
  assumes "linked sha h0 (ft_canonical ft)" "ft_height ft r \<noteq> 0"
    "process_block sha ord ordh r ft = Some (Ok (res, ft'))"
  shows "linked sha h0 (ft_canonical ft') \<and>
    (\<forall>h x. get_block_by_height h (ft_canonical ft) = Some x \<longrightarrow>
       get_block_by_height h (ft_canonical ft') = Some x \<and> ft_block ft' x = ft_block ft x)"
proof -
  let ?h = "block_hash sha (ft_block ft r)"
  let ?ft = "ft\<lparr>ft_all := (ft_all ft)(?h \<mapsto> r)\<rparr>"
  from assms(1) obtain tip where tip: "bc_current (ft_canonical ft) = Some tip" unfolding linked_def by blast
  have lk: "linked sha h0 (ft_canonical ?ft)" using assms(1) by simp
  have "keeps (ft_canonical ft) (ft_canonical ft') \<and> linked sha h0 (ft_canonical ft')"
  proof (cases "bh_parent_hash (blk_header (ft_block ft r)) = block_hash sha (ft_block ft tip)")
    case True
    with assms(3) tip have "obind (insert_block sha ord r (ft_canonical ?ft)) (\<lambda>(res, bc1). case res of
        Inl e \<Rightarrow> Ok (Inl e, ?ft\<lparr>ft_canonical := bc1\<rparr>) | Inr _ \<Rightarrow> Ok (Inr False, ?ft\<lparr>ft_canonical := bc1\<rparr>)) = Ok (res, ft')"
      by (simp add: process_block_def Let_def current_block_def)
    then obtain x where i: "insert_block sha ord r (ft_canonical ft) = Ok (x, ft_canonical ft')"
      unfolding obind_sum_Ok by auto
    have "bc_height (ft_canonical ft) r \<noteq> 0" using assms(2) by (simp add: ft_height_def ft_block_def bc_height_def)
    then show ?thesis using keeps_insert [OF assms(1) i] linked_insert [OF assms(1) i] by simp
  next
    case False
    show ?thesis
    proof (cases "find_fork_branch sha ordh (bh_parent_hash (blk_header (ft_block ft r))) ?ft")
      case None
      with False assms(3) tip have "new_fork sha ?h r ?ft = Some (Ok (res, ft'))"
        by (simp add: process_block_def Let_def current_block_def)
      then have "ft_canonical ft' = ft_canonical ft" by (auto simp: new_fork_def split: option.splits)
      then show ?thesis using assms(1) keeps_refl by simp
    next
      case (Some kb)
      obtain k br where kb: "kb = (k, br)" by (cases kb)
      with Some False assms(3) tip have "extend_branch sha ord k br ?h r ?ft = Some (Ok (res, ft'))"
        by (simp add: process_block_def Let_def current_block_def)
      moreover define br1 where "br1 = br\<lparr>fb_blocks := fb_blocks br @ [r], fb_tip_hash := ?h,
          fb_tip_height := ft_height ?ft r, fb_weight := fb_weight br + block_weight (ft_block ?ft r)\<rparr>"
      moreover define ft1 where "ft1 = ?ft\<lparr>ft_alternatives := (ft_alternatives ?ft)(k \<mapsto> br1)\<rparr>"
      ultimately have "reorganize sha ord br1 ft1 = Some (Ok (res, ft')) \<or> ft' = ft1"
        unfolding extend_branch_def Let_def by (auto split: option.splits if_splits)
      moreover have "ft_canonical ft1 = ft_canonical ft" by (simp add: ft1_def)
      ultimately show ?thesis using keeps_reorganize [of sha h0 ft1 ord br1 res ft'] assms(1) keeps_refl by auto
    qed
  qed
  then show ?thesis
    unfolding keeps_def get_block_by_height_def ft_block_def by (auto dest: map_le_Some)
qed

section \<open>Genesis\<close>

definition alloc_zero :: "genesis_account \<Rightarrow> bool" where
  "alloc_zero a \<longleftrightarrow> amount_is_zero (ga_apt a) \<or> amount_is_zero (ga_npt a)"

definition alloc_amount :: "bool \<Rightarrow> address \<Rightarrow> genesis_account \<Rightarrow> int" where
  "alloc_amount k b a = (if ga_address a = b then the (if k then ga_apt a else ga_npt a) else 0)"

lemma alloc_one:
  assumes "sdb_ok s" "\<not> alloc_zero a"
  shows "\<exists>s1 s2. mint_apt (ga_address a) (ga_apt a) s = Ok (Inr (), s1) \<and> mint_npt (ga_address a) (ga_npt a) s1 = Ok (Inr (), s2) \<and>
    sdb_ok s2 \<and> (\<forall>k b. view_bal s2 k b = view_bal s k b + alloc_amount k b a)"
proof -
  from assms(2) obtain x y where v: "ga_apt a = Some x" "x \<noteq> 0" "ga_npt a = Some y" "y \<noteq> 0"
    by (cases "ga_apt a"; cases "ga_npt a") (auto simp: alloc_zero_def amount_is_zero_def)
  obtain s1 where s1: "add_balance_apt (ga_address a) (Some x) s = Ok ((), s1)" "sdb_ok s1"
    "\<forall>k b. view_bal s1 k b = view_bal s k b + (if k \<and> b = ga_address a then x else 0)"
    using op_shift(2) [OF assms(1)] by blast
  let ?op = "AddNPT (ga_address a) (Some y)"
  have "op_ok ?op s1" by (simp add: op_ok_def)
  with run_op_moves [OF s1(2), of ?op] obtain s2 where s2: "add_balance_npt (ga_address a) (Some y) s1 = Ok ((), s2)" "sdb_ok s2"
    "\<forall>k b. view_bal s2 k b = (if b = ga_address a then the (op_bal ?op k (view_bal s1 k b)) else view_bal s1 k b)" by auto
  have "view_bal s2 k b = view_bal s k b + alloc_amount k b a" for k b
    using s1(3) s2(3) v by (auto simp: alloc_amount_def)
  with s1 s2 v show ?thesis by (simp add: mint_apt_def mint_npt_def ok_call_def amount_is_zero_def)
qed

text \<open>
  What InitGenesis credits. The allocation loop succeeds exactly when no allocation has a zero (or
  nil) amount of either token; then each account gains the sum of its allocations and nothing else.
  Otherwise it stops with the zero-amount error.
\<close>

theorem genesis_alloc_credits:
  assumes "sdb_ok s"
  shows "\<exists>s'. genesis_allocs as s = Ok (if list_ex alloc_zero as then Inl err_zero_amount else Inr (), s') \<and>
    (list_ex alloc_zero as \<or> sdb_ok s' \<and>
      (\<forall>k b. view_bal s' k b = view_bal s k b + sum_list (map (alloc_amount k b) as)))"
  using assms
proof (induction as arbitrary: s)
  case (Cons a as)
  show ?case
  proof (cases "alloc_zero a")
    case True
    show ?thesis
    proof (cases "amount_is_zero (ga_apt a)")
      case False
      obtain x where "ga_apt a = Some x" "x \<noteq> 0" using False by (cases "ga_apt a") (auto simp: amount_is_zero_def)
      moreover obtain s1 where "add_balance_apt (ga_address a) (Some x) s = Ok ((), s1)"
        using op_shift(2) [OF Cons.prems] by blast
      ultimately show ?thesis using True False
        by (simp add: mint_apt_def mint_npt_def call_bind_def ok_call_def alloc_zero_def)
    qed (use True in \<open>simp add: mint_apt_def call_bind_def alloc_zero_def\<close>)
  next
    case False
    with alloc_one [OF Cons.prems] obtain s1 s2 where m: "mint_apt (ga_address a) (ga_apt a) s = Ok (Inr (), s1)"
      "mint_npt (ga_address a) (ga_npt a) s1 = Ok (Inr (), s2)" "sdb_ok s2"
      "\<forall>k b. view_bal s2 k b = view_bal s k b + alloc_amount k b a" by blast
    from Cons.IH [OF m(3)] m(4) False show ?thesis
      by (auto simp: m(1,2) call_bind_def)
  qed
qed simp

text \<open>
  A prepared block validates. PrepareBlock builds a block that ValidateBlock accepts on the current
  head unless the given time is not later than the head's or the configured gas limit is too far from
  the head's; the chain keeps its blocks.
\<close>

theorem prepared_block_valid:
  assumes "prepare_block sha ord proposer txs timestamp rd bc = Ok (b, bc')" "bc_current bc = Some p"
  shows "validate_block sha b (bc_heap bc p) =
    (let h = blk_header (bc_heap bc p); limit = gas_limit (gas_params (bc_params bc)) in
     if timestamp \<le> bh_timestamp h then Err err_invalid_timestamp
     else if max_gas_change (bh_gas_limit h) < abs_diff limit (bh_gas_limit h) then Err err_gas_limit_change
     else Ok ()) \<and> bc_heap bc' = bc_heap bc \<and> bc_current bc' = Some p \<and> bc_heights bc' = bc_heights bc"
proof -
  from assms obtain rt st tr where b: "b = \<lparr>blk_header = \<lparr>bh_parent_hash = block_hash sha (bc_heap bc p),
      bh_height = bh_height (blk_header (bc_heap bc p)) + 1, bh_timestamp = timestamp, bh_state_root = rt, bh_tx_root = tr,
      bh_receipt_root = empty_hash, bh_proposer = proposer, bh_gas_limit = gas_limit (gas_params (bc_params bc)), bh_gas_used = 0,
      bh_extra = [], bh_round = rd, bh_prevote_hash = empty_hash, bh_precommit_hash = empty_hash\<rparr>, blk_txs = txs\<rparr>"
    "bc' = bc\<lparr>bc_statedb := st\<rparr>"
    by (auto simp: prepare_block_def obind_Ok_iff Let_def)
  from assms(2) show ?thesis by (simp add: b validate_block_def Let_def)
qed

section \<open>Witnesses\<close>

text \<open>A chain of one genesis block and its second block.\<close>

definition sample_genesis :: genesis where
  "sample_genesis = default_genesis\<lparr>gen_pool_apt := Some 0, gen_pool_npt := Some 0\<rparr>"

definition sample_next :: block where
  "sample_next = \<lparr>blk_header = \<lparr>bh_parent_hash = replicate 32 0, bh_height = 1, bh_timestamp = 1719000001,
     bh_state_root = empty_hash, bh_tx_root = empty_hash, bh_receipt_root = empty_hash,
     bh_proposer = replicate 20 1, bh_gas_limit = 30000000, bh_gas_used = 0, bh_extra = [], bh_round = 0,
     bh_prevote_hash = empty_hash, bh_precommit_hash = empty_hash\<rparr>, blk_txs = []\<rparr>"

definition sample_start :: blockchain where
  "sample_start = new_blockchain empty_hash Map.empty default_mainnet_params 31337 (\<lambda>_. sample_next)"

definition no_sha :: "byte list \<Rightarrow> hash" where "no_sha b = []"

lemma gen_initial_sample: "gen_initial_height sample_genesis = 0"
  by (simp add: sample_genesis_def default_genesis_def)

lemma no_sha_block [simp]: "block_hash no_sha b = replicate 32 0"
  by (simp add: block_hash_def compute_block_hash_def copy_left_def no_sha_def)

lemma commit_empty: "commit sha [] (new_statedb c st) = Ok (empty_node_hash, new_statedb c st)"
  by (simp add: commit_def trie_commit_def new_statedb_def new_empty_trie_def new_trie_def)

lemma commit_some: "\<exists>h s'. commit sha [] s = Ok (h, s')"
  by (simp add: commit_def split: prod.splits)

lemma sample_genesis_chain:
  obtains bc where "init_genesis no_sha (\<lambda>_. []) 0 sample_genesis sample_start = Ok (Inr (), bc)"
    "bc_heap bc = (\<lambda>_. sample_next)(0 := genesis_block sample_genesis empty_node_hash)" "bc_current bc = Some 0"
    "bc_statedb bc = new_statedb empty_hash Map.empty" "bc_heights bc = [0 \<mapsto> 0]" "bc_chain_id bc = 31337"
    "bc_params bc = default_mainnet_params" "bc_processor bc = \<lparr>sp_params = default_mainnet_params, sp_chain_id = 31337\<rparr>"
proof -
  let ?bc = "sample_start\<lparr>bc_heap := (\<lambda>_. sample_next)(0 := genesis_block sample_genesis empty_node_hash),
    bc_current := Some 0, bc_blocks := [replicate 32 0 \<mapsto> 0], bc_heights := [0 \<mapsto> 0]\<rparr>"
  have "init_genesis no_sha (\<lambda>_. []) 0 sample_genesis sample_start = Ok (Inr (), ?bc)"
    by (simp add: init_genesis_def sample_genesis_def default_genesis_def sample_start_def new_blockchain_def
        genesis_pool_def amount_is_zero_def commit_empty)
  then show thesis by (rule that) (simp_all add: sample_start_def new_blockchain_def)
qed

lemma sample_process:
  "\<exists>s'. process no_sha ord \<lparr>sp_params = default_mainnet_params, sp_chain_id = 31337\<rparr> sample_next
    (new_statedb empty_hash Map.empty) = Ok (Inr (0, []), s')"
proof -
  let ?a = "replicate 20 (1 :: byte)"
  have rw: "calculate_block_reward default_mainnet_params 1 = Ok (Some apt_precision, Some apt_precision)"
    by (simp add: block_reward_halves [of _ apt_precision apt_precision] default_mainnet_params_def)
  obtain s1 where s1: "add_balance_apt ?a (Some apt_precision) (new_statedb empty_hash Map.empty) = Ok ((), s1)" "sdb_ok s1"
    using op_shift(2) [OF new_statedb_ok] by blast
  have "op_ok (AddNPT ?a (Some apt_precision)) s1" by (simp add: op_ok_def)
  with run_op_moves [OF s1(2), of "AddNPT ?a (Some apt_precision)"] obtain s2 where "add_balance_npt ?a (Some apt_precision) s1 = Ok ((), s2)" by auto
  with s1 rw show ?thesis
    by (simp add: process_def sample_next_def call_bind_def ok_call_def mint_apt_def mint_npt_def amount_is_zero_def apt_precision_def)
qed

lemma sample_valid: "validate_block no_sha sample_next (genesis_block sample_genesis rt) = Ok ()"
  by (simp add: validate_block_Ok sample_next_def genesis_block_def sample_genesis_def default_genesis_def
      abs_diff_def max_gas_change_def)

lemma sample_insert:
  assumes "bc_current bc = Some 0" "bc_heap bc 0 = genesis_block sample_genesis empty_node_hash" "bc_heap bc 1 = sample_next"
    "bc_statedb bc = new_statedb empty_hash Map.empty"
    "bc_processor bc = \<lparr>sp_params = default_mainnet_params, sp_chain_id = 31337\<rparr>"
  obtains bc' where "insert_block no_sha (\<lambda>_. []) 1 bc = Ok (Inr (), bc')" "bc_current bc' = Some 1"
    "bc_heights bc' = (bc_heights bc)(1 \<mapsto> 1)"
proof -
  obtain s1 where "process no_sha (\<lambda>_. []) (bc_processor bc) (bc_heap bc 1) (bc_statedb bc) = Ok (Inr (0, []), s1)"
    using sample_process assms by auto
  moreover obtain rt s2 where "commit no_sha [] s1 = Ok (rt, s2)" using commit_some by blast
  moreover have "validate_block no_sha (bc_heap bc 1) (bc_heap bc 0) = Ok ()" using sample_valid assms by simp
  ultimately have "insert_block no_sha (\<lambda>_. []) 1 bc = Ok (Inr (), bc\<lparr>bc_statedb := s2,
     bc_heap := (bc_heap bc)(1 := seal_header rt 0 (bc_heap bc 1)), bc_current := Some 1,
     bc_blocks := (bc_blocks bc)(block_hash no_sha (seal_header rt 0 (bc_heap bc 1)) \<mapsto> 1),
     bc_heights := (bc_heights bc)(bh_height (blk_header (bc_heap bc 1)) \<mapsto> 1)\<rparr>)"
    using assms(1) by (intro insert_block_Inr) simp_all
  then show thesis by (rule that) (simp_all add: assms(3) [simplified] sample_next_def)
qed

theorem chain_linked_witness:
  "\<exists>bc. chain_reachable no_sha sample_genesis bc \<and> get_block_by_height 0 bc = Some 0 \<and> get_block_by_height 1 bc = Some 1 \<and>
    bh_parent_hash (blk_header (bc_heap bc 1)) = block_hash no_sha (bc_heap bc 0)"
proof -
  obtain bc where bc: "init_genesis no_sha (\<lambda>_. []) 0 sample_genesis sample_start = Ok (Inr (), bc)"
    "bc_heap bc = (\<lambda>_. sample_next)(0 := genesis_block sample_genesis empty_node_hash)" "bc_current bc = Some 0"
    "bc_statedb bc = new_statedb empty_hash Map.empty" "bc_heights bc = [0 \<mapsto> 0]"
    "bc_processor bc = \<lparr>sp_params = default_mainnet_params, sp_chain_id = 31337\<rparr>"
    by (rule sample_genesis_chain)
  obtain bc' where i: "insert_block no_sha (\<lambda>_. []) 1 bc = Ok (Inr (), bc')" "bc_heights bc' = (bc_heights bc)(1 \<mapsto> 1)"
    by (rule sample_insert [of bc]) (use bc in simp_all)
  have "bc_height bc 1 \<noteq> 0" using bc(2) by (simp add: bc_height_def sample_next_def)
  with chain_insert [OF chain_genesis [OF bc(1) [unfolded sample_start_def]] _ i(1)]
  have r: "chain_reachable no_sha sample_genesis bc'" .
  have g: "get_block_by_height 0 bc' = Some 0" "get_block_by_height 1 bc' = Some 1"
    using i(2) bc(5) by (simp_all add: get_block_by_height_def)
  obtain c where "\<forall>h x. get_block_by_height h bc' = Some x \<longrightarrow> h \<noteq> gen_initial_height sample_genesis \<longrightarrow>
      (\<exists>p. get_block_by_height (h - 1) bc' = Some p \<and>
         bh_parent_hash (blk_header (bc_heap bc' x)) = block_hash no_sha (bc_heap bc' p) \<and>
         bh_timestamp (blk_header (bc_heap bc' p)) < bh_timestamp (blk_header (bc_heap bc' x)))"
    using chain_linked [OF r] by (elim exE conjE)
  from this [THEN spec, THEN spec, THEN mp, THEN mp, OF g(2)] obtain p where
    "get_block_by_height (1 - 1) bc' = Some p" "bh_parent_hash (blk_header (bc_heap bc' 1)) = block_hash no_sha (bc_heap bc' p)"
    by (auto simp: gen_initial_sample)
  with g r show ?thesis by auto
qed

theorem declared_roots_ignored_witness:
  "\<exists>bc bc1 bc2. insert_block no_sha (\<lambda>_. []) 1 bc = Ok (Inr (), bc1) \<and>
     insert_block no_sha (\<lambda>_. []) 1 (bc\<lparr>bc_heap := (bc_heap bc)(1 := forge [7] [8] [9] 5 (bc_heap bc 1))\<rparr>) = Ok (Inr (), bc2) \<and>
     bh_tx_root (blk_header (bc_heap bc2 1)) = [8] \<and> bc_statedb bc2 = bc_statedb bc1"
proof -
  obtain bc :: blockchain where bc: "bc_heap bc = (\<lambda>_. sample_next)(0 := genesis_block sample_genesis empty_node_hash)" "bc_current bc = Some 0"
    "bc_statedb bc = new_statedb empty_hash Map.empty" "bc_heights bc = [0 \<mapsto> 0]"
    "bc_processor bc = \<lparr>sp_params = default_mainnet_params, sp_chain_id = 31337\<rparr>"
    by (rule sample_genesis_chain)
  obtain bc1 where i: "insert_block no_sha (\<lambda>_. []) 1 bc = Ok (Inr (), bc1)"
    by (rule sample_insert [of bc]) (use bc in simp_all)
  have "5 \<le> bh_gas_limit (blk_header (bc_heap bc 1))" "bc_height bc 1 \<noteq> 0"
    using bc(1) by (simp_all add: bc_height_def sample_next_def)
  from declared_roots_ignored [OF i this, of "[7]" "[8]" "[9]"] i show ?thesis by blast
qed

theorem fork_never_replaces_witness:
  "\<exists>ft res ft'. process_block no_sha (\<lambda>_. []) (\<lambda>_. []) 1 ft = Some (Ok (res, ft')) \<and>
     get_block_by_height 0 (ft_canonical ft) = Some 0 \<and> get_block_by_height 0 (ft_canonical ft') = Some 0"
proof -
  obtain bc where bc: "init_genesis no_sha (\<lambda>_. []) 0 sample_genesis sample_start = Ok (Inr (), bc)"
    "bc_heap bc = (\<lambda>_. sample_next)(0 := genesis_block sample_genesis empty_node_hash)" "bc_current bc = Some 0"
    "bc_statedb bc = new_statedb empty_hash Map.empty" "bc_heights bc = [0 \<mapsto> 0]"
    "bc_processor bc = \<lparr>sp_params = default_mainnet_params, sp_chain_id = 31337\<rparr>"
    by (rule sample_genesis_chain)
  let ?ft = "new_fork_tracker bc"
  obtain bc1 where i: "insert_block no_sha (\<lambda>_. []) 1 bc = Ok (Inr (), bc1)"
    by (rule sample_insert [of bc]) (use bc in simp_all)
  have lk: "linked no_sha (gen_initial_height sample_genesis) (ft_canonical ?ft)"
    using linked_genesis [OF bc(1) [unfolded sample_start_def]] by (simp add: new_fork_tracker_def)
  have ht: "ft_height ?ft 1 \<noteq> 0" by (simp add: ft_height_def ft_block_def new_fork_tracker_def bc(2) sample_next_def)
  have "\<exists>ft'. process_block no_sha (\<lambda>_. []) (\<lambda>_. []) 1 ?ft = Some (Ok (Inr False, ft'))"
    using i bc(2,3) by (simp add: process_block_def Let_def new_fork_tracker_def ft_block_def current_block_def sample_next_def)
  then obtain ft' where pb: "process_block no_sha (\<lambda>_. []) (\<lambda>_. []) 1 ?ft = Some (Ok (Inr False, ft'))" by blast
  have "get_block_by_height 0 (ft_canonical ?ft) = Some 0" by (simp add: get_block_by_height_def new_fork_tracker_def bc(5))
  with fork_never_replaces [OF lk ht pb] pb show ?thesis by blast
qed

theorem genesis_alloc_credits_witness:
  "\<exists>s'. genesis_allocs [\<lparr>ga_address = [7], ga_apt = Some 5, ga_npt = Some 3, ga_staked = None\<rparr>]
     (new_statedb empty_hash Map.empty) = Ok (Inr (), s') \<and> view_bal s' True [7] = 5 \<and> view_bal s' False [7] = 3"
proof -
  let ?a = "\<lparr>ga_address = [7], ga_apt = Some 5, ga_npt = Some 3, ga_staked = None\<rparr>"
  have "\<not> list_ex alloc_zero [?a]" by (simp add: alloc_zero_def amount_is_zero_def)
  moreover have "view_bal (new_statedb empty_hash Map.empty) k b = 0" for k b
    by (simp add: view_bal_def new_statedb_def stored_account_def)
  ultimately show ?thesis
    using genesis_alloc_credits [OF new_statedb_ok, of "[?a]" empty_hash] by (auto simp: alloc_amount_def)
qed

theorem prepared_block_valid_witness:
  "\<exists>bc b bc'. prepare_block no_sha (\<lambda>_. []) (replicate 20 1) [] 1719000005 0 bc = Ok (b, bc') \<and>
     validate_block no_sha b (bc_heap bc 0) = Ok ()"
proof -
  obtain bc :: blockchain where bc: "bc_heap bc = (\<lambda>_. sample_next)(0 := genesis_block sample_genesis empty_node_hash)"
    "bc_current bc = Some 0" "bc_statedb bc = new_statedb empty_hash Map.empty" "bc_heights bc = [0 \<mapsto> 0]"
    "bc_chain_id bc = 31337" "bc_params bc = default_mainnet_params"
    by (rule sample_genesis_chain)
  have "\<exists>b bc'. prepare_block no_sha (\<lambda>_. []) (replicate 20 1) [] 1719000005 0 bc = Ok (b, bc')"
    by (simp add: prepare_block_def bc(2) compute_tx_root_def intermediate_root_def Let_def)
  then obtain b bc' where p: "prepare_block no_sha (\<lambda>_. []) (replicate 20 1) [] 1719000005 0 bc = Ok (b, bc')" by blast
  have "validate_block no_sha b (bc_heap bc 0) = Ok ()"
    using prepared_block_valid [OF p bc(2)]
    by (simp add: bc genesis_block_def sample_genesis_def default_genesis_def default_mainnet_params_def
        default_gas_config_def abs_diff_def max_gas_change_def)
  with p show ?thesis by blast
qed

end
