(* ===== verification/Tasks.thy ===== *)
theory Tasks
  imports ChainTypes Float64
begin

text \<open>
  AI tasks, \<^verbatim>\<open>src/pkg/task\<close>: the task, its builder and its hash (types.go), the requirements of the
  tiers (tiers.go), the compute units (compute_utxo.go), the verification of results (verifier.go), the
  graph of subtasks (dag.go) and the price of a task (pricing.go). A Go string is its byte list; the two
  \<open>float32\<close> fields of a model specification, which nothing computes with, are their bit patterns.
\<close>

section \<open>Tasks\<close>

type_synonym task_id = "byte list"
type_synonym task_tier = byte

definition null_task_id :: task_id where "null_task_id = replicate 32 0"

definition task_id_hex :: "task_id \<Rightarrow> string" where
  "task_id_hex i = hex_encode (bytes_to_hash i)"

definition task_id_is_null :: "task_id \<Rightarrow> bool" where
  "task_id_is_null i = (i = null_task_id)"

definition tier1_lightweight :: task_tier where "tier1_lightweight = 1"
definition tier2_conversation :: task_tier where "tier2_conversation = 2"
definition tier3_inference :: task_tier where "tier3_inference = 3"
definition tier4_heavy :: task_tier where "tier4_heavy = 4"
definition tier5_distributed :: task_tier where "tier5_distributed = 5"

lemmas tier_defs = tier1_lightweight_def tier2_conversation_def tier3_inference_def tier4_heavy_def tier5_distributed_def

definition tier_string :: "task_tier \<Rightarrow> string" where
  "tier_string t =
     (if t = tier1_lightweight then ''Lightweight'' else if t = tier2_conversation then ''Conversation''
      else if t = tier3_inference then ''Inference'' else if t = tier4_heavy then ''Heavy''
      else if t = tier5_distributed then ''Distributed'' else ''Unknown'')"

type_synonym task_status = byte

definition task_status_pending :: task_status where "task_status_pending = 0"
definition task_status_assigned :: task_status where "task_status_assigned = 1"
definition task_status_running :: task_status where "task_status_running = 2"
definition task_status_completed :: task_status where "task_status_completed = 3"
definition task_status_failed :: task_status where "task_status_failed = 4"
definition task_status_disputed :: task_status where "task_status_disputed = 5"
definition task_status_expired :: task_status where "task_status_expired = 6"

definition task_status_string :: "task_status \<Rightarrow> string" where
  "task_status_string s =
     (if s = task_status_pending then ''Pending'' else if s = task_status_assigned then ''Assigned''
      else if s = task_status_running then ''Running'' else if s = task_status_completed then ''Completed''
      else if s = task_status_failed then ''Failed'' else if s = task_status_disputed then ''Disputed''
      else if s = task_status_expired then ''Expired'' else ''Unknown'')"

type_synonym subtask_id = "byte list"

record sub_task =
  st_id :: subtask_id
  st_parent :: task_id
  st_index :: u32
  st_model_shard :: string
  st_input_shard :: "byte list option"
  st_miner :: address
  st_status :: task_status
  st_result :: "byte list option"
  st_compute_cost :: u64

record task_dag =
  dag_subtasks :: "sub_task list"
  dag_dependencies :: "subtask_id \<Rightarrow> subtask_id list option"

record model_spec =
  ms_model_id :: "byte list"
  ms_quantization :: "byte list"
  ms_max_tokens :: u32
  ms_temperature :: u32
  ms_top_p :: u32

record task =
  t_id :: task_id
  t_creator :: address
  t_tier :: task_tier
  t_model_spec :: model_spec
  t_input_hash :: hash
  t_input_size :: u64
  t_fee :: token_amount
  t_collateral :: token_amount
  t_deadline :: u64
  t_sequence :: u32
  t_created_at :: u64
  t_status :: task_status
  t_assigned_miner :: address
  t_dag :: "task_dag option"
  t_hash :: hash
  t_hash_once :: bool

record task_builder =
  tb_creator :: address
  tb_tier :: task_tier
  tb_model_spec :: model_spec
  tb_input_hash :: hash
  tb_input_size :: u64
  tb_fee :: token_amount
  tb_collateral :: token_amount
  tb_deadline :: u64
  tb_sequence :: u32

definition sequence_final :: u32 where "sequence_final = 0xFFFFFFFF"
definition sequence_lock_time_disable :: u32 where "sequence_lock_time_disable = push_bit 31 1"
definition sequence_lock_time_mask :: u32 where "sequence_lock_time_mask = 0x0000FFFF"

definition is_sequence_final :: "u32 \<Rightarrow> bool" where
  "is_sequence_final s = (s = sequence_final)"

definition is_sequence_lock_time_disabled :: "u32 \<Rightarrow> bool" where
  "is_sequence_lock_time_disabled s = (and s sequence_lock_time_disable \<noteq> 0)"

definition new_task_builder :: task_builder where
  "new_task_builder = \<lparr>tb_creator = zero_address, tb_tier = 0,
     tb_model_spec = \<lparr>ms_model_id = [], ms_quantization = [], ms_max_tokens = 0, ms_temperature = 0, ms_top_p = 0\<rparr>,
     tb_input_hash = empty_hash, tb_input_size = 0, tb_fee = None, tb_collateral = None, tb_deadline = 0,
     tb_sequence = sequence_final\<rparr>"

definition set_creator :: "address \<Rightarrow> task_builder \<Rightarrow> task_builder" where
  "set_creator a tb = tb\<lparr>tb_creator := a\<rparr>"

definition set_tier :: "task_tier \<Rightarrow> task_builder \<Rightarrow> task_builder" where
  "set_tier t tb = tb\<lparr>tb_tier := t\<rparr>"

definition task_preimage :: "task \<Rightarrow> (string, byte list) outcome" where
  "task_preimage t = obind (to_big_int (t_fee t)) (\<lambda>fee.
     Ok (t_creator t @ [t_tier t] @ ms_model_id (t_model_spec t) @ t_input_hash t @ big_bytes fee @ u64_bytes (t_deadline t)))"

definition task_compute_hash :: "(byte list \<Rightarrow> hash) \<Rightarrow> task \<Rightarrow> (string, task) outcome" where
  "task_compute_hash sha t = obind (task_preimage t) (\<lambda>p.
     let i = copy_left 32 (sha p) in Ok (t\<lparr>t_id := i, t_hash := bytes_to_hash i, t_hash_once := True\<rparr>))"

definition build_task :: "(byte list \<Rightarrow> hash) \<Rightarrow> task_builder \<Rightarrow> (string, task) outcome" where
  "build_task sha tb =
     (let fee = (if amount_is_nil (tb_fee tb) then Some 0 else tb_fee tb);
          collateral = (if amount_is_nil (tb_collateral tb) then Some 0 else tb_collateral tb)
      in task_compute_hash sha \<lparr>t_id = null_task_id, t_creator = tb_creator tb, t_tier = tb_tier tb,
           t_model_spec = tb_model_spec tb, t_input_hash = tb_input_hash tb, t_input_size = tb_input_size tb,
           t_fee = fee, t_collateral = collateral, t_deadline = tb_deadline tb, t_sequence = tb_sequence tb,
           t_created_at = 0, t_status = task_status_pending, t_assigned_miner = zero_address, t_dag = None,
           t_hash = empty_hash, t_hash_once = False\<rparr>)"

definition task_is_expired :: "task \<Rightarrow> u64 \<Rightarrow> bool" where
  "task_is_expired t currentHeight = (0 < t_deadline t \<and> t_deadline t < currentHeight)"

definition estimate_compute_units :: "task \<Rightarrow> u64" where
  "estimate_compute_units t =
     (if t_tier t = tier1_lightweight then 1 else if t_tier t = tier2_conversation then 10
      else if t_tier t = tier3_inference then 100 else if t_tier t = tier4_heavy then 1000
      else if t_tier t = tier5_distributed then 10000 else 1)"

section \<open>Tiers\<close>

record tier_requirements =
  tr_min_vram :: u64
  tr_min_ram :: u64
  tr_min_gpu_count :: int
  tr_min_compute_units :: u64
  tr_max_input_size :: u64
  tr_model_params :: u64

definition get_tier_requirements :: "task_tier \<Rightarrow> tier_requirements" where
  "get_tier_requirements t =
     (if t = tier1_lightweight then \<lparr>tr_min_vram = 1024, tr_min_ram = 4096, tr_min_gpu_count = 0,
        tr_min_compute_units = 1, tr_max_input_size = 8 * 1024, tr_model_params = 0\<rparr>
      else if t = tier2_conversation then \<lparr>tr_min_vram = 6144, tr_min_ram = 16384, tr_min_gpu_count = 1,
        tr_min_compute_units = 10, tr_max_input_size = 32 * 1024, tr_model_params = 7\<rparr>
      else if t = tier3_inference then \<lparr>tr_min_vram = 24576, tr_min_ram = 65536, tr_min_gpu_count = 1,
        tr_min_compute_units = 100, tr_max_input_size = 128 * 1024, tr_model_params = 70\<rparr>
      else if t = tier4_heavy then \<lparr>tr_min_vram = 81920, tr_min_ram = 262144, tr_min_gpu_count = 2,
        tr_min_compute_units = 1000, tr_max_input_size = 512 * 1024, tr_model_params = 200\<rparr>
      else if t = tier5_distributed then \<lparr>tr_min_vram = 163840, tr_min_ram = 524288, tr_min_gpu_count = 4,
        tr_min_compute_units = 10000, tr_max_input_size = 2 * 1024 * 1024, tr_model_params = 500\<rparr>
      else \<lparr>tr_min_vram = 0, tr_min_ram = 0, tr_min_gpu_count = 0, tr_min_compute_units = 0,
        tr_max_input_size = 0, tr_model_params = 0\<rparr>)"

record miner_capability =
  mc_vram :: u64
  mc_ram :: u64
  mc_gpu_count :: int
  mc_compute_units :: u64
  mc_supported_models :: "byte list list"
  mc_max_batch_size :: int
  mc_reputation :: f64
  mc_uptime :: f64

definition can_miner_handle :: "task_tier \<Rightarrow> miner_capability \<Rightarrow> bool" where
  "can_miner_handle t c = (let req = get_tier_requirements t in
     mc_vram c \<ge> tr_min_vram req \<and> mc_ram c \<ge> tr_min_ram req \<and> mc_gpu_count c \<ge> tr_min_gpu_count req \<and>
     mc_compute_units c \<ge> tr_min_compute_units req)"

text \<open>The nearest \<open>float64\<close> of 0.4 and of 0.3.\<close>

definition f64_four_tenths :: f64 where "f64_four_tenths = F64 3602879701896397 53"
definition f64_three_tenths :: f64 where "f64_three_tenths = F64 5404319552844595 54"

definition miner_score :: "task_tier \<Rightarrow> miner_capability \<Rightarrow> f64" where
  "miner_score t c = (let req = get_tier_requirements t in
     if tr_min_compute_units req = 0 then F64 0 0
     else let q = f64_div (f64_of_u64 (mc_compute_units c)) (f64_of_u64 (tr_min_compute_units req));
              capScore = (if f64_less (F64 5 0) q then F64 5 0 else q)
          in f64_add (f64_add (f64_mul f64_four_tenths capScore) (f64_mul f64_three_tenths (mc_reputation c)))
               (f64_mul f64_three_tenths (mc_uptime c)))"

section \<open>Compute units\<close>

type_synonym task_point = "task_id \<times> u32"

definition null_subtask_index :: u32 where "null_subtask_index = 0xFFFFFFFF"

definition null_task_point :: task_point where "null_task_point = (null_task_id, null_subtask_index)"

definition task_point_is_null :: "task_point \<Rightarrow> bool" where
  "task_point_is_null p = (snd p = null_subtask_index)"

record compute_unit =
  cu_compute_cost :: u64
  cu_verification_script :: "byte list"
  cu_deadline :: u64
  cu_sequence :: u32

record task_assignment =
  ta_prev_task :: task_point
  ta_result_proof :: "byte list"
  ta_result_hash :: hash
  ta_miner_address :: address
  ta_compute_used :: u64
  ta_signature :: "byte list"

record compute_utxo_set =
  cs_utxos :: "task_point \<Rightarrow> compute_unit option"
  cs_spent :: "task_point \<Rightarrow> bool"
  cs_by_deadline :: "(task_point \<times> u64) list"

definition new_compute_utxo_set :: compute_utxo_set where
  "new_compute_utxo_set = \<lparr>cs_utxos = Map.empty, cs_spent = (\<lambda>_. False), cs_by_deadline = []\<rparr>"

definition add_compute_unit :: "task_point \<Rightarrow> compute_unit \<Rightarrow> compute_utxo_set \<Rightarrow> compute_utxo_set" where
  "add_compute_unit p cu cs = (let cs1 = cs\<lparr>cs_utxos := (cs_utxos cs)(p \<mapsto> cu)\<rparr> in
     if 0 < cu_deadline cu then cs1\<lparr>cs_by_deadline := cs_by_deadline cs1 @ [(p, cu_deadline cu)]\<rparr> else cs1)"

definition get_compute_unit :: "task_point \<Rightarrow> compute_utxo_set \<Rightarrow> compute_unit option" where
  "get_compute_unit p cs = (if cs_spent cs p then None else cs_utxos cs p)"

definition spend_compute_unit :: "task_point \<Rightarrow> compute_utxo_set \<Rightarrow> compute_utxo_set" where
  "spend_compute_unit p cs = cs\<lparr>cs_spent := (cs_spent cs)(p := True)\<rparr>"

definition is_spent :: "task_point \<Rightarrow> compute_utxo_set \<Rightarrow> bool" where
  "is_spent p cs = cs_spent cs p"

fun expire_units :: "u64 \<Rightarrow> (task_point \<times> u64) list \<Rightarrow> (task_point \<Rightarrow> bool) \<Rightarrow> task_point list \<times> (task_point \<Rightarrow> bool)" where
  "expire_units h [] spent = ([], spent)"
| "expire_units h ((p, d) # es) spent =
     (if 0 < d \<and> d < h \<and> \<not> spent p
      then let (expired, s) = expire_units h es (spent(p := True)) in (p # expired, s)
      else expire_units h es spent)"

definition expire_compute_units :: "u64 \<Rightarrow> compute_utxo_set \<Rightarrow> task_point list \<times> compute_utxo_set" where
  "expire_compute_units h cs =
     (let (expired, s) = expire_units h (cs_by_deadline cs) (cs_spent cs) in (expired, cs\<lparr>cs_spent := s\<rparr>))"

definition u32_bytes :: "u32 \<Rightarrow> byte list" where
  "u32_bytes v = be_bytes 4 (unat v)"

definition compute_task_point_hash :: "(byte list \<Rightarrow> hash) \<Rightarrow> task_point \<Rightarrow> hash" where
  "compute_task_point_hash sha p = copy_left 32 (sha (fst p @ u32_bytes (snd p)))"

definition compute_unit_value :: "compute_unit \<Rightarrow> int" where
  "compute_unit_value cu = uint (cu_compute_cost cu)"

section \<open>Verification of results\<close>

type_synonym verifier_status = byte

definition verifier_pending :: verifier_status where "verifier_pending = 0"
definition verifier_challenged :: verifier_status where "verifier_challenged = 1"
definition verifier_accepted :: verifier_status where "verifier_accepted = 2"
definition verifier_rejected :: verifier_status where "verifier_rejected = 3"

lemmas verifier_defs = verifier_pending_def verifier_challenged_def verifier_accepted_def verifier_rejected_def

record challenge_config =
  cc_challenge_period :: u64
  cc_sampling_rate :: f64
  cc_min_challengers :: int
  cc_challenge_bond :: token_amount

text \<open>The nearest \<open>float64\<close> of 0.05.\<close>

definition f64_five_percent :: f64 where "f64_five_percent = F64 7205759403792794 57"

definition default_challenge_config :: challenge_config where
  "default_challenge_config = \<lparr>cc_challenge_period = 100, cc_sampling_rate = f64_five_percent,
     cc_min_challengers = 3, cc_challenge_bond = new_token_amount_uint64 1000\<rparr>"

record verifier_state =
  vst_task_id :: task_id
  vst_result_hash :: hash
  vst_miner :: address
  vst_submitted_at :: u64
  vst_challenge_ends :: u64
  vst_status :: verifier_status
  vst_challengers :: "address list"

record verifier =
  vr_config :: challenge_config
  vr_states :: "task_id \<Rightarrow> verifier_state option"
  vr_by_height :: "u64 \<Rightarrow> task_id list option"

definition new_verifier :: "challenge_config \<Rightarrow> verifier" where
  "new_verifier cfg = \<lparr>vr_config = cfg, vr_states = Map.empty, vr_by_height = Map.empty\<rparr>"

definition submit_result :: "task_id \<Rightarrow> hash \<Rightarrow> address \<Rightarrow> u64 \<Rightarrow> verifier \<Rightarrow> (string, verifier) outcome" where
  "submit_result i resultHash miner h v =
     (if vr_states v i \<noteq> None then Err (''result already submitted for task '' @ task_id_hex i)
      else let ends = h + cc_challenge_period (vr_config v) in
        Ok (v\<lparr>vr_states := (vr_states v)(i \<mapsto> \<lparr>vst_task_id = i, vst_result_hash = resultHash, vst_miner = miner,
                 vst_submitted_at = h, vst_challenge_ends = ends, vst_status = verifier_pending, vst_challengers = []\<rparr>),
               vr_by_height := (vr_by_height v)(ends \<mapsto> (case vr_by_height v ends of None \<Rightarrow> [] | Some l \<Rightarrow> l) @ [i])\<rparr>))"

definition challenge_result :: "task_id \<Rightarrow> address \<Rightarrow> u64 \<Rightarrow> verifier \<Rightarrow> (string, verifier) outcome" where
  "challenge_result i challenger h v = (case vr_states v i of
     None \<Rightarrow> Err (''no result found for task '' @ task_id_hex i)
   | Some s \<Rightarrow>
       if h > vst_challenge_ends s then Err (''challenge window closed for task '' @ task_id_hex i)
       else if vst_status s = verifier_challenged then Err (''task '' @ task_id_hex i @ '' already under challenge'')
       else Ok (v\<lparr>vr_states := (vr_states v)(i \<mapsto> s\<lparr>vst_status := verifier_challenged,
                 vst_challengers := vst_challengers s @ [challenger]\<rparr>)\<rparr>))"

definition resolve_challenge :: "task_id \<Rightarrow> bool \<Rightarrow> verifier \<Rightarrow> (string, verifier) outcome" where
  "resolve_challenge i resultValid v = (case vr_states v i of
     None \<Rightarrow> Err (''no result found for task '' @ task_id_hex i)
   | Some s \<Rightarrow>
       if vst_status s \<noteq> verifier_challenged then Err (''task '' @ task_id_hex i @ '' not under challenge'')
       else Ok (v\<lparr>vr_states := (vr_states v)(i \<mapsto> s\<lparr>vst_status :=
              if resultValid then verifier_accepted else verifier_rejected\<rparr>)\<rparr>))"

fun finalize_tasks ::
  "task_id list \<Rightarrow> (task_id \<Rightarrow> verifier_state option) \<Rightarrow> task_id list \<times> (task_id \<Rightarrow> verifier_state option)" where
  "finalize_tasks [] states = ([], states)"
| "finalize_tasks (i # is) states = (case states i of
     None \<Rightarrow> finalize_tasks is states
   | Some s \<Rightarrow>
       if vst_status s = verifier_pending
       then let (f, st) = finalize_tasks is (states(i \<mapsto> s\<lparr>vst_status := verifier_accepted\<rparr>)) in (i # f, st)
       else finalize_tasks is states)"

text \<open>The loop over the map of heights, in the order \<open>heights\<close>; it deletes the heights it handles.\<close>

fun finalize_heights :: "u64 \<Rightarrow> u64 list \<Rightarrow> verifier \<Rightarrow> task_id list \<times> verifier" where
  "finalize_heights h [] v = ([], v)"
| "finalize_heights h (k # ks) v =
     (if k \<le> h
      then let (f, st) = finalize_tasks (case vr_by_height v k of None \<Rightarrow> [] | Some l \<Rightarrow> l) (vr_states v);
               (fs, v1) = finalize_heights h ks (v\<lparr>vr_states := st, vr_by_height := (vr_by_height v)(k := None)\<rparr>)
           in (f @ fs, v1)
      else finalize_heights h ks v)"

definition finalize_results :: "(u64 set \<Rightarrow> u64 list) \<Rightarrow> u64 \<Rightarrow> verifier \<Rightarrow> task_id list \<times> verifier" where
  "finalize_results ordu h v = finalize_heights h (ordu (dom (vr_by_height v))) v"

definition get_verifier_state :: "task_id \<Rightarrow> verifier \<Rightarrow> verifier_state option" where
  "get_verifier_state i v = vr_states v i"

definition should_sample :: "verifier \<Rightarrow> bool" where
  "should_sample v = False"

end
