(* ===== verification/TaskDag.thy ===== *)
theory TaskDag
  imports Tasks
begin

text \<open>
  The graph of subtasks, \<^verbatim>\<open>src/pkg/task/dag.go\<close>: splitting a task by tier, the check for cycles and the
  execution order (both Kahn's algorithm), and the subtasks that are ready. \<open>ordk\<close> gives the iteration
  order of a map. A loop that never ends is \<open>None\<close>.
\<close>

record dag_builder =
  db_subtasks :: "sub_task list"
  db_dependencies :: "subtask_id \<Rightarrow> subtask_id list option"

definition new_dag_builder :: dag_builder where
  "new_dag_builder = \<lparr>db_subtasks = [], db_dependencies = Map.empty\<rparr>"

text \<open>The identifiers are arrays of 32 bytes; the last four are overwritten by the index.\<close>

definition compute_subtask_id :: "task_id \<Rightarrow> u32 \<Rightarrow> subtask_id" where
  "compute_subtask_id parentID index = take 28 parentID @ u32_bytes index"

fun decimal :: "nat \<Rightarrow> string" where
  "decimal n = (if n < 10 then [char_of (48 + n)] else decimal (n div 10) @ [char_of (48 + n mod 10)])"

declare decimal.simps [simp del]

definition new_subtask :: "task \<Rightarrow> u32 \<Rightarrow> string \<Rightarrow> u64 \<Rightarrow> sub_task" where
  "new_subtask t i shard cost = \<lparr>st_id = compute_subtask_id (t_id t) i, st_parent = t_id t, st_index = i,
     st_model_shard = shard, st_input_shard = None, st_miner = zero_address, st_status = task_status_pending,
     st_result = None, st_compute_cost = cost\<rparr>"

definition build_single_subtask :: "task \<Rightarrow> dag_builder \<Rightarrow> dag_builder" where
  "build_single_subtask t db =
     db\<lparr>db_subtasks := db_subtasks db @ [new_subtask t 0 ''full'' (estimate_compute_units t)]\<rparr>"

definition build_data_parallel :: "task \<Rightarrow> dag_builder \<Rightarrow> dag_builder" where
  "build_data_parallel t db =
     (let numShards = (if t_input_size t < 64 * 1024 then 2 else 4) :: nat in
      db\<lparr>db_subtasks := db_subtasks db @
        map (\<lambda>i. new_subtask t (of_nat i) ''full'' (estimate_compute_units t div of_nat numShards)) [0..<numShards]\<rparr>)"

definition children_of :: "(subtask_id \<Rightarrow> subtask_id list option) \<Rightarrow> subtask_id \<Rightarrow> subtask_id list" where
  "children_of deps i = (case deps i of None \<Rightarrow> [] | Some l \<Rightarrow> l)"

definition add_stage :: "task \<Rightarrow> nat \<Rightarrow> dag_builder \<Rightarrow> dag_builder" where
  "add_stage t i db =
     (let shard = ''layers_'' @ decimal (i * 12) @ ''_'' @ decimal ((i + 1) * 12);
          st = new_subtask t (of_nat i) shard (estimate_compute_units t div 8);
          db1 = db\<lparr>db_subtasks := db_subtasks db @ [st]\<rparr>
      in if 0 < i then
           let prevID = st_id (db_subtasks db1 ! (i - 1)) in
           db1\<lparr>db_dependencies := (db_dependencies db1)(prevID \<mapsto> children_of (db_dependencies db1) prevID @ [st_id st])\<rparr>
         else db1)"

definition build_model_parallel :: "task \<Rightarrow> dag_builder \<Rightarrow> dag_builder" where
  "build_model_parallel t db = fold (add_stage t) [0..<8] db"

definition analyze_task :: "task \<Rightarrow> dag_builder \<Rightarrow> (string, dag_builder) outcome" where
  "analyze_task t db =
     (if t_tier t = tier1_lightweight \<or> t_tier t = tier2_conversation \<or> t_tier t = tier3_inference
      then Ok (build_single_subtask t db)
      else if t_tier t = tier4_heavy then Ok (build_data_parallel t db)
      else if t_tier t = tier5_distributed then Ok (build_model_parallel t db)
      else Err (''unknown task tier: '' @ decimal (unat (t_tier t))))"

section \<open>Kahn's algorithm\<close>

type_synonym degrees = "subtask_id \<Rightarrow> int option"

definition degree_at :: "degrees \<Rightarrow> subtask_id \<Rightarrow> int" where
  "degree_at m i = (case m i of None \<Rightarrow> 0 | Some d \<Rightarrow> d)"

fun count_children :: "subtask_id list \<Rightarrow> degrees \<Rightarrow> degrees" where
  "count_children [] m = m"
| "count_children (c # cs) m = count_children cs (m(c \<mapsto> degree_at m c + 1))"

definition in_degrees ::
  "(subtask_id set \<Rightarrow> subtask_id list) \<Rightarrow> sub_task list \<Rightarrow> (subtask_id \<Rightarrow> subtask_id list option) \<Rightarrow> degrees" where
  "in_degrees ordk sts deps =
     fold (\<lambda>p. count_children (children_of deps p)) (ordk (dom deps)) (fold (\<lambda>st m. m(st_id st \<mapsto> 0)) sts Map.empty)"

definition start_queue :: "(subtask_id set \<Rightarrow> subtask_id list) \<Rightarrow> degrees \<Rightarrow> subtask_id list" where
  "start_queue ordk m = filter (\<lambda>i. degree_at m i = 0) (ordk (dom m))"

fun relax :: "subtask_id list \<Rightarrow> degrees \<Rightarrow> subtask_id list \<Rightarrow> degrees \<times> subtask_id list" where
  "relax [] m queue = (m, queue)"
| "relax (c # cs) m queue =
     (let d = degree_at m c - 1 in relax cs (m(c \<mapsto> d)) (if d = 0 then queue @ [c] else queue))"

partial_function (option) kahn_visit ::
  "(subtask_id \<Rightarrow> subtask_id list option) \<Rightarrow> degrees \<Rightarrow> subtask_id list \<Rightarrow> nat \<Rightarrow> nat option" where
  "kahn_visit deps m queue visited =
     (if queue = [] then Some visited
      else let r = relax (children_of deps (hd queue)) m (tl queue) in kahn_visit deps (fst r) (snd r) (visited + 1))"

partial_function (option) kahn_order ::
  "(subtask_id \<Rightarrow> subtask_id list option) \<Rightarrow> degrees \<Rightarrow> subtask_id list \<Rightarrow> subtask_id list \<Rightarrow> subtask_id list option" where
  "kahn_order deps m queue order =
     (if queue = [] then Some order
      else let r = relax (children_of deps (hd queue)) m (tl queue) in kahn_order deps (fst r) (snd r) (order @ [hd queue]))"

definition verify_acyclic :: "(subtask_id set \<Rightarrow> subtask_id list) \<Rightarrow> dag_builder \<Rightarrow> (string, unit) outcome option" where
  "verify_acyclic ordk db =
     (let m = in_degrees ordk (db_subtasks db) (db_dependencies db) in
      map_option (\<lambda>visited. if visited \<noteq> length (db_subtasks db)
        then Err (''circular dependency detected in task DAG: '' @ decimal visited @ '' visited, '' @
          decimal (length (db_subtasks db)) @ '' total'')
        else Ok ()) (kahn_visit (db_dependencies db) m (start_queue ordk m) 0))"

definition build_dag :: "(subtask_id set \<Rightarrow> subtask_id list) \<Rightarrow> dag_builder \<Rightarrow> (string, task_dag) outcome option" where
  "build_dag ordk db =
     (if db_subtasks db = [] then Some (Err ''no subtasks in DAG'')
      else map_option (\<lambda>r. obind r (\<lambda>_.
        Ok \<lparr>dag_subtasks = db_subtasks db, dag_dependencies = db_dependencies db\<rparr>)) (verify_acyclic ordk db))"

definition get_execution_order :: "(subtask_id set \<Rightarrow> subtask_id list) \<Rightarrow> task_dag \<Rightarrow> subtask_id list option" where
  "get_execution_order ordk d =
     (let m = in_degrees ordk (dag_subtasks d) (dag_dependencies d) in
      kahn_order (dag_dependencies d) m (start_queue ordk m) [])"

definition all_ready :: "subtask_id list \<Rightarrow> (subtask_id \<Rightarrow> subtask_id list option) \<Rightarrow> (subtask_id \<Rightarrow> bool) \<Rightarrow> subtask_id \<Rightarrow> bool" where
  "all_ready parents deps completed i =
     (\<not> list_ex (\<lambda>p. list_ex (\<lambda>child. child = i \<and> \<not> completed p) (children_of deps p)) parents)"

definition get_ready_subtasks ::
  "(subtask_id set \<Rightarrow> subtask_id list) \<Rightarrow> (subtask_id \<Rightarrow> bool) \<Rightarrow> task_dag \<Rightarrow> subtask_id list" where
  "get_ready_subtasks ordk completed d =
     map st_id (filter (\<lambda>st. \<not> completed (st_id st) \<and>
       all_ready (ordk (dom (dag_dependencies d))) (dag_dependencies d) completed (st_id st)) (dag_subtasks d))"

end
