(* ===== verification/TaskDagProps.thy ===== *)
theory TaskDagProps
  imports TaskDag "HOL-Library.List_Lexorder"
begin

text \<open>
  Kahn's algorithm of \<^verbatim>\<open>src/pkg/task/dag.go\<close> is correct: on a graph over distinct subtasks it always
  ends, it accepts exactly the acyclic graphs, and the order it computes lists each subtask after all
  its parents. The graphs that splitting a task yields are accepted, and a subtask is ready as long as
  work is left.
\<close>

definition dag_edges :: "(subtask_id \<Rightarrow> subtask_id list option) \<Rightarrow> (subtask_id \<times> subtask_id) set" where
  "dag_edges deps = {(p, c). c \<in> set (children_of deps p)}"

definition wf_graph :: "sub_task list \<Rightarrow> (subtask_id \<Rightarrow> subtask_id list option) \<Rightarrow> bool" where
  "wf_graph sts deps \<longleftrightarrow> distinct (map st_id sts) \<and> dom deps \<subseteq> st_id ` set sts \<and>
     (\<forall>p. set (children_of deps p) \<subseteq> st_id ` set sts)"

text \<open>The edges into \<open>k\<close> from parents outside \<open>done\<close>, with multiplicity.\<close>

definition pending_edges ::
  "subtask_id set \<Rightarrow> (subtask_id \<Rightarrow> subtask_id list option) \<Rightarrow> subtask_id set \<Rightarrow> subtask_id \<Rightarrow> nat" where
  "pending_edges ids deps D k = (\<Sum>p \<in> ids - D. count_list (children_of deps p) k)"

lemma count_children_degree: "degree_at (count_children cs m) k = degree_at m k + int (count_list cs k)"
  by (induction cs arbitrary: m) (auto simp: degree_at_def)

lemma count_children_dom: "dom (count_children cs m) = dom m \<union> set cs"
  by (induction cs arbitrary: m) auto

lemma fold_count_degree:
  "degree_at (fold (\<lambda>p. count_children (children_of deps p)) ps m) k =
     degree_at m k + (\<Sum>p \<leftarrow> ps. int (count_list (children_of deps p) k))"
  by (induction ps arbitrary: m) (simp_all add: count_children_degree)

lemma fold_count_dom:
  "dom (fold (\<lambda>p. count_children (children_of deps p)) ps m) = dom m \<union> (\<Union>p \<in> set ps. set (children_of deps p))"
  by (induction ps arbitrary: m) (auto simp: count_children_dom)

lemma degree_at_empty: "degree_at Map.empty k = 0"
  by (simp add: degree_at_def)

lemma edge_dom: "(p, c) \<in> dag_edges deps \<Longrightarrow> p \<in> dom deps"
  by (cases "deps p") (auto simp: dag_edges_def children_of_def)

lemma zero_degrees:
  "dom (fold (\<lambda>st m. m(st_id st \<mapsto> 0)) sts m) = dom m \<union> st_id ` set sts"
  "(\<And>k. degree_at m k = 0) \<Longrightarrow> degree_at (fold (\<lambda>st m. m(st_id st \<mapsto> 0)) sts m) k = 0"
proof -
  show "dom (fold (\<lambda>st m. m(st_id st \<mapsto> 0)) sts m) = dom m \<union> st_id ` set sts"
    by (induction sts arbitrary: m) auto
  show "degree_at (fold (\<lambda>st m. m(st_id st \<mapsto> 0)) sts m) k = 0" if "\<And>k. degree_at m k = 0" for k
    using that
  proof (induction sts arbitrary: m)
    case (Cons st sts)
    have "degree_at (m(st_id st \<mapsto> 0)) k = 0" for k using Cons.prems by (simp add: degree_at_def)
    from Cons.IH [OF this] show ?case by simp
  qed simp
qed

lemma in_degrees_correct:
  assumes "go_order ordk" "wf_graph sts deps"
  shows "dom (in_degrees ordk sts deps) = st_id ` set sts"
    and "degree_at (in_degrees ordk sts deps) k = int (pending_edges (st_id ` set sts) deps {} k)"
proof -
  have fin: "finite (dom deps)" using assms(2) finite_subset unfolding wf_graph_def by blast
  with assms(1) have o: "set (ordk (dom deps)) = dom deps" "distinct (ordk (dom deps))" by (simp_all add: go_order_def)
  have "(\<Union>p \<in> dom deps. set (children_of deps p)) \<subseteq> st_id ` set sts" using assms(2) by (auto simp: wf_graph_def)
  then show "dom (in_degrees ordk sts deps) = st_id ` set sts"
    by (auto simp: in_degrees_def fold_count_dom zero_degrees(1) o(1))
  have "(\<Sum>p \<leftarrow> ordk (dom deps). int (count_list (children_of deps p) k)) = (\<Sum>p \<in> dom deps. int (count_list (children_of deps p) k))"
    using sum.distinct_set_conv_list [OF o(2), of "\<lambda>p. int (count_list (children_of deps p) k)"] o(1) by simp
  also have "\<dots> = (\<Sum>p \<in> st_id ` set sts. int (count_list (children_of deps p) k))"
    by (rule sum.mono_neutral_left) (use assms(2) in \<open>auto simp: wf_graph_def children_of_def domIff\<close>)
  finally show "degree_at (in_degrees ordk sts deps) k = int (pending_edges (st_id ` set sts) deps {} k)"
    by (simp add: in_degrees_def fold_count_degree zero_degrees(2) degree_at_empty pending_edges_def)
qed

section \<open>One step of the loop\<close>

lemma relax_dom: "dom (fst (relax cs m q)) = dom m \<union> set cs"
  by (induction cs arbitrary: m q) (simp_all add: Let_def)

lemma relax_degree: "degree_at (fst (relax cs m q)) k = degree_at m k - int (count_list cs k)"
  by (induction cs arbitrary: m q) (auto simp: Let_def degree_at_def)

lemma relax_queue:
  "\<exists>new. snd (relax cs m q) = q @ new \<and> distinct new \<and> set new = {k. 1 \<le> degree_at m k \<and> degree_at m k \<le> int (count_list cs k)}"
proof (induction cs arbitrary: m q)
  case (Cons c cs)
  let ?d = "degree_at m c - 1"
  let ?m = "m(c \<mapsto> ?d)"
  let ?q = "if ?d = 0 then q @ [c] else q"
  obtain new where new: "snd (relax cs ?m ?q) = ?q @ new" "distinct new"
    "set new = {k. 1 \<le> degree_at ?m k \<and> degree_at ?m k \<le> int (count_list cs k)}"
    using Cons.IH by blast
  have deg: "degree_at ?m k = (if k = c then ?d else degree_at m k)" for k by (simp add: degree_at_def)
  let ?new = "(if ?d = 0 then [c] else []) @ new"
  have "distinct ?new" using new(2,3) deg by auto
  moreover have "set ?new = {k. 1 \<le> degree_at m k \<and> degree_at m k \<le> int (count_list (c # cs) k)}"
    using new(3) deg by (auto split: if_splits)
  moreover have "snd (relax (c # cs) m q) = q @ ?new" using new(1) by (simp add: Let_def)
  ultimately show ?case by blast
qed auto

definition kahn_inv ::
  "subtask_id set \<Rightarrow> (subtask_id \<Rightarrow> subtask_id list option) \<Rightarrow> degrees \<Rightarrow> subtask_id list \<Rightarrow> subtask_id list \<Rightarrow> bool" where
  "kahn_inv ids deps m queue order \<longleftrightarrow> dom m = ids \<and> distinct (order @ queue) \<and> set (order @ queue) \<subseteq> ids \<and>
     (\<forall>k. degree_at m k = int (pending_edges ids deps (set order) k)) \<and>
     (\<forall>k \<in> ids. k \<in> set (order @ queue) \<longleftrightarrow> pending_edges ids deps (set order) k = 0) \<and>
     (\<forall>xs c ys. order = xs @ c # ys \<longrightarrow> (\<forall>p. (p, c) \<in> dag_edges deps \<longrightarrow> p \<in> set xs))"

lemma pending_done:
  assumes "finite ids" "p \<in> ids - D"
  shows "pending_edges ids deps D k = count_list (children_of deps p) k + pending_edges ids deps (insert p D) k"
proof -
  have "ids - insert p D = (ids - D) - {p}" by blast
  then show ?thesis unfolding pending_edges_def using assms by (simp add: sum.remove)
qed

lemma pending_zero:
  assumes "finite ids" "pending_edges ids deps D k = 0" "(p, k) \<in> dag_edges deps" "p \<in> ids"
  shows "p \<in> D"
proof (rule ccontr)
  assume "p \<notin> D"
  with assms have "count_list (children_of deps p) k = 0" by (simp add: pending_edges_def)
  with assms(3) show False by (simp add: dag_edges_def count_list_0_iff)
qed

lemma kahn_inv_step:
  assumes fin: "finite ids" and inv: "kahn_inv ids deps m queue order" and q: "queue \<noteq> []"
    and deps: "dom deps \<subseteq> ids" "\<And>p. set (children_of deps p) \<subseteq> ids"
  shows "kahn_inv ids deps (fst (relax (children_of deps (hd queue)) m (tl queue)))
    (snd (relax (children_of deps (hd queue)) m (tl queue))) (order @ [hd queue])"
proof -
  let ?p = "hd queue" and ?cs = "children_of deps (hd queue)"
  from q have queue: "queue = ?p # tl queue" by simp
  from inv have i: "dom m = ids" "distinct (order @ queue)" "set (order @ queue) \<subseteq> ids"
    "\<And>k. degree_at m k = int (pending_edges ids deps (set order) k)"
    "\<And>k. k \<in> ids \<Longrightarrow> k \<in> set (order @ queue) \<longleftrightarrow> pending_edges ids deps (set order) k = 0"
    "\<And>xs c ys p. order = xs @ c # ys \<Longrightarrow> (p, c) \<in> dag_edges deps \<Longrightarrow> p \<in> set xs"
    by (auto simp: kahn_inv_def)
  have dq: "distinct (order @ ?p # tl queue)" "set (order @ ?p # tl queue) \<subseteq> ids"
    using i(2,3) queue by (metis, metis)
  then have p: "?p \<in> ids - set order" by auto
  have pend: "pending_edges ids deps (set order) k = count_list ?cs k + pending_edges ids deps (set (order @ [?p])) k" for k
    using pending_done [OF fin p] by simp
  obtain new where new: "snd (relax ?cs m (tl queue)) = tl queue @ new" "distinct new"
    "set new = {k. 1 \<le> degree_at m k \<and> degree_at m k \<le> int (count_list ?cs k)}"
    using relax_queue by blast
  have new': "k \<in> set new \<longleftrightarrow> 0 < pending_edges ids deps (set order) k \<and> pending_edges ids deps (set (order @ [?p])) k = 0" for k
    using new(3) i(4) [of k] pend [of k] by auto
  have new_ids: "set new \<subseteq> ids"
  proof
    fix k assume "k \<in> set new"
    then have "count_list ?cs k \<noteq> 0" using new' pend [of k] by auto
    then show "k \<in> ids" using deps(2) [of ?p] by (auto simp: count_list_0_iff)
  qed
  have "set (order @ ?p # tl queue) = set (order @ queue)" using queue by metis
  then have oq: "set (order @ [?p]) \<union> set (tl queue) = set (order @ queue)" "distinct ((order @ [?p]) @ tl queue)"
    using dq(1) by auto
  show ?thesis unfolding kahn_inv_def
  proof (intro conjI allI ballI impI)
    show "dom (fst (relax ?cs m (tl queue))) = ids" using relax_dom [of ?cs m] deps(2) [of ?p] i(1) by auto
    have "set new \<inter> set (order @ queue) = {}" using new' i(5) new_ids by fastforce
    with oq new(2) show "distinct ((order @ [?p]) @ snd (relax ?cs m (tl queue)))"
      unfolding new(1) by (auto simp: disjoint_iff)
    show "set ((order @ [?p]) @ snd (relax ?cs m (tl queue))) \<subseteq> ids"
      unfolding new(1) using new_ids i(3) oq(1) by auto
    show "degree_at (fst (relax ?cs m (tl queue))) k = int (pending_edges ids deps (set (order @ [?p])) k)" for k
      using relax_degree [of ?cs m "tl queue" k] i(4) [of k] pend [of k] by simp
    show "k \<in> set ((order @ [?p]) @ snd (relax ?cs m (tl queue))) \<longleftrightarrow> pending_edges ids deps (set (order @ [?p])) k = 0"
      if "k \<in> ids" for k
    proof -
      have "k \<in> set ((order @ [?p]) @ snd (relax ?cs m (tl queue))) \<longleftrightarrow> k \<in> set (order @ queue) \<or> k \<in> set new"
        unfolding new(1) using oq(1) by auto
      also have "\<dots> \<longleftrightarrow> pending_edges ids deps (set (order @ [?p])) k = 0"
        using i(5) [OF that] new' [of k] pend [of k] by auto
      finally show ?thesis .
    qed
    show "p \<in> set xs" if o: "order @ [?p] = xs @ c # ys" and e: "(p, c) \<in> dag_edges deps" for xs c ys p
    proof (cases ys rule: rev_cases)
      case Nil
      with o have c: "xs = order" "c = ?p" by auto
      have "?p \<in> set (order @ queue)" "?p \<in> ids" using oq(1) p by auto
      then have "pending_edges ids deps (set order) c = 0" using i(5) c(2) by simp
      moreover have "p \<in> ids" using edge_dom [OF e] deps(1) by blast
      ultimately show ?thesis using pending_zero [OF fin _ e] c(1) by blast
    next
      case (snoc zs z)
      with o have "order = xs @ c # zs" by auto
      from i(6) [OF this e] show ?thesis .
    qed
  qed
qed

section \<open>The whole loop\<close>

lemma kahn_run:
  assumes fin: "finite ids" and deps: "dom deps \<subseteq> ids" "\<And>p. set (children_of deps p) \<subseteq> ids"
  shows "kahn_inv ids deps m queue order \<Longrightarrow>
    \<exists>m' order'. kahn_inv ids deps m' [] order' \<and> kahn_order deps m queue order = Some order' \<and>
      length order \<le> length order' \<and> kahn_visit deps m queue v = Some (v + (length order' - length order))"
proof (induction "card ids - length order" arbitrary: m queue order v rule: less_induct)
  case less
  show ?case
  proof (cases "queue = []")
    case True
    with less.prems show ?thesis by (subst kahn_order.simps, subst kahn_visit.simps) auto
  next
    case False
    let ?r = "relax (children_of deps (hd queue)) m (tl queue)"
    from kahn_inv_step [OF fin less.prems False deps] have inv: "kahn_inv ids deps (fst ?r) (snd ?r) (order @ [hd queue])" .
    from inv have "distinct (order @ [hd queue])" "set (order @ [hd queue]) \<subseteq> ids"
      unfolding kahn_inv_def distinct_append set_append by blast+
    then have "length (order @ [hd queue]) \<le> card ids" using fin by (metis card_mono distinct_card)
    then have "card ids - length (order @ [hd queue]) < card ids - length order" by simp
    from less.hyps [OF this inv, of "v + 1"] obtain m' order' where r: "kahn_inv ids deps m' [] order'"
      "kahn_order deps (fst ?r) (snd ?r) (order @ [hd queue]) = Some order'" "length (order @ [hd queue]) \<le> length order'"
      "kahn_visit deps (fst ?r) (snd ?r) (v + 1) = Some (v + 1 + (length order' - length (order @ [hd queue])))"
      by blast
    have "kahn_order deps m queue order = Some order'" using False r(2) by (subst kahn_order.simps) (simp add: Let_def)
    moreover have "kahn_visit deps m queue v = Some (v + (length order' - length order))"
      using False r(3,4) by (subst kahn_visit.simps) (simp add: Let_def)
    ultimately show ?thesis using r(1,3) by auto
  qed
qed

lemma kahn_end:
  assumes fin: "finite ids" and deps: "dom deps \<subseteq> ids" "\<And>p. set (children_of deps p) \<subseteq> ids"
    and inv: "kahn_inv ids deps m [] order"
  shows "acyclic (dag_edges deps) \<longleftrightarrow> set order = ids"
proof
  let ?E = "dag_edges deps"
  from inv have i: "set order \<subseteq> ids" "\<And>k. k \<in> ids \<Longrightarrow> k \<in> set order \<longleftrightarrow> pending_edges ids deps (set order) k = 0"
    "\<And>xs c ys p. order = xs @ c # ys \<Longrightarrow> (p, c) \<in> ?E \<Longrightarrow> p \<in> set xs"
    by (auto simp: kahn_inv_def)
  have sub: "?E \<subseteq> ids \<times> ids" using edge_dom deps by (fastforce simp: dag_edges_def)
  show "set order = ids" if "acyclic ?E"
  proof (rule ccontr)
    assume "set order \<noteq> ids"
    with i(1) obtain x where x: "x \<in> ids - set order" by blast
    have "wf ?E" using that fin sub by (metis finite_SigmaI finite_acyclic_wf finite_subset)
    from wfE_min [OF this x] obtain z where z: "z \<in> ids - set order" "\<And>y. (y, z) \<in> ?E \<Longrightarrow> y \<notin> ids - set order"
      by blast
    then have "count_list (children_of deps p) z = 0" if "p \<in> ids - set order" for p
      using that by (auto simp: dag_edges_def count_list_0_iff)
    then have "pending_edges ids deps (set order) z = 0" by (simp add: pending_edges_def)
    with i(2) z(1) show False by blast
  qed
  show "acyclic ?E" if "set order = ids"
  proof -
    have acc: "order = xs @ ys \<Longrightarrow> set xs \<subseteq> Wellfounded.acc ?E" for xs ys
    proof (induction xs arbitrary: ys rule: rev_induct)
      case (snoc c xs)
      have o: "order = xs @ c # ys" using snoc.prems by simp
      note xs = snoc.IH [OF o]
      have "c \<in> Wellfounded.acc ?E"
      proof (rule accI)
        show "p \<in> Wellfounded.acc ?E" if "(p, c) \<in> ?E" for p using i(3) [OF o that] xs by blast
      qed
      with xs show ?case by simp
    qed simp
    have "c \<in> Wellfounded.acc ?E" for c
    proof (cases "c \<in> ids")
      case True
      with acc [of order "[]"] that show ?thesis by auto
    next
      case False
      show ?thesis
      proof (rule accI)
        show "p \<in> Wellfounded.acc ?E" if "(p, c) \<in> ?E" for p using False sub that by blast
      qed
    qed
    then show ?thesis by (simp add: acc_wfI wf_acyclic)
  qed
qed

lemma kahn_start:
  assumes "go_order ordk" "wf_graph sts deps"
  shows "kahn_inv (st_id ` set sts) deps (in_degrees ordk sts deps) (start_queue ordk (in_degrees ordk sts deps)) []"
proof -
  note d = in_degrees_correct [OF assms]
  have "set (ordk (st_id ` set sts)) = st_id ` set sts" "distinct (ordk (st_id ` set sts))"
    using assms(1) by (simp_all add: go_order_def)
  then show ?thesis by (auto simp: kahn_inv_def start_queue_def d)
qed

lemma kahn_total:
  assumes "go_order ordk" "wf_graph sts deps"
  obtains m order where "kahn_inv (st_id ` set sts) deps m [] order"
    "kahn_order deps (in_degrees ordk sts deps) (start_queue ordk (in_degrees ordk sts deps)) [] = Some order"
    "kahn_visit deps (in_degrees ordk sts deps) (start_queue ordk (in_degrees ordk sts deps)) 0 = Some (length order)"
    "acyclic (dag_edges deps) \<longleftrightarrow> set order = st_id ` set sts"
proof -
  have fin: "finite (st_id ` set sts)" by simp
  have deps: "dom deps \<subseteq> st_id ` set sts" "\<And>p. set (children_of deps p) \<subseteq> st_id ` set sts"
    using assms(2) by (auto simp: wf_graph_def)
  from kahn_run [OF fin deps kahn_start [OF assms], of 0] that kahn_end [OF fin deps] show thesis by auto
qed

lemma verify_exact:
  assumes "go_order ordk" "wf_graph (db_subtasks db) (db_dependencies db)"
  shows "\<exists>r. verify_acyclic ordk db = Some r \<and> (r = Ok () \<longleftrightarrow> acyclic (dag_edges (db_dependencies db)))"
proof -
  obtain m order where k: "kahn_inv (st_id ` set (db_subtasks db)) (db_dependencies db) m [] order"
    "kahn_visit (db_dependencies db) (in_degrees ordk (db_subtasks db) (db_dependencies db))
       (start_queue ordk (in_degrees ordk (db_subtasks db) (db_dependencies db))) 0 = Some (length order)"
    "acyclic (dag_edges (db_dependencies db)) \<longleftrightarrow> set order = st_id ` set (db_subtasks db)"
    by (rule kahn_total [OF assms])
  have "distinct order" "set order \<subseteq> st_id ` set (db_subtasks db)" using k(1) by (auto simp: kahn_inv_def)
  moreover have "card (st_id ` set (db_subtasks db)) = length (db_subtasks db)"
    using assms(2) distinct_card [of "map st_id (db_subtasks db)"] by (simp add: wf_graph_def)
  ultimately have "length order = length (db_subtasks db) \<longleftrightarrow> set order = st_id ` set (db_subtasks db)"
    by (metis List.finite_set card_subset_eq distinct_card finite_imageI)
  with k(2,3) show ?thesis by (auto simp: verify_acyclic_def Let_def)
qed

section \<open>Splitting a task\<close>

definition stage_id :: "task \<Rightarrow> nat \<Rightarrow> subtask_id" where
  "stage_id t i = compute_subtask_id (t_id t) (of_nat i)"

definition stage_index :: "subtask_id \<Rightarrow> nat" where
  "stage_index s = be_nat (drop 28 s)"

lemma stage_index_id: "length (t_id t) = 32 \<Longrightarrow> i < 8 \<Longrightarrow> stage_index (stage_id t i) = i"
  by (simp add: stage_index_def stage_id_def compute_subtask_id_def u32_bytes_def unat_of_nat be_nat_be_bytes)

definition pipeline :: "task \<Rightarrow> nat \<Rightarrow> dag_builder \<Rightarrow> bool" where
  "pipeline t n db \<longleftrightarrow> map st_id (db_subtasks db) = map (stage_id t) [0..<n] \<and>
     (\<forall>p. children_of (db_dependencies db) p = (if p \<in> stage_id t ` {i. Suc i < n} then [stage_id t (Suc (stage_index p))] else [])) \<and>
     dom (db_dependencies db) = stage_id t ` {i. Suc i < n}"

lemma stage_image:
  assumes "length (t_id t) = 32" "i < 8" "n < 8"
  shows "stage_id t i \<in> stage_id t ` {j. Suc j \<le> n} \<longleftrightarrow> Suc i \<le> n"
proof
  assume "stage_id t i \<in> stage_id t ` {j. Suc j \<le> n}"
  then obtain j where j: "Suc j \<le> n" "stage_id t i = stage_id t j" by blast
  have j8: "j < 8" using j(1) assms(3) by linarith
  have "stage_index (stage_id t i) = stage_index (stage_id t j)" by (simp only: j(2))
  then have "i = j" unfolding stage_index_id [OF assms(1,2)] stage_index_id [OF assms(1) j8] .
  then show "Suc i \<le> n" using j(1) by (simp only:)
qed auto

lemma add_stage_pipeline:
  assumes "length (t_id t) = 32" "n < 8" "pipeline t n db"
  shows "pipeline t (Suc n) (add_stage t n db)"
proof (cases n)
  case 0
  with assms(3) show ?thesis by (auto simp: pipeline_def add_stage_def Let_def new_subtask_def stage_id_def)
next
  case (Suc k)
  from assms(3) have sts: "map st_id (db_subtasks db) = map (stage_id t) [0..<n]"
    and ch: "\<And>p. children_of (db_dependencies db) p = (if p \<in> stage_id t ` {i. Suc i < n} then [stage_id t (Suc (stage_index p))] else [])"
    and d: "dom (db_dependencies db) = stage_id t ` {i. Suc i < n}" by (auto simp: pipeline_def)
  have len: "length (db_subtasks db) = n" using arg_cong [OF sts, of length] by simp
  have prev: "st_id ((db_subtasks db @ xs) ! (n - 1)) = stage_id t k" for xs
    using arg_cong [OF sts, of "\<lambda>l. l ! k"] len Suc by (simp add: nth_append)
  have nk: "stage_id t k \<notin> stage_id t ` {i. Suc i < n}"
    using stage_image [of t k k] assms(1,2) Suc by (simp add: less_Suc_eq_le)
  have img: "stage_id t ` {i. Suc i < Suc n} = insert (stage_id t k) (stage_id t ` {i. Suc i < n})"
    using Suc by (auto simp: image_iff less_Suc_eq)
  have none: "db_dependencies db (stage_id t k) = None" using nk d by (metis domIff)
  let ?db = "add_stage t n db"
  have deps: "db_dependencies ?db = (db_dependencies db)(stage_id t k \<mapsto> [stage_id t n])"
    using none Suc prev by (simp add: add_stage_def Let_def new_subtask_def stage_id_def children_of_def)
  have "map st_id (db_subtasks ?db) = map (stage_id t) [0..<Suc n]"
    using sts Suc by (simp add: add_stage_def Let_def new_subtask_def stage_id_def)
  moreover have "children_of (db_dependencies ?db) p =
      (if p \<in> stage_id t ` {i. Suc i < Suc n} then [stage_id t (Suc (stage_index p))] else [])" for p
    using ch [of p] nk Suc stage_index_id [OF assms(1), of k] assms(2)
    unfolding deps img by (auto simp: children_of_def)
  moreover have "dom (db_dependencies ?db) = stage_id t ` {i. Suc i < Suc n}"
    unfolding deps img using d by simp
  ultimately show ?thesis unfolding pipeline_def by blast
qed

lemma model_parallel_pipeline:
  assumes "length (t_id t) = 32"
  shows "pipeline t 8 (build_model_parallel t new_dag_builder)"
proof -
  have "n \<le> 8 \<Longrightarrow> pipeline t n (fold (add_stage t) [0..<n] new_dag_builder)" for n
  proof (induction n)
    case (Suc n)
    then have "pipeline t n (fold (add_stage t) [0..<n] new_dag_builder)" "n < 8" by simp_all
    from add_stage_pipeline [OF assms this(2,1)] show ?case by simp
  qed (simp add: pipeline_def new_dag_builder_def children_of_def)
  from this [of 8] show ?thesis by (simp add: build_model_parallel_def)
qed

text \<open>A list over \<open>{0..<n}\<close> in which every number follows its predecessor is in order.\<close>

lemma chain_order:
  assumes "distinct L" "set L = {0..<n}" "\<And>xs i ys. L = xs @ Suc i # ys \<Longrightarrow> i \<in> set xs"
  shows "L = [0..<n]"
proof -
  have len: "length L = n" using assms(1,2) distinct_card by fastforce
  have "k \<le> n \<Longrightarrow> take k L = [0..<k]" for k
  proof (induction k)
    case (Suc k)
    then have k: "take k L = [0..<k]" "k < length L" using len by simp_all
    have split: "L = take k L @ L ! k # drop (Suc k) L" by (rule id_take_nth_drop [OF k(2)])
    then have "L ! k \<notin> {0..<k}" using assms(1) k(1)
      by (metis atLeastLessThan_upt distinct_append disjoint_iff list.set_intros(1))
    moreover have "L ! k \<le> k"
    proof (cases "L ! k")
      case (Suc i)
      with assms(3) [of "take k L" i "drop (Suc k) L"] split k(1) show ?thesis by simp
    qed simp
    ultimately have "L ! k = k" by simp
    with k show ?case by (simp add: take_Suc_conv_app_nth)
  qed simp
  from this [of n] len show ?thesis by simp
qed

lemma pipeline_wf:
  assumes "length (t_id t) = 32" "pipeline t 8 db"
  shows "wf_graph (db_subtasks db) (db_dependencies db)" "acyclic (dag_edges (db_dependencies db))"
    "st_id ` set (db_subtasks db) = stage_id t ` {0..<8}"
proof -
  from assms(2) have sts: "map st_id (db_subtasks db) = map (stage_id t) [0..<8]"
    and ch: "\<And>p. children_of (db_dependencies db) p = (if p \<in> stage_id t ` {i. Suc i < 8} then [stage_id t (Suc (stage_index p))] else [])"
    and d: "dom (db_dependencies db) = stage_id t ` {i. Suc i < 8}" by (auto simp: pipeline_def)
  have "set (map st_id (db_subtasks db)) = set (map (stage_id t) [0..<8])" using sts by (rule arg_cong)
  then show ids: "st_id ` set (db_subtasks db) = stage_id t ` {0..<8}" by simp
  have "inj_on (stage_id t) {0..<8}"
    by (rule inj_on_inverseI [of _ stage_index]) (simp add: stage_index_id [OF assms(1)])
  then have "distinct (map st_id (db_subtasks db))" unfolding sts by (simp add: distinct_map)
  moreover have "set (children_of (db_dependencies db) p) \<subseteq> stage_id t ` {0..<8}" for p
    unfolding ch by (auto simp: stage_index_id [OF assms(1)])
  ultimately show "wf_graph (db_subtasks db) (db_dependencies db)"
    unfolding wf_graph_def ids using d by auto
  show "acyclic (dag_edges (db_dependencies db))"
  proof (rule acyclic_subset)
    show "dag_edges (db_dependencies db) \<subseteq> measure stage_index"
      unfolding dag_edges_def ch by (auto simp: stage_index_id [OF assms(1)] split: if_splits)
    show "acyclic (measure stage_index)" by (simp add: wf_acyclic)
  qed
qed

lemma no_edges:
  assumes "db_dependencies db = Map.empty" "distinct (map st_id (db_subtasks db))"
  shows "wf_graph (db_subtasks db) (db_dependencies db)" "acyclic (dag_edges (db_dependencies db))"
  using assms by (auto simp: wf_graph_def dag_edges_def children_of_def acyclic_def)

lemma pipeline_order:
  assumes "length (t_id t) = 32" "pipeline t 8 db" "go_order ordk"
  shows "get_execution_order ordk \<lparr>dag_subtasks = db_subtasks db, dag_dependencies = db_dependencies db\<rparr> = Some (map (stage_id t) [0..<8])"
proof -
  note wf = pipeline_wf [OF assms(1,2)]
  obtain m order where k: "kahn_inv (st_id ` set (db_subtasks db)) (db_dependencies db) m [] order"
    "kahn_order (db_dependencies db) (in_degrees ordk (db_subtasks db) (db_dependencies db))
       (start_queue ordk (in_degrees ordk (db_subtasks db) (db_dependencies db))) [] = Some order"
    "acyclic (dag_edges (db_dependencies db)) \<longleftrightarrow> set order = st_id ` set (db_subtasks db)"
    by (rule kahn_total [OF assms(3) wf(1)])
  with wf have order: "set order = stage_id t ` {0..<8}" "distinct order"
    "\<And>xs c ys p. order = xs @ c # ys \<Longrightarrow> (p, c) \<in> dag_edges (db_dependencies db) \<Longrightarrow> p \<in> set xs"
    by (auto simp: kahn_inv_def)
  have inv: "stage_id t (stage_index c) = c" "stage_index c < 8" if "c \<in> set order" for c
    using that order(1) by (auto simp: stage_index_id [OF assms(1)])
  have "map stage_index order = [0..<8]"
  proof (rule chain_order)
    show "distinct (map stage_index order)"
      unfolding distinct_map using order(2) inv(1) by (auto intro: inj_on_inverseI)
    have "(\<lambda>i. stage_index (stage_id t i)) ` {0..<8} = (\<lambda>i. i) ` {0..<8}"
      by (rule image_cong) (simp_all add: stage_index_id [OF assms(1)])
    then show "set (map stage_index order) = {0..<8}" by (simp add: order(1) image_image)
    show "i \<in> set xs" if e: "map stage_index order = xs @ Suc i # ys" for xs i ys
    proof -
      from e obtain us c vs where o: "order = us @ c # vs" "map stage_index us = xs" "stage_index c = Suc i"
        by (auto simp: map_eq_append_conv Cons_eq_map_conv)
      from inv [of c] o have c: "c = stage_id t (Suc i)" "Suc i < 8" by auto
      then have "(stage_id t i, c) \<in> dag_edges (db_dependencies db)"
        using assms(2) stage_index_id [OF assms(1), of i] by (auto simp: pipeline_def dag_edges_def)
      from order(3) [OF o(1) this] o(2) c(2) show ?thesis
        by (metis Suc_lessD image_eqI list.set_map stage_index_id [OF assms(1)])
    qed
  qed
  then have "map (stage_id t) [0..<8] = map (\<lambda>c. stage_id t (stage_index c)) order"
    by (metis (no_types, lifting) comp_apply map_eq_conv map_map)
  also have "\<dots> = order" using inv(1) by (simp add: map_idI)
  finally show ?thesis using k(2) by (simp add: get_execution_order_def Let_def)
qed

lemma build_dag_accepts:
  assumes "go_order ordk" "wf_graph (db_subtasks db) (db_dependencies db)" "acyclic (dag_edges (db_dependencies db))"
    "db_subtasks db \<noteq> []"
  shows "build_dag ordk db = Some (Ok \<lparr>dag_subtasks = db_subtasks db, dag_dependencies = db_dependencies db\<rparr>)"
proof -
  from verify_exact [OF assms(1,2)] assms(3) have "verify_acyclic ordk db = Some (Ok ())" by auto
  with assms(4) show ?thesis by (simp add: build_dag_def)
qed

section \<open>Properties\<close>

text \<open>
  C5: the cycle check is exact and always ends. On distinct subtasks with dependencies among them,
  \<open>verifyAcyclic\<close> terminates and accepts the graph if and only if it has no cycle.
\<close>

theorem verify_acyclic_exact:
  assumes "go_order ordk" "wf_graph (db_subtasks db) (db_dependencies db)"
  shows "\<exists>r. verify_acyclic ordk db = Some r \<and> (r = Ok () \<longleftrightarrow> acyclic (dag_edges (db_dependencies db)))"
  using assms by (rule verify_exact)

text \<open>
  C6: the execution order is topological. \<open>GetExecutionOrder\<close> terminates with distinct subtasks, each
  after all its parents; it lists every subtask if and only if the graph has no cycle.
\<close>

theorem execution_order_topological:
  assumes "go_order ordk" "wf_graph (dag_subtasks d) (dag_dependencies d)"
  shows "\<exists>order. get_execution_order ordk d = Some order \<and> distinct order \<and> set order \<subseteq> st_id ` set (dag_subtasks d) \<and>
    (acyclic (dag_edges (dag_dependencies d)) \<longleftrightarrow> set order = st_id ` set (dag_subtasks d)) \<and>
    (\<forall>xs c ys p. order = xs @ c # ys \<longrightarrow> c \<in> set (children_of (dag_dependencies d) p) \<longrightarrow> p \<in> set xs)"
proof -
  obtain m order where k: "kahn_inv (st_id ` set (dag_subtasks d)) (dag_dependencies d) m [] order"
    "kahn_order (dag_dependencies d) (in_degrees ordk (dag_subtasks d) (dag_dependencies d))
       (start_queue ordk (in_degrees ordk (dag_subtasks d) (dag_dependencies d))) [] = Some order"
    "acyclic (dag_edges (dag_dependencies d)) \<longleftrightarrow> set order = st_id ` set (dag_subtasks d)"
    by (rule kahn_total [OF assms])
  then show ?thesis
    by (intro exI [of _ order]) (simp add: get_execution_order_def Let_def kahn_inv_def dag_edges_def)
qed

text \<open>
  C36: work never gets stuck. In an accepted graph, a subtask is ready if and only if it is not completed
  and all its parents are, and as long as one subtask is not completed, some subtask is ready.
\<close>

theorem ready_progress:
  assumes "go_order ordk" "wf_graph (db_subtasks db) (db_dependencies db)" "build_dag ordk db = Some (Ok d)"
  shows "(\<forall>i. i \<in> set (get_ready_subtasks ordk completed d) \<longleftrightarrow> i \<in> st_id ` set (db_subtasks db) \<and> \<not> completed i \<and>
      (\<forall>p. i \<in> set (children_of (db_dependencies db) p) \<longrightarrow> completed p)) \<and>
    ((\<forall>i \<in> st_id ` set (db_subtasks db). completed i) \<or> get_ready_subtasks ordk completed d \<noteq> [])"
proof -
  let ?ids = "st_id ` set (db_subtasks db)" and ?E = "dag_edges (db_dependencies db)"
  from verify_exact [OF assms(1,2)] obtain r where
    r: "verify_acyclic ordk db = Some r" "r = Ok () \<longleftrightarrow> acyclic ?E" by blast
  with assms(3) have d: "d = \<lparr>dag_subtasks = db_subtasks db, dag_dependencies = db_dependencies db\<rparr>" "r = Ok ()"
    by (auto simp: build_dag_def obind_Ok_iff split: if_splits)
  have sub: "?E \<subseteq> ?ids \<times> ?ids" using edge_dom assms(2) by (fastforce simp: dag_edges_def wf_graph_def)
  have fin: "finite (dom (db_dependencies db))" using assms(2) finite_subset unfolding wf_graph_def by blast
  have ready: "i \<in> set (get_ready_subtasks ordk completed d) \<longleftrightarrow> i \<in> ?ids \<and> \<not> completed i \<and>
      (\<forall>p. i \<in> set (children_of (db_dependencies db) p) \<longrightarrow> completed p)" for i
  proof -
    have "set (ordk (dom (db_dependencies db))) = dom (db_dependencies db)" using assms(1) fin by (simp add: go_order_def)
    moreover have "p \<in> dom (db_dependencies db)" if "i \<in> set (children_of (db_dependencies db) p)" for p
      using edge_dom that by (simp add: dag_edges_def)
    ultimately have "all_ready (ordk (dom (db_dependencies db))) (db_dependencies db) completed i \<longleftrightarrow>
        (\<forall>p. i \<in> set (children_of (db_dependencies db) p) \<longrightarrow> completed p)"
      by (auto simp: all_ready_def list_ex_iff)
    then show ?thesis by (auto simp: get_ready_subtasks_def d(1))
  qed
  have "\<exists>i. i \<in> set (get_ready_subtasks ordk completed d)" if x: "x \<in> ?ids" "\<not> completed x" for x
  proof -
    have "wf ?E" using r(2) d(2) sub by (metis List.finite_set finite_SigmaI finite_acyclic_wf finite_imageI finite_subset)
    then obtain z where "z \<in> {i \<in> ?ids. \<not> completed i}" "\<And>y. (y, z) \<in> ?E \<Longrightarrow> y \<notin> {i \<in> ?ids. \<not> completed i}"
      using x by (metis (no_types, lifting) mem_Collect_eq wfE_min)
    with sub have "z \<in> ?ids \<and> \<not> completed z \<and> (\<forall>p. z \<in> set (children_of (db_dependencies db) p) \<longrightarrow> completed p)"
      unfolding dag_edges_def by blast
    with ready show ?thesis by blast
  qed
  with ready show ?thesis by (metis empty_iff empty_set)
qed

text \<open>
  Every task of a known tier splits into a graph that is accepted. With a fresh builder, AnalyzeTask
  and Build succeed whatever order the maps are iterated in; a task of tier 4 gives independent
  subtasks, and the stages of a task of tier 5 are executed in the order of their layers.
\<close>

theorem analyzed_task_builds:
  assumes "go_order ordk" "length (t_id t) = 32" "1 \<le> t_tier t" "t_tier t \<le> 5"
  shows "\<exists>db d. analyze_task t new_dag_builder = Ok db \<and> build_dag ordk db = Some (Ok d) \<and>
    map st_id (dag_subtasks d) = map (stage_id t)
      [0..<if t_tier t = tier5_distributed then 8 else if t_tier t = tier4_heavy then (if t_input_size t < 65536 then 2 else 4) else 1] \<and>
    (if t_tier t = tier5_distributed then get_execution_order ordk d = Some (map (stage_id t) [0..<8])
     else dag_dependencies d = Map.empty)"
proof -
  have inj: "distinct (map (stage_id t) [0..<n])" if "n \<le> 8" for n
    unfolding distinct_map by (rule conjI, simp, rule inj_on_inverseI [of _ stage_index])
      (use that in \<open>simp add: stage_index_id [OF assms(2)]\<close>)
  show ?thesis
  proof (cases "t_tier t = tier5_distributed")
    case True
    let ?db = "build_model_parallel t new_dag_builder"
    have p: "pipeline t 8 ?db" by (rule model_parallel_pipeline [OF assms(2)])
    note wf = pipeline_wf [OF assms(2) p]
    have m: "map st_id (db_subtasks ?db) = map (stage_id t) [0..<8]" using p by (simp add: pipeline_def)
    then have "db_subtasks ?db \<noteq> []" by (metis Nil_is_map_conv upt_eq_Nil_conv zero_neq_numeral less_numeral_simps(3) leD zero_less_numeral)
    from build_dag_accepts [OF assms(1) wf(1,2) this] pipeline_order [OF assms(2) p assms(1)] True m
    show ?thesis by (simp add: analyze_task_def tier_defs)
  next
    case False
    let ?n = "if t_tier t = tier4_heavy then (if t_input_size t < 65536 then 2 else 4) else 1 :: nat"
    have "unat (t_tier t) \<in> {1, 2, 3, 4, 5}" using assms(3,4) unfolding word_le_nat_alt by auto
    then have tiers: "t_tier t \<in> {tier1_lightweight, tier2_conversation, tier3_inference, tier4_heavy}"
      using False unfolding tier_defs by (auto simp: word_unat_eq_iff)
    then have "\<exists>db. analyze_task t new_dag_builder = Ok db \<and> map st_id (db_subtasks db) = map (stage_id t) [0..<?n] \<and>
        db_dependencies db = Map.empty"
      by (auto simp: analyze_task_def build_single_subtask_def build_data_parallel_def new_dag_builder_def new_subtask_def
          stage_id_def tier_defs Let_def)
    then obtain db where db: "analyze_task t new_dag_builder = Ok db" "map st_id (db_subtasks db) = map (stage_id t) [0..<?n]"
      "db_dependencies db = Map.empty" by blast
    have "distinct (map st_id (db_subtasks db))" unfolding db(2) by (rule inj) simp
    from no_edges [OF db(3) this] have wf: "wf_graph (db_subtasks db) (db_dependencies db)" "acyclic (dag_edges (db_dependencies db))" .
    have "db_subtasks db \<noteq> []" using arg_cong [OF db(2), of length] by (auto split: if_splits)
    from build_dag_accepts [OF assms(1) wf this] db False show ?thesis by simp
  qed
qed

section \<open>Witnesses\<close>

definition sample_sub :: "byte \<Rightarrow> sub_task" where
  "sample_sub i = \<lparr>st_id = replicate 32 i, st_parent = replicate 32 0, st_index = 0, st_model_shard = ''full'', st_input_shard = None,
     st_miner = zero_address, st_status = task_status_pending, st_result = None, st_compute_cost = 1\<rparr>"

definition sample_ids :: "subtask_id \<Rightarrow> subtask_id \<Rightarrow> subtask_id \<Rightarrow> subtask_id list option" where
  "sample_ids a b = [a \<mapsto> [b], b \<mapsto> [a]]"

definition sample_chain_deps :: "subtask_id \<Rightarrow> subtask_id list option" where
  "sample_chain_deps = [replicate 32 1 \<mapsto> [replicate 32 2]]"

lemma sample_sub_id [simp]: "st_id (sample_sub i) = replicate 32 i"
  by (simp add: sample_sub_def)

lemma sample_wf:
  "wf_graph [sample_sub 1, sample_sub 2] (sample_ids (replicate 32 1) (replicate 32 2))"
  "wf_graph [sample_sub 1, sample_sub 2] sample_chain_deps"
  by (auto simp: wf_graph_def sample_ids_def sample_chain_deps_def children_of_def split: if_splits)

lemma sample_edges:
  "acyclic (dag_edges sample_chain_deps)" "\<not> acyclic (dag_edges (sample_ids (replicate 32 1) (replicate 32 2)))"
proof -
  have "dag_edges sample_chain_deps = {(replicate 32 1, replicate 32 2)}"
    by (auto simp: dag_edges_def sample_chain_deps_def children_of_def split: if_splits)
  moreover have "acyclic {}" by (simp add: acyclic_def)
  ultimately show "acyclic (dag_edges sample_chain_deps)" by (simp add: acyclic_insert)
  let ?E = "dag_edges (sample_ids (replicate 32 1) (replicate 32 2))"
  have "(replicate 32 1, replicate 32 2) \<in> ?E" "(replicate 32 2, replicate 32 1) \<in> ?E"
    by (auto simp: dag_edges_def sample_ids_def children_of_def)
  then have "(replicate 32 1, replicate 32 1) \<in> ?E\<^sup>+" by (rule trancl_into_trancl2 [OF _ r_into_trancl])
  then show "\<not> acyclic ?E" unfolding acyclic_def by blast
qed

theorem verify_acyclic_exact_witness:
  "\<exists>e. verify_acyclic sorted_list_of_set \<lparr>db_subtasks = [sample_sub 1, sample_sub 2],
     db_dependencies = sample_ids (replicate 32 1) (replicate 32 2)\<rparr> = Some e \<and> e \<noteq> Ok ()"
  using verify_acyclic_exact [OF go_order_sorted, of "\<lparr>db_subtasks = [sample_sub 1, sample_sub 2],
     db_dependencies = sample_ids (replicate 32 1) (replicate 32 2)\<rparr>"] sample_wf(1) sample_edges(2) by auto

theorem execution_order_topological_witness:
  "\<exists>order. get_execution_order sorted_list_of_set \<lparr>dag_subtasks = [sample_sub 1, sample_sub 2],
     dag_dependencies = sample_chain_deps\<rparr> = Some order \<and> set order = {replicate 32 1, replicate 32 2}"
  using execution_order_topological [OF go_order_sorted, of "\<lparr>dag_subtasks = [sample_sub 1, sample_sub 2],
     dag_dependencies = sample_chain_deps\<rparr>"] sample_wf(2) sample_edges(1) by auto

theorem ready_progress_witness:
  "\<exists>d. build_dag sorted_list_of_set \<lparr>db_subtasks = [sample_sub 1, sample_sub 2], db_dependencies = sample_chain_deps\<rparr> = Some (Ok d) \<and>
     replicate 32 1 \<in> set (get_ready_subtasks sorted_list_of_set (\<lambda>_. False) d) \<and>
     replicate 32 2 \<notin> set (get_ready_subtasks sorted_list_of_set (\<lambda>_. False) d)"
proof -
  let ?db = "\<lparr>db_subtasks = [sample_sub 1, sample_sub 2], db_dependencies = sample_chain_deps\<rparr>"
  have wf: "wf_graph (db_subtasks ?db) (db_dependencies ?db)" using sample_wf(2) by simp
  obtain d where d: "build_dag sorted_list_of_set ?db = Some (Ok d)"
    using build_dag_accepts [OF go_order_sorted wf] sample_edges(1) by auto
  have "children_of sample_chain_deps p = (if p = replicate 32 1 then [replicate 32 2] else [])" for p
    by (simp add: children_of_def sample_chain_deps_def)
  with ready_progress [OF go_order_sorted wf d, of "\<lambda>_. False"] d show ?thesis by auto
qed

definition sample_task :: task where
  "sample_task = \<lparr>t_id = replicate 32 7, t_creator = replicate 20 1, t_tier = 5,
     t_model_spec = \<lparr>ms_model_id = [], ms_quantization = [], ms_max_tokens = 0, ms_temperature = 0, ms_top_p = 0\<rparr>,
     t_input_hash = empty_hash, t_input_size = 1024, t_fee = Some 500000, t_collateral = Some 0, t_deadline = 90,
     t_sequence = sequence_final, t_created_at = 0, t_status = task_status_pending, t_assigned_miner = zero_address,
     t_dag = None, t_hash = replicate 32 7, t_hash_once = True\<rparr>"

theorem analyzed_task_builds_witness:
  "\<exists>db d. analyze_task sample_task new_dag_builder = Ok db \<and> build_dag sorted_list_of_set db = Some (Ok d) \<and>
     get_execution_order sorted_list_of_set d = Some (map (stage_id sample_task) [0..<8])"
  using analyzed_task_builds [OF go_order_sorted, of sample_task] by (auto simp: sample_task_def tier_defs)

end
