(* ===== verification/GoHeap.thy ===== *)
theory GoHeap
  imports Prelude "HOL-Library.Multiset"
begin

text \<open>
  Go's \<open>container/heap\<close> on a slice, as \<^verbatim>\<open>src/pkg/task/taskpool.go\<close> uses it: Init, Push and Pop with the
  sift-up and sift-down loops of the library, for an ordering \<open>lt\<close>. The locale states what such an
  ordering must satisfy and proves the heap property, that no element is lost and that Pop takes a first
  element.
\<close>

section \<open>The operations\<close>

definition swap_at :: "nat \<Rightarrow> nat \<Rightarrow> 'a list \<Rightarrow> 'a list" where
  "swap_at i j xs = xs[i := xs ! j, j := xs ! i]"

fun heap_up :: "('a \<Rightarrow> 'a \<Rightarrow> bool) \<Rightarrow> nat \<Rightarrow> 'a list \<Rightarrow> 'a list" where
  "heap_up lt j xs =
     (if j = 0 \<or> \<not> lt (xs ! j) (xs ! ((j - 1) div 2)) then xs
      else heap_up lt ((j - 1) div 2) (swap_at ((j - 1) div 2) j xs))"

declare heap_up.simps [simp del]

definition smaller_child :: "('a \<Rightarrow> 'a \<Rightarrow> bool) \<Rightarrow> nat \<Rightarrow> nat \<Rightarrow> 'a list \<Rightarrow> nat" where
  "smaller_child lt i n xs =
     (if 2 * i + 2 < n \<and> lt (xs ! (2 * i + 2)) (xs ! (2 * i + 1)) then 2 * i + 2 else 2 * i + 1)"

function heap_down :: "('a \<Rightarrow> 'a \<Rightarrow> bool) \<Rightarrow> nat \<Rightarrow> nat \<Rightarrow> 'a list \<Rightarrow> 'a list" where
  "heap_down lt i n xs =
     (let j = smaller_child lt i n xs in
      if 2 * i + 1 \<ge> n \<or> \<not> lt (xs ! j) (xs ! i) then xs else heap_down lt j n (swap_at i j xs))"
  by pat_completeness auto
termination
  by (relation "measure (\<lambda>(lt, i, n, xs). n - i)") (auto simp: smaller_child_def split: if_splits)

declare heap_down.simps [simp del]

fun heap_init_from :: "('a \<Rightarrow> 'a \<Rightarrow> bool) \<Rightarrow> nat \<Rightarrow> 'a list \<Rightarrow> 'a list" where
  "heap_init_from lt 0 xs = xs"
| "heap_init_from lt (Suc i) xs = heap_init_from lt i (heap_down lt i (length xs) xs)"

definition heap_init :: "('a \<Rightarrow> 'a \<Rightarrow> bool) \<Rightarrow> 'a list \<Rightarrow> 'a list" where
  "heap_init lt xs = heap_init_from lt (length xs div 2) xs"

definition heap_push :: "('a \<Rightarrow> 'a \<Rightarrow> bool) \<Rightarrow> 'a \<Rightarrow> 'a list \<Rightarrow> 'a list" where
  "heap_push lt x xs = heap_up lt (length xs) (xs @ [x])"

text \<open>Pop of an empty heap indexes the slice at \<open>-1\<close> and panics.\<close>

definition heap_pop :: "('a \<Rightarrow> 'a \<Rightarrow> bool) \<Rightarrow> 'a list \<Rightarrow> (string, 'a \<times> 'a list) outcome" where
  "heap_pop lt xs =
     (if xs = [] then Panic
      else let n = length xs - 1; ys = heap_down lt 0 n (swap_at 0 n xs) in Ok (ys ! n, take n ys))"

text \<open>Up to \<open>n\<close> pops in a row.\<close>

fun heap_drain :: "('a \<Rightarrow> 'a \<Rightarrow> bool) \<Rightarrow> nat \<Rightarrow> 'a list \<Rightarrow> 'a list" where
  "heap_drain lt 0 xs = []"
| "heap_drain lt (Suc n) xs = (case heap_pop lt xs of Ok (x, ys) \<Rightarrow> x # heap_drain lt n ys | _ \<Rightarrow> [])"

section \<open>Lengths and elements\<close>

lemma length_swap [simp]: "length (swap_at i j xs) = length xs"
  by (simp add: swap_at_def)

lemma nth_swap:
  "i < length xs \<Longrightarrow> j < length xs \<Longrightarrow> k < length xs \<Longrightarrow>
    swap_at i j xs ! k = (if k = j then xs ! i else if k = i then xs ! j else xs ! k)"
  by (simp add: swap_at_def nth_list_update)

lemma mset_swap_at [simp]: "i < length xs \<Longrightarrow> j < length xs \<Longrightarrow> mset (swap_at i j xs) = mset xs"
  by (simp add: swap_at_def mset_swap)

lemma heap_up_mset: "j < length xs \<Longrightarrow> mset (heap_up lt j xs) = mset xs"
proof (induction lt j xs rule: heap_up.induct)
  case (1 lt j xs)
  then show ?case by (subst heap_up.simps) auto
qed

lemma smaller_child_bounds:
  "2 * i + 1 < n \<Longrightarrow> i < smaller_child lt i n xs \<and> smaller_child lt i n xs < n \<and> (smaller_child lt i n xs - 1) div 2 = i"
  by (auto simp: smaller_child_def)

lemma heap_down_mset: "n \<le> length xs \<Longrightarrow> mset (heap_down lt i n xs) = mset xs"
proof (induction lt i n xs rule: heap_down.induct)
  case (1 lt i n xs)
  note b = smaller_child_bounds [of i n lt xs]
  show ?case
  proof (cases "2 * i + 1 \<ge> n \<or> \<not> lt (xs ! smaller_child lt i n xs) (xs ! i)")
    case False
    with 1 b show ?thesis by (subst heap_down.simps) (simp add: Let_def)
  qed (simp add: heap_down.simps Let_def)
qed

lemma heap_down_length [simp]: "length (heap_down lt i n xs) = length xs"
proof (induction lt i n xs rule: heap_down.induct)
  case (1 lt i n xs)
  then show ?case by (subst heap_down.simps) (simp add: Let_def)
qed

lemma heap_down_above:
  "n \<le> length xs \<Longrightarrow> n \<le> k \<Longrightarrow> k < length xs \<Longrightarrow> heap_down lt i n xs ! k = xs ! k"
proof (induction lt i n xs rule: heap_down.induct)
  case (1 lt i n xs)
  note b = smaller_child_bounds [of i n lt xs]
  show ?case
  proof (cases "2 * i + 1 \<ge> n \<or> \<not> lt (xs ! smaller_child lt i n xs) (xs ! i)")
    case False
    with 1 b show ?thesis by (subst heap_down.simps) (auto simp: Let_def nth_swap)
  qed (simp add: heap_down.simps Let_def)
qed

lemma heap_init_from_mset: "mset (heap_init_from lt i xs) = mset xs"
  by (induction lt i xs rule: heap_init_from.induct) (simp_all add: heap_down_mset)

lemma heap_init_mset [simp]: "mset (heap_init lt xs) = mset xs"
  by (simp add: heap_init_def heap_init_from_mset)

lemma heap_push_mset [simp]: "mset (heap_push lt x xs) = add_mset x (mset xs)"
  by (simp add: heap_push_def heap_up_mset)

lemma heap_pop_mset: "heap_pop lt xs = Ok (x, ys) \<Longrightarrow> mset xs = add_mset x (mset ys)"
proof -
  assume p: "heap_pop lt xs = Ok (x, ys)"
  let ?n = "length xs - 1"
  let ?zs = "heap_down lt 0 ?n (swap_at 0 ?n xs)"
  from p have xs: "xs \<noteq> []" "x = ?zs ! ?n" "ys = take ?n ?zs"
    by (auto simp: heap_pop_def Let_def split: if_splits)
  then have "mset xs = mset ?zs" by (simp add: heap_down_mset)
  also from xs(1) have "?zs = take ?n ?zs @ [?zs ! ?n]"
    by (metis One_nat_def diff_Suc_less heap_down_length length_greater_0_conv length_swap Suc_diff_1 take_Suc_conv_app_nth take_all order_refl)
  finally show ?thesis using xs by (metis mset_append mset.simps add_mset_add_single union_commute)
qed

lemma heap_pop_Ok: "xs \<noteq> [] \<Longrightarrow> \<exists>x ys. heap_pop lt xs = Ok (x, ys)"
  by (simp add: heap_pop_def Let_def)

section \<open>The heap property\<close>

text \<open>The children of the positions from \<open>lo\<close> on are not before their parents, up to position \<open>n\<close>.\<close>

definition is_heap :: "('a \<Rightarrow> 'a \<Rightarrow> bool) \<Rightarrow> nat \<Rightarrow> nat \<Rightarrow> 'a list \<Rightarrow> bool" where
  "is_heap lt lo n xs \<longleftrightarrow> (\<forall>k. 0 < k \<and> k < n \<and> lo \<le> (k - 1) div 2 \<longrightarrow> \<not> lt (xs ! k) (xs ! ((k - 1) div 2)))"

text \<open>What \<open>sort.Slice\<close> promises for such an ordering: a permutation in order, equal elements in any order.\<close>

definition go_sort :: "('a \<Rightarrow> 'a \<Rightarrow> bool) \<Rightarrow> ('a list \<Rightarrow> 'a list) \<Rightarrow> bool" where
  "go_sort lt srt \<longleftrightarrow> (\<forall>xs. mset (srt xs) = mset xs \<and> sorted_wrt (\<lambda>a b. \<not> lt b a) (srt xs))"

locale heap_order =
  fixes lt :: "'a \<Rightarrow> 'a \<Rightarrow> bool"
  assumes asym: "lt a b \<Longrightarrow> \<not> lt b a"
    and trans_not: "\<not> lt b a \<Longrightarrow> \<not> lt c b \<Longrightarrow> \<not> lt c a"
begin

lemma irrefl [simp]: "\<not> lt a a"
  using asym by blast

lemma child_of: "0 < k \<Longrightarrow> (k - 1) div 2 = (i :: nat) \<longleftrightarrow> k = 2 * i + 1 \<or> k = 2 * i + 2"
  by auto

lemma down_heap:
  assumes "n \<le> length xs" "i < n" "lo \<le> i"
    and "\<And>k. 0 < k \<Longrightarrow> k < n \<Longrightarrow> lo \<le> (k - 1) div 2 \<Longrightarrow> (k - 1) div 2 \<noteq> i \<Longrightarrow> \<not> lt (xs ! k) (xs ! ((k - 1) div 2))"
    and "\<And>k. 0 < i \<Longrightarrow> lo \<le> (i - 1) div 2 \<Longrightarrow> k < n \<Longrightarrow> 0 < k \<Longrightarrow> (k - 1) div 2 = i \<Longrightarrow> \<not> lt (xs ! k) (xs ! ((i - 1) div 2))"
  shows "is_heap lt lo n (heap_down lt i n xs)"
  using assms
proof (induction "n - i" arbitrary: i xs rule: less_induct)
  case less
  let ?j = "smaller_child lt i n xs"
  note b = smaller_child_bounds [of i n lt xs]
  show ?case
  proof (cases "2 * i + 1 \<ge> n \<or> \<not> lt (xs ! ?j) (xs ! i)")
    case True
    have "\<not> lt (xs ! k) (xs ! i)" if k: "0 < k" "k < n" "(k - 1) div 2 = i" for k
    proof -
      from k have j: "2 * i + 1 < n" "\<not> lt (xs ! ?j) (xs ! i)" using True child_of [of k i] by auto
      have "\<not> lt (xs ! k) (xs ! ?j)"
        using k child_of [of k i] by (auto simp: smaller_child_def dest: asym)
      with j(2) show ?thesis using trans_not by blast
    qed
    with less.prems(4) True show ?thesis
      by (subst heap_down.simps) (auto simp: Let_def is_heap_def)
  next
    case False
    let ?ys = "swap_at i ?j xs"
    from False have lt: "2 * i + 1 < n" "lt (xs ! ?j) (xs ! i)" by auto
    with b have j: "i < ?j" "?j < n" "(?j - 1) div 2 = i" "?j < length xs" "i < length xs"
      using less.prems(1) by auto
    have nth: "?ys ! k = (if k = ?j then xs ! i else if k = i then xs ! ?j else xs ! k)" if "k < n" for k
      using nth_swap [of i xs ?j k] j that less.prems(1) by simp
    have sib: "\<not> lt (xs ! k) (xs ! ?j)" if "0 < k" "k < n" "(k - 1) div 2 = i" for k
      using that child_of [of k i] by (auto simp: smaller_child_def dest: asym)
    have "is_heap lt lo n (heap_down lt ?j n ?ys)"
    proof (rule less.hyps)
      show "n - ?j < n - i" "?j < n" using j lt by linarith+
      show "n \<le> length ?ys" "lo \<le> ?j" using less.prems j by auto
      show "\<not> lt (?ys ! k) (?ys ! ((k - 1) div 2))"
        if k: "0 < k" "k < n" "lo \<le> (k - 1) div 2" "(k - 1) div 2 \<noteq> ?j" for k
      proof -
        have pk: "(k - 1) div 2 < n" using k by linarith
        consider "k = ?j" | "k \<noteq> ?j" "(k - 1) div 2 = i" | "k = i" | "k \<noteq> ?j" "k \<noteq> i" "(k - 1) div 2 \<noteq> i" by blast
        then show ?thesis
        proof cases
          case 1
          have "\<not> lt (xs ! i) (xs ! ?j)" using lt(2) asym by blast
          with 1 j(1,3) nth [OF k(2)] nth [OF pk] show ?thesis by simp
        next
          case 2
          with j(1) sib [OF k(1,2)] nth [OF k(2)] nth [OF pk] k show ?thesis by auto
        next
          case 3
          have "\<not> lt (xs ! ?j) (xs ! ((i - 1) div 2))"
            using less.prems(5) [of ?j] 3 k j by simp
          moreover have "(i - 1) div 2 \<noteq> ?j" "(i - 1) div 2 \<noteq> i" using 3 k j(1) by linarith+
          ultimately show ?thesis using 3 nth [OF k(2)] nth [OF pk] j(1) by simp
        next
          case 4
          with less.prems(4) [OF k(1-3)] nth [OF k(2)] nth [OF pk] k(4) show ?thesis by simp
        qed
      qed
      show "\<not> lt (?ys ! k) (?ys ! ((?j - 1) div 2))" if k: "k < n" "0 < k" "(k - 1) div 2 = ?j" for k
      proof -
        have "k \<noteq> i" "k \<noteq> ?j" "i < n" using k j by linarith+
        moreover have "\<not> lt (xs ! k) (xs ! ?j)" using less.prems(4) [of k] k j less.prems(3) by simp
        ultimately show ?thesis using nth k j(1,3) by simp
      qed
    qed
    with False show ?thesis by (subst heap_down.simps) (simp add: Let_def)
  qed
qed

lemma up_heap:
  assumes "j < length xs"
    and "\<And>k. 0 < k \<Longrightarrow> k < length xs \<Longrightarrow> k \<noteq> j \<Longrightarrow> \<not> lt (xs ! k) (xs ! ((k - 1) div 2))"
    and "\<And>k. 0 < j \<Longrightarrow> 0 < k \<Longrightarrow> k < length xs \<Longrightarrow> (k - 1) div 2 = j \<Longrightarrow> \<not> lt (xs ! k) (xs ! ((j - 1) div 2))"
  shows "is_heap lt 0 (length xs) (heap_up lt j xs)"
  using assms
proof (induction j arbitrary: xs rule: less_induct)
  case (less j)
  show ?case
  proof (cases "j = 0 \<or> \<not> lt (xs ! j) (xs ! ((j - 1) div 2))")
    case True
    with less.prems(2) show ?thesis by (subst heap_up.simps) (auto simp: is_heap_def)
  next
    case False
    let ?i = "(j - 1) div 2"
    let ?ys = "swap_at ?i j xs"
    from False have lt: "0 < j" "?i < j" "lt (xs ! j) (xs ! ?i)" by auto
    have nth: "?ys ! k = (if k = j then xs ! ?i else if k = ?i then xs ! j else xs ! k)" if "k < length xs" for k
      using nth_swap [of ?i xs j k] that lt less.prems(1) by simp
    have "is_heap lt 0 (length ?ys) (heap_up lt ?i ?ys)"
    proof (rule less.IH [OF lt(2)])
      show "?i < length ?ys" using lt(2) less.prems(1) by simp
      show "\<not> lt (?ys ! k) (?ys ! ((k - 1) div 2))" if k: "0 < k" "k < length ?ys" "k \<noteq> ?i" for k
      proof -
        from k have kl: "k < length xs" "(k - 1) div 2 < length xs" by auto
        consider "k = j" | "k \<noteq> j" "(k - 1) div 2 = ?i" | "k \<noteq> j" "(k - 1) div 2 = j" | "k \<noteq> j" "(k - 1) div 2 \<noteq> ?i" "(k - 1) div 2 \<noteq> j"
          by blast
        then show ?thesis
        proof cases
          case 1
          with nth kl lt asym [OF lt(3)] show ?thesis by simp
        next
          case 2
          have "\<not> lt (xs ! k) (xs ! ?i)" using less.prems(2) [OF k(1) kl(1) 2(1)] 2(2) by simp
          then have "\<not> lt (xs ! k) (xs ! j)" using asym [OF lt(3)] trans_not by blast
          with 2 nth [OF kl(1)] nth [OF kl(2)] k(3) lt(2) show ?thesis by simp
        next
          case 3
          with nth [OF kl(1)] nth [OF kl(2)] k(3) less.prems(3) [OF lt(1) k(1) kl(1)] show ?thesis by simp
        next
          case 4
          with nth [OF kl(1)] nth [OF kl(2)] k less.prems(2) [OF k(1) kl(1)] show ?thesis by simp
        qed
      qed
      show "\<not> lt (?ys ! k) (?ys ! ((?i - 1) div 2))"
        if k: "0 < ?i" "0 < k" "k < length ?ys" "(k - 1) div 2 = ?i" for k
      proof -
        have kl: "k < length xs" "?i < length xs" using k lt less.prems(1) by auto
        then have kp: "(?i - 1) div 2 < length xs" by linarith
        have up: "\<not> lt (xs ! ?i) (xs ! ((?i - 1) div 2))" using less.prems(2) [OF k(1) kl(2)] lt(2) by simp
        have "\<not> lt (xs ! k) (xs ! ?i)" if "k \<noteq> j" using less.prems(2) [OF k(2) kl(1) that] k(4) by simp
        then have "k \<noteq> j \<Longrightarrow> \<not> lt (xs ! k) (xs ! ((?i - 1) div 2))" using up trans_not by blast
        moreover have "(?i - 1) div 2 \<noteq> j" "(?i - 1) div 2 \<noteq> ?i" "k \<noteq> ?i" using k lt(2) by linarith+
        ultimately show ?thesis using nth [OF kl(1)] nth [OF kp] up by simp
      qed
    qed
    with False show ?thesis by (subst heap_up.simps) simp
  qed
qed

lemma init_heap: "is_heap lt 0 (length xs) (heap_init lt xs)"
proof -
  have "is_heap lt 0 (length ys) (heap_init_from lt i ys)" if "is_heap lt i (length ys) ys" "i \<le> length ys" for i ys
    using that
  proof (induction i arbitrary: ys)
    case (Suc i)
    have "is_heap lt i (length ys) (heap_down lt i (length ys) ys)"
      using Suc.prems by (intro down_heap) (auto simp: is_heap_def)
    with Suc.IH [of "heap_down lt i (length ys) ys"] Suc.prems(2) show ?case by simp
  qed simp
  moreover have "is_heap lt (length xs div 2) (length xs) xs" by (auto simp: is_heap_def)
  ultimately show ?thesis by (simp add: heap_init_def)
qed

lemma push_heap: "is_heap lt 0 (length xs) xs \<Longrightarrow> is_heap lt 0 (Suc (length xs)) (heap_push lt x xs)"
proof -
  assume h: "is_heap lt 0 (length xs) xs"
  have "is_heap lt 0 (length (xs @ [x])) (heap_up lt (length xs) (xs @ [x]))"
  proof (rule up_heap)
    show "\<not> lt ((xs @ [x]) ! k) ((xs @ [x]) ! ((k - 1) div 2))"
      if k: "0 < k" "k < length (xs @ [x])" "k \<noteq> length xs" for k
    proof -
      have "k < length xs" "(k - 1) div 2 < length xs" using k by auto
      with h k(1) show ?thesis by (simp add: is_heap_def nth_append)
    qed
  qed auto
  then show "is_heap lt 0 (Suc (length xs)) (heap_push lt x xs)" by (simp add: heap_push_def)
qed

lemma root_first:
  assumes "is_heap lt 0 (length xs) xs" "k < length xs"
  shows "\<not> lt (xs ! k) (xs ! 0)"
  using assms(2)
proof (induction k rule: less_induct)
  case (less k)
  show ?case
  proof (cases "k = 0")
    case True
    then show ?thesis using asym by blast
  next
    case False
    then have "\<not> lt (xs ! ((k - 1) div 2)) (xs ! 0)" using less by simp
    moreover have "\<not> lt (xs ! k) (xs ! ((k - 1) div 2))" using assms(1) less.prems False by (simp add: is_heap_def)
    ultimately show ?thesis using trans_not by blast
  qed
qed

lemma pop_heap:
  assumes "is_heap lt 0 (length xs) xs" "heap_pop lt xs = Ok (x, ys)"
  shows "is_heap lt 0 (length ys) ys" "\<And>y. y \<in> set ys \<Longrightarrow> \<not> lt y x" "mset xs = add_mset x (mset ys)"
proof -
  show m: "mset xs = add_mset x (mset ys)" by (rule heap_pop_mset [OF assms(2)])
  let ?n = "length xs - 1"
  let ?zs = "heap_down lt 0 ?n (swap_at 0 ?n xs)"
  from assms(2) have xs: "xs \<noteq> []" "x = ?zs ! ?n" "ys = take ?n ?zs"
    by (auto simp: heap_pop_def Let_def split: if_splits)
  then have l: "0 < length xs" "length ys = ?n" by simp_all
  have x: "x = xs ! 0"
    using xs(2) heap_down_above [of ?n "swap_at 0 ?n xs" ?n lt 0] l(1) by (simp add: nth_swap)
  show "\<not> lt y x" if "y \<in> set ys" for y
  proof -
    from that m have "y \<in> set xs" by (metis insert_iff set_mset_add_mset_insert set_mset_mset)
    then obtain k where "k < length xs" "y = xs ! k" by (metis in_set_conv_nth)
    with root_first [OF assms(1)] x show ?thesis by simp
  qed
  have "is_heap lt 0 ?n ?zs"
  proof (cases "?n = 0")
    case True
    then show ?thesis by (simp add: is_heap_def)
  next
    case False
    show ?thesis
    proof (rule down_heap)
      show "\<not> lt (swap_at 0 ?n xs ! k) (swap_at 0 ?n xs ! ((k - 1) div 2))"
        if k: "0 < k" "k < ?n" "(k - 1) div 2 \<noteq> 0" for k
      proof -
        have "(k - 1) div 2 < ?n" using k by linarith
        then have "swap_at 0 ?n xs ! k = xs ! k" "swap_at 0 ?n xs ! ((k - 1) div 2) = xs ! ((k - 1) div 2)"
          using k l(1) by (simp_all add: nth_swap)
        with assms(1) k show ?thesis by (simp add: is_heap_def)
      qed
    qed (use False in auto)
  qed
  moreover have "ys ! k = ?zs ! k" if "k < ?n" for k using xs(3) that by simp
  moreover have "(k - 1) div 2 < ?n" if "k < ?n" for k using that by linarith
  ultimately show "is_heap lt 0 (length ys) ys" unfolding is_heap_def l(2) by simp
qed

lemma drain_heap:
  assumes "is_heap lt 0 (length xs) xs"
  shows "\<exists>rest. mset xs = mset (heap_drain lt n xs) + mset rest \<and> sorted_wrt (\<lambda>a b. \<not> lt b a) (heap_drain lt n xs) \<and>
    (\<forall>x \<in> set (heap_drain lt n xs). \<forall>y \<in> set rest. \<not> lt y x) \<and> length (heap_drain lt n xs) = min n (length xs)"
  using assms
proof (induction n arbitrary: xs)
  case (Suc n)
  show ?case
  proof (cases "xs = []")
    case False
    then obtain x ys where p: "heap_pop lt xs = Ok (x, ys)" using heap_pop_Ok by blast
    note h = pop_heap [OF Suc.prems p]
    from Suc.IH [OF h(1)] obtain rest where r: "mset ys = mset (heap_drain lt n ys) + mset rest"
      "sorted_wrt (\<lambda>a b. \<not> lt b a) (heap_drain lt n ys)" "\<forall>x \<in> set (heap_drain lt n ys). \<forall>y \<in> set rest. \<not> lt y x"
      "length (heap_drain lt n ys) = min n (length ys)" by blast
    have "set ys = set (heap_drain lt n ys) \<union> set rest" using arg_cong [OF r(1), of set_mset] by simp
    moreover have "length xs = Suc (length ys)" using arg_cong [OF h(3), of size] by simp
    ultimately show ?thesis using r h(2,3) p by (intro exI [of _ rest]) auto
  qed (simp add: heap_pop_def)
next
  case 0
  show ?case by (rule exI [of _ xs]) simp
qed

lemma heap_sort: "go_sort lt (\<lambda>xs. heap_drain lt (length xs) (heap_init lt xs))"
  unfolding go_sort_def
proof (rule allI)
  fix xs :: "'a list"
  have l: "length (heap_init lt xs) = length xs" by (metis heap_init_mset size_mset)
  have "is_heap lt 0 (length (heap_init lt xs)) (heap_init lt xs)" unfolding l by (rule init_heap)
  from drain_heap [OF this, of "length xs"] obtain rest where
    r: "mset xs = mset (heap_drain lt (length xs) (heap_init lt xs)) + mset rest"
      "sorted_wrt (\<lambda>a b. \<not> lt b a) (heap_drain lt (length xs) (heap_init lt xs))"
      "length (heap_drain lt (length xs) (heap_init lt xs)) = length xs" unfolding l by auto
  have "length xs = length (heap_drain lt (length xs) (heap_init lt xs)) + length rest"
    using arg_cong [OF r(1), of size] by (simp only: size_union size_mset)
  then have "rest = []" unfolding r(3) by simp
  with r show "mset (heap_drain lt (length xs) (heap_init lt xs)) = mset xs \<and>
      sorted_wrt (\<lambda>a b. \<not> lt b a) (heap_drain lt (length xs) (heap_init lt xs))" by simp
qed

end

end
