(* ===== verification/TaskPool.thy ===== *)
theory TaskPool
  imports Tasks GoHeap
begin

text \<open>
  The pool of pending tasks, \<^verbatim>\<open>src/pkg/task/taskpool.go\<close>, the staged changes to it and to the verifier
  (task_staging.go) and the price oracle (pricing.go). An entry is never changed once it is in the pool,
  so entries are values. \<open>ordt\<close> is the iteration order of a map, \<open>srt\<close> the order \<open>sort.Slice\<close> leaves
  the deadlines in (it is not stable), \<open>now\<close> the clock in nanoseconds and \<open>decay\<close> the value of
  \<open>int64(math.Exp(-elapsed * ln 2 / halflife) * 1e9)\<close> after \<open>elapsed\<close> nanoseconds.
\<close>

record task_pool_entry =
  te_task :: task
  te_fee_per_compute :: int
  te_entry_time :: int
  te_entry_height :: u64
  te_sequence_number :: u64

record task_pool =
  tk_tasks :: "task_id \<Rightarrow> task_pool_entry option"
  tk_prioritized :: "task_pool_entry list"
  tk_deadline_order :: "task_pool_entry list"
  tk_sequence_counter :: u64
  tk_min_fee_rate :: token_amount
  tk_last_fee_update :: "int option"
  tk_block_since_bump :: bool
  tk_max_tasks :: int

text \<open>The heap is ordered by fee: the first entry is the one that pays most.\<close>

definition entry_before :: "task_pool_entry \<Rightarrow> task_pool_entry \<Rightarrow> bool" where
  "entry_before a b = (te_fee_per_compute a > te_fee_per_compute b)"

definition new_task_pool :: "int \<Rightarrow> task_pool" where
  "new_task_pool maxTasks = \<lparr>tk_tasks = Map.empty, tk_prioritized = heap_init entry_before [], tk_deadline_order = [],
     tk_sequence_counter = 0, tk_min_fee_rate = Some 0, tk_last_fee_update = None, tk_block_since_bump = False,
     tk_max_tasks = maxTasks\<rparr>"

definition tk_count :: "task_pool \<Rightarrow> int" where
  "tk_count tp = int (card (dom (tk_tasks tp)))"

text \<open>Removes the first entries of the heap while the pool is over the limit.\<close>

fun trim_loop :: "nat \<Rightarrow> int \<Rightarrow> task_pool \<Rightarrow> task_pool" where
  "trim_loop 0 limit tp = tp"
| "trim_loop (Suc n) limit tp =
     (if tk_count tp > limit \<and> tk_prioritized tp \<noteq> []
      then (case heap_pop entry_before (tk_prioritized tp) of
          Ok (worst, rest) \<Rightarrow> trim_loop n limit
            (tp\<lparr>tk_prioritized := rest, tk_tasks := (tk_tasks tp)(t_id (te_task worst) := None)\<rparr>)
        | _ \<Rightarrow> tp)
      else tp)"

definition trim_to_size :: "int \<Rightarrow> task_pool \<Rightarrow> task_pool" where
  "trim_to_size limit tp = trim_loop (length (tk_prioritized tp)) limit tp"

definition fee_per_compute :: "task \<Rightarrow> (string, int) outcome" where
  "fee_per_compute t =
     (let units = (if estimate_compute_units t = 0 then 1 else estimate_compute_units t)
      in obind (to_big_int (t_fee t)) (\<lambda>fee. Ok (euclid_div fee (uint units))))"

definition insert_entry ::
  "(task_pool_entry list \<Rightarrow> task_pool_entry list) \<Rightarrow> task_pool_entry \<Rightarrow> task_pool \<Rightarrow> task_pool" where
  "insert_entry srt e tp =
     (let tp1 = tp\<lparr>tk_sequence_counter := tk_sequence_counter tp + 1,
                   tk_tasks := (tk_tasks tp)(t_id (te_task e) \<mapsto> e),
                   tk_prioritized := heap_push entry_before e (tk_prioritized tp)\<rparr>
      in if 0 < t_deadline (te_task e)
         then tp1\<lparr>tk_deadline_order := srt (tk_deadline_order tp1 @ [e])\<rparr> else tp1)"

text \<open>The integer division \<open>maxTasks / 2\<close> rounds towards zero.\<close>

definition add_task ::
  "(task_pool_entry list \<Rightarrow> task_pool_entry list) \<Rightarrow> int \<Rightarrow> task \<Rightarrow> u64 \<Rightarrow> task_pool \<Rightarrow> (string, task_pool) outcome" where
  "add_task srt now t currentHeight tp =
     (if tk_tasks tp (t_id t) \<noteq> None then Err ''task already in pool''
      else obind (fee_per_compute t) (\<lambda>fpc.
        obind (amount_cmp (Some fpc) (tk_min_fee_rate tp)) (\<lambda>c.
          if c < 0 \<and> tk_count tp \<ge> sgn (tk_max_tasks tp) * (\<bar>tk_max_tasks tp\<bar> div 2)
          then Err ''fee per compute too low''
          else let tp1 = insert_entry srt \<lparr>te_task = t, te_fee_per_compute = fpc, te_entry_time = now,
                 te_entry_height = currentHeight, te_sequence_number = tk_sequence_counter tp\<rparr> tp
            in Ok (if tk_count tp1 > tk_max_tasks tp1 then trim_to_size (tk_max_tasks tp1) tp1 else tp1))))"

fun take_highest :: "nat \<Rightarrow> task_pool_entry list \<Rightarrow> task list" where
  "take_highest 0 heap = []"
| "take_highest (Suc n) heap = (case heap_pop entry_before heap of
     Ok (e, rest) \<Rightarrow> te_task e # take_highest n rest | _ \<Rightarrow> [])"

text \<open>A negative \<open>n\<close> makes \<open>make\<close> panic.\<close>

definition get_highest_priority_tasks :: "int \<Rightarrow> task_pool \<Rightarrow> (string, task list) outcome" where
  "get_highest_priority_tasks n tp =
     (if n < 0 then Panic else Ok (take_highest (nat n) (heap_init entry_before (tk_prioritized tp))))"

text \<open>The loop ends when the heap is empty; its length bounds the number of rounds.\<close>

fun take_for_miner :: "nat \<Rightarrow> task_tier \<Rightarrow> nat \<Rightarrow> task_pool_entry list \<Rightarrow> task list \<Rightarrow> task list" where
  "take_for_miner 0 minerTier maxCount heap result = result"
| "take_for_miner (Suc n) minerTier maxCount heap result =
     (if heap \<noteq> [] \<and> length result < maxCount
      then (case heap_pop entry_before heap of
          Ok (e, rest) \<Rightarrow> take_for_miner n minerTier maxCount rest
            (if t_tier (te_task e) \<le> minerTier then result @ [te_task e] else result)
        | _ \<Rightarrow> result)
      else result)"

definition get_tasks_for_miner :: "task_tier \<Rightarrow> int \<Rightarrow> task_pool \<Rightarrow> (string, task list) outcome" where
  "get_tasks_for_miner minerTier maxCount tp =
     (if maxCount < 0 then Panic
      else let heap = heap_init entry_before (tk_prioritized tp)
           in Ok (take_for_miner (length heap) minerTier (nat maxCount) heap []))"

definition rebuild_heap :: "(task_id set \<Rightarrow> task_id list) \<Rightarrow> task_pool \<Rightarrow> task_pool" where
  "rebuild_heap ordt tp = tp\<lparr>tk_prioritized :=
     heap_init entry_before (map (\<lambda>i. the (tk_tasks tp i)) (ordt (dom (tk_tasks tp))))\<rparr>"

fun expire_entries ::
  "u64 \<Rightarrow> task_pool_entry list \<Rightarrow> (task_id \<Rightarrow> task_pool_entry option) \<Rightarrow>
    task list \<times> task_pool_entry list \<times> (task_id \<Rightarrow> task_pool_entry option)" where
  "expire_entries h [] tasks = ([], [], tasks)"
| "expire_entries h (e # es) tasks =
     (if 0 < t_deadline (te_task e) \<and> t_deadline (te_task e) < h
      then let (expired, remaining, ts) = expire_entries h es (tasks(t_id (te_task e) := None))
           in (te_task e # expired, remaining, ts)
      else let (expired, remaining, ts) = expire_entries h es tasks in (expired, e # remaining, ts))"

definition expire_deadlines :: "(task_id set \<Rightarrow> task_id list) \<Rightarrow> u64 \<Rightarrow> task_pool \<Rightarrow> task list \<times> task_pool" where
  "expire_deadlines ordt h tp =
     (let (expired, remaining, ts) = expire_entries h (tk_deadline_order tp) (tk_tasks tp)
      in (expired, rebuild_heap ordt (tp\<lparr>tk_tasks := ts, tk_deadline_order := remaining\<rparr>)))"

definition remove_task :: "(task_id set \<Rightarrow> task_id list) \<Rightarrow> task_id \<Rightarrow> task_pool \<Rightarrow> task_pool" where
  "remove_task ordt i tp = rebuild_heap ordt (tp\<lparr>tk_tasks := (tk_tasks tp)(i := None)\<rparr>)"

definition update_min_fee_rate :: "(int \<Rightarrow> int) \<Rightarrow> int \<Rightarrow> task_pool \<Rightarrow> (string, task_pool) outcome" where
  "update_min_fee_rate decay now tp = (case tk_last_fee_update tp of
     None \<Rightarrow> Ok (tp\<lparr>tk_last_fee_update := Some now\<rparr>)
   | Some lastUpdate \<Rightarrow>
       obind (if now - lastUpdate > 0
              then obind (to_big_int (tk_min_fee_rate tp)) (\<lambda>oldFee.
                Ok (tp\<lparr>tk_min_fee_rate := Some (euclid_div (oldFee * decay (now - lastUpdate)) (10 ^ 9))\<rparr>))
              else Ok tp) (\<lambda>tp1.
         Ok (tp1\<lparr>tk_last_fee_update := Some now, tk_block_since_bump := False\<rparr>)))"

definition task_pool_stats :: "task_pool \<Rightarrow> int \<times> token_amount" where
  "task_pool_stats tp = (tk_count tp, tk_min_fee_rate tp)"

section \<open>Staged changes\<close>

record result_submission =
  rs_task_id :: task_id
  rs_result_hash :: hash
  rs_miner :: address

record change_set =
  ch_to_add :: "task_id \<Rightarrow> task option"
  ch_to_remove :: "task_id \<Rightarrow> bool option"
  ch_to_assign :: "task_id \<Rightarrow> address option"
  ch_to_submit :: "task_id \<Rightarrow> result_submission option"
  ch_applied :: bool

definition new_task_change_set :: change_set where
  "new_task_change_set = \<lparr>ch_to_add = Map.empty, ch_to_remove = Map.empty, ch_to_assign = Map.empty,
     ch_to_submit = Map.empty, ch_applied = False\<rparr>"

definition stage_addition :: "task \<Rightarrow> change_set \<Rightarrow> change_set" where
  "stage_addition t cs = cs\<lparr>ch_to_add := (ch_to_add cs)(t_id t \<mapsto> t)\<rparr>"

definition stage_removal :: "task_id \<Rightarrow> change_set \<Rightarrow> change_set" where
  "stage_removal i cs = cs\<lparr>ch_to_remove := (ch_to_remove cs)(i \<mapsto> True)\<rparr>"

definition stage_assignment :: "task_id \<Rightarrow> address \<Rightarrow> change_set \<Rightarrow> change_set" where
  "stage_assignment i miner cs = cs\<lparr>ch_to_assign := (ch_to_assign cs)(i \<mapsto> miner)\<rparr>"

definition stage_result :: "result_submission \<Rightarrow> change_set \<Rightarrow> change_set" where
  "stage_result sub cs = cs\<lparr>ch_to_submit := (ch_to_submit cs)(rs_task_id sub \<mapsto> sub)\<rparr>"

definition check_limits :: "change_set \<Rightarrow> task_pool \<Rightarrow> (string, unit) outcome" where
  "check_limits cs tp =
     (let newCount = tk_count tp + int (card (dom (ch_to_add cs))) - int (card (dom (ch_to_remove cs)))
      in if newCount > tk_max_tasks tp then Err ''task count exceeds limit'' else Ok ())"

text \<open>Apply changes the pool and the verifier step by step; an error leaves what is done. The result is
  \<open>Inl\<close> the error or \<open>Inr ()\<close>, with the state reached.\<close>

type_synonym apply_result = "(string, (string + unit) \<times> change_set \<times> task_pool \<times> verifier) outcome"

fun apply_adds ::
  "(task_pool_entry list \<Rightarrow> task_pool_entry list) \<Rightarrow> int \<Rightarrow> u64 \<Rightarrow> task list \<Rightarrow> task_pool \<Rightarrow>
    (string, (string + unit) \<times> task_pool) outcome" where
  "apply_adds srt now h [] tp = Ok (Inr (), tp)"
| "apply_adds srt now h (t # ts) tp = (case add_task srt now t h tp of
     Panic \<Rightarrow> Panic
   | Err e \<Rightarrow> Ok (Inl (''add task '' @ task_id_hex (t_id t) @ '': '' @ e), tp)
   | Ok tp1 \<Rightarrow> apply_adds srt now h ts tp1)"

fun apply_submits ::
  "u64 \<Rightarrow> result_submission list \<Rightarrow> verifier \<Rightarrow> (string, (string + unit) \<times> verifier) outcome" where
  "apply_submits h [] v = Ok (Inr (), v)"
| "apply_submits h (s # ss) v = (case submit_result (rs_task_id s) (rs_result_hash s) (rs_miner s) h v of
     Panic \<Rightarrow> Panic
   | Err e \<Rightarrow> Ok (Inl (''submit result for '' @ task_id_hex (rs_task_id s) @ '': '' @ e), v)
   | Ok v1 \<Rightarrow> apply_submits h ss v1)"

definition apply_change_set ::
  "(task_id set \<Rightarrow> task_id list) \<Rightarrow> (task_pool_entry list \<Rightarrow> task_pool_entry list) \<Rightarrow> int \<Rightarrow> u64 \<Rightarrow>
    change_set \<Rightarrow> task_pool \<Rightarrow> verifier \<Rightarrow> apply_result" where
  "apply_change_set ordt srt now h cs tp v =
     (if ch_applied cs then Ok (Inl ''changeset already applied'', cs, tp, v)
      else
        let tp1 = fold (remove_task ordt) (ordt (dom (ch_to_remove cs))) tp in
        obind (apply_adds srt now h (map (\<lambda>i. the (ch_to_add cs i)) (ordt (dom (ch_to_add cs)))) tp1) (\<lambda>(r, tp2). case r of
          Inl e \<Rightarrow> Ok (Inl e, cs, tp2, v)
        | Inr _ \<Rightarrow>
            obind (apply_submits h (map (\<lambda>i. the (ch_to_submit cs i)) (ordt (dom (ch_to_submit cs)))) v) (\<lambda>(r2, v1). case r2 of
              Inl e \<Rightarrow> Ok (Inl e, cs, tp2, v1)
            | Inr _ \<Rightarrow> Ok (Inr (), cs\<lparr>ch_applied := True\<rparr>, tp2, v1))))"

definition abort_change_set :: "change_set \<Rightarrow> change_set" where
  "abort_change_set cs = new_task_change_set"

section \<open>Prices\<close>

record pricing_oracle =
  po_base_prices :: "task_tier \<Rightarrow> int option"
  po_congestion_multiplier :: f64
  po_avg_completion_time :: "task_tier \<Rightarrow> f64 option"
  po_avg_fee_paid :: "task_tier \<Rightarrow> int option"

definition new_pricing_oracle :: pricing_oracle where
  "new_pricing_oracle = \<lparr>po_base_prices = [tier1_lightweight \<mapsto> 1 * 10 ^ 15, tier2_conversation \<mapsto> 1 * 10 ^ 16,
     tier3_inference \<mapsto> 1 * 10 ^ 17, tier4_heavy \<mapsto> 1 * 10 ^ 18, tier5_distributed \<mapsto> 1 * 10 ^ 19],
     po_congestion_multiplier = F64 1 0, po_avg_completion_time = Map.empty, po_avg_fee_paid = Map.empty\<rparr>"

text \<open>\<open>int64\<close> of a float truncates.\<close>

fun f64_to_i64 :: "f64 \<Rightarrow> 64 word" where
  "f64_to_i64 (F64 m k) = word_of_int (sgn m * (\<bar>m\<bar> div 2 ^ k))"

definition estimate_fee :: "task_tier \<Rightarrow> int \<Rightarrow> pricing_oracle \<Rightarrow> token_amount" where
  "estimate_fee t poolCongestion po = (case po_base_prices po t of
     None \<Rightarrow> Some (10 ^ 17)
   | Some base \<Rightarrow>
       let congestion = f64_div (f64_of_int poolCongestion) (F64 100 0) in
       if f64_less (F64 1 0) congestion
       then Some (euclid_div (base * sint (f64_to_i64 (f64_mul congestion (F64 1000000000 0)))) (10 ^ 9))
       else Some base)"

definition update_congestion :: "int \<Rightarrow> int \<Rightarrow> pricing_oracle \<Rightarrow> pricing_oracle" where
  "update_congestion poolSize maxSize po =
     (if maxSize = 0 then po\<lparr>po_congestion_multiplier := F64 1 0\<rparr>
      else let ratio = f64_div (f64_of_int poolSize) (f64_of_int maxSize) in
        if f64_less (F64 1 1) ratio
        then po\<lparr>po_congestion_multiplier := f64_add (F64 1 0) (f64_mul (f64_sub ratio (F64 1 1)) (F64 4 0))\<rparr>
        else po\<lparr>po_congestion_multiplier := F64 1 0\<rparr>)"

definition get_base_price :: "task_tier \<Rightarrow> pricing_oracle \<Rightarrow> int" where
  "get_base_price t po = (case po_base_prices po t of None \<Rightarrow> 0 | Some base \<Rightarrow> base)"

end
