(* ===== verification/TaskPoolProps.thy ===== *)
theory TaskPoolProps
  imports TaskPool "HOL-Library.List_Lexorder"
begin

text \<open>
  The pool of tasks keeps its indexes consistent and its size bounded, hands out the tasks that pay most
  per unit of compute, and never raises its minimum fee; a full pool makes room by dropping the entry
  that pays most. The heap library is interpreted on the pool's ordering.
\<close>

interpretation entry_heap: heap_order entry_before
  by unfold_locales (auto simp: entry_before_def)

section \<open>Consistency\<close>

definition pool_entries :: "(task_id \<Rightarrow> task_pool_entry option) \<Rightarrow> task_pool_entry multiset" where
  "pool_entries m = image_mset (\<lambda>i. the (m i)) (mset_set (dom m))"

definition keyed :: "(task_id \<Rightarrow> task_pool_entry option) \<Rightarrow> bool" where
  "keyed m \<longleftrightarrow> finite (dom m) \<and> (\<forall>i e. m i = Some e \<longrightarrow> t_id (te_task e) = i)"

definition heap_of :: "task_pool \<Rightarrow> bool" where
  "heap_of tp \<longleftrightarrow> keyed (tk_tasks tp) \<and> mset (tk_prioritized tp) = pool_entries (tk_tasks tp) \<and>
     is_heap entry_before 0 (length (tk_prioritized tp)) (tk_prioritized tp)"

definition tracked :: "task_pool \<Rightarrow> bool" where
  "tracked tp \<longleftrightarrow> (\<forall>i e. tk_tasks tp i = Some e \<longrightarrow> 0 < t_deadline (te_task e) \<longrightarrow> e \<in> set (tk_deadline_order tp))"

definition task_pool_inv :: "task_pool \<Rightarrow> bool" where
  "task_pool_inv tp \<longleftrightarrow> heap_of tp \<and> tracked tp \<and> 0 \<le> tk_max_tasks tp \<and> tk_count tp \<le> tk_max_tasks tp \<and> tk_min_fee_rate tp = Some 0"

lemma pool_entries_insert:
  "finite (dom m) \<Longrightarrow> m i = None \<Longrightarrow> pool_entries (m(i \<mapsto> e)) = add_mset e (pool_entries m)"
proof -
  assume a: "finite (dom m)" "m i = None"
  have "image_mset (\<lambda>j. the ((m(i \<mapsto> e)) j)) (mset_set (dom m)) = image_mset (\<lambda>j. the (m j)) (mset_set (dom m))"
    using a by (intro image_mset_cong) auto
  with a show ?thesis by (simp add: pool_entries_def domIff)
qed

lemma pool_entries_delete:
  "finite (dom m) \<Longrightarrow> m i = Some e \<Longrightarrow> pool_entries m = add_mset e (pool_entries (m(i := None)))"
  using pool_entries_insert [of "m(i := None)" i e] by (simp add: fun_upd_idem)

lemma pool_entries_size: "size (pool_entries m) = card (dom m)"
  by (simp add: pool_entries_def)

lemma pool_entries_in: "keyed m \<Longrightarrow> e \<in># pool_entries m \<longleftrightarrow> m (t_id (te_task e)) = Some e"
proof -
  assume k: "keyed m"
  then have "set_mset (pool_entries m) = (\<lambda>i. the (m i)) ` dom m" by (simp add: pool_entries_def keyed_def)
  also have "\<dots> = ran m" by (force simp: ran_def)
  finally show "e \<in># pool_entries m \<longleftrightarrow> m (t_id (te_task e)) = Some e" using k by (auto simp: keyed_def ran_def)
qed

lemma keyed_upd: "keyed m \<Longrightarrow> t_id (te_task e) = i \<Longrightarrow> keyed (m(i \<mapsto> e))" "keyed m \<Longrightarrow> keyed (m(i := None))"
  by (auto simp: keyed_def)

lemma rebuild_heap_of: "keyed (tk_tasks tp) \<Longrightarrow> go_order ordt \<Longrightarrow> heap_of (rebuild_heap ordt tp)"
proof -
  assume a: "keyed (tk_tasks tp)" "go_order ordt"
  let ?l = "map (\<lambda>i. the (tk_tasks tp i)) (ordt (dom (tk_tasks tp)))"
  from a have o: "set (ordt (dom (tk_tasks tp))) = dom (tk_tasks tp)" "distinct (ordt (dom (tk_tasks tp)))"
    by (auto simp: keyed_def go_order_def)
  then have "mset (ordt (dom (tk_tasks tp))) = mset_set (dom (tk_tasks tp))" by (metis mset_set_set)
  then have "mset ?l = pool_entries (tk_tasks tp)" by (simp add: pool_entries_def)
  moreover have "length (heap_init entry_before ?l) = length ?l" by (metis heap_init_mset size_mset)
  ultimately show ?thesis using a(1) entry_heap.init_heap [of ?l] by (simp add: heap_of_def rebuild_heap_def)
qed

lemma rebuild_keeps [simp]:
  "tk_tasks (rebuild_heap ordt tp) = tk_tasks tp" "tk_deadline_order (rebuild_heap ordt tp) = tk_deadline_order tp"
  "tk_max_tasks (rebuild_heap ordt tp) = tk_max_tasks tp" "tk_min_fee_rate (rebuild_heap ordt tp) = tk_min_fee_rate tp"
  by (simp_all add: rebuild_heap_def)

lemma new_pool_inv: "0 \<le> n \<Longrightarrow> task_pool_inv (new_task_pool n)"
  by (simp add: task_pool_inv_def new_task_pool_def heap_of_def keyed_def pool_entries_def tracked_def tk_count_def
      is_heap_def heap_init_def)

lemma count_delete: "finite (dom m) \<Longrightarrow> card (dom (m(i := None))) \<le> card (dom m)"
  by (intro card_mono) auto

lemma remove_task_inv:
  assumes "task_pool_inv tp" "go_order ordt"
  shows "task_pool_inv (remove_task ordt i tp)"
proof -
  have k: "keyed ((tk_tasks tp)(i := None))" using assms(1) by (auto simp: task_pool_inv_def heap_of_def intro: keyed_upd)
  from rebuild_heap_of [of "tp\<lparr>tk_tasks := (tk_tasks tp)(i := None)\<rparr>", OF _ assms(2)] k
  have "heap_of (remove_task ordt i tp)" by (simp add: remove_task_def)
  moreover have "tk_count (remove_task ordt i tp) \<le> tk_count tp"
    using assms(1) count_delete [of "tk_tasks tp" i] by (simp add: task_pool_inv_def heap_of_def keyed_def remove_task_def tk_count_def)
  ultimately show ?thesis using assms(1)
    by (auto simp: task_pool_inv_def remove_task_def tracked_def split: if_splits)
qed

lemma expire_entries_eq:
  "expire_entries h es m = (map te_task (filter (\<lambda>e. task_is_expired (te_task e) h) es),
     filter (\<lambda>e. \<not> task_is_expired (te_task e) h) es,
     (\<lambda>i. if i \<in> (\<lambda>e. t_id (te_task e)) ` {e \<in> set es. task_is_expired (te_task e) h} then None else m i))"
proof (induction es arbitrary: m)
  case (Cons e es)
  show ?case by (auto simp: Cons.IH task_is_expired_def fun_eq_iff)
qed simp

lemma expire_entries_map:
  assumes "expire_entries h es m = (x, r, m')"
  shows "m' = (\<lambda>i. if i \<in> (\<lambda>e. t_id (te_task e)) ` {e \<in> set es. task_is_expired (te_task e) h} then None else m i)"
    "r = filter (\<lambda>e. \<not> task_is_expired (te_task e) h) es" "x = map te_task (filter (\<lambda>e. task_is_expired (te_task e) h) es)"
  using assms unfolding expire_entries_eq by simp_all

lemma expire_inv:
  assumes "task_pool_inv tp" "go_order ordt" "expire_deadlines ordt h tp = (x, tp')"
  shows "task_pool_inv tp'"
proof -
  obtain r m' where e: "expire_entries h (tk_deadline_order tp) (tk_tasks tp) = (x, r, m')"
    "tp' = rebuild_heap ordt (tp\<lparr>tk_tasks := m', tk_deadline_order := r\<rparr>)"
    using assms(3) by (auto simp: expire_deadlines_def split: prod.splits)
  note m = expire_entries_map [OF e(1)]
  from assms(1) have k: "keyed (tk_tasks tp)" by (simp add: task_pool_inv_def heap_of_def)
  have sub: "m' \<subseteq>\<^sub>m tk_tasks tp" by (auto simp: m(1) map_le_def)
  then have dom: "dom m' \<subseteq> dom (tk_tasks tp)" by (rule map_le_implies_dom_le)
  with k have k': "keyed m'" unfolding keyed_def using sub finite_subset map_le_Some by (metis (full_types))
  from rebuild_heap_of [of "tp\<lparr>tk_tasks := m', tk_deadline_order := r\<rparr>", OF _ assms(2)] k'
  have "heap_of tp'" by (simp add: e(2))
  moreover have "card (dom m') \<le> card (dom (tk_tasks tp))" using k dom by (intro card_mono) (auto simp: keyed_def)
  moreover have "e1 \<in> set r" if "m' i = Some e1" "0 < t_deadline (te_task e1)" for i e1
  proof -
    have t: "tk_tasks tp i = Some e1" using map_le_Some [OF sub that(1)] .
    then have "t_id (te_task e1) = i" using k by (simp add: keyed_def)
    with assms(1) t that have "e1 \<in> set (tk_deadline_order tp)" by (auto simp: task_pool_inv_def tracked_def)
    moreover from that(1) have "\<not> task_is_expired (te_task e1) h"
      using calculation \<open>t_id (te_task e1) = i\<close> unfolding m(1) by (auto split: if_splits)
    ultimately show ?thesis by (simp add: m(2))
  qed
  ultimately show ?thesis using assms(1) by (auto simp: task_pool_inv_def tk_count_def tracked_def e(2))
qed

section \<open>Adding a task\<close>

definition deadline_before :: "task_pool_entry \<Rightarrow> task_pool_entry \<Rightarrow> bool" where
  "deadline_before a b \<longleftrightarrow> t_deadline (te_task a) < t_deadline (te_task b)"

interpretation deadline_heap: heap_order deadline_before
  by unfold_locales (auto simp: deadline_before_def)

lemma go_sort_set: "go_sort lt srt \<Longrightarrow> set (srt xs) = set xs"
  unfolding go_sort_def by (metis set_mset_mset)

lemma insert_entry_ok:
  assumes "heap_of tp" "tracked tp" "go_sort deadline_before srt" "tk_tasks tp (t_id (te_task e)) = None"
  shows "heap_of (insert_entry srt e tp)" "tracked (insert_entry srt e tp)"
    "tk_tasks (insert_entry srt e tp) = (tk_tasks tp)(t_id (te_task e) \<mapsto> e)"
    "tk_count (insert_entry srt e tp) = tk_count tp + 1"
    "tk_max_tasks (insert_entry srt e tp) = tk_max_tasks tp" "tk_min_fee_rate (insert_entry srt e tp) = tk_min_fee_rate tp"
proof -
  let ?tp = "insert_entry srt e tp"
  show t: "tk_tasks ?tp = (tk_tasks tp)(t_id (te_task e) \<mapsto> e)" and "tk_max_tasks ?tp = tk_max_tasks tp"
    "tk_min_fee_rate ?tp = tk_min_fee_rate tp"
    by (simp_all add: insert_entry_def Let_def)
  have p: "tk_prioritized ?tp = heap_push entry_before e (tk_prioritized tp)" by (simp add: insert_entry_def Let_def)
  from assms(1) have k: "keyed (tk_tasks tp)" "mset (tk_prioritized tp) = pool_entries (tk_tasks tp)"
    "is_heap entry_before 0 (length (tk_prioritized tp)) (tk_prioritized tp)" by (auto simp: heap_of_def)
  have fin: "finite (dom (tk_tasks tp))" using k(1) by (simp add: keyed_def)
  show "tk_count ?tp = tk_count tp + 1" using fin assms(4) by (simp add: tk_count_def t domIff)
  have "length (tk_prioritized ?tp) = Suc (length (tk_prioritized tp))"
    unfolding p by (metis heap_push_mset size_add_mset size_mset)
  then show "heap_of ?tp"
    using entry_heap.push_heap [OF k(3), of e] keyed_upd(1) [OF k(1) refl] pool_entries_insert [OF fin assms(4)] k(2)
    by (simp add: heap_of_def t p)
  have d: "set (tk_deadline_order ?tp) = set (tk_deadline_order tp) \<union> (if 0 < t_deadline (te_task e) then {e} else {})"
    using go_sort_set [OF assms(3)] by (simp add: insert_entry_def Let_def)
  show "tracked ?tp" using assms(2) unfolding tracked_def t d by auto
qed

lemma trim_one:
  assumes "heap_of tp" "tracked tp" "tk_count tp = limit + 1" "0 \<le> limit"
  obtains w rest where "trim_to_size limit tp = tp\<lparr>tk_prioritized := rest, tk_tasks := (tk_tasks tp)(t_id (te_task w) := None)\<rparr>"
    "tk_tasks tp (t_id (te_task w)) = Some w"
    "\<And>i x. tk_tasks tp i = Some x \<Longrightarrow> te_fee_per_compute x \<le> te_fee_per_compute w"
    "heap_of (trim_to_size limit tp)" "tracked (trim_to_size limit tp)" "tk_count (trim_to_size limit tp) = limit"
proof -
  from assms(1) have k: "keyed (tk_tasks tp)" "mset (tk_prioritized tp) = pool_entries (tk_tasks tp)"
    "is_heap entry_before 0 (length (tk_prioritized tp)) (tk_prioritized tp)" by (auto simp: heap_of_def)
  have len: "int (length (tk_prioritized tp)) = limit + 1"
    using arg_cong [OF k(2), of size] assms(3) by (simp add: pool_entries_size tk_count_def)
  with assms(4) obtain n where n: "length (tk_prioritized tp) = Suc n" by (cases "length (tk_prioritized tp)") auto
  then have ne: "tk_prioritized tp \<noteq> []" by auto
  then obtain w rest where pop: "heap_pop entry_before (tk_prioritized tp) = Ok (w, rest)" using heap_pop_Ok by blast
  note h = entry_heap.pop_heap [OF k(3) pop]
  have w: "tk_tasks tp (t_id (te_task w)) = Some w"
    using pool_entries_in [OF k(1), of w] h(3) k(2) by (metis union_single_eq_member)
  let ?tp = "tp\<lparr>tk_prioritized := rest, tk_tasks := (tk_tasks tp)(t_id (te_task w) := None)\<rparr>"
  have fin: "finite (dom (tk_tasks tp))" using k(1) by (simp add: keyed_def)
  moreover have "card (dom (tk_tasks tp)) = Suc n" using arg_cong [OF k(2), of size] n by (simp add: pool_entries_size)
  ultimately have count: "tk_count ?tp = limit" using w assms(3) by (auto simp: tk_count_def card_Diff_singleton domI)
  then have trim: "trim_to_size limit tp = ?tp"
    using ne pop assms(3) by (cases n) (auto simp: trim_to_size_def n)
  have "heap_of ?tp"
    using keyed_upd(2) [OF k(1)] h(1,3) k(2) pool_entries_delete [OF fin w] by (simp add: heap_of_def)
  moreover have "tracked ?tp" using assms(2) by (auto simp: tracked_def split: if_splits)
  moreover have "te_fee_per_compute x \<le> te_fee_per_compute w" if "tk_tasks tp i = Some x" for i x
  proof -
    have "x \<in># add_mset w (mset rest)" using pool_entries_in [OF k(1), of x] that k(1,2) h(3) by (simp add: keyed_def)
    with h(2) [of x] show ?thesis by (auto simp: entry_before_def)
  qed
  ultimately show thesis using that w trim count by metis
qed

definition add_entry :: "(task_pool_entry list \<Rightarrow> task_pool_entry list) \<Rightarrow> task_pool_entry \<Rightarrow> task_pool \<Rightarrow> task_pool" where
  "add_entry srt e tp = (let tp1 = insert_entry srt e tp in
     if tk_count tp1 > tk_max_tasks tp1 then trim_to_size (tk_max_tasks tp1) tp1 else tp1)"

lemma add_entry_ok:
  assumes "task_pool_inv tp" "go_sort deadline_before srt" "tk_tasks tp (t_id (te_task e)) = None"
  shows "task_pool_inv (add_entry srt e tp) \<and>
    (if tk_count tp < tk_max_tasks tp then tk_tasks (add_entry srt e tp) = (tk_tasks tp)(t_id (te_task e) \<mapsto> e)
     else \<exists>w. ((tk_tasks tp)(t_id (te_task e) \<mapsto> e)) (t_id (te_task w)) = Some w \<and>
       (\<forall>x \<in> ran ((tk_tasks tp)(t_id (te_task e) \<mapsto> e)). te_fee_per_compute x \<le> te_fee_per_compute w) \<and>
       tk_tasks (add_entry srt e tp) = ((tk_tasks tp)(t_id (te_task e) \<mapsto> e))(t_id (te_task w) := None))"
proof -
  from assms(1) have inv: "heap_of tp" "tracked tp" "0 \<le> tk_max_tasks tp" "tk_count tp \<le> tk_max_tasks tp" "tk_min_fee_rate tp = Some 0"
    by (auto simp: task_pool_inv_def)
  note i = insert_entry_ok [OF inv(1,2) assms(2,3)]
  let ?tp = "insert_entry srt e tp"
  show ?thesis
  proof (cases "tk_count tp < tk_max_tasks tp")
    case True
    then have "add_entry srt e tp = ?tp" by (simp add: add_entry_def Let_def i)
    with True i inv show ?thesis by (simp add: task_pool_inv_def)
  next
    case False
    with inv(4) have full: "tk_count ?tp = tk_max_tasks tp + 1" by (simp add: i)
    obtain w :: task_pool_entry and rest where w: "trim_to_size (tk_max_tasks tp) ?tp = ?tp\<lparr>tk_prioritized := rest, tk_tasks := (tk_tasks ?tp)(t_id (te_task w) := None)\<rparr>"
      "tk_tasks ?tp (t_id (te_task w)) = Some w" "\<And>i x. tk_tasks ?tp i = Some x \<Longrightarrow> te_fee_per_compute x \<le> te_fee_per_compute w"
      "heap_of (trim_to_size (tk_max_tasks tp) ?tp)" "tracked (trim_to_size (tk_max_tasks tp) ?tp)"
      "tk_count (trim_to_size (tk_max_tasks tp) ?tp) = tk_max_tasks tp"
      by (rule trim_one [OF i(1,2) full inv(3)]) (rule that)
    have a: "add_entry srt e tp = trim_to_size (tk_max_tasks tp) ?tp" using full by (simp add: add_entry_def Let_def i)
    have "tk_max_tasks (add_entry srt e tp) = tk_max_tasks tp" "tk_min_fee_rate (add_entry srt e tp) = Some 0"
      unfolding a w(1) by (simp_all add: i inv)
    with a w inv(3) have "task_pool_inv (add_entry srt e tp)" by (simp add: task_pool_inv_def)
    moreover have "tk_tasks (add_entry srt e tp) = (tk_tasks ?tp)(t_id (te_task w) := None)" unfolding a w(1) by simp
    moreover have "\<forall>x \<in> ran (tk_tasks ?tp). te_fee_per_compute x \<le> te_fee_per_compute w" using w(3) by (auto simp: ran_def)
    ultimately have "\<exists>w. tk_tasks ?tp (t_id (te_task w)) = Some w \<and> (\<forall>x \<in> ran (tk_tasks ?tp). te_fee_per_compute x \<le> te_fee_per_compute w) \<and>
       tk_tasks (add_entry srt e tp) = (tk_tasks ?tp)(t_id (te_task w) := None)" and "task_pool_inv (add_entry srt e tp)"
      using w(2) by blast+
    with False show ?thesis unfolding i(3) by simp
  qed
qed

definition entry_for :: "int \<Rightarrow> task \<Rightarrow> u64 \<Rightarrow> int \<Rightarrow> task_pool \<Rightarrow> task_pool_entry" where
  "entry_for now t h fpc tp = \<lparr>te_task = t, te_fee_per_compute = fpc, te_entry_time = now,
     te_entry_height = h, te_sequence_number = tk_sequence_counter tp\<rparr>"

lemma units_pos: "0 < uint (estimate_compute_units t)"
  by (simp add: estimate_compute_units_def)

lemma fee_per_compute_eq: "t_fee t = Some fee \<Longrightarrow> fee_per_compute t = Ok (fee div uint (estimate_compute_units t))"
  using units_pos [of t] by (auto simp: fee_per_compute_def Let_def to_big_int_def euclid_div_def)

lemma add_task_eq:
  assumes "tk_tasks tp (t_id t) = None" "fee_per_compute t = Ok fpc" "tk_min_fee_rate tp = Some 0"
  shows "add_task srt now t h tp = (if fpc < 0 \<and> sgn (tk_max_tasks tp) * (\<bar>tk_max_tasks tp\<bar> div 2) \<le> tk_count tp
    then Err ''fee per compute too low'' else Ok (add_entry srt (entry_for now t h fpc tp) tp))"
  using assms by (simp add: add_task_def add_entry_def entry_for_def amount_cmp_def Let_def)

lemma add_task_inv:
  assumes "task_pool_inv tp" "go_sort deadline_before srt" "add_task srt now t h tp = Ok tp'"
  shows "task_pool_inv tp'"
proof -
  from assms(3) obtain fpc where f: "tk_tasks tp (t_id t) = None" "fee_per_compute t = Ok fpc"
    by (auto simp: add_task_def obind_Ok_iff split: if_splits)
  have "tk_min_fee_rate tp = Some 0" using assms(1) by (simp add: task_pool_inv_def)
  from add_task_eq [OF f this, of srt now h] assms(3) have "tp' = add_entry srt (entry_for now t h fpc tp) tp"
    by (auto split: if_splits)
  with add_entry_ok [OF assms(1,2), of "entry_for now t h fpc tp"] f(1) show ?thesis by (simp add: entry_for_def)
qed

lemma update_fee_inv:
  assumes "task_pool_inv tp" "update_min_fee_rate decay now tp = Ok tp'"
  shows "task_pool_inv tp'"
proof -
  have "tk_min_fee_rate tp = Some 0" using assms(1) by (simp add: task_pool_inv_def)
  with assms(2) have "tk_tasks tp' = tk_tasks tp \<and> tk_prioritized tp' = tk_prioritized tp \<and> tk_deadline_order tp' = tk_deadline_order tp \<and>
      tk_max_tasks tp' = tk_max_tasks tp \<and> tk_min_fee_rate tp' = Some 0"
    by (auto simp: update_min_fee_rate_def to_big_int_def euclid_div_def split: option.splits if_splits)
  with assms(1) show ?thesis by (simp add: task_pool_inv_def heap_of_def tracked_def tk_count_def)
qed

section \<open>Reachable pools\<close>

inductive tk_reachable :: "int \<Rightarrow> task_pool \<Rightarrow> bool" for maxTasks where
  tk_new: "tk_reachable maxTasks (new_task_pool maxTasks)"
| tk_add: "tk_reachable maxTasks tp \<Longrightarrow> go_sort deadline_before srt \<Longrightarrow> add_task srt now t h tp = Ok tp' \<Longrightarrow> tk_reachable maxTasks tp'"
| tk_remove: "tk_reachable maxTasks tp \<Longrightarrow> go_order ordt \<Longrightarrow> tk_reachable maxTasks (remove_task ordt i tp)"
| tk_expire: "tk_reachable maxTasks tp \<Longrightarrow> go_order ordt \<Longrightarrow> expire_deadlines ordt h tp = (x, tp') \<Longrightarrow> tk_reachable maxTasks tp'"
| tk_fee: "tk_reachable maxTasks tp \<Longrightarrow> update_min_fee_rate decay now tp = Ok tp' \<Longrightarrow> tk_reachable maxTasks tp'"

lemma tk_reachable_inv: "tk_reachable n tp \<Longrightarrow> 0 \<le> n \<Longrightarrow> task_pool_inv tp"
  by (induction rule: tk_reachable.induct) (auto intro: new_pool_inv add_task_inv remove_task_inv expire_inv update_fee_inv)

lemma trim_loop_max [simp]: "tk_max_tasks (trim_loop n limit tp) = tk_max_tasks tp"
  by (induction n arbitrary: tp) (auto split: outcome.splits)

lemma add_task_max: "add_task srt now t h tp = Ok tp' \<Longrightarrow> tk_max_tasks tp' = tk_max_tasks tp"
  by (auto simp: add_task_def obind_Ok_iff insert_entry_def trim_to_size_def Let_def split: if_splits)

lemma update_fee_max: "update_min_fee_rate decay now tp = Ok tp' \<Longrightarrow> tk_max_tasks tp' = tk_max_tasks tp"
  by (auto simp: update_min_fee_rate_def obind_Ok_iff split: option.splits if_splits)

lemma tk_reachable_max: "tk_reachable n tp \<Longrightarrow> tk_max_tasks tp = n"
proof (induction rule: tk_reachable.induct)
  case (tk_expire tp ordt h x tp')
  then show ?case by (auto simp: expire_deadlines_def split: prod.splits)
qed (auto simp: new_task_pool_def add_task_max update_fee_max remove_task_def)

lemma take_highest_drain: "take_highest n heap = map te_task (heap_drain entry_before n heap)"
  by (induction n heap rule: take_highest.induct) (auto split: outcome.splits)

lemma take_for_miner_drain:
  "length heap \<le> n \<Longrightarrow> take_for_miner n tier k heap ts =
    ts @ take (k - length ts) (map te_task (filter (\<lambda>e. t_tier (te_task e) \<le> tier) (heap_drain entry_before n heap)))"
proof (induction n arbitrary: heap ts)
  case (Suc n)
  show ?case
  proof (cases "heap \<noteq> [] \<and> length ts < k")
    case True
    then obtain e rest where p: "heap_pop entry_before heap = Ok (e, rest)" using heap_pop_Ok by blast
    have "length rest \<le> n" using arg_cong [OF heap_pop_mset [OF p], of size] Suc.prems by simp
    from Suc.IH [OF this] True p show ?thesis by (auto simp: take_Cons')
  qed (auto simp: heap_pop_def)
qed simp

section \<open>Properties\<close>

text \<open>
  C7: the indexes of the pool agree. In every reachable pool the tasks are kept under their own
  identifiers, the heap holds exactly their entries and is ordered, every task with a deadline is in
  the deadline list, and the pool never exceeds its limit.
\<close>

theorem task_pool_consistent:
  assumes "tk_reachable n tp" "0 \<le> n"
  shows "finite (dom (tk_tasks tp)) \<and> (\<forall>i e. tk_tasks tp i = Some e \<longrightarrow> t_id (te_task e) = i) \<and>
    mset (tk_prioritized tp) = image_mset (\<lambda>i. the (tk_tasks tp i)) (mset_set (dom (tk_tasks tp))) \<and>
    is_heap entry_before 0 (length (tk_prioritized tp)) (tk_prioritized tp) \<and>
    (\<forall>i e. tk_tasks tp i = Some e \<longrightarrow> 0 < t_deadline (te_task e) \<longrightarrow> e \<in> set (tk_deadline_order tp)) \<and>
    tk_count tp \<le> n"
  using tk_reachable_inv [OF assms] tk_reachable_max [OF assms(1)]
  by (simp add: task_pool_inv_def heap_of_def keyed_def tracked_def pool_entries_def)

text \<open>
  A full pool drops its best task. When a task of a new identifier enters a full pool, the entry that
  is dropped pays at least as much per unit of compute as every other, the new one included.
\<close>

theorem full_pool_drops_best:
  assumes "tk_reachable n tp" "0 \<le> n" "go_sort deadline_before srt" "tk_count tp = n"
    "add_task srt now t h tp = Ok tp'"
  shows "\<exists>e w. te_task e = t \<and> fee_per_compute t = Ok (te_fee_per_compute e) \<and> ((tk_tasks tp)(t_id t \<mapsto> e)) (t_id (te_task w)) = Some w \<and>
    (\<forall>x \<in> ran ((tk_tasks tp)(t_id t \<mapsto> e)). te_fee_per_compute x \<le> te_fee_per_compute w) \<and>
    tk_tasks tp' = ((tk_tasks tp)(t_id t \<mapsto> e))(t_id (te_task w) := None)"
proof -
  have inv: "task_pool_inv tp" by (rule tk_reachable_inv [OF assms(1,2)])
  from assms(5) obtain fpc where f: "tk_tasks tp (t_id t) = None" "fee_per_compute t = Ok fpc"
    by (auto simp: add_task_def obind_Ok_iff split: if_splits)
  let ?e = "entry_for now t h fpc tp"
  have e: "te_task ?e = t" "fee_per_compute t = Ok (te_fee_per_compute ?e)" by (simp_all add: entry_for_def f(2))
  have "tk_min_fee_rate tp = Some 0" using inv by (simp add: task_pool_inv_def)
  from add_task_eq [OF f this, of srt now h] assms(5) have tp': "tp' = add_entry srt ?e tp"
    by (auto split: if_splits)
  have full: "\<not> tk_count tp < tk_max_tasks tp" using assms(4) tk_reachable_max [OF assms(1)] by simp
  have n: "tk_tasks tp (t_id (te_task ?e)) = None" using f(1) e(1) by simp
  from add_entry_ok [OF inv assms(3) n] full have "\<exists>w. ((tk_tasks tp)(t_id t \<mapsto> ?e)) (t_id (te_task w)) = Some w \<and>
      (\<forall>x \<in> ran ((tk_tasks tp)(t_id t \<mapsto> ?e)). te_fee_per_compute x \<le> te_fee_per_compute w) \<and>
      tk_tasks tp' = ((tk_tasks tp)(t_id t \<mapsto> ?e))(t_id (te_task w) := None)"
    unfolding e(1) tp' by simp
  with e show ?thesis by blast
qed

text \<open>
  The fee gate never closes. The minimum fee starts at zero and only ever decays, so in every
  reachable pool, full or not, a task of a new identifier and any fee that is not negative is admitted.
\<close>

theorem fee_gate_open:
  assumes "tk_reachable n tp" "0 \<le> n" "tk_tasks tp (t_id t) = None" "t_fee t = Some fee" "0 \<le> fee"
  shows "tk_min_fee_rate tp = Some 0 \<and> (\<exists>tp'. add_task srt now t h tp = Ok tp')"
proof -
  have z: "tk_min_fee_rate tp = Some 0" using tk_reachable_inv [OF assms(1,2)] by (simp add: task_pool_inv_def)
  have "0 \<le> fee div uint (estimate_compute_units t)"
    using assms(5) units_pos [of t] by (simp add: pos_imp_zdiv_nonneg_iff)
  with add_task_eq [OF assms(3) fee_per_compute_eq [OF assms(4)] z, of srt now h] z show ?thesis by simp
qed

text \<open>
  The best tasks come first. \<open>GetHighestPriorityTasks(k)\<close> returns, in falling order of fee per unit
  of compute, the tasks of \<open>k\<close> entries (or of all, when there are fewer) than which no other entry pays
  more; \<open>GetTasksForMiner\<close> returns the first \<open>k\<close> tasks of this order that the miner's tier covers.
\<close>

theorem highest_priority_first:
  assumes "tk_reachable n tp" "0 \<le> n" "0 \<le> k"
  shows "\<exists>es rest. get_highest_priority_tasks k tp = Ok (map te_task (take (nat k) es)) \<and>
    get_tasks_for_miner tier k tp = Ok (take (nat k) (filter (\<lambda>t. t_tier t \<le> tier) (map te_task es))) \<and>
    mset es = mset (tk_prioritized tp) \<and> sorted_wrt (\<lambda>a b. te_fee_per_compute b \<le> te_fee_per_compute a) es"
proof -
  let ?h = "heap_init entry_before (tk_prioritized tp)"
  let ?es = "heap_drain entry_before (length ?h) ?h"
  have len: "length ?h = length (tk_prioritized tp)" by (metis heap_init_mset size_mset)
  have sort: "mset ?es = mset (tk_prioritized tp)" "sorted_wrt (\<lambda>a b. \<not> entry_before b a) ?es"
    using entry_heap.heap_sort unfolding go_sort_def len by auto
  have "heap_drain entry_before m xs = take m (heap_drain entry_before (length xs) xs)" for m xs
  proof (induction m arbitrary: xs)
    case (Suc m)
    show ?case
    proof (cases "xs = []")
      case False
      then obtain x ys where p: "heap_pop entry_before xs = Ok (x, ys)" using heap_pop_Ok by blast
      then have "length xs = Suc (length ys)" using arg_cong [OF heap_pop_mset [OF p], of size] by simp
      with p Suc.IH [of ys] show ?thesis by simp
    qed (simp add: heap_pop_def)
  qed simp
  then have "heap_drain entry_before (nat k) ?h = take (nat k) ?es" .
  then have "get_highest_priority_tasks k tp = Ok (map te_task (take (nat k) ?es))"
    using assms(3) by (simp add: get_highest_priority_tasks_def take_highest_drain take_map)
  moreover have "get_tasks_for_miner tier k tp = Ok (take (nat k) (filter (\<lambda>t. t_tier t \<le> tier) (map te_task ?es)))"
    using assms(3) take_for_miner_drain [of ?h "length ?h" tier "nat k" "[]"]
    by (simp add: get_tasks_for_miner_def Let_def filter_map comp_def)
  moreover have "sorted_wrt (\<lambda>a b. te_fee_per_compute b \<le> te_fee_per_compute a) ?es"
    using sort(2) by (simp add: entry_before_def not_less)
  ultimately show ?thesis using sort(1) by blast
qed

text \<open>
  A removed task still expires. RemoveTask leaves the deadline list alone, so the next
  \<open>ExpireDeadlines\<close> after the deadline reports a task that is long gone from the pool.
\<close>

theorem removed_task_expires:
  assumes "tk_reachable n tp" "0 \<le> n" "tk_tasks tp i = Some e" "0 < t_deadline (te_task e)" "t_deadline (te_task e) < h"
    "go_order ordt"
  shows "tk_tasks (remove_task ordt i tp) i = None \<and> te_task e \<in> set (fst (expire_deadlines ordt h (remove_task ordt i tp)))"
proof -
  have "e \<in> set (tk_deadline_order tp)"
    using tk_reachable_inv [OF assms(1,2)] assms(3,4) by (auto simp: task_pool_inv_def tracked_def)
  with assms(4,5) show ?thesis
    by (auto simp: remove_task_def expire_deadlines_def expire_entries_eq task_is_expired_def)
qed

section \<open>Witnesses\<close>

definition small_task :: "byte \<Rightarrow> int \<Rightarrow> task" where
  "small_task i fee = \<lparr>t_id = replicate 32 i, t_creator = replicate 20 1, t_tier = 1,
     t_model_spec = \<lparr>ms_model_id = [], ms_quantization = [], ms_max_tokens = 0, ms_temperature = 0, ms_top_p = 0\<rparr>,
     t_input_hash = empty_hash, t_input_size = 1024, t_fee = Some fee, t_collateral = Some 0, t_deadline = 90,
     t_sequence = sequence_final, t_created_at = 0, t_status = task_status_pending, t_assigned_miner = zero_address,
     t_dag = None, t_hash = replicate 32 i, t_hash_once = True\<rparr>"

definition drain_sort :: "task_pool_entry list \<Rightarrow> task_pool_entry list" where
  "drain_sort xs = heap_drain deadline_before (length xs) (heap_init deadline_before xs)"

lemma drain_sort: "go_sort deadline_before drain_sort"
  using deadline_heap.heap_sort by (simp add: drain_sort_def [abs_def])

text \<open>A pool of one place that holds a task of fee 9.\<close>

lemma one_place:
  obtains tp e where "tk_reachable 1 tp" "tk_tasks tp = [replicate 32 1 \<mapsto> e]" "te_task e = small_task 1 9"
    "te_fee_per_compute e = 9" "tk_count tp = 1"
proof -
  have f: "fee_per_compute (small_task 1 9) = Ok 9"
    by (simp add: fee_per_compute_eq [of _ 9] small_task_def estimate_compute_units_def tier_defs)
  let ?e = "entry_for 0 (small_task 1 9) 5 9 (new_task_pool 1)"
  have z: "tk_tasks (new_task_pool 1) (t_id (small_task 1 9)) = None" "tk_min_fee_rate (new_task_pool 1) = Some 0"
    "tk_tasks (new_task_pool 1) = Map.empty" "tk_count (new_task_pool 1) < tk_max_tasks (new_task_pool 1)"
    by (simp_all add: new_task_pool_def tk_count_def)
  have e: "te_task ?e = small_task 1 9" "te_fee_per_compute ?e = 9" by (simp_all add: entry_for_def)
  from add_task_eq [OF z(1) f z(2)] have a: "add_task drain_sort 0 (small_task 1 9) 5 (new_task_pool 1) = Ok (add_entry drain_sort ?e (new_task_pool 1))"
    by simp
  have one: "tk_tasks (add_entry drain_sort ?e (new_task_pool 1)) = [replicate 32 1 \<mapsto> ?e]"
    using add_entry_ok [OF new_pool_inv drain_sort, of 1 ?e] z e by (simp add: small_task_def)
  show thesis
    by (rule that [OF tk_add [OF tk_new drain_sort a], of ?e]) (use e in \<open>simp_all add: tk_count_def one\<close>)
qed

theorem task_pool_consistent_witness:
  "\<exists>tp. tk_reachable 1 tp \<and> tk_tasks tp \<noteq> Map.empty \<and> tk_count tp \<le> 1"
proof -
  obtain tp e where t: "tk_reachable 1 tp" "tk_tasks tp = [replicate 32 1 \<mapsto> e]" by (rule one_place)
  have "tk_tasks tp \<noteq> Map.empty" unfolding t(2) by simp
  with task_pool_consistent [OF t(1)] t(1) show ?thesis by fastforce
qed

theorem full_pool_drops_best_witness:
  "\<exists>tp tp'. tk_reachable 1 tp \<and> tk_count tp = 1 \<and> add_task drain_sort 0 (small_task 2 4) 5 tp = Ok tp' \<and>
     tk_tasks tp' (replicate 32 1) = None"
proof -
  obtain tp e where t: "tk_reachable 1 tp" "tk_tasks tp = [replicate 32 1 \<mapsto> e]" "te_task e = small_task 1 9"
    "te_fee_per_compute e = 9" "tk_count tp = 1" by (rule one_place)
  have f: "fee_per_compute (small_task 2 4) = Ok 4"
    by (simp add: fee_per_compute_eq [of _ 4] small_task_def estimate_compute_units_def tier_defs)
  have n: "tk_tasks tp (t_id (small_task 2 4)) = None" by (simp add: t(2) small_task_def)
  have z: "tk_min_fee_rate tp = Some 0" using tk_reachable_inv [OF t(1)] by (simp add: task_pool_inv_def)
  from add_task_eq [OF n f z] obtain tp' where a: "add_task drain_sort 0 (small_task 2 4) 5 tp = Ok tp'"
    "tp' = add_entry drain_sort (entry_for 0 (small_task 2 4) 5 4 tp) tp" by auto
  from full_pool_drops_best [OF t(1) zero_le_one drain_sort t(5) a(1)] obtain e2 w :: task_pool_entry where w: "te_task e2 = small_task 2 4"
    "((tk_tasks tp)(t_id (small_task 2 4) \<mapsto> e2)) (t_id (te_task w)) = Some w"
    "\<forall>x \<in> ran ((tk_tasks tp)(t_id (small_task 2 4) \<mapsto> e2)). te_fee_per_compute x \<le> te_fee_per_compute w"
    "tk_tasks tp' = ((tk_tasks tp)(t_id (small_task 2 4) \<mapsto> e2))(t_id (te_task w) := None)"
    "fee_per_compute (small_task 2 4) = Ok (te_fee_per_compute e2)" by (elim exE conjE) simp_all
  have "replicate 32 1 \<noteq> t_id (small_task 2 4)" by (simp add: small_task_def)
  then have "e \<in> ran ((tk_tasks tp)(t_id (small_task 2 4) \<mapsto> e2))" by (auto simp: t(2) ran_def)
  with w(3) t(4) have "9 \<le> te_fee_per_compute w" by auto
  moreover have "te_fee_per_compute e2 = 4" using w(5) f by simp
  ultimately have "w \<noteq> e2" by auto
  with w(2) have "t_id (te_task w) = replicate 32 1" by (auto simp: t(2) split: if_splits)
  then have "tk_tasks tp' (replicate 32 1) = None" using w(4) by simp
  with t a show ?thesis by blast
qed

theorem fee_gate_open_witness:
  "\<exists>tp tp'. tk_reachable 1 tp \<and> tk_count tp = 1 \<and> add_task drain_sort 0 (small_task 2 0) 5 tp = Ok tp'"
proof -
  obtain tp e where t: "tk_reachable 1 tp" "tk_tasks tp = [replicate 32 1 \<mapsto> e]" "tk_count tp = 1" by (rule one_place)
  have "tk_tasks tp (t_id (small_task 2 0)) = None" "t_fee (small_task 2 0) = Some 0" by (simp_all add: t(2) small_task_def)
  from fee_gate_open [OF t(1) _ this] t show ?thesis by auto
qed

theorem highest_priority_first_witness:
  "\<exists>tp. tk_reachable 1 tp \<and> get_highest_priority_tasks 2 tp = Ok [small_task 1 9] \<and> get_tasks_for_miner 0 2 tp = Ok []"
proof -
  obtain tp e where t: "tk_reachable 1 tp" "tk_tasks tp = [replicate 32 1 \<mapsto> e]" "te_task e = small_task 1 9"
    by (rule one_place)
  have "heap_of tp" using tk_reachable_inv [OF t(1)] by (simp add: task_pool_inv_def)
  then have "tk_prioritized tp = [e]" by (simp add: heap_of_def pool_entries_def t(2))
  with highest_priority_first [OF t(1), of 2 0] obtain es where es: "mset es = {#e#}"
    "get_highest_priority_tasks 2 tp = Ok (map te_task (take 2 es))"
    "get_tasks_for_miner 0 2 tp = Ok (take 2 (filter (\<lambda>t. t_tier t \<le> 0) (map te_task es)))" by auto
  from es(1) have "es = [e]" by simp
  with es t(1,3) show ?thesis by (auto simp: small_task_def)
qed

theorem removed_task_expires_witness:
  "\<exists>tp. tk_reachable 1 tp \<and> small_task 1 9 \<in> set (fst (expire_deadlines sorted_list_of_set 91 (remove_task sorted_list_of_set (replicate 32 1) tp)))"
proof -
  obtain tp e where t: "tk_reachable 1 tp" "tk_tasks tp = [replicate 32 1 \<mapsto> e]" "te_task e = small_task 1 9"
    by (rule one_place)
  have "tk_tasks tp (replicate 32 1) = Some e" "0 < t_deadline (te_task e)" "t_deadline (te_task e) < 91"
    by (simp_all add: t(2,3) small_task_def)
  from removed_task_expires [OF t(1) _ this go_order_sorted] t show ?thesis by auto
qed

end
