(* ===== verification/VerifierProps.thy ===== *)
theory VerifierProps
  imports Tasks "HOL-Library.List_Lexorder"
begin

text \<open>
  The verification of results (verifier.go) as a state machine under growing block heights: a pending
  result is accepted exactly when its challenge window has closed, a decided result is final once the
  window has passed, and at the last height of the window an accepted result can still be overturned.
  Compute units (compute_utxo.go) are never spent or expired twice.
\<close>

section \<open>Finalisation\<close>

definition accept_pending :: "verifier_state \<Rightarrow> verifier_state" where
  "accept_pending s = (if vst_status s = verifier_pending then s\<lparr>vst_status := verifier_accepted\<rparr> else s)"

lemma accept_pending_simps [simp]:
  "accept_pending (accept_pending s) = accept_pending s" "vst_challenge_ends (accept_pending s) = vst_challenge_ends s"
  "vst_task_id (accept_pending s) = vst_task_id s" "vst_status (accept_pending s) \<noteq> verifier_pending"
  by (simp_all add: accept_pending_def verifier_defs)

definition pending_at :: "(task_id \<Rightarrow> verifier_state option) \<Rightarrow> task_id \<Rightarrow> bool" where
  "pending_at states i \<longleftrightarrow> (\<exists>s. states i = Some s \<and> vst_status s = verifier_pending)"

lemma finalize_tasks_eq:
  "snd (finalize_tasks l m) = (\<lambda>i. if i \<in> set l then map_option accept_pending (m i) else m i) \<and>
   set (fst (finalize_tasks l m)) = {i \<in> set l. pending_at m i} \<and> distinct (fst (finalize_tasks l m))"
proof (induction l arbitrary: m)
  case (Cons j l)
  show ?case
  proof (cases "pending_at m j")
    case False
    then have eq: "finalize_tasks (j # l) m = finalize_tasks l m" "map_option accept_pending (m j) = m j"
      by (cases "m j"; auto simp: pending_at_def accept_pending_def)+
    have "(\<lambda>i. if i \<in> set (j # l) then map_option accept_pending (m i) else m i) =
        (\<lambda>i. if i \<in> set l then map_option accept_pending (m i) else m i)" using eq(2) by (auto simp: fun_eq_iff)
    moreover have "{i \<in> set (j # l). pending_at m i} = {i \<in> set l. pending_at m i}" using False by auto
    ultimately show ?thesis unfolding eq(1) using Cons.IH [of m] by simp
  next
    case True
    then obtain s where s: "m j = Some s" "vst_status s = verifier_pending" by (auto simp: pending_at_def)
    let ?m = "m(j \<mapsto> accept_pending s)"
    have eq: "finalize_tasks (j # l) m = (j # fst (finalize_tasks l ?m), snd (finalize_tasks l ?m))"
      using s by (simp add: accept_pending_def split: prod.split)
    have p: "pending_at ?m i \<longleftrightarrow> i \<noteq> j \<and> pending_at m i" for i by (auto simp: pending_at_def)
    have st: "(\<lambda>i. if i \<in> set l then map_option accept_pending (?m i) else ?m i) =
        (\<lambda>i. if i \<in> set (j # l) then map_option accept_pending (m i) else m i)" using s(1) by (auto simp: fun_eq_iff)
    have ins: "insert j {i \<in> set l. pending_at ?m i} = {i \<in> set (j # l). pending_at m i}" unfolding p using True by auto
    have "j \<notin> set (fst (finalize_tasks l ?m))" using Cons.IH [of ?m] p by blast
    then show ?thesis unfolding eq fst_conv snd_conv ins [symmetric] st [symmetric]
      using Cons.IH [of ?m] by (simp only: distinct.simps list.set simp_thms)
  qed
qed simp

definition listed :: "verifier \<Rightarrow> u64 \<Rightarrow> task_id set" where
  "listed v k = (case vr_by_height v k of None \<Rightarrow> {} | Some l \<Rightarrow> set l)"

text \<open>One height of the loop of \<open>FinalizeResults\<close>.\<close>

definition close_height :: "u64 \<Rightarrow> verifier \<Rightarrow> verifier" where
  "close_height k v = v\<lparr>vr_states := (\<lambda>i. if i \<in> listed v k then map_option accept_pending (vr_states v i) else vr_states v i),
     vr_by_height := (vr_by_height v)(k := None)\<rparr>"

lemma finalize_heights_Cons:
  "k \<le> h \<Longrightarrow> \<exists>f. set f = {i \<in> listed v k. pending_at (vr_states v) i} \<and> distinct f \<and>
    finalize_heights h (k # ks) v = (f @ fst (finalize_heights h ks (close_height k v)), snd (finalize_heights h ks (close_height k v)))"
proof -
  assume k: "k \<le> h"
  define l where "l = (case vr_by_height v k of None \<Rightarrow> [] | Some l \<Rightarrow> l)"
  have l: "set l = listed v k" by (simp add: l_def listed_def split: option.split)
  let ?r = "finalize_tasks l (vr_states v)"
  have "finalize_heights h (k # ks) v = (fst ?r @ fst (finalize_heights h ks (v\<lparr>vr_states := snd ?r, vr_by_height := (vr_by_height v)(k := None)\<rparr>)),
      snd (finalize_heights h ks (v\<lparr>vr_states := snd ?r, vr_by_height := (vr_by_height v)(k := None)\<rparr>)))"
    using k unfolding l_def by (simp add: Let_def split: prod.split)
  moreover have "v\<lparr>vr_states := snd ?r, vr_by_height := (vr_by_height v)(k := None)\<rparr> = close_height k v"
    using finalize_tasks_eq [of l "vr_states v"] by (simp add: close_height_def l)
  ultimately show ?thesis using finalize_tasks_eq [of l "vr_states v"] l by (intro exI [of _ "fst ?r"]) simp
qed

definition disjoint_heights :: "verifier \<Rightarrow> bool" where
  "disjoint_heights v \<longleftrightarrow> (\<forall>k k' i. i \<in> listed v k \<longrightarrow> i \<in> listed v k' \<longrightarrow> k = k')"

lemma finalize_heights_eq:
  "distinct ks \<Longrightarrow> disjoint_heights v \<Longrightarrow>
    vr_states (snd (finalize_heights h ks v)) =
      (\<lambda>i. if \<exists>k \<in> set ks. k \<le> h \<and> i \<in> listed v k then map_option accept_pending (vr_states v i) else vr_states v i) \<and>
    vr_by_height (snd (finalize_heights h ks v)) = (\<lambda>k. if k \<in> set ks \<and> k \<le> h then None else vr_by_height v k) \<and>
    vr_config (snd (finalize_heights h ks v)) = vr_config v \<and>
    set (fst (finalize_heights h ks v)) = {i. pending_at (vr_states v) i \<and> (\<exists>k \<in> set ks. k \<le> h \<and> i \<in> listed v k)} \<and>
    distinct (fst (finalize_heights h ks v))"
proof (induction ks arbitrary: v)
  case (Cons k ks)
  show ?case
  proof (cases "k \<le> h")
    case False
    with Cons show ?thesis by (auto simp: fun_eq_iff)
  next
    case True
    let ?v = "close_height k v" and ?P = "\<lambda>v i. \<exists>k \<in> set ks. k \<le> h \<and> i \<in> listed v k"
    obtain f where f: "set f = {i \<in> listed v k. pending_at (vr_states v) i}" "distinct f"
      "finalize_heights h (k # ks) v = (f @ fst (finalize_heights h ks ?v), snd (finalize_heights h ks ?v))"
      using finalize_heights_Cons [OF True] by blast
    have lv: "listed ?v k' = (if k' = k then {} else listed v k')" for k' by (simp add: listed_def close_height_def)
    have dj: "disjoint_heights ?v" using Cons.prems(2) by (simp add: disjoint_heights_def lv)
    have P: "?P ?v i \<longleftrightarrow> ?P v i" "i \<in> listed v k \<Longrightarrow> \<not> ?P v i" for i
      using Cons.prems by (auto simp: lv disjoint_heights_def)
    have pend: "pending_at (vr_states ?v) i \<longleftrightarrow> pending_at (vr_states v) i \<and> i \<notin> listed v k" for i
      by (auto simp: pending_at_def close_height_def)
    from Cons.IH [OF _ dj] Cons.prems(1) have IH:
      "vr_states (snd (finalize_heights h ks ?v)) = (\<lambda>i. if ?P ?v i then map_option accept_pending (vr_states ?v i) else vr_states ?v i)"
      "vr_by_height (snd (finalize_heights h ks ?v)) = (\<lambda>k. if k \<in> set ks \<and> k \<le> h then None else vr_by_height ?v k)"
      "vr_config (snd (finalize_heights h ks ?v)) = vr_config ?v"
      "set (fst (finalize_heights h ks ?v)) = {i. pending_at (vr_states ?v) i \<and> ?P ?v i}" "distinct (fst (finalize_heights h ks ?v))"
      by simp_all
    have "vr_states (snd (finalize_heights h (k # ks) v)) =
        (\<lambda>i. if \<exists>k \<in> set (k # ks). k \<le> h \<and> i \<in> listed v k then map_option accept_pending (vr_states v i) else vr_states v i)"
      unfolding f(3) snd_conv IH(1) P(1) by (rule ext) (use P(2) True in \<open>auto simp: close_height_def\<close>)
    moreover have "vr_by_height (snd (finalize_heights h (k # ks) v)) = (\<lambda>j. if j \<in> set (k # ks) \<and> j \<le> h then None else vr_by_height v j)"
      unfolding f(3) snd_conv IH(2) by (rule ext) (use True in \<open>auto simp: close_height_def\<close>)
    moreover have "vr_config (snd (finalize_heights h (k # ks) v)) = vr_config v"
      unfolding f(3) snd_conv IH(3) by (simp add: close_height_def)
    moreover have "set (fst (finalize_heights h (k # ks) v)) = {i. pending_at (vr_states v) i \<and> (\<exists>k \<in> set (k # ks). k \<le> h \<and> i \<in> listed v k)}"
      unfolding f(3) fst_conv set_append IH(4) f(1) P(1) pend using P(2) True by auto
    moreover have "distinct (fst (finalize_heights h (k # ks) v))"
      unfolding f(3) fst_conv distinct_append IH(4) f(1) pend using IH(5) f(2) by auto
    ultimately show ?thesis by blast
  qed
qed simp

section \<open>The verifier as a state machine\<close>

text \<open>One call at the height \<open>h\<close>; a call that returns an error changes nothing.\<close>

inductive vr_step :: "u64 \<Rightarrow> verifier \<Rightarrow> verifier \<Rightarrow> bool" for h where
  step_submit: "submit_result i r miner h v = Ok v' \<Longrightarrow> vr_step h v v'"
| step_challenge: "challenge_result i c h v = Ok v' \<Longrightarrow> vr_step h v v'"
| step_resolve: "resolve_challenge i b v = Ok v' \<Longrightarrow> vr_step h v v'"
| step_finalize: "go_order ordu \<Longrightarrow> finalize_results ordu h v = (f, v') \<Longrightarrow> vr_step h v v'"

text \<open>Calls at heights that never fall, from a fresh verifier; the last height is \<open>h\<close>.\<close>

inductive vr_reachable :: "challenge_config \<Rightarrow> u64 \<Rightarrow> verifier \<Rightarrow> bool" for cfg where
  vr_new: "vr_reachable cfg h (new_verifier cfg)"
| vr_next: "vr_reachable cfg h v \<Longrightarrow> h \<le> h' \<Longrightarrow> vr_step h' v v' \<Longrightarrow> vr_reachable cfg h' v'"

inductive vr_run :: "u64 \<Rightarrow> verifier \<Rightarrow> verifier \<Rightarrow> bool" for h0 where
  run_start: "vr_run h0 v v"
| run_step: "vr_run h0 v v1 \<Longrightarrow> h0 \<le> h \<Longrightarrow> vr_step h v1 v2 \<Longrightarrow> vr_run h0 v v2"

definition vr_inv :: "verifier \<Rightarrow> bool" where
  "vr_inv v \<longleftrightarrow> finite (dom (vr_by_height v)) \<and>
     (\<forall>k i. i \<in> listed v k \<longrightarrow> (\<exists>s. vr_states v i = Some s \<and> vst_challenge_ends s = k)) \<and>
     (\<forall>i s. vr_states v i = Some s \<longrightarrow> vst_status s = verifier_pending \<longrightarrow> i \<in> listed v (vst_challenge_ends s))"

lemma vr_inv_at: "vr_inv v \<Longrightarrow> i \<in> listed v k \<Longrightarrow> \<exists>s. vr_states v i = Some s \<and> vst_challenge_ends s = k"
  by (simp add: vr_inv_def)

lemma vr_inv_disjoint: "vr_inv v \<Longrightarrow> disjoint_heights v"
  unfolding vr_inv_def disjoint_heights_def by (metis option.inject)

lemma finalize_results_eq:
  assumes "vr_inv v" "go_order ordu"
  shows "vr_states (snd (finalize_results ordu h v)) =
      (\<lambda>i. map_option (\<lambda>s. if vst_challenge_ends s \<le> h then accept_pending s else s) (vr_states v i))"
    "listed (snd (finalize_results ordu h v)) k = (if k \<le> h then {} else listed v k)"
    "dom (vr_by_height (snd (finalize_results ordu h v))) \<subseteq> dom (vr_by_height v)"
    "vr_config (snd (finalize_results ordu h v)) = vr_config v"
    "set (fst (finalize_results ordu h v)) = {i. \<exists>s. vr_states v i = Some s \<and> vst_status s = verifier_pending \<and> vst_challenge_ends s \<le> h}"
    "distinct (fst (finalize_results ordu h v))"
proof -
  let ?ks = "ordu (dom (vr_by_height v))"
  have ks: "set ?ks = dom (vr_by_height v)" "distinct ?ks" using assms by (simp_all add: vr_inv_def go_order_def)
  have P: "(\<exists>k \<in> set ?ks. k \<le> h \<and> i \<in> listed v k) \<longleftrightarrow> (\<exists>k \<le> h. i \<in> listed v k)" for i
    unfolding ks by (auto simp: listed_def split: option.splits)
  note e = finalize_heights_eq [OF ks(2) vr_inv_disjoint [OF assms(1)], of h, folded finalize_results_def, unfolded P]
  have st: "(if \<exists>k \<le> h. i \<in> listed v k then map_option accept_pending (vr_states v i) else vr_states v i) =
      map_option (\<lambda>s. if vst_challenge_ends s \<le> h then accept_pending s else s) (vr_states v i)" for i
  proof (cases "vr_states v i")
    case (Some s)
    show ?thesis
    proof (cases "i \<in> listed v (vst_challenge_ends s)")
      case True
      then have "(\<exists>k \<le> h. i \<in> listed v k) \<longleftrightarrow> vst_challenge_ends s \<le> h"
        using vr_inv_at [OF assms(1)] Some by (metis option.inject)
      with Some show ?thesis by simp
    next
      case False
      then have "accept_pending s = s" using assms(1) Some by (auto simp: vr_inv_def accept_pending_def)
      moreover have "\<not> (\<exists>k \<le> h. i \<in> listed v k)" using False vr_inv_at [OF assms(1)] Some by (metis option.inject)
      ultimately show ?thesis using Some by simp
    qed
  qed auto
  show "vr_states (snd (finalize_results ordu h v)) =
      (\<lambda>i. map_option (\<lambda>s. if vst_challenge_ends s \<le> h then accept_pending s else s) (vr_states v i))"
    using e st by simp
  show "listed (snd (finalize_results ordu h v)) k = (if k \<le> h then {} else listed v k)"
    using e ks(1) by (auto simp: listed_def split: option.splits)
  show "dom (vr_by_height (snd (finalize_results ordu h v))) \<subseteq> dom (vr_by_height v)"
    using e by (auto split: if_splits)
  show "vr_config (snd (finalize_results ordu h v)) = vr_config v" "distinct (fst (finalize_results ordu h v))"
    using e by simp_all
  have "pending_at (vr_states v) i \<and> (\<exists>k \<le> h. i \<in> listed v k) \<longleftrightarrow>
      (\<exists>s. vr_states v i = Some s \<and> vst_status s = verifier_pending \<and> vst_challenge_ends s \<le> h)" for i
    using assms(1) unfolding pending_at_def vr_inv_def by (metis option.inject)
  then show "set (fst (finalize_results ordu h v)) = {i. \<exists>s. vr_states v i = Some s \<and> vst_status s = verifier_pending \<and> vst_challenge_ends s \<le> h}"
    using e by simp
qed

lemma vr_inv_update:
  assumes "vr_inv v" "vr_states v i = Some s" "vst_challenge_ends s' = vst_challenge_ends s" "vst_status s' \<noteq> verifier_pending"
  shows "vr_inv (v\<lparr>vr_states := (vr_states v)(i \<mapsto> s')\<rparr>)"
proof -
  let ?v = "v\<lparr>vr_states := (vr_states v)(i \<mapsto> s')\<rparr>"
  have l: "listed ?v k = listed v k" for k by (simp add: listed_def)
  have "\<exists>u. vr_states ?v j = Some u \<and> vst_challenge_ends u = k" if "j \<in> listed v k" for j k
    using vr_inv_at [OF assms(1) that] assms(2,3) by auto
  moreover have "j \<in> listed v (vst_challenge_ends u)" if "vr_states ?v j = Some u" "vst_status u = verifier_pending" for j u
    using that assms by (auto simp: vr_inv_def split: if_splits)
  moreover have "finite (dom (vr_by_height ?v))" using assms(1) by (simp add: vr_inv_def)
  ultimately show ?thesis unfolding vr_inv_def l by blast
qed

lemma vr_inv_step:
  assumes "vr_inv v" "vr_step h v v'"
  shows "vr_inv v' \<and> vr_config v' = vr_config v"
  using assms(2)
proof cases
  case (step_submit i r miner)
  let ?e = "h + cc_challenge_period (vr_config v)"
  have none: "vr_states v i = None" and v': "vr_by_height v' = (vr_by_height v)(?e \<mapsto> (case vr_by_height v ?e of None \<Rightarrow> [] | Some l \<Rightarrow> l) @ [i])"
    "vr_states v' = (vr_states v)(i \<mapsto> \<lparr>vst_task_id = i, vst_result_hash = r, vst_miner = miner, vst_submitted_at = h,
       vst_challenge_ends = ?e, vst_status = verifier_pending, vst_challengers = []\<rparr>)" "vr_config v' = vr_config v"
    using step_submit by (auto simp: submit_result_def Let_def split: if_splits)
  have l: "listed v' k = (if k = ?e then insert i (listed v k) else listed v k)" for k
    by (auto simp: listed_def v'(1) split: option.splits)
  have "i \<notin> listed v k" for k using vr_inv_at [OF assms(1), of i k] none by auto
  moreover have "j \<in> listed v (vst_challenge_ends s)" if "vr_states v j = Some s" "vst_status s = verifier_pending" for j s
    using assms(1) that by (simp add: vr_inv_def)
  moreover have "finite (dom (vr_by_height v'))" using assms(1) by (simp add: v'(1) vr_inv_def)
  moreover have "\<exists>s. vr_states v j = Some s \<and> vst_challenge_ends s = k" if "j \<in> listed v k" for j k
    by (rule vr_inv_at [OF assms(1) that])
  ultimately show ?thesis unfolding vr_inv_def l v'(2,3) by (auto split: if_splits) fastforce+
next
  case (step_challenge i c)
  then obtain s where s: "vr_states v i = Some s" "v' = v\<lparr>vr_states := (vr_states v)(i \<mapsto> s\<lparr>vst_status := verifier_challenged,
      vst_challengers := vst_challengers s @ [c]\<rparr>)\<rparr>"
    by (auto simp: challenge_result_def split: option.splits if_splits)
  show ?thesis unfolding s(2) using vr_inv_update [OF assms(1) s(1)] by (simp add: verifier_defs)
next
  case (step_resolve i b)
  then obtain s where s: "vr_states v i = Some s" "v' = v\<lparr>vr_states := (vr_states v)(i \<mapsto> s\<lparr>vst_status :=
      if b then verifier_accepted else verifier_rejected\<rparr>)\<rparr>"
    by (auto simp: resolve_challenge_def split: option.splits if_splits)
  show ?thesis unfolding s(2) using vr_inv_update [OF assms(1) s(1)] by (simp add: verifier_defs)
next
  case (step_finalize ordu f)
  then have v': "v' = snd (finalize_results ordu h v)" by simp
  note e = finalize_results_eq [OF assms(1) step_finalize(1), of h, folded v']
  have "finite (dom (vr_by_height v'))" using e(3) assms(1) finite_subset unfolding vr_inv_def by blast
  moreover have "\<exists>s. vr_states v' i = Some s \<and> vst_challenge_ends s = k" if "i \<in> listed v' k" for k i
    using that assms(1) e(1) unfolding e(2) by (fastforce simp: vr_inv_def split: if_splits)
  moreover have "i \<in> listed v' (vst_challenge_ends s)" if "vr_states v' i = Some s" "vst_status s = verifier_pending" for i s
    using that assms(1) unfolding e(2) e(1) by (fastforce simp: vr_inv_def split: if_splits)
  ultimately show ?thesis using e(4) unfolding vr_inv_def by blast
qed

lemma reachable_vr_inv: "vr_reachable cfg h v \<Longrightarrow> vr_inv v"
proof (induction rule: vr_reachable.induct)
  case (vr_new h)
  show ?case by (simp add: vr_inv_def new_verifier_def listed_def)
qed (use vr_inv_step in blast)

section \<open>Properties\<close>

text \<open>
  Results are finalised exactly on time. In every reachable verifier, \<open>FinalizeResults(h)\<close> accepts
  and reports, once each, exactly the pending results whose challenge window ends at or before \<open>h\<close>; a
  challenged, accepted or rejected result is left alone.
\<close>

theorem finalize_exact:
  assumes "vr_reachable cfg h0 v" "go_order ordu" "finalize_results ordu h v = (f, v')"
  shows "distinct f \<and>
    set f = {i. \<exists>s. vr_states v i = Some s \<and> vst_status s = verifier_pending \<and> vst_challenge_ends s \<le> h} \<and>
    vr_states v' = (\<lambda>i. map_option (\<lambda>s. if vst_status s = verifier_pending \<and> vst_challenge_ends s \<le> h
      then s\<lparr>vst_status := verifier_accepted\<rparr> else s) (vr_states v i))"
proof -
  have s: "(\<lambda>s. if vst_challenge_ends s \<le> h then accept_pending s else s) =
      (\<lambda>s. if vst_status s = verifier_pending \<and> vst_challenge_ends s \<le> h then s\<lparr>vst_status := verifier_accepted\<rparr> else s)"
    by (auto simp: accept_pending_def fun_eq_iff)
  from finalize_results_eq(1,5,6) [OF reachable_vr_inv [OF assms(1)] assms(2), of h] assms(3) show ?thesis
    unfolding s by simp
qed

text \<open>
  C18: a decision is final once the window has closed. An accepted or rejected result whose challenge
  window ended before the height \<open>h\<close> is unchanged by every sequence of calls at heights from \<open>h\<close> on.
\<close>

theorem decision_final:
  assumes "vr_reachable cfg h v" "vr_run h v v'" "vr_states v i = Some s" "vst_challenge_ends s < h"
    "vst_status s = verifier_accepted \<or> vst_status s = verifier_rejected"
  shows "vr_states v' i = Some s"
proof -
  have dec: "vst_status s \<noteq> verifier_pending" "vst_status s \<noteq> verifier_challenged"
    using assms(5) by (auto simp: verifier_defs)
  have "vr_run h v v' \<Longrightarrow> vr_inv v \<Longrightarrow> vr_states v i = Some s \<Longrightarrow> vr_inv v' \<and> vr_states v' i = Some s"
  proof (induction rule: vr_run.induct)
    case (run_step v v1 k v2)
    then have v1: "vr_inv v1" "vr_states v1 i = Some s" by simp_all
    have "vr_states v2 i = Some s"
      using run_step.hyps(3)
    proof cases
      case (step_submit j r m)
      with v1(2) show ?thesis by (auto simp: submit_result_def Let_def split: if_splits)
    next
      case (step_challenge j c)
      have "\<not> k \<le> vst_challenge_ends s" using run_step.hyps(2) assms(4) by simp
      with step_challenge v1(2) show ?thesis by (auto simp: challenge_result_def split: option.splits if_splits)
    next
      case (step_resolve j b)
      with v1(2) dec show ?thesis by (auto simp: resolve_challenge_def split: option.splits if_splits)
    next
      case (step_finalize ordu f)
      then show ?thesis using finalize_results_eq(1) [OF v1(1) step_finalize(1), of k] v1(2) dec
        by (simp add: accept_pending_def)
    qed
    with vr_inv_step [OF v1(1) run_step.hyps(3)] show ?case by simp
  qed simp
  with reachable_vr_inv [OF assms(1)] assms(2,3) show ?thesis by simp
qed

text \<open>
  An accepted result can be overturned. At the last height of its window a pending result is
  accepted by \<open>FinalizeResults\<close> and can still be challenged at the same height; the challenge then
  rejects it.
\<close>

theorem accepted_overturned:
  assumes "vr_reachable cfg h0 v" "go_order ordu" "vr_states v i = Some s" "vst_status s = verifier_pending"
    "finalize_results ordu (vst_challenge_ends s) v = (f, v1)"
  shows "i \<in> set f \<and> (\<exists>v2 v3 s'. challenge_result i c (vst_challenge_ends s) v1 = Ok v2 \<and>
    resolve_challenge i False v2 = Ok v3 \<and> vr_states v3 i = Some s' \<and> vst_status s' = verifier_rejected)"
  using finalize_results_eq(1,5) [OF reachable_vr_inv [OF assms(1)] assms(2), of "vst_challenge_ends s"] assms(3-5)
  by (auto simp: accept_pending_def challenge_result_def resolve_challenge_def verifier_defs)

section \<open>Compute units\<close>

lemma expire_units_eq:
  "snd (expire_units h es spent) = (\<lambda>p. spent p \<or> (\<exists>d. (p, d) \<in> set es \<and> 0 < d \<and> d < h)) \<and>
   set (fst (expire_units h es spent)) = {p. \<not> spent p \<and> (\<exists>d. (p, d) \<in> set es \<and> 0 < d \<and> d < h)} \<and>
   distinct (fst (expire_units h es spent))"
proof (induction es arbitrary: spent)
  case (Cons e es)
  obtain p d where e: "e = (p, d)" by fastforce
  let ?spent = "if 0 < d \<and> d < h \<and> \<not> spent p then spent(p := True) else spent"
  have "expire_units h (e # es) spent =
      ((if 0 < d \<and> d < h \<and> \<not> spent p then [p] else []) @ fst (expire_units h es ?spent), snd (expire_units h es ?spent))"
    by (simp add: e split: prod.split)
  with Cons.IH [of ?spent] show ?case by (auto simp: e fun_eq_iff split: if_splits)
qed simp

inductive utxo_step :: "compute_utxo_set \<Rightarrow> compute_utxo_set \<Rightarrow> bool" where
  utxo_add: "utxo_step cs (add_compute_unit p cu cs)"
| utxo_spend: "utxo_step cs (spend_compute_unit p cs)"
| utxo_expire: "expire_compute_units h cs = (x, cs') \<Longrightarrow> utxo_step cs cs'"

text \<open>
  A compute unit is claimed or expired at most once. \<open>ExpireDeadlines\<close> reports exactly the unspent
  points with a deadline that has passed, once each, and marks them; whatever is done afterwards, adding
  the point again included, a spent point is never returned by \<open>GetComputeUnit\<close> and never expires.
\<close>

theorem spent_is_final:
  assumes "expire_compute_units h cs = (x, cs1)" "utxo_step\<^sup>*\<^sup>* cs1 cs2" "expire_compute_units h2 cs2 = (y, cs3)"
  shows "distinct x \<and> set x = {p. get_compute_unit p cs = cs_utxos cs p \<and> \<not> is_spent p cs \<and>
      (\<exists>d. (p, d) \<in> set (cs_by_deadline cs) \<and> 0 < d \<and> d < h)} \<and>
    (\<forall>p. is_spent p cs1 \<longrightarrow> get_compute_unit p cs2 = None \<and> p \<notin> set y) \<and> (\<forall>p \<in> set x. is_spent p cs1)"
proof -
  have ex: "fst (expire_compute_units h cs) = fst (expire_units h (cs_by_deadline cs) (cs_spent cs))"
    "cs_spent (snd (expire_compute_units h cs)) = snd (expire_units h (cs_by_deadline cs) (cs_spent cs))" for h cs
    by (simp_all add: expire_compute_units_def split: prod.split)
  have mono: "cs_spent a p \<Longrightarrow> cs_spent b p" if "utxo_step a b" for a b p
    using that
  proof cases
    case (utxo_expire h x)
    then show "cs_spent a p \<Longrightarrow> cs_spent b p" using ex(2) [of h a] expire_units_eq [of h "cs_by_deadline a" "cs_spent a"] by simp
  qed (auto simp: add_compute_unit_def spend_compute_unit_def Let_def)
  have "cs_spent cs1 p \<Longrightarrow> cs_spent cs2 p" for p
    using assms(2) by induction (auto intro: mono)
  moreover have "p \<notin> set y" if "cs_spent cs2 p" for p
    using ex(1) [of h2 cs2] expire_units_eq [of h2 "cs_by_deadline cs2" "cs_spent cs2"] assms(3) that by simp
  moreover have "distinct x" "set x = {p. \<not> cs_spent cs p \<and> (\<exists>d. (p, d) \<in> set (cs_by_deadline cs) \<and> 0 < d \<and> d < h)}"
    "cs_spent cs1 = (\<lambda>p. cs_spent cs p \<or> (\<exists>d. (p, d) \<in> set (cs_by_deadline cs) \<and> 0 < d \<and> d < h))"
    using ex [of h cs] expire_units_eq [of h "cs_by_deadline cs" "cs_spent cs"] assms(1) by simp_all
  ultimately show ?thesis by (auto simp: is_spent_def get_compute_unit_def)
qed

section \<open>Witnesses\<close>

definition sample_result :: verifier_state where
  "sample_result = \<lparr>vst_task_id = [7], vst_result_hash = empty_hash, vst_miner = zero_address, vst_submitted_at = 10,
     vst_challenge_ends = 110, vst_status = verifier_pending, vst_challengers = []\<rparr>"

lemma sample_verifier:
  obtains v where "vr_reachable default_challenge_config 10 v" "vr_states v = [[7] \<mapsto> sample_result]"
proof -
  let ?v = "(new_verifier default_challenge_config)\<lparr>vr_states := [[7] \<mapsto> sample_result], vr_by_height := [110 \<mapsto> [[7]]]\<rparr>"
  have "submit_result [7] empty_hash zero_address 10 (new_verifier default_challenge_config) = Ok ?v"
    by (simp add: submit_result_def new_verifier_def default_challenge_config_def sample_result_def Let_def)
  from that [OF vr_next [OF vr_new order_refl step_submit [OF this]]] show thesis by simp
qed

theorem finalize_exact_witness:
  "\<exists>v f v'. vr_reachable default_challenge_config 10 v \<and> finalize_results sorted_list_of_set 110 v = (f, v') \<and> set f = {[7]}"
proof -
  obtain v where v: "vr_reachable default_challenge_config 10 v" "vr_states v = [[7] \<mapsto> sample_result]" by (rule sample_verifier)
  obtain f v' where f: "finalize_results sorted_list_of_set 110 v = (f, v')" by fastforce
  from finalize_exact [OF v(1) go_order_sorted f] have "set f = {[7]}"
    by (auto simp: v(2) sample_result_def split: if_splits)
  with v(1) f show ?thesis by blast
qed

theorem decision_final_witness:
  "\<exists>v v'. vr_run 111 v v' \<and> v' \<noteq> v \<and> vr_states v [7] = Some (sample_result\<lparr>vst_status := verifier_accepted\<rparr>) \<and>
     vr_states v' [7] = Some (sample_result\<lparr>vst_status := verifier_accepted\<rparr>)"
proof -
  obtain v where v: "vr_reachable default_challenge_config 10 v" "vr_states v = [[7] \<mapsto> sample_result]" by (rule sample_verifier)
  obtain f v1 where f: "finalize_results sorted_list_of_set 111 v = (f, v1)" by fastforce
  have r1: "vr_reachable default_challenge_config 111 v1"
    by (rule vr_next [OF v(1) _ step_finalize [OF go_order_sorted f]]) simp
  have s1: "vr_states v1 = [[7] \<mapsto> sample_result\<lparr>vst_status := verifier_accepted\<rparr>]"
    using finalize_results_eq(1) [OF reachable_vr_inv [OF v(1)] go_order_sorted, of 111] f v(2)
    by (auto simp: fun_eq_iff sample_result_def accept_pending_def)
  obtain v2 where sub: "submit_result [8] empty_hash zero_address 120 v1 = Ok v2"
    by (simp add: submit_result_def s1 Let_def)
  then have "vr_states v2 [8] \<noteq> None" by (auto simp: submit_result_def Let_def split: if_splits)
  then have ne: "v2 \<noteq> v1" using s1 by auto
  have run: "vr_run 111 v1 v2" by (rule run_step [OF run_start _ step_submit [OF sub]]) simp
  from decision_final [OF r1 run, of "[7]" "sample_result\<lparr>vst_status := verifier_accepted\<rparr>"]
  have "vr_states v2 [7] = Some (sample_result\<lparr>vst_status := verifier_accepted\<rparr>)"
    by (simp add: s1 sample_result_def)
  with run ne s1 show ?thesis by (intro exI [of _ v1] exI [of _ v2]) simp
qed

theorem accepted_overturned_witness:
  "\<exists>v f v1 v2. finalize_results sorted_list_of_set 110 v = (f, v1) \<and> [7] \<in> set f \<and> challenge_result [7] [9] 110 v1 = Ok v2"
proof -
  obtain v where v: "vr_reachable default_challenge_config 10 v" "vr_states v = [[7] \<mapsto> sample_result]" by (rule sample_verifier)
  obtain f v1 where f: "finalize_results sorted_list_of_set 110 v = (f, v1)" by fastforce
  have s: "vr_states v [7] = Some sample_result" "vst_status sample_result = verifier_pending" "vst_challenge_ends sample_result = 110"
    by (simp_all add: v(2) sample_result_def)
  from accepted_overturned [OF v(1) go_order_sorted s(1,2), unfolded s(3), OF f, of "[9]"] f show ?thesis by blast
qed

theorem spent_is_final_witness:
  "\<exists>cs cs1. expire_compute_units 9 cs = ([([7], 0)], cs1) \<and> get_compute_unit ([7], 0) (add_compute_unit ([7], 0)
     \<lparr>cu_compute_cost = 1, cu_verification_script = [], cu_deadline = 50, cu_sequence = 0\<rparr> cs1) = None"
proof -
  let ?u = "\<lparr>cu_compute_cost = 1, cu_verification_script = [], cu_deadline = 5, cu_sequence = 0\<rparr> :: compute_unit"
  let ?cs = "add_compute_unit ([7], 0) ?u new_compute_utxo_set"
  let ?cs1 = "?cs\<lparr>cs_spent := (cs_spent ?cs)(([7], 0) := True)\<rparr>"
  let ?cs2 = "add_compute_unit ([7], 0) (?u\<lparr>cu_deadline := 50\<rparr>) ?cs1"
  have e: "expire_compute_units 9 ?cs = ([([7], 0)], ?cs1)"
    by (simp add: expire_compute_units_def add_compute_unit_def new_compute_utxo_set_def Let_def)
  obtain y cs3 where y: "expire_compute_units 60 ?cs2 = (y, cs3)" by fastforce
  have "is_spent ([7], 0) ?cs1" by (simp add: is_spent_def)
  with spent_is_final [OF e r_into_rtranclp [of utxo_step, OF utxo_add] y] have "get_compute_unit ([7], 0) ?cs2 = None" by blast
  with e show ?thesis by (intro exI [of _ ?cs] exI [of _ ?cs1]) simp
qed

end
