(* ===== verification/Dispatcher.thy ===== *)
theory Dispatcher
  imports TaskPool
begin

text \<open>
  The assignment of tasks to miners, \<^verbatim>\<open>src/pkg/task/dispatcher.go\<close>. The registered miners are shared by
  pointer within the dispatcher only, so they are values of its map. \<open>srtc\<close> is the order
  \<open>sort.Slice\<close> leaves the candidates in (it is not stable).
\<close>

record miner_info =
  mi_address :: address
  mi_capability :: miner_capability
  mi_current_load :: int
  mi_total_completed :: u64
  mi_total_failed :: u64

record dispatcher =
  dp_miners :: "address \<Rightarrow> miner_info option"
  dp_by_tier :: "task_tier \<Rightarrow> address list option"

definition all_tiers :: "task_tier list" where
  "all_tiers = [tier1_lightweight, tier2_conversation, tier3_inference, tier4_heavy, tier5_distributed]"

definition new_dispatcher :: dispatcher where
  "new_dispatcher = \<lparr>dp_miners = Map.empty, dp_by_tier = fold (\<lambda>t m. m(t \<mapsto> [])) all_tiers Map.empty\<rparr>"

definition tier_list :: "(task_tier \<Rightarrow> address list option) \<Rightarrow> task_tier \<Rightarrow> address list" where
  "tier_list m t = (case m t of None \<Rightarrow> [] | Some l \<Rightarrow> l)"

definition append_unique :: "address list \<Rightarrow> address \<Rightarrow> address list" where
  "append_unique as addr = (if addr \<in> set as then as else as @ [addr])"

text \<open>The first occurrence is removed.\<close>

definition remove_from :: "address list \<Rightarrow> address \<Rightarrow> address list" where
  "remove_from as addr = remove1 addr as"

definition register_miner :: "address \<Rightarrow> miner_capability \<Rightarrow> dispatcher \<Rightarrow> dispatcher" where
  "register_miner addr c d =
     (let info = (case dp_miners d addr of
            None \<Rightarrow> \<lparr>mi_address = addr, mi_capability = c, mi_current_load = 0, mi_total_completed = 0, mi_total_failed = 0\<rparr>
          | Some i \<Rightarrow> i\<lparr>mi_capability := c\<rparr>)
      in d\<lparr>dp_miners := (dp_miners d)(addr \<mapsto> info),
           dp_by_tier := fold (\<lambda>t m. if can_miner_handle t c then m(t \<mapsto> append_unique (tier_list m t) addr) else m)
             all_tiers (dp_by_tier d)\<rparr>)"

definition unregister_miner :: "address \<Rightarrow> dispatcher \<Rightarrow> dispatcher" where
  "unregister_miner addr d = d\<lparr>dp_miners := (dp_miners d)(addr := None),
     dp_by_tier := fold (\<lambda>t m. m(t \<mapsto> remove_from (tier_list m t) addr)) all_tiers (dp_by_tier d)\<rparr>"

record candidate =
  cd_addr :: address
  cd_score :: f64
  cd_load :: int

definition scored_candidate :: "task_tier \<Rightarrow> address \<Rightarrow> miner_info \<Rightarrow> candidate" where
  "scored_candidate t addr m =
     (let score = miner_score t (mi_capability m) in
      \<lparr>cd_addr = addr,
       cd_score = (if mi_current_load m > 0
         then f64_mul score (f64_div (F64 1 0) (f64_of_int (1 + mi_current_load m))) else score),
       cd_load = mi_current_load m\<rparr>)"

fun score_candidates :: "task_tier \<Rightarrow> (address \<Rightarrow> miner_info option) \<Rightarrow> address list \<Rightarrow> candidate list" where
  "score_candidates t miners [] = []"
| "score_candidates t miners (a # as) = (case miners a of
     None \<Rightarrow> score_candidates t miners as
   | Some m \<Rightarrow> scored_candidate t a m # score_candidates t miners as)"

definition add_load :: "address \<Rightarrow> (address \<Rightarrow> miner_info option) \<Rightarrow> (string, address \<Rightarrow> miner_info option) outcome" where
  "add_load addr miners = (case miners addr of None \<Rightarrow> Panic
     | Some m \<Rightarrow> Ok (miners(addr \<mapsto> m\<lparr>mi_current_load := mi_current_load m + 1\<rparr>)))"

definition dispatch ::
  "(candidate list \<Rightarrow> candidate list) \<Rightarrow> task \<Rightarrow> dispatcher \<Rightarrow> (string, address \<times> dispatcher) outcome" where
  "dispatch srtc t d =
     (let candidates = tier_list (dp_by_tier d) (t_tier t) in
      if candidates = [] then Err (''no miners available for tier '' @ tier_string (t_tier t))
      else let scored = score_candidates (t_tier t) (dp_miners d) candidates in
        if scored = [] then Err ''no suitable miners''
        else let best = srtc scored ! 0 in
          obind (add_load (cd_addr best) (dp_miners d)) (\<lambda>ms. Ok (cd_addr best, d\<lparr>dp_miners := ms\<rparr>)))"

fun assign_round_robin ::
  "address list \<Rightarrow> nat \<Rightarrow> nat \<Rightarrow> (address \<Rightarrow> miner_info option) \<Rightarrow> (string, address list \<times> (address \<Rightarrow> miner_info option)) outcome" where
  "assign_round_robin candidates 0 i miners = Ok ([], miners)"
| "assign_round_robin candidates (Suc n) i miners =
     (let miner = candidates ! (i mod length candidates) in
      obind (add_load miner miners) (\<lambda>ms.
      obind (assign_round_robin candidates n (i + 1) ms) (\<lambda>(as, ms1). Ok (miner # as, ms1))))"

definition dispatch_distributed :: "task \<Rightarrow> dispatcher \<Rightarrow> (string, address list \<times> dispatcher) outcome" where
  "dispatch_distributed t d =
     (if t_tier t \<noteq> tier5_distributed then Err ''distributed dispatch only for T5 tasks''
      else case t_dag t of
        None \<Rightarrow> Err ''task has no subtask DAG''
      | Some dag \<Rightarrow>
          if dag_subtasks dag = [] then Err ''task has no subtask DAG''
          else let candidates = tier_list (dp_by_tier d) tier5_distributed in
            if candidates = [] then Err ''no T5 miners available''
            else obind (assign_round_robin candidates (length (dag_subtasks dag)) 0 (dp_miners d)) (\<lambda>(as, ms).
              Ok (as, d\<lparr>dp_miners := ms\<rparr>)))"

definition release_task :: "address \<Rightarrow> dispatcher \<Rightarrow> dispatcher" where
  "release_task addr d = (case dp_miners d addr of None \<Rightarrow> d
     | Some m \<Rightarrow> if mi_current_load m > 0
         then d\<lparr>dp_miners := (dp_miners d)(addr \<mapsto> m\<lparr>mi_current_load := mi_current_load m - 1\<rparr>)\<rparr> else d)"

definition record_completion :: "address \<Rightarrow> bool \<Rightarrow> dispatcher \<Rightarrow> dispatcher" where
  "record_completion addr success d = (case dp_miners d addr of None \<Rightarrow> d
     | Some m \<Rightarrow>
         let m1 = (if success then m\<lparr>mi_total_completed := mi_total_completed m + 1\<rparr>
                   else m\<lparr>mi_total_failed := mi_total_failed m + 1\<rparr>);
             total = mi_total_completed m1 + mi_total_failed m1;
             m2 = (if 0 < total then m1\<lparr>mi_capability := (mi_capability m1)\<lparr>mc_reputation :=
                     f64_div (f64_of_u64 (mi_total_completed m1)) (f64_of_u64 total)\<rparr>\<rparr> else m1)
         in d\<lparr>dp_miners := (dp_miners d)(addr \<mapsto> m2)\<rparr>)"

definition get_available_miners :: "dispatcher \<Rightarrow> task_tier \<Rightarrow> int option" where
  "get_available_miners d = fold (\<lambda>t m. m(t \<mapsto> int (length (tier_list (dp_by_tier d) t)))) all_tiers Map.empty"

end
