(* ===== verification/DispatcherProps.thy ===== *)
theory DispatcherProps
  imports Dispatcher "HOL-Library.List_Lexorder"
begin

text \<open>
  The dispatcher keeps its indexes over registered miners, so it never dereferences a missing miner; it
  picks a candidate of the best score and spreads the subtasks of a distributed task evenly. A miner that
  registers again with a lower capability stays in the index of the tiers it has left. The contract of an
  ordering is interpreted on the scores of the candidates.
\<close>

definition better_score :: "candidate \<Rightarrow> candidate \<Rightarrow> bool" where
  "better_score a b \<longleftrightarrow> f64_less (cd_score b) (cd_score a)"

lemma f64_less_asym: "f64_less a b \<Longrightarrow> \<not> f64_less b a"
  by (cases a; cases b) simp

lemma f64_not_less_trans: "\<not> f64_less b a \<Longrightarrow> \<not> f64_less c b \<Longrightarrow> \<not> f64_less c a"
proof -
  assume h: "\<not> f64_less b a" "\<not> f64_less c b"
  obtain m k n l p j where e: "a = F64 m k" "b = F64 n l" "c = F64 p j" by (cases a; cases b; cases c)
  from h have le: "m * 2 ^ l \<le> n * 2 ^ k" "n * 2 ^ j \<le> p * 2 ^ l" by (simp_all add: e not_less)
  have "(m * 2 ^ j) * 2 ^ l = (m * 2 ^ l) * 2 ^ j" by (simp only: ac_simps)
  also have "\<dots> \<le> (n * 2 ^ k) * 2 ^ j" by (rule mult_right_mono [OF le(1)]) simp
  also have "\<dots> = (n * 2 ^ j) * 2 ^ k" by (simp only: ac_simps)
  also have "\<dots> \<le> (p * 2 ^ l) * 2 ^ k" by (rule mult_right_mono [OF le(2)]) simp
  also have "\<dots> = (p * 2 ^ k) * 2 ^ l" by (simp only: ac_simps)
  finally have "m * 2 ^ j \<le> p * 2 ^ k" by (rule mult_right_le_imp_le) simp
  then show ?thesis by (simp add: e not_less)
qed

interpretation score_order: heap_order better_score
  by unfold_locales (auto simp: better_score_def dest: f64_less_asym f64_not_less_trans)

section \<open>The indexes\<close>

definition disp_inv :: "dispatcher \<Rightarrow> bool" where
  "disp_inv d \<longleftrightarrow> (\<forall>t. distinct (tier_list (dp_by_tier d) t) \<and> set (tier_list (dp_by_tier d) t) \<subseteq> dom (dp_miners d)) \<and>
     (\<forall>a m. dp_miners d a = Some m \<longrightarrow> mi_address m = a \<and> 0 \<le> mi_current_load m)"

lemma tier_list_upd: "tier_list (m(t \<mapsto> l)) t' = (if t' = t then l else tier_list m t')"
  by (simp add: tier_list_def)

lemma tier_list_fold_new: "(\<And>t. tier_list m t = []) \<Longrightarrow> tier_list (fold (\<lambda>t m. m(t \<mapsto> [])) ts m) t = []"
  by (induction ts arbitrary: m) (auto simp: tier_list_upd)

lemma tier_list_fold_register:
  "distinct ts \<Longrightarrow> tier_list (fold (\<lambda>t m. if can_miner_handle t c then m(t \<mapsto> append_unique (tier_list m t) a) else m) ts m) t =
    (if t \<in> set ts \<and> can_miner_handle t c then append_unique (tier_list m t) a else tier_list m t)"
  by (induction ts arbitrary: m) (auto simp: tier_list_upd)

lemma tier_list_fold_remove:
  "distinct ts \<Longrightarrow> tier_list (fold (\<lambda>t m. m(t \<mapsto> remove_from (tier_list m t) a)) ts m) t =
    (if t \<in> set ts then remove_from (tier_list m t) a else tier_list m t)"
  by (induction ts arbitrary: m) (auto simp: tier_list_upd)

lemma distinct_tiers: "distinct all_tiers"
  by (simp add: all_tiers_def tier_defs)

lemma append_unique_set: "set (append_unique l a) = insert a (set l)" "distinct l \<Longrightarrow> distinct (append_unique l a)"
  by (auto simp: append_unique_def)

text \<open>Only the tiers the code knows have miners.\<close>

definition known_tiers :: "dispatcher \<Rightarrow> bool" where
  "known_tiers d \<longleftrightarrow> (\<forall>t. t \<notin> set all_tiers \<longrightarrow> tier_list (dp_by_tier d) t = [])"

lemma new_dispatcher_ok: "disp_inv new_dispatcher \<and> known_tiers new_dispatcher"
  using tier_list_fold_new [of Map.empty] by (simp add: disp_inv_def known_tiers_def new_dispatcher_def tier_list_def)

lemma register_ok:
  assumes "disp_inv d" "known_tiers d"
  shows "disp_inv (register_miner a c d) \<and> known_tiers (register_miner a c d)"
  using assms by (auto simp: disp_inv_def known_tiers_def register_miner_def Let_def tier_list_fold_register [OF distinct_tiers]
      append_unique_set split: option.split)

lemma unregister_ok:
  assumes "disp_inv d" "known_tiers d"
  shows "disp_inv (unregister_miner a d) \<and> known_tiers (unregister_miner a d)"
proof -
  have l: "tier_list (dp_by_tier (unregister_miner a d)) t = remove1 a (tier_list (dp_by_tier d) t)" for t
  proof -
    have "tier_list (dp_by_tier (unregister_miner a d)) t =
        (if t \<in> set all_tiers then remove_from (tier_list (dp_by_tier d) t) a else tier_list (dp_by_tier d) t)"
      by (simp add: unregister_miner_def tier_list_fold_remove [OF distinct_tiers])
    with assms(2) show ?thesis by (auto simp: remove_from_def known_tiers_def)
  qed
  have "set (remove1 a (tier_list (dp_by_tier d) t)) = set (tier_list (dp_by_tier d) t) - {a}" for t
    using assms(1) by (simp add: disp_inv_def set_remove1_eq)
  with assms show ?thesis unfolding disp_inv_def known_tiers_def l by (auto simp: unregister_miner_def distinct_remove1)
qed

lemma add_load_ok:
  "a \<in> dom ms \<Longrightarrow> \<exists>m. ms a = Some m \<and> add_load a ms = Ok (ms(a \<mapsto> m\<lparr>mi_current_load := mi_current_load m + 1\<rparr>))"
  by (auto simp: add_load_def)

text \<open>Registered miners with the same addresses and capabilities, and loads changed by \<open>f\<close>.\<close>

definition loads_shift :: "(address \<Rightarrow> int) \<Rightarrow> (address \<Rightarrow> miner_info option) \<Rightarrow> (address \<Rightarrow> miner_info option) \<Rightarrow> bool" where
  "loads_shift f ms ms' \<longleftrightarrow> ms' = (\<lambda>a. map_option (\<lambda>m. m\<lparr>mi_current_load := mi_current_load m + f a\<rparr>) (ms a))"

lemma loads_shift_inv:
  assumes "disp_inv d" "known_tiers d" "loads_shift f (dp_miners d) ms" "\<And>a. 0 \<le> f a"
  shows "disp_inv (d\<lparr>dp_miners := ms\<rparr>) \<and> known_tiers (d\<lparr>dp_miners := ms\<rparr>)"
proof -
  have "dom ms = dom (dp_miners d)" using assms(3) by (auto simp: loads_shift_def dom_def)
  with assms show ?thesis by (auto simp: disp_inv_def known_tiers_def loads_shift_def)
qed

lemma add_load_shift:
  "a \<in> dom ms \<Longrightarrow> \<exists>ms'. add_load a ms = Ok ms' \<and> loads_shift (\<lambda>b. if b = a then 1 else 0) ms ms'"
proof -
  assume "a \<in> dom ms"
  then obtain m where m: "ms a = Some m" by blast
  then have "ms(a \<mapsto> m\<lparr>mi_current_load := mi_current_load m + 1\<rparr>) =
      (\<lambda>b. map_option (\<lambda>m. m\<lparr>mi_current_load := mi_current_load m + (if b = a then 1 else 0)\<rparr>) (ms b))"
    by (auto simp: fun_eq_iff option.map_ident)
  with m show ?thesis by (simp add: add_load_def loads_shift_def)
qed

lemma round_robin_ok:
  assumes "candidates \<noteq> []" "set candidates \<subseteq> dom ms"
  shows "\<exists>ms'. assign_round_robin candidates n i ms = Ok (map (\<lambda>j. candidates ! (j mod length candidates)) [i..<i + n], ms') \<and>
    loads_shift (\<lambda>a. int (count_list (map (\<lambda>j. candidates ! (j mod length candidates)) [i..<i + n]) a)) ms ms'"
  using assms(2)
proof (induction n arbitrary: i ms)
  case 0
  show ?case by (simp add: loads_shift_def option.map_ident)
next
  case (Suc n)
  let ?a = "candidates ! (i mod length candidates)"
  have "?a \<in> set candidates" using assms(1) by (intro nth_mem) simp
  with Suc.prems obtain ms1 where m1: "add_load ?a ms = Ok ms1" "loads_shift (\<lambda>b. if b = ?a then 1 else 0) ms ms1"
    using add_load_shift [of ?a ms] by blast
  have "dom ms1 = dom ms" using m1(2) by (auto simp: loads_shift_def dom_def)
  with Suc.IH [of ms1 "Suc i"] Suc.prems obtain ms2 where
    m2: "assign_round_robin candidates n (Suc i) ms1 = Ok (map (\<lambda>j. candidates ! (j mod length candidates)) [Suc i..<Suc i + n], ms2)"
    "loads_shift (\<lambda>a. int (count_list (map (\<lambda>j. candidates ! (j mod length candidates)) [Suc i..<Suc i + n]) a)) ms1 ms2" by auto
  have up: "[i..<i + Suc n] = i # [Suc i..<Suc i + n]" by (simp add: upt_conv_Cons)
  have "loads_shift (\<lambda>a. int (count_list (map (\<lambda>j. candidates ! (j mod length candidates)) [i..<i + Suc n]) a)) ms ms2"
    using m1(2) m2(2) unfolding loads_shift_def up
    by (auto simp: fun_eq_iff option.map_comp comp_def ac_simps intro!: option.map_cong)
  with m1(1) m2(1) show ?case unfolding up by (simp add: Let_def)
qed

lemma score_candidates_eq:
  "set as \<subseteq> dom ms \<Longrightarrow> score_candidates t ms as = map (\<lambda>a. scored_candidate t a (the (ms a))) as"
  by (induction as) (auto simp: domD)

lemma scored_addr [simp]: "cd_addr (scored_candidate t a m) = a"
  by (simp add: scored_candidate_def Let_def)

lemma sorted_first:
  assumes "go_sort better_score srtc" "xs \<noteq> []"
  shows "srtc xs ! 0 \<in> set xs" "\<And>c. c \<in> set xs \<Longrightarrow> \<not> f64_less (cd_score (srtc xs ! 0)) (cd_score c)"
proof -
  from assms(1) have s: "mset (srtc xs) = mset xs" "sorted_wrt (\<lambda>a b. \<not> better_score b a) (srtc xs)"
    by (simp_all add: go_sort_def)
  from s(1) have set: "set (srtc xs) = set xs" by (metis set_mset_mset)
  with assms(2) obtain b bs where b: "srtc xs = b # bs" by (metis list.exhaust set_empty)
  show "srtc xs ! 0 \<in> set xs" using set b by auto
  show "\<not> f64_less (cd_score (srtc xs ! 0)) (cd_score c)" if "c \<in> set xs" for c
  proof -
    from that set b have "c = b \<or> c \<in> set bs" by auto
    with s(2) f64_less_asym show ?thesis by (auto simp: b better_score_def)
  qed
qed

lemma dispatch_eq:
  assumes "disp_inv d" "go_sort better_score srtc" "tier_list (dp_by_tier d) (t_tier t) \<noteq> []"
  shows "\<exists>a m. a \<in> set (tier_list (dp_by_tier d) (t_tier t)) \<and> dp_miners d a = Some m \<and>
    dispatch srtc t d = Ok (a, d\<lparr>dp_miners := (dp_miners d)(a \<mapsto> m\<lparr>mi_current_load := mi_current_load m + 1\<rparr>)\<rparr>) \<and>
    (\<forall>b m'. b \<in> set (tier_list (dp_by_tier d) (t_tier t)) \<longrightarrow> dp_miners d b = Some m' \<longrightarrow>
       \<not> f64_less (cd_score (scored_candidate (t_tier t) a m)) (cd_score (scored_candidate (t_tier t) b m')))"
proof -
  let ?l = "tier_list (dp_by_tier d) (t_tier t)"
  have sub: "set ?l \<subseteq> dom (dp_miners d)" using assms(1) by (simp add: disp_inv_def)
  define xs where "xs = map (\<lambda>a. scored_candidate (t_tier t) a (the (dp_miners d a))) ?l"
  have xs: "score_candidates (t_tier t) (dp_miners d) ?l = xs" "xs \<noteq> []"
    using score_candidates_eq [OF sub] assms(3) by (simp_all add: xs_def)
  from sorted_first(1) [OF assms(2) xs(2)] obtain a where a: "a \<in> set ?l"
    "srtc xs ! 0 = scored_candidate (t_tier t) a (the (dp_miners d a))" by (auto simp: xs_def)
  with sub obtain m where m: "dp_miners d a = Some m" by blast
  have "dispatch srtc t d = Ok (a, d\<lparr>dp_miners := (dp_miners d)(a \<mapsto> m\<lparr>mi_current_load := mi_current_load m + 1\<rparr>)\<rparr>)"
    using assms(3) xs a(2) m by (simp add: dispatch_def Let_def add_load_def)
  moreover have "\<not> f64_less (cd_score (scored_candidate (t_tier t) a m)) (cd_score (scored_candidate (t_tier t) b m'))"
    if "b \<in> set ?l" "dp_miners d b = Some m'" for b m'
  proof -
    have "scored_candidate (t_tier t) b m' \<in> set xs" using that by (auto simp: xs_def intro!: image_eqI [of _ _ b])
    from sorted_first(2) [OF assms(2) xs(2) this] show ?thesis by (simp add: a(2) m)
  qed
  ultimately show ?thesis using a(1) m by blast
qed

lemma count_round_robin:
  assumes "distinct l" "i < length l"
  shows "count_list (map (\<lambda>j. l ! (j mod length l)) [0..<n]) (l ! i) = n div length l + (if i < n mod length l then 1 else 0)"
proof (induction n)
  case (Suc n)
  have "l ! (n mod length l) = l ! i \<longleftrightarrow> n mod length l = i"
    using assms nth_eq_iff_index_eq [OF assms(1)] by (metis mod_less_divisor gr_implies_not0 gr0I)
  with Suc assms(2) show ?case by (auto simp: div_Suc mod_Suc)
qed simp

lemma distributed_eq:
  assumes "disp_inv d" "t_tier t = tier5_distributed" "t_dag t = Some g" "dag_subtasks g \<noteq> []"
    "tier_list (dp_by_tier d) tier5_distributed = l" "l \<noteq> []"
  shows "\<exists>ms. dispatch_distributed t d = Ok (map (\<lambda>j. l ! (j mod length l)) [0..<length (dag_subtasks g)], d\<lparr>dp_miners := ms\<rparr>) \<and>
    loads_shift (\<lambda>a. int (count_list (map (\<lambda>j. l ! (j mod length l)) [0..<length (dag_subtasks g)]) a)) (dp_miners d) ms"
proof -
  have "set l \<subseteq> dom (dp_miners d)" using assms(1,5) by (auto simp: disp_inv_def)
  from round_robin_ok [OF assms(6) this, of "length (dag_subtasks g)" 0] assms show ?thesis
    by (auto simp: dispatch_distributed_def Let_def)
qed

inductive dp_reachable :: "dispatcher \<Rightarrow> bool" where
  dp_new: "dp_reachable new_dispatcher"
| dp_register: "dp_reachable d \<Longrightarrow> dp_reachable (register_miner a c d)"
| dp_unregister: "dp_reachable d \<Longrightarrow> dp_reachable (unregister_miner a d)"
| dp_dispatch: "dp_reachable d \<Longrightarrow> go_sort better_score srtc \<Longrightarrow> dispatch srtc t d = Ok (a, d') \<Longrightarrow> dp_reachable d'"
| dp_distribute: "dp_reachable d \<Longrightarrow> dispatch_distributed t d = Ok (as, d') \<Longrightarrow> dp_reachable d'"
| dp_release: "dp_reachable d \<Longrightarrow> dp_reachable (release_task a d)"
| dp_record: "dp_reachable d \<Longrightarrow> dp_reachable (record_completion a b d)"

lemma dispatch_ok:
  assumes "disp_inv d" "known_tiers d" "go_sort better_score srtc" "dispatch srtc t d = Ok (a, d')"
  shows "disp_inv d' \<and> known_tiers d'"
proof -
  have "tier_list (dp_by_tier d) (t_tier t) \<noteq> []" using assms(4) by (auto simp: dispatch_def Let_def)
  from dispatch_eq [OF assms(1,3) this] assms(4) obtain m where m: "dp_miners d a = Some m"
    "d' = d\<lparr>dp_miners := (dp_miners d)(a \<mapsto> m\<lparr>mi_current_load := mi_current_load m + 1\<rparr>)\<rparr>" by auto
  with assms(1,2) show ?thesis unfolding disp_inv_def known_tiers_def by (auto split: if_splits)
qed

lemma distribute_ok:
  assumes "disp_inv d" "known_tiers d" "dispatch_distributed t d = Ok (as, d')"
  shows "disp_inv d' \<and> known_tiers d'"
proof -
  from assms(3) obtain g where g: "t_tier t = tier5_distributed" "t_dag t = Some g" "dag_subtasks g \<noteq> []"
    "tier_list (dp_by_tier d) tier5_distributed \<noteq> []"
    by (auto simp: dispatch_distributed_def Let_def split: if_splits option.splits)
  from distributed_eq [OF assms(1) g(1-3) refl g(4)] assms(3) obtain ms f where
    "d' = d\<lparr>dp_miners := ms\<rparr>" "loads_shift f (dp_miners d) ms" "\<And>a. 0 \<le> f a" by auto
  with loads_shift_inv [OF assms(1,2)] show ?thesis by blast
qed

lemma release_ok: "disp_inv d \<Longrightarrow> known_tiers d \<Longrightarrow> disp_inv (release_task a d) \<and> known_tiers (release_task a d)"
  by (cases "dp_miners d a") (auto simp: release_task_def disp_inv_def known_tiers_def)

lemma record_ok: "disp_inv d \<Longrightarrow> known_tiers d \<Longrightarrow> disp_inv (record_completion a b d) \<and> known_tiers (record_completion a b d)"
  by (cases "dp_miners d a") (auto simp: record_completion_def disp_inv_def known_tiers_def Let_def)

lemma reachable_dispatcher: "dp_reachable d \<Longrightarrow> disp_inv d \<and> known_tiers d"
proof (induction rule: dp_reachable.induct)
  case dp_new
  show ?case by (rule new_dispatcher_ok)
next
  case (dp_dispatch d srtc t a d')
  then show ?case using dispatch_ok [of d srtc t a d'] by simp
next
  case (dp_distribute d t as d')
  then show ?case using distribute_ok [of d t as d'] by simp
qed (simp_all add: register_ok unregister_ok release_ok record_ok)

section \<open>Properties\<close>

text \<open>
  C20: Dispatch picks the best candidate and never crashes. In every reachable dispatcher, a task whose
  tier has no indexed miner is refused; otherwise a registered miner of that tier is chosen that no
  candidate outscores, its load grows by one, and nothing else changes.
\<close>

theorem dispatch_picks_best:
  assumes "dp_reachable d" "go_sort better_score srtc"
  shows "if tier_list (dp_by_tier d) (t_tier t) = [] then \<exists>e. dispatch srtc t d = Err e
    else \<exists>a m. a \<in> set (tier_list (dp_by_tier d) (t_tier t)) \<and> dp_miners d a = Some m \<and>
      dispatch srtc t d = Ok (a, d\<lparr>dp_miners := (dp_miners d)(a \<mapsto> m\<lparr>mi_current_load := mi_current_load m + 1\<rparr>)\<rparr>) \<and>
      (\<forall>b m'. b \<in> set (tier_list (dp_by_tier d) (t_tier t)) \<longrightarrow> dp_miners d b = Some m' \<longrightarrow>
         \<not> f64_less (cd_score (scored_candidate (t_tier t) a m)) (cd_score (scored_candidate (t_tier t) b m')))"
  using dispatch_eq [of d srtc t] reachable_dispatcher [OF assms(1)] assms(2) by (simp add: dispatch_def)

text \<open>
  A distributed task is spread evenly. In every reachable dispatcher with \<open>k\<close> miners indexed for
  tier 5, the \<open>n\<close> subtasks are assigned in turn, each miner gets \<open>n / k\<close> of them, the first \<open>n mod k\<close>
  miners one more, and exactly that is added to its load.
\<close>

theorem distribution_even:
  assumes "dp_reachable d" "t_tier t = tier5_distributed" "t_dag t = Some g" "dag_subtasks g \<noteq> []"
    "tier_list (dp_by_tier d) tier5_distributed = l" "l \<noteq> []" "length (dag_subtasks g) = n"
  shows "\<exists>as d'. dispatch_distributed t d = Ok (as, d') \<and> length as = n \<and>
    (\<forall>i < length l. count_list as (l ! i) = n div length l + (if i < n mod length l then 1 else 0)) \<and>
    (\<forall>a. map_option mi_current_load (dp_miners d' a) = map_option (\<lambda>m. mi_current_load m + int (count_list as a)) (dp_miners d a))"
proof -
  have inv: "disp_inv d" using reachable_dispatcher [OF assms(1)] by simp
  then have "distinct l" using assms(5) by (auto simp: disp_inv_def)
  from distributed_eq [OF inv assms(2-6)] assms(7) obtain ms where
    d: "dispatch_distributed t d = Ok (map (\<lambda>j. l ! (j mod length l)) [0..<n], d\<lparr>dp_miners := ms\<rparr>)"
    "loads_shift (\<lambda>a. int (count_list (map (\<lambda>j. l ! (j mod length l)) [0..<n]) a)) (dp_miners d) ms" by auto
  have "map_option mi_current_load (ms a) =
      map_option (\<lambda>m. mi_current_load m + int (count_list (map (\<lambda>j. l ! (j mod length l)) [0..<n]) a)) (dp_miners d a)" for a
    using d(2) by (cases "dp_miners d a") (simp_all add: loads_shift_def)
  with d(1) count_round_robin [OF \<open>distinct l\<close>] show ?thesis by (intro exI conjI) (assumption, simp_all)
qed

text \<open>
  A downgraded miner keeps its tier. A miner that registers with a capability for a tier and again
  without it stays indexed there: when no other miner serves the tier, Dispatch assigns it a task it
  cannot handle.
\<close>

theorem downgraded_miner_dispatched:
  assumes "dp_reachable d" "go_sort better_score srtc" "t_tier t \<in> set all_tiers" "tier_list (dp_by_tier d) (t_tier t) = []"
    "can_miner_handle (t_tier t) c1" "\<not> can_miner_handle (t_tier t) c2"
  shows "\<exists>d' m. dispatch srtc t (register_miner a c2 (register_miner a c1 d)) = Ok (a, d') \<and>
    dp_miners d' a = Some m \<and> \<not> can_miner_handle (t_tier t) (mi_capability m)"
proof -
  let ?d = "register_miner a c2 (register_miner a c1 d)"
  have inv: "disp_inv ?d" using reachable_dispatcher [OF dp_register [OF dp_register [OF assms(1)]]] by simp
  have l: "tier_list (dp_by_tier ?d) (t_tier t) = [a]"
    using assms(3-6) by (simp add: register_miner_def Let_def tier_list_fold_register [OF distinct_tiers] append_unique_def)
  have "\<exists>m. dp_miners ?d a = Some m \<and> mi_capability m = c2" by (simp add: register_miner_def Let_def split: option.split)
  with dispatch_eq [OF inv assms(2), of t] l assms(6) show ?thesis by fastforce
qed

section \<open>Witnesses\<close>

definition strong_miner :: miner_capability where
  "strong_miner = \<lparr>mc_vram = 163840, mc_ram = 524288, mc_gpu_count = 4, mc_compute_units = 10000, mc_supported_models = [],
     mc_max_batch_size = 1, mc_reputation = F64 1 0, mc_uptime = F64 1 0\<rparr>"

definition tier5_task :: task where
  "tier5_task = \<lparr>t_id = replicate 32 7, t_creator = replicate 20 1, t_tier = 5,
     t_model_spec = \<lparr>ms_model_id = [], ms_quantization = [], ms_max_tokens = 0, ms_temperature = 0, ms_top_p = 0\<rparr>,
     t_input_hash = empty_hash, t_input_size = 1024, t_fee = Some 5, t_collateral = Some 0, t_deadline = 0,
     t_sequence = sequence_final, t_created_at = 0, t_status = task_status_pending, t_assigned_miner = zero_address,
     t_dag = Some \<lparr>dag_subtasks = replicate 3 \<lparr>st_id = [1], st_parent = replicate 32 7, st_index = 0, st_model_shard = [],
       st_input_shard = None, st_miner = zero_address, st_status = task_status_pending, st_result = None, st_compute_cost = 1\<rparr>,
       dag_dependencies = Map.empty\<rparr>, t_hash = replicate 32 7, t_hash_once = True\<rparr>"

definition score_sort :: "candidate list \<Rightarrow> candidate list" where
  "score_sort xs = heap_drain better_score (length xs) (heap_init better_score xs)"

lemma score_sort: "go_sort better_score score_sort"
  using score_order.heap_sort by (simp add: score_sort_def [abs_def])

lemma strong_for_all: "t \<in> set all_tiers \<Longrightarrow> can_miner_handle t strong_miner"
  by (auto simp: all_tiers_def tier_defs can_miner_handle_def get_tier_requirements_def strong_miner_def)

lemma two_miners:
  "tier_list (dp_by_tier (register_miner [2] strong_miner (register_miner [1] strong_miner new_dispatcher))) 5 = [[1], [2]]"
proof -
  have "5 \<in> set all_tiers" by (simp add: all_tiers_def tier_defs)
  moreover have "tier_list (fold (\<lambda>t m. m(t \<mapsto> [])) all_tiers Map.empty) 5 = []"
    by (rule tier_list_fold_new) (simp add: tier_list_def)
  ultimately show ?thesis using strong_for_all
    by (simp add: register_miner_def Let_def tier_list_fold_register [OF distinct_tiers] append_unique_def new_dispatcher_def)
qed

theorem dispatch_picks_best_witness:
  "\<exists>a d'. dispatch score_sort tier5_task (register_miner [2] strong_miner (register_miner [1] strong_miner new_dispatcher)) = Ok (a, d')"
proof -
  let ?d = "register_miner [2] strong_miner (register_miner [1] strong_miner new_dispatcher)"
  have t: "t_tier tier5_task = 5" by (simp add: tier5_task_def)
  have "dp_reachable ?d" by (intro dp_register dp_new)
  from dispatch_picks_best [OF this score_sort, of tier5_task] show ?thesis
    unfolding t two_miners by auto
qed

theorem distribution_even_witness:
  "\<exists>as d'. dispatch_distributed tier5_task (register_miner [2] strong_miner (register_miner [1] strong_miner new_dispatcher)) = Ok (as, d') \<and>
     count_list as [1] = 2 \<and> count_list as [2] = 1"
proof -
  let ?d = "register_miner [2] strong_miner (register_miner [1] strong_miner new_dispatcher)"
  obtain g where g: "t_dag tier5_task = Some g" "dag_subtasks g \<noteq> []" "length (dag_subtasks g) = 3" "t_tier tier5_task = tier5_distributed"
    by (simp add: tier5_task_def tier_defs)
  have l: "tier_list (dp_by_tier ?d) tier5_distributed = [[1], [2]]" using two_miners by (simp add: tier_defs)
  have "dp_reachable ?d" by (intro dp_register dp_new)
  from distribution_even [OF this g(4,1,2) l _ g(3)] obtain as d' where d: "dispatch_distributed tier5_task ?d = Ok (as, d')"
    "\<forall>i < length [[1], [2 :: byte]]. count_list as ([[1], [2]] ! i) =
       3 div length [[1], [2 :: byte]] + (if i < 3 mod length [[1], [2 :: byte]] then 1 else 0)" by blast
  have len: "length [[1], [2 :: byte]] = 2" by simp
  have "3 div length [[1], [2 :: byte]] = 1" "3 mod length [[1], [2 :: byte]] = 1" unfolding len by simp_all
  with d(2) [THEN spec, of 0] d(2) [THEN spec, of 1] d(1) show ?thesis by auto
qed

theorem downgraded_miner_dispatched_witness:
  "\<exists>d'. dispatch score_sort tier5_task (register_miner [1] (strong_miner\<lparr>mc_vram := 0\<rparr>)
     (register_miner [1] strong_miner new_dispatcher)) = Ok ([1], d')"
proof -
  have t: "t_tier tier5_task \<in> set all_tiers" by (simp add: tier5_task_def all_tiers_def tier_defs)
  have e: "tier_list (dp_by_tier new_dispatcher) (t_tier tier5_task) = []"
    using tier_list_fold_new [of Map.empty] by (simp add: new_dispatcher_def tier_list_def)
  have "\<not> can_miner_handle (t_tier tier5_task) (strong_miner\<lparr>mc_vram := 0\<rparr>)"
    by (simp add: tier5_task_def can_miner_handle_def get_tier_requirements_def strong_miner_def tier_defs)
  from downgraded_miner_dispatched [OF dp_new score_sort t e strong_for_all [OF t] this] show ?thesis by blast
qed

end
