(* ===== verification/GoSlice.thy ===== *)
theory GoSlice
  imports Prelude
begin

text \<open>
  Slices of Go with their bounds checks, and loops that may panic. An index is an \<open>int\<close>; an access
  outside the slice is \<open>Panic\<close>. A slice expression is checked against the length: the code that uses
  this theory slices only arrays whose capacity is their length.
\<close>

named_theorems slice_simps \<open>accesses within the bounds of a slice\<close>

definition go_index :: "'a list \<Rightarrow> int \<Rightarrow> ('e, 'a) outcome" where
  "go_index xs i = (if 0 \<le> i \<and> i < int (length xs) then Ok (xs ! nat i) else Panic)"

definition go_update :: "'a list \<Rightarrow> int \<Rightarrow> 'a \<Rightarrow> ('e, 'a list) outcome" where
  "go_update xs i v = (if 0 \<le> i \<and> i < int (length xs) then Ok (xs[nat i := v]) else Panic)"

definition go_slice :: "'a list \<Rightarrow> int \<Rightarrow> int \<Rightarrow> ('e, 'a list) outcome" where
  "go_slice xs a b = (if 0 \<le> a \<and> a \<le> b \<and> b \<le> int (length xs) then Ok (take (nat (b - a)) (drop (nat a) xs)) else Panic)"

text \<open>\<open>make([]T, n)\<close> panics on a negative length.\<close>

definition go_make :: "'a \<Rightarrow> int \<Rightarrow> ('e, 'a list) outcome" where
  "go_make z n = (if n < 0 then Panic else Ok (replicate (nat n) z))"

text \<open>\<open>copy(dst, src)\<close> overwrites as many elements as both slices have.\<close>

definition go_copy :: "'a list \<Rightarrow> 'a list \<Rightarrow> 'a list" where
  "go_copy dst src = take (length dst) src @ drop (length src) dst"

lemma length_go_copy [simp]: "length (go_copy dst src) = length dst"
  by (simp add: go_copy_def)

lemma go_copy_same: "length src = length dst \<Longrightarrow> go_copy dst src = src"
  by (simp add: go_copy_def)

text \<open>\<open>for i := 0; i < n; i++\<close> runs over these values.\<close>

definition go_range :: "int \<Rightarrow> int list" where
  "go_range n = map int [0..<nat n]"

fun ofold :: "('a \<Rightarrow> 's \<Rightarrow> ('e, 's) outcome) \<Rightarrow> 'a list \<Rightarrow> 's \<Rightarrow> ('e, 's) outcome" where
  "ofold f [] s = Ok s"
| "ofold f (x # xs) s = obind (f x s) (ofold f xs)"

fun omap :: "('a \<Rightarrow> ('e, 'b) outcome) \<Rightarrow> 'a list \<Rightarrow> ('e, 'b list) outcome" where
  "omap f [] = Ok []"
| "omap f (x # xs) = obind (f x) (\<lambda>y. obind (omap f xs) (\<lambda>ys. Ok (y # ys)))"

lemma go_index_Ok [slice_simps]: "0 \<le> i \<Longrightarrow> i < int (length xs) \<Longrightarrow> go_index xs i = Ok (xs ! nat i)"
  by (simp add: go_index_def)

lemma go_index_nat [slice_simps]: "i < length xs \<Longrightarrow> go_index xs (int i) = Ok (xs ! i)"
  by (simp add: go_index_def)

lemma go_update_Ok [slice_simps]:
  "0 \<le> i \<Longrightarrow> i < int (length xs) \<Longrightarrow> go_update xs i v = Ok (xs[nat i := v])"
  by (simp add: go_update_def)

lemma go_update_nat [slice_simps]: "i < length xs \<Longrightarrow> go_update xs (int i) v = Ok (xs[i := v])"
  by (simp add: go_update_def)

lemma go_slice_Ok:
  "0 \<le> a \<Longrightarrow> 0 \<le> n \<Longrightarrow> a + n \<le> int (length xs) \<Longrightarrow> go_slice xs a (a + n) = Ok (take (nat n) (drop (nat a) xs))"
  by (simp add: go_slice_def)

lemma go_slice_nat:
  "a + n \<le> length xs \<Longrightarrow> go_slice xs (int a) (int a + int n) = Ok (take n (drop a xs))"
  unfolding go_slice_def by simp

lemma length_cut:
  "0 \<le> a \<Longrightarrow> 0 \<le> n \<Longrightarrow> a + n \<le> int (length xs) \<Longrightarrow> int (length (take (nat n) (drop (nat a) xs))) = n"
  by (simp add: min_def) linarith

lemma set_go_range [simp]: "set (go_range n) = {0..<n}"
proof -
  have "\<And>x. x \<in> {0..<n} \<Longrightarrow> x \<in> int ` {0..<nat n}"
    by (metis atLeastLessThan_iff imageI nat_less_iff nat_0_le zero_le_imp_eq_int bot_nat_0.extremum nat_int zless_nat_eq_int_zless)
  then show ?thesis by (auto simp: go_range_def)
qed

lemma length_go_range [simp]: "length (go_range n) = nat n"
  by (simp add: go_range_def)

lemma go_range_nth: "i < nat n \<Longrightarrow> go_range n ! i = int i"
  by (simp add: go_range_def)

lemma go_range_nonpos [simp]: "n \<le> 0 \<Longrightarrow> go_range n = []"
  by (simp add: go_range_def)

lemma go_range_Suc: "go_range (int (Suc n)) = go_range (int n) @ [int n]"
  by (simp add: go_range_def nat_add_distrib)

lemma ofold_append: "ofold f (xs @ ys) s = obind (ofold f xs s) (ofold f ys)"
proof (induction xs arbitrary: s)
  case (Cons x xs)
  then have "ofold f (xs @ ys) = (\<lambda>s. obind (ofold f xs s) (ofold f ys))" by (rule ext)
  then show ?case by (simp add: obind_assoc)
qed simp

lemma omap_Ok: "(\<And>x. x \<in> set xs \<Longrightarrow> f x = Ok (g x)) \<Longrightarrow> omap f xs = Ok (map g xs)"
  by (induction xs) auto

lemma omap_Ok_iff:
  "omap f xs = Ok ys \<longleftrightarrow> length ys = length xs \<and> (\<forall>i < length xs. f (xs ! i) = Ok (ys ! i))"
proof (induction xs arbitrary: ys)
  case (Cons x xs)
  have "omap f (x # xs) = Ok ys \<longleftrightarrow> (\<exists>y zs. f x = Ok y \<and> omap f xs = Ok zs \<and> ys = y # zs)"
    by (auto simp: obind_Ok_iff)
  also have "\<dots> \<longleftrightarrow> length ys = length (x # xs) \<and> (\<forall>i < length (x # xs). f ((x # xs) ! i) = Ok (ys ! i))"
    by (cases ys) (auto simp: Cons.IH less_Suc_eq_0_disj)
  finally show ?case .
qed auto

lemma omap_total [simp]: "omap (\<lambda>x. Ok (g x)) xs = Ok (map g xs)"
  by (rule omap_Ok) simp

lemma ofold_Ok: "(\<And>x s. x \<in> set xs \<Longrightarrow> f x s = Ok (g x s)) \<Longrightarrow> ofold f xs s = Ok (fold g xs s)"
  by (induction xs arbitrary: s) auto

text \<open>A loop keeps an invariant that each turn keeps, and then never fails.\<close>

lemma ofold_invariant:
  assumes "\<And>x s. x \<in> set xs \<Longrightarrow> I s \<Longrightarrow> f x s = Ok (g x s) \<and> I (g x s)" "I s"
  shows "ofold f xs s = Ok (fold g xs s) \<and> I (fold g xs s)"
  using assms by (induction xs arbitrary: s) auto

text \<open>Two nested loops are one loop over the pairs of indices.\<close>

lemma ofold_map: "ofold f (map h xs) s = ofold (\<lambda>x. f (h x)) xs s"
proof (induction xs arbitrary: s)
  case (Cons x xs)
  then have "ofold f (map h xs) = ofold (\<lambda>x. f (h x)) xs" by (rule ext)
  then show ?case by simp
qed simp

lemma ofold_product: "ofold (\<lambda>i. ofold (f i) ys) xs s = ofold (\<lambda>(i, j). f i j) (List.product xs ys) s"
proof (induction xs arbitrary: s)
  case (Cons x xs)
  then have "ofold (\<lambda>i. ofold (f i) ys) xs = ofold (\<lambda>(i, j). f i j) (List.product xs ys)" by (rule ext)
  moreover have "ofold (\<lambda>(i, j). f i j) (map (Pair x) ys) s = ofold (f x) ys s"
    by (simp add: ofold_map)
  ultimately show ?case by (simp add: ofold_append)
qed simp

text \<open>A loop that writes each position of a list at most once.\<close>

lemma length_fold_update [simp]: "length (fold (\<lambda>x d. d[ix x := g x]) xs d) = length d"
  by (induction xs arbitrary: d) simp_all

lemma fold_update_other:
  "p \<notin> ix ` set xs \<Longrightarrow> fold (\<lambda>x d. d[ix x := g x]) xs d ! p = d ! p"
  by (induction xs arbitrary: d) auto

lemma fold_update_nth:
  "x \<in> set xs \<Longrightarrow> distinct (map ix xs) \<Longrightarrow> ix x < length d \<Longrightarrow>
     fold (\<lambda>x d. d[ix x := g x]) xs d ! ix x = g x"
proof (induction xs arbitrary: d)
  case (Cons y ys)
  show ?case
  proof (cases "x = y")
    case True
    with Cons.prems show ?thesis by (simp add: fold_update_other)
  next
    case False
    with Cons show ?thesis by simp
  qed
qed simp

lemma fold_concat: "fold f (concat xss) s = fold (fold f) xss s"
  by (induction xss arbitrary: s) auto

text \<open>An interval of integers, and a range cut in two.\<close>

lemma go_range_upto: "go_range n = [0..n - 1]"
proof (cases "0 \<le> n")
  case True
  then show ?thesis
  proof (induction n rule: int_ge_induct)
    case (step n)
    have "go_range (n + 1) = go_range n @ [n]"
      using go_range_Suc [of "nat n"] step.hyps by (simp add: add.commute)
    also have "\<dots> = [0..n]" using step upto_rec2 [of 0 n] by simp
    finally show ?case by simp
  qed simp
qed simp

lemma map_plus_go_range: "map (\<lambda>h. a + h) (go_range n) = [a..a + n - 1]"
proof (cases "0 \<le> n")
  case True
  then show ?thesis
  proof (induction n rule: int_ge_induct)
    case (step n)
    have "go_range (n + 1) = go_range n @ [n]"
      using go_range_Suc [of "nat n"] step.hyps by (simp add: add.commute)
    then show ?case using step upto_rec2 [of a "a + n"] by simp
  qed simp
qed simp

lemma go_range_split: "0 \<le> a \<Longrightarrow> 0 \<le> n \<Longrightarrow> go_range (a + n) = go_range a @ [a..a + n - 1]"
  unfolding go_range_upto using upto_split1 [of 0 a "a + n - 1"] by (cases "n = 0") simp_all

lemma ofold_keeps:
  assumes "\<And>x s. x \<in> set xs \<Longrightarrow> I s \<Longrightarrow> \<exists>s'. f x s = Ok s' \<and> I s'" "I s"
  shows "\<exists>s'. ofold f xs s = Ok s' \<and> I s'"
  using assms
proof (induction xs arbitrary: s)
  case (Cons x xs)
  obtain s' where "f x s = Ok s'" "I s'" using Cons.prems(1) [of x s] Cons.prems(2) by auto
  with Cons.IH [of s'] Cons.prems(1) show ?case by simp
qed simp

lemma ofold_panics:
  assumes "\<And>x s. x \<in> set xs \<Longrightarrow> I s \<Longrightarrow> f x s = Panic \<or> (\<exists>s'. f x s = Ok s' \<and> I s')" "I s"
    "x \<in> set xs" "\<And>s. I s \<Longrightarrow> f x s = Panic"
  shows "ofold f xs s = Panic"
  using assms
proof (induction xs arbitrary: s)
  case (Cons y ys)
  show ?case
  proof (cases "f y s = Panic")
    case False
    with Cons.prems obtain s' where s': "f y s = Ok s'" "I s'" by (meson list.set_intros(1))
    with False Cons.prems have "x \<in> set ys" by auto
    with Cons.IH [OF _ s'(2)] Cons.prems s' show ?thesis by simp
  qed simp
qed simp

text \<open>A run of a slice overwritten, and the elements it leaves.\<close>

lemma splice_nth:
  assumes "a + length ys \<le> length xs" "p < length xs"
  shows "(take a xs @ ys @ drop (a + length ys) xs) ! p = (if a \<le> p \<and> p < a + length ys then ys ! (p - a) else xs ! p)"
  using assms by (auto simp: nth_append min_def)

lemma splice_length:
  "a + length ys \<le> length xs \<Longrightarrow> length (take a xs @ ys @ drop (a + length ys) xs) = length xs"
  by simp

lemma cut_eqI:
  assumes "length xs = length ys" "a + n \<le> length xs" "\<And>p. a \<le> p \<Longrightarrow> p < a + n \<Longrightarrow> xs ! p = ys ! p"
  shows "take n (drop a xs) = take n (drop a ys)"
  using assms by (intro nth_equalityI) auto

lemma nth_concat_replicate:
  "p < n * length xs \<Longrightarrow> concat (replicate n xs) ! p = xs ! (p mod length xs)"
proof (induction n arbitrary: p)
  case (Suc n)
  show ?case
  proof (cases "p < length xs")
    case False
    with Suc.prems have "p - length xs < n * length xs" by simp
    from Suc.IH [OF this] False show ?thesis by (simp add: nth_append le_mod_geq)
  qed (simp add: nth_append)
qed simp

text \<open>Adding a buffer into a run of a slice leaves the rest alone.\<close>

lemma add_run:
  fixes d :: "'a list" and vs :: "'b list"
  assumes "0 \<le> a" "a + int (length vs) \<le> int (length d)"
  shows "\<exists>d'. ofold (\<lambda>(i, v) d. obind (go_index d (a + i)) (\<lambda>x. go_update d (a + i) (h x v))) (zip (go_range (int (length vs))) vs) d = (Ok d' :: ('c, 'a list) outcome) \<and>
    (length d' = length d \<and> (\<forall>p. int p < a \<or> a + int (length vs) \<le> int p \<longrightarrow> d' ! p = d ! p))"
proof (rule ofold_keeps)
  fix x :: "int \<times> 'b" and s :: "'a list"
  assume x: "x \<in> set (zip (go_range (int (length vs))) vs)"
    and s: "length s = length d \<and> (\<forall>p. int p < a \<or> a + int (length vs) \<le> int p \<longrightarrow> s ! p = d ! p)"
  obtain i v where iv: "x = (i, v)" by (cases x)
  with x have i: "0 \<le> i" "i < int (length vs)" by (auto dest!: set_zip_leftD)
  with s assms have "go_index s (a + i) = (Ok (s ! nat (a + i)) :: ('c, 'a) outcome)"
    "go_update s (a + i) (h (s ! nat (a + i)) v) = (Ok (s[nat (a + i) := h (s ! nat (a + i)) v]) :: ('c, 'a list) outcome)"
    by (simp_all add: go_index_def go_update_def)
  moreover have "s[nat (a + i) := y] ! p = d ! p" if "int p < a \<or> a + int (length vs) \<le> int p" for p y
  proof -
    have "int (nat (a + i)) = a + i" using i assms(1) by simp
    then have "nat (a + i) \<noteq> p" using that i by linarith
    with s that show ?thesis by auto
  qed
  ultimately show "\<exists>s'. (case x of (i, v) \<Rightarrow> \<lambda>d. obind (go_index d (a + i)) (\<lambda>x. go_update d (a + i) (h x v))) s = (Ok s' :: ('c, 'a list) outcome) \<and>
      (length s' = length d \<and> (\<forall>p. int p < a \<or> a + int (length vs) \<le> int p \<longrightarrow> s' ! p = d ! p))"
    using s iv by simp
qed simp

end
