(* ===== verification/Float32.thy ===== *)
theory Float32
  imports Float64
begin

text \<open>
  Go's \<open>float32\<close>: the numbers with 24 significant bits, a subset of the \<open>float64\<close> values, so the
  conversion to \<open>float64\<close> is the identity. Each operation rounds its exact result once, to nearest with
  ties to even. As for \<open>float64\<close>, the exponent is not bounded: infinities, NaN and subnormal numbers
  are not modelled.
\<close>

type_synonym f32 = f64

definition round24 :: "bool \<Rightarrow> nat \<Rightarrow> nat" where
  "round24 sticky n = round_at (bit_len n - 24) sticky n"

definition f32_round :: "bool \<Rightarrow> int \<Rightarrow> nat \<Rightarrow> f32" where
  "f32_round sticky m k = F64 (sgn m * int (round24 sticky (nat \<bar>m\<bar>))) k"

fun f32_of_f64 :: "f64 \<Rightarrow> f32" where
  "f32_of_f64 (F64 m k) = f32_round False m k"

fun f32_mul :: "f32 \<Rightarrow> f32 \<Rightarrow> f32" where
  "f32_mul (F64 m k) (F64 n l) = f32_round False (m * n) (k + l)"

fun f32_add :: "f32 \<Rightarrow> f32 \<Rightarrow> f32" where
  "f32_add (F64 m k) (F64 n l) = f32_round False (m * 2 ^ l + n * 2 ^ k) (k + l)"

definition f32_sub :: "f32 \<Rightarrow> f32 \<Rightarrow> f32" where
  "f32_sub a b = f32_add a (f64_neg b)"

fun f32_div :: "f32 \<Rightarrow> f32 \<Rightarrow> f32" where
  "f32_div (F64 m k) (F64 n l) =
     (let a = nat \<bar>m\<bar> * 2 ^ l * 2 ^ (64 + bit_len (nat \<bar>n\<bar>)); b = nat \<bar>n\<bar>
      in f32_round (a mod b \<noteq> 0) (sgn m * sgn n * int (a div b)) (k + 64 + bit_len (nat \<bar>n\<bar>)))"

definition f32_zero :: f32 where "f32_zero = F64 0 0"
definition f32_one :: f32 where "f32_one = F64 1 0"

lemmas f32_eval = f32_round_def round24_def round_at_def f32_sub_def Let_def bit_len_eval f32_zero_def f32_one_def

lemma f32_example: "f32_mul (F64 8389447 23) (F64 2 0) = F64 16778894 23"
  by (simp add: f32_eval)

end
