(* ===== verification/Tensor.thy ===== *)
theory Tensor
  imports GoSlice Float32
begin

text \<open>
  Tensors of \<open>float32\<close>, \<^verbatim>\<open>src/pkg/compute/distributed/tensor.go\<close>: a flat slice of data with its shape and
  its strides. The functions that panic in Go are \<open>Panic\<close>. \<open>Slice\<close> returns a view of the same array and
  \<open>NewTensorFromData\<close> keeps the slice it is given; nothing in the package writes to a tensor that shares
  its array, so tensors are values. \<open>math.Exp\<close>, \<open>math.Tanh\<close> and \<open>math.Sqrt\<close> are the arguments \<open>exp\<close>,
  \<open>tanh\<close> and \<open>sqrt\<close>.
\<close>

record tensor =
  tn_data :: "f32 list"
  tn_shape :: "int list"
  tn_strides :: "int list"

text \<open>Go fills the strides from the last dimension to the first.\<close>

fun compute_strides :: "int list \<Rightarrow> int list" where
  "compute_strides [] = []"
| "compute_strides [d] = [1]"
| "compute_strides (d # e # ds) = hd (compute_strides (e # ds)) * e # compute_strides (e # ds)"

definition shape_size :: "int list \<Rightarrow> int" where
  "shape_size shape = fold (\<lambda>d size. size * d) shape 1"

definition new_tensor :: "int list \<Rightarrow> (string, tensor) outcome" where
  "new_tensor shape = obind (go_make f32_zero (shape_size shape)) (\<lambda>d.
     Ok \<lparr>tn_data = d, tn_shape = shape, tn_strides = compute_strides shape\<rparr>)"

definition new_tensor_from_data :: "f32 list \<Rightarrow> int list \<Rightarrow> tensor" where
  "new_tensor_from_data d shape = \<lparr>tn_data = d, tn_shape = shape, tn_strides = compute_strides shape\<rparr>"

fun offset_loop :: "int list \<Rightarrow> int list \<Rightarrow> int \<Rightarrow> (string, int) outcome" where
  "offset_loop [] strides off = Ok off"
| "offset_loop (i # is) (s # strides) off = offset_loop is strides (off + i * s)"
| "offset_loop (i # is) [] off = Panic"

definition tensor_offset :: "tensor \<Rightarrow> int list \<Rightarrow> (string, int) outcome" where
  "tensor_offset t indices =
     (if length indices \<noteq> length (tn_shape t) then Panic else offset_loop indices (tn_strides t) 0)"

definition tensor_get :: "int list \<Rightarrow> tensor \<Rightarrow> (string, f32) outcome" where
  "tensor_get indices t = obind (tensor_offset t indices) (go_index (tn_data t))"

definition tensor_set :: "f32 \<Rightarrow> int list \<Rightarrow> tensor \<Rightarrow> (string, tensor) outcome" where
  "tensor_set v indices t = obind (tensor_offset t indices) (\<lambda>off.
     obind (go_update (tn_data t) off v) (\<lambda>d. Ok (t\<lparr>tn_data := d\<rparr>)))"

definition tensor_size :: "tensor \<Rightarrow> int" where
  "tensor_size t = int (length (tn_data t))"

definition tensor_reshape :: "int list \<Rightarrow> tensor \<Rightarrow> (string, tensor) outcome" where
  "tensor_reshape shape t =
     (if shape_size shape \<noteq> tensor_size t then Panic
      else Ok (t\<lparr>tn_shape := shape, tn_strides := compute_strides shape\<rparr>))"

definition tensor_slice :: "int \<Rightarrow> int \<Rightarrow> tensor \<Rightarrow> (string, tensor) outcome" where
  "tensor_slice start stop t =
     (if start < 0 then Panic
      else obind (go_index (tn_shape t) 0) (\<lambda>d0.
        if stop > d0 \<or> start \<ge> stop then Panic
        else let newShape = (tn_shape t)[0 := stop - start] in
          obind (go_index (tn_strides t) 0) (\<lambda>s0.
            let off = start * s0; size = (stop - start) * s0 in
              obind (go_slice (tn_data t) off (off + size)) (\<lambda>d.
                Ok \<lparr>tn_data = d, tn_shape = newShape, tn_strides = compute_strides newShape\<rparr>))))"

text \<open>The loops \<open>for i := range result.Data\<close> of Add, Mul and Scale read \<open>t.Data[i]\<close>.\<close>

definition tensor_fill :: "int list \<Rightarrow> (int \<Rightarrow> (string, f32) outcome) \<Rightarrow> (string, tensor) outcome" where
  "tensor_fill shape f = obind (new_tensor shape) (\<lambda>r.
     obind (omap f (go_range (tensor_size r))) (\<lambda>d. Ok (r\<lparr>tn_data := d\<rparr>)))"

definition tensor_add :: "tensor \<Rightarrow> tensor \<Rightarrow> (string, tensor) outcome" where
  "tensor_add t other =
     (if length (tn_data t) \<noteq> length (tn_data other) then Panic
      else tensor_fill (tn_shape t) (\<lambda>i. obind (go_index (tn_data t) i) (\<lambda>a.
        obind (go_index (tn_data other) i) (\<lambda>b. Ok (f32_add a b)))))"

definition tensor_add_in_place :: "tensor \<Rightarrow> tensor \<Rightarrow> (string, tensor) outcome" where
  "tensor_add_in_place t other =
     (if length (tn_data t) \<noteq> length (tn_data other) then Panic
      else Ok (t\<lparr>tn_data := map2 f32_add (tn_data t) (tn_data other)\<rparr>))"

definition tensor_mul :: "tensor \<Rightarrow> tensor \<Rightarrow> (string, tensor) outcome" where
  "tensor_mul t other =
     (if length (tn_data t) \<noteq> length (tn_data other) then Panic
      else tensor_fill (tn_shape t) (\<lambda>i. obind (go_index (tn_data t) i) (\<lambda>a.
        obind (go_index (tn_data other) i) (\<lambda>b. Ok (f32_mul a b)))))"

definition tensor_scale :: "f32 \<Rightarrow> tensor \<Rightarrow> (string, tensor) outcome" where
  "tensor_scale scalar t =
     tensor_fill (tn_shape t) (\<lambda>i. obind (go_index (tn_data t) i) (\<lambda>a. Ok (f32_mul a scalar)))"

definition mat_dot :: "tensor \<Rightarrow> tensor \<Rightarrow> int \<Rightarrow> int \<Rightarrow> int \<Rightarrow> int \<Rightarrow> (string, f32) outcome" where
  "mat_dot a b rowOff bStride j k1 = ofold (\<lambda>k sum. obind (go_index (tn_data a) (rowOff + k)) (\<lambda>x.
     obind (go_index (tn_data b) (k * bStride + j)) (\<lambda>y. Ok (f32_add sum (f32_mul x y))))) (go_range k1) f32_zero"

definition mat_mul :: "tensor \<Rightarrow> tensor \<Rightarrow> (string, tensor) outcome" where
  "mat_mul a b =
     (if length (tn_shape a) \<noteq> 2 \<or> length (tn_shape b) \<noteq> 2 then Panic
      else let m = tn_shape a ! 0; k1 = tn_shape a ! 1; k2 = tn_shape b ! 0; n = tn_shape b ! 1 in
        if k1 \<noteq> k2 then Panic
        else obind (new_tensor [m, n]) (\<lambda>result.
          ofold (\<lambda>i r. ofold (\<lambda>j r.
              obind (mat_dot a b (i * tn_strides a ! 0) (tn_strides b ! 0) j k1) (\<lambda>sum.
                obind (go_update (tn_data r) (i * tn_strides r ! 0 + j) sum) (\<lambda>d. Ok (r\<lparr>tn_data := d\<rparr>))))
            (go_range n) r) (go_range m) result))"

text \<open>The loops \<open>for i, v := range x.Data\<close> of the activations write \<open>result.Data[i]\<close>.\<close>

definition tensor_activate :: "(f32 \<Rightarrow> f32) \<Rightarrow> tensor \<Rightarrow> (string, tensor) outcome" where
  "tensor_activate f x = obind (new_tensor (tn_shape x)) (\<lambda>r.
     obind (ofold (\<lambda>(i, v) d. go_update d i (f v)) (zip (go_range (tensor_size x)) (tn_data x)) (tn_data r)) (\<lambda>d.
       Ok (r\<lparr>tn_data := d\<rparr>)))"

text \<open>The nearest \<open>float64\<close> of 0.79788456 and of 0.044715.\<close>

definition gelu_scale :: f64 where "gelu_scale = F64 14036533621487 44"
definition gelu_cubic :: f64 where "gelu_cubic = F64 6444110634811895 57"

definition gelu :: "(f64 \<Rightarrow> f64) \<Rightarrow> tensor \<Rightarrow> (string, tensor) outcome" where
  "gelu tanh = tensor_activate (\<lambda>v. f32_mul (f32_mul (F64 1 1) v) (f32_add f32_one (f32_of_f64 (tanh
     (f64_mul gelu_scale (f64_add v (f64_mul (f64_mul (f64_mul gelu_cubic v) v) v)))))))"

definition silu :: "(f64 \<Rightarrow> f64) \<Rightarrow> tensor \<Rightarrow> (string, tensor) outcome" where
  "silu exp = tensor_activate (\<lambda>v.
     if f64_less v f32_zero
     then let expv = f32_of_f64 (exp v) in f32_div (f32_mul v expv) (f32_add f32_one expv)
     else f32_div v (f32_add f32_one (f32_of_f64 (exp (f64_neg v)))))"

text \<open>The maximum starts at minus infinity, \<open>None\<close> here.\<close>

definition max_step :: "f32 \<Rightarrow> f32 option \<Rightarrow> f32 option" where
  "max_step x m = (case m of None \<Rightarrow> Some x | Some y \<Rightarrow> if f64_less y x then Some x else Some y)"

definition softmax_row :: "(f64 \<Rightarrow> f64) \<Rightarrow> f32 list \<Rightarrow> f32 list" where
  "softmax_row exp xs =
     (let maxVal = the (fold max_step xs None);
          es = map (\<lambda>x. f32_of_f64 (exp (f32_sub x maxVal))) xs;
          sum = fold (\<lambda>e s. f32_add s e) es f32_zero
      in map (\<lambda>e. f32_div e sum) es)"

text \<open>A function applied to each row, a run of \<open>lastDim\<close> elements, with the results in \<open>result.Data\<close>.\<close>

definition tensor_rows :: "(f32 list \<Rightarrow> (string, f32 list) outcome) \<Rightarrow> tensor \<Rightarrow> (string, tensor) outcome" where
  "tensor_rows f x = obind (new_tensor (tn_shape x)) (\<lambda>r.
     obind (go_index (tn_shape x) (int (length (tn_shape x)) - 1)) (\<lambda>lastDim.
       if lastDim = 0 then Panic
       else ofold (\<lambda>batch r. let off = batch * lastDim in
           obind (go_slice (tn_data x) off (off + lastDim)) (\<lambda>row. obind (f row) (\<lambda>ys.
             if off + lastDim \<le> tensor_size r
             then Ok (r\<lparr>tn_data := take (nat off) (tn_data r) @ ys @ drop (nat (off + lastDim)) (tn_data r)\<rparr>)
             else Panic)))
         (go_range (tensor_size x div lastDim)) r))"

definition softmax :: "(f64 \<Rightarrow> f64) \<Rightarrow> tensor \<Rightarrow> (string, tensor) outcome" where
  "softmax exp = tensor_rows (\<lambda>row. Ok (softmax_row exp row))"

definition rms_row :: "(f64 \<Rightarrow> f64) \<Rightarrow> tensor option \<Rightarrow> f32 \<Rightarrow> f32 list \<Rightarrow> (string, f32 list) outcome" where
  "rms_row sqrt weight epsilon xs =
     (let sumSq = fold (\<lambda>x s. f32_add s (f32_mul x x)) xs f32_zero;
          rms = f32_of_f64 (sqrt (f32_add (f32_div sumSq (f32_of_f64 (F64 (int (length xs)) 0))) epsilon))
      in omap (\<lambda>j. let y = f32_div (xs ! nat j) rms in
           case weight of None \<Rightarrow> Ok y
           | Some w \<Rightarrow> obind (go_index (tn_data w) j) (\<lambda>c. Ok (f32_mul y c))) (go_range (int (length xs))))"

definition rms_norm :: "(f64 \<Rightarrow> f64) \<Rightarrow> tensor option \<Rightarrow> f32 \<Rightarrow> tensor \<Rightarrow> (string, tensor) outcome" where
  "rms_norm sqrt weight epsilon = tensor_rows (rms_row sqrt weight epsilon)"

end
