(* ===== verification/Sharding.thy ===== *)
theory Sharding
  imports Tensor Tasks
begin

text \<open>
  The split of a model over miners, \<^verbatim>\<open>src/pkg/compute/distributed/sharding.go\<close>, and the schedule of a
  pipeline, the first half of \<^verbatim>\<open>parallelism.go\<close>. Sizes are Go \<open>int\<close>s, here integers; the memory estimate
  is \<open>uint64\<close> and wraps, as the \<open>int\<close> products converted to it do.
\<close>

text \<open>Division of \<open>int\<close>s truncates towards zero.\<close>

definition go_quot :: "int \<Rightarrow> int \<Rightarrow> int" where
  "go_quot a b = sgn a * sgn b * (\<bar>a\<bar> div \<bar>b\<bar>)"

definition go_rem :: "int \<Rightarrow> int \<Rightarrow> int" where
  "go_rem a b = a - go_quot a b * b"

section \<open>Sharding plans\<close>

record sharding_config =
  sc_num_miners :: int
  sc_num_layers :: int
  sc_hidden_size :: int
  sc_intermediate_size :: int
  sc_num_attention_heads :: int
  sc_num_kv_heads :: int
  sc_vocab_size :: int
  sc_max_seq_len :: int

record shard_assignment =
  sa_miner_id :: address
  sa_shard_index :: int
  sa_total_shards :: int
  sa_first_layer :: int
  sa_last_layer :: int
  sa_attention_heads :: "int list"
  sa_w1_columns :: "int \<times> int"
  sa_w2_rows :: "int \<times> int"
  sa_embedding_vocab :: "int \<times> int"
  sa_memory_required_mb :: u64

record sharding_plan =
  pl_config :: sharding_config
  pl_shards :: "shard_assignment list"
  pl_total_memory_mb :: u64

datatype shard_error = NeedMiners int int | LayerOutOfRange int int | LayerUnassigned int
  | HeadOutOfRange int int | HeadUnassigned int | InvalidParallelism int int

text \<open>The share of miner \<open>i\<close>: the quotient, and one more for the first miners while the remainder lasts.\<close>

definition shard_share :: "int \<Rightarrow> int \<Rightarrow> int \<Rightarrow> int" where
  "shard_share amount n i = (if i < go_rem amount n then go_quot amount n + 1 else go_quot amount n)"

record plan_loop =
  lp_shards :: "shard_assignment list"
  lp_total :: u64
  lp_layer :: int
  lp_head :: int
  lp_ffn :: int
  lp_vocab :: int

definition shard_mem_mb :: "sharding_config \<Rightarrow> int \<Rightarrow> int \<Rightarrow> u64" where
  "shard_mem_mb cfg myLayers myVocab =
     (let perLayerBytes = 4 * sc_hidden_size cfg * sc_hidden_size cfg * 2 + 3 * sc_hidden_size cfg * sc_intermediate_size cfg * 2;
          embedBytes = 2 * sc_hidden_size cfg * myVocab * 2;
          memBytes = word_of_int myLayers * word_of_int perLayerBytes + (word_of_int embedBytes :: u64)
      in memBytes div (1024 * 1024))"

definition plan_step :: "sharding_config \<Rightarrow> address list \<Rightarrow> int \<Rightarrow> plan_loop \<Rightarrow> (shard_error, plan_loop) outcome" where
  "plan_step cfg miners i s =
     (let n = sc_num_miners cfg;
          myLayers = shard_share (sc_num_layers cfg) n i;
          myHeads = shard_share (sc_num_attention_heads cfg) n i;
          myFFNCols = shard_share (sc_intermediate_size cfg) n i;
          myVocab = shard_share (sc_vocab_size cfg) n i
      in if myHeads < 0 then Panic
         else let heads = map (\<lambda>h. lp_head s + h) (go_range myHeads);
                  memMB = shard_mem_mb cfg myLayers myVocab
              in obind (go_index miners i) (\<lambda>miner.
                Ok \<lparr>lp_shards = lp_shards s @ [\<lparr>sa_miner_id = miner, sa_shard_index = i, sa_total_shards = n,
                        sa_first_layer = lp_layer s, sa_last_layer = lp_layer s + myLayers - 1,
                        sa_attention_heads = heads,
                        sa_w1_columns = (lp_ffn s, lp_ffn s + myFFNCols), sa_w2_rows = (lp_ffn s, lp_ffn s + myFFNCols),
                        sa_embedding_vocab = (lp_vocab s, lp_vocab s + myVocab), sa_memory_required_mb = memMB\<rparr>],
                    lp_total = lp_total s + memMB, lp_layer = lp_layer s + myLayers, lp_head = lp_head s + myHeads,
                    lp_ffn = lp_ffn s + myFFNCols, lp_vocab = lp_vocab s + myVocab\<rparr>))"

definition generate_sharding_plan :: "sharding_config \<Rightarrow> address list \<Rightarrow> (shard_error, sharding_plan) outcome" where
  "generate_sharding_plan cfg miners =
     (let n = sc_num_miners cfg in
      if n = 0 \<or> int (length miners) < n then Err (NeedMiners n (int (length miners)))
      else if n < 0 then Panic
      else obind (ofold (plan_step cfg miners) (go_range n)
             \<lparr>lp_shards = [], lp_total = 0, lp_layer = 0, lp_head = 0, lp_ffn = 0, lp_vocab = 0\<rparr>) (\<lambda>s.
           Ok \<lparr>pl_config = cfg, pl_shards = lp_shards s, pl_total_memory_mb = lp_total s\<rparr>))"

text \<open>The two passes of the validation: what the shards cover, then whether all is covered.\<close>

definition cover :: "(int \<Rightarrow> int \<Rightarrow> shard_error) \<Rightarrow> int \<Rightarrow> (shard_assignment \<Rightarrow> int list) \<Rightarrow> shard_assignment
    \<Rightarrow> bool list \<Rightarrow> (shard_error, bool list) outcome" where
  "cover err bound items s = ofold (\<lambda>l covered.
     if l \<ge> bound then Err (err (sa_shard_index s) l) else go_update covered l True) (items s)"

definition all_covered :: "(int \<Rightarrow> shard_error) \<Rightarrow> int \<Rightarrow> bool list \<Rightarrow> (shard_error, unit) outcome" where
  "all_covered err bound covered =
     ofold (\<lambda>l u. obind (go_index covered l) (\<lambda>c. if c then Ok u else Err (err l))) (go_range bound) ()"

definition shard_layers :: "shard_assignment \<Rightarrow> int list" where
  "shard_layers s = [sa_first_layer s..sa_last_layer s]"

definition validate_sharding_plan :: "sharding_plan \<Rightarrow> (shard_error, unit) outcome" where
  "validate_sharding_plan sp = (let cfg = pl_config sp in
     obind (go_make False (sc_num_layers cfg)) (\<lambda>c0.
     obind (ofold (cover LayerOutOfRange (sc_num_layers cfg) shard_layers) (pl_shards sp) c0) (\<lambda>c1.
     obind (all_covered LayerUnassigned (sc_num_layers cfg) c1) (\<lambda>_.
     obind (go_make False (sc_num_attention_heads cfg)) (\<lambda>h0.
     obind (ofold (cover HeadOutOfRange (sc_num_attention_heads cfg) sa_attention_heads) (pl_shards sp) h0) (\<lambda>h1.
       all_covered HeadUnassigned (sc_num_attention_heads cfg) h1))))))"

definition transformer_config :: "int \<Rightarrow> int \<Rightarrow> int \<Rightarrow> int \<Rightarrow> int \<Rightarrow> int \<Rightarrow> int \<Rightarrow> sharding_config" where
  "transformer_config layers hidden intermediate heads kv vocab seqlen = \<lparr>sc_num_miners = 0, sc_num_layers = layers,
     sc_hidden_size = hidden, sc_intermediate_size = intermediate, sc_num_attention_heads = heads, sc_num_kv_heads = kv,
     sc_vocab_size = vocab, sc_max_seq_len = seqlen\<rparr>"

definition standard_transformer_configs :: "string \<Rightarrow> sharding_config option" where
  "standard_transformer_configs = [''llama-3-70b'' \<mapsto> transformer_config 80 8192 28672 64 8 128256 8192,
     ''llama-3-405b'' \<mapsto> transformer_config 126 16384 53248 128 16 128256 8192,
     ''qwen-3.6-35b'' \<mapsto> transformer_config 60 6144 24576 48 8 152064 32768]"

definition estimate_shard_memory :: "shard_assignment \<Rightarrow> u64" where
  "estimate_shard_memory s =
     (let kvCacheBytes = word_of_int (sa_last_layer s - sa_first_layer s + 1) * 8192 * 2 * (2 :: u64)
      in sa_memory_required_mb s + kvCacheBytes div (1024 * 1024))"

definition ffn_cols :: "shard_assignment \<Rightarrow> int" where
  "ffn_cols s = snd (sa_w1_columns s) - fst (sa_w1_columns s)"

definition layer_count :: "shard_assignment \<Rightarrow> int" where
  "layer_count s = sa_last_layer s - sa_first_layer s + 1"

definition head_count :: "shard_assignment \<Rightarrow> int" where
  "head_count s = int (length (sa_attention_heads s))"

definition shard_overlap :: "shard_assignment \<Rightarrow> shard_assignment \<Rightarrow> bool" where
  "shard_overlap s other =
     (if sa_first_layer s > sa_last_layer other \<or> sa_first_layer other > sa_last_layer s then False
      else list_ex (\<lambda>h1. list_ex (\<lambda>h2. h1 = h2) (sa_attention_heads other)) (sa_attention_heads s))"

section \<open>Pipeline schedules\<close>

record parallelism_config =
  pc_pipeline_size :: int
  pc_tensor_size :: int
  pc_num_micro_batches :: int

definition default_parallelism_config :: "int \<Rightarrow> parallelism_config" where
  "default_parallelism_config numMiners =
     (if numMiners \<le> 2 then \<lparr>pc_pipeline_size = numMiners, pc_tensor_size = 1, pc_num_micro_batches = 4\<rparr>
      else if numMiners \<le> 4 then \<lparr>pc_pipeline_size = go_quot numMiners 2, pc_tensor_size = 2, pc_num_micro_batches = 8\<rparr>
      else if numMiners \<le> 8 then \<lparr>pc_pipeline_size = 4, pc_tensor_size = go_quot numMiners 4, pc_num_micro_batches = 16\<rparr>
      else \<lparr>pc_pipeline_size = 8, pc_tensor_size = go_quot numMiners 8, pc_num_micro_batches = 32\<rparr>)"

record pipe_stage =
  ps_stage_index :: int
  ps_first_layer :: int
  ps_last_layer :: int
  ps_worker_count :: int

record pipeline_schedule =
  sch_stages :: "pipe_stage list"
  sch_num_micro_batches :: int
  sch_bubbles :: int

fun stage_loop :: "parallelism_config \<Rightarrow> int \<Rightarrow> int list \<Rightarrow> int \<Rightarrow> pipe_stage list" where
  "stage_loop cfg numLayers [] layerStart = []"
| "stage_loop cfg numLayers (i # is) layerStart =
     (let myLayers = shard_share numLayers (pc_pipeline_size cfg) i
      in \<lparr>ps_stage_index = i, ps_first_layer = layerStart, ps_last_layer = layerStart + myLayers - 1,
          ps_worker_count = pc_tensor_size cfg\<rparr> # stage_loop cfg numLayers is (layerStart + myLayers))"

definition build_pipeline_schedule :: "parallelism_config \<Rightarrow> int \<Rightarrow> (shard_error, pipeline_schedule) outcome" where
  "build_pipeline_schedule cfg numLayers =
     (if pc_pipeline_size cfg \<le> 0 \<or> pc_tensor_size cfg \<le> 0
      then Err (InvalidParallelism (pc_pipeline_size cfg) (pc_tensor_size cfg))
      else Ok \<lparr>sch_stages = stage_loop cfg numLayers (go_range (pc_pipeline_size cfg)) 0,
        sch_num_micro_batches = pc_num_micro_batches cfg, sch_bubbles = (pc_pipeline_size cfg - 1) * 2\<rparr>)"

definition bubble_fraction :: "pipeline_schedule \<Rightarrow> f64" where
  "bubble_fraction ps =
     (if sch_num_micro_batches ps = 0 then F64 1 0
      else f64_div (f64_of_int (int (length (sch_stages ps)) - 1)) (f64_of_int (sch_num_micro_batches ps)))"

text \<open>The nearest \<open>float64\<close> of 0.85, 0.9 and 0.02.\<close>

definition f64_085 :: f64 where "f64_085 = F64 7656119366529843 53"
definition f64_090 :: f64 where "f64_090 = F64 8106479329266893 53"
definition f64_002 :: f64 where "f64_002 = F64 5764607523034235 58"

definition estimated_speedup :: "int \<Rightarrow> int \<Rightarrow> f64" where
  "estimated_speedup pipelineSize tensorSize =
     (let pipeEfficiency = (if pipelineSize > 1 then f64_085 else F64 1 0);
          e = f64_sub f64_090 (f64_mul f64_002 (f64_of_int (tensorSize - 2)));
          tensorEfficiency = (if tensorSize > 1 then if f64_less e (F64 1 1) then F64 1 1 else e else F64 1 0)
      in f64_mul (f64_mul (f64_mul (f64_of_int pipelineSize) pipeEfficiency) (f64_of_int tensorSize)) tensorEfficiency)"

end
