(* ===== verification/Pipeline.thy ===== *)
theory Pipeline
  imports Sharding
begin

text \<open>
  The pipeline executor, the second half of \<^verbatim>\<open>src/pkg/compute/distributed/parallelism.go\<close>. \<open>Execute\<close> starts
  a goroutine per stage, feeds the micro-batches, collects them behind the last stage and waits for the
  goroutines. Each of these is a process here, and one step of \<open>pipe_step\<close> is one step of one of them;
  channel \<open>i\<close> leads into stage \<open>i\<close> and holds at most \<open>NumMicroBatches\<close> elements. \<open>Cancel\<close> is the
  cancellation of the context from outside.
\<close>

record micro_batch =
  mb_index :: nat
  mb_data :: tensor
  mb_result :: "tensor option"

datatype worker = Idle | Holding micro_batch | Stopped

datatype main_phase = Feeding nat | Collecting nat | Waiting | Cancelled | Returned "tensor option list" | Crashed

record pipe =
  px_queues :: "nat \<Rightarrow> micro_batch list"
  px_workers :: "nat \<Rightarrow> worker"
  px_main :: main_phase
  px_results :: "tensor option list"
  px_cancelled :: bool

text \<open>The nearest \<open>float32\<close> of 1.0001.\<close>

definition stage_factor :: f32 where "stage_factor = F64 8389447 23"

definition simulate_stage_forward :: "tensor \<Rightarrow> (string, tensor) outcome" where
  "simulate_stage_forward input = obind (new_tensor (tn_shape input)) (\<lambda>output.
     Ok (output\<lparr>tn_data := map (\<lambda>v. f32_mul v stage_factor) (go_copy (tn_data output) (tn_data input))\<rparr>))"

definition start_pipe :: "nat \<Rightarrow> pipe" where
  "start_pipe M = \<lparr>px_queues = (\<lambda>_. []), px_workers = (\<lambda>_. Idle), px_main = Feeding 0,
     px_results = replicate M None, px_cancelled = False\<rparr>"

datatype pipe_event = Feed | FeedDone | Take nat | Put nat | Collect | CollectDone | Join
  | Cancel | StopWorker nat | CollectCancel

text \<open>\<open>n\<close> is the number of stages, \<open>M\<close> the number of micro-batches.\<close>

inductive pipe_step :: "nat \<Rightarrow> nat \<Rightarrow> tensor \<Rightarrow> pipe \<Rightarrow> pipe_event \<Rightarrow> pipe \<Rightarrow> bool" for n M input where
  feed: "px_main p = Feeding m \<Longrightarrow> m < M \<Longrightarrow> length (px_queues p 0) < M \<Longrightarrow>
    pipe_step n M input p Feed (p\<lparr>px_main := Feeding (Suc m),
      px_queues := (px_queues p)(0 := px_queues p 0 @ [\<lparr>mb_index = m, mb_data = input, mb_result = None\<rparr>])\<rparr>)"
| feed_done: "px_main p = Feeding M \<Longrightarrow> pipe_step n M input p FeedDone (p\<lparr>px_main := Collecting 0\<rparr>)"
| take: "s < n \<Longrightarrow> px_workers p s = Idle \<Longrightarrow> px_queues p s = mb # rest \<Longrightarrow> simulate_stage_forward (mb_data mb) = Ok r \<Longrightarrow>
    pipe_step n M input p (Take s) (p\<lparr>px_queues := (px_queues p)(s := rest),
      px_workers := (px_workers p)(s := Holding (mb\<lparr>mb_result := Some r\<rparr>))\<rparr>)"
| take_panic: "s < n \<Longrightarrow> px_workers p s = Idle \<Longrightarrow> px_queues p s = mb # rest \<Longrightarrow> simulate_stage_forward (mb_data mb) = Panic \<Longrightarrow>
    pipe_step n M input p (Take s) (p\<lparr>px_main := Crashed\<rparr>)"
| put: "s < n \<Longrightarrow> px_workers p s = Holding mb \<Longrightarrow> length (px_queues p (Suc s)) < M \<Longrightarrow>
    pipe_step n M input p (Put s) (p\<lparr>px_queues := (px_queues p)(Suc s := px_queues p (Suc s) @ [mb]),
      px_workers := (px_workers p)(s := Idle)\<rparr>)"
| collect: "px_main p = Collecting m \<Longrightarrow> m < M \<Longrightarrow> px_queues p n = mb # rest \<Longrightarrow>
    pipe_step n M input p Collect (p\<lparr>px_main := Collecting (Suc m), px_queues := (px_queues p)(n := rest),
      px_results := (px_results p)[mb_index mb := mb_result mb]\<rparr>)"
| collect_done: "px_main p = Collecting M \<Longrightarrow> pipe_step n M input p CollectDone (p\<lparr>px_main := Waiting\<rparr>)"
| join: "px_main p = Waiting \<Longrightarrow> \<forall>s < n. px_workers p s = Stopped \<Longrightarrow>
    pipe_step n M input p Join (p\<lparr>px_main := Returned (px_results p)\<rparr>)"
| cancel: "pipe_step n M input p Cancel (p\<lparr>px_cancelled := True\<rparr>)"
| stop_worker: "px_cancelled p \<Longrightarrow> s < n \<Longrightarrow> pipe_step n M input p (StopWorker s) (p\<lparr>px_workers := (px_workers p)(s := Stopped)\<rparr>)"
| collect_cancel: "px_cancelled p \<Longrightarrow> px_main p = Collecting m \<Longrightarrow> m < M \<Longrightarrow>
    pipe_step n M input p CollectCancel (p\<lparr>px_main := Cancelled\<rparr>)"

inductive pipe_reach :: "nat \<Rightarrow> nat \<Rightarrow> tensor \<Rightarrow> pipe \<Rightarrow> bool" for n M input where
  start: "pipe_reach n M input (start_pipe M)"
| step: "pipe_reach n M input p \<Longrightarrow> pipe_step n M input p e q \<Longrightarrow> pipe_reach n M input q"

end
