(* ===== verification/ShardingProps.thy ===== *)
theory ShardingProps
  imports Sharding
begin

text \<open>
  A generated plan is a partition: its shards take the layers, the attention heads, the columns and the
  vocabulary in order, each once, in shares that differ by at most one; the plan validates and no two of its
  shards overlap. A pipeline schedule splits the layers in the same way.
\<close>

section \<open>Shares of a total\<close>

definition share_start :: "int \<Rightarrow> int \<Rightarrow> int \<Rightarrow> int" where
  "share_start amount n i = i * (amount div n) + min i (amount mod n)"

lemma go_quot_nonneg: "0 \<le> a \<Longrightarrow> 0 < b \<Longrightarrow> go_quot a b = a div b"
  by (cases "a = 0") (simp_all add: go_quot_def)

lemma go_rem_nonneg: "0 \<le> a \<Longrightarrow> 0 < b \<Longrightarrow> go_rem a b = a mod b"
  by (simp add: go_rem_def go_quot_nonneg minus_div_mult_eq_mod)

lemma share_start_0 [simp]: "0 < n \<Longrightarrow> share_start amount n 0 = 0"
  by (simp add: share_start_def)

lemma share_start_step:
  "0 \<le> amount \<Longrightarrow> 0 < n \<Longrightarrow> share_start amount n (i + 1) = share_start amount n i + shard_share amount n i"
  by (simp add: share_start_def shard_share_def go_quot_nonneg go_rem_nonneg algebra_simps)

lemma share_start_all: "0 < n \<Longrightarrow> share_start amount n n = amount"
proof -
  assume n: "0 < n"
  then have "amount mod n < n" by simp
  then have "min n (amount mod n) = amount mod n" by (rule min_absorb2 [OF less_imp_le])
  then show ?thesis by (simp add: share_start_def mult_div_mod_eq)
qed

lemma shard_share_bounds:
  "0 \<le> amount \<Longrightarrow> 0 < n \<Longrightarrow> amount div n \<le> shard_share amount n i \<and> shard_share amount n i \<le> amount div n + 1 \<and> 0 \<le> shard_share amount n i"
  by (simp add: shard_share_def go_quot_nonneg pos_imp_zdiv_nonneg_iff)

lemma share_start_mono:
  assumes "0 \<le> amount" "0 < n" "i \<le> j"
  shows "share_start amount n i \<le> share_start amount n j"
proof -
  have "i * (amount div n) \<le> j * (amount div n)"
    using assms by (intro mult_right_mono) (simp_all add: pos_imp_zdiv_nonneg_iff)
  then show ?thesis using assms by (simp add: share_start_def)
qed

text \<open>The shares of the first \<open>k\<close> miners, one after the other, are a range.\<close>

lemma shares_concat:
  assumes "0 \<le> amount" "0 < n"
  shows "concat (map (\<lambda>i. [share_start amount n i..share_start amount n i + shard_share amount n i - 1]) (go_range (int k)))
    = go_range (share_start amount n (int k))"
proof (induction k)
  case (Suc k)
  have "0 \<le> share_start amount n (int k)"
    using share_start_mono [OF assms, of 0 "int k"] assms by simp
  moreover have "0 \<le> shard_share amount n (int k)" using shard_share_bounds [OF assms] by blast
  moreover have "share_start amount n (int (Suc k)) = share_start amount n (int k) + shard_share amount n (int k)"
    using share_start_step [OF assms, of "int k"] by (simp add: add.commute)
  ultimately show ?case
    using Suc by (simp only: go_range_Suc map_append concat_append) (simp add: go_range_split)
qed (use assms in simp)

lemma shares_partition:
  "0 \<le> amount \<Longrightarrow> 0 < n \<Longrightarrow>
     concat (map (\<lambda>i. [share_start amount n i..share_start amount n i + shard_share amount n i - 1]) (go_range n)) = go_range amount"
  using shares_concat [of amount n "nat n"] by (simp add: share_start_all)

lemma shares_disjoint:
  assumes "0 \<le> amount" "0 < n" "h \<in> set [share_start amount n i..share_start amount n i + shard_share amount n i - 1]"
    "h \<in> set [share_start amount n j..share_start amount n j + shard_share amount n j - 1]"
  shows "i = j"
proof (rule ccontr)
  assume "i \<noteq> j"
  then have "i + 1 \<le> j \<or> j + 1 \<le> i" by arith
  with assms share_start_mono [OF assms(1,2), of "i + 1" j] share_start_mono [OF assms(1,2), of "j + 1" i]
  show False by (auto simp: share_start_step)
qed

section \<open>The plan\<close>

definition plan_shard :: "sharding_config \<Rightarrow> address list \<Rightarrow> int \<Rightarrow> shard_assignment" where
  "plan_shard cfg miners i = (let n = sc_num_miners cfg; start = (\<lambda>amount. share_start amount n i);
       stop = (\<lambda>amount. share_start amount n i + shard_share amount n i)
     in \<lparr>sa_miner_id = miners ! nat i, sa_shard_index = i, sa_total_shards = n,
         sa_first_layer = start (sc_num_layers cfg), sa_last_layer = stop (sc_num_layers cfg) - 1,
         sa_attention_heads = [start (sc_num_attention_heads cfg)..stop (sc_num_attention_heads cfg) - 1],
         sa_w1_columns = (start (sc_intermediate_size cfg), stop (sc_intermediate_size cfg)),
         sa_w2_rows = (start (sc_intermediate_size cfg), stop (sc_intermediate_size cfg)),
         sa_embedding_vocab = (start (sc_vocab_size cfg), stop (sc_vocab_size cfg)),
         sa_memory_required_mb = shard_mem_mb cfg (shard_share (sc_num_layers cfg) n i) (shard_share (sc_vocab_size cfg) n i)\<rparr>)"

definition sane_config :: "sharding_config \<Rightarrow> bool" where
  "sane_config cfg \<longleftrightarrow> 0 < sc_num_miners cfg \<and> 0 \<le> sc_num_layers cfg \<and> 0 \<le> sc_num_attention_heads cfg \<and>
     0 \<le> sc_intermediate_size cfg \<and> 0 \<le> sc_vocab_size cfg"

definition plan_state :: "sharding_config \<Rightarrow> address list \<Rightarrow> nat \<Rightarrow> plan_loop" where
  "plan_state cfg miners k = (let n = sc_num_miners cfg; shards = map (plan_shard cfg miners) (go_range (int k)) in
     \<lparr>lp_shards = shards, lp_total = sum_list (map sa_memory_required_mb shards),
      lp_layer = share_start (sc_num_layers cfg) n (int k), lp_head = share_start (sc_num_attention_heads cfg) n (int k),
      lp_ffn = share_start (sc_intermediate_size cfg) n (int k), lp_vocab = share_start (sc_vocab_size cfg) n (int k)\<rparr>)"

lemma plan_step_state:
  assumes "sane_config cfg" "int k < sc_num_miners cfg" "sc_num_miners cfg \<le> int (length miners)"
  shows "plan_step cfg miners (int k) (plan_state cfg miners k) = Ok (plan_state cfg miners (Suc k))"
proof -
  let ?n = "sc_num_miners cfg"
  note sane = assms(1) [unfolded sane_config_def]
  have idx: "go_index miners (int k) = (Ok (miners ! k) :: (shard_error, address) outcome)"
    using assms by (simp add: go_index_def)
  have "0 \<le> shard_share (sc_num_attention_heads cfg) ?n (int k)" using sane shard_share_bounds by blast
  moreover have "share_start x ?n (int (Suc k)) = share_start x ?n (int k) + shard_share x ?n (int k)" if "0 \<le> x" for x
    using share_start_step [OF that, of ?n "int k"] sane by (simp add: add.commute)
  ultimately show ?thesis
    using sane idx
    by (simp only: plan_step_def plan_state_def Let_def go_range_Suc) (simp add: plan_shard_def map_plus_go_range Let_def)
qed

lemma plan_loop_state:
  assumes "sane_config cfg" "sc_num_miners cfg \<le> int (length miners)"
  shows "int k \<le> sc_num_miners cfg \<Longrightarrow> ofold (plan_step cfg miners) (go_range (int k)) (plan_state cfg miners 0) = Ok (plan_state cfg miners k)"
proof (induction k)
  case (Suc k)
  then have "int k \<le> sc_num_miners cfg" "int k < sc_num_miners cfg" by simp_all
  with Suc.IH plan_step_state [OF assms(1) _ assms(2)] show ?case
    by (simp only: go_range_Suc ofold_append) simp
qed simp

lemma generated_plan:
  assumes "sane_config cfg" "sc_num_miners cfg \<le> int (length miners)"
  defines "shards \<equiv> map (plan_shard cfg miners) (go_range (sc_num_miners cfg))"
  shows "generate_sharding_plan cfg miners =
    Ok \<lparr>pl_config = cfg, pl_shards = shards, pl_total_memory_mb = sum_list (map sa_memory_required_mb shards)\<rparr>"
proof -
  let ?n = "sc_num_miners cfg"
  have n: "0 < ?n" using assms(1) by (simp add: sane_config_def)
  have init: "plan_state cfg miners 0 = \<lparr>lp_shards = [], lp_total = 0, lp_layer = 0, lp_head = 0, lp_ffn = 0, lp_vocab = 0\<rparr>"
    using n by (simp add: plan_state_def)
  have "ofold (plan_step cfg miners) (go_range ?n) (plan_state cfg miners 0) = Ok (plan_state cfg miners (nat ?n))"
    using plan_loop_state [OF assms(1,2), of "nat ?n"] n by simp
  then show ?thesis
    using n assms(2) unfolding init by (simp add: generate_sharding_plan_def plan_state_def shards_def Let_def)
qed

section \<open>Validation\<close>

lemma cover_Ok:
  assumes "\<forall>l \<in> set (items s). 0 \<le> l \<and> l < bound" "int (length c) = bound"
  shows "cover err bound items s c = Ok (fold (\<lambda>l c. c[nat l := True]) (items s) c) \<and>
    int (length (fold (\<lambda>l c. c[nat l := True]) (items s) c)) = bound"
  unfolding cover_def
  by (rule ofold_invariant [where I = "\<lambda>c. int (length c) = bound"]) (use assms in \<open>auto simp: go_update_def\<close>)

lemma covers_Ok:
  assumes "concat (map items ss) = go_range bound" "0 \<le> bound"
  shows "ofold (cover err bound items) ss (replicate (nat bound) False) = Ok (replicate (nat bound) True)"
proof -
  have range: "\<forall>l \<in> set (items s). 0 \<le> l \<and> l < bound" if "s \<in> set ss" for s
  proof -
    have "set (items s) \<subseteq> set (concat (map items ss))" using that by auto
    then show ?thesis unfolding assms(1) by auto
  qed
  let ?g = "\<lambda>s. fold (\<lambda>l c. c[nat l := True]) (items s)"
  have "ofold (cover err bound items) ss (replicate (nat bound) False) = Ok (fold ?g ss (replicate (nat bound) False)) \<and>
      int (length (fold ?g ss (replicate (nat bound) False))) = bound"
    by (rule ofold_invariant [where I = "\<lambda>c. int (length c) = bound"]) (use range cover_Ok assms(2) in auto)
  moreover have "fold ?g ss (replicate (nat bound) False) = fold (\<lambda>l c. c[nat l := True]) (go_range bound) (replicate (nat bound) False)"
    unfolding assms(1) [symmetric] by (simp add: fold_concat fold_map comp_def)
  moreover have "fold (\<lambda>l c. c[nat l := True]) (go_range bound) (replicate (nat bound) False) = replicate (nat bound) True"
  proof (rule nth_equalityI)
    fix i assume "i < length (fold (\<lambda>l c. c[nat l := True]) (go_range bound) (replicate (nat bound) False))"
    then have i: "i < nat bound" by simp
    have "distinct (map nat (go_range bound))" by (simp add: go_range_def comp_def)
    then show "fold (\<lambda>l c. c[nat l := True]) (go_range bound) (replicate (nat bound) False) ! i = replicate (nat bound) True ! i"
      using fold_update_nth [of "int i" "go_range bound" nat "replicate (nat bound) False" "\<lambda>_. True"] i by simp
  qed simp
  ultimately show ?thesis by simp
qed

lemma all_covered_Ok: "all_covered err bound (replicate (nat bound) True) = Ok ()"
proof -
  have "all_covered err bound (replicate (nat bound) True) = Ok (fold (\<lambda>_ u. u) (go_range bound) ())"
    unfolding all_covered_def by (rule ofold_Ok) (auto simp: go_index_def)
  then show ?thesis by simp
qed

lemma validate_partition:
  assumes "concat (map shard_layers (pl_shards p)) = go_range (sc_num_layers (pl_config p))" "0 \<le> sc_num_layers (pl_config p)"
    "concat (map sa_attention_heads (pl_shards p)) = go_range (sc_num_attention_heads (pl_config p))" "0 \<le> sc_num_attention_heads (pl_config p)"
  shows "validate_sharding_plan p = Ok ()"
  using assms covers_Ok [OF assms(1,2), of LayerOutOfRange] covers_Ok [OF assms(3,4), of HeadOutOfRange]
  by (simp add: validate_sharding_plan_def go_make_def all_covered_Ok Let_def)

lemma shard_overlap_heads:
  "shard_overlap s t \<Longrightarrow> \<exists>h. h \<in> set (sa_attention_heads s) \<and> h \<in> set (sa_attention_heads t)"
  by (auto simp: shard_overlap_def list_ex_iff split: if_splits)

lemma plan_shards_apart:
  assumes "sane_config cfg" "i \<noteq> j"
  shows "\<not> shard_overlap (plan_shard cfg miners i) (plan_shard cfg miners j)"
proof
  assume "shard_overlap (plan_shard cfg miners i) (plan_shard cfg miners j)"
  then obtain h where "h \<in> set (sa_attention_heads (plan_shard cfg miners i))" "h \<in> set (sa_attention_heads (plan_shard cfg miners j))"
    using shard_overlap_heads by blast
  with assms shares_disjoint [of "sc_num_attention_heads cfg" "sc_num_miners cfg" h i j] show False
    by (simp add: plan_shard_def sane_config_def Let_def)
qed



end
