(* ===== verification/PipelineProps.thy ===== *)
theory PipelineProps
  imports Pipeline ShardingProps
begin

text \<open>
  The pipeline executor as a transition system. Without a cancellation every run does a bounded amount of
  work, collects all its results and then blocks for ever, because the stages end only when the context is
  cancelled. Every stage computes from the original input, so the results are those of a single stage.
\<close>

section \<open>Weighted sums over channels and workers\<close>

lemma sum_upd:
  assumes "finite A" "k \<in> A"
  shows "(\<Sum>i\<in>A. f i ((q(k := x)) i)) + f k (q k) = (\<Sum>i\<in>A. f i (q i)) + (f k x :: nat)"
proof -
  have "(\<Sum>i\<in>A - {k}. f i ((q(k := x)) i)) = (\<Sum>i\<in>A - {k}. f i (q i))" by (rule sum.cong) auto
  then show ?thesis using assms by (simp add: sum.remove)
qed

definition held :: "nat \<Rightarrow> worker \<Rightarrow> nat" where
  "held k w = (case w of Holding mb \<Rightarrow> k | _ \<Rightarrow> 0)"

lemma held_simps [simp]: "held k (Holding mb) = k" "held k Idle = 0" "held k Stopped = 0"
  by (simp_all add: held_def)

definition load :: "nat \<Rightarrow> (nat \<Rightarrow> nat) \<Rightarrow> (nat \<Rightarrow> nat) \<Rightarrow> (nat \<Rightarrow> micro_batch list) \<Rightarrow> (nat \<Rightarrow> worker) \<Rightarrow> nat" where
  "load n wq ww q w = (\<Sum>i\<le>n. length (q i) * wq i) + (\<Sum>s<n. held (ww s) (w s))"

lemma load_queue:
  "i \<le> n \<Longrightarrow> load n wq ww (q(i := x)) w + length (q i) * wq i = load n wq ww q w + length x * wq i"
  using sum_upd [of "{..n}" i "\<lambda>i xs. length xs * wq i" q x] by (simp add: load_def)

lemma load_worker:
  "s < n \<Longrightarrow> load n wq ww q (w(s := x)) + held (ww s) (w s) = load n wq ww q w + held (ww s) x"
  using sum_upd [of "{..<n}" s "\<lambda>s v. held (ww s) v" w x] by (simp add: load_def)

lemma load_push: "i \<le> n \<Longrightarrow> load n wq ww (q(i := q i @ [mb])) w = load n wq ww q w + wq i"
  using load_queue [of i n wq ww q "q i @ [mb]" w] by simp

lemma load_pop: "i \<le> n \<Longrightarrow> q i = mb # rest \<Longrightarrow> load n wq ww (q(i := rest)) w + wq i = load n wq ww q w"
  using load_queue [of i n wq ww q rest w] by simp

lemma load_queue_le: "i \<le> n \<Longrightarrow> length (q i) * wq i \<le> load n wq ww q w"
  unfolding load_def by (rule trans_le_add1, rule member_le_sum) auto

lemma load_held_le:
  assumes "s < n" "i \<le> n"
  shows "length (q i) * wq i + held (ww s) (w s) \<le> load n wq ww q w"
proof -
  have "length (q i) * wq i \<le> (\<Sum>i\<le>n. length (q i) * wq i)" using assms by (intro member_le_sum) auto
  moreover have "held (ww s) (w s) \<le> (\<Sum>s<n. held (ww s) (w s))" using assms by (intro member_le_sum) auto
  ultimately show ?thesis by (simp add: load_def)
qed

lemma load_zero:
  assumes "load n (\<lambda>_. 1) (\<lambda>_. 1) q w = 0"
  shows "i \<le> n \<Longrightarrow> q i = []" "s < n \<Longrightarrow> w s \<noteq> Holding mb"
  using load_queue_le [of i n q "\<lambda>_. 1" "\<lambda>_. 1" w] load_held_le [of s n 0 q "\<lambda>_. 1" "\<lambda>_. 1" w] assms by auto

lemma load_pos:
  assumes "0 < load n (\<lambda>_. 1) (\<lambda>_. 1) q w"
  shows "(\<exists>i \<le> n. q i \<noteq> []) \<or> (\<exists>s < n. \<exists>mb. w s = Holding mb)"
proof (rule ccontr)
  assume none: "\<not> ?thesis"
  have "held 1 (w s) = 0" if "s < n" for s using none that by (cases "w s") auto
  with none assms show False by (simp add: load_def)
qed

section \<open>The invariant\<close>

fun fed :: "nat \<Rightarrow> main_phase \<Rightarrow> nat" where
  "fed M (Feeding m) = m"
| "fed M _ = M"

fun collected :: "nat \<Rightarrow> main_phase \<Rightarrow> nat" where
  "collected M (Feeding m) = 0"
| "collected M (Collecting m) = m"
| "collected M _ = M"

definition batch_ok :: "nat \<Rightarrow> tensor \<Rightarrow> tensor \<Rightarrow> nat \<Rightarrow> micro_batch \<Rightarrow> bool" where
  "batch_ok M input r i mb \<longleftrightarrow> mb_data mb = input \<and> mb_index mb < M \<and> (0 < i \<longrightarrow> mb_result mb = Some r)"

definition pipe_ok :: "nat \<Rightarrow> nat \<Rightarrow> tensor \<Rightarrow> tensor \<Rightarrow> pipe \<Rightarrow> bool" where
  "pipe_ok n M input r p \<longleftrightarrow>
     (\<forall>i \<le> n. \<forall>mb \<in> set (px_queues p i). batch_ok M input r i mb) \<and>
     (\<forall>s < n. \<forall>mb. px_workers p s = Holding mb \<longrightarrow> batch_ok M input r 1 mb) \<and>
     length (px_results p) = M \<and> (\<forall>m < M. px_results p ! m = None \<or> px_results p ! m = Some r)"

lemma pipe_ok_start: "pipe_ok n M input r (start_pipe M)"
  by (simp add: pipe_ok_def start_pipe_def)

lemma pipe_ok_queue: "pipe_ok n M input r p \<Longrightarrow> i \<le> n \<Longrightarrow> mb \<in> set (px_queues p i) \<Longrightarrow> batch_ok M input r i mb"
  by (simp add: pipe_ok_def)

lemma pipe_ok_held: "pipe_ok n M input r p \<Longrightarrow> s < n \<Longrightarrow> px_workers p s = Holding mb \<Longrightarrow> batch_ok M input r 1 mb"
  by (simp add: pipe_ok_def)

lemma batch_ok_later: "batch_ok M input r 1 mb \<Longrightarrow> batch_ok M input r i mb"
  by (simp add: batch_ok_def)

lemma pipe_ok_queues:
  "pipe_ok n M input r p \<Longrightarrow> \<forall>mb \<in> set xs. batch_ok M input r i mb \<Longrightarrow>
     pipe_ok n M input r (p\<lparr>px_queues := (px_queues p)(i := xs)\<rparr>)"
  by (simp add: pipe_ok_def)

lemma pipe_ok_workers:
  "pipe_ok n M input r p \<Longrightarrow> \<forall>mb. x = Holding mb \<longrightarrow> batch_ok M input r 1 mb \<Longrightarrow>
     pipe_ok n M input r (p\<lparr>px_workers := (px_workers p)(s := x)\<rparr>)"
  by (simp add: pipe_ok_def)

lemma pipe_ok_results:
  "pipe_ok n M input r p \<Longrightarrow> pipe_ok n M input r (p\<lparr>px_results := (px_results p)[m := Some r]\<rparr>)"
  by (cases "m < length (px_results p)") (auto simp: pipe_ok_def nth_list_update)

lemma pipe_ok_main [simp]: "pipe_ok n M input r (p\<lparr>px_main := ph\<rparr>) = pipe_ok n M input r p"
  by (simp add: pipe_ok_def)

lemma pipe_ok_cancelled [simp]: "pipe_ok n M input r (p\<lparr>px_cancelled := b\<rparr>) = pipe_ok n M input r p"
  by (simp add: pipe_ok_def)

lemma pipe_ok_step:
  assumes step: "pipe_step n M input p e q" and ok: "pipe_ok n M input r p"
    and "0 < n" and fwd: "simulate_stage_forward input = Ok r"
  shows "pipe_ok n M input r q"
  using step
proof (cases rule: pipe_step.cases)
  case (feed m)
  have "\<forall>mb \<in> set (px_queues p 0 @ [\<lparr>mb_index = m, mb_data = input, mb_result = None\<rparr>]). batch_ok M input r 0 mb"
    using pipe_ok_queue [OF ok, of 0] feed(4) by (auto simp: batch_ok_def)
  with pipe_ok_queues [of n M input r "p\<lparr>px_main := Feeding (Suc m)\<rparr>"] ok show ?thesis unfolding feed by simp
next
  case (take s mb rest r')
  have sn: "s \<le> n" using take(3) by simp
  have mb: "batch_ok M input r s mb" "\<forall>x \<in> set rest. batch_ok M input r s x"
    using pipe_ok_queue [OF ok sn] take(5) by simp_all
  then have "r' = r" using take(6) fwd by (simp add: batch_ok_def)
  with mb have "batch_ok M input r 1 (mb\<lparr>mb_result := Some r'\<rparr>)" by (simp add: batch_ok_def)
  with pipe_ok_workers [OF pipe_ok_queues [OF ok mb(2)]] show ?thesis unfolding take by simp
next
  case (put s mb)
  have "s \<le> n" "Suc s \<le> n" using put(3) by simp_all
  then have "\<forall>x \<in> set (px_queues p (Suc s) @ [mb]). batch_ok M input r (Suc s) x"
    using pipe_ok_queue [OF ok] pipe_ok_held [OF ok put(3,4)] batch_ok_later by auto
  from pipe_ok_workers [OF pipe_ok_queues [OF ok this]] show ?thesis unfolding put by simp
next
  case (collect m mb rest)
  have mb: "batch_ok M input r n mb" "\<forall>x \<in> set rest. batch_ok M input r n x"
    using pipe_ok_queue [OF ok order_refl] collect(5) by simp_all
  then have "mb_result mb = Some r" using \<open>0 < n\<close> by (simp add: batch_ok_def)
  moreover have "pipe_ok n M input r (p\<lparr>px_main := Collecting (Suc m)\<rparr>)" using ok by simp
  from pipe_ok_results [OF pipe_ok_queues [OF this mb(2)], of "mb_index mb"]
  have "pipe_ok n M input r (p\<lparr>px_main := Collecting (Suc m), px_queues := (px_queues p)(n := rest),
      px_results := (px_results p)[mb_index mb := Some r]\<rparr>)" by simp
  ultimately show ?thesis unfolding collect by simp
next
  case (stop_worker s)
  then show ?thesis using pipe_ok_workers [OF ok] by simp
qed (use ok in simp_all)

text \<open>Without a cancellation nothing is lost: what has been fed is in flight or collected.\<close>

definition flying :: "nat \<Rightarrow> (nat \<Rightarrow> micro_batch list) \<Rightarrow> (nat \<Rightarrow> worker) \<Rightarrow> nat \<Rightarrow> bool" where
  "flying n q w m \<longleftrightarrow> (\<exists>i \<le> n. m \<in> mb_index ` set (q i)) \<or> (\<exists>s < n. \<exists>mb. w s = Holding mb \<and> mb_index mb = m)"

lemma flying_push: "flying n q w m \<Longrightarrow> flying n (q(i := q i @ [mb])) w m"
  by (auto simp: flying_def)

lemma flying_new: "i \<le> n \<Longrightarrow> flying n (q(i := q i @ [mb])) w (mb_index mb)"
  by (auto simp: flying_def)

lemma flying_pop:
  assumes "flying n q w m" "q i = mb # rest"
  shows "m = mb_index mb \<or> flying n (q(i := rest)) w m"
proof -
  have "m \<in> mb_index ` set ((q(i := rest)) j)" if "m \<in> mb_index ` set (q j)" "m \<noteq> mb_index mb" for j
    using that assms(2) by (cases "j = i") auto
  with assms(1) show ?thesis unfolding flying_def by blast
qed

lemma flying_hold: "flying n q w m \<Longrightarrow> w s = Idle \<Longrightarrow> flying n q (w(s := Holding mb)) m"
  unfolding flying_def by (metis fun_upd_other worker.distinct(1))

lemma flying_held: "s < n \<Longrightarrow> flying n q (w(s := Holding mb)) (mb_index mb)"
  by (auto simp: flying_def)

lemma flying_release: "flying n q w m \<Longrightarrow> w s = Holding mb \<Longrightarrow> m = mb_index mb \<or> flying n q (w(s := Idle)) m"
  unfolding flying_def by (metis fun_upd_other worker.inject)

fun running :: "main_phase \<Rightarrow> bool" where
  "running (Feeding m) = True"
| "running (Collecting m) = True"
| "running Waiting = True"
| "running _ = False"

definition pipe_live :: "nat \<Rightarrow> nat \<Rightarrow> pipe \<Rightarrow> bool" where
  "pipe_live n M p \<longleftrightarrow> (\<forall>s < n. px_workers p s \<noteq> Stopped) \<and>
     running (px_main p) \<and> fed M (px_main p) \<le> M \<and>
     load n (\<lambda>_. 1) (\<lambda>_. 1) (px_queues p) (px_workers p) + collected M (px_main p) = fed M (px_main p) \<and>
     length (px_results p) = M \<and>
     (\<forall>m < fed M (px_main p). px_results p ! m = None \<longrightarrow> flying n (px_queues p) (px_workers p) m)"

fun phase_work :: "nat \<Rightarrow> nat \<Rightarrow> main_phase \<Rightarrow> nat" where
  "phase_work n M (Feeding m) = (M - m) * (2 * n + 2) + 2"
| "phase_work n M (Collecting m) = 1"
| "phase_work n M _ = 0"

definition pipe_work :: "nat \<Rightarrow> nat \<Rightarrow> pipe \<Rightarrow> nat" where
  "pipe_work n M p = phase_work n M (px_main p) +
     load n (\<lambda>i. 2 * (n - i) + 1) (\<lambda>s. 2 * (n - s)) (px_queues p) (px_workers p)"

lemma pipe_live_start: "pipe_live n M (start_pipe M)"
  by (auto simp: pipe_live_def start_pipe_def load_def)

lemma pipe_live_step:
  assumes step: "pipe_step n M input p e q" and live: "pipe_live n M p" "\<not> px_cancelled p" and ok: "pipe_ok n M input r p"
    and "0 < n" and fwd: "simulate_stage_forward input = Ok r" and "e \<noteq> Cancel"
  shows "pipe_live n M q \<and> \<not> px_cancelled q \<and> pipe_work n M q < pipe_work n M p"
  using step
proof (cases rule: pipe_step.cases)
  case (feed m)
  let ?mb = "\<lparr>mb_index = m, mb_data = input, mb_result = None\<rparr>"
  have fl: "flying n ((px_queues p)(0 := px_queues p 0 @ [?mb])) (px_workers p) m'"
    if "m' < Suc m" "px_results p ! m' = None" for m'
    using that live(1) feed(3) flying_push [of n "px_queues p" "px_workers p" m' 0 ?mb] flying_new [of 0 n "px_queues p" ?mb]
    by (cases "m' = m") (auto simp: pipe_live_def)
  have "M - m = Suc (M - Suc m)" using feed(4) by simp
  then have "pipe_work n M q < pipe_work n M p"
    unfolding feed(2) by (simp add: pipe_work_def feed(3) load_push)
  moreover have "pipe_live n M q"
    using live(1) feed(3,4) fl unfolding feed(2) by (simp add: pipe_live_def load_push)
  ultimately show ?thesis using live(2) feed(2) by simp
next
  case (take s mb rest r')
  let ?q = "(px_queues p)(s := rest)" and ?w = "(px_workers p)(s := Holding (mb\<lparr>mb_result := Some r'\<rparr>))"
  have fl: "flying n ?q ?w m" if "flying n (px_queues p) (px_workers p) m" for m
    using flying_pop [OF that take(5)] flying_hold [of n ?q "px_workers p" m s] flying_held [OF take(3), of ?q "px_workers p" "mb\<lparr>mb_result := Some r'\<rparr>"]
      take(4) by auto
  have l: "load n wq ww ?q ?w + wq s = load n wq ww (px_queues p) (px_workers p) + ww s" for wq ww
    using load_pop [of s n "px_queues p" mb rest wq ww "px_workers p"] load_worker [OF take(3), of wq ww ?q "px_workers p"] take(3,4,5)
    by simp
  have "pipe_live n M q"
    using live(1) fl l [of "\<lambda>_. 1" "\<lambda>_. 1"] unfolding take(2) by (simp add: pipe_live_def)
  moreover have "pipe_work n M q < pipe_work n M p"
    using l [of "\<lambda>i. 2 * (n - i) + 1" "\<lambda>s. 2 * (n - s)"] unfolding take(2) by (simp add: pipe_work_def)
  ultimately show ?thesis using live(2) take(2) by simp
next
  case (put s mb)
  let ?q = "(px_queues p)(Suc s := px_queues p (Suc s) @ [mb])" and ?w = "(px_workers p)(s := Idle)"
  have fl: "flying n ?q ?w m" if "flying n (px_queues p) (px_workers p) m" for m
    using flying_release [OF that put(4)] flying_push [of n "px_queues p" ?w m "Suc s" mb]
      flying_new [of "Suc s" n "px_queues p" mb ?w] put(3) by auto
  have l: "load n wq ww ?q ?w + ww s = load n wq ww (px_queues p) (px_workers p) + wq (Suc s)" for wq ww
    using load_push [of "Suc s" n wq ww "px_queues p" mb ?w] load_worker [OF put(3), of wq ww "px_queues p" "px_workers p" Idle] put(3,4)
    by simp
  have "pipe_live n M q"
    using live(1) fl l [of "\<lambda>_. 1" "\<lambda>_. 1"] unfolding put(2) by (simp add: pipe_live_def)
  moreover have "2 * (n - s) = 2 * (n - Suc s) + 2" using put(3) by simp
  then have "pipe_work n M q < pipe_work n M p"
    using l [of "\<lambda>i. 2 * (n - i) + 1" "\<lambda>s. 2 * (n - s)"] unfolding put(2) by (simp add: pipe_work_def)
  ultimately show ?thesis using live(2) put(2) by simp
next
  case (collect m mb rest)
  have l: "load n wq ww ((px_queues p)(n := rest)) (px_workers p) + wq n = load n wq ww (px_queues p) (px_workers p)" for wq ww
    using collect(5) by (intro load_pop) simp_all
  have mb: "mb_index mb < M" "mb_result mb = Some r"
    using pipe_ok_queue [OF ok order_refl, of mb] collect(5) \<open>0 < n\<close> by (auto simp: batch_ok_def)
  have fl: "flying n ((px_queues p)(n := rest)) (px_workers p) m'"
    if "m' < M" "(px_results p)[mb_index mb := Some r] ! m' = None" for m'
  proof -
    have "m' \<noteq> mb_index mb" "px_results p ! m' = None"
      using that mb live(1) by (auto simp: pipe_live_def nth_list_update split: if_splits)
    moreover from this that live(1) collect(3) have "flying n (px_queues p) (px_workers p) m'" by (simp add: pipe_live_def)
    ultimately show ?thesis using flying_pop collect(5) by blast
  qed
  have "pipe_live n M q"
    using live(1) fl l [of "\<lambda>_. 1" "\<lambda>_. 1"] collect(3) mb unfolding collect(2) by (simp add: pipe_live_def)
  moreover have "pipe_work n M q < pipe_work n M p"
    using l [of "\<lambda>i. 2 * (n - i) + 1" "\<lambda>s. 2 * (n - s)"] collect(3) unfolding collect(2) by (simp add: pipe_work_def)
  ultimately show ?thesis using live(2) collect(2) by simp
next
  case (take_panic s mb rest)
  then have "mb_data mb = input" using pipe_ok_queue [OF ok, of s mb] by (simp add: batch_ok_def)
  with take_panic fwd show ?thesis by simp
next
  case join
  with live(1) \<open>0 < n\<close> show ?thesis by (auto simp: pipe_live_def)
qed (use live assms(7) in \<open>auto simp: pipe_live_def pipe_work_def\<close>)

lemma pipe_reach_inv:
  assumes "pipe_reach n M input p" "0 < n" "simulate_stage_forward input = Ok r"
  shows "pipe_ok n M input r p \<and> (\<not> px_cancelled p \<longrightarrow> pipe_live n M p)"
  using assms(1)
proof induction
  case start
  then show ?case by (simp add: pipe_ok_start pipe_live_start)
next
  case (step p e q)
  then have ok: "pipe_ok n M input r p" and "pipe_ok n M input r q" using pipe_ok_step assms(2,3) by blast+
  moreover have "pipe_live n M q" if "\<not> px_cancelled q"
  proof -
    have "\<not> px_cancelled p" "e \<noteq> Cancel" using step.hyps(2) that by (auto elim!: pipe_step.cases)
    with pipe_live_step [OF step.hyps(2) _ _ ok assms(2,3)] step.IH show ?thesis by blast
  qed
  ultimately show ?case by blast
qed

text \<open>As long as the results are not all collected, some process can move.\<close>

lemma pipe_progress:
  assumes live: "pipe_live n M p" and ok: "pipe_ok n M input r p" and fwd: "simulate_stage_forward input = Ok r"
    and busy: "px_main p \<noteq> Waiting"
  shows "\<exists>e q. e \<noteq> Cancel \<and> pipe_step n M input p e q"
proof (cases "px_main p")
  case (Feeding m)
  show ?thesis
  proof (cases "m < M")
    case True
    have "length (px_queues p 0) \<le> m"
      using load_queue_le [of 0 n "px_queues p" "\<lambda>_. 1" "\<lambda>_. 1" "px_workers p"] live Feeding by (simp add: pipe_live_def)
    with pipe_step.feed [OF Feeding True] True show ?thesis by fastforce
  next
    case False
    with live Feeding have "m = M" by (simp add: pipe_live_def)
    with pipe_step.feed_done Feeding show ?thesis by blast
  qed
next
  case (Collecting m)
  have l: "load n (\<lambda>_. 1) (\<lambda>_. 1) (px_queues p) (px_workers p) + m = M" using live Collecting by (simp add: pipe_live_def)
  show ?thesis
  proof (cases "m < M")
    case False
    with l Collecting have "px_main p = Collecting M" by simp
    then show ?thesis using pipe_step.collect_done by blast
  next
    case True
    then consider i where "i \<le> n" "px_queues p i \<noteq> []" | s mb where "s < n" "px_workers p s = Holding mb"
      using load_pos [of n "px_queues p" "px_workers p"] l by auto
    then show ?thesis
    proof cases
      case 1
      then obtain mb rest where q: "px_queues p i = mb # rest" by (cases "px_queues p i") auto
      show ?thesis
      proof (cases "i = n")
        case True
        with pipe_step.collect [OF Collecting \<open>m < M\<close>] q show ?thesis by blast
      next
        case False
        then have i: "i < n" using 1(1) by simp
        have mb: "mb_data mb = input" using pipe_ok_queue [OF ok 1(1)] q by (simp add: batch_ok_def)
        show ?thesis
        proof (cases "px_workers p i")
          case Idle
          with pipe_step.take [OF i Idle q, of r M input] fwd mb show ?thesis by auto
        next
          case (Holding mb')
          have "length (px_queues p (Suc i)) + 1 \<le> M"
            using load_held_le [of i n "Suc i" "px_queues p" "\<lambda>_. 1" "\<lambda>_. 1" "px_workers p"] i Holding l by simp
          with pipe_step.put [OF i Holding, of M input] show ?thesis by fastforce
        next
          case Stopped
          with live i show ?thesis by (simp add: pipe_live_def)
        qed
      qed
    next
      case 2
      have "length (px_queues p (Suc s)) + 1 \<le> M"
        using load_held_le [of s n "Suc s" "px_queues p" "\<lambda>_. 1" "\<lambda>_. 1" "px_workers p"] 2 l by simp
      with pipe_step.put [OF 2, of M input] show ?thesis by fastforce
    qed
  qed
qed (use live busy in \<open>simp_all add: pipe_live_def\<close>)

text \<open>
  C10: With at least one stage and a context that nobody cancels, \<open>Execute\<close> never returns. Every step of the
  pipeline uses up work, so the processes come to rest; they do so exactly when the main routine has
  collected all results and waits for the stages, which go on waiting for input; and at no moment has it returned.
\<close>

theorem pipeline_never_returns:
  assumes "pipe_reach n M input p" "\<not> px_cancelled p" "0 < n" "simulate_stage_forward input = Ok r"
  shows "(\<forall>e q. e \<noteq> Cancel \<and> pipe_step n M input p e q \<longrightarrow> pipe_work n M q < pipe_work n M p)
    \<and> ((\<forall>e q. pipe_step n M input p e q \<longrightarrow> e = Cancel) \<longleftrightarrow> px_main p = Waiting)
    \<and> (\<forall>rs. px_main p \<noteq> Returned rs)"
proof (intro conjI)
  have ok: "pipe_ok n M input r p" and live: "pipe_live n M p" using pipe_reach_inv [OF assms(1,3,4)] assms(2) by auto
  show "\<forall>e q. e \<noteq> Cancel \<and> pipe_step n M input p e q \<longrightarrow> pipe_work n M q < pipe_work n M p"
    using pipe_live_step [OF _ live assms(2) ok assms(3,4)] by blast
  show "\<forall>rs. px_main p \<noteq> Returned rs" using live by (auto simp: pipe_live_def)
  have "e = Cancel" if w: "px_main p = Waiting" and step: "pipe_step n M input p e q" for e q
  proof -
    have "load n (\<lambda>_. 1) (\<lambda>_. 1) (px_queues p) (px_workers p) = 0" using live w by (simp add: pipe_live_def)
    note none = load_zero [OF this]
    from step show ?thesis
    proof (cases rule: pipe_step.cases)
      case join
      with live assms(3) show ?thesis by (auto simp: pipe_live_def)
    qed (use w none none(1) [OF less_imp_le] assms(2) in auto)
  qed
  with pipe_progress [OF live ok assms(4)]
  show "(\<forall>e q. pipe_step n M input p e q \<longrightarrow> e = Cancel) \<longleftrightarrow> px_main p = Waiting" by blast
qed

lemma one_stage_run:
  assumes "simulate_stage_forward input = Ok r"
  shows "\<exists>p. pipe_reach 1 1 input p \<and> \<not> px_cancelled p \<and> px_main p = Waiting \<and> px_results p = [Some r]"
proof -
  let ?mb = "\<lparr>mb_index = 0, mb_data = input, mb_result = None\<rparr>"
  let ?s0 = "start_pipe 1"
  let ?s1 = "?s0\<lparr>px_main := Feeding 1, px_queues := (px_queues ?s0)(0 := px_queues ?s0 0 @ [?mb])\<rparr>"
  let ?s2 = "?s1\<lparr>px_main := Collecting 0\<rparr>"
  let ?s3 = "?s2\<lparr>px_queues := (px_queues ?s2)(0 := []), px_workers := (px_workers ?s2)(0 := Holding (?mb\<lparr>mb_result := Some r\<rparr>))\<rparr>"
  let ?s4 = "?s3\<lparr>px_queues := (px_queues ?s3)(Suc 0 := px_queues ?s3 (Suc 0) @ [?mb\<lparr>mb_result := Some r\<rparr>]), px_workers := (px_workers ?s3)(0 := Idle)\<rparr>"
  let ?s5 = "?s4\<lparr>px_main := Collecting 1, px_queues := (px_queues ?s4)(1 := []), px_results := (px_results ?s4)[0 := Some r]\<rparr>"
  let ?s6 = "?s5\<lparr>px_main := Waiting\<rparr>"
  have "pipe_step 1 1 input ?s0 Feed ?s1"
    using pipe_step.feed [of ?s0 0 1 1 input] by (simp add: start_pipe_def)
  moreover have "pipe_step 1 1 input ?s1 FeedDone ?s2"
    by (rule pipe_step.feed_done) simp
  moreover have "pipe_step 1 1 input ?s2 (Take 0) ?s3"
    by (rule pipe_step.take) (use assms in \<open>simp_all add: start_pipe_def\<close>)
  moreover have "pipe_step 1 1 input ?s3 (Put 0) ?s4"
    by (rule pipe_step.put) (simp_all add: start_pipe_def)
  moreover have "pipe_step 1 1 input ?s4 Collect ?s5"
    using pipe_step.collect [of ?s4 0 1 1 "?mb\<lparr>mb_result := Some r\<rparr>" "[]" input] by (simp add: start_pipe_def)
  moreover have "pipe_step 1 1 input ?s5 CollectDone ?s6"
    by (rule pipe_step.collect_done) simp
  ultimately have "pipe_reach 1 1 input ?s6" using pipe_reach.start [of 1 1 input] pipe_reach.step by meson
  moreover have "\<not> px_cancelled ?s6" "px_main ?s6 = Waiting" "px_results ?s6 = [Some r]" by (simp_all add: start_pipe_def)
  ultimately show ?thesis by blast
qed

lemma forward_example:
  "simulate_stage_forward (new_tensor_from_data [F64 2 0] [1]) = Ok (new_tensor_from_data [F64 16778894 23] [1])"
  by (simp add: simulate_stage_forward_def new_tensor_def new_tensor_from_data_def go_make_def go_copy_def
    shape_size_def stage_factor_def f32_eval)

theorem pipeline_never_returns_witness:
  "\<exists>p. pipe_reach 1 1 (new_tensor_from_data [F64 2 0] [1]) p \<and> px_main p = Waiting \<and>
     (\<forall>e q. pipe_step 1 1 (new_tensor_from_data [F64 2 0] [1]) p e q \<longrightarrow> e = Cancel)"
proof -
  obtain p where p: "pipe_reach 1 1 (new_tensor_from_data [F64 2 0] [1]) p" "\<not> px_cancelled p" "px_main p = Waiting"
    using one_stage_run [OF forward_example] by blast
  with pipeline_never_returns [OF p(1,2) _ forward_example] show ?thesis by auto
qed

text \<open>
  However many stages the pipeline has, a collected result is the input passed through a single stage: a
  stage reads the original data of a micro-batch and not the result of the stage before. When all results
  are collected each of them is that same tensor.
\<close>

theorem pipeline_runs_one_stage:
  assumes "pipe_reach n M input p" "0 < n" "simulate_stage_forward input = Ok r"
  shows "length (px_results p) = M \<and> (\<forall>x \<in> set (px_results p). x = None \<or> x = Some r)
    \<and> (\<not> px_cancelled p \<and> px_main p = Waiting \<longrightarrow> px_results p = replicate M (Some r))"
proof -
  have ok: "pipe_ok n M input r p" and live: "\<not> px_cancelled p \<longrightarrow> pipe_live n M p"
    using pipe_reach_inv [OF assms] by auto
  have "px_results p = replicate M (Some r)" if w: "\<not> px_cancelled p \<and> px_main p = Waiting"
  proof -
    have l: "load n (\<lambda>_. 1) (\<lambda>_. 1) (px_queues p) (px_workers p) = 0" and "pipe_live n M p"
      using live w by (simp_all add: pipe_live_def)
    then have "px_results p ! m \<noteq> None" if "m < M" for m
      using that w load_zero [OF l] by (auto simp: pipe_live_def flying_def)
    with ok show ?thesis by (intro nth_equalityI) (auto simp: pipe_ok_def)
  qed
  with ok show ?thesis by (auto simp: pipe_ok_def in_set_conv_nth)
qed

theorem pipeline_runs_one_stage_witness:
  "\<exists>p. pipe_reach 1 1 (new_tensor_from_data [F64 2 0] [1]) p \<and>
     px_results p = [Some (new_tensor_from_data [F64 16778894 23] [1])]"
proof -
  obtain p where p: "pipe_reach 1 1 (new_tensor_from_data [F64 2 0] [1]) p" "\<not> px_cancelled p" "px_main p = Waiting"
    using one_stage_run [OF forward_example] by blast
  with pipeline_runs_one_stage [OF p(1) _ forward_example] show ?thesis by auto
qed

section \<open>The schedule\<close>

lemma stage_loop_stages:
  assumes "0 < pc_pipeline_size cfg" "0 \<le> numLayers"
  defines "start \<equiv> share_start numLayers (pc_pipeline_size cfg)" and "share \<equiv> shard_share numLayers (pc_pipeline_size cfg)"
  shows "stage_loop cfg numLayers [i..j] (start i) =
    map (\<lambda>i. \<lparr>ps_stage_index = i, ps_first_layer = start i, ps_last_layer = start i + share i - 1,
      ps_worker_count = pc_tensor_size cfg\<rparr>) [i..j]"
proof (induction i j rule: upto.induct)
  case (1 i j)
  show ?case
  proof (cases "i \<le> j")
    case True
    have "start (i + 1) = start i + share i" using share_start_step [OF assms(2,1)] by (simp add: start_def share_def)
    with 1 True show ?thesis unfolding upto.simps [of i j] by (simp add: Let_def share_def)
  qed simp
qed

text \<open>
  A pipeline schedule has one stage per pipeline position and its stages take the layers in order, each
  once, in shares that differ by at most one; sizes that are not positive are refused.
\<close>

theorem schedule_partitions:
  assumes "0 \<le> numLayers"
  shows "build_pipeline_schedule cfg numLayers =
      Err (InvalidParallelism (pc_pipeline_size cfg) (pc_tensor_size cfg)) \<and> (pc_pipeline_size cfg \<le> 0 \<or> pc_tensor_size cfg \<le> 0)
    \<or> (\<exists>sch. build_pipeline_schedule cfg numLayers = Ok sch \<and> int (length (sch_stages sch)) = pc_pipeline_size cfg \<and>
        concat (map (\<lambda>s. [ps_first_layer s..ps_last_layer s]) (sch_stages sch)) = [0..numLayers - 1] \<and>
        (\<forall>s \<in> set (sch_stages sch). numLayers div pc_pipeline_size cfg \<le> ps_last_layer s - ps_first_layer s + 1 \<and>
           ps_last_layer s - ps_first_layer s + 1 \<le> numLayers div pc_pipeline_size cfg + 1))"
proof (cases "pc_pipeline_size cfg \<le> 0 \<or> pc_tensor_size cfg \<le> 0")
  case True
  then show ?thesis by (simp add: build_pipeline_schedule_def)
next
  case False
  let ?n = "pc_pipeline_size cfg"
  have n: "0 < ?n" using False by simp
  have stages: "stage_loop cfg numLayers (go_range ?n) 0 = map (\<lambda>i. \<lparr>ps_stage_index = i,
      ps_first_layer = share_start numLayers ?n i, ps_last_layer = share_start numLayers ?n i + shard_share numLayers ?n i - 1,
      ps_worker_count = pc_tensor_size cfg\<rparr>) (go_range ?n)"
    using stage_loop_stages [OF n assms, of 0 "?n - 1"] n by (simp add: go_range_upto)
  have "concat (map (\<lambda>s. [ps_first_layer s..ps_last_layer s]) (stage_loop cfg numLayers (go_range ?n) 0)) = [0..numLayers - 1]"
    using shares_partition [OF assms n] unfolding stages by (simp add: comp_def go_range_upto)
  moreover have "numLayers div ?n \<le> ps_last_layer s - ps_first_layer s + 1 \<and> ps_last_layer s - ps_first_layer s + 1 \<le> numLayers div ?n + 1"
    if s: "s \<in> set (stage_loop cfg numLayers (go_range ?n) 0)" for s
  proof -
    obtain i where "ps_last_layer s - ps_first_layer s + 1 = shard_share numLayers ?n i"
      using s unfolding stages by auto
    then show ?thesis using shard_share_bounds [OF assms n, of i] by simp
  qed
  moreover have "int (length (stage_loop cfg numLayers (go_range ?n) 0)) = ?n" using n unfolding stages by simp
  ultimately show ?thesis using False by (intro disjI2 exI conjI) (auto simp: build_pipeline_schedule_def)
qed

theorem schedule_partitions_witness:
  "\<exists>sch. build_pipeline_schedule (default_parallelism_config 4) 5 = Ok sch \<and>
     concat (map (\<lambda>s. [ps_first_layer s..ps_last_layer s]) (sch_stages sch)) = [0..4]"
proof -
  have "pc_pipeline_size (default_parallelism_config 4) = 2" "pc_tensor_size (default_parallelism_config 4) = 2"
    by (simp_all add: default_parallelism_config_def go_quot_def)
  then show ?thesis using schedule_partitions [of 5 "default_parallelism_config 4"] by auto
qed

end
