(* ===== verification/TensorProps.thy ===== *)
theory TensorProps
  imports Tensor
begin

text \<open>
  A tensor built by the package is well formed: its data fills its shape and its strides are those of the
  shape. Every operation keeps this, so an index within the shape never panics; different indices are
  different places of the flat data; and the matrix product is the sum of products, in order.
\<close>

section \<open>Shapes, strides and flat offsets\<close>

definition wf_tensor :: "tensor \<Rightarrow> bool" where
  "wf_tensor t \<longleftrightarrow> tn_strides t = compute_strides (tn_shape t) \<and> tensor_size t = shape_size (tn_shape t) \<and>
     (\<forall>d \<in> set (tn_shape t). 0 \<le> d)"

definition in_shape :: "int list \<Rightarrow> int list \<Rightarrow> bool" where
  "in_shape = list_all2 (\<lambda>i d. 0 \<le> i \<and> i < d)"

fun flat_offset :: "int list \<Rightarrow> int list \<Rightarrow> int" where
  "flat_offset (i # is) (d # ds) = i * shape_size ds + flat_offset is ds"
| "flat_offset _ _ = 0"

lemma fold_mult: "fold (\<lambda>d size. size * d) ds (c :: int) = c * fold (\<lambda>d size. size * d) ds 1"
proof (induction ds arbitrary: c)
  case (Cons d ds)
  show ?case
    using Cons [of "c * d"] Cons [of d] by simp
qed simp

lemma shape_size_Nil [simp]: "shape_size [] = 1"
  by (simp add: shape_size_def)

lemma shape_size_Cons [simp]: "shape_size (d # ds) = d * shape_size ds"
  using fold_mult [of ds d] by (simp add: shape_size_def)

lemma shape_size_nonneg: "\<forall>d \<in> set ds. 0 \<le> d \<Longrightarrow> 0 \<le> shape_size ds"
  by (induction ds) auto

lemma compute_strides_Cons: "compute_strides (d # ds) = shape_size ds # compute_strides ds"
  by (induction ds arbitrary: d) (simp_all add: mult.commute)

declare compute_strides.simps(2,3) [simp del] compute_strides_Cons [simp]

lemma length_compute_strides [simp]: "length (compute_strides ds) = length ds"
  by (induction ds) auto

lemma offset_loop_flat:
  "length is = length ds \<Longrightarrow> offset_loop is (compute_strides ds) off = Ok (off + flat_offset is ds)"
  by (induction "is" ds arbitrary: off rule: list_induct2) auto

lemma in_shape_Cons [simp]: "in_shape (i # is) (d # ds) \<longleftrightarrow> 0 \<le> i \<and> i < d \<and> in_shape is ds"
  by (simp add: in_shape_def)

lemma in_shape_Nil [simp]: "in_shape [] []"
  by (simp add: in_shape_def)

lemma in_shape_length: "in_shape is ds \<Longrightarrow> length is = length ds"
  unfolding in_shape_def by (rule list_all2_lengthD)

lemma in_shape_induct [consumes 1, case_names Nil Cons]:
  assumes "in_shape is ds" "P [] []"
    "\<And>i is d ds. 0 \<le> i \<Longrightarrow> i < d \<Longrightarrow> in_shape is ds \<Longrightarrow> P is ds \<Longrightarrow> P (i # is) (d # ds)"
  shows "P is ds"
  using assms(1) unfolding in_shape_def
  by (induction rule: list_all2_induct) (use assms(2,3) in \<open>auto simp: in_shape_def\<close>)

text \<open>A digit in front of a remainder stays below the next power: mixed-radix numbers.\<close>

lemma digit_bound:
  assumes "0 \<le> i" "i < d" "0 \<le> r" "r < (s :: int)"
  shows "0 \<le> i * s + r" "i * s + r < d * s"
proof -
  have "(i + 1) * s \<le> d * s" using assms by (intro mult_right_mono) auto
  with assms show "i * s + r < d * s" by (simp add: distrib_right)
  show "0 \<le> i * s + r" using assms by simp
qed

lemma digit_eq:
  assumes "i * s + r = j * s + q" "0 \<le> r" "r < (s :: int)" "0 \<le> q" "q < s"
  shows "i = j \<and> r = q"
proof -
  have "(i * s + r) div s = i" "(j * s + q) div s = j" using assms(2-) by auto
  with assms(1) have "i = j" by metis
  with assms(1) show ?thesis by simp
qed

lemma flat_offset_bound: "in_shape is ds \<Longrightarrow> 0 \<le> flat_offset is ds \<and> flat_offset is ds < shape_size ds"
proof (induction rule: in_shape_induct)
  case (Cons i "is" d ds)
  then show ?case using digit_bound [of i d "flat_offset is ds" "shape_size ds"] by auto
qed simp

lemma flat_offset_inj:
  "in_shape is ds \<Longrightarrow> in_shape js ds \<Longrightarrow> flat_offset is ds = flat_offset js ds \<Longrightarrow> is = js"
proof (induction arbitrary: js rule: in_shape_induct)
  case Nil
  then show ?case by (simp add: in_shape_def)
next
  case (Cons i "is" d ds)
  then obtain j js' where js: "js = j # js'" "in_shape js' ds"
    by (auto simp: in_shape_def list_all2_Cons2)
  with Cons have "i = j \<and> flat_offset is ds = flat_offset js' ds"
    using flat_offset_bound [of "is" ds] flat_offset_bound [of js' ds]
    by (intro digit_eq [of _ "shape_size ds"]) auto
  with Cons.IH js show ?case by simp
qed

lemma tensor_offset_wf:
  "wf_tensor t \<Longrightarrow> in_shape is (tn_shape t) \<Longrightarrow> tensor_offset t is = Ok (flat_offset is (tn_shape t))"
  by (simp add: tensor_offset_def wf_tensor_def in_shape_length offset_loop_flat)

lemma flat_offset_in_data:
  "wf_tensor t \<Longrightarrow> in_shape is (tn_shape t) \<Longrightarrow>
     0 \<le> flat_offset is (tn_shape t) \<and> flat_offset is (tn_shape t) < int (length (tn_data t))"
  using flat_offset_bound by (simp add: wf_tensor_def tensor_size_def)

lemma tensor_get_wf:
  "wf_tensor t \<Longrightarrow> in_shape is (tn_shape t) \<Longrightarrow>
     tensor_get is t = Ok (tn_data t ! nat (flat_offset is (tn_shape t)))"
  using flat_offset_in_data by (simp add: tensor_get_def tensor_offset_wf go_index_def)

lemma tensor_set_wf:
  "wf_tensor t \<Longrightarrow> in_shape is (tn_shape t) \<Longrightarrow>
     tensor_set v is t = Ok (t\<lparr>tn_data := (tn_data t)[nat (flat_offset is (tn_shape t)) := v]\<rparr>)"
  using flat_offset_in_data by (simp add: tensor_set_def tensor_offset_wf go_update_def)

lemma wf_tensor_update: "wf_tensor t \<Longrightarrow> length d = length (tn_data t) \<Longrightarrow> wf_tensor (t\<lparr>tn_data := d\<rparr>)"
  by (simp add: wf_tensor_def tensor_size_def)

lemma new_tensor_wf:
  assumes "\<forall>d \<in> set shape. 0 \<le> d"
  obtains t where "new_tensor shape = Ok t" "wf_tensor t" "tn_shape t = shape"
    "tn_data t = replicate (nat (shape_size shape)) f32_zero"
proof
  let ?t = "\<lparr>tn_data = replicate (nat (shape_size shape)) f32_zero, tn_shape = shape, tn_strides = compute_strides shape\<rparr>"
  show "new_tensor shape = Ok ?t" "wf_tensor ?t"
    using assms shape_size_nonneg [OF assms]
    by (simp_all add: new_tensor_def go_make_def wf_tensor_def tensor_size_def)
qed simp_all

section \<open>Reading and writing\<close>

text \<open>
  Within its shape a tensor is an array: \<open>Set\<close> never panics, keeps the tensor well formed and its shape,
  \<open>Get\<close> then returns the value at that index and what it returned before at every other.
\<close>

theorem tensor_get_set:
  assumes "wf_tensor t" "in_shape is (tn_shape t)"
  shows "\<exists>t'. tensor_set v is t = Ok t' \<and> wf_tensor t' \<and> tn_shape t' = tn_shape t \<and> tensor_get is t' = Ok v \<and>
    (\<forall>js. in_shape js (tn_shape t) \<and> js \<noteq> is \<longrightarrow> tensor_get js t' = tensor_get js t)"
proof -
  let ?p = "\<lambda>is. nat (flat_offset is (tn_shape t))"
  define t' where "t' = t\<lparr>tn_data := (tn_data t)[?p is := v]\<rparr>"
  have wf: "wf_tensor t'" and sh: "tn_shape t' = tn_shape t"
    using wf_tensor_update [OF assms(1)] by (simp_all add: t'_def)
  have "?p is \<noteq> ?p js" if "in_shape js (tn_shape t)" "js \<noteq> is" for js
    using flat_offset_inj [OF that(1) assms(2)] flat_offset_bound [OF that(1)] flat_offset_bound [OF assms(2)] that(2)
    by (metis eq_nat_nat_iff)
  then have other: "\<forall>js. in_shape js (tn_shape t) \<and> js \<noteq> is \<longrightarrow> tensor_get js t' = tensor_get js t"
    using tensor_get_wf [OF wf] tensor_get_wf [OF assms(1)] by (simp add: t'_def)
  have "?p is < length (tn_data t)" using flat_offset_in_data [OF assms] by linarith
  then have "tensor_get is t' = Ok v"
    using tensor_get_wf [OF wf] assms(2) by (simp add: t'_def)
  with other wf sh tensor_set_wf [OF assms] show ?thesis unfolding t'_def by blast
qed

theorem tensor_get_set_witness:
  "let t = new_tensor_from_data (map (\<lambda>i. F64 (int i) 0) [0..<6]) [2, 3]
   in \<exists>t'. tensor_set f32_one [1, 0] t = Ok t' \<and> tensor_get [1, 0] t' = Ok f32_one \<and> tensor_get [0, 1] t' = Ok (F64 1 0)"
proof -
  let ?t = "new_tensor_from_data (map (\<lambda>i. F64 (int i) 0) [0..<6]) [2, 3]"
  have wf: "wf_tensor ?t" by (simp add: wf_tensor_def new_tensor_from_data_def tensor_size_def)
  have sh: "tn_shape ?t = [2, 3]" by (simp add: new_tensor_from_data_def)
  have old: "tensor_get [0, 1] ?t = Ok (F64 1 0)"
    by (simp add: tensor_get_def tensor_offset_def new_tensor_from_data_def go_index_def upt_rec)
  have "in_shape [1, 0] (tn_shape ?t)" "in_shape [0, 1] (tn_shape ?t)" by (simp_all add: sh in_shape_def)
  with tensor_get_set [OF wf, of "[1, 0]" f32_one] old show ?thesis
    by (auto simp: Let_def)
qed

section \<open>Operations keep tensors well formed\<close>

lemma wf_size: "wf_tensor t \<Longrightarrow> tensor_size t = shape_size (tn_shape t)"
  by (simp add: wf_tensor_def)

lemma wf_shape_nonneg: "wf_tensor t \<Longrightarrow> \<forall>d \<in> set (tn_shape t). 0 \<le> d"
  by (simp add: wf_tensor_def)

lemma tensor_fill_wf:
  assumes nonneg: "\<forall>d \<in> set shape. 0 \<le> d"
    and f: "\<And>i. 0 \<le> i \<Longrightarrow> i < shape_size shape \<Longrightarrow> f i = Ok (g i)"
  shows "\<exists>r. tensor_fill shape f = Ok r \<and> wf_tensor r \<and> tn_shape r = shape \<and>
    tn_data r = map g (go_range (shape_size shape))"
proof -
  obtain t where t: "new_tensor shape = Ok t" "wf_tensor t" "tn_shape t = shape" "tn_data t = replicate (nat (shape_size shape)) f32_zero"
    using new_tensor_wf [OF nonneg] by blast
  then have "tensor_size t = shape_size shape" by (simp add: wf_size)
  moreover have "omap f (go_range (shape_size shape)) = Ok (map g (go_range (shape_size shape)))"
    by (rule omap_Ok) (simp add: f)
  ultimately have "tensor_fill shape f = Ok (t\<lparr>tn_data := map g (go_range (shape_size shape))\<rparr>)"
    using t by (simp add: tensor_fill_def)
  moreover have "wf_tensor (t\<lparr>tn_data := map g (go_range (shape_size shape))\<rparr>)"
    using t by (intro wf_tensor_update) simp_all
  ultimately show ?thesis using t(3) by auto
qed

lemma map_go_range_nth: "length xs = nat n \<Longrightarrow> map (\<lambda>i. f (xs ! nat i)) (go_range n) = map f xs"
  by (rule nth_equalityI) (simp_all add: go_range_nth)

lemma map_go_range_nth2:
  "length xs = nat n \<Longrightarrow> length ys = nat n \<Longrightarrow> map (\<lambda>i. f (xs ! nat i) (ys ! nat i)) (go_range n) = map2 f xs ys"
  by (rule nth_equalityI) (simp_all add: go_range_nth)

lemma wf_length: "wf_tensor t \<Longrightarrow> length (tn_data t) = nat (shape_size (tn_shape t))"
  unfolding wf_tensor_def tensor_size_def by (elim conjE) (simp flip: nat_int)

lemma wf_read: "wf_tensor t \<Longrightarrow> 0 \<le> i \<Longrightarrow> i < shape_size (tn_shape t) \<Longrightarrow> go_index (tn_data t) i = Ok (tn_data t ! nat i)"
  by (simp add: go_index_def wf_length)

lemma tensor_scale_wf:
  assumes "wf_tensor t"
  shows "\<exists>r. tensor_scale c t = Ok r \<and> wf_tensor r \<and> tn_shape r = tn_shape t \<and>
    tn_data r = map (\<lambda>a. f32_mul a c) (tn_data t)"
  unfolding tensor_scale_def map_go_range_nth [OF wf_length [OF assms], symmetric]
  by (rule tensor_fill_wf [OF wf_shape_nonneg [OF assms]]) (simp add: wf_read [OF assms])

lemma tensor_fill2_wf:
  assumes t: "wf_tensor t" and len: "length (tn_data u) = length (tn_data t)"
  shows "\<exists>r. tensor_fill (tn_shape t) (\<lambda>i. obind (go_index (tn_data t) i) (\<lambda>a. obind (go_index (tn_data u) i) (\<lambda>b. Ok (f a b)))) = Ok r \<and>
    wf_tensor r \<and> tn_shape r = tn_shape t \<and> tn_data r = map2 f (tn_data t) (tn_data u)"
  unfolding map_go_range_nth2 [OF wf_length [OF t] wf_length [OF t, folded len], symmetric]
  by (rule tensor_fill_wf [OF wf_shape_nonneg [OF t]])
    (simp add: wf_read [OF t], simp add: go_index_def len wf_length [OF t])

lemma tensor_add_wf:
  assumes "wf_tensor t" "length (tn_data u) = length (tn_data t)"
  shows "\<exists>r. tensor_add t u = Ok r \<and> wf_tensor r \<and> tn_shape r = tn_shape t \<and>
    tn_data r = map2 f32_add (tn_data t) (tn_data u)"
  using tensor_fill2_wf [OF assms, of f32_add] assms(2) by (simp add: tensor_add_def)

lemma tensor_mul_wf:
  assumes "wf_tensor t" "length (tn_data u) = length (tn_data t)"
  shows "\<exists>r. tensor_mul t u = Ok r \<and> wf_tensor r \<and> tn_shape r = tn_shape t \<and>
    tn_data r = map2 f32_mul (tn_data t) (tn_data u)"
  using tensor_fill2_wf [OF assms, of f32_mul] assms(2) by (simp add: tensor_mul_def)

lemma tensor_add_in_place_wf:
  assumes "wf_tensor t" "length (tn_data u) = length (tn_data t)"
  shows "\<exists>r. tensor_add_in_place t u = Ok r \<and> wf_tensor r \<and> tn_shape r = tn_shape t \<and>
    tn_data r = map2 f32_add (tn_data t) (tn_data u)"
  using assms wf_tensor_update [OF assms(1), of "map2 f32_add (tn_data t) (tn_data u)"]
  by (simp add: tensor_add_in_place_def)

lemma activate_loop:
  assumes "length vs + length pre \<le> length d"
  shows "(ofold (\<lambda>(i, v) d. go_update d i (f v)) (zip (map int [length pre..<length pre + length vs]) vs) (pre @ drop (length pre) d) :: (string, f32 list) outcome)
    = Ok (pre @ map f vs @ drop (length pre + length vs) d)"
  using assms
proof (induction vs arbitrary: pre)
  case (Cons v vs)
  let ?k = "length pre"
  have upt: "[?k..<?k + length (v # vs)] = ?k # [Suc ?k..<Suc ?k + length vs]"
    by (subst upt_conv_Cons) simp_all
  have d: "drop ?k d = d ! ?k # drop (Suc ?k) d"
    using Cons.prems by (simp add: Cons_nth_drop_Suc)
  have "go_update (pre @ drop ?k d) (int ?k) (f v) = (Ok ((pre @ [f v]) @ drop (Suc ?k) d) :: (string, f32 list) outcome)"
    unfolding d by (simp add: go_update_def)
  with Cons.IH [of "pre @ [f v]"] Cons.prems show ?case
    unfolding upt by (simp del: upt_Suc)
qed simp

lemma tensor_activate_wf:
  assumes "wf_tensor x"
  shows "\<exists>r. tensor_activate f x = Ok r \<and> wf_tensor r \<and> tn_shape r = tn_shape x \<and> tn_data r = map f (tn_data x)"
proof -
  obtain t where t: "new_tensor (tn_shape x) = Ok t" "wf_tensor t" "tn_shape t = tn_shape x"
    "tn_data t = replicate (nat (shape_size (tn_shape x))) f32_zero"
    using new_tensor_wf [OF wf_shape_nonneg [OF assms]] by blast
  have len: "length (tn_data t) = length (tn_data x)" using t(4) wf_length [OF assms] by simp
  have "ofold (\<lambda>(i, v) d. go_update d i (f v)) (zip (go_range (tensor_size x)) (tn_data x)) (tn_data t) = (Ok (map f (tn_data x)) :: (string, f32 list) outcome)"
    using activate_loop [of "tn_data x" "[]" "tn_data t" f] len by (simp add: go_range_def tensor_size_def)
  then have "tensor_activate f x = Ok (t\<lparr>tn_data := map f (tn_data x)\<rparr>)"
    using t(1) by (simp add: tensor_activate_def)
  moreover have "wf_tensor (t\<lparr>tn_data := map f (tn_data x)\<rparr>)"
    using t(2) len by (intro wf_tensor_update) simp_all
  ultimately show ?thesis using t(3) by auto
qed

lemma tensor_reshape_wf:
  "wf_tensor t \<Longrightarrow> \<forall>d \<in> set shape. 0 \<le> d \<Longrightarrow> tensor_reshape shape t = Ok r \<Longrightarrow> wf_tensor r \<and> tn_data r = tn_data t"
  by (auto simp: tensor_reshape_def wf_tensor_def tensor_size_def split: if_splits)

lemma tensor_slice_wf:
  assumes t: "wf_tensor t" and shape: "tn_shape t = d # ds" and range: "0 \<le> start" "start < stop" "stop \<le> d"
  shows "tensor_slice start stop t = Ok \<lparr>tn_data = take (nat ((stop - start) * shape_size ds)) (drop (nat (start * shape_size ds)) (tn_data t)),
      tn_shape = (stop - start) # ds, tn_strides = compute_strides ((stop - start) # ds)\<rparr>" (is "_ = Ok ?r")
    "wf_tensor \<lparr>tn_data = take (nat ((stop - start) * shape_size ds)) (drop (nat (start * shape_size ds)) (tn_data t)),
      tn_shape = (stop - start) # ds, tn_strides = compute_strides ((stop - start) # ds)\<rparr>"
proof -
  let ?s = "shape_size ds"
  have s: "0 \<le> ?s" using wf_shape_nonneg [OF t] shape by (intro shape_size_nonneg) simp
  have strides: "tn_strides t = ?s # compute_strides ds" using t shape by (simp add: wf_tensor_def)
  have size: "int (length (tn_data t)) = d * ?s" using t shape by (simp add: wf_tensor_def tensor_size_def)
  have split: "start * ?s + (stop - start) * ?s = stop * ?s" by (simp add: algebra_simps)
  have le: "stop * ?s \<le> d * ?s" using range s by (intro mult_right_mono) auto
  have nn: "0 \<le> start * ?s" "0 \<le> (stop - start) * ?s" using range s by auto
  have "go_slice (tn_data t) (start * ?s) (start * ?s + (stop - start) * ?s) =
      (Ok (take (nat ((stop - start) * ?s)) (drop (nat (start * ?s)) (tn_data t))) :: (string, f32 list) outcome)"
    using le nn split size by (intro go_slice_Ok) simp_all
  then show "tensor_slice start stop t = Ok ?r"
    using range shape strides by (simp add: tensor_slice_def go_index_def Let_def)
  have "int (length (take (nat ((stop - start) * ?s)) (drop (nat (start * ?s)) (tn_data t)))) = (stop - start) * ?s"
    using le nn split size by (intro length_cut) simp_all
  then show "wf_tensor ?r"
    using wf_shape_nonneg [OF t] shape range by (simp add: wf_tensor_def tensor_size_def)
qed

lemma tensor_slice_Ok:
  assumes "tensor_slice start stop t = Ok r"
  obtains d ds where "tn_shape t = d # ds" "0 \<le> start" "start < stop" "stop \<le> d"
  using assms by (cases "tn_shape t") (auto simp: tensor_slice_def go_index_def split: if_splits)

lemma tensor_rows_wf:
  assumes x: "wf_tensor x" "tn_shape x \<noteq> []" "List.last (tn_shape x) \<noteq> 0"
    and f: "\<And>row. int (length row) = List.last (tn_shape x) \<Longrightarrow> f row = Ok (g row) \<and> length (g row) = length row"
  shows "\<exists>r. tensor_rows f x = Ok r \<and> wf_tensor r \<and> tn_shape r = tn_shape x"
proof -
  let ?k = "List.last (tn_shape x)"
  obtain t where t: "new_tensor (tn_shape x) = Ok t" "wf_tensor t" "tn_shape t = tn_shape x"
    "tn_data t = replicate (nat (shape_size (tn_shape x))) f32_zero"
    using new_tensor_wf [OF wf_shape_nonneg [OF x(1)]] by blast
  have k: "0 < ?k" using wf_shape_nonneg [OF x(1)] x(2,3) last_in_set [OF x(2)] by fastforce
  have idx: "go_index (tn_shape x) (int (length (tn_shape x)) - 1) = (Ok ?k :: (string, int) outcome)"
    using x(2) by (cases "length (tn_shape x)") (auto simp: go_index_def last_conv_nth)
  define step where "step = (\<lambda>batch r. let off = batch * ?k in
     obind (go_slice (tn_data x) off (off + ?k)) (\<lambda>row. obind (f row) (\<lambda>ys.
       if off + ?k \<le> tensor_size r
       then Ok (r\<lparr>tn_data := take (nat off) (tn_data r) @ ys @ drop (nat (off + ?k)) (tn_data r)\<rparr>)
       else (Panic :: (string, tensor) outcome))))"
  define upd where "upd = (\<lambda>batch (r :: tensor). let off = batch * ?k in
     r\<lparr>tn_data := take (nat off) (tn_data r) @ g (take (nat ?k) (drop (nat off) (tn_data x))) @ drop (nat (off + ?k)) (tn_data r)\<rparr>)"
  have turn: "step b r = Ok (upd b r) \<and> (wf_tensor (upd b r) \<and> tn_shape (upd b r) = tn_shape x)"
    if "b \<in> set (go_range (tensor_size x div ?k))" "wf_tensor r \<and> tn_shape r = tn_shape x" for b and r :: tensor
  proof -
    let ?o = "b * ?k"
    have b: "0 \<le> b" "b < tensor_size x div ?k" using that(1) by auto
    then have "(b + 1) * ?k \<le> tensor_size x div ?k * ?k" using k by (intro mult_right_mono) auto
    also have "\<dots> \<le> tensor_size x" using k by (simp add: minus_mod_eq_div_mult [symmetric])
    finally have le: "?o + ?k \<le> tensor_size x" by (simp add: distrib_right)
    have o: "0 \<le> ?o" using b k by simp
    have len: "length (tn_data r) = length (tn_data x)" using that(2) x(1) by (simp add: wf_length)
    define row where "row = take (nat ?k) (drop (nat ?o) (tn_data x))"
    have slice: "go_slice (tn_data x) ?o (?o + ?k) = (Ok row :: (string, f32 list) outcome)"
      using le o k by (simp add: go_slice_def row_def tensor_size_def)
    have row: "int (length row) = ?k" using le o k by (simp add: row_def tensor_size_def)
    have new: "length (take (nat ?o) (tn_data r) @ g row @ drop (nat (?o + ?k)) (tn_data r)) = length (tn_data r)"
      using f [OF row] row le o k len by (simp add: tensor_size_def nat_add_distrib) 
    have "step b r = Ok (upd b r)"
      using slice f [OF row] le len unfolding step_def upd_def Let_def row_def [symmetric] by (simp add: tensor_size_def)
    moreover have "wf_tensor (upd b r) \<and> tn_shape (upd b r) = tn_shape x"
      using that(2) wf_tensor_update [OF _ new] unfolding upd_def Let_def row_def [symmetric] by simp
    ultimately show ?thesis by blast
  qed
  have "ofold step (go_range (tensor_size x div ?k)) t = Ok (fold upd (go_range (tensor_size x div ?k)) t) \<and>
      (wf_tensor (fold upd (go_range (tensor_size x div ?k)) t) \<and> tn_shape (fold upd (go_range (tensor_size x div ?k)) t) = tn_shape x)"
    by (rule ofold_invariant [where I = "\<lambda>r. wf_tensor r \<and> tn_shape r = tn_shape x"]) (use turn t(2,3) in blast)+
  then show ?thesis
    using t(1) idx x(3) by (simp add: tensor_rows_def step_def)
qed

lemma softmax_row_length: "length (softmax_row exp row) = length row"
  by (simp add: softmax_row_def Let_def)

definition weight_covers :: "tensor option \<Rightarrow> int \<Rightarrow> bool" where
  "weight_covers weight n \<longleftrightarrow> (case weight of None \<Rightarrow> True | Some w \<Rightarrow> n \<le> tensor_size w)"

lemma rms_row_Ok:
  assumes "weight_covers weight (int (length row))"
  shows "\<exists>ys. rms_row sqrt weight epsilon row = Ok ys \<and> length ys = length row"
proof (cases weight)
  case None
  then show ?thesis
    by (simp add: rms_row_def Let_def)
next
  case (Some w)
  define rms where "rms = f32_of_f64 (sqrt (f32_add (f32_div (fold (\<lambda>x s. f32_add s (f32_mul x x)) row f32_zero)
    (f32_of_f64 (F64 (int (length row)) 0))) epsilon))"
  have "omap (\<lambda>j. obind (go_index (tn_data w) j) (\<lambda>c. Ok (f32_mul (f32_div (row ! nat j) rms) c))) (go_range (int (length row)))
      = (Ok (map (\<lambda>j. f32_mul (f32_div (row ! nat j) rms) (tn_data w ! nat j)) (go_range (int (length row)))) :: (string, f32 list) outcome)"
    using assms Some by (intro omap_Ok) (auto simp: weight_covers_def tensor_size_def go_index_def)
  with Some show ?thesis by (simp add: rms_row_def Let_def rms_def)
qed

lemma rms_norm_wf:
  assumes "wf_tensor x" "tn_shape x \<noteq> []" "List.last (tn_shape x) \<noteq> 0" "weight_covers weight (List.last (tn_shape x))"
  shows "\<exists>r. rms_norm sqrt weight epsilon x = Ok r \<and> wf_tensor r \<and> tn_shape r = tn_shape x"
proof -
  have "\<exists>g. \<forall>row. int (length row) = List.last (tn_shape x) \<longrightarrow>
      rms_row sqrt weight epsilon row = Ok (g row) \<and> length (g row) = length row"
    by (rule choice) (use rms_row_Ok assms(4) in metis)
  then obtain g where "\<And>row. int (length row) = List.last (tn_shape x) \<Longrightarrow>
      rms_row sqrt weight epsilon row = Ok (g row) \<and> length (g row) = length row" by blast
  with tensor_rows_wf [OF assms(1-3)] show ?thesis unfolding rms_norm_def by blast
qed

text \<open>
  C37: Every operation on well-formed tensors of fitting shapes returns a well-formed tensor: sums and
  products of tensors of one size, scaling, slices within the first dimension, reshaping to the same size, the
  activations, and softmax and normalisation along a non-empty last dimension.
\<close>

theorem tensor_ops_typed:
  assumes "wf_tensor t" "length (tn_data u) = length (tn_data t)"
  shows "(\<forall>f \<in> {tensor_add t u, tensor_mul t u, tensor_add_in_place t u, tensor_scale c t, gelu tanh t, silu exp t}.
      \<exists>r. f = Ok r \<and> wf_tensor r \<and> tn_shape r = tn_shape t)
    \<and> (tn_shape t \<noteq> [] \<and> 0 \<le> a \<and> a < b \<and> b \<le> hd (tn_shape t) \<longrightarrow>
        (\<exists>r. tensor_slice a b t = Ok r \<and> wf_tensor r \<and> tn_shape r = (b - a) # tl (tn_shape t)))
    \<and> ((\<forall>d \<in> set shape. 0 \<le> d) \<and> shape_size shape = shape_size (tn_shape t) \<longrightarrow>
        (\<exists>r. tensor_reshape shape t = Ok r \<and> wf_tensor r \<and> tn_shape r = shape))
    \<and> (tn_shape t \<noteq> [] \<and> List.last (tn_shape t) \<noteq> 0 \<longrightarrow>
        (\<exists>r. softmax exp t = Ok r \<and> wf_tensor r \<and> tn_shape r = tn_shape t) \<and>
        (weight_covers w (List.last (tn_shape t)) \<longrightarrow>
           (\<exists>r. rms_norm sqrt w epsilon t = Ok r \<and> wf_tensor r \<and> tn_shape r = tn_shape t)))"
proof -
  note wf = assms(1)
  have act: "\<exists>r. tensor_activate f t = Ok r \<and> wf_tensor r \<and> tn_shape r = tn_shape t" for f
    using tensor_activate_wf [OF wf, of f] by blast
  have "\<forall>f \<in> {tensor_add t u, tensor_mul t u, tensor_add_in_place t u, tensor_scale c t, gelu tanh t, silu exp t}.
      \<exists>r. f = Ok r \<and> wf_tensor r \<and> tn_shape r = tn_shape t"
    using tensor_add_wf [OF assms] tensor_mul_wf [OF assms] tensor_add_in_place_wf [OF assms] tensor_scale_wf [OF wf, of c]
    by (auto simp: gelu_def silu_def act)
  moreover have "\<exists>r. tensor_slice a b t = Ok r \<and> wf_tensor r \<and> tn_shape r = (b - a) # tl (tn_shape t)"
    if slice: "tn_shape t \<noteq> [] \<and> 0 \<le> a \<and> a < b \<and> b \<le> hd (tn_shape t)"
  proof -
    obtain d ds where "tn_shape t = d # ds" using slice by (cases "tn_shape t") auto
    with slice tensor_slice_wf [OF wf this] show ?thesis by auto
  qed
  moreover have "\<exists>r. tensor_reshape shape t = Ok r \<and> wf_tensor r \<and> tn_shape r = shape"
    if "(\<forall>d \<in> set shape. 0 \<le> d) \<and> shape_size shape = shape_size (tn_shape t)"
    using that wf by (auto simp: tensor_reshape_def wf_tensor_def tensor_size_def)
  moreover have "\<exists>r. softmax exp t = Ok r \<and> wf_tensor r \<and> tn_shape r = tn_shape t"
    if "tn_shape t \<noteq> []" "List.last (tn_shape t) \<noteq> 0"
    unfolding softmax_def by (rule tensor_rows_wf [OF wf that, where g = "softmax_row exp"]) (simp add: softmax_row_length)
  ultimately show ?thesis using rms_norm_wf [OF wf] by blast
qed

theorem tensor_ops_typed_witness:
  "let t = new_tensor_from_data [F64 1 0, F64 2 0, F64 3 0, F64 4 0] [2, 2]
   in \<exists>r. tensor_slice 1 2 t = Ok r \<and> wf_tensor r \<and> tn_shape r = [1, 2]"
proof -
  let ?t = "new_tensor_from_data [F64 1 0, F64 2 0, F64 3 0, F64 4 0] [2, 2]"
  have "wf_tensor ?t" by (simp add: wf_tensor_def new_tensor_from_data_def tensor_size_def)
  from tensor_ops_typed [OF this refl, of f32_zero id id 1 2] show ?thesis
    by (auto simp: new_tensor_from_data_def)
qed

section \<open>The matrix product\<close>

lemma in_shape2: "in_shape [i, j] [m, n] \<longleftrightarrow> 0 \<le> i \<and> i < m \<and> 0 \<le> j \<and> j < n"
  by (auto simp: in_shape_def)

lemma get2:
  assumes "wf_tensor t" "tn_shape t = [m, n]" "0 \<le> i" "i < m" "0 \<le> j" "j < n"
  shows "tensor_get [i, j] t = Ok (tn_data t ! nat (i * n + j))" "go_index (tn_data t) (i * n + j) = Ok (tn_data t ! nat (i * n + j))"
    "nat (i * n + j) < length (tn_data t)"
proof -
  have s: "in_shape [i, j] (tn_shape t)" using assms by (simp add: in_shape2)
  from tensor_get_wf [OF assms(1) s] assms(2)
  show "tensor_get [i, j] t = Ok (tn_data t ! nat (i * n + j))" by simp
  from flat_offset_in_data [OF assms(1) s] assms(2)
  show "go_index (tn_data t) (i * n + j) = Ok (tn_data t ! nat (i * n + j))" "nat (i * n + j) < length (tn_data t)"
    by (simp_all add: go_index_def nat_less_iff)
qed

definition dot_product :: "(int \<Rightarrow> f32) \<Rightarrow> (int \<Rightarrow> f32) \<Rightarrow> int \<Rightarrow> f32" where
  "dot_product x y k = fold (\<lambda>l sum. f32_add sum (f32_mul (x l) (y l))) (go_range k) f32_zero"

lemma mat_dot_eq:
  assumes a: "wf_tensor a" "tn_shape a = [m, k]" and b: "wf_tensor b" "tn_shape b = [k, n]" and ij: "0 \<le> i" "i < m" "0 \<le> j" "j < n"
  shows "mat_dot a b (i * tn_strides a ! 0) (tn_strides b ! 0) j k =
    Ok (dot_product (\<lambda>l. tn_data a ! nat (i * k + l)) (\<lambda>l. tn_data b ! nat (l * n + j)) k)"
proof -
  have s: "tn_strides a ! 0 = k" "tn_strides b ! 0 = n" using a b by (simp_all add: wf_tensor_def)
  show ?thesis
    unfolding mat_dot_def dot_product_def s
  proof (rule ofold_Ok)
    fix l :: int and sum :: f32 assume "l \<in> set (go_range k)"
    then have l: "0 \<le> l" "l < k" by auto
    show "obind (go_index (tn_data a) (i * k + l)) (\<lambda>x. obind (go_index (tn_data b) (l * n + j)) (\<lambda>y. Ok (f32_add sum (f32_mul x y)))) =
        Ok (f32_add sum (f32_mul (tn_data a ! nat (i * k + l)) (tn_data b ! nat (l * n + j))))"
      unfolding get2(2) [OF a ij(1,2) l] get2(2) [OF b l ij(3,4)] by simp
  qed
qed

lemma product_positions_distinct:
  assumes "0 \<le> n"
  shows "distinct (map (\<lambda>(i, j). nat (i * n + j)) (List.product (go_range m) (go_range n)))"
proof -
  have "inj_on (\<lambda>(i, j). nat (i * n + j)) (set (List.product (go_range m) (go_range n)))"
  proof (rule inj_onI, clarsimp)
    fix i j i' j' :: int
    assume "0 \<le> i" "0 \<le> j" "j < n" "0 \<le> i'" "0 \<le> j'" "j' < n" "nat (i * n + j) = nat (i' * n + j')"
    then show "i = i' \<and> j = j'" by (intro digit_eq [of i n j i' j']) (auto simp: nat_eq_iff split: if_splits)
  qed
  moreover have "distinct (go_range m)" "distinct (go_range n)"
    by (simp_all add: go_range_def distinct_map inj_on_def)
  ultimately show ?thesis by (simp add: distinct_map distinct_product)
qed

lemma fold_data:
  "tn_data (fold (\<lambda>x (r :: tensor). r\<lparr>tn_data := (tn_data r)[p x := v x]\<rparr>) xs r) = fold (\<lambda>x d. d[p x := v x]) xs (tn_data r)"
  by (induction xs arbitrary: r) simp_all

lemma mat_mul_eq:
  assumes a: "wf_tensor a" "tn_shape a = [m, k]" and b: "wf_tensor b" "tn_shape b = [k, n]"
  defines "v \<equiv> \<lambda>(i, j). dot_product (\<lambda>l. tn_data a ! nat (i * k + l)) (\<lambda>l. tn_data b ! nat (l * n + j)) k"
  shows "\<exists>c. mat_mul a b = Ok c \<and> wf_tensor c \<and> tn_shape c = [m, n] \<and>
    tn_data c = fold (\<lambda>x d. d[(\<lambda>(i, j). nat (i * n + j)) x := v x]) (List.product (go_range m) (go_range n))
      (replicate (nat (m * n)) f32_zero)"
proof -
  have "\<forall>d \<in> set [m, n]. 0 \<le> d" using a b by (simp add: wf_tensor_def)
  from new_tensor_wf [OF this] obtain t where t: "new_tensor [m, n] = Ok t" "wf_tensor t" "tn_shape t = [m, n]"
    "tn_data t = replicate (nat (m * n)) f32_zero" by auto
  define f where "f = (\<lambda>i j (r :: tensor). obind (mat_dot a b (i * tn_strides a ! 0) (tn_strides b ! 0) j k) (\<lambda>sum.
     obind (go_update (tn_data r) (i * tn_strides r ! 0 + j) sum) (\<lambda>d. Ok (r\<lparr>tn_data := d\<rparr>) :: (string, tensor) outcome)))"
  define g where "g = (\<lambda>x (r :: tensor). r\<lparr>tn_data := (tn_data r)[(\<lambda>(i, j). nat (i * n + j)) x := v x]\<rparr>)"
  have turn: "(\<lambda>(i, j). f i j) x r = Ok (g x r) \<and> (wf_tensor (g x r) \<and> tn_shape (g x r) = [m, n])"
    if x: "x \<in> set (List.product (go_range m) (go_range n))" and r: "wf_tensor r \<and> tn_shape r = [m, n]" for x r
  proof -
    obtain i j where ij: "x = (i, j)" "0 \<le> i" "i < m" "0 \<le> j" "j < n" using x by auto
    have r': "wf_tensor r" "tn_shape r = [m, n]" using r by auto
    have s: "tn_strides r ! 0 = n" using r by (simp add: wf_tensor_def)
    have "nat (i * n + j) < length (tn_data r)" "0 \<le> i * n + j"
      using get2(3) [OF r' ij(2-)] ij by auto
    then have "go_update (tn_data r) (i * n + j) (v x) = (Ok ((tn_data r)[nat (i * n + j) := v x]) :: (string, f32 list) outcome)"
      by (simp add: go_update_def nat_less_iff)
    then have "f i j r = Ok (g x r)"
      using mat_dot_eq [OF a b ij(2-)] unfolding f_def g_def s v_def ij(1) by simp
    moreover have "wf_tensor (g x r) \<and> tn_shape (g x r) = [m, n]"
      using r' wf_tensor_update by (simp add: g_def)
    ultimately show ?thesis using ij(1) by simp
  qed
  define ps where "ps = List.product (go_range m) (go_range n)"
  have run: "ofold (\<lambda>(i, j). f i j) ps t = Ok (fold g ps t) \<and> (wf_tensor (fold g ps t) \<and> tn_shape (fold g ps t) = [m, n])"
    unfolding ps_def
    by (rule ofold_invariant [where I = "\<lambda>r. wf_tensor r \<and> tn_shape r = [m, n]"]) (use turn t(2,3) in blast)+
  have "mat_mul a b = ofold (\<lambda>i. ofold (f i) (go_range n)) (go_range m) t"
    using a(2) b(2) t(1) by (simp add: mat_mul_def f_def Let_def)
  with run t(4) show ?thesis
    unfolding ofold_product ps_def [symmetric] by (simp add: g_def fold_data)
qed

text \<open>
  C15: The product of an \<open>m\<close> by \<open>k\<close> and a \<open>k\<close> by \<open>n\<close> tensor never panics; its entry at \<open>i\<close>, \<open>j\<close> is the sum over
  \<open>l\<close>, in order and with the rounding of \<open>float32\<close>, of the entry \<open>i\<close>, \<open>l\<close> of the first times the entry
  \<open>l\<close>, \<open>j\<close> of the second.
\<close>

theorem mat_mul_correct:
  assumes a: "wf_tensor a" "tn_shape a = [m, k]" and b: "wf_tensor b" "tn_shape b = [k, n]"
    and A: "\<forall>i l. 0 \<le> i \<and> i < m \<and> 0 \<le> l \<and> l < k \<longrightarrow> tensor_get [i, l] a = Ok (A i l)"
    and B: "\<forall>l j. 0 \<le> l \<and> l < k \<and> 0 \<le> j \<and> j < n \<longrightarrow> tensor_get [l, j] b = Ok (B l j)"
  shows "\<exists>c. mat_mul a b = Ok c \<and> wf_tensor c \<and> tn_shape c = [m, n] \<and>
    (\<forall>i j. 0 \<le> i \<and> i < m \<and> 0 \<le> j \<and> j < n \<longrightarrow> tensor_get [i, j] c = Ok (dot_product (A i) (\<lambda>l. B l j) k))"
proof -
  obtain c where c: "mat_mul a b = Ok c" "wf_tensor c" "tn_shape c = [m, n]"
    "tn_data c = fold (\<lambda>x d. d[(\<lambda>(i, j). nat (i * n + j)) x := (\<lambda>(i, j).
        dot_product (\<lambda>l. tn_data a ! nat (i * k + l)) (\<lambda>l. tn_data b ! nat (l * n + j)) k) x])
      (List.product (go_range m) (go_range n)) (replicate (nat (m * n)) f32_zero)"
    using mat_mul_eq [OF a b] by blast
  have "tensor_get [i, j] c = Ok (dot_product (A i) (\<lambda>l. B l j) k)"
    if ij: "0 \<le> i \<and> i < m \<and> 0 \<le> j \<and> j < n" for i j
  proof -
    note ij' = ij [THEN conjunct1] ij [THEN conjunct2, THEN conjunct1] ij [THEN conjunct2, THEN conjunct2, THEN conjunct1]
      ij [THEN conjunct2, THEN conjunct2, THEN conjunct2]
    have "nat (i * n + j) < nat (m * n)" using get2(3) [OF c(2,3) ij'] c(2,3) by (simp add: wf_length)
    then have "tn_data c ! nat (i * n + j) = dot_product (\<lambda>l. tn_data a ! nat (i * k + l)) (\<lambda>l. tn_data b ! nat (l * n + j)) k"
      unfolding c(4) using fold_update_nth [of "(i, j)" "List.product (go_range m) (go_range n)" "\<lambda>(i, j). nat (i * n + j)"
        "replicate (nat (m * n)) f32_zero"] product_positions_distinct [of n m] ij by simp
    also have "\<dots> = dot_product (A i) (\<lambda>l. B l j) k"
      unfolding dot_product_def
      by (rule fold_cong) (use A B ij get2(1) [OF a ij'(1,2)] get2(1) [OF b _ _ ij'(3,4)] in auto)
    finally show ?thesis using get2(1) [OF c(2,3) ij'] by simp
  qed
  with c show ?thesis by blast
qed

theorem mat_mul_correct_witness:
  "let a = new_tensor_from_data [F64 1 0, F64 2 0] [1, 2]; b = new_tensor_from_data [F64 3 0, F64 4 0] [2, 1]
   in \<exists>c. mat_mul a b = Ok c \<and> tensor_get [0, 0] c = Ok (F64 11 0)"
proof -
  let ?a = "new_tensor_from_data [F64 1 0, F64 2 0] [1, 2]" and ?b = "new_tensor_from_data [F64 3 0, F64 4 0] [2, 1]"
  let ?A = "\<lambda>i l. F64 (l + 1) 0" and ?B = "\<lambda>l j :: int. F64 (l + 3) 0"
  have wf: "wf_tensor ?a" "tn_shape ?a = [1, 2]" "wf_tensor ?b" "tn_shape ?b = [2, 1]"
    by (simp_all add: wf_tensor_def new_tensor_from_data_def tensor_size_def)
  have two: "0 \<le> l \<and> l < 2 \<Longrightarrow> l = 0 \<or> l = 1" for l :: int by arith
  have A: "\<forall>i l. 0 \<le> i \<and> i < 1 \<and> 0 \<le> l \<and> l < 2 \<longrightarrow> tensor_get [i, l] ?a = Ok (?A i l)"
    by (auto dest!: two simp: tensor_get_def tensor_offset_def new_tensor_from_data_def go_index_def)
  have B: "\<forall>l j. 0 \<le> l \<and> l < 2 \<and> 0 \<le> j \<and> j < 1 \<longrightarrow> tensor_get [l, j] ?b = Ok (?B l j)"
  proof (intro allI impI)
    fix l j :: int assume lj: "0 \<le> l \<and> l < 2 \<and> 0 \<le> j \<and> j < 1"
    then have "l = 0 \<or> l = 1" "j = 0" by auto
    then show "tensor_get [l, j] ?b = Ok (?B l j)"
      by (elim disjE) (simp_all add: tensor_get_def tensor_offset_def new_tensor_from_data_def go_index_def)
  qed
  have "dot_product (?A 0) (\<lambda>l. ?B l 0) 2 = F64 11 0"
    by (simp add: dot_product_def go_range_def upt_rec f32_eval)
  with mat_mul_correct [OF wf A B] show ?thesis unfolding Let_def by fastforce
qed

end
