(* ===== verification/Privacy.thy ===== *)
theory Privacy
  imports GoSlice "HOL-Library.Multiset"
begin

text \<open>
  Privacy tiers and XOR secret sharing, \<^verbatim>\<open>src/pkg/compute/distributed/privacy.go\<close>. The \<open>i\<close>-th read of
  \<open>n\<close> bytes from \<open>rand.Reader\<close> in a call is \<open>rnd i n\<close>, \<open>None\<close> when it fails. AES-GCM is the pair
  \<open>seal\<close>, \<open>unseal\<close> of functions of key, nonce and text. A share that the code changes in place is returned
  changed.
\<close>

type_synonym privacy_tier = byte

definition privacy_low :: privacy_tier where "privacy_low = 1"
definition privacy_medium :: privacy_tier where "privacy_medium = 2"
definition privacy_high :: privacy_tier where "privacy_high = 3"

definition privacy_tier_string :: "privacy_tier \<Rightarrow> string" where
  "privacy_tier_string pt =
     (if pt = privacy_low then ''Low (Plaintext)'' else if pt = privacy_medium then ''Medium (Secret Sharing)''
      else if pt = privacy_high then ''High (Local Only)'' else ''Unknown'')"

record privacy_router = pr_default_tier :: privacy_tier

definition new_privacy_router :: "privacy_tier \<Rightarrow> privacy_router" where
  "new_privacy_router t = \<lparr>pr_default_tier = t\<rparr>"

definition route :: "privacy_router \<Rightarrow> byte list \<Rightarrow> string \<Rightarrow> privacy_tier" where
  "route pr data dataCategory =
     (if dataCategory \<in> set [''public'', ''web-search'', ''general-knowledge''] then privacy_low
      else if dataCategory \<in> set [''business'', ''industry'', ''research''] then privacy_medium
      else if dataCategory \<in> set [''personal'', ''private'', ''medical'', ''financial''] then privacy_high
      else pr_default_tier pr)"

definition should_distribute :: "privacy_tier \<Rightarrow> bool" where
  "should_distribute t = (t = privacy_low \<or> t = privacy_medium)"

section \<open>Secret sharing\<close>

record secret_share =
  ss_index :: int
  ss_data :: "byte list"
  ss_nonce :: "byte list option"
  ss_key :: "byte list option"

datatype privacy_error = TooFewShares int | RandomGeneration | NoShares | SizeMismatch int nat nat
  | AesCipher | NonceError | MissingKey | DecryptError | Keygen

definition xor_into :: "byte list \<Rightarrow> byte list \<Rightarrow> byte list" where
  "xor_into dst src = map2 (\<lambda>a b. a XOR b) dst src"

definition random_shares :: "(nat \<Rightarrow> nat \<Rightarrow> byte list option) \<Rightarrow> nat \<Rightarrow> int \<Rightarrow> (privacy_error, byte list list) outcome" where
  "random_shares rnd len k = omap (\<lambda>i. case rnd (nat i) len of None \<Rightarrow> Err RandomGeneration | Some b \<Rightarrow> Ok b) (go_range k)"

definition plain_share :: "int \<Rightarrow> byte list \<Rightarrow> secret_share" where
  "plain_share i d = \<lparr>ss_index = i, ss_data = d, ss_nonce = None, ss_key = None\<rparr>"

definition split_secret :: "(nat \<Rightarrow> nat \<Rightarrow> byte list option) \<Rightarrow> byte list \<Rightarrow> int \<Rightarrow> (privacy_error, secret_share list) outcome" where
  "split_secret rnd data numShares =
     (if numShares < 2 then Err (TooFewShares numShares)
      else obind (random_shares rnd (length data) (numShares - 1)) (\<lambda>randomShares.
        let lastShare = fold (\<lambda>share l. xor_into l share) randomShares data in
          Ok (map2 plain_share (map (\<lambda>i. i + 1) (go_range (numShares - 1))) randomShares @ [plain_share numShares lastShare])))"

fun reconstruct_loop :: "nat \<Rightarrow> secret_share list \<Rightarrow> byte list \<Rightarrow> (privacy_error, byte list) outcome" where
  "reconstruct_loop len [] result = Ok result"
| "reconstruct_loop len (s # shares) result =
     (if length (ss_data s) \<noteq> len then Err (SizeMismatch (ss_index s) (length (ss_data s)) len)
      else reconstruct_loop len shares (xor_into result (ss_data s)))"

definition reconstruct_secret :: "secret_share list \<Rightarrow> (privacy_error, byte list) outcome" where
  "reconstruct_secret shares = (case shares of
     [] \<Rightarrow> Err NoShares
   | s # _ \<Rightarrow> reconstruct_loop (length (ss_data s)) shares (replicate (length (ss_data s)) 0))"

section \<open>Transport encryption\<close>

text \<open>\<open>aes.NewCipher\<close> accepts keys of 16, 24 and 32 bytes; a GCM nonce has 12.\<close>

definition aes_key_ok :: "byte list \<Rightarrow> bool" where
  "aes_key_ok key \<longleftrightarrow> length key \<in> {16, 24, 32}"

definition encrypt_share :: "(nat \<Rightarrow> nat \<Rightarrow> byte list option) \<Rightarrow> (byte list \<Rightarrow> byte list \<Rightarrow> byte list \<Rightarrow> byte list) \<Rightarrow>
    byte list \<Rightarrow> secret_share \<Rightarrow> (privacy_error, secret_share) outcome" where
  "encrypt_share rnd seal key s =
     (if \<not> aes_key_ok key then Err AesCipher
      else case rnd 0 12 of None \<Rightarrow> Err NonceError
        | Some nonce \<Rightarrow> Ok (s\<lparr>ss_data := seal key nonce (ss_data s), ss_nonce := Some nonce, ss_key := Some key\<rparr>))"

definition decrypt_share :: "(byte list \<Rightarrow> byte list \<Rightarrow> byte list \<Rightarrow> byte list option) \<Rightarrow> secret_share \<Rightarrow>
    (privacy_error, secret_share) outcome" where
  "decrypt_share unseal s = (case (ss_key s, ss_nonce s) of
     (Some key, Some nonce) \<Rightarrow>
       if \<not> aes_key_ok key then Err AesCipher
       else if length nonce \<noteq> 12 then Panic
       else (case unseal key nonce (ss_data s) of None \<Rightarrow> Err DecryptError | Some p \<Rightarrow> Ok (s\<lparr>ss_data := p\<rparr>))
   | _ \<Rightarrow> Err MissingKey)"

definition generate_share_key :: "(nat \<Rightarrow> nat \<Rightarrow> byte list option) \<Rightarrow> (privacy_error, byte list) outcome" where
  "generate_share_key rnd = (case rnd 0 32 of None \<Rightarrow> Err Keygen | Some k \<Rightarrow> Ok k)"

section \<open>Shares as sums\<close>

text \<open>\<open>rnd\<close> returns as many bytes as it is asked for.\<close>

definition reader_ok :: "(nat \<Rightarrow> nat \<Rightarrow> byte list option) \<Rightarrow> bool" where
  "reader_ok rnd \<longleftrightarrow> (\<forall>i n b. rnd i n = Some b \<longrightarrow> length b = n)"

definition xor_all :: "byte list \<Rightarrow> byte" where
  "xor_all bs = fold (\<lambda>a b. a XOR b) bs 0"

lemma fold_xor: "fold (\<lambda>a b. a XOR b) bs (c :: byte) = c XOR xor_all bs"
proof (induction bs arbitrary: c)
  case (Cons b bs)
  show ?case
    using Cons [of "b XOR c"] Cons [of b] by (simp add: xor_all_def xor.assoc xor.commute xor.left_commute)
qed (simp add: xor_all_def)

lemma xor_all_Cons [simp]: "xor_all (b # bs) = b XOR xor_all bs"
  using fold_xor [of bs b] by (simp add: xor_all_def)

lemma xor_all_Nil [simp]: "xor_all [] = 0"
  by (simp add: xor_all_def)

lemma xor_all_append [simp]: "xor_all (as @ bs) = xor_all as XOR xor_all bs"
  by (induction as) (simp_all add: xor.assoc)

lemma xor_all_mset: "mset as = mset bs \<Longrightarrow> xor_all as = xor_all bs"
  unfolding xor_all_def by (rule fold_permuted_eq [where P = "\<lambda>_. True"]) (simp_all add: xor.left_commute)

lemma length_xor_into [simp]: "length (xor_into a b) = min (length a) (length b)"
  by (simp add: xor_into_def)

lemma fold_xor_into:
  assumes "\<forall>s \<in> set ds. length s = length l"
  shows "length (fold (\<lambda>s l. xor_into l s) ds l) = length l \<and>
    (\<forall>j < length l. fold (\<lambda>s l. xor_into l s) ds l ! j = l ! j XOR xor_all (map (\<lambda>s. s ! j) ds))"
  using assms
proof (induction ds arbitrary: l)
  case (Cons d ds)
  then show ?case using Cons.IH [of "xor_into l d"] by (simp add: xor_into_def xor.assoc)
qed simp

lemma reconstruct_loop_eq:
  "\<forall>s \<in> set shares. length (ss_data s) = len \<Longrightarrow>
     reconstruct_loop len shares r = Ok (fold (\<lambda>s l. xor_into l s) (map ss_data shares) r)"
  by (induction shares arbitrary: r) auto

lemma reconstruct_nth:
  assumes "shares \<noteq> []" "\<forall>s \<in> set shares. length (ss_data s) = len"
  shows "\<exists>d. reconstruct_secret shares = Ok d \<and> length d = len \<and> (\<forall>j < len. d ! j = xor_all (map (\<lambda>s. ss_data s ! j) shares))"
proof -
  have "reconstruct_secret shares = Ok (fold (\<lambda>s l. xor_into l s) (map ss_data shares) (replicate len 0))"
    using assms reconstruct_loop_eq [OF assms(2)] by (cases shares) (simp_all add: reconstruct_secret_def)
  then show ?thesis
    using fold_xor_into [of "map ss_data shares" "replicate len 0"] assms(2) by (simp add: comp_def)
qed

end
