(* ===== verification/Coordinator.thy ===== *)
theory Coordinator
  imports AllReduce Privacy
begin

text \<open>
  The coordinator of a distributed inference, \<^verbatim>\<open>src/pkg/compute/distributed/coordinator.go\<close>. An operation
  that returns an error keeps the state it has reached: its result is \<open>Inl\<close> the error or \<open>Inr\<close> the value, with
  the coordinator. \<open>now\<close> is the clock, \<open>stop l\<close> tells whether the context is done after layer \<open>l\<close>, and
  \<open>ord\<close> is the iteration order of a map. The task of the session is kept but never read.
\<close>

type_synonym miner_status = byte

definition miner_waiting :: miner_status where "miner_waiting = 0"
definition miner_loading :: miner_status where "miner_loading = 1"
definition miner_computing :: miner_status where "miner_computing = 2"
definition miner_all_reducing :: miner_status where "miner_all_reducing = 3"
definition miner_done :: miner_status where "miner_done = 4"
definition miner_failed :: miner_status where "miner_failed = 5"

type_synonym session_status = byte

definition session_initializing :: session_status where "session_initializing = 0"
definition session_running :: session_status where "session_running = 1"
definition session_all_reducing :: session_status where "session_all_reducing = 2"
definition session_completed :: session_status where "session_completed = 3"
definition session_failed :: session_status where "session_failed = 4"
definition session_recovering :: session_status where "session_recovering = 5"

lemmas session_defs = session_initializing_def session_running_def session_all_reducing_def session_completed_def
  session_failed_def session_recovering_def

record miner_state =
  mst_address :: address
  mst_shard_index :: int
  mst_status :: miner_status
  mst_last_heartbeat :: int
  mst_layers_completed :: int
  mst_errors :: "string list"

record layer_checkpoint =
  cp_layer_index :: int
  cp_activation :: tensor
  cp_timestamp :: int

record coordinator_config =
  cf_checkpoint_interval :: int
  cf_heartbeat_interval :: int
  cf_heartbeat_timeout :: int
  cf_max_retries :: int
  cf_privacy :: privacy_tier

definition default_coordinator_config :: coordinator_config where
  "default_coordinator_config = \<lparr>cf_checkpoint_interval = 10, cf_heartbeat_interval = 5 * 10 ^ 9,
     cf_heartbeat_timeout = 30 * 10 ^ 9, cf_max_retries = 3, cf_privacy = privacy_low\<rparr>"

record coordinator =
  co_plan :: sharding_plan
  co_task :: task
  co_miner_states :: "address \<Rightarrow> miner_state option"
  co_ring :: "ring_all_reduce option"
  co_privacy_router :: privacy_router
  co_privacy_tier :: privacy_tier
  co_checkpoints :: "int \<Rightarrow> layer_checkpoint option"
  co_checkpoint_interval :: int
  co_started_at :: int
  co_status :: session_status

definition initial_state :: "shard_assignment \<Rightarrow> miner_state" where
  "initial_state shard = \<lparr>mst_address = sa_miner_id shard, mst_shard_index = sa_shard_index shard,
     mst_status = miner_waiting, mst_last_heartbeat = 0, mst_layers_completed = 0, mst_errors = []\<rparr>"

definition new_coordinator :: "task \<Rightarrow> sharding_plan \<Rightarrow> coordinator_config \<Rightarrow> (shard_error, coordinator) outcome" where
  "new_coordinator t plan cfg = obind (validate_sharding_plan plan) (\<lambda>_.
     Ok \<lparr>co_plan = plan, co_task = t,
       co_miner_states = fold (\<lambda>shard m. m(sa_miner_id shard \<mapsto> initial_state shard)) (pl_shards plan) Map.empty,
       co_ring = None, co_privacy_router = new_privacy_router (cf_privacy cfg), co_privacy_tier = cf_privacy cfg,
       co_checkpoints = Map.empty, co_checkpoint_interval = cf_checkpoint_interval cfg, co_started_at = 0,
       co_status = session_initializing\<rparr>)"

definition set_status :: "session_status \<Rightarrow> coordinator \<Rightarrow> coordinator" where
  "set_status s c = c\<lparr>co_status := s\<rparr>"

text \<open>The nearest \<open>float32\<close> of 1.001.\<close>

definition layer_factor :: f32 where "layer_factor = F64 8396997 23"

definition simulate_layer_forward :: "tensor \<Rightarrow> (string, tensor) outcome" where
  "simulate_layer_forward input =
     obind (go_index (tn_shape input) (int (length (tn_shape input)) - 1)) (\<lambda>hidden.
       tensor_fill [hidden] (\<lambda>i. obind (go_index (tn_data input) i) (\<lambda>x. Ok (f32_mul x layer_factor))))"

definition add_checkpoint :: "int \<Rightarrow> int \<Rightarrow> tensor \<Rightarrow> coordinator \<Rightarrow> coordinator" where
  "add_checkpoint now layer current c = c\<lparr>co_checkpoints := (co_checkpoints c)(layer \<mapsto>
     \<lparr>cp_layer_index = layer, cp_activation = current, cp_timestamp = now\<rparr>)\<rparr>"

definition record_progress :: "address \<Rightarrow> int \<Rightarrow> coordinator \<Rightarrow> coordinator" where
  "record_progress a layer c = (case co_miner_states c a of
     None \<Rightarrow> c
   | Some s \<Rightarrow> c\<lparr>co_miner_states := (co_miner_states c)(a \<mapsto> s\<lparr>mst_layers_completed := layer + 1\<rparr>)\<rparr>)"

fun pipeline_forward :: "(int \<Rightarrow> int) \<Rightarrow> (int \<Rightarrow> bool) \<Rightarrow> int list \<Rightarrow> tensor \<Rightarrow> coordinator \<Rightarrow>
    (string, (string + tensor) \<times> coordinator) outcome" where
  "pipeline_forward now stop [] current c = Ok (Inr current, c)"
| "pipeline_forward now stop (layer # layers) current c =
     (let n = int (length (pl_shards (co_plan c))) in
      if n = 0 then Panic
      else obind (go_index (pl_shards (co_plan c)) (go_rem layer n)) (\<lambda>shard.
        if co_checkpoint_interval c = 0 then Panic
        else let c1 = (if go_rem layer (co_checkpoint_interval c) = 0 \<and> layer > 0
                       then add_checkpoint (now layer) layer current c else c) in
          obind (simulate_layer_forward current) (\<lambda>next.
            let c2 = record_progress (sa_miner_id shard) layer c1 in
              if stop layer then Ok (Inl ''context canceled'', c2)
              else pipeline_forward now stop layers next c2)))"

definition all_reduce_result :: "tensor \<Rightarrow> coordinator \<Rightarrow> (string, tensor) outcome" where
  "all_reduce_result data c = (case co_ring c of None \<Rightarrow> Ok data | Some ring \<Rightarrow> all_reduce ring data)"

definition execute_session :: "int \<Rightarrow> (int \<Rightarrow> int) \<Rightarrow> (int \<Rightarrow> bool) \<Rightarrow> tensor \<Rightarrow> coordinator \<Rightarrow>
    (string, (string + tensor) \<times> coordinator) outcome" where
  "execute_session startNow now stop input c =
     (let c1 = c\<lparr>co_status := session_running, co_started_at := startNow\<rparr> in
      obind (pipeline_forward now stop (go_range (sc_num_layers (pl_config (co_plan c1)))) input c1) (\<lambda>(r, c2). case r of
        Inl e \<Rightarrow> Ok (Inl (''pipeline forward: '' @ e), set_status session_failed c2)
      | Inr layerOutput \<Rightarrow>
          let c3 = set_status session_all_reducing c2 in
            obind (all_reduce_result layerOutput c3) (\<lambda>finalOutput. Ok (Inr finalOutput, set_status session_completed c3))))"

fun best_miner :: "address \<Rightarrow> (address \<Rightarrow> miner_state option) \<Rightarrow> address list \<Rightarrow> address \<times> int \<Rightarrow> address \<times> int" where
  "best_miner failed states [] best = best"
| "best_miner failed states (a # as) (bestMiner, bestLoad) =
     (case states a of
        None \<Rightarrow> best_miner failed states as (bestMiner, bestLoad)
      | Some s \<Rightarrow>
          if a \<noteq> failed \<and> mst_status s \<noteq> miner_failed \<and> mst_layers_completed s < bestLoad
          then best_miner failed states as (a, mst_layers_completed s)
          else best_miner failed states as (bestMiner, bestLoad))"

definition reassign_shard :: "(address set \<Rightarrow> address list) \<Rightarrow> address \<Rightarrow> coordinator \<Rightarrow> string + unit" where
  "reassign_shard ord failed c =
     (if fst (best_miner failed (co_miner_states c) (ord (dom (co_miner_states c))) (zero_address, 2 ^ 63 - 1)) = zero_address
      then Inl ''no healthy miners available'' else Inr ())"

text \<open>The search runs over the layers from the last to the first.\<close>

definition last_checkpoint :: "coordinator \<Rightarrow> layer_checkpoint option" where
  "last_checkpoint c = (case filter (\<lambda>l. co_checkpoints c l \<noteq> None) (rev (go_range (sc_num_layers (pl_config (co_plan c))))) of
     [] \<Rightarrow> None | l # _ \<Rightarrow> co_checkpoints c l)"

definition mark_failed :: "address \<Rightarrow> coordinator \<Rightarrow> coordinator" where
  "mark_failed a c = (case co_miner_states c a of
     None \<Rightarrow> c
   | Some s \<Rightarrow> c\<lparr>co_miner_states := (co_miner_states c)(a \<mapsto>
       s\<lparr>mst_status := miner_failed, mst_errors := mst_errors s @ [''recovered from checkpoint'']\<rparr>)\<rparr>)"

definition recover_from_checkpoint :: "(address set \<Rightarrow> address list) \<Rightarrow> address \<Rightarrow> coordinator \<Rightarrow> (string + unit) \<times> coordinator" where
  "recover_from_checkpoint ord failed c =
     (let c1 = set_status session_recovering c in
      case last_checkpoint c1 of
        None \<Rightarrow> (Inl ''no checkpoint available for recovery'', c1)
      | Some cp \<Rightarrow> let c2 = mark_failed failed c1 in
          (case reassign_shard ord failed c2 of
             Inl e \<Rightarrow> (Inl (''reassign shard: '' @ e), c2)
           | Inr _ \<Rightarrow> (Inr (), c2)))"

definition get_miner_states :: "coordinator \<Rightarrow> address \<Rightarrow> miner_state option" where
  "get_miner_states c = co_miner_states c"

text \<open>A start at the zero time has not happened.\<close>

definition session_elapsed :: "int \<Rightarrow> coordinator \<Rightarrow> int" where
  "session_elapsed now c = (if co_started_at c = 0 then 0 else now - co_started_at c)"

end
