(* ===== verification/AllReduceProps.thy ===== *)
theory AllReduceProps
  imports AllReduce
begin

text \<open>
  What the ring all-reduce computes. Every round receives a copy of the member's own data, the chunk at its own
  index is never written, and the gathering round copies that chunk into every place: the result repeats one
  chunk of the local data, whatever the other members hold.
\<close>

definition chunk_size :: "int \<Rightarrow> int \<Rightarrow> int" where
  "chunk_size n S = (if S mod n \<noteq> 0 then S div n + 1 else S div n)"

definition own_chunk :: "int \<Rightarrow> int \<Rightarrow> f32 list \<Rightarrow> f32 list" where
  "own_chunk n i d = (let c = chunk_size n (int (length d)) in take (nat c) (drop (nat (i * c)) d))"

lemma chunk_size_pos: "0 < n \<Longrightarrow> 0 < S \<Longrightarrow> 0 < chunk_size n S"
proof -
  assume n: "0 < n" and S: "0 < S"
  show ?thesis
  proof (cases "S mod n = 0")
    case True
    then have "S div n * n = S" using div_mult_mod_eq [of S n] by simp
    with n S show ?thesis using True by (simp add: chunk_size_def) (smt (verit) mult_nonpos_nonneg n)
  qed (use n S in \<open>simp add: chunk_size_def pos_imp_zdiv_nonneg_iff add_nonneg_pos\<close>)
qed

text \<open>The members a round sends from and receives into.\<close>

definition ring_index :: "int \<Rightarrow> int \<Rightarrow> int \<Rightarrow> int" where
  "ring_index n i q = (i - q) mod n"

lemma ring_index_bounds: "0 < n \<Longrightarrow> 0 \<le> ring_index n i q \<and> ring_index n i q < n"
  by (simp add: ring_index_def)

lemma go_rem_ring: "0 \<le> i \<Longrightarrow> i < n \<Longrightarrow> q \<le> n \<Longrightarrow> go_rem (i - q + n) n = ring_index n i q"
  by (simp add: go_rem_nonneg ring_index_def)

lemma ring_index_0: "0 \<le> i \<Longrightarrow> i < n \<Longrightarrow> ring_index n i 0 = i"
  by (simp add: ring_index_def)

lemma ring_index_neq: "0 \<le> i \<Longrightarrow> i < n \<Longrightarrow> 0 < q \<Longrightarrow> q < n \<Longrightarrow> ring_index n i q \<noteq> i"
proof
  assume a: "0 \<le> i" "i < n" "0 < q" "q < n" "ring_index n i q = i"
  then have "(i - q) mod n = i mod n" by (simp add: ring_index_def)
  then have "n dvd q" by (simp add: mod_eq_dvd_iff)
  with a show False using zdvd_imp_le by fastforce
qed

lemma ring_index_onto: "0 \<le> i \<Longrightarrow> i < n \<Longrightarrow> 0 \<le> k \<Longrightarrow> k < n \<Longrightarrow> \<exists>q. 0 \<le> q \<and> q < n \<and> ring_index n i q = k"
  by (rule exI [of _ "(i - k) mod n"]) (simp add: ring_index_def mod_diff_right_eq)

lemma chunk_apart:
  assumes "0 \<le> (c :: int)" "k \<noteq> i"
  shows "(k + 1) * c \<le> i * c \<or> (i + 1) * c \<le> k * c"
proof -
  have "k + 1 \<le> i \<or> i + 1 \<le> k" using assms(2) by arith
  with assms(1) show ?thesis by (auto intro: mult_right_mono)
qed

lemma chunk_end_min: "chunk_end k c S = min S ((k + 1) * c)"
  by (simp add: chunk_end_def min_def)

section \<open>The reduce-scatter rounds\<close>

lemma reduce_round_Ok:
  assumes ring: "0 \<le> ra_my_index rar" "ra_my_index rar < ra_total_n rar" and c: "0 < c"
    and len: "int (length (tn_data a)) = S" and r: "0 \<le> r" "r < ra_total_n rar - 1"
  defines "s \<equiv> ring_index (ra_total_n rar) (ra_my_index rar) r" and "k \<equiv> ring_index (ra_total_n rar) (ra_my_index rar) (r + 1)"
  assumes fit: "s * c \<le> S" "k * c \<le> S"
  shows "\<exists>d. reduce_round rar c S r a = Ok (a\<lparr>tn_data := d\<rparr>) \<and> length d = length (tn_data a) \<and>
    (\<forall>p. int p < k * c \<or> chunk_end k c S \<le> int p \<longrightarrow> d ! p = tn_data a ! p)"
proof -
  let ?n = "ra_total_n rar" and ?i = "ra_my_index rar"
  have rem: "go_rem (?i - r + ?n) ?n = s" "go_rem (?i - r - 1 + ?n) ?n = k"
    using go_rem_ring [OF ring, of r] go_rem_ring [OF ring, of "r + 1"] r by (simp_all add: s_def k_def algebra_simps)
  have pos: "0 \<le> s * c" "0 \<le> k * c"
    using ring_index_bounds [of ?n ?i] ring c by (simp_all add: s_def k_def)
  have ends: "s * c \<le> chunk_end s c S" "chunk_end s c S \<le> S" "k * c \<le> chunk_end k c S" "chunk_end k c S \<le> S"
    using fit c by (simp_all add: chunk_end_min distrib_right)
  obtain sb where sb: "go_slice (tn_data a) (s * c) (chunk_end s c S) = (Ok sb :: (string, f32 list) outcome)"
    using pos ends len by (simp add: go_slice_def)
  let ?rb = "exchange_data sb (replicate (nat (chunk_end k c S - k * c)) f32_zero)"
  have make: "go_make f32_zero (chunk_end k c S - k * c) = (Ok (replicate (nat (chunk_end k c S - k * c)) f32_zero) :: (string, f32 list) outcome)"
    using ends by (simp add: go_make_def)
  have rb: "k * c + int (length ?rb) = chunk_end k c S" using ends by (simp add: exchange_data_def)
  obtain d where d: "ofold (\<lambda>(i, v) d. obind (go_index d (k * c + i)) (\<lambda>x. go_update d (k * c + i) (f32_add x v)))
      (zip (go_range (int (length ?rb))) ?rb) (tn_data a) = (Ok d :: (string, f32 list) outcome)" "length d = length (tn_data a)"
    "\<forall>p. int p < k * c \<or> chunk_end k c S \<le> int p \<longrightarrow> d ! p = tn_data a ! p"
    using add_run [of "k * c" ?rb "tn_data a" f32_add] pos rb ends len by auto
  have "reduce_round rar c S r a = Ok (a\<lparr>tn_data := d\<rparr>)"
    unfolding reduce_round_def Let_def rem sb make obind.simps d(1) by simp
  with d show ?thesis by blast
qed

lemma reduce_round_Panic:
  assumes ring: "0 \<le> ra_my_index rar" "ra_my_index rar < ra_total_n rar" and r: "0 \<le> r" "r < ra_total_n rar - 1"
  defines "s \<equiv> ring_index (ra_total_n rar) (ra_my_index rar) r" and "k \<equiv> ring_index (ra_total_n rar) (ra_my_index rar) (r + 1)"
  assumes out: "S < s * c \<or> S < k * c"
  shows "reduce_round rar c S r a = Panic"
proof -
  let ?n = "ra_total_n rar" and ?i = "ra_my_index rar"
  have rem: "go_rem (?i - r + ?n) ?n = s" "go_rem (?i - r - 1 + ?n) ?n = k"
    using go_rem_ring [OF ring, of r] go_rem_ring [OF ring, of "r + 1"] r by (simp_all add: s_def k_def algebra_simps)
  have "chunk_end m c S \<le> S" for m by (simp add: chunk_end_min)
  then have "chunk_end s c S < s * c \<or> chunk_end k c S < k * c" using out by (meson order_le_less_trans)
  then show ?thesis
    by (auto simp: reduce_round_def Let_def rem go_slice_def go_make_def)
qed

text \<open>The data of every round: its length, and the chunk at the own index, which no round receives into.\<close>

definition same_chunk :: "int \<Rightarrow> int \<Rightarrow> tensor \<Rightarrow> tensor \<Rightarrow> bool" where
  "same_chunk i c t a \<longleftrightarrow> length (tn_data a) = length (tn_data t) \<and>
     (\<forall>p. i * c \<le> int p \<and> int p < chunk_end i c (tensor_size t) \<longrightarrow> tn_data a ! p = tn_data t ! p)"

lemma reduce_round_same:
  assumes ring: "0 \<le> ra_my_index rar" "ra_my_index rar < ra_total_n rar" and c: "0 < c"
    and r: "0 \<le> r" "r < ra_total_n rar - 1" and a: "same_chunk (ra_my_index rar) c t a"
  shows "reduce_round rar c (tensor_size t) r a = Panic \<or>
    (\<exists>a'. reduce_round rar c (tensor_size t) r a = Ok a' \<and> same_chunk (ra_my_index rar) c t a')"
proof (rule disjCI)
  let ?n = "ra_total_n rar" and ?i = "ra_my_index rar" and ?S = "tensor_size t"
  let ?k = "ring_index ?n ?i (r + 1)"
  assume "\<not> (\<exists>a'. reduce_round rar c ?S r a = Ok a' \<and> same_chunk ?i c t a')"
  moreover have "\<exists>a'. reduce_round rar c ?S r a = Ok a' \<and> same_chunk ?i c t a'"
    if fit: "ring_index ?n ?i r * c \<le> ?S" "?k * c \<le> ?S"
  proof -
    have len: "int (length (tn_data a)) = ?S" using a by (simp add: same_chunk_def tensor_size_def)
    obtain d where d: "reduce_round rar c ?S r a = Ok (a\<lparr>tn_data := d\<rparr>)" "length d = length (tn_data a)"
      "\<forall>p. int p < ?k * c \<or> chunk_end ?k c ?S \<le> int p \<longrightarrow> d ! p = tn_data a ! p"
      using reduce_round_Ok [OF ring c len r fit] by blast
    have "(?k + 1) * c \<le> ?i * c \<or> (?i + 1) * c \<le> ?k * c"
      using ring_index_neq [OF ring, of "r + 1"] r c by (intro chunk_apart) auto
    then have "d ! p = tn_data t ! p" if "?i * c \<le> int p" "int p < chunk_end ?i c ?S" for p
      using d(3) a that by (auto simp: same_chunk_def chunk_end_min)
    with d a show ?thesis by (auto simp: same_chunk_def)
  qed
  ultimately show "reduce_round rar c ?S r a = Panic"
    using reduce_round_Panic [OF ring r] by (meson not_le)
qed

lemma reduce_rounds:
  assumes ring: "0 \<le> ra_my_index rar" "ra_my_index rar < ra_total_n rar" "2 \<le> ra_total_n rar" and c: "0 < c"
    and a: "same_chunk (ra_my_index rar) c t a"
  shows "if (ra_total_n rar - 1) * c \<le> tensor_size t
    then \<exists>a'. ofold (reduce_round rar c (tensor_size t)) (go_range (ra_total_n rar - 1)) a = Ok a' \<and> same_chunk (ra_my_index rar) c t a'
    else ofold (reduce_round rar c (tensor_size t)) (go_range (ra_total_n rar - 1)) a = Panic"
proof (cases "(ra_total_n rar - 1) * c \<le> tensor_size t")
  case True
  let ?n = "ra_total_n rar" and ?i = "ra_my_index rar"
  have fit: "ring_index ?n ?i q * c \<le> tensor_size t" for q
  proof -
    have "ring_index ?n ?i q \<le> ?n - 1" using ring_index_bounds [of ?n ?i q] ring by simp
    then have "ring_index ?n ?i q * c \<le> (?n - 1) * c" using c by (intro mult_right_mono) auto
    with True show ?thesis by simp
  qed
  have "\<exists>a'. ofold (reduce_round rar c (tensor_size t)) (go_range (?n - 1)) a = Ok a' \<and> same_chunk ?i c t a'"
  proof (rule ofold_keeps [where I = "same_chunk ?i c t"])
    fix r b assume "r \<in> set (go_range (?n - 1))" and b: "same_chunk ?i c t b"
    then have r: "0 \<le> r" "r < ?n - 1" by auto
    have len: "int (length (tn_data b)) = tensor_size t" using b by (simp add: same_chunk_def tensor_size_def)
    from reduce_round_same [OF ring(1,2) c r b] reduce_round_Ok [OF ring(1,2) c len r fit fit]
    show "\<exists>a'. reduce_round rar c (tensor_size t) r b = Ok a' \<and> same_chunk ?i c t a'" by auto
  qed (rule a)
  with True show ?thesis by simp
next
  case False
  let ?n = "ra_total_n rar" and ?i = "ra_my_index rar"
  obtain q where q: "0 \<le> q" "q < ?n" "ring_index ?n ?i q = ?n - 1"
    using ring_index_onto [OF ring(1,2), of "?n - 1"] ring(3) by auto
  define r where "r = (if q = 0 then 0 else q - 1)"
  have r: "0 \<le> r" "r < ?n - 1" "q = r \<or> q = r + 1" using q ring(3) by (auto simp: r_def)
  have "ofold (reduce_round rar c (tensor_size t)) (go_range (?n - 1)) a = Panic"
  proof (rule ofold_panics [where I = "same_chunk ?i c t" and x = r])
    show "r \<in> set (go_range (?n - 1))" using r by simp
    show "reduce_round rar c (tensor_size t) r b = Panic" for b
      using False r q(3) by (intro reduce_round_Panic [OF ring(1,2) r(1,2)]) auto
    show "reduce_round rar c (tensor_size t) x b = Panic \<or> (\<exists>a'. reduce_round rar c (tensor_size t) x b = Ok a' \<and> same_chunk ?i c t a')"
      if "x \<in> set (go_range (?n - 1))" "same_chunk ?i c t b" for x b
      using that by (intro reduce_round_same [OF ring(1,2) c]) auto
  qed (rule a)
  with False show ?thesis by simp
qed

lemma code_chunk_size: "0 \<le> S \<Longrightarrow> 0 < n \<Longrightarrow> (if go_rem S n \<noteq> 0 then go_quot S n + 1 else go_quot S n) = chunk_size n S"
  by (simp add: go_rem_nonneg go_quot_nonneg chunk_size_def)

lemma reduce_scatter_result:
  assumes ring: "0 \<le> ra_my_index rar" "ra_my_index rar < ra_total_n rar" "2 \<le> ra_total_n rar"
    and t: "wf_tensor t" "0 < tensor_size t"
  defines "ch \<equiv> own_chunk (ra_total_n rar) (ra_my_index rar) (tn_data t)"
  shows "reduce_scatter rar t =
    (if (ra_total_n rar - 1) * chunk_size (ra_total_n rar) (tensor_size t) \<le> tensor_size t
     then Ok (new_tensor_from_data ch [int (length ch)]) else Panic)"
proof -
  let ?n = "ra_total_n rar" and ?i = "ra_my_index rar" and ?S = "tensor_size t"
  let ?c = "chunk_size ?n ?S"
  have c: "0 < ?c" using chunk_size_pos ring t(2) by simp
  obtain z where z: "new_tensor (tn_shape t) = Ok z" "wf_tensor z" "tn_shape z = tn_shape t"
    using new_tensor_wf [OF wf_shape_nonneg [OF t(1)]] by blast
  have copied: "go_copy (tn_data z) (tn_data t) = tn_data t"
    using z t(1) by (intro go_copy_same) (simp add: wf_length)
  have start: "same_chunk ?i ?c t (z\<lparr>tn_data := go_copy (tn_data z) (tn_data t)\<rparr>)"
    using copied by (simp add: same_chunk_def)
  have code: "reduce_scatter rar t = obind (ofold (reduce_round rar ?c ?S) (go_range (?n - 1)) (z\<lparr>tn_data := go_copy (tn_data z) (tn_data t)\<rparr>)) (\<lambda>a.
      obind (go_slice (tn_data a) (?i * ?c) (chunk_end ?i ?c ?S)) (\<lambda>x. Ok (new_tensor_from_data x [int (length x)])))"
    using code_chunk_size [of ?S ?n] t(2) ring by (simp add: reduce_scatter_def z Let_def)
  show ?thesis
  proof (cases "(?n - 1) * ?c \<le> ?S")
    case True
    then obtain a where a: "ofold (reduce_round rar ?c ?S) (go_range (?n - 1)) (z\<lparr>tn_data := go_copy (tn_data z) (tn_data t)\<rparr>) = Ok a"
      "same_chunk ?i ?c t a" using reduce_rounds [OF ring c start] by auto
    have "?i * ?c \<le> (?n - 1) * ?c" using ring c by (intro mult_right_mono) auto
    then have "?i * ?c \<le> ?S" using True by (rule order_trans)
    then have le: "0 \<le> ?i * ?c" "?i * ?c \<le> chunk_end ?i ?c ?S" "chunk_end ?i ?c ?S \<le> ?S"
      using ring c by (simp_all add: chunk_end_min distrib_right)
    have S: "int (length (tn_data t)) = ?S" "int (length (tn_data a)) = ?S" using a(2) by (simp_all add: same_chunk_def tensor_size_def)
    let ?m = "nat (chunk_end ?i ?c ?S - ?i * ?c)"
    have "take ?m (drop (nat (?i * ?c)) (tn_data a)) = take ?m (drop (nat (?i * ?c)) (tn_data t))"
    proof (rule cut_eqI)
      show "length (tn_data a) = length (tn_data t)" "nat (?i * ?c) + ?m \<le> length (tn_data a)" using le S by linarith+
      fix p assume "nat (?i * ?c) \<le> p" "p < nat (?i * ?c) + ?m"
      then have "?i * ?c \<le> int p" "int p < chunk_end ?i ?c ?S" using le by linarith+
      then show "tn_data a ! p = tn_data t ! p" using a(2) by (simp add: same_chunk_def)
    qed
    also have "\<dots> = ch"
    proof -
      have "?m = min (nat ?c) (length (tn_data t) - nat (?i * ?c))"
        using le S c by (simp add: chunk_end_min min_def distrib_right) linarith
      then show ?thesis unfolding ch_def own_chunk_def Let_def S(1) by (simp add: min_def)
    qed
    finally have "go_slice (tn_data a) (?i * ?c) (chunk_end ?i ?c ?S) = (Ok ch :: (string, f32 list) outcome)"
      using le S by (simp add: go_slice_def)
    with True show ?thesis unfolding code a(1) by simp
  next
    case False
    then show ?thesis using reduce_rounds [OF ring c start] unfolding code by auto
  qed
qed

section \<open>The gathering rounds\<close>

text \<open>After round \<open>q\<close> the chunks received so far are copies of the own one.\<close>

definition gathered :: "int \<Rightarrow> int \<Rightarrow> f32 list \<Rightarrow> int \<Rightarrow> tensor \<Rightarrow> bool" where
  "gathered n i ch q a \<longleftrightarrow> length (tn_data a) = nat n * length ch \<and> tn_shape a = [int (length ch) * n] \<and> wf_tensor a \<and>
     (\<forall>r p. 0 \<le> r \<and> r \<le> q \<and> p < length ch \<longrightarrow> tn_data a ! (nat (ring_index n i r) * length ch + p) = ch ! p)"

lemma chunk_fits:
  assumes "0 \<le> k" "k < n"
  shows "nat k * m + m \<le> nat n * m"
proof -
  have "Suc (nat k) \<le> nat n" using assms by simp
  then have "Suc (nat k) * m \<le> nat n * m" by (rule mult_le_mono1)
  then show ?thesis by simp
qed

lemma splice_chunk:
  assumes len: "length d = nat n * length ch" and k: "0 \<le> k" "k < n" and j: "0 \<le> j" "j < n" and p: "p < length ch"
  shows "(take (nat k * length ch) d @ ch @ drop (nat k * length ch + length ch) d) ! (nat j * length ch + p) =
    (if j = k then ch ! p else d ! (nat j * length ch + p))"
proof -
  have bounds: "nat k * length ch + length ch \<le> length d" "nat j * length ch + p < length d"
    using chunk_fits [OF k, of "length ch"] chunk_fits [OF j, of "length ch"] p len by simp_all
  have "j = k" if "nat k * length ch \<le> nat j * length ch + p" "nat j * length ch + p < nat k * length ch + length ch"
  proof -
    have "(nat j * length ch + p) div length ch = nat k"
      using that p by (intro div_nat_eqI) (auto simp: mult.commute)
    moreover have "length ch \<noteq> 0" using p by auto
    then have "(nat j * length ch + p) div length ch = nat j" using p by simp
    ultimately show ?thesis using k j by simp
  qed
  then show ?thesis using splice_nth [OF bounds] p by auto
qed

lemma gather_round_result:
  assumes ring: "0 \<le> ra_my_index rar" "ra_my_index rar < ra_total_n rar" and q: "0 \<le> q" "q < ra_total_n rar - 1"
    and a: "gathered (ra_total_n rar) (ra_my_index rar) ch q a"
  shows "\<exists>b. gather_round rar (ra_my_index rar * int (length ch)) (int (length ch)) q a = Ok b \<and>
    gathered (ra_total_n rar) (ra_my_index rar) ch (q + 1) b"
proof -
  let ?n = "ra_total_n rar" and ?i = "ra_my_index rar" and ?m = "length ch" and ?k = "ring_index (ra_total_n rar) (ra_my_index rar) (q + 1)"
  have len: "length (tn_data a) = nat ?n * ?m" using a by (simp add: gathered_def)
  have k: "0 \<le> ?k" "?k < ?n" using ring_index_bounds [of ?n] ring by auto
  have rem: "go_rem (?i - q - 1 + ?n) ?n = ?k"
    using go_rem_ring [OF ring, of "q + 1"] q by (simp add: algebra_simps)
  have mul: "j * int ?m = int (nat j * ?m)" if "0 \<le> j" for j using that by simp
  have cut: "go_slice (tn_data a) (int (nat j * ?m)) (int (nat j * ?m) + int ?m) = (Ok (take ?m (drop (nat j * ?m) (tn_data a))) :: (string, f32 list) outcome)"
    if "0 \<le> j" "j < ?n" for j
    using chunk_fits [OF that, of ?m] len by (intro go_slice_nat) simp
  have own: "take ?m (drop (nat ?i * ?m) (tn_data a)) = ch"
  proof (rule nth_equalityI)
    show "length (take ?m (drop (nat ?i * ?m) (tn_data a))) = length ch"
      using chunk_fits [OF ring, of ?m] len by simp
    fix p assume "p < length (take ?m (drop (nat ?i * ?m) (tn_data a)))"
    then have p: "p < ?m" by simp
    then have "tn_data a ! (nat (ring_index ?n ?i 0) * ?m + p) = ch ! p" using a q(1) unfolding gathered_def by blast
    moreover have "nat ?i * ?m \<le> length (tn_data a)" using chunk_fits [OF ring, of ?m] len by linarith
    ultimately show "take ?m (drop (nat ?i * ?m) (tn_data a)) ! p = ch ! p"
      unfolding ring_index_0 [OF ring] by (simp only: nth_take [OF p] nth_drop)
  qed
  let ?d = "take (nat ?k * ?m) (tn_data a) @ ch @ drop (nat ?k * ?m + ?m) (tn_data a)"
  have nats: "nat (int (nat ?k * ?m)) = nat ?k * ?m" "nat (int (nat ?k * ?m) + int ?m) = nat ?k * ?m + ?m" by linarith+
  have dlen: "length ?d = length (tn_data a)" using chunk_fits [OF k, of ?m] len by (intro splice_length) simp
  have "gather_round rar (?i * int ?m) (int ?m) q a = Ok (a\<lparr>tn_data := ?d\<rparr>)"
    using cut [OF ring] cut [OF k] chunk_fits [OF k, of ?m] len
    by (simp only: gather_round_def Let_def rem mul ring(1) k(1) own nats)
      (simp add: go_make_def exchange_data_def go_copy_def)
  moreover have "?d ! (nat (ring_index ?n ?i r) * ?m + p) = ch ! p" if "0 \<le> r" "r \<le> q + 1" "p < ?m" for r p
  proof -
    have j: "0 \<le> ring_index ?n ?i r" "ring_index ?n ?i r < ?n" using ring_index_bounds [of ?n] ring by auto
    show ?thesis
    proof (cases "r = q + 1")
      case True
      then show ?thesis using splice_chunk [OF len k j that(3)] by simp
    next
      case False
      then show ?thesis using splice_chunk [OF len k j that(3)] a that by (auto simp: gathered_def)
    qed
  qed
  ultimately show ?thesis
    using a dlen wf_tensor_update [of a ?d] unfolding gathered_def by auto
qed

lemma gather_rounds:
  assumes ring: "0 \<le> ra_my_index rar" "ra_my_index rar < ra_total_n rar"
    and a: "gathered (ra_total_n rar) (ra_my_index rar) ch 0 a"
  shows "int k \<le> ra_total_n rar - 1 \<Longrightarrow>
    \<exists>b. ofold (gather_round rar (ra_my_index rar * int (length ch)) (int (length ch))) (go_range (int k)) a = Ok b \<and>
      gathered (ra_total_n rar) (ra_my_index rar) ch (int k) b"
proof (induction k)
  case (Suc k)
  then obtain b where b: "ofold (gather_round rar (ra_my_index rar * int (length ch)) (int (length ch))) (go_range (int k)) a = Ok b"
    "gathered (ra_total_n rar) (ra_my_index rar) ch (int k) b" by auto
  from gather_round_result [OF ring _ _ b(2)] Suc.prems obtain b' where
    "gather_round rar (ra_my_index rar * int (length ch)) (int (length ch)) (int k) b = Ok b'"
    "gathered (ra_total_n rar) (ra_my_index rar) ch (int k + 1) b'" by auto
  with b(1) show ?case by (simp only: go_range_Suc ofold_append) (simp add: add.commute)
qed (use a in simp)

lemma gathered_all:
  assumes "0 \<le> i" "i < n" "gathered n i ch (n - 1) a"
  shows "tn_data a = concat (replicate (nat n) ch)"
proof (rule nth_equalityI)
  show len: "length (tn_data a) = length (concat (replicate (nat n) ch))"
    using assms by (simp add: gathered_def length_concat sum_list_replicate)
  fix P assume "P < length (tn_data a)"
  then have P: "P < nat n * length ch" using assms by (simp add: gathered_def)
  then have m: "0 < length ch" by (cases ch) auto
  have "P div length ch < nat n" using P m by (simp add: less_mult_imp_div_less)
  then have k: "0 \<le> int (P div length ch)" "int (P div length ch) < n" by linarith+
  obtain q where q: "0 \<le> q" "q < n" "ring_index n i q = int (P div length ch)"
    using ring_index_onto [OF assms(1,2) k] by blast
  have "0 \<le> q \<and> q \<le> n - 1 \<and> P mod length ch < length ch" using q m by simp
  then have "tn_data a ! (nat (ring_index n i q) * length ch + P mod length ch) = ch ! (P mod length ch)"
    using assms(3) unfolding gathered_def by blast
  then show "tn_data a ! P = concat (replicate (nat n) ch) ! P"
    unfolding q(3) nat_int div_mult_mod_eq using nth_concat_replicate [OF P] by simp
qed

lemma all_gather_result:
  assumes ring: "0 \<le> ra_my_index rar" "ra_my_index rar < ra_total_n rar" "2 \<le> ra_total_n rar"
  shows "all_gather rar (new_tensor_from_data ch [int (length ch)]) =
    Ok (new_tensor_from_data (concat (replicate (nat (ra_total_n rar)) ch)) [int (length ch) * ra_total_n rar])"
proof -
  let ?n = "ra_total_n rar" and ?i = "ra_my_index rar" and ?m = "length ch"
  have "\<forall>d \<in> set [int ?m * ?n]. 0 \<le> d" using ring by simp
  from new_tensor_wf [OF this] obtain z where z: "new_tensor [int ?m * ?n] = Ok z" "wf_tensor z" "tn_shape z = [int ?m * ?n]"
    "tn_data z = replicate (nat (int ?m * ?n)) f32_zero" by auto
  have len: "length (tn_data z) = nat ?n * ?m" using z(4) ring by (simp add: nat_mult_distrib mult.commute)
  have size: "tensor_size (new_tensor_from_data ch [int ?m]) = int ?m" "tn_data (new_tensor_from_data ch [int ?m]) = ch"
    by (simp_all add: tensor_size_def new_tensor_from_data_def)
  have mul: "?i * int ?m = int (nat ?i * ?m)" using ring by simp
  have nats: "nat (int (nat ?i * ?m)) = nat ?i * ?m" "nat (int (nat ?i * ?m) + int ?m) = nat ?i * ?m + ?m" by linarith+
  have fit: "nat ?i * ?m + ?m \<le> length (tn_data z)" using chunk_fits [OF ring(1,2), of ?m] len by simp
  let ?d = "take (nat ?i * ?m) (tn_data z) @ ch @ drop (nat ?i * ?m + ?m) (tn_data z)"
  have copy: "go_copy (take ?m (drop (nat ?i * ?m) (tn_data z))) ch = ch"
    using fit by (intro go_copy_same) simp
  have code: "all_gather rar (new_tensor_from_data ch [int ?m]) =
      ofold (gather_round rar (?i * int ?m) (int ?m)) (go_range (?n - 1)) (z\<lparr>tn_data := ?d\<rparr>)"
    using ring(3) go_slice_nat [OF fit, where 'b = string]
    unfolding all_gather_def Let_def size z(1) obind.simps unfolding mul nats by (simp add: copy)
  have dlen: "length ?d = length (tn_data z)" by (rule splice_length [OF fit])
  have "gathered ?n ?i ch 0 (z\<lparr>tn_data := ?d\<rparr>)"
    unfolding gathered_def
  proof (intro conjI allI impI)
    show "length (tn_data (z\<lparr>tn_data := ?d\<rparr>)) = nat ?n * ?m" using dlen len by simp
    show "wf_tensor (z\<lparr>tn_data := ?d\<rparr>)" by (rule wf_tensor_update [OF z(2) dlen])
    fix r :: int and p assume "0 \<le> r \<and> r \<le> 0 \<and> p < ?m"
    then have "r = 0" "p < ?m" by auto
    then show "tn_data (z\<lparr>tn_data := ?d\<rparr>) ! (nat (ring_index ?n ?i r) * ?m + p) = ch ! p"
      using splice_chunk [OF len ring(1,2) ring(1,2)] ring_index_0 [OF ring(1,2)] by simp
  qed (simp add: z(3))
  from gather_rounds [OF ring(1,2) this, of "nat (?n - 1)"] ring obtain b where
    b: "all_gather rar (new_tensor_from_data ch [int ?m]) = Ok b" "gathered ?n ?i ch (?n - 1) b"
    unfolding code by auto
  have "b = new_tensor_from_data (concat (replicate (nat ?n) ch)) [int ?m * ?n]"
    using gathered_all [OF ring(1,2) b(2)] b(2) by (simp add: gathered_def wf_tensor_def new_tensor_from_data_def)
  with b show ?thesis by simp
qed

text \<open>
  The ring all-reduce does not reduce. On a ring of at least two members it either panics, when the chunks
  rounded up leave the last member outside the data, or returns the chunk of the local data at the
  member's own index, repeated once per member: no value of another member and no other chunk of its own.
\<close>

theorem all_reduce_repeats_chunk:
  assumes "0 \<le> ra_my_index rar" "ra_my_index rar < ra_total_n rar" "2 \<le> ra_total_n rar" "wf_tensor t" "0 < tensor_size t"
  defines "ch \<equiv> own_chunk (ra_total_n rar) (ra_my_index rar) (tn_data t)"
  shows "all_reduce rar t =
    (if (ra_total_n rar - 1) * chunk_size (ra_total_n rar) (tensor_size t) \<le> tensor_size t
     then Ok (new_tensor_from_data (concat (replicate (nat (ra_total_n rar)) ch)) [int (length ch) * ra_total_n rar])
     else Panic)"
  using reduce_scatter_result [OF assms(1-5)] all_gather_result [OF assms(1-3)] assms(3,5)
  by (simp add: all_reduce_def ch_def)

theorem all_reduce_repeats_chunk_witness:
  "all_reduce (new_ring_all_reduce [''a'', ''b''] 0) (new_tensor_from_data [F64 1 0, F64 2 0, F64 3 0, F64 4 0] [4]) =
    Ok (new_tensor_from_data [F64 1 0, F64 2 0, F64 1 0, F64 2 0] [4])"
proof -
  let ?rar = "new_ring_all_reduce [''a'', ''b''] 0" and ?t = "new_tensor_from_data [F64 1 0, F64 2 0, F64 3 0, F64 4 0] [4]"
  have "wf_tensor ?t" "0 < tensor_size ?t" "0 \<le> ra_my_index ?rar" "ra_my_index ?rar < ra_total_n ?rar" "2 \<le> ra_total_n ?rar"
    by (simp_all add: wf_tensor_def new_tensor_from_data_def tensor_size_def new_ring_all_reduce_def)
  from all_reduce_repeats_chunk [OF this(3-5) this(1,2)] show ?thesis
    by (simp add: new_ring_all_reduce_def new_tensor_from_data_def tensor_size_def chunk_size_def own_chunk_def numeral_2_eq_2)
qed

end
