(* ===== verification/PrivacyProps.thy ===== *)
theory PrivacyProps
  imports Privacy
begin

text \<open>
  Secret sharing is correct and perfectly secret: all shares, in any order, give the data back, and any
  shares but all of them are those of every other data of the same length, for other random bytes. An
  encrypted share decrypts to itself.
\<close>

definition pack_shares :: "int \<Rightarrow> byte list list \<Rightarrow> byte list \<Rightarrow> secret_share list" where
  "pack_shares n rs data = map2 plain_share (map (\<lambda>i. i + 1) (go_range (n - 1))) rs @
     [plain_share n (fold (\<lambda>share l. xor_into l share) rs data)]"

lemma split_secret_Ok:
  "split_secret rnd data n = Ok shares \<longleftrightarrow> 2 \<le> n \<and> (\<exists>rs. length rs = nat (n - 1) \<and>
     (\<forall>i < nat (n - 1). rnd i (length data) = Some (rs ! i)) \<and> shares = pack_shares n rs data)"
proof (cases "2 \<le> n")
  case True
  have "random_shares rnd (length data) (n - 1) = Ok rs \<longleftrightarrow> length rs = nat (n - 1) \<and>
      (\<forall>i < nat (n - 1). rnd i (length data) = Some (rs ! i))" for rs
    by (auto simp: random_shares_def omap_Ok_iff go_range_nth split: option.splits)
  then show ?thesis using True by (auto simp: split_secret_def obind_Ok_iff pack_shares_def Let_def)
qed (simp add: split_secret_def)

lemma length_pack_shares: "2 \<le> n \<Longrightarrow> length rs = nat (n - 1) \<Longrightarrow> length (pack_shares n rs data) = nat n"
  by (simp add: pack_shares_def)

lemma map2_share_data: "length xs = length ys \<Longrightarrow> map ss_data (map2 plain_share xs ys) = ys"
  by (induction xs ys rule: list_induct2) (simp_all add: plain_share_def)

lemma reads_length:
  assumes "reader_ok rnd" "length rs = k" "\<forall>i < k. rnd i n = Some (rs ! i)"
  shows "\<forall>s \<in> set rs. length s = n"
proof
  fix s assume "s \<in> set rs"
  then obtain i where "i < k" "s = rs ! i" using assms(2) by (auto simp: in_set_conv_nth)
  then show "length s = n" using assms(1,3) unfolding reader_ok_def by blast
qed

lemma pack_shares_data: "length rs = nat (n - 1) \<Longrightarrow>
    map ss_data (pack_shares n rs data) = rs @ [fold (\<lambda>share l. xor_into l share) rs data]"
  unfolding pack_shares_def map_append by (subst map2_share_data) (simp_all add: plain_share_def)

lemma pack_shares_nth:
  "length rs = nat (n - 1) \<Longrightarrow> i < nat (n - 1) \<Longrightarrow> pack_shares n rs data ! i = plain_share (int i + 1) (rs ! i)"
  by (simp add: pack_shares_def nth_append go_range_nth)

lemma pack_shares_last:
  "2 \<le> n \<Longrightarrow> length rs = nat (n - 1) \<Longrightarrow>
     pack_shares n rs data ! nat (n - 1) = plain_share n (fold (\<lambda>share l. xor_into l share) rs data)"
  by (simp add: pack_shares_def nth_append)

text \<open>
  Splitting data into shares and reconstructing it from all of them, in any order, gives the data back.
\<close>

theorem secret_roundtrip:
  assumes "reader_ok rnd" "split_secret rnd data n = Ok shares" "mset shares' = mset shares"
  shows "reconstruct_secret shares' = Ok data"
proof -
  obtain rs where n: "2 \<le> n" and rs: "length rs = nat (n - 1)" "\<forall>i < nat (n - 1). rnd i (length data) = Some (rs ! i)"
    and shares: "shares = pack_shares n rs data"
    using assms(2) by (auto simp: split_secret_Ok)
  let ?L = "length data" and ?last = "fold (\<lambda>share l. xor_into l share) rs data"
  have len: "\<forall>s \<in> set rs. length s = ?L"
    by (rule reads_length [OF assms(1) rs])
  have last: "length ?last = ?L" "\<forall>j < ?L. ?last ! j = data ! j XOR xor_all (map (\<lambda>s. s ! j) rs)"
    using fold_xor_into [OF len] by auto
  have datas: "map ss_data shares = rs @ [?last]" by (simp add: shares pack_shares_data rs(1))
  have "\<forall>s \<in> set shares. length (ss_data s) = ?L"
  proof
    fix s assume "s \<in> set shares"
    then have "ss_data s \<in> set (map ss_data shares)" by simp
    then have "ss_data s \<in> set rs \<or> ss_data s = ?last" unfolding datas by auto
    then show "length (ss_data s) = ?L" using len last(1) by metis
  qed
  moreover have "set shares' = set shares" using assms(3) by (rule mset_eq_setD)
  moreover have "shares' \<noteq> []" using assms(3) n rs(1) by (auto simp: shares pack_shares_def)
  ultimately obtain d where d: "reconstruct_secret shares' = Ok d" "length d = ?L"
    "\<forall>j < ?L. d ! j = xor_all (map (\<lambda>s. ss_data s ! j) shares')"
    using reconstruct_nth [of shares' ?L] by auto
  have "d ! j = data ! j" if "j < ?L" for j
  proof -
    have "mset (map (\<lambda>s. ss_data s ! j) shares') = mset (map (\<lambda>s. ss_data s ! j) shares)" using assms(3) by simp
    then have "d ! j = xor_all (map (\<lambda>s. ss_data s ! j) shares)" using d(3) that xor_all_mset by metis
    also have "map (\<lambda>s. ss_data s ! j) shares = map (\<lambda>d. d ! j) (map ss_data shares)" by simp
    also have "xor_all (map (\<lambda>d. d ! j) (map ss_data shares)) = data ! j"
      unfolding datas using last(2) that by (simp add: xor.left_commute)
    finally show ?thesis .
  qed
  with d show ?thesis by (simp add: list_eq_iff_nth_eq)
qed

theorem secret_roundtrip_witness:
  "\<exists>shares. split_secret (\<lambda>i n. Some (replicate n 7)) [1, 2] 2 = Ok shares \<and> reconstruct_secret (rev shares) = Ok [1, 2]"
proof -
  have ok: "reader_ok (\<lambda>i n. Some (replicate n 7))" by (simp add: reader_ok_def)
  have "split_secret (\<lambda>i n. Some (replicate n 7)) [1, 2] 2 = Ok (pack_shares 2 [[7, 7]] [1, 2])"
    by (subst split_secret_Ok) (auto intro!: exI [of _ "[[7, 7]]"] simp: numeral_2_eq_2)
  with secret_roundtrip [OF ok this, of "rev (pack_shares 2 [[7, 7]] [1, 2])"] show ?thesis by auto
qed

text \<open>
  C14: All shares but one say nothing about the data: for every other data of the same length there are random
  bytes for which splitting it yields the very same shares, up to the missing one.
\<close>

theorem secret_hidden:
  assumes "reader_ok rnd" "split_secret rnd data n = Ok shares" "j < length shares" "length data' = length data"
  shows "\<exists>rnd' shares'. reader_ok rnd' \<and> split_secret rnd' data' n = Ok shares' \<and> length shares' = length shares \<and>
    (\<forall>i < length shares. i \<noteq> j \<longrightarrow> shares' ! i = shares ! i)"
proof -
  obtain rs where n: "2 \<le> n" and rs: "length rs = nat (n - 1)" "\<forall>i < nat (n - 1). rnd i (length data) = Some (rs ! i)"
    and shares: "shares = pack_shares n rs data"
    using assms(2) by (auto simp: split_secret_Ok)
  have L: "\<forall>s \<in> set rs. length s = length data"
    by (rule reads_length [OF assms(1) rs])
  have len: "length shares = nat n" using length_pack_shares [OF n rs(1)] shares by simp
  show ?thesis
  proof (cases "j = nat (n - 1)")
    case True
    have "split_secret rnd data' n = Ok (pack_shares n rs data')" using n rs assms(4) by (auto simp: split_secret_Ok)
    moreover have "pack_shares n rs data' ! i = shares ! i" if "i < length shares" "i \<noteq> j" for i
      using that True len n pack_shares_nth [OF rs(1), of i] unfolding shares by simp
    ultimately show ?thesis using assms(1) length_pack_shares [OF n rs(1)] shares by metis
  next
    case False
    then have j: "j < nat (n - 1)" using assms(3) len by linarith
    define r' where "r' = xor_into (xor_into (rs ! j) data) data'"
    define rs' where "rs' = rs[j := r']"
    define rnd' where "rnd' = (\<lambda>i m. if i = j \<and> m = length data then Some r' else rnd i m)"
    have r': "length r' = length data" using L j rs(1) assms(4) by (simp add: r'_def)
    have rs': "length rs' = nat (n - 1)" "\<forall>s \<in> set rs'. length s = length data'"
      using rs(1) L r' assms(4) set_update_subset_insert [of rs j r'] by (auto simp: rs'_def)
    have "reader_ok rnd'" using assms(1) r' by (simp add: reader_ok_def rnd'_def)
    moreover have "split_secret rnd' data' n = Ok (pack_shares n rs' data')"
      unfolding split_secret_Ok
    proof (intro conjI exI [of _ rs'] allI impI)
      fix i assume "i < nat (n - 1)"
      then show "rnd' i (length data') = Some (rs' ! i)"
        using rs assms(4) by (auto simp: rnd'_def rs'_def nth_list_update)
    qed (use n rs'(1) in simp_all)
    moreover have "pack_shares n rs' data' ! i = shares ! i" if i: "i < length shares" "i \<noteq> j" for i
    proof (cases "i = nat (n - 1)")
      case True
      have "fold (\<lambda>share l. xor_into l share) rs' data' ! p = fold (\<lambda>share l. xor_into l share) rs data ! p" if p: "p < length data" for p
      proof -
        have split: "rs = take j rs @ rs ! j # drop (Suc j) rs" "rs' = take j rs @ r' # drop (Suc j) rs"
          using j rs(1) by (simp_all add: id_take_nth_drop rs'_def upd_conv_take_nth_drop)
        have "r' ! p = rs ! j ! p XOR data ! p XOR data' ! p"
          using p L j rs(1) assms(4) by (simp add: r'_def xor_into_def xor.assoc)
        then have "data' ! p XOR xor_all (map (\<lambda>s. s ! p) rs') = data ! p XOR xor_all (map (\<lambda>s. s ! p) rs)"
          by (subst split(2), subst split(1)) (simp add: xor.assoc xor.commute xor.left_commute)
        with fold_xor_into [OF rs'(2)] fold_xor_into [OF L] p assms(4) show ?thesis by simp
      qed
      then have "fold (\<lambda>share l. xor_into l share) rs' data' = fold (\<lambda>share l. xor_into l share) rs data"
        using fold_xor_into [OF rs'(2)] fold_xor_into [OF L] assms(4) by (intro nth_equalityI) simp_all
      with True n rs(1) rs'(1) show ?thesis unfolding shares by (simp add: pack_shares_last)
    next
      case False
      then have "i < nat (n - 1)" using i len by linarith
      then show ?thesis using i rs(1) rs'(1) unfolding shares by (simp add: pack_shares_nth) (simp add: rs'_def)
    qed
    ultimately show ?thesis using length_pack_shares [OF n rs'(1)] len by metis
  qed
qed

theorem secret_hidden_witness:
  "\<exists>rnd' shares'. split_secret rnd' [9, 9] 2 = Ok shares' \<and> shares' ! 0 = plain_share 1 [7, 7]"
proof -
  have ok: "reader_ok (\<lambda>i n. Some (replicate n 7))" by (simp add: reader_ok_def)
  have split: "split_secret (\<lambda>i n. Some (replicate n 7)) [1, 2] 2 = Ok (pack_shares 2 [[7, 7]] [1, 2])"
    by (subst split_secret_Ok) (auto intro!: exI [of _ "[[7, 7]]"] simp: numeral_2_eq_2)
  have len: "length (pack_shares 2 [[7, 7]] [1, 2]) = 2" by (simp add: length_pack_shares)
  have "pack_shares 2 [[7, 7]] [1, 2] ! 0 = plain_share 1 [7, 7]" by (simp add: pack_shares_nth)
  with secret_hidden [OF ok split, of 1 "[9, 9]"] len show ?thesis by fastforce
qed

text \<open>
  A share that \<open>EncryptShare\<close> has encrypted is decrypted by \<open>DecryptShare\<close> to the share's data, with the
  key and nonce it carries; keys of a length AES does not know are refused.
\<close>

theorem share_encryption_roundtrip:
  assumes "\<And>k nonce p. unseal k nonce (seal k nonce p) = Some p" "reader_ok rnd" "rnd 0 12 = Some nonce"
  shows "if aes_key_ok key
    then \<exists>e. encrypt_share rnd seal key s = Ok e \<and> ss_index e = ss_index s \<and>
      decrypt_share unseal e = Ok (s\<lparr>ss_nonce := Some nonce, ss_key := Some key\<rparr>)
    else encrypt_share rnd seal key s = Err AesCipher"
  using assms by (auto simp: encrypt_share_def decrypt_share_def reader_ok_def)

theorem share_encryption_roundtrip_witness:
  "\<exists>e. encrypt_share (\<lambda>i n. Some (replicate n 0)) (\<lambda>k n p. rev p) (replicate 32 1) (plain_share 1 [5, 6]) = Ok e \<and>
     decrypt_share (\<lambda>k n c. Some (rev c)) e =
       Ok (plain_share 1 [5, 6]\<lparr>ss_nonce := Some (replicate 12 0), ss_key := Some (replicate 32 1)\<rparr>)"
proof -
  have "reader_ok (\<lambda>i n. Some (replicate n 0))" "aes_key_ok (replicate 32 1)" by (simp_all add: reader_ok_def aes_key_ok_def)
  with share_encryption_roundtrip [of "\<lambda>k n c. Some (rev c)" "\<lambda>k n p. rev p" "\<lambda>i n. Some (replicate n 0)" "replicate 12 0"
      "replicate 32 1" "plain_share 1 [5, 6]"] show ?thesis by auto
qed

end
