(* ===== verification/CoordinatorProps.thy ===== *)
theory CoordinatorProps
  imports Coordinator AllReduceProps PrivacyProps
begin

text \<open>
  What a session of the coordinator does: it applies every layer in turn, keeps a checkpoint at each multiple of
  the interval, and credits layer \<open>l\<close> to the miner at position \<open>l\<close> modulo the number of shards, whatever
  layers the plan has given that miner. Recovery marks the failed miner and changes nothing else.
\<close>

section \<open>One layer\<close>

definition scaled :: "tensor \<Rightarrow> tensor" where
  "scaled t = t\<lparr>tn_data := map (\<lambda>x. f32_mul x layer_factor) (tn_data t)\<rparr>"

lemma scaled_shape [simp]: "tn_shape (scaled t) = tn_shape t"
  by (simp add: scaled_def)

lemma scaled_wf: "wf_tensor t \<Longrightarrow> wf_tensor (scaled t)"
  by (simp add: scaled_def wf_tensor_update)

lemma simulate_layer_forward_eq:
  assumes "wf_tensor t" "tn_shape t = [h]"
  shows "simulate_layer_forward t = Ok (scaled t)"
proof -
  obtain r where r: "tensor_fill [h] (\<lambda>i. obind (go_index (tn_data t) i) (\<lambda>x. Ok (f32_mul x layer_factor))) = Ok r"
    "wf_tensor r" "tn_shape r = [h]" "tn_data r = map (\<lambda>x. f32_mul x layer_factor) (tn_data t)"
    using tensor_scale_wf [OF assms(1), of layer_factor] by (auto simp: tensor_scale_def assms(2))
  have "r = scaled t"
    using r assms by (simp add: scaled_def wf_tensor_def)
  with r(1) show ?thesis by (simp add: simulate_layer_forward_def assms(2) go_index_def)
qed

definition layers_forward :: "nat \<Rightarrow> tensor \<Rightarrow> tensor" where
  "layers_forward l t = (scaled ^^ l) t"

lemma layers_forward_simps: "layers_forward 0 t = t" "layers_forward (Suc l) t = scaled (layers_forward l t)"
  by (simp_all add: layers_forward_def)

lemma layers_forward_ok: "wf_tensor t \<Longrightarrow> wf_tensor (layers_forward l t) \<and> tn_shape (layers_forward l t) = tn_shape t"
  by (induction l) (simp_all add: layers_forward_simps scaled_wf)

section \<open>The layers of a session\<close>

fun credited :: "nat \<Rightarrow> nat \<Rightarrow> nat \<Rightarrow> nat" where
  "credited n 0 i = 0"
| "credited n (Suc l) i = (if l mod n = i then Suc l else credited n l i)"

text \<open>The last layer below \<open>l\<close> with remainder \<open>i\<close>, plus one.\<close>

lemma credited_eq: "i < n \<Longrightarrow> credited n l i = (if l \<le> i then 0 else l - (l - 1 - i) mod n)"
proof (induction l)
  case (Suc l)
  show ?case
  proof (cases "l \<le> i")
    case True
    with Suc show ?thesis by (auto simp: le_less)
  next
    case False
    then obtain m where l: "l = i + Suc m" using less_imp_Suc_add [of i l] by auto
    have "l mod n = i \<longleftrightarrow> Suc m mod n = 0"
    proof -
      define x where "x = Suc m mod n"
      have "l mod n = (i + x) mod n" by (simp add: l x_def mod_add_right_eq)
      moreover have "x < n" using Suc.prems by (simp add: x_def)
      ultimately have "l mod n = i \<longleftrightarrow> x = 0" using Suc.prems by (cases "i + x < n") (auto simp: le_mod_geq)
      then show ?thesis by (simp add: x_def)
    qed
    then show ?thesis using Suc l by (auto simp: mod_Suc)
  qed
qed simp

lemma pipeline_forward_append:
  "pipeline_forward now stop (xs @ ys) t c =
    obind (pipeline_forward now stop xs t c) (\<lambda>(r, c'). case r of Inl e \<Rightarrow> Ok (Inl e, c') | Inr t' \<Rightarrow> pipeline_forward now stop ys t' c')"
proof (induction xs arbitrary: t c)
  case (Cons x xs)
  show ?case
    by (cases "go_index (pl_shards (co_plan c)) (go_rem x (int (length (pl_shards (co_plan c))))) :: (string, shard_assignment) outcome";
        cases "simulate_layer_forward t"; cases "stop x") (simp_all add: Cons.IH Let_def)
qed simp

definition session_at :: "(int \<Rightarrow> int) \<Rightarrow> tensor \<Rightarrow> coordinator \<Rightarrow> nat \<Rightarrow> coordinator \<Rightarrow> bool" where
  "session_at now t c0 l c \<longleftrightarrow> co_plan c = co_plan c0 \<and> co_ring c = co_ring c0 \<and> co_checkpoint_interval c = co_checkpoint_interval c0 \<and>
     (\<forall>j. co_checkpoints c j = (if 0 < j \<and> j < int l \<and> j mod co_checkpoint_interval c0 = 0
        then Some \<lparr>cp_layer_index = j, cp_activation = layers_forward (nat j) t, cp_timestamp = now j\<rparr> else None)) \<and>
     (\<forall>i < length (pl_shards (co_plan c0)). \<exists>s. co_miner_states c (sa_miner_id (pl_shards (co_plan c0) ! i)) = Some s \<and>
        mst_status s = miner_waiting \<and> mst_layers_completed s = int (credited (length (pl_shards (co_plan c0))) l i))"

lemma progress_states:
  assumes "co_miner_states c a = Some s"
  shows "co_miner_states (record_progress a l c) = (co_miner_states c)(a \<mapsto> s\<lparr>mst_layers_completed := l + 1\<rparr>)"
    "co_plan (record_progress a l c) = co_plan c" "co_ring (record_progress a l c) = co_ring c"
    "co_checkpoint_interval (record_progress a l c) = co_checkpoint_interval c"
    "co_checkpoints (record_progress a l c) = co_checkpoints c"
  using assms by (simp_all add: record_progress_def)

lemma checkpoint_fields:
  "co_plan (add_checkpoint w l t c) = co_plan c" "co_ring (add_checkpoint w l t c) = co_ring c"
  "co_checkpoint_interval (add_checkpoint w l t c) = co_checkpoint_interval c"
  "co_miner_states (add_checkpoint w l t c) = co_miner_states c"
  by (simp_all add: add_checkpoint_def)

lemma session_layer:
  assumes c: "session_at now t c0 l c" and ids: "distinct (map sa_miner_id (pl_shards (co_plan c0)))" "pl_shards (co_plan c0) \<noteq> []"
    and interval: "0 < co_checkpoint_interval c0" and t: "wf_tensor t" "tn_shape t = [h]" and "\<not> stop (int l)"
  shows "\<exists>c'. pipeline_forward now stop [int l] (layers_forward l t) c = Ok (Inr (layers_forward (Suc l) t), c') \<and>
    session_at now t c0 (Suc l) c'"
proof -
  let ?shards = "pl_shards (co_plan c0)" and ?k = "co_checkpoint_interval c0"
  let ?n = "length ?shards" and ?ids = "\<lambda>i. sa_miner_id (pl_shards (co_plan c0) ! i)"
  let ?i = "l mod ?n"
  have n: "0 < ?n" "?i < ?n" using ids(2) by simp_all
  have plan: "co_plan c = co_plan c0" "co_checkpoint_interval c = ?k" using c by (simp_all add: session_at_def)
  have "go_rem (int l) (int ?n) = int ?i" using n by (simp add: go_rem_nonneg zmod_int)
  then have idx: "go_index ?shards (go_rem (int l) (int ?n)) = (Ok (?shards ! ?i) :: (string, shard_assignment) outcome)"
    using n by (simp add: go_index_def)
  have remk: "go_rem (int l) ?k = int l mod ?k" using interval by (simp add: go_rem_nonneg)
  define c1 where "c1 = (if int l mod ?k = 0 \<and> int l > 0 then add_checkpoint (now (int l)) (int l) (layers_forward l t) c else c)"
  have c1: "co_plan c1 = co_plan c" "co_ring c1 = co_ring c" "co_checkpoint_interval c1 = co_checkpoint_interval c"
    "co_miner_states c1 = co_miner_states c" by (simp_all add: c1_def checkpoint_fields)
  obtain s where s: "co_miner_states c (?ids ?i) = Some s" "mst_status s = miner_waiting"
    using c n(2) by (auto simp: session_at_def)
  define c' where "c' = record_progress (?ids ?i) (int l) c1"
  have c': "co_miner_states c' = (co_miner_states c)(?ids ?i \<mapsto> s\<lparr>mst_layers_completed := int l + 1\<rparr>)"
    "co_plan c' = co_plan c" "co_ring c' = co_ring c" "co_checkpoint_interval c' = co_checkpoint_interval c"
    "co_checkpoints c' = co_checkpoints c1"
    using progress_states [of c1 "?ids ?i" s "int l"] s(1) c1 by (simp_all add: c'_def)
  have "simulate_layer_forward (layers_forward l t) = Ok (layers_forward (Suc l) t)"
    using simulate_layer_forward_eq [of "layers_forward l t" h] layers_forward_ok [OF t(1)] t(2)
    by (simp add: layers_forward_simps)
  then have "pipeline_forward now stop [int l] (layers_forward l t) c = Ok (Inr (layers_forward (Suc l) t), c')"
    using n(1) idx assms(7) interval remk unfolding c'_def c1_def by (simp add: plan Let_def)
  moreover have "session_at now t c0 (Suc l) c'"
  proof -
    have "co_checkpoints c1 j = (if 0 < j \<and> j < int (Suc l) \<and> j mod ?k = 0
        then Some \<lparr>cp_layer_index = j, cp_activation = layers_forward (nat j) t, cp_timestamp = now j\<rparr> else None)" for j
      using c by (cases "j = int l") (auto simp: session_at_def c1_def add_checkpoint_def)
    moreover have "\<exists>s. co_miner_states c' (?ids i) = Some s \<and> mst_status s = miner_waiting \<and>
        mst_layers_completed s = int (credited ?n (Suc l) i)" if i: "i < ?n" for i
    proof (cases "i = ?i")
      case True
      then show ?thesis using s(2) by (simp add: c'(1))
    next
      case False
      then have "?ids i \<noteq> ?ids ?i" using ids(1) i n(2) by (simp add: distinct_conv_nth)
      with c i False show ?thesis by (simp add: c'(1) session_at_def)
    qed
    ultimately show ?thesis
      using c c' unfolding session_at_def by (simp del: credited.simps)
  qed
  ultimately show ?thesis by blast
qed

lemma session_run:
  assumes c: "session_at now t c0 0 c" and ids: "distinct (map sa_miner_id (pl_shards (co_plan c0)))" "pl_shards (co_plan c0) \<noteq> []"
    and interval: "0 < co_checkpoint_interval c0" and t: "wf_tensor t" "tn_shape t = [h]" and stop: "\<forall>l. \<not> stop l"
  shows "\<exists>c'. pipeline_forward now stop (go_range (int l)) t c = Ok (Inr (layers_forward l t), c') \<and> session_at now t c0 l c'"
proof (induction l)
  case 0
  with c show ?case by (simp add: layers_forward_simps)
next
  case (Suc l)
  then obtain c' where c': "pipeline_forward now stop (go_range (int l)) t c = Ok (Inr (layers_forward l t), c')" "session_at now t c0 l c'"
    by blast
  have "\<not> stop (int l)" using stop by blast
  from session_layer [where stop = stop, OF c'(2) ids interval t this] obtain c'' where
    c'': "pipeline_forward now stop [int l] (layers_forward l t) c' = Ok (Inr (layers_forward (Suc l) t), c'')"
    "session_at now t c0 (Suc l) c''" by blast
  have "pipeline_forward now stop (go_range (int (Suc l))) t c = Ok (Inr (layers_forward (Suc l) t), c'')"
    by (simp only: go_range_Suc pipeline_forward_append c'(1) c''(1) obind.simps prod.case sum.case)
  with c''(2) show ?case by blast
qed

section \<open>Sessions and plans\<close>

lemma fold_states:
  assumes "distinct (map sa_miner_id ss)" "i < length ss"
  shows "fold (\<lambda>shard m. m(sa_miner_id shard \<mapsto> initial_state shard)) ss m (sa_miner_id (ss ! i)) = Some (initial_state (ss ! i))"
  using assms
proof (induction ss arbitrary: i m)
  case (Cons s ss)
  have other: "a \<notin> sa_miner_id ` set xs \<Longrightarrow> fold (\<lambda>shard m. m(sa_miner_id shard \<mapsto> initial_state shard)) xs m a = m a" for xs m a
    by (induction xs arbitrary: m) auto
  show ?case
  proof (cases i)
    case 0
    have "sa_miner_id s \<notin> sa_miner_id ` set ss" using Cons.prems by simp
    from other [OF this, of "m(sa_miner_id s \<mapsto> initial_state s)"] 0 show ?thesis
      by (simp del: fun_upd_apply add: fun_upd_same)
  next
    case (Suc j)
    with Cons show ?thesis by simp
  qed
qed simp

text \<open>
  A session over a valid plan with distinct miners, a positive checkpoint interval and a vector as input
  runs all layers and completes. Its result is the input passed through every layer; it keeps a checkpoint
  with the activation at each positive multiple of the interval; and it credits the layers round robin: miner \<open>i\<close>
  ends with the last layer whose remainder modulo the number of miners is \<open>i\<close>, not with its layers of the plan.
\<close>

theorem session_round_robin:
  assumes "new_coordinator tk plan cfg = Ok c0" "distinct (map sa_miner_id (pl_shards plan))" "pl_shards plan \<noteq> []"
    and "0 < cf_checkpoint_interval cfg" "wf_tensor t" "tn_shape t = [h]" "\<forall>l. \<not> stop l" "sc_num_layers (pl_config plan) = int N"
  defines "n \<equiv> length (pl_shards plan)"
  shows "\<exists>c. execute_session start now stop t c0 = Ok (Inr (layers_forward N t), c) \<and> co_status c = session_completed
    \<and> (\<forall>j. co_checkpoints c j = (if 0 < j \<and> j < int N \<and> j mod cf_checkpoint_interval cfg = 0
        then Some \<lparr>cp_layer_index = j, cp_activation = layers_forward (nat j) t, cp_timestamp = now j\<rparr> else None))
    \<and> (\<forall>i < n. \<exists>s. co_miner_states c (sa_miner_id (pl_shards plan ! i)) = Some s \<and>
        mst_layers_completed s = int (if N \<le> i then 0 else N - (N - 1 - i) mod n))"
proof -
  have c0: "co_plan c0 = plan" "co_ring c0 = None" "co_checkpoints c0 = Map.empty" "co_checkpoint_interval c0 = cf_checkpoint_interval cfg"
    "co_miner_states c0 = fold (\<lambda>shard m. m(sa_miner_id shard \<mapsto> initial_state shard)) (pl_shards plan) Map.empty"
    using assms(1) by (auto simp: new_coordinator_def obind_Ok_iff)
  define c1 where "c1 = c0\<lparr>co_status := session_running, co_started_at := start\<rparr>"
  have "session_at now t c0 0 c1"
    using fold_states [OF assms(2)] by (auto simp: session_at_def c1_def c0 initial_state_def)
  from session_run [OF this, of h stop N] assms(2-7) c0 obtain c2 where
    c2: "pipeline_forward now stop (go_range (int N)) t c1 = Ok (Inr (layers_forward N t), c2)" "session_at now t c0 N c2" by auto
  define c where "c = set_status session_completed (set_status session_all_reducing c2)"
  have "co_ring c2 = None" using c2(2) c0 by (simp add: session_at_def)
  then have run: "execute_session start now stop t c0 = Ok (Inr (layers_forward N t), c)"
    using c2(1) [unfolded c1_def] assms(8) by (simp add: execute_session_def c0 all_reduce_result_def set_status_def c_def Let_def)
  have fields: "co_status c = session_completed" "co_checkpoints c = co_checkpoints c2" "co_miner_states c = co_miner_states c2"
    by (simp_all add: c_def set_status_def)
  have "\<exists>s. co_miner_states c2 (sa_miner_id (pl_shards plan ! i)) = Some s \<and>
      mst_layers_completed s = int (if N \<le> i then 0 else N - (N - 1 - i) mod n)" if "i < n" for i
    using c2(2) that credited_eq [OF that, of N] unfolding session_at_def c0 n_def by auto
  moreover have "co_checkpoints c2 j = (if 0 < j \<and> j < int N \<and> j mod cf_checkpoint_interval cfg = 0
        then Some \<lparr>cp_layer_index = j, cp_activation = layers_forward (nat j) t, cp_timestamp = now j\<rparr> else None)" for j
    using c2(2) unfolding session_at_def c0 by blast
  ultimately show ?thesis using run fields by auto
qed

lemma session_example:
  defines "plan \<equiv> \<lparr>pl_config = (transformer_config 4 1 1 0 0 0 1)\<lparr>sc_num_miners := 2\<rparr>, pl_shards =
      [plan_shard ((transformer_config 4 1 1 0 0 0 1)\<lparr>sc_num_miners := 2\<rparr>) [[1], [2]] 0,
       plan_shard ((transformer_config 4 1 1 0 0 0 1)\<lparr>sc_num_miners := 2\<rparr>) [[1], [2]] 1], pl_total_memory_mb = 0\<rparr>"
  shows "map shard_layers (pl_shards plan) = [[0, 1], [2, 3]]" "map sa_miner_id (pl_shards plan) = [[1], [2]]"
    "sc_num_layers (pl_config plan) = int 4" "\<exists>c0. new_coordinator tk plan default_coordinator_config = Ok c0"
proof -
  show layers: "map shard_layers (pl_shards plan) = [[0, 1], [2, 3]]"
    by (simp add: plan_def transformer_config_def plan_shard_def share_start_def shard_share_def go_quot_def go_rem_def
      shard_layers_def upto_rec1 Let_def)
  show "map sa_miner_id (pl_shards plan) = [[1], [2]]" "sc_num_layers (pl_config plan) = int 4"
    by (simp_all add: plan_def transformer_config_def plan_shard_def Let_def)
  have "map sa_attention_heads (pl_shards plan) = [[], []]"
    by (simp add: plan_def transformer_config_def plan_shard_def share_start_def shard_share_def go_quot_def go_rem_def Let_def)
  then have "validate_sharding_plan plan = Ok ()"
    using layers by (intro validate_partition) (simp_all add: plan_def transformer_config_def go_range_def upt_rec)
  then show "\<exists>c0. new_coordinator tk plan default_coordinator_config = Ok c0" by (simp add: new_coordinator_def)
qed

text \<open>In the witness the plan gives layers 0 and 1 to the first miner, the session credits it with layers 0 and 2.\<close>

theorem session_round_robin_witness:
  "\<exists>(plan :: sharding_plan) c0 c. map shard_layers (pl_shards plan) = [[0, 1], [2, 3]] \<and> map sa_miner_id (pl_shards plan) = [[1], [2]] \<and>
     execute_session 0 id (\<lambda>_. False) (new_tensor_from_data [F64 1 0] [1]) c0 =
       Ok (Inr (layers_forward 4 (new_tensor_from_data [F64 1 0] [1])), c) \<and>
     (\<exists>s. co_miner_states c [1] = Some s \<and> mst_layers_completed s = 3)"
proof -
  fix tk
  obtain plan c0 where ex: "map shard_layers (pl_shards plan) = [[0, 1], [2, 3]]" "map sa_miner_id (pl_shards plan) = [[1], [2]]"
    "sc_num_layers (pl_config plan) = int 4" "new_coordinator tk plan default_coordinator_config = Ok c0"
    using session_example by metis
  then obtain s1 s2 where shards: "pl_shards plan = [s1, s2]" "sa_miner_id s1 = [1]" by (auto simp: map_eq_Cons_conv)
  have t: "wf_tensor (new_tensor_from_data [F64 1 0] [1])" "tn_shape (new_tensor_from_data [F64 1 0] [1]) = [1]"
    by (simp_all add: wf_tensor_def new_tensor_from_data_def tensor_size_def)
  from session_round_robin [OF ex(4) _ _ _ t _ ex(3), of "\<lambda>_. False" 0 id] ex(2) shards
  obtain c where c: "execute_session 0 id (\<lambda>_. False) (new_tensor_from_data [F64 1 0] [1]) c0 =
      Ok (Inr (layers_forward 4 (new_tensor_from_data [F64 1 0] [1])), c)"
    "\<forall>i < 2. \<exists>s. co_miner_states c (sa_miner_id (pl_shards plan ! i)) = Some s \<and>
        mst_layers_completed s = int (if 4 \<le> i then 0 else 4 - (4 - 1 - i) mod 2)"
    by (auto simp: default_coordinator_config_def numeral_2_eq_2)
  from c(2) [rule_format, of 0] shards have "\<exists>s. co_miner_states c [1] = Some s \<and> mst_layers_completed s = 3" by simp
  then show ?thesis by (intro exI [of _ plan] exI [of _ c0] exI [of _ c] conjI ex(1,2) c(1))
qed

section \<open>Recovery\<close>

lemma mark_failed_fields:
  "co_plan (mark_failed a c) = co_plan c" "co_checkpoints (mark_failed a c) = co_checkpoints c"
  "co_checkpoint_interval (mark_failed a c) = co_checkpoint_interval c" "co_status (mark_failed a c) = co_status c"
  "co_miner_states (mark_failed a c) b = (if a = b then map_option (\<lambda>s. s\<lparr>mst_status := miner_failed,
     mst_errors := mst_errors s @ [''recovered from checkpoint'']\<rparr>) (co_miner_states c a) else co_miner_states c b)"
  by (auto simp: mark_failed_def split: option.splits)

text \<open>
  A recovery that succeeds reassigns nothing. It marks the failed miner and leaves the plan, the checkpoints and
  every other miner as they were; the session stays in recovery; and the next layer at the failed miner's
  position is credited to the failed miner again.
\<close>

theorem recovery_reassigns_nothing:
  assumes "recover_from_checkpoint ord failed c = (Inr (), c')" "co_miner_states c failed = Some s"
    and "l mod length (pl_shards (co_plan c)) = i" "i < length (pl_shards (co_plan c))" "sa_miner_id (pl_shards (co_plan c) ! i) = failed"
    and "0 < co_checkpoint_interval c" "wf_tensor t" "tn_shape t = [h]" "\<not> stop (int l)"
  shows "co_plan c' = co_plan c \<and> co_checkpoints c' = co_checkpoints c \<and> co_status c' = session_recovering
    \<and> (\<forall>a. a \<noteq> failed \<longrightarrow> co_miner_states c' a = co_miner_states c a)
    \<and> (\<exists>c2 s2. pipeline_forward now stop [int l] t c' = Ok (Inr (scaled t), c2) \<and> co_miner_states c2 failed = Some s2 \<and>
         mst_status s2 = miner_failed \<and> mst_layers_completed s2 = int l + 1)"
proof -
  have c': "c' = mark_failed failed (set_status session_recovering c)"
    using assms(1) by (auto simp: recover_from_checkpoint_def Let_def split: option.splits sum.splits)
  then have fields: "co_plan c' = co_plan c" "co_checkpoints c' = co_checkpoints c" "co_status c' = session_recovering"
    "co_checkpoint_interval c' = co_checkpoint_interval c" "\<forall>a. a \<noteq> failed \<longrightarrow> co_miner_states c' a = co_miner_states c a"
    by (simp_all add: mark_failed_fields set_status_def)
  obtain s' where s': "co_miner_states c' failed = Some s'" "mst_status s' = miner_failed"
    using assms(2) c' by (simp add: mark_failed_fields set_status_def)
  let ?shards = "pl_shards (co_plan c)"
  have "?shards \<noteq> []" using assms(4) by auto
  then have "go_rem (int l) (int (length ?shards)) = int i" using assms(3) by (auto simp: go_rem_nonneg zmod_int)
  then have idx: "go_index ?shards (go_rem (int l) (int (length ?shards))) = (Ok (?shards ! i) :: (string, shard_assignment) outcome)"
    using assms(4) by (simp add: go_index_def)
  define c1 where "c1 = (if go_rem (int l) (co_checkpoint_interval c) = 0 \<and> int l > 0 then add_checkpoint (now (int l)) (int l) t c' else c')"
  have "co_miner_states c1 failed = Some s'" using s'(1) by (simp add: c1_def checkpoint_fields)
  note progress = progress_states(1) [OF this, of "int l"]
  have "pipeline_forward now stop [int l] t c' = Ok (Inr (scaled t), record_progress failed (int l) c1)"
    using simulate_layer_forward_eq [OF assms(7,8)] idx assms(4,5,6,9) by (auto simp: fields(1,4) c1_def Let_def)
  moreover have "co_miner_states (record_progress failed (int l) c1) failed = Some (s'\<lparr>mst_layers_completed := int l + 1\<rparr>)"
    using progress by simp
  ultimately show ?thesis using fields s'(2) by auto
qed

theorem recovery_reassigns_nothing_witness:
  "\<exists>c c' c2 s2. recover_from_checkpoint (\<lambda>_. [[1], [2]]) [1] c = (Inr (), c') \<and> co_plan c' = co_plan c \<and>
     pipeline_forward id (\<lambda>_. False) [0] (new_tensor_from_data [F64 1 0] [1]) c' =
       Ok (Inr (scaled (new_tensor_from_data [F64 1 0] [1])), c2) \<and>
     co_miner_states c2 [1] = Some s2 \<and> mst_status s2 = miner_failed \<and> mst_layers_completed s2 = 1"
proof -
  fix tk
  obtain plan c0 where ex: "map sa_miner_id (pl_shards plan) = [[1], [2]]"
    "sc_num_layers (pl_config plan) = int 4" "new_coordinator tk plan default_coordinator_config = Ok c0"
    using session_example by metis
  then obtain s1 s2 where shards: "pl_shards plan = [s1, s2]" "sa_miner_id s1 = [1]" "sa_miner_id s2 = [2]"
    by (auto simp: map_eq_Cons_conv)
  let ?t = "new_tensor_from_data [F64 1 0] [1]"
  have t: "wf_tensor ?t" "tn_shape ?t = [1]" by (simp_all add: wf_tensor_def new_tensor_from_data_def tensor_size_def)
  define c where "c = add_checkpoint 0 1 ?t c0"
  have c0: "co_plan c0 = plan" "co_checkpoint_interval c0 = 10" "co_miner_states c0 = [[1] \<mapsto> initial_state s1, [2] \<mapsto> initial_state s2]"
    using ex(3) shards by (auto simp: new_coordinator_def obind_Ok_iff default_coordinator_config_def)
  have "zero_address \<noteq> [2]" by (auto simp: zero_address_def dest: arg_cong [where f = length])
  then have ra: "fst (best_miner [1] (co_miner_states (mark_failed [1] (set_status session_recovering c)))
      [[1], [2]] (zero_address, 2 ^ 63 - 1)) = [2]"
    by (simp add: mark_failed_fields set_status_def c_def checkpoint_fields c0 initial_state_def miner_waiting_def miner_failed_def)
  have cp: "last_checkpoint (set_status session_recovering c) \<noteq> None"
    using ex(2) by (simp add: last_checkpoint_def set_status_def c_def add_checkpoint_def c0 go_range_def upt_rec)
  have rec: "recover_from_checkpoint (\<lambda>_. [[1], [2]]) [1] c = (Inr (), mark_failed [1] (set_status session_recovering c))"
    using cp ra \<open>zero_address \<noteq> [2]\<close> by (auto simp: recover_from_checkpoint_def reassign_shard_def Let_def)
  have st: "co_miner_states c [1] = Some (initial_state s1)" "co_plan c = plan" "0 < co_checkpoint_interval c"
    by (simp_all add: c_def checkpoint_fields c0)
  have pos: "0 mod length (pl_shards (co_plan c)) = 0" "0 < length (pl_shards (co_plan c))" "sa_miner_id (pl_shards (co_plan c) ! 0) = [1]"
    using shards by (simp_all add: st)
  have go: "\<not> (\<lambda>_ :: int. False) (int 0)" by simp
  note now = recovery_reassigns_nothing [where now = id, OF rec st(1) pos st(3) t go]
  from now obtain c2 s2 where
    "pipeline_forward id (\<lambda>_. False) [0] ?t (mark_failed [1] (set_status session_recovering c)) = Ok (Inr (scaled ?t), c2)"
    "co_miner_states c2 [1] = Some s2" "mst_status s2 = miner_failed" "mst_layers_completed s2 = 1"
    by (elim conjE exE) (rule that, simp_all del: pipeline_forward.simps)
  then show ?thesis
    by (intro exI [of _ c] exI [of _ "mark_failed [1] (set_status session_recovering c)"] exI [of _ c2] exI [of _ s2] conjI
        rec now [THEN conjunct1])
qed

end
