(* ===== verification/PeerManager.thy ===== *)
theory PeerManager
  imports Float64
begin

text \<open>
  The peer manager (\<^verbatim>\<open>internal/p2p/peer/manager.go\<close>): the record kept of each peer, the ban list and
  the pruning of connections. The libp2p host is outside the model: what the manager reads of it (the
  connected peers, which of them are protected) is an argument, and the calls of \<^verbatim>\<open>ClosePeer\<close> it makes
  are the second component of a result. The instants of \<^verbatim>\<open>time.Now\<close> are arguments in the order of the
  calls; instants and durations are nanoseconds.
\<close>

section \<open>Scores\<close>

record peer_score =
  ps_peer_id :: string
  ps_connected_since :: int
  ps_seen :: u64
  ps_valid :: u64
  ps_invalid :: u64
  ps_last_seen :: int
  ps_latency :: int
  ps_blacklisted :: bool
  ps_reason :: string

definition fresh_score :: "string \<Rightarrow> int \<Rightarrow> int \<Rightarrow> peer_score" where
  "fresh_score pid t1 t2 = \<lparr>ps_peer_id = pid, ps_connected_since = t1, ps_seen = 0, ps_valid = 0,
     ps_invalid = 0, ps_last_seen = t2, ps_latency = 0, ps_blacklisted = False, ps_reason = ''''\<rparr>"

definition validity :: "peer_score \<Rightarrow> f64" where
  "validity s = (if ps_seen s = 0 then F64 1 0 else f64_div (f64_of_u64 (ps_valid s)) (f64_of_u64 (ps_seen s)))"

section \<open>The manager\<close>

record peer_config =
  pc_max_peers :: int
  pc_min_score :: f64
  pc_ban_duration :: int
  pc_prune_interval :: int

definition default_peer_config :: peer_config where
  "default_peer_config = \<lparr>pc_max_peers = 50, pc_min_score = F64 1 1, pc_ban_duration = 3600 * 10 ^ 9,
     pc_prune_interval = 30 * 10 ^ 9\<rparr>"

record peer_manager =
  pm_scores :: "string \<rightharpoonup> peer_score"
  pm_max_peers :: int
  pm_min_score :: f64
  pm_ban_duration :: int
  pm_prune_interval :: int
  pm_blacklist :: "string \<rightharpoonup> int"

definition new_peer_manager :: "peer_config \<Rightarrow> peer_manager" where
  "new_peer_manager cfg = \<lparr>pm_scores = Map.empty, pm_max_peers = pc_max_peers cfg, pm_min_score = pc_min_score cfg,
     pm_ban_duration = pc_ban_duration cfg, pm_prune_interval = pc_prune_interval cfg, pm_blacklist = Map.empty\<rparr>"

text \<open>A call changes the manager and closes connections.\<close>

type_synonym pm_call = "peer_manager \<times> string list"

definition on_connected :: "string \<Rightarrow> int \<Rightarrow> int \<Rightarrow> peer_manager \<Rightarrow> pm_call" where
  "on_connected pid t1 t2 m =
     (if pm_blacklist m pid \<noteq> None then (m, [pid])
      else case pm_scores m pid of
        Some s \<Rightarrow> (m\<lparr>pm_scores := (pm_scores m)(pid \<mapsto> s\<lparr>ps_connected_since := t1, ps_last_seen := t2\<rparr>)\<rparr>, [])
      | None \<Rightarrow> (m\<lparr>pm_scores := (pm_scores m)(pid \<mapsto> fresh_score pid t1 t2)\<rparr>, []))"

definition on_disconnected :: "string \<Rightarrow> int \<Rightarrow> peer_manager \<Rightarrow> pm_call" where
  "on_disconnected pid t m =
     (case pm_scores m pid of
        Some s \<Rightarrow> (m\<lparr>pm_scores := (pm_scores m)(pid \<mapsto> s\<lparr>ps_last_seen := t\<rparr>)\<rparr>, [])
      | None \<Rightarrow> (m, []))"

text \<open>\<open>RecordMessage\<close>: a peer without a record gets one at the instants \<open>t1\<close> and \<open>t2\<close>.\<close>

definition count_message :: "bool \<Rightarrow> int \<Rightarrow> peer_score \<Rightarrow> peer_score" where
  "count_message valid t s =
     (let s1 = s\<lparr>ps_seen := ps_seen s + 1, ps_last_seen := t\<rparr>
      in if valid then s1\<lparr>ps_valid := ps_valid s1 + 1\<rparr> else s1\<lparr>ps_invalid := ps_invalid s1 + 1\<rparr>)"

definition record_message :: "string \<Rightarrow> bool \<Rightarrow> int \<Rightarrow> int \<Rightarrow> int \<Rightarrow> peer_manager \<Rightarrow> pm_call" where
  "record_message pid valid t1 t2 t3 m =
     (let s = (case pm_scores m pid of Some s \<Rightarrow> s | None \<Rightarrow> fresh_score pid t1 t2)
      in (m\<lparr>pm_scores := (pm_scores m)(pid \<mapsto> count_message valid t3 s)\<rparr>, []))"

text \<open>The moving average of \<open>RecordLatency\<close> with \<open>alpha\<close> the \<open>float64\<close> nearest to 0.2; the conversion
  to \<open>time.Duration\<close> truncates toward zero.\<close>

definition latency_alpha :: f64 where
  "latency_alpha = F64 3602879701896397 54"

fun f64_to_duration :: "f64 \<Rightarrow> int" where
  "f64_to_duration (F64 m k) = sgn m * (\<bar>m\<bar> div 2 ^ k)"

definition moving_latency :: "int \<Rightarrow> int \<Rightarrow> int" where
  "moving_latency latency old =
     (if old = 0 then latency
      else f64_to_duration (f64_add (f64_mul latency_alpha (f64_of_int latency))
             (f64_mul (f64_sub (F64 1 0) latency_alpha) (f64_of_int old))))"

definition record_latency :: "string \<Rightarrow> int \<Rightarrow> peer_manager \<Rightarrow> pm_call" where
  "record_latency pid latency m =
     (case pm_scores m pid of
        Some s \<Rightarrow> (m\<lparr>pm_scores := (pm_scores m)(pid \<mapsto> s\<lparr>ps_latency := moving_latency latency (ps_latency s)\<rparr>)\<rparr>, [])
      | None \<Rightarrow> (m, []))"

definition peer_score_of :: "string \<Rightarrow> peer_manager \<Rightarrow> peer_score option" where
  "peer_score_of pid m = pm_scores m pid"

definition ban :: "string \<Rightarrow> string \<Rightarrow> int \<Rightarrow> peer_manager \<Rightarrow> pm_call" where
  "ban pid reason now m =
     (let m1 = m\<lparr>pm_blacklist := (pm_blacklist m)(pid \<mapsto> now + pm_ban_duration m)\<rparr>
      in (case pm_scores m1 pid of
            Some s \<Rightarrow> (m1\<lparr>pm_scores := (pm_scores m1)(pid \<mapsto> s\<lparr>ps_blacklisted := True, ps_reason := reason\<rparr>)\<rparr>, [pid])
          | None \<Rightarrow> (m1, [pid])))"

definition is_blacklisted :: "string \<Rightarrow> int \<Rightarrow> peer_manager \<Rightarrow> bool" where
  "is_blacklisted pid now m = (case pm_blacklist m pid of None \<Rightarrow> False | Some expiry \<Rightarrow> \<not> expiry < now)"

text \<open>\<open>prune\<close>: the candidates among the connected peers, in the order the host lists them.\<close>

definition prune_score :: "peer_manager \<Rightarrow> string \<Rightarrow> f64" where
  "prune_score m pid = (case pm_scores m pid of Some s \<Rightarrow> validity s | None \<Rightarrow> F64 0 0)"

definition prune_candidates :: "(string \<Rightarrow> bool) \<Rightarrow> peer_manager \<Rightarrow> string list \<Rightarrow> (string \<times> f64) list" where
  "prune_candidates protected m connected =
     concat (map (\<lambda>pid. if protected pid then [] else
       (let score = prune_score m pid in if f64_less score (pm_min_score m) then [(pid, score)] else [])) connected)"

definition prune :: "(string \<Rightarrow> bool) \<Rightarrow> string list \<Rightarrow> peer_manager \<Rightarrow> pm_call" where
  "prune protected connected m =
     (if int (length connected) \<le> pm_max_peers m then (m, [])
      else (let candidates = prune_candidates protected m connected;
                excess = int (length connected) - pm_max_peers m
            in (m, map fst (take (nat excess) candidates))))"

section \<open>Runs\<close>

text \<open>The methods lock the manager, so a run is a sequence of calls.\<close>

datatype pm_event =
    PConnected string int int
  | PDisconnected string int
  | PMessage string bool int int int
  | PLatency string int
  | PBan string string int
  | PPrune "string \<Rightarrow> bool" "string list"

fun pm_apply :: "pm_event \<Rightarrow> peer_manager \<Rightarrow> pm_call" where
  "pm_apply (PConnected pid t1 t2) m = on_connected pid t1 t2 m"
| "pm_apply (PDisconnected pid t) m = on_disconnected pid t m"
| "pm_apply (PMessage pid v t1 t2 t3) m = record_message pid v t1 t2 t3 m"
| "pm_apply (PLatency pid l) m = record_latency pid l m"
| "pm_apply (PBan pid r t) m = ban pid r t m"
| "pm_apply (PPrune pr cs) m = prune pr cs m"

fun pm_run :: "pm_event list \<Rightarrow> peer_manager \<Rightarrow> peer_manager" where
  "pm_run [] m = m"
| "pm_run (e # es) m = pm_run es (fst (pm_apply e m))"

lemmas pm_defs = on_connected_def on_disconnected_def record_message_def record_latency_def ban_def prune_def Let_def

end
