(* ===== verification/Protocol.thy ===== *)
theory Protocol
  imports Blockchain PeerManager GoSlice
begin

text \<open>
  The peer protocol (\<^verbatim>\<open>internal/p2p/protocol\<close>): the wire format (\<^verbatim>\<open>message.go\<close>) and the handlers and
  requests of block synchronisation (\<^verbatim>\<open>handler.go\<close>). A libp2p stream is the bytes that come in and the
  bytes that go out; opening a stream is the parameter \<open>net\<close> of the requests.
\<close>

section \<open>Messages\<close>

definition protocol_block_sync :: string where "protocol_block_sync = ''/aichain/sync/0.1''"
definition protocol_status :: string where "protocol_status = ''/aichain/status/0.1''"

definition msg_status_request :: byte where "msg_status_request = 0x01"
definition msg_status_response :: byte where "msg_status_response = 0x02"
definition msg_block_request :: byte where "msg_block_request = 0x03"
definition msg_block_response :: byte where "msg_block_response = 0x04"

definition err_invalid_message :: string where "err_invalid_message = ''invalid protocol message''"
definition err_stream_closed :: string where "err_stream_closed = ''stream closed''"
definition err_truncated_response :: string where "err_truncated_response = ''truncated block response''"

record chain_status =
  st_chain_id :: u64
  st_height :: u64
  st_state_root :: hash
  st_genesis_hash :: hash

record block_request =
  br_start :: u64
  br_end :: u64
  br_max :: u32

text \<open>\<open>binary.BigEndian\<close>: \<open>get_u64\<close> reads the eight bytes of a slice, \<open>get_u32\<close> four.\<close>

definition get_u64 :: "byte list \<Rightarrow> nat \<Rightarrow> u64" where
  "get_u64 d i = word_of_nat (be_nat (take 8 (drop i d)))"

definition get_u32 :: "byte list \<Rightarrow> nat \<Rightarrow> u32" where
  "get_u32 d i = word_of_nat (be_nat (take 4 (drop i d)))"

definition put_u64 :: "u64 \<Rightarrow> byte list" where
  "put_u64 v = be_bytes 8 (unat v)"

definition put_u32 :: "u32 \<Rightarrow> byte list" where
  "put_u32 v = be_bytes 4 (unat v)"

definition encode_status :: "byte \<Rightarrow> chain_status \<Rightarrow> byte list" where
  "encode_status tag s = [tag] @ put_u64 (st_chain_id s) @ put_u64 (st_height s)
     @ copy_left 32 (st_state_root s) @ copy_left 32 (st_genesis_hash s)"

definition decode_status :: "byte \<Rightarrow> byte list \<Rightarrow> (string, chain_status) outcome" where
  "decode_status tag d =
     (if length d < 81 \<or> d ! 0 \<noteq> tag then Err err_invalid_message
      else Ok \<lparr>st_chain_id = get_u64 d 1, st_height = get_u64 d 9,
        st_state_root = bytes_to_hash (take 32 (drop 17 d)), st_genesis_hash = bytes_to_hash (take 32 (drop 49 d))\<rparr>)"

definition encode_status_request :: "chain_status \<Rightarrow> byte list" where
  "encode_status_request = encode_status msg_status_request"

definition decode_status_request :: "byte list \<Rightarrow> (string, chain_status) outcome" where
  "decode_status_request = decode_status msg_status_request"

definition encode_status_response :: "chain_status \<Rightarrow> byte list" where
  "encode_status_response = encode_status msg_status_response"

definition decode_status_response :: "byte list \<Rightarrow> (string, chain_status) outcome" where
  "decode_status_response = decode_status msg_status_response"

definition encode_block_request :: "block_request \<Rightarrow> byte list" where
  "encode_block_request r = [msg_block_request] @ put_u64 (br_start r) @ put_u64 (br_end r) @ put_u32 (br_max r)"

definition decode_block_request :: "byte list \<Rightarrow> (string, block_request) outcome" where
  "decode_block_request d =
     (if length d < 21 \<or> d ! 0 \<noteq> msg_block_request then Err err_invalid_message
      else Ok \<lparr>br_start = get_u64 d 1, br_end = get_u64 d 9, br_max = get_u32 d 17\<rparr>)"

text \<open>The count and the lengths are converted to \<open>uint32\<close>.\<close>

definition put_block :: "byte list \<Rightarrow> byte list" where
  "put_block b = put_u32 (word_of_nat (length b)) @ b"

definition encode_block_response :: "byte list list \<Rightarrow> byte list" where
  "encode_block_response blocks =
     [msg_block_response] @ put_u32 (word_of_nat (length blocks)) @ concat (map put_block blocks)"

text \<open>The loop of \<open>DecodeBlockResponse\<close>, on the data from the offset on: \<open>n\<close> is the count less \<open>i\<close>.\<close>

fun decode_blocks :: "nat \<Rightarrow> byte list \<Rightarrow> byte list list \<Rightarrow> (string, byte list list) outcome" where
  "decode_blocks 0 d blocks = Ok blocks"
| "decode_blocks (Suc n) d blocks =
     (if length d < 4 then Ok blocks
      else (let blen = unat (get_u32 d 0); rest = drop 4 d
            in if length rest < blen then Err err_truncated_response
               else decode_blocks n (drop blen rest) (blocks @ [take blen rest])))"

definition decode_block_response :: "byte list \<Rightarrow> (string, byte list list) outcome" where
  "decode_block_response d =
     (if length d < 5 \<or> d ! 0 \<noteq> msg_block_response then Err err_invalid_message
      else decode_blocks (unat (get_u32 d 1)) (drop 5 d) [])"

text \<open>The capacity \<open>DecodeBlockResponse\<close> reserves before it reads the first block.\<close>

definition reserved_blocks :: "byte list \<Rightarrow> nat" where
  "reserved_blocks d = (if length d < 5 \<or> d ! 0 \<noteq> msg_block_response then 0 else unat (get_u32 d 1))"

section \<open>Framing\<close>

definition message_cap :: nat where "message_cap = 10 * 1024 * 1024"

text \<open>\<open>ReadMessage\<close> on the bytes that arrive until the sender closes; the result holds what is left.\<close>

definition read_message :: "byte list \<Rightarrow> (string, byte list \<times> byte list) outcome" where
  "read_message d =
     (if d = [] then Err err_stream_closed
      else if length d < 4 then Err ''read length: unexpected EOF''
      else (let n = unat (get_u32 d 0)
            in if message_cap < n then Err ''message too large''
               else if length (drop 4 d) < n then Err ''read payload: unexpected EOF''
               else Ok (take n (drop 4 d), drop n (drop 4 d))))"

definition write_message :: "byte list \<Rightarrow> byte list" where
  "write_message d = put_u32 (word_of_nat (length d)) @ d"

section \<open>Handlers\<close>

record sync_handler =
  sh_chain_id :: u64
  sh_genesis_hash :: hash

definition own_status :: "sync_handler \<Rightarrow> block \<Rightarrow> chain_status" where
  "own_status h b = \<lparr>st_chain_id = sh_chain_id h, st_height = bh_height (blk_header b),
     st_state_root = bh_state_root (blk_header b), st_genesis_hash = sh_genesis_hash h\<rparr>"

text \<open>\<open>handleStatus\<close> reads \<open>d\<close> from the peer \<open>pid\<close>; the results are the bytes it writes and the peer
  manager after it, the readings of the clock being those of \<open>RecordMessage\<close>.\<close>

definition handle_status ::
  "sync_handler \<Rightarrow> blockchain \<Rightarrow> string \<Rightarrow> int \<times> int \<times> int \<Rightarrow> byte list \<Rightarrow> peer_manager \<Rightarrow> byte list \<times> peer_manager" where
  "handle_status h bc pid clk d pm = (case read_message d of
     Ok (msg, _) \<Rightarrow>
       (case decode_status_request msg of
          Ok req \<Rightarrow>
            (if st_genesis_hash req \<noteq> sh_genesis_hash h then ([], pm)
             else case current_block bc of
                None \<Rightarrow> ([], pm)
              | Some r \<Rightarrow> (write_message (encode_status_response (own_status h (bc_heap bc r))),
                  (case clk of (t1, t2, t3) \<Rightarrow> fst (record_message pid True t1 t2 t3 pm))))
        | _ \<Rightarrow> ([], pm))
   | _ \<Rightarrow> ([], pm))"

definition encode_block :: "(byte list \<Rightarrow> hash) \<Rightarrow> block \<Rightarrow> byte list" where
  "encode_block sha b = copy_left 32 (block_hash sha b) @ put_u64 (bh_height (blk_header b))
     @ put_u32 (word_of_nat (length (blk_txs b)))"

definition capped_end :: "block_request \<Rightarrow> u64" where
  "capped_end r = (if ucast (br_max r) < br_end r - br_start r then br_start r + ucast (br_max r) - 1 else br_end r)"

text \<open>The loop over the heights. The counter is a \<open>uint64\<close> that wraps, so that the loop ends only if
  its bound is not the largest \<open>uint64\<close> or some block is missing.\<close>

partial_function (option) serve_blocks ::
  "(byte list \<Rightarrow> hash) \<Rightarrow> blockchain \<Rightarrow> u64 \<Rightarrow> u64 \<Rightarrow> byte list list \<Rightarrow> byte list list option" where
  "serve_blocks sha bc height last_height blocks =
     (if height \<le> last_height then
        (if get_block_by_height height bc = None then Some blocks
         else serve_blocks sha bc (height + 1) last_height
                (blocks @ [encode_block sha (bc_heap bc (the (get_block_by_height height bc)))]))
      else Some blocks)"

text \<open>\<open>handleBlockSync\<close>: \<open>None\<close> if the loop does not end. The clock is read for \<open>RecordMessage\<close>; the
  latency is an argument too.\<close>

definition handle_block_sync ::
  "(byte list \<Rightarrow> hash) \<Rightarrow> blockchain \<Rightarrow> string \<Rightarrow> int \<times> int \<times> int \<Rightarrow> int \<Rightarrow> byte list \<Rightarrow> peer_manager
     \<Rightarrow> (byte list \<times> peer_manager) option" where
  "handle_block_sync sha bc pid clk latency d pm = (case read_message d of
     Ok (msg, _) \<Rightarrow>
       (case decode_block_request msg of
          Ok req \<Rightarrow>
            (if br_end req < br_start req then Some ([], pm)
             else Option.bind (serve_blocks sha bc (br_start req) (capped_end req) []) (\<lambda>blocks.
               Some (write_message (encode_block_response blocks),
                 (case clk of (t1, t2, t3) \<Rightarrow>
                    fst (record_latency pid latency (fst (record_message pid True t1 t2 t3 pm)))))))
        | _ \<Rightarrow> Some ([], pm))
   | _ \<Rightarrow> Some ([], pm))"

section \<open>Requests\<close>

text \<open>\<open>net n pid proto\<close> is the \<open>n\<close>-th stream that is opened: \<open>None\<close> if opening fails, otherwise what the
  peer answers to the bytes sent, \<open>None\<close> if sending fails.\<close>

type_synonym network = "nat \<Rightarrow> string \<Rightarrow> string \<Rightarrow> (byte list \<Rightarrow> byte list option) option"

definition send_message :: "(byte list \<Rightarrow> byte list option) \<Rightarrow> byte list \<Rightarrow> (string, byte list) outcome" where
  "send_message s d = (case s (write_message d) of
     None \<Rightarrow> Err ''write''
   | Some answer \<Rightarrow> obind (read_message answer) (\<lambda>(msg, _). Ok msg))"

definition request_status :: "network \<Rightarrow> nat \<Rightarrow> sync_handler \<Rightarrow> blockchain \<Rightarrow> string \<Rightarrow> (string, chain_status) outcome" where
  "request_status net n h bc pid = (case net n pid protocol_status of
     None \<Rightarrow> Err ''new stream''
   | Some s \<Rightarrow> (case current_block bc of
       None \<Rightarrow> Err ''no current block''
     | Some r \<Rightarrow> obind (send_message s (encode_status_request (own_status h (bc_heap bc r)))) decode_status_response))"

definition request_blocks :: "network \<Rightarrow> nat \<Rightarrow> string \<Rightarrow> u64 \<Rightarrow> u64 \<Rightarrow> u32 \<Rightarrow> (string, byte list list) outcome" where
  "request_blocks net n pid start last_height max_blocks = (case net n pid protocol_block_sync of
     None \<Rightarrow> Err ''new stream''
   | Some s \<Rightarrow>
       obind (send_message s (encode_block_request \<lparr>br_start = start, br_end = last_height, br_max = max_blocks\<rparr>))
         decode_block_response)"

text \<open>\<open>SyncToBestChain\<close>: the best peer (the first of the greatest height above its own), then the loop that
  asks for windows of 64 blocks. The received blocks are counted and dropped. The loop returns the
  number of blocks, and the error that ended it.\<close>

fun best_peer :: "network \<Rightarrow> sync_handler \<Rightarrow> blockchain \<Rightarrow> nat \<Rightarrow> string list \<Rightarrow> u64 \<times> string \<Rightarrow> u64 \<times> string" where
  "best_peer net h bc n [] best = best"
| "best_peer net h bc n (pid # pids) best =
     best_peer net h bc (n + 1) pids (case request_status net n h bc pid of
       Ok resp \<Rightarrow> (if fst best < st_height resp then (st_height resp, pid) else best)
     | _ \<Rightarrow> best)"

definition window_end :: "u64 \<Rightarrow> u64 \<Rightarrow> u64" where
  "window_end ch best = (if best < ch + 64 then best else ch + 64)"

definition window_answer :: "network \<Rightarrow> nat \<Rightarrow> string \<Rightarrow> u64 \<Rightarrow> u64 \<Rightarrow> (string, byte list list) outcome" where
  "window_answer net n pid ch best = request_blocks net n pid (ch + 1) (window_end ch best) 128"

fun is_ok :: "('e, 'a) outcome \<Rightarrow> bool" where
  "is_ok (Ok a) = True"
| "is_ok _ = False"

fun answered :: "(string, byte list list) outcome \<Rightarrow> byte list list" where
  "answered (Ok blocks) = blocks"
| "answered _ = []"

partial_function (option) sync_loop ::
  "network \<Rightarrow> string \<Rightarrow> u64 \<Rightarrow> nat \<Rightarrow> u64 \<Rightarrow> int \<Rightarrow> (int \<times> string option) option" where
  "sync_loop net pid best n ch synced =
     (if ch < best then
        (if is_ok (window_answer net n pid ch best) then
           sync_loop net pid best (n + 1) (ch + word_of_nat (length (answered (window_answer net n pid ch best))))
             (synced + int (length (answered (window_answer net n pid ch best))))
         else Some (synced, Some ''request''))
      else Some (synced, None))"

definition sync_to_best_chain ::
  "network \<Rightarrow> sync_handler \<Rightarrow> blockchain \<Rightarrow> string list \<Rightarrow> (int \<times> string option) option" where
  "sync_to_best_chain net h bc peers =
     (if peers = [] then Some (0, None)
      else case current_block bc of
        None \<Rightarrow> Some (0, Some ''no current block'')
      | Some r \<Rightarrow>
          (let ch = bh_height (blk_header (bc_heap bc r));
               (best, pid) = best_peer net h bc 0 peers (ch, '''')
           in if best \<le> ch then Some (0, None) else sync_loop net pid best (length peers) ch 0))"

end
