(* ===== verification/Float64Order.thy ===== *)
theory Float64Order
  imports Float64
begin

text \<open>
  The order of \<open>float64\<close> numbers: rounding keeps it, and with it products and sums of non-negative
  numbers do. \<open>f64_le a b\<close> is Go's \<open>a <= b\<close> (there is no NaN).
\<close>

definition f64_le :: "f64 \<Rightarrow> f64 \<Rightarrow> bool" where
  "f64_le a b \<longleftrightarrow> \<not> f64_less b a"

section \<open>Rounding is monotone\<close>

lemma bit_len_le: "n < 2 ^ k \<Longrightarrow> bit_len n \<le> k"
proof (induction n arbitrary: k rule: bit_len.induct)
  case (1 n)
  show ?case
  proof (cases "n = 0")
    case False
    with "1.prems" obtain j where k: "k = Suc j" by (cases k) auto
    with "1.prems" have "n div 2 < 2 ^ j" by simp
    with "1.IH" [OF False] k False show ?thesis by (simp add: bit_len.simps [of n])
  qed (simp add: bit_len.simps)
qed

lemma bit_len_ge: "0 < n \<Longrightarrow> 2 ^ (bit_len n - 1) \<le> n"
  using bit_len_le [of n "bit_len n - 1"] bit_len_less [of n] by (cases "bit_len n") (auto simp: not_less [symmetric])

lemma bit_len_mono: "m \<le> n \<Longrightarrow> bit_len m \<le> bit_len n"
  using bit_len_less [of n] by (intro bit_len_le) simp

lemma bit_len_pow [simp]: "bit_len (2 ^ k) = Suc k"
  by (intro antisym bit_len_le) (use bit_len_less [of "2 ^ k"] in \<open>simp_all add: Suc_le_eq\<close>)

lemma round_at_bounds: "n div 2 ^ s * 2 ^ s \<le> round_at s b n" "round_at s b n \<le> (n div 2 ^ s + 1) * 2 ^ s"
  by (auto simp: round_at_def Let_def)

lemma round53_upper: "round53 b n \<le> 2 ^ bit_len n"
proof (cases "bit_len n \<le> 53")
  case True
  then show ?thesis using bit_len_less [of n] by (simp add: round53_def round_at_def)
next
  case False
  define s where "s = bit_len n - 53"
  have e: "(2 :: nat) ^ 53 * 2 ^ s = 2 ^ bit_len n"
    using False unfolding power_add [symmetric] s_def by simp
  then have "n < 2 ^ 53 * 2 ^ s" using bit_len_less [of n] by (simp only:)
  then have "n div 2 ^ s < 2 ^ 53" by (simp add: div_less_iff_less_mult)
  then have "(n div 2 ^ s + 1) * 2 ^ s \<le> 2 ^ 53 * 2 ^ s" by (intro mult_le_mono1) simp
  also note e
  finally show ?thesis using round_at_bounds(2) [of s b n] unfolding round53_def s_def by linarith
qed

lemma round53_lower: "0 < n \<Longrightarrow> 2 ^ (bit_len n - 1) \<le> round53 b n"
proof (cases "bit_len n \<le> 53")
  case True
  then show "0 < n \<Longrightarrow> ?thesis" using bit_len_ge [of n] by (simp add: round53_def round_at_def)
next
  case False
  assume "0 < n"
  define s where "s = bit_len n - 53"
  have e: "(2 :: nat) ^ 52 * 2 ^ s = 2 ^ (bit_len n - 1)"
    using False unfolding power_add [symmetric] s_def by simp
  then have "2 ^ 52 * 2 ^ s \<le> n" using bit_len_ge [OF \<open>0 < n\<close>] by (simp only:)
  then have "2 ^ 52 \<le> n div 2 ^ s" by (simp add: less_eq_div_iff_mult_less_eq)
  then have "2 ^ 52 * 2 ^ s \<le> n div 2 ^ s * 2 ^ s" by (rule mult_le_mono1)
  then have "2 ^ (bit_len n - 1) \<le> n div 2 ^ s * 2 ^ s" by (simp only: e)
  then show ?thesis using round_at_bounds(1) [of n s b] unfolding round53_def s_def by (rule order_trans)
qed

lemma round_at_mono:
  assumes "m \<le> n"
  shows "round_at s b m \<le> round_at s b n"
proof (cases "m div 2 ^ s = n div 2 ^ s")
  case True
  with assms have "m mod 2 ^ s \<le> n mod 2 ^ s"
    using div_mult_mod_eq [of m "2 ^ s"] div_mult_mod_eq [of n "2 ^ s"] by (metis nat_add_left_cancel_le)
  with True assms show ?thesis by (auto simp: round_at_def Let_def)
next
  case False
  with div_le_mono [OF assms] have "m div 2 ^ s + 1 \<le> n div 2 ^ s" by (simp add: le_neq_implies_less Suc_leI)
  then have "(m div 2 ^ s + 1) * 2 ^ s \<le> n div 2 ^ s * 2 ^ s" by (rule mult_le_mono1)
  with round_at_bounds(2) [of s b m] round_at_bounds(1) [of n s b] show ?thesis by linarith
qed

lemma round53_mono:
  assumes "m \<le> n"
  shows "round53 b m \<le> round53 b n"
proof (cases "bit_len m = bit_len n")
  case True
  then show ?thesis using round_at_mono [OF assms] by (simp add: round53_def)
next
  case False
  with bit_len_mono [OF assms] have len: "bit_len m < bit_len n" by simp
  then have "0 < n" by (cases n) (auto simp: bit_len_eval)
  have "round53 b m \<le> 2 ^ bit_len m" by (rule round53_upper)
  also have "\<dots> \<le> 2 ^ (bit_len n - 1)" using len by (intro power_increasing) auto
  also have "\<dots> \<le> round53 b n" using \<open>0 < n\<close> by (rule round53_lower)
  finally show ?thesis .
qed

lemma round53_pow: "round53 b (2 ^ k) = 2 ^ k"
proof (cases "k < 53")
  case False
  then have "(2 :: nat) ^ (Suc k - 53) dvd 2 ^ k" by (intro le_imp_power_dvd) simp
  then have "(2 :: nat) ^ k mod 2 ^ (Suc k - 53) = 0" by simp
  then show ?thesis using False
    by (simp add: round53_def round_at_def Let_def)
       (metis dvd_div_mult_self mod_0_imp_dvd)
qed (simp add: round53_def round_at_def)

lemma round53_le_pow: "n \<le> 2 ^ k \<Longrightarrow> round53 b n \<le> 2 ^ k"
  using round53_mono [of n "2 ^ k" b] by (simp add: round53_pow)

section \<open>Rounding does not depend on the scale\<close>

lemma bit_len_double: "0 < n \<Longrightarrow> bit_len (n * 2) = Suc (bit_len n)"
  by (simp add: bit_len.simps [of "n * 2"])

lemma bit_len_scale: "0 < n \<Longrightarrow> bit_len (n * 2 ^ j) = bit_len n + j"
proof (induction j)
  case (Suc j)
  then show ?case using bit_len_double [of "n * 2 ^ j"] by (simp add: mult.commute mult.left_commute)
qed simp

lemma round_at_scale:
  assumes "0 < s"
  shows "round_at (s + j) False (n * 2 ^ j) = round_at s False n * 2 ^ j"
proof -
  have q: "n * 2 ^ j div 2 ^ (s + j) = n div 2 ^ s" by (simp add: power_add)
  have r: "n * 2 ^ j mod 2 ^ (s + j) = n mod 2 ^ s * 2 ^ j" by (simp add: power_add mult_mod_left)
  have h: "(2 :: nat) ^ (s + j - 1) = 2 ^ (s - 1) * 2 ^ j" using assms by (simp flip: power_add)
  show ?thesis
    using assms unfolding round_at_def Let_def q r h by (simp add: power_add distrib_right)
qed

lemma round53_scale: "round53 False (n * 2 ^ j) = round53 False n * 2 ^ j"
proof (cases "n = 0")
  case False
  then have l: "bit_len (n * 2 ^ j) = bit_len n + j" by (simp add: bit_len_scale)
  show ?thesis
  proof (cases "bit_len n \<le> 53")
    case True
    have "(2 :: nat) ^ (bit_len n + j - 53) dvd n * 2 ^ j"
      using True by (intro dvd_mult le_imp_power_dvd) simp
    then show ?thesis using True by (simp add: round53_def l round_at_exact)
  next
    case False
    then have "bit_len n + j - 53 = (bit_len n - 53) + j" by simp
    then show ?thesis using round_at_scale [of "bit_len n - 53" j n] False by (simp add: round53_def l)
  qed
qed (simp add: round53_def round_at_def bit_len_eval)

definition iround :: "int \<Rightarrow> int" where
  "iround m = sgn m * int (round53 False (nat \<bar>m\<bar>))"

lemma f64_round_iround: "f64_round False m k = F64 (iround m) k"
  by (simp add: f64_round_def iround_def)

lemma round53_0 [simp]: "round53 b 0 = 0"
  by (simp add: round53_def round_at_def bit_len_eval)

lemma iround_nonneg: "0 \<le> m \<Longrightarrow> iround m = int (round53 False (nat m))"
  by (cases "m = 0") (simp_all add: iround_def)

lemma iround_neg: "iround (- m) = - iround m"
  by (simp add: iround_def sgn_minus)

lemma iround_mono: "m \<le> n \<Longrightarrow> iround m \<le> iround n"
proof -
  have pos: "iround a \<le> iround b" if "0 \<le> a" "a \<le> b" for a b
    using that round53_mono [of "nat a" "nat b" False] by (simp add: iround_nonneg)
  have nn: "0 \<le> iround a" if "0 \<le> a" for a using that by (simp add: iround_nonneg)
  assume "m \<le> n"
  consider "0 \<le> m" | "m < 0" "0 \<le> n" | "n < 0" by linarith
  then show ?thesis
  proof cases
    case 2
    with nn [of "- m"] nn [of n] show ?thesis by (simp add: iround_neg)
  next
    case 3
    with pos [of "- n" "- m"] \<open>m \<le> n\<close> show ?thesis by (simp add: iround_neg)
  qed (use pos \<open>m \<le> n\<close> in auto)
qed

lemma iround_scale: "iround (m * 2 ^ j) = iround m * 2 ^ j"
proof -
  have "iround (m * 2 ^ j) = iround m * 2 ^ j" if "0 \<le> m" for m :: int
    using that round53_scale [of "nat m" j] by (simp add: iround_nonneg nat_mult_distrib nat_power_eq)
  from this [of m] this [of "- m"] show ?thesis
    by (cases "0 \<le> m") (simp_all add: iround_neg)
qed

section \<open>The order\<close>

lemma f64_le_F64 [simp]: "f64_le (F64 m k) (F64 n l) \<longleftrightarrow> m * 2 ^ l \<le> n * 2 ^ k"
  by (simp add: f64_le_def not_less)

lemma f64_le_refl [simp]: "f64_le a a"
  by (cases a) simp

lemma f64_le_trans: "f64_le a b \<Longrightarrow> f64_le b c \<Longrightarrow> f64_le a c"
proof (cases a; cases b; cases c)
  fix m k n l p j
  assume e: "a = F64 m k" "b = F64 n l" "c = F64 p j" and h: "f64_le a b" "f64_le b c"
  have "(m * 2 ^ j) * 2 ^ l = (m * 2 ^ l) * 2 ^ j" by (simp only: ac_simps)
  also have "\<dots> \<le> (n * 2 ^ k) * 2 ^ j" by (rule mult_right_mono) (use h e in simp_all)
  also have "\<dots> = (n * 2 ^ j) * 2 ^ k" by (simp only: ac_simps)
  also have "\<dots> \<le> (p * 2 ^ l) * 2 ^ k" by (rule mult_right_mono) (use h e in simp_all)
  also have "\<dots> = (p * 2 ^ k) * 2 ^ l" by (simp only: ac_simps)
  finally have "m * 2 ^ j \<le> p * 2 ^ k" by (rule mult_right_le_imp_le) simp
  then show ?thesis by (simp add: e)
qed

lemma f64_less_le: "f64_less a b \<Longrightarrow> f64_le a b"
  by (cases a; cases b) simp

lemma f64_le_linear: "f64_le a b \<or> f64_le b a"
  by (cases a; cases b) auto

lemma f64_le_less_trans: "f64_le a b \<Longrightarrow> f64_less b c \<Longrightarrow> f64_less a c"
  using f64_le_trans [of c a b] by (auto simp: f64_le_def)

lemma f64_round_mono: "m * 2 ^ l \<le> n * 2 ^ k \<Longrightarrow> f64_le (f64_round False m k) (f64_round False n l)"
  using iround_mono [of "m * 2 ^ l" "n * 2 ^ k"] by (simp add: f64_round_iround iround_scale)

abbreviation f64_nonneg :: "f64 \<Rightarrow> bool" where
  "f64_nonneg a \<equiv> f64_le (F64 0 0) a"

lemma f64_mul_mono:
  assumes "f64_nonneg a" "f64_nonneg b" "f64_le a a'" "f64_le b b'"
  shows "f64_le (f64_mul a b) (f64_mul a' b')"
proof -
  obtain m k n l m' k' n' l' where e: "a = F64 m k" "b = F64 n l" "a' = F64 m' k'" "b' = F64 n' l'"
    by (cases a; cases b; cases a'; cases b') auto
  have "(m * 2 ^ k') * (n * 2 ^ l') \<le> (m' * 2 ^ k) * (n' * 2 ^ l)"
  proof (rule mult_mono)
    have "0 \<le> m * 2 ^ k'" using assms(1) e by simp
    then show "0 \<le> m' * 2 ^ k" using assms(3) e by simp
  qed (use assms e in simp_all)
  then show ?thesis
    unfolding e f64_mul.simps by (intro f64_round_mono) (simp add: power_add ac_simps)
qed

lemma f64_add_mono:
  assumes "f64_le a a'" "f64_le b b'"
  shows "f64_le (f64_add a b) (f64_add a' b')"
proof -
  obtain m k n l m' k' n' l' where e: "a = F64 m k" "b = F64 n l" "a' = F64 m' k'" "b' = F64 n' l'"
    by (cases a; cases b; cases a'; cases b') auto
  have "(m * 2 ^ k') * (2 ^ l * 2 ^ l') \<le> (m' * 2 ^ k) * (2 ^ l * 2 ^ l')"
    "(n * 2 ^ l') * (2 ^ k * 2 ^ k') \<le> (n' * 2 ^ l) * (2 ^ k * 2 ^ k')"
    using assms unfolding e f64_le_F64 by (simp_all add: mult_right_mono)
  then have "(m * 2 ^ l + n * 2 ^ k) * 2 ^ (k' + l') \<le> (m' * 2 ^ l' + n' * 2 ^ k') * 2 ^ (k + l)"
    unfolding power_add distrib_right by (intro add_mono) (simp_all only: ac_simps)
  then show ?thesis
    unfolding e f64_add.simps by (rule f64_round_mono)
qed

lemma f64_neg_mono: "f64_le a b \<Longrightarrow> f64_le (f64_neg b) (f64_neg a)"
  by (cases a; cases b) simp

lemma f64_sub_mono: "f64_le a a' \<Longrightarrow> f64_le b' b \<Longrightarrow> f64_le (f64_sub a b) (f64_sub a' b')"
  unfolding f64_sub_def by (intro f64_add_mono f64_neg_mono)

lemma f64_mul_nonneg: "f64_nonneg a \<Longrightarrow> f64_nonneg b \<Longrightarrow> f64_nonneg (f64_mul a b)"
  using f64_mul_mono [of "F64 0 0" "F64 0 0" a b] by (simp add: f64_eval)

lemma f64_add_nonneg: "f64_nonneg a \<Longrightarrow> f64_nonneg b \<Longrightarrow> f64_nonneg (f64_add a b)"
  using f64_add_mono [of "F64 0 0" a "F64 0 0" b] by (simp add: f64_eval)

end
