(* ===== verification/PeerManagerProps.thy ===== *)
theory PeerManagerProps
  imports PeerManager Float64Order
begin

text \<open>
  What the peer manager keeps: the counters of each record add up, so that a validity is a number
  between 0 and 1; a ban lasts for its duration where it is asked for, and for ever where a
  connection is refused; pruning closes only connections that may be closed, and no more than needed.
\<close>

section \<open>Validity\<close>

text \<open>A quotient of two rounded counters is at most one.\<close>

lemma f64_of_u64_nat: "f64_of_u64 v = F64 (int (round53 False (unat v))) 0"
proof (cases "v = 0")
  case False
  then have "0 < uint v" by (metis uint_0_iff uint_ge_0 order_le_less)
  then have "sgn (uint v) = 1" "nat \<bar>uint v\<bar> = unat v" by (simp_all only: sgn_pos abs_of_pos nat_uint_eq)
  then show ?thesis by (simp only: f64_of_u64_def f64_round_def mult_1)
qed (simp add: f64_of_u64_def f64_round_def round53_def round_at_def bit_len_eval)

lemma f64_div_unit:
  assumes "m \<le> n" "0 < n"
  shows "\<not> f64_less (F64 1 0) (f64_div (F64 (int m) 0) (F64 (int n) 0))"
    "\<not> f64_less (f64_div (F64 (int m) 0) (F64 (int n) 0)) (F64 0 0)"
proof -
  define e where "e = 64 + bit_len n"
  define q where "q = m * 2 ^ e div n"
  have "m * 2 ^ e \<le> n * 2 ^ e" using assms by simp
  then have "q \<le> 2 ^ e"
    unfolding q_def using assms by (metis div_le_mono nonzero_mult_div_cancel_left not_gr_zero)
  then have r: "round53 b q \<le> 2 ^ e" for b by (rule round53_le_pow)
  obtain b where d: "f64_div (F64 (int m) 0) (F64 (int n) 0) = f64_round b (sgn (int m) * int q) e"
    using assms by (simp add: Let_def e_def q_def)
  have v: "sgn (sgn (int m) * int q) * int (round53 b (nat \<bar>sgn (int m) * int q\<bar>)) \<in> {0..2 ^ e}"
    using r [of b] by (cases "m = 0"; cases "q = 0") (auto simp: sgn_if)
  show "\<not> f64_less (F64 1 0) (f64_div (F64 (int m) 0) (F64 (int n) 0))"
    "\<not> f64_less (f64_div (F64 (int m) 0) (F64 (int n) 0)) (F64 0 0)"
    using v unfolding d f64_round_def by simp_all
qed

section \<open>Counters and the history of a run\<close>

fun messages :: "string \<Rightarrow> bool \<Rightarrow> pm_event list \<Rightarrow> nat" where
  "messages pid v [] = 0"
| "messages pid v (PMessage q w t1 t2 t3 # es) = (if q = pid \<and> w = v then 1 else 0) + messages pid v es"
| "messages pid v (_ # es) = messages pid v es"

definition score_counts :: "string \<Rightarrow> nat \<Rightarrow> nat \<Rightarrow> peer_score \<Rightarrow> bool" where
  "score_counts pid a b s \<longleftrightarrow> ps_peer_id s = pid \<and> ps_valid s = word_of_nat a \<and> ps_invalid s = word_of_nat b
     \<and> ps_seen s = word_of_nat (a + b)"

definition pm_counts :: "peer_manager \<Rightarrow> (string \<Rightarrow> nat) \<Rightarrow> (string \<Rightarrow> nat) \<Rightarrow> bool" where
  "pm_counts m a b \<longleftrightarrow> (\<forall>pid. case pm_scores m pid of
     None \<Rightarrow> a pid = 0 \<and> b pid = 0 | Some s \<Rightarrow> score_counts pid (a pid) (b pid) s)"

lemma pm_countsD: "pm_counts m a b \<Longrightarrow> pm_scores m pid = Some s \<Longrightarrow> score_counts pid (a pid) (b pid) s"
  by (auto simp: pm_counts_def split: option.splits dest: spec [of _ pid])

lemma pm_counts_none: "pm_counts m a b \<Longrightarrow> pm_scores m pid = None \<Longrightarrow> a pid = 0 \<and> b pid = 0"
  by (auto simp: pm_counts_def split: option.splits dest: spec [of _ pid])

lemma pm_counts_upd:
  "pm_counts m a b \<Longrightarrow> pm_scores m' = (pm_scores m)(pid \<mapsto> s) \<Longrightarrow> score_counts pid (a' pid) (b' pid) s
     \<Longrightarrow> (\<And>q. q \<noteq> pid \<Longrightarrow> a' q = a q \<and> b' q = b q) \<Longrightarrow> pm_counts m' a' b'"
  unfolding pm_counts_def by (metis (no_types, lifting) fun_upd_other fun_upd_same option.simps(5))

lemma pm_counts_same: "pm_counts m a b \<Longrightarrow> pm_scores m' = pm_scores m \<Longrightarrow> pm_counts m' a b"
  by (simp add: pm_counts_def)

lemma score_counts_fresh: "score_counts pid 0 0 (fresh_score pid t1 t2)"
  by (simp add: score_counts_def fresh_score_def)

lemma score_counts_message:
  "score_counts pid a b s \<Longrightarrow> score_counts pid (a + (if v then 1 else 0)) (b + (if v then 0 else 1)) (count_message v t s)"
  by (simp add: score_counts_def count_message_def Let_def add.commute add.left_commute)

lemma pm_apply_counts:
  assumes "pm_counts m a b"
  shows "pm_counts (fst (pm_apply e m)) (\<lambda>p. a p + messages p True [e]) (\<lambda>p. b p + messages p False [e])"
proof (cases e)
  case (PMessage pid v t1 t2 t3)
  define s where "s = (case pm_scores m pid of Some s \<Rightarrow> s | None \<Rightarrow> fresh_score pid t1 t2)"
  have "score_counts pid (a pid) (b pid) s"
    using pm_countsD [OF assms] pm_counts_none [OF assms] score_counts_fresh [of pid t1 t2]
    unfolding s_def by (cases "pm_scores m pid") auto
  from score_counts_message [OF this, of v t3] show ?thesis
    unfolding PMessage
    by (intro pm_counts_upd [OF assms, where pid = pid and s = "count_message v t3 s"])
       (cases v; simp add: record_message_def s_def Let_def)+
next
  case (PConnected pid t1 t2)
  show ?thesis
  proof (cases "pm_blacklist m pid = None")
    case True
    define s where "s = (case pm_scores m pid of Some s \<Rightarrow> s\<lparr>ps_connected_since := t1, ps_last_seen := t2\<rparr>
      | None \<Rightarrow> fresh_score pid t1 t2)"
    have "score_counts pid (a pid) (b pid) s"
      using pm_countsD [OF assms] pm_counts_none [OF assms] score_counts_fresh [of pid t1 t2]
      unfolding s_def by (cases "pm_scores m pid") (auto simp: score_counts_def)
    with True show ?thesis
      unfolding PConnected
      by (intro pm_counts_upd [OF assms, where pid = pid and s = s])
         (simp_all add: on_connected_def s_def split: option.splits)
  next
    case False
    with assms PConnected show ?thesis by (auto simp: on_connected_def)
  qed
next
  case (PDisconnected pid t)
  then show ?thesis
    by (cases "pm_scores m pid")
       (use assms pm_countsD [OF assms, of pid] in \<open>auto simp: on_disconnected_def score_counts_def intro: pm_counts_upd\<close>)
next
  case (PLatency pid l)
  then show ?thesis
    by (cases "pm_scores m pid")
       (use assms pm_countsD [OF assms, of pid] in \<open>auto simp: record_latency_def score_counts_def intro: pm_counts_upd\<close>)
next
  case (PBan pid r t)
  then show ?thesis
    by (cases "pm_scores m pid")
       (use assms pm_countsD [OF assms, of pid] in
         \<open>auto simp: ban_def Let_def score_counts_def intro: pm_counts_upd pm_counts_same\<close>)
next
  case (PPrune pr cs)
  then show ?thesis using assms by (simp add: prune_def Let_def)
qed

lemma messages_Cons: "messages p v (e # es) = messages p v [e] + messages p v es"
  by (cases e) simp_all

lemma pm_run_counts:
  "pm_counts m a b \<Longrightarrow> pm_counts (pm_run es m) (\<lambda>p. a p + messages p True es) (\<lambda>p. b p + messages p False es)"
proof (induction es arbitrary: m a b)
  case (Cons e es)
  from Cons.IH [OF pm_apply_counts [OF Cons.prems, of e]] show ?case
    unfolding messages_Cons [of _ _ e es] by (simp add: add.assoc)
qed simp

lemma new_pm_counts: "pm_counts (new_peer_manager cfg) (\<lambda>_. 0) (\<lambda>_. 0)"
  by (simp add: pm_counts_def new_peer_manager_def)

lemma validity_unit:
  assumes "ps_seen s = ps_valid s + ps_invalid s" "unat (ps_valid s) + unat (ps_invalid s) < 2 ^ 64"
  shows "\<not> f64_less (F64 1 0) (validity s)" "\<not> f64_less (validity s) (F64 0 0)"
proof -
  have le: "unat (ps_valid s) \<le> unat (ps_seen s)"
    unfolding assms(1) using assms(2) by (simp add: unat_plus_simple [THEN iffD1] no_olen_add_nat)
  show "\<not> f64_less (F64 1 0) (validity s)" "\<not> f64_less (validity s) (F64 0 0)"
  proof (atomize (full), cases "ps_seen s = 0")
    case False
    then have "0 < unat (ps_seen s)" by (simp add: unat_gt_0)
    then have "0 < round53 False (unat (ps_seen s))"
      using round53_lower [of "unat (ps_seen s)" False] by (simp add: order_less_le_trans [rotated])
    with f64_div_unit [OF round53_mono [OF le]] False
    show "\<not> f64_less (F64 1 0) (validity s) \<and> \<not> f64_less (validity s) (F64 0 0)"
      unfolding validity_def f64_of_u64_nat by (simp only: if_False) blast
  qed (simp add: validity_def)
qed

text \<open>In every run of the peer manager a record belongs to its peer and its counters are the numbers
  of valid, invalid and all messages recorded for that peer since the start (no connection, ban or
  pruning resets them), as \<open>uint64\<close>; a peer without a record has none. As long as fewer than \<open>2 ^ 64\<close>
  messages of the peer were recorded, its validity is a number between 0 and 1.\<close>

theorem peer_counters_history:
  "let m = pm_run es (new_peer_manager cfg); a = messages pid True es; b = messages pid False es in
     (case pm_scores m pid of
        None \<Rightarrow> a = 0 \<and> b = 0
      | Some s \<Rightarrow> ps_peer_id s = pid \<and> ps_valid s = word_of_nat a \<and> ps_invalid s = word_of_nat b
          \<and> ps_seen s = word_of_nat (a + b)
          \<and> (a + b < 2 ^ 64 \<longrightarrow> \<not> f64_less (F64 1 0) (validity s) \<and> \<not> f64_less (validity s) (F64 0 0)))"
proof -
  define m where "m = pm_run es (new_peer_manager cfg)"
  define a where "a = messages pid True es"
  define b where "b = messages pid False es"
  have c: "pm_counts m (\<lambda>p. messages p True es) (\<lambda>p. messages p False es)"
    using pm_run_counts [OF new_pm_counts] unfolding m_def by simp
  show ?thesis
  proof (cases "pm_scores m pid")
    case None
    with pm_counts_none [OF c None] show ?thesis by (simp add: m_def)
  next
    case (Some s)
    with pm_countsD [OF c Some] have sc: "score_counts pid a b s" by (simp add: a_def b_def)
    have "\<not> f64_less (F64 1 0) (validity s) \<and> \<not> f64_less (validity s) (F64 0 0)" if "a + b < 2 ^ 64"
    proof (intro conjI validity_unit)
      show "ps_seen s = ps_valid s + ps_invalid s" using sc by (simp add: score_counts_def)
      show "unat (ps_valid s) + unat (ps_invalid s) < 2 ^ 64"
        using sc that by (simp add: score_counts_def unat_of_nat)
    qed (use sc that in \<open>simp_all add: score_counts_def unat_of_nat\<close>)
    with sc Some show ?thesis unfolding Let_def m_def [symmetric] a_def [symmetric] b_def [symmetric]
      by (simp add: score_counts_def)
  qed
qed

theorem peer_counters_history_witness:
  "let m = pm_run [PMessage ''p'' True 1 1 1, PBan ''p'' ''spam'' 2, PMessage ''p'' False 3 3 3] (new_peer_manager default_peer_config)
   in (case pm_scores m ''p'' of Some s \<Rightarrow> ps_seen s = 2 | None \<Rightarrow> False)"
proof -
  define es where "es = [PMessage ''p'' True 1 1 1, PBan ''p'' ''spam'' 2, PMessage ''p'' False 3 3 3]"
  have n: "messages ''p'' True es = 1" "messages ''p'' False es = 1" by (simp_all add: es_def)
  from peer_counters_history [of es default_peer_config "''p''", unfolded Let_def n] show ?thesis
    unfolding es_def [symmetric] by (auto split: option.splits)
qed

section \<open>Bans\<close>

fun bans :: "string \<Rightarrow> pm_event \<Rightarrow> bool" where
  "bans pid (PBan q r t) = (q = pid)"
| "bans pid _ = False"

lemma pm_apply_blacklist:
  "\<not> bans pid e \<Longrightarrow> pm_blacklist (fst (pm_apply e m)) pid = pm_blacklist m pid"
  by (cases e) (simp_all add: pm_defs split: option.splits)

lemma pm_run_blacklist:
  "\<forall>e \<in> set es. \<not> bans pid e \<Longrightarrow> pm_blacklist (pm_run es m) pid = pm_blacklist m pid"
  by (induction es arbitrary: m) (simp_all add: pm_apply_blacklist)

lemma ban_blacklist: "pm_blacklist (fst (ban pid r t m)) pid = Some (t + pm_ban_duration m)"
  by (simp add: ban_def Let_def split: option.splits)

text \<open>After \<^verbatim>\<open>Ban\<close> at the instant \<open>t\<close> and any further calls that do not ban the peer again,
  \<^verbatim>\<open>IsBlacklisted\<close> answers yes up to and including \<open>t\<close> plus the duration of a ban and no from then on;
  but the handler of new connections refuses the peer at every instant, also after the ban has
  expired: it closes the connection and records nothing.\<close>

theorem ban_two_readings:
  assumes "\<forall>e \<in> set es. \<not> bans pid e"
  shows "let m' = pm_run es (fst (ban pid reason t m)) in
    (\<forall>u. is_blacklisted pid u m' \<longleftrightarrow> u \<le> t + pm_ban_duration m)
    \<and> (\<forall>t1 t2. on_connected pid t1 t2 m' = (m', [pid]))"
  using pm_run_blacklist [OF assms] ban_blacklist
  by (simp add: Let_def is_blacklisted_def on_connected_def not_less)

theorem ban_two_readings_witness:
  "let m' = pm_run [PMessage ''p'' True 5 5 5] (fst (ban ''p'' ''spam'' 7 (new_peer_manager default_peer_config)))
   in \<not> is_blacklisted ''p'' (8 + 3600 * 10 ^ 9) m'
      \<and> on_connected ''p'' (8 + 3600 * 10 ^ 9) (8 + 3600 * 10 ^ 9) m' = (m', [''p''])"
proof -
  have d: "pm_ban_duration (new_peer_manager default_peer_config) = 3600 * 10 ^ 9"
    by (simp add: new_peer_manager_def default_peer_config_def)
  have h: "\<forall>e \<in> set [PMessage ''p'' True 5 5 5]. \<not> bans ''p'' e" by simp
  show ?thesis
    using ban_two_readings [OF h, of "''spam''" 7 "new_peer_manager default_peer_config"]
    by (simp only: Let_def d) simp
qed

section \<open>Pruning\<close>

lemma prune_candidates_filter:
  "map fst (prune_candidates protected m connected) =
     filter (\<lambda>pid. \<not> protected pid \<and> f64_less (prune_score m pid) (pm_min_score m)) connected"
  by (induction connected) (simp_all add: prune_candidates_def Let_def)

lemma prune_closed:
  "snd (prune protected connected m) =
     (if int (length connected) \<le> pm_max_peers m then []
      else take (nat (int (length connected) - pm_max_peers m))
        (filter (\<lambda>pid. \<not> protected pid \<and> f64_less (prune_score m pid) (pm_min_score m)) connected))"
  by (simp add: prune_def Let_def take_map [symmetric] prune_candidates_filter)

text \<open>A pruning leaves the records alone and closes only connected, unprotected peers whose validity
  is below the minimum (0 for a peer without a record). It never goes below the maximal number of
  connections, it closes nothing up to that number, and above it closes either all the excess or every
  peer it may close.\<close>

theorem prune_bounds:
  "let closed = snd (prune protected connected m); n = length connected in
     fst (prune protected connected m) = m
     \<and> (\<forall>pid \<in> set closed. pid \<in> set connected \<and> \<not> protected pid \<and> f64_less (prune_score m pid) (pm_min_score m))
     \<and> (closed = [] \<or> pm_max_peers m \<le> int n - int (length closed))
     \<and> (int n \<le> pm_max_peers m \<longrightarrow> closed = [])
     \<and> (pm_max_peers m < int n \<longrightarrow> int n - int (length closed) = pm_max_peers m
          \<or> closed = filter (\<lambda>pid. \<not> protected pid \<and> f64_less (prune_score m pid) (pm_min_score m)) connected)"
proof -
  define ok where "ok = (\<lambda>pid. \<not> protected pid \<and> f64_less (prune_score m pid) (pm_min_score m))"
  have m: "fst (prune protected connected m) = m" by (simp add: prune_def Let_def)
  have c: "snd (prune protected connected m) = (if int (length connected) \<le> pm_max_peers m then []
      else take (nat (int (length connected) - pm_max_peers m)) (filter ok connected))"
    unfolding ok_def by (rule prune_closed)
  show ?thesis
  proof (cases "int (length connected) \<le> pm_max_peers m")
    case True
    then show ?thesis unfolding Let_def m c by simp
  next
    case False
    define k where "k = nat (int (length connected) - pm_max_peers m)"
    have k: "int k = int (length connected) - pm_max_peers m" using False by (simp add: k_def)
    have closed: "snd (prune protected connected m) = take k (filter ok connected)"
      unfolding c k_def using False by simp
    define ys where "ys = take k (filter ok connected)"
    have "\<forall>pid \<in> set ys. pid \<in> set connected \<and> ok pid"
      unfolding ys_def by (auto dest: in_set_takeD)
    moreover have "length ys \<le> k" by (simp add: ys_def)
    then have "pm_max_peers m \<le> int (length connected) - int (length ys)" using k by linarith
    moreover have "length ys = k \<or> ys = filter ok connected"
      unfolding ys_def by (cases "k \<le> length (filter ok connected)") simp_all
    then have "int (length connected) - int (length ys) = pm_max_peers m \<or> ys = filter ok connected"
      using k by linarith
    ultimately show ?thesis
      using False m unfolding Let_def closed ys_def [symmetric] ok_def [symmetric]
      by (simp add: ok_def)
  qed
qed

theorem prune_bounds_witness:
  "snd (prune (\<lambda>p. False) [''a'', ''b''] (new_peer_manager (default_peer_config\<lparr>pc_max_peers := 1\<rparr>))) \<noteq> []"
proof -
  define m where "m = new_peer_manager (default_peer_config\<lparr>pc_max_peers := 1\<rparr>)"
  have m: "pm_max_peers m = 1" "pm_min_score m = F64 1 1" "\<And>p. prune_score m p = F64 0 0"
    by (simp_all add: m_def new_peer_manager_def default_peer_config_def prune_score_def)
  then have n: "snd (prune (\<lambda>p. False) [''a'', ''b''] m) = [] \<Longrightarrow> False"
    using prune_bounds [of "\<lambda>p. False" "[''a'', ''b'']" m] by (auto simp: Let_def)
  then show ?thesis unfolding m_def by blast
qed

text \<open>The pruning takes the first candidates in the order the host lists the connections, not the
  worst ones its comments name: with one connection too many it closes a peer with one valid message
  in three and keeps one whose only message was invalid.\<close>

definition two_bad_peers :: peer_manager where
  "two_bad_peers = pm_run [PMessage ''mixed'' True 1 1 1, PMessage ''mixed'' False 2 2 2, PMessage ''mixed'' False 3 3 3,
     PMessage ''worst'' False 4 4 4] (new_peer_manager (default_peer_config\<lparr>pc_max_peers := 1\<rparr>))"

theorem prune_not_worst:
  "snd (prune (\<lambda>p. False) [''mixed'', ''worst''] two_bad_peers) = [''mixed'']
   \<and> f64_less (prune_score two_bad_peers ''worst'') (prune_score two_bad_peers ''mixed'')"
proof -
  have s: "prune_score two_bad_peers ''mixed'' = f64_div (f64_of_u64 1) (f64_of_u64 3)"
    "prune_score two_bad_peers ''worst'' = f64_div (f64_of_u64 0) (f64_of_u64 1)"
    by (simp_all add: two_bad_peers_def prune_score_def record_message_def count_message_def fresh_score_def
        new_peer_manager_def validity_def Let_def)
  have m: "pm_max_peers two_bad_peers = 1" "pm_min_score two_bad_peers = F64 1 1"
    by (simp_all add: two_bad_peers_def record_message_def new_peer_manager_def default_peer_config_def Let_def)
  have v: "f64_less (f64_div (f64_of_u64 1) (f64_of_u64 3)) (F64 1 1)"
    "f64_less (f64_div (f64_of_u64 0) (f64_of_u64 1)) (f64_div (f64_of_u64 1) (f64_of_u64 3))"
    by (simp_all add: f64_of_u64_def f64_eval)
  show ?thesis
    unfolding prune_closed s m using v by (simp add: s)
qed

end
