(* ===== verification/ProtocolProps.thy ===== *)
theory ProtocolProps
  imports Protocol PeerManagerProps
begin

text \<open>
  The wire format can be read back, except where it is cut; a handler answers with the blocks it has;
  and a synchronisation with an honest peer ends.
\<close>

section \<open>Fields\<close>

named_theorems wire \<open>reading what was written\<close>

lemma length_put [simp]: "length (put_u64 v) = 8" "length (put_u32 w) = 4"
  by (simp_all add: put_u64_def put_u32_def)

lemma length_copy_left [simp]: "length (copy_left n b) = n"
  by (simp add: copy_left_def)

lemma copy_left_id: "length b = n \<Longrightarrow> copy_left n b = b"
  by (simp add: copy_left_def)

lemma unat_bounds:
  fixes v :: u64 and w :: u32
  shows "unat v < 256 ^ 8" "unat w < 256 ^ 4"
proof -
  have "unat v < 2 ^ 64" "unat w < 2 ^ 32" using unsigned_less [of v] unsigned_less [of w] by simp_all
  then show "unat v < 256 ^ 8" "unat w < 256 ^ 4" by simp_all
qed

lemma get_put_u64 [wire]: "get_u64 (put_u64 v @ r) 0 = v"
  by (simp add: get_u64_def put_u64_def be_nat_be_bytes [OF unat_bounds(1)])

lemma get_put_u32 [wire]: "get_u32 (put_u32 v @ r) 0 = v"
  by (simp add: get_u32_def put_u32_def be_nat_be_bytes [OF unat_bounds(2)])

lemma get_skip [wire]:
  "length x \<le> i \<Longrightarrow> get_u64 (x @ r) i = get_u64 r (i - length x)"
  "length x \<le> i \<Longrightarrow> get_u32 (x @ r) i = get_u32 r (i - length x)"
  by (simp_all add: get_u64_def get_u32_def)

lemma get_skip1 [wire]:
  "0 < i \<Longrightarrow> get_u64 (b # r) i = get_u64 r (i - 1)" "0 < i \<Longrightarrow> get_u32 (b # r) i = get_u32 r (i - 1)"
  using get_skip [of "[b]" i r] by simp_all

lemma get_put_end [wire]: "get_u32 (put_u32 v) 0 = v"
  using get_put_u32 [of v "[]"] by simp

lemma decode_encode_status:
  assumes "length (st_state_root s) = 32" "length (st_genesis_hash s) = 32"
  shows "decode_status t (encode_status t s @ rest) = Ok s"
  unfolding decode_status_def encode_status_def
  by (simp add: wire copy_left_id assms bytes_to_hash_def)

lemma decode_encode_block_request: "decode_block_request (encode_block_request r) = Ok r"
  unfolding decode_block_request_def encode_block_request_def by (simp add: wire)

lemma put_block_append: "put_block b @ d = put_u32 (word_of_nat (length b)) @ b @ d"
  by (simp add: put_block_def)

lemma decode_block_step:
  assumes "length b < 2 ^ 32"
  shows "decode_blocks (Suc n) (put_block b @ d) acc = decode_blocks n d (acc @ [b])"
proof -
  have "get_u32 (put_block b @ d) 0 = word_of_nat (length b)"
    unfolding put_block_append by (rule get_put_u32)
  moreover have "drop 4 (put_block b @ d) = b @ d" unfolding put_block_append by simp
  moreover have "\<not> length (put_block b @ d) < 4" by (simp add: put_block_def)
  ultimately show ?thesis using assms by (simp add: unat_of_nat Let_def)
qed

lemma decode_blocks_put:
  assumes "\<forall>b \<in> set bs. length b < 2 ^ 32"
  shows "decode_blocks (length bs + n) (concat (map put_block bs) @ d) acc = decode_blocks n d (acc @ bs)"
  using assms
proof (induction bs arbitrary: acc)
  case (Cons b bs)
  then show ?case
    using decode_block_step [of b "length bs + n" "concat (map put_block bs) @ d" acc] by simp
qed simp

lemma decode_response_eq:
  "length bs < 2 ^ 32 \<Longrightarrow> decode_block_response ([msg_block_response] @ put_u32 (word_of_nat (length bs)) @ d)
     = decode_blocks (length bs) d []"
  unfolding decode_block_response_def by (simp add: wire unat_of_nat)

lemma decode_encode_response:
  assumes "length bs < 2 ^ 32" "\<forall>b \<in> set bs. length b < 2 ^ 32"
  shows "decode_block_response (encode_block_response bs) = Ok bs"
  using decode_blocks_put [OF assms(2), of 0 "[]" "[]"]
  unfolding encode_block_response_def decode_response_eq [OF assms(1)] by simp

lemma length_write_message [simp]: "length (write_message d) = 4 + length d"
  by (simp add: write_message_def)

lemma write_message_ne [simp]: "write_message d \<noteq> []"
  by (metis length_write_message list.size(3) add_is_0 zero_neq_numeral)

lemma drop_write_message [simp]: "drop 4 (write_message d) = d"
  by (simp add: write_message_def)

lemma read_write_message:
  assumes "length d \<le> message_cap"
  shows "read_message (write_message d @ rest) = Ok (d, rest)"
proof -
  have "length d < 2 ^ 32" using assms by (simp add: message_cap_def)
  then have "unat (word_of_nat (length d) :: u32) = length d" by (simp add: unat_of_nat)
  moreover have "get_u32 (write_message d @ rest) 0 = word_of_nat (length d)"
    unfolding write_message_def by (simp add: wire)
  ultimately show ?thesis using assms unfolding read_message_def Let_def by simp
qed

lemma read_write_too_large:
  assumes "message_cap < length d" "length d < 2 ^ 32"
  shows "read_message (write_message d @ rest) = Err ''message too large''"
proof -
  have "unat (word_of_nat (length d) :: u32) = length d" using assms by (simp add: unat_of_nat)
  moreover have "get_u32 (write_message d @ rest) 0 = word_of_nat (length d)"
    unfolding write_message_def by (simp add: wire)
  ultimately show ?thesis using assms unfolding read_message_def Let_def by simp
qed

section \<open>Round trips and cuts\<close>

text \<open>C33: what the encoders write, sent as a frame of at most 10 MB and followed by any bytes, is read
  back as it was: a status with 32-byte hashes, a request for blocks, and a response of fewer than
  \<open>2 ^ 32\<close> blocks each shorter than \<open>2 ^ 32\<close> bytes.\<close>

theorem wire_roundtrip:
  assumes "length (st_state_root s) = 32" "length (st_genesis_hash s) = 32"
    and "length (encode_block_response bs) \<le> message_cap"
  shows "read_message (write_message (encode_status_request s) @ rest) = Ok (encode_status_request s, rest)
     \<and> decode_status_request (encode_status_request s) = Ok s
     \<and> decode_status_response (encode_status_response s) = Ok s
     \<and> read_message (write_message (encode_block_request r) @ rest) = Ok (encode_block_request r, rest)
     \<and> decode_block_request (encode_block_request r) = Ok r
     \<and> read_message (write_message (encode_block_response bs) @ rest) = Ok (encode_block_response bs, rest)
     \<and> decode_block_response (encode_block_response bs) = Ok bs"
proof -
  have put_len: "length (put_block b) = 4 + length b" for b by (simp add: put_block_def)
  have len: "length (encode_block_response bs) = 5 + sum_list (map (\<lambda>b. 4 + length b) bs)"
    by (simp add: encode_block_response_def length_concat comp_def put_len)
  have one: "4 + length b \<le> sum_list (map (\<lambda>b. 4 + length b) bs)" if "b \<in> set bs" for b
    using member_le_sum_list [of "4 + length b" "map (\<lambda>b. 4 + length b) bs"] that by simp
  have "length bs * 4 \<le> sum_list (map (\<lambda>b. 4 + length b) bs)" by (induction bs) auto
  then have "length bs < 2 ^ 32" "\<forall>b \<in> set bs. length b < 2 ^ 32"
    using assms(3) one unfolding len message_cap_def by force+
  then have dec: "decode_block_response (encode_block_response bs) = Ok bs" by (rule decode_encode_response)
  have st: "decode_status t (encode_status t s) = Ok s" for t
    using decode_encode_status [OF assms(1,2), of t "[]"] by simp
  have small: "length (encode_status_request s) \<le> message_cap" "length (encode_block_request r) \<le> message_cap"
    by (simp_all add: encode_status_request_def encode_status_def encode_block_request_def message_cap_def)
  show ?thesis
    using read_write_message [OF small(1)] read_write_message [OF small(2)] read_write_message [OF assms(3)] dec
      st [of msg_status_request] st [of msg_status_response] decode_encode_block_request
    by (simp add: decode_status_request_def encode_status_request_def decode_status_response_def encode_status_response_def)
qed

theorem wire_roundtrip_witness:
  "decode_block_response (encode_block_response [[1, 2], []]) = Ok [[1, 2], []]"
proof -
  define s where "s = \<lparr>st_chain_id = 1, st_height = 2, st_state_root = replicate 32 0, st_genesis_hash = replicate 32 0\<rparr>"
  have h: "length (st_state_root s) = 32" "length (st_genesis_hash s) = 32"
    "length (encode_block_response [[1, 2], []]) \<le> message_cap"
    by (simp_all add: s_def encode_block_response_def put_block_def message_cap_def)
  show ?thesis using wire_roundtrip [OF h] by simp
qed

text \<open>A response that breaks off between two blocks (or within the length of the next one) is
  accepted, and yields the blocks before the break without an error although its count promises more;
  one that breaks off within a block is refused.\<close>

theorem response_cut:
  assumes "length bs < 2 ^ 32" "\<forall>b \<in> set bs. length b < 2 ^ 32" "k < length bs"
  shows "length junk < 4 \<Longrightarrow> decode_block_response ([msg_block_response] @ put_u32 (word_of_nat (length bs))
            @ concat (map put_block (take k bs)) @ junk) = Ok (take k bs)"
    and "j < length (bs ! k) \<Longrightarrow> decode_block_response ([msg_block_response] @ put_u32 (word_of_nat (length bs))
            @ concat (map put_block (take k bs)) @ put_u32 (word_of_nat (length (bs ! k))) @ take j (bs ! k))
            = Err err_truncated_response"
proof -
  have all: "\<forall>b \<in> set (take k bs). length b < 2 ^ 32" using assms(2) by (auto dest: in_set_takeD)
  have n: "length bs = length (take k bs) + Suc (length bs - k - 1)" using assms(3) by simp
  have step: "decode_block_response ([msg_block_response] @ put_u32 (word_of_nat (length bs))
      @ concat (map put_block (take k bs)) @ d) = decode_blocks (Suc (length bs - k - 1)) d (take k bs)" for d
    unfolding decode_response_eq [OF assms(1)]
    using decode_blocks_put [OF all, of "Suc (length bs - k - 1)" d "[]"] by (subst n) simp
  show "length junk < 4 \<Longrightarrow> decode_block_response ([msg_block_response] @ put_u32 (word_of_nat (length bs))
            @ concat (map put_block (take k bs)) @ junk) = Ok (take k bs)"
    unfolding step by simp
  have "length (bs ! k) < 2 ^ 32" using assms by simp
  then show "j < length (bs ! k) \<Longrightarrow> decode_block_response ([msg_block_response] @ put_u32 (word_of_nat (length bs))
            @ concat (map put_block (take k bs)) @ put_u32 (word_of_nat (length (bs ! k))) @ take j (bs ! k))
            = Err err_truncated_response"
    unfolding step by (simp add: wire unat_of_nat Let_def)
qed

theorem response_cut_witness:
  "decode_block_response [4, 0, 0, 0, 2, 0, 0, 0, 1, 9] = Ok [[9]]
   \<and> decode_block_response [4, 0, 0, 0, 2, 0, 0, 0, 1] = Err err_truncated_response"
proof -
  have put: "put_u32 2 = [0, 0, 0, 2]" "put_u32 1 = [0, 0, 0, 1]"
    by (simp_all add: put_u32_def be_bytes.simps(2) [where n = "pred_numeral k" for k, folded numeral_eq_Suc] be_bytes_1)
  have blk: "put_block [9] = [0, 0, 0, 1, 9]" by (simp add: put_block_def put)
  from response_cut(1) [of "[[9], [8]]" 1 "[]"] response_cut(2) [of "[[9], [8]]" 0 0]
  show ?thesis by (simp add: put blk msg_block_response_def)
qed

text \<open>The count of a response is trusted before a block is read: five bytes reserve the room for
  \<open>2 ^ 32 - 1\<close> blocks, and are a valid response without blocks.\<close>

theorem five_byte_response:
  "reserved_blocks [4, 255, 255, 255, 255] = 4294967295 \<and> decode_block_response [4, 255, 255, 255, 255] = Ok []"
proof -
  have g: "get_u32 [4, 255, 255, 255, 255] 1 = 4294967295" by (simp add: get_u32_def be_nat_def)
  have d: "decode_blocks (Suc n) [] [] = Ok []" for n by simp
  have n: "decode_blocks 4294967295 [] [] = Ok []" using d [of 4294967294] by simp
  show ?thesis
    unfolding reserved_blocks_def decode_block_response_def g by (simp add: msg_block_response_def n)
qed

section \<open>Serving blocks\<close>

definition held :: "(byte list \<Rightarrow> hash) \<Rightarrow> blockchain \<Rightarrow> u64 \<Rightarrow> byte list" where
  "held sha bc h = encode_block sha (bc_heap bc (the (get_block_by_height h bc)))"

lemma length_held [simp]: "length (held sha bc h) = 44"
  by (simp add: held_def encode_block_def)

lemma add_of_nat_Suc: "h + word_of_nat (Suc i) = (h + 1) + (word_of_nat i :: u64)"
  by (simp add: algebra_simps)

text \<open>The loop stops at the first height \<open>h + k\<close> that is missing or beyond the bound.\<close>

lemma serve_blocks_run:
  assumes "\<And>i. i < k \<Longrightarrow> h + word_of_nat i \<le> e \<and> get_block_by_height (h + word_of_nat i) bc \<noteq> None"
    and "\<not> h + word_of_nat k \<le> e \<or> get_block_by_height (h + word_of_nat k) bc = None"
  shows "serve_blocks sha bc h e acc = Some (acc @ map (\<lambda>i. held sha bc (h + word_of_nat i)) [0..<k])"
  using assms
proof (induction k arbitrary: h acc)
  case 0
  then show ?case by (simp add: serve_blocks.simps [of sha bc h e acc])
next
  case (Suc k)
  have h: "h \<le> e" "get_block_by_height h bc \<noteq> None" using Suc.prems(1) [of 0] by simp_all
  have "serve_blocks sha bc (h + 1) e (acc @ [held sha bc h])
      = Some ((acc @ [held sha bc h]) @ map (\<lambda>i. held sha bc ((h + 1) + word_of_nat i)) [0..<k])"
  proof (rule Suc.IH)
    show "(h + 1) + word_of_nat i \<le> e \<and> get_block_by_height ((h + 1) + word_of_nat i) bc \<noteq> None" if "i < k" for i
      using Suc.prems(1) [of "Suc i"] that unfolding add_of_nat_Suc by simp
    show "\<not> (h + 1) + word_of_nat k \<le> e \<or> get_block_by_height ((h + 1) + word_of_nat k) bc = None"
      using Suc.prems(2) unfolding add_of_nat_Suc .
  qed
  moreover have "map (\<lambda>i. held sha bc (h + word_of_nat i)) [0..<Suc k]
      = held sha bc h # map (\<lambda>i. held sha bc ((h + 1) + word_of_nat i)) [0..<k]"
    unfolding upt_conv_Cons [OF zero_less_Suc] by (simp add: map_Suc_upt [symmetric] add_of_nat_Suc del: of_nat_Suc upt_Suc)
  ultimately show ?case
    using h by (simp add: serve_blocks.simps [of sha bc h e acc] held_def [symmetric] del: upt_Suc)
qed

lemma unat_plus_of_nat: "unat (h :: u64) + i < 2 ^ 64 \<Longrightarrow> unat (h + word_of_nat i) = unat h + i"
  by (simp add: unat_word_ariths unat_of_nat)

text \<open>A run of \<open>n\<close> heights that are there, the next one beyond the bound or missing.\<close>

lemma serve_blocks_interval:
  assumes present: "\<And>x. start \<le> x \<Longrightarrow> unat x < unat start + n \<Longrightarrow> get_block_by_height x bc \<noteq> None"
    and e: "n = 0 \<or> unat start + n \<le> unat e + 1"
    and stop: "unat start + n < 2 ^ 64" "unat e < unat start + n \<or> get_block_by_height (start + word_of_nat n) bc = None"
  shows "serve_blocks sha bc start e [] = Some (map (\<lambda>i. held sha bc (start + word_of_nat i)) [0..<n])"
proof -
  have u: "unat (start + word_of_nat i) = unat start + i" if "i \<le> n" for i
    using stop(1) that by (intro unat_plus_of_nat) simp
  have "serve_blocks sha bc start e [] = Some ([] @ map (\<lambda>i. held sha bc (start + word_of_nat i)) [0..<n])"
  proof (rule serve_blocks_run)
    show "start + word_of_nat i \<le> e \<and> get_block_by_height (start + word_of_nat i) bc \<noteq> None" if "i < n" for i
      using u [of i] that e present [of "start + word_of_nat i"] by (simp add: word_le_nat_alt)
    show "\<not> start + word_of_nat n \<le> e \<or> get_block_by_height (start + word_of_nat n) bc = None"
      using u [of n] stop by (auto simp: word_le_nat_alt)
  qed
  then show ?thesis by simp
qed

lemma capped_end_unat:
  assumes "br_start r \<le> br_end r"
  shows "(if unat (br_max r) < unat (br_end r) - unat (br_start r)
      then unat (capped_end r) + 1 = (if br_start r = 0 \<and> br_max r = 0 then 2 ^ 64 else unat (br_start r) + unat (br_max r))
      else capped_end r = br_end r)"
proof -
  have d: "unat (br_end r - br_start r) = unat (br_end r) - unat (br_start r)"
    using assms by (simp add: unat_sub word_le_nat_alt)
  have m: "unat (ucast (br_max r) :: u64) = unat (br_max r)" 
    using unat_bounds(2) [of "br_max r"] by (simp add: unsigned_ucast_eq take_bit_nat_eq_self)
  have c: "ucast (br_max r) < br_end r - br_start r \<longleftrightarrow> unat (br_max r) < unat (br_end r) - unat (br_start r)"
    unfolding word_less_nat_alt d m ..
  show ?thesis
  proof (cases "unat (br_max r) < unat (br_end r) - unat (br_start r)")
    case True
    have lt: "unat (br_end r) < 2 ^ 64" using unat_bounds(1) [of "br_end r"] by simp
    have s: "unat (br_start r + ucast (br_max r)) = unat (br_start r) + unat (br_max r)"
      using True lt m by (simp add: unat_word_ariths)
    have e: "capped_end r = br_start r + ucast (br_max r) - 1" using True c by (simp add: capped_end_def)
    show ?thesis
    proof (cases "br_start r = 0 \<and> br_max r = 0")
      case zero: True
      then have "capped_end r = - 1" using e by simp
      then show ?thesis using True zero by (simp add: unsigned_minus_1_eq_mask mask_eq_exp_minus_1)
    next
      case False
      then have "0 < unat (br_start r) + unat (br_max r)" by (simp add: unat_gt_0) 
      then have "br_start r + ucast (br_max r) \<noteq> 0" using s by (metis less_not_refl unat_0)
      then have "unat (capped_end r) = unat (br_start r) + unat (br_max r) - 1"
        unfolding e by (simp add: unat_minus_one s)
      with \<open>0 < unat (br_start r) + unat (br_max r)\<close> True False show ?thesis by auto
    qed
  qed (simp add: capped_end_def c)
qed

definition served_count :: "block_request \<Rightarrow> u64 \<Rightarrow> nat" where
  "served_count r m = min (unat m - unat (br_start r)) (unat (capped_end r) + 1 - unat (br_start r))"

lemma serve_blocks_answer:
  assumes "br_start r \<le> m" "get_block_by_height m bc = None"
    and "\<forall>x. br_start r \<le> x \<and> x < m \<longrightarrow> get_block_by_height x bc \<noteq> None"
  shows "serve_blocks sha bc (br_start r) (capped_end r) []
    = Some (map (\<lambda>i. held sha bc (br_start r + word_of_nat i)) [0..<served_count r m])"
proof (rule serve_blocks_interval)
  have m: "unat m < 2 ^ 64" "unat (br_start r) \<le> unat m"
    using unat_bounds(1) [of m] assms(1) by (simp_all add: word_le_nat_alt)
  then show "unat (br_start r) + served_count r m < 2 ^ 64" by (simp add: served_count_def)
  show "get_block_by_height x bc \<noteq> None" if "br_start r \<le> x" "unat x < unat (br_start r) + served_count r m" for x
    using assms(3) that m by (simp add: served_count_def word_less_nat_alt)
  show "served_count r m = 0 \<or> unat (br_start r) + served_count r m \<le> unat (capped_end r) + 1"
    by (auto simp: served_count_def)
  show "unat (capped_end r) < unat (br_start r) + served_count r m
      \<or> get_block_by_height (br_start r + word_of_nat (served_count r m)) bc = None"
  proof (cases "unat m - unat (br_start r) \<le> unat (capped_end r) + 1 - unat (br_start r)")
    case True
    have "br_start r + word_of_nat (unat m - unat (br_start r)) = m"
      using m by (intro word_unat_eq_iff [THEN iffD2]) (simp add: unat_plus_of_nat)
    with True assms(2) show ?thesis by (simp add: served_count_def)
  next
    case False
    then have "served_count r m = unat (capped_end r) + 1 - unat (br_start r)"
      unfolding served_count_def by (intro min_absorb2) simp
    then show ?thesis by (intro disjI1) arith
  qed
qed

lemma handle_block_sync_request:
  assumes "br_start r \<le> br_end r"
  shows "handle_block_sync sha bc pid clk lat (write_message (encode_block_request r)) pm =
    Option.bind (serve_blocks sha bc (br_start r) (capped_end r) []) (\<lambda>blocks.
      Some (write_message (encode_block_response blocks),
        case clk of (t1, t2, t3) \<Rightarrow> fst (record_latency pid lat (fst (record_message pid True t1 t2 t3 pm)))))"
proof -
  have "length (encode_block_request r) \<le> message_cap"
    by (simp add: encode_block_request_def message_cap_def)
  from read_write_message [OF this, of "[]"] show ?thesis
    using assms by (simp add: handle_block_sync_def decode_encode_block_request leD)
qed

text \<open>A request for a range is answered with the blocks of the range in order, from its start up to
  the first height that is missing (\<open>m\<close>) or the end of the range, cut by the limit. The limit is off by
  one: never more than \<open>MaxBlocks + 1\<close> blocks are sent, and exactly that many when the range is one
  longer than the limit. A limit of 0 for a range from 0 lifts it: the whole chain is sent.\<close>

theorem block_sync_answer:
  assumes "br_start r \<le> br_end r" "br_start r \<le> m" "get_block_by_height m bc = None"
    and "\<forall>x. br_start r \<le> x \<and> x < m \<longrightarrow> get_block_by_height x bc \<noteq> None"
  shows "(\<exists>pm'. handle_block_sync sha bc pid clk lat (write_message (encode_block_request r)) pm =
      Some (write_message (encode_block_response
        (map (\<lambda>i. held sha bc (br_start r + word_of_nat i)) [0..<served_count r m])), pm'))
    \<and> (served_count r m \<le> unat (br_max r) + 1 \<or> br_start r = 0 \<and> br_max r = 0)
    \<and> (unat (br_end r) - unat (br_start r) = unat (br_max r) \<and> br_end r < m \<longrightarrow> served_count r m = unat (br_max r) + 1)
    \<and> (br_start r = 0 \<and> br_max r = 0 \<and> 0 < br_end r \<longrightarrow> served_count r m = unat m)"
proof (intro conjI impI)
  show "\<exists>pm'. handle_block_sync sha bc pid clk lat (write_message (encode_block_request r)) pm =
      Some (write_message (encode_block_response
        (map (\<lambda>i. held sha bc (br_start r + word_of_nat i)) [0..<served_count r m])), pm')"
    unfolding handle_block_sync_request [OF assms(1)] serve_blocks_answer [OF assms(2-4)] by simp
  note cap = capped_end_unat [OF assms(1)]
  show "served_count r m \<le> unat (br_max r) + 1 \<or> br_start r = 0 \<and> br_max r = 0"
    using cap by (auto simp: served_count_def split: if_splits)
  show "served_count r m = unat (br_max r) + 1"
    if "unat (br_end r) - unat (br_start r) = unat (br_max r) \<and> br_end r < m"
    using cap that assms(1) unfolding served_count_def min_def word_less_nat_alt word_le_nat_alt
    by (simp split: if_splits) arith
  show "served_count r m = unat m" if "br_start r = 0 \<and> br_max r = 0 \<and> 0 < br_end r"
    using cap that unat_bounds(1) [of m] by (simp add: served_count_def word_less_nat_alt)
qed

text \<open>A chain of two blocks at the heights 0 and 1, at the same reference.\<close>

definition two_heights :: "blockchain \<Rightarrow> blockchain" where
  "two_heights bc = bc\<lparr>bc_current := Some 0, bc_heights := [0 \<mapsto> 0, 1 \<mapsto> 0]\<rparr>"

theorem block_sync_answer_witness:
  "\<forall>sha bc pid clk lat pm. \<exists>pm'. handle_block_sync sha (two_heights bc) pid clk lat
      (write_message (encode_block_request \<lparr>br_start = 0, br_end = 1, br_max = 1\<rparr>)) pm =
    Some (write_message (encode_block_response [held sha (two_heights bc) 0, held sha (two_heights bc) 1]), pm')"
proof (intro allI)
  fix sha bc pid clk lat pm
  let ?r = "\<lparr>br_start = 0, br_end = 1, br_max = 1\<rparr> :: block_request"
  have present: "\<forall>x. br_start ?r \<le> x \<and> x < 2 \<longrightarrow> get_block_by_height x (two_heights bc) \<noteq> None"
  proof (intro allI impI)
    fix x :: u64 assume "br_start ?r \<le> x \<and> x < 2"
    then have "unat x < 2" by (simp add: word_less_nat_alt)
    then have "unat x = 0 \<or> unat x = 1" by auto
    then have "x = 0 \<or> x = 1" by (metis unat_0 unat_1 unat_eq_iff)
    then show "get_block_by_height x (two_heights bc) \<noteq> None"
      by (auto simp: get_block_by_height_def two_heights_def)
  qed
  have missing: "get_block_by_height 2 (two_heights bc) = None"
    by (simp add: get_block_by_height_def two_heights_def)
  have "br_start ?r \<le> br_end ?r" "br_start ?r \<le> 2" by simp_all
  note t = block_sync_answer [OF this missing present, of sha pid clk lat pm]
  have "served_count ?r 2 = 2" using t by (simp add: word_less_nat_alt)
  then have u: "[0..<served_count ?r 2] = [0, 1]" by (simp add: upt_rec)
  show "\<exists>pm'. handle_block_sync sha (two_heights bc) pid clk lat (write_message (encode_block_request ?r)) pm =
    Some (write_message (encode_block_response [held sha (two_heights bc) 0, held sha (two_heights bc) 1]), pm')"
    using t unfolding u by simp
qed

section \<open>Synchronisation\<close>

text \<open>The best peer: no peer that answers reports more, and a height above one's own was reported by it.\<close>

lemma best_peer_le: "fst b \<le> fst (best_peer net h bc n pids b)"
proof (induction pids arbitrary: n b)
  case (Cons pid pids)
  define b' where "b' = (case request_status net n h bc pid of
    Ok resp \<Rightarrow> (if fst b < st_height resp then (st_height resp, pid) else b) | _ \<Rightarrow> b)"
  have "fst b \<le> fst b'" by (auto simp: b'_def split: outcome.splits)
  with Cons.IH [of b' "n + 1"] show ?case by (simp add: b'_def)
qed simp

lemma best_peer_greatest:
  "i < length pids \<Longrightarrow> request_status net (n + i) h bc (pids ! i) = Ok resp \<Longrightarrow>
     st_height resp \<le> fst (best_peer net h bc n pids b)"
proof (induction pids arbitrary: n b i)
  case (Cons pid pids)
  show ?case
  proof (cases i)
    case 0
    have "st_height resp \<le> fst (if fst b < st_height resp then (st_height resp, pid) else b)" by (simp add: not_less)
    also have "\<dots> \<le> fst (best_peer net h bc n (pid # pids) b)"
      using Cons.prems 0 best_peer_le [of "if fst b < st_height resp then (st_height resp, pid) else b" net h bc "n + 1" pids] by simp
    finally show ?thesis .
  next
    case (Suc j)
    then show ?thesis using Cons.prems Cons.IH [of j "n + 1"] by simp
  qed
qed simp

definition honest_stream :: "(byte list \<Rightarrow> hash) \<Rightarrow> blockchain \<Rightarrow> (byte list \<Rightarrow> byte list option) \<Rightarrow> bool" where
  "honest_stream sha bc s \<longleftrightarrow> (\<exists>me clk lat pm. s = (\<lambda>d. map_option fst (handle_block_sync sha bc me clk lat d pm)))"

lemma small_response:
  assumes "length bs \<le> 64" "\<forall>b \<in> set bs. length b = 44"
  shows "length (encode_block_response bs) \<le> message_cap" "decode_block_response (encode_block_response bs) = Ok bs"
proof -
  have "length (concat (map put_block bs)) = 48 * length bs"
    using assms(2) by (induction bs) (simp_all add: put_block_def)
  with assms(1) show "length (encode_block_response bs) \<le> message_cap"
    by (simp add: encode_block_response_def message_cap_def)
  show "decode_block_response (encode_block_response bs) = Ok bs"
    using assms by (intro decode_encode_response) auto
qed

text \<open>A window asked of an honest peer that has its blocks.\<close>

lemma honest_window:
  assumes s: "net n pid protocol_block_sync = Some s" "honest_stream sha bc s"
    and range: "start \<le> e" "unat e < unat start + 64" "unat e + 1 < 2 ^ 64"
    and present: "\<And>x. start \<le> x \<Longrightarrow> x \<le> e \<Longrightarrow> get_block_by_height x bc \<noteq> None"
  shows "request_blocks net n pid start e 128
    = Ok (map (\<lambda>i. held sha bc (start + word_of_nat i)) [0..<unat e + 1 - unat start])"
proof -
  define r where "r = \<lparr>br_start = start, br_end = e, br_max = 128\<rparr>"
  define bs where "bs = map (\<lambda>i. held sha bc (start + word_of_nat i)) [0..<unat e + 1 - unat start]"
  obtain me clk lat pm where s_def: "s = (\<lambda>d. map_option fst (handle_block_sync sha bc me clk lat d pm))"
    using s(2) unfolding honest_stream_def by blast
  have le: "unat start \<le> unat e" using range(1) by (simp add: word_le_nat_alt)
  have "capped_end r = e"
    using capped_end_unat [of r] range by (simp add: r_def split: if_splits)
  moreover have "serve_blocks sha bc start e [] = Some bs"
    unfolding bs_def
  proof (rule serve_blocks_interval)
    show "get_block_by_height x bc \<noteq> None" if "start \<le> x" "unat x < unat start + (unat e + 1 - unat start)" for x
      using that le by (intro present) (simp_all add: word_le_nat_alt)
  qed (use le range in auto)
  ultimately obtain pm' where a: "handle_block_sync sha bc me clk lat (write_message (encode_block_request r)) pm
      = Some (write_message (encode_block_response bs), pm')"
    using handle_block_sync_request [of r sha bc me clk lat pm] range(1) by (simp add: r_def)
  have "length bs \<le> 64" "\<forall>b \<in> set bs. length b = 44" using range le by (auto simp: bs_def)
  note small = small_response [OF this]
  have "send_message s (encode_block_request r) = Ok (encode_block_response bs)"
    using read_write_message [OF small(1), of "[]"] by (simp add: send_message_def s_def a)
  then show ?thesis
    using s(1) small(2) by (simp add: request_blocks_def r_def bs_def)
qed

lemma sync_loop_honest:
  assumes net: "\<And>k. \<exists>s. net k pid protocol_block_sync = Some s \<and> honest_stream sha bc s"
    and best: "unat best + 64 < 2 ^ 64"
    and present: "\<And>x. ch < x \<Longrightarrow> x \<le> best \<Longrightarrow> get_block_by_height x bc \<noteq> None"
    and ch: "ch \<le> best"
  shows "sync_loop net pid best n ch synced = Some (synced + (int (unat best) - int (unat ch)), None)"
  using present ch
proof (induction "unat best - unat ch" arbitrary: ch n synced rule: less_induct)
  case less
  show ?case
  proof (cases "ch < best")
    case False
    with less.prems(2) have "ch = best" by simp
    then show ?thesis by (subst sync_loop.simps) simp
  next
    case True
    define e where "e = window_end ch best"
    have lt: "unat ch < unat best" using True by (simp add: word_less_nat_alt)
    have c64: "unat (ch + 64) = unat ch + 64" "unat (ch + 1) = unat ch + 1"
      using lt best unat_plus_of_nat [of ch 64] unat_plus_of_nat [of ch 1] by simp_all
    have e: "unat e = min (unat best) (unat ch + 64)"
      by (auto simp: e_def window_end_def word_less_nat_alt c64)
    obtain s where s: "net n pid protocol_block_sync = Some s" "honest_stream sha bc s" using net by blast
    have "window_answer net n pid ch best = Ok (map (\<lambda>i. held sha bc (ch + 1 + word_of_nat i)) [0..<unat e + 1 - unat (ch + 1)])"
      unfolding window_answer_def e_def [symmetric]
    proof (rule honest_window [where net = net and n = n and pid = pid and s = s and sha = sha and bc = bc, OF s])
      show "ch + 1 \<le> e" "unat e < unat (ch + 1) + 64" "unat e + 1 < 2 ^ 64"
        using lt best e by (simp_all add: word_le_nat_alt c64)
      show "get_block_by_height x bc \<noteq> None" if "ch + 1 \<le> x" "x \<le> e" for x
        using that e by (intro less.prems(1)) (simp_all add: word_le_nat_alt word_less_nat_alt c64)
    qed
    then obtain bs where bs: "window_answer net n pid ch best = Ok bs" "length bs = unat e - unat ch"
      by (simp add: c64)
    define ch' where "ch' = ch + word_of_nat (length bs)"
    have ch': "unat ch' = unat e"
      unfolding ch'_def bs(2) using lt best e by (subst unat_plus_of_nat) (auto simp: min_def)
    have "sync_loop net pid best (n + 1) ch' (synced + int (length bs))
        = Some (synced + int (length bs) + (int (unat best) - int (unat ch')), None)"
    proof (rule less.hyps)
      show "unat best - unat ch' < unat best - unat ch" using lt unfolding ch' e by simp
      show "get_block_by_height x bc \<noteq> None" if "ch' < x" "x \<le> best" for x
        using that lt by (intro less.prems(1)) (simp_all add: word_less_nat_alt ch' e)
      show "ch' \<le> best" by (simp add: word_le_nat_alt ch' e)
    qed
    moreover have "synced + int (length bs) + (int (unat best) - int (unat ch')) = synced + (int (unat best) - int (unat ch))"
      using lt unfolding ch' bs(2) e by (simp add: of_nat_diff)
    ultimately show ?thesis
      using True bs(1) by (simp add: sync_loop.simps [of net pid best n ch synced] ch'_def)
  qed
qed

text \<open>A node at height 0 and a network whose peers report height 1.\<close>

lemma request_status_answer:
  assumes "net n pid protocol_status = Some (\<lambda>d. Some (write_message (encode_status_response s)))"
    and "length (st_state_root s) = 32" "length (st_genesis_hash s) = 32" "bc_current bc \<noteq> None"
  shows "request_status net n h bc pid = Ok s"
proof -
  have "length (encode_status_response s) \<le> message_cap"
    by (simp add: encode_status_response_def encode_status_def message_cap_def)
  from read_write_message [OF this, of "[]"]
  show ?thesis
    using assms decode_encode_status [OF assms(2,3), of msg_status_response "[]"]
    by (auto simp: request_status_def current_block_def send_message_def decode_status_response_def encode_status_response_def)
qed

definition node_at_0 :: "blockchain \<Rightarrow> blockchain" where
  "node_at_0 bc = bc\<lparr>bc_current := Some 0, bc_heap := (\<lambda>_. \<lparr>blk_header = sample_header\<lparr>bh_height := 0\<rparr>, blk_txs = []\<rparr>)\<rparr>"

definition status_1 :: chain_status where
  "status_1 = \<lparr>st_chain_id = 1, st_height = 1, st_state_root = replicate 32 0, st_genesis_hash = replicate 32 0\<rparr>"

definition net_at_1 :: "(byte list \<Rightarrow> byte list option) \<Rightarrow> network" where
  "net_at_1 answer = (\<lambda>n pid proto. if proto = protocol_status
     then Some (\<lambda>d. Some (write_message (encode_status_response status_1))) else Some answer)"

lemma node_at_0:
  "bc_current (node_at_0 bc) = Some 0" "bh_height (blk_header (bc_heap (node_at_0 bc) 0)) = 0"
  "best_peer (net_at_1 answer) h (node_at_0 bc) 0 [''a''] (0, '''') = (1, ''a'')"
  "net_at_1 answer k pid protocol_block_sync = Some answer"
proof -
  have "request_status (net_at_1 answer) 0 h (node_at_0 bc) ''a'' = Ok status_1"
    by (rule request_status_answer) (simp_all add: net_at_1_def status_1_def node_at_0_def)
  then show "best_peer (net_at_1 answer) h (node_at_0 bc) 0 [''a''] (0, '''') = (1, ''a'')"
    by (simp add: status_1_def)
  show "net_at_1 answer k pid protocol_block_sync = Some answer"
    by (simp add: net_at_1_def protocol_status_def protocol_block_sync_def)
qed (simp_all add: node_at_0_def)

text \<open>C13: a synchronisation whose best peer answers for blocks like the handler of this program, on a chain
  that holds every height between ours and the best one, ends without an error and reports the
  difference of the two heights.\<close>

theorem sync_with_honest_peer:
  assumes "bc_current bc = Some r" and "peers \<noteq> []"
    and "best_peer net h bc 0 peers (bh_height (blk_header (bc_heap bc r)), '''') = (best, pid)"
    and "\<forall>k. \<exists>s. net k pid protocol_block_sync = Some s \<and> honest_stream sha bc' s"
    and "\<forall>x. bh_height (blk_header (bc_heap bc r)) < x \<and> x \<le> best \<longrightarrow> get_block_by_height x bc' \<noteq> None"
    and "unat best + 64 < 2 ^ 64"
  shows "sync_to_best_chain net h bc peers
    = Some (int (unat best) - int (unat (bh_height (blk_header (bc_heap bc r)))), None)"
proof -
  define ch where "ch = bh_height (blk_header (bc_heap bc r))"
  have le: "ch \<le> best"
    using best_peer_le [of "(ch, '''')" net h bc 0 peers] assms(3) by (simp add: ch_def)
  have "sync_loop net pid best (length peers) ch 0 = Some (int (unat best) - int (unat ch), None)"
    using sync_loop_honest [of net pid sha bc' best ch] assms(4-6) le by (simp add: ch_def)
  moreover have "sync_to_best_chain net h bc peers
      = (if best \<le> ch then Some (0, None) else sync_loop net pid best (length peers) ch 0)"
    using assms(1-3) by (simp add: sync_to_best_chain_def current_block_def ch_def Let_def)
  moreover have "best = ch" if "best \<le> ch" using le that by simp
  ultimately show ?thesis unfolding ch_def [symmetric] by (cases "best \<le> ch") simp_all
qed

theorem sync_with_honest_peer_witness:
  "\<forall>sha bc h pm. sync_to_best_chain
     (net_at_1 (\<lambda>d. map_option fst (handle_block_sync sha (two_heights bc) ''me'' (0, 0, 0) 0 d pm))) h (node_at_0 bc) [''a'']
   = Some (1, None)"
proof (intro allI)
  fix sha bc h pm
  define answer where "answer = (\<lambda>d. map_option fst (handle_block_sync sha (two_heights bc) ''me'' (0, 0, 0) 0 d pm))"
  have stream: "\<forall>k. \<exists>s. net_at_1 answer k ''a'' protocol_block_sync = Some s \<and> honest_stream sha (two_heights bc) s"
    unfolding node_at_0 honest_stream_def answer_def by blast
  have present: "\<forall>x. bh_height (blk_header (bc_heap (node_at_0 bc) 0)) < x \<and> x \<le> 1 \<longrightarrow> get_block_by_height x (two_heights bc) \<noteq> None"
  proof (intro allI impI)
    fix x :: u64
    assume "bh_height (blk_header (bc_heap (node_at_0 bc) 0)) < x \<and> x \<le> 1"
    then have "x \<le> 1" "0 < x" by (simp_all add: node_at_0)
    then have "unat x = 1" by (simp add: word_le_nat_alt word_less_nat_alt)
    then have "x = 1" by (metis unat_1 unat_eq_iff)
    then show "get_block_by_height x (two_heights bc) \<noteq> None" by (simp add: get_block_by_height_def two_heights_def)
  qed
  have best: "best_peer (net_at_1 answer) h (node_at_0 bc) 0 [''a''] (bh_height (blk_header (bc_heap (node_at_0 bc) 0)), '''') = (1, ''a'')"
    unfolding node_at_0 ..
  show "sync_to_best_chain (net_at_1 answer) h (node_at_0 bc) [''a''] = Some (1, None)"
    using sync_with_honest_peer [OF node_at_0(1) _ best stream present] by (simp add: node_at_0)
qed

lemma sync_loop_stuck:
  assumes "sync_loop net pid best n ch s = Some res" "ch < best" "\<forall>k. window_answer net k pid ch best = Ok []"
  shows False
  using assms
proof (induction rule: sync_loop.raw_induct [rotated 1, consumes 1])
  case (1 loop net pid best n ch s res)
  from 1 show ?case by (cases res) (auto split: if_splits)
qed

text \<open>C39: a synchronisation does not end if its best peer reports a greater height but answers every
  request for blocks with an empty response: the loop asks for the same window again.\<close>

theorem sync_never_ends:
  assumes "bc_current bc = Some r" and "peers \<noteq> []"
    and "best_peer net h bc 0 peers (bh_height (blk_header (bc_heap bc r)), '''') = (best, pid)"
    and "bh_height (blk_header (bc_heap bc r)) < best"
    and "\<forall>k. net k pid protocol_block_sync = Some (\<lambda>d. Some (write_message (encode_block_response [])))"
  shows "sync_to_best_chain net h bc peers = None"
proof -
  define ch where "ch = bh_height (blk_header (bc_heap bc r))"
  have empty: "window_answer net n pid c best = Ok []" for n c
  proof -
    have "read_message (write_message (encode_block_response []) @ []) = Ok (encode_block_response [], [])"
      by (rule read_write_message) (simp add: encode_block_response_def message_cap_def)
    moreover have "decode_block_response (encode_block_response []) = Ok []"
      by (rule decode_encode_response) simp_all
    ultimately show ?thesis
      using assms(5) by (simp add: window_answer_def request_blocks_def send_message_def)
  qed
  have never: "sync_loop net pid best n ch s = Some res \<Longrightarrow> False" for n s res
    using sync_loop_stuck [of net pid best n ch s res] assms(4) empty by (simp add: ch_def)
  have "sync_to_best_chain net h bc peers
      = (if best \<le> ch then Some (0, None) else sync_loop net pid best (length peers) ch 0)"
    using assms(1-3) by (simp add: sync_to_best_chain_def current_block_def ch_def Let_def)
  then show ?thesis using never assms(4) by (cases "sync_loop net pid best (length peers) ch 0") (auto simp: ch_def)
qed

theorem sync_never_ends_witness:
  "\<forall>bc h. sync_to_best_chain (net_at_1 (\<lambda>d. Some (write_message (encode_block_response [])))) h (node_at_0 bc) [''a''] = None"
proof (intro allI)
  fix bc h
  define net where "net = net_at_1 (\<lambda>d. Some (write_message (encode_block_response [])))"
  have best: "best_peer net h (node_at_0 bc) 0 [''a''] (bh_height (blk_header (bc_heap (node_at_0 bc) 0)), '''') = (1, ''a'')"
    unfolding node_at_0 net_def ..
  have empty: "\<forall>k. net k ''a'' protocol_block_sync = Some (\<lambda>d. Some (write_message (encode_block_response [])))"
    unfolding node_at_0 net_def by simp
  show "sync_to_best_chain net h (node_at_0 bc) [''a''] = None"
    by (rule sync_never_ends [OF node_at_0(1) _ best _ empty]) (simp_all add: node_at_0)
qed

end
