(* ===== verification/Registry.thy ===== *)
theory Registry
  imports Dispatcher
begin

text \<open>
  The registry of miners, \<^verbatim>\<open>src/pkg/compute/registry/miner.go\<close>. A method locks the registry; the records
  it hands out are pointers, here their value at that moment. The order in which the map of miners is
  walked when the indices are rebuilt is the argument \<open>ord\<close>.
\<close>

record miner_record =
  mr_address :: address
  mr_capability :: miner_capability
  mr_registered_at :: u64
  mr_last_updated :: u64
  mr_is_active :: bool
  mr_total_rewards :: token_amount
  mr_total_tasks :: u64

record registry =
  rg_miners :: "address \<Rightarrow> miner_record option"
  rg_by_tier :: "task_tier \<Rightarrow> address list option"

definition new_registry :: registry where
  "new_registry = \<lparr>rg_miners = Map.empty, rg_by_tier = fold (\<lambda>t m. m(t \<mapsto> [])) all_tiers Map.empty\<rparr>"

text \<open>\<open>rebuildTierIndices\<close>: every active miner is appended to the lists of the tiers it can handle.\<close>

definition index_miner ::
  "(address \<Rightarrow> miner_record option) \<Rightarrow> address \<Rightarrow> (task_tier \<Rightarrow> address list option) \<Rightarrow> (task_tier \<Rightarrow> address list option)" where
  "index_miner miners addr byTier = (case miners addr of
     None \<Rightarrow> byTier
   | Some r \<Rightarrow> if \<not> mr_is_active r then byTier
       else fold (\<lambda>t m. if can_miner_handle t (mr_capability r) then m(t \<mapsto> tier_list m t @ [addr]) else m) all_tiers byTier)"

definition rebuild_tier_indices :: "(address set \<Rightarrow> address list) \<Rightarrow> registry \<Rightarrow> registry" where
  "rebuild_tier_indices ord r = r\<lparr>rg_by_tier :=
     fold (index_miner (rg_miners r)) (ord (dom (rg_miners r))) (fold (\<lambda>t m. m(t \<mapsto> [])) all_tiers (rg_by_tier r))\<rparr>"

definition new_record :: "address \<Rightarrow> miner_capability \<Rightarrow> u64 \<Rightarrow> miner_record" where
  "new_record addr c blockHeight = \<lparr>mr_address = addr, mr_capability = c, mr_registered_at = blockHeight,
     mr_last_updated = blockHeight, mr_is_active = True, mr_total_rewards = Some 0, mr_total_tasks = 0\<rparr>"

definition register_record ::
  "(address set \<Rightarrow> address list) \<Rightarrow> address \<Rightarrow> miner_capability \<Rightarrow> u64 \<Rightarrow> registry \<Rightarrow> registry" where
  "register_record ord addr c blockHeight r =
     (let rec = (case rg_miners r addr of
            Some m \<Rightarrow> m\<lparr>mr_capability := c, mr_last_updated := blockHeight, mr_is_active := True\<rparr>
          | None \<Rightarrow> new_record addr c blockHeight)
      in rebuild_tier_indices ord (r\<lparr>rg_miners := (rg_miners r)(addr \<mapsto> rec)\<rparr>))"

definition unregister_record ::
  "(address set \<Rightarrow> address list) \<Rightarrow> address \<Rightarrow> registry \<Rightarrow> (string, registry) outcome" where
  "unregister_record ord addr r = (case rg_miners r addr of
     Some m \<Rightarrow> Ok (rebuild_tier_indices ord (r\<lparr>rg_miners := (rg_miners r)(addr \<mapsto> m\<lparr>mr_is_active := False\<rparr>)\<rparr>))
   | None \<Rightarrow> Err (''miner '' @ hex_encode addr @ '' not found''))"

definition get_miner :: "address \<Rightarrow> registry \<Rightarrow> miner_record option" where
  "get_miner addr r = rg_miners r addr"

fun active_records :: "(address \<Rightarrow> miner_record option) \<Rightarrow> address list \<Rightarrow> miner_record list" where
  "active_records miners [] = []"
| "active_records miners (a # as) = (case miners a of
     Some m \<Rightarrow> if mr_is_active m then m # active_records miners as else active_records miners as
   | None \<Rightarrow> active_records miners as)"

definition get_miners_by_tier :: "task_tier \<Rightarrow> registry \<Rightarrow> miner_record list" where
  "get_miners_by_tier t r = active_records (rg_miners r) (tier_list (rg_by_tier r) t)"

definition best_step :: "task_tier \<Rightarrow> miner_record \<Rightarrow> miner_record option \<times> f64 \<Rightarrow> miner_record option \<times> f64" where
  "best_step t m best = (let score = miner_score t (mr_capability m)
     in if f64_less (snd best) score then (Some m, score) else best)"

definition get_best_miner :: "task_tier \<Rightarrow> registry \<Rightarrow> (string, miner_record) outcome" where
  "get_best_miner t r =
     (if tier_list (rg_by_tier r) t = [] then Err (''no miners for tier '' @ tier_string t)
      else case fst (fold (best_step t) (active_records (rg_miners r) (tier_list (rg_by_tier r) t)) (None, F64 0 0)) of
        None \<Rightarrow> Err (''no active miners for tier '' @ tier_string t)
      | Some m \<Rightarrow> Ok m)"

text \<open>\<open>compute.Capabilities\<close>, the fields that are read; a model is its id.\<close>

record capabilities =
  cp_models :: "byte list list"
  cp_max_vram :: u64
  cp_max_ram :: u64
  cp_gpu_count :: int
  cp_compute_units :: u64

definition update_capability ::
  "(address set \<Rightarrow> address list) \<Rightarrow> address \<Rightarrow> capabilities \<Rightarrow> u64 \<Rightarrow> registry \<Rightarrow> (string, registry) outcome" where
  "update_capability ord addr caps blockHeight r = (case rg_miners r addr of
     None \<Rightarrow> Err (''miner '' @ hex_encode addr @ '' not registered'')
   | Some m \<Rightarrow>
       let c = \<lparr>mc_vram = cp_max_vram caps, mc_ram = cp_max_ram caps, mc_gpu_count = cp_gpu_count caps,
                mc_compute_units = cp_compute_units caps, mc_supported_models = cp_models caps, mc_max_batch_size = 2,
                mc_reputation = mc_reputation (mr_capability m), mc_uptime = mc_uptime (mr_capability m)\<rparr>
       in Ok (rebuild_tier_indices ord (r\<lparr>rg_miners :=
            (rg_miners r)(addr \<mapsto> m\<lparr>mr_capability := c, mr_last_updated := blockHeight\<rparr>)\<rparr>)))"

text \<open>The moving average of the reputation, \<open>alpha\<close> the \<open>float64\<close> nearest to 0.1.\<close>

definition reputation_alpha :: f64 where
  "reputation_alpha = F64 3602879701896397 55"

definition moved_reputation :: "bool \<Rightarrow> f64 \<Rightarrow> f64" where
  "moved_reputation success rep =
     f64_add (f64_mul (f64_sub (F64 1 0) reputation_alpha) rep)
       (f64_mul reputation_alpha (if success then F64 1 0 else F64 0 0))"

definition record_result ::
  "address \<Rightarrow> token_amount \<Rightarrow> bool \<Rightarrow> registry \<Rightarrow> (string, registry) outcome" where
  "record_result addr reward success r = (case rg_miners r addr of
     None \<Rightarrow> Ok r
   | Some m \<Rightarrow>
       obind (if success then (if amount_is_nil (mr_total_rewards m) then amount_clone reward
                               else amount_add_to (mr_total_rewards m) reward)
              else Ok (mr_total_rewards m)) (\<lambda>total.
         Ok (r\<lparr>rg_miners := (rg_miners r)(addr \<mapsto> m\<lparr>mr_total_tasks := mr_total_tasks m + 1, mr_total_rewards := total,
              mr_capability := (mr_capability m)\<lparr>mc_reputation := moved_reputation success (mc_reputation (mr_capability m))\<rparr>\<rparr>)\<rparr>)))"

definition active_count :: "(address set \<Rightarrow> address list) \<Rightarrow> registry \<Rightarrow> int" where
  "active_count ord r = int (length (active_records (rg_miners r) (ord (dom (rg_miners r)))))"

section \<open>Runs\<close>

text \<open>A call with an error leaves the registry as it is; one that panics ends the run. Each call that
  rebuilds the indices has its own iteration order.\<close>

datatype registry_call =
    RRegister "address set \<Rightarrow> address list" address miner_capability u64
  | RUnregister "address set \<Rightarrow> address list" address
  | RUpdate "address set \<Rightarrow> address list" address capabilities u64
  | RResult address token_amount bool

fun registry_step :: "registry_call \<Rightarrow> registry \<Rightarrow> registry option" where
  "registry_step (RRegister ord a c h) r = Some (register_record ord a c h r)"
| "registry_step (RUnregister ord a) r = (case unregister_record ord a r of Ok r' \<Rightarrow> Some r' | Err e \<Rightarrow> Some r | Panic \<Rightarrow> None)"
| "registry_step (RUpdate ord a caps h) r = (case update_capability ord a caps h r of Ok r' \<Rightarrow> Some r' | Err e \<Rightarrow> Some r | Panic \<Rightarrow> None)"
| "registry_step (RResult a w s) r = (case record_result a w s r of Ok r' \<Rightarrow> Some r' | Err e \<Rightarrow> Some r | Panic \<Rightarrow> None)"

inductive registry_reachable :: "registry \<Rightarrow> bool" where
  start: "registry_reachable new_registry"
| call: "registry_reachable r \<Longrightarrow> (case c of RRegister ord a cap h \<Rightarrow> go_order ord | RUnregister ord a \<Rightarrow> go_order ord
      | RUpdate ord a caps h \<Rightarrow> go_order ord | RResult a w s \<Rightarrow> True)
    \<Longrightarrow> registry_step c r = Some r' \<Longrightarrow> registry_reachable r'"

end
