(* ===== verification/GoText.thy ===== *)
theory GoText
  imports Prelude
begin

text \<open>
  The functions of Go's \<^verbatim>\<open>strings\<close> and \<^verbatim>\<open>fmt\<close> packages that the program applies to names, paths and
  numbers: splitting, trimming, prefixes, lower case and the scanning of unsigned numbers. Texts are
  ASCII; on other texts \<open>strings.ToLower\<close> and the Unicode blanks are not modelled.
\<close>

definition char_code :: "char \<Rightarrow> nat" where
  "char_code c = of_char c"

definition is_digit :: "char \<Rightarrow> bool" where
  "is_digit c \<longleftrightarrow> 48 \<le> char_code c \<and> char_code c \<le> 57"

definition is_lower :: "char \<Rightarrow> bool" where
  "is_lower c \<longleftrightarrow> 97 \<le> char_code c \<and> char_code c \<le> 122"

text \<open>The blanks of \<open>unicode.IsSpace\<close> below 128: tab to carriage return, and space.\<close>

definition is_blank :: "char \<Rightarrow> bool" where
  "is_blank c \<longleftrightarrow> 9 \<le> char_code c \<and> char_code c \<le> 13 \<or> char_code c = 32"

definition lower_char :: "char \<Rightarrow> char" where
  "lower_char c = (if 65 \<le> char_code c \<and> char_code c \<le> 90 then char_of (char_code c + 32) else c)"

definition to_lower :: "string \<Rightarrow> string" where
  "to_lower s = map lower_char s"

definition has_prefix :: "string \<Rightarrow> string \<Rightarrow> bool" where
  "has_prefix s p \<longleftrightarrow> take (length p) s = p"

definition has_suffix :: "string \<Rightarrow> string \<Rightarrow> bool" where
  "has_suffix s p \<longleftrightarrow> has_prefix (rev s) (rev p)"

fun contains_text :: "string \<Rightarrow> string \<Rightarrow> bool" where
  "contains_text [] p \<longleftrightarrow> p = []"
| "contains_text (c # s) p \<longleftrightarrow> has_prefix (c # s) p \<or> contains_text s p"

definition trim_left :: "(char \<Rightarrow> bool) \<Rightarrow> string \<Rightarrow> string" where
  "trim_left P s = dropWhile P s"

definition trim_right :: "(char \<Rightarrow> bool) \<Rightarrow> string \<Rightarrow> string" where
  "trim_right P s = rev (dropWhile P (rev s))"

definition trim_space :: "string \<Rightarrow> string" where
  "trim_space s = trim_right is_blank (trim_left is_blank s)"

text \<open>\<open>strings.Split\<close> with a separator of one character, and \<open>strings.SplitN\<close> into at most two parts.\<close>

fun split_on :: "char \<Rightarrow> string \<Rightarrow> string list" where
  "split_on d [] = [[]]"
| "split_on d (c # s) = (if c = d then [] # split_on d s
     else (case split_on d s of [] \<Rightarrow> [[c]] | w # ws \<Rightarrow> (c # w) # ws))"

definition split_two :: "char \<Rightarrow> string \<Rightarrow> string list" where
  "split_two d s = (if d \<in> set s then [takeWhile (\<lambda>c. c \<noteq> d) s, tl (dropWhile (\<lambda>c. c \<noteq> d) s)] else [s])"

text \<open>\<open>strings.Fields\<close>: the words between runs of blanks.\<close>

fun blank_words :: "string \<Rightarrow> string \<Rightarrow> string list" where
  "blank_words w [] = (if w = [] then [] else [w])"
| "blank_words w (c # s) = (if is_blank c then (if w = [] then blank_words [] s else w # blank_words [] s)
     else blank_words (w @ [c]) s)"

definition text_fields :: "string \<Rightarrow> string list" where
  "text_fields s = blank_words [] s"

text \<open>\<open>Sscanf\<close> with \<open>%d\<close> or \<open>%x\<close> into a \<open>uint64\<close>: blanks are skipped, then as many digits as there are
  are read. No digit and a number above the range are errors, which leave the variable alone.\<close>

fun number_of :: "nat \<Rightarrow> (char \<Rightarrow> nat) \<Rightarrow> nat \<Rightarrow> string \<Rightarrow> nat" where
  "number_of base val n [] = n"
| "number_of base val n (c # s) = number_of base val (n * base + val c) s"

definition scan_uint :: "nat \<Rightarrow> (char \<Rightarrow> bool) \<Rightarrow> (char \<Rightarrow> nat) \<Rightarrow> string \<Rightarrow> u64 option" where
  "scan_uint base digit val s =
     (let ds = takeWhile digit (dropWhile is_blank s); n = number_of base val 0 ds
      in if ds = [] \<or> 2 ^ 64 \<le> n then None else Some (word_of_nat n))"

definition digit_value :: "char \<Rightarrow> nat" where
  "digit_value c = char_code c - 48"

definition scan_decimal :: "string \<Rightarrow> u64 option" where
  "scan_decimal s = scan_uint 10 is_digit digit_value s"

definition is_hex_digit :: "char \<Rightarrow> bool" where
  "is_hex_digit c \<longleftrightarrow> is_digit c \<or> 97 \<le> char_code c \<and> char_code c \<le> 102 \<or> 65 \<le> char_code c \<and> char_code c \<le> 70"

definition hex_digit_value :: "char \<Rightarrow> nat" where
  "hex_digit_value c = (if is_digit c then digit_value c else if 97 \<le> char_code c then char_code c - 87 else char_code c - 55)"

definition scan_hex :: "string \<Rightarrow> u64 option" where
  "scan_hex s = scan_uint 16 is_hex_digit hex_digit_value s"

text \<open>\<open>%x\<close> and \<open>%d\<close> of a natural number.\<close>

fun digits_in :: "nat \<Rightarrow> nat \<Rightarrow> nat list" where
  "digits_in base n = (if base < 2 \<or> n < base then [n] else digits_in base (n div base) @ [n mod base])"

declare digits_in.simps [simp del]

definition hex_digit :: "nat \<Rightarrow> char" where
  "hex_digit d = char_of (if d < 10 then 48 + d else 87 + d)"

definition format_hex :: "nat \<Rightarrow> string" where
  "format_hex n = map hex_digit (digits_in 16 n)"

definition format_decimal :: "nat \<Rightarrow> string" where
  "format_decimal n = map hex_digit (digits_in 10 n)"

definition format_int :: "int \<Rightarrow> string" where
  "format_int v = (if v < 0 then ''-'' @ format_decimal (nat (- v)) else format_decimal (nat v))"

text \<open>A Go string as text, and back.\<close>

definition text_of :: "byte list \<Rightarrow> string" where
  "text_of bs = map (\<lambda>b. char_of (unat b)) bs"

definition bytes_of :: "string \<Rightarrow> byte list" where
  "bytes_of s = map (\<lambda>c. word_of_nat (of_char c)) s"

section \<open>Facts\<close>

named_theorems text_eval \<open>evaluation of the text functions\<close>

lemmas [text_eval] = char_code_def is_digit_def is_lower_def is_blank_def lower_char_def to_lower_def
  has_prefix_def has_suffix_def trim_left_def trim_right_def trim_space_def text_fields_def scan_uint_def
  scan_decimal_def digit_value_def scan_hex_def is_hex_digit_def hex_digit_value_def

lemma has_prefix_append [simp]: "has_prefix (p @ s) p"
  by (simp add: has_prefix_def)

lemma has_prefix_iff: "has_prefix s p \<longleftrightarrow> (\<exists>r. s = p @ r)"
  unfolding has_prefix_def by (metis append_take_drop_id append_eq_conv_conj)

lemma has_suffix_iff: "has_suffix s p \<longleftrightarrow> (\<exists>r. s = r @ p)"
  unfolding has_suffix_def has_prefix_iff by (metis rev_append rev_rev_ident)

lemma split_on_ne [simp]: "split_on d s \<noteq> []"
  by (induction s) (auto split: list.splits)

lemma split_on_word: "d \<notin> set w \<Longrightarrow> split_on d (w @ d # s) = w # split_on d s"
  by (induction w) auto

lemma split_on_end: "d \<notin> set w \<Longrightarrow> split_on d w = [w]"
  by (induction w) auto

fun join_with :: "char \<Rightarrow> string list \<Rightarrow> string" where
  "join_with d [] = []"
| "join_with d [w] = w"
| "join_with d (w # v # ws) = w @ d # join_with d (v # ws)"

lemma split_join: "ws \<noteq> [] \<Longrightarrow> \<forall>w \<in> set ws. d \<notin> set w \<Longrightarrow> split_on d (join_with d ws) = ws"
  by (induction d ws rule: join_with.induct) (auto simp: split_on_word split_on_end)

lemma join_split: "join_with d (split_on d s) = s"
proof (induction s)
  case (Cons c s)
  then show ?case by (cases "split_on d s"; cases "tl (split_on d s)") auto
qed simp

lemma number_of_append: "number_of b v n (s @ t) = number_of b v (number_of b v n s) t"
  by (induction s arbitrary: n) auto

lemma number_of_digits: "2 \<le> base \<Longrightarrow> (\<And>d. d < base \<Longrightarrow> v (f d) = d) \<Longrightarrow> number_of base v 0 (map f (digits_in base n)) = n"
proof (induction base n rule: digits_in.induct)
  case (1 base n)
  show ?case
  proof (cases "n < base")
    case True
    then show ?thesis using "1.prems" by (simp add: digits_in.simps [of base n])
  next
    case False
    then show ?thesis using 1 by (simp add: digits_in.simps [of base n] number_of_append)
  qed
qed

lemma digits_in_less: "2 \<le> base \<Longrightarrow> d \<in> set (digits_in base n) \<Longrightarrow> d < base"
proof (induction base n rule: digits_in.induct)
  case (1 base n)
  then show ?case by (cases "n < base") (auto simp: digits_in.simps [of base n])
qed

lemma digits_in_ne [simp]: "digits_in base n \<noteq> []"
  by (subst digits_in.simps) simp

lemma char_code_hex: "d < 16 \<Longrightarrow> char_code (hex_digit d) = (if d < 10 then 48 + d else 87 + d)"
  by (simp add: char_code_def hex_digit_def)

lemma takeWhile_all: "(\<And>c. c \<in> set s \<Longrightarrow> P c) \<Longrightarrow> takeWhile P s = s"
  by simp

text \<open>A printed number is scanned back.\<close>

lemma scan_format_hex: "n < 2 ^ 64 \<Longrightarrow> scan_hex (format_hex n) = Some (word_of_nat n)"
proof -
  assume n: "n < 2 ^ 64"
  have d: "d < 16" if "d \<in> set (digits_in 16 n)" for d using digits_in_less [of 16 d n] that by simp
  have hex: "is_hex_digit c \<and> \<not> is_blank c" if c: "c \<in> set (format_hex n)" for c
  proof -
    obtain x where x: "c = hex_digit x" "x < 16" using c d by (auto simp: format_hex_def)
    then show ?thesis by (cases "x < 10") (simp_all add: is_hex_digit_def is_digit_def is_blank_def char_code_hex)
  qed
  have "format_hex n \<noteq> []" by (simp add: format_hex_def)
  then have 1: "dropWhile is_blank (format_hex n) = format_hex n"
    using hex by (cases "format_hex n") auto
  have 2: "takeWhile is_hex_digit (format_hex n) = format_hex n" using hex by (intro takeWhile_all) blast
  have 3: "number_of 16 hex_digit_value 0 (format_hex n) = n"
    unfolding format_hex_def by (rule number_of_digits) (simp_all add: hex_digit_value_def is_digit_def digit_value_def char_code_hex)
  show ?thesis using n \<open>format_hex n \<noteq> []\<close> unfolding scan_hex_def scan_uint_def Let_def 1 2 3 by simp
qed

lemma scan_decimal_digits:
  assumes "ds \<noteq> []" "\<forall>c \<in> set ds. is_digit c" "number_of 10 digit_value 0 ds < 2 ^ 64" "rest = [] \<or> \<not> is_digit (hd rest)"
  shows "scan_decimal (ds @ rest) = Some (word_of_nat (number_of 10 digit_value 0 ds))"
proof -
  have "\<not> is_blank (hd ds)" using assms(1,2) by (cases ds) (auto simp: is_digit_def is_blank_def)
  then have 1: "dropWhile is_blank (ds @ rest) = ds @ rest" using assms(1) by (cases ds) auto
  have 2: "takeWhile is_digit (ds @ rest) = ds"
    using assms(2,4) by (cases rest) (auto simp: takeWhile_tail takeWhile_append2)
  show ?thesis using assms(1,3) unfolding scan_decimal_def scan_uint_def Let_def 1 2 by simp
qed

end
