(* ===== verification/LmClient.thy ===== *)
theory LmClient
  imports Registry GoText
begin

text \<open>
  The client of a local model server (\<^verbatim>\<open>src/pkg/compute/local/runner.go\<close>) and the probes of the hardware
  (\<^verbatim>\<open>manager.go\<close>). Outside the model are the HTTP exchange, whose result is a \<open>reply\<close>, the decoding of
  JSON, which is a parameter \<open>decode\<close>, and the files under \<^verbatim>\<open>/proc\<close> and \<^verbatim>\<open>/sys\<close>, which are parameters too.
  Strings are texts; the clock (timings and \<^verbatim>\<open>CheckedAt\<close>) is left out.
\<close>

section \<open>Models\<close>

record model_info =
  mo_id :: string
  mo_param_count :: u64
  mo_quantization :: string
  mo_max_tokens :: int

fun first_param_count :: "string list \<Rightarrow> u64 option" where
  "first_param_count [] = None"
| "first_param_count (part # parts) =
     (let lower = to_lower part in
      if has_suffix lower ''b'' then
        (case scan_decimal (trim_left is_lower (trim_right (\<lambda>c. c = CHR ''b'') lower)) of
           Some n \<Rightarrow> Some n
         | None \<Rightarrow> first_param_count parts)
      else first_param_count parts)"

definition parse_param_count :: "string \<Rightarrow> u64" where
  "parse_param_count modelID = (case first_param_count (split_on CHR ''-'' modelID) of
     Some n \<Rightarrow> n
   | None \<Rightarrow> if contains_text (to_lower modelID) ''embed'' then 1 else 0)"

definition parse_quantization :: "string \<Rightarrow> string" where
  "parse_quantization modelID =
     (case filter (\<lambda>part. has_prefix part ''q'' \<and> 2 \<le> length part) (split_on CHR ''-'' modelID) of
        [] \<Rightarrow> ''unknown''
      | part # parts \<Rightarrow> part)"

definition listed_model :: "string \<Rightarrow> model_info" where
  "listed_model i = \<lparr>mo_id = i, mo_param_count = parse_param_count i, mo_quantization = parse_quantization i, mo_max_tokens = 32768\<rparr>"

section \<open>HTTP\<close>

datatype reply = NoRequest | NoAnswer | BrokenBody int string | Answer int string

definition reply_body :: "(string \<Rightarrow> 'b option) \<Rightarrow> reply \<Rightarrow> (string, 'b) outcome" where
  "reply_body decode r = (case r of
     NoRequest \<Rightarrow> Err ''create request''
   | NoAnswer \<Rightarrow> Err ''http''
   | BrokenBody code part \<Rightarrow> Err ''read body''
   | Answer code body \<Rightarrow>
       if code \<noteq> 200 then Err (''status: '' @ body)
       else (case decode body of None \<Rightarrow> Err ''unmarshal'' | Some x \<Rightarrow> Ok x))"

text \<open>\<open>decode\<close> yields the ids of the listed models.\<close>

definition list_remote_models :: "(string \<Rightarrow> string list option) \<Rightarrow> reply \<Rightarrow> (string, model_info list) outcome" where
  "list_remote_models decode r = obind (reply_body decode r) (\<lambda>ids. Ok (map listed_model ids))"

section \<open>The client\<close>

record model_config =
  mf_model_path :: string
  mf_context_size :: int
  mf_gpu_layers :: int
  mf_thread_count :: int
  mf_batch_size :: int
  mf_quantization :: string

definition empty_config :: model_config where
  "empty_config = \<lparr>mf_model_path = '''', mf_context_size = 0, mf_gpu_layers = 0, mf_thread_count = 0,
     mf_batch_size = 0, mf_quantization = ''''\<rparr>"

record lm_client =
  lc_base_url :: string
  lc_api_token :: string
  lc_loaded :: "string \<rightharpoonup> model_info"
  lc_configs :: "string \<rightharpoonup> model_config"

definition new_client :: "string \<Rightarrow> string \<Rightarrow> lm_client" where
  "new_client baseURL apiToken = \<lparr>lc_base_url = trim_right (\<lambda>c. c = CHR ''/'') baseURL, lc_api_token = apiToken,
     lc_loaded = Map.empty, lc_configs = Map.empty\<rparr>"

definition client_load ::
  "(string \<Rightarrow> string list option) \<Rightarrow> reply \<Rightarrow> string \<Rightarrow> model_config \<Rightarrow> lm_client \<Rightarrow> (string, unit) outcome \<times> lm_client" where
  "client_load decode r modelID config c = (case list_remote_models decode r of
     Err e \<Rightarrow> (Err (''list models: '' @ e), c)
   | Panic \<Rightarrow> (Panic, c)
   | Ok models \<Rightarrow> (case filter (\<lambda>m. mo_id m = modelID) models of
        [] \<Rightarrow> (Err (''model '' @ modelID @ '' not found in LM Studio''), c)
      | m # ms \<Rightarrow> (Ok (), c\<lparr>lc_loaded := (lc_loaded c)(modelID \<mapsto> m), lc_configs := (lc_configs c)(modelID \<mapsto> config)\<rparr>)))"

definition client_unload :: "string \<Rightarrow> lm_client \<Rightarrow> lm_client" where
  "client_unload modelID c = c\<lparr>lc_loaded := (lc_loaded c)(modelID := None), lc_configs := (lc_configs c)(modelID := None)\<rparr>"

definition client_list_models :: "(string set \<Rightarrow> string list) \<Rightarrow> lm_client \<Rightarrow> string list" where
  "client_list_models ord c = ord (dom (lc_loaded c))"

section \<open>Inference\<close>

record inference_input =
  ii_prompt :: string
  ii_system_prompt :: string
  ii_messages :: "(string \<times> string) list"
  ii_temperature :: u32
  ii_top_p :: u32
  ii_max_tokens :: int

record chat_request =
  cr_model :: string
  cr_messages :: "(string \<times> string) list"
  cr_temperature :: u32
  cr_top_p :: u32
  cr_max_tokens :: int
  cr_stream :: bool

record chat_choice =
  cc_content :: string
  cc_reasoning :: string
  cc_finish_reason :: string

record chat_response =
  ch_choices :: "chat_choice list"
  ch_prompt_tokens :: int
  ch_completion_tokens :: int
  ch_total_tokens :: int

record inference_result =
  ir_text :: string
  ir_tokens_used :: int
  ir_prompt_tokens :: int
  ir_finish_reason :: string

definition build_messages :: "inference_input \<Rightarrow> (string \<times> string) list" where
  "build_messages i = (if ii_system_prompt i \<noteq> '''' then [(''system'', ii_system_prompt i)] else [])
     @ ii_messages i @ (if ii_prompt i \<noteq> '''' then [(''user'', ii_prompt i)] else [])"

definition chat_request_for :: "bool \<Rightarrow> string \<Rightarrow> inference_input \<Rightarrow> chat_request" where
  "chat_request_for stream modelID i = \<lparr>cr_model = modelID, cr_messages = build_messages i, cr_temperature = ii_temperature i,
     cr_top_p = ii_top_p i, cr_max_tokens = ii_max_tokens i, cr_stream = stream\<rparr>"

definition extract_content :: "chat_response \<Rightarrow> string" where
  "extract_content r = (case ch_choices r of
     [] \<Rightarrow> ''''
   | m # ms \<Rightarrow> if cc_content m \<noteq> '''' then cc_content m else cc_reasoning m)"

text \<open>\<open>post\<close> is the exchange; the finish reason is that of the first choice, which a reply need not have.\<close>

definition client_infer ::
  "(string \<Rightarrow> chat_response option) \<Rightarrow> (chat_request \<Rightarrow> reply) \<Rightarrow> string \<Rightarrow> inference_input \<Rightarrow> (string, inference_result) outcome" where
  "client_infer decode post modelID i =
     (case reply_body decode (post (chat_request_for False modelID i)) of
        Err e \<Rightarrow> Err (''chat request: '' @ e)
      | Panic \<Rightarrow> Panic
      | Ok resp \<Rightarrow> (case ch_choices resp of
          [] \<Rightarrow> Panic
        | ch # chs \<Rightarrow> Ok \<lparr>ir_text = extract_content resp, ir_tokens_used = ch_total_tokens resp,
            ir_prompt_tokens = ch_prompt_tokens resp, ir_finish_reason = cc_finish_reason ch\<rparr>))"

text \<open>A stream of lines. A chunk is decoded to its choices, each a pair of content and reasoning.\<close>

definition extract_delta :: "(string \<times> string) list \<Rightarrow> string" where
  "extract_delta choices = (case choices of [] \<Rightarrow> '''' | (content, reasoning) # cs \<Rightarrow> if content \<noteq> '''' then content else reasoning)"

fun stream_lines ::
  "(string \<Rightarrow> (string \<times> string) list option) \<Rightarrow> (string \<Rightarrow> 's \<Rightarrow> string option \<times> 's) \<Rightarrow> string option
     \<Rightarrow> string list \<Rightarrow> 's \<Rightarrow> string option \<times> 's" where
  "stream_lines decode cb scanErr [] s = (scanErr, s)"
| "stream_lines decode cb scanErr (line # lines) s =
     (if \<not> has_prefix line ''data: '' then stream_lines decode cb scanErr lines s
      else let d = drop 6 line in
        if d = ''[DONE]'' then (None, s)
        else case decode d of
          None \<Rightarrow> stream_lines decode cb scanErr lines s
        | Some choices \<Rightarrow>
            let delta = extract_delta choices in
            if delta = '''' then stream_lines decode cb scanErr lines s
            else (case cb delta s of (Some e, s') \<Rightarrow> (Some e, s')
                  | (None, s') \<Rightarrow> stream_lines decode cb scanErr lines s'))"

text \<open>\<open>InferStream\<close>; \<open>scan\<close> splits a body into its lines and yields the error the scanner ends with.\<close>

definition client_infer_stream ::
  "(string \<Rightarrow> (string \<times> string) list option) \<Rightarrow> (chat_request \<Rightarrow> reply) \<Rightarrow> (string \<Rightarrow> string list \<times> string option)
     \<Rightarrow> (string \<Rightarrow> 's \<Rightarrow> string option \<times> 's) \<Rightarrow> string \<Rightarrow> inference_input \<Rightarrow> 's \<Rightarrow> string option \<times> 's" where
  "client_infer_stream decode post scan cb modelID i s =
     (case post (chat_request_for True modelID i) of
        NoRequest \<Rightarrow> (Some ''create request'', s)
      | NoAnswer \<Rightarrow> (Some ''http'', s)
      | BrokenBody code part \<Rightarrow> (if code \<noteq> 200 then (Some (''status: '' @ part), s)
          else (case scan part of (lines, scanErr) \<Rightarrow> stream_lines decode cb scanErr lines s))
      | Answer code body \<Rightarrow>
          if code \<noteq> 200 then (Some (''status: '' @ body), s)
          else (case scan body of (lines, scanErr) \<Rightarrow> stream_lines decode cb scanErr lines s))"

section \<open>Hardware\<close>

definition detect_gpu_count :: "string list option \<Rightarrow> int" where
  "detect_gpu_count entries = (case entries of
     None \<Rightarrow> 0
   | Some names \<Rightarrow> let count = length (filter (\<lambda>n. has_prefix n ''card'' \<and> contains_text n ''render'') names)
       in if count = 0 then 1 else int count)"

definition newline :: char where "newline = CHR 0x0A"

definition detect_gpu_name :: "(string \<Rightarrow> string option) \<Rightarrow> string" where
  "detect_gpu_name readFile = (case readFile ''/proc/driver/nvidia/version'' of
     Some data \<Rightarrow> trim_space (hd (split_on newline data))
   | None \<Rightarrow> (case readFile ''/proc/cpuinfo'' of
       Some data \<Rightarrow>
         (case concat (map (\<lambda>l. if has_prefix l ''model name'' then
              (let parts = split_two CHR '':'' l in if length parts = 2 then [trim_space (parts ! 1)] else []) else []) (split_on newline data)) of
            n # ns \<Rightarrow> n | [] \<Rightarrow> ''Unknown GPU'')
     | None \<Rightarrow> ''Unknown GPU''))"

text \<open>\<open>gomaxprocs\<close> is the number of processors; a number that cannot be scanned is 0.\<close>

fun mem_total :: "string list \<Rightarrow> u64" where
  "mem_total [] = 0"
| "mem_total (l # ls) =
     (if has_prefix l ''MemTotal:'' \<and> 2 \<le> length (text_fields l)
      then (case scan_decimal (text_fields l ! 1) of Some kb \<Rightarrow> kb div 1024 | None \<Rightarrow> 0)
      else mem_total ls)"

definition detect_ram :: "u64 \<Rightarrow> (string \<Rightarrow> string option) \<Rightarrow> u64" where
  "detect_ram gomaxprocs readFile = (case readFile ''/proc/meminfo'' of
     None \<Rightarrow> gomaxprocs * 1024
   | Some data \<Rightarrow> mem_total (split_on newline data))"

definition vram_paths :: "string \<Rightarrow> string list" where
  "vram_paths n = map (\<lambda>f. ''/sys/class/drm/'' @ n @ ''/device/'' @ f)
     [''mem_info_vram_total'', ''mem_info_vis_vram_total'', ''mem_info_gtt_total'']"

definition larger_vram :: "(string \<Rightarrow> string option) \<Rightarrow> string \<Rightarrow> u64 \<Rightarrow> u64" where
  "larger_vram readFile path vram0 = (case readFile path of
     None \<Rightarrow> vram0
   | Some data \<Rightarrow> let vram = (case scan_decimal (trim_space data) of Some v \<Rightarrow> v | None \<Rightarrow> 0)
       in if vram0 < vram then vram else vram0)"

definition detect_vram :: "u64 \<Rightarrow> (string \<Rightarrow> string option) \<Rightarrow> string list option \<Rightarrow> u64" where
  "detect_vram gomaxprocs readFile entries = (case entries of
     None \<Rightarrow> detect_ram gomaxprocs readFile div 4
   | Some names \<Rightarrow>
       let total = fold (\<lambda>n t. if has_prefix n ''card'' \<and> \<not> contains_text n ''render''
             then fold (larger_vram readFile) (vram_paths n) t else t) names 0;
           total1 = (if 1024 * 1024 < total then total div (1024 * 1024) else total);
           total2 = (if total1 < 1024 then detect_ram gomaxprocs readFile div 2 else total1)
       in if total2 = 0 then detect_ram gomaxprocs readFile div 4 else total2)"

definition models_compute_units :: "model_info list \<Rightarrow> u64" where
  "models_compute_units models =
     (let total = fold (\<lambda>m t. t + mo_param_count m * 10) models 0 in if total = 0 then 100 else total)"

definition client_capabilities ::
  "(string \<Rightarrow> string list option) \<Rightarrow> reply \<Rightarrow> u64 \<Rightarrow> (string \<Rightarrow> string option) \<Rightarrow> string list option \<Rightarrow> capabilities" where
  "client_capabilities decode r gomaxprocs readFile entries = (case list_remote_models decode r of
     Ok models \<Rightarrow> \<lparr>cp_models = map (\<lambda>m. bytes_of (mo_id m)) models, cp_max_vram = detect_vram gomaxprocs readFile entries,
        cp_max_ram = detect_ram gomaxprocs readFile, cp_gpu_count = detect_gpu_count entries,
        cp_compute_units = models_compute_units models\<rparr>
   | _ \<Rightarrow> \<lparr>cp_models = [], cp_max_vram = 0, cp_max_ram = 0, cp_gpu_count = 0, cp_compute_units = 0\<rparr>)"

record health_status =
  hs_healthy :: bool
  hs_loaded_models :: "string list"
  hs_last_error :: string

definition client_health :: "(string \<Rightarrow> string list option) \<Rightarrow> reply \<Rightarrow> health_status" where
  "client_health decode r = (case list_remote_models decode r of
     Ok models \<Rightarrow> \<lparr>hs_healthy = True, hs_loaded_models = map mo_id models, hs_last_error = ''''\<rparr>
   | Err e \<Rightarrow> \<lparr>hs_healthy = False, hs_loaded_models = [], hs_last_error = e\<rparr>
   | Panic \<Rightarrow> \<lparr>hs_healthy = False, hs_loaded_models = [], hs_last_error = ''''\<rparr>)"

end
