(* ===== verification/LocalManager.thy ===== *)
theory LocalManager
  imports LmClient
begin

text \<open>
  The manager of local models, \<^verbatim>\<open>src/pkg/compute/local/manager.go\<close>. What it needs of the interface
  \<^verbatim>\<open>compute.ModelRunner\<close> (\<^verbatim>\<open>pkg/compute/interface.go\<close>) is the contract \<open>model_runner\<close>, which the client of
  \<open>LmClient\<close> meets. The runner's state is part of the manager's. The two critical sections of
  \<^verbatim>\<open>loadModel\<close> are one step: concurrent calls for one model may load it twice.
\<close>

record local_config =
  lf_base_url :: string
  lf_api_token :: string
  lf_max_loaded_models :: int
  lf_auto_load_models :: "string list"
  lf_model_cache_dir :: string
  lf_max_concurrent_tasks :: int
  lf_task_poll_interval :: int

definition default_local_config :: local_config where
  "default_local_config = \<lparr>lf_base_url = ''http://127.0.0.1:1234'', lf_api_token = '''', lf_max_loaded_models = 3,
     lf_auto_load_models = [], lf_model_cache_dir = '''', lf_max_concurrent_tasks = 2, lf_task_poll_interval = 5 * 10 ^ 9\<rparr>"

record loaded_model =
  ld_loaded_at :: int
  ld_last_used_at :: int
  ld_task_count :: u64

record 'r local_manager =
  lo_runner :: 'r
  lo_config :: local_config
  lo_loaded :: "string \<rightharpoonup> loaded_model"
  lo_closed :: bool

type_synonym 'r loader = "string \<Rightarrow> model_config \<Rightarrow> 'r \<Rightarrow> (string, unit) outcome \<times> 'r"
type_synonym 'r inferrer = "string \<Rightarrow> inference_input \<Rightarrow> 'r \<Rightarrow> (string, inference_result) outcome \<times> 'r"

definition load_model :: "'r loader \<Rightarrow> int \<Rightarrow> int \<Rightarrow> string \<Rightarrow> 'r local_manager \<Rightarrow> (string, unit) outcome \<times> 'r local_manager" where
  "load_model rload t1 t2 modelID m =
     (if lo_loaded m modelID \<noteq> None then (Ok (), m)
      else (case rload modelID empty_config (lo_runner m) of
         (Ok _, r) \<Rightarrow> (Ok (), m\<lparr>lo_runner := r, lo_loaded := (lo_loaded m)(modelID \<mapsto>
             \<lparr>ld_loaded_at = t1, ld_last_used_at = t2, ld_task_count = 0\<rparr>)\<rparr>)
       | (Err e, r) \<Rightarrow> (Err e, m\<lparr>lo_runner := r\<rparr>)
       | (Panic, r) \<Rightarrow> (Panic, m\<lparr>lo_runner := r\<rparr>)))"

fun auto_load :: "'r loader \<Rightarrow> int \<Rightarrow> string list \<Rightarrow> 'r local_manager \<Rightarrow> (string, 'r local_manager) outcome" where
  "auto_load rload t [] m = Ok m"
| "auto_load rload t (modelID # ids) m = (case load_model rload t t modelID m of
     (Ok _, m1) \<Rightarrow> auto_load rload t ids m1
   | (Err e, m1) \<Rightarrow> Err (''auto-load '' @ modelID @ '': '' @ e)
   | (Panic, m1) \<Rightarrow> Panic)"

definition new_local_manager :: "'r loader \<Rightarrow> int \<Rightarrow> 'r \<Rightarrow> local_config \<Rightarrow> (string, 'r local_manager) outcome" where
  "new_local_manager rload t runner cfg = auto_load rload t (lf_auto_load_models cfg)
     \<lparr>lo_runner = runner, lo_config = cfg, lo_loaded = Map.empty, lo_closed = False\<rparr>"

definition select_model_for_task :: "task \<Rightarrow> string" where
  "select_model_for_task t = (if ms_model_id (t_model_spec t) \<noteq> [] then text_of (ms_model_id (t_model_spec t))
     else ''qwen3.6-35b-a3b'')"

definition build_system_prompt :: "task \<Rightarrow> string" where
  "build_system_prompt t =
     (if t_tier t = tier1_lightweight then ''You are a helpful AI assistant. Provide concise, accurate answers.''
      else if t_tier t = tier2_conversation then ''You are a conversational AI. Engage naturally and helpfully.''
      else if t_tier t = tier3_inference then ''You are an analytical AI. Reason step by step and provide thorough analysis.''
      else ''You are a helpful AI assistant.'')"

definition task_input :: "task \<Rightarrow> inference_input" where
  "task_input t = \<lparr>ii_prompt = ''Task input hash: '' @ hex_encode (t_input_hash t), ii_system_prompt = build_system_prompt t,
     ii_messages = [], ii_temperature = ms_temperature (t_model_spec t), ii_top_p = ms_top_p (t_model_spec t),
     ii_max_tokens = uint (ms_max_tokens (t_model_spec t))\<rparr>"

definition count_task :: "int \<Rightarrow> string \<Rightarrow> 'r local_manager \<Rightarrow> 'r local_manager" where
  "count_task t modelID m = (case lo_loaded m modelID of
     None \<Rightarrow> m
   | Some l \<Rightarrow> m\<lparr>lo_loaded := (lo_loaded m)(modelID \<mapsto> l\<lparr>ld_last_used_at := t, ld_task_count := ld_task_count l + 1\<rparr>)\<rparr>)"

lemma count_task_simps [simp]: "dom (lo_loaded (count_task t i m)) = dom (lo_loaded m)" "lo_runner (count_task t i m) = lo_runner m"
  by (auto simp: count_task_def split: option.splits)

text \<open>The clock is read twice when a model is loaded and once after the inference.\<close>

definition process_task ::
  "'r loader \<Rightarrow> 'r inferrer \<Rightarrow> int \<times> int \<times> int \<Rightarrow> task \<Rightarrow> 'r local_manager \<Rightarrow> (string, inference_result) outcome \<times> 'r local_manager" where
  "process_task rload rinfer clk t m = (case clk of (t1, t2, t3) \<Rightarrow>
     (let modelID = select_model_for_task t in
      case load_model rload t1 t2 modelID m of
        (Err e, m1) \<Rightarrow> (Err (''load model '' @ modelID @ '': '' @ e), m1)
      | (Panic, m1) \<Rightarrow> (Panic, m1)
      | (Ok _, m1) \<Rightarrow> (case rinfer modelID (task_input t) (lo_runner m1) of
            (Err e, r) \<Rightarrow> (Err (''inference: '' @ e), m1\<lparr>lo_runner := r\<rparr>)
          | (Panic, r) \<Rightarrow> (Panic, m1\<lparr>lo_runner := r\<rparr>)
          | (Ok res, r) \<Rightarrow> (Ok res, count_task t3 modelID (m1\<lparr>lo_runner := r\<rparr>)))))"

definition manager_capability :: "capabilities \<Rightarrow> 'r local_manager \<Rightarrow> miner_capability" where
  "manager_capability caps m = \<lparr>mc_vram = cp_max_vram caps, mc_ram = cp_max_ram caps, mc_gpu_count = cp_gpu_count caps,
     mc_compute_units = cp_compute_units caps, mc_supported_models = cp_models caps,
     mc_max_batch_size = lf_max_concurrent_tasks (lo_config m), mc_reputation = F64 1 0, mc_uptime = F64 1 0\<rparr>"

text \<open>\<open>Shutdown\<close> closes the channel of tasks; closing it again panics.\<close>

definition shutdown :: "'r local_manager \<Rightarrow> (string, 'r local_manager) outcome" where
  "shutdown m = (if lo_closed m then Panic else Ok (m\<lparr>lo_closed := True\<rparr>))"

section \<open>The interface of a runner\<close>

text \<open>\<open>models\<close> are the models a runner holds: a successful load adds the one that was asked for, a failed
  one adds none, and an inference leaves them alone.\<close>

locale model_runner =
  fixes rload :: "string \<Rightarrow> model_config \<Rightarrow> 'r \<Rightarrow> (string, unit) outcome \<times> 'r"
    and rinfer :: "string \<Rightarrow> inference_input \<Rightarrow> 'r \<Rightarrow> (string, inference_result) outcome \<times> 'r"
    and models :: "'r \<Rightarrow> string set"
  assumes load_ok: "rload i c r = (Ok u, r') \<Longrightarrow> models r' = insert i (models r)"
    and load_fails: "rload i c r = (Err e, r') \<Longrightarrow> models r' = models r"
    and load_panics: "rload i c r = (Panic, r') \<Longrightarrow> models r' = models r"
    and infer_models: "rinfer i x r = (res, r') \<Longrightarrow> models r' = models r"
begin

lemma load_model_models:
  assumes "dom (lo_loaded m) \<subseteq> models (lo_runner m)" "load_model rload t1 t2 i m = (res, m')"
  shows "dom (lo_loaded m') \<subseteq> models (lo_runner m')"
    and "res = Ok u \<Longrightarrow> dom (lo_loaded m') = insert i (dom (lo_loaded m))"
  using assms load_ok load_fails load_panics
  by (fastforce simp: load_model_def split: if_splits prod.splits outcome.splits)+

lemma load_model_counts:
  assumes "load_model rload t1 t2 i m = (res, m')"
  shows "(case lo_loaded m' j of None \<Rightarrow> 0 | Some l \<Rightarrow> ld_task_count l) = (case lo_loaded m j of None \<Rightarrow> 0 | Some l \<Rightarrow> ld_task_count l)"
  using assms by (auto simp: load_model_def split: if_splits prod.splits outcome.splits)

lemma process_task_models:
  assumes "dom (lo_loaded m) \<subseteq> models (lo_runner m)" "process_task rload rinfer clk t m = (res, m')"
  shows "dom (lo_loaded m') \<subseteq> models (lo_runner m')"
proof -
  obtain t1 t2 t3 where clk: "clk = (t1, t2, t3)" by (cases clk)
  obtain lr m1 where l: "load_model rload t1 t2 (select_model_for_task t) m = (lr, m1)"
    by (cases "load_model rload t1 t2 (select_model_for_task t) m")
  have m1: "dom (lo_loaded m1) \<subseteq> models (lo_runner m1)" by (rule load_model_models(1) [OF assms(1) l])
  obtain ir r where i: "rinfer (select_model_for_task t) (task_input t) (lo_runner m1) = (ir, r)"
    by (cases "rinfer (select_model_for_task t) (task_input t) (lo_runner m1)")
  have r: "models r = models (lo_runner m1)" by (rule infer_models [OF i])
  have "dom (lo_loaded m') = dom (lo_loaded m1) \<and> models (lo_runner m') = models (lo_runner m1)"
  proof -
    have "m' = m1 \<or> m' = m1\<lparr>lo_runner := r\<rparr> \<or> m' = count_task t3 (select_model_for_task t) (m1\<lparr>lo_runner := r\<rparr>)"
      using assms(2) unfolding process_task_def clk prod.case Let_def l
      by (cases lr; cases ir) (simp_all add: i)
    with r show ?thesis by (elim disjE) simp_all
  qed
  with m1 show ?thesis by (simp only:)
qed

end

interpretation lm: model_runner "client_load decode r" "\<lambda>i x c. (client_infer decode2 post i x, c)" "\<lambda>c. dom (lc_loaded c)"
  for decode r decode2 post
  by unfold_locales (auto simp: client_load_def split: outcome.splits list.splits)

section \<open>Runs over the client\<close>

text \<open>A call of \<open>ProcessTask\<close> with what the server answers during it.\<close>

record lm_call =
  ca_decode_list :: "string \<Rightarrow> string list option"
  ca_list_reply :: reply
  ca_decode_chat :: "string \<Rightarrow> chat_response option"
  ca_post :: "chat_request \<Rightarrow> reply"
  ca_clock :: "int \<times> int \<times> int"
  ca_task :: task

definition process_call :: "lm_call \<Rightarrow> lm_client local_manager \<Rightarrow> (string, inference_result) outcome \<times> lm_client local_manager" where
  "process_call c m = process_task (client_load (ca_decode_list c) (ca_list_reply c))
     (\<lambda>i x s. (client_infer (ca_decode_chat c) (ca_post c) i x, s)) (ca_clock c) (ca_task c) m"

text \<open>The results of a run, in order, and the manager after it.\<close>

fun process_calls :: "lm_call list \<Rightarrow> lm_client local_manager \<Rightarrow> (string, inference_result) outcome list \<times> lm_client local_manager" where
  "process_calls [] m = ([], m)"
| "process_calls (c # cs) m = (case process_call c m of (res, m1) \<Rightarrow>
     (case process_calls cs m1 of (rs, m2) \<Rightarrow> (res # rs, m2)))"

end
