(* ===== verification/LocalProps.thy ===== *)
theory LocalProps
  imports LocalManager
begin

text \<open>
  The manager counts the tasks it has served per model and trusts only models its runner holds; a stream
  hands on the pieces of the answer in order; the names of models are parsed for their size.
\<close>

section \<open>Tasks per model\<close>

definition tasks_done :: "'r local_manager \<Rightarrow> string \<Rightarrow> u64" where
  "tasks_done m i = (case lo_loaded m i of None \<Rightarrow> 0 | Some l \<Rightarrow> ld_task_count l)"

definition done_ok :: "(string, 'a) outcome \<Rightarrow> bool" where
  "done_ok res \<longleftrightarrow> (\<exists>x. res = Ok x)"

lemma done_ok_simps [simp]: "done_ok (Ok x)" "\<not> done_ok (Err e)" "\<not> done_ok Panic"
  by (simp_all add: done_ok_def)

lemma load_model_done:
  assumes "load_model rload t1 t2 i m = (res, m')"
  shows "tasks_done m' = tasks_done m" "done_ok res \<Longrightarrow> lo_loaded m' i \<noteq> None"
  using assms by (auto simp: tasks_done_def load_model_def fun_eq_iff split: if_splits prod.splits outcome.splits)

lemma count_task_done:
  "lo_loaded m i \<noteq> None \<Longrightarrow> tasks_done (count_task t i m) = (tasks_done m)(i := tasks_done m i + 1)"
  by (auto simp: tasks_done_def count_task_def)

lemma tasks_done_runner [simp]: "tasks_done (m\<lparr>lo_runner := r\<rparr>) = tasks_done m"
  by (simp add: tasks_done_def fun_eq_iff)

lemma process_task_done:
  assumes "process_task rload rinfer clk t m = (res, m')"
  shows "tasks_done m' = (if done_ok res then (tasks_done m)(select_model_for_task t := tasks_done m (select_model_for_task t) + 1)
     else tasks_done m)"
proof -
  obtain t1 t2 t3 where clk: "clk = (t1, t2, t3)" by (cases clk)
  obtain lr m1 where l: "load_model rload t1 t2 (select_model_for_task t) m = (lr, m1)"
    by (cases "load_model rload t1 t2 (select_model_for_task t) m")
  note l1 = load_model_done [OF l]
  obtain ir r where i: "rinfer (select_model_for_task t) (task_input t) (lo_runner m1) = (ir, r)"
    by (cases "rinfer (select_model_for_task t) (task_input t) (lo_runner m1)")
  have "done_ok res \<and> done_ok lr \<and> m' = count_task t3 (select_model_for_task t) (m1\<lparr>lo_runner := r\<rparr>)
      \<or> \<not> done_ok res \<and> (m' = m1 \<or> m' = m1\<lparr>lo_runner := r\<rparr>)"
    using assms unfolding process_task_def clk prod.case Let_def l
    by (cases lr; cases ir) (auto simp: i)
  then show ?thesis
  proof (elim disjE conjE)
    assume h: "done_ok res" "done_ok lr" "m' = count_task t3 (select_model_for_task t) (m1\<lparr>lo_runner := r\<rparr>)"
    have "lo_loaded (m1\<lparr>lo_runner := r\<rparr>) (select_model_for_task t) \<noteq> None" using l1(2) [OF h(2)] by simp
    from count_task_done [OF this] h l1(1) show ?thesis by simp
  qed (use l1 in simp_all)
qed

definition served :: "string \<Rightarrow> lm_call list \<Rightarrow> (string, inference_result) outcome list \<Rightarrow> nat" where
  "served i cs rs = length (filter (\<lambda>(c, res). done_ok res \<and> select_model_for_task (ca_task c) = i) (zip cs rs))"

lemma process_calls_done:
  "process_calls cs m = (rs, m') \<Longrightarrow> tasks_done m' i = tasks_done m i + word_of_nat (served i cs rs)"
proof (induction cs arbitrary: m rs m')
  case Nil
  then show ?case by (simp add: served_def)
next
  case (Cons c cs)
  obtain res m1 where 1: "process_call c m = (res, m1)" by (cases "process_call c m")
  obtain rs1 m2 where 2: "process_calls cs m1 = (rs1, m2)" by (cases "process_calls cs m1")
  have "rs = res # rs1" "m' = m2" using Cons.prems 1 2 by simp_all
  with Cons.IH [OF 2] process_task_done [OF 1 [unfolded process_call_def]] show ?case
    by (simp add: served_def)
qed

lemma process_calls_models:
  "dom (lo_loaded m) \<subseteq> dom (lc_loaded (lo_runner m)) \<Longrightarrow> process_calls cs m = (rs, m') \<Longrightarrow>
     dom (lo_loaded m') \<subseteq> dom (lc_loaded (lo_runner m'))"
proof (induction cs arbitrary: m rs m')
  case (Cons c cs)
  obtain res m1 where 1: "process_call c m = (res, m1)" by (cases "process_call c m")
  obtain rs1 m2 where 2: "process_calls cs m1 = (rs1, m2)" by (cases "process_calls cs m1")
  have "m' = m2" using Cons.prems 1 2 by simp
  with Cons.IH [OF lm.process_task_models [OF Cons.prems(1) 1 [unfolded process_call_def]] 2] show ?case by simp
qed simp

text \<open>After any sequence of tasks, whatever the server answered, the manager has for each model the
  number of tasks it served on it (as \<open>uint64\<close>), counting only the inferences that succeeded, and every
  model it takes for loaded is one the runner holds.\<close>

theorem model_task_counts:
  assumes "new_local_manager rload t (new_client url token) (cfg\<lparr>lf_auto_load_models := []\<rparr>) = Ok m0"
    and "process_calls cs m0 = (rs, m)"
  shows "(case lo_loaded m i of None \<Rightarrow> 0 | Some l \<Rightarrow> ld_task_count l) = word_of_nat (served i cs rs)
    \<and> dom (lo_loaded m) \<subseteq> dom (lc_loaded (lo_runner m))"
proof -
  have m0: "lo_loaded m0 = Map.empty" using assms(1) by (auto simp: new_local_manager_def)
  then have "tasks_done m0 i = 0" "dom (lo_loaded m0) \<subseteq> dom (lc_loaded (lo_runner m0))" by (simp_all add: tasks_done_def)
  with process_calls_done [OF assms(2), of i] process_calls_models [OF _ assms(2)] show ?thesis
    by (simp add: tasks_done_def)
qed

definition good_chat :: chat_response where
  "good_chat = \<lparr>ch_choices = [\<lparr>cc_content = ''hi'', cc_reasoning = '''', cc_finish_reason = ''stop''\<rparr>],
     ch_prompt_tokens = 1, ch_completion_tokens = 1, ch_total_tokens = 2\<rparr>"

definition good_call :: "task \<Rightarrow> lm_call" where
  "good_call t = \<lparr>ca_decode_list = (\<lambda>b. Some [''qwen3.6-35b-a3b'']), ca_list_reply = Answer 200 '''',
     ca_decode_chat = (\<lambda>b. Some good_chat), ca_post = (\<lambda>r. Answer 200 ''''), ca_clock = (1, 2, 3), ca_task = t\<rparr>"

definition any_model :: "task \<Rightarrow> task" where
  "any_model t = t\<lparr>t_model_spec := (t_model_spec t)\<lparr>ms_model_id := []\<rparr>\<rparr>"

theorem model_task_counts_witness:
  "\<forall>t. \<exists>m0 rs m l. new_local_manager (client_load (\<lambda>b. None) NoAnswer) 0 (new_client '''' '''') (default_local_config\<lparr>lf_auto_load_models := []\<rparr>) = Ok m0
       \<and> process_calls [good_call (any_model t)] m0 = (rs, m) \<and> lo_loaded m ''qwen3.6-35b-a3b'' = Some l \<and> ld_task_count l = 1"
proof
  fix t0 :: task
  define t where "t = any_model t0"
  have sel: "select_model_for_task t = ''qwen3.6-35b-a3b''" by (simp add: select_model_for_task_def t_def any_model_def)
  obtain m0 where m0: "new_local_manager (client_load (\<lambda>b. None) NoAnswer) 0 (new_client '''' '''')
      (default_local_config\<lparr>lf_auto_load_models := []\<rparr>) = Ok m0" "lo_loaded m0 = Map.empty"
    by (simp add: new_local_manager_def)
  obtain res m where c: "process_call (good_call t) m0 = (res, m)" by (cases "process_call (good_call t) m0")
  have ok: "done_ok res" "lo_loaded m ''qwen3.6-35b-a3b'' \<noteq> None"
    using c m0(2) by (auto simp: process_call_def process_task_def good_call_def sel Let_def load_model_def client_load_def
        list_remote_models_def reply_body_def listed_model_def client_infer_def good_chat_def count_task_def)
  then obtain l where l: "lo_loaded m ''qwen3.6-35b-a3b'' = Some l" by blast
  have r: "process_calls [good_call t] m0 = ([res], m)" using c by simp
  have "served ''qwen3.6-35b-a3b'' [good_call t] [res] = 1" using ok(1) sel by (simp add: served_def good_call_def)
  with model_task_counts [OF m0(1) r, of "''qwen3.6-35b-a3b''"] l have "ld_task_count l = 1" by simp
  with m0(1) r l show "\<exists>m0 rs m l. new_local_manager (client_load (\<lambda>b. None) NoAnswer) 0 (new_client '''' '''') (default_local_config\<lparr>lf_auto_load_models := []\<rparr>) = Ok m0
       \<and> process_calls [good_call (any_model t0)] m0 = (rs, m) \<and> lo_loaded m ''qwen3.6-35b-a3b'' = Some l \<and> ld_task_count l = 1"
    unfolding t_def by blast
qed

section \<open>Streams\<close>

text \<open>The pieces of a stream: what the data lines before the end mark decode to, without the empty ones.\<close>

fun stream_pieces :: "(string \<Rightarrow> (string \<times> string) list option) \<Rightarrow> string list \<Rightarrow> string list" where
  "stream_pieces decode lines =
     filter (\<lambda>d. d \<noteq> '''') (concat (map (\<lambda>l. case decode (drop 6 l) of None \<Rightarrow> [] | Some cs \<Rightarrow> [extract_delta cs])
       (takeWhile (\<lambda>l. drop 6 l \<noteq> ''[DONE]'') (filter (\<lambda>l. has_prefix l ''data: '') lines))))"

definition stream_ended :: "string list \<Rightarrow> bool" where
  "stream_ended lines \<longleftrightarrow> (\<exists>l \<in> set lines. has_prefix l ''data: '' \<and> drop 6 l = ''[DONE]'')"

text \<open>A stream hands exactly its pieces to the callback, in order, as long as the callback accepts
  them; after the end mark nothing is read, and only a stream without it reports the scanner's error.\<close>

theorem stream_delivers:
  assumes "\<And>d s. fst (cb d s) = None"
  shows "stream_lines decode cb scanErr lines s
    = (if stream_ended lines then None else scanErr, fold (\<lambda>d s. snd (cb d s)) (stream_pieces decode lines) s)"
proof (induction lines arbitrary: s)
  case (Cons l ls)
  have cb: "cb d s = (None, snd (cb d s))" for d s using assms [of d s] by (metis prod.collapse)
  show ?case
  proof (cases "has_prefix l ''data: ''")
    case False
    with Cons show ?thesis by (simp add: stream_ended_def)
  next
    case True
    show ?thesis
    proof (cases "drop 6 l = ''[DONE]''")
      case d: True
      then show ?thesis using True by (simp add: stream_ended_def)
    next
      case False
      have e: "stream_ended (l # ls) = stream_ended ls" using False by (simp add: stream_ended_def)
      show ?thesis
      proof (cases "decode (drop 6 l)")
        case None
        then show ?thesis using True False Cons e by simp
      next
        case (Some cs)
        show ?thesis
        proof (cases "extract_delta cs = ''''")
          case empty: True
          then show ?thesis using True False Cons e Some by simp
        next
          case piece: False
          obtain s' where s': "cb (extract_delta cs) s = (None, s')" using cb by blast
          then show ?thesis using True False Cons e Some piece by simp
        qed
      qed
    qed
  qed
qed (simp add: stream_ended_def)

theorem stream_delivers_witness:
  "stream_lines (\<lambda>d. Some [(d, '''')]) (\<lambda>d s. (None, s @ d)) (Some ''eof'') [''data: a'', '''', ''data: b'', ''data: [DONE]'', ''data: c''] ''''
     = (None, ''ab'')"
  by (subst stream_delivers) (simp_all add: stream_ended_def has_prefix_def extract_delta_def)

section \<open>Names of models\<close>

lemma first_param_count_skip:
  "\<forall>p \<in> set pre. \<not> has_suffix (to_lower p) ''b'' \<Longrightarrow> first_param_count (pre @ parts) = first_param_count parts"
  by (induction pre) (simp_all add: Let_def)

lemma to_lower_digits: "\<forall>c \<in> set ds. is_digit c \<Longrightarrow> to_lower (ds @ ''b'') = ds @ ''b''"
  by (induction ds) (auto simp: to_lower_def lower_char_def is_digit_def char_code_def)

lemma digits_not_b: "\<forall>c \<in> set ds. is_digit c \<Longrightarrow> trim_right (\<lambda>c. c = CHR ''b'') (ds @ ''b'') = ds"
proof -
  assume h: "\<forall>c \<in> set ds. is_digit c"
  then have "CHR ''b'' \<notin> set ds" by (auto simp: is_digit_def char_code_def)
  then have "dropWhile (\<lambda>c. c = CHR ''b'') (rev ds) = rev ds" by (cases "rev ds") (auto simp: dropWhile_eq_self_iff)
  then show ?thesis by (simp add: trim_right_def)
qed

text \<open>The size of a model is the number in the first part of its id that ends in \<open>b\<close>: for an id whose
  parts before it do not, such as \<^verbatim>\<open>qwen3.6-35b-a3b\<close>, \<^verbatim>\<open>parseParamCount\<close> returns that number if it fits a
  \<open>uint64\<close>.\<close>

theorem param_count_parsed:
  assumes "\<forall>p \<in> set pre. CHR ''-'' \<notin> set p \<and> \<not> has_suffix (to_lower p) ''b''"
    and "ds \<noteq> []" "\<forall>c \<in> set ds. is_digit c" "number_of 10 digit_value 0 ds < 2 ^ 64"
    and "\<forall>p \<in> set post. CHR ''-'' \<notin> set p"
  shows "parse_param_count (join_with CHR ''-'' (pre @ [ds @ ''b''] @ post)) = word_of_nat (number_of 10 digit_value 0 ds)"
proof -
  have dash: "CHR ''-'' \<notin> set (ds @ ''b'')" using assms(3) by (auto simp: is_digit_def char_code_def)
  have "split_on CHR ''-'' (join_with CHR ''-'' (pre @ [ds @ ''b''] @ post)) = pre @ [ds @ ''b''] @ post"
    using assms(1,5) dash by (intro split_join) auto
  moreover have "first_param_count (pre @ [ds @ ''b''] @ post) = Some (word_of_nat (number_of 10 digit_value 0 ds))"
  proof -
    have lower: "trim_left is_lower ds = ds"
      using assms(2,3) by (cases ds) (auto simp: trim_left_def is_lower_def is_digit_def)
    have "scan_decimal ds = Some (word_of_nat (number_of 10 digit_value 0 ds))"
      using scan_decimal_digits [OF assms(2-4), of "[]"] by simp
    moreover have "has_suffix (ds @ ''b'') ''b''" by (simp add: has_suffix_iff)
    ultimately show ?thesis
      using assms(1) by (simp add: first_param_count_skip to_lower_digits [OF assms(3)] digits_not_b [OF assms(3)] lower Let_def)
  qed
  ultimately show ?thesis by (simp add: parse_param_count_def)
qed

theorem param_count_parsed_witness: "parse_param_count ''qwen3.6-35b-a3b'' = 35"
proof -
  have 1: "\<forall>p \<in> set [''qwen3.6'']. CHR ''-'' \<notin> set p \<and> \<not> has_suffix (to_lower p) ''b''"
    by (simp add: text_eval)
  have 2: "''35'' \<noteq> []" "\<forall>c \<in> set ''35''. is_digit c" "number_of 10 digit_value 0 ''35'' < 2 ^ 64"
    "\<forall>p \<in> set [''a3b'']. CHR ''-'' \<notin> set p"
    by (simp_all add: text_eval)
  from param_count_parsed [OF 1 2] show ?thesis by (simp add: text_eval)
qed

text \<open>The quantization is read from the first part that starts with \<open>q\<close>, which is the family of a Qwen
  model.\<close>

theorem quantization_of_family:
  "parse_quantization ''qwen3.6-35b-q4_0'' = ''qwen3.6''"
  by (simp add: parse_quantization_def has_prefix_def)

text \<open>An inference panics exactly when the server answers with a chat completion without choices.\<close>

theorem infer_panics_exactly:
  "client_infer decode post i x = Panic \<longleftrightarrow>
     (\<exists>body resp. post (chat_request_for False i x) = Answer 200 body \<and> decode body = Some resp \<and> ch_choices resp = [])"
  by (auto simp: client_infer_def reply_body_def split: reply.splits option.splits outcome.splits list.splits)

end
