(* ===== verification/RegistryProps.thy ===== *)
theory RegistryProps
  imports Registry Float64Order "HOL-Library.List_Lexorder"
begin

text \<open>
  In every reachable registry the lists by tier are exactly the active miners that can handle the tier;
  so the miner that is picked is the best of them. Reputations stay between 0 and 1.
\<close>

section \<open>The indices\<close>

fun eligible :: "(address \<Rightarrow> miner_record option) \<Rightarrow> task_tier \<Rightarrow> address \<Rightarrow> bool" where
  "eligible miners t a = (case miners a of None \<Rightarrow> False | Some m \<Rightarrow> mr_is_active m \<and> can_miner_handle t (mr_capability m))"

definition registry_inv :: "registry \<Rightarrow> bool" where
  "registry_inv r \<longleftrightarrow> finite (dom (rg_miners r)) \<and> (\<forall>a m. rg_miners r a = Some m \<longrightarrow> mr_address m = a)
     \<and> (\<forall>t. t \<notin> set all_tiers \<longrightarrow> tier_list (rg_by_tier r) t = [])
     \<and> (\<forall>t \<in> set all_tiers. distinct (tier_list (rg_by_tier r) t)
          \<and> set (tier_list (rg_by_tier r) t) = {a. eligible (rg_miners r) t a})"

lemma tier_list_update: "tier_list (m(t \<mapsto> l)) t' = (if t' = t then l else tier_list m t')"
  by (simp add: tier_list_def)

lemma tier_list_clear: "tier_list (fold (\<lambda>t m. m(t \<mapsto> [])) ts m) t = (if t \<in> set ts then [] else tier_list m t)"
  by (induction ts arbitrary: m) (auto simp: tier_list_update)

lemma tier_list_append_fold:
  "distinct ts \<Longrightarrow> tier_list (fold (\<lambda>t m. if P t then m(t \<mapsto> tier_list m t @ [a]) else m) ts m) t
     = (if t \<in> set ts \<and> P t then tier_list m t @ [a] else tier_list m t)"
  by (induction ts arbitrary: m) (auto simp: tier_list_update)

lemma all_tiers_distinct: "distinct all_tiers"
  by (simp add: all_tiers_def tier_defs)

lemma tier_list_index:
  "tier_list (index_miner miners a m) t
     = (if t \<in> set all_tiers \<and> eligible miners t a then tier_list m t @ [a] else tier_list m t)"
  by (cases "miners a") (simp_all add: index_miner_def tier_list_append_fold [OF all_tiers_distinct])

lemma tier_list_index_all:
  "tier_list (fold (index_miner miners) as m) t
     = tier_list m t @ (if t \<in> set all_tiers then filter (eligible miners t) as else [])"
  by (induction as arbitrary: m) (simp_all add: tier_list_index)

lemma tier_list_rebuild:
  "tier_list (rg_by_tier (rebuild_tier_indices ord r)) t
     = (if t \<in> set all_tiers then filter (eligible (rg_miners r) t) (ord (dom (rg_miners r))) else tier_list (rg_by_tier r) t)"
  by (simp add: rebuild_tier_indices_def tier_list_index_all tier_list_clear)

lemma rebuild_miners [simp]: "rg_miners (rebuild_tier_indices ord r) = rg_miners r"
  by (simp add: rebuild_tier_indices_def)

lemma eligible_dom: "eligible miners t a \<Longrightarrow> a \<in> dom miners"
  by (auto split: option.splits)

lemma rebuild_inv:
  assumes "go_order ord" "finite (dom (rg_miners r))" "\<forall>a m. rg_miners r a = Some m \<longrightarrow> mr_address m = a"
    and "\<forall>t. t \<notin> set all_tiers \<longrightarrow> tier_list (rg_by_tier r) t = []"
  shows "registry_inv (rebuild_tier_indices ord r)"
proof -
  have o: "set (ord (dom (rg_miners r))) = dom (rg_miners r)" "distinct (ord (dom (rg_miners r)))"
    using assms(1,2) by (auto simp: go_order_def)
  show ?thesis
    unfolding registry_inv_def rebuild_miners
    using assms(2-4) o by (auto simp: tier_list_rebuild simp del: eligible.simps dest: eligible_dom)
qed

text \<open>Rebuilding after one record is changed.\<close>

lemma rebuild_upd_inv:
  assumes "go_order ord" "registry_inv r" "mr_address m = a"
  shows "registry_inv (rebuild_tier_indices ord (r\<lparr>rg_miners := (rg_miners r)(a \<mapsto> m)\<rparr>))"
  by (rule rebuild_inv [OF assms(1)]) (use assms(2,3) in \<open>auto simp: registry_inv_def\<close>)

lemma inv_address: "registry_inv r \<Longrightarrow> rg_miners r a = Some m \<Longrightarrow> mr_address m = a"
  by (simp add: registry_inv_def)

lemma result_inv:
  assumes "registry_inv r" "record_result a w s r = Ok r'"
  shows "registry_inv r'"
proof (cases "rg_miners r a")
  case None
  with assms show ?thesis by (simp add: record_result_def)
next
  case (Some m)
  with assms(2) obtain m' rep where m': "r' = r\<lparr>rg_miners := (rg_miners r)(a \<mapsto> m')\<rparr>" "mr_address m' = mr_address m"
    "mr_is_active m' = mr_is_active m" "mr_capability m' = (mr_capability m)\<lparr>mc_reputation := rep\<rparr>"
    by (auto simp: record_result_def obind_Ok_iff)
  have "can_miner_handle t (mr_capability m') = can_miner_handle t (mr_capability m)" for t
    unfolding m'(4) by (simp add: can_miner_handle_def)
  then have "eligible (rg_miners r') t = eligible (rg_miners r) t" for t
    using m' Some by (intro ext) simp
  with assms(1) Some m' show ?thesis
    unfolding registry_inv_def by (simp add: inv_address [OF assms(1)] del: eligible.simps)
qed

lemma registry_step_inv:
  assumes "registry_inv r" "registry_step c r = Some r'"
    and "case c of RRegister ord a cap h \<Rightarrow> go_order ord | RUnregister ord a \<Rightarrow> go_order ord
      | RUpdate ord a caps h \<Rightarrow> go_order ord | RResult a w s \<Rightarrow> True"
  shows "registry_inv r'"
proof (cases c)
  case (RRegister ord a cap h)
  with assms show ?thesis
    by (auto simp: register_record_def new_record_def Let_def inv_address split: option.splits intro!: rebuild_upd_inv)
next
  case (RUnregister ord a)
  with assms show ?thesis
    by (auto simp: unregister_record_def inv_address split: option.splits outcome.splits intro!: rebuild_upd_inv)
next
  case (RUpdate ord a caps h)
  with assms show ?thesis
    by (auto simp: update_capability_def Let_def inv_address split: option.splits outcome.splits intro!: rebuild_upd_inv)
next
  case (RResult a w s)
  with assms show ?thesis by (auto split: outcome.splits intro: result_inv)
qed

lemma new_registry_inv: "registry_inv new_registry"
  unfolding registry_inv_def new_registry_def
  by (simp add: tier_list_clear) (simp add: tier_list_def)

lemma registry_reachable_inv: "registry_reachable r \<Longrightarrow> registry_inv r"
  by (induction rule: registry_reachable.induct) (auto intro: new_registry_inv registry_step_inv)

lemma active_records_eligible:
  "\<forall>a \<in> set as. eligible miners t a \<Longrightarrow> active_records miners as = map (\<lambda>a. the (miners a)) as"
  by (induction as) (auto split: option.splits)

text \<open>C31: in every registry that calls can reach, the list of a tier holds exactly the active miners whose
  capability meets the requirements of the tier, each once, whatever the order in which the map of miners
  was walked; \<^verbatim>\<open>GetMinersByTier\<close> returns their records, each with its own address.\<close>

theorem registry_index_exact:
  assumes "registry_reachable r" "t \<in> set all_tiers"
  shows "distinct (tier_list (rg_by_tier r) t)
    \<and> (\<forall>a. a \<in> set (tier_list (rg_by_tier r) t) \<longleftrightarrow>
         (\<exists>m. rg_miners r a = Some m \<and> mr_is_active m \<and> can_miner_handle t (mr_capability m)))
    \<and> map mr_address (get_miners_by_tier t r) = tier_list (rg_by_tier r) t"
proof -
  have inv: "registry_inv r" using assms(1) by (rule registry_reachable_inv)
  then have s: "distinct (tier_list (rg_by_tier r) t)" "set (tier_list (rg_by_tier r) t) = {a. eligible (rg_miners r) t a}"
    using assms(2) by (auto simp: registry_inv_def)
  then have "get_miners_by_tier t r = map (\<lambda>a. the (rg_miners r a)) (tier_list (rg_by_tier r) t)"
    unfolding get_miners_by_tier_def by (intro active_records_eligible) blast
  moreover have "mr_address (the (rg_miners r a)) = a" if "a \<in> set (tier_list (rg_by_tier r) t)" for a
    using that s(2) inv_address [OF inv] by (auto split: option.splits)
  ultimately have "map mr_address (get_miners_by_tier t r) = tier_list (rg_by_tier r) t"
    by (simp add: map_idI)
  with s show ?thesis by (auto split: option.splits)
qed

lemma singleton_list: "distinct xs \<Longrightarrow> set xs = {x} \<Longrightarrow> xs = [x]"
  by (cases xs; cases "tl xs") auto

text \<open>A registry with two miners, the second of which can handle the first two tiers.\<close>

definition small_miner :: miner_capability where
  "small_miner = \<lparr>mc_vram = 2048, mc_ram = 8192, mc_gpu_count = 0, mc_compute_units = 2, mc_supported_models = [],
     mc_max_batch_size = 2, mc_reputation = F64 1 0, mc_uptime = F64 1 0\<rparr>"

definition big_miner :: miner_capability where
  "big_miner = \<lparr>mc_vram = 8192, mc_ram = 32768, mc_gpu_count = 1, mc_compute_units = 20, mc_supported_models = [],
     mc_max_batch_size = 2, mc_reputation = F64 1 0, mc_uptime = F64 1 0\<rparr>"

definition two_miners :: registry where
  "two_miners = register_record sorted_list_of_set [2] big_miner 11 (register_record sorted_list_of_set [1] small_miner 10 new_registry)"

lemma two_miners_reachable: "registry_reachable two_miners"
proof -
  have o: "go_order (sorted_list_of_set :: address set \<Rightarrow> address list)" by (rule go_order_sorted)
  have "registry_reachable (register_record sorted_list_of_set [1] small_miner 10 new_registry)"
    by (rule registry_reachable.call [OF registry_reachable.start, where c = "RRegister sorted_list_of_set [1] small_miner 10"])
       (simp_all add: o)
  then show ?thesis unfolding two_miners_def
    by (rule registry_reachable.call [where c = "RRegister sorted_list_of_set [2] big_miner 11"]) (simp_all add: o)
qed

lemma two_miners_eq:
  "rg_miners two_miners = [[1] \<mapsto> new_record [1] small_miner 10, [2] \<mapsto> new_record [2] big_miner 11]"
  by (simp add: two_miners_def register_record_def new_registry_def Let_def)

lemma two_miners_can:
  "can_miner_handle tier1_lightweight small_miner" "can_miner_handle tier1_lightweight big_miner"
  "\<not> can_miner_handle tier2_conversation small_miner" "can_miner_handle tier2_conversation big_miner"
  by (simp_all add: can_miner_handle_def get_tier_requirements_def small_miner_def big_miner_def tier_defs Let_def)

theorem registry_index_exact_witness:
  "set (tier_list (rg_by_tier two_miners) tier1_lightweight) = {[1], [2]}
   \<and> map mr_address (get_miners_by_tier tier2_conversation two_miners) = [[2]]"
proof -
  have t: "tier1_lightweight \<in> set all_tiers" "tier2_conversation \<in> set all_tiers" by (simp_all add: all_tiers_def)
  note r1 = registry_index_exact [OF two_miners_reachable t(1)]
    and r2 = registry_index_exact [OF two_miners_reachable t(2)]
  have 1: "set (tier_list (rg_by_tier two_miners) tier1_lightweight) = {[1], [2]}"
    by (rule set_eqI, unfold spec [OF conjunct1 [OF conjunct2 [OF r1]]])
      (auto simp: two_miners_eq new_record_def two_miners_can split: if_splits)
  have 2: "set (tier_list (rg_by_tier two_miners) tier2_conversation) = {[2]}"
    by (rule set_eqI, unfold spec [OF conjunct1 [OF conjunct2 [OF r2]]])
      (auto simp: two_miners_eq new_record_def two_miners_can split: if_splits)
  have "tier_list (rg_by_tier two_miners) tier2_conversation = [[2]]"
    using singleton_list [OF conjunct1 [OF r2] 2] .
  with 1 conjunct2 [OF conjunct2 [OF r2]] show ?thesis by (simp only: simp_thms)
qed

section \<open>The best miner\<close>

lemma best_step_eq:
  "best_step t m (b, s) = (if f64_less s (miner_score t (mr_capability m)) then (Some m, miner_score t (mr_capability m)) else (b, s))"
  by (simp add: best_step_def Let_def)

lemma best_fold:
  assumes "fold (best_step t) ms (b, s) = (b', s')"
  shows "f64_le s s' \<and> (\<forall>m \<in> set ms. f64_le (miner_score t (mr_capability m)) s')
    \<and> ((b', s') = (b, s) \<or> (\<exists>m \<in> set ms. b' = Some m \<and> s' = miner_score t (mr_capability m) \<and> f64_less s s'))"
  using assms
proof (induction ms arbitrary: b s)
  case (Cons m ms)
  define q where "q = miner_score t (mr_capability m)"
  show ?case
  proof (cases "f64_less s q")
    case True
    then have "fold (best_step t) ms (Some m, q) = (b', s')"
      using Cons.prems by (simp add: best_step_eq q_def)
    note ih = Cons.IH [OF this]
    have "f64_less s s'" using True ih f64_le_less_trans [of s' s q] f64_le_trans [of q s' s]
      by (auto simp: f64_le_def)
    with True ih show ?thesis
      by (auto simp: q_def [symmetric] dest: f64_less_le)
  next
    case False
    then have "fold (best_step t) ms (b, s) = (b', s')"
      using Cons.prems by (simp add: best_step_eq q_def)
    note ih = Cons.IH [OF this]
    moreover have "f64_le q s" using False by (simp add: f64_le_def)
    then have "f64_le q s'" using ih f64_le_trans by blast
    ultimately show ?thesis by (auto simp: q_def [symmetric])
  qed
qed simp

lemma tier_miners:
  assumes "registry_inv r" "t \<in> set all_tiers"
  shows "set (active_records (rg_miners r) (tier_list (rg_by_tier r) t))
    = {m. \<exists>a. rg_miners r a = Some m \<and> mr_is_active m \<and> can_miner_handle t (mr_capability m)}"
proof -
  have s: "set (tier_list (rg_by_tier r) t) = {a. eligible (rg_miners r) t a}"
    using assms by (simp add: registry_inv_def del: eligible.simps)
  then have e: "active_records (rg_miners r) (tier_list (rg_by_tier r) t) = map (\<lambda>a. the (rg_miners r a)) (tier_list (rg_by_tier r) t)"
    by (intro active_records_eligible [where t = t]) (simp del: eligible.simps)
  show ?thesis
    unfolding e list.set_map s by (auto simp: image_iff split: option.splits) force
qed

text \<open>In every reachable registry \<^verbatim>\<open>GetBestMiner\<close> returns a registered active miner that can handle the
  tier, has a positive score, and no active miner that can handle the tier has a greater one; it returns
  an error exactly when no such miner has a positive score.\<close>

theorem best_miner_best:
  assumes "registry_reachable r" "t \<in> set all_tiers"
  shows "case get_best_miner t r of
      Ok m \<Rightarrow> rg_miners r (mr_address m) = Some m \<and> mr_is_active m \<and> can_miner_handle t (mr_capability m)
        \<and> f64_less (F64 0 0) (miner_score t (mr_capability m))
        \<and> (\<forall>a m'. rg_miners r a = Some m' \<and> mr_is_active m' \<and> can_miner_handle t (mr_capability m')
             \<longrightarrow> f64_le (miner_score t (mr_capability m')) (miner_score t (mr_capability m)))
    | Err e \<Rightarrow> \<forall>a m'. rg_miners r a = Some m' \<and> mr_is_active m' \<and> can_miner_handle t (mr_capability m')
             \<longrightarrow> f64_le (miner_score t (mr_capability m')) (F64 0 0)
    | Panic \<Rightarrow> False"
proof -
  have inv: "registry_inv r" using assms(1) by (rule registry_reachable_inv)
  define ms where "ms = active_records (rg_miners r) (tier_list (rg_by_tier r) t)"
  have ms: "set ms = {m. \<exists>a. rg_miners r a = Some m \<and> mr_is_active m \<and> can_miner_handle t (mr_capability m)}"
    unfolding ms_def by (rule tier_miners [OF inv assms(2)])
  obtain b s where f: "fold (best_step t) ms (None, F64 0 0) = (b, s)" by (cases "fold (best_step t) ms (None, F64 0 0)")
  note best = best_fold [OF f]
  show ?thesis
  proof (cases "tier_list (rg_by_tier r) t = []")
    case True
    then have "ms = []" by (simp add: ms_def)
    then have "set ms = {}" by simp
    with True ms show ?thesis by (auto simp: get_best_miner_def)
  next
    case nonempty: False
    show ?thesis
    proof (cases b)
      case None
      with best have "s = F64 0 0" by auto
      with None nonempty f best ms show ?thesis by (auto simp: get_best_miner_def ms_def [symmetric])
    next
      case (Some m)
      with best have m: "m \<in> set ms" "s = miner_score t (mr_capability m)" "f64_less (F64 0 0) s" by auto
      then obtain a where a: "rg_miners r a = Some m" using ms by auto
      then have "mr_address m = a" by (rule inv_address [OF inv])
      with Some nonempty f best ms m a show ?thesis by (auto simp: get_best_miner_def ms_def [symmetric])
    qed
  qed
qed

theorem best_miner_best_witness:
  "\<exists>m. get_best_miner tier2_conversation two_miners = Ok m \<and> mr_address m = [2]"
proof -
  have t: "tier2_conversation \<in> set all_tiers" by (simp add: all_tiers_def)
  note b = best_miner_best [OF two_miners_reachable t]
  have big: "rg_miners two_miners [2] = Some (new_record [2] big_miner 11)" by (simp add: two_miners_eq)
  have score: "f64_less (F64 0 0) (miner_score tier2_conversation big_miner)"
    by (simp add: miner_score_def big_miner_def get_tier_requirements_def tier_defs f64_of_u64_def
        f64_four_tenths_def f64_three_tenths_def f64_eval)
  show ?thesis
  proof (cases "get_best_miner tier2_conversation two_miners")
    case (Ok m)
    with b have "rg_miners two_miners (mr_address m) = Some m" "can_miner_handle tier2_conversation (mr_capability m)" by simp_all
    then have "mr_address m = [2]" by (auto simp: two_miners_eq new_record_def two_miners_can split: if_splits)
    with Ok show ?thesis by simp
  next
    case (Err e)
    then have "\<forall>a m'. rg_miners two_miners a = Some m' \<and> mr_is_active m' \<and> can_miner_handle tier2_conversation (mr_capability m')
             \<longrightarrow> f64_le (miner_score tier2_conversation (mr_capability m')) (F64 0 0)" using b by simp
    from this [rule_format, of "[2]" "new_record [2] big_miner 11"] big score two_miners_can
    show ?thesis by (simp add: new_record_def f64_le_def)
  next
    case Panic
    with b show ?thesis by simp
  qed
qed

section \<open>Reputation\<close>

definition unit_f64 :: "f64 \<Rightarrow> bool" where
  "unit_f64 x \<longleftrightarrow> f64_le (F64 0 0) x \<and> f64_le x (F64 1 0)"

lemma reputation_weight_nonneg: "f64_nonneg (f64_sub (F64 1 0) reputation_alpha)" "f64_nonneg reputation_alpha"
  by (simp_all add: reputation_alpha_def f64_eval)

lemma moved_reputation_mono:
  assumes "f64_nonneg a" "f64_le a b" "s \<longrightarrow> s'"
  shows "f64_le (moved_reputation s a) (moved_reputation s' b)"
  unfolding moved_reputation_def using assms reputation_weight_nonneg
  by (intro f64_add_mono f64_mul_mono) auto

lemma moved_reputation_unit: "unit_f64 x \<Longrightarrow> unit_f64 (moved_reputation s x)"
proof -
  assume x: "unit_f64 x"
  have "f64_le (moved_reputation s x) (moved_reputation True (F64 1 0))"
    using x by (intro moved_reputation_mono) (auto simp: unit_f64_def)
  also have "moved_reputation True (F64 1 0) = f64_add (f64_mul (f64_sub (F64 1 0) reputation_alpha) (F64 1 0)) (f64_mul reputation_alpha (F64 1 0))"
    by (simp add: moved_reputation_def)
  finally have top: "f64_le (moved_reputation s x) (F64 1 0)"
    by (rule f64_le_trans) (simp add: reputation_alpha_def f64_eval)
  have "f64_le (moved_reputation False (F64 0 0)) (moved_reputation s x)"
    using x by (intro moved_reputation_mono) (auto simp: unit_f64_def)
  then have "f64_le (F64 0 0) (moved_reputation s x)"
    by (rule f64_le_trans [rotated]) (simp add: moved_reputation_def reputation_alpha_def f64_eval)
  with top show ?thesis by (simp add: unit_f64_def)
qed

definition unit_reputations :: "registry \<Rightarrow> bool" where
  "unit_reputations r \<longleftrightarrow> (\<forall>a m. rg_miners r a = Some m \<longrightarrow> unit_f64 (mc_reputation (mr_capability m)))"

text \<open>C32: a call keeps every reputation between 0 and 1, provided that a registration brings one in
  that range: the moving average never leaves it, in spite of its rounding.\<close>

theorem reputation_stays_unit:
  assumes "unit_reputations r" "registry_step c r = Some r'"
    and "\<forall>ord a cap h. c = RRegister ord a cap h \<longrightarrow> unit_f64 (mc_reputation cap)"
  shows "unit_reputations r'"
proof (cases c)
  case (RRegister ord a cap h)
  with assms show ?thesis
    by (auto simp: unit_reputations_def register_record_def new_record_def Let_def split: option.splits if_splits)
next
  case (RUnregister ord a)
  with assms show ?thesis
    by (auto simp: unit_reputations_def unregister_record_def split: option.splits outcome.splits if_splits)
next
  case (RUpdate ord a caps h)
  with assms show ?thesis
    by (auto simp: unit_reputations_def update_capability_def Let_def split: option.splits outcome.splits if_splits)
next
  case (RResult a w s)
  with assms show ?thesis
    by (auto simp: unit_reputations_def record_result_def obind_Ok_iff intro!: moved_reputation_unit split: option.splits outcome.splits if_splits)
qed

theorem reputation_stays_unit_witness:
  "\<exists>r'. registry_step (RResult [2] (Some 5) False) two_miners = Some r' \<and> unit_reputations r'"
proof -
  obtain r' where r': "registry_step (RResult [2] (Some 5) False) two_miners = Some r'"
    by (simp add: record_result_def two_miners_eq)
  have u: "unit_reputations two_miners"
    by (auto simp: unit_reputations_def two_miners_eq new_record_def small_miner_def big_miner_def unit_f64_def split: if_splits)
  have n: "\<forall>ord a cap h. RResult [2] (Some 5) False = RRegister ord a cap h \<longrightarrow> unit_f64 (mc_reputation cap)" by simp
  from reputation_stays_unit [OF u r' n] r' show ?thesis by blast
qed

end
