(* ===== verification/MemoryDb.thy ===== *)
theory MemoryDb
  imports Trie "HOL-Library.List_Lexorder"
begin

text \<open>
  The in-memory database, \<^verbatim>\<open>src/internal/storage/memory.go\<close>, with its batches and iterators, which keep
  a pointer to the database: the operations that follow it take the database as an argument. Values are
  copied on the way in and out, so they are plain values here. Go's \<open>nil\<close> from \<open>Get\<close> is \<open>None\<close>.
\<close>

record memory_db =
  md_data :: "byte list \<Rightarrow> byte list option"

definition new_memory_db :: memory_db where
  "new_memory_db = \<lparr>md_data = Map.empty\<rparr>"

definition mem_put :: "byte list \<Rightarrow> byte list \<Rightarrow> memory_db \<Rightarrow> memory_db" where
  "mem_put k v m = m\<lparr>md_data := (md_data m)(k \<mapsto> v)\<rparr>"

definition mem_get :: "byte list \<Rightarrow> memory_db \<Rightarrow> byte list option" where
  "mem_get k m = (case md_data m k of None \<Rightarrow> None | Some v \<Rightarrow> Some v)"

definition mem_has :: "byte list \<Rightarrow> memory_db \<Rightarrow> bool" where
  "mem_has k m = (md_data m k \<noteq> None)"

definition mem_delete :: "byte list \<Rightarrow> memory_db \<Rightarrow> memory_db" where
  "mem_delete k m = m\<lparr>md_data := (md_data m)(k := None)\<rparr>"

section \<open>Batches\<close>

record memory_batch =
  mb_writes :: "(byte list \<times> byte list) list"

definition new_batch :: memory_batch where
  "new_batch = \<lparr>mb_writes = []\<rparr>"

definition batch_put :: "byte list \<Rightarrow> byte list \<Rightarrow> memory_batch \<Rightarrow> memory_batch" where
  "batch_put k v b = b\<lparr>mb_writes := mb_writes b @ [(k, v)]\<rparr>"

definition batch_delete :: "byte list \<Rightarrow> memory_batch \<Rightarrow> memory_batch" where
  "batch_delete k b = b\<lparr>mb_writes := mb_writes b @ [(k, [])]\<rparr>"

fun batch_apply :: "byte list \<times> byte list \<Rightarrow> memory_db \<Rightarrow> memory_db" where
  "batch_apply (k, v) m = (if v = [] then m\<lparr>md_data := (md_data m)(k := None)\<rparr> else m\<lparr>md_data := (md_data m)(k \<mapsto> v)\<rparr>)"

definition batch_write :: "memory_batch \<Rightarrow> memory_db \<Rightarrow> memory_db" where
  "batch_write b m = fold batch_apply (mb_writes b) m"

definition batch_reset :: "memory_batch \<Rightarrow> memory_batch" where
  "batch_reset b = b\<lparr>mb_writes := []\<rparr>"

definition value_size :: "memory_batch \<Rightarrow> int" where
  "value_size b = int (length (mb_writes b))"

section \<open>Iterators\<close>

record memory_iterator =
  it_keys :: "byte list list"
  it_index :: int

definition new_iterator :: "(byte list set \<Rightarrow> byte list list) \<Rightarrow> memory_db \<Rightarrow> memory_iterator" where
  "new_iterator ord m = \<lparr>it_keys = ord (dom (md_data m)), it_index = -1\<rparr>"

definition it_next :: "memory_iterator \<Rightarrow> bool \<times> memory_iterator" where
  "it_next it = (let it1 = it\<lparr>it_index := it_index it + 1\<rparr> in (it_index it1 < int (length (it_keys it1)), it1))"

definition it_key :: "memory_iterator \<Rightarrow> byte list option" where
  "it_key it = (if it_index it < 0 \<or> int (length (it_keys it)) \<le> it_index it then None
     else Some (it_keys it ! nat (it_index it)))"

definition it_value :: "memory_iterator \<Rightarrow> memory_db \<Rightarrow> byte list option" where
  "it_value it m = (if it_index it < 0 \<or> int (length (it_keys it)) \<le> it_index it then None
     else Some (case md_data m (it_keys it ! nat (it_index it)) of None \<Rightarrow> [] | Some v \<Rightarrow> v))"

text \<open>The loop \<open>for it.Next() { ... it.Key() ... it.Value() ... }\<close>, within \<open>n\<close> calls of \<open>Next\<close>.\<close>

fun it_scan :: "nat \<Rightarrow> memory_db \<Rightarrow> memory_iterator \<Rightarrow> (byte list option \<times> byte list option) list option" where
  "it_scan 0 m it = None"
| "it_scan (Suc n) m it = (case it_next it of (found, it1) \<Rightarrow>
     if \<not> found then Some []
     else (case it_scan n m it1 of None \<Rightarrow> None | Some kvs \<Rightarrow> Some ((it_key it1, it_value it1 m) # kvs)))"

section \<open>The contract of a key-value store\<close>

text \<open>A store of values that may be absent: an absent value is written by \<open>Delete\<close>.\<close>

definition mem_write :: "byte list \<Rightarrow> byte list option \<Rightarrow> memory_db \<Rightarrow> memory_db option" where
  "mem_write k v m = Some (case v of None \<Rightarrow> mem_delete k m | Some x \<Rightarrow> mem_put k x m)"

interpretation mem: kv_store "\<lambda>m. True" md_data mem_write "\<lambda>k m. Some (mem_delete k m)"
  by unfold_locales (auto simp: mem_write_def mem_put_def mem_delete_def split: option.splits)

section \<open>Batches against single writes\<close>

datatype batch_op = BPut "byte list" "byte list" | BDelete "byte list"

fun batch_add :: "batch_op \<Rightarrow> memory_batch \<Rightarrow> memory_batch" where
  "batch_add (BPut k v) b = batch_put k v b"
| "batch_add (BDelete k) b = batch_delete k b"

fun as_write :: "batch_op \<Rightarrow> byte list \<times> byte list option" where
  "as_write (BPut k v) = (k, Some v)"
| "as_write (BDelete k) = (k, None)"

fun effective_write :: "batch_op \<Rightarrow> byte list \<times> byte list option" where
  "effective_write (BPut k v) = (k, if v = [] then None else Some v)"
| "effective_write (BDelete k) = (k, None)"

lemma batch_apply_data: "md_data (batch_apply (k, v) m) = (md_data m)(k := if v = [] then None else Some v)"
  by simp

lemma batch_write_data:
  "md_data (batch_write (fold batch_add ops b) m)
     = fold (\<lambda>(k, v) d. d(k := v)) (map effective_write ops) (md_data (batch_write b m))"
proof (induction ops arbitrary: b)
  case (Cons op ops)
  have "md_data (batch_write (batch_add op b) m) = (md_data (batch_write b m))(fst (effective_write op) := snd (effective_write op))"
    by (cases op) (simp_all add: batch_write_def batch_put_def batch_delete_def)
  with Cons [of "batch_add op b"] show ?case by (cases "effective_write op") simp
qed simp

text \<open>Writing a batch to the memory database is the same as making its calls one by one on the database,
  provided that no value in it is empty; a put of an empty value deletes the key instead.\<close>

theorem batch_is_writes:
  "md_data (batch_write (fold batch_add ops new_batch) m) = fold (\<lambda>(k, v) d. d(k := v)) (map effective_write ops) (md_data m)
   \<and> ((\<forall>k. BPut k [] \<notin> set ops) \<longrightarrow> mem.puts (map as_write ops) m = Some (batch_write (fold batch_add ops new_batch) m))"
proof (intro conjI impI)
  show 1: "md_data (batch_write (fold batch_add ops new_batch) m) = fold (\<lambda>(k, v) d. d(k := v)) (map effective_write ops) (md_data m)"
    unfolding batch_write_data by (simp add: batch_write_def new_batch_def)
  assume h: "\<forall>k. BPut k [] \<notin> set ops"
  then have e: "map effective_write ops = map as_write ops"
  proof (intro map_cong refl)
    fix op assume "op \<in> set ops"
    with h show "effective_write op = as_write op" by (cases op) auto
  qed
  obtain m' where m': "mem.puts (map as_write ops) m = Some m'" "md_data m' = fold (\<lambda>(k, v) d. d(k := v)) (map as_write ops) (md_data m)"
    using mem.puts_law [where s = m and kvs = "map as_write ops"] by blast
  have "md_data m' = md_data (batch_write (fold batch_add ops new_batch) m)" using m'(2) 1 e by simp
  then have "m' = batch_write (fold batch_add ops new_batch) m" by (cases m'; cases "batch_write (fold batch_add ops new_batch) m") simp
  with m'(1) show "mem.puts (map as_write ops) m = Some (batch_write (fold batch_add ops new_batch) m)" by simp
qed

theorem batch_is_writes_witness:
  "md_data (batch_write (fold batch_add [BPut [1] [7], BPut [2] []] new_batch) \<lparr>md_data = [[2] \<mapsto> [9]]\<rparr>) = [[1] \<mapsto> [7]]
   \<and> mem.puts (map as_write [BPut [1] [7]]) new_memory_db = Some (batch_write (fold batch_add [BPut [1] [7]] new_batch) new_memory_db)"
  using batch_is_writes [of "[BPut [1] [7], BPut [2] []]" "\<lparr>md_data = [[2] \<mapsto> [9]]\<rparr>"]
    batch_is_writes [of "[BPut [1] [7]]" new_memory_db]
  by (simp add: fun_eq_iff)

section \<open>A scan\<close>

lemma it_scan_from:
  "length ks = j + n \<Longrightarrow> it_scan (Suc n) m \<lparr>it_keys = ks, it_index = int j - 1\<rparr>
     = Some (map (\<lambda>k. (Some k, Some (case md_data m k of None \<Rightarrow> [] | Some v \<Rightarrow> v))) (drop j ks))"
proof (induction n arbitrary: j)
  case 0
  then show ?case by (simp add: it_next_def Let_def)
next
  case (Suc n)
  have next1: "it_next \<lparr>it_keys = ks, it_index = int j - 1\<rparr> = (True, \<lparr>it_keys = ks, it_index = int (Suc j) - 1\<rparr>)"
    using Suc.prems by (simp add: it_next_def Let_def)
  have here: "it_key \<lparr>it_keys = ks, it_index = int (Suc j) - 1\<rparr> = Some (ks ! j)"
    "it_value \<lparr>it_keys = ks, it_index = int (Suc j) - 1\<rparr> m = Some (case md_data m (ks ! j) of None \<Rightarrow> [] | Some v \<Rightarrow> v)"
    using Suc.prems by (simp_all add: it_key_def it_value_def)
  have "drop j ks = ks ! j # drop (Suc j) ks" using Suc.prems by (simp add: Cons_nth_drop_Suc)
  moreover have "it_scan (Suc n) m \<lparr>it_keys = ks, it_index = int (Suc j) - 1\<rparr>
     = Some (map (\<lambda>k. (Some k, Some (case md_data m k of None \<Rightarrow> [] | Some v \<Rightarrow> v))) (drop (Suc j) ks))"
    using Suc.prems by (intro Suc.IH) simp
  ultimately show ?case
    unfolding it_scan.simps(2) [of "Suc n"] next1 by (simp add: here del: it_scan.simps of_nat_Suc)
qed

text \<open>A scan with a fresh iterator yields every binding of the database exactly once, in the order in
  which the map is walked, and then ends.\<close>

theorem scan_complete:
  assumes "go_order ord" "finite (dom (md_data m))"
  shows "\<exists>ks. set ks = dom (md_data m) \<and> distinct ks
    \<and> it_scan (Suc (length ks)) m (new_iterator ord m) = Some (map (\<lambda>k. (Some k, md_data m k)) ks)"
proof (intro exI conjI)
  let ?ks = "ord (dom (md_data m))"
  show s: "set ?ks = dom (md_data m)" and "distinct ?ks" using assms by (simp_all add: go_order_def)
  have "it_scan (Suc (length ?ks)) m (new_iterator ord m)
      = Some (map (\<lambda>k. (Some k, Some (case md_data m k of None \<Rightarrow> [] | Some v \<Rightarrow> v))) ?ks)"
    using it_scan_from [of ?ks 0 "length ?ks" m] by (simp add: new_iterator_def del: it_scan.simps)
  moreover have "map (\<lambda>k. (Some k, Some (case md_data m k of None \<Rightarrow> [] | Some v \<Rightarrow> v))) ?ks = map (\<lambda>k. (Some k, md_data m k)) ?ks"
    using s by (intro map_cong refl) (auto split: option.splits)
  ultimately show "it_scan (Suc (length ?ks)) m (new_iterator ord m) = Some (map (\<lambda>k. (Some k, md_data m k)) ?ks)" by simp
qed

theorem scan_complete_witness:
  "it_scan 2 \<lparr>md_data = [[5] \<mapsto> [6]]\<rparr> (new_iterator sorted_list_of_set \<lparr>md_data = [[5] \<mapsto> [6]]\<rparr>) = Some [(Some [5], Some [6])]"
proof -
  obtain ks where ks: "set ks = {[5]}" "distinct ks"
    "it_scan (Suc (length ks)) \<lparr>md_data = [[5] \<mapsto> [6]]\<rparr> (new_iterator sorted_list_of_set \<lparr>md_data = [[5] \<mapsto> [6]]\<rparr>)
      = Some (map (\<lambda>k. (Some k, [[5] \<mapsto> [6]] k)) ks)"
    using scan_complete [OF go_order_sorted, of "\<lparr>md_data = [[5] \<mapsto> [6]]\<rparr>"] by auto
  have "ks = [[5]]" using ks(1,2) by (cases ks; cases "tl ks") auto
  with ks(3) show ?thesis by (simp del: it_scan.simps add: numeral_2_eq_2)
qed

end
