(* ===== verification/JsonRpc.thy ===== *)
theory JsonRpc
  imports Blockchain TxPool GoText
begin

text \<open>
  The JSON-RPC server, \<^verbatim>\<open>src/internal/api/jsonrpc\<close>: the dispatch of requests (\<^verbatim>\<open>server.go\<close>) and the
  standard methods over the chain and the pool (\<^verbatim>\<open>endpoints.go\<close>). The reading and writing of JSON are
  parameters: \<open>'p\<close> are raw parameters, \<open>'i\<close> request ids, and a decoder yields \<open>None\<close> on an error. A method
  that never returns (the pool's mutex) is \<open>None\<close>; \<^verbatim>\<open>net/http\<close> answers a panicking request with nothing.
\<close>

section \<open>The server\<close>

record ('p, 'i) rpc_request =
  rq_jsonrpc :: string
  rq_method :: string
  rq_params :: 'p
  rq_id :: 'i

record ('v, 'i) rpc_response =
  rs_jsonrpc :: string
  rs_result :: "'v option"
  rs_error :: "(int \<times> string) option"
  rs_id :: "'i option"

definition err_parse :: int where "err_parse = -32700"
definition err_invalid :: int where "err_invalid = -32600"
definition err_method :: int where "err_method = -32601"
definition err_params :: int where "err_params = -32602"
definition err_internal :: int where "err_internal = -32603"

type_synonym ('p, 'v, 'w) method_handler = "'p \<Rightarrow> 'w \<Rightarrow> ((string, 'v) outcome \<times> 'w) option"

record ('p, 'v, 'w) rpc_server =
  sv_methods :: "string \<Rightarrow> ('p, 'v, 'w) method_handler option"

definition new_server :: "('p, 'v, 'w) rpc_server" where
  "new_server = \<lparr>sv_methods = Map.empty\<rparr>"

definition register_method :: "string \<Rightarrow> ('p, 'v, 'w) method_handler \<Rightarrow> ('p, 'v, 'w) rpc_server \<Rightarrow> ('p, 'v, 'w) rpc_server" where
  "register_method name h s = s\<lparr>sv_methods := (sv_methods s)(name \<mapsto> h)\<rparr>"

definition error_response :: "'i option \<Rightarrow> int \<Rightarrow> string \<Rightarrow> ('v, 'i) rpc_response" where
  "error_response i code msg = \<lparr>rs_jsonrpc = ''2.0'', rs_result = None, rs_error = Some (code, msg), rs_id = i\<rparr>"

definition handle_request ::
  "('p, 'v, 'w) rpc_server \<Rightarrow> ('p, 'i) rpc_request \<Rightarrow> 'w \<Rightarrow> ((string, ('v, 'i) rpc_response) outcome \<times> 'w) option" where
  "handle_request s req w =
     (if rq_jsonrpc req \<noteq> ''2.0'' then Some (Ok (error_response (Some (rq_id req)) err_invalid ''jsonrpc must be 2.0''), w)
      else case sv_methods s (rq_method req) of
        None \<Rightarrow> Some (Ok (error_response (Some (rq_id req)) err_method (''method '' @ rq_method req @ '' not found'')), w)
      | Some h \<Rightarrow> (case h (rq_params req) w of
          None \<Rightarrow> None
        | Some (Err e, w1) \<Rightarrow> Some (Ok (error_response (Some (rq_id req)) err_internal e), w1)
        | Some (Panic, w1) \<Rightarrow> Some (Panic, w1)
        | Some (Ok v, w1) \<Rightarrow> Some (Ok \<lparr>rs_jsonrpc = ''2.0'', rs_result = Some v, rs_error = None, rs_id = Some (rq_id req)\<rparr>, w1)))"

fun handle_batch ::
  "('p, 'v, 'w) rpc_server \<Rightarrow> ('p, 'i) rpc_request list \<Rightarrow> 'w \<Rightarrow> ((string, ('v, 'i) rpc_response list) outcome \<times> 'w) option" where
  "handle_batch s [] w = Some (Ok [], w)"
| "handle_batch s (req # reqs) w = (case handle_request s req w of
     None \<Rightarrow> None
   | Some (Panic, w1) \<Rightarrow> Some (Panic, w1)
   | Some (Err e, w1) \<Rightarrow> Some (Err e, w1)
   | Some (Ok resp, w1) \<Rightarrow> (case handle_batch s reqs w1 of
       None \<Rightarrow> None
     | Some (Ok resps, w2) \<Rightarrow> Some (Ok (resp # resps), w2)
     | Some (Err e, w2) \<Rightarrow> Some (Err e, w2)
     | Some (Panic, w2) \<Rightarrow> Some (Panic, w2)))"

text \<open>The answer to an HTTP request: an error status, one response, or the responses of a batch.\<close>

datatype ('v, 'i) http_answer = HttpStatus int | OneResponse "('v, 'i) rpc_response" | ManyResponses "('v, 'i) rpc_response list"

text \<open>\<open>body\<close> is \<open>None\<close> if it cannot be read.\<close>

definition handle_http ::
  "(string \<Rightarrow> ('p, 'i) rpc_request option) \<Rightarrow> (string \<Rightarrow> ('p, 'i) rpc_request list option) \<Rightarrow> ('p, 'v, 'w) rpc_server
     \<Rightarrow> string \<Rightarrow> string option \<Rightarrow> 'w \<Rightarrow> ((string, ('v, 'i) http_answer) outcome \<times> 'w) option" where
  "handle_http decode decode_batch s meth body w =
     (if meth \<noteq> ''POST'' then Some (Ok (HttpStatus 405), w)
      else case body of
        None \<Rightarrow> Some (Ok (OneResponse (error_response None err_parse ''failed to read body'')), w)
      | Some b \<Rightarrow>
          if b \<noteq> [] \<and> hd b = CHR ''['' then
            (case decode_batch b of
               None \<Rightarrow> Some (Ok (OneResponse (error_response None err_parse ''invalid batch request'')), w)
             | Some reqs \<Rightarrow> (case handle_batch s reqs w of
                 None \<Rightarrow> None
               | Some (Ok resps, w1) \<Rightarrow> Some (Ok (ManyResponses resps), w1)
               | Some (Err e, w1) \<Rightarrow> Some (Err e, w1)
               | Some (Panic, w1) \<Rightarrow> Some (Panic, w1)))
          else (case decode b of
               None \<Rightarrow> Some (Ok (OneResponse (error_response None err_parse ''invalid request'')), w)
             | Some req \<Rightarrow> (case handle_request s req w of
                 None \<Rightarrow> None
               | Some (Ok resp, w1) \<Rightarrow> Some (Ok (OneResponse resp), w1)
               | Some (Err e, w1) \<Rightarrow> Some (Err e, w1)
               | Some (Panic, w1) \<Rightarrow> Some (Panic, w1))))"

section \<open>The standard methods\<close>

datatype rpc_value = RText string | RObject "(string \<times> string) list"

record rpc_world =
  rw_chain :: blockchain
  rw_pool :: pool

definition hex_number :: "nat \<Rightarrow> string" where
  "hex_number n = ''0x'' @ format_hex n"

definition rpc_block_number :: "(string \<Rightarrow> string list option) \<Rightarrow> (string, rpc_value, rpc_world) method_handler" where
  "rpc_block_number args params w = Some (case current_block (rw_chain w) of
     None \<Rightarrow> Ok (RText ''0x0'')
   | Some r \<Rightarrow> Ok (RText (hex_number (unat (bh_height (blk_header (bc_heap (rw_chain w) r)))))), w)"

text \<open>The two calls of \<open>Sscanf\<close>, the second of which overwrites what the first has read.\<close>

definition parse_height :: "string \<Rightarrow> u64" where
  "parse_height s =
     (let h = (if has_prefix s ''0x'' then (case scan_hex (drop 2 s) of Some n \<Rightarrow> n | None \<Rightarrow> 0) else 0)
      in case scan_decimal s of Some n \<Rightarrow> n | None \<Rightarrow> h)"

definition first_arg :: "(string \<Rightarrow> string list option) \<Rightarrow> string \<Rightarrow> string \<Rightarrow> (string, string) outcome" where
  "first_arg args params missing = (case args params of
     None \<Rightarrow> Err ''invalid params''
   | Some as \<Rightarrow> if as = [] then Err missing else Ok (hd as))"

definition block_object :: "(byte list \<Rightarrow> hash) \<Rightarrow> block \<Rightarrow> rpc_value" where
  "block_object sha b = RObject [(''hash'', hex_encode (block_hash sha b)),
     (''height'', hex_number (unat (bh_height (blk_header b)))),
     (''parentHash'', hex_encode (bh_parent_hash (blk_header b))), (''stateRoot'', hex_encode (bh_state_root (blk_header b))),
     (''txRoot'', hex_encode (bh_tx_root (blk_header b))), (''timestamp'', hex_number (unat (bh_timestamp (blk_header b)))),
     (''txCount'', hex_number (length (blk_txs b)))]"

definition rpc_get_block_by_number ::
  "(byte list \<Rightarrow> hash) \<Rightarrow> (string \<Rightarrow> string list option) \<Rightarrow> (string, rpc_value, rpc_world) method_handler" where
  "rpc_get_block_by_number sha args params w =
     Some (obind (first_arg args params ''block number required'') (\<lambda>a.
       case get_block_by_height (parse_height a) (rw_chain w) of
         None \<Rightarrow> Err ''block not found''
       | Some r \<Rightarrow> Ok (block_object sha (bc_heap (rw_chain w) r))), w)"

definition amount_string :: "token_amount \<Rightarrow> string" where
  "amount_string t = (case t of None \<Rightarrow> ''<nil>'' | Some v \<Rightarrow> format_int v)"

definition rpc_get_balance :: "(string \<Rightarrow> string list option) \<Rightarrow> (string, rpc_value, rpc_world) method_handler" where
  "rpc_get_balance args params w = (case first_arg args params ''address required'' of
     Panic \<Rightarrow> Some (Panic, w) | Err e \<Rightarrow> Some (Err e, w)
   | Ok a \<Rightarrow> (case hex_to_address a of
       Panic \<Rightarrow> Some (Panic, w) | Err e \<Rightarrow> Some (Err (''invalid address: '' @ e), w)
     | Ok addr \<Rightarrow>
         (case obind (get_balance_apt addr (bc_statedb (rw_chain w))) (\<lambda>(p, s1).
               obind (get_balance_npt addr s1) (\<lambda>(q, s2). Ok (p, q, s2))) of
            Panic \<Rightarrow> Some (Panic, w) | Err e \<Rightarrow> Some (Err e, w)
          | Ok (p, q, s2) \<Rightarrow> Some (Ok (RObject [(''address'', hex_encode addr),
               (''apt'', amount_string (ptr_value (sd_ints s2) p)), (''npt'', amount_string (ptr_value (sd_ints s2) q))]),
               w\<lparr>rw_chain := (rw_chain w)\<lparr>bc_statedb := s2\<rparr>\<rparr>))))"

definition rpc_send_raw_transaction :: "(string \<Rightarrow> string list option) \<Rightarrow> (string, rpc_value, rpc_world) method_handler" where
  "rpc_send_raw_transaction args params w =
     Some (obind (first_arg args params ''raw tx hex required'') (\<lambda>a.
       if length a < 32 then Panic else Ok (RObject [(''status'', ''received''), (''hash'', take 32 a)])), w)"

definition rpc_txpool_status ::
  "(address set \<Rightarrow> address list) \<Rightarrow> (string, rpc_value, rpc_world) method_handler" where
  "rpc_txpool_status ord params w = (case pool_stats ord (rw_pool w) of
     None \<Rightarrow> None
   | Some (Ok (pending, queued)) \<Rightarrow> Some (Ok (RObject [(''pending'', hex_number (nat pending)), (''queued'', hex_number (nat queued))]), w)
   | Some (Err e) \<Rightarrow> Some (Err e, w)
   | Some Panic \<Rightarrow> Some (Panic, w))"

definition rpc_node_info :: "(string, rpc_value, rpc_world) method_handler" where
  "rpc_node_info params w = Some (case current_block (rw_chain w) of
     None \<Rightarrow> Panic
   | Some r \<Rightarrow> Ok (RObject [(''chainId'', ''0x7a69''),
       (''height'', hex_number (unat (bh_height (blk_header (bc_heap (rw_chain w) r))))),
       (''stateRoot'', hex_encode (bh_state_root (blk_header (bc_heap (rw_chain w) r)))), (''version'', ''0.5.0'')]), w)"

definition rpc_register_miner :: "(string, rpc_value, rpc_world) method_handler" where
  "rpc_register_miner params w = Some (Ok (RObject [(''status'', ''registered'')]), w)"

definition register_standard_endpoints ::
  "(byte list \<Rightarrow> hash) \<Rightarrow> (address set \<Rightarrow> address list) \<Rightarrow> (string \<Rightarrow> string list option)
     \<Rightarrow> (string, rpc_value, rpc_world) rpc_server \<Rightarrow> (string, rpc_value, rpc_world) rpc_server" where
  "register_standard_endpoints sha ord args s =
     register_method ''aichain_registerMiner'' rpc_register_miner
     (register_method ''aichain_nodeInfo'' rpc_node_info
     (register_method ''aichain_txpoolStatus'' (rpc_txpool_status ord)
     (register_method ''aichain_sendRawTransaction'' (rpc_send_raw_transaction args)
     (register_method ''aichain_getBalance'' (rpc_get_balance args)
     (register_method ''aichain_getBlockByNumber'' (rpc_get_block_by_number sha args)
     (register_method ''aichain_blockNumber'' (rpc_block_number args) s))))))"

end
