(* ===== verification/JsonRpcProps.thy ===== *)
theory JsonRpcProps
  imports JsonRpc TokenProps
begin

text \<open>
  The properties of the JSON-RPC server: a batch is answered request by request, a chain's standard
  methods change neither its blocks nor any balance, a balance is reported as the state has it, and
  block numbers in the notation the server itself prints are read as zero.
\<close>

section \<open>Requests and their answers\<close>

text \<open>What JSON-RPC 2.0 asks of a response to a request.\<close>

definition answers :: "('v, 'i) rpc_response \<Rightarrow> ('p, 'i) rpc_request \<Rightarrow> bool" where
  "answers r q \<longleftrightarrow> rs_jsonrpc r = ''2.0'' \<and> rs_id r = Some (rq_id q) \<and> (rs_result r = None) = (rs_error r \<noteq> None)"

lemma handle_request_answers:
  "handle_request s q w = Some (Ok r, w') \<Longrightarrow> answers r q"
  by (auto simp: handle_request_def answers_def error_response_def split: if_splits option.splits outcome.splits)

lemma handle_request_no_error: "handle_request s q w \<noteq> Some (Err e, w')"
  by (auto simp: handle_request_def split: option.splits outcome.splits)

lemma handle_batch_answers:
  "handle_batch s qs w = Some (Ok rs, w') \<Longrightarrow> list_all2 answers rs qs"
  by (induction qs arbitrary: w rs w')
    (auto dest!: handle_request_answers split: option.splits outcome.splits)

text \<open>The requests of a batch run one after the other on one world.\<close>

lemma handle_batch_append:
  assumes "handle_batch s qs w = Some (Ok rs, w1)"
  shows "handle_batch s (qs @ qs') w = (case handle_batch s qs' w1 of
     Some (Ok rs', w2) \<Rightarrow> Some (Ok (rs @ rs'), w2) | other \<Rightarrow> other)"
  using assms
proof (induction qs arbitrary: w rs)
  case (Cons q qs)
  from Cons.prems obtain r w2 rs2 where 1: "handle_request s q w = Some (Ok r, w2)"
    "handle_batch s qs w2 = Some (Ok rs2, w1)" "rs = r # rs2"
    by (auto split: option.splits outcome.splits)
  show ?case using 1 Cons.IH [OF 1(2)] by (auto split: option.splits outcome.splits)
qed (auto split: option.splits outcome.splits)

section \<open>The standard methods leave the ledger alone\<close>

text \<open>The same blocks, the same pool, and a state that a client cannot tell apart.\<close>

definition same_ledger :: "rpc_world \<Rightarrow> rpc_world \<Rightarrow> bool" where
  "same_ledger w w' \<longleftrightarrow> rw_pool w' = rw_pool w \<and> quiet (bc_statedb (rw_chain w)) (bc_statedb (rw_chain w'))
     \<and> rw_chain w' = (rw_chain w)\<lparr>bc_statedb := bc_statedb (rw_chain w')\<rparr>"

definition handler_quiet :: "(string, rpc_value, rpc_world) method_handler \<Rightarrow> bool" where
  "handler_quiet h \<longleftrightarrow> (\<forall>p w out w'. sdb_ok (bc_statedb (rw_chain w)) \<longrightarrow> h p w = Some (out, w') \<longrightarrow> same_ledger w w')"

lemma same_ledger_refl: "sdb_ok (bc_statedb (rw_chain w)) \<Longrightarrow> same_ledger w w"
  by (simp add: same_ledger_def quiet_refl)

lemma same_ledger_ok: "same_ledger w w' \<Longrightarrow> sdb_ok (bc_statedb (rw_chain w'))"
  by (simp add: same_ledger_def quiet_def)

lemma quiet_then: "quiet s s1 \<Longrightarrow> quiet s1 s2 \<Longrightarrow> quiet s s2"
  by (auto simp: quiet_def same_trie_def)

lemma same_ledger_trans: "same_ledger w w1 \<Longrightarrow> same_ledger w1 w2 \<Longrightarrow> same_ledger w w2"
  unfolding same_ledger_def
  by (cases "rw_chain w"; cases "rw_chain w1"; cases "rw_chain w2") (auto elim: quiet_then)

lemma first_arg_eq: "first_arg args p m = Ok a \<Longrightarrow> \<exists>as. args p = Some (a # as)"
  by (auto simp: first_arg_def neq_Nil_conv split: option.splits if_splits)

lemma get_balance_quiet: "handler_quiet (rpc_get_balance args)"
  unfolding handler_quiet_def
proof (intro allI impI)
  fix p w out w' assume ok: "sdb_ok (bc_statedb (rw_chain w))" and h: "rpc_get_balance args p w = Some (out, w')"
  show "same_ledger w w'"
  proof (cases "\<exists>a addr. first_arg args p ''address required'' = Ok a \<and> hex_to_address a = Ok addr")
    case True
    then obtain a addr where a: "first_arg args p ''address required'' = Ok a" "hex_to_address a = Ok addr" by blast
    obtain r s1 where 1: "get_balance_apt addr (bc_statedb (rw_chain w)) = Ok (r, s1)" "quiet (bc_statedb (rw_chain w)) s1"
      using get_balance_ok(1) [OF ok] by blast
    have "sdb_ok s1" using 1(2) by (simp add: quiet_def)
    then obtain q s2 where 2: "get_balance_npt addr s1 = Ok (q, s2)" "quiet s1 s2"
      using get_balance_ok(2) by blast
    show ?thesis using h a 1 2 quiet_then [OF 1(2) 2(2)]
      by (auto simp: rpc_get_balance_def same_ledger_def)
  next
    case False
    then have "w' = w" using h by (auto simp: rpc_get_balance_def split: outcome.splits)
    then show ?thesis using same_ledger_refl [OF ok] by simp
  qed
qed

lemma other_methods_quiet:
  "handler_quiet (rpc_block_number args)" "handler_quiet (rpc_get_block_by_number sha args)"
  "handler_quiet (rpc_send_raw_transaction args)" "handler_quiet (rpc_txpool_status ord)"
  "handler_quiet rpc_node_info" "handler_quiet rpc_register_miner"
  by (auto simp: handler_quiet_def rpc_block_number_def rpc_get_block_by_number_def rpc_send_raw_transaction_def
      rpc_txpool_status_def rpc_node_info_def rpc_register_miner_def intro: same_ledger_refl
      split: option.splits outcome.splits)

definition standard_server ::
  "(byte list \<Rightarrow> hash) \<Rightarrow> (address set \<Rightarrow> address list) \<Rightarrow> (string \<Rightarrow> string list option)
     \<Rightarrow> (string, rpc_value, rpc_world) rpc_server" where
  "standard_server sha ord args = register_standard_endpoints sha ord args new_server"

lemma standard_methods:
  "sv_methods (standard_server sha ord args) m = Some h \<Longrightarrow> handler_quiet h"
  by (auto simp: standard_server_def register_standard_endpoints_def register_method_def new_server_def
      get_balance_quiet other_methods_quiet split: if_splits)

lemma handle_request_quiet:
  assumes "sdb_ok (bc_statedb (rw_chain w))" "handle_request (standard_server sha ord args) q w = Some (out, w')"
  shows "same_ledger w w'"
  using assms standard_methods [of sha ord args "rq_method q"]
  by (auto simp: handle_request_def handler_quiet_def same_ledger_refl split: if_splits option.splits outcome.splits)

lemma handle_batch_quiet:
  assumes "sdb_ok (bc_statedb (rw_chain w))" "handle_batch (standard_server sha ord args) qs w = Some (out, w')"
  shows "same_ledger w w'"
  using assms
proof (induction qs arbitrary: w out)
  case Nil
  then show ?case by (simp add: same_ledger_refl)
next
  case (Cons q qs)
  from Cons.prems(2) obtain r w1 where r: "handle_request (standard_server sha ord args) q w = Some (r, w1)"
    by (auto split: option.splits)
  note 1 = handle_request_quiet [OF Cons.prems(1) r]
  show ?case
  proof (cases "\<exists>out2. handle_batch (standard_server sha ord args) qs w1 = Some (out2, w')")
    case True
    then show ?thesis using Cons.IH [OF same_ledger_ok [OF 1]] same_ledger_trans [OF 1] by blast
  next
    case False
    then have "w' = w1" using Cons.prems(2) r by (auto split: option.splits outcome.splits)
    then show ?thesis using 1 by simp
  qed
qed

section \<open>Balances\<close>

lemma balance_at:
  assumes ok: "sdb_ok s"
  shows "\<exists>i s1. get_balance_apt a s = Ok (Some i, s1) \<and> quiet s s1 \<and> i < length (sd_ints s1) \<and> sd_ints s1 ! i = view_bal s True a"
proof -
  obtain p s1 where 1: "get_balance_apt a s = Ok (p, s1)" "quiet s s1" "ptr_value (sd_ints s1) p = Some (view_bal s True a)"
    using get_balance_ok(1) [OF ok] by blast
  obtain i where i: "p = Some i" using 1(3) by (auto simp: ptr_value_def)
  have "i < length (sd_ints s1)"
  proof (cases "known s a")
    case True
    with get_state_object_ok [OF ok, of a] obtain obj s2 where g: "get_state_object a s = Ok (Some obj, s2)" "opened a s obj s2"
      by auto
    then have e: "s2 = s1" "bal_ptr True obj = Some i" using 1(1) i by (auto simp: get_balance_apt_def bal_ptr_def)
    have "sd_objects s2 a = Some obj" "sdb_ok s2" using g(2) by (simp_all add: opened_def)
    then show ?thesis using bal_ptr_valid [of s2 a obj True] e by auto
  next
    case False
    with get_state_object_ok [OF ok, of a] 1(1) i have "i = 0" "sd_ints s1 = sd_ints s"
      by (auto simp: get_balance_apt_def zero_ptr_def)
    then show ?thesis using ok by (simp add: sdb_ok_def)
  qed
  then show ?thesis using 1 i by (auto simp: ptr_value_def)
qed

lemma npt_keeps_ints:
  assumes ok: "sdb_ok s" and g: "get_balance_npt a s = Ok (q, s')"
  shows "\<exists>zs. sd_ints s' = sd_ints s @ zs"
  using get_state_object_ok [OF ok, of a] g
  by (cases "known s a") (auto simp: get_balance_npt_def opened_def)

section \<open>Properties\<close>

text \<open>A batch that is answered at all gets one response for each request, in their order, with the
  request's id, version 2.0, and either a result or an error, never both.\<close>

theorem batch_answered:
  assumes "handle_batch s qs w = Some (Ok rs, w')"
  shows "length rs = length qs \<and> (\<forall>i < length qs. rs_jsonrpc (rs ! i) = ''2.0'' \<and> rs_id (rs ! i) = Some (rq_id (qs ! i)) \<and>
    (rs_result (rs ! i) = None) = (rs_error (rs ! i) \<noteq> None))"
  using handle_batch_answers [OF assms] by (auto simp: list_all2_conv_all_nth answers_def)


text \<open>The balance that is reported for the address of an account is the decimal form of what the state
  holds.\<close>

theorem balance_reported:
  assumes "sdb_ok (bc_statedb (rw_chain w))" "args p = Some (hex_encode a # rest)" "length a = 20"
  shows "\<exists>w'. rpc_get_balance args p w = Some (Ok (RObject [(''address'', hex_encode a),
    (''apt'', format_int (view_bal (bc_statedb (rw_chain w)) True a)),
    (''npt'', format_int (view_bal (bc_statedb (rw_chain w)) False a))]), w')"
proof -
  let ?s = "bc_statedb (rw_chain w)"
  have a: "first_arg args p ''address required'' = Ok (hex_encode a)" "hex_to_address (hex_encode a) = Ok a"
    using assms(2) hex_address_roundtrip [OF assms(3)] by (simp_all add: first_arg_def)
  obtain i s1 where 1: "get_balance_apt a ?s = Ok (Some i, s1)" "quiet ?s s1" "i < length (sd_ints s1)"
    "sd_ints s1 ! i = view_bal ?s True a" using balance_at [OF assms(1)] by blast
  have ok1: "sdb_ok s1" using 1(2) by (simp add: quiet_def)
  obtain q s2 where 2: "get_balance_npt a s1 = Ok (q, s2)" "quiet s1 s2" "ptr_value (sd_ints s2) q = Some (view_bal s1 False a)"
    using get_balance_ok(2) [OF ok1] by blast
  obtain zs where z: "sd_ints s2 = sd_ints s1 @ zs" using npt_keeps_ints [OF ok1 2(1)] by blast
  have "ptr_value (sd_ints s2) (Some i) = Some (view_bal ?s True a)" using 1(3,4) z by (simp add: ptr_value_def nth_append)
  moreover have "view_bal s1 = view_bal ?s" using 1(2) by (simp add: quiet_def)
  ultimately show ?thesis using a 1(1) 2(1,3) by (simp add: rpc_get_balance_def amount_string_def)
qed

text \<open>A block number in the notation of \<open>aichain_blockNumber\<close> is read as zero, as the second scan stops
  at the first digit: the block that is returned for it is the one at height zero.\<close>

theorem hex_height_is_zero:
  assumes "args p = Some (hex_number n # rest)"
  shows "rpc_get_block_by_number sha args p w = Some (case bc_heights (rw_chain w) 0 of
    None \<Rightarrow> Err ''block not found'' | Some r \<Rightarrow> Ok (block_object sha (bc_heap (rw_chain w) r)), w)"
proof -
  have "scan_decimal (''0'' @ ''x'' @ format_hex n) = Some (word_of_nat 0)"
    using scan_decimal_digits [of "''0''" "''x'' @ format_hex n"]
    by (simp add: is_digit_def char_code_def digit_value_def)
  then have "parse_height (hex_number n) = 0"
    by (simp add: parse_height_def hex_number_def)
  then show ?thesis using assms
    by (simp add: rpc_get_block_by_number_def first_arg_def get_block_by_height_def split: option.splits)
qed

definition sample_world :: "rpc_world" where
  "sample_world = \<lparr>rw_chain = new_blockchain empty_hash Map.empty default_testnet_params 31337 (\<lambda>_. undefined),
     rw_pool = new_pool default_tx_pool_config 31337\<rparr>"

lemma sample_world_ok: "sdb_ok (bc_statedb (rw_chain sample_world))"
  by (simp add: sample_world_def new_blockchain_def new_statedb_ok)

definition sample_request :: "string \<Rightarrow> (string, int) rpc_request" where
  "sample_request m = \<lparr>rq_jsonrpc = ''2.0'', rq_method = m, rq_params = [], rq_id = 7\<rparr>"


theorem balance_reported_witness:
  "\<exists>w'. rpc_get_balance (\<lambda>_. Some [hex_encode amm_pool_address]) [] sample_world =
     Some (Ok (RObject [(''address'', hex_encode amm_pool_address), (''apt'', ''0''), (''npt'', ''0'')]), w')"
proof -
  have v: "view_bal (bc_statedb (rw_chain sample_world)) k a = 0" for k a
  proof -
    have "db_ok (get_node Map.empty)" by (auto simp: db_ok_def get_node_def)
    then have "trie_read (get_node Map.empty) new_empty_trie k = Some (new_empty_trie, None)" for k
      using trie_read_safe [of "get_node Map.empty" new_empty_trie k]
      by (simp add: new_empty_trie_def new_trie_def trie_value_def)
    then show ?thesis
      by (simp add: sample_world_def new_blockchain_def new_statedb_def view_bal_def stored_account_def)
  qed
  have f: "format_int 0 = ''0''"
    by code_simp
  have "length amm_pool_address = 20" by (simp add: amm_pool_address_def)
  from balance_reported [OF sample_world_ok _ this, of "\<lambda>_. Some [hex_encode amm_pool_address]" "[]" "[]"]
  show ?thesis by (simp add: v f)
qed

theorem batch_answered_witness:
  "\<exists>(rs :: (nat, int) rpc_response list) w'. handle_batch new_server [sample_request ''a'', sample_request ''b''] () = Some (Ok rs, w') \<and> length rs = 2 \<and>
     rs_id (rs ! 1) = Some 7"
proof -
  obtain rs :: "(nat, int) rpc_response list" and w'
    where 1: "handle_batch new_server [sample_request ''a'', sample_request ''b''] () = Some (Ok rs, w')"
    by (auto simp: handle_request_def sample_request_def new_server_def)
  from batch_answered [OF 1] have "length rs = 2" "rs_id (rs ! 1) = Some 7" by (auto simp: sample_request_def)
  with 1 show ?thesis by blast
qed

theorem hex_height_is_zero_witness:
  "rpc_get_block_by_number (\<lambda>_. empty_hash) (\<lambda>_. Some [''0x1f'']) [] sample_world = Some (Err ''block not found'', sample_world)"
proof -
  have "hex_number 31 = ''0x1f''" by code_simp
  then show ?thesis
    using hex_height_is_zero [of "\<lambda>_. Some [''0x1f'']" "[]" 31 "[]" "\<lambda>_. empty_hash" sample_world]
    by (simp add: sample_world_def new_blockchain_def)
qed

end
