(* ===== verification/WebNode.thy ===== *)
theory WebNode
  imports LmClient ChainTypes
begin

text \<open>
  The web node, \<^verbatim>\<open>src/cmd/aichain-web/main.go\<close>: a pool of tasks that are split into subtasks, mined one by
  one and put together again, with one block for each task that is done. The state is that of the node; each
  section of the code that holds the node's lock is one operation on it. The inference, the hash, the times
  that are shown and the files of the system are parameters. The log is not modelled, but for the slices of
  texts taken to write it, which can panic.
\<close>

section \<open>The node\<close>

record subtask_view =
  sv_id :: string
  sv_task_id :: string
  sv_index :: nat
  sv_prompt :: string
  sv_status :: string
  sv_result :: string

record task_view =
  tv_id :: string
  tv_creator :: string
  tv_tier :: string
  tv_model :: string
  tv_prompt :: string
  tv_fee :: string
  tv_status :: string
  tv_subtasks :: "subtask_view list"
  tv_result :: string
  tv_created_at :: string

record block_view =
  bv_height :: u64
  bv_hash :: string
  bv_txs :: int
  bv_time :: string

record tx_view =
  xv_hash :: string
  xv_type :: string
  xv_amount :: string
  xv_time :: string

text \<open>A channel of a viewer is its identity and what waits in it.\<close>

type_synonym channel = "nat \<times> string list"

record real_node =
  rn_peer_id :: string
  rn_miner_addr :: string
  rn_miner_name :: string
  rn_gpu_name :: string
  rn_gpu_count :: int
  rn_vram :: u64
  rn_ram :: u64
  rn_models :: "string list"
  rn_blocks :: "block_view list"
  rn_tasks :: "task_view list"
  rn_subtasks :: "subtask_view list"
  rn_txs :: "tx_view list"
  rn_peer_count :: int
  rn_mempool :: int
  rn_ws_clients :: "channel list"
  rn_live_stream :: "channel list"

text \<open>\<open>%064x\<close> of a number.\<close>

definition hex64 :: "nat \<Rightarrow> string" where
  "hex64 n = replicate (64 - length (format_hex n)) CHR ''0'' @ format_hex n"

definition new_real_node :: "address \<Rightarrow> string \<Rightarrow> int \<Rightarrow> u64 \<Rightarrow> u64 \<Rightarrow> string list \<Rightarrow> string \<Rightarrow> real_node" where
  "new_real_node addr gpuName gpuCount vram ram models now =
     (let peerID = hex_encode (take 8 addr) in
      \<lparr>rn_peer_id = peerID, rn_miner_addr = hex_encode addr, rn_miner_name = ''Miner-'' @ peerID, rn_gpu_name = gpuName,
       rn_gpu_count = gpuCount, rn_vram = vram, rn_ram = ram, rn_models = models,
       rn_blocks = [\<lparr>bv_height = 0, bv_hash = hex64 0, bv_txs = 0, bv_time = now\<rparr>],
       rn_tasks = [], rn_subtasks = [], rn_txs = [], rn_peer_count = 1, rn_mempool = 0,
       rn_ws_clients = [], rn_live_stream = []\<rparr>)"

section \<open>Reading\<close>

record node_view =
  nv_miner_name :: string
  nv_height :: int
  nv_mempool :: int
  nv_task_pool :: int
  nv_subtask_pool :: int
  nv_peers :: int

definition handle_node :: "real_node \<Rightarrow> node_view" where
  "handle_node n = \<lparr>nv_miner_name = rn_miner_name n, nv_height = int (length (rn_blocks n)) - 1, nv_mempool = rn_mempool n,
     nv_task_pool = int (length (rn_tasks n)), nv_subtask_pool = int (length (rn_subtasks n)), nv_peers = rn_peer_count n\<rparr>"

definition handle_blocks :: "real_node \<Rightarrow> block_view list" where
  "handle_blocks n = rn_blocks n"

definition handle_tasks :: "real_node \<Rightarrow> task_view list" where
  "handle_tasks n = rn_tasks n"

definition handle_user_tasks :: "string \<Rightarrow> real_node \<Rightarrow> task_view list" where
  "handle_user_tasks creator n =
     (if creator = '''' then rn_tasks n else filter (\<lambda>t. tv_creator t = creator) (rn_tasks n))"

definition handle_transactions :: "real_node \<Rightarrow> tx_view list" where
  "handle_transactions n = rn_txs n"

section \<open>Publishing\<close>

record publish_input =
  pi_model :: string
  pi_prompt :: string
  pi_tier :: string
  pi_fee :: string
  pi_creator :: string

datatype web_answer = WebError string | Published task_view | Mined string string

text \<open>\<open>stamp\<close> is the full text of the time, \<open>now\<close> the time of the day.\<close>

definition task_id_for :: "(byte list \<Rightarrow> hash) \<Rightarrow> string \<Rightarrow> string \<Rightarrow> string" where
  "task_id_for sha prompt stamp = take 24 (''task-'' @ hex_encode (sha (bytes_of (prompt @ stamp))))"

definition published_task :: "(byte list \<Rightarrow> hash) \<Rightarrow> string list \<Rightarrow> publish_input \<Rightarrow> string \<Rightarrow> string \<Rightarrow> task_view" where
  "published_task sha models i stamp now =
     \<lparr>tv_id = task_id_for sha (pi_prompt i) stamp,
      tv_creator = (if pi_creator i = '''' then ''anonymous'' else pi_creator i), tv_tier = pi_tier i,
      tv_model = (if pi_model i = '''' \<and> models \<noteq> [] then hd models else pi_model i), tv_prompt = pi_prompt i,
      tv_fee = pi_fee i @ '' APT'', tv_status = ''Pending'', tv_subtasks = [], tv_result = '''', tv_created_at = now\<rparr>"

definition handle_publish ::
  "(byte list \<Rightarrow> hash) \<Rightarrow> string \<Rightarrow> publish_input \<Rightarrow> string \<Rightarrow> string \<Rightarrow> real_node \<Rightarrow> web_answer \<times> real_node" where
  "handle_publish sha meth i stamp now n =
     (if meth \<noteq> ''POST'' then (WebError ''POST required'', n)
      else if pi_prompt i = '''' then (WebError ''prompt is required'', n)
      else let task = published_task sha (rn_models n) i stamp now in
        (Published task, n\<lparr>rn_tasks := task # rn_tasks n, rn_mempool := rn_mempool n + 1\<rparr>))"

section \<open>Splitting\<close>

text \<open>\<open>strings.SplitN\<close> with a separator of several characters.\<close>

fun index_text :: "string \<Rightarrow> string \<Rightarrow> nat option" where
  "index_text p [] = (if p = [] then Some 0 else None)"
| "index_text p (c # s) = (if has_prefix (c # s) p then Some 0 else map_option Suc (index_text p s))"

fun split_parts :: "nat \<Rightarrow> string \<Rightarrow> string \<Rightarrow> string list" where
  "split_parts (Suc (Suc n)) sep s = (case index_text sep s of
     None \<Rightarrow> [s] | Some i \<Rightarrow> take i s # split_parts (Suc n) sep (drop (i + length sep) s))"
| "split_parts n sep s = [s]"

definition trimmed_parts :: "string list \<Rightarrow> string list" where
  "trimmed_parts parts = filter (\<lambda>p. p \<noteq> '''') (map trim_space parts)"

fun split_keywords :: "string list \<Rightarrow> string \<Rightarrow> string list" where
  "split_keywords [] prompt = []"
| "split_keywords (kw # kws) prompt =
     (if contains_text prompt kw \<and> 2 \<le> length (trimmed_parts (split_parts 5 kw prompt))
      then trimmed_parts (split_parts 5 kw prompt) else split_keywords kws prompt)"

definition detect_multi_questions :: "string \<Rightarrow> string list" where
  "detect_multi_questions prompt =
     (let result = map (\<lambda>p. p @ ''?'') (trimmed_parts (split_on CHR ''?'' prompt)) in
      if 2 \<le> count_list prompt CHR ''?'' \<and> 2 \<le> length result then result
      else split_keywords [''. Also '', ''. Then '', ''. Additionally '', ''. Next '', ''. Finally ''] prompt)"

definition web_subtask_id :: "(byte list \<Rightarrow> hash) \<Rightarrow> string \<Rightarrow> string" where
  "web_subtask_id sha seed = take 20 (''st-'' @ hex_encode (sha (bytes_of seed)))"

definition split_task :: "(byte list \<Rightarrow> hash) \<Rightarrow> task_view \<Rightarrow> subtask_view list" where
  "split_task sha t =
     (let qs = detect_multi_questions (tv_prompt t) in
      if 2 \<le> length qs then
        map (\<lambda>i. \<lparr>sv_id = web_subtask_id sha (tv_id t @ ''-'' @ format_decimal i), sv_task_id = tv_id t, sv_index = i,
                  sv_prompt = qs ! i, sv_status = ''Pending'', sv_result = ''''\<rparr>) [0..<length qs]
      else [\<lparr>sv_id = web_subtask_id sha (tv_id t @ ''0''), sv_task_id = tv_id t, sv_index = 0,
             sv_prompt = tv_prompt t, sv_status = ''Pending'', sv_result = ''''\<rparr>])"

text \<open>A pass of \<open>taskAnalyzer\<close> under the lock; the last result says whether a pending task was found.\<close>

fun analyze_tasks :: "(byte list \<Rightarrow> hash) \<Rightarrow> task_view list \<Rightarrow> subtask_view list \<Rightarrow> task_view list \<times> subtask_view list" where
  "analyze_tasks sha [] subs = ([], subs)"
| "analyze_tasks sha (t # ts) subs =
     (if tv_status t \<noteq> ''Pending'' then
        (case analyze_tasks sha ts subs of (ts', subs') \<Rightarrow> (t # ts', subs'))
      else (case analyze_tasks sha ts (subs @ split_task sha t) of
          (ts', subs') \<Rightarrow> (t\<lparr>tv_status := ''Mining'', tv_subtasks := split_task sha t\<rparr> # ts', subs')))"

definition analyzer_pass :: "(byte list \<Rightarrow> hash) \<Rightarrow> real_node \<Rightarrow> bool \<times> real_node" where
  "analyzer_pass sha n = (case analyze_tasks sha (rn_tasks n) (rn_subtasks n) of
     (ts, subs) \<Rightarrow> (\<exists>t \<in> set (rn_tasks n). tv_status t = ''Pending'', n\<lparr>rn_tasks := ts, rn_subtasks := subs\<rparr>))"

section \<open>Mining\<close>

fun find_claimable :: "string \<Rightarrow> subtask_view list \<Rightarrow> nat option" where
  "find_claimable i [] = None"
| "find_claimable i (s # ss) =
     (if sv_id s = i \<and> sv_status s = ''Pending'' then Some 0 else map_option Suc (find_claimable i ss))"

fun find_pending :: "subtask_view list \<Rightarrow> nat option" where
  "find_pending [] = None"
| "find_pending (s # ss) = (if sv_status s = ''Pending'' then Some 0 else map_option Suc (find_pending ss))"

fun find_subtask :: "string \<Rightarrow> subtask_view list \<Rightarrow> nat option" where
  "find_subtask i [] = None"
| "find_subtask i (s # ss) = (if sv_id s = i then Some 0 else map_option Suc (find_subtask i ss))"

definition set_running :: "nat \<Rightarrow> real_node \<Rightarrow> real_node" where
  "set_running k n = n\<lparr>rn_subtasks := (rn_subtasks n)[k := (rn_subtasks n ! k)\<lparr>sv_status := ''Running''\<rparr>]\<rparr>"

text \<open>The first lock section of \<open>handleMine\<close>: the subtask is claimed, and its index kept.\<close>

definition mine_claim :: "string \<Rightarrow> real_node \<Rightarrow> (nat \<times> real_node) option" where
  "mine_claim i n = (case find_claimable i (rn_subtasks n) of
     None \<Rightarrow> None | Some k \<Rightarrow> Some (k, set_running k n))"

text \<open>What \<open>handleMine\<close> answers: an error, or the claimed subtask as completed, also where its inference has failed.\<close>

definition handle_mine :: "string \<Rightarrow> string \<Rightarrow> real_node \<Rightarrow> web_answer + nat \<times> real_node" where
  "handle_mine meth i n = (if meth \<noteq> ''POST'' then Inl (WebError ''POST required'')
     else case mine_claim i n of None \<Rightarrow> Inl (WebError ''subtask not found or already claimed'') | Some q \<Rightarrow> Inr q)"

definition mine_answer :: "string \<Rightarrow> (string, string) outcome \<Rightarrow> web_answer" where
  "mine_answer i r = Mined i (case r of Ok result \<Rightarrow> result | _ \<Rightarrow> '''')"

text \<open>What an inference has come to: \<open>Err\<close> is the text of the error.\<close>

definition finish_subtask :: "nat \<Rightarrow> (string, string) outcome \<Rightarrow> real_node \<Rightarrow> real_node" where
  "finish_subtask k r n = n\<lparr>rn_subtasks := (rn_subtasks n)[k := (case r of
      Ok text \<Rightarrow> (rn_subtasks n ! k)\<lparr>sv_status := ''Completed'', sv_result := text\<rparr>
    | Err e \<Rightarrow> (rn_subtasks n ! k)\<lparr>sv_status := ''Failed'', sv_result := ''Error: '' @ e\<rparr>
    | Panic \<Rightarrow> rn_subtasks n ! k)]\<rparr>"

definition filter_subtasks :: "string \<Rightarrow> subtask_view list \<Rightarrow> subtask_view list" where
  "filter_subtasks taskID subs = filter (\<lambda>s. sv_task_id s = taskID) subs"

definition mine_all_done :: "string \<Rightarrow> subtask_view list \<Rightarrow> bool" where
  "mine_all_done parent subs \<longleftrightarrow>
     (\<forall>s \<in> set subs. sv_task_id s = parent \<longrightarrow> sv_status s = ''Completed'' \<or> sv_status s = ''Failed'')"

definition auto_all_done :: "string \<Rightarrow> subtask_view list \<Rightarrow> bool" where
  "auto_all_done parent subs \<longleftrightarrow>
     (\<forall>s \<in> set subs. sv_task_id s = parent \<longrightarrow> \<not> (sv_status s = ''Pending'' \<or> sv_status s = ''Running''))"

fun join_texts :: "string \<Rightarrow> string list \<Rightarrow> string" where
  "join_texts sep [] = ''''"
| "join_texts sep [w] = w"
| "join_texts sep (w # v # ws) = w @ sep @ join_texts sep (v # ws)"

definition line_break :: char where "line_break = CHR 0x0A"

definition mine_results :: "string \<Rightarrow> subtask_view list \<Rightarrow> string list" where
  "mine_results parent subs = map (\<lambda>s. ''[Subtask '' @ format_decimal (sv_index s) @ '']: '' @ sv_result s)
     (filter (\<lambda>s. sv_task_id s = parent \<and> sv_result s \<noteq> '''') subs)"

definition auto_results :: "string \<Rightarrow> subtask_view list \<Rightarrow> string list" where
  "auto_results parent subs = map (\<lambda>s. ''[Step '' @ format_decimal (sv_index s + 1) @ '']'' @ [line_break] @ sv_result s)
     (filter (\<lambda>s. sv_task_id s = parent \<and> sv_result s \<noteq> '''') subs)"

text \<open>The first task with the given id is closed; its fee goes into the transaction.\<close>

fun close_task :: "string \<Rightarrow> string \<Rightarrow> subtask_view list \<Rightarrow> task_view list \<Rightarrow> (task_view list \<times> string) option" where
  "close_task parent result subs [] = None"
| "close_task parent result subs (t # ts) =
     (if tv_id t = parent then
        Some (t\<lparr>tv_status := ''Completed'', tv_result := result, tv_subtasks := filter_subtasks parent subs\<rparr> # ts, tv_fee t)
      else map_option (\<lambda>(ts', fee). (t # ts', fee)) (close_task parent result subs ts))"

definition complete_parent :: "string \<Rightarrow> string \<Rightarrow> nat \<Rightarrow> string \<Rightarrow> real_node \<Rightarrow> real_node" where
  "complete_parent parent result nano now n = (case close_task parent result (rn_subtasks n) (rn_tasks n) of
     None \<Rightarrow> n
   | Some (ts, fee) \<Rightarrow> n\<lparr>rn_tasks := ts,
       rn_blocks := rn_blocks n @ [\<lparr>bv_height = word_of_nat (length (rn_blocks n)), bv_hash = hex64 nano, bv_txs = 1, bv_time = now\<rparr>],
       rn_txs := rn_txs n @ [\<lparr>xv_hash = parent, xv_type = ''TaskCompleted'', xv_amount = fee, xv_time = now\<rparr>],
       rn_mempool := (if 0 < rn_mempool n then rn_mempool n - 1 else rn_mempool n)\<rparr>)"

text \<open>The second lock section of \<open>handleMine\<close>. Writing the log slices the id of the task that is done.\<close>

definition mine_commit :: "nat \<Rightarrow> (string, string) outcome \<Rightarrow> nat \<Rightarrow> string \<Rightarrow> real_node \<Rightarrow> (string, real_node) outcome" where
  "mine_commit k r nano now n =
     (let parent = sv_task_id (rn_subtasks n ! k); n1 = finish_subtask k r n; subs = rn_subtasks n1 in
      if \<not> mine_all_done parent subs then Ok n1
      else if (\<exists>t \<in> set (rn_tasks n1). tv_id t = parent) \<and> length parent < 12 then Panic
      else Ok (complete_parent parent
        (join_texts ([line_break, line_break] @ ''---'' @ [line_break, line_break]) (mine_results parent subs)) nano now n1))"

text \<open>The automatic miner: it starts with the first twenty characters of the token, claims the first pending
  subtask, and after the inference finds it again by its id.\<close>

definition auto_start :: "string \<Rightarrow> (string, unit) outcome" where
  "auto_start token = (if length token < 20 then Panic else Ok ())"

definition auto_claim :: "real_node \<Rightarrow> ((string \<times> string \<times> string) \<times> real_node) option" where
  "auto_claim n = (case find_pending (rn_subtasks n) of
     None \<Rightarrow> None
   | Some k \<Rightarrow> (let s = rn_subtasks n ! k in Some ((sv_id s, sv_task_id s, sv_prompt s), set_running k n)))"

definition auto_banner :: "string \<Rightarrow> string \<Rightarrow> (string, string list) outcome" where
  "auto_banner stID prompt = (if length stID < 12 then Panic
     else Ok [[line_break, line_break] @ ''=== Mining subtask '' @ take 12 stID @ '' ==='' @ [line_break],
              ''Model: qwen3.6-35b-a3b-mtp'' @ [line_break],
              ''Prompt: '' @ take 100 prompt @ ''...'' @ [line_break, line_break]])"

definition auto_commit ::
  "string \<Rightarrow> string \<Rightarrow> (string, string) outcome \<Rightarrow> nat \<Rightarrow> string \<Rightarrow> real_node \<Rightarrow> (string, real_node) outcome" where
  "auto_commit stID parent r nano now n = (case find_subtask stID (rn_subtasks n) of
     None \<Rightarrow> Ok n
   | Some k \<Rightarrow>
       (let n1 = finish_subtask k r n; subs = rn_subtasks n1 in
        if \<not> auto_all_done parent subs then Ok n1
        else if length (hex64 nano) < 16 then Panic
        else Ok (complete_parent parent (join_texts [line_break, line_break] (auto_results parent subs)) nano now n1)))"

section \<open>Viewers\<close>

text \<open>A send that would block is dropped.\<close>

definition send_all :: "nat \<Rightarrow> string \<Rightarrow> channel list \<Rightarrow> channel list" where
  "send_all cap evt cs = map (\<lambda>(c, q). (c, if length q < cap then q @ [evt] else q)) cs"

definition push_stream_token :: "string \<Rightarrow> real_node \<Rightarrow> real_node" where
  "push_stream_token token n = n\<lparr>rn_live_stream := send_all 256 token (rn_live_stream n)\<rparr>"

definition broadcast_event :: "string \<Rightarrow> real_node \<Rightarrow> real_node" where
  "broadcast_event evt n = n\<lparr>rn_ws_clients := send_all 16 evt (rn_ws_clients n)\<rparr>"

fun remove_channel :: "nat \<Rightarrow> channel list \<Rightarrow> channel list" where
  "remove_channel c [] = []"
| "remove_channel c (d # ds) = (if fst d = c then ds else d # remove_channel c ds)"

definition ws_connect :: "nat \<Rightarrow> real_node \<Rightarrow> real_node" where
  "ws_connect c n = n\<lparr>rn_ws_clients := rn_ws_clients n @ [(c, [])]\<rparr>"

definition ws_disconnect :: "nat \<Rightarrow> real_node \<Rightarrow> real_node" where
  "ws_disconnect c n = n\<lparr>rn_ws_clients := remove_channel c (rn_ws_clients n)\<rparr>"

definition live_connect :: "nat \<Rightarrow> real_node \<Rightarrow> real_node" where
  "live_connect c n = n\<lparr>rn_live_stream := rn_live_stream n @ [(c, [])]\<rparr>"

definition live_disconnect :: "nat \<Rightarrow> real_node \<Rightarrow> real_node" where
  "live_disconnect c n = n\<lparr>rn_live_stream := remove_channel c (rn_live_stream n)\<rparr>"

text \<open>One turn of the loop of a viewer: the oldest text that waits is written out.\<close>

fun take_event :: "nat \<Rightarrow> channel list \<Rightarrow> (string \<times> channel list) option" where
  "take_event c [] = None"
| "take_event c ((d, q) # ds) =
     (if d = c then (case q of [] \<Rightarrow> None | evt # q' \<Rightarrow> Some (''data: '' @ evt @ [line_break, line_break], (d, q') # ds))
      else map_option (\<lambda>(out, ds'). (out, (d, q) # ds')) (take_event c ds))"

section \<open>Inference\<close>

text \<open>The scanner's lines of a streamed reply; \<open>onChunk\<close> is a fold over the pieces that are passed on.\<close>

fun web_stream_lines ::
  "(string \<Rightarrow> (string \<times> string) list option) \<Rightarrow> (string \<Rightarrow> 's \<Rightarrow> 's) \<Rightarrow> string list \<Rightarrow> string \<Rightarrow> 's \<Rightarrow> string \<times> bool \<times> 's" where
  "web_stream_lines decode onChunk [] full s = (full, True, s)"
| "web_stream_lines decode onChunk (line # lines) full s =
     (if \<not> has_prefix line ''data: '' then web_stream_lines decode onChunk lines full s
      else if drop 6 line = ''[DONE]'' then (full, False, s)
      else case decode (drop 6 line) of
        None \<Rightarrow> web_stream_lines decode onChunk lines full s
      | Some choices \<Rightarrow> (let text = extract_delta choices in
          if text = '''' then web_stream_lines decode onChunk lines full s
          else web_stream_lines decode onChunk lines (full @ text) (onChunk text s)))"

text \<open>The answer, the error, and the state of the listener. A failed scan is an error with the text so far.\<close>

definition run_real_inference_stream ::
  "(string \<Rightarrow> (string \<times> string) list option) \<Rightarrow> reply \<Rightarrow> (string \<Rightarrow> string list \<times> string option)
     \<Rightarrow> (string \<Rightarrow> 's \<Rightarrow> 's) \<Rightarrow> 's \<Rightarrow> string \<times> string option \<times> 's" where
  "run_real_inference_stream decode r scan onChunk s =
     (let stream = (\<lambda>code body. if code \<noteq> 200 then ('''', Some (''LM Studio '' @ format_int code), s)
        else (case scan body of (lines, scanErr) \<Rightarrow> (case web_stream_lines decode onChunk lines '''' s of
          (full, ended, s') \<Rightarrow> (full, if ended then scanErr else None, s'))))
      in case r of
        NoRequest \<Rightarrow> ('''', Some ''LM Studio unreachable'', s)
      | NoAnswer \<Rightarrow> ('''', Some ''LM Studio unreachable'', s)
      | BrokenBody code part \<Rightarrow> stream code part
      | Answer code body \<Rightarrow> stream code body)"


definition web_answer_text :: "string \<Rightarrow> string \<Rightarrow> string" where
  "web_answer_text c reasoning =
     (if c = '''' \<and> reasoning \<noteq> '''' then ''[Model Thinking Process]'' @ [line_break] @ reasoning @ [line_break, line_break]
        @ ''[Note: model ran out of tokens before producing final answer. Try a simpler prompt or increase max_tokens.]''
      else if reasoning \<noteq> '''' then ''[Thinking]'' @ [line_break] @ reasoning @ [line_break, line_break] @ ''[Answer]'' @ [line_break] @ c
      else c)"

text \<open>\<open>decode\<close> is what the decoder has made of a body, its error is not looked at: the choices, each a pair of
  content and reasoning, and the number of tokens.\<close>

definition run_real_inference :: "(string \<Rightarrow> (string \<times> string) list \<times> int) \<Rightarrow> reply \<Rightarrow> (string, string) outcome" where
  "run_real_inference decode r =
     (let answer = (\<lambda>code body. if code \<noteq> 200 then Err (''LM Studio '' @ format_int code)
        else (case decode body of
            ([], tokens) \<Rightarrow> Err ''empty response''
          | ((c, reasoning) # cs, tokens) \<Rightarrow>
              Ok (web_answer_text c reasoning @ [line_break] @ ''['' @ format_int tokens @ '' tokens, LM Studio]'')))
      in case r of
        NoRequest \<Rightarrow> Err ''LM Studio unreachable''
      | NoAnswer \<Rightarrow> Err ''LM Studio unreachable''
      | BrokenBody code part \<Rightarrow> answer code part
      | Answer code body \<Rightarrow> answer code body)"

section \<open>Hardware\<close>

text \<open>A memory file is scanned into the variable, which is divided whether or not there was a number.\<close>

definition web_vram_file :: "(string \<Rightarrow> string option) \<Rightarrow> string \<Rightarrow> u64 \<Rightarrow> u64" where
  "web_vram_file readFile path vram = (case readFile path of
     None \<Rightarrow> vram
   | Some data \<Rightarrow> (case scan_decimal (trim_space data) of Some v \<Rightarrow> v | None \<Rightarrow> vram) div (1024 * 1024))"

definition web_gpu_entry :: "(string \<Rightarrow> string option) \<Rightarrow> string \<Rightarrow> int \<times> u64 \<Rightarrow> int \<times> u64" where
  "web_gpu_entry readFile name g =
     (if has_prefix name ''card'' \<and> \<not> contains_text name ''render'' then
        (fst g + 1, web_vram_file readFile (''/sys/class/drm/'' @ name @ ''/device/mem_info_vis_vram_total'')
           (web_vram_file readFile (''/sys/class/drm/'' @ name @ ''/device/mem_info_vram_total'') (snd g)))
      else g)"

fun web_cpu_name :: "string list \<Rightarrow> string" where
  "web_cpu_name [] = ''CPU-only''"
| "web_cpu_name (line # lines) =
     (if has_prefix line ''model name'' then
        (let parts = split_two CHR '':'' line in if length parts = 2 then trim_space (parts ! 1) else ''CPU-only'')
      else web_cpu_name lines)"

fun web_mem_total :: "string list \<Rightarrow> (string, u64) outcome" where
  "web_mem_total [] = Ok 0"
| "web_mem_total (line # lines) =
     (if has_prefix line ''MemTotal:'' then
        (case text_fields line of
           w # v # ws \<Rightarrow> Ok ((case scan_decimal v of Some kb \<Rightarrow> kb | None \<Rightarrow> 0) div 1024)
         | _ \<Rightarrow> Panic)
      else web_mem_total lines)"

definition detect_hardware ::
  "(string \<Rightarrow> string option) \<Rightarrow> string list \<Rightarrow> string \<Rightarrow> (string \<Rightarrow> string list option) \<Rightarrow> reply
     \<Rightarrow> (string, string \<times> int \<times> u64 \<times> u64 \<times> string list) outcome" where
  "detect_hardware readFile entries token decode r =
     (let g = fold (web_gpu_entry readFile) entries (1, 0);
          gpuCount = (if 1 < fst g then fst g - 1 else fst g);
          gpuName = (case readFile ''/proc/cpuinfo'' of None \<Rightarrow> ''CPU-only'' | Some data \<Rightarrow> web_cpu_name (split_on line_break data))
      in obind (case readFile ''/proc/meminfo'' of None \<Rightarrow> Ok 0 | Some data \<Rightarrow> web_mem_total (split_on line_break data))
        (\<lambda>ram. let vram = (if snd g < 1024 \<and> 0 < ram then ram div 2 else snd g) in
           Ok (gpuName, gpuCount, vram, ram,
             if token = '''' then [] else (case r of
                 Answer code body \<Rightarrow> (case decode body of Some ids \<Rightarrow> ids | None \<Rightarrow> [])
               | BrokenBody code part \<Rightarrow> (case decode part of Some ids \<Rightarrow> ids | None \<Rightarrow> [])
               | _ \<Rightarrow> []))))"

section \<open>The threads\<close>

text \<open>The node with its threads: the subtasks that calls of \<open>handleMine\<close> are working on, and the automatic
  miner, which is busy with a subtask, its parent and its prompt, or idle.\<close>

record web_state =
  ws_node :: real_node
  ws_jobs :: "nat list"
  ws_auto :: "(string \<times> string \<times> string) option"

definition web_init :: "address \<Rightarrow> string \<Rightarrow> int \<Rightarrow> u64 \<Rightarrow> u64 \<Rightarrow> string list \<Rightarrow> string \<Rightarrow> web_state" where
  "web_init addr gpuName gpuCount vram ram models now =
     \<lparr>ws_node = new_real_node addr gpuName gpuCount vram ram models now, ws_jobs = [], ws_auto = None\<rparr>"

text \<open>A step is one lock section of one thread.\<close>

inductive web_step :: "(byte list \<Rightarrow> hash) \<Rightarrow> web_state \<Rightarrow> web_state \<Rightarrow> bool" for sha where
  publish: "handle_publish sha meth i stamp now (ws_node s) = (ans, n') \<Longrightarrow> web_step sha s (s\<lparr>ws_node := n'\<rparr>)"
| analyze: "analyzer_pass sha (ws_node s) = (found, n') \<Longrightarrow> web_step sha s (s\<lparr>ws_node := n'\<rparr>)"
| claim: "mine_claim i (ws_node s) = Some (k, n') \<Longrightarrow> web_step sha s (s\<lparr>ws_node := n', ws_jobs := k # ws_jobs s\<rparr>)"
| mine_done: "k \<in> set (ws_jobs s) \<Longrightarrow> r \<noteq> Panic \<Longrightarrow> mine_commit k r nano now (ws_node s) = Ok n'
    \<Longrightarrow> web_step sha s (s\<lparr>ws_node := n', ws_jobs := remove1 k (ws_jobs s)\<rparr>)"
| auto_claimed: "ws_auto s = None \<Longrightarrow> auto_claim (ws_node s) = Some (job, n')
    \<Longrightarrow> web_step sha s (s\<lparr>ws_node := n', ws_auto := Some job\<rparr>)"
| auto_done: "ws_auto s = Some (i, parent, prompt) \<Longrightarrow> r \<noteq> Panic \<Longrightarrow> auto_commit i parent r nano now (ws_node s) = Ok n'
    \<Longrightarrow> web_step sha s (s\<lparr>ws_node := n', ws_auto := None\<rparr>)"
| viewers: "n' = (ws_node s)\<lparr>rn_ws_clients := ws, rn_live_stream := ls\<rparr> \<Longrightarrow> web_step sha s (s\<lparr>ws_node := n'\<rparr>)"

inductive web_reach :: "(byte list \<Rightarrow> hash) \<Rightarrow> web_state \<Rightarrow> bool" for sha where
  init: "web_reach sha (web_init addr gpuName gpuCount vram ram models now)"
| step: "web_reach sha s \<Longrightarrow> web_step sha s s' \<Longrightarrow> web_reach sha s'"

end
