(* ===== verification/WebNodeProps.thy ===== *)
theory WebNodeProps
  imports WebNode
begin

text \<open>
  The properties of the web node: in every interleaving of its threads, a subtask is worked on by one thread at
  a time, a completed task has only finished subtasks and exactly one block, and once the analyzer has run,
  the automatic miner completes every task. A split keeps the text of the prompt.
\<close>

section \<open>Lists and operations\<close>

lemma filter_update_other: "k < length xs \<Longrightarrow> \<not> P (xs ! k) \<Longrightarrow> \<not> P x \<Longrightarrow> filter P (xs[k := x]) = filter P xs"
  by (induction xs arbitrary: k) (auto split: nat.split)

lemma map_update_same: "k < length xs \<Longrightarrow> f x = f (xs ! k) \<Longrightarrow> map f (xs[k := x]) = map f xs"
  by (metis list_update_id map_update nth_map length_map)

lemma find_pending_iff:
  "find_pending ss = Some k \<Longrightarrow> k < length ss \<and> sv_status (ss ! k) = ''Pending''"
  "find_pending ss = None \<longleftrightarrow> (\<forall>s \<in> set ss. sv_status s \<noteq> ''Pending'')"
  by (induction ss arbitrary: k) (auto split: if_splits)

lemma find_claimable_at:
  "find_claimable i ss = Some k \<Longrightarrow> k < length ss \<and> sv_id (ss ! k) = i \<and> sv_status (ss ! k) = ''Pending''"
  by (induction ss arbitrary: k) (auto split: if_splits)

lemma find_subtask_at:
  "find_subtask i ss = Some k \<Longrightarrow> k < length ss \<and> sv_id (ss ! k) = i"
  "find_subtask i ss = None \<longleftrightarrow> i \<notin> sv_id ` set ss"
  by (induction ss arbitrary: k) (auto split: if_splits)

lemma find_subtask_unique:
  assumes "distinct (map sv_id ss)" "k < length ss" "sv_id (ss ! k) = i"
  shows "find_subtask i ss = Some k"
proof -
  have "find_subtask i ss \<noteq> None" using assms(2,3) find_subtask_at(2) [of i ss] by (metis imageI nth_mem)
  then obtain j where j: "find_subtask i ss = Some j" by blast
  then have "j < length ss" "sv_id (ss ! j) = i" using find_subtask_at(1) by blast+
  with assms have "map sv_id ss ! j = map sv_id ss ! k" "j < length (map sv_id ss)" "k < length (map sv_id ss)" by auto
  with assms(1) have "j = k" using nth_eq_iff_index_eq by blast
  with j show ?thesis by simp
qed

lemma split_task_shape:
  "split_task sha t \<noteq> []"
  "s \<in> set (split_task sha t) \<Longrightarrow> sv_task_id s = tv_id t \<and> sv_status s = ''Pending'' \<and> sv_result s = ''''"
  by (auto simp: split_task_def Let_def split: if_splits)

definition analyzed :: "(byte list \<Rightarrow> hash) \<Rightarrow> task_view \<Rightarrow> task_view" where
  "analyzed sha t = (if tv_status t = ''Pending'' then t\<lparr>tv_status := ''Mining'', tv_subtasks := split_task sha t\<rparr> else t)"

definition new_subtasks :: "(byte list \<Rightarrow> hash) \<Rightarrow> task_view list \<Rightarrow> subtask_view list" where
  "new_subtasks sha ts = concat (map (split_task sha) (filter (\<lambda>t. tv_status t = ''Pending'') ts))"

lemma analyze_tasks_eq: "analyze_tasks sha ts subs = (map (analyzed sha) ts, subs @ new_subtasks sha ts)"
  by (induction sha ts subs rule: analyze_tasks.induct) (auto simp: analyzed_def new_subtasks_def)

lemma new_subtask: "s \<in> set (new_subtasks sha ts) \<longleftrightarrow> (\<exists>t \<in> set ts. tv_status t = ''Pending'' \<and> s \<in> set (split_task sha t))"
  by (auto simp: new_subtasks_def)

definition closed :: "string \<Rightarrow> string \<Rightarrow> subtask_view list \<Rightarrow> task_view \<Rightarrow> task_view" where
  "closed parent result subs t = (if tv_id t = parent
     then t\<lparr>tv_status := ''Completed'', tv_result := result, tv_subtasks := filter_subtasks parent subs\<rparr> else t)"

lemma close_task_none: "close_task parent result subs ts = None \<longleftrightarrow> parent \<notin> tv_id ` set ts"
  by (induction ts) auto

lemma close_task_eq:
  "distinct (map tv_id ts) \<Longrightarrow> close_task parent result subs ts = Some (ts', fee) \<Longrightarrow> ts' = map (closed parent result subs) ts"
proof (induction ts arbitrary: ts')
  case (Cons t ts)
  show ?case
  proof (cases "tv_id t = parent")
    case True
    have "map (closed parent result subs) ts = ts"
      using Cons.prems(1) True by (intro map_idI) (metis closed_def distinct.simps(2) imageI list.map(2) list.set_map)
    moreover have "ts' = closed parent result subs t # ts" using True Cons.prems(2) by (auto simp: closed_def)
    ultimately show ?thesis by simp
  qed (use Cons in \<open>auto simp: closed_def\<close>)
qed simp

lemma close_task_ids: "close_task parent result subs ts = Some (ts', fee) \<Longrightarrow> map tv_id ts' = map tv_id ts"
  by (induction ts arbitrary: ts') (auto split: if_splits)

lemma close_task_status:
  "close_task parent result subs ts = Some (ts', fee) \<Longrightarrow> t \<in> set ts' \<Longrightarrow> t \<in> set ts \<or> tv_status t = ''Completed''"
  by (induction ts arbitrary: ts') (auto split: if_splits)

section \<open>The invariant\<close>

definition finished :: "subtask_view \<Rightarrow> bool" where
  "finished s \<longleftrightarrow> sv_status s = ''Completed'' \<or> sv_status s = ''Failed''"

text \<open>What holds of the node whatever the ids are.\<close>

definition node_ok :: "real_node \<Rightarrow> bool" where
  "node_ok n \<longleftrightarrow> map bv_height (rn_blocks n) = map word_of_nat [0..<length (rn_blocks n)]
     \<and> length (rn_blocks n) = Suc (length (rn_txs n))
     \<and> (\<forall>s \<in> set (rn_subtasks n). (finished s \<or> sv_status s = ''Pending'' \<or> sv_status s = ''Running'') \<and> sv_task_id s \<in> tv_id ` set (rn_tasks n))
     \<and> (\<forall>t \<in> set (rn_tasks n). tv_status t = ''Pending'' \<or> tv_status t = ''Mining'' \<or> tv_status t = ''Completed'')"

definition unique_ids :: "real_node \<Rightarrow> bool" where
  "unique_ids n \<longleftrightarrow> distinct (map tv_id (rn_tasks n)) \<and> distinct (map sv_id (rn_subtasks n))"

text \<open>What the status of a task says of its subtasks.\<close>

definition task_exact :: "subtask_view list \<Rightarrow> task_view \<Rightarrow> bool" where
  "task_exact subs t \<longleftrightarrow>
     (tv_status t = ''Pending'' \<longrightarrow> (\<forall>s \<in> set subs. sv_task_id s \<noteq> tv_id t)) \<and>
     (tv_status t = ''Mining'' \<longrightarrow> (\<exists>s \<in> set subs. sv_task_id s = tv_id t \<and> \<not> finished s)) \<and>
     (tv_status t = ''Completed'' \<longrightarrow> (\<forall>s \<in> set subs. sv_task_id s = tv_id t \<longrightarrow> finished s) \<and> tv_subtasks t = filter_subtasks (tv_id t) subs
        \<and> tv_subtasks t \<noteq> [])"

definition node_exact :: "real_node \<Rightarrow> bool" where
  "node_exact n \<longleftrightarrow> (\<forall>t \<in> set (rn_tasks n). task_exact (rn_subtasks n) t)
     \<and> distinct (map xv_hash (rn_txs n))
     \<and> set (map xv_hash (rn_txs n)) = tv_id ` {t \<in> set (rn_tasks n). tv_status t = ''Completed''}
     \<and> rn_mempool n = int (length (filter (\<lambda>t. tv_status t \<noteq> ''Completed'') (rn_tasks n)))"

definition running :: "real_node \<Rightarrow> nat set" where
  "running n = {k. k < length (rn_subtasks n) \<and> sv_status (rn_subtasks n ! k) = ''Running''}"

text \<open>The subtask of the automatic miner.\<close>

definition auto_holds :: "web_state \<Rightarrow> nat set" where
  "auto_holds s = (case ws_auto s of None \<Rightarrow> {} | Some (i, parent, prompt) \<Rightarrow>
     {k. k < length (rn_subtasks (ws_node s)) \<and> sv_id (rn_subtasks (ws_node s) ! k) = i \<and> sv_task_id (rn_subtasks (ws_node s) ! k) = parent})"

definition web_ok :: "web_state \<Rightarrow> bool" where
  "web_ok s \<longleftrightarrow> node_ok (ws_node s) \<and> distinct (ws_jobs s)
     \<and> (\<forall>k \<in> set (ws_jobs s). k < length (rn_subtasks (ws_node s)) \<and> sv_status (rn_subtasks (ws_node s) ! k) \<noteq> ''Pending'')
     \<and> (unique_ids (ws_node s) \<longrightarrow>
     node_exact (ws_node s) \<and> running (ws_node s) = set (ws_jobs s) \<union> auto_holds s \<and> set (ws_jobs s) \<inter> auto_holds s = {}
     \<and> (ws_auto s \<noteq> None \<longrightarrow> auto_holds s \<noteq> {}))"

section \<open>Each operation keeps it\<close>

lemma node_okD:
  assumes "node_ok n"
  shows "s \<in> set (rn_subtasks n) \<Longrightarrow> sv_task_id s \<in> tv_id ` set (rn_tasks n)"
    "s \<in> set (rn_subtasks n) \<Longrightarrow> finished s \<or> sv_status s = ''Pending'' \<or> sv_status s = ''Running''"
    "t \<in> set (rn_tasks n) \<Longrightarrow> tv_status t = ''Pending'' \<or> tv_status t = ''Mining'' \<or> tv_status t = ''Completed''"
  using assms by (auto simp only: node_ok_def)

lemma publish_keeps:
  assumes "node_ok n" "tv_status t = ''Pending''" "n' = n\<lparr>rn_tasks := t # rn_tasks n, rn_mempool := rn_mempool n + 1\<rparr>"
  shows "node_ok n'" "unique_ids n' \<Longrightarrow> unique_ids n \<and> (node_exact n \<longrightarrow> node_exact n')"
proof -
  show "node_ok n'" using assms by (auto simp: node_ok_def)
  assume u: "unique_ids n'"
  then have "tv_id t \<notin> tv_id ` set (rn_tasks n)" using assms(3) by (simp add: unique_ids_def)
  then have "\<forall>s \<in> set (rn_subtasks n). sv_task_id s \<noteq> tv_id t" using node_okD(1) [OF assms(1)] by metis
  then have "task_exact (rn_subtasks n) t" using assms(2) by (simp add: task_exact_def)
  then show "unique_ids n \<and> (node_exact n \<longrightarrow> node_exact n')"
    using u assms(2,3) by (auto simp: unique_ids_def node_exact_def)
qed

lemma analyzed_simps [simp]: "tv_id (analyzed sha t) = tv_id t"
  "tv_status (analyzed sha t) = ''Completed'' \<longleftrightarrow> tv_status t = ''Completed''"
  "tv_status (analyzed sha t) \<noteq> ''Pending''"
  by (auto simp: analyzed_def)

lemma analyzed_exact:
  assumes ex: "\<forall>t \<in> set ts. task_exact subs t" and d: "distinct (map tv_id ts)" and t: "t \<in> set ts"
    and ok: "tv_status t = ''Pending'' \<or> tv_status t = ''Mining'' \<or> tv_status t = ''Completed''"
  shows "task_exact (subs @ new_subtasks sha ts) (analyzed sha t)"
proof (cases "tv_status t = ''Pending''")
  case True
  obtain s where s: "s \<in> set (split_task sha t)" using split_task_shape(1) [of sha t] by (cases "split_task sha t") auto
  then have "s \<in> set (new_subtasks sha ts)" "sv_task_id s = tv_id t" "\<not> finished s"
    using True t split_task_shape(2) [OF s] by (auto simp: new_subtask finished_def)
  then show ?thesis using True by (auto simp: task_exact_def analyzed_def)
next
  case False
  have "sv_task_id s \<noteq> tv_id t" if "s \<in> set (new_subtasks sha ts)" for s
  proof
    assume e: "sv_task_id s = tv_id t"
    from that obtain u where u: "u \<in> set ts" "tv_status u = ''Pending''" "s \<in> set (split_task sha u)" by (auto simp: new_subtask)
    then have "tv_id u = tv_id t" using e split_task_shape(2) by simp
    then have "u = t" using d u(1) t by (metis distinct_map inj_onD)
    then show False using False u(2) by simp
  qed
  then have "filter_subtasks (tv_id t) (new_subtasks sha ts) = []" by (auto simp: filter_subtasks_def filter_empty_conv)
  then show ?thesis using ex t False \<open>\<And>s. s \<in> set (new_subtasks sha ts) \<Longrightarrow> sv_task_id s \<noteq> tv_id t\<close>
    by (auto simp: task_exact_def analyzed_def filter_subtasks_def)
qed

lemma analyze_keeps:
  assumes ok: "node_ok n" and n': "n' = n\<lparr>rn_tasks := map (analyzed sha) (rn_tasks n), rn_subtasks := rn_subtasks n @ new_subtasks sha (rn_tasks n)\<rparr>"
  shows "node_ok n'" "unique_ids n' \<Longrightarrow> unique_ids n \<and> (node_exact n \<longrightarrow> node_exact n')" "running n' = running n"
proof -
  have img: "tv_id ` set (rn_tasks n') = tv_id ` set (rn_tasks n)" by (simp add: n' image_image)
  have sub: "(finished s \<or> sv_status s = ''Pending'' \<or> sv_status s = ''Running'') \<and> sv_task_id s \<in> tv_id ` set (rn_tasks n)"
    if s: "s \<in> set (rn_subtasks n')" for s
  proof (cases "s \<in> set (rn_subtasks n)")
    case True
    then show ?thesis using node_okD(1,2) [OF ok] by blast
  next
    case False
    then obtain t where "t \<in> set (rn_tasks n)" "s \<in> set (split_task sha t)" using s by (auto simp: n' new_subtask)
    then show ?thesis using split_task_shape(2) by blast
  qed
  have "tv_status (analyzed sha t) = ''Pending'' \<or> tv_status (analyzed sha t) = ''Mining'' \<or> tv_status (analyzed sha t) = ''Completed''"
    if "t \<in> set (rn_tasks n)" for t using node_okD(3) [OF ok that] by (auto simp: analyzed_def)
  then have "\<forall>t \<in> set (rn_tasks n'). tv_status t = ''Pending'' \<or> tv_status t = ''Mining'' \<or> tv_status t = ''Completed''"
    by (simp add: n')
  then show "node_ok n'" using ok sub unfolding node_ok_def img by (simp add: n')
  have f: "length (filter (\<lambda>t. tv_status t \<noteq> ''Completed'') (map (analyzed sha) (rn_tasks n))) = length (filter (\<lambda>t. tv_status t \<noteq> ''Completed'') (rn_tasks n))"
    by (simp add: filter_map comp_def)
  have c: "tv_id ` {t \<in> analyzed sha ` set (rn_tasks n). tv_status t = ''Completed''} = tv_id ` {t \<in> set (rn_tasks n). tv_status t = ''Completed''}"
    by (force simp: image_iff)
  have i: "map tv_id (map (analyzed sha) (rn_tasks n)) = map tv_id (rn_tasks n)" by simp
  show "unique_ids n \<and> (node_exact n \<longrightarrow> node_exact n')" if u: "unique_ids n'"
  proof -
    have "unique_ids n" using u i unfolding n' unique_ids_def by (simp add: comp_def)
    moreover have "node_exact n'" if e: "node_exact n"
      unfolding node_exact_def
    proof (intro conjI)
      show "\<forall>t \<in> set (rn_tasks n'). task_exact (rn_subtasks n') t"
        using analyzed_exact [of "rn_tasks n" "rn_subtasks n" _ sha] e ok \<open>unique_ids n\<close>
        by (auto simp: n' node_exact_def node_ok_def unique_ids_def)
    qed (use e f c in \<open>simp_all add: n' node_exact_def\<close>)
    ultimately show ?thesis by blast
  qed
  have "sv_status s = ''Pending''" if "s \<in> set (new_subtasks sha (rn_tasks n))" for s
    using that split_task_shape(2) by (auto simp: new_subtask)
  then have new: "sv_status (new_subtasks sha (rn_tasks n) ! j) \<noteq> ''Running''" if "j < length (new_subtasks sha (rn_tasks n))" for j
    using nth_mem [OF that] by fastforce
  show "running n' = running n"
    unfolding running_def
  proof (rule Collect_cong)
    fix k
    show "(k < length (rn_subtasks n') \<and> sv_status (rn_subtasks n' ! k) = ''Running'') =
        (k < length (rn_subtasks n) \<and> sv_status (rn_subtasks n ! k) = ''Running'')"
    proof (cases "k < length (rn_subtasks n)")
      case False
      then show ?thesis using new [of "k - length (rn_subtasks n)"] by (auto simp: n' nth_append)
    qed (simp add: n' nth_append)
  qed
qed

text \<open>A subtask is replaced by one with the same ids.\<close>

definition same_ids :: "subtask_view \<Rightarrow> subtask_view \<Rightarrow> bool" where
  "same_ids x y \<longleftrightarrow> sv_id x = sv_id y \<and> sv_task_id x = sv_task_id y"

lemma task_exact_replace:
  assumes ex: "task_exact subs t" and k: "k < length subs" and x: "same_ids x (subs ! k)" and o: "\<not> finished (subs ! k)"
    and m: "\<not> finished x \<or> sv_task_id (subs ! k) \<noteq> tv_id t"
  shows "task_exact (subs[k := x]) t"
proof -
  have sub: "s = x \<or> s \<in> set subs" if "s \<in> set (subs[k := x])" for s using that set_update_subset_insert by fastforce
  have x': "x \<in> set (subs[k := x])" using k by (simp add: set_update_memI)
  have keep: "s \<in> set (subs[k := x])" if "s \<in> set subs" "s \<noteq> subs ! k" for s
    using that by (metis in_set_conv_nth length_list_update nth_list_update_neq)
  have pend: "\<forall>s \<in> set (subs[k := x]). sv_task_id s \<noteq> tv_id t" if "tv_status t = ''Pending''"
    using ex that sub x nth_mem [OF k] by (metis same_ids_def task_exact_def)
  have mining: "\<exists>s \<in> set (subs[k := x]). sv_task_id s = tv_id t \<and> \<not> finished s" if t: "tv_status t = ''Mining''"
  proof -
    from ex t obtain s where s: "s \<in> set subs" "sv_task_id s = tv_id t" "\<not> finished s" by (auto simp: task_exact_def)
    show ?thesis
    proof (cases "s = subs ! k")
      case True
      then show ?thesis using s m x x' by (metis same_ids_def)
    qed (use s keep in blast)
  qed
  have comp: "(\<forall>s \<in> set (subs[k := x]). sv_task_id s = tv_id t \<longrightarrow> finished s) \<and> tv_subtasks t = filter_subtasks (tv_id t) (subs[k := x]) \<and> tv_subtasks t \<noteq> []"
    if t: "tv_status t = ''Completed''"
  proof -
    have 1: "\<forall>s \<in> set subs. sv_task_id s = tv_id t \<longrightarrow> finished s" "tv_subtasks t = filter_subtasks (tv_id t) subs" "tv_subtasks t \<noteq> []"
      using ex t by (auto simp: task_exact_def)
    have 2: "sv_task_id (subs ! k) \<noteq> tv_id t" using 1(1) o k by (meson nth_mem)
    then have "filter_subtasks (tv_id t) (subs[k := x]) = filter_subtasks (tv_id t) subs"
      unfolding filter_subtasks_def using k x by (intro filter_update_other) (auto simp: same_ids_def)
    then show ?thesis using 1 2 sub x by (metis same_ids_def)
  qed
  show ?thesis unfolding task_exact_def using pend mining comp by blast
qed

lemma replace_unique:
  "k < length (rn_subtasks n) \<Longrightarrow> same_ids x (rn_subtasks n ! k) \<Longrightarrow> unique_ids (n\<lparr>rn_subtasks := (rn_subtasks n)[k := x]\<rparr>) = unique_ids n"
  using map_update_same [of k "rn_subtasks n" sv_id x] by (simp add: unique_ids_def same_ids_def)

lemma replace_node_ok:
  assumes "node_ok n" "k < length (rn_subtasks n)" "same_ids x (rn_subtasks n ! k)" "finished x \<or> sv_status x = ''Running''"
  shows "node_ok (n\<lparr>rn_subtasks := (rn_subtasks n)[k := x]\<rparr>)"
proof -
  have "(finished s \<or> sv_status s = ''Pending'' \<or> sv_status s = ''Running'') \<and> sv_task_id s \<in> tv_id ` set (rn_tasks n)"
    if s: "s \<in> set ((rn_subtasks n)[k := x])" for s
  proof (cases "s = x")
    case True
    then show ?thesis using assms(3,4) node_okD(1) [OF assms(1) nth_mem [OF assms(2)]] by (auto simp: same_ids_def)
  next
    case False
    then have "s \<in> set (rn_subtasks n)" using s set_update_subset_insert by fastforce
    then show ?thesis using node_okD(1,2) [OF assms(1)] by blast
  qed
  then show ?thesis using assms(1) unfolding node_ok_def by simp
qed

lemma start_keeps:
  assumes ok: "node_ok n" and k: "k < length (rn_subtasks n)" "sv_status (rn_subtasks n ! k) = ''Pending''"
  shows "node_ok (set_running k n)" "unique_ids (set_running k n) = unique_ids n" "node_exact n \<Longrightarrow> node_exact (set_running k n)"
    "running (set_running k n) = insert k (running n)"
proof -
  let ?x = "(rn_subtasks n ! k)\<lparr>sv_status := ''Running''\<rparr>"
  have x: "same_ids ?x (rn_subtasks n ! k)" "\<not> finished ?x" "\<not> finished (rn_subtasks n ! k)"
    using k(2) by (simp_all add: same_ids_def finished_def)
  show "node_ok (set_running k n)" using replace_node_ok [OF ok k(1) x(1)] by (simp add: set_running_def)
  show "unique_ids (set_running k n) = unique_ids n" using replace_unique [OF k(1) x(1)] by (simp add: set_running_def)
  show "node_exact (set_running k n)" if "node_exact n"
    using that task_exact_replace [OF _ k(1) x(1,3)] x(2) by (simp add: node_exact_def set_running_def)
  show "running (set_running k n) = insert k (running n)"
    using k by (auto simp: running_def set_running_def nth_list_update split: if_splits)
qed

text \<open>The end of a subtask, and of its task if it was the last one.\<close>

definition done_all :: "string \<Rightarrow> subtask_view list \<Rightarrow> bool" where
  "done_all parent subs \<longleftrightarrow> (\<forall>s \<in> set subs. sv_task_id s = parent \<longrightarrow> finished s)"

definition settle :: "nat \<Rightarrow> (string, string) outcome \<Rightarrow> string \<Rightarrow> nat \<Rightarrow> string \<Rightarrow> real_node \<Rightarrow> real_node" where
  "settle k r result nano now n =
     (let parent = sv_task_id (rn_subtasks n ! k); n1 = finish_subtask k r n in
      if done_all parent (rn_subtasks n1) then complete_parent parent result nano now n1 else n1)"

lemma finish_is_replace:
  assumes "r \<noteq> Panic"
  obtains x where "finish_subtask k r n = n\<lparr>rn_subtasks := (rn_subtasks n)[k := x]\<rparr>" "same_ids x (rn_subtasks n ! k)" "finished x"
proof (cases r)
  case (Ok out)
  then show ?thesis using that [of "(rn_subtasks n ! k)\<lparr>sv_status := ''Completed'', sv_result := out\<rparr>"]
    by (simp add: finish_subtask_def same_ids_def finished_def)
next
  case (Err e)
  then show ?thesis using that [of "(rn_subtasks n ! k)\<lparr>sv_status := ''Failed'', sv_result := ''Error: '' @ e\<rparr>"]
    by (simp add: finish_subtask_def same_ids_def finished_def)
qed (use assms in simp)

lemma record_fields:
  "rn_subtasks (complete_parent parent result nano now n) = rn_subtasks n"
  "map tv_id (rn_tasks (complete_parent parent result nano now n)) = map tv_id (rn_tasks n)"
  by (auto simp: complete_parent_def close_task_ids split: option.splits)

lemma record_node_ok:
  assumes "node_ok n" shows "node_ok (complete_parent parent result nano now n)"
proof (cases "close_task parent result (rn_subtasks n) (rn_tasks n)")
  case None
  then show ?thesis using assms by (simp add: complete_parent_def)
next
  case (Some q)
  obtain ts fee where q: "close_task parent result (rn_subtasks n) (rn_tasks n) = Some (ts, fee)" using Some by (cases q) auto
  have i: "tv_id ` set ts = tv_id ` set (rn_tasks n)" using close_task_ids [OF q] by (metis list.set_map)
  have "\<forall>t \<in> set ts. tv_status t = ''Pending'' \<or> tv_status t = ''Mining'' \<or> tv_status t = ''Completed''"
    using close_task_status [OF q] node_okD(3) [OF assms] by blast
  then show ?thesis using assms unfolding node_ok_def by (simp add: complete_parent_def q i)
qed

lemma count_closed:
  assumes "distinct (map tv_id ts)" "t \<in> set ts" "tv_status t \<noteq> ''Completed''"
  shows "length (filter (\<lambda>u. tv_status u \<noteq> ''Completed'') ts) =
    Suc (length (filter (\<lambda>u. tv_status u \<noteq> ''Completed'') (map (closed (tv_id t) result subs) ts)))"
  using assms
proof (induction ts)
  case (Cons u ts)
  show ?case
  proof (cases "u = t")
    case True
    have "map (closed (tv_id t) result subs) ts = ts"
      using Cons.prems(1) True by (intro map_idI) (metis closed_def distinct.simps(2) imageI list.map(2) list.set_map)
    then show ?thesis using True Cons.prems(3) by (simp only: list.map filter.simps) (simp add: closed_def)
  next
    case False
    then have "tv_id u \<noteq> tv_id t" using Cons.prems(1,2) by (metis distinct.simps(2) image_eqI list.map(2) list.set_map set_ConsD)
    then show ?thesis using Cons False by (simp add: closed_def)
  qed
qed simp

lemma record_exact:
  assumes ok: "node_ok n" and u: "unique_ids n" and ex: "\<forall>t \<in> set (rn_tasks n). task_exact (rn_subtasks n) t \<or> tv_id t = parent"
    and rest: "distinct (map xv_hash (rn_txs n))" "set (map xv_hash (rn_txs n)) = tv_id ` {t \<in> set (rn_tasks n). tv_status t = ''Completed''}"
      "rn_mempool n = int (length (filter (\<lambda>t. tv_status t \<noteq> ''Completed'') (rn_tasks n)))"
    and d: "done_all parent (rn_subtasks n)" and s: "\<exists>s \<in> set (rn_subtasks n). sv_task_id s = parent"
    and t: "t \<in> set (rn_tasks n)" "tv_id t = parent" "tv_status t \<noteq> ''Completed''"
  shows "node_exact (complete_parent parent result nano now n)"
proof -
  have dist: "distinct (map tv_id (rn_tasks n))" using u by (simp add: unique_ids_def)
  obtain ts fee where q: "close_task parent result (rn_subtasks n) (rn_tasks n) = Some (ts, fee)"
    using t(1,2) close_task_none [of parent result "rn_subtasks n" "rn_tasks n"] by fastforce
  have ts: "ts = map (closed parent result (rn_subtasks n)) (rn_tasks n)" by (rule close_task_eq [OF dist q])
  let ?n = "complete_parent parent result nano now n"
  have c: "tv_id ` {u \<in> set ts. tv_status u = ''Completed''} = insert parent (tv_id ` {u \<in> set (rn_tasks n). tv_status u = ''Completed''})"
  proof -
    let ?cl = "closed parent result (rn_subtasks n)"
    have i: "tv_id (?cl u) = tv_id u" for u by (simp add: closed_def)
    have st: "tv_status (?cl u) = ''Completed'' \<longleftrightarrow> tv_id u = parent \<or> tv_status u = ''Completed''" for u
      by (simp add: closed_def)
    have "{u \<in> set ts. tv_status u = ''Completed''} = ?cl ` {u \<in> set (rn_tasks n). tv_status (?cl u) = ''Completed''}"
      unfolding ts by auto
    then have "tv_id ` {u \<in> set ts. tv_status u = ''Completed''} = tv_id ` {u \<in> set (rn_tasks n). tv_id u = parent \<or> tv_status u = ''Completed''}"
      by (simp only: image_image i st)
    then show ?thesis using t(1,2) by auto
  qed
  have notin: "parent \<notin> set (map xv_hash (rn_txs n))"
    using rest(2) t dist by (auto simp: distinct_map dest: inj_onD)
  have pos: "0 < rn_mempool n" using rest(3) t(1,3) by (auto simp: filter_empty_conv)
  have mem: "rn_mempool n - 1 = int (length (filter (\<lambda>t. tv_status t \<noteq> ''Completed'') ts))"
    using rest(3) count_closed [OF dist t(1,3), of result "rn_subtasks n"] t(2) ts by simp
  have "task_exact (rn_subtasks n) (closed parent result (rn_subtasks n) v)" if v: "v \<in> set (rn_tasks n)" for v
  proof (cases "tv_id v = parent")
    case True
    then show ?thesis using d s by (auto simp: closed_def task_exact_def done_all_def filter_subtasks_def filter_empty_conv)
  next
    case False
    then show ?thesis using ex v by (auto simp: closed_def)
  qed
  then have "\<forall>v \<in> set ts. task_exact (rn_subtasks n) v" unfolding ts by simp
  then show ?thesis
    using rest(1,2) c notin mem pos by (simp add: node_exact_def complete_parent_def q)
qed

lemma settle_keeps:
  assumes ok: "node_ok n" and k: "k < length (rn_subtasks n)" and r: "r \<noteq> Panic"
  shows "node_ok (settle k r result nano now n)" "unique_ids (settle k r result nano now n) = unique_ids n"
    "running (settle k r result nano now n) = running n - {k}"
    "sv_status (rn_subtasks n ! k) = ''Running'' \<Longrightarrow> unique_ids n \<Longrightarrow> node_exact n \<Longrightarrow> node_exact (settle k r result nano now n)"
proof -
  obtain x where f: "finish_subtask k r n = n\<lparr>rn_subtasks := (rn_subtasks n)[k := x]\<rparr>" and x: "same_ids x (rn_subtasks n ! k)" "finished x"
    using finish_is_replace [OF r] .
  let ?n1 = "n\<lparr>rn_subtasks := (rn_subtasks n)[k := x]\<rparr>" and ?p = "sv_task_id (rn_subtasks n ! k)"
  have ok1: "node_ok ?n1" using replace_node_ok [OF ok k x(1)] x(2) by simp
  have u1: "unique_ids ?n1 = unique_ids n" by (rule replace_unique [OF k x(1)])
  have run1: "running ?n1 = running n - {k}"
    using k x(2) by (auto simp: running_def nth_list_update finished_def split: if_splits)
  have s: "settle k r result nano now n = (if done_all ?p (rn_subtasks ?n1) then complete_parent ?p result nano now ?n1 else ?n1)"
    by (simp only: settle_def Let_def f)
  show "node_ok (settle k r result nano now n)" using ok1 record_node_ok [OF ok1] unfolding s by simp
  show "unique_ids (settle k r result nano now n) = unique_ids n"
    using u1 record_fields unfolding s unique_ids_def by simp
  show "running (settle k r result nano now n) = running n - {k}"
    using run1 record_fields(1) unfolding s running_def by simp
  assume st: "sv_status (rn_subtasks n ! k) = ''Running''" and u: "unique_ids n" and ex: "node_exact n"
  have o: "\<not> finished (rn_subtasks n ! k)" using st by (simp add: finished_def)
  have keep: "task_exact (rn_subtasks ?n1) t" if "t \<in> set (rn_tasks n)" "?p \<noteq> tv_id t" for t
    using task_exact_replace [OF _ k x(1) o] that ex by (simp add: node_exact_def)
  obtain t where t: "t \<in> set (rn_tasks n)" "tv_id t = ?p" using node_okD(1) [OF ok nth_mem [OF k]] by auto
  have et: "task_exact (rn_subtasks n) t" using ex t(1) by (simp add: node_exact_def)
  have t_open: "tv_status t \<noteq> ''Completed''" "tv_status t \<noteq> ''Pending''"
    using et t(2) o nth_mem [OF k] unfolding task_exact_def by metis+
  have xin: "x \<in> set (rn_subtasks ?n1)" "sv_task_id x = ?p" using k x(1) by (simp_all add: set_update_memI same_ids_def)
  have same: "v = t" if "v \<in> set (rn_tasks n)" "tv_id v = ?p" for v
    using that t u by (metis distinct_map inj_onD unique_ids_def)
  show "node_exact (settle k r result nano now n)"
  proof (cases "done_all ?p (rn_subtasks ?n1)")
    case True
    have "node_exact (complete_parent ?p result nano now ?n1)"
      by (rule record_exact [OF ok1, where t = t])
        (use u u1 keep ex True t t_open xin in \<open>auto simp: node_exact_def\<close>)
    then show ?thesis unfolding s using True by simp
  next
    case False
    then obtain y where "y \<in> set (rn_subtasks ?n1)" "sv_task_id y = ?p" "\<not> finished y" by (auto simp: done_all_def)
    then have "task_exact (rn_subtasks ?n1) t" using t_open t(2) node_okD(3) [OF ok t(1)] by (auto simp: task_exact_def)
    then have "\<forall>v \<in> set (rn_tasks n). task_exact (rn_subtasks ?n1) v" using keep same by metis
    then show ?thesis using False ex unfolding s node_exact_def by simp
  qed
qed

section \<open>Every reachable state\<close>

text \<open>Subtasks are only added, and none becomes pending again.\<close>

definition grows :: "real_node \<Rightarrow> real_node \<Rightarrow> bool" where
  "grows n n' \<longleftrightarrow> length (rn_subtasks n) \<le> length (rn_subtasks n') \<and> (\<forall>k < length (rn_subtasks n).
     same_ids (rn_subtasks n' ! k) (rn_subtasks n ! k)
     \<and> (sv_status (rn_subtasks n ! k) \<noteq> ''Pending'' \<longrightarrow> sv_status (rn_subtasks n' ! k) \<noteq> ''Pending''))"

lemma grows_same: "rn_subtasks n' = rn_subtasks n \<Longrightarrow> grows n n'"
  by (simp add: grows_def same_ids_def)

lemma grows_append: "rn_subtasks n' = rn_subtasks n @ xs \<Longrightarrow> grows n n'"
  by (simp add: grows_def same_ids_def nth_append)

lemma grows_replace:
  "rn_subtasks n' = (rn_subtasks n)[k := x] \<Longrightarrow> same_ids x (rn_subtasks n ! k) \<Longrightarrow> sv_status x \<noteq> ''Pending'' \<Longrightarrow> grows n n'"
  by (cases "k < length (rn_subtasks n)") (auto simp: grows_def same_ids_def nth_list_update)

lemma finish_grows:
  assumes "r \<noteq> Panic" shows "grows n (finish_subtask k r n)"
proof -
  obtain x where x: "finish_subtask k r n = n\<lparr>rn_subtasks := (rn_subtasks n)[k := x]\<rparr>" "same_ids x (rn_subtasks n ! k)" "finished x"
    using finish_is_replace [OF assms] .
  from x(3) have "sv_status x \<noteq> ''Pending''" by (auto simp: finished_def)
  with x(1,2) show ?thesis by (intro grows_replace [where k = k and x = x]) simp_all
qed

lemma record_grows: "grows n n1 \<Longrightarrow> grows n (complete_parent parent result nano now n1)"
  by (simp add: grows_def record_fields)

lemma holds_one:
  assumes "unique_ids (ws_node s)" "k \<in> auto_holds s" shows "auto_holds s = {k}"
proof -
  obtain i p q where a: "ws_auto s = Some (i, p, q)" using assms(2) by (auto simp: auto_holds_def split: option.splits)
  have "j = k" if "j \<in> auto_holds s" for j
  proof -
    have "j < length (rn_subtasks (ws_node s))" "k < length (rn_subtasks (ws_node s))"
      "map sv_id (rn_subtasks (ws_node s)) ! j = map sv_id (rn_subtasks (ws_node s)) ! k"
      using assms(2) that a by (auto simp: auto_holds_def)
    then show ?thesis using assms(1) nth_eq_iff_index_eq [of "map sv_id (rn_subtasks (ws_node s))" j k] by (simp add: unique_ids_def)
  qed
  then show ?thesis using assms(2) by blast
qed

lemma holds_grows:
  assumes g: "grows (ws_node s) (ws_node s')" and a: "ws_auto s' = ws_auto s" and u: "unique_ids (ws_node s')"
    and ne: "ws_auto s \<noteq> None \<longrightarrow> auto_holds s \<noteq> {}"
  shows "auto_holds s' = auto_holds s"
proof (cases "auto_holds s = {}")
  case True
  then have "ws_auto s = None" using ne by blast
  then show ?thesis using a by (simp add: auto_holds_def)
next
  case False
  then obtain k where k: "k \<in> auto_holds s" by blast
  then have k': "k \<in> auto_holds s'" using g a by (auto simp: auto_holds_def grows_def same_ids_def split: option.splits)
  obtain i p q where q: "ws_auto s = Some (i, p, q)" using k by (auto simp: auto_holds_def split: option.splits)
  have "j \<in> auto_holds s'" if "j \<in> auto_holds s" for j
    using that g a by (auto simp: auto_holds_def grows_def same_ids_def split: option.splits)
  then show ?thesis using holds_one [OF u k'] k by (metis empty_iff insertE subsetI subset_antisym singletonD insert_subset)
qed

lemma mine_commit_settles:
  "mine_commit k r nano now n = Ok n' \<Longrightarrow> \<exists>result. n' = settle k r result nano now n"
  by (auto simp: mine_commit_def settle_def Let_def mine_all_done_def done_all_def finished_def split: if_splits)

lemma auto_done_iff: "node_ok n \<Longrightarrow> auto_all_done parent (rn_subtasks n) = done_all parent (rn_subtasks n)"
  using node_okD(2) [of n] by (fastforce simp: auto_all_done_def done_all_def finished_def)

lemma auto_commit_settles:
  assumes "auto_commit i parent r nano now n = Ok n'" "find_subtask i (rn_subtasks n) = Some k" "node_ok n" "r \<noteq> Panic"
  shows "\<exists>result. n' = (if done_all parent (rn_subtasks (finish_subtask k r n))
     then complete_parent parent result nano now (finish_subtask k r n) else finish_subtask k r n)"
proof -
  have k: "k < length (rn_subtasks n)" using find_subtask_at(1) [OF assms(2)] by simp
  obtain x where x: "finish_subtask k r n = n\<lparr>rn_subtasks := (rn_subtasks n)[k := x]\<rparr>" "same_ids x (rn_subtasks n ! k)" "finished x"
    using finish_is_replace [OF assms(4)] .
  have "node_ok (finish_subtask k r n)" using replace_node_ok [OF assms(3) k x(2)] x(1,3) by simp
  from auto_done_iff [OF this] show ?thesis using assms(1,2) by (auto simp: auto_commit_def Let_def split: if_splits)
qed

lemma jobs_grow:
  assumes "web_ok s" "grows (ws_node s) n'" "k \<in> set (ws_jobs s)"
  shows "k < length (rn_subtasks n') \<and> sv_status (rn_subtasks n' ! k) \<noteq> ''Pending''"
proof -
  have "k < length (rn_subtasks (ws_node s))" "sv_status (rn_subtasks (ws_node s) ! k) \<noteq> ''Pending''"
    using assms(1,3) by (simp_all add: web_ok_def)
  then show ?thesis using assms(2) by (simp add: grows_def)
qed

text \<open>A step in which neither the claims nor the set of running subtasks change.\<close>

lemma web_ok_same_claims:
  assumes ok: "web_ok s" and n': "node_ok n'" and g: "grows (ws_node s) n'"
    and u: "unique_ids n' \<Longrightarrow> unique_ids (ws_node s) \<and> (node_exact (ws_node s) \<longrightarrow> node_exact n')"
    and run: "running n' = running (ws_node s)"
  shows "web_ok (s\<lparr>ws_node := n'\<rparr>)"
proof -
  have j: "\<forall>k \<in> set (ws_jobs s). k < length (rn_subtasks n') \<and> sv_status (rn_subtasks n' ! k) \<noteq> ''Pending''"
    using jobs_grow [OF ok g] by blast
  have "auto_holds (s\<lparr>ws_node := n'\<rparr>) = auto_holds s" if "unique_ids n'"
    using holds_grows [of s "s\<lparr>ws_node := n'\<rparr>"] g u [OF that] that ok by (simp add: web_ok_def)
  then show ?thesis using ok n' j u run unfolding web_ok_def by simp
qed

text \<open>A claim of a pending subtask, which goes to a job or to the automatic miner.\<close>

lemma claim_free:
  assumes "web_ok s" "sv_status (rn_subtasks (ws_node s) ! k) = ''Pending''" "k < length (rn_subtasks (ws_node s))"
  shows "k \<notin> set (ws_jobs s)" "unique_ids (ws_node s) \<Longrightarrow> k \<notin> auto_holds s"
proof -
  show "k \<notin> set (ws_jobs s)" using assms by (auto simp: web_ok_def)
  assume "unique_ids (ws_node s)"
  then have "auto_holds s \<subseteq> running (ws_node s)" using assms(1) by (auto simp: web_ok_def)
  then show "k \<notin> auto_holds s" using assms(2) by (auto simp: running_def)
qed

lemma running_grows: "grows n (set_running k n)"
  unfolding set_running_def
  by (rule grows_replace [where k = k and x = "(rn_subtasks n ! k)\<lparr>sv_status := ''Running''\<rparr>"]) (simp_all add: same_ids_def)

lemma web_ok_claim:
  assumes ok: "web_ok s" and c: "mine_claim i (ws_node s) = Some (k, n')"
  shows "web_ok (s\<lparr>ws_node := n', ws_jobs := k # ws_jobs s\<rparr>)"
proof -
  let ?n = "ws_node s"
  have k: "k < length (rn_subtasks ?n)" "sv_status (rn_subtasks ?n ! k) = ''Pending''" and n': "n' = set_running k ?n"
    using c find_claimable_at by (auto simp: mine_claim_def split: option.splits)
  have nok: "node_ok ?n" using ok by (simp add: web_ok_def)
  note st = start_keeps [OF nok k] and free = claim_free [OF ok k(2,1)]
  have g: "grows ?n n'" unfolding n' by (rule running_grows)
  have "sv_status (rn_subtasks n' ! k) \<noteq> ''Pending''" using k by (simp add: n' set_running_def)
  then have j: "\<forall>j \<in> insert k (set (ws_jobs s)). j < length (rn_subtasks n') \<and> sv_status (rn_subtasks n' ! j) \<noteq> ''Pending''"
    using jobs_grow [OF ok g] k(1) n' by (auto simp: set_running_def)
  let ?s = "s\<lparr>ws_node := n', ws_jobs := k # ws_jobs s\<rparr>"
  have "node_exact n' \<and> running n' = set (ws_jobs ?s) \<union> auto_holds ?s \<and> set (ws_jobs ?s) \<inter> auto_holds ?s = {}
      \<and> (ws_auto s \<noteq> None \<longrightarrow> auto_holds ?s \<noteq> {})" if u': "unique_ids n'"
  proof -
    have u: "unique_ids ?n" using u' st(2) n' by simp
    have b: "node_exact ?n" "running ?n = set (ws_jobs s) \<union> auto_holds s" "set (ws_jobs s) \<inter> auto_holds s = {}"
      "ws_auto s \<noteq> None \<longrightarrow> auto_holds s \<noteq> {}" using ok u by (auto simp only: web_ok_def)
    have h: "auto_holds ?s = auto_holds s" using holds_grows [of s ?s] g u' b(4) by simp
    show ?thesis using b st(3) [OF b(1)] st(4) free(2) [OF u] h n' by simp
  qed
  then show ?thesis using ok st(1) j free(1) n' unfolding web_ok_def by simp
qed

lemma web_ok_auto_claim:
  assumes ok: "web_ok s" and none: "ws_auto s = None" and c: "auto_claim (ws_node s) = Some (job, n')"
  shows "web_ok (s\<lparr>ws_node := n', ws_auto := Some job\<rparr>)"
proof -
  let ?n = "ws_node s"
  obtain k where f: "find_pending (rn_subtasks ?n) = Some k" using c by (auto simp: auto_claim_def split: option.splits)
  have k: "k < length (rn_subtasks ?n)" "sv_status (rn_subtasks ?n ! k) = ''Pending''" using find_pending_iff(1) [OF f] by blast+
  have n': "n' = set_running k ?n" and job: "job = (sv_id (rn_subtasks ?n ! k), sv_task_id (rn_subtasks ?n ! k), sv_prompt (rn_subtasks ?n ! k))"
    using c by (simp_all add: auto_claim_def f Let_def)
  have nok: "node_ok ?n" using ok by (simp add: web_ok_def)
  note st = start_keeps [OF nok k] and free = claim_free [OF ok k(2,1)]
  have g: "grows ?n n'" unfolding n' by (rule running_grows)
  have j: "\<forall>j \<in> set (ws_jobs s). j < length (rn_subtasks n') \<and> sv_status (rn_subtasks n' ! j) \<noteq> ''Pending''"
    using jobs_grow [OF ok g] by blast
  let ?s = "s\<lparr>ws_node := n', ws_auto := Some job\<rparr>"
  have hold: "k \<in> auto_holds ?s" using k(1) by (simp add: auto_holds_def job n' set_running_def)
  have empty: "auto_holds s = {}" by (simp add: auto_holds_def none)
  have "node_exact n' \<and> running n' = set (ws_jobs s) \<union> auto_holds ?s \<and> set (ws_jobs s) \<inter> auto_holds ?s = {}
      \<and> auto_holds ?s \<noteq> {}" if u': "unique_ids n'"
  proof -
    have u: "unique_ids ?n" using u' st(2) n' by simp
    have b: "node_exact ?n" "running ?n = set (ws_jobs s)" using ok u empty by (auto simp only: web_ok_def Un_empty_right)
    have h: "auto_holds ?s = {k}" using holds_one [OF _ hold] u' by simp
    show ?thesis using b st(3) [OF b(1)] st(4) free(1) h n' by simp
  qed
  then show ?thesis using ok st(1) j n' unfolding web_ok_def by simp
qed

lemma web_ok_mine_done:
  assumes ok: "web_ok s" and k: "k \<in> set (ws_jobs s)" and r: "r \<noteq> Panic" and c: "mine_commit k r nano now (ws_node s) = Ok n'"
  shows "web_ok (s\<lparr>ws_node := n', ws_jobs := remove1 k (ws_jobs s)\<rparr>)"
proof -
  let ?n = "ws_node s" and ?s = "s\<lparr>ws_node := n', ws_jobs := remove1 k (ws_jobs s)\<rparr>"
  obtain result where n': "n' = settle k r result nano now ?n" using mine_commit_settles [OF c] by blast
  have nok: "node_ok ?n" and kl: "k < length (rn_subtasks ?n)" and d: "distinct (ws_jobs s)" using ok k by (auto simp: web_ok_def)
  note st = settle_keeps [OF nok kl r, of result nano now]
  have g: "grows ?n n'" unfolding n' settle_def Let_def using finish_grows [OF r] record_grows by simp
  have j: "\<forall>j \<in> set (remove1 k (ws_jobs s)). j < length (rn_subtasks n') \<and> sv_status (rn_subtasks n' ! j) \<noteq> ''Pending''"
    using jobs_grow [OF ok g] notin_set_remove1 by metis
  have "node_exact n' \<and> running n' = set (remove1 k (ws_jobs s)) \<union> auto_holds ?s \<and> set (remove1 k (ws_jobs s)) \<inter> auto_holds ?s = {}
      \<and> (ws_auto s \<noteq> None \<longrightarrow> auto_holds ?s \<noteq> {})" if u': "unique_ids n'"
  proof -
    have u: "unique_ids ?n" using u' st(2) n' by simp
    have b: "node_exact ?n" "running ?n = set (ws_jobs s) \<union> auto_holds s" "set (ws_jobs s) \<inter> auto_holds s = {}"
      "ws_auto s \<noteq> None \<longrightarrow> auto_holds s \<noteq> {}" using ok u by (auto simp: web_ok_def)
    have "k \<in> running ?n" using b(2) k by blast
    then have "sv_status (rn_subtasks ?n ! k) = ''Running''" by (simp add: running_def)
    then have "node_exact n'" using st(4) u b(1) n' by simp
    moreover have "auto_holds ?s = auto_holds s" using holds_grows [of s ?s] g u' b(4) by simp
    moreover have "k \<notin> auto_holds s" using k b(3) by blast
    moreover have "set (remove1 k (ws_jobs s)) = set (ws_jobs s) - {k}" using d by simp
    ultimately show ?thesis using b st(3) n' by (simp add: Un_Diff) blast
  qed
  then show ?thesis using st(1) d j n' unfolding web_ok_def by simp
qed

lemma web_ok_auto_done:
  assumes ok: "web_ok s" and a: "ws_auto s = Some (i, parent, prompt)" and r: "r \<noteq> Panic"
    and c: "auto_commit i parent r nano now (ws_node s) = Ok n'"
  shows "web_ok (s\<lparr>ws_node := n', ws_auto := None\<rparr>)"
proof -
  let ?n = "ws_node s" and ?s = "s\<lparr>ws_node := n', ws_auto := None\<rparr>"
  have nok: "node_ok ?n" using ok by (simp add: web_ok_def)
  have holds: "auto_holds ?s = {}" by (simp add: auto_holds_def)
  show ?thesis
  proof (cases "find_subtask i (rn_subtasks ?n)")
    case None
    then have "n' = ?n" using c by (simp add: auto_commit_def)
    moreover have "\<not> unique_ids ?n"
    proof
      assume "unique_ids ?n"
      then have "auto_holds s \<noteq> {}" using ok a by (simp add: web_ok_def)
      then obtain k where "k < length (rn_subtasks ?n)" "sv_id (rn_subtasks ?n ! k) = i" by (auto simp: auto_holds_def a)
      then have "i \<in> sv_id ` set (rn_subtasks ?n)" using nth_mem by blast
      then show False using None find_subtask_at(2) by blast
    qed
    ultimately show ?thesis using ok unfolding web_ok_def by simp
  next
    case (Some k)
    have kl: "k < length (rn_subtasks ?n)" "sv_id (rn_subtasks ?n ! k) = i" using find_subtask_at(1) [OF Some] by blast+
    let ?f = "finish_subtask k r ?n"
    obtain result where n': "n' = (if done_all parent (rn_subtasks ?f) then complete_parent parent result nano now ?f else ?f)"
      using auto_commit_settles [OF c Some nok r] by blast
    obtain x where x: "?f = ?n\<lparr>rn_subtasks := (rn_subtasks ?n)[k := x]\<rparr>" "same_ids x (rn_subtasks ?n ! k)" "finished x"
      using finish_is_replace [OF r] .
    have fok: "node_ok ?f" using replace_node_ok [OF nok kl(1) x(2)] x(1,3) by simp
    then have ok': "node_ok n'" using record_node_ok n' by simp
    have u': "unique_ids n' = unique_ids ?n"
      using replace_unique [OF kl(1) x(2)] record_fields unfolding n' x(1) unique_ids_def by simp
    have g: "grows ?n n'" unfolding n' using finish_grows [OF r] record_grows by simp
    have j: "\<forall>j \<in> set (ws_jobs s). j < length (rn_subtasks n') \<and> sv_status (rn_subtasks n' ! j) \<noteq> ''Pending''"
      using jobs_grow [OF ok g] by blast
    have "node_exact n' \<and> running n' = set (ws_jobs s)" if u: "unique_ids ?n"
    proof -
      have b: "node_exact ?n" "running ?n = set (ws_jobs s) \<union> auto_holds s" "set (ws_jobs s) \<inter> auto_holds s = {}"
        "auto_holds s \<noteq> {}" using ok u a by (auto simp: web_ok_def)
      from b(4) obtain m where m: "m \<in> auto_holds s" by blast
      then have m': "m < length (rn_subtasks ?n)" "sv_id (rn_subtasks ?n ! m) = i" "sv_task_id (rn_subtasks ?n ! m) = parent"
        by (simp_all add: auto_holds_def a)
      have "find_subtask i (rn_subtasks ?n) = Some m" using find_subtask_unique [OF _ m'(1,2)] u by (simp add: unique_ids_def)
      with Some have mk: "m = k" by simp
      then have p: "sv_task_id (rn_subtasks ?n ! k) = parent" using m'(3) by simp
      have s: "n' = settle k r result nano now ?n" unfolding n' settle_def Let_def p ..
      have one: "auto_holds s = {k}" using holds_one [OF u m] mk by simp
      then have "k \<in> running ?n" using b(2) by blast
      then have "sv_status (rn_subtasks ?n ! k) = ''Running''" by (simp add: running_def)
      then show ?thesis
        using settle_keeps(3,4) [OF nok kl(1) r, of result nano now] u b one unfolding s by auto
    qed
    then show ?thesis using ok ok' u' j holds unfolding web_ok_def by simp
  qed
qed

lemma web_ok_init: "web_ok (web_init addr gpuName gpuCount vram ram models now)"
  by (simp add: web_ok_def web_init_def new_real_node_def Let_def node_ok_def node_exact_def running_def auto_holds_def)

lemma web_ok_step:
  assumes "web_step sha s s'" "web_ok s" shows "web_ok s'"
  using assms
proof cases
  case (publish meth i stamp now ans n')
  have nok: "node_ok (ws_node s)" using assms(2) by (simp add: web_ok_def)
  show ?thesis
  proof (cases "n' = ws_node s")
    case True
    then show ?thesis using publish(1) assms(2) by simp
  next
    case False
    let ?t = "published_task sha (rn_models (ws_node s)) i stamp now"
    have "n' = (ws_node s)\<lparr>rn_tasks := ?t # rn_tasks (ws_node s), rn_mempool := rn_mempool (ws_node s) + 1\<rparr>"
      using publish(2) False by (simp add: handle_publish_def Let_def split: if_splits)
    moreover have "tv_status ?t = ''Pending''" by (simp add: published_task_def)
    ultimately obtain t where t: "tv_status t = ''Pending''"
      "n' = (ws_node s)\<lparr>rn_tasks := t # rn_tasks (ws_node s), rn_mempool := rn_mempool (ws_node s) + 1\<rparr>" by blast
    have g: "grows (ws_node s) n'" using t(2) by (intro grows_same) simp
    have run: "running n' = running (ws_node s)" using t(2) by (simp add: running_def)
    show ?thesis using web_ok_same_claims [OF assms(2) publish_keeps(1) [OF nok t] g publish_keeps(2) [OF nok t] run] publish(1) by simp
  qed
next
  case (analyze found n')
  have nok: "node_ok (ws_node s)" using assms(2) by (simp add: web_ok_def)
  have n': "n' = (ws_node s)\<lparr>rn_tasks := map (analyzed sha) (rn_tasks (ws_node s)), rn_subtasks := rn_subtasks (ws_node s) @ new_subtasks sha (rn_tasks (ws_node s))\<rparr>"
    using analyze(2) by (simp add: analyzer_pass_def analyze_tasks_eq)
  have g: "grows (ws_node s) n'" by (rule grows_append) (simp add: n')
  show ?thesis using web_ok_same_claims [OF assms(2) analyze_keeps(1) [OF nok n'] g analyze_keeps(2) [OF nok n'] analyze_keeps(3) [OF nok n']] analyze(1) by simp
next
  case (viewers n' ws ls)
  have "web_ok (s\<lparr>ws_node := n'\<rparr>)"
    by (rule web_ok_same_claims [OF assms(2)])
      (use assms(2) viewers(2) in \<open>simp_all add: web_ok_def node_ok_def grows_same unique_ids_def node_exact_def running_def\<close>)
  then show ?thesis using viewers(1) by simp
qed (use assms(2) in \<open>auto intro: web_ok_claim web_ok_auto_claim web_ok_mine_done web_ok_auto_done\<close>)

lemma web_reach_ok: "web_reach sha s \<Longrightarrow> web_ok s"
  by (induction rule: web_reach.induct) (auto intro: web_ok_init web_ok_step)

section \<open>The automatic miner alone\<close>

text \<open>A round of the automatic miner, with the outcome of its inference, and the rounds of a list.\<close>

definition auto_round :: "(string, string) outcome \<times> nat \<times> string \<Rightarrow> real_node \<Rightarrow> (string, real_node) outcome" where
  "auto_round q n = (case auto_claim n of None \<Rightarrow> Ok n
     | Some ((i, parent, prompt), n1) \<Rightarrow> auto_commit i parent (fst q) (fst (snd q)) (snd (snd q)) n1)"

fun auto_rounds :: "((string, string) outcome \<times> nat \<times> string) list \<Rightarrow> real_node \<Rightarrow> (string, real_node) outcome" where
  "auto_rounds [] n = Ok n"
| "auto_rounds (q # qs) n = obind (auto_round q n) (auto_rounds qs)"

definition pending_count :: "real_node \<Rightarrow> nat" where
  "pending_count n = length (filter (\<lambda>s. sv_status s = ''Pending'') (rn_subtasks n))"

lemma filter_drop_one: "k < length xs \<Longrightarrow> P (xs ! k) \<Longrightarrow> \<not> P x \<Longrightarrow> length (filter P (xs[k := x])) = length (filter P xs) - 1"
proof (induction xs arbitrary: k)
  case (Cons y ys)
  show ?case
  proof (cases k)
    case (Suc j)
    then have "0 < length (filter P ys)" using Cons.prems by (auto simp: filter_empty_conv intro!: bexI [of _ "ys ! j"])
    then show ?thesis using Cons Suc by auto
  qed (use Cons.prems in auto)
qed simp

lemma hex64_long: "64 \<le> length (hex64 n)"
  by (simp add: hex64_def)

lemma auto_commit_total: "\<exists>n'. auto_commit i parent r nano now n = Ok n'"
  using hex64_long [of nano] by (cases "find_subtask i (rn_subtasks n)") (auto simp: auto_commit_def Let_def)

definition idle :: "web_state \<Rightarrow> bool" where
  "idle s \<longleftrightarrow> ws_jobs s = [] \<and> ws_auto s = None"

lemma record_status:
  "\<forall>t \<in> set (rn_tasks n). tv_status t \<noteq> ''Pending'' \<Longrightarrow> \<forall>t \<in> set (rn_tasks (complete_parent parent result nano now n)). tv_status t \<noteq> ''Pending''"
  using close_task_status by (fastforce simp: complete_parent_def split: option.splits)

lemma auto_round_ok:
  assumes ok: "web_ok s" and idle: "idle s" and u: "unique_ids (ws_node s)" and r: "fst q \<noteq> Panic"
    and np: "\<forall>t \<in> set (rn_tasks (ws_node s)). tv_status t \<noteq> ''Pending''"
  shows "\<exists>n'. auto_round q (ws_node s) = Ok n' \<and> web_ok (s\<lparr>ws_node := n'\<rparr>) \<and> unique_ids n'
    \<and> pending_count n' = pending_count (ws_node s) - 1 \<and> (\<forall>t \<in> set (rn_tasks n'). tv_status t \<noteq> ''Pending'')
    \<and> map tv_id (rn_tasks n') = map tv_id (rn_tasks (ws_node s))"
proof (cases "find_pending (rn_subtasks (ws_node s))")
  case None
  then have "pending_count (ws_node s) = 0" using find_pending_iff(2) by (auto simp: pending_count_def filter_empty_conv)
  then show ?thesis using None ok u np by (simp add: auto_round_def auto_claim_def)
next
  case (Some k)
  let ?n = "ws_node s" and ?m = "set_running k (ws_node s)"
  let ?job = "(sv_id (rn_subtasks ?n ! k), sv_task_id (rn_subtasks ?n ! k), sv_prompt (rn_subtasks ?n ! k))"
  have k: "k < length (rn_subtasks ?n)" "sv_status (rn_subtasks ?n ! k) = ''Pending''" using find_pending_iff(1) [OF Some] by blast+
  have c: "auto_claim ?n = Some (?job, ?m)" by (simp add: auto_claim_def Some Let_def)
  have none: "ws_auto s = None" using idle by (simp add: idle_def)
  let ?s1 = "s\<lparr>ws_node := ?m, ws_auto := Some ?job\<rparr>"
  have ok1: "web_ok ?s1" by (rule web_ok_auto_claim [OF ok none c])
  obtain rr nano now where q: "q = (rr, nano, now)" by (cases q)
  obtain n' where n': "auto_commit (sv_id (rn_subtasks ?n ! k)) (sv_task_id (rn_subtasks ?n ! k)) rr nano now ?m = Ok n'"
    using auto_commit_total by blast
  have rr: "rr \<noteq> Panic" using r q by simp
  have "web_ok (?s1\<lparr>ws_node := n', ws_auto := None\<rparr>)"
    using web_ok_auto_done [OF ok1, of "sv_id (rn_subtasks ?n ! k)" "sv_task_id (rn_subtasks ?n ! k)" "sv_prompt (rn_subtasks ?n ! k)" rr nano now n'] n' rr by simp
  moreover have "?s1\<lparr>ws_node := n', ws_auto := None\<rparr> = s\<lparr>ws_node := n'\<rparr>" using none by (cases s) simp
  ultimately have ok': "web_ok (s\<lparr>ws_node := n'\<rparr>)" by simp
  have mok: "node_ok ?m" using ok1 by (simp add: web_ok_def)
  have mu: "unique_ids ?m" using start_keeps(2) [OF _ k] ok u by (simp add: web_ok_def)
  have mk: "k < length (rn_subtasks ?m)" "sv_id (rn_subtasks ?m ! k) = sv_id (rn_subtasks ?n ! k)" using k(1) by (simp_all add: set_running_def)
  have find: "find_subtask (sv_id (rn_subtasks ?n ! k)) (rn_subtasks ?m) = Some k"
    using find_subtask_unique [OF _ mk] mu by (simp add: unique_ids_def)
  let ?f = "finish_subtask k rr ?m"
  obtain result where f: "n' = (if done_all (sv_task_id (rn_subtasks ?n ! k)) (rn_subtasks ?f)
      then complete_parent (sv_task_id (rn_subtasks ?n ! k)) result nano now ?f else ?f)"
    using auto_commit_settles [OF n' find mok rr] by blast
  obtain x where x: "?f = ?m\<lparr>rn_subtasks := (rn_subtasks ?m)[k := x]\<rparr>" "same_ids x (rn_subtasks ?m ! k)" "finished x"
    using finish_is_replace [OF rr] .
  have subs: "rn_subtasks n' = (rn_subtasks ?n)[k := x]" using f record_fields(1) x(1) by (simp add: set_running_def)
  have "sv_status x \<noteq> ''Pending''" using x(3) by (auto simp: finished_def)
  then have p: "pending_count n' = pending_count ?n - 1"
    unfolding pending_count_def subs using k by (intro filter_drop_one) simp_all
  have tasks: "rn_tasks ?f = rn_tasks ?n" using x(1) by (simp add: set_running_def)
  then have ids: "map tv_id (rn_tasks n') = map tv_id (rn_tasks ?n)" using f record_fields(2) by simp
  have "map sv_id (rn_subtasks n') = map sv_id (rn_subtasks ?n)"
    unfolding subs using k(1) x(2) mk(2) by (intro map_update_same) (simp_all add: same_ids_def)
  then have u': "unique_ids n'" using u ids by (simp add: unique_ids_def)
  have np': "\<forall>t \<in> set (rn_tasks n'). tv_status t \<noteq> ''Pending''"
    using f record_status [of ?f] np tasks by (cases "done_all (sv_task_id (rn_subtasks ?n ! k)) (rn_subtasks ?f)") simp_all
  have "auto_round q ?n = Ok n'" by (simp add: auto_round_def c q n')
  then show ?thesis using ok' u' p np' ids by blast
qed

lemma auto_rounds_ok:
  assumes "web_ok s" "idle s" "unique_ids (ws_node s)" "\<forall>q \<in> set qs. fst q \<noteq> Panic"
    "\<forall>t \<in> set (rn_tasks (ws_node s)). tv_status t \<noteq> ''Pending''" "pending_count (ws_node s) \<le> length qs"
  shows "\<exists>n'. auto_rounds qs (ws_node s) = Ok n' \<and> web_ok (s\<lparr>ws_node := n'\<rparr>) \<and> unique_ids n' \<and> pending_count n' = 0
    \<and> (\<forall>t \<in> set (rn_tasks n'). tv_status t \<noteq> ''Pending'') \<and> map tv_id (rn_tasks n') = map tv_id (rn_tasks (ws_node s))"
  using assms
proof (induction qs arbitrary: s)
  case Nil
  then show ?case by simp
next
  case (Cons q qs)
  obtain n1 where n1: "auto_round q (ws_node s) = Ok n1" "web_ok (s\<lparr>ws_node := n1\<rparr>)" "unique_ids n1"
    "pending_count n1 = pending_count (ws_node s) - 1" "\<forall>t \<in> set (rn_tasks n1). tv_status t \<noteq> ''Pending''"
    "map tv_id (rn_tasks n1) = map tv_id (rn_tasks (ws_node s))"
    using auto_round_ok [OF Cons.prems(1,2,3) _ Cons.prems(5), of q] Cons.prems(4) by auto
  have "idle (s\<lparr>ws_node := n1\<rparr>)" "pending_count n1 \<le> length qs" using Cons.prems(2,6) n1(4) by (simp_all add: idle_def)
  then show ?case using Cons.IH [of "s\<lparr>ws_node := n1\<rparr>"] n1 Cons.prems(4) by simp
qed

lemma drained:
  assumes ok: "web_ok s" and idle: "idle s" and u: "unique_ids (ws_node s)" and p: "pending_count (ws_node s) = 0"
    and np: "\<forall>t \<in> set (rn_tasks (ws_node s)). tv_status t \<noteq> ''Pending''"
  shows "(\<forall>t \<in> set (rn_tasks (ws_node s)). tv_status t = ''Completed'') \<and> rn_mempool (ws_node s) = 0"
proof -
  let ?n = "ws_node s"
  have nok: "node_ok ?n" and ex: "node_exact ?n" and run: "running ?n = {}"
    using ok u idle by (auto simp: web_ok_def idle_def auto_holds_def)
  have "finished x" if x: "x \<in> set (rn_subtasks ?n)" for x
  proof -
    have "sv_status x \<noteq> ''Pending''" using p x by (auto simp: pending_count_def filter_empty_conv)
    moreover have "sv_status x \<noteq> ''Running''" using run x by (auto simp: running_def in_set_conv_nth)
    ultimately show ?thesis using node_okD(2) [OF nok x] by blast
  qed
  then have "tv_status t \<noteq> ''Mining''" if "t \<in> set (rn_tasks ?n)" for t
    using ex that by (auto simp: node_exact_def task_exact_def)
  then have all: "\<forall>t \<in> set (rn_tasks ?n). tv_status t = ''Completed''" using np node_okD(3) [OF nok] by blast
  then have "filter (\<lambda>t. tv_status t \<noteq> ''Completed'') (rn_tasks ?n) = []" by (simp add: filter_empty_conv)
  then show ?thesis using all ex by (simp add: node_exact_def)
qed

section \<open>Properties\<close>

text \<open>C21: Whatever the threads do, as long as no two tasks and no two subtasks have the same id, a task is completed
  only when all its subtasks have finished, and has at least one; each completed task has exactly one transaction;
  there is one block for each transaction besides the first block, in order of height; and the mempool counts the
  tasks that are not completed.\<close>

theorem web_accounting:
  assumes "web_reach sha s" "n = ws_node s" "distinct (map tv_id (rn_tasks n))" "distinct (map sv_id (rn_subtasks n))"
  shows "(\<forall>t \<in> set (rn_tasks n). tv_status t = ''Completed'' \<longrightarrow> tv_subtasks t \<noteq> []
        \<and> tv_subtasks t = filter_subtasks (tv_id t) (rn_subtasks n) \<and> (\<forall>x \<in> set (tv_subtasks t). sv_status x = ''Completed'' \<or> sv_status x = ''Failed''))
    \<and> distinct (map xv_hash (rn_txs n)) \<and> set (map xv_hash (rn_txs n)) = tv_id ` {t \<in> set (rn_tasks n). tv_status t = ''Completed''}
    \<and> length (rn_blocks n) = 1 + length (filter (\<lambda>t. tv_status t = ''Completed'') (rn_tasks n))
    \<and> map bv_height (rn_blocks n) = map word_of_nat [0..<length (rn_blocks n)]
    \<and> rn_mempool n = int (length (filter (\<lambda>t. tv_status t \<noteq> ''Completed'') (rn_tasks n)))"
proof -
  have ok: "web_ok s" by (rule web_reach_ok [OF assms(1)])
  have u: "unique_ids n" using assms(3,4) by (simp add: unique_ids_def)
  have nok: "node_ok n" and ex: "node_exact n" using ok u assms(2) by (auto simp: web_ok_def)
  have sub: "tv_subtasks t \<noteq> [] \<and> tv_subtasks t = filter_subtasks (tv_id t) (rn_subtasks n) \<and> (\<forall>x \<in> set (tv_subtasks t). sv_status x = ''Completed'' \<or> sv_status x = ''Failed'')"
    if "t \<in> set (rn_tasks n)" "tv_status t = ''Completed''" for t
    using ex that by (auto simp: node_exact_def task_exact_def filter_subtasks_def finished_def)
  have "length (rn_txs n) = card (set (map xv_hash (rn_txs n)))" using ex distinct_card [of "map xv_hash (rn_txs n)"] by (simp add: node_exact_def)
  also have "\<dots> = card (tv_id ` {t \<in> set (rn_tasks n). tv_status t = ''Completed''})" using ex by (simp add: node_exact_def)
  also have "\<dots> = card (set (map tv_id (filter (\<lambda>t. tv_status t = ''Completed'') (rn_tasks n))))" by simp
  also have "\<dots> = length (filter (\<lambda>t. tv_status t = ''Completed'') (rn_tasks n))"
    using assms(3) distinct_card [of "map tv_id (filter (\<lambda>t. tv_status t = ''Completed'') (rn_tasks n))"] by (simp add: distinct_map_filter)
  finally have len: "length (rn_txs n) = length (filter (\<lambda>t. tv_status t = ''Completed'') (rn_tasks n))" .
  have h: "length (rn_blocks n) = Suc (length (rn_txs n))" "map bv_height (rn_blocks n) = map word_of_nat [0..<length (rn_blocks n)]"
    using nok by (simp_all only: node_ok_def)
  have e: "distinct (map xv_hash (rn_txs n))" "set (map xv_hash (rn_txs n)) = tv_id ` {t \<in> set (rn_tasks n). tv_status t = ''Completed''}"
    "rn_mempool n = int (length (filter (\<lambda>t. tv_status t \<noteq> ''Completed'') (rn_tasks n)))"
    using ex by (simp_all only: node_exact_def)
  have "length (rn_blocks n) = 1 + length (filter (\<lambda>t. tv_status t = ''Completed'') (rn_tasks n))" using len h(1) by simp
  then show ?thesis using sub h(2) e by blast
qed

text \<open>C23: A subtask is worked on by one thread at a time: the running subtasks are exactly those that the calls of
  \<open>handleMine\<close> and the automatic miner hold, no two of the calls hold the same one, and none of them holds that of
  the automatic miner.\<close>

theorem web_exclusive:
  assumes "web_reach sha s" "distinct (map tv_id (rn_tasks (ws_node s)))" "distinct (map sv_id (rn_subtasks (ws_node s)))"
  shows "distinct (ws_jobs s) \<and> (\<forall>k < length (rn_subtasks (ws_node s)). sv_status (rn_subtasks (ws_node s) ! k) = ''Running'' \<longleftrightarrow>
      (k \<in> set (ws_jobs s)) \<noteq> (\<exists>q. ws_auto s = Some (sv_id (rn_subtasks (ws_node s) ! k), sv_task_id (rn_subtasks (ws_node s) ! k), q)))"
proof -
  have ok: "web_ok s" by (rule web_reach_ok [OF assms(1)])
  have "unique_ids (ws_node s)" using assms(2,3) by (simp add: unique_ids_def)
  then have b: "distinct (ws_jobs s)" "running (ws_node s) = set (ws_jobs s) \<union> auto_holds s" "set (ws_jobs s) \<inter> auto_holds s = {}"
    using ok by (simp_all only: web_ok_def)
  have h: "k \<in> auto_holds s \<longleftrightarrow> (\<exists>q. ws_auto s = Some (sv_id (rn_subtasks (ws_node s) ! k), sv_task_id (rn_subtasks (ws_node s) ! k), q))"
    if "k < length (rn_subtasks (ws_node s))" for k
    using that by (auto simp: auto_holds_def split: option.splits)
  have r: "sv_status (rn_subtasks (ws_node s) ! k) = ''Running'' \<longleftrightarrow> k \<in> running (ws_node s)" if "k < length (rn_subtasks (ws_node s))" for k
    using that by (simp add: running_def)
  show ?thesis using b h r by blast
qed

text \<open>C22: Once nobody is mining, a pass of the analyzer and as many rounds of the automatic miner as subtasks are then
  pending complete every task that has been published, whatever comes of the inferences, errors included; nothing
  panics, and the mempool is empty.\<close>

theorem web_drains:
  assumes "web_reach sha s" "ws_jobs s = []" "ws_auto s = None" "analyzer_pass sha (ws_node s) = (found, n)"
    "distinct (map tv_id (rn_tasks n))" "distinct (map sv_id (rn_subtasks n))"
    "length (filter (\<lambda>x. sv_status x = ''Pending'') (rn_subtasks n)) \<le> length qs" "\<forall>q \<in> set qs. fst q \<noteq> Panic"
  shows "\<exists>n'. auto_rounds qs n = Ok n' \<and> (\<forall>t \<in> set (rn_tasks n'). tv_status t = ''Completed'') \<and> rn_mempool n' = 0
    \<and> map tv_id (rn_tasks n') = map tv_id (rn_tasks (ws_node s))"
proof -
  let ?s = "s\<lparr>ws_node := n\<rparr>"
  have ok: "web_ok ?s" using web_ok_step [OF web_step.analyze [OF assms(4)] web_reach_ok [OF assms(1)]] .
  have idle: "idle ?s" using assms(2,3) by (simp add: idle_def)
  have u: "unique_ids (ws_node ?s)" using assms(5,6) by (simp add: unique_ids_def)
  have n: "rn_tasks n = map (analyzed sha) (rn_tasks (ws_node s))" using assms(4) by (auto simp: analyzer_pass_def analyze_tasks_eq)
  have np: "\<forall>t \<in> set (rn_tasks (ws_node ?s)). tv_status t \<noteq> ''Pending''" by (simp add: n)
  obtain n' where n': "auto_rounds qs n = Ok n'" "web_ok (?s\<lparr>ws_node := n'\<rparr>)" "unique_ids n'" "pending_count n' = 0"
    "\<forall>t \<in> set (rn_tasks n'). tv_status t \<noteq> ''Pending''" "map tv_id (rn_tasks n') = map tv_id (rn_tasks n)"
    using auto_rounds_ok [OF ok idle u assms(8) np] assms(7) by (auto simp: pending_count_def)
  have "idle (?s\<lparr>ws_node := n'\<rparr>)" using idle by (simp add: idle_def)
  from drained [OF n'(2) this] n'(3,4,5) have "(\<forall>t \<in> set (rn_tasks n'). tv_status t = ''Completed'') \<and> rn_mempool n' = 0" by simp
  then show ?thesis using n'(1,6) n by (simp add: comp_def)
qed

section \<open>The text of a split\<close>

text \<open>The text of a prompt without blanks and question marks.\<close>

definition ink :: "string \<Rightarrow> string" where
  "ink s = filter (\<lambda>c. \<not> is_blank c \<and> c \<noteq> CHR ''?'') s"

lemma ink_append [simp]: "ink (s @ t) = ink s @ ink t"
  by (simp add: ink_def)

lemma ink_drop: "ink (dropWhile is_blank s) = ink s"
  by (induction s) (auto simp: ink_def)

lemma ink_rev: "ink (rev s) = rev (ink s)"
  by (simp add: ink_def rev_filter)

lemma ink_trim [simp]: "ink (trim_space s) = ink s"
  by (simp add: trim_space_def trim_right_def trim_left_def ink_rev ink_drop)

lemma ink_split: "concat (map ink (split_on CHR ''?'' s)) = ink s"
proof (induction s)
  case (Cons c s)
  then show ?case by (cases "split_on CHR ''?'' s") (auto simp: ink_def)
qed (simp add: ink_def)

lemma ink_parts: "concat (map (\<lambda>p. ink (p @ ''?'')) (trimmed_parts parts)) = concat (map ink parts)"
proof (induction parts)
  case (Cons p parts)
  have "ink p = []" if "trim_space p = []" using ink_trim [of p] that by (simp add: ink_def)
  then show ?case using Cons by (simp add: trimmed_parts_def) (simp add: ink_def)
qed (simp add: trimmed_parts_def)

lemma no_keyword: "\<forall>kw \<in> set kws. \<not> contains_text s kw \<Longrightarrow> split_keywords kws s = []"
  by (induction kws) auto

lemma split_prompts:
  "map sv_prompt (split_task sha t) = (if 2 \<le> length (detect_multi_questions (tv_prompt t)) then detect_multi_questions (tv_prompt t) else [tv_prompt t])"
  by (auto simp: split_task_def Let_def intro: nth_equalityI)

text \<open>The subtasks of a task are numbered from zero, and where the prompt has none of the connecting words their
  prompts together are the prompt: nothing but blanks and question marks is dropped or added.\<close>

theorem split_keeps_text:
  assumes "\<forall>kw \<in> {''. Also '', ''. Then '', ''. Additionally '', ''. Next '', ''. Finally ''}. \<not> contains_text (tv_prompt t) kw"
  shows "map sv_index (split_task sha t) = [0..<length (split_task sha t)]
    \<and> concat (map (\<lambda>s. filter (\<lambda>c. \<not> is_blank c \<and> c \<noteq> CHR ''?'') (sv_prompt s)) (split_task sha t))
      = filter (\<lambda>c. \<not> is_blank c \<and> c \<noteq> CHR ''?'') (tv_prompt t)"
proof
  show "map sv_index (split_task sha t) = [0..<length (split_task sha t)]"
    by (simp add: split_task_def Let_def comp_def)
  have k: "split_keywords [''. Also '', ''. Then '', ''. Additionally '', ''. Next '', ''. Finally ''] (tv_prompt t) = []"
    using assms by (intro no_keyword) simp
  have "concat (map (\<lambda>p. ink (p @ ''?'')) (trimmed_parts (split_on CHR ''?'' (tv_prompt t)))) = ink (tv_prompt t)"
    using ink_parts [of "split_on CHR ''?'' (tv_prompt t)"] ink_split by simp
  then have "concat (map ink (map sv_prompt (split_task sha t))) = ink (tv_prompt t)"
    unfolding split_prompts detect_multi_questions_def Let_def k by (simp add: comp_def)
  then show "concat (map (\<lambda>s. filter (\<lambda>c. \<not> is_blank c \<and> c \<noteq> CHR ''?'') (sv_prompt s)) (split_task sha t))
      = filter (\<lambda>c. \<not> is_blank c \<and> c \<noteq> CHR ''?'') (tv_prompt t)"
    by (simp add: ink_def comp_def)
qed

section \<open>No panic under the lock\<close>

definition long_ids :: "real_node \<Rightarrow> bool" where
  "long_ids n \<longleftrightarrow> (\<forall>t \<in> set (rn_tasks n). length (tv_id t) = 24) \<and> (\<forall>x \<in> set (rn_subtasks n). length (sv_id x) = 20)"

lemma split_ids_long: "(\<And>b. length (sha b) = 32) \<Longrightarrow> x \<in> set (split_task sha t) \<Longrightarrow> length (sv_id x) = 20"
  by (auto simp: split_task_def Let_def web_subtask_id_def split: if_splits)

lemma long_replace: "long_ids n \<Longrightarrow> k < length (rn_subtasks n) \<Longrightarrow> same_ids x (rn_subtasks n ! k) \<Longrightarrow> long_ids (n\<lparr>rn_subtasks := (rn_subtasks n)[k := x]\<rparr>)"
  using set_update_subset_insert [of "rn_subtasks n" k x] by (auto simp: long_ids_def same_ids_def)

lemma long_record: "long_ids n \<Longrightarrow> long_ids (complete_parent parent result nano now n)"
proof -
  assume l: "long_ids n"
  let ?n = "complete_parent parent result nano now n"
  have "\<forall>i \<in> set (map tv_id (rn_tasks ?n)). length i = 24" using l unfolding record_fields(2) by (simp add: long_ids_def)
  then show ?thesis using l by (simp add: long_ids_def record_fields(1))
qed

lemma long_finish:
  assumes "long_ids n" "k < length (rn_subtasks n)" "r \<noteq> Panic" shows "long_ids (finish_subtask k r n)"
proof -
  obtain x where x: "finish_subtask k r n = n\<lparr>rn_subtasks := (rn_subtasks n)[k := x]\<rparr>" "same_ids x (rn_subtasks n ! k)" "finished x"
    using finish_is_replace [OF assms(3)] .
  then show ?thesis using long_replace [OF assms(1,2) x(2)] by simp
qed

lemma long_running: "long_ids n \<Longrightarrow> k < length (rn_subtasks n) \<Longrightarrow> long_ids (set_running k n)"
  unfolding set_running_def by (rule long_replace) (simp_all add: same_ids_def)

lemma long_ids_step:
  assumes sha: "\<And>b. length (sha b) = 32" and st: "web_step sha s s'" and ok: "web_ok s" and l: "long_ids (ws_node s)"
  shows "long_ids (ws_node s')"
  using st
proof cases
  case (publish meth i stamp now ans n')
  then show ?thesis using l sha
    by (auto simp: handle_publish_def Let_def published_task_def task_id_for_def long_ids_def split: if_splits)
next
  case (analyze found n')
  then show ?thesis using l split_ids_long [OF sha]
    by (auto simp: analyzer_pass_def analyze_tasks_eq long_ids_def new_subtask)
next
  case (claim i k n')
  then show ?thesis using long_running [OF l] find_claimable_at by (auto simp: mine_claim_def split: option.splits)
next
  case (auto_claimed job n')
  then show ?thesis using long_running [OF l] find_pending_iff(1) by (auto simp: auto_claim_def Let_def split: option.splits)
next
  case (mine_done k r nano now n')
  have "k < length (rn_subtasks (ws_node s))" using ok mine_done(2) by (simp add: web_ok_def)
  then show ?thesis using mine_commit_settles [OF mine_done(4)] mine_done(1,3) long_finish [OF l] long_record
    by (auto simp: settle_def Let_def)
next
  case (auto_done i parent prompt r nano now n')
  show ?thesis
  proof (cases "find_subtask i (rn_subtasks (ws_node s))")
    case None
    then show ?thesis using auto_done l by (simp add: auto_commit_def)
  next
    case (Some k)
    have "k < length (rn_subtasks (ws_node s))" using find_subtask_at(1) [OF Some] by simp
    then have f: "long_ids (finish_subtask k r (ws_node s))" by (rule long_finish [OF l _ auto_done(3)])
    have "node_ok (ws_node s)" using ok by (simp add: web_ok_def)
    then show ?thesis using auto_commit_settles [OF auto_done(4) Some _ auto_done(3)] auto_done(1) f long_record by auto
  qed
next
  case (viewers n' ws ls)
  then show ?thesis using l by (simp add: long_ids_def)
qed

lemma long_ids_reach:
  assumes "web_reach sha s" "\<And>b. length (sha b) = 32"
  shows "long_ids (ws_node s)"
  using assms(1)
proof induction
  case (init addr gpuName gpuCount vram ram models now)
  then show ?case by (simp add: web_init_def new_real_node_def Let_def long_ids_def)
next
  case (step s s')
  then show ?case using long_ids_step [where sha = sha] assms(2) web_reach_ok by simp
qed

text \<open>With a hash of 32 bytes, no commit of a subtask panics: the node's lock, which the handlers release
  without a defer, is never lost.\<close>

theorem web_commit_total:
  assumes "web_reach sha s" "\<forall>b. length (sha b) = 32" "k \<in> set (ws_jobs s)"
  shows "\<exists>n'. mine_commit k r nano now (ws_node s) = Ok n'"
proof -
  have l: "long_ids (ws_node s)" using long_ids_reach assms(1,2) by blast
  then have "\<not> length (tv_id t) < 12" if "t \<in> set (rn_tasks (ws_node s))" for t using that by (auto simp: long_ids_def)
  moreover have "rn_tasks (finish_subtask k r (ws_node s)) = rn_tasks (ws_node s)" by (simp add: finish_subtask_def)
  ultimately show ?thesis by (simp add: mine_commit_def Let_def) metis
qed

section \<open>Witnesses\<close>

text \<open>A task of two questions, the second of which is answered with an error.\<close>

definition sample_sha :: "byte list \<Rightarrow> hash" where
  "sample_sha bs = take 32 (rev bs @ replicate 32 0)"

definition sample_input :: publish_input where
  "sample_input = \<lparr>pi_model = '''', pi_prompt = ''What is Go? Who made it?'', pi_tier = ''2'', pi_fee = ''5'', pi_creator = ''''\<rparr>"

definition sample_start :: web_state where
  "sample_start = web_init (replicate 20 1) ''CPU-only'' 1 0 0 [''qwen''] ''10:00:00''"

definition sample_web :: web_state where
  "sample_web = sample_start\<lparr>ws_node := snd (handle_publish sample_sha ''POST'' sample_input ''noon'' ''12:00:00'' (ws_node sample_start))\<rparr>"

lemma sample_web_reach: "web_reach sample_sha sample_web"
proof -
  have "web_reach sample_sha sample_start" unfolding sample_start_def by (rule web_reach.init)
  moreover obtain ans n' where n': "handle_publish sample_sha ''POST'' sample_input ''noon'' ''12:00:00'' (ws_node sample_start) = (ans, n')"
    by fastforce
  moreover have "sample_web = sample_start\<lparr>ws_node := n'\<rparr>" using n' by (simp add: sample_web_def)
  ultimately show ?thesis using web_reach.step web_step.publish by metis
qed

definition sample_mined :: web_state where
  "sample_mined = sample_web\<lparr>ws_node := snd (analyzer_pass sample_sha (ws_node sample_web))\<rparr>"

lemma sample_mined_reach: "web_reach sample_sha sample_mined"
  unfolding sample_mined_def
  by (rule web_reach.step [OF sample_web_reach web_step.analyze [where found = "fst (analyzer_pass sample_sha (ws_node sample_web))"]]) simp

lemma sample_mined_ids: "distinct (map tv_id (rn_tasks (ws_node sample_mined)))" "distinct (map sv_id (rn_subtasks (ws_node sample_mined)))"
  "length (rn_subtasks (ws_node sample_mined)) = 2"
  by code_simp+

theorem split_keeps_text_witness:
  "concat (map (\<lambda>s. filter (\<lambda>c. \<not> is_blank c \<and> c \<noteq> CHR ''?'') (sv_prompt s))
     (split_task sample_sha (published_task sample_sha [] sample_input ''noon'' ''12:00:00''))) = ''WhatisGoWhomadeit''"
proof -
  let ?t = "published_task sample_sha [] sample_input ''noon'' ''12:00:00''"
  have p: "tv_prompt ?t = ''What is Go? Who made it?''" by (simp add: published_task_def sample_input_def)
  have "filter (\<lambda>c. \<not> is_blank c \<and> c \<noteq> CHR ''?'') ''What is Go? Who made it?'' = ''WhatisGoWhomadeit''" by code_simp
  moreover have "\<forall>kw \<in> {''. Also '', ''. Then '', ''. Additionally '', ''. Next '', ''. Finally ''}. \<not> contains_text (tv_prompt ?t) kw"
    unfolding p by code_simp
  ultimately show ?thesis using split_keeps_text [of ?t sample_sha] p by simp
qed

theorem web_exclusive_witness:
  "\<exists>job n'. auto_claim (ws_node sample_mined) = Some (job, n') \<and> map sv_status (rn_subtasks n') = [''Running'', ''Pending'']
     \<and> distinct (ws_jobs (sample_mined\<lparr>ws_node := n', ws_auto := Some job\<rparr>))"
proof -
  have "(case auto_claim (ws_node sample_mined) of None \<Rightarrow> False | Some (job, n') \<Rightarrow> map sv_status (rn_subtasks n') = [''Running'', ''Pending'']
      \<and> distinct (map tv_id (rn_tasks n')) \<and> distinct (map sv_id (rn_subtasks n')))" by code_simp
  then obtain job n' where n': "auto_claim (ws_node sample_mined) = Some (job, n')" "map sv_status (rn_subtasks n') = [''Running'', ''Pending'']"
    "distinct (map tv_id (rn_tasks n'))" "distinct (map sv_id (rn_subtasks n'))" by (auto split: option.splits)
  have a: "ws_auto sample_mined = None" by (simp add: sample_mined_def sample_web_def sample_start_def web_init_def)
  have "web_reach sample_sha (sample_mined\<lparr>ws_node := n', ws_auto := Some job\<rparr>)"
    by (rule web_reach.step [OF sample_mined_reach web_step.auto_claimed [OF a n'(1)]])
  from web_exclusive [OF this] n'(3,4) have "distinct (ws_jobs (sample_mined\<lparr>ws_node := n', ws_auto := Some job\<rparr>))" by simp
  with n'(1,2) show ?thesis by (intro exI [of _ job] exI [of _ n'] conjI)
qed

theorem web_drains_witness:
  "\<exists>n'. auto_rounds [(Ok ''a language'', 1, ''12:00:05''), (Err ''timeout'', 2, ''12:00:09'')] (snd (analyzer_pass sample_sha (ws_node sample_web))) = Ok n'
     \<and> map tv_status (rn_tasks n') = [''Completed''] \<and> rn_mempool n' = 0"
proof -
  let ?n = "snd (analyzer_pass sample_sha (ws_node sample_web))" and ?qs = "[(Ok ''a language'', 1, ''12:00:05''), (Err ''timeout'', 2, ''12:00:09'')]"
  have n: "ws_node sample_mined = ?n" by (simp add: sample_mined_def)
  have p: "analyzer_pass sample_sha (ws_node sample_web) = (fst (analyzer_pass sample_sha (ws_node sample_web)), ?n)" by simp
  have w: "ws_jobs sample_web = []" "ws_auto sample_web = None" by (simp_all add: sample_web_def sample_start_def web_init_def)
  have l: "length (filter (\<lambda>x. sv_status x = ''Pending'') (rn_subtasks ?n)) \<le> length ?qs"
  proof -
    have "length (rn_subtasks ?n) = length ?qs" using sample_mined_ids(3) unfolding n by simp
    then show ?thesis by (metis length_filter_le)
  qed
  obtain n' where n': "auto_rounds ?qs ?n = Ok n'" "\<forall>t \<in> set (rn_tasks n'). tv_status t = ''Completed''" "rn_mempool n' = 0"
    "map tv_id (rn_tasks n') = map tv_id (rn_tasks (ws_node sample_web))"
    using web_drains [OF sample_web_reach w p _ _ l] sample_mined_ids(1,2) n by auto
  have "length (rn_tasks (ws_node sample_web)) = 1" by code_simp
  then have "length (rn_tasks n') = 1" using n'(4) by (metis length_map)
  then have "map tv_status (rn_tasks n') = [''Completed'']" using n'(2) by (cases "rn_tasks n'") auto
  with n'(1,3) show ?thesis by (intro exI [of _ n'] conjI)
qed

theorem web_accounting_witness:
  "length (rn_blocks (ws_node sample_mined)) = 1 \<and> rn_mempool (ws_node sample_mined) = 1"
proof -
  have "map tv_status (rn_tasks (ws_node sample_mined)) = [''Mining'']" by code_simp
  then obtain t where t: "rn_tasks (ws_node sample_mined) = [t]" "tv_status t = ''Mining''" by auto
  show ?thesis using web_accounting [OF sample_mined_reach refl sample_mined_ids(1,2)] t by simp
qed

end
