(* ===== verification/DigitalHuman.thy ===== *)
theory DigitalHuman
  imports Float32 ChainTypes GoText
begin

text \<open>
  The digital human, \<^verbatim>\<open>src/pkg/digitalhuman\<close>: the memory store with its vector index (\<^verbatim>\<open>memory.go\<close>) and the
  personality with its moods and relationships (\<^verbatim>\<open>personality.go\<close>). The clock, the hash, the order in which a
  map is walked (\<open>ord\<close>) and the order \<open>sort.Slice\<close> leaves (\<open>srt\<close>) are parameters. The entries a recall
  returns are pointers into the store; here they are values.
\<close>

section \<open>Memory\<close>

type_synonym memory_id = hash

record memory_entry =
  me_timestamp :: u64
  me_content :: "byte list"
  me_embedding :: "f32 list"
  me_importance :: f64
  me_decay_rate :: f64
  me_access_list :: "address list"

record vector_index =
  vi_vectors :: "memory_id \<Rightarrow> f32 list option"
  vi_dim :: int

record memory_store =
  ms_owner :: address
  ms_entries :: "memory_id \<Rightarrow> memory_entry option"
  ms_time_order :: "memory_id list"
  ms_vector_index :: vector_index
  ms_state_root :: hash
  ms_last_anchored_height :: u64
  ms_last_anchored_root :: hash

definition new_vector_index :: "int \<Rightarrow> vector_index" where
  "new_vector_index dim = \<lparr>vi_vectors = Map.empty, vi_dim = dim\<rparr>"

definition vector_add :: "memory_id \<Rightarrow> f32 list \<Rightarrow> vector_index \<Rightarrow> vector_index" where
  "vector_add i vec v = v\<lparr>vi_vectors := (vi_vectors v)(i \<mapsto> vec)\<rparr>"

fun f64_is_zero :: "f64 \<Rightarrow> bool" where
  "f64_is_zero (F64 m k) \<longleftrightarrow> m = 0"

text \<open>The sum of products in the order of the loop.\<close>

definition dot_product :: "f32 list \<Rightarrow> f32 list \<Rightarrow> f64" where
  "dot_product a b = fold (\<lambda>(x, y) s. f64_add s (f64_mul x y)) (zip a b) (F64 0 0)"

definition cosine_similarity :: "f32 list \<Rightarrow> f32 list \<Rightarrow> f64" where
  "cosine_similarity a b =
     (if length a \<noteq> length b then F64 0 0
      else let dot = dot_product a b; normA = dot_product a a; normB = dot_product b b in
        if f64_is_zero normA \<or> f64_is_zero normB then F64 0 0 else f64_div dot (f64_mul normA normB))"

text \<open>\<open>make\<close> panics on a negative length.\<close>

definition search_scores :: "(memory_id set \<Rightarrow> memory_id list) \<Rightarrow> f32 list \<Rightarrow> vector_index \<Rightarrow> (memory_id \<times> f64) list" where
  "search_scores ord query v =
     map (\<lambda>i. (i, cosine_similarity query (case vi_vectors v i of Some vec \<Rightarrow> vec | None \<Rightarrow> []))) (ord (dom (vi_vectors v)))"

definition vector_search ::
  "((memory_id \<times> f64) list \<Rightarrow> (memory_id \<times> f64) list) \<Rightarrow> (memory_id set \<Rightarrow> memory_id list) \<Rightarrow> f32 list \<Rightarrow> int \<Rightarrow> vector_index
     \<Rightarrow> (string, memory_id list) outcome" where
  "vector_search srt ord query k v =
     (let results = srt (search_scores ord query v); k1 = (if int (length results) < k then int (length results) else k)
      in if k1 < 0 then Panic else Ok (map fst (take (nat k1) results)))"

definition new_memory_store :: "address \<Rightarrow> memory_store" where
  "new_memory_store owner = \<lparr>ms_owner = owner, ms_entries = Map.empty, ms_time_order = [], ms_vector_index = new_vector_index 768,
     ms_state_root = empty_hash, ms_last_anchored_height = 0, ms_last_anchored_root = empty_hash\<rparr>"

definition compute_memory_id :: "(byte list \<Rightarrow> hash) \<Rightarrow> byte list \<Rightarrow> memory_id" where
  "compute_memory_id sha content = sha content"

definition root_preimage :: "memory_store \<Rightarrow> byte list" where
  "root_preimage m = concat (map (\<lambda>i. case ms_entries m i of Some e \<Rightarrow> i @ me_content e | None \<Rightarrow> []) (ms_time_order m))"

definition recompute_root :: "(byte list \<Rightarrow> hash) \<Rightarrow> memory_store \<Rightarrow> memory_store" where
  "recompute_root sha m = m\<lparr>ms_state_root := sha (root_preimage m)\<rparr>"

definition default_decay :: f64 where
  "default_decay = F64 7378697629483821 66"

definition store_memory ::
  "(byte list \<Rightarrow> hash) \<Rightarrow> u64 \<Rightarrow> byte list \<Rightarrow> f32 list \<Rightarrow> f64 \<Rightarrow> memory_store \<Rightarrow> memory_id \<times> memory_store" where
  "store_memory sha now content embedding importance m =
     (let i = compute_memory_id sha content;
          entry = \<lparr>me_timestamp = now, me_content = content, me_embedding = embedding, me_importance = importance,
                   me_decay_rate = default_decay, me_access_list = []\<rparr>
      in (i, recompute_root sha (m\<lparr>ms_entries := (ms_entries m)(i \<mapsto> entry), ms_time_order := ms_time_order m @ [i],
            ms_vector_index := vector_add i embedding (ms_vector_index m)\<rparr>)))"

definition recall ::
  "((memory_id \<times> f64) list \<Rightarrow> (memory_id \<times> f64) list) \<Rightarrow> (memory_id set \<Rightarrow> memory_id list) \<Rightarrow> f32 list \<Rightarrow> int \<Rightarrow> memory_store
     \<Rightarrow> (string, memory_entry list) outcome" where
  "recall srt ord query k m = obind (vector_search srt ord query k (ms_vector_index m))
     (\<lambda>ids. if k < 0 then Panic else Ok (List.map_filter (ms_entries m) ids))"

definition get_oldest :: "memory_store \<Rightarrow> memory_entry option" where
  "get_oldest m = (case ms_time_order m of [] \<Rightarrow> None | i # is \<Rightarrow> ms_entries m i)"

definition importance_floor :: f64 where
  "importance_floor = F64 5764607523034235 59"

definition decayed :: "u64 \<Rightarrow> memory_entry \<Rightarrow> memory_entry" where
  "decayed blocks e =
     (let imp = f64_mul (me_importance e) (f64_sub (F64 1 0) (f64_mul (me_decay_rate e) (f64_of_u64 blocks)))
      in e\<lparr>me_importance := (if f64_less imp importance_floor then importance_floor else imp)\<rparr>)"

definition apply_decay :: "u64 \<Rightarrow> memory_store \<Rightarrow> memory_store" where
  "apply_decay blocks m = m\<lparr>ms_entries := (\<lambda>i. map_option (decayed blocks) (ms_entries m i))\<rparr>"

definition forget_one :: "f64 \<Rightarrow> memory_id \<Rightarrow> int \<times> (memory_id \<Rightarrow> memory_entry option) \<Rightarrow> int \<times> (memory_id \<Rightarrow> memory_entry option)" where
  "forget_one threshold i q = (case snd q i of
     None \<Rightarrow> q | Some e \<Rightarrow> if f64_less (me_importance e) threshold then (fst q + 1, (snd q)(i := None)) else q)"

definition forget :: "(byte list \<Rightarrow> hash) \<Rightarrow> (memory_id set \<Rightarrow> memory_id list) \<Rightarrow> f64 \<Rightarrow> memory_store \<Rightarrow> int \<times> memory_store" where
  "forget sha ord threshold m = (case fold (forget_one threshold) (ord (dom (ms_entries m))) (0, ms_entries m) of
     (removed, entries) \<Rightarrow> (removed, recompute_root sha (m\<lparr>ms_entries := entries\<rparr>)))"

definition memory_state_root :: "memory_store \<Rightarrow> hash" where
  "memory_state_root m = ms_state_root m"

definition anchor_to_l1 :: "u64 \<Rightarrow> memory_store \<Rightarrow> memory_store" where
  "anchor_to_l1 height m = m\<lparr>ms_last_anchored_height := height, ms_last_anchored_root := ms_state_root m\<rparr>"

definition last_anchor :: "memory_store \<Rightarrow> u64 \<times> hash" where
  "last_anchor m = (ms_last_anchored_height m, ms_last_anchored_root m)"

section \<open>Personality\<close>

record personality_profile =
  pp_openness :: f64
  pp_conscientiousness :: f64
  pp_extraversion :: f64
  pp_agreeableness :: f64
  pp_neuroticism :: f64
  pp_formality :: f64
  pp_verbosity :: f64
  pp_humor :: f64
  pp_expertise :: "string list"
  pp_interests :: "string list"
  pp_name :: string
  pp_backstory :: string
  pp_voice_style :: string

definition default_personality :: "string \<Rightarrow> personality_profile" where
  "default_personality name = \<lparr>pp_openness = F64 3152519739159347 52, pp_conscientiousness = F64 3602879701896397 52,
     pp_extraversion = F64 5404319552844595 53, pp_agreeableness = F64 3602879701896397 52, pp_neuroticism = F64 5404319552844595 54,
     pp_formality = F64 1 1, pp_verbosity = F64 5404319552844595 53, pp_humor = F64 3602879701896397 53,
     pp_expertise = [], pp_interests = [], pp_name = name,
     pp_backstory = ''I am an AI companion on the AI Chain network.'', pp_voice_style = ''friendly''\<rparr>"

record relationship =
  rl_user :: address
  rl_interaction_count :: u64
  rl_trust :: f64
  rl_familiarity :: f64
  rl_topics :: "string \<Rightarrow> u64 option"
  rl_last_seen :: int

record personality_state =
  ps_mood :: f64
  ps_energy :: f64
  ps_patience :: f64
  ps_total_interactions :: u64
  ps_positive_interactions :: u64
  ps_last_interaction :: int
  ps_relationships :: "address \<Rightarrow> relationship option"
  ps_evolution_stage :: string
  ps_personality_drift :: f64

definition new_personality_state :: personality_state where
  "new_personality_state = \<lparr>ps_mood = F64 3152519739159347 52, ps_energy = F64 3602879701896397 52,
     ps_patience = F64 8106479329266893 53, ps_total_interactions = 0, ps_positive_interactions = 0, ps_last_interaction = 0,
     ps_relationships = Map.empty, ps_evolution_stage = ''newborn'', ps_personality_drift = F64 0 0\<rparr>"

definition f64_min :: "f64 \<Rightarrow> f64 \<Rightarrow> f64" where
  "f64_min a b = (if f64_less b a then b else a)"

definition f64_max :: "f64 \<Rightarrow> f64 \<Rightarrow> f64" where
  "f64_max a b = (if f64_less a b then b else a)"

definition mood_of :: "u64 \<Rightarrow> u64 \<Rightarrow> f64" where
  "mood_of positive tot = f64_add (F64 1 1) (f64_mul (F64 1 1) (f64_div (f64_of_u64 positive) (f64_of_u64 tot)))"

definition next_stage :: "u64 \<Rightarrow> string \<Rightarrow> string" where
  "next_stage tot stage = (if 10000 < tot then ''wise'' else if 1000 < tot then ''mature''
     else if 100 < tot then ''learning'' else stage)"

definition update_mood :: "int \<Rightarrow> bool \<Rightarrow> personality_state \<Rightarrow> personality_state" where
  "update_mood now positive s =
     (let tot = ps_total_interactions s + 1; pos = (if positive then ps_positive_interactions s + 1 else ps_positive_interactions s)
      in s\<lparr>ps_total_interactions := tot, ps_positive_interactions := pos, ps_mood := mood_of pos tot,
           ps_energy := f64_min (F64 1 0) (f64_add (ps_energy s) (F64 3602879701896397 56)), ps_last_interaction := now,
           ps_evolution_stage := next_stage tot (ps_evolution_stage s)\<rparr>)"

definition new_relationship :: "address \<Rightarrow> int \<Rightarrow> relationship" where
  "new_relationship user now = \<lparr>rl_user = user, rl_interaction_count = 0, rl_trust = F64 3602879701896397 55,
     rl_familiarity = F64 0 0, rl_topics = Map.empty, rl_last_seen = now\<rparr>"

definition get_or_create_relationship :: "int \<Rightarrow> address \<Rightarrow> personality_state \<Rightarrow> relationship \<times> personality_state" where
  "get_or_create_relationship now user s =
     (let rel = (case ps_relationships s user of Some r \<Rightarrow> r\<lparr>rl_last_seen := now\<rparr> | None \<Rightarrow> new_relationship user now)
      in (rel, s\<lparr>ps_relationships := (ps_relationships s)(user \<mapsto> rel)\<rparr>))"

definition interacted :: "int \<Rightarrow> string \<Rightarrow> bool \<Rightarrow> relationship \<Rightarrow> relationship" where
  "interacted now topic positive r =
     (let count = rl_interaction_count r + 1 in
      r\<lparr>rl_interaction_count := count,
        rl_familiarity := f64_min (F64 1 0) (f64_div (f64_of_u64 count) (F64 100 0)),
        rl_topics := (rl_topics r)(topic \<mapsto> (case rl_topics r topic of Some c \<Rightarrow> c | None \<Rightarrow> 0) + 1),
        rl_trust := (if positive then f64_min (F64 1 0) (f64_add (rl_trust r) (F64 5764607523034235 59))
                     else f64_max (F64 0 0) (f64_sub (rl_trust r) (F64 5764607523034235 58))),
        rl_last_seen := now\<rparr>)"

definition record_interaction :: "int \<Rightarrow> int \<Rightarrow> address \<Rightarrow> string \<Rightarrow> bool \<Rightarrow> personality_state \<Rightarrow> personality_state" where
  "record_interaction now1 now2 user topic positive s = (case get_or_create_relationship now1 user s of
     (rel, s1) \<Rightarrow> s1\<lparr>ps_relationships := (ps_relationships s1)(user \<mapsto> interacted now2 topic positive rel)\<rparr>)"

definition voice_style_desc :: "string \<Rightarrow> string" where
  "voice_style_desc style =
     (if style = ''professional'' then ''professional and precise'' else if style = ''friendly'' then ''warm and approachable''
      else if style = ''mentor'' then ''wise and guiding'' else if style = ''companion'' then ''loyal and supportive''
      else ''balanced'')"

definition mood_desc :: "f64 \<Rightarrow> string" where
  "mood_desc mood =
     (if f64_less (F64 3602879701896397 52) mood then ''very positive'' else if f64_less (F64 5404319552844595 53) mood then ''positive''
      else if f64_less (F64 3602879701896397 53) mood then ''neutral'' else if f64_less (F64 3602879701896397 54) mood then ''somewhat negative''
      else ''negative'')"

definition energy_desc :: "f64 \<Rightarrow> string" where
  "energy_desc energy =
     (if f64_less (F64 3602879701896397 52) energy then ''high energy'' else if f64_less (F64 1 1) energy then ''moderate energy''
      else ''low energy'')"

definition formality_desc :: "f64 \<Rightarrow> string" where
  "formality_desc f = (if f64_less (F64 3152519739159347 52) f then ''formal''
     else if f64_less (F64 3602879701896397 53) f then ''semi-formal'' else ''casual'')"

text \<open>\<open>fmt0\<close> prints a number without decimals.\<close>

definition human_system_prompt ::
  "(f64 \<Rightarrow> string) \<Rightarrow> int \<Rightarrow> personality_profile \<Rightarrow> address \<Rightarrow> personality_state \<Rightarrow> string \<times> personality_state" where
  "human_system_prompt fmt0 now p user s = (case get_or_create_relationship now user s of
     (rel, s1) \<Rightarrow>
       (''You are '' @ pp_name p @ '', an AI companion on AI Chain.'' @ [CHR 0x0A]
        @ ''Personality: '' @ voice_style_desc (pp_voice_style p) @ '', '' @ formality_desc (pp_formality p) @ '' style. ''
        @ pp_backstory p @ [CHR 0x0A]
        @ ''Current mood: '' @ mood_desc (ps_mood s1) @ '', energy: '' @ energy_desc (ps_energy s1) @ [CHR 0x0A]
        @ ''You have known this user for '' @ format_decimal (unat (rl_interaction_count rel)) @ '' interactions (trust: ''
        @ fmt0 (f64_mul (rl_trust rel) (F64 100 0)) @ ''%).'' @ [CHR 0x0A]
        @ ''Respond in a way that matches your personality and current state.'', s1))"

definition personality_hash :: "(byte list \<Rightarrow> hash) \<Rightarrow> personality_profile \<Rightarrow> hash" where
  "personality_hash sha p = sha (bytes_of (pp_name p) @ bytes_of (pp_backstory p) @ bytes_of (pp_voice_style p))"

end
