(* ===== verification/DigitalHumanProps.thy ===== *)
theory DigitalHumanProps
  imports DigitalHuman Float64Order GoHeap
begin

text \<open>
  The properties of the digital human: moods, trust, familiarity and importance stay in their ranges in spite
  of rounding, the stage follows the number of interactions, a recall of a store that has forgotten nothing
  returns the best matches, and what forgotten memories do to it.
\<close>

section \<open>Numbers between zero and one\<close>

definition unit_number :: "f64 \<Rightarrow> bool" where
  "unit_number x \<longleftrightarrow> f64_le (F64 0 0) x \<and> f64_le x (F64 1 0)"

lemma f64_min_unit: "f64_nonneg x \<Longrightarrow> unit_number (f64_min (F64 1 0) x)"
  using f64_le_linear [of x "F64 1 0"]
  by (cases x) (auto simp: f64_min_def unit_number_def)

lemma f64_max_unit: "f64_le x (F64 1 0) \<Longrightarrow> unit_number (f64_max (F64 0 0) x)"
  by (cases x) (auto simp: f64_max_def unit_number_def)

lemma f64_div_nonneg: "f64_nonneg a \<Longrightarrow> f64_nonneg b \<Longrightarrow> f64_nonneg (f64_div a b)"
  by (cases a; cases b) (auto simp: Let_def f64_round_def zero_le_mult_iff sgn_if)

lemma f64_of_u64_nonneg: "f64_nonneg (f64_of_u64 v)"
  by (simp add: f64_of_u64_def f64_round_iround iround_nonneg)

lemma f64_div_le_one:
  assumes "f64_nonneg a" "f64_le a b" "\<not> f64_is_zero b"
  shows "f64_le (f64_div a b) (F64 1 0)"
proof -
  obtain m k n l where e: "a = F64 m k" "b = F64 n l" by (cases a; cases b)
  have m: "0 \<le> m" "m * 2 ^ l \<le> n * 2 ^ k" and n0: "n \<noteq> 0" using assms e by simp_all
  have "0 \<le> n * 2 ^ k" using m by (meson mult_nonneg_nonneg order_trans zero_le_numeral zero_le_power)
  then have n: "0 < n" using n0 by (simp add: zero_le_mult_iff)
  obtain M N where M: "m = int M" and N: "n = int N" "0 < N" using m(1) n by (metis nonneg_int_cases pos_int_cases)
  let ?s = "64 + bit_len N"
  let ?a = "M * 2 ^ l * 2 ^ ?s"
  have "int (M * 2 ^ l) \<le> int (N * 2 ^ k)" using m(2) M N(1) by simp
  then have "M * 2 ^ l \<le> N * 2 ^ k" by (simp only: of_nat_le_iff)
  then have "?a \<le> N * 2 ^ k * 2 ^ ?s" by (rule mult_right_mono) simp
  then have "?a \<le> N * 2 ^ (k + ?s)" by (simp only: power_add mult.assoc)
  then have "?a div N \<le> N * 2 ^ (k + ?s) div N" by (rule div_le_mono)
  then have q: "?a div N \<le> 2 ^ (k + ?s)" using N(2) by simp
  have r: "int (round53 st (?a div N)) \<le> 2 ^ (k + ?s)" for st
    using round53_le_pow [OF q, of st] by (metis of_nat_le_iff of_nat_numeral of_nat_power)
  have "sgn (sgn m * sgn n * int (?a div N)) * int (round53 st (?a div N)) \<le> 2 ^ (k + ?s)" for st
    using r [of st] N(2) by (cases "M = 0"; cases "?a div N = 0") (simp_all add: M N(1) sgn_if)
  moreover have "nat \<bar>sgn m * sgn n * int (?a div N)\<bar> = ?a div N"
    using N(2) by (cases "M = 0") (simp_all add: M N(1) sgn_if)
  ultimately have "sgn (sgn m * sgn n * int (?a div N)) * int (round53 st (nat \<bar>sgn m * sgn n * int (?a div N)\<bar>)) \<le> 2 ^ (k + ?s)" for st
    by simp
  then show ?thesis unfolding e by (simp add: M N(1) Let_def f64_round_def add.assoc del: of_nat_mult of_nat_power)
qed

section \<open>The personality\<close>

datatype person_op = UpdateMood int bool | Meet int address | Interact int int address string bool

fun run_person :: "person_op \<Rightarrow> personality_state \<Rightarrow> personality_state" where
  "run_person (UpdateMood now positive) s = update_mood now positive s"
| "run_person (Meet now user) s = snd (get_or_create_relationship now user s)"
| "run_person (Interact now1 now2 user topic positive) s = record_interaction now1 now2 user topic positive s"

fun mood_count :: "person_op list \<Rightarrow> nat" where
  "mood_count [] = 0"
| "mood_count (UpdateMood now positive # ops) = Suc (mood_count ops)"
| "mood_count (op # ops) = mood_count ops"

lemma mood_count_append [simp]: "mood_count (xs @ ys) = mood_count xs + mood_count ys"
  by (induction xs rule: mood_count.induct) auto

lemma mood_count_length: "mood_count ops \<le> length ops"
  by (induction ops rule: mood_count.induct) auto

definition stage_of :: "nat \<Rightarrow> string" where
  "stage_of n = (if 10000 < n then ''wise'' else if 1000 < n then ''mature'' else if 100 < n then ''learning'' else ''newborn'')"

text \<open>A mood between one half and one.\<close>

definition good_mood :: "f64 \<Rightarrow> bool" where
  "good_mood x \<longleftrightarrow> f64_le (F64 1 1) x \<and> f64_le x (F64 1 0)"

lemma f64_of_u64_mono: "a \<le> b \<Longrightarrow> f64_le (f64_of_u64 a) (f64_of_u64 b)"
  unfolding f64_of_u64_def by (rule f64_round_mono) (simp add: word_le_def)

lemma f64_of_u64_nonzero: "v \<noteq> 0 \<Longrightarrow> \<not> f64_is_zero (f64_of_u64 v)"
proof -
  assume v: "v \<noteq> 0"
  then have "0 < unat v" by (simp add: unat_gt_0)
  from round53_lower [OF this] have "0 < round53 False (unat v)" by (metis gr0I not_le zero_less_numeral zero_less_power)
  then show ?thesis using v by (simp add: f64_of_u64_def f64_round_iround iround_nonneg)
qed

lemma mood_of_good:
  assumes "p \<le> t" "t \<noteq> 0" shows "good_mood (mood_of p t)"
proof -
  let ?r = "f64_div (f64_of_u64 p) (f64_of_u64 t)"
  have r: "f64_nonneg ?r" "f64_le ?r (F64 1 0)"
    using f64_div_nonneg f64_div_le_one f64_of_u64_nonneg f64_of_u64_mono f64_of_u64_nonzero assms by blast+
  have half: "f64_nonneg (F64 1 1)" by simp
  have "f64_le (f64_mul (F64 1 1) ?r) (f64_mul (F64 1 1) (F64 1 0))" by (rule f64_mul_mono [OF half r(1) f64_le_refl r(2)])
  then have "f64_le (mood_of p t) (f64_add (F64 1 1) (f64_mul (F64 1 1) (F64 1 0)))"
    unfolding mood_of_def by (rule f64_add_mono [OF f64_le_refl])
  also have "f64_add (F64 1 1) (f64_mul (F64 1 1) (F64 1 0)) = F64 4 2" by (simp add: f64_eval)
  finally have top: "f64_le (mood_of p t) (F64 1 0)" by (rule f64_le_trans) simp
  have "f64_le (f64_mul (F64 1 1) (F64 0 0)) (f64_mul (F64 1 1) ?r)"
    by (rule f64_mul_mono [OF half _ f64_le_refl r(1)]) simp
  then have "f64_le (f64_add (F64 1 1) (f64_mul (F64 1 1) (F64 0 0))) (mood_of p t)"
    unfolding mood_of_def by (rule f64_add_mono [OF f64_le_refl])
  moreover have "f64_add (F64 1 1) (f64_mul (F64 1 1) (F64 0 0)) = F64 2 2" by (simp add: f64_eval)
  ultimately have "f64_le (F64 2 2) (mood_of p t)" by simp
  then have "f64_le (F64 1 1) (mood_of p t)" by (rule f64_le_trans [rotated]) simp
  with top show ?thesis by (simp add: good_mood_def)
qed

lemma good_mood_desc: "good_mood x \<Longrightarrow> mood_desc x \<in> {''very positive'', ''positive'', ''neutral''}"
proof -
  assume x: "good_mood x"
  have "f64_less (F64 3602879701896397 53) x"
  proof (cases x)
    case (F64 m k)
    have "0 < (2 :: int) ^ k" "2 ^ k \<le> m * 2" using x F64 by (simp_all add: good_mood_def)
    then have "3602879701896397 * 2 ^ k < m * 9007199254740992" by linarith
    then show ?thesis by (simp add: F64)
  qed
  then show ?thesis by (simp add: mood_desc_def)
qed

definition relationship_ok :: "relationship \<Rightarrow> bool" where
  "relationship_ok r \<longleftrightarrow> unit_number (rl_trust r) \<and> unit_number (rl_familiarity r)"

lemma interacted_ok: "relationship_ok r \<Longrightarrow> relationship_ok (interacted now topic positive r)"
proof -
  assume r: "relationship_ok r"
  have f: "unit_number (f64_min (F64 1 0) (f64_div (f64_of_u64 c) (F64 100 0)))" for c
    by (intro f64_min_unit f64_div_nonneg f64_of_u64_nonneg) simp
  have up: "unit_number (f64_min (F64 1 0) (f64_add (rl_trust r) (F64 5764607523034235 59)))"
    using r by (intro f64_min_unit f64_add_nonneg) (simp_all add: relationship_ok_def unit_number_def)
  have "f64_le (f64_sub (rl_trust r) (F64 5764607523034235 58)) (f64_sub (F64 1 0) (F64 0 0))"
    using r by (intro f64_sub_mono) (simp_all add: relationship_ok_def unit_number_def)
  then have "f64_le (f64_sub (rl_trust r) (F64 5764607523034235 58)) (F64 1 0)"
    by (simp add: f64_eval)
  then have down: "unit_number (f64_max (F64 0 0) (f64_sub (rl_trust r) (F64 5764607523034235 58)))" by (rule f64_max_unit)
  show ?thesis using f up down by (simp add: interacted_def relationship_ok_def Let_def)
qed

lemma new_relationship_ok: "relationship_ok (new_relationship user now)"
  by (simp add: new_relationship_def relationship_ok_def unit_number_def)

definition person_ok :: "nat \<Rightarrow> personality_state \<Rightarrow> bool" where
  "person_ok j s \<longleftrightarrow> unat (ps_total_interactions s) = j \<and> ps_positive_interactions s \<le> ps_total_interactions s
     \<and> good_mood (ps_mood s) \<and> unit_number (ps_energy s) \<and> ps_evolution_stage s = stage_of j
     \<and> (\<forall>u r. ps_relationships s u = Some r \<longrightarrow> relationship_ok r)"

lemma new_person_ok: "person_ok 0 new_personality_state"
  by (simp add: person_ok_def new_personality_state_def good_mood_def unit_number_def stage_of_def)

lemma update_mood_ok:
  assumes ok: "person_ok j s" and b: "Suc j < 2 ^ 64"
  shows "person_ok (Suc j) (update_mood now positive s)"
proof -
  let ?t = "ps_total_interactions s" and ?p = "ps_positive_interactions s"
  have j: "unat ?t = j" "?p \<le> ?t" using ok by (simp_all add: person_ok_def)
  have t: "unat (?t + 1) = Suc j" using j(1) b by (simp add: unat_word_ariths)
  have "unat ?p \<le> j" using j by (simp add: word_le_nat_alt)
  then have p: "unat (?p + 1) = Suc (unat ?p)" "unat (if positive then ?p + 1 else ?p) \<le> unat (?t + 1)"
    using b t by (simp_all add: unat_word_ariths)
  have t0: "?t + 1 \<noteq> 0" using t by (metis unat_0 nat.distinct(1))
  have mood: "good_mood (mood_of (if positive then ?p + 1 else ?p) (?t + 1))"
    using mood_of_good [OF _ t0] p(2) by (simp only: word_le_nat_alt)
  have "unit_number (ps_energy s)" using ok by (simp add: person_ok_def)
  then have e: "unit_number (f64_min (F64 1 0) (f64_add (ps_energy s) (F64 3602879701896397 56)))"
    by (intro f64_min_unit f64_add_nonneg) (simp_all add: unit_number_def)
  have less: "c < ?t + 1 \<longleftrightarrow> unat c < Suc j" for c using t by (simp add: word_less_nat_alt)
  have "next_stage (?t + 1) (stage_of j) = stage_of (Suc j)"
    unfolding next_stage_def less by (auto simp: stage_of_def)
  then show ?thesis using ok t p(2) mood e by (simp add: person_ok_def update_mood_def Let_def word_le_nat_alt)
qed

lemma person_run_ok:
  "length ops < 2 ^ 64 \<Longrightarrow> person_ok (mood_count ops) (fold run_person ops new_personality_state)"
proof (induction ops rule: rev_induct)
  case Nil
  then show ?case by (simp add: new_person_ok)
next
  case (snoc op ops)
  let ?s = "fold run_person ops new_personality_state"
  have ok: "person_ok (mood_count ops) ?s" using snoc by simp
  have b: "Suc (mood_count ops) < 2 ^ 64" using mood_count_length [of ops] snoc.prems by simp
  show ?case
  proof (cases op)
    case (UpdateMood now positive)
    then show ?thesis using update_mood_ok [OF ok b, of now positive] by simp
  next
    case (Meet now user)
    have "relationship_ok (fst (get_or_create_relationship now user ?s))"
      using ok new_relationship_ok [of user now]
      by (cases "ps_relationships ?s user") (auto simp: get_or_create_relationship_def Let_def person_ok_def relationship_ok_def)
    then show ?thesis using ok Meet by (auto simp: person_ok_def get_or_create_relationship_def Let_def)
  next
    case (Interact now1 now2 user topic positive)
    have "relationship_ok (fst (get_or_create_relationship now1 user ?s))"
      using ok new_relationship_ok [of user now1]
      by (cases "ps_relationships ?s user") (auto simp: get_or_create_relationship_def Let_def person_ok_def relationship_ok_def)
    from interacted_ok [OF this] show ?thesis using ok Interact
      by (auto simp: person_ok_def record_interaction_def get_or_create_relationship_def Let_def)
  qed
qed

section \<open>Properties of the personality\<close>

text \<open>C25: After any sequence of mood updates and interactions, rounding included, energy and every user's trust and
  familiarity lie between 0 and 1, the mood lies between one half and 1, so that it is never described as negative,
  and the stage is the one of the number of updates.\<close>

theorem personality_ranges:
  assumes "length ops < 2 ^ 64" "s = fold run_person ops new_personality_state"
  shows "f64_le (F64 1 1) (ps_mood s) \<and> f64_le (ps_mood s) (F64 1 0) \<and> mood_desc (ps_mood s) \<in> {''very positive'', ''positive'', ''neutral''}
    \<and> unit_number (ps_energy s) \<and> (\<forall>u r. ps_relationships s u = Some r \<longrightarrow> unit_number (rl_trust r) \<and> unit_number (rl_familiarity r))
    \<and> unat (ps_total_interactions s) = mood_count ops \<and> ps_evolution_stage s = stage_of (mood_count ops)"
proof -
  have ok: "person_ok (mood_count ops) s" using person_run_ok [OF assms(1)] assms(2) by simp
  then have "good_mood (ps_mood s)" by (simp add: person_ok_def)
  from good_mood_desc [OF this] show ?thesis using ok by (simp add: person_ok_def relationship_ok_def good_mood_def)
qed

text \<open>A user who is only ever disappointed.\<close>

theorem personality_ranges_witness:
  "mood_desc (ps_mood (fold run_person [UpdateMood 1 False, Interact 1 2 [7] ''go'' False] new_personality_state))
     \<in> {''very positive'', ''positive'', ''neutral''}"
  using personality_ranges [of "[UpdateMood 1 False, Interact 1 2 [7] ''go'' False]"] by simp

section \<open>Decay\<close>

lemma f64_mul_nonpos: "f64_nonneg a \<Longrightarrow> f64_le b (F64 0 0) \<Longrightarrow> f64_le (f64_mul a b) (F64 0 0)"
proof -
  assume a: "f64_nonneg a" and b: "f64_le b (F64 0 0)"
  have "f64_nonneg (f64_neg b)" using b by (cases b) simp
  then have "f64_nonneg (f64_mul a (f64_neg b))" using a by (intro f64_mul_nonneg)
  moreover have "f64_mul a (f64_neg b) = f64_neg (f64_mul a b)"
    by (cases a; cases b) (simp add: f64_round_iround iround_neg)
  ultimately show ?thesis by (cases "f64_mul a b") simp
qed

definition remembered :: "memory_entry \<Rightarrow> bool" where
  "remembered e \<longleftrightarrow> unit_number (me_importance e) \<and> f64_nonneg (me_decay_rate e)"

lemma decayed_range:
  assumes "remembered e"
  shows "f64_le importance_floor (me_importance (decayed blocks e))" "f64_le (me_importance (decayed blocks e)) (F64 1 0)"
    "me_decay_rate (decayed blocks e) = me_decay_rate e"
proof -
  let ?f = "f64_sub (F64 1 0) (f64_mul (me_decay_rate e) (f64_of_u64 blocks))" and ?i = "me_importance e"
  have i: "f64_nonneg ?i" "f64_le ?i (F64 1 0)" and d: "f64_nonneg (me_decay_rate e)"
    using assms by (simp_all add: remembered_def unit_number_def)
  have "f64_nonneg (f64_mul (me_decay_rate e) (f64_of_u64 blocks))" using d f64_of_u64_nonneg by (intro f64_mul_nonneg) auto
  then have "f64_le ?f (f64_sub (F64 1 0) (F64 0 0))" by (intro f64_sub_mono) simp_all
  then have f: "f64_le ?f (F64 1 0)" by (simp add: f64_eval)
  have prod: "f64_le (f64_mul ?i ?f) (F64 1 0)"
  proof (cases "f64_nonneg ?f")
    case True
    then have "f64_le (f64_mul ?i ?f) (f64_mul (F64 1 0) (F64 1 0))" using i f by (intro f64_mul_mono) auto
    then show ?thesis by (simp add: f64_eval)
  next
    case False
    then have "f64_le ?f (F64 0 0)" using f64_le_linear by blast
    from f64_mul_nonpos [OF i(1) this] show ?thesis by (rule f64_le_trans) simp
  qed
  have less: "f64_less a b \<longleftrightarrow> \<not> f64_le b a" for a b by (cases a; cases b) auto
  show "f64_le importance_floor (me_importance (decayed blocks e))"
    by (simp add: decayed_def Let_def less)
  show "f64_le (me_importance (decayed blocks e)) (F64 1 0)"
    using prod by (simp add: decayed_def Let_def importance_floor_def)
  show "me_decay_rate (decayed blocks e) = me_decay_rate e" by (simp add: decayed_def Let_def)
qed

lemma forget_nothing:
  assumes "\<forall>i e. es i = Some e \<longrightarrow> \<not> f64_less (me_importance e) threshold"
  shows "fold (forget_one threshold) is (n, es) = (n, es)"
  using assms by (induction "is") (auto simp: forget_one_def split: option.splits)

text \<open>However many blocks pass, the importance of a memory that was between 0 and 1 stays between 0.01 and 1,
  and then nothing is forgotten at a threshold of 0.01 or less.\<close>

theorem never_fully_forgotten:
  assumes "\<forall>i e. ms_entries m i = Some e \<longrightarrow> f64_le (F64 0 0) (me_importance e) \<and> f64_le (me_importance e) (F64 1 0) \<and> f64_le (F64 0 0) (me_decay_rate e)"
    "f64_le threshold importance_floor"
  shows "(\<forall>i e. ms_entries (apply_decay blocks m) i = Some e \<longrightarrow> f64_le importance_floor (me_importance e) \<and> f64_le (me_importance e) (F64 1 0))
    \<and> fst (forget sha ord threshold (apply_decay blocks m)) = 0
    \<and> ms_entries (snd (forget sha ord threshold (apply_decay blocks m))) = ms_entries (apply_decay blocks m)"
proof -
  have r: "f64_le importance_floor (me_importance e) \<and> f64_le (me_importance e) (F64 1 0)"
    if e: "ms_entries (apply_decay blocks m) i = Some e" for i e
  proof -
    obtain e0 where e0: "ms_entries m i = Some e0" "e = decayed blocks e0" using e by (auto simp: apply_decay_def)
    then have "remembered e0" using assms(1) by (simp add: remembered_def unit_number_def)
    then show ?thesis using decayed_range(1,2) e0(2) by blast
  qed
  have less: "f64_less a b \<longleftrightarrow> \<not> f64_le b a" for a b by (cases a; cases b) auto
  have "\<not> f64_less (me_importance e) threshold" if "ms_entries (apply_decay blocks m) i = Some e" for i e
    using r [OF that] assms(2) f64_le_trans less by blast
  then have "fold (forget_one threshold) (ord (dom (ms_entries (apply_decay blocks m)))) (0, ms_entries (apply_decay blocks m))
      = (0, ms_entries (apply_decay blocks m))" by (intro forget_nothing) blast
  then show ?thesis using r by (simp add: forget_def recompute_root_def)
qed

section \<open>Recall\<close>

text \<open>Stores in which nothing has been forgotten.\<close>

inductive remembering :: "(byte list \<Rightarrow> hash) \<Rightarrow> memory_store \<Rightarrow> bool" for sha where
  fresh: "remembering sha (new_memory_store owner)"
| stored: "remembering sha m \<Longrightarrow> remembering sha (snd (store_memory sha now content embedding importance m))"
| faded: "remembering sha m \<Longrightarrow> remembering sha (apply_decay blocks m)"
| anchored: "remembering sha m \<Longrightarrow> remembering sha (anchor_to_l1 height m)"

lemma remembering_index:
  "remembering sha m \<Longrightarrow> dom (vi_vectors (ms_vector_index m)) = dom (ms_entries m) \<and> finite (dom (ms_entries m))"
proof (induction rule: remembering.induct)
  case (faded m blocks)
  have "dom (ms_entries (apply_decay blocks m)) = dom (ms_entries m)" by (auto simp: apply_decay_def dom_def)
  then show ?case using faded by (simp add: apply_decay_def)
next
  case (stored m now content embedding importance)
  let ?m = "snd (store_memory sha now content embedding importance m)"
  have "dom (vi_vectors (ms_vector_index ?m)) = insert (sha content) (dom (vi_vectors (ms_vector_index m)))"
    "dom (ms_entries ?m) = insert (sha content) (dom (ms_entries m))"
    by (simp_all add: store_memory_def recompute_root_def vector_add_def compute_memory_id_def Let_def dom_fun_upd)
  then show ?case using stored by simp
qed (auto simp: new_memory_store_def new_vector_index_def store_memory_def recompute_root_def vector_add_def anchor_to_l1_def Let_def)

definition better_match :: "memory_id \<times> f64 \<Rightarrow> memory_id \<times> f64 \<Rightarrow> bool" where
  "better_match a b \<longleftrightarrow> f64_less (snd b) (snd a)"

definition match_score :: "f32 list \<Rightarrow> memory_store \<Rightarrow> memory_id \<Rightarrow> f64" where
  "match_score q m i = cosine_similarity q (the (vi_vectors (ms_vector_index m) i))"

lemma map_filter_dom: "set ids \<subseteq> dom f \<Longrightarrow> List.map_filter f ids = map (\<lambda>i. the (f i)) ids"
  by (induction ids) (auto simp: List.map_filter_def)

lemma sorted_take:
  assumes "sorted_wrt (\<lambda>a b. \<not> lt b a) xs" "x \<in> set (take n xs)" "y \<in> set (drop n xs)"
  shows "\<not> lt y x"
proof -
  have "sorted_wrt (\<lambda>a b. \<not> lt b a) (take n xs @ drop n xs)" using assms(1) by simp
  then show ?thesis using assms(2,3) unfolding sorted_wrt_append by blast
qed

lemma search_sorted:
  assumes "go_sort better_match srt" "go_order ord" "finite (dom (vi_vectors (ms_vector_index m)))"
  shows "set (srt (search_scores ord q (ms_vector_index m))) = (\<lambda>i. (i, match_score q m i)) ` dom (vi_vectors (ms_vector_index m))"
    "distinct (map fst (srt (search_scores ord q (ms_vector_index m))))"
    "length (srt (search_scores ord q (ms_vector_index m))) = card (dom (vi_vectors (ms_vector_index m)))"
    "sorted_wrt (\<lambda>a b. \<not> better_match b a) (srt (search_scores ord q (ms_vector_index m)))"
proof -
  let ?v = "ms_vector_index m"
  have o: "set (ord (dom (vi_vectors ?v))) = dom (vi_vectors ?v)" "distinct (ord (dom (vi_vectors ?v)))"
    using assms(2,3) by (simp_all add: go_order_def)
  have ms: "mset (srt (search_scores ord q ?v)) = mset (search_scores ord q ?v)" using assms(1) by (simp add: go_sort_def)
  have ids: "map fst (search_scores ord q ?v) = ord (dom (vi_vectors ?v))" by (simp add: search_scores_def comp_def)
  have "set (search_scores ord q ?v) = (\<lambda>i. (i, match_score q m i)) ` dom (vi_vectors ?v)"
    unfolding search_scores_def set_map o(1) by (rule image_cong) (auto simp: match_score_def)
  then show "set (srt (search_scores ord q ?v)) = (\<lambda>i. (i, match_score q m i)) ` dom (vi_vectors ?v)"
    using ms by (metis set_mset_mset)
  have "mset (map fst (srt (search_scores ord q ?v))) = mset (ord (dom (vi_vectors ?v)))" using ms ids by (metis mset_map)
  then show d: "distinct (map fst (srt (search_scores ord q ?v)))" using o(2) by (metis mset_eq_imp_distinct_iff)
  have "length (srt (search_scores ord q ?v)) = length (ord (dom (vi_vectors ?v)))" using ms ids by (metis length_map mset_eq_length)
  then show "length (srt (search_scores ord q ?v)) = card (dom (vi_vectors ?v))" using o distinct_card by metis
  show "sorted_wrt (\<lambda>a b. \<not> better_match b a) (srt (search_scores ord q ?v))" using assms(1) by (simp add: go_sort_def)
qed

text \<open>A recall of \<open>k\<close> memories from a store that has forgotten nothing returns \<open>k\<close> different ones, or all there
  are, and none that is left out matches the query better than one that is returned.\<close>

theorem recall_best:
  assumes "remembering sha m" "go_sort better_match srt" "go_order ord" "0 \<le> k"
  shows "\<exists>ids. recall srt ord q k m = Ok (map (\<lambda>i. the (ms_entries m i)) ids) \<and> distinct ids \<and> set ids \<subseteq> dom (ms_entries m)
    \<and> length ids = min (nat k) (card (dom (ms_entries m)))
    \<and> (\<forall>i \<in> set ids. \<forall>j \<in> dom (ms_entries m) - set ids. \<not> f64_less (match_score q m i) (match_score q m j))"
proof -
  let ?E = "dom (ms_entries m)" and ?r = "srt (search_scores ord q (ms_vector_index m))"
  have E: "dom (vi_vectors (ms_vector_index m)) = ?E" "finite ?E" using remembering_index [OF assms(1)] by blast+
  note s = search_sorted [OF assms(2,3), of m q, unfolded E(1), OF E(2)]
  define n where "n = (if int (length ?r) < k then length ?r else nat k)"
  let ?ids = "map fst (take n ?r)"
  have "vector_search srt ord q k (ms_vector_index m) = Ok ?ids"
    using assms(4) by (simp add: vector_search_def Let_def n_def)
  moreover have sub: "set ?ids \<subseteq> ?E"
  proof
    fix i assume "i \<in> set ?ids"
    then obtain p where "p \<in> set ?r" "i = fst p" by (auto dest: in_set_takeD)
    then show "i \<in> ?E" unfolding s(1) by auto
  qed
  ultimately have rec: "recall srt ord q k m = Ok (map (\<lambda>i. the (ms_entries m i)) ?ids)"
    using assms(4) map_filter_dom [OF sub] by (simp add: recall_def)
  have d: "distinct ?ids" using s(2) by (metis distinct_take take_map)
  have len: "length ?ids = min (nat k) (card ?E)" using s(3) by (auto simp: n_def min_def)
  have best: "\<not> f64_less (match_score q m i) (match_score q m j)" if i: "i \<in> set ?ids" and j: "j \<in> ?E - set ?ids" for i j
  proof -
    have p: "p = (fst p, match_score q m (fst p))" if "p \<in> set ?r" for p using that s(1) by auto
    obtain p where p1: "p \<in> set (take n ?r)" "fst p = i" using i by auto
    have "(j, match_score q m j) \<in> set ?r" using s(1) j by blast
    moreover have "(j, match_score q m j) \<notin> set (take n ?r)" using j by force
    ultimately have "(j, match_score q m j) \<in> set (drop n ?r)" by (metis UnE append_take_drop_id set_append)
    from sorted_take [OF s(4) p1(1) this] have "\<not> better_match (j, match_score q m j) p" .
    then show ?thesis using p [of p] p1 by (metis better_match_def in_set_takeD snd_conv)
  qed
  show ?thesis using rec d sub len best by blast
qed

text \<open>A forgotten memory stays in the vector index: where it is the best match, a recall of one memory returns
  nothing, however many memories there are.\<close>

theorem forgotten_shadows:
  assumes "go_sort better_match srt" "go_order ord" "finite (dom (vi_vectors (ms_vector_index m)))"
    "i \<in> dom (vi_vectors (ms_vector_index m))" "ms_entries m i = None"
    "\<forall>j \<in> dom (vi_vectors (ms_vector_index m)). j = i \<or> f64_less (match_score q m j) (match_score q m i)"
  shows "recall srt ord q 1 m = Ok []"
proof -
  let ?r = "srt (search_scores ord q (ms_vector_index m))"
  note s = search_sorted [OF assms(1,2,3), of q]
  have "?r \<noteq> []" using s(1) assms(4) by auto
  then obtain p ps where r: "?r = p # ps" by (cases ?r) auto
  have p: "p \<in> set ?r" using r by simp
  then have p: "p \<in> set ?r" "snd p = match_score q m (fst p)" "fst p \<in> dom (vi_vectors (ms_vector_index m))"
    unfolding s(1) by auto
  have "fst p = i"
  proof (rule ccontr)
    assume ne: "fst p \<noteq> i"
    then have "f64_less (match_score q m (fst p)) (match_score q m i)" using assms(6) p(3) by blast
    moreover have "(i, match_score q m i) \<in> set ps"
    proof -
      have "(i, match_score q m i) \<in> set ?r" unfolding s(1) using assms(4) by (rule imageI)
      then have "(i, match_score q m i) = p \<or> (i, match_score q m i) \<in> set ps" unfolding r by simp
      then show ?thesis using ne by (metis fst_conv)
    qed
    ultimately show False using s(4) p(2) r by (auto simp: better_match_def)
  qed
  moreover have "\<not> int (length ?r) < 1" using r by simp
  ultimately have "vector_search srt ord q 1 (ms_vector_index m) = Ok [i]"
    using r by (simp add: vector_search_def Let_def)
  then show ?thesis using assms(5) by (simp add: recall_def List.map_filter_def)
qed

text \<open>The similarity is divided by the product of the squared lengths, not of the lengths: a memory in the
  direction of the query is ranked below a shorter one at an angle to it.\<close>

theorem similarity_not_cosine:
  "f64_less (cosine_similarity [F64 1 0, F64 0 0] [F64 4 0, F64 0 0]) (cosine_similarity [F64 1 0, F64 0 0] [F64 1 0, F64 1 0])"
  by (simp add: cosine_similarity_def dot_product_def f64_eval)

end
