(* ===== verification/TrieIterator.thy ===== *)
theory TrieIterator
  imports TrieOps
begin

text \<open>
  The iterator over a trie, \<^verbatim>\<open>src/internal/state/mpt/iterator.go\<close>. Its stack is a slice of frames, and the loop
  over a branch writes through a pointer to the frame of the branch while it appends to the slice: once an append
  has moved the slice to a larger array (\<open>grow\<close> of its capacity), the pointer leads to the old one, and what is
  written there is lost. \<open>db\<close> is the node database, \<open>None\<close> where the trie has none. An advance that does not
  come to an end is \<open>None\<close>.
\<close>

section \<open>The iterator\<close>

record iter_frame =
  if_node :: node
  if_pos :: nat

record trie_iterator =
  ti_stack :: "iter_frame list"
  ti_cap :: nat
  ti_key :: gobytes
  ti_value :: gobytes
  ti_err :: bool

definition new_frame :: "node \<Rightarrow> iter_frame" where
  "new_frame n = \<lparr>if_node = n, if_pos = 0\<rparr>"

definition push_frame :: "(nat \<Rightarrow> nat) \<Rightarrow> node \<Rightarrow> trie_iterator \<Rightarrow> trie_iterator" where
  "push_frame grow n it = it\<lparr>ti_stack := ti_stack it @ [new_frame n],
     ti_cap := (if length (ti_stack it) = ti_cap it then grow (ti_cap it) else ti_cap it)\<rparr>"

definition pop_frame :: "trie_iterator \<Rightarrow> trie_iterator" where
  "pop_frame it = it\<lparr>ti_stack := butlast (ti_stack it)\<rparr>"

definition set_pos :: "nat \<Rightarrow> nat \<Rightarrow> trie_iterator \<Rightarrow> trie_iterator" where
  "set_pos i p it = it\<lparr>ti_stack := (ti_stack it)[i := (ti_stack it ! i)\<lparr>if_pos := p\<rparr>]\<rparr>"

definition set_top_node :: "node \<Rightarrow> trie_iterator \<Rightarrow> trie_iterator" where
  "set_top_node n it = it\<lparr>ti_stack := butlast (ti_stack it) @ [(last (ti_stack it))\<lparr>if_node := n\<rparr>]\<rparr>"

text \<open>The bytes of a buffer to which nothing was written are nil.\<close>

definition path_key :: "iter_frame list \<Rightarrow> byte list \<Rightarrow> gobytes" where
  "path_key frames suffix =
     (let k = concat (map (\<lambda>f. case if_node f of Ext pre n m \<Rightarrow> pre | _ \<Rightarrow> []) frames) @ suffix
      in if k = [] then None else Some k)"

definition build_leaf_key :: "byte list \<Rightarrow> gobytes \<Rightarrow> trie_iterator \<Rightarrow> trie_iterator" where
  "build_leaf_key suffix v it = pop_frame (it\<lparr>ti_key := path_key (ti_stack it) suffix, ti_value := v\<rparr>)"

definition build_branch_value :: "gobytes \<Rightarrow> trie_iterator \<Rightarrow> trie_iterator" where
  "build_branch_value v it = it\<lparr>ti_key := path_key (butlast (ti_stack it)) [], ti_value := v\<rparr>"

text \<open>The loop over the children from the position of the frame at index \<open>i\<close>. The frame's position is advanced
  before the child is pushed; \<open>attached\<close> says that the pointer still leads into the slice.\<close>

definition pushed :: "node option \<Rightarrow> bool" where
  "pushed child \<longleftrightarrow> (case child of None \<Rightarrow> False | Some n \<Rightarrow> kind n \<noteq> KindNil)"

fun branch_loop :: "(nat \<Rightarrow> nat) \<Rightarrow> nat \<Rightarrow> (nat \<times> node option) list \<Rightarrow> bool \<Rightarrow> trie_iterator \<Rightarrow> trie_iterator" where
  "branch_loop grow i [] attached it = it"
| "branch_loop grow i ((p, child) # rest) attached it =
     (let it1 = (if attached then set_pos i (p + 1) it else it) in
      if pushed child then
        branch_loop grow i rest (attached \<and> length (ti_stack it1) \<noteq> ti_cap it1) (push_frame grow (the child) it1)
      else branch_loop grow i rest attached it1)"

text \<open>\<open>advance\<close>. The \<open>continue\<close> in the loop over the children continues that loop, so that after it the last frame
  of the stack is dropped, whether it is the branch or the last child.\<close>

partial_function (option) advance :: "nodedb option \<Rightarrow> (nat \<Rightarrow> nat) \<Rightarrow> trie_iterator \<Rightarrow> trie_iterator option" where
  "advance db grow it =
     (if ti_stack it = [] then Some it
      else case if_node (last (ti_stack it)) of
        NilNode \<Rightarrow> advance db grow (pop_frame it)
      | HashNode h \<Rightarrow> (case db of
            None \<Rightarrow> advance db grow (pop_frame it)
          | Some get \<Rightarrow> (case get h of
              None \<Rightarrow> Some (it\<lparr>ti_err := True\<rparr>)
            | Some n \<Rightarrow> advance db grow (set_top_node n it)))
      | Leaf suffix v m \<Rightarrow> Some (build_leaf_key suffix v it)
      | Ext pre n m \<Rightarrow> advance db grow (push_frame grow n it)
      | Branch children v m \<Rightarrow>
          (let i = length (ti_stack it) - 1; p = if_pos (last (ti_stack it)) in
           if v \<noteq> None \<and> p = 0 then Some (set_pos i 1 (build_branch_value v it))
           else advance db grow (pop_frame (branch_loop grow i (zip [p..<16] (drop p children)) True it))))"

definition new_trie_iterator :: "nodedb option \<Rightarrow> (nat \<Rightarrow> nat) \<Rightarrow> trie \<Rightarrow> trie_iterator option" where
  "new_trie_iterator db grow t = advance db grow (push_frame grow (root t)
     \<lparr>ti_stack = [], ti_cap = 0, ti_key = None, ti_value = None, ti_err = False\<rparr>)"

definition trie_next :: "nodedb option \<Rightarrow> (nat \<Rightarrow> nat) \<Rightarrow> trie_iterator \<Rightarrow> (bool \<times> trie_iterator) option" where
  "trie_next db grow it =
     (if ti_err it then Some (False, it)
      else if ti_stack it = [] then Some (False, it)
      else map_option (\<lambda>it'. (ti_stack it' \<noteq> [], it')) (advance db grow (it\<lparr>ti_key := None, ti_value := None\<rparr>)))"

definition trie_it_key :: "trie_iterator \<Rightarrow> gobytes" where
  "trie_it_key it = ti_key it"

definition trie_it_value :: "trie_iterator \<Rightarrow> gobytes" where
  "trie_it_value it = ti_value it"

definition trie_it_error :: "trie_iterator \<Rightarrow> bool" where
  "trie_it_error it = ti_err it"

end
