(* ===== verification/TrieIteratorProps.thy ===== *)
theory TrieIteratorProps
  imports TrieIterator
begin

text \<open>
  What the iterator over a trie does: of a trie with one key it yields nothing, and over a trie whose keys share a
  prefix it never ends, but returns the value of the first key again and again.
\<close>

section \<open>The loop over the children\<close>

lemma push_frame_simps [simp]: "ti_stack (push_frame grow n it) = ti_stack it @ [new_frame n]"
  "ti_key (push_frame grow n it) = ti_key it" "ti_value (push_frame grow n it) = ti_value it" "ti_err (push_frame grow n it) = ti_err it"
  by (simp_all add: push_frame_def)

lemma set_pos_simps [simp]: "ti_stack (set_pos i p it) = (ti_stack it)[i := (ti_stack it ! i)\<lparr>if_pos := p\<rparr>]"
  "ti_key (set_pos i p it) = ti_key it" "ti_value (set_pos i p it) = ti_value it" "ti_err (set_pos i p it) = ti_err it"
  by (simp_all add: set_pos_def)

definition children_frames :: "(nat \<times> node option) list \<Rightarrow> iter_frame list" where
  "children_frames cs = map (\<lambda>(p, child). new_frame (the child)) (filter (\<lambda>(p, child). pushed child) cs)"

lemma branch_loop_keeps:
  "ti_key (branch_loop grow i cs att it) = ti_key it" "ti_value (branch_loop grow i cs att it) = ti_value it"
  "ti_err (branch_loop grow i cs att it) = ti_err it"
  by (induction grow i cs att it rule: branch_loop.induct) (simp_all add: Let_def)

text \<open>The children go onto the stack in order; the position of the branch is the last one that was written before
  the slice moved.\<close>

lemma branch_loop_stack:
  assumes "i < length (ti_stack it)"
  shows "\<exists>q. ti_stack (branch_loop grow i cs att it) = (ti_stack it)[i := (ti_stack it ! i)\<lparr>if_pos := q\<rparr>] @ children_frames cs
    \<and> (q = if_pos (ti_stack it ! i) \<or> q \<in> (\<lambda>(p, c). Suc p) ` set cs)"
  using assms
proof (induction cs arbitrary: att it)
  case Nil
  have "(ti_stack it ! i)\<lparr>if_pos := if_pos (ti_stack it ! i)\<rparr> = ti_stack it ! i" by simp
  then show ?case by (intro exI [of _ "if_pos (ti_stack it ! i)"]) (simp add: children_frames_def)
next
  case (Cons c cs)
  obtain p child where c: "c = (p, child)" by (cases c)
  define it1 where "it1 = (if att then set_pos i (p + 1) it else it)"
  have l: "i < length (ti_stack it1)" "length (ti_stack it1) = length (ti_stack it)" using Cons.prems by (simp_all add: it1_def)
  have s1: "\<exists>q1. ti_stack it1 = (ti_stack it)[i := (ti_stack it ! i)\<lparr>if_pos := q1\<rparr>] \<and> (q1 = if_pos (ti_stack it ! i) \<or> q1 = Suc p)"
  proof (cases att)
    case True
    then show ?thesis by (intro exI [of _ "Suc p"]) (simp add: it1_def)
  next
    case False
    then show ?thesis by (intro exI [of _ "if_pos (ti_stack it ! i)"]) (simp add: it1_def)
  qed
  then obtain q1 where q1: "ti_stack it1 = (ti_stack it)[i := (ti_stack it ! i)\<lparr>if_pos := q1\<rparr>]" "q1 = if_pos (ti_stack it ! i) \<or> q1 = Suc p" by blast
  define it2 where "it2 = (if pushed child then push_frame grow (the child) it1 else it1)"
  define att2 where "att2 = (if pushed child then att \<and> length (ti_stack it1) \<noteq> ti_cap it1 else att)"
  have step: "branch_loop grow i (c # cs) att it = branch_loop grow i cs att2 it2"
    by (simp add: c it1_def it2_def att2_def Let_def)
  have s2: "ti_stack it2 = ti_stack it1 @ children_frames [c]" by (simp add: it2_def children_frames_def c)
  have i2: "i < length (ti_stack it2)" "ti_stack it2 ! i = ti_stack it1 ! i" using l s2 by (simp_all add: nth_append)
  from Cons.IH [OF i2(1), of att2] obtain q where
    q: "ti_stack (branch_loop grow i cs att2 it2) = (ti_stack it2)[i := (ti_stack it2 ! i)\<lparr>if_pos := q\<rparr>] @ children_frames cs"
      "q = if_pos (ti_stack it2 ! i) \<or> q \<in> (\<lambda>(p, c). Suc p) ` set cs" by blast
  have e: "children_frames (c # cs) = children_frames [c] @ children_frames cs" by (simp add: children_frames_def)
  have n: "ti_stack it1 ! i = (ti_stack it ! i)\<lparr>if_pos := q1\<rparr>" using q1(1) Cons.prems by simp
  have "(ti_stack it2)[i := (ti_stack it2 ! i)\<lparr>if_pos := q\<rparr>] = (ti_stack it)[i := (ti_stack it ! i)\<lparr>if_pos := q\<rparr>] @ children_frames [c]"
    using l q1(1) i2(2) n by (simp add: s2 list_update_append)
  moreover have "q = if_pos (ti_stack it ! i) \<or> q \<in> (\<lambda>(p, c). Suc p) ` set (c # cs)"
    using q(2) q1(2) i2(2) n by (auto simp: c)
  ultimately show ?case unfolding step q(1) e by (intro exI [of _ q]) simp
qed

text \<open>With a loop over all positions, an attached pointer writes at least the position of the first child pushed.\<close>

lemma branch_loop_first:
  assumes "i < length (ti_stack it)" "\<forall>(p, c) \<in> set cs. \<not> pushed c" "cs' = cs @ (p, Some n) # rest" "pushed (Some n)"
    "\<forall>(r, c) \<in> set rest. p < r"
  shows "\<exists>q. ti_stack (branch_loop grow i cs' True it) = (ti_stack it)[i := (ti_stack it ! i)\<lparr>if_pos := q\<rparr>] @ children_frames cs' \<and> p < q"
  using assms(1,2) unfolding assms(3)
proof (induction cs arbitrary: it)
  case Nil
  let ?it1 = "set_pos i (p + 1) it"
  let ?it2 = "push_frame grow n ?it1"
  have l: "i < length (ti_stack ?it2)" using Nil by simp
  obtain q where q: "ti_stack (branch_loop grow i rest (length (ti_stack ?it1) \<noteq> ti_cap ?it1) ?it2) = (ti_stack ?it2)[i := (ti_stack ?it2 ! i)\<lparr>if_pos := q\<rparr>] @ children_frames rest"
    "q = if_pos (ti_stack ?it2 ! i) \<or> q \<in> (\<lambda>(p, c). Suc p) ` set rest" using branch_loop_stack [OF l] by blast
  have "p < q" using q(2) assms(5) Nil(1) by (auto simp: nth_append)
  moreover have "children_frames ((p, Some n) # rest) = new_frame n # children_frames rest"
    using assms(4) by (simp add: children_frames_def)
  ultimately show ?case using q(1) assms(4) Nil(1) by (intro exI [of _ q]) (simp add: Let_def nth_append list_update_append)
next
  case (Cons c cs)
  obtain r child where c: "c = (r, child)" by (cases c)
  have np: "\<not> pushed child" using Cons.prems(2) c by simp
  have l: "i < length (ti_stack (set_pos i (r + 1) it))" using Cons.prems(1) by simp
  from Cons.IH [OF l] Cons.prems(2) obtain q where
    q: "ti_stack (branch_loop grow i (cs @ (p, Some n) # rest) True (set_pos i (r + 1) it)) =
      (ti_stack (set_pos i (r + 1) it))[i := (ti_stack (set_pos i (r + 1) it) ! i)\<lparr>if_pos := q\<rparr>] @ children_frames (cs @ (p, Some n) # rest)" "p < q"
    by auto
  have "children_frames (c # cs @ (p, Some n) # rest) = children_frames (cs @ (p, Some n) # rest)" using np by (simp add: children_frames_def c)
  then show ?case using q np Cons.prems(1) by (intro exI [of _ q]) (simp add: c Let_def)
qed

section \<open>Extensions\<close>

text \<open>An extension at the bottom of the stack is never dropped: a stack of one frame is left alone by the
  branches, leaves and empty nodes above it.\<close>

definition ext_bottom :: "iter_frame list \<Rightarrow> bool" where
  "ext_bottom s \<longleftrightarrow> s \<noteq> [] \<and> (\<exists>pre n m. if_node (hd s) = Ext pre n m)"

lemma ext_bottom_push: "ext_bottom s \<Longrightarrow> ext_bottom (s @ t)"
  by (simp add: ext_bottom_def)

lemma ext_bottom_pop: "ext_bottom s \<Longrightarrow> length s \<noteq> 1 \<Longrightarrow> ext_bottom (butlast s)"
  by (cases s) (auto simp: ext_bottom_def)

lemma ext_bottom_last: "ext_bottom s \<Longrightarrow> length s = 1 \<Longrightarrow> \<exists>pre n m. if_node (last s) = Ext pre n m"
  by (cases s) (auto simp: ext_bottom_def)

lemma ext_bottom_update: "ext_bottom s \<Longrightarrow> if_node f = if_node (s ! i) \<Longrightarrow> ext_bottom (s[i := f])"
  by (cases s; cases i) (auto simp: ext_bottom_def)

lemma branch_pop_bottom:
  assumes e: "ext_bottom (ti_stack it)" and l: "length (ti_stack it) \<noteq> 1" and i: "i = length (ti_stack it) - 1"
  shows "ext_bottom (ti_stack (pop_frame (branch_loop grow i cs att it)))"
proof -
  have "i < length (ti_stack it)" using e i by (cases "ti_stack it") (auto simp: ext_bottom_def)
  from branch_loop_stack [OF this] obtain q where
    q: "ti_stack (branch_loop grow i cs att it) = (ti_stack it)[i := (ti_stack it ! i)\<lparr>if_pos := q\<rparr>] @ children_frames cs" by blast
  have "ext_bottom (ti_stack (branch_loop grow i cs att it))" unfolding q by (intro ext_bottom_push ext_bottom_update [OF e]) simp
  moreover have "length (ti_stack (branch_loop grow i cs att it)) \<noteq> 1"   proof -
    have "length (ti_stack (branch_loop grow i cs att it)) = length (ti_stack it) + length (children_frames cs)" unfolding q by simp
    moreover have "length (ti_stack it) \<noteq> 0" using e by (simp add: ext_bottom_def)
    ultimately show ?thesis using l by arith
  qed
  ultimately show ?thesis by (simp add: pop_frame_def ext_bottom_pop)
qed

lemma advance_bottom:
  assumes "advance db grow it = Some it'" "ext_bottom (ti_stack it)"
  shows "ext_bottom (ti_stack it')"
  using assms
proof (induction rule: advance.raw_induct [rotated 1, consumes 1])
  case (1 adv db grow it it')
  have ne: "ti_stack it \<noteq> []" using 1(3) by (simp add: ext_bottom_def)
  have len: "length (ti_stack it) \<noteq> 1" if "\<And>pre n m. if_node (last (ti_stack it)) \<noteq> Ext pre n m"
    using ext_bottom_last [OF 1(3)] that by blast
  have pop: "ext_bottom (ti_stack (pop_frame it))" if "\<And>pre n m. if_node (last (ti_stack it)) \<noteq> Ext pre n m"
    using ext_bottom_pop [OF 1(3) len [OF that]] by (simp add: pop_frame_def)
  show ?case
  proof (cases "if_node (last (ti_stack it))")
    case NilNode
    then show ?thesis using 1(1) [of db grow "pop_frame it" it'] 1(2) pop ne by simp
  next
    case (HashNode h)
    show ?thesis
    proof (cases db)
      case None
      then show ?thesis using 1(1) [of db grow "pop_frame it" it'] 1(2) pop ne HashNode by simp
    next
      case (Some get)
      have "ext_bottom (ti_stack (set_top_node n it))" for n
        using pop HashNode by (simp add: set_top_node_def pop_frame_def ext_bottom_push)
      then show ?thesis using 1(1) [of db grow "set_top_node _ it" it'] 1(2,3) ne HashNode Some by (auto split: option.splits)
    qed
  next
    case (Leaf suffix v m)
    then show ?thesis using 1(2) pop ne by (auto simp: build_leaf_key_def pop_frame_def)
  next
    case (Ext pre n m)
    then show ?thesis using 1(1) [of db grow "push_frame grow n it" it'] 1(2,3) ne by (simp add: ext_bottom_push)
  next
    case (Branch children v m)
    let ?i = "length (ti_stack it) - 1"
    have l: "length (ti_stack it) \<noteq> 1" using len Branch by simp
    show ?thesis
    proof (cases "v \<noteq> None \<and> if_pos (last (ti_stack it)) = 0")
      case True
      then have "it' = set_pos ?i 1 (build_branch_value v it)" using 1(2) ne Branch by (simp add: Let_def)
      then show ?thesis using ext_bottom_update [OF 1(3)] by (simp add: build_branch_value_def)
    next
      case False
      let ?b = "pop_frame (branch_loop grow ?i (zip [if_pos (last (ti_stack it))..<16] (drop (if_pos (last (ti_stack it))) children)) True it)"
      have "adv db grow ?b = Some it'" using 1(2) ne Branch False by (simp add: Let_def split: if_splits)
      then show ?thesis using 1(1) branch_pop_bottom [OF 1(3) l refl] by blast
    qed
  qed
qed

section \<open>A branch with two leaves under an extension\<close>

definition two_leaves :: "node option list \<Rightarrow> nat \<Rightarrow> nat \<Rightarrow> node \<Rightarrow> node \<Rightarrow> bool" where
  "two_leaves cs a b na nb \<longleftrightarrow> length cs = 16 \<and> a < b \<and> b < 16 \<and> cs ! a = Some na \<and> cs ! b = Some nb
     \<and> pushed (Some na) \<and> pushed (Some nb) \<and> (\<forall>i < 16. i \<noteq> a \<longrightarrow> i \<noteq> b \<longrightarrow> cs ! i = None)"

lemma zip_children: "length cs = 16 \<Longrightarrow> zip [p..<16] (drop p cs) = map (\<lambda>i. (i, cs ! i)) [p..<16]"
  by (rule nth_equalityI) auto

lemma upt_split: "p \<le> i \<Longrightarrow> i < n \<Longrightarrow> [p..<n] = [p..<i] @ i # [Suc i..<n]"
  by (metis le_Suc_ex less_imp_le upt_add_eq_append upt_conv_Cons le_add_diff_inverse)

lemma children_frames_append: "children_frames (xs @ ys) = children_frames xs @ children_frames ys"
  by (simp add: children_frames_def)

lemma children_frames_none:
  "two_leaves cs a b na nb \<Longrightarrow> (\<And>i. i \<in> set is \<Longrightarrow> i < 16 \<and> i \<noteq> a \<and> i \<noteq> b) \<Longrightarrow> children_frames (map (\<lambda>i. (i, cs ! i)) is) = []"
  by (auto simp: children_frames_def filter_empty_conv two_leaves_def pushed_def)

lemma children_frames_one:
  assumes "two_leaves cs a b na nb" "a < p"
  shows "children_frames (map (\<lambda>i. (i, cs ! i)) [p..<16]) = (if p \<le> b then [new_frame nb] else [])"
proof (cases "p \<le> b")
  case True
  have b: "b < 16" "cs ! b = Some nb" "pushed (Some nb)" "a < b" using assms(1) by (simp_all add: two_leaves_def)
  have "children_frames (map (\<lambda>i. (i, cs ! i)) [p..<b]) = []" "children_frames (map (\<lambda>i. (i, cs ! i)) [Suc b..<16]) = []"
    using assms b by (auto intro!: children_frames_none [OF assms(1)])
  then show ?thesis using True b
    by (simp add: upt_split [OF True b(1)] children_frames_append del: upt_Suc) (simp add: children_frames_def)
next
  case False
  then show ?thesis using assms by (auto intro!: children_frames_none [OF assms(1)])
qed

lemma children_frames_two:
  assumes "two_leaves cs a b na nb"
  shows "children_frames (map (\<lambda>i. (i, cs ! i)) [0..<16]) = [new_frame na, new_frame nb]"
proof -
  have a: "a < 16" "cs ! a = Some na" "pushed (Some na)" "Suc a \<le> b" using assms by (simp_all add: two_leaves_def)
  have "children_frames (map (\<lambda>i. (i, cs ! i)) [0..<a]) = []"
    using assms a by (auto intro!: children_frames_none [OF assms] simp: two_leaves_def)
  moreover have "children_frames (map (\<lambda>i. (i, cs ! i)) [Suc a..<16]) = [new_frame nb]"
    using children_frames_one [OF assms, of "Suc a"] a(4) by simp
  ultimately show ?thesis using a
    by (simp add: upt_split [of 0 a 16] children_frames_append del: upt_Suc) (simp add: children_frames_def)
qed

text \<open>A visit of the branch: the last child that is pushed is dropped again, and the position moves past the first.\<close>

definition branch_visit :: "(nat \<Rightarrow> nat) \<Rightarrow> nat \<Rightarrow> node option list \<Rightarrow> nat \<Rightarrow> trie_iterator \<Rightarrow> trie_iterator" where
  "branch_visit grow i cs p it = pop_frame (branch_loop grow i (zip [p..<16] (drop p cs)) True it)"

lemma branch_visit_keeps: "ti_err (branch_visit grow i cs p it) = ti_err it"
  by (simp add: branch_visit_def pop_frame_def branch_loop_keeps)

lemma visit_first:
  assumes two: "two_leaves cs a b na nb" and s: "ti_stack it = [fe, fb]"
  shows "\<exists>q. a < q \<and> ti_stack (branch_visit grow 1 cs 0 it) = [fe, fb\<lparr>if_pos := q\<rparr>, new_frame na]"
proof -
  have a: "a < 16" "cs ! a = Some na" "pushed (Some na)" "length cs = 16" using two by (simp_all add: two_leaves_def)
  have z: "zip [0..<16] (drop 0 cs) = map (\<lambda>i. (i, cs ! i)) [0..<a] @ (a, Some na) # map (\<lambda>i. (i, cs ! i)) [Suc a..<16]"
    using zip_children [OF a(4), of 0] a(2) by (simp add: upt_split [OF _ a(1)] del: upt_Suc)
  have np: "\<forall>(p, c) \<in> set (map (\<lambda>i. (i, cs ! i)) [0..<a]). \<not> pushed c"
    using two by (auto simp: two_leaves_def pushed_def)
  have l: "1 < length (ti_stack it)" using s by simp
  obtain q where "ti_stack (branch_loop grow 1 (zip [0..<16] (drop 0 cs)) True it) = (ti_stack it)[1 := (ti_stack it ! 1)\<lparr>if_pos := q\<rparr>] @ children_frames (zip [0..<16] (drop 0 cs))" "a < q"
    using branch_loop_first [OF l np z a(3)] by auto
  then show ?thesis using children_frames_two [OF two] zip_children [OF a(4), of 0] s
    by (intro exI [of _ q]) (simp add: branch_visit_def pop_frame_def)
qed

lemma visit_second:
  assumes two: "two_leaves cs a b na nb" and s: "ti_stack it = [fe, fb]" and p: "a < p" "p \<le> b"
  shows "\<exists>q. b < q \<and> ti_stack (branch_visit grow 1 cs p it) = [fe, fb\<lparr>if_pos := q\<rparr>]"
proof -
  have b: "b < 16" "cs ! b = Some nb" "pushed (Some nb)" "length cs = 16" using two by (simp_all add: two_leaves_def)
  have z: "zip [p..<16] (drop p cs) = map (\<lambda>i. (i, cs ! i)) [p..<b] @ (b, Some nb) # map (\<lambda>i. (i, cs ! i)) [Suc b..<16]"
    using zip_children [OF b(4), of p] b(2) by (simp add: upt_split [OF p(2) b(1)] del: upt_Suc)
  have np: "\<forall>(r, c) \<in> set (map (\<lambda>i. (i, cs ! i)) [p..<b]). \<not> pushed c"
    using two p by (auto simp: two_leaves_def pushed_def)
  have l: "1 < length (ti_stack it)" using s by simp
  obtain q where "ti_stack (branch_loop grow 1 (zip [p..<16] (drop p cs)) True it) = (ti_stack it)[1 := (ti_stack it ! 1)\<lparr>if_pos := q\<rparr>] @ children_frames (zip [p..<16] (drop p cs))" "b < q"
    using branch_loop_first [OF l np z b(3)] by auto
  then show ?thesis using children_frames_one [OF two p(1)] p(2) zip_children [OF b(4), of p] s
    by (intro exI [of _ q]) (simp add: branch_visit_def pop_frame_def)
qed

lemma visit_third:
  assumes two: "two_leaves cs a b na nb" and s: "ti_stack it = [fe, fb]" and p: "b < p"
  shows "ti_stack (branch_visit grow 1 cs p it) = [fe]"
proof -
  have l: "1 < length (ti_stack it)" "length cs = 16" "a < p" using s two p by (simp_all add: two_leaves_def)
  obtain q where "ti_stack (branch_loop grow 1 (zip [p..<16] (drop p cs)) True it) = (ti_stack it)[1 := (ti_stack it ! 1)\<lparr>if_pos := q\<rparr>] @ children_frames (zip [p..<16] (drop p cs))"
    using branch_loop_stack [OF l(1)] by blast
  then show ?thesis using children_frames_one [OF two l(3)] p zip_children [OF l(2), of p] s
    by (simp add: branch_visit_def pop_frame_def)
qed

text \<open>An advance from the extension alone stops at the first leaf.\<close>

lemma advance_from_extension:
  assumes two: "two_leaves cs a b (Leaf sa va ma) nb" and s: "ti_stack it = [fe]" and fe: "if_node fe = Ext pre (Branch cs None m) m'"
  shows "\<exists>it' q fb. advance db grow it = Some it' \<and> ti_stack it' = [fe, fb] \<and> if_node fb = Branch cs None m \<and> if_pos fb = q \<and> a < q
    \<and> ti_value it' = va \<and> ti_key it' = (if pre @ sa = [] then None else Some (pre @ sa)) \<and> ti_err it' = ti_err it"
proof -
  let ?B = "Branch cs None m" and ?it1 = "push_frame grow (Branch cs None m) it"
  have 1: "advance db grow it = advance db grow ?it1" using s fe by (subst advance.simps) simp
  have s1: "ti_stack ?it1 = [fe, new_frame ?B]" using s by simp
  let ?it2 = "branch_visit grow 1 cs 0 ?it1"
  have 2: "advance db grow ?it1 = advance db grow ?it2"
    using s1 by (subst advance.simps) (simp add: new_frame_def branch_visit_def)
  obtain q where q: "a < q" "ti_stack ?it2 = [fe, (new_frame ?B)\<lparr>if_pos := q\<rparr>, new_frame (Leaf sa va ma)]"
    using visit_first [OF two s1] by blast
  have 3: "advance db grow ?it2 = Some (build_leaf_key sa va ?it2)"
    using q(2) by (subst advance.simps) (simp add: new_frame_def)
  have e: "ti_err (branch_visit grow 1 cs 0 ?it1) = ti_err it" by (simp add: branch_visit_keeps)
  have k: "path_key (ti_stack ?it2) sa = (if pre @ sa = [] then None else Some (pre @ sa))"
    using q(2) fe by (simp add: path_key_def new_frame_def Let_def)
  show ?thesis
    by (rule exI [of _ "build_leaf_key sa va ?it2"], rule exI [of _ q], rule exI [of _ "(new_frame ?B)\<lparr>if_pos := q\<rparr>"])
      (use 1 2 3 e k q in \<open>simp add: build_leaf_key_def pop_frame_def new_frame_def\<close>)
qed

text \<open>An advance from the branch after its first leaf comes back to that leaf.\<close>

lemma advance_again:
  assumes two: "two_leaves cs a b (Leaf sa va ma) nb" and s: "ti_stack it = [fe, fb]" and fe: "if_node fe = Ext pre (Branch cs None m) m'"
    and fb: "if_node fb = Branch cs None m" "a < if_pos fb"
  shows "\<exists>it' fb'. advance db grow it = Some it' \<and> ti_stack it' = [fe, fb'] \<and> if_node fb' = Branch cs None m \<and> a < if_pos fb'
    \<and> ti_value it' = va \<and> ti_key it' = (if pre @ sa = [] then None else Some (pre @ sa)) \<and> ti_err it' = ti_err it"
proof -
  have visit: "advance db grow it0 = advance db grow (branch_visit grow 1 cs (if_pos f) it0)"
    if "ti_stack it0 = [fe, f]" "if_node f = Branch cs None m" for it0 f
    using that by (subst advance.simps) (simp add: branch_visit_def Let_def)
  have last: ?thesis if "advance db grow it = advance db grow it3" "ti_stack it3 = [fe, f3]" "if_node f3 = Branch cs None m" "b < if_pos f3" "ti_err it3 = ti_err it" for it3 f3
  proof -
    let ?it4 = "branch_visit grow 1 cs (if_pos f3) it3"
    have "ti_stack ?it4 = [fe]" using visit_third [OF two that(2,4)] .
    from advance_from_extension [OF two this fe, of db grow] show ?thesis
      using that(1,5) visit [OF that(2,3)] branch_visit_keeps [of grow 1 cs "if_pos f3" it3] by auto
  qed
  show ?thesis
  proof (cases "if_pos fb \<le> b")
    case True
    let ?it2 = "branch_visit grow 1 cs (if_pos fb) it"
    obtain q where q: "b < q" "ti_stack ?it2 = [fe, fb\<lparr>if_pos := q\<rparr>]" using visit_second [OF two s fb(2) True] by blast
    show ?thesis using last [OF visit [OF s fb(1)] q(2)] q(1) fb(1) branch_visit_keeps by simp
  next
    case False
    then show ?thesis using last [OF refl s fb(1)] by simp
  qed
qed

section \<open>Properties\<close>

text \<open>Of a trie with a single key the iterator yields nothing: the constructor has already gone past the leaf,
  and the first \<open>Next\<close> says that there is none.\<close>

theorem single_key_skipped:
  "\<exists>it. new_trie_iterator db grow \<lparr>root = Leaf suffix v m, trie_dirty = d\<rparr> = Some it \<and> trie_next db grow it = Some (False, it)"
proof -
  let ?it0 = "push_frame grow (Leaf suffix v m) \<lparr>ti_stack = [], ti_cap = 0, ti_key = None, ti_value = None, ti_err = False\<rparr>"
  have "advance db grow ?it0 = Some (build_leaf_key suffix v ?it0)" by (subst advance.simps) (simp add: new_frame_def)
  moreover have "ti_stack (build_leaf_key suffix v ?it0) = []" by (simp add: build_leaf_key_def pop_frame_def)
  ultimately show ?thesis by (simp add: new_trie_iterator_def trie_next_def)
qed

fun trie_nexts :: "nodedb option \<Rightarrow> (nat \<Rightarrow> nat) \<Rightarrow> nat \<Rightarrow> trie_iterator \<Rightarrow> trie_iterator option" where
  "trie_nexts db grow 0 it = Some it"
| "trie_nexts db grow (Suc n) it = (case trie_next db grow it of None \<Rightarrow> None | Some (found, it') \<Rightarrow> trie_nexts db grow n it')"

lemma trie_next_bottom:
  "trie_next db grow it = Some (found, it') \<Longrightarrow> ext_bottom (ti_stack it) \<Longrightarrow> ext_bottom (ti_stack it')"
  by (auto simp: trie_next_def split: if_splits intro: advance_bottom)

lemma trie_nexts_bottom: "trie_nexts db grow n it = Some it' \<Longrightarrow> ext_bottom (ti_stack it) \<Longrightarrow> ext_bottom (ti_stack it')"
  by (induction n arbitrary: it) (auto split: option.splits dest: trie_next_bottom)

text \<open>Over a trie whose root is an extension the iterator never ends: however often \<open>Next\<close> has been called,
  it says that there is another entry, unless a node could not be read.\<close>

theorem extension_never_ends:
  assumes "new_trie_iterator db grow \<lparr>root = Ext pre n m, trie_dirty = d\<rparr> = Some it" "trie_nexts db grow k it = Some it'"
    "\<not> ti_err it'" "trie_next db grow it' = Some (found, it'')"
  shows "found"
proof -
  have "ext_bottom (ti_stack it)"
    using advance_bottom assms(1) by (fastforce simp: new_trie_iterator_def ext_bottom_def new_frame_def)
  then have "ext_bottom (ti_stack it')" by (rule trie_nexts_bottom [OF assms(2)])
  then show ?thesis using assms(3,4) trie_next_bottom [OF assms(4)] by (auto simp: trie_next_def ext_bottom_def split: if_splits)
qed

text \<open>C26: Over an extension to a branch with two leaves every \<open>Next\<close> succeeds and returns the value of the first leaf,
  under a key that lacks the nibble of the branch; the second leaf is never returned.\<close>

theorem iterator_repeats_first:
  assumes "two_leaves cs a b (Leaf sa va ma) nb"
  shows "\<exists>it. new_trie_iterator db grow \<lparr>root = Ext pre (Branch cs None m) m', trie_dirty = d\<rparr> = Some it
    \<and> (\<forall>k. \<exists>it' it''. trie_nexts db grow k it = Some it' \<and> trie_next db grow it' = Some (True, it'')
        \<and> trie_it_value it'' = va \<and> trie_it_key it'' = (if pre @ sa = [] then None else Some (pre @ sa)))"
proof -
  let ?R = "Ext pre (Branch cs None m) m'"
  define here where "here it \<longleftrightarrow> (\<exists>fe fb. ti_stack it = [fe, fb] \<and> if_node fe = ?R \<and> if_node fb = Branch cs None m \<and> a < if_pos fb) \<and> \<not> ti_err it" for it :: trie_iterator
  let ?it0 = "push_frame grow ?R \<lparr>ti_stack = [], ti_cap = 0, ti_key = None, ti_value = None, ti_err = False\<rparr>"
  have "ti_stack ?it0 = [new_frame ?R]" "if_node (new_frame ?R) = ?R" by (simp_all add: new_frame_def)
  from advance_from_extension [OF assms this, of db grow] obtain it where
    it: "advance db grow ?it0 = Some it" "here it" unfolding here_def by (auto simp: new_frame_def)
  have step: "\<exists>it''. trie_next db grow it' = Some (True, it'') \<and> here it'' \<and> ti_value it'' = va \<and> ti_key it'' = (if pre @ sa = [] then None else Some (pre @ sa))"
    if h: "here it'" for it'
  proof -
    obtain fe fb where f: "ti_stack it' = [fe, fb]" "if_node fe = ?R" "if_node fb = Branch cs None m" "a < if_pos fb" "\<not> ti_err it'"
      using h by (auto simp: here_def)
    let ?i = "it'\<lparr>ti_key := None, ti_value := None\<rparr>"
    have "ti_stack ?i = [fe, fb]" using f(1) by simp
    from advance_again [OF assms this f(2,3,4), of db grow] obtain it'' fb' where
      n: "advance db grow ?i = Some it''" "ti_stack it'' = [fe, fb']" "if_node fb' = Branch cs None m" "a < if_pos fb'"
        "ti_value it'' = va" "ti_key it'' = (if pre @ sa = [] then None else Some (pre @ sa))" "ti_err it'' = ti_err it'" by auto
    then show ?thesis using f by (auto simp: trie_next_def here_def)
  qed
  have reach: "\<exists>it'. trie_nexts db grow k i = Some it' \<and> here it'" if "here i" for k i
    using that
  proof (induction k arbitrary: i)
    case (Suc k)
    from step [OF Suc.prems] Suc.IH show ?case by auto
  qed simp
  have "\<exists>it' it''. trie_nexts db grow k it = Some it' \<and> trie_next db grow it' = Some (True, it'')
      \<and> ti_value it'' = va \<and> ti_key it'' = (if pre @ sa = [] then None else Some (pre @ sa))" for k
  proof -
    obtain it' where 1: "trie_nexts db grow k it = Some it'" "here it'" using reach [OF it(2)] by blast
    show ?thesis using 1(1) step [OF 1(2)] by blast
  qed
  then show ?thesis using it(1) unfolding new_trie_iterator_def trie_it_value_def trie_it_key_def trie.simps by blast
qed

text \<open>Two keys that share the nibble 7: after three calls the first value comes a fourth time.\<close>

theorem iterator_repeats_first_witness:
  "\<exists>it it' it''. new_trie_iterator None (\<lambda>c. 2 * c + 1)
       \<lparr>root = Ext [7] (Branch ((replicate 16 None)[2 := Some (Leaf [1] (Some [10]) fresh_meta), 9 := Some (Leaf [3] (Some [20]) fresh_meta)]) None fresh_meta) fresh_meta, trie_dirty = False\<rparr> = Some it
     \<and> trie_nexts None (\<lambda>c. 2 * c + 1) 3 it = Some it' \<and> trie_next None (\<lambda>c. 2 * c + 1) it' = Some (True, it'')
     \<and> trie_it_value it'' = Some [10] \<and> trie_it_key it'' = Some [7, 1]"
proof -
  have "two_leaves ((replicate 16 None)[2 := Some (Leaf [1] (Some [10]) fresh_meta), 9 := Some (Leaf [3] (Some [20]) fresh_meta)]) 2 9
      (Leaf [1] (Some [10]) fresh_meta) (Leaf [3] (Some [20]) fresh_meta)"
    by (simp add: two_leaves_def pushed_def nth_list_update)
  from iterator_repeats_first [OF this, of None "\<lambda>c. 2 * c + 1" "[7]" fresh_meta fresh_meta False] obtain it where it:
    "new_trie_iterator None (\<lambda>c. 2 * c + 1)
       \<lparr>root = Ext [7] (Branch ((replicate 16 None)[2 := Some (Leaf [1] (Some [10]) fresh_meta), 9 := Some (Leaf [3] (Some [20]) fresh_meta)]) None fresh_meta) fresh_meta, trie_dirty = False\<rparr> = Some it"
    "\<forall>k. \<exists>it' it''. trie_nexts None (\<lambda>c. 2 * c + 1) k it = Some it' \<and> trie_next None (\<lambda>c. 2 * c + 1) it' = Some (True, it'')
        \<and> trie_it_value it'' = Some [10] \<and> trie_it_key it'' = Some [7, 1]" by auto
  from it(2) [rule_format, of 3] it(1) show ?thesis by blast
qed

end
