(* ===== verification/CryptoWrap.thy ===== *)
theory CryptoWrap
  imports ChainTypes GoText
begin

text \<open>
  The wrappers of \<^verbatim>\<open>src/internal/crypto\<close>: hashing, addresses of public keys, Ed25519 keys and signatures.
  SHA-256, BLAKE3 and Ed25519 are parameters: \<open>sha\<close> and \<open>blake\<close> hash the bytes written, \<open>derive\<close> gives the
  public key of a 32-byte seed, \<open>ed_sign\<close> and \<open>ed_verify\<close> sign and check. A private key of the library is its
  seed followed by its public key.
\<close>

section \<open>Hashes\<close>

definition sha256_hash :: "(byte list \<Rightarrow> hash) \<Rightarrow> byte list list \<Rightarrow> byte list" where
  "sha256_hash sha data = sha (concat data)"

definition blake3_hash :: "(byte list \<Rightarrow> hash) \<Rightarrow> byte list list \<Rightarrow> byte list" where
  "blake3_hash blake data = blake (concat data)"

definition sha256_to_hash :: "(byte list \<Rightarrow> hash) \<Rightarrow> byte list list \<Rightarrow> hash" where
  "sha256_to_hash sha data = copy_left 32 (sha256_hash sha data)"

definition blake3_to_hash :: "(byte list \<Rightarrow> hash) \<Rightarrow> byte list list \<Rightarrow> hash" where
  "blake3_to_hash blake data = copy_left 32 (blake3_hash blake data)"

definition keccak256_hash :: "(byte list \<Rightarrow> hash) \<Rightarrow> byte list \<Rightarrow> hash" where
  "keccak256_hash sha data = sha256_to_hash sha [data]"

text \<open>The value that \<open>init\<close> stores in \<open>EmptyCodeHash\<close>.\<close>

definition initial_code_hash :: "(byte list \<Rightarrow> hash) \<Rightarrow> hash" where
  "initial_code_hash sha = sha256_to_hash sha [[]]"

section \<open>Addresses\<close>

definition public_key_len :: nat where "public_key_len = 32"
definition private_key_len :: nat where "private_key_len = 64"
definition signature_size :: nat where "signature_size = 64"
definition seed_size :: nat where "seed_size = 32"

definition err_invalid_pub_key_len :: string where "err_invalid_pub_key_len = ''invalid public key length''"

definition pub_key_to_address :: "(byte list \<Rightarrow> hash) \<Rightarrow> byte list \<Rightarrow> address" where
  "pub_key_to_address sha pub = copy_left 20 (take 20 (sha256_hash sha [pub]))"

definition pub_key_bytes_to_address :: "(byte list \<Rightarrow> hash) \<Rightarrow> byte list \<Rightarrow> (string, address) outcome" where
  "pub_key_bytes_to_address sha pub =
     (if length pub \<noteq> public_key_len then Err err_invalid_pub_key_len else Ok (pub_key_to_address sha pub))"

definition validate_address :: "string \<Rightarrow> bool" where
  "validate_address hexStr =
     (let s = (if length hexStr \<ge> 2 \<and> take 2 hexStr = ''0x'' then drop 2 hexStr else hexStr)
      in length s = 20 * 2 \<and> hex_decode s \<noteq> None)"

section \<open>Keys and signatures\<close>

text \<open>\<open>rnd\<close> is the key pair that the library draws, or its error.\<close>

definition generate_key :: "(string, byte list \<times> byte list) outcome \<Rightarrow> (string, byte list \<times> byte list) outcome" where
  "generate_key rnd = (case rnd of
     Ok (pub, priv) \<Rightarrow> Ok (pub, priv)
   | Err e \<Rightarrow> Err (''failed to generate ed25519 key: '' @ e)
   | Panic \<Rightarrow> Panic)"

definition generate_key_from_seed :: "(byte list \<Rightarrow> byte list) \<Rightarrow> byte list \<Rightarrow> byte list \<times> byte list" where
  "generate_key_from_seed derive seed =
     (let seed1 = (if length seed < seed_size then copy_left seed_size seed else seed);
          pub = derive (take seed_size seed1)
      in (pub, take seed_size seed1 @ pub))"

definition crypto_sign ::
  "(byte list \<Rightarrow> byte list \<Rightarrow> byte list) \<Rightarrow> byte list \<Rightarrow> byte list \<Rightarrow> (string, byte list) outcome" where
  "crypto_sign ed_sign privateKey msg =
     (if length privateKey \<noteq> private_key_len
      then Err (''invalid private key length: got '' @ format_decimal (length privateKey) @ '', expected '' @ format_decimal private_key_len)
      else Ok (ed_sign privateKey msg))"

definition crypto_verify ::
  "(byte list \<Rightarrow> byte list \<Rightarrow> byte list \<Rightarrow> bool) \<Rightarrow> byte list \<Rightarrow> byte list \<Rightarrow> byte list \<Rightarrow> bool" where
  "crypto_verify ed_verify publicKey msg sig =
     (if length publicKey \<noteq> public_key_len then False
      else if length sig \<noteq> signature_size then False
      else ed_verify publicKey msg sig)"

section \<open>Facts\<close>

lemmas key_lengths = public_key_len_def private_key_len_def signature_size_def seed_size_def

lemma length_copied [simp]: "length (copy_left n b) = n"
  by (simp add: copy_left_def)

lemma copy_left_take: "copy_left n (take n b) = copy_left n b"
  by (simp add: copy_left_def)

lemma copy_left_long: "n \<le> length b \<Longrightarrow> copy_left n b = take n b"
  by (simp add: copy_left_def)

lemma validate_strip: "validate_address s \<longleftrightarrow> length (strip_0x s) = 40 \<and> hex_decode (strip_0x s) \<noteq> None"
  by (simp add: validate_address_def strip_0x_def Let_def)

lemma length_hex_decode: "hex_decode s = Some b \<Longrightarrow> length s = 2 * length b"
  by (induction s arbitrary: b rule: hex_decode.induct) (auto split: option.splits)

text \<open>The seed that is used is the given one, cut or filled up with zeros.\<close>

lemma from_seed: "generate_key_from_seed derive seed = (derive (copy_left 32 seed), copy_left 32 seed @ derive (copy_left 32 seed))"
  by (auto simp: generate_key_from_seed_def Let_def key_lengths copy_left_def)

section \<open>Properties\<close>

text \<open>
  A string that \<open>ValidateAddress\<close> accepts is decoded by \<open>HexToAddress\<close> into 20 bytes whose encoding is
  accepted again and decodes to the same address.
\<close>

theorem validated_address_parses:
  assumes "validate_address s"
  shows "\<exists>a. hex_to_address s = Ok a \<and> length a = 20 \<and> hex_decode (strip_0x s) = Some a \<and>
    validate_address (hex_encode a) \<and> hex_to_address (hex_encode a) = Ok a"
proof -
  from assms obtain a where a: "hex_decode (strip_0x s) = Some a" "length (strip_0x s) = 40" by (auto simp: validate_strip)
  with length_hex_decode [OF a(1)] have "length a = 20" by simp
  with a show ?thesis by (auto simp: hex_to_address_def validate_strip Let_def)
qed

text \<open>
  The address of a public key is always valid text: its encoding passes \<open>ValidateAddress\<close> and
  decodes back to it.
\<close>

theorem key_address_valid:
  "validate_address (hex_encode (pub_key_to_address sha pub)) \<and>
   hex_to_address (hex_encode (pub_key_to_address sha pub)) = Ok (pub_key_to_address sha pub)"
  by (simp add: pub_key_to_address_def validate_strip hex_to_address_def Let_def)

text \<open>
  Seeds give the same private key exactly when they agree on 32 bytes, missing bytes counting
  as zeros: what a long seed holds beyond them is ignored, and a short one equals its zero-filled form.
\<close>

theorem seed_collisions:
  assumes "\<And>s. length (derive s) = 32"
  shows "snd (generate_key_from_seed derive s) = snd (generate_key_from_seed derive s') \<longleftrightarrow> copy_left 32 s = copy_left 32 s'"
  using assms by (auto simp: from_seed append_eq_append_conv)

text \<open>
  What is signed with the private key of a seed verifies under its public key, when the library's
  functions fit together on 32-byte seeds; keys and signatures of other lengths are refused with the
  lengths in the error, never handed to the library.
\<close>

theorem sign_verify_roundtrip:
  assumes "\<And>s. length (derive s) = 32" "\<And>k m. length (ed_sign k m) = 64"
    "\<And>s m. length s = 32 \<Longrightarrow> ed_verify (derive s) m (ed_sign (s @ derive s) m)"
  shows "case generate_key_from_seed derive seed of (pub, priv) \<Rightarrow>
    (\<exists>sig. crypto_sign ed_sign priv msg = Ok sig \<and> crypto_verify ed_verify pub msg sig \<and>
       \<not> crypto_verify ed_verify pub msg (sig @ [x]))"
  using assms by (simp add: from_seed crypto_sign_def crypto_verify_def key_lengths)

theorem validated_address_parses_witness:
  "\<exists>a. hex_to_address (''0x'' @ replicate 40 (CHR ''A'')) = Ok a \<and> length a = 20 \<and> a = replicate 20 0xAA"
proof -
  have v: "validate_address (''0x'' @ replicate 40 (CHR ''A''))" and d: "hex_decode (replicate 40 (CHR ''A'')) = Some (replicate 20 0xAA)"
    by code_simp+
  from validated_address_parses [OF v] d show ?thesis by (auto simp: strip_0x_def)
qed

theorem seed_collisions_witness:
  "snd (generate_key_from_seed (\<lambda>_. replicate 32 7) [1]) = snd (generate_key_from_seed (\<lambda>_. replicate 32 7) [1, 0])"
  using seed_collisions [of "\<lambda>_. replicate 32 7" "[1]" "[1, 0]"] by (simp add: copy_left_def numeral_nat)

theorem sign_verify_roundtrip_witness:
  "\<exists>sig. crypto_sign (\<lambda>k m. replicate 64 1) (snd (generate_key_from_seed (\<lambda>_. replicate 32 7) [1])) [2] = Ok sig \<and>
     crypto_verify (\<lambda>k m s. s = replicate 64 1) (fst (generate_key_from_seed (\<lambda>_. replicate 32 7) [1])) [2] sig"
  using sign_verify_roundtrip [where derive = "\<lambda>_. replicate 32 7" and ed_sign = "\<lambda>k m. replicate 64 1"
    and ed_verify = "\<lambda>k m s. s = replicate 64 1" and seed = "[1]" and msg = "[2]"]
  by (auto simp: case_prod_unfold)

end
