(* ===== verification/Gossip.thy ===== *)
theory Gossip
  imports Prelude
begin

text \<open>
  The gossip layer, \<^verbatim>\<open>src/internal/p2p/gossip\<close>: the topics a node has joined, its subscriptions and the loops
  that hand messages to the handlers. The router of the pubsub library is outside the model: \<open>router_api\<close> holds
  the calls that are made of it, on a state \<open>'r\<close> of its own; \<open>'h\<close> are the handlers.
\<close>

section \<open>Messages\<close>

definition topic_transactions :: string where "topic_transactions = ''aichain/tx/0.1''"
definition topic_blocks :: string where "topic_blocks = ''aichain/block/0.1''"
definition topic_votes :: string where "topic_votes = ''aichain/vote/0.1''"
definition topic_tasks :: string where "topic_tasks = ''aichain/task/0.1''"

definition all_topics :: "string list" where
  "all_topics = [topic_transactions, topic_blocks, topic_votes, topic_tasks]"

record gossip_message =
  gm_from :: string
  gm_topic :: string
  gm_data :: "8 word list"
  gm_seq_no :: "64 word"

record gossip_block =
  gb_data :: "8 word list"
  gb_hash :: string

record gossip_transaction =
  gt_data :: "8 word list"
  gt_hash :: string

record gossip_vote =
  gv_type :: string
  gv_height :: "64 word"
  gv_round :: "64 word"
  gv_block_hash :: string
  gv_validator :: string
  gv_signature :: string

section \<open>The router and the state\<close>

record 'r router_api =
  ra_join :: "string \<Rightarrow> 'r \<Rightarrow> (string, unit) outcome \<times> 'r"
  ra_subscribe :: "string \<Rightarrow> 'r \<Rightarrow> (string, unit) outcome \<times> 'r"
  ra_cancel :: "string \<Rightarrow> 'r \<Rightarrow> 'r"
  ra_close :: "string \<Rightarrow> 'r \<Rightarrow> 'r"
  ra_publish :: "string \<Rightarrow> 8 word list \<Rightarrow> 'r \<Rightarrow> (string, unit) outcome \<times> 'r"

text \<open>\<open>gs_loops\<close> are the loops that have been started.\<close>

record ('h, 'r) gossip_state =
  gs_topics :: "string set"
  gs_subs :: "string set"
  gs_handlers :: "string \<Rightarrow> 'h option"
  gs_loops :: "(string \<times> 'h) list"
  gs_cancelled :: bool
  gs_router :: 'r

definition new_pub_sub :: "(string, 'r) outcome \<Rightarrow> (string, ('h, 'r) gossip_state) outcome" where
  "new_pub_sub router = (case router of
     Ok r \<Rightarrow> Ok \<lparr>gs_topics = {}, gs_subs = {}, gs_handlers = Map.empty, gs_loops = [], gs_cancelled = False, gs_router = r\<rparr>
   | Err e \<Rightarrow> Err (''gossipsub: '' @ e)
   | Panic \<Rightarrow> Panic)"

definition gossip_join ::
  "'r router_api \<Rightarrow> string \<Rightarrow> 'h option \<Rightarrow> ('h, 'r) gossip_state \<Rightarrow> (string, unit) outcome \<times> ('h, 'r) gossip_state" where
  "gossip_join api topic handler s =
     (if topic \<in> gs_topics s then (Ok (), s)
      else case ra_join api topic (gs_router s) of
        (Err e, r1) \<Rightarrow> (Err (''join topic '' @ topic @ '': '' @ e), s\<lparr>gs_router := r1\<rparr>)
      | (Panic, r1) \<Rightarrow> (Panic, s\<lparr>gs_router := r1\<rparr>)
      | (Ok _, r1) \<Rightarrow>
          let s1 = s\<lparr>gs_topics := insert topic (gs_topics s), gs_router := r1\<rparr> in
          (case ra_subscribe api topic r1 of
             (Err e, r2) \<Rightarrow> (Err (''subscribe topic '' @ topic @ '': '' @ e), s1\<lparr>gs_router := r2\<rparr>)
           | (Panic, r2) \<Rightarrow> (Panic, s1\<lparr>gs_router := r2\<rparr>)
           | (Ok _, r2) \<Rightarrow>
               let s2 = s1\<lparr>gs_subs := insert topic (gs_subs s1), gs_router := r2\<rparr> in
               (Ok (), case handler of None \<Rightarrow> s2
                 | Some h \<Rightarrow> s2\<lparr>gs_handlers := (gs_handlers s2)(topic \<mapsto> h), gs_loops := gs_loops s2 @ [(topic, h)]\<rparr>)))"

definition gossip_leave :: "'r router_api \<Rightarrow> string \<Rightarrow> ('h, 'r) gossip_state \<Rightarrow> ('h, 'r) gossip_state" where
  "gossip_leave api topic s =
     (let s1 = (if topic \<in> gs_subs s then s\<lparr>gs_subs := gs_subs s - {topic}, gs_router := ra_cancel api topic (gs_router s)\<rparr> else s);
          s2 = (if topic \<in> gs_topics s1 then s1\<lparr>gs_topics := gs_topics s1 - {topic}, gs_router := ra_close api topic (gs_router s1)\<rparr> else s1)
      in s2\<lparr>gs_handlers := (gs_handlers s2)(topic := None)\<rparr>)"

definition gossip_publish ::
  "'r router_api \<Rightarrow> string \<Rightarrow> 8 word list \<Rightarrow> ('h, 'r) gossip_state \<Rightarrow> (string, unit) outcome \<times> ('h, 'r) gossip_state" where
  "gossip_publish api topic data s =
     (if topic \<notin> gs_topics s then (Err (''not joined to topic '' @ topic), s)
      else case ra_publish api topic data (gs_router s) of (res, r1) \<Rightarrow> (res, s\<lparr>gs_router := r1\<rparr>))"

definition publish_json ::
  "'r router_api \<Rightarrow> ('v \<Rightarrow> (string, 8 word list) outcome) \<Rightarrow> string \<Rightarrow> 'v \<Rightarrow> ('h, 'r) gossip_state
     \<Rightarrow> (string, unit) outcome \<times> ('h, 'r) gossip_state" where
  "publish_json api marshal topic v s = (case marshal v of
     Ok data \<Rightarrow> gossip_publish api topic data s | Err e \<Rightarrow> (Err (''json marshal: '' @ e), s) | Panic \<Rightarrow> (Panic, s))"

text \<open>The subscriptions and the topics are walked in an order of the maps.\<close>

definition gossip_close :: "(string set \<Rightarrow> string list) \<Rightarrow> 'r router_api \<Rightarrow> ('h, 'r) gossip_state \<Rightarrow> ('h, 'r) gossip_state" where
  "gossip_close ord api s = s\<lparr>gs_router := fold (ra_close api) (ord (gs_topics s)) (fold (ra_cancel api) (ord (gs_subs s)) (gs_router s)),
     gs_cancelled := True\<rparr>"

text \<open>\<open>consumeLoop\<close> over what the subscription yields, up to the first error; each message goes to the handler.\<close>

fun consume_loop :: "string \<Rightarrow> (string \<times> 8 word list) option list \<Rightarrow> gossip_message list" where
  "consume_loop topic [] = []"
| "consume_loop topic (None # ms) = []"
| "consume_loop topic (Some (sender, data) # ms) =
     \<lparr>gm_from = sender, gm_topic = topic, gm_data = data, gm_seq_no = 0\<rparr> # consume_loop topic ms"

section \<open>The network node\<close>

text \<open>\<open>JoinTopics\<close> and the broadcasts of \<^verbatim>\<open>src/internal/p2p/node.go\<close>.\<close>

fun join_topics ::
  "'r router_api \<Rightarrow> 'h option \<Rightarrow> string list \<Rightarrow> ('h, 'r) gossip_state \<Rightarrow> (string, unit) outcome \<times> ('h, 'r) gossip_state" where
  "join_topics api h [] s = (Ok (), s)"
| "join_topics api h (topic # topics) s = (case gossip_join api topic h s of
     (Ok _, s1) \<Rightarrow> join_topics api h topics s1
   | (Err e, s1) \<Rightarrow> (Err (''join topic '' @ topic @ '': '' @ e), s1)
   | (Panic, s1) \<Rightarrow> (Panic, s1))"

definition broadcast_transaction where
  "broadcast_transaction api marshal txData txHash s =
     publish_json api marshal topic_transactions \<lparr>gt_data = txData, gt_hash = txHash\<rparr> s"

definition broadcast_block where
  "broadcast_block api marshal blockData blockHash s =
     publish_json api marshal topic_blocks \<lparr>gb_data = blockData, gb_hash = blockHash\<rparr> s"

definition gossip_broadcast_vote where
  "gossip_broadcast_vote api marshal voteType height rnd blockHash validator sig s =
     publish_json api marshal topic_votes \<lparr>gv_type = voteType, gv_height = height, gv_round = rnd, gv_block_hash = blockHash,
       gv_validator = validator, gv_signature = sig\<rparr> s"

section \<open>Properties\<close>

text \<open>The states that the operations reach from an empty one.\<close>

inductive gossip_reach :: "'r router_api \<Rightarrow> ('h, 'r) gossip_state \<Rightarrow> bool" for api where
  fresh: "new_pub_sub router = Ok s \<Longrightarrow> gossip_reach api s"
| joined: "gossip_reach api s \<Longrightarrow> gossip_join api topic h s = (res, s') \<Longrightarrow> gossip_reach api s'"
| left: "gossip_reach api s \<Longrightarrow> gossip_reach api (gossip_leave api topic s)"
| published: "gossip_reach api s \<Longrightarrow> gossip_publish api topic data s = (res, s') \<Longrightarrow> gossip_reach api s'"
| shut: "gossip_reach api s \<Longrightarrow> gossip_reach api (gossip_close ord api s)"

lemma gossip_nested:
  assumes "gossip_reach api s"
  shows "(\<forall>t h. gs_handlers s t = Some h \<longrightarrow> t \<in> gs_subs s \<and> (t, h) \<in> set (gs_loops s)) \<and> gs_subs s \<subseteq> gs_topics s"
  using assms
proof (induction rule: gossip_reach.induct)
  case (fresh router s)
  then show ?case by (cases router) (auto simp: new_pub_sub_def)
next
  case (joined s topic h res s')
  then show ?case
    by (auto simp: gossip_join_def Let_def split: if_splits prod.splits outcome.splits option.splits)
next
  case (left s topic)
  then show ?case by (auto simp: gossip_leave_def Let_def)
next
  case (published s topic data res s')
  then show ?case by (auto simp: gossip_publish_def split: if_splits prod.splits)
qed (auto simp: gossip_close_def)

text \<open>In every reachable state a topic with a handler has a subscription, and one with a subscription is joined;
  every handler's loop has been started.\<close>

theorem gossip_maps_nested:
  assumes "gossip_reach api s"
  shows "dom (gs_handlers s) \<subseteq> gs_subs s \<and> gs_subs s \<subseteq> gs_topics s \<and> (\<forall>t h. gs_handlers s t = Some h \<longrightarrow> (t, h) \<in> set (gs_loops s))"
  using gossip_nested [OF assms] by blast

text \<open>A topic whose subscription has failed stays in the map of topics: the next \<open>Join\<close> of it succeeds without a
  subscription, a handler or a loop, so that no message of the topic is ever delivered.\<close>

theorem failed_subscribe_sticks:
  assumes "gossip_join api topic (Some h) s = (Err e, s')" "gossip_reach api s" "topic \<notin> gs_topics s"
    "ra_join api topic (gs_router s) = (Ok (), r1)"
  shows "gossip_join api topic (Some h) s' = (Ok (), s') \<and> topic \<notin> gs_subs s' \<and> gs_handlers s' topic = None \<and> gs_loops s' = gs_loops s"
proof -
  have "topic \<notin> gs_subs s" "gs_handlers s topic = None" using gossip_nested [OF assms(2)] assms(3) by (auto, metis not_None_eq subsetD)
  then show ?thesis using assms by (auto simp: gossip_join_def Let_def split: prod.splits outcome.splits)
qed

end
