(* ===== verification/NodeWiring.thy ===== *)
theory NodeWiring
  imports ProtocolProps Gossip TxPool GoText
begin

text \<open>
  How a node is put together: the host (\<^verbatim>\<open>internal/p2p/host\<close>), peer discovery (\<^verbatim>\<open>internal/p2p/discovery\<close>), the
  network node (\<^verbatim>\<open>internal/p2p/node.go\<close>), the chain node (\<^verbatim>\<open>internal/node\<close>) and its configuration
  (\<^verbatim>\<open>internal/config\<close>). The answers of libp2p and of LevelDB are parameters; what the code has opened and not yet
  closed is a set of resources that the operations thread through.
\<close>

section \<open>Resources and the libraries\<close>

datatype resource =
    ResDatabase | ResHost | ResPruneLoop | ResMdns | ResDht | ResBootstrapLoop | ResMdnsLoop | ResPubSub | ResNodeContext

type_synonym 'a startup = "(string, 'a) outcome \<times> resource set"

text \<open>\<open>'k\<close> are the private keys. \<open>nl_host\<close> is \<open>libp2p.New\<close> on the key, the listen addresses, the limits of the connection
  manager and the options.\<close>

record ('k, 'r) net_library =
  nl_generate_key :: "(string, 'k) outcome"
  nl_peer_id :: "'k \<Rightarrow> (string, string) outcome"
  nl_conn_manager :: "int \<Rightarrow> int \<Rightarrow> int \<Rightarrow> (string, unit) outcome"
  nl_host :: "'k \<Rightarrow> string list \<Rightarrow> string list \<Rightarrow> (string, unit) outcome"
  nl_mdns_start :: "string \<Rightarrow> (string, unit) outcome"
  nl_dht_new :: "int \<Rightarrow> bool \<Rightarrow> (string, unit) outcome"
  nl_router :: "bool \<Rightarrow> int \<Rightarrow> (string, 'r) outcome"
  nl_router_api :: "'r router_api"
  nl_host_close :: "(string, unit) outcome"
  nl_dht_close :: "(string, unit) outcome"

text \<open>The error that collects the errors of several parts, printed as a slice.\<close>

definition collected :: "string \<Rightarrow> string list \<Rightarrow> (string, unit) outcome" where
  "collected prefix errs = (if errs = [] then Ok () else Err (prefix @ '': ['' @ join_with (CHR '' '') errs @ '']''))"

section \<open>The host\<close>

record 'k host_config =
  hc_listen_addrs :: "string list"
  hc_private_key :: "'k option"
  hc_max_peers :: int
  hc_low_water :: int
  hc_grace_period :: int
  hc_enable_relay :: bool
  hc_enable_nat :: bool
  hc_enable_hole_punching :: bool

definition default_host_config :: "'k host_config" where
  "default_host_config = \<lparr>hc_listen_addrs = [], hc_private_key = None, hc_max_peers = 100, hc_low_water = 50,
     hc_grace_period = 20 * 10 ^ 9, hc_enable_relay = False, hc_enable_nat = True, hc_enable_hole_punching = False\<rparr>"

definition default_listen_addrs :: "string list \<Rightarrow> string list" where
  "default_listen_addrs as = (if as = [] then [''/ip4/0.0.0.0/tcp/0'', ''/ip6/::/tcp/0''] else as)"

definition host_options :: "'k host_config \<Rightarrow> string list" where
  "host_options cfg = (if hc_enable_nat cfg then [''NATPortMap''] else [])
     @ (if hc_enable_relay cfg then [''EnableRelay''] else [])
     @ (if hc_enable_hole_punching cfg then [''EnableHolePunching''] else [])"

text \<open>The result is the id of the peer.\<close>

definition host_new :: "('k, 'r) net_library \<Rightarrow> 'k host_config option \<Rightarrow> resource set \<Rightarrow> string startup" where
  "host_new lib cfgp os =
     (let cfg = (case cfgp of None \<Rightarrow> default_host_config | Some c \<Rightarrow> c) in
      case (case hc_private_key cfg of Some k \<Rightarrow> Ok k | None \<Rightarrow> nl_generate_key lib) of
        Panic \<Rightarrow> (Panic, os)
      | Err e \<Rightarrow> (Err (''generate host key: '' @ e), os)
      | Ok key \<Rightarrow>
        (case nl_peer_id lib key of
           Panic \<Rightarrow> (Panic, os)
         | Err e \<Rightarrow> (Err (''derive peer ID: '' @ e), os)
         | Ok pid \<Rightarrow>
           (case nl_conn_manager lib (hc_low_water cfg) (hc_max_peers cfg) (hc_grace_period cfg) of
              Panic \<Rightarrow> (Panic, os)
            | Err e \<Rightarrow> (Err (''connmgr: '' @ e), os)
            | Ok _ \<Rightarrow>
              (case nl_host lib key (default_listen_addrs (hc_listen_addrs cfg)) (host_options cfg) of
                 Panic \<Rightarrow> (Panic, os)
               | Err e \<Rightarrow> (Err (''create libp2p host: '' @ e), os)
               | Ok _ \<Rightarrow> (Ok pid, insert ResHost os)))))"

section \<open>Discovery\<close>

text \<open>A peer found is its id and its addresses; the queue holds 128 of them.\<close>

type_synonym addr_info = "string \<times> string list"

record discovery_config =
  dc_bootstrap_peers :: "addr_info list"
  dc_enable_mdns :: bool
  dc_mdns_interval :: int
  dc_enable_dht :: bool
  dc_dht_mode :: string
  dc_bucket_size :: int
  dc_rendezvous :: string

definition default_discovery_config :: discovery_config where
  "default_discovery_config = \<lparr>dc_bootstrap_peers = [], dc_enable_mdns = True, dc_mdns_interval = 30 * 10 ^ 9,
     dc_enable_dht = True, dc_dht_mode = ''auto'', dc_bucket_size = 20, dc_rendezvous = ''aichain/v1''\<rparr>"

record discovery =
  ds_mdns :: bool
  ds_dht :: bool
  ds_bootstrap :: "addr_info list"
  ds_peer_ch :: "addr_info list"
  ds_stopped :: bool

definition setup_mdns :: "('k, 'r) net_library \<Rightarrow> discovery_config \<Rightarrow> discovery \<Rightarrow> resource set \<Rightarrow> discovery startup" where
  "setup_mdns lib cfg d os =
     (let rendezvous = (if dc_rendezvous cfg = '''' then ''aichain/v1'' else dc_rendezvous cfg) in
      case nl_mdns_start lib rendezvous of
        Panic \<Rightarrow> (Panic, os)
      | Err e \<Rightarrow> (Err (''mdns start: '' @ e), os)
      | Ok _ \<Rightarrow> (Ok (d\<lparr>ds_mdns := True\<rparr>), insert ResMdns os))"

definition setup_dht :: "('k, 'r) net_library \<Rightarrow> discovery_config \<Rightarrow> discovery \<Rightarrow> resource set \<Rightarrow> discovery startup" where
  "setup_dht lib cfg d os =
     (let bucketSize = (if dc_bucket_size cfg \<le> 0 then 20 else dc_bucket_size cfg);
          mode = (if dc_dht_mode cfg = '''' then ''auto'' else dc_dht_mode cfg) in
      case nl_dht_new lib bucketSize (mode = ''wan'') of
        Panic \<Rightarrow> (Panic, os)
      | Err e \<Rightarrow> (Err (''dht creation: '' @ e), os)
      | Ok _ \<Rightarrow> (Ok (d\<lparr>ds_dht := True\<rparr>), insert ResDht os))"

definition discovery_new :: "('k, 'r) net_library \<Rightarrow> discovery_config \<Rightarrow> resource set \<Rightarrow> discovery startup" where
  "discovery_new lib cfg os =
     (let d = \<lparr>ds_mdns = False, ds_dht = False, ds_bootstrap = dc_bootstrap_peers cfg, ds_peer_ch = [], ds_stopped = False\<rparr> in
      case (if dc_enable_mdns cfg then setup_mdns lib cfg d os else (Ok d, os)) of
        (Panic, os1) \<Rightarrow> (Panic, os1)
      | (Err e, os1) \<Rightarrow> (Err e, os1)
      | (Ok d1, os1) \<Rightarrow>
        (case (if dc_enable_dht cfg then setup_dht lib cfg d1 os1 else (Ok d1, os1)) of
           (Panic, os2) \<Rightarrow> (Panic, os2)
         | (Err e, os2) \<Rightarrow> (Err e, os2)
         | (Ok d2, os2) \<Rightarrow> (Ok d2, os2 \<union> {ResBootstrapLoop, ResMdnsLoop})))"

definition handle_peer_found :: "addr_info \<Rightarrow> discovery \<Rightarrow> discovery" where
  "handle_peer_found pi d = (if length (ds_peer_ch d) < 128 then d\<lparr>ds_peer_ch := ds_peer_ch d @ [pi]\<rparr> else d)"

text \<open>\<open>status i\<close> says who is connected when the \<open>i\<close>-th peer is looked at; \<open>connect i\<close> is the outcome of the attempt made
  then. The results are the peers that were dialled and the number reported as connected.\<close>

fun bootstrap_loop ::
  "string \<Rightarrow> (nat \<Rightarrow> string \<Rightarrow> bool) \<Rightarrow> (nat \<Rightarrow> addr_info \<Rightarrow> bool) \<Rightarrow> nat \<Rightarrow> addr_info list \<Rightarrow> addr_info list \<times> int" where
  "bootstrap_loop self status connect i [] = ([], 0)"
| "bootstrap_loop self status connect i (pi # pis) =
     (let (dialled, n) = bootstrap_loop self status connect (i + 1) pis in
      if fst pi = self then (dialled, n)
      else if status i (fst pi) then (dialled, n + 1)
      else (pi # dialled, if connect i pi then n + 1 else n))"

text \<open>The last result says whether the DHT is bootstrapped; \<open>cancelled\<close> that the context ends before the timer fires.\<close>

definition bootstrap_routine ::
  "string \<Rightarrow> (nat \<Rightarrow> string \<Rightarrow> bool) \<Rightarrow> (nat \<Rightarrow> addr_info \<Rightarrow> bool) \<Rightarrow> bool \<Rightarrow> discovery \<Rightarrow> (addr_info list \<times> int \<times> bool) option" where
  "bootstrap_routine self status connect cancelled d =
     (if cancelled then None
      else let (dialled, n) = bootstrap_loop self status connect 0 (ds_bootstrap d)
           in Some (dialled, n, ds_dht d \<and> n > 0))"

text \<open>One round of \<open>handleMDNSPeers\<close>: a queued peer is taken and dialled unless it is this node or connected. \<open>None\<close> if the
  loop waits.\<close>

definition mdns_round :: "string \<Rightarrow> (string \<Rightarrow> bool) \<Rightarrow> discovery \<Rightarrow> (addr_info option \<times> discovery) option" where
  "mdns_round self status d = (case ds_peer_ch d of
     [] \<Rightarrow> None
   | pi # rest \<Rightarrow> Some (if fst pi = self \<or> status (fst pi) then None else Some pi, d\<lparr>ds_peer_ch := rest\<rparr>))"

definition find_peer :: "(string \<Rightarrow> (string, addr_info) outcome) \<Rightarrow> string \<Rightarrow> discovery \<Rightarrow> (string, addr_info) outcome" where
  "find_peer found pid d = (if \<not> ds_dht d then Err ''dht not enabled'' else found pid)"

definition discovery_close :: "('k, 'r) net_library \<Rightarrow> discovery \<Rightarrow> resource set \<Rightarrow> discovery startup" where
  "discovery_close lib d os =
     (let os1 = os - {ResBootstrapLoop, ResMdnsLoop};
          os2 = (if ds_mdns d then os1 - {ResMdns} else os1) in
      if ds_dht d
      then (case nl_dht_close lib of
          Panic \<Rightarrow> (Panic, os2)
        | Err e \<Rightarrow> (Err e, os2 - {ResDht})
        | Ok _ \<Rightarrow> (Ok (d\<lparr>ds_stopped := True\<rparr>), os2 - {ResDht}))
      else (Ok (d\<lparr>ds_stopped := True\<rparr>), os2))"

section \<open>The network node\<close>

record gossip_config =
  gc_heartbeat :: int
  gc_seen_ttl :: int
  gc_max_message_size :: int
  gc_validate_queue :: int
  gc_peer_exchange :: bool

definition default_gossip_config :: gossip_config where
  "default_gossip_config = \<lparr>gc_heartbeat = 10 ^ 9, gc_seen_ttl = 300 * 10 ^ 9, gc_max_message_size = 2 ^ 20,
     gc_validate_queue = 256, gc_peer_exchange = True\<rparr>"

record 'k p2p_config =
  pf_host :: "'k host_config option"
  pf_gossip :: gossip_config
  pf_discovery :: discovery_config
  pf_peer :: peer_config

definition default_p2p_config :: "'k p2p_config" where
  "default_p2p_config = \<lparr>pf_host = Some default_host_config, pf_gossip = default_gossip_config,
     pf_discovery = default_discovery_config, pf_peer = default_peer_config\<rparr>"

text \<open>\<open>pn_handlers\<close> are the protocols with a stream handler on the host.\<close>

record ('h, 'k, 'r) p2p_node =
  pn_peer_id :: string
  pn_pub_sub :: "('h, 'r) gossip_state"
  pn_discovery :: discovery
  pn_peer_mgr :: peer_manager
  pn_sync_handler :: "sync_handler option"
  pn_handlers :: "string set"
  pn_cfg :: "'k p2p_config"

definition p2p_new :: "('k, 'r) net_library \<Rightarrow> 'k p2p_config \<Rightarrow> resource set \<Rightarrow> ('h, 'k, 'r) p2p_node startup" where
  "p2p_new lib cfg os = (case host_new lib (pf_host cfg) os of
     (Panic, os1) \<Rightarrow> (Panic, os1)
   | (Err e, os1) \<Rightarrow> (Err (''create host: '' @ e), os1)
   | (Ok pid, os1) \<Rightarrow>
       let mgr = new_peer_manager (pf_peer cfg); os2 = insert ResPruneLoop os1 in
       (case discovery_new lib (pf_discovery cfg) os2 of
          (Panic, os3) \<Rightarrow> (Panic, os3)
        | (Err e, os3) \<Rightarrow> (Err (''create discovery: '' @ e), os3 - {ResHost})
        | (Ok disc, os3) \<Rightarrow>
            (case new_pub_sub (nl_router lib (gc_peer_exchange (pf_gossip cfg)) (gc_max_message_size (pf_gossip cfg))) of
               Panic \<Rightarrow> (Panic, os3)
             | Err e \<Rightarrow> (case discovery_close lib disc os3 of
                  (Panic, os4) \<Rightarrow> (Panic, os4)
                | (_, os4) \<Rightarrow> (Err (''create gossipsub: '' @ e), os4 - {ResHost}))
             | Ok gs \<Rightarrow> (Ok \<lparr>pn_peer_id = pid, pn_pub_sub = gs, pn_discovery = disc, pn_peer_mgr = mgr,
                 pn_sync_handler = None, pn_handlers = {}, pn_cfg = cfg\<rparr>, insert ResPubSub os3))))"

definition set_sync_handler :: "sync_handler \<Rightarrow> ('h, 'k, 'r) p2p_node \<Rightarrow> ('h, 'k, 'r) p2p_node" where
  "set_sync_handler h n = n\<lparr>pn_sync_handler := Some h, pn_handlers := pn_handlers n \<union> {protocol_status, protocol_block_sync}\<rparr>"

text \<open>\<open>Close\<close> stops every part whatever the others answer; the errors are collected.\<close>

definition p2p_close ::
  "(string set \<Rightarrow> string list) \<Rightarrow> ('k, 'r) net_library \<Rightarrow> ('h, 'k, 'r) p2p_node \<Rightarrow> resource set \<Rightarrow> unit startup" where
  "p2p_close ord lib n os =
     (let gs = gossip_close ord (nl_router_api lib) (pn_pub_sub n); os1 = os - {ResPubSub} in
      case discovery_close lib (pn_discovery n) os1 of
        (Panic, os2) \<Rightarrow> (Panic, os2)
      | (res, os2) \<Rightarrow>
          let errs = (case res of Err e \<Rightarrow> [''discovery: '' @ e] | _ \<Rightarrow> []); os3 = os2 - {ResPruneLoop, ResHost} in
          (case nl_host_close lib of
             Panic \<Rightarrow> (Panic, os3)
           | Err e \<Rightarrow> (collected ''close'' (errs @ [''host: '' @ e]), os3)
           | Ok _ \<Rightarrow> (collected ''close'' errs, os3)))"

section \<open>The chain node\<close>

record node_config =
  cf_chain_id :: u64
  cf_data_dir :: string
  cf_genesis_file :: string
  cf_econ_params :: "economic_params option"
  cf_miner_type :: string
  cf_miner_address :: address
  cf_coinbase :: address
  cf_rpc_port :: int
  cf_ws_port :: int
  cf_listen_addrs :: "string list"
  cf_bootstrap_peers :: "string list"
  cf_enable_mdns :: bool
  cf_max_peers :: int

definition default_config :: node_config where
  "default_config = \<lparr>cf_chain_id = 31337, cf_data_dir = ''./data/aichain'', cf_genesis_file = ''./genesis/genesis.json'',
     cf_econ_params = Some default_testnet_params, cf_miner_type = ''full'', cf_miner_address = zero_address,
     cf_coinbase = zero_address, cf_rpc_port = 8545, cf_ws_port = 8546,
     cf_listen_addrs = [''/ip4/0.0.0.0/tcp/30303''], cf_bootstrap_peers = [], cf_enable_mdns = True, cf_max_peers = 50\<rparr>"

record ('h, 'k, 'r) chain_node =
  nd_cfg :: node_config
  nd_chain :: blockchain
  nd_txpool :: pool
  nd_processor :: state_processor
  nd_net :: "('h, 'k, 'r) p2p_node"

text \<open>\<open>loadGenesis\<close> reads the initial supplies through the pointer of the configuration.\<close>

definition load_genesis :: "u64 \<Rightarrow> node_config \<Rightarrow> (string, genesis) outcome" where
  "load_genesis now cfg = (case cf_econ_params cfg of
     None \<Rightarrow> Panic
   | Some params \<Rightarrow> Ok (default_genesis\<lparr>gen_chain_id := cf_chain_id cfg, gen_timestamp := now,
       gen_alloc := [\<lparr>ga_address = cf_miner_address cfg, ga_apt = apt_initial_supply params,
                      ga_npt = npt_initial_supply params, ga_staked = None\<rparr>],
       gen_pool_apt := new_token_amount_uint64 100000, gen_pool_npt := new_token_amount_uint64 100000\<rparr>))"

text \<open>The chain that \<open>New\<close> builds, over the stored nodes \<open>st\<close>, with its genesis block at the fresh reference \<open>r\<close>.\<close>

definition start_chain ::
  "(byte list \<Rightarrow> hash) \<Rightarrow> (statedb \<Rightarrow> address list) \<Rightarrow> store \<Rightarrow> (ref \<Rightarrow> block) \<Rightarrow> ref \<Rightarrow> u64 \<Rightarrow> node_config \<Rightarrow> (string, blockchain) outcome" where
  "start_chain sha ord st heap r now cfg =
     (let econ = (case cf_econ_params cfg of None \<Rightarrow> default_testnet_params | Some p \<Rightarrow> p);
          chain = new_blockchain (copy_left 32 (sha [])) st econ (cf_chain_id cfg) heap in
      if current_block chain = None
      then obind (load_genesis now cfg) (\<lambda>g.
             obind (init_genesis sha ord r g chain) (\<lambda>(res, chain1). case res of
               Inl e \<Rightarrow> Err (''init genesis: '' @ e)
             | Inr _ \<Rightarrow> Ok chain1))
      else Ok chain)"

definition genesis_hash_of :: "(byte list \<Rightarrow> hash) \<Rightarrow> blockchain \<Rightarrow> hash" where
  "genesis_hash_of sha chain = (case current_block chain of None \<Rightarrow> empty_hash | Some r \<Rightarrow> block_hash sha (bc_heap chain r))"

definition node_new ::
  "(byte list \<Rightarrow> hash) \<Rightarrow> (statedb \<Rightarrow> address list) \<Rightarrow> (string set \<Rightarrow> string list) \<Rightarrow> ('k, 'r) net_library \<Rightarrow> (string, store) outcome
    \<Rightarrow> (ref \<Rightarrow> block) \<Rightarrow> ref \<Rightarrow> u64 \<Rightarrow> node_config \<Rightarrow> resource set \<Rightarrow> (unit, 'k, 'r) chain_node startup" where
  "node_new sha ord ords lib db heap r now cfg os =
     (let os1 = insert ResNodeContext os in
      case db of
        Panic \<Rightarrow> (Panic, os1)
      | Err e \<Rightarrow> (Err (''open database: '' @ e), os1 - {ResNodeContext})
      | Ok st \<Rightarrow>
        (case start_chain sha ord st heap r now cfg of
           Panic \<Rightarrow> (Panic, insert ResDatabase os1)
         | Err e \<Rightarrow> (Err e, os1 - {ResNodeContext, ResDatabase})
         | Ok chain \<Rightarrow>
           (case p2p_new lib default_p2p_config (insert ResDatabase os1) of
              (Panic, os2) \<Rightarrow> (Panic, os2)
            | (Err e, os2) \<Rightarrow> (Err (''create p2p node: '' @ e), os2 - {ResNodeContext, ResDatabase})
            | (Ok net, os2) \<Rightarrow>
                let net1 = set_sync_handler \<lparr>sh_chain_id = cf_chain_id cfg, sh_genesis_hash = genesis_hash_of sha chain\<rparr> net in
                (case join_topics (nl_router_api lib) (Some ()) all_topics (pn_pub_sub net1) of
                   (Panic, gs) \<Rightarrow> (Panic, os2)
                 | (Err e, gs) \<Rightarrow> (case p2p_close ords lib (net1\<lparr>pn_pub_sub := gs\<rparr>) os2 of
                      (Panic, os3) \<Rightarrow> (Panic, os3)
                    | (_, os3) \<Rightarrow> (Err (''join topics: '' @ e), os3 - {ResNodeContext, ResDatabase}))
                 | (Ok _, gs) \<Rightarrow> (Ok \<lparr>nd_cfg = cfg, nd_chain = chain,
                     nd_txpool = new_pool default_tx_pool_config (cf_chain_id cfg),
                     nd_processor = \<lparr>sp_params = (case cf_econ_params cfg of None \<Rightarrow> default_testnet_params | Some p \<Rightarrow> p),
                       sp_chain_id = cf_chain_id cfg\<rparr>,
                     nd_net = net1\<lparr>pn_pub_sub := gs\<rparr>\<rparr>, os2)))))"

definition node_stop ::
  "(string set \<Rightarrow> string list) \<Rightarrow> ('k, 'r) net_library \<Rightarrow> (string, unit) outcome \<Rightarrow> (unit, 'k, 'r) chain_node \<Rightarrow> resource set \<Rightarrow> unit startup" where
  "node_stop ords lib db_close n os =
     (case p2p_close ords lib (nd_net n) (os - {ResNodeContext}) of
        (Panic, os1) \<Rightarrow> (Panic, os1)
      | (res, os1) \<Rightarrow>
          let errs = (case res of Err e \<Rightarrow> [e] | _ \<Rightarrow> []) in
          (case db_close of
             Panic \<Rightarrow> (Panic, os1 - {ResDatabase})
           | Err e \<Rightarrow> (collected ''stop errors'' (errs @ [e]), os1 - {ResDatabase})
           | Ok _ \<Rightarrow> (collected ''stop errors'' errs, os1 - {ResDatabase})))"

text \<open>The loop of \<open>Start\<close> over what the select receives; a tick reads the header of the current block.\<close>

datatype node_event = NodeSignal | NodeCancelled | NodeTick

definition print_status :: "(address set \<Rightarrow> address list) \<Rightarrow> int \<Rightarrow> (unit, 'k, 'r) chain_node \<Rightarrow> (string, u64 \<times> int \<times> int \<times> int) outcome option" where
  "print_status ord peers n = (case current_block (nd_chain n) of
     None \<Rightarrow> Some Panic
   | Some r \<Rightarrow> (case pool_stats ord (nd_txpool n) of
       Some (Ok (pending, queued)) \<Rightarrow> Some (Ok (bh_height (blk_header (bc_heap (nd_chain n) r)), peers, pending, queued))
     | Some (Err e) \<Rightarrow> Some (Err e)
     | Some Panic \<Rightarrow> Some Panic
     | None \<Rightarrow> None))"

fun node_loop :: "(string, 'a) outcome option \<Rightarrow> node_event list \<Rightarrow> (string, 'a list) outcome option" where
  "node_loop status [] = None"
| "node_loop status (NodeSignal # es) = Some (Ok [])"
| "node_loop status (NodeCancelled # es) = Some (Ok [])"
| "node_loop status (NodeTick # es) = (case status of
     Some (Ok l) \<Rightarrow> map_option (\<lambda>r. obind r (\<lambda>ls. Ok (l # ls))) (node_loop status es)
   | Some (Err e) \<Rightarrow> Some (Err e)
   | Some Panic \<Rightarrow> Some Panic
   | None \<Rightarrow> None)"

text \<open>The handler of the gossip topics: every case logs at most, and changes nothing.\<close>

definition handle_message :: "gossip_message \<Rightarrow> (unit, 'k, 'r) chain_node \<Rightarrow> (string, unit) outcome \<times> (unit, 'k, 'r) chain_node" where
  "handle_message m n =
     (if gm_topic m = topic_transactions then (Ok (), n)
      else if gm_topic m = topic_blocks then (Ok (), n)
      else if gm_topic m = topic_votes then (Ok (), n)
      else if gm_topic m = topic_tasks then (Ok (), n)
      else (Ok (), n))"

end
