(* ===== verification/FullNode.thy ===== *)
theory FullNode
  imports NodeWiring CryptoWrap Registry
begin

text \<open>
  The full node of \<^verbatim>\<open>src/cmd/aichain-node/main.go\<close>: the set-up of its accounts and its genesis, the blocks it builds and the
  phases of its integration run over the chain, the task system and the registry. The clock, the key pairs, the fresh
  references of the blocks and the orders of maps and sorts are parameters; what is printed is left out, but for
  the values that decide an error. The state database of the node is that of its chain.
\<close>

section \<open>The node\<close>

record node_account =
  na_address :: address
  na_pub_key :: "byte list"
  na_priv_key :: "byte list"
  na_name :: string

record full_node =
  fn_params :: economic_params
  fn_chain_id :: u64
  fn_chain :: blockchain
  fn_txpool :: pool
  fn_task_pool :: task_pool
  fn_dispatcher :: dispatcher
  fn_verifier :: verifier
  fn_registry :: registry
  fn_accounts :: "node_account list"

type_synonym 'a node_run = "(string, (string + 'a) \<times> full_node) outcome"

definition node_bind :: "'a node_run \<Rightarrow> ('a \<Rightarrow> full_node \<Rightarrow> 'b node_run) \<Rightarrow> 'b node_run" where
  "node_bind r f = obind r (\<lambda>(x, n). case x of Inl e \<Rightarrow> Ok (Inl e, n) | Inr a \<Rightarrow> f a n)"

definition on_state :: "(statedb \<Rightarrow> 'a sd_result) \<Rightarrow> full_node \<Rightarrow> 'a node_run" where
  "on_state f n = obind (f (bc_statedb (fn_chain n))) (\<lambda>(a, s). Ok (Inr a, n\<lparr>fn_chain := (fn_chain n)\<lparr>bc_statedb := s\<rparr>\<rparr>))"

text \<open>A balance, read through the pointer.\<close>

definition token_balance_apt :: "address \<Rightarrow> statedb \<Rightarrow> token_amount sd_result" where
  "token_balance_apt addr s = obind (get_balance_apt addr s) (\<lambda>(p, s1). Ok (ptr_value (sd_ints s1) p, s1))"

definition token_balance_npt :: "address \<Rightarrow> statedb \<Rightarrow> token_amount sd_result" where
  "token_balance_npt addr s = obind (get_balance_npt addr s) (\<lambda>(p, s1). Ok (ptr_value (sd_ints s1) p, s1))"

section \<open>Set-up\<close>

text \<open>\<open>keys i\<close> is the \<open>i\<close>-th key pair that is drawn; an error ends the process.\<close>

definition account_name :: "nat \<Rightarrow> string" where
  "account_name i = (if i < 4 then [''Alice'', ''Bob'', ''Charlie'', ''Dave''] ! i else ''Account'' @ format_decimal i)"

fun generate_accounts ::
  "(byte list \<Rightarrow> hash) \<Rightarrow> (nat \<Rightarrow> (string, byte list \<times> byte list) outcome) \<Rightarrow> nat list \<Rightarrow> (string, node_account list) outcome" where
  "generate_accounts sha keys [] = Ok []"
| "generate_accounts sha keys (i # is) = obind (generate_key (keys i)) (\<lambda>(pub, priv).
     obind (generate_accounts sha keys is) (\<lambda>accs.
       Ok (\<lparr>na_address = pub_key_to_address sha pub, na_pub_key = pub, na_priv_key = priv, na_name = account_name i\<rparr> # accs)))"

definition funded :: "economic_params \<Rightarrow> node_account \<Rightarrow> genesis_account" where
  "funded params acc = \<lparr>ga_address = na_address acc, ga_apt = apt_initial_supply params,
     ga_npt = npt_initial_supply params, ga_staked = None\<rparr>"

definition create_genesis :: "u64 \<Rightarrow> u64 \<Rightarrow> node_account list \<Rightarrow> economic_params \<Rightarrow> genesis" where
  "create_genesis now chainID accounts params = default_genesis\<lparr>gen_chain_id := chainID, gen_timestamp := now,
     gen_alloc := gen_alloc default_genesis @ map (funded params) accounts,
     gen_pool_apt := new_token_amount_uint64 100000, gen_pool_npt := new_token_amount_uint64 100000\<rparr>"

definition fixed_genesis_hash :: "(byte list \<Rightarrow> hash) \<Rightarrow> hash" where
  "fixed_genesis_hash sha = bytes_to_hash (sha (bytes_of ''aichain-genesis-v1''))"

text \<open>Nothing is closed when a step fails; the process ends.\<close>

definition new_full_node ::
  "(byte list \<Rightarrow> hash) \<Rightarrow> (statedb \<Rightarrow> address list) \<Rightarrow> (nat \<Rightarrow> (string, byte list \<times> byte list) outcome) \<Rightarrow> ('k, 'r) net_library
    \<Rightarrow> (ref \<Rightarrow> block) \<Rightarrow> ref \<Rightarrow> u64 \<Rightarrow> (string, full_node \<times> (unit, 'k, 'r) p2p_node) outcome" where
  "new_full_node sha ord keys lib heap r now =
     (let chainID = cf_chain_id default_config; params = default_testnet_params in
      obind (generate_accounts sha keys [0..<4]) (\<lambda>accounts.
      obind (init_genesis sha ord r (create_genesis now chainID accounts params)
               (new_blockchain (copy_left 32 (sha [])) Map.empty params chainID heap)) (\<lambda>(res, chain). case res of
        Inl e \<Rightarrow> Err (''genesis: '' @ e)
      | Inr _ \<Rightarrow> (case p2p_new lib default_p2p_config {} of
          (Panic, _) \<Rightarrow> Panic
        | (Err e, _) \<Rightarrow> Err (''p2p: '' @ e)
        | (Ok net, _) \<Rightarrow>
            let net1 = set_sync_handler \<lparr>sh_chain_id = chainID, sh_genesis_hash = fixed_genesis_hash sha\<rparr> net in
            (case join_topics (nl_router_api lib) (Some ()) all_topics (pn_pub_sub net1) of
               (Panic, _) \<Rightarrow> Panic
             | (Err e, _) \<Rightarrow> Err (''join topics: '' @ e)
             | (Ok _, gs) \<Rightarrow> Ok (\<lparr>fn_params = params, fn_chain_id = chainID, fn_chain = chain,
                 fn_txpool = new_pool default_tx_pool_config chainID, fn_task_pool = new_task_pool 100,
                 fn_dispatcher = new_dispatcher, fn_verifier = new_verifier default_challenge_config,
                 fn_registry = new_registry, fn_accounts = accounts\<rparr>, net1\<lparr>pn_pub_sub := gs\<rparr>))))))"

section \<open>Blocks\<close>

definition next_time :: "u64 \<Rightarrow> u64 \<Rightarrow> u64" where
  "next_time now parent = (if now \<le> parent then parent + 1 else now)"

definition build_block ::
  "(byte list \<Rightarrow> hash) \<Rightarrow> u64 \<Rightarrow> full_node \<Rightarrow> address \<Rightarrow> transaction list \<Rightarrow> u64 \<Rightarrow> (string, block) outcome" where
  "build_block sha now n proposer txs rnd = (case current_block (fn_chain n) of
     None \<Rightarrow> Panic
   | Some pr \<Rightarrow>
       let parent = bc_heap (fn_chain n) pr; ph = blk_header parent in
       obind (if length txs > 0 then derive_tx_root sha txs else Ok empty_hash) (\<lambda>txRoot.
         Ok \<lparr>blk_header = \<lparr>bh_parent_hash = block_hash sha parent, bh_height = bh_height ph + 1,
               bh_timestamp = next_time now (bh_timestamp ph), bh_state_root = bh_state_root ph, bh_tx_root = txRoot,
               bh_receipt_root = empty_hash, bh_proposer = proposer, bh_gas_limit = gas_limit (gas_params (fn_params n)),
               bh_gas_used = 0, bh_extra = [], bh_round = rnd, bh_prevote_hash = empty_hash, bh_precommit_hash = empty_hash\<rparr>,
             blk_txs = txs\<rparr>))"

definition insert_built ::
  "(byte list \<Rightarrow> hash) \<Rightarrow> (statedb \<Rightarrow> address list) \<Rightarrow> ref \<Rightarrow> block \<Rightarrow> full_node \<Rightarrow> unit node_run" where
  "insert_built sha ord r b n =
     obind (insert_block sha ord r ((fn_chain n)\<lparr>bc_heap := (bc_heap (fn_chain n))(r := b)\<rparr>)) (\<lambda>(res, bc).
       Ok (res, n\<lparr>fn_chain := bc\<rparr>))"


section \<open>The integration run\<close>

text \<open>The accounts are read by index.\<close>

definition account_at :: "nat \<Rightarrow> full_node \<Rightarrow> node_account node_run" where
  "account_at i n = (if i < length (fn_accounts n) then Ok (Inr (fn_accounts n ! i), n) else Panic)"

fun read_balances :: "node_account list \<Rightarrow> statedb \<Rightarrow> unit sd_result" where
  "read_balances [] s = Ok ((), s)"
| "read_balances (acc # accs) s =
     obind (token_balance_apt (na_address acc) s) (\<lambda>(_, s1).
     obind (token_balance_npt (na_address acc) s1) (\<lambda>(_, s2). read_balances accs s2))"

text \<open>Phase 1: the state is committed, opened again from the root and every named account must have a balance.\<close>

fun check_persisted :: "node_account list \<Rightarrow> statedb \<Rightarrow> (string, string option) outcome" where
  "check_persisted [] s = Ok None"
| "check_persisted (acc # accs) s =
     obind (token_balance_apt (na_address acc) s) (\<lambda>(bal, s1).
       if amount_is_zero bal \<and> na_name acc \<noteq> '''' then Ok (Some (''state persistence FAILED for '' @ na_name acc))
       else check_persisted accs s1)"

definition phase_genesis :: "(byte list \<Rightarrow> hash) \<Rightarrow> (statedb \<Rightarrow> address list) \<Rightarrow> full_node \<Rightarrow> unit node_run" where
  "phase_genesis sha ord n = (case current_block (fn_chain n) of
     None \<Rightarrow> Panic
   | Some _ \<Rightarrow>
       node_bind (on_state (read_balances (fn_accounts n)) n) (\<lambda>_ n1.
       node_bind (on_state (\<lambda>s. commit sha (ord s) s) n1) (\<lambda>stateRoot n2.
         let s = bc_statedb (fn_chain n2) in
         obind (check_persisted (fn_accounts n2) (new_statedb_with_root (sd_code_hash s) (sd_store s) stateRoot)) (\<lambda>failed.
           case failed of Some e \<Rightarrow> Ok (Inl e, n2) | None \<Rightarrow> Ok (Inr (), n2)))))"

text \<open>Phase 2: a transfer of 100 units from the first account to the second.\<close>

definition demo_tx :: "full_node \<Rightarrow> byte \<Rightarrow> u64 \<Rightarrow> address \<Rightarrow> address \<Rightarrow> u64 \<Rightarrow> u64 \<Rightarrow> byte list \<Rightarrow> transaction" where
  "demo_tx n txType nonce sender to amount limit data = \<lparr>tx_type = txType, tx_chain_id = fn_chain_id n, tx_nonce = nonce,
     tx_from = sender, tx_to = to, tx_amount = new_token_amount_uint64 amount, tx_token_kind = token_apt,
     tx_gas_limit = limit, tx_gas_price = new_token_amount_uint64 1, tx_data = data, tx_signature = None,
     tx_hash_cache = empty_hash, tx_hash_once = False\<rparr>"

definition phase_transfer ::
  "(byte list \<Rightarrow> hash) \<Rightarrow> (statedb \<Rightarrow> address list) \<Rightarrow> u64 \<Rightarrow> ref \<Rightarrow> full_node \<Rightarrow> unit node_run" where
  "phase_transfer sha ord now r n =
     node_bind (account_at 0 n) (\<lambda>alice n1.
     node_bind (account_at 1 n1) (\<lambda>bob n2.
       obind (tx_hash sha (demo_tx n2 tx_transfer_apt 0 (na_address alice) (na_address bob) 100 21000 [])) (\<lambda>(_, tx).
       obind (build_block sha now n2 (na_address alice) [tx] 0) (\<lambda>b.
       obind (insert_built sha ord r b n2) (\<lambda>(res, n3). case res of
         Inl e \<Rightarrow> Ok (Inl (''insert block: '' @ e), n3)
       | Inr _ \<Rightarrow>
           node_bind (on_state (token_balance_apt (na_address alice)) n3) (\<lambda>_ n4.
           node_bind (on_state (token_balance_apt (na_address bob)) n4) (\<lambda>bobBal n5.
             if amount_is_zero bobBal then Ok (Inl ''transfer FAILED: Bob has no APT'', n5) else Ok (Inr (), n5))))))))"

text \<open>Phase 3: a swap and a burn; the error of the block with the burn and that of the last commit are dropped. Then every
  height must have its block.\<close>

definition swap_block ::
  "(byte list \<Rightarrow> hash) \<Rightarrow> (statedb \<Rightarrow> address list) \<Rightarrow> u64 \<Rightarrow> ref \<Rightarrow> node_account \<Rightarrow> full_node \<Rightarrow> unit node_run" where
  "swap_block sha ord now r alice n =
     obind (tx_hash sha (demo_tx n tx_swap 1 (na_address alice) zero_address 50 50000 [0x01])) (\<lambda>(_, tx).
     obind (build_block sha now n (na_address alice) [tx] 0) (\<lambda>b.
     obind (insert_built sha ord r b n) (\<lambda>(res, n1). case res of
       Inl e \<Rightarrow> Ok (Inl (''swap block: '' @ e), n1)
     | Inr _ \<Rightarrow> Ok (Inr (), n1))))"

definition burn_block ::
  "(byte list \<Rightarrow> hash) \<Rightarrow> (statedb \<Rightarrow> address list) \<Rightarrow> u64 \<Rightarrow> ref \<Rightarrow> node_account \<Rightarrow> full_node \<Rightarrow> unit node_run" where
  "burn_block sha ord now r alice n =
     obind (build_block sha now n (na_address alice) [demo_tx n tx_burn 2 (na_address alice) zero_address 10 21000 []] 0) (\<lambda>b.
     obind (insert_built sha ord r b n) (\<lambda>(_, n1). Ok (Inr (), n1)))"

fun missing_block :: "nat \<Rightarrow> u64 \<Rightarrow> blockchain \<Rightarrow> u64 option" where
  "missing_block 0 h bc = None"
| "missing_block (Suc k) h bc = (if get_block_by_height h bc = None then Some h else missing_block k (h + 1) bc)"

definition phase_swap_burn ::
  "(byte list \<Rightarrow> hash) \<Rightarrow> (statedb \<Rightarrow> address list) \<Rightarrow> u64 \<Rightarrow> u64 \<Rightarrow> ref \<Rightarrow> ref \<Rightarrow> full_node \<Rightarrow> unit node_run" where
  "phase_swap_burn sha ord now1 now2 r1 r2 n =
     node_bind (account_at 0 n) (\<lambda>alice n1.
     node_bind (swap_block sha ord now1 r1 alice n1) (\<lambda>_ n2.
     node_bind (on_state (token_balance_apt (na_address alice)) n2) (\<lambda>_ n3.
     node_bind (on_state (token_balance_npt (na_address alice)) n3) (\<lambda>_ n4.
     node_bind (burn_block sha ord now2 r2 alice n4) (\<lambda>_ n5.
     node_bind (on_state (token_balance_apt (na_address alice)) n5) (\<lambda>_ n6.
     node_bind (on_state (\<lambda>s. commit sha (ord s) s) n6) (\<lambda>_ n7.
       case current_block (fn_chain n7) of
         None \<Rightarrow> Panic
       | Some r \<Rightarrow> (case missing_block (Suc (unat (bh_height (blk_header (bc_heap (fn_chain n7) r))))) 0 (fn_chain n7) of
           Some h \<Rightarrow> Ok (Inl (''missing block at height '' @ format_decimal (unat h)), n7)
         | None \<Rightarrow> Ok (Inr (), n7)))))))))"

text \<open>Phase 5: two miners, a task, its dispatch, a result and its acceptance after the challenge window. \<open>result\<close> is the hash of
  the result.\<close>

definition demo_capability :: "u64 \<Rightarrow> u64 \<Rightarrow> u64 \<Rightarrow> byte list list \<Rightarrow> int \<Rightarrow> miner_capability" where
  "demo_capability vram ram units models batch = \<lparr>mc_vram = vram, mc_ram = ram, mc_gpu_count = 1, mc_compute_units = units,
     mc_supported_models = models, mc_max_batch_size = batch, mc_reputation = F64 1 0, mc_uptime = F64 1 0\<rparr>"

definition first_capability :: miner_capability where
  "first_capability = demo_capability 24576 65536 350 [ascii ''qwen3.6-35b''] 2"

definition second_capability :: miner_capability where
  "second_capability = demo_capability 62818 125636 710 [ascii ''qwen3.6-35b'', ascii ''llama-3-70b''] 4"

definition register_miners :: "(address set \<Rightarrow> address list) \<Rightarrow> (address set \<Rightarrow> address list) \<Rightarrow> address \<Rightarrow> address \<Rightarrow> full_node \<Rightarrow> full_node" where
  "register_miners ord1 ord2 charlie dave n = n\<lparr>
     fn_dispatcher := register_miner dave second_capability (register_miner charlie first_capability (fn_dispatcher n)),
     fn_registry := register_record ord2 dave second_capability 0 (register_record ord1 charlie first_capability 0 (fn_registry n))\<rparr>"

text \<open>The temperature 0.7 is its 32-bit pattern.\<close>

definition demo_builder :: "address \<Rightarrow> task_builder" where
  "demo_builder alice = (set_tier tier2_conversation (set_creator alice new_task_builder))\<lparr>
     tb_model_spec := \<lparr>ms_model_id = ascii ''qwen3.6-35b-a3b'', ms_quantization = [], ms_max_tokens = 200,
       ms_temperature = 0x3F333333, ms_top_p = 0\<rparr>, tb_deadline := 10000\<rparr>"

definition dispatch_demo ::
  "(candidate list \<Rightarrow> candidate list) \<Rightarrow> (u64 set \<Rightarrow> u64 list) \<Rightarrow> hash \<Rightarrow> u64 \<Rightarrow> task \<Rightarrow> full_node \<Rightarrow> (address \<times> task_id list) node_run" where
  "dispatch_demo srtc ordu result height t n = (case dispatch srtc t (fn_dispatcher n) of
     Panic \<Rightarrow> Panic
   | Err e \<Rightarrow> Ok (Inl (''dispatch: '' @ e), n)
   | Ok (miner, d) \<Rightarrow>
       let n1 = n\<lparr>fn_dispatcher := d\<rparr> in
       (case submit_result (t_id t) (bytes_to_hash result) miner height (fn_verifier n1) of
          Panic \<Rightarrow> Panic
        | Err e \<Rightarrow> Ok (Inl (''submit result: '' @ e), n1)
        | Ok v \<Rightarrow> (case finalize_results ordu 200 v of (fin, v1) \<Rightarrow> Ok (Inr (miner, fin), n1\<lparr>fn_verifier := v1\<rparr>))))"

definition phase_tasks ::
  "(byte list \<Rightarrow> hash) \<Rightarrow> (address set \<Rightarrow> address list) \<Rightarrow> (address set \<Rightarrow> address list) \<Rightarrow> (task_pool_entry list \<Rightarrow> task_pool_entry list) \<Rightarrow>
    (candidate list \<Rightarrow> candidate list) \<Rightarrow> (u64 set \<Rightarrow> u64 list) \<Rightarrow> int \<Rightarrow> hash \<Rightarrow> u64 \<Rightarrow> full_node \<Rightarrow> (address \<times> task_id list) node_run" where
  "phase_tasks sha ord1 ord2 srt srtc ordu now result height n =
     node_bind (account_at 2 n) (\<lambda>charlie n1.
     node_bind (account_at 3 n1) (\<lambda>dave n2.
     node_bind (account_at 0 n2) (\<lambda>alice n3.
       let n4 = register_miners ord1 ord2 (na_address charlie) (na_address dave) n3 in
       obind (build_task sha (demo_builder (na_address alice))) (\<lambda>t.
         case add_task srt now t height (fn_task_pool n4) of
           Panic \<Rightarrow> Panic
         | Err e \<Rightarrow> Ok (Inl (''add task to pool: '' @ e), n4)
         | Ok tp \<Rightarrow> dispatch_demo srtc ordu result height t (n4\<lparr>fn_task_pool := tp\<rparr>)))))"

text \<open>Phase 6: no balance is negative.\<close>

fun check_balances :: "node_account list \<Rightarrow> statedb \<Rightarrow> string option sd_result" where
  "check_balances [] s = Ok (None, s)"
| "check_balances (acc # accs) s =
     obind (token_balance_apt (na_address acc) s) (\<lambda>(apt, s1).
     obind (token_balance_npt (na_address acc) s1) (\<lambda>(npt, s2).
     obind (amount_is_negative apt) (\<lambda>neg1.
     obind (if neg1 then Ok True else amount_is_negative npt) (\<lambda>neg.
       if neg then Ok (Some (''state corruption: '' @ na_name acc @ '' has negative balance!''), s2)
       else check_balances accs s2))))"

definition phase_health :: "full_node \<Rightarrow> unit node_run" where
  "phase_health n = node_bind (on_state (check_balances (fn_accounts n)) n) (\<lambda>bad n1.
     case bad of Some e \<Rightarrow> Ok (Inl e, n1) | None \<Rightarrow> Ok (Inr (), n1))"

text \<open>Phase 7: a block at the height of the head, a transaction that must be refused and a rollback. The results of the first two
  are printed only.\<close>

definition fork_at :: "u64 \<Rightarrow> block \<Rightarrow> block" where
  "fork_at h b = b\<lparr>blk_header := (blk_header b)\<lparr>bh_height := h\<rparr>\<rparr>"

definition invalid_tx :: transaction where
  "invalid_tx = \<lparr>tx_type = tx_transfer_apt, tx_chain_id = 99999, tx_nonce = 999, tx_from = zero_address, tx_to = zero_address,
     tx_amount = Some 0, tx_token_kind = 0, tx_gas_limit = 0, tx_gas_price = Some 0, tx_data = [], tx_signature = None,
     tx_hash_cache = empty_hash, tx_hash_once = False\<rparr>"

definition rollback_check :: "statedb \<Rightarrow> bool sd_result" where
  "rollback_check s = (let a = 0xff # replicate 19 0; (snap, s0) = snapshot s in
     obind (add_balance_apt a (new_token_amount_uint64 999) s0) (\<lambda>(_, s1).
     obind (revert_to_snapshot (int snap) s1) (\<lambda>s2.
     obind (token_balance_apt a s2) (\<lambda>(bal, s3). Ok (amount_is_zero bal, s3)))))"

definition phase_resilience ::
  "(byte list \<Rightarrow> hash) \<Rightarrow> (statedb \<Rightarrow> address list) \<Rightarrow> (hash set \<Rightarrow> hash list) \<Rightarrow> u64 \<Rightarrow> ref \<Rightarrow> u64 \<Rightarrow> full_node \<Rightarrow> unit node_run option" where
  "phase_resilience sha ord ordh now r height n =
     (case node_bind (account_at 0 n) (\<lambda>alice n1.
        obind (build_block sha now n1 (na_address alice) [] 0) (\<lambda>b.
          obind (insert_built sha ord r (fork_at height b) n1) (\<lambda>(_, n2). Ok (Inr (), n2)))) of
        Ok (Inr _, n2) \<Rightarrow>
          (case add_tx sha ordh invalid_tx (fn_txpool n2) of
             None \<Rightarrow> None
           | Some Panic \<Rightarrow> Some Panic
           | Some (Err e) \<Rightarrow> Some (node_bind (on_state rollback_check n2) (\<lambda>ok n3.
               if ok then Ok (Inr (), n3) else Ok (Inl ''state rollback failed!'', n3)))
           | Some (Ok p) \<Rightarrow> Some (node_bind (on_state rollback_check (n2\<lparr>fn_txpool := p\<rparr>)) (\<lambda>ok n3.
               if ok then Ok (Inr (), n3) else Ok (Inl ''state rollback failed!'', n3))))
      | res \<Rightarrow> Some res)"

end
