(* ===== verification/NodeWiringProps.thy ===== *)
theory NodeWiringProps
  imports NodeWiring BlockchainProps
begin

text \<open>
  What the wiring guarantees: a failed start closes what it opened but for two leaks, a started node closes
  everything when it stops, and two nodes started in different seconds never synchronise.
\<close>

section \<open>Resources\<close>

definition net_resources :: "resource set" where
  "net_resources = {ResHost, ResPruneLoop, ResMdns, ResDht, ResBootstrapLoop, ResMdnsLoop, ResPubSub}"

lemma host_new_opens:
  "host_new lib cfgp os = (Ok pid, os') \<Longrightarrow> os' = insert ResHost os"
  "host_new lib cfgp os = (Err e, os') \<Longrightarrow> os' = os"
  by (auto simp: host_new_def Let_def split: option.splits outcome.splits)

definition mdns_on :: "discovery \<Rightarrow> resource set" where
  "mdns_on d = (if ds_mdns d then {ResMdns} else {}) \<union> (if ds_dht d then {ResDht} else {})"

lemma discovery_new_Ok:
  assumes "discovery_new lib cfg os = (Ok d, os')"
  shows "os' = os \<union> {ResBootstrapLoop, ResMdnsLoop} \<union> mdns_on d"
  using assms
  by (auto simp: discovery_new_def setup_mdns_def setup_dht_def mdns_on_def Let_def split: if_splits outcome.splits prod.splits)

text \<open>mDNS stays open when the DHT fails after it.\<close>

definition mdns_leaked :: "('k, 'r) net_library \<Rightarrow> discovery_config \<Rightarrow> bool" where
  "mdns_leaked lib cfg \<longleftrightarrow> dc_enable_mdns cfg \<and>
     nl_mdns_start lib (if dc_rendezvous cfg = '''' then ''aichain/v1'' else dc_rendezvous cfg) = Ok ()"

lemma discovery_new_Err:
  assumes "discovery_new lib cfg os = (Err e, os')"
  shows "os' = os \<union> (if mdns_leaked lib cfg then {ResMdns} else {})"
  using assms
  by (auto simp: discovery_new_def setup_mdns_def setup_dht_def mdns_leaked_def Let_def split: if_splits outcome.splits prod.splits)

lemma discovery_close_cases:
  assumes "discovery_close lib d os = (res, os')" "res \<noteq> Panic"
  shows "os' = os - {ResBootstrapLoop, ResMdnsLoop} - mdns_on d"
  using assms by (auto simp: discovery_close_def mdns_on_def Let_def split: if_splits outcome.splits)

lemma p2p_new_Ok:
  assumes "p2p_new lib cfg os = (Ok n, os')"
  shows "os' = os \<union> {ResHost, ResPruneLoop, ResBootstrapLoop, ResMdnsLoop, ResPubSub} \<union> mdns_on (pn_discovery n)"
  using assms unfolding p2p_new_def Let_def
  by (auto split: prod.splits outcome.splits dest!: host_new_opens discovery_new_Ok)

lemma p2p_close_all:
  assumes "p2p_close ord lib n os = (res, os')" "res \<noteq> Panic"
  shows "os' = os - {ResHost, ResPruneLoop, ResBootstrapLoop, ResMdnsLoop, ResPubSub} - mdns_on (pn_discovery n)"
proof -
  obtain r2 os2 where d: "discovery_close lib (pn_discovery n) (os - {ResPubSub}) = (r2, os2)" by fastforce
  with assms have "r2 \<noteq> Panic" "os' = os2 - {ResPruneLoop, ResHost}"
    by (auto simp: p2p_close_def Let_def split: outcome.splits)
  with discovery_close_cases [OF d] show ?thesis by auto
qed

text \<open>
  C28: what a failed \<open>New\<close> of the network node leaves open. Nothing if the host could not be made; otherwise the
  prune loop of the peer manager, and the mDNS service too when the discovery failed after starting it.
\<close>

theorem p2p_new_leaks:
  assumes "p2p_new lib cfg os = (Err e, os')" "os \<inter> net_resources = {}"
  shows "os' = os \<union>
    (if \<exists>pid. fst (host_new lib (pf_host cfg) os) = Ok pid
     then {ResPruneLoop} \<union>
       (if (\<exists>e. fst (discovery_new lib (pf_discovery cfg) {}) = Err e) \<and> mdns_leaked lib (pf_discovery cfg) then {ResMdns} else {})
     else {})"
proof -
  have same: "fst (discovery_new lib c a) = fst (discovery_new lib c {})" for c a
    by (auto simp: discovery_new_def setup_mdns_def setup_dht_def Let_def split: outcome.splits)
  obtain r1 os1 where h: "host_new lib (pf_host cfg) os = (r1, os1)" by fastforce
  show ?thesis
  proof (cases r1)
    case (Ok pid)
    with h have o1: "os1 = insert ResHost os" using host_new_opens(1) [of lib _ os pid os1] by simp
    obtain r2 os2 where d: "discovery_new lib (pf_discovery cfg) (insert ResPruneLoop os1) = (r2, os2)" by fastforce
    have r2: "fst (discovery_new lib (pf_discovery cfg) {}) = r2" using same [of "pf_discovery cfg" "insert ResPruneLoop os1"] d by simp
    show ?thesis
    proof (cases r2)
      case (Ok disc)
      note o2 = discovery_new_Ok [OF d [unfolded Ok]]
      from assms(1) h d Ok \<open>r1 = Ok pid\<close> obtain e1 r3 os3 where
        "new_pub_sub (nl_router lib (gc_peer_exchange (pf_gossip cfg)) (gc_max_message_size (pf_gossip cfg))) =
          (Err e1 :: (string, ('a, 'c) gossip_state) outcome)"
        and c: "discovery_close lib disc os2 = (r3, os3)" "r3 \<noteq> Panic" "os' = os3 - {ResHost}"
        by (auto simp: p2p_new_def Let_def split: outcome.splits prod.splits)
      with discovery_close_cases [OF c(1,2)] o2 o1 assms(2) Ok r2 h \<open>r1 = Ok pid\<close> show ?thesis
        by (auto simp: net_resources_def mdns_on_def)
    next
      case (Err e2)
      with assms(1) h d \<open>r1 = Ok pid\<close> have "os' = os2 - {ResHost}" by (auto simp: p2p_new_def Let_def)
      with discovery_new_Err [OF d [unfolded Err]] o1 assms(2) r2 Err h \<open>r1 = Ok pid\<close> show ?thesis
        by (auto simp: net_resources_def)
    next
      case Panic
      with assms(1) h d \<open>r1 = Ok pid\<close> show ?thesis by (simp add: p2p_new_def Let_def)
    qed
  qed (use assms(1) h host_new_opens(2) [of lib _ os _ os1] in \<open>auto simp: p2p_new_def\<close>)
qed

text \<open>
  A node that was started and is stopped has nothing left open, whatever errors the parts report
  on closing; only what was open before remains.
\<close>

theorem start_stop_balanced:
  assumes "node_new sha ord ords lib db heap r now cfg os = (Ok n, os1)"
    "node_stop ords lib db_close n os1 = (res, os2)" "res \<noteq> Panic"
    "os \<inter> ({ResDatabase, ResNodeContext} \<union> net_resources) = {}"
  shows "os2 = os"
proof -
  obtain net :: "(unit, 'a, 'b) p2p_node" where
    p: "p2p_new lib default_p2p_config (insert ResDatabase (insert ResNodeContext os)) = (Ok net, os1)"
    and n: "pn_discovery (nd_net n) = pn_discovery net"
    using assms(1) by (auto simp: node_new_def set_sync_handler_def Let_def split: outcome.splits prod.splits)
  obtain r3 os3 where c: "p2p_close ords lib (nd_net n) (os1 - {ResNodeContext}) = (r3, os3)" by fastforce
  with assms(2,3) have "r3 \<noteq> Panic" "os2 = os3 - {ResDatabase}"
    by (auto simp: node_stop_def Let_def split: outcome.splits)
  with p2p_close_all [OF c] p2p_new_Ok [OF p] n assms(4) show ?thesis
    by (auto simp: net_resources_def mdns_on_def)
qed

section \<open>Two nodes\<close>

lemma start_chain_genesis:
  assumes "start_chain sha ord st heap r now cfg = Ok chain"
  obtains rt g where "bc_current chain = Some r" "bc_heap chain r = genesis_block g rt" "gen_timestamp g = now"
    "gen_initial_height g = 0"
proof -
  define econ where "econ = (case cf_econ_params cfg of None \<Rightarrow> default_testnet_params | Some p \<Rightarrow> p)"
  from assms obtain g res c1 where g: "load_genesis now cfg = Ok g"
    and c: "init_genesis sha ord r g (new_blockchain (copy_left 32 (sha [])) st econ (cf_chain_id cfg) heap) = Ok (res, c1)"
    and "(case res of Inl e \<Rightarrow> Err (''init genesis: '' @ e) | Inr _ \<Rightarrow> Ok c1) = Ok chain"
    by (auto simp: start_chain_def econ_def current_block_def new_blockchain_def Let_def obind_Ok_iff)
  then have i: "init_genesis sha ord r g (new_blockchain (copy_left 32 (sha [])) st econ (cf_chain_id cfg) heap) = Ok (Inr (), chain)"
    by (cases res) auto
  have "\<exists>rt. bc_current chain = Some r \<and> bc_heap chain r = genesis_block g rt"
  proof -
    from i obtain x s1 where al: "genesis_allocs (gen_alloc g) (new_statedb (copy_left 32 (sha [])) st) = Ok (x, s1)"
      by (auto simp: init_genesis_def obind_Ok_iff new_blockchain_def)
    with i show ?thesis
      by (cases x) (auto simp: init_genesis_def obind_Ok_iff new_blockchain_def Let_def)
  qed
  then obtain rt where "bc_current chain = Some r" "bc_heap chain r = genesis_block g rt" by blast
  moreover from g have "gen_timestamp g = now" "gen_initial_height g = 0"
    by (auto simp: load_genesis_def default_genesis_def split: option.splits)
  ultimately show thesis using that by blast
qed

lemma node_new_Ok:
  assumes "node_new sha ord ords lib db heap r now cfg os = (Ok n, os1)"
  obtains st where "db = Ok st" "start_chain sha ord st heap r now cfg = Ok (nd_chain n)"
    "pn_sync_handler (nd_net n) = Some \<lparr>sh_chain_id = cf_chain_id cfg, sh_genesis_hash = genesis_hash_of sha (nd_chain n)\<rparr>"
  using assms by (auto simp: node_new_def set_sync_handler_def Let_def split: outcome.splits prod.splits)

text \<open>
  A restarted node has forgotten its chain. Whatever the database holds, a node that starts is at height 0 on
  a genesis block stamped with the time of the start.
\<close>

theorem restart_forgets:
  assumes "node_new sha ord ords lib db heap r now cfg os = (Ok n, os1)"
  shows "current_block (nd_chain n) = Some r \<and> bh_height (blk_header (bc_heap (nd_chain n) r)) = 0 \<and>
    bh_timestamp (blk_header (bc_heap (nd_chain n) r)) = now \<and> blk_txs (bc_heap (nd_chain n) r) = []"
proof -
  obtain st where "start_chain sha ord st heap r now cfg = Ok (nd_chain n)" using node_new_Ok [OF assms] by metis
  from start_chain_genesis [OF this] obtain rt g where "bc_current (nd_chain n) = Some r" "bc_heap (nd_chain n) r = genesis_block g rt"
    "gen_timestamp g = now" "gen_initial_height g = 0" by metis
  then show ?thesis by (simp add: current_block_def genesis_block_def)
qed

definition sync_of :: "('h, 'k, 'r) chain_node \<Rightarrow> sync_handler" where
  "sync_of n = the (pn_sync_handler (nd_net n))"

lemma u64_bytes_inj: "u64_bytes a = u64_bytes b \<Longrightarrow> a = b"
  by (metis u64_of_bytes_u64_bytes)

lemma genesis_preimages_differ:
  assumes "gen_timestamp g \<noteq> gen_timestamp g'"
  shows "header_preimage (blk_header (genesis_block g rt)) \<noteq> header_preimage (blk_header (genesis_block g' rt'))"
proof
  assume "header_preimage (blk_header (genesis_block g rt)) = header_preimage (blk_header (genesis_block g' rt'))"
  then have "u64_bytes (gen_timestamp g) = u64_bytes (gen_timestamp g')"
    by (simp add: header_preimage_def genesis_block_def)
  with assms u64_bytes_inj show False by blast
qed

text \<open>A status request that names another genesis block is not answered.\<close>

lemma other_genesis_refused:
  assumes "copy_left 32 (sh_genesis_hash h) \<noteq> sh_genesis_hash h'"
  shows "handle_status h' bc pid clk (write_message (encode_status_request (own_status h b))) pm = ([], pm)"
proof -
  let ?d = "encode_status_request (own_status h b)"
  have l: "length ?d \<le> message_cap" by (simp add: encode_status_request_def encode_status_def message_cap_def)
  have "decode_status_request ?d = Ok (own_status h b\<lparr>st_state_root := copy_left 32 (st_state_root (own_status h b)),
      st_genesis_hash := copy_left 32 (sh_genesis_hash h)\<rparr>)"
    by (simp add: decode_status_request_def encode_status_request_def decode_status_def encode_status_def wire
        bytes_to_hash_def own_status_def copy_left_id)
  with read_write_message [OF l, of "[]"] assms show ?thesis by (simp add: handle_status_def)
qed

lemma best_peer_none:
  assumes "\<forall>k. \<forall>pid \<in> set pids. \<forall>s. request_status net k h bc pid \<noteq> Ok s"
  shows "best_peer net h bc n pids best = best"
  using assms
proof (induction pids arbitrary: n)
  case (Cons p ps)
  then have "(case request_status net n h bc p of Ok resp \<Rightarrow> (if fst best < st_height resp then (st_height resp, p) else best) | _ \<Rightarrow> best) = best"
    by (auto split: outcome.splits)
  with Cons show ?case by simp
qed simp

text \<open>
  C27: two nodes started in different seconds never synchronise. Each makes its own genesis block with the time of
  its start, so, if SHA-256 does not collide on the two headers, the other one leaves its status requests
  unanswered and unrecorded, and a synchronisation with such peers only ends with no block and no error.
\<close>

theorem started_apart_never_sync:
  assumes "node_new sha ord ords lib db heap r now cfg os = (Ok n, os1)"
    "node_new sha ord' ords' lib' db' heap' r' now' cfg' os' = (Ok n', os2)"
    "now \<noteq> now'" "hash32 sha"
    "inj_on sha {header_preimage (blk_header (bc_heap (nd_chain n) r)), header_preimage (blk_header (bc_heap (nd_chain n') r'))}"
    "\<forall>k. \<forall>pid \<in> set peers. \<exists>me clk pm. net k pid protocol_status = Some (\<lambda>d. Some (fst (handle_status (sync_of n') (nd_chain n') me clk d pm)))"
  shows "sync_to_best_chain net (sync_of n) (nd_chain n) peers = Some (0, None) \<and>
    handle_status (sync_of n') (nd_chain n') pid clk
      (write_message (encode_status_request (own_status (sync_of n) (bc_heap (nd_chain n) r)))) pm = ([], pm)"
proof -
  obtain st where a: "start_chain sha ord st heap r now cfg = Ok (nd_chain n)"
    "sync_of n = \<lparr>sh_chain_id = cf_chain_id cfg, sh_genesis_hash = genesis_hash_of sha (nd_chain n)\<rparr>"
    using node_new_Ok [OF assms(1)] by (metis sync_of_def option.sel)
  obtain st' where b: "start_chain sha ord' st' heap' r' now' cfg' = Ok (nd_chain n')"
    "sync_of n' = \<lparr>sh_chain_id = cf_chain_id cfg', sh_genesis_hash = genesis_hash_of sha (nd_chain n')\<rparr>"
    using node_new_Ok [OF assms(2)] by (metis sync_of_def option.sel)
  obtain rt g where g: "bc_current (nd_chain n) = Some r" "bc_heap (nd_chain n) r = genesis_block g rt" "gen_timestamp g = now"
    using start_chain_genesis [OF a(1)] by metis
  obtain rt' g' where g': "bc_current (nd_chain n') = Some r'" "bc_heap (nd_chain n') r' = genesis_block g' rt'" "gen_timestamp g' = now'"
    using start_chain_genesis [OF b(1)] by metis
  have ne: "sha (header_preimage (blk_header (bc_heap (nd_chain n) r))) \<noteq> sha (header_preimage (blk_header (bc_heap (nd_chain n') r')))"
  proof -
    have "gen_timestamp g \<noteq> gen_timestamp g'" using g(3) g'(3) assms(3) by simp
    from genesis_preimages_differ [OF this, of rt rt'] show ?thesis
      using inj_onD [OF assms(5)] unfolding g(2) g'(2) by blast
  qed
  have id32: "copy_left 32 x = x" if "length x = 32" for x using that by (simp add: copy_left_def)
  have "copy_left 32 (sh_genesis_hash (sync_of n)) \<noteq> sh_genesis_hash (sync_of n')"
    using ne assms(4) g(1) g'(1) a(2) b(2)
    by (simp add: genesis_hash_of_def current_block_def block_hash_def compute_block_hash_def hash32_def id32)
  note refused = other_genesis_refused [OF this]
  have "request_status net k (sync_of n) (nd_chain n) pid \<noteq> Ok s" if peer: "pid \<in> set peers" for k pid s
  proof -
    obtain me clk pm where "net k pid protocol_status = Some (\<lambda>d. Some (fst (handle_status (sync_of n') (nd_chain n') me clk d pm)))"
      using assms(6) peer by blast
    moreover have "send_message (\<lambda>d. Some (fst (handle_status (sync_of n') (nd_chain n') me clk d pm)))
        (encode_status_request (own_status (sync_of n) (genesis_block g rt))) = Err err_stream_closed"
      unfolding send_message_def refused by (simp add: read_message_def)
    ultimately show ?thesis using g(1,2) by (simp add: request_status_def current_block_def)
  qed
  then have "best_peer net (sync_of n) (nd_chain n) 0 peers b = b" for b by (intro best_peer_none) blast
  then show ?thesis using g(1) refused
    by (simp add: sync_to_best_chain_def current_block_def Let_def)
qed

section \<open>A first start\<close>

text \<open>A state over an empty database none of whose objects has contract storage.\<close>

definition plain :: "statedb \<Rightarrow> bool" where
  "plain s \<longleftrightarrow> sd_store s = Map.empty \<and> sd_trie s = new_empty_trie \<and>
     (\<forall>a obj. sd_objects s a = Some obj \<longrightarrow> so_storage obj = None)"

lemma empty_db: "db_ok (get_node Map.empty)"
  by (auto simp: db_ok_def get_node_def)

lemma plain_get_or_new:
  assumes "plain s" "get_or_new_state_object a s = Ok (obj, s1)"
  shows "plain s1 \<and> so_storage obj = None"
proof -
  have "trie_read (get_node Map.empty) new_empty_trie a = Some (new_empty_trie, None)"
    using trie_read_safe [OF empty_db, of new_empty_trie a]
    by (auto simp: new_empty_trie_def new_trie_def trie_value_def)
  with assms show ?thesis
    by (auto simp: plain_def get_or_new_state_object_def get_state_object_def create_object_def new_state_object_def
        journal_append_def put_object_def obind_Ok_iff split: option.splits if_splits)
qed

lemma plain_add:
  assumes "plain s"
  shows "add_balance_apt a v s = Ok (u, s') \<Longrightarrow> plain s'" "add_balance_npt a v s = Ok (u, s') \<Longrightarrow> plain s'"
  using plain_get_or_new [OF assms, of a]
  by (auto simp: add_balance_apt_def add_balance_npt_def change_balance_def so_add_balance_apt_def so_add_balance_npt_def
      obind_Ok_iff Let_def plain_def put_object_def journal_append_def split: if_splits)

lemma plain_pool:
  assumes "plain s" "sdb_ok s" "gen_pool_apt g = Some x" "gen_pool_npt g = Some y"
  shows "\<exists>s2. genesis_pool sha g s = Ok s2"
proof -
  obtain obj s1 where o: "get_or_new_state_object amm_pool_address s = Ok (obj, s1)" using get_or_new_ok [OF assms(2)] by metis
  with plain_get_or_new [OF assms(1)] have p: "sd_store s1 = Map.empty" "so_storage obj = None" by (auto simp: plain_def)
  have wf: "wf_node (root new_empty_trie)" by (simp add: new_empty_trie_def new_trie_def)
  obtain t1 where t1: "trie_put (get_node Map.empty) new_empty_trie (amm_pool_key sha ''apt'') (Some (big_bytes x)) = Some t1" "wf_node (root t1)"
    using trie_put_ok [OF empty_db wf] by blast
  obtain t2 where t2: "trie_put (get_node Map.empty) t1 (amm_pool_key sha ''npt'') (Some (big_bytes y)) = Some t2"
    using trie_put_ok [OF empty_db t1(2)] by blast
  show ?thesis using o p t1(1) t2 assms(3,4)
    by (simp add: genesis_pool_def to_big_int_def so_set_storage_def)
qed

lemma first_start: "\<exists>chain. start_chain sha (\<lambda>_. []) Map.empty heap r now default_config = Ok chain"
proof -
  let ?p = "1000000 * apt_precision"
  obtain g where g: "load_genesis now default_config = Ok g" and a: "gen_alloc g = [\<lparr>ga_address = zero_address, ga_apt = Some ?p,
      ga_npt = Some ?p, ga_staked = None\<rparr>]" and pl: "gen_pool_apt g = new_token_amount_uint64 100000" "gen_pool_npt g = new_token_amount_uint64 100000"
    by (simp add: load_genesis_def default_config_def default_testnet_params_def)
  define s where "s = new_statedb (copy_left 32 (sha [])) Map.empty"
  have s: "plain s" "sdb_ok s" using new_statedb_ok by (auto simp: plain_def s_def new_statedb_def)
  let ?a = "\<lparr>ga_address = zero_address, ga_apt = Some ?p, ga_npt = Some ?p, ga_staked = None\<rparr>"
  have "\<not> alloc_zero ?a" by (simp add: alloc_zero_def amount_is_zero_def apt_precision_def)
  from alloc_one [OF s(2) this] obtain s1 s2 where m: "mint_apt zero_address (Some ?p) s = Ok (Inr (), s1)"
    "mint_npt zero_address (Some ?p) s1 = Ok (Inr (), s2)" "sdb_ok s2" by auto
  from m(1) have "plain s1" using plain_add(1) [OF s(1)]
    by (auto simp: mint_apt_def ok_call_def obind_Ok_iff split: if_splits)
  then have "plain s2" using m(2) plain_add(2)
    by (auto simp: mint_npt_def ok_call_def obind_Ok_iff split: if_splits)
  then obtain s3 where pool: "genesis_pool sha g s2 = Ok s3"
    using plain_pool [OF _ m(3)] pl by (metis new_token_amount_uint64_def)
  obtain h s4 where c: "commit sha [] s3 = Ok (h, s4)" using commit_some by metis
  have al: "genesis_allocs (gen_alloc g) s = Ok (Inr (), s2)" using m by (simp add: a call_bind_def)
  define bc where "bc = new_blockchain (copy_left 32 (sha [])) Map.empty default_testnet_params (cf_chain_id default_config) heap"
  have bc: "bc_statedb bc = s" "current_block bc = None" by (simp_all add: bc_def new_blockchain_def s_def current_block_def)
  have "\<exists>chain. init_genesis sha (\<lambda>_. []) r g bc = Ok (Inr (), chain)"
    unfolding init_genesis_def bc(1) by (simp add: al pool c Let_def)
  then obtain chain where "init_genesis sha (\<lambda>_. []) r g bc = Ok (Inr (), chain)" by blast
  moreover have "cf_econ_params default_config = Some default_testnet_params" by (simp add: default_config_def)
  ultimately show ?thesis
    unfolding start_chain_def Let_def by (simp add: g bc_def [symmetric] bc(2))
qed

section \<open>Witnesses\<close>

definition sample_router :: "unit router_api" where
  "sample_router = \<lparr>ra_join = \<lambda>_ r. (Ok (), r), ra_subscribe = \<lambda>_ r. (Ok (), r), ra_cancel = \<lambda>_ r. r,
     ra_close = \<lambda>_ r. r, ra_publish = \<lambda>_ _ r. (Ok (), r)\<rparr>"

definition sample_library :: "(string, unit) outcome \<Rightarrow> (unit, unit) net_library" where
  "sample_library dht = \<lparr>nl_generate_key = Ok (), nl_peer_id = \<lambda>_. Ok ''me'', nl_conn_manager = \<lambda>_ _ _. Ok (),
     nl_host = \<lambda>_ _ _. Ok (), nl_mdns_start = \<lambda>_. Ok (), nl_dht_new = \<lambda>_ _. dht, nl_router = \<lambda>_ _. Ok (),
     nl_router_api = sample_router, nl_host_close = Ok (), nl_dht_close = Ok ()\<rparr>"

lemmas library_eval = sample_library_def sample_router_def p2p_new_def host_new_def default_p2p_config_def
  default_host_config_def default_discovery_config_def discovery_new_def setup_mdns_def setup_dht_def new_pub_sub_def
  default_gossip_config_def

lemma sample_start_node:
  "\<exists>n os1. node_new sha (\<lambda>_. []) (\<lambda>_. []) (sample_library (Ok ())) (Ok Map.empty) heap r now default_config {} = (Ok n, os1)"
proof -
  obtain chain where c: "start_chain sha (\<lambda>_. []) Map.empty heap r now default_config = Ok chain" using first_start by blast
  then show ?thesis
    unfolding node_new_def
    by (simp add: c library_eval set_sync_handler_def all_topics_def gossip_join_def Let_def)
qed

definition stamp_sha :: "byte list \<Rightarrow> hash" where
  "stamp_sha b = copy_left 32 (drop 40 b)"

theorem p2p_new_leaks_witness:
  "\<exists>e. (p2p_new (sample_library (Err ''dht'')) default_p2p_config {} :: (unit, unit, unit) p2p_node startup) = (Err e, {ResPruneLoop, ResMdns})"
proof -
  obtain e os' where new: "(p2p_new (sample_library (Err ''dht'')) default_p2p_config {} :: (unit, unit, unit) p2p_node startup) = (Err e, os')"
    by (simp add: library_eval Let_def)
  from p2p_new_leaks [OF new] have "os' = {ResPruneLoop, ResMdns}"
    by (simp add: library_eval mdns_leaked_def Let_def insert_commute)
  with new show ?thesis by simp
qed

theorem start_stop_balanced_witness:
  "\<exists>n os1 res. node_new stamp_sha (\<lambda>_. []) (\<lambda>_. []) (sample_library (Ok ())) (Ok Map.empty) (\<lambda>_. sample_next) 0 1 default_config {} = (Ok n, os1) \<and>
     node_stop (\<lambda>_. []) (sample_library (Ok ())) (Err ''busy'') n os1 = (res, {})"
proof -
  obtain n os1 where n: "node_new stamp_sha (\<lambda>_. []) (\<lambda>_. []) (sample_library (Ok ())) (Ok Map.empty) (\<lambda>_. sample_next) 0 1 default_config {} = (Ok n, os1)"
    using sample_start_node by blast
  obtain res os2 where s: "node_stop (\<lambda>_. []) (sample_library (Ok ())) (Err ''busy'') n os1 = (res, os2)" by fastforce
  then have "res \<noteq> Panic"
    by (auto simp: node_stop_def p2p_close_def discovery_close_def collected_def sample_library_def Let_def split: if_splits)
  with start_stop_balanced [OF n s] have "os2 = {}" by simp
  with n s show ?thesis by blast
qed

theorem restart_forgets_witness:
  "\<exists>n os1. node_new stamp_sha (\<lambda>_. []) (\<lambda>_. []) (sample_library (Ok ())) (Ok Map.empty) (\<lambda>_. sample_next) 0 7 default_config {} = (Ok n, os1) \<and>
     bh_timestamp (blk_header (bc_heap (nd_chain n) 0)) = 7"
proof -
  obtain n os1 where n: "node_new stamp_sha (\<lambda>_. []) (\<lambda>_. []) (sample_library (Ok ())) (Ok Map.empty) (\<lambda>_. sample_next) 0 7 default_config {} = (Ok n, os1)"
    using sample_start_node by blast
  with restart_forgets [OF n] show ?thesis by blast
qed

text \<open>The hash function of the witness takes the bytes from the timestamp on.\<close>

lemma stamp_sha_stamp:
  assumes "header_preimage (blk_header (genesis_block g rt)) = p" "gen_initial_height g = 0"
  shows "take 8 (stamp_sha p) = u64_bytes (gen_timestamp g)"
proof -
  have "length empty_hash = 32" "length (u64_bytes v) = 8" for v by (simp_all add: empty_hash_def u64_bytes_def)
  with assms show ?thesis
    by (auto simp: header_preimage_def genesis_block_def stamp_sha_def copy_left_def)
qed

theorem started_apart_never_sync_witness:
  "\<exists>n n' os1 os2. node_new stamp_sha (\<lambda>_. []) (\<lambda>_. []) (sample_library (Ok ())) (Ok Map.empty) (\<lambda>_. sample_next) 0 1 default_config {} = (Ok n, os1) \<and>
     node_new stamp_sha (\<lambda>_. []) (\<lambda>_. []) (sample_library (Ok ())) (Ok Map.empty) (\<lambda>_. sample_next) 0 2 default_config {} = (Ok n', os2) \<and>
     sync_to_best_chain (\<lambda>k pid proto. Some (\<lambda>d. Some (fst (handle_status (sync_of n') (nd_chain n') ''a'' (0, 0, 0) d (new_peer_manager default_peer_config)))))
       (sync_of n) (nd_chain n) [''b''] = Some (0, None)"
proof -
  obtain n os1 where n: "node_new stamp_sha (\<lambda>_. []) (\<lambda>_. []) (sample_library (Ok ())) (Ok Map.empty) (\<lambda>_. sample_next) 0 1 default_config {} = (Ok n, os1)"
    using sample_start_node by blast
  obtain n' os2 where n': "node_new stamp_sha (\<lambda>_. []) (\<lambda>_. []) (sample_library (Ok ())) (Ok Map.empty) (\<lambda>_. sample_next) 0 2 default_config {} = (Ok n', os2)"
    using sample_start_node by blast
  obtain st where "start_chain stamp_sha (\<lambda>_. []) st (\<lambda>_. sample_next) 0 1 default_config = Ok (nd_chain n)" using node_new_Ok [OF n] by metis
  from start_chain_genesis [OF this] obtain rt g where g: "bc_heap (nd_chain n) 0 = genesis_block g rt" "gen_timestamp g = 1" "gen_initial_height g = 0"
    by metis
  obtain st' where "start_chain stamp_sha (\<lambda>_. []) st' (\<lambda>_. sample_next) 0 2 default_config = Ok (nd_chain n')" using node_new_Ok [OF n'] by metis
  from start_chain_genesis [OF this] obtain rt' g' where g': "bc_heap (nd_chain n') 0 = genesis_block g' rt'" "gen_timestamp g' = 2" "gen_initial_height g' = 0"
    by metis
  let ?p = "header_preimage (blk_header (bc_heap (nd_chain n) 0))" and ?p' = "header_preimage (blk_header (bc_heap (nd_chain n') 0))"
  have "take 8 (stamp_sha ?p) = u64_bytes 1" "take 8 (stamp_sha ?p') = u64_bytes 2"
    using stamp_sha_stamp [OF refl g(3), of rt] stamp_sha_stamp [OF refl g'(3), of rt'] g g' by simp_all
  then have ne: "stamp_sha ?p \<noteq> stamp_sha ?p'" using u64_bytes_inj [of 1 2] by auto
  have inj: "inj_on stamp_sha {?p, ?p'}" using ne by (auto simp: inj_on_def)
  have sha: "hash32 stamp_sha" by (simp add: hash32_def stamp_sha_def)
  define net :: network where "net = (\<lambda>k pid proto. Some (\<lambda>d. Some (fst (handle_status (sync_of n') (nd_chain n') ''a'' (0, 0, 0) d (new_peer_manager default_peer_config)))))"
  have "\<forall>k. \<forall>pid \<in> set [''b'']. \<exists>(me :: string) clk pm. net k pid protocol_status = Some (\<lambda>d. Some (fst (handle_status (sync_of n') (nd_chain n') me clk d pm)))"
    unfolding net_def by blast
  from started_apart_never_sync [where net = net and peers = "[''b'']", OF n n' _ sha inj this] have "sync_to_best_chain net (sync_of n) (nd_chain n) [''b''] = Some (0, None)"
    by simp
  with n n' show ?thesis unfolding net_def by blast
qed

end
