(* ===== verification/FullNodeProps.thy ===== *)
theory FullNodeProps
  imports FullNode NodeWiringProps DispatcherProps VerifierProps
begin

text \<open>
  What the full node's run relies on: its genesis funds the accounts, the blocks it builds are accepted on the head
  and refused beside it, and its demonstration task is dispatched, answered and accepted.
\<close>

section \<open>Blocks\<close>

lemma build_block_Ok:
  assumes "build_block sha now n proposer txs rnd = Ok b" "bc_current (fn_chain n) = Some p"
  obtains txRoot where "b = \<lparr>blk_header = \<lparr>bh_parent_hash = block_hash sha (bc_heap (fn_chain n) p),
      bh_height = bh_height (blk_header (bc_heap (fn_chain n) p)) + 1,
      bh_timestamp = next_time now (bh_timestamp (blk_header (bc_heap (fn_chain n) p))),
      bh_state_root = bh_state_root (blk_header (bc_heap (fn_chain n) p)), bh_tx_root = txRoot, bh_receipt_root = empty_hash,
      bh_proposer = proposer, bh_gas_limit = gas_limit (gas_params (fn_params n)), bh_gas_used = 0, bh_extra = [],
      bh_round = rnd, bh_prevote_hash = empty_hash, bh_precommit_hash = empty_hash\<rparr>, blk_txs = txs\<rparr>"
  using assms by (auto simp: build_block_def current_block_def Let_def obind_Ok_iff)

lemma word_above_wraps:
  assumes "\<not> (p :: u64) < p + 1"
  shows "p = - 1"
proof -
  have "p + 1 = 0" using word_plus_one [of p p] assms by auto
  then show ?thesis by (simp add: eq_neg_iff_add_eq_0)
qed

lemma next_time_later: "t \<noteq> - 1 \<Longrightarrow> t < next_time now t"
  using word_above_wraps [of t] by (auto simp: next_time_def)

lemma next_time_wraps: "next_time now (- 1) = 0"
  by (simp add: next_time_def)

text \<open>
  C30: the block a full node builds is accepted on its head. \<open>ValidateBlock\<close> refuses it only if the head carries the
  largest time there is, so that the next one wraps to 0, or if the configured gas limit is too far from the head's;
  whatever the clock says, also if it runs behind the head. The same block at the head's own height is always
  refused and changes nothing.
\<close>

theorem built_block_accepted:
  assumes "build_block sha now n proposer txs rnd = Ok b" "bc_current (fn_chain n) = Some p" "r \<noteq> p"
  shows "validate_block sha b (bc_heap (fn_chain n) p) =
      (let h = blk_header (bc_heap (fn_chain n) p); limit = gas_limit (gas_params (fn_params n)) in
       if bh_timestamp h = - 1 then Err err_invalid_timestamp
       else if max_gas_change (bh_gas_limit h) < abs_diff limit (bh_gas_limit h) then Err err_gas_limit_change
       else Ok ()) \<and>
    insert_built sha ord r (fork_at (bh_height (blk_header (bc_heap (fn_chain n) p))) b) n =
      Ok (Inl err_invalid_height, n\<lparr>fn_chain := (fn_chain n)\<lparr>bc_heap := (bc_heap (fn_chain n))
        (r := fork_at (bh_height (blk_header (bc_heap (fn_chain n) p))) b)\<rparr>\<rparr>)"
proof (intro conjI)
  obtain txRoot where b: "b = \<lparr>blk_header = \<lparr>bh_parent_hash = block_hash sha (bc_heap (fn_chain n) p),
      bh_height = bh_height (blk_header (bc_heap (fn_chain n) p)) + 1,
      bh_timestamp = next_time now (bh_timestamp (blk_header (bc_heap (fn_chain n) p))),
      bh_state_root = bh_state_root (blk_header (bc_heap (fn_chain n) p)), bh_tx_root = txRoot, bh_receipt_root = empty_hash,
      bh_proposer = proposer, bh_gas_limit = gas_limit (gas_params (fn_params n)), bh_gas_used = 0, bh_extra = [],
      bh_round = rnd, bh_prevote_hash = empty_hash, bh_precommit_hash = empty_hash\<rparr>, blk_txs = txs\<rparr>"
    by (rule build_block_Ok [OF assms(1,2)])
  let ?t = "bh_timestamp (blk_header (bc_heap (fn_chain n) p))"
  have "(next_time now ?t \<le> ?t) = (?t = - 1)"
    using next_time_later [of ?t now] next_time_wraps [of now] by (cases "?t = - 1") auto
  then show "validate_block sha b (bc_heap (fn_chain n) p) =
      (let h = blk_header (bc_heap (fn_chain n) p); limit = gas_limit (gas_params (fn_params n)) in
       if bh_timestamp h = - 1 then Err err_invalid_timestamp
       else if max_gas_change (bh_gas_limit h) < abs_diff limit (bh_gas_limit h) then Err err_gas_limit_change
       else Ok ())"
    by (simp add: b validate_block_def Let_def)
  show "insert_built sha ord r (fork_at (bh_height (blk_header (bc_heap (fn_chain n) p))) b) n =
      Ok (Inl err_invalid_height, n\<lparr>fn_chain := (fn_chain n)\<lparr>bc_heap := (bc_heap (fn_chain n))
        (r := fork_at (bh_height (blk_header (bc_heap (fn_chain n) p))) b)\<rparr>\<rparr>)"
    using assms(2,3) by (simp add: insert_built_def insert_block_def validate_block_def fork_at_def Let_def)
qed

section \<open>Genesis\<close>

text \<open>
  The genesis of a full node funds its accounts: every address gains the initial supply of both tokens once for
  each account that has it, and nothing else changes.
\<close>

theorem accounts_funded:
  assumes "sdb_ok s" "apt_initial_supply params = Some x" "npt_initial_supply params = Some y" "x \<noteq> 0" "y \<noteq> 0"
  shows "\<exists>s'. genesis_allocs (gen_alloc (create_genesis now chainID accounts params)) s = Ok (Inr (), s') \<and> sdb_ok s' \<and>
    (\<forall>k a. view_bal s' k a = view_bal s k a + int (count_list (map na_address accounts) a) * (if k then x else y))"
proof -
  let ?as = "map (funded params) accounts"
  have g: "gen_alloc (create_genesis now chainID accounts params) = ?as"
    by (simp add: create_genesis_def default_genesis_def)
  have nz: "\<not> list_ex alloc_zero ?as"
    using assms(2-5) by (induction accounts) (auto simp: funded_def alloc_zero_def amount_is_zero_def)
  have sum: "sum_list (map (alloc_amount k a) ?as) = int (count_list (map na_address accounts) a) * (if k then x else y)" for k a
    using assms(2,3) by (induction accounts) (auto simp: funded_def alloc_amount_def algebra_simps)
  from genesis_alloc_credits [OF assms(1), of ?as] show ?thesis unfolding g using nz sum by auto
qed

section \<open>The demonstration task\<close>

lemma demo_tier_list:
  "tier_list (dp_by_tier (register_miner d second_capability (register_miner c first_capability new_dispatcher))) tier2_conversation
     = (if d = c then [c] else [c, d])"
proof -
  have "tier2_conversation \<in> set all_tiers" by (simp add: all_tiers_def)
  moreover have "tier_list (fold (\<lambda>t m. m(t \<mapsto> [])) all_tiers Map.empty) tier2_conversation = []"
    by (rule tier_list_fold_new) (simp add: tier_list_def)
  moreover have "can_miner_handle tier2_conversation first_capability" "can_miner_handle tier2_conversation second_capability"
    by (simp_all add: can_miner_handle_def get_tier_requirements_def first_capability_def second_capability_def demo_capability_def tier_defs)
  ultimately show ?thesis
    by (simp add: register_miner_def Let_def tier_list_fold_register [OF distinct_tiers] append_unique_def new_dispatcher_def)
qed

lemma demo_build: "\<exists>t. build_task sha (demo_builder a) = Ok t \<and> t_tier t = tier2_conversation \<and> t_fee t = Some 0 \<and> t_deadline t = 10000"
  by (simp add: build_task_def task_compute_hash_def task_preimage_def demo_builder_def set_tier_def set_creator_def
      new_task_builder_def amount_is_nil_def to_big_int_def Let_def)

lemma go_order_single: "go_order ord \<Longrightarrow> ord {x} = [x]"
proof -
  assume "go_order ord"
  then have "set (ord {x}) = {x}" "distinct (ord {x})" by (simp_all add: go_order_def)
  then have "length (ord {x}) = 1" using distinct_card by fastforce
  with \<open>set (ord {x}) = {x}\<close> show ?thesis by (cases "ord {x}") auto
qed

lemma demo_add:
  assumes "t_tier t = tier2_conversation" "t_fee t = Some 0"
  shows "\<exists>tp. add_task srt now t h (new_task_pool 100) = Ok tp \<and> tk_tasks tp (t_id t) \<noteq> None"
  using assms
  by (simp add: add_task_def new_task_pool_def fee_per_compute_def estimate_compute_units_def tier_defs to_big_int_def
      amount_cmp_def euclid_div_def tk_count_def insert_entry_def Let_def)

lemma demo_finalize:
  assumes "go_order ordu" "h \<le> 100"
  shows "\<exists>v v1 s. submit_result i res m h (new_verifier default_challenge_config) = Ok v \<and> finalize_results ordu 200 v = ([i], v1) \<and>
    get_verifier_state i v1 = Some s \<and> vst_status s = verifier_accepted \<and> vst_miner s = m \<and> vst_result_hash s = res"
proof -
  have le: "h + 100 \<le> 200" using assms(2) by (simp add: word_le_nat_alt unat_word_ariths)
  have "vr_by_height (new_verifier default_challenge_config) = Map.empty" "vr_states (new_verifier default_challenge_config) = Map.empty"
    "vr_config (new_verifier default_challenge_config) = default_challenge_config" "cc_challenge_period default_challenge_config = 100"
    by (simp_all add: new_verifier_def default_challenge_config_def)
  then show ?thesis
    by (simp add: submit_result_def finalize_results_def go_order_single [OF assms(1)] le Let_def get_verifier_state_def)
qed

text \<open>
  C29: the run of the task system succeeds. On fresh components and four accounts, whatever the order of the sort among equal
  scores, the demonstration task is built, pooled, dispatched to one of the two miners that were registered, neither scoring
  below the other one, and its result, submitted by height 100, is the one that is accepted.
\<close>

theorem demo_task_accepted:
  assumes "fn_accounts n = [alice, bob, charlie, dave]" "fn_task_pool n = new_task_pool 100"
    "fn_dispatcher n = new_dispatcher" "fn_verifier n = new_verifier default_challenge_config"
    "go_sort better_score srtc" "go_order ordu" "height \<le> 100"
  shows "\<exists>t m n' s. build_task sha (demo_builder (na_address alice)) = Ok t \<and>
    phase_tasks sha ord1 ord2 srt srtc ordu now result height n = Ok (Inr (m, [t_id t]), n') \<and>
    m \<in> {na_address charlie, na_address dave} \<and> tk_tasks (fn_task_pool n') (t_id t) \<noteq> None \<and>
    map_option mi_current_load (dp_miners (fn_dispatcher n') m) = Some 1 \<and>
    get_verifier_state (t_id t) (fn_verifier n') = Some s \<and> vst_status s = verifier_accepted \<and> vst_miner s = m \<and>
    vst_result_hash s = bytes_to_hash result"
proof -
  let ?c = "na_address charlie" and ?d = "na_address dave"
  define dp where "dp = register_miner ?d second_capability (register_miner ?c first_capability new_dispatcher)"
  have inv: "disp_inv dp" using register_ok new_dispatcher_ok by (simp add: dp_def)
  have tl: "tier_list (dp_by_tier dp) tier2_conversation = (if ?d = ?c then [?c] else [?c, ?d])"
    unfolding dp_def by (rule demo_tier_list)
  have load: "mi_current_load m = 0" if "dp_miners dp a = Some m" for a m
    using that by (auto simp: dp_def register_miner_def new_dispatcher_def Let_def split: if_splits option.splits)
  obtain t where t: "build_task sha (demo_builder (na_address alice)) = Ok t" "t_tier t = tier2_conversation" "t_fee t = Some 0"
    using demo_build by blast
  obtain tp where tp: "add_task srt now t height (new_task_pool 100) = Ok tp" "tk_tasks tp (t_id t) \<noteq> None"
    using demo_add [OF t(2,3)] by blast
  have "tier_list (dp_by_tier dp) (t_tier t) \<noteq> []" using tl t(2) by simp
  from dispatch_eq [OF inv assms(5) this] obtain m mi where m: "m \<in> set (tier_list (dp_by_tier dp) (t_tier t))" "dp_miners dp m = Some mi"
    "dispatch srtc t dp = Ok (m, dp\<lparr>dp_miners := (dp_miners dp)(m \<mapsto> mi\<lparr>mi_current_load := mi_current_load mi + 1\<rparr>)\<rparr>)"
    by blast
  from demo_finalize [OF assms(6,7), of "t_id t" "bytes_to_hash result" m] obtain v v1 s where
    v: "submit_result (t_id t) (bytes_to_hash result) m height (new_verifier default_challenge_config) = Ok v"
    "finalize_results ordu 200 v = ([t_id t], v1)" "get_verifier_state (t_id t) v1 = Some s" "vst_status s = verifier_accepted"
    "vst_miner s = m" "vst_result_hash s = bytes_to_hash result" by blast
  define n' where "n' = (register_miners ord1 ord2 ?c ?d n)\<lparr>fn_task_pool := tp,
    fn_dispatcher := dp\<lparr>dp_miners := (dp_miners dp)(m \<mapsto> mi\<lparr>mi_current_load := mi_current_load mi + 1\<rparr>)\<rparr>, fn_verifier := v1\<rparr>"
  have acc: "account_at i n = Ok (Inr ([alice, bob, charlie, dave] ! i), n)" if "i < 4" for i
    using that assms(1) by (simp add: account_at_def)
  have reg: "fn_dispatcher (register_miners ord1 ord2 ?c ?d n) = dp" "fn_task_pool (register_miners ord1 ord2 ?c ?d n) = new_task_pool 100"
    "fn_verifier (register_miners ord1 ord2 ?c ?d n) = new_verifier default_challenge_config"
    using assms(2-4) by (simp_all add: register_miners_def dp_def)
  have "phase_tasks sha ord1 ord2 srt srtc ordu now result height n = Ok (Inr (m, [t_id t]), n')"
    by (simp add: phase_tasks_def node_bind_def acc Let_def t(1) reg tp(1) dispatch_demo_def m(3) v(1,2) n'_def)
  moreover have "m \<in> {?c, ?d}" using m(1) tl t(2) by (auto split: if_splits)
  ultimately show ?thesis using t(1) tp(2) v(3-6) load [OF m(2)]
    by (intro exI [of _ t] exI [of _ m] exI [of _ n'] exI [of _ s] conjI) (simp_all add: n'_def)
qed

section \<open>Witnesses\<close>

definition demo_account :: "byte \<Rightarrow> node_account" where
  "demo_account b = \<lparr>na_address = replicate 20 b, na_pub_key = replicate 32 b, na_priv_key = replicate 64 b, na_name = ''demo''\<rparr>"

text \<open>A node at the sample genesis block.\<close>

definition demo_node :: full_node where
  "demo_node = \<lparr>fn_params = default_mainnet_params, fn_chain_id = 31337,
     fn_chain = sample_start\<lparr>bc_heap := (\<lambda>_. sample_next)(0 := genesis_block sample_genesis empty_node_hash), bc_current := Some 0\<rparr>,
     fn_txpool = new_pool default_tx_pool_config 31337, fn_task_pool = new_task_pool 100, fn_dispatcher = new_dispatcher,
     fn_verifier = new_verifier default_challenge_config, fn_registry = new_registry,
     fn_accounts = map demo_account [1, 2, 3, 4]\<rparr>"

theorem demo_task_accepted_witness:
  "\<exists>m i n'. phase_tasks no_sha sorted_list_of_set sorted_list_of_set (\<lambda>xs. xs) score_sort sorted_list_of_set 0 (replicate 32 9) 0 demo_node
     = Ok (Inr (m, [i]), n') \<and> m \<in> {replicate 20 3, replicate 20 4}"
proof -
  have acc: "fn_accounts demo_node = [demo_account 1, demo_account 2, demo_account 3, demo_account 4]"
    and fresh: "fn_task_pool demo_node = new_task_pool 100" "fn_dispatcher demo_node = new_dispatcher"
      "fn_verifier demo_node = new_verifier default_challenge_config"
    by (simp_all add: demo_node_def)
  have "(0 :: u64) \<le> 100" by simp
  from demo_task_accepted [OF acc fresh score_sort go_order_sorted this, of no_sha sorted_list_of_set sorted_list_of_set "\<lambda>xs. xs" 0 "replicate 32 9"]
  show ?thesis by (auto simp: demo_account_def)
qed

theorem built_block_accepted_witness:
  "\<exists>b. build_block no_sha 5 demo_node zero_address [] 0 = Ok b \<and>
     validate_block no_sha b (genesis_block sample_genesis empty_node_hash) = Ok ()"
proof -
  have head: "bc_current (fn_chain demo_node) = Some 0" "bc_heap (fn_chain demo_node) 0 = genesis_block sample_genesis empty_node_hash"
    by (simp_all add: demo_node_def)
  obtain b where b: "build_block no_sha 5 demo_node zero_address [] 0 = Ok b"
    by (simp add: build_block_def current_block_def head Let_def)
  have h: "bh_timestamp (blk_header (genesis_block sample_genesis empty_node_hash)) = 1719000000"
    "bh_gas_limit (blk_header (genesis_block sample_genesis empty_node_hash)) = 30000000"
    "gas_limit (gas_params (fn_params demo_node)) = 30000000"
    by (simp_all add: genesis_block_def sample_genesis_def default_genesis_def demo_node_def default_mainnet_params_def default_gas_config_def)
  from built_block_accepted [OF b head(1), of 1] have "validate_block no_sha b (genesis_block sample_genesis empty_node_hash) = Ok ()"
    unfolding head(2) h by (simp add: Let_def h abs_diff_def max_gas_change_def)
  with b show ?thesis by blast
qed

theorem accounts_funded_witness:
  "\<exists>s'. genesis_allocs (gen_alloc (create_genesis 5 1 (map demo_account [1, 2]) default_testnet_params)) (new_statedb empty_hash Map.empty) = Ok (Inr (), s') \<and>
     view_bal s' True (replicate 20 1) = view_bal (new_statedb empty_hash Map.empty) True (replicate 20 1) + 1000000 * apt_precision"
proof -
  have p: "apt_initial_supply default_testnet_params = Some (1000000 * apt_precision)" "npt_initial_supply default_testnet_params = Some (1000000 * apt_precision)"
    by (simp_all add: default_testnet_params_def)
  have nz: "1000000 * apt_precision \<noteq> 0" by (simp add: apt_precision_def)
  have ne: "replicate 20 (2 :: byte) \<noteq> replicate 20 1" by (simp add: replicate_eq_replicate)
  from accounts_funded [where now = 5 and chainID = 1 and accounts = "map demo_account [1, 2]", OF new_statedb_ok [of empty_hash] p nz nz] ne show ?thesis
    by (auto simp: demo_account_def)
qed

end
