(* ===== verification/Spec2Isabelle.thy ===== *)
theory Spec2Isabelle
  imports ExecutorProps NodeStoreCorrect StateCommit VMProps TxPoolReach ConsensusSafety BlockchainProps TaskDagProps TaskPoolProps VerifierProps DispatcherProps PipelineProps CoordinatorProps ProtocolProps LocalProps RegistryProps MemoryDb JsonRpcProps WebNodeProps DigitalHumanProps TrieIteratorProps CryptoWrap FullNodeProps
begin

text \<open>
  A verification development for SiliconVerseAIChain, a proof-of-stake chain in Go whose transactions
  carry AI tasks (\<^verbatim>\<open>src/\<close> is the repository).

  \<^bold>\<open>The program.\<close> A transaction enters the pool (\<^verbatim>\<open>internal/txpool\<close>). The consensus engine
  (\<^verbatim>\<open>internal/consensus\<close>) proposes and votes on blocks; the chain (\<^verbatim>\<open>internal/blockchain\<close>) validates a
  block and hands its transactions to the executor (\<^verbatim>\<open>internal/state/executor\<close>), which changes balances,
  nonces and storage in the state database (\<^verbatim>\<open>internal/state/account\<close>) through the token operations
  (\<^verbatim>\<open>pkg/token\<close>) and the virtual machine (\<^verbatim>\<open>internal/vm\<close>). The state database keeps accounts as bytes
  in a Merkle-Patricia trie (\<^verbatim>\<open>internal/state/mpt\<close>) over a key-value store. Beside the ledger, AI tasks
  (\<^verbatim>\<open>pkg/task\<close>) wait in a pool of their own, are split into graphs of subtasks, dispatched to miners, and
  their results stand open to challenge. Miners are registered with what they can run (\<^verbatim>\<open>pkg/compute/registry\<close>),
  run models on a local server (\<^verbatim>\<open>pkg/compute/local\<close>) or share one model among several machines
  (\<^verbatim>\<open>pkg/compute/distributed\<close>). Nodes find each other, gossip and synchronise (\<^verbatim>\<open>internal/p2p\<close>), answer clients
  over JSON-RPC (\<^verbatim>\<open>internal/api/jsonrpc\<close>) and are put together in \<^verbatim>\<open>internal/node\<close>, \<^verbatim>\<open>cmd/aichain-node\<close> and, as a
  node with a web page and an own pool of tasks, \<^verbatim>\<open>cmd/aichain-web\<close>. A library of its own keeps the personality
  and the memories of a digital person (\<^verbatim>\<open>pkg/digitalhuman\<close>).

  \<^bold>\<open>Theories and code.\<close> Definitions carry the names of the Go functions in snake case; a record is a
  struct, its fields prefixed. Below, a theory of definitions is followed by those with its theorems.

  \<^item> \<open>Prelude\<close>: machine integers, outcomes of Go functions, big-endian codecs, iteration orders of maps.
    \<open>Float64\<close>: Go's \<open>float64\<close> as a dyadic fraction, rounded to 53 bits after each operation.
  \<^item> \<open>NibbleCodec\<close> (\<^verbatim>\<open>mpt/encoding.go\<close>), \<open>TrieNode\<close> (\<^verbatim>\<open>mpt/node.go\<close>), \<open>TrieOps\<close>, \<open>TrieCorrect\<close>, \<open>Trie\<close>
    (\<^verbatim>\<open>mpt/trie.go\<close>), \<open>NodeStore\<close>, \<open>NodeStoreCorrect\<close> (\<^verbatim>\<open>mpt/database.go\<close> and commit). The abstraction of a
    trie is \<open>lookup\<close>, the map from nibble paths to values; put, get and delete refine its update, reading
    and removal, which is the contract \<open>kv_store\<close>, and a commit can be read back.
  \<^item> \<open>ChainTypes\<close> (\<^verbatim>\<open>internal/types\<close>), \<open>AccountCodec\<close> (account bytes).
  \<^item> \<open>StateDB\<close>; \<open>StateDBCorrect\<close>, \<open>StateDBProps\<close>, \<open>StateCommit\<close>: state objects, journal, snapshots, commit
    and reload. A balance is a pointer into the store \<open>sd_ints\<close>, because the code shares and overwrites
    integers in place; \<open>view_bal\<close> and \<open>view_nonce\<close> are what a client sees.
  \<^item> \<open>Token\<close>; \<open>TokenProps\<close>: mint, burn, transfer, base fee, rewards, the constant-product pool.
  \<^item> \<open>Executor\<close>; \<open>ExecutorProps\<close>: validation and the handlers, and where the money of a transfer goes.
  \<^item> \<open>VM\<close>; \<open>VMProps\<close>: the opcode table and the interpreter, its gas bound and its panics.
  \<^item> \<open>TxPool\<close>; \<open>TxPoolProps\<close>, \<open>TxPoolReach\<close>: the pool as a state machine over method calls, the contract
    \<open>nonce_map\<close> of its per-account maps, and a mutex that can be asked for twice.
  \<^item> \<open>Consensus\<close>; \<open>ConsensusProps\<close>, \<open>ConsensusSafety\<close>: validators, votes and the engine as a step relation,
    the contract \<open>weighted_quorum\<close>, and what the engine can reach.
  \<^item> \<open>Blockchain\<close>; \<open>BlockchainProps\<close>: genesis, insertion and preparation of blocks, the fork tracker.
  \<^item> \<open>Tasks\<close>, \<open>VerifierProps\<close> (types, tiers, compute units, verifier); \<open>TaskDag\<close>, \<open>TaskDagProps\<close> (Kahn's
    algorithm twice); \<open>GoHeap\<close> (the library heap and the contract \<open>heap_order\<close>), \<open>TaskPool\<close>,
    \<open>TaskPoolProps\<close> (pool, change sets, prices); \<open>Dispatcher\<close>, \<open>DispatcherProps\<close>.
  \<^item> \<open>TrieIterator\<close>; \<open>TrieIteratorProps\<close> (\<^verbatim>\<open>mpt/iterator.go\<close>): the stack of frames as a slice with its capacity, since
    the code writes through pointers into it; which entries the iterator skips and repeats. \<open>MemoryDb\<close>
    (\<^verbatim>\<open>storage/memory.go\<close>) interprets \<open>kv_store\<close> and has the batches and iterators.
  \<^item> \<open>Float32\<close>, \<open>Float64Order\<close>, \<open>GoSlice\<close>, \<open>GoText\<close>: \<open>float32\<close>, the order of \<open>float64\<close>, slices with their bounds checks and
    the functions on strings that the theories below share.
  \<^item> Distributed inference (\<^verbatim>\<open>pkg/compute/distributed\<close>): \<open>Tensor\<close>, \<open>TensorProps\<close> (shapes, and the matrix product against its
    definition); \<open>Sharding\<close>, \<open>ShardingProps\<close> (plans and schedules partition the layers); \<open>Pipeline\<close>, \<open>PipelineProps\<close> (the
    stages as communicating steps, which never finish); \<open>AllReduce\<close>, \<open>AllReduceProps\<close>; \<open>Privacy\<close>, \<open>PrivacyProps\<close> (XOR shares:
    all of them give the secret, all but one give nothing); \<open>Coordinator\<close>, \<open>CoordinatorProps\<close>.
  \<^item> \<open>Registry\<close>; \<open>RegistryProps\<close>: miners, their index by tier and their reputation. \<open>LmClient\<close>, \<open>LocalManager\<close>;
    \<open>LocalProps\<close>: the model server's client with the contract \<open>model_runner\<close>, and what the manager counts.
  \<^item> Network: \<open>PeerManager\<close>, \<open>PeerManagerProps\<close> (scores, bans, pruning); \<open>Protocol\<close>, \<open>ProtocolProps\<close> (wire format, handlers,
    synchronisation with honest and other peers); \<open>Gossip\<close> (topics and subscriptions); \<open>CryptoWrap\<close> (keys and
    addresses).
  \<^item> Nodes: \<open>NodeWiring\<close>, \<open>NodeWiringProps\<close> (host, discovery, \<^verbatim>\<open>p2p/node.go\<close>, \<^verbatim>\<open>internal/node\<close>, \<^verbatim>\<open>internal/config\<close>: every early
    return with what it leaves open, and two nodes that refuse each other); \<open>FullNode\<close>, \<open>FullNodeProps\<close>
    (\<^verbatim>\<open>cmd/aichain-node\<close>: blocks and the phases of its run); \<open>JsonRpc\<close>, \<open>JsonRpcProps\<close> (dispatch of requests and the
    endpoints, which leave the ledger alone); \<open>WebNode\<close>, \<open>WebNodeProps\<close> (tasks, subtasks and two miners as steps under
    the node's lock, with the invariant of its counters).
  \<^item> \<open>DigitalHuman\<close>; \<open>DigitalHumanProps\<close>: traits and moods within their ranges, recall and forgetting of memories.

  \<^bold>\<open>Conventions.\<close> \<open>uint8\<close>, \<open>uint32\<close> and \<open>uint64\<close> keep their width and wrap; \<open>big.Int\<close> and, where no
  arithmetic comes near its bounds, \<open>int\<close> are integers. A nil pointer is \<open>None\<close>. A function with an
  error result is an \<open>outcome\<close>; one that keeps the state it has reached returns \<open>Inl\<close> the error or \<open>Inr\<close>
  the value beside the state. Aliasing is explicit where the code's behaviour depends on it (balances,
  pool reserves, blocks) and values stand for pointers that are never written through twice.

  \<^bold>\<open>Parameters.\<close> Code outside the repository is an argument: SHA-256 (\<open>sha\<close>), the clock (\<open>now\<close>),
  \<open>math.Exp\<close> and other functions of \<^verbatim>\<open>math\<close> (\<open>decay\<close> and the like), random bytes (\<open>rnd\<close>), the ciphers (\<open>seal\<close>, \<open>unseal\<close>) and
  signatures, the streams and answers of the network (\<open>network\<close>, \<open>router_api\<close>, \<open>net_library\<close>), HTTP replies and JSON
  decoders, the files of the system, the growth of a slice, the order \<open>sort.Slice\<close> leaves equal elements in (\<open>srt\<close>, with the contract
  \<open>go_sort\<close>), and the iteration order of a map (\<open>ord\<close> and its variants, with \<open>go_order\<close>: each key once).
  Theorems hold for every value of these that meets the contract; a witness gives one.

  \<^bold>\<open>Fuel and termination.\<close> The trie functions take \<open>2 * length key + 2\<close> calls, enough by
  \<open>look_enough\<close> and the correctness theorems, whose results are never \<open>None\<close>. A run of the virtual machine
  takes the gas left plus one turns, enough by \<open>vm_run_terminates\<close>. The walks of the fork tracker
  and the loops of Kahn's algorithm are partial functions into \<open>option\<close> that are proved to end. The loops that serve and
  ask for blocks (\<open>serve_blocks\<close>, \<open>sync_loop\<close>) and the iterator's \<open>advance\<close> are partial functions too, because they need
  not end; theorems say when they do. Loops over a heap take its length as fuel.

  \<^bold>\<open>Not modelled.\<close> The LevelDB binding and the getters of the libp2p host only pass calls on. The commands
  \<^verbatim>\<open>cmd/aichain\<close> and \<^verbatim>\<open>cmd/compute-test\<close> are scripts that call modelled operations in a row and print; of \<^verbatim>\<open>cmd/aichain-node\<close>
  the gossip of its fourth phase and all printing are left out, of the web node the HTTP exchange and the log.
  Goroutines are steps or events where they matter (consensus, pipeline, web node); a method that
  holds a mutex is atomic.
\<close>

end
